(* ===== verification/Prelude.thy ===== *)
theory Prelude
  imports Main "HOL-Library.Word"
begin

text \<open>
  What the component theories share: the model of Rust's fallible computations, of the bounds of its
  integer types and of the standard-library helpers the sources use (\<open>div_ceil\<close>,
  \<open>next_multiple_of\<close>, \<open>ilog2\<close>, \<open>step_by\<close>, \<open>chunks\<close>, \<open>rotate_left\<close>), with the lemmas on them.

  A Rust function that returns \<open>Result<T, E>\<close> is a function into \<open>('t, 'e) result\<close>: \<open>Ok\<close>, \<open>Err\<close>, or
  \<open>Panic\<close> for the panics of \<open>assert!\<close>, \<open>expect\<close>, indexing and checked arithmetic. A Rust
  \<open>Option<T>\<close> is a \<open>'t option\<close>. Unsigned machine integers are natural numbers, and every operation
  that can leave the range of its type has the range test written out.
\<close>

named_theorems walrus_simps \<open>unfoldings of the small operations of the model\<close>
named_theorems size_simps \<open>lengths of the vectors an operation returns\<close>

type_synonym byte = "8 word"
type_synonym bytes = "byte list"

subsection \<open>Results\<close>

datatype ('a, 'e) result = Ok 'a | Err 'e | Panic

fun and_then :: "('a, 'e) result \<Rightarrow> ('a \<Rightarrow> ('b, 'e) result) \<Rightarrow> ('b, 'e) result" where
  "and_then (Ok x) f = f x"
| "and_then (Err e) f = Err e"
| "and_then Panic f = Panic"

fun map_err :: "('e \<Rightarrow> 'f) \<Rightarrow> ('a, 'e) result \<Rightarrow> ('a, 'f) result" where
  "map_err f (Ok x) = Ok x"
| "map_err f (Err e) = Err (f e)"
| "map_err f Panic = Panic"

definition ensure :: "bool \<Rightarrow> 'e \<Rightarrow> (unit, 'e) result" where
  "ensure b e = (if b then Ok () else Err e)"

definition rust_assert :: "bool \<Rightarrow> (unit, 'e) result" where
  "rust_assert b = (if b then Ok () else Panic)"

fun expect :: "'a option \<Rightarrow> ('a, 'e) result" where
  "expect (Some x) = Ok x"
| "expect None = Panic"

fun ok_or :: "'a option \<Rightarrow> 'e \<Rightarrow> ('a, 'e) result" where
  "ok_or (Some x) e = Ok x"
| "ok_or None e = Err e"

fun is_ok :: "('a, 'e) result \<Rightarrow> bool" where
  "is_ok (Ok x) = True"
| "is_ok _ = False"

fun ok :: "('a, 'e) result \<Rightarrow> 'a option" where
  "ok (Ok x) = Some x"
| "ok _ = None"

lemma and_then_eq_Ok [simp]: "and_then m f = Ok y \<longleftrightarrow> (\<exists>x. m = Ok x \<and> f x = Ok y)"
  by (cases m) auto

lemma and_then_eq_Panic [simp]: "and_then m f = Panic \<longleftrightarrow> m = Panic \<or> (\<exists>x. m = Ok x \<and> f x = Panic)"
  by (cases m) auto

lemma and_then_eq_Err [simp]: "and_then m f = Err e \<longleftrightarrow> m = Err e \<or> (\<exists>x. m = Ok x \<and> f x = Err e)"
  by (cases m) auto

lemma ensure_simps [simp]:
  "ensure b e = Ok u \<longleftrightarrow> b" "ensure b e = Err e' \<longleftrightarrow> \<not> b \<and> e' = e" "ensure b e \<noteq> Panic"
  "ensure True e = Ok ()" "ensure False e = Err e"
  by (auto simp: ensure_def)

lemma rust_assert_simps [simp]:
  "rust_assert b = Ok u \<longleftrightarrow> b" "rust_assert b \<noteq> Err e" "rust_assert b = Panic \<longleftrightarrow> \<not> b"
  "rust_assert True = Ok ()" "rust_assert False = Panic"
  by (auto simp: rust_assert_def)

lemma expect_simps [simp]:
  "expect x = Ok y \<longleftrightarrow> x = Some y" "expect x \<noteq> Err e" "expect x = Panic \<longleftrightarrow> x = None"
  by (cases x; auto)+

lemma ok_or_simps [simp]:
  "ok_or x e = Ok y \<longleftrightarrow> x = Some y" "ok_or x e = Err e' \<longleftrightarrow> x = None \<and> e' = e" "ok_or x e \<noteq> Panic"
  by (cases x; auto)+

lemma map_err_simps [simp]:
  "map_err f m = Ok y \<longleftrightarrow> m = Ok y" "map_err f m = Panic \<longleftrightarrow> m = Panic"
  by (cases m; auto)+

lemma is_ok_iff: "is_ok m \<longleftrightarrow> (\<exists>x. m = Ok x)"
  by (cases m) auto

text \<open>Mapping a fallible function over a vector and stopping at the first failure, as
  \<open>collect::<Result<Vec<_>, _>>\<close> does.\<close>

fun try_map :: "('a \<Rightarrow> ('b, 'e) result) \<Rightarrow> 'a list \<Rightarrow> ('b list, 'e) result" where
  "try_map f [] = Ok []"
| "try_map f (x # xs) = and_then (f x) (\<lambda>y. and_then (try_map f xs) (\<lambda>ys. Ok (y # ys)))"

lemma try_map_Ok: "(\<And>x. x \<in> set xs \<Longrightarrow> f x = Ok (g x)) \<Longrightarrow> try_map f xs = Ok (map g xs)"
  by (induction xs) auto

lemma try_map_eq_Ok_iff: "try_map f xs = Ok ys \<longleftrightarrow> list_all2 (\<lambda>x y. f x = Ok y) xs ys"
  by (induction xs arbitrary: ys) (auto simp: list_all2_Cons1)

lemma and_then_cong: "(\<And>x. m = Ok x \<Longrightarrow> f x = g x) \<Longrightarrow> and_then m f = and_then m g"
  by (cases m) auto

lemma and_then_return: "and_then m Ok = m"
  by (cases m) auto

lemma and_then_assoc: "and_then (and_then m f) g = and_then m (\<lambda>x. and_then (f x) g)"
  by (cases m) auto

text \<open>Loops: \<open>try_fold f s xs\<close> runs the body \<open>f\<close> on a state for every element of an iterator, and \<open>zip_mut f xs ys\<close> is
  \<open>for (x, y) in xs.zip(ys.iter_mut())\<close>, where the body gives the new value of \<open>y\<close>. The rule for \<open>try_fold\<close> is the
  one of loop invariants.\<close>

fun try_fold :: "('s \<Rightarrow> 'a \<Rightarrow> ('s, 'e) result) \<Rightarrow> 's \<Rightarrow> 'a list \<Rightarrow> ('s, 'e) result" where
  "try_fold f s [] = Ok s"
| "try_fold f s (x # xs) = and_then (f s x) (\<lambda>s. try_fold f s xs)"

fun zip_mut :: "('a \<Rightarrow> 'b \<Rightarrow> ('b, 'e) result) \<Rightarrow> 'a list \<Rightarrow> 'b list \<Rightarrow> ('b list, 'e) result" where
  "zip_mut f (x # xs) (y # ys) = and_then (f x y) (\<lambda>y. and_then (zip_mut f xs ys) (\<lambda>ys. Ok (y # ys)))"
| "zip_mut f _ ys = Ok ys"

lemma try_fold_append: "try_fold f s (xs @ ys) = and_then (try_fold f s xs) (\<lambda>s. try_fold f s ys)"
proof (induction xs arbitrary: s)
  case (Cons x xs)
  then show ?case by (cases "f s x") simp_all
qed simp

lemma try_fold_invariant:
  assumes "\<And>k s. k < length xs \<Longrightarrow> I k s \<Longrightarrow> \<exists>s'. f s (xs ! k) = Ok s' \<and> I (Suc k) s'" "I 0 s"
  shows "\<exists>s'. try_fold f s xs = Ok s' \<and> I (length xs) s'"
  using assms
proof (induction xs arbitrary: s rule: rev_induct)
  case (snoc x xs)
  have "\<exists>s'. try_fold f s xs = Ok s' \<and> I (length xs) s'"
    by (rule snoc.IH [OF _ snoc.prems(2)]) (metis snoc.prems(1) less_SucI length_append_singleton nth_append)
  moreover have "I (length xs) t \<Longrightarrow> \<exists>s'. f t x = Ok s' \<and> I (Suc (length xs)) s'" for t
    using snoc.prems(1) [of "length xs"] by simp
  ultimately show ?case by (auto simp: try_fold_append and_then_return)
qed simp

text \<open>\<open>outcome P E Q m\<close>: a value of \<open>m\<close> satisfies \<open>P\<close>, an error \<open>E\<close>, and \<open>m\<close> panics only if \<open>Q\<close>; with the rules for sequences and loops.\<close>

definition outcome :: "('a \<Rightarrow> bool) \<Rightarrow> ('e \<Rightarrow> bool) \<Rightarrow> bool \<Rightarrow> ('a, 'e) result \<Rightarrow> bool" where
  "outcome P E Q m \<longleftrightarrow> (case m of Ok x \<Rightarrow> P x | Err e \<Rightarrow> E e | Panic \<Rightarrow> Q)"

lemma outcome_simps [simp]: "outcome P E Q (Ok x) \<longleftrightarrow> P x" "outcome P E Q (Err e) \<longleftrightarrow> E e" "outcome P E Q Panic \<longleftrightarrow> Q"
  by (simp_all add: outcome_def)

lemma outcome_mono:
  "outcome P E Q m \<Longrightarrow> (\<And>x. P x \<Longrightarrow> P' x) \<Longrightarrow> (\<And>e. E e \<Longrightarrow> E' e) \<Longrightarrow> (Q \<Longrightarrow> Q') \<Longrightarrow> outcome P' E' Q' m"
  by (cases m) auto

lemma outcome_and_then:
  "(m = Panic \<Longrightarrow> Q) \<Longrightarrow> (\<And>e. m = Err e \<Longrightarrow> E e) \<Longrightarrow> (\<And>x. m = Ok x \<Longrightarrow> outcome P E Q (f x)) \<Longrightarrow> outcome P E Q (and_then m f)"
  by (cases m) auto

lemma outcome_try_fold:
  assumes "\<And>k s. k < length xs \<Longrightarrow> I k s \<Longrightarrow> outcome (I (Suc k)) E Q (f s (xs ! k))" "I 0 s"
  shows "outcome (I (length xs)) E Q (try_fold f s xs)"
  using assms
proof (induction xs arbitrary: s rule: rev_induct)
  case (snoc x xs)
  have "outcome (I (length xs)) E Q (try_fold f s xs)"
    by (rule snoc.IH [OF _ snoc.prems(2)]) (metis snoc.prems(1) less_SucI length_append_singleton nth_append)
  moreover have "I (length xs) t \<Longrightarrow> outcome (I (Suc (length xs))) E Q (f t x)" for t
    using snoc.prems(1) [of "length xs"] by simp
  ultimately show ?case
    by (cases "try_fold f s xs") (auto simp: try_fold_append and_then_return)
qed simp

text \<open>A loop without a state that stops at the first failing check.\<close>

lemma try_fold_checks:
  assumes "\<And>x. x \<in> set xs \<Longrightarrow> f x = (if P x then Ok () else Err e)"
  shows "try_fold (\<lambda>_. f) () xs = (if \<forall>x\<in>set xs. P x then Ok () else Err e)"
  using assms by (induction xs) auto

text \<open>A loop whose state after \<open>k\<close> rounds is known.\<close>

lemma try_fold_states:
  assumes "\<And>k. k < length xs \<Longrightarrow> f (g k) (xs ! k) = Ok (g (Suc k))"
  shows "try_fold f (g 0) xs = Ok (g (length xs))"
  using try_fold_invariant [of xs "\<lambda>k s. s = g k" f "g 0"] assms by simp

lemma zip_mut_Ok:
  assumes "\<And>i. i < length xs \<Longrightarrow> i < length ys \<Longrightarrow> f (xs ! i) (ys ! i) = Ok (g i)"
  shows "zip_mut f xs ys = Ok (map (\<lambda>i. if i < length xs then g i else ys ! i) [0..<length ys])"
  using assms
proof (induction f xs ys arbitrary: g rule: zip_mut.induct)
  case (1 f x xs y ys)
  have hd: "f x y = Ok (g 0)" using 1(2) [of 0] by simp
  have tl: "zip_mut f xs ys = Ok (map (\<lambda>i. if i < length xs then g (Suc i) else ys ! i) [0..<length ys])"
    by (rule 1(1)) (use 1(2) in force)
  have upt: "[0..<length (y # ys)] = 0 # map Suc [0..<length ys]" by (simp add: map_Suc_upt upt_conv_Cons del: upt_Suc)
  show ?case unfolding upt by (simp add: hd tl comp_def)
qed (simp_all add: map_nth)

subsection \<open>Integer types\<close>

abbreviation U8_MAX :: nat where "U8_MAX \<equiv> 255"
abbreviation U16_MAX :: nat where "U16_MAX \<equiv> 65535"
abbreviation U32_MAX :: nat where "U32_MAX \<equiv> 4294967295"
abbreviation U64_MAX :: nat where "U64_MAX \<equiv> 18446744073709551615"

definition checked :: "nat \<Rightarrow> nat \<Rightarrow> nat option" where
  "checked hi x = (if x \<le> hi then Some x else None)"

lemma checked_eq_Some [simp]: "checked hi x = Some y \<longleftrightarrow> x \<le> hi \<and> y = x"
  by (auto simp: checked_def)

lemma checked_fits [simp]: "x \<le> hi \<Longrightarrow> checked hi x = Some x"
  by (simp add: checked_def)

lemma checked_eq_None [simp]: "checked hi x = None \<longleftrightarrow> hi < x"
  by (auto simp: checked_def)

definition checked_sub :: "nat \<Rightarrow> nat \<Rightarrow> nat option" where
  "checked_sub x y = (if y \<le> x then Some (x - y) else None)"

lemma checked_sub_simps [simp]:
  "checked_sub x y = Some z \<longleftrightarrow> y \<le> x \<and> z = x - y" "checked_sub x y = None \<longleftrightarrow> x < y"
  by (auto simp: checked_sub_def)

text \<open>Unsigned subtraction that panics below zero.\<close>

definition usub :: "nat \<Rightarrow> nat \<Rightarrow> (nat, 'e) result" where
  "usub x y = (if y \<le> x then Ok (x - y) else Panic)"

lemma usub_simps [simp]:
  "y \<le> x \<Longrightarrow> usub x y = Ok (x - y)" "usub x y = Ok z \<longleftrightarrow> y \<le> x \<and> z = x - y" "usub x y \<noteq> Err e"
  "usub x y = Panic \<longleftrightarrow> x < y"
  by (auto simp: usub_def)

definition div_ceil :: "nat \<Rightarrow> nat \<Rightarrow> nat" where
  "div_ceil a b = (if a mod b = 0 then a div b else a div b + 1)"

definition udiv :: "nat \<Rightarrow> nat \<Rightarrow> (nat, 'e) result" where
  "udiv a b = (if b = 0 then Panic else Ok (a div b))"

definition umod :: "nat \<Rightarrow> nat \<Rightarrow> (nat, 'e) result" where
  "umod a b = (if b = 0 then Panic else Ok (a mod b))"

definition udiv_ceil :: "nat \<Rightarrow> nat \<Rightarrow> (nat, 'e) result" where
  "udiv_ceil a b = (if b = 0 then Panic else Ok (div_ceil a b))"

definition next_multiple_of :: "nat \<Rightarrow> nat \<Rightarrow> nat" where
  "next_multiple_of a b = (if a mod b = 0 then a else a + (b - a mod b))"

lemma div_ceil_le_iff: "0 < b \<Longrightarrow> div_ceil a b \<le> c \<longleftrightarrow> a \<le> b * c"
proof -
  assume b: "0 < b"
  show ?thesis
  proof (cases "a mod b = 0")
    case True
    then obtain q where "a = b * q" by blast
    then show ?thesis using b by (simp add: div_ceil_def)
  next
    case False
    have "a div b + 1 \<le> c \<longleftrightarrow> a div b < c" by (simp add: Suc_le_eq)
    also have "\<dots> \<longleftrightarrow> a < c * b" using b by (simp add: div_less_iff_less_mult)
    also have "\<dots> \<longleftrightarrow> a \<le> b * c" using False by (auto simp: mult.commute le_less)
    finally show ?thesis using False by (simp add: div_ceil_def)
  qed
qed

lemma div_ceil_pos: "0 < a \<Longrightarrow> 0 < b \<Longrightarrow> 0 < div_ceil a b"
  using div_ceil_le_iff [of b a 0] by auto

lemma next_multiple_of_eq: "0 < b \<Longrightarrow> a mod b \<noteq> 0 \<Longrightarrow> next_multiple_of a b = (a div b + 1) * b"
proof -
  assume b: "0 < b" and r: "a mod b \<noteq> 0"
  have "a mod b \<le> b" using b by (simp add: less_imp_le)
  then have "a div b * b + a mod b + (b - a mod b) = a div b * b + b" by linarith
  then have "a + (b - a mod b) = (a div b + 1) * b" by (simp only: div_mult_mod_eq add_mult_distrib mult_1)
  then show ?thesis using r by (simp add: next_multiple_of_def)
qed

lemma next_multiple_of_dvd [simp]: "0 < b \<Longrightarrow> b dvd next_multiple_of a b"
proof (cases "a mod b = 0")
  case False
  assume "0 < b"
  from next_multiple_of_eq [OF this False] show ?thesis by simp
qed (simp add: next_multiple_of_def mod_eq_0_iff_dvd)

lemma next_multiple_of_ge: "a \<le> next_multiple_of a b"
  by (simp add: next_multiple_of_def)

lemma next_multiple_of_least: "b dvd c \<Longrightarrow> a \<le> c \<Longrightarrow> next_multiple_of a b \<le> c"
proof (cases "a mod b = 0")
  case False
  assume "b dvd c" "a \<le> c"
  then obtain k where c: "c = b * k" by blast
  have b: "0 < b" using False c \<open>a \<le> c\<close> by (cases "b = 0") auto
  have "a < k * b" using False c \<open>a \<le> c\<close> by (auto simp: le_less mult.commute)
  then have "a div b < k" using b by (simp add: div_less_iff_less_mult)
  then have "(a div b + 1) * b \<le> k * b" by (intro mult_le_mono1) simp
  then show ?thesis using next_multiple_of_eq [OF b False] c by (simp add: mult.commute)
qed (simp add: next_multiple_of_def)

lemma next_multiple_of_pos: "0 < a \<Longrightarrow> 0 < next_multiple_of a b"
  using next_multiple_of_ge [of a b] by simp

fun ilog2 :: "nat \<Rightarrow> nat" where
  "ilog2 n = (if n < 2 then 0 else Suc (ilog2 (n div 2)))"

declare ilog2.simps [simp del]

subsection \<open>Decimal numbers\<close>

text \<open>Printing of an unsigned integer in decimal, and \<open>str::parse\<close> of one with the largest value \<open>hi\<close>:
  an optional leading plus sign, then at least one digit, and an error on overflow.\<close>

definition digit_char :: "nat \<Rightarrow> char" where
  "digit_char d = char_of (48 + d)"

fun show_nat :: "nat \<Rightarrow> string" where
  "show_nat n = (if n < 10 then [digit_char n] else show_nat (n div 10) @ [digit_char (n mod 10)])"

declare show_nat.simps [simp del]

definition char_digit :: "char \<Rightarrow> nat option" where
  "char_digit c = (if 48 \<le> (of_char c :: nat) \<and> (of_char c :: nat) \<le> 57 then Some (of_char c - 48) else None)"

fun parse_digits :: "nat \<Rightarrow> nat \<Rightarrow> string \<Rightarrow> nat option" where
  "parse_digits hi acc [] = Some acc"
| "parse_digits hi acc (c # cs) =
    (case char_digit c of None \<Rightarrow> None
     | Some d \<Rightarrow> (case checked hi (10 * acc + d) of None \<Rightarrow> None | Some acc' \<Rightarrow> parse_digits hi acc' cs))"

definition parse_uint :: "nat \<Rightarrow> string \<Rightarrow> nat option" where
  "parse_uint hi s =
    (let digits = (if s \<noteq> [] \<and> hd s = CHR ''+'' then tl s else s)
     in if digits = [] then None else parse_digits hi 0 digits)"

lemma char_digit_digit_char [simp]: "d < 10 \<Longrightarrow> char_digit (digit_char d) = Some d"
  by (simp add: char_digit_def digit_char_def)

lemma parse_digits_append:
  "parse_digits hi acc (xs @ ys) = (case parse_digits hi acc xs of None \<Rightarrow> None | Some a \<Rightarrow> parse_digits hi a ys)"
  by (induction hi acc xs rule: parse_digits.induct) (auto split: option.splits)

lemma parse_digits_show_nat: "n \<le> hi \<Longrightarrow> parse_digits hi 0 (show_nat n) = Some n"
proof (induction n rule: show_nat.induct)
  case (1 n)
  show ?case
  proof (cases "n < 10")
    case True
    then show ?thesis using 1(2) by (simp add: show_nat.simps [of n])
  next
    case False
    then have "parse_digits hi 0 (show_nat (n div 10)) = Some (n div 10)" using 1 by simp
    then show ?thesis using False 1(2) by (simp add: show_nat.simps [of n] parse_digits_append)
  qed
qed

lemma show_nat_digits: "c \<in> set (show_nat n) \<Longrightarrow> char_digit c \<noteq> None"
proof (induction n rule: show_nat.induct)
  case (1 n)
  show ?case
  proof (cases "n < 10")
    case True
    then show ?thesis using 1(2) by (simp add: show_nat.simps [of n])
  next
    case False
    then show ?thesis using 1 by (auto simp: show_nat.simps [of n])
  qed
qed

lemma show_nat_nonempty [simp]: "show_nat n \<noteq> []"
  by (subst show_nat.simps) simp

lemma parse_uint_show_nat: "n \<le> hi \<Longrightarrow> parse_uint hi (show_nat n) = Some n"
proof -
  assume n: "n \<le> hi"
  have "hd (show_nat n) \<noteq> CHR ''+''"
    using show_nat_digits [of "hd (show_nat n)" n] by (auto simp: char_digit_def)
  then show ?thesis using parse_digits_show_nat [OF n] by (simp add: parse_uint_def)
qed

lemma parse_digits_le: "parse_digits hi acc s = Some n \<Longrightarrow> acc \<le> hi \<Longrightarrow> n \<le> hi"
  by (induction hi acc s rule: parse_digits.induct) (auto split: option.splits)

lemma parse_uint_le: "parse_uint hi s = Some n \<Longrightarrow> n \<le> hi"
  by (auto simp: parse_uint_def Let_def split: if_splits dest: parse_digits_le)

fun split_once :: "char \<Rightarrow> string \<Rightarrow> (string \<times> string) option" where
  "split_once d [] = None"
| "split_once d (c # cs) =
    (if c = d then Some ([], cs) else (case split_once d cs of None \<Rightarrow> None | Some (a, b) \<Rightarrow> Some (c # a, b)))"

lemma split_once_append: "d \<notin> set xs \<Longrightarrow> split_once d (xs @ d # ys) = Some (xs, ys)"
  by (induction xs) auto

subsection \<open>Chunks\<close>

function chunks :: "nat \<Rightarrow> 'a list \<Rightarrow> 'a list list" where
  "chunks n xs = (if n = 0 \<or> xs = [] then [] else take n xs # chunks n (drop n xs))"
  by pat_completeness auto
termination
  by (relation "measure (\<lambda>(n, xs). length xs)") (auto simp: length_greater_0_conv [symmetric] simp del: length_greater_0_conv)

declare chunks.simps [simp del]

lemma chunks_Nil [simp]: "chunks n [] = []" "chunks 0 xs = []"
  by (simp_all add: chunks.simps)

lemma chunks_step: "0 < n \<Longrightarrow> length x = n \<Longrightarrow> chunks n (x @ xs) = x # chunks n xs"
  by (subst chunks.simps) auto

lemma concat_chunks: "0 < n \<Longrightarrow> concat (chunks n xs) = xs"
  by (induction n xs rule: chunks.induct) (subst chunks.simps, auto)

lemma chunks_concat: "0 < n \<Longrightarrow> (\<And>x. x \<in> set xss \<Longrightarrow> length x = n) \<Longrightarrow> chunks n (concat xss) = xss"
  by (induction xss) (auto simp: chunks_step)

lemma length_chunks: "0 < n \<Longrightarrow> n dvd length xs \<Longrightarrow> length (chunks n xs) = length xs div n"
proof (induction n xs rule: chunks.induct)
  case (1 n xs)
  show ?case
  proof (cases "xs = []")
    case False
    then have "n \<le> length xs" using 1(3) by (simp add: dvd_imp_le)
    moreover from this have "length (chunks n (drop n xs)) = (length xs - n) div n"
      using 1 False by (simp add: dvd_diff_nat)
    ultimately show ?thesis using False 1(2) by (subst chunks.simps) (simp add: le_div_geq)
  qed simp
qed

lemma chunks_lengths: "0 < n \<Longrightarrow> n dvd length xs \<Longrightarrow> c \<in> set (chunks n xs) \<Longrightarrow> length c = n"
proof (induction n xs rule: chunks.induct)
  case (1 n xs)
  then have ne: "xs \<noteq> []" by auto
  then have "n \<le> length xs" using 1(3) by (simp add: dvd_imp_le)
  then show ?case using 1 ne by (subst (asm) (2) chunks.simps) (auto simp: dvd_diff_nat)
qed

lemma chunks_nth: "0 < n \<Longrightarrow> n dvd length xs \<Longrightarrow> i < length xs div n \<Longrightarrow> chunks n xs ! i = take n (drop (n * i) xs)"
proof (induction n xs arbitrary: i rule: chunks.induct)
  case (1 n xs)
  then have ne: "xs \<noteq> []" by auto
  then have le: "n \<le> length xs" using 1(3) by (simp add: dvd_imp_le)
  show ?case
  proof (cases i)
    case 0
    then show ?thesis using ne 1(2) by (subst chunks.simps) simp
  next
    case (Suc j)
    then have "chunks n (drop n xs) ! j = take n (drop (n * j) (drop n xs))"
      using 1 ne le by (intro 1(1)) (auto simp: dvd_diff_nat le_div_geq)
    then show ?thesis using Suc ne 1(2) by (subst chunks.simps) (simp add: add.commute)
  qed
qed

lemma chunks_append: "0 < n \<Longrightarrow> n dvd length xs \<Longrightarrow> chunks n (xs @ ys) = chunks n xs @ chunks n ys"
proof (induction n xs rule: chunks.induct)
  case (1 n xs)
  show ?case
  proof (cases "xs = []")
    case False
    then have le: "n \<le> length xs" using 1(3) by (simp add: dvd_imp_le)
    then have "chunks n (drop n xs @ ys) = chunks n (drop n xs) @ chunks n ys"
      using 1 False by (intro 1(1)) (auto simp: dvd_diff_nat)
    then show ?thesis using False le 1(2)
      by (subst chunks.simps [of n "xs @ ys"], subst chunks.simps [of n xs]) simp
  qed simp
qed

text \<open>Two vectors of chunks with the same chunks are equal.\<close>

lemma eq_of_chunks: "0 < n \<Longrightarrow> chunks n xs = chunks n ys \<Longrightarrow> xs = ys"
  using concat_chunks by metis

lemma length_concat_const: "(\<And>x. x \<in> set xss \<Longrightarrow> length x = n) \<Longrightarrow> length (concat xss) = length xss * n"
  by (induction xss) auto

text \<open>A vector whose length is no multiple of \<open>n\<close> has a shorter last chunk.\<close>

lemma length_chunks_gr: "0 < n \<Longrightarrow> i < length (chunks n xs) \<longleftrightarrow> n * i < length xs"
proof (induction n xs arbitrary: i rule: chunks.induct)
  case (1 n xs)
  show ?case
  proof (cases "xs = []")
    case False
    show ?thesis
    proof (cases i)
      case (Suc j)
      have "j < length (chunks n (drop n xs)) \<longleftrightarrow> n * j < length (drop n xs)" using 1 False by simp
      then show ?thesis using False Suc 1(2) by (subst chunks.simps) auto
    qed (use False 1(2) in \<open>subst chunks.simps, auto\<close>)
  qed simp
qed

lemma chunks_nth_general: "0 < n \<Longrightarrow> i < length (chunks n xs) \<Longrightarrow> chunks n xs ! i = take n (drop (n * i) xs)"
proof (induction n xs arbitrary: i rule: chunks.induct)
  case (1 n xs)
  then have ne: "xs \<noteq> []" by auto
  show ?case
  proof (cases i)
    case (Suc j)
    have "j < length (chunks n (drop n xs))" using 1(2,3) Suc by (simp add: length_chunks_gr less_diff_conv ac_simps)
    then have "chunks n (drop n xs) ! j = take n (drop (n * j) (drop n xs))" using 1(1,2) ne by simp
    then show ?thesis using ne Suc 1(2) by (subst chunks.simps) (simp add: ac_simps)
  qed (use ne 1(2) in \<open>subst chunks.simps, simp\<close>)
qed

end
