(* ===== verification/Bft.thy ===== *)
theory Bft
  imports Prelude
begin

text \<open>
  The Byzantine-fault-tolerance arithmetic of \<open>crates/walrus-core/src/bft.rs\<close>. The argument of both
  functions is a \<open>NonZeroU16\<close>, so \<open>n - 1\<close> does not underflow where \<open>0 < n\<close>; the \<open>expect\<close> in
  \<open>min_n_correct\<close> is discharged by \<open>min_n_correct_pos\<close>.
\<close>

definition max_n_faulty :: "nat \<Rightarrow> nat" where
  "max_n_faulty n = (n - 1) div 3"

definition min_n_correct :: "nat \<Rightarrow> nat" where
  "min_n_correct n = n - max_n_faulty n"

lemma max_n_faulty_less: "0 < n \<Longrightarrow> 3 * max_n_faulty n < n"
  unfolding max_n_faulty_def by linarith

lemma max_n_faulty_max: "3 * f < n \<Longrightarrow> f \<le> max_n_faulty n"
  unfolding max_n_faulty_def by linarith

lemma min_n_correct_pos [simp]: "0 < n \<Longrightarrow> 0 < min_n_correct n"
  using max_n_faulty_less [of n] unfolding min_n_correct_def by linarith

lemma min_n_correct_le: "min_n_correct n \<le> n"
  by (simp add: min_n_correct_def)

lemma min_n_correct_of_3f1: "min_n_correct (3 * f + 1) = 2 * f + 1"
  by (simp add: min_n_correct_def max_n_faulty_def)

lemma card_Int_lower: "finite U \<Longrightarrow> A \<subseteq> U \<Longrightarrow> B \<subseteq> U \<Longrightarrow> card A + card B \<le> card U + card (A \<inter> B)"
proof -
  assume U: "finite U" "A \<subseteq> U" "B \<subseteq> U"
  then have fin: "finite A" "finite B" by (auto intro: finite_subset)
  have "card A + card B = card (A \<union> B) + card (A \<inter> B)" by (rule card_Un_Int [OF fin])
  also have "card (A \<union> B) \<le> card U" using U by (intro card_mono) auto
  finally show ?thesis by simp
qed

lemma quorum_overlap:
  assumes "0 < n" "A \<subseteq> {..<n}" "B \<subseteq> {..<n}" "min_n_correct n \<le> card A" "min_n_correct n \<le> card B"
  shows "max_n_faulty n < card (A \<inter> B)"
proof -
  have "card A + card B \<le> n + card (A \<inter> B)"
    using card_Int_lower [of "{..<n}" A B] assms(2,3) by simp
  then show ?thesis using assms(4,5) max_n_faulty_less [OF assms(1)] by (simp add: min_n_correct_def)
qed

end
