(* ===== verification/Axis.thy ===== *)
theory Axis
  imports Prelude
begin

text \<open>
  The encoding axes of \<open>crates/walrus-core/src/by_axis.rs\<close> and \<open>encoding/common.rs\<close>. The marker types
  \<open>Primary\<close> and \<open>Secondary\<close> of the trait \<open>EncodingAxis\<close>, by which the sources parameterise slivers
  and symbols, are the two values of \<open>axis\<close>; a function generic in an axis takes it as an argument.
\<close>

datatype axis = Primary | Secondary

fun orthogonal :: "axis \<Rightarrow> axis" where
  "orthogonal Primary = Secondary"
| "orthogonal Secondary = Primary"

definition is_primary :: "axis \<Rightarrow> bool" where
  "is_primary a \<longleftrightarrow> a = Primary"

datatype ('a, 'b) by_axis = PrimaryV 'a | SecondaryV 'b

fun by_axis_type :: "('a, 'b) by_axis \<Rightarrow> axis" where
  "by_axis_type (PrimaryV _) = Primary"
| "by_axis_type (SecondaryV _) = Secondary"

fun by_axis_map :: "('a, 'b) by_axis \<Rightarrow> ('a \<Rightarrow> 'c) \<Rightarrow> ('b \<Rightarrow> 'd) \<Rightarrow> ('c, 'd) by_axis" where
  "by_axis_map (PrimaryV x) f g = PrimaryV (f x)"
| "by_axis_map (SecondaryV y) f g = SecondaryV (g y)"

lemma orthogonal_orthogonal [simp]: "orthogonal (orthogonal a) = a"
  by (cases a) auto

lemma orthogonal_neq [simp]: "orthogonal a \<noteq> a" "a \<noteq> orthogonal a"
  by (cases a; simp)+

lemma by_axis_type_map [simp]: "by_axis_type (by_axis_map v f g) = by_axis_type v"
  by (cases v) auto

end
