(* ===== verification/Merkle.thy ===== *)
theory Merkle
  imports Prelude
begin

text \<open>
  The Merkle tree of \<open>crates/walrus-core/src/merkle.rs\<close>. The hash function is the type parameter
  \<open>T: HashFunction<32>\<close> of the source and here the argument \<open>h\<close> of every definition; that its
  digests have 32 bytes is the hypothesis \<open>digest32\<close>. A \<open>Node::Digest\<close> holds a byte array of length 32,
  the invariant \<open>node_ok\<close>.

  The lemmas relate the tree, which the code keeps as one flat vector filled level by level, to the
  recursive description \<open>lift_level\<close> of its levels, and show from it that the proofs the tree hands
  out are accepted and that an accepted proof binds the leaf: anything else exhibits a collision
  of \<open>h\<close> between an input of the verifier and one of the tree, or a preimage of the zero digest.
\<close>

subsection \<open>Nodes and hashes\<close>

type_synonym hash_fun = "bytes \<Rightarrow> bytes"

definition DIGEST_LEN :: nat where "DIGEST_LEN = 32"
definition LEAF_PREFIX :: bytes where "LEAF_PREFIX = [0]"
definition INNER_PREFIX :: bytes where "INNER_PREFIX = [1]"
definition EMPTY_NODE :: bytes where "EMPTY_NODE = replicate DIGEST_LEN 0"

datatype merkle_proof_error = PathLengthTooLarge | LeafIndexOutOfBounds nat | RootMismatch

datatype node = Empty | Digest bytes

fun node_bytes :: "node \<Rightarrow> bytes" where
  "node_bytes Empty = EMPTY_NODE"
| "node_bytes (Digest val) = val"

definition leaf_hash :: "hash_fun \<Rightarrow> bytes \<Rightarrow> node" where
  "leaf_hash h input = Digest (h (LEAF_PREFIX @ input))"

definition inner_hash :: "hash_fun \<Rightarrow> node \<Rightarrow> node \<Rightarrow> node" where
  "inner_hash h left right = Digest (h (INNER_PREFIX @ node_bytes left @ node_bytes right))"

subsection \<open>Tree sizes\<close>

function n_nodes_loop :: "nat \<Rightarrow> nat \<Rightarrow> nat" where
  "n_nodes_loop lvl_nodes tot_nodes =
    (if lvl_nodes > 1 then
       let lvl = lvl_nodes + lvl_nodes mod 2 in n_nodes_loop (lvl div 2) (tot_nodes + lvl)
     else tot_nodes + lvl_nodes)"
  by pat_completeness auto
termination
  by (relation "measure fst") auto

declare n_nodes_loop.simps [simp del]

definition n_nodes :: "nat \<Rightarrow> nat" where
  "n_nodes n_leaves = n_nodes_loop n_leaves 0"

definition path_length :: "nat \<Rightarrow> nat" where
  "path_length n_leaves = (if n_leaves \<le> 1 then 0 else ilog2 (n_leaves - 1) + 1)"

subsection \<open>Proofs\<close>

record merkle_proof =
  path :: "node list"

fun compute_root_loop :: "hash_fun \<Rightarrow> node \<Rightarrow> nat \<Rightarrow> node list \<Rightarrow> node" where
  "compute_root_loop h current_hash level_index [] = current_hash"
| "compute_root_loop h current_hash level_index (sibling # siblings) =
    compute_root_loop h
      (if level_index mod 2 = 0 then inner_hash h current_hash sibling
       else inner_hash h sibling current_hash)
      (level_index div 2) siblings"

definition compute_root ::
  "hash_fun \<Rightarrow> merkle_proof \<Rightarrow> bytes \<Rightarrow> nat \<Rightarrow> (node, merkle_proof_error) result" where
  "compute_root h self leaf leaf_index =
    (if length (path self) \<ge> 64 then Panic
     else if leaf_index div 2 ^ length (path self) \<noteq> 0 then Err (LeafIndexOutOfBounds leaf_index)
     else Ok (compute_root_loop h (leaf_hash h leaf) leaf_index (path self)))"

definition check_path_length :: "merkle_proof \<Rightarrow> nat \<Rightarrow> (unit, merkle_proof_error) result" where
  "check_path_length self max_path_length =
    (if length (path self) > max_path_length then Err PathLengthTooLarge else Ok ())"

definition verify_proof ::
  "hash_fun \<Rightarrow> merkle_proof \<Rightarrow> node \<Rightarrow> nat \<Rightarrow> bytes \<Rightarrow> nat \<Rightarrow> (unit, merkle_proof_error) result" where
  "verify_proof h self rt leaf_count leaf leaf_index =
    and_then (check_path_length self (path_length leaf_count)) (\<lambda>_.
    and_then (compute_root h self leaf leaf_index) (\<lambda>computed.
    ensure (computed = rt) RootMismatch))"

subsection \<open>The tree\<close>

record merkle_tree =
  nodes :: "node list"
  n_leaves :: nat

definition step_by2 :: "nat \<Rightarrow> nat \<Rightarrow> nat list" where
  "step_by2 a b = map (\<lambda>k. a + 2 * k) [0..<(b - a + 1) div 2]"

definition push_parents :: "hash_fun \<Rightarrow> nat \<Rightarrow> nat \<Rightarrow> node list \<Rightarrow> node list" where
  "push_parents h a b ns =
    fold (\<lambda>index ns. ns @ [inner_hash h (ns ! index) (ns ! (index + 1))]) (step_by2 a b) ns"

function build_loop :: "hash_fun \<Rightarrow> node list \<Rightarrow> nat \<Rightarrow> nat \<Rightarrow> node list" where
  "build_loop h ns level_nodes prev_level_index =
    (if level_nodes > 1 then
       let (ns, level_nodes) =
             (if level_nodes mod 2 = 1 then (ns @ [Empty], level_nodes + 1) else (ns, level_nodes));
           new_level_index = prev_level_index + level_nodes;
           ns = push_parents h prev_level_index new_level_index ns
       in build_loop h ns (level_nodes div 2) new_level_index
     else ns)"
  by pat_completeness auto
termination
  by (relation "measure (\<lambda>(h, ns, level_nodes, i). level_nodes)") (auto split: if_splits)

declare build_loop.simps [simp del]

definition build_from_leaf_hashes :: "hash_fun \<Rightarrow> node list \<Rightarrow> merkle_tree" where
  "build_from_leaf_hashes h hashes =
    \<lparr>nodes = build_loop h hashes (length hashes) 0, n_leaves = length hashes\<rparr>"

definition build :: "hash_fun \<Rightarrow> bytes list \<Rightarrow> merkle_tree" where
  "build h leaves = build_from_leaf_hashes h (map (leaf_hash h) leaves)"

definition root :: "merkle_tree \<Rightarrow> node" where
  "root self = (if nodes self = [] then Empty else last (nodes self))"

function get_proof_loop ::
  "node list \<Rightarrow> nat \<Rightarrow> nat \<Rightarrow> nat \<Rightarrow> node list \<Rightarrow> (node list, merkle_proof_error) result" where
  "get_proof_loop ns level_index n_level level_base_index acc =
    (if n_level > 1 then
       let n_level = next_multiple_of n_level 2;
           sibling_index = (if level_index mod 2 = 0 then level_base_index + level_index + 1
                            else level_base_index + level_index - 1)
       in if sibling_index < length ns then
            get_proof_loop ns (level_index div 2) (n_level div 2) (level_base_index + n_level)
              (acc @ [ns ! sibling_index])
          else Panic
     else Ok acc)"
  by pat_completeness auto
termination
  by (relation "measure (\<lambda>(ns, i, n_level, b, acc). n_level)") (auto simp: next_multiple_of_def)

declare get_proof_loop.simps [simp del]

definition get_proof :: "merkle_tree \<Rightarrow> nat \<Rightarrow> (merkle_proof, merkle_proof_error) result" where
  "get_proof self leaf_index =
    (if leaf_index \<ge> n_leaves self then Err (LeafIndexOutOfBounds leaf_index)
     else and_then (get_proof_loop (nodes self) leaf_index (n_leaves self) 0 [])
            (\<lambda>p. Ok \<lparr>path = p\<rparr>))"

subsection \<open>The levels of the tree\<close>

definition digest32 :: "hash_fun \<Rightarrow> bool" where
  "digest32 h \<longleftrightarrow> (\<forall>x. length (h x) = DIGEST_LEN)"

definition node_ok :: "node \<Rightarrow> bool" where
  "node_ok n \<longleftrightarrow> length (node_bytes n) = DIGEST_LEN"

definition pad_level :: "node list \<Rightarrow> node list" where
  "pad_level l = (if length l mod 2 = 1 then l @ [Empty] else l)"

definition pair_input :: "node list \<Rightarrow> nat \<Rightarrow> bytes" where
  "pair_input l k = INNER_PREFIX @ node_bytes (pad_level l ! (2 * k)) @ node_bytes (pad_level l ! (2 * k + 1))"

definition lift_level :: "hash_fun \<Rightarrow> node list \<Rightarrow> node list" where
  "lift_level h l = map (\<lambda>k. Digest (h (pair_input l k))) [0..<(length l + 1) div 2]"

lemma length_pad_level [simp]: "length (pad_level l) = next_multiple_of (length l) 2"
  by (simp add: pad_level_def next_multiple_of_def)

lemma next_multiple_of_2: "next_multiple_of n 2 = 2 * ((n + 1) div 2)"
  by (simp add: next_multiple_of_def) presburger

lemma length_lift_level [simp]: "length (lift_level h l) = (length l + 1) div 2"
  by (simp add: lift_level_def)

lemma lift_level_nth: "k < (length l + 1) div 2 \<Longrightarrow> lift_level h l ! k = Digest (h (pair_input l k))"
  by (simp add: lift_level_def)

lemma lift_level_nonempty [simp]: "l \<noteq> [] \<Longrightarrow> lift_level h l \<noteq> []"
  by (cases l) (auto simp: lift_level_def)

lemma pad_level_nth: "i < length l \<Longrightarrow> pad_level l ! i = l ! i"
  by (simp add: pad_level_def nth_append)

lemma pad_level_nth_out: "length l \<le> i \<Longrightarrow> i < length (pad_level l) \<Longrightarrow> pad_level l ! i = Empty"
  by (auto simp: pad_level_def nth_append next_multiple_of_def split: if_splits)

lemma node_ok_Empty [simp]: "node_ok Empty"
  by (simp add: node_ok_def EMPTY_NODE_def)

lemma node_ok_hash [simp]: "digest32 h \<Longrightarrow> node_ok (Digest (h x))"
  by (simp add: node_ok_def digest32_def)

lemma node_ok_lift: "digest32 h \<Longrightarrow> n \<in> set (lift_level h l) \<Longrightarrow> node_ok n"
  by (auto simp: lift_level_def)

lemma node_ok_pad: "\<forall>n\<in>set l. node_ok n \<Longrightarrow> i < length (pad_level l) \<Longrightarrow> node_ok (pad_level l ! i)"
  by (cases "i < length l") (auto simp: pad_level_nth pad_level_nth_out simp del: length_pad_level)

function tree_nodes :: "hash_fun \<Rightarrow> node list \<Rightarrow> node list" where
  "tree_nodes h l = (if length l > 1 then pad_level l @ tree_nodes h (lift_level h l) else l)"
  by pat_completeness auto
termination
  by (relation "measure (\<lambda>(h, l). length l)") auto

function tree_root :: "hash_fun \<Rightarrow> node list \<Rightarrow> node" where
  "tree_root h l = (if length l > 1 then tree_root h (lift_level h l) else if l = [] then Empty else hd l)"
  by pat_completeness auto
termination
  by (relation "measure (\<lambda>(h, l). length l)") auto

function tree_path :: "hash_fun \<Rightarrow> node list \<Rightarrow> nat \<Rightarrow> node list" where
  "tree_path h l i =
    (if length l > 1 then
       pad_level l ! (if i mod 2 = 0 then i + 1 else i - 1) # tree_path h (lift_level h l) (i div 2)
     else [])"
  by pat_completeness auto
termination
  by (relation "measure (\<lambda>(h, l, i). length l)") auto

declare tree_nodes.simps [simp del] tree_root.simps [simp del] tree_path.simps [simp del]

subsection \<open>The flat vector holds the levels\<close>

lemma step_by2_eq: "step_by2 a (a + 2 * m) = map (\<lambda>k. a + 2 * k) [0..<m]"
  by (simp add: step_by2_def)

lemma push_fold:
  "\<forall>i\<in>set is. i + 1 < length ns \<Longrightarrow>
    fold (\<lambda>index ns. ns @ [inner_hash h (ns ! index) (ns ! (index + 1))]) is ns =
    ns @ map (\<lambda>i. inner_hash h (ns ! i) (ns ! (i + 1))) is"
proof (induction "is" arbitrary: ns)
  case (Cons i "is")
  let ?ns = "ns @ [inner_hash h (ns ! i) (ns ! (i + 1))]"
  have "map (\<lambda>i. inner_hash h (?ns ! i) (?ns ! (i + 1))) is = map (\<lambda>i. inner_hash h (ns ! i) (ns ! (i + 1))) is"
    using Cons.prems by (auto simp: nth_append)
  moreover have "\<forall>i\<in>set is. i + 1 < length ?ns" using Cons.prems by auto
  ultimately show ?case using Cons.IH [of ?ns] by (simp only: fold_Cons o_apply append_assoc append_Cons append_Nil list.map)
qed simp

lemma push_parents_level:
  "push_parents h (length pre) (length pre + length (pad_level l)) (pre @ pad_level l)
    = (pre @ pad_level l) @ lift_level h l"
proof -
  let ?m = "(length l + 1) div 2" and ?p = "length pre"
  have len: "length (pad_level l) = 2 * ?m" by (simp add: next_multiple_of_2)
  have "push_parents h ?p (?p + length (pad_level l)) (pre @ pad_level l) = (pre @ pad_level l) @
      map (\<lambda>i. inner_hash h ((pre @ pad_level l) ! i) ((pre @ pad_level l) ! (i + 1))) (map (\<lambda>k. ?p + 2 * k) [0..<?m])"
    unfolding push_parents_def len step_by2_eq
    by (rule push_fold) (auto simp del: length_pad_level simp: len)
  also have "map (\<lambda>i. inner_hash h ((pre @ pad_level l) ! i) ((pre @ pad_level l) ! (i + 1))) (map (\<lambda>k. ?p + 2 * k) [0..<?m])
      = lift_level h l"
    by (simp add: lift_level_def inner_hash_def pair_input_def nth_append)
  finally show ?thesis .
qed

lemma build_loop_levels: "build_loop h (pre @ l) (length l) (length pre) = pre @ tree_nodes h l"
proof (induction h l arbitrary: pre rule: tree_nodes.induct)
  case (1 h l)
  show ?case
  proof (cases "length l > 1")
    case True
    let ?lvl = "length (pad_level l)"
    have "build_loop h (pre @ l) (length l) (length pre)
        = build_loop h (push_parents h (length pre) (length pre + ?lvl) (pre @ pad_level l))
            (?lvl div 2) (length pre + ?lvl)"
      using True by (subst build_loop.simps) (auto simp: pad_level_def next_multiple_of_def Let_def)
    also have "\<dots> = build_loop h ((pre @ pad_level l) @ lift_level h l) (length (lift_level h l)) (length (pre @ pad_level l))"
      by (simp only: push_parents_level) (simp add: next_multiple_of_2)
    also have "\<dots> = (pre @ pad_level l) @ tree_nodes h (lift_level h l)" by (rule 1 [OF True])
    finally show ?thesis using True by (simp add: tree_nodes.simps [of h l])
  qed (simp add: build_loop.simps tree_nodes.simps [of h l])
qed

lemma nodes_build_from_leaf_hashes: "nodes (build_from_leaf_hashes h hs) = tree_nodes h hs"
  using build_loop_levels [of h "[]" hs] by (simp add: build_from_leaf_hashes_def)

lemma n_leaves_build [simp]:
  "n_leaves (build_from_leaf_hashes h hs) = length hs" "n_leaves (build h leaves) = length leaves"
  by (simp_all add: build_from_leaf_hashes_def build_def)

lemma tree_nodes_nonempty [simp]: "tree_nodes h l = [] \<longleftrightarrow> l = []"
  by (subst tree_nodes.simps) (auto simp: pad_level_def)

lemma last_tree_nodes: "l \<noteq> [] \<Longrightarrow> last (tree_nodes h l) = tree_root h l"
proof (induction h l rule: tree_nodes.induct)
  case (1 h l)
  then show ?case
    by (cases "length l > 1") (auto simp: tree_nodes.simps [of h l] tree_root.simps [of h l] last_append length_Suc_conv not_less le_Suc_eq)
qed

lemma root_build_from_leaf_hashes: "root (build_from_leaf_hashes h hs) = tree_root h hs"
  by (cases "hs = []") (auto simp: root_def nodes_build_from_leaf_hashes last_tree_nodes tree_root.simps [of h "[]"])

lemma n_nodes_loop_tree: "n_nodes_loop (length l) tot = tot + length (tree_nodes h l)"
proof (induction h l arbitrary: tot rule: tree_nodes.induct)
  case (1 h l)
  show ?case
  proof (cases "length l > 1")
    case True
    have eq: "length l + length l mod 2 = length (pad_level l)" "length (pad_level l) div 2 = length (lift_level h l)"
      by (simp_all add: next_multiple_of_2) presburger
    show ?thesis
      using True 1 [OF True] by (subst n_nodes_loop.simps) (simp only: eq tree_nodes.simps [of h l] Let_def if_True length_append add.assoc)
  qed (simp add: n_nodes_loop.simps tree_nodes.simps [of h l])
qed

lemma length_tree_nodes: "length (tree_nodes h l) = n_nodes (length l)"
  by (simp add: n_nodes_def n_nodes_loop_tree [where h = h])

lemma path_length_step: "1 < n \<Longrightarrow> path_length n = Suc (path_length ((n + 1) div 2))"
proof -
  assume n: "1 < n"
  have "ilog2 (n - 1) = (if n = 2 then 0 else Suc (ilog2 ((n + 1) div 2 - 1)))"
  proof (cases "n = 2")
    case False
    have "(n - 1) div 2 = (n + 1) div 2 - 1" using n by presburger
    then show ?thesis using n False by (subst ilog2.simps) auto
  qed (simp add: ilog2.simps)
  then show ?thesis using n by (auto simp: path_length_def)
qed

lemma path_length_1 [simp]: "n \<le> 1 \<Longrightarrow> path_length n = 0"
  by (simp add: path_length_def)

lemma le_two_power_path_length: "n \<le> 2 ^ path_length n"
proof (induction n rule: less_induct)
  case (less n)
  show ?case
  proof (cases "1 < n")
    case True
    then have "(n + 1) div 2 \<le> 2 ^ path_length ((n + 1) div 2)" by (intro less) auto
    then show ?thesis using path_length_step [OF True] by simp
  qed simp
qed

lemma path_length_le: "n \<le> 2 ^ k \<Longrightarrow> path_length n \<le> k"
proof (induction k arbitrary: n)
  case (Suc k)
  then have "path_length ((n + 1) div 2) \<le> k" by (intro Suc.IH) simp
  then show ?case by (cases "1 < n") (simp_all add: path_length_step)
qed simp

subsection \<open>The proofs the tree hands out\<close>

lemma length_tree_path: "length (tree_path h l i) = path_length (length l)"
proof (induction h l i rule: tree_path.induct)
  case (1 h l i)
  then show ?case by (cases "length l > 1") (auto simp: tree_path.simps [of h l] path_length_step)
qed

lemma sibling_in_level:
  "i < length l \<Longrightarrow> (if i mod 2 = 0 then i + 1 else i - 1) < length (pad_level l)"
  by (simp add: next_multiple_of_2) presburger

lemma get_proof_loop_levels:
  "i < length l \<Longrightarrow>
    get_proof_loop (pre @ tree_nodes h l) i (length l) (length pre) acc = Ok (acc @ tree_path h l i)"
proof (induction h l i arbitrary: pre acc rule: tree_path.induct)
  case (1 h l i)
  show ?case
  proof (cases "length l > 1")
    case True
    let ?sib = "if i mod 2 = 0 then i + 1 else i - 1" and ?ns = "pre @ tree_nodes h l"
    have sib: "(if i mod 2 = 0 then length pre + i + 1 else length pre + i - 1) = length pre + ?sib"
      by auto
    have ns: "?ns = (pre @ pad_level l) @ tree_nodes h (lift_level h l)"
      using True by (simp add: tree_nodes.simps [of h l])
    have at: "length pre + ?sib < length ?ns" "?ns ! (length pre + ?sib) = pad_level l ! ?sib"
      using sibling_in_level [OF 1(2)] unfolding ns by (simp_all add: nth_append)
    have lvl: "next_multiple_of (length l) 2 div 2 = length (lift_level h l)"
      "length pre + next_multiple_of (length l) 2 = length (pre @ pad_level l)"
      by (simp_all add: next_multiple_of_2)
    have "get_proof_loop ?ns i (length l) (length pre) acc
        = get_proof_loop ?ns (i div 2) (length (lift_level h l)) (length (pre @ pad_level l)) (acc @ [pad_level l ! ?sib])"
      using True at by (subst get_proof_loop.simps) (simp only: Let_def if_True sib lvl)
    also have "\<dots> = Ok ((acc @ [pad_level l ! ?sib]) @ tree_path h (lift_level h l) (i div 2))"
      unfolding ns by (rule 1(1) [OF True]) (use 1(2) in \<open>simp add: less_mult_imp_div_less\<close>)
    finally show ?thesis using True by (simp add: tree_path.simps [of h l])
  qed (simp add: get_proof_loop.simps tree_path.simps [of h l])
qed

lemma get_proof_build:
  "get_proof (build h leaves) i =
    (if i < length leaves then Ok \<lparr>path = tree_path h (map (leaf_hash h) leaves) i\<rparr>
     else Err (LeafIndexOutOfBounds i))"
  using get_proof_loop_levels [of i "map (leaf_hash h) leaves" "[]" h "[]"]
  by (auto simp: get_proof_def build_def nodes_build_from_leaf_hashes)

lemma inner_hash_pair:
  "i < length l \<Longrightarrow>
    (if i mod 2 = 0 then inner_hash h (l ! i) (pad_level l ! (i + 1))
     else inner_hash h (pad_level l ! (i - 1)) (l ! i)) = lift_level h l ! (i div 2)"
proof -
  assume i: "i < length l"
  then have k: "i div 2 < (length l + 1) div 2" by simp
  have "i mod 2 = 0 \<Longrightarrow> 2 * (i div 2) = i" "i mod 2 \<noteq> 0 \<Longrightarrow> 2 * (i div 2) = i - 1 \<and> 2 * (i div 2) + 1 = i"
    by presburger+
  then show ?thesis
    using i by (auto simp: lift_level_nth [OF k] pair_input_def inner_hash_def pad_level_nth)
qed

lemma compute_root_tree_path:
  "i < length l \<Longrightarrow> compute_root_loop h (l ! i) i (tree_path h l i) = tree_root h l"
proof (induction h l i rule: tree_path.induct)
  case (1 h l i)
  show ?case
  proof (cases "length l > 1")
    case True
    have "compute_root_loop h (l ! i) i (tree_path h l i)
        = compute_root_loop h (lift_level h l ! (i div 2)) (i div 2) (tree_path h (lift_level h l) (i div 2))"
      using True inner_hash_pair [OF 1(2), of h] by (simp add: tree_path.simps [of h l] split: if_splits)
    also have "\<dots> = tree_root h (lift_level h l)"
      by (rule 1(1) [OF True]) (use 1(2) in simp)
    finally show ?thesis using True by (simp add: tree_root.simps [of h l])
  next
    case False
    then show ?thesis using 1(2)
      by (simp add: tree_path.simps [of h l] tree_root.simps [of h l]) (cases l; simp)
  qed
qed

lemma verify_proof_tree_path:
  assumes "i < length leaves" "length leaves \<le> 2 ^ 63"
  shows "verify_proof h \<lparr>path = tree_path h (map (leaf_hash h) leaves) i\<rparr>
    (root (build h leaves)) (length leaves) (leaves ! i) i = Ok ()"
proof -
  let ?l = "map (leaf_hash h) leaves"
  have "path_length (length leaves) \<le> 63" by (rule path_length_le [OF assms(2)])
  moreover have "i < 2 ^ path_length (length leaves)"
    using assms(1) le_two_power_path_length by (rule less_le_trans)
  ultimately show ?thesis
    using assms compute_root_tree_path [of i ?l h]
    by (simp add: verify_proof_def check_path_length_def compute_root_def length_tree_path build_def root_build_from_leaf_hashes)
qed

subsection \<open>What an accepted proof binds\<close>

text \<open>The inputs that building a tree and checking a proof give to the hash function, and what it
  means that they break it.\<close>

function tree_inputs :: "node list \<Rightarrow> hash_fun \<Rightarrow> bytes list" where
  "tree_inputs l h =
    (if length l > 1 then map (pair_input l) [0..<(length l + 1) div 2] @ tree_inputs (lift_level h l) h
     else [])"
  by pat_completeness auto
termination
  by (relation "measure (\<lambda>(l, h). length l)") auto

declare tree_inputs.simps [simp del]

fun path_inputs :: "hash_fun \<Rightarrow> node \<Rightarrow> nat \<Rightarrow> node list \<Rightarrow> bytes list" where
  "path_inputs h cur i [] = []"
| "path_inputs h cur i (sib # sibs) =
    (let inp = (if i mod 2 = 0 then INNER_PREFIX @ node_bytes cur @ node_bytes sib
                else INNER_PREFIX @ node_bytes sib @ node_bytes cur)
     in inp # path_inputs h (Digest (h inp)) (i div 2) sibs)"

definition build_inputs :: "hash_fun \<Rightarrow> bytes list \<Rightarrow> bytes list" where
  "build_inputs h leaves = map ((@) LEAF_PREFIX) leaves @ tree_inputs (map (leaf_hash h) leaves) h"

definition proof_inputs :: "hash_fun \<Rightarrow> merkle_proof \<Rightarrow> bytes \<Rightarrow> nat \<Rightarrow> bytes list" where
  "proof_inputs h p leaf i = (LEAF_PREFIX @ leaf) # path_inputs h (leaf_hash h leaf) i (path p)"

definition hash_broken :: "hash_fun \<Rightarrow> bytes set \<Rightarrow> bytes set \<Rightarrow> bool" where
  "hash_broken h X Y \<longleftrightarrow> (\<exists>x\<in>X. h x = EMPTY_NODE \<or> (\<exists>y\<in>Y. x \<noteq> y \<and> h x = h y))"

lemma hash_broken_mono: "hash_broken h X Y \<Longrightarrow> X \<subseteq> X' \<Longrightarrow> Y \<subseteq> Y' \<Longrightarrow> hash_broken h X' Y'"
  unfolding hash_broken_def by blast

lemma lift_level_funpow_top:
  "l \<noteq> [] \<Longrightarrow> (lift_level h ^^ path_length (length l)) l = [tree_root h l]"
proof (induction h l rule: tree_root.induct)
  case (1 h l)
  show ?case
  proof (cases "length l > 1")
    case True
    then have "(lift_level h ^^ path_length (length l)) l
        = (lift_level h ^^ path_length (length (lift_level h l))) (lift_level h l)"
      by (simp add: path_length_step funpow_swap1)
    also have "\<dots> = [tree_root h (lift_level h l)]" by (rule 1(1) [OF True]) (use 1(2) in simp)
    finally show ?thesis using True by (simp add: tree_root.simps [of h l])
  next
    case False
    then show ?thesis using 1(2) by (cases l) (auto simp: tree_root.simps)
  qed
qed

lemma pair_input_in_tree_inputs:
  "m < path_length (length l) \<Longrightarrow> k < (length ((lift_level h ^^ m) l) + 1) div 2 \<Longrightarrow>
    pair_input ((lift_level h ^^ m) l) k \<in> set (tree_inputs l h)"
proof (induction m arbitrary: l)
  case 0
  then have "length l > 1" by (auto simp: path_length_def split: if_splits)
  then show ?case using 0 by (simp add: tree_inputs.simps [of l])
next
  case (Suc m)
  then have len: "length l > 1" by (auto simp: path_length_def split: if_splits)
  then have "pair_input ((lift_level h ^^ m) (lift_level h l)) k \<in> set (tree_inputs (lift_level h l) h)"
    using Suc.prems by (intro Suc.IH) (simp_all add: path_length_step funpow_swap1)
  then show ?case using len by (simp add: tree_inputs.simps [of l] funpow_swap1)
qed

lemma node_ok_funpow:
  "digest32 h \<Longrightarrow> \<forall>n\<in>set l. node_ok n \<Longrightarrow> \<forall>n\<in>set ((lift_level h ^^ m) l). node_ok n"
  by (cases m) (auto dest: node_ok_lift)

lemma bytes_split:
  "node_ok a \<Longrightarrow> node_ok c \<Longrightarrow>
    INNER_PREFIX @ node_bytes a @ node_bytes b = INNER_PREFIX @ node_bytes c @ node_bytes d \<longleftrightarrow>
    node_bytes a = node_bytes c \<and> node_bytes b = node_bytes d"
  by (simp add: node_ok_def)

text \<open>One level: if the parent that the verifier computes is the parent in the tree, then the
  verifier's node is the one at its position in the tree, or its input hits the zero digest.\<close>

lemma child_bound:
  assumes ok: "\<forall>n\<in>set l. node_ok n" "node_ok sib" "node_ok cur" and cur: "cur = Digest (h x)"
    and i: "i div 2 < (length l + 1) div 2"
    and eq: "(if i mod 2 = 0 then INNER_PREFIX @ node_bytes cur @ node_bytes sib
              else INNER_PREFIX @ node_bytes sib @ node_bytes cur) = pair_input l (i div 2)"
  shows "(i < length l \<and> cur = l ! i) \<or> h x = EMPTY_NODE"
proof -
  have in_pad: "i < length (pad_level l)" "2 * (i div 2) < length (pad_level l)"
    using i by (simp_all add: next_multiple_of_2)
  have "node_ok (pad_level l ! (2 * (i div 2)))" by (rule node_ok_pad [OF ok(1) in_pad(2)])
  then have both: "i mod 2 = 0 \<Longrightarrow> node_bytes cur = node_bytes (pad_level l ! (2 * (i div 2)))"
    "i mod 2 \<noteq> 0 \<Longrightarrow> node_bytes cur = node_bytes (pad_level l ! (2 * (i div 2) + 1))"
    using eq ok(2,3) by (simp_all add: pair_input_def node_ok_def)
  have "i mod 2 = 0 \<Longrightarrow> 2 * (i div 2) = i" "i mod 2 \<noteq> 0 \<Longrightarrow> 2 * (i div 2) + 1 = i" by presburger+
  with both have same: "node_bytes cur = node_bytes (pad_level l ! i)" by (cases "i mod 2 = 0") metis+
  show ?thesis
  proof (cases "pad_level l ! i")
    case Empty
    then show ?thesis using same cur by simp
  next
    case (Digest d)
    then have "i < length l" using pad_level_nth_out in_pad(1) by (metis node.distinct(1) not_less)
    then show ?thesis using same cur Digest by (simp add: pad_level_nth)
  qed
qed

lemma path_bound:
  assumes h: "digest32 h" and ok: "\<forall>n\<in>set l. node_ok n" and ne: "l \<noteq> []"
  shows "\<lbrakk>cur = Digest (h x); \<forall>n\<in>set p. node_ok n; i < 2 ^ length p;
     length p + m = path_length (length l); compute_root_loop h cur i p = tree_root h l\<rbrakk> \<Longrightarrow>
    (i < length ((lift_level h ^^ m) l) \<and> cur = (lift_level h ^^ m) l ! i)
    \<or> hash_broken h (insert x (set (path_inputs h cur i p))) (set (tree_inputs l h))"
proof (induction p arbitrary: cur x i m)
  case Nil
  then show ?case using lift_level_funpow_top [OF ne] by simp
next
  case (Cons sib p)
  let ?lm = "(lift_level h ^^ m) l" and ?k = "i div 2"
  let ?inp = "if i mod 2 = 0 then INNER_PREFIX @ node_bytes cur @ node_bytes sib
    else INNER_PREFIX @ node_bytes sib @ node_bytes cur"
  let ?X = "insert x (set (path_inputs h cur i (sib # p)))" and ?Y = "set (tree_inputs l h)"
  have X: "insert ?inp (set (path_inputs h (Digest (h ?inp)) ?k p)) \<subseteq> ?X" by (auto simp: Let_def)
  have "compute_root_loop h (Digest (h ?inp)) ?k p = tree_root h l"
    using Cons.prems(5) by (simp add: inner_hash_def split: if_splits)
  then have "(?k < length ((lift_level h ^^ Suc m) l) \<and> Digest (h ?inp) = (lift_level h ^^ Suc m) l ! ?k)
      \<or> hash_broken h (insert ?inp (set (path_inputs h (Digest (h ?inp)) ?k p))) ?Y"
    using Cons.prems(2-4) by (intro Cons.IH) auto
  then consider "hash_broken h ?X ?Y"
    | "?k < (length ?lm + 1) div 2" "Digest (h ?inp) = lift_level h ?lm ! ?k"
    using hash_broken_mono [OF _ X subset_refl] by auto
  then show ?case
  proof cases
    case 2
    then have col: "h ?inp = h (pair_input ?lm ?k)" by (simp add: lift_level_nth)
    have y: "pair_input ?lm ?k \<in> ?Y"
      by (rule pair_input_in_tree_inputs) (use Cons.prems(4) 2 in auto)
    show ?thesis
    proof (cases "?inp = pair_input ?lm ?k")
      case True
      have "(i < length ?lm \<and> cur = ?lm ! i) \<or> h x = EMPTY_NODE"
        using node_ok_funpow [OF h ok] Cons.prems(1,2) 2(1) True h
        by (intro child_bound [where sib = sib]) auto
      then show ?thesis by (auto simp: hash_broken_def)
    next
      case False
      then have "hash_broken h ?X ?Y" using X y col unfolding hash_broken_def by blast
      then show ?thesis ..
    qed
  qed simp
qed

lemma verify_proof_bound:
  assumes h: "digest32 h" and p: "\<forall>n\<in>set (path p). node_ok n"
    and ok: "verify_proof h p (root (build h leaves)) (length leaves) leaf i = Ok ()"
  shows "(i < length leaves \<and> leaf = leaves ! i)
    \<or> hash_broken h (set (proof_inputs h p leaf i)) (set (build_inputs h leaves))"
proof -
  let ?l = "map (leaf_hash h) leaves" and ?x = "LEAF_PREFIX @ leaf"
  let ?X = "set (proof_inputs h p leaf i)" and ?Y = "set (build_inputs h leaves)"
  have len: "length (path p) \<le> path_length (length ?l)" and i: "i < 2 ^ length (path p)"
    and rt: "compute_root_loop h (leaf_hash h leaf) i (path p) = tree_root h ?l"
    using ok by (auto simp: verify_proof_def check_path_length_def compute_root_def build_def
      root_build_from_leaf_hashes div_eq_0_iff split: if_splits)
  have ne: "?l \<noteq> []" using len rt by (auto simp: tree_root.simps leaf_hash_def)
  obtain m where m: "length (path p) + m = path_length (length ?l)" using len le_Suc_ex by metis
  let ?lm = "(lift_level h ^^ m) ?l"
  have Y: "set (tree_inputs ?l h) \<subseteq> ?Y" by (auto simp: build_inputs_def)
  have X: "insert ?x (set (path_inputs h (leaf_hash h leaf) i (path p))) = ?X" by (simp add: proof_inputs_def)
  have okl: "\<forall>n\<in>set ?l. node_ok n" using h by (simp add: leaf_hash_def)
  have "(i < length ?lm \<and> leaf_hash h leaf = ?lm ! i) \<or> hash_broken h ?X (set (tree_inputs ?l h))"
    using path_bound [OF h okl ne _ p i m rt, of ?x] unfolding X by (simp add: leaf_hash_def)
  then consider "hash_broken h ?X ?Y" | "i < length ?lm" "leaf_hash h leaf = ?lm ! i"
    using hash_broken_mono [OF _ subset_refl Y] by blast
  then show ?thesis
  proof cases
    case 2
    show ?thesis
    proof (cases m)
      case 0
      with 2 have "i < length leaves" "h ?x = h (LEAF_PREFIX @ leaves ! i)" by (simp_all add: leaf_hash_def)
      moreover from this have "?x \<in> ?X" "LEAF_PREFIX @ leaves ! i \<in> ?Y"
        by (auto simp: proof_inputs_def build_inputs_def)
      ultimately show ?thesis unfolding hash_broken_def by (metis same_append_eq)
    next
      case (Suc m')
      let ?y = "pair_input ((lift_level h ^^ m') ?l) i"
      have i': "i < (length ((lift_level h ^^ m') ?l) + 1) div 2" using 2(1) Suc by simp
      have "?y \<in> ?Y"
        using pair_input_in_tree_inputs [OF _ i'] m Suc by (intro subsetD [OF Y]) auto
      moreover have "h ?x = h ?y" using 2(2) Suc i' by (simp add: lift_level_nth leaf_hash_def)
      moreover have "?x \<noteq> ?y" by (simp add: pair_input_def LEAF_PREFIX_def INNER_PREFIX_def)
      moreover have "?x \<in> ?X" by (simp add: proof_inputs_def)
      ultimately show ?thesis unfolding hash_broken_def by blast
    qed
  qed simp
qed

text \<open>What the verifier hashes on an honest proof was hashed when the tree was built.\<close>

lemma path_inputs_honest:
  "i < length l \<Longrightarrow> set (path_inputs h (l ! i) i (tree_path h l i)) \<subseteq> set (tree_inputs l h)"
proof (induction h l i rule: tree_path.induct)
  case (1 h l i)
  show ?case
  proof (cases "length l > 1")
    case True
    let ?sib = "pad_level l ! (if i mod 2 = 0 then i + 1 else i - 1)"
    let ?inp = "if i mod 2 = 0 then INNER_PREFIX @ node_bytes (l ! i) @ node_bytes ?sib
      else INNER_PREFIX @ node_bytes ?sib @ node_bytes (l ! i)"
    have k: "i div 2 < (length l + 1) div 2" using 1(2) by simp
    have "i mod 2 = 0 \<Longrightarrow> 2 * (i div 2) = i" "i mod 2 \<noteq> 0 \<Longrightarrow> 2 * (i div 2) = i - 1 \<and> 2 * (i div 2) + 1 = i"
      by presburger+
    then have inp: "?inp = pair_input l (i div 2)" using 1(2) by (auto simp: pair_input_def pad_level_nth)
    then have "path_inputs h (l ! i) i (tree_path h l i)
        = pair_input l (i div 2) # path_inputs h (lift_level h l ! (i div 2)) (i div 2) (tree_path h (lift_level h l) (i div 2))"
      using True by (simp add: tree_path.simps [of h l] lift_level_nth [OF k] Let_def)
    moreover have "set (path_inputs h (lift_level h l ! (i div 2)) (i div 2) (tree_path h (lift_level h l) (i div 2)))
        \<subseteq> set (tree_inputs (lift_level h l) h)"
      by (rule 1(1) [OF True]) (use k in simp)
    ultimately show ?thesis using True k by (auto simp: tree_inputs.simps [of l h])
  qed (simp add: tree_path.simps [of h l])
qed

lemma proof_inputs_honest:
  "i < length leaves \<Longrightarrow> ok (get_proof (build h leaves) i) = Some p \<Longrightarrow>
    set (proof_inputs h p (leaves ! i) i) \<subseteq> set (build_inputs h leaves)"
  using path_inputs_honest [of i "map (leaf_hash h) leaves" h]
  by (auto simp: get_proof_build proof_inputs_def build_inputs_def)

subsection \<open>Vector commitments\<close>

text \<open>
  What the users of the tree (sliver hashes, symbol proofs, blob metadata) rely on: a commitment to
  a vector, openings of single positions, and a check of an opening against the commitment.
  \<open>sound\<close> is what is assumed of the primitives, \<open>broken\<close> the event that they failed.
\<close>

locale vector_commitment =
  fixes sound :: bool
    and commit :: "'d list \<Rightarrow> 'c"
    and open_at :: "'d list \<Rightarrow> nat \<Rightarrow> 'p option"
    and accepts :: "'c \<Rightarrow> nat \<Rightarrow> 'p \<Rightarrow> 'd \<Rightarrow> nat \<Rightarrow> bool"
    and wf_opening :: "'p \<Rightarrow> bool"
    and broken :: "'d list \<Rightarrow> 'p \<Rightarrow> 'd \<Rightarrow> nat \<Rightarrow> bool"
    and capacity :: nat
  assumes complete: "i < length ds \<Longrightarrow> length ds \<le> capacity \<Longrightarrow>
      \<exists>p. open_at ds i = Some p \<and> accepts (commit ds) (length ds) p (ds ! i) i"
    and opening_range: "length ds \<le> i \<Longrightarrow> open_at ds i = None"
    and opening_wf: "sound \<Longrightarrow> open_at ds i = Some p \<Longrightarrow> wf_opening p"
    and binding: "sound \<Longrightarrow> wf_opening p \<Longrightarrow> accepts (commit ds) (length ds) p d i \<Longrightarrow>
      (i < length ds \<and> d = ds ! i) \<or> broken ds p d i"
begin

lemma opening_accepted:
  "open_at ds i = Some p \<Longrightarrow> length ds \<le> capacity \<Longrightarrow> accepts (commit ds) (length ds) p (ds ! i) i"
  using complete [of i ds] opening_range [of ds i] by (cases "i < length ds") auto

text \<open>Two openings of one position to different values break the primitives.\<close>

lemma no_two_openings:
  assumes "sound" "wf_opening p" "wf_opening q" "d \<noteq> e"
    and "accepts (commit ds) (length ds) p d i" "accepts (commit ds) (length ds) q e i"
  shows "broken ds p d i \<or> broken ds q e i"
  using binding [OF assms(1,2,5)] binding [OF assms(1,3,6)] assms(4) by auto

text \<open>Two different vectors of one length with the same commitment break the primitives.\<close>

lemma commit_collision:
  assumes "sound" "commit ds = commit es" "length ds = length es" "ds \<noteq> es" "length es \<le> capacity"
  shows "\<exists>i p. i < length es \<and> ds ! i \<noteq> es ! i \<and> open_at es i = Some p \<and> broken ds p (es ! i) i"
proof -
  obtain i where i: "i < length es" "ds ! i \<noteq> es ! i" using assms(3,4) by (metis nth_equalityI)
  obtain p where p: "open_at es i = Some p" "accepts (commit es) (length es) p (es ! i) i"
    using complete [OF i(1) assms(5)] by blast
  then have "broken ds p (es ! i) i"
    using binding [of p ds "es ! i" i] opening_wf [OF assms(1) p(1)] assms(1-3) i(2) by auto
  with i p show ?thesis by blast
qed

end

lemma node_ok_tree_path: "digest32 h \<Longrightarrow> i < length l \<Longrightarrow> \<forall>n\<in>set l. node_ok n \<Longrightarrow> \<forall>n\<in>set (tree_path h l i). node_ok n"
proof (induction h l i rule: tree_path.induct)
  case (1 h l i)
  have "node_ok (pad_level l ! (if i mod 2 = 0 then i + 1 else i - 1))"
    by (rule node_ok_pad [OF 1(4) sibling_in_level [OF 1(3)]])
  moreover have "length l > 1 \<Longrightarrow> \<forall>n\<in>set (tree_path h (lift_level h l) (i div 2)). node_ok n"
    using 1(2-4) by (intro 1(1)) (auto dest: node_ok_lift)
  ultimately show ?case by (subst tree_path.simps) (simp only: list.set if_cancel split: if_split, auto)
qed

interpretation merkle: vector_commitment "digest32 h" "\<lambda>leaves. root (build h leaves)"
  "\<lambda>leaves i. ok (get_proof (build h leaves) i)"
  "\<lambda>rt n p leaf i. verify_proof h p rt n leaf i = Ok ()"
  "\<lambda>p. \<forall>n\<in>set (path p). node_ok n"
  "\<lambda>leaves p leaf i. hash_broken h (set (proof_inputs h p leaf i)) (set (build_inputs h leaves))"
  "2 ^ 63" for h
proof
  show "ok (get_proof (build h leaves) i) = Some p \<Longrightarrow> \<forall>n\<in>set (path p). node_ok n" if "digest32 h" for leaves i p
    using node_ok_tree_path [of h i "map (leaf_hash h) leaves"] that
    by (auto simp: get_proof_build leaf_hash_def split: if_splits)
  show "(i < length leaves \<and> leaf = leaves ! i)
      \<or> hash_broken h (set (proof_inputs h p leaf i)) (set (build_inputs h leaves))"
    if "digest32 h" "\<forall>n\<in>set (path p). node_ok n"
      "verify_proof h p (root (build h leaves)) (length leaves) leaf i = Ok ()" for leaves p leaf i
    using that by (rule verify_proof_bound)
qed (auto simp: get_proof_build verify_proof_tree_path)

subsection \<open>Properties\<close>

text \<open>The concrete hash function of the witnesses: it folds its input into one byte, repeated 32 times.\<close>

definition fold_hash :: hash_fun where
  "fold_hash x = replicate 32 (fold (\<lambda>b acc. 31 * acc + b) x 7)"

lemma digest32_fold_hash: "digest32 fold_hash"
  by (simp add: digest32_def fold_hash_def DIGEST_LEN_def)

definition example_leaves :: "bytes list" where
  "example_leaves = [[1], [2, 3], [4]]"

lemma example_leaves_simps: "length example_leaves = 3" "example_leaves ! 2 = [4]"
  by (simp_all add: example_leaves_def)

text \<open>C36: For every vector of leaves and every index in range, the tree hands out a proof without
  panicking; the proof has exactly \<open>path_length\<close> nodes and the verifier accepts it for the leaf at
  that index against the root of the tree.\<close>

theorem merkle_complete:
  assumes "i < length leaves" "length leaves \<le> 2 ^ 63"
  shows "\<exists>p. get_proof (build h leaves) i = Ok p \<and> length (path p) = path_length (length leaves)
    \<and> verify_proof h p (root (build h leaves)) (length leaves) (leaves ! i) i = Ok ()"
  using assms verify_proof_tree_path [OF assms, of h] by (simp add: get_proof_build length_tree_path)

theorem merkle_complete_witness:
  "\<exists>p. get_proof (build fold_hash example_leaves) 2 = Ok p \<and> length (path p) = path_length 3
    \<and> verify_proof fold_hash p (root (build fold_hash example_leaves)) 3 [4] 2 = Ok ()"
  using merkle_complete [of 2 example_leaves fold_hash] by (simp add: example_leaves_simps)

text \<open>C37: An accepted proof binds the leaf and its position: if the verifier accepts a leaf at an index
  for the root of a tree over \<open>leaves\<close>, then the index is in range and the leaf is the one the tree
  was built over, or among the inputs hashed by the verifier there is a preimage of the zero digest
  or one that collides with an input hashed when the tree was built.\<close>

theorem merkle_binding:
  assumes "digest32 h" "\<forall>n\<in>set (path p). node_ok n"
    and "verify_proof h p (root (build h leaves)) (length leaves) leaf i = Ok ()"
  shows "(i < length leaves \<and> leaf = leaves ! i)
    \<or> hash_broken h (set (proof_inputs h p leaf i)) (set (build_inputs h leaves))"
  using assms by (rule merkle.binding)

definition example_proof :: merkle_proof where
  "example_proof = \<lparr>path = [Empty, inner_hash fold_hash (leaf_hash fold_hash [1]) (leaf_hash fold_hash [2, 3])]\<rparr>"

lemma example_proof_accepted:
  "verify_proof fold_hash example_proof (root (build fold_hash example_leaves)) 3 [4] 2 = Ok ()"
proof -
  have "\<lparr>path = tree_path fold_hash (map (leaf_hash fold_hash) example_leaves) 2\<rparr> = example_proof"
    by (simp add: example_proof_def example_leaves_def tree_path.simps lift_level_def pad_level_def
      pair_input_def inner_hash_def upt_rec)
  then show ?thesis
    using verify_proof_tree_path [of 2 example_leaves fold_hash] by (simp add: example_leaves_simps)
qed

lemma example_proof_ok: "\<forall>n\<in>set (path example_proof). node_ok n"
  by (simp add: example_proof_def inner_hash_def digest32_fold_hash)

theorem merkle_binding_witness:
  "digest32 fold_hash
    \<and> verify_proof fold_hash example_proof (root (build fold_hash example_leaves)) 3 [4] 2 = Ok ()
    \<and> ((2 < length example_leaves \<and> [4] = example_leaves ! 2)
      \<or> hash_broken fold_hash (set (proof_inputs fold_hash example_proof [4] 2))
          (set (build_inputs fold_hash example_leaves)))"
  using merkle_binding [OF digest32_fold_hash example_proof_ok, of example_leaves "[4]" 2]
    example_proof_accepted digest32_fold_hash by (simp add: example_leaves_simps)

text \<open>The verifier rejects, with the error the code names, a proof that is longer than the tree
  is deep, and an index that does not fit the path; in no other case does it report these errors.\<close>

lemma verify_proof_errors:
  "(verify_proof h p rt n leaf i = Err PathLengthTooLarge \<longleftrightarrow> path_length n < length (path p))
   \<and> (verify_proof h p rt n leaf i = Err (LeafIndexOutOfBounds j) \<longleftrightarrow>
        length (path p) \<le> path_length n \<and> length (path p) < 64 \<and> 2 ^ length (path p) \<le> i \<and> j = i)"
  by (auto simp: verify_proof_def check_path_length_def compute_root_def div_eq_0_iff not_less)

text \<open>The capacity that the builder reserves up front is the number of nodes the finished tree
  holds, and no proof request on it panics.\<close>

lemma merkle_size:
  "length (nodes (build_from_leaf_hashes h hashes)) = n_nodes (length hashes)
   \<and> get_proof (build h leaves) i \<noteq> Panic"
  by (simp add: nodes_build_from_leaf_hashes length_tree_nodes get_proof_build)

end
