(* ===== verification/CoreTypes.thy ===== *)
theory CoreTypes
  imports Axis Merkle
begin

text \<open>
  The identifiers and indices of \<open>crates/walrus-core/src/lib.rs\<close>: blob IDs, quilt patch IDs, sliver,
  sliver-pair and shard indices, symbol IDs and the encoding type. An index is a \<open>u16\<close>
  in the source and a natural number here, with the range test where an index is computed; a blob ID
  is a byte vector of length 32 (\<open>blob_id_ok\<close>).
\<close>

subsection \<open>Encoding types\<close>

datatype encoding_type = RS2

fun encoding_type_to_u8 :: "encoding_type \<Rightarrow> byte" where
  "encoding_type_to_u8 RS2 = 1"

text \<open>\<open>trim\<close> and \<open>to_lowercase\<close> on ASCII strings.\<close>

fun required_alignment :: "encoding_type \<Rightarrow> nat" where
  "required_alignment RS2 = 2"

fun max_symbol_size :: "encoding_type \<Rightarrow> nat" where
  "max_symbol_size RS2 = U16_MAX - 1"

subsection \<open>Blob IDs, quilt patch IDs, object IDs\<close>

type_synonym blob_id = bytes

definition BLOB_ID_LENGTH :: nat where "BLOB_ID_LENGTH = 32"

definition blob_id_ok :: "blob_id \<Rightarrow> bool" where
  "blob_id_ok b \<longleftrightarrow> length b = BLOB_ID_LENGTH"

datatype blob_id_parse_error = BlobIdParseError

definition blob_id_try_from :: "bytes \<Rightarrow> (blob_id, blob_id_parse_error) result" where
  "blob_id_try_from bs = (if length bs = BLOB_ID_LENGTH then Ok bs else Err BlobIdParseError)"

definition u64_to_le_bytes :: "nat \<Rightarrow> bytes" where
  "u64_to_le_bytes n = map (\<lambda>k. of_nat (n div 256 ^ k)) [0..<8]"

definition blob_id_new_with_hash_function :: "hash_fun \<Rightarrow> node \<Rightarrow> encoding_type \<Rightarrow> nat \<Rightarrow> blob_id" where
  "blob_id_new_with_hash_function h merkle_root encoding unencoded_length =
    h ([encoding_type_to_u8 encoding] @ u64_to_le_bytes unencoded_length @ node_bytes merkle_root)"

definition blob_id_from_metadata :: "hash_fun \<Rightarrow> node \<Rightarrow> encoding_type \<Rightarrow> nat \<Rightarrow> blob_id" where
  "blob_id_from_metadata h merkle_root encoding unencoded_length =
    blob_id_new_with_hash_function h merkle_root encoding unencoded_length"

record quilt_patch_id =
  quilt_id :: blob_id
  patch_id_bytes :: bytes

definition quilt_patch_id_to_bytes :: "quilt_patch_id \<Rightarrow> bytes" where
  "quilt_patch_id_to_bytes q = quilt_id q @ patch_id_bytes q"

definition quilt_patch_id_from_bytes :: "bytes \<Rightarrow> (quilt_patch_id, blob_id_parse_error) result" where
  "quilt_patch_id_from_bytes bs =
    (if length bs < BLOB_ID_LENGTH then Panic
     else and_then (blob_id_try_from (take BLOB_ID_LENGTH bs)) (\<lambda>q.
       Ok \<lparr>quilt_id = q, patch_id_bytes = drop BLOB_ID_LENGTH bs\<rparr>))"

subsection \<open>Indices\<close>

type_synonym sliver_index = nat
type_synonym sliver_pair_index = nat
type_synonym shard_index = nat

fun to_sliver_index :: "axis \<Rightarrow> sliver_pair_index \<Rightarrow> nat \<Rightarrow> (sliver_index, 'e) result" where
  "to_sliver_index Primary i n_shards = Ok i"
| "to_sliver_index Secondary i n_shards = and_then (usub n_shards i) (\<lambda>d. usub d 1)"

fun to_pair_index :: "axis \<Rightarrow> sliver_index \<Rightarrow> nat \<Rightarrow> (sliver_pair_index, 'e) result" where
  "to_pair_index Primary i n_shards = Ok i"
| "to_pair_index Secondary i n_shards = and_then (usub n_shards i) (\<lambda>d. usub d 1)"

subsection \<open>Symbol IDs\<close>

record symbol_id =
  primary_sliver_index :: sliver_index
  secondary_sliver_index :: sliver_index

definition symbol_id_new :: "sliver_index \<Rightarrow> sliver_index \<Rightarrow> symbol_id" where
  "symbol_id_new p s = \<lparr>primary_sliver_index = p, secondary_sliver_index = s\<rparr>"

fun symbol_id_sliver_index :: "symbol_id \<Rightarrow> axis \<Rightarrow> sliver_index" where
  "symbol_id_sliver_index i Primary = primary_sliver_index i"
| "symbol_id_sliver_index i Secondary = secondary_sliver_index i"

definition symbol_id_display :: "symbol_id \<Rightarrow> string" where
  "symbol_id_display i = show_nat (primary_sliver_index i) @ ''-'' @ show_nat (secondary_sliver_index i)"

datatype parse_symbol_id_error = ParseSymbolIdError

definition symbol_id_from_str :: "string \<Rightarrow> (symbol_id, parse_symbol_id_error) result" where
  "symbol_id_from_str s =
    and_then (ok_or (split_once CHR ''-'' s) ParseSymbolIdError) (\<lambda>(primary_str, secondary_str).
    and_then (ok_or (parse_uint U16_MAX primary_str) ParseSymbolIdError) (\<lambda>p.
    and_then (ok_or (parse_uint U16_MAX secondary_str) ParseSymbolIdError) (\<lambda>s.
    Ok (symbol_id_new p s))))"

subsection \<open>Lemmas\<close>

definition to_sliver :: "axis \<Rightarrow> nat \<Rightarrow> nat \<Rightarrow> nat" where
  "to_sliver a i n = (if a = Primary then i else n - i - 1)"

lemma to_sliver_index_Ok [simp]: "i < n \<Longrightarrow> to_sliver_index a i n = Ok (to_sliver a i n)"
  by (cases a) (auto simp: to_sliver_def)

lemma to_pair_index_Ok [simp]: "i < n \<Longrightarrow> to_pair_index a i n = Ok (to_sliver a i n)"
  by (cases a) (auto simp: to_sliver_def)

lemma to_sliver_less [simp]: "i < n \<Longrightarrow> to_sliver a i n < n"
  by (auto simp: to_sliver_def)

lemma to_sliver_invol [simp]: "i < n \<Longrightarrow> to_sliver a (to_sliver a i n) n = i"
  by (auto simp: to_sliver_def)

lemma to_sliver_Primary [simp]: "to_sliver Primary i n = i"
  by (simp add: to_sliver_def)

lemma to_pair_index_Panic: "to_pair_index Secondary i n = Panic \<longleftrightarrow> n \<le> i"
  by auto

lemma quilt_patch_id_roundtrip:
  "blob_id_ok (quilt_id q) \<Longrightarrow> quilt_patch_id_from_bytes (quilt_patch_id_to_bytes q) = Ok q"
  by (simp add: quilt_patch_id_from_bytes_def quilt_patch_id_to_bytes_def blob_id_ok_def blob_id_try_from_def)

lemma quilt_patch_id_to_bytes_inverse:
  "quilt_patch_id_from_bytes bs = Ok q \<Longrightarrow> quilt_patch_id_to_bytes q = bs \<and> blob_id_ok (quilt_id q)"
  by (auto simp: quilt_patch_id_from_bytes_def quilt_patch_id_to_bytes_def blob_id_ok_def blob_id_try_from_def
    split: if_splits)

lemma minus_not_in_show_nat: "CHR ''-'' \<notin> set (show_nat n)"
  using show_nat_digits [of "CHR ''-''" n] by (auto simp: char_digit_def)

lemma symbol_id_str_roundtrip:
  assumes "primary_sliver_index i \<le> U16_MAX" "secondary_sliver_index i \<le> U16_MAX"
  shows "symbol_id_from_str (symbol_id_display i) = Ok i"
proof -
  have "split_once CHR ''-'' (symbol_id_display i) =
      Some (show_nat (primary_sliver_index i), show_nat (secondary_sliver_index i))"
    using split_once_append [OF minus_not_in_show_nat] by (simp add: symbol_id_display_def)
  then show ?thesis
    using assms by (simp add: symbol_id_from_str_def parse_uint_show_nat symbol_id_new_def)
qed

lemma symbol_id_from_str_range:
  "symbol_id_from_str s = Ok i \<Longrightarrow> primary_sliver_index i \<le> U16_MAX \<and> secondary_sliver_index i \<le> U16_MAX"
  by (auto simp: symbol_id_from_str_def symbol_id_new_def dest: parse_uint_le)

lemma u64_to_le_bytes_nth: "k < 8 \<Longrightarrow> unat (u64_to_le_bytes n ! k) = n div 256 ^ k mod 256"
  by (simp add: u64_to_le_bytes_def unat_of_nat)

lemma length_u64_to_le_bytes [simp]: "length (u64_to_le_bytes n) = 8"
  by (simp add: u64_to_le_bytes_def)

lemma digits256_eq:
  "(\<forall>k<m. (a div 256 ^ k) mod 256 = (b div 256 ^ k) mod (256 :: nat)) \<Longrightarrow> a < 256 ^ m \<Longrightarrow> b < 256 ^ m \<Longrightarrow> a = b"
proof (induction m arbitrary: a b)
  case (Suc m)
  have "a div 256 = b div 256"
  proof (rule Suc.IH)
    show "\<forall>k<m. (a div 256 div 256 ^ k) mod 256 = (b div 256 div 256 ^ k) mod 256"
      using Suc.prems(1) by (metis Suc_less_eq div_mult2_eq power_Suc)
  qed (use Suc.prems in \<open>auto simp: div_less_iff_less_mult mult.commute\<close>)
  moreover have "a mod 256 = b mod 256" using Suc.prems(1) by (auto dest: spec [of _ 0])
  ultimately show ?case by (metis div_mult_mod_eq)
qed simp

lemma u64_to_le_bytes_inj: "a \<le> U64_MAX \<Longrightarrow> b \<le> U64_MAX \<Longrightarrow> u64_to_le_bytes a = u64_to_le_bytes b \<Longrightarrow> a = b"
  by (rule digits256_eq [of 8]) (auto simp flip: u64_to_le_bytes_nth)

text \<open>The hashed encoding of the metadata fixes each of its three fields.\<close>

lemma blob_id_input_inj:
  assumes "node_ok r" "node_ok r'" "n \<le> U64_MAX" "n' \<le> U64_MAX"
    and "[encoding_type_to_u8 e] @ u64_to_le_bytes n @ node_bytes r = [encoding_type_to_u8 e'] @ u64_to_le_bytes n' @ node_bytes r'"
  shows "e = e' \<and> n = n' \<and> node_bytes r = node_bytes r'"
  using assms u64_to_le_bytes_inj by (cases e; cases e') auto

end
