(* ===== verification/EncodingConfig.thy ===== *)
theory EncodingConfig
  imports CoreTypes Bft
begin

text \<open>
  The encoding parameters of \<open>crates/walrus-core/src/encoding/config.rs\<close> and \<open>encoding/utils.rs\<close>, with
  the error types of \<open>encoding/errors.rs\<close>: the numbers of source symbols that a number of shards
  determines, the symbol size for a blob, and the sizes of slivers, metadata and encoded blobs.

  The trait \<open>EncodingFactory\<close> has one implementation, \<open>ReedSolomonEncodingConfig\<close>, and the enum
  \<open>EncodingConfigEnum\<close> one variant that wraps it and forwards every call; both are the record
  \<open>rs_config\<close>. The operations of the trait that run the erasure code are in the theories of the coder,
  of slivers and of blobs.
\<close>

subsection \<open>Errors\<close>

datatype data_too_large_error = DataTooLargeError

datatype invalid_data_size_error = DataTooLarge | EmptyData

fun invalid_data_size_from :: "data_too_large_error \<Rightarrow> invalid_data_size_error" where
  "invalid_data_size_from DataTooLargeError = DataTooLarge"

datatype encode_error =
  InvalidDataSize invalid_data_size_error
| IncorrectDataLength nat
| EncodeIncompatibleParameters string

datatype 'r decode_error =
  DecodeDataTooLarge
| DecodeIncompatibleParameters 'r
| DecoderError 'r
| DecodingUnsuccessful
| DecodeVerificationError

fun decode_error_from :: "data_too_large_error \<Rightarrow> 'r decode_error" where
  "decode_error_from DataTooLargeError = DecodeDataTooLarge"

datatype recovery_symbol_error = RecoveryIndexTooLarge | RecoveryEncodeError encode_error

datatype sliver_recovery_error = BlobSizeTooLarge data_too_large_error | DecodingFailure

datatype wrong_symbol_size_error = WrongSymbolSizeError

datatype sliver_verification_error =
  SliverIndexTooLarge
| SliverSizeMismatch
| SliverSymbolSizeMismatch
| MerkleRootMismatch

datatype sliver_recovery_or_verification_error =
  RecoveryError sliver_recovery_error
| VerificationError sliver_verification_error

fun sliver_recovery_or_verification_error_from :: "data_too_large_error \<Rightarrow> sliver_recovery_or_verification_error" where
  "sliver_recovery_or_verification_error_from e = RecoveryError (BlobSizeTooLarge e)"

datatype symbol_verification_error =
  SymbolIndexTooLarge
| SymbolSizeMismatch
| InvalidProof merkle_proof_error
| InvalidMetadata
| SymbolNotUsable

subsection \<open>Symbol sizes\<close>

definition compute_symbol_size :: "nat \<Rightarrow> nat \<Rightarrow> nat \<Rightarrow> (nat, data_too_large_error) result" where
  "compute_symbol_size data_length n_symbols alignment =
    (let data_length = max data_length 1;
         symbol_size = next_multiple_of (div_ceil data_length n_symbols) alignment
     in if symbol_size > U64_MAX then Panic
        else and_then (ok_or (checked U16_MAX symbol_size) DataTooLargeError) (\<lambda>s.
          if s = 0 then Panic else Ok s))"

definition compute_symbol_size_from_usize :: "nat \<Rightarrow> nat \<Rightarrow> nat \<Rightarrow> (nat, data_too_large_error) result" where
  "compute_symbol_size_from_usize data_length n_symbols alignment =
    and_then (ok_or (checked U64_MAX data_length) DataTooLargeError) (\<lambda>l.
      compute_symbol_size l n_symbols alignment)"

definition utils_source_symbols_per_blob :: "nat \<Rightarrow> nat \<Rightarrow> nat" where
  "utils_source_symbols_per_blob primary secondary = primary * secondary"

subsection \<open>Sizes determined by the number of shards\<close>

definition MAX_SOURCE_SYMBOLS :: nat where "MAX_SOURCE_SYMBOLS = U16_MAX"

definition source_symbols_for_n_shards :: "nat \<Rightarrow> nat \<times> nat" where
  "source_symbols_for_n_shards n_shards = (min_n_correct n_shards - max_n_faulty n_shards, min_n_correct n_shards)"

definition metadata_length_for_n_shards :: "nat \<Rightarrow> nat" where
  "metadata_length_for_n_shards n_shards = n_shards * DIGEST_LEN * 2 + BLOB_ID_LENGTH"

definition source_symbols_per_blob_for_n_shards :: "nat \<Rightarrow> nat" where
  "source_symbols_per_blob_for_n_shards n_shards =
    (case source_symbols_for_n_shards n_shards of (primary, secondary) \<Rightarrow> primary * secondary)"

definition max_blob_size_for_n_shards :: "nat \<Rightarrow> encoding_type \<Rightarrow> nat" where
  "max_blob_size_for_n_shards n_shards e = source_symbols_per_blob_for_n_shards n_shards * max_symbol_size e"

definition encoded_slivers_length_for_n_shards :: "nat \<Rightarrow> nat \<Rightarrow> encoding_type \<Rightarrow> nat option" where
  "encoded_slivers_length_for_n_shards n_shards unencoded_length e =
    (case source_symbols_for_n_shards n_shards of (primary, secondary) \<Rightarrow>
       map_option (\<lambda>s. n_shards * ((primary + secondary) * s))
         (ok (compute_symbol_size unencoded_length (source_symbols_per_blob_for_n_shards n_shards) (required_alignment e))))"

definition encoded_blob_length_for_n_shards :: "nat \<Rightarrow> nat \<Rightarrow> encoding_type \<Rightarrow> nat option" where
  "encoded_blob_length_for_n_shards n_shards unencoded_length e =
    map_option (\<lambda>slivers_size. n_shards * metadata_length_for_n_shards n_shards + slivers_size)
      (encoded_slivers_length_for_n_shards n_shards unencoded_length e)"

subsection \<open>Configurations\<close>

record rs_config =
  source_symbols_primary :: nat
  source_symbols_secondary :: nat
  n_shards :: nat

record encoding_config =
  ec_n_shards :: nat
  reed_solomon :: rs_config

datatype required_count = Exact nat

definition new_from_nonzero_parameters :: "nat \<Rightarrow> nat \<Rightarrow> nat \<Rightarrow> (rs_config, 'e) result" where
  "new_from_nonzero_parameters primary secondary n =
    (let f = max_n_faulty n in
     and_then (rust_assert (primary < MAX_SOURCE_SYMBOLS \<and> secondary < MAX_SOURCE_SYMBOLS)) (\<lambda>_.
     and_then (rust_assert (secondary \<le> n - f)) (\<lambda>_.
     and_then (rust_assert (primary \<le> n - 2 * f)) (\<lambda>_.
     Ok \<lparr>source_symbols_primary = primary, source_symbols_secondary = secondary, n_shards = n\<rparr>))))"

definition rs_config_new :: "nat \<Rightarrow> (rs_config, 'e) result" where
  "rs_config_new n =
    (case source_symbols_for_n_shards n of (primary, secondary) \<Rightarrow> new_from_nonzero_parameters primary secondary n)"

definition encoding_config_new :: "nat \<Rightarrow> (encoding_config, 'e) result" where
  "encoding_config_new n = and_then (rs_config_new n) (\<lambda>rs. Ok \<lparr>ec_n_shards = n, reed_solomon = rs\<rparr>)"

fun get_for_type :: "encoding_config \<Rightarrow> encoding_type \<Rightarrow> rs_config" where
  "get_for_type cfg RS2 = reed_solomon cfg"

definition rs_encoding_type :: encoding_type where
  "rs_encoding_type = RS2"

fun n_source_symbols :: "axis \<Rightarrow> rs_config \<Rightarrow> nat" where
  "n_source_symbols Primary cfg = source_symbols_primary cfg"
| "n_source_symbols Secondary cfg = source_symbols_secondary cfg"

definition n_systematic_slivers :: "axis \<Rightarrow> rs_config \<Rightarrow> nat" where
  "n_systematic_slivers a cfg = n_source_symbols a cfg"

definition n_slivers_for_reconstruction :: "axis \<Rightarrow> rs_config \<Rightarrow> required_count" where
  "n_slivers_for_reconstruction a cfg = Exact (n_source_symbols a cfg)"

definition n_symbols_for_recovery :: "axis \<Rightarrow> rs_config \<Rightarrow> required_count" where
  "n_symbols_for_recovery a cfg = n_slivers_for_reconstruction (orthogonal a) cfg"

definition max_blob_size :: "rs_config \<Rightarrow> nat" where
  "max_blob_size cfg = max_blob_size_for_n_shards (n_shards cfg) rs_encoding_type"

definition source_symbols_per_blob :: "rs_config \<Rightarrow> nat" where
  "source_symbols_per_blob cfg = utils_source_symbols_per_blob (source_symbols_primary cfg) (source_symbols_secondary cfg)"

definition symbol_size_for_blob :: "rs_config \<Rightarrow> nat \<Rightarrow> (nat, data_too_large_error) result" where
  "symbol_size_for_blob cfg blob_size =
    compute_symbol_size blob_size (source_symbols_per_blob cfg) (required_alignment rs_encoding_type)"

definition sliver_size_for_blob :: "axis \<Rightarrow> rs_config \<Rightarrow> nat \<Rightarrow> (nat, data_too_large_error) result" where
  "sliver_size_for_blob a cfg blob_size =
    and_then (symbol_size_for_blob cfg blob_size) (\<lambda>s.
      ok_or (checked U32_MAX (n_source_symbols (orthogonal a) cfg * s)) DataTooLargeError)"

definition encoded_blob_length :: "rs_config \<Rightarrow> nat \<Rightarrow> nat option" where
  "encoded_blob_length cfg unencoded_length =
    encoded_blob_length_for_n_shards (n_shards cfg) unencoded_length rs_encoding_type"

definition metadata_length :: "rs_config \<Rightarrow> nat" where
  "metadata_length cfg = metadata_length_for_n_shards (n_shards cfg)"

subsection \<open>The symbol size is the least aligned size that fits\<close>

definition fitting_sizes :: "nat \<Rightarrow> nat \<Rightarrow> nat \<Rightarrow> nat set" where
  "fitting_sizes len n a = {s. a dvd s \<and> max len 1 \<le> n * s}"

lemma symbol_size_least:
  assumes "0 < n" "0 < a"
  shows "next_multiple_of (div_ceil (max len 1) n) a \<in> fitting_sizes len n a"
    and "s \<in> fitting_sizes len n a \<Longrightarrow> next_multiple_of (div_ceil (max len 1) n) a \<le> s"
proof -
  let ?c = "div_ceil (max len 1) n"
  have "max len 1 \<le> n * next_multiple_of ?c a"
    using next_multiple_of_ge [of ?c a] div_ceil_le_iff [OF assms(1)] by blast
  then show "next_multiple_of ?c a \<in> fitting_sizes len n a" using assms by (simp add: fitting_sizes_def)
  show "next_multiple_of ?c a \<le> s" if "s \<in> fitting_sizes len n a"
    using that div_ceil_le_iff [OF assms(1)] by (auto simp: fitting_sizes_def intro: next_multiple_of_least)
qed

lemma symbol_size_pos: "0 < n \<Longrightarrow> 0 < next_multiple_of (div_ceil (max len 1) n) a"
  by (intro next_multiple_of_pos div_ceil_pos) auto

lemma compute_symbol_size_cases:
  assumes "0 < n" "0 < a"
  shows "compute_symbol_size len n a =
    (let s = next_multiple_of (div_ceil (max len 1) n) a
     in if s > U64_MAX then Panic else if s > U16_MAX then Err DataTooLargeError else Ok s)"
  using symbol_size_pos [OF assms(1), of len a]
  by (auto simp: compute_symbol_size_def Let_def checked_def)

lemma compute_symbol_size_OkD:
  assumes "compute_symbol_size len n a = Ok s" "0 < n" "0 < a"
  shows "0 < s" "s \<le> U16_MAX" "a dvd s" "len \<le> n * s" "\<And>t. t \<in> fitting_sizes len n a \<Longrightarrow> s \<le> t"
proof -
  have s: "s = next_multiple_of (div_ceil (max len 1) n) a" "s \<le> U16_MAX"
    using assms by (auto simp: compute_symbol_size_cases Let_def split: if_splits)
  then show "0 < s" "s \<le> U16_MAX" using symbol_size_pos [OF assms(2)] by auto
  show "a dvd s" "len \<le> n * s" using symbol_size_least(1) [OF assms(2,3)] s by (auto simp: fitting_sizes_def)
  show "s \<le> t" if "t \<in> fitting_sizes len n a" for t
    using symbol_size_least(2) [OF assms(2,3) that] s by simp
qed

lemma compute_symbol_size_fits:
  assumes "0 < n" "s \<in> fitting_sizes len n a" "0 < a" "s \<le> U16_MAX"
  shows "\<exists>t. compute_symbol_size len n a = Ok t \<and> t \<le> s"
  using symbol_size_least(2) [OF assms(1,3,2)] assms by (auto simp: compute_symbol_size_cases Let_def)

text \<open>A length that fits with even alignment is exactly one up to \<open>n\<close> symbols of the largest even size.\<close>

lemma compute_symbol_size_Ok_iff:
  assumes "0 < n"
  shows "(\<exists>s. compute_symbol_size len n 2 = Ok s) \<longleftrightarrow> len \<le> n * (U16_MAX - 1)"
proof
  assume "\<exists>s. compute_symbol_size len n 2 = Ok s"
  then obtain s where s: "compute_symbol_size len n 2 = Ok s" ..
  have "s \<le> U16_MAX" "2 dvd s" "len \<le> n * s" using compute_symbol_size_OkD [OF s assms] by auto
  moreover from this have "s \<le> U16_MAX - 1" by (cases "s = U16_MAX") auto
  ultimately show "len \<le> n * (U16_MAX - 1)" using mult_le_mono2 le_trans by blast
next
  assume "len \<le> n * (U16_MAX - 1)"
  then have "U16_MAX - 1 \<in> fitting_sizes len n 2" using assms by (auto simp: fitting_sizes_def)
  then show "\<exists>s. compute_symbol_size len n 2 = Ok s" using compute_symbol_size_fits [OF assms] by force
qed

lemma compute_symbol_size_no_panic:
  assumes "1 < n" "len \<le> U64_MAX"
  shows "compute_symbol_size len n 2 \<noteq> Panic"
proof -
  have "U64_MAX - 1 \<in> fitting_sizes len n 2" using assms by (auto simp: fitting_sizes_def)
  then show ?thesis
    using symbol_size_least(2) [of n 2 "U64_MAX - 1" len] assms by (auto simp: compute_symbol_size_cases Let_def)
qed

subsection \<open>Well-formed configurations\<close>

definition rs_config_ok :: "rs_config \<Rightarrow> bool" where
  "rs_config_ok cfg \<longleftrightarrow> (let n = n_shards cfg; f = max_n_faulty n in
     0 < n \<and> n \<le> U16_MAX
     \<and> 0 < source_symbols_primary cfg \<and> source_symbols_primary cfg \<le> n - 2 * f
     \<and> 0 < source_symbols_secondary cfg \<and> source_symbols_secondary cfg \<le> n - f
     \<and> source_symbols_primary cfg < MAX_SOURCE_SYMBOLS \<and> source_symbols_secondary cfg < MAX_SOURCE_SYMBOLS)"

lemma rs_config_okD:
  assumes "rs_config_ok cfg"
  shows "0 < n_source_symbols a cfg" "n_source_symbols a cfg \<le> n_shards cfg" "n_source_symbols a cfg < U16_MAX"
    "0 < n_shards cfg" "n_shards cfg \<le> U16_MAX"
proof -
  show "0 < n_shards cfg" "n_shards cfg \<le> U16_MAX" using assms by (simp_all add: rs_config_ok_def Let_def)
  show "0 < n_source_symbols a cfg" using assms by (cases a) (simp_all add: rs_config_ok_def Let_def)
  show "n_source_symbols a cfg \<le> n_shards cfg" using assms by (cases a) (auto simp: rs_config_ok_def Let_def)
  show "n_source_symbols a cfg < U16_MAX"
    using assms by (cases a) (simp_all add: rs_config_ok_def Let_def MAX_SOURCE_SYMBOLS_def)
qed

lemma source_symbols_per_blob_pos [simp]: "rs_config_ok cfg \<Longrightarrow> 0 < source_symbols_per_blob cfg"
  using rs_config_okD(1) [of cfg Primary] rs_config_okD(1) [of cfg Secondary]
  by (simp add: source_symbols_per_blob_def utils_source_symbols_per_blob_def)

lemma new_from_nonzero_parameters_Ok_iff:
  "new_from_nonzero_parameters p s n = Ok cfg \<longleftrightarrow>
    cfg = \<lparr>source_symbols_primary = p, source_symbols_secondary = s, n_shards = n\<rparr>
    \<and> p < MAX_SOURCE_SYMBOLS \<and> s < MAX_SOURCE_SYMBOLS \<and> s \<le> n - max_n_faulty n \<and> p \<le> n - 2 * max_n_faulty n"
  by (auto simp: new_from_nonzero_parameters_def Let_def)

lemma source_symbols_bounds:
  assumes "0 < n" "n \<le> U16_MAX"
  shows "0 < fst (source_symbols_for_n_shards n)" "fst (source_symbols_for_n_shards n) = n - 2 * max_n_faulty n"
    "snd (source_symbols_for_n_shards n) = n - max_n_faulty n"
    "fst (source_symbols_for_n_shards n) < MAX_SOURCE_SYMBOLS" "snd (source_symbols_for_n_shards n) < MAX_SOURCE_SYMBOLS"
    "fst (source_symbols_for_n_shards n) \<le> snd (source_symbols_for_n_shards n)"
    "max_n_faulty n < fst (source_symbols_for_n_shards n)"
  using assms by (auto simp: source_symbols_for_n_shards_def min_n_correct_def max_n_faulty_def MAX_SOURCE_SYMBOLS_def)

lemma rs_config_new_Ok:
  assumes "0 < n" "n \<le> U16_MAX"
  shows "rs_config_new n = Ok \<lparr>source_symbols_primary = n - 2 * max_n_faulty n,
    source_symbols_secondary = n - max_n_faulty n, n_shards = n\<rparr>"
  using source_symbols_bounds [OF assms]
  by (auto simp: rs_config_new_def new_from_nonzero_parameters_Ok_iff split: prod.splits)

lemma rs_config_new_ok:
  assumes "0 < n" "n \<le> U16_MAX" "rs_config_new n = Ok cfg"
  shows "rs_config_ok cfg"
  using assms source_symbols_bounds [OF assms(1,2)] by (auto simp: rs_config_new_Ok rs_config_ok_def Let_def)

lemma symbol_size_for_blob_OkD:
  assumes "symbol_size_for_blob cfg len = Ok s" "rs_config_ok cfg"
  shows "0 < s" "s \<le> U16_MAX" "2 dvd s" "len \<le> source_symbols_primary cfg * source_symbols_secondary cfg * s"
proof -
  have "compute_symbol_size len (source_symbols_per_blob cfg) 2 = Ok s"
    using assms(1) by (simp add: symbol_size_for_blob_def rs_encoding_type_def)
  note D = compute_symbol_size_OkD [OF this source_symbols_per_blob_pos [OF assms(2)]]
  show "0 < s" "s \<le> U16_MAX" "2 dvd s" using D(1-3) by simp_all
  show "len \<le> source_symbols_primary cfg * source_symbols_secondary cfg * s"
    using D(4) by (simp add: source_symbols_per_blob_def utils_source_symbols_per_blob_def)
qed

lemma source_symbols_per_blob_new:
  "rs_config_new n = Ok cfg \<Longrightarrow> 0 < n \<Longrightarrow> n \<le> U16_MAX \<Longrightarrow> source_symbols_per_blob cfg = source_symbols_per_blob_for_n_shards n"
  using source_symbols_bounds [of n]
  by (auto simp: rs_config_new_Ok source_symbols_per_blob_def utils_source_symbols_per_blob_def
    source_symbols_per_blob_for_n_shards_def split: prod.splits)

lemma sliver_size_for_blob_Ok:
  assumes "symbol_size_for_blob cfg len = Ok s" "rs_config_ok cfg"
  shows "sliver_size_for_blob a cfg len = Ok (n_source_symbols (orthogonal a) cfg * s)"
proof -
  have "n_source_symbols (orthogonal a) cfg * s \<le> U16_MAX * U16_MAX"
    using rs_config_okD(3) [OF assms(2), of "orthogonal a"] symbol_size_for_blob_OkD(2) [OF assms]
    by (intro mult_le_mono) auto
  then show ?thesis using assms(1) by (simp add: sliver_size_for_blob_def)
qed

lemma symbol_size_for_blob_new:
  assumes "rs_config_new n = Ok cfg" "0 < n" "n \<le> U16_MAX"
  shows "symbol_size_for_blob cfg len = compute_symbol_size len (source_symbols_per_blob_for_n_shards n) 2"
  using source_symbols_per_blob_new [OF assms] by (simp add: symbol_size_for_blob_def rs_encoding_type_def)

lemma n_shards_new: "rs_config_new n = Ok cfg \<Longrightarrow> n_shards cfg = n"
  by (auto simp: rs_config_new_def new_from_nonzero_parameters_Ok_iff split: prod.splits)

subsection \<open>Properties\<close>

text \<open>For every number of shards the configuration can be created without a panic; it leaves room for
  the assumed faults: \<open>n - f\<close> shards hold as many primary slivers as a secondary encoding has source symbols,
  and the primary encoding needs more symbols than there are faulty shards.\<close>

lemma config_new_sound:
  assumes "0 < n" "n \<le> U16_MAX"
  shows "\<exists>cfg. rs_config_new n = Ok cfg \<and> rs_config_ok cfg \<and> n_shards cfg = n
    \<and> source_symbols_secondary cfg + max_n_faulty n = n
    \<and> source_symbols_primary cfg + 2 * max_n_faulty n = n
    \<and> max_n_faulty n < source_symbols_primary cfg"
  using rs_config_new_ok [OF assms] max_n_faulty_less [OF assms(1)] by (simp add: rs_config_new_Ok [OF assms])

text \<open>The symbol size chosen for a blob is positive, aligned and large enough for the message matrix to
  hold the blob, and it is the least such size.\<close>

lemma symbol_size_minimal:
  assumes "rs_config_ok cfg" "symbol_size_for_blob cfg len = Ok s"
  shows "0 < s \<and> s \<le> U16_MAX \<and> required_alignment rs_encoding_type dvd s
    \<and> len \<le> source_symbols_per_blob cfg * s
    \<and> (\<forall>t. 0 < t \<and> required_alignment rs_encoding_type dvd t \<and> len \<le> source_symbols_per_blob cfg * t \<longrightarrow> s \<le> t)"
proof -
  have "compute_symbol_size len (source_symbols_per_blob cfg) 2 = Ok s"
    using assms(2) by (simp add: symbol_size_for_blob_def rs_encoding_type_def)
  note D = compute_symbol_size_OkD [OF this source_symbols_per_blob_pos [OF assms(1)]]
  have "s \<le> t" if "0 < t" "2 dvd t" "len \<le> source_symbols_per_blob cfg * t" for t
    using D(5) [of t] that source_symbols_per_blob_pos [OF assms(1)] by (simp add: fitting_sizes_def)
  then show ?thesis using D(1-4) by (simp add: rs_encoding_type_def)
qed

definition example_config :: rs_config where
  "example_config = \<lparr>source_symbols_primary = 2, source_symbols_secondary = 3, n_shards = 4\<rparr>"

lemma example_config_ok: "rs_config_ok example_config"
  by (simp add: rs_config_ok_def example_config_def max_n_faulty_def MAX_SOURCE_SYMBOLS_def)

lemma example_config_new: "rs_config_new 4 = Ok example_config"
  by (simp add: rs_config_new_Ok max_n_faulty_def example_config_def)

lemmas size_eval = symbol_size_for_blob_def compute_symbol_size_def source_symbols_per_blob_def
  utils_source_symbols_per_blob_def rs_encoding_type_def div_ceil_def next_multiple_of_def example_config_def

lemma example_symbol_size: "symbol_size_for_blob example_config 13 = Ok 4"
  by (simp add: size_eval)

lemma symbol_size_for_blob_Ok_iff:
  assumes "rs_config_new n = Ok cfg" "0 < n" "n \<le> U16_MAX"
  shows "(\<exists>s. symbol_size_for_blob cfg len = Ok s) \<longleftrightarrow> len \<le> max_blob_size cfg"
proof -
  have pos: "0 < source_symbols_per_blob_for_n_shards n"
    using source_symbols_per_blob_new [OF assms] rs_config_new_ok [OF assms(2,3,1)] source_symbols_per_blob_pos by metis
  have eq: "max_blob_size cfg = source_symbols_per_blob_for_n_shards n * (U16_MAX - 1)"
    by (simp add: max_blob_size_def max_blob_size_for_n_shards_def n_shards_new [OF assms(1)] rs_encoding_type_def)
  show ?thesis unfolding symbol_size_for_blob_new [OF assms] eq by (rule compute_symbol_size_Ok_iff [OF pos])
qed

text \<open>The maximum blob size is exact: a blob has a symbol size, and an encoded length, if and only if it
  is not larger than \<open>max_blob_size\<close>.\<close>

lemma max_blob_size_exact:
  assumes "rs_config_new n = Ok cfg" "0 < n" "n \<le> U16_MAX"
  shows "((\<exists>s. symbol_size_for_blob cfg len = Ok s) \<longleftrightarrow> len \<le> max_blob_size cfg)
    \<and> (encoded_blob_length cfg len = None \<longleftrightarrow> max_blob_size cfg < len)"
proof -
  have "ok r = None \<longleftrightarrow> \<not> (\<exists>s. r = Ok s)" for r :: "('x, 'y) result" by (cases r) auto
  then have "encoded_blob_length cfg len = None \<longleftrightarrow> \<not> (\<exists>s. symbol_size_for_blob cfg len = Ok s)"
    unfolding symbol_size_for_blob_new [OF assms]
    by (simp add: encoded_blob_length_def encoded_blob_length_for_n_shards_def encoded_slivers_length_for_n_shards_def
      n_shards_new [OF assms(1)] rs_encoding_type_def split: prod.splits)
  with symbol_size_for_blob_Ok_iff [OF assms] show ?thesis by auto
qed

text \<open>The encoded length of a blob is what its parts add up to: each of the \<open>n\<close> shards holds the
  metadata, one primary and one secondary sliver; the total fits a 64-bit integer.\<close>

lemma encoded_blob_length_parts:
  assumes "rs_config_new n = Ok cfg" "0 < n" "n \<le> U16_MAX" "encoded_blob_length cfg len = Some tot"
  shows "\<exists>p s. sliver_size_for_blob Primary cfg len = Ok p \<and> sliver_size_for_blob Secondary cfg len = Ok s
    \<and> tot = n * (metadata_length cfg + (p + s)) \<and> tot \<le> U64_MAX"
proof -
  have ok: "rs_config_ok cfg" by (rule rs_config_new_ok [OF assms(2,3,1)])
  have cfg: "source_symbols_for_n_shards n = (source_symbols_primary cfg, source_symbols_secondary cfg)"
    using assms(1) by (auto simp: rs_config_new_def new_from_nonzero_parameters_Ok_iff split: prod.splits)
  obtain sz where sz: "symbol_size_for_blob cfg len = Ok sz"
    and tot: "tot = n * metadata_length cfg + n * ((source_symbols_primary cfg + source_symbols_secondary cfg) * sz)"
    using assms(4) unfolding symbol_size_for_blob_new [OF assms(1-3)]
    by (cases "compute_symbol_size len (source_symbols_per_blob_for_n_shards n) 2")
      (auto simp: encoded_blob_length_def encoded_blob_length_for_n_shards_def encoded_slivers_length_for_n_shards_def
        n_shards_new [OF assms(1)] rs_encoding_type_def metadata_length_def cfg)
  have slivers: "sliver_size_for_blob Primary cfg len = Ok (source_symbols_secondary cfg * sz)"
    "sliver_size_for_blob Secondary cfg len = Ok (source_symbols_primary cfg * sz)"
    using sliver_size_for_blob_Ok [OF sz ok] by simp_all
  have eq: "tot = n * (metadata_length cfg + (source_symbols_secondary cfg * sz + source_symbols_primary cfg * sz))"
    unfolding tot by (simp add: algebra_simps)
  have "metadata_length cfg \<le> 65535 * 64 + 32"
    using assms(3) by (simp add: metadata_length_def metadata_length_for_n_shards_def n_shards_new [OF assms(1)]
      DIGEST_LEN_def BLOB_ID_LENGTH_def)
  moreover have "source_symbols_secondary cfg * sz \<le> 65535 * 65535" "source_symbols_primary cfg * sz \<le> 65535 * 65535"
    using rs_config_okD(3) [OF ok, of Secondary] rs_config_okD(3) [OF ok, of Primary] symbol_size_for_blob_OkD(2) [OF sz ok]
    by (auto intro!: mult_le_mono simp del: mult_numeral_1 numeral_times_numeral)
  ultimately have "metadata_length cfg + (source_symbols_secondary cfg * sz + source_symbols_primary cfg * sz) \<le> 10000000000"
    by simp
  then have "tot \<le> 65535 * 10000000000" unfolding eq using assms(3) by (intro mult_le_mono)
  then have "tot \<le> U64_MAX" by simp
  with slivers eq show ?thesis by blast
qed

end
