(* ===== verification/Metadata.thy ===== *)
theory Metadata
  imports EncodingConfig
begin

text \<open>
  Blob metadata, \<open>crates/walrus-core/src/metadata.rs\<close> (the part on blobs; the part on
  quilts is in theory \<open>QuiltTypes\<close>). The enum \<open>BlobMetadata\<close> has the one variant \<open>V1\<close> and is the record \<open>blob_metadata\<close>. The const
  parameter of \<open>BlobMetadataWithId\<close> that tells verified from unverified metadata carries no data; the
  operations of both variants are defined on the one record.

  The lemmas show that verification accepts what the encoder computes and that a blob ID binds the
  metadata, up to a failure of the hash function among the inputs that were hashed.
\<close>

subsection \<open>Metadata of sliver pairs\<close>

record sliver_pair_metadata =
  primary_hash :: node
  secondary_hash :: node

definition pair_leaf_input :: "sliver_pair_metadata \<Rightarrow> bytes" where
  "pair_leaf_input m = node_bytes (primary_hash m) @ node_bytes (secondary_hash m)"

fun pair_metadata_hash :: "axis \<Rightarrow> sliver_pair_metadata \<Rightarrow> node" where
  "pair_metadata_hash Primary m = primary_hash m"
| "pair_metadata_hash Secondary m = secondary_hash m"

subsection \<open>Metadata of blobs\<close>

record blob_metadata =
  encoding_type :: encoding_type
  unencoded_length :: nat
  hashes :: "sliver_pair_metadata list"

definition blob_metadata_new :: "encoding_type \<Rightarrow> nat \<Rightarrow> sliver_pair_metadata list \<Rightarrow> blob_metadata" where
  "blob_metadata_new e len hs = \<lparr>encoding_type = e, unencoded_length = len, hashes = hs\<rparr>"

definition get_sliver_hash :: "blob_metadata \<Rightarrow> sliver_pair_index \<Rightarrow> axis \<Rightarrow> node option" where
  "get_sliver_hash m i a = (if i < length (hashes m) then Some (pair_metadata_hash a (hashes m ! i)) else None)"

definition compute_root_hash :: "hash_fun \<Rightarrow> blob_metadata \<Rightarrow> node" where
  "compute_root_hash h m = root (build h (map pair_leaf_input (hashes m)))"

definition metadata_symbol_size :: "blob_metadata \<Rightarrow> encoding_config \<Rightarrow> (nat, data_too_large_error) result" where
  "metadata_symbol_size m cfg = symbol_size_for_blob (get_for_type cfg (encoding_type m)) (unencoded_length m)"

definition encoded_size :: "blob_metadata \<Rightarrow> nat option" where
  "encoded_size m =
    (case checked U16_MAX (length (hashes m)) of None \<Rightarrow> None
     | Some n \<Rightarrow> if n = 0 then None else encoded_blob_length_for_n_shards n (unencoded_length m) (encoding_type m))"

definition blob_id_from_sliver_pair_metadata :: "hash_fun \<Rightarrow> blob_metadata \<Rightarrow> blob_id" where
  "blob_id_from_sliver_pair_metadata h m =
    blob_id_from_metadata h (compute_root_hash h m) (encoding_type m) (unencoded_length m)"

subsection \<open>Metadata with a blob ID\<close>

datatype verification_error = InvalidHashCount nat nat | BlobIdMismatch | UnencodedLengthTooLarge

record blob_metadata_with_id =
  blob_id :: blob_id
  metadata :: blob_metadata

definition new_verified_unchecked :: "blob_id \<Rightarrow> blob_metadata \<Rightarrow> blob_metadata_with_id" where
  "new_verified_unchecked b m = \<lparr>blob_id = b, metadata = m\<rparr>"

definition new_verified_from_metadata ::
  "hash_fun \<Rightarrow> sliver_pair_metadata list \<Rightarrow> encoding_type \<Rightarrow> nat \<Rightarrow> blob_metadata_with_id" where
  "new_verified_from_metadata h sliver_pair_meta encoding len =
    (let m = blob_metadata_new encoding len sliver_pair_meta
     in new_verified_unchecked (blob_id_from_sliver_pair_metadata h m) m)"

definition into_unverified :: "blob_metadata_with_id \<Rightarrow> blob_metadata_with_id" where
  "into_unverified m = \<lparr>blob_id = blob_id m, metadata = metadata m\<rparr>"

text \<open>The two operations that infer the number of shards from verified metadata; \<open>None\<close> is the panic of the \<open>expect\<close>
  in \<open>n_shards\<close>.\<close>

definition metadata_n_shards :: "blob_metadata_with_id \<Rightarrow> nat option" where
  "metadata_n_shards m =
    (case checked U16_MAX (length (hashes (metadata m))) of None \<Rightarrow> None | Some n \<Rightarrow> if n = 0 then None else Some n)"

definition is_encoding_config_applicable :: "blob_metadata_with_id \<Rightarrow> encoding_config \<Rightarrow> bool option" where
  "is_encoding_config_applicable m cfg =
    (case metadata_n_shards m of None \<Rightarrow> None | Some n \<Rightarrow>
      (case source_symbols_for_n_shards n of (n_primary, n_secondary) \<Rightarrow>
        let c = get_for_type cfg (encoding_type (metadata m))
        in Some (n = n_shards c \<and> n_primary = source_symbols_primary c \<and> n_secondary = source_symbols_secondary c)))"

definition metadata_verify ::
  "hash_fun \<Rightarrow> blob_metadata_with_id \<Rightarrow> encoding_config \<Rightarrow> (blob_metadata_with_id, verification_error) result" where
  "metadata_verify h self cfg =
    (let n_hashes = length (hashes (metadata self)); n = ec_n_shards cfg in
     and_then (ensure (n_hashes = n) (InvalidHashCount n_hashes n)) (\<lambda>_.
     and_then (ensure (unencoded_length (metadata self) \<le> max_blob_size (get_for_type cfg (encoding_type (metadata self))))
       UnencodedLengthTooLarge) (\<lambda>_.
     and_then (ensure (blob_id_from_sliver_pair_metadata h (metadata self) = blob_id self) BlobIdMismatch) (\<lambda>_.
     Ok \<lparr>blob_id = blob_id self, metadata = metadata self\<rparr>))))"

subsection \<open>Well-formed metadata\<close>

definition pair_metadata_ok :: "sliver_pair_metadata \<Rightarrow> bool" where
  "pair_metadata_ok m \<longleftrightarrow> node_ok (primary_hash m) \<and> node_ok (secondary_hash m)"

definition metadata_ok :: "blob_metadata \<Rightarrow> bool" where
  "metadata_ok m \<longleftrightarrow> (\<forall>p\<in>set (hashes m). pair_metadata_ok p) \<and> unencoded_length m \<le> U64_MAX"

definition encoding_config_ok :: "encoding_config \<Rightarrow> bool" where
  "encoding_config_ok cfg \<longleftrightarrow> rs_config_new (ec_n_shards cfg) = (Ok (reed_solomon cfg) :: (rs_config, unit) result)
    \<and> 0 < ec_n_shards cfg \<and> ec_n_shards cfg \<le> U16_MAX"

lemma encoding_config_new_ok:
  "0 < n \<Longrightarrow> n \<le> U16_MAX \<Longrightarrow> encoding_config_new n = Ok cfg \<Longrightarrow> encoding_config_ok cfg"
  by (auto simp: encoding_config_new_def encoding_config_ok_def rs_config_new_Ok)

lemma encoding_config_okD:
  assumes "encoding_config_ok cfg"
  shows "rs_config_ok (reed_solomon cfg)" "n_shards (reed_solomon cfg) = ec_n_shards cfg"
    "0 < ec_n_shards cfg" "ec_n_shards cfg \<le> U16_MAX"
  using assms rs_config_new_ok [of "ec_n_shards cfg"] n_shards_new [of "ec_n_shards cfg"]
  by (auto simp: encoding_config_ok_def)

lemma get_for_type_eq [simp]: "get_for_type cfg e = reed_solomon cfg"
  by (cases e) simp

lemma pair_leaf_input_eq:
  assumes "pair_metadata_ok m" "pair_metadata_ok m'"
  shows "pair_leaf_input m = pair_leaf_input m' \<longleftrightarrow>
    node_bytes (primary_hash m) = node_bytes (primary_hash m') \<and> node_bytes (secondary_hash m) = node_bytes (secondary_hash m')"
  using assms by (simp add: pair_leaf_input_def pair_metadata_ok_def node_ok_def)

subsection \<open>Verification\<close>

lemma metadata_verify_Ok_iff:
  "metadata_verify h self cfg = Ok v \<longleftrightarrow>
    length (hashes (metadata self)) = ec_n_shards cfg
    \<and> unencoded_length (metadata self) \<le> max_blob_size (reed_solomon cfg)
    \<and> blob_id self = blob_id_from_sliver_pair_metadata h (metadata self) \<and> v = self"
  by (auto simp: metadata_verify_def Let_def)

lemma metadata_verify_n_shards:
  "metadata_verify h self cfg = Ok v \<Longrightarrow> encoding_config_ok cfg \<Longrightarrow> metadata_n_shards v = Some (ec_n_shards cfg)"
  by (auto simp: metadata_verify_Ok_iff metadata_n_shards_def encoding_config_ok_def)

lemma metadata_verify_applicable:
  assumes "metadata_verify h self cfg = Ok v" "encoding_config_ok cfg"
  shows "is_encoding_config_applicable v cfg = Some True"
proof -
  have "source_symbols_for_n_shards (ec_n_shards cfg) = (source_symbols_primary (reed_solomon cfg), source_symbols_secondary (reed_solomon cfg))"
    using assms(2) by (auto simp: encoding_config_ok_def rs_config_new_def new_from_nonzero_parameters_Ok_iff split: prod.splits)
  then show ?thesis
    using encoding_config_okD(2) [OF assms(2)]
    by (simp add: is_encoding_config_applicable_def Let_def metadata_verify_n_shards [OF assms])
qed

text \<open>Verified metadata has a symbol size and an encoded size.\<close>

lemma metadata_verify_sizes:
  assumes "metadata_verify h self cfg = Ok v" "encoding_config_ok cfg"
  shows "\<exists>s t. metadata_symbol_size (metadata v) cfg = Ok s \<and> encoded_size (metadata v) = Some t"
proof -
  let ?n = "ec_n_shards cfg" and ?rs = "reed_solomon cfg"
  have new: "rs_config_new ?n = (Ok ?rs :: (rs_config, unit) result)" "0 < ?n" "?n \<le> U16_MAX"
    using assms(2) by (auto simp: encoding_config_ok_def)
  have v: "length (hashes (metadata v)) = ?n" "unencoded_length (metadata v) \<le> max_blob_size ?rs"
    using assms(1) by (auto simp: metadata_verify_Ok_iff)
  have pos: "0 < source_symbols_per_blob_for_n_shards ?n"
    using source_symbols_per_blob_new [OF new] rs_config_new_ok [OF new(2,3,1)] source_symbols_per_blob_pos by metis
  have "unencoded_length (metadata v) \<le> source_symbols_per_blob_for_n_shards ?n * (U16_MAX - 1)"
    using v(2) by (simp add: max_blob_size_def max_blob_size_for_n_shards_def n_shards_new [OF new(1)] rs_encoding_type_def)
  then obtain s where s: "compute_symbol_size (unencoded_length (metadata v)) (source_symbols_per_blob_for_n_shards ?n) 2 = Ok s"
    using compute_symbol_size_Ok_iff [OF pos] by blast
  then have "metadata_symbol_size (metadata v) cfg = Ok s"
    by (simp add: metadata_symbol_size_def symbol_size_for_blob_new [OF new])
  moreover have "required_alignment (encoding_type (metadata v)) = 2" by (cases "encoding_type (metadata v)") simp
  then have "\<exists>t. encoded_size (metadata v) = Some t"
    using s v(1) new by (auto simp: encoded_size_def encoded_blob_length_for_n_shards_def encoded_slivers_length_for_n_shards_def split: prod.splits)
  ultimately show ?thesis by blast
qed

subsection \<open>A blob ID binds the metadata\<close>

definition blob_id_input :: "hash_fun \<Rightarrow> blob_metadata \<Rightarrow> bytes" where
  "blob_id_input h m = [encoding_type_to_u8 (encoding_type m)] @ u64_to_le_bytes (unencoded_length m)
    @ node_bytes (compute_root_hash h m)"

text \<open>All inputs that computing a blob ID from metadata gives to the hash function.\<close>

definition metadata_inputs :: "hash_fun \<Rightarrow> blob_metadata \<Rightarrow> bytes list" where
  "metadata_inputs h m = blob_id_input h m # build_inputs h (map pair_leaf_input (hashes m))"

lemma blob_id_hash: "blob_id_from_sliver_pair_metadata h m = h (blob_id_input h m)"
  by (simp add: blob_id_from_sliver_pair_metadata_def blob_id_from_metadata_def blob_id_new_with_hash_function_def blob_id_input_def)

lemma root_build_Digest: "leaves \<noteq> [] \<Longrightarrow> \<exists>d. root (build h leaves) = Digest (h d) \<and> d \<in> set (build_inputs h leaves)"
proof -
  assume ne: "leaves \<noteq> []"
  let ?l = "map (leaf_hash h) leaves"
  have rt: "root (build h leaves) = tree_root h ?l" by (simp add: build_def root_build_from_leaf_hashes)
  show ?thesis
  proof (cases "path_length (length ?l)")
    case 0
    then have "length leaves = 1" using ne by (cases leaves) (auto simp: path_length_def split: if_splits)
    then obtain x where "leaves = [x]" by (auto simp: length_Suc_conv)
    then show ?thesis using rt by (auto simp: tree_root.simps leaf_hash_def build_inputs_def)
  next
    case (Suc m)
    let ?lm = "(lift_level h ^^ m) ?l"
    have top: "lift_level h ?lm = [tree_root h ?l]" using lift_level_funpow_top [of ?l h] ne Suc by simp
    then have len: "0 < (length ?lm + 1) div 2" using length_lift_level [of h ?lm] by simp
    have "tree_root h ?l = Digest (h (pair_input ?lm 0))" using lift_level_nth [OF len, of h] top by simp
    moreover have "pair_input ?lm 0 \<in> set (tree_inputs ?l h)"
      by (rule pair_input_in_tree_inputs [OF _ len]) (use Suc in simp)
    ultimately show ?thesis using rt by (auto simp: build_inputs_def)
  qed
qed

lemma node_ok_compute_root_hash: "digest32 h \<Longrightarrow> node_ok (compute_root_hash h m)"
proof (cases "hashes m = []")
  case True
  then show ?thesis
    by (simp add: compute_root_hash_def build_def root_build_from_leaf_hashes tree_root.simps)
next
  case False
  assume "digest32 h"
  then show ?thesis
    using False root_build_Digest [of "map pair_leaf_input (hashes m)" h] by (auto simp: compute_root_hash_def)
qed

lemma hashes_bound:
  assumes "metadata_ok m" "metadata_ok m'" "map pair_leaf_input (hashes m) = map pair_leaf_input (hashes m')"
    and "i < length (hashes m)"
  shows "node_bytes (pair_metadata_hash a (hashes m ! i)) = node_bytes (pair_metadata_hash a (hashes m' ! i))"
proof -
  have len: "length (hashes m) = length (hashes m')" using assms(3) by (rule map_eq_imp_length_eq)
  have "pair_leaf_input (hashes m ! i) = pair_leaf_input (hashes m' ! i)"
    using assms(3,4) len by (metis nth_map)
  moreover have "pair_metadata_ok (hashes m ! i)" "pair_metadata_ok (hashes m' ! i)"
    using assms len by (auto simp: metadata_ok_def)
  ultimately show ?thesis by (cases a) (auto simp: pair_leaf_input_eq)
qed

lemma blob_id_binds:
  assumes h: "digest32 h" and ok: "metadata_ok m" "metadata_ok m'"
    and len: "length (hashes m) = length (hashes m')" "hashes m \<noteq> []" "length (hashes m) \<le> U16_MAX"
    and eq: "blob_id_from_sliver_pair_metadata h m = blob_id_from_sliver_pair_metadata h m'"
  shows "(encoding_type m = encoding_type m' \<and> unencoded_length m = unencoded_length m'
      \<and> (\<forall>i<length (hashes m). \<forall>a. node_bytes (pair_metadata_hash a (hashes m ! i)) = node_bytes (pair_metadata_hash a (hashes m' ! i))))
    \<or> hash_broken h (set (metadata_inputs h m')) (set (metadata_inputs h m))"
proof (cases "blob_id_input h m = blob_id_input h m'")
  case False
  then have "hash_broken h (set (metadata_inputs h m')) (set (metadata_inputs h m))"
    using eq unfolding hash_broken_def blob_id_hash by (auto simp: metadata_inputs_def)
  then show ?thesis ..
next
  case True
  let ?ls = "map pair_leaf_input (hashes m)" and ?ls' = "map pair_leaf_input (hashes m')"
  have len': "?ls \<noteq> []" "?ls' \<noteq> []" "length ?ls = length ?ls'" "length ?ls' \<le> 2 ^ 63" using len by auto
  have fields: "encoding_type m = encoding_type m' \<and> unencoded_length m = unencoded_length m'
      \<and> node_bytes (compute_root_hash h m) = node_bytes (compute_root_hash h m')"
    using True ok node_ok_compute_root_hash [OF h] unfolding blob_id_input_def metadata_ok_def
    by (intro blob_id_input_inj) auto
  then have roots: "root (build h ?ls) = root (build h ?ls')"
    using root_build_Digest [OF len'(1), of h] root_build_Digest [OF len'(2), of h] by (auto simp: compute_root_hash_def)
  show ?thesis
  proof (cases "?ls = ?ls'")
    case True
    then show ?thesis using fields hashes_bound [OF ok True] by blast
  next
    case False
    then obtain i p where i: "i < length ?ls'" "ok (get_proof (build h ?ls') i) = Some p"
      and br: "hash_broken h (set (proof_inputs h p (?ls' ! i) i)) (set (build_inputs h ?ls))"
      using merkle.commit_collision [OF h roots len'(3) False len'(4)] by blast
    have "set (proof_inputs h p (?ls' ! i) i) \<subseteq> set (build_inputs h ?ls')"
      by (rule proof_inputs_honest) (use i in simp_all)
    then have "hash_broken h (set (metadata_inputs h m')) (set (metadata_inputs h m))"
      using br by (elim hash_broken_mono) (auto simp: metadata_inputs_def)
    then show ?thesis ..
  qed
qed

subsection \<open>Properties\<close>

text \<open>Metadata that the encoder assembles from the right number of sliver hashes, for a blob that fits, passes
  verification.\<close>

lemma new_verified_verifies:
  assumes "length hs = ec_n_shards cfg" "len \<le> max_blob_size (reed_solomon cfg)"
  shows "metadata_verify h (into_unverified (new_verified_from_metadata h hs e len)) cfg = Ok (new_verified_from_metadata h hs e len)"
  using assms by (simp add: metadata_verify_Ok_iff into_unverified_def new_verified_from_metadata_def
    new_verified_unchecked_def blob_metadata_new_def Let_def)

definition example_encoding_config :: encoding_config where
  "example_encoding_config = \<lparr>ec_n_shards = 4, reed_solomon = example_config\<rparr>"

lemma example_encoding_config_ok: "encoding_config_ok example_encoding_config"
  by (simp add: encoding_config_ok_def example_encoding_config_def example_config_new)

definition empty_hashes :: blob_metadata_with_id where
  "empty_hashes = new_verified_from_metadata fold_hash (replicate 4 \<lparr>primary_hash = Empty, secondary_hash = Empty\<rparr>) RS2 13"

definition zero_hashes :: blob_metadata_with_id where
  "zero_hashes = new_verified_from_metadata fold_hash
    (replicate 4 \<lparr>primary_hash = Digest EMPTY_NODE, secondary_hash = Digest EMPTY_NODE\<rparr>) RS2 13"

lemma example_metadata_verifies:
  "metadata_verify fold_hash empty_hashes example_encoding_config = Ok empty_hashes"
  "metadata_verify fold_hash zero_hashes example_encoding_config = Ok zero_hashes"
  unfolding empty_hashes_def zero_hashes_def
  by (simp_all add: metadata_verify_Ok_iff new_verified_from_metadata_def new_verified_unchecked_def blob_metadata_new_def
    Let_def example_encoding_config_def example_config_def max_blob_size_def max_blob_size_for_n_shards_def
    source_symbols_per_blob_for_n_shards_def source_symbols_for_n_shards_def min_n_correct_def max_n_faulty_def rs_encoding_type_def)

lemma example_metadata_ok: "metadata_ok (metadata empty_hashes)" "metadata_ok (metadata zero_hashes)"
  by (auto simp: metadata_ok_def empty_hashes_def zero_hashes_def new_verified_from_metadata_def new_verified_unchecked_def
    blob_metadata_new_def Let_def pair_metadata_ok_def node_ok_def EMPTY_NODE_def)

lemma example_same_blob_id: "blob_id empty_hashes = blob_id zero_hashes"
  by (simp add: empty_hashes_def zero_hashes_def new_verified_from_metadata_def new_verified_unchecked_def
    blob_metadata_new_def blob_id_from_sliver_pair_metadata_def compute_root_hash_def pair_leaf_input_def)

text \<open>Whatever passes verification can be used without a panic: its number of shards is the one of the
  configuration, which is applicable to it, and its symbol size and encoded size exist.\<close>

lemma verified_metadata_usable:
  assumes "encoding_config_ok cfg" "metadata_verify h m cfg = Ok v"
  shows "v = m \<and> metadata_n_shards v = Some (ec_n_shards cfg) \<and> is_encoding_config_applicable v cfg = Some True
    \<and> (\<exists>s t. metadata_symbol_size (metadata v) cfg = Ok s \<and> encoded_size (metadata v) = Some t)"
  using metadata_verify_sizes [OF assms(2,1)] metadata_verify_n_shards [OF assms(2,1)]
    metadata_verify_applicable [OF assms(2,1)] assms(2) by (simp add: metadata_verify_Ok_iff)

text \<open>C39: A blob ID binds the metadata: two metadata that verify under the same blob ID agree in encoding type,
  length and in the bytes of every sliver hash, or among the inputs hashed for one of them there is a preimage of the zero
  digest or one that collides with an input hashed for the other. (Sliver hashes agree in their bytes only: an
  empty node and the zero digest are not told apart.)\<close>

theorem blob_id_binding:
  assumes "digest32 h" "encoding_config_ok cfg" "metadata_ok (metadata m)" "metadata_ok (metadata m')"
    and "metadata_verify h m cfg = Ok v" "metadata_verify h m' cfg = Ok v'" "blob_id m = blob_id m'"
  shows "(encoding_type (metadata m) = encoding_type (metadata m')
      \<and> unencoded_length (metadata m) = unencoded_length (metadata m')
      \<and> (\<forall>i<ec_n_shards cfg. \<forall>a. map_option node_bytes (get_sliver_hash (metadata m) i a)
          = map_option node_bytes (get_sliver_hash (metadata m') i a)))
    \<or> hash_broken h (set (metadata_inputs h (metadata m'))) (set (metadata_inputs h (metadata m)))"
proof -
  have m: "length (hashes (metadata m)) = ec_n_shards cfg" "length (hashes (metadata m')) = ec_n_shards cfg"
    "blob_id_from_sliver_pair_metadata h (metadata m) = blob_id_from_sliver_pair_metadata h (metadata m')"
    using assms(5-7) by (auto simp: metadata_verify_Ok_iff)
  moreover from this have "hashes (metadata m) \<noteq> []" "length (hashes (metadata m)) \<le> U16_MAX"
    using encoding_config_okD(3,4) [OF assms(2)] by auto
  ultimately show ?thesis
    using blob_id_binds [OF assms(1,3,4)] by (simp add: get_sliver_hash_def)
qed

theorem blob_id_binding_witness:
  "blob_id empty_hashes = blob_id zero_hashes \<and> metadata empty_hashes \<noteq> metadata zero_hashes
   \<and> ((encoding_type (metadata empty_hashes) = encoding_type (metadata zero_hashes)
      \<and> unencoded_length (metadata empty_hashes) = unencoded_length (metadata zero_hashes)
      \<and> (\<forall>i<ec_n_shards example_encoding_config. \<forall>a. map_option node_bytes (get_sliver_hash (metadata empty_hashes) i a)
          = map_option node_bytes (get_sliver_hash (metadata zero_hashes) i a)))
    \<or> hash_broken fold_hash (set (metadata_inputs fold_hash (metadata zero_hashes))) (set (metadata_inputs fold_hash (metadata empty_hashes))))"
proof -
  have "metadata empty_hashes \<noteq> metadata zero_hashes"
    by (simp add: empty_hashes_def zero_hashes_def new_verified_from_metadata_def new_verified_unchecked_def blob_metadata_new_def Let_def)
  then show ?thesis
    using blob_id_binding [OF digest32_fold_hash example_encoding_config_ok example_metadata_ok
      example_metadata_verifies example_same_blob_id] example_same_blob_id by blast
qed

end
