(* ===== verification/Symbols.thy ===== *)
theory Symbols
  imports Metadata
begin

text \<open>
  Encoding symbols, \<open>crates/walrus-core/src/encoding/symbols.rs\<close>: the container \<open>Symbols\<close> that keeps
  symbols of one size in one byte vector, decoding symbols, and recovery symbols with their Merkle
  proofs. The capacity of a vector is not part of the model, so \<open>reserve\<close> and \<open>set_min_capacity\<close> do not
  appear. A method that hands out a mutable reference is modelled by the write through it.

  The lemmas show that the container behaves as a vector of symbols of the given size (an
  implementation of the interface \<open>symbol_vector\<close>) and what an accepted recovery symbol guarantees.
\<close>

subsection \<open>The container\<close>

record symbols =
  sym_data :: bytes
  symbol_size :: nat

definition symbols_new :: "bytes \<Rightarrow> nat \<Rightarrow> (symbols, 'e) result" where
  "symbols_new d sz = and_then (rust_assert (length d mod sz = 0)) (\<lambda>_. Ok \<lparr>sym_data = d, symbol_size = sz\<rparr>)"

definition symbols_truncate :: "nat \<Rightarrow> symbols \<Rightarrow> symbols" where
  "symbols_truncate len s = s\<lparr>sym_data := take (len * symbol_size s) (sym_data s)\<rparr>"

definition symbols_zeros :: "nat \<Rightarrow> nat \<Rightarrow> symbols" where
  "symbols_zeros n_symbols sz = \<lparr>sym_data = replicate (n_symbols * sz) 0, symbol_size = sz\<rparr>"

definition symbols_with_capacity :: "nat \<Rightarrow> nat \<Rightarrow> symbols" where
  "symbols_with_capacity n_symbols sz = \<lparr>sym_data = [], symbol_size = sz\<rparr>"

definition symbols_len :: "symbols \<Rightarrow> nat" where
  "symbols_len s = length (sym_data s) div symbol_size s"

definition symbols_is_empty :: "symbols \<Rightarrow> bool" where
  "symbols_is_empty s \<longleftrightarrow> sym_data s = []"

definition symbol_range :: "symbols \<Rightarrow> nat \<Rightarrow> nat \<Rightarrow> nat \<times> nat" where
  "symbol_range s a b = (symbol_size s * a, symbol_size s * b)"

definition vec_slice :: "'a list \<Rightarrow> nat \<times> nat \<Rightarrow> ('a list, 'e) result" where
  "vec_slice xs = (\<lambda>(a, b). if a \<le> b \<and> b \<le> length xs then Ok (take (b - a) (drop a xs)) else Panic)"

definition symbols_index :: "symbols \<Rightarrow> nat \<Rightarrow> (bytes, 'e) result" where
  "symbols_index s i = vec_slice (sym_data s) (symbol_range s i (i + 1))"

definition symbols_index_range :: "symbols \<Rightarrow> nat \<Rightarrow> nat \<Rightarrow> (bytes, 'e) result" where
  "symbols_index_range s a b = vec_slice (sym_data s) (symbol_range s a b)"

text \<open>\<open>self[index].copy_from_slice(v)\<close>: panics out of range and on slices of different lengths.\<close>

definition copy_to_slice :: "'a list \<Rightarrow> nat \<times> nat \<Rightarrow> 'a list \<Rightarrow> ('a list, 'e) result" where
  "copy_to_slice xs = (\<lambda>(a, b) v.
    if a \<le> b \<and> b \<le> length xs \<and> length v = b - a then Ok (take a xs @ v @ drop b xs) else Panic)"

definition symbols_index_mut_copy :: "symbols \<Rightarrow> nat \<Rightarrow> bytes \<Rightarrow> (symbols, 'e) result" where
  "symbols_index_mut_copy s i v =
    and_then (copy_to_slice (sym_data s) (symbol_range s i (i + 1)) v) (\<lambda>d. Ok (s\<lparr>sym_data := d\<rparr>))"

definition symbols_index_range_mut_copy :: "symbols \<Rightarrow> nat \<Rightarrow> nat \<Rightarrow> bytes \<Rightarrow> (symbols, 'e) result" where
  "symbols_index_range_mut_copy s a b v =
    and_then (copy_to_slice (sym_data s) (symbol_range s a b) v) (\<lambda>d. Ok (s\<lparr>sym_data := d\<rparr>))"

definition symbols_get :: "symbols \<Rightarrow> nat \<Rightarrow> (bytes option, 'e) result" where
  "symbols_get s i = (if i \<ge> symbols_len s then Ok None else and_then (symbols_index s i) (\<lambda>x. Ok (Some x)))"

definition symbols_get_mut_copy :: "symbols \<Rightarrow> nat \<Rightarrow> bytes \<Rightarrow> (symbols option, 'e) result" where
  "symbols_get_mut_copy s i v =
    (if i \<ge> symbols_len s then Ok None else and_then (symbols_index_mut_copy s i v) (\<lambda>s'. Ok (Some s')))"

definition to_symbols :: "symbols \<Rightarrow> bytes list" where
  "to_symbols s = chunks (symbol_size s) (sym_data s)"

definition symbols_extend :: "symbols \<Rightarrow> bytes \<Rightarrow> (symbols, wrong_symbol_size_error) result" where
  "symbols_extend s d =
    (if length d mod symbol_size s \<noteq> 0 then Err WrongSymbolSizeError else Ok (s\<lparr>sym_data := sym_data s @ d\<rparr>))"

subsection \<open>Decoding symbols\<close>

record decoding_symbol =
  ds_index :: nat
  ds_data :: bytes

definition decoding_symbol_new :: "nat \<Rightarrow> bytes \<Rightarrow> decoding_symbol" where
  "decoding_symbol_new i d = \<lparr>ds_index = i, ds_data = d\<rparr>"

definition decoding_symbol_len :: "decoding_symbol \<Rightarrow> nat" where
  "decoding_symbol_len s = length (ds_data s)"

definition decoding_symbol_at :: "symbols \<Rightarrow> nat \<Rightarrow> nat \<Rightarrow> (decoding_symbol option, 'e) result" where
  "decoding_symbol_at s data_index symbol_index =
    and_then (symbols_index s data_index) (\<lambda>d. Ok (Some (decoding_symbol_new symbol_index d)))"

type_synonym either_decoding_symbol = "(decoding_symbol, decoding_symbol) by_axis"

fun source_type :: "either_decoding_symbol \<Rightarrow> axis" where
  "source_type (PrimaryV _) = Secondary"
| "source_type (SecondaryV _) = Primary"

fun either_index :: "either_decoding_symbol \<Rightarrow> nat" where
  "either_index (PrimaryV s) = ds_index s"
| "either_index (SecondaryV s) = ds_index s"

definition source_index :: "either_decoding_symbol \<Rightarrow> sliver_index" where
  "source_index s = either_index s"

fun either_data :: "either_decoding_symbol \<Rightarrow> bytes" where
  "either_data (PrimaryV s) = ds_data s"
| "either_data (SecondaryV s) = ds_data s"

fun either_len :: "either_decoding_symbol \<Rightarrow> nat" where
  "either_len (PrimaryV s) = decoding_symbol_len s"
| "either_len (SecondaryV s) = decoding_symbol_len s"

subsection \<open>Recovery symbols\<close>

text \<open>The axis of a \<open>RecoverySymbol<T, U>\<close> is the argument of its operations.\<close>

record recovery_symbol =
  rs_symbol :: decoding_symbol
  rs_proof :: merkle_proof

definition with_proof :: "decoding_symbol \<Rightarrow> merkle_proof \<Rightarrow> recovery_symbol" where
  "with_proof s p = \<lparr>rs_symbol = s, rs_proof = p\<rparr>"

definition recovery_symbol_verify_proof ::
  "hash_fun \<Rightarrow> recovery_symbol \<Rightarrow> node \<Rightarrow> nat \<Rightarrow> nat \<Rightarrow> (unit, merkle_proof_error) result" where
  "recovery_symbol_verify_proof h self rt total_leaf_count target_index =
    verify_proof h (rs_proof self) rt total_leaf_count (ds_data (rs_symbol self)) target_index"

definition recovery_symbol_verify ::
  "hash_fun \<Rightarrow> axis \<Rightarrow> recovery_symbol \<Rightarrow> nat \<Rightarrow> nat \<Rightarrow> blob_metadata \<Rightarrow> sliver_index \<Rightarrow> (unit, symbol_verification_error) result" where
  "recovery_symbol_verify h a self n expected_symbol_size md target_index =
    (if ds_index (rs_symbol self) \<ge> n then Err SymbolIndexTooLarge
     else if decoding_symbol_len (rs_symbol self) \<noteq> expected_symbol_size then Err SymbolSizeMismatch
     else and_then (to_pair_index (orthogonal a) (ds_index (rs_symbol self)) n) (\<lambda>pair.
       and_then (ok_or (get_sliver_hash md pair (orthogonal a)) InvalidMetadata) (\<lambda>rt.
       map_err InvalidProof (recovery_symbol_verify_proof h self rt n target_index))))"

definition into_decoding_symbol :: "recovery_symbol \<Rightarrow> decoding_symbol" where
  "into_decoding_symbol s = rs_symbol s"

record general_recovery_symbol =
  grs_symbol :: either_decoding_symbol
  grs_target_index :: sliver_index
  grs_proof :: merkle_proof

definition general_id :: "general_recovery_symbol \<Rightarrow> symbol_id" where
  "general_id self = (case grs_symbol self of
      PrimaryV s \<Rightarrow> symbol_id_new (grs_target_index self) (ds_index s)
    | SecondaryV s \<Rightarrow> symbol_id_new (ds_index s) (grs_target_index self))"

fun from_recovery_symbol :: "axis \<Rightarrow> recovery_symbol \<Rightarrow> sliver_index \<Rightarrow> general_recovery_symbol" where
  "from_recovery_symbol Primary s t = \<lparr>grs_symbol = PrimaryV (rs_symbol s), grs_target_index = t, grs_proof = rs_proof s\<rparr>"
| "from_recovery_symbol Secondary s t = \<lparr>grs_symbol = SecondaryV (rs_symbol s), grs_target_index = t, grs_proof = rs_proof s\<rparr>"

definition get_expected_root :: "general_recovery_symbol \<Rightarrow> blob_metadata \<Rightarrow> nat \<Rightarrow> (node option, 'e) result" where
  "get_expected_root self md n =
    (let src = either_index (grs_symbol self); src_type = source_type (grs_symbol self) in
     and_then (case src_type of Primary \<Rightarrow> to_pair_index Primary src n | Secondary \<Rightarrow> to_pair_index Secondary src n) (\<lambda>pair.
     Ok (get_sliver_hash md pair src_type)))"

definition general_verify ::
  "hash_fun \<Rightarrow> general_recovery_symbol \<Rightarrow> blob_metadata \<Rightarrow> encoding_config \<Rightarrow> sliver_index \<Rightarrow> axis \<Rightarrow> (unit, symbol_verification_error) result" where
  "general_verify h self md cfg target_index target_type =
    (let n = ec_n_shards cfg in
     and_then (ensure (either_index (grs_symbol self) < n) SymbolIndexTooLarge) (\<lambda>_.
     and_then (ensure (grs_target_index self < n) SymbolIndexTooLarge) (\<lambda>_.
     and_then (case metadata_symbol_size md cfg of Ok s \<Rightarrow> ensure (either_len (grs_symbol self) = s) SymbolSizeMismatch
       | Err _ \<Rightarrow> Err SymbolSizeMismatch | Panic \<Rightarrow> Panic) (\<lambda>_.
     and_then (ensure ((source_type (grs_symbol self) \<noteq> target_type \<and> grs_target_index self = target_index)
       \<or> source_index (grs_symbol self) = target_index) SymbolNotUsable) (\<lambda>_.
     and_then (get_expected_root self md n) (\<lambda>expected.
     and_then (ok_or expected InvalidMetadata) (\<lambda>expected_root.
     map_err InvalidProof (verify_proof h (grs_proof self) expected_root n (either_data (grs_symbol self)) (grs_target_index self))))))))) "

definition general_to_decoding_symbol :: "axis \<Rightarrow> general_recovery_symbol \<Rightarrow> decoding_symbol" where
  "general_to_decoding_symbol a v = (case (a, grs_symbol v) of
      (Primary, PrimaryV s) \<Rightarrow> s
    | (Primary, SecondaryV s) \<Rightarrow> decoding_symbol_new (grs_target_index v) (ds_data s)
    | (Secondary, SecondaryV s) \<Rightarrow> s
    | (Secondary, PrimaryV s) \<Rightarrow> decoding_symbol_new (grs_target_index v) (ds_data s))"

subsection \<open>The container as a vector of symbols\<close>

definition symbols_ok :: "symbols \<Rightarrow> bool" where
  "symbols_ok s \<longleftrightarrow> 0 < symbol_size s \<and> symbol_size s dvd length (sym_data s)"

lemma vec_slice_Ok: "a \<le> b \<Longrightarrow> b \<le> length xs \<Longrightarrow> vec_slice xs (a, b) = Ok (take (b - a) (drop a xs))"
  by (simp add: vec_slice_def)

lemma symbols_len_eq: "symbols_ok s \<Longrightarrow> symbols_len s = length (to_symbols s)"
  by (simp add: symbols_ok_def symbols_len_def to_symbols_def length_chunks)

lemma symbols_eqI:
  "symbols_ok s \<Longrightarrow> symbol_size s = symbol_size t \<Longrightarrow> to_symbols s = to_symbols t \<Longrightarrow> s = t"
  by (cases s; cases t) (auto simp: symbols_ok_def to_symbols_def dest: eq_of_chunks)

lemma to_symbols_lengths: "symbols_ok s \<Longrightarrow> x \<in> set (to_symbols s) \<Longrightarrow> length x = symbol_size s"
  unfolding symbols_ok_def to_symbols_def using chunks_lengths by blast

lemma symbol_end_le:
  assumes "symbols_ok s" "i < symbols_len s"
  shows "symbol_size s * i + symbol_size s \<le> length (sym_data s)"
proof -
  have "symbol_size s * Suc i \<le> symbol_size s * (length (sym_data s) div symbol_size s)"
    using assms(2) by (intro mult_le_mono2) (simp add: symbols_len_def)
  also have "\<dots> \<le> length (sym_data s)" by simp
  finally show ?thesis by simp
qed

lemma symbols_index_eq:
  "symbols_ok s \<Longrightarrow> symbols_index s i = (if i < symbols_len s then Ok (to_symbols s ! i) else Panic)"
proof (cases "i < symbols_len s")
  case True
  assume ok: "symbols_ok s"
  have "chunks (symbol_size s) (sym_data s) ! i = take (symbol_size s) (drop (symbol_size s * i) (sym_data s))"
    by (rule chunks_nth) (use ok True in \<open>auto simp: symbols_ok_def symbols_len_def\<close>)
  then show ?thesis using True symbol_end_le [OF ok True]
    by (simp add: symbols_index_def symbol_range_def to_symbols_def vec_slice_def add.commute)
next
  case False
  assume ok: "symbols_ok s"
  then have "length (sym_data s) < symbol_size s * Suc i"
    using False unfolding symbols_ok_def symbols_len_def
    by (metis dvd_mult_div_cancel less_Suc_eq_le mult_less_mono2 not_less)
  then show ?thesis using False by (simp add: symbols_index_def symbol_range_def vec_slice_def)
qed

lemma symbols_get_eq:
  "symbols_ok s \<Longrightarrow> symbols_get s i = Ok (if i < length (to_symbols s) then Some (to_symbols s ! i) else None)"
  by (simp add: symbols_get_def symbols_index_eq symbols_len_eq not_less)

lemma decoding_symbol_at_eq:
  "symbols_ok s \<Longrightarrow> decoding_symbol_at s i j =
    (if i < length (to_symbols s) then Ok (Some \<lparr>ds_index = j, ds_data = to_symbols s ! i\<rparr>) else Panic)"
  by (simp add: decoding_symbol_at_def symbols_index_eq symbols_len_eq decoding_symbol_new_def)

lemma take_drop_chunks:
  assumes "0 < n" "n dvd length xs" "n * i + n \<le> length xs" "length v = n"
  shows "chunks n (take (n * i) xs @ v @ drop (n * i + n) xs) = (chunks n xs)[i := v]"
proof -
  let ?a = "take (n * i) xs" and ?m = "take n (drop (n * i) xs)" and ?b = "drop (n * i + n) xs"
  have xs: "xs = ?a @ ?m @ ?b" by (metis append_take_drop_id drop_drop add.commute)
  have a: "n dvd length ?a" "length ?a div n = i" using assms(1,3) by auto
  have m: "length ?m = n" using assms(3) by simp
  have "chunks n xs = chunks n ?a @ ?m # chunks n ?b"
    by (subst (1) xs) (simp add: chunks_append [OF assms(1) a(1)] chunks_step [OF assms(1) m])
  moreover have "chunks n (?a @ v @ ?b) = chunks n ?a @ v # chunks n ?b"
    by (simp add: chunks_append [OF assms(1) a(1)] chunks_step [OF assms(1,4)])
  moreover have "length (chunks n ?a) = i" using length_chunks [OF assms(1) a(1)] a(2) by simp
  ultimately show ?thesis by (simp add: list_update_append)
qed

lemma symbols_index_mut_copy_eq:
  assumes "symbols_ok s"
  shows "i < length (to_symbols s) \<Longrightarrow> length v = symbol_size s \<Longrightarrow>
    \<exists>s'. symbols_index_mut_copy s i v = Ok s' \<and> symbols_ok s' \<and> symbol_size s' = symbol_size s
      \<and> to_symbols s' = (to_symbols s)[i := v]"
proof -
  assume i: "i < length (to_symbols s)" and v: "length v = symbol_size s"
  let ?n = "symbol_size s" and ?d = "sym_data s"
  have le: "?n * i + ?n \<le> length ?d" using symbol_end_le [OF assms] i by (simp add: symbols_len_eq [OF assms])
  have n: "0 < ?n" "?n dvd length ?d" using assms by (auto simp: symbols_ok_def)
  let ?s' = "s\<lparr>sym_data := take (?n * i) ?d @ v @ drop (?n * i + ?n) ?d\<rparr>"
  have "symbols_index_mut_copy s i v = Ok ?s'"
    using le v by (simp add: symbols_index_mut_copy_def copy_to_slice_def symbol_range_def add.commute)
  moreover have "length (sym_data ?s') = length ?d" using le v by simp
  moreover have "to_symbols ?s' = (to_symbols s)[i := v]"
    using take_drop_chunks [OF n le v] by (simp add: to_symbols_def)
  ultimately show ?thesis using n by (intro exI [of _ ?s']) (simp add: symbols_ok_def)
qed

lemma symbols_zeros_ok:
  "0 < sz \<Longrightarrow> symbols_ok (symbols_zeros n sz) \<and> to_symbols (symbols_zeros n sz) = replicate n (replicate sz 0)"
proof -
  assume sz: "0 < sz"
  have "concat (replicate n (replicate sz (0 :: byte))) = replicate (n * sz) 0"
    by (induction n) (auto simp: replicate_add)
  moreover have "chunks sz (concat (replicate n (replicate sz (0 :: byte)))) = replicate n (replicate sz 0)"
    by (rule chunks_concat [OF sz]) auto
  ultimately show ?thesis using sz by (simp add: symbols_zeros_def symbols_ok_def to_symbols_def)
qed

lemma symbols_extend_ok:
  assumes "symbols_ok s" "symbol_size s dvd length d"
  shows "\<exists>s'. symbols_extend s d = Ok s' \<and> symbols_ok s' \<and> symbol_size s' = symbol_size s
    \<and> to_symbols s' = to_symbols s @ chunks (symbol_size s) d"
  using assms by (auto simp: symbols_extend_def symbols_ok_def to_symbols_def chunks_append mod_eq_0_iff_dvd)

lemma symbols_truncate_ok:
  assumes "symbols_ok s"
  shows "symbols_ok (symbols_truncate n s) \<and> symbol_size (symbols_truncate n s) = symbol_size s
    \<and> to_symbols (symbols_truncate n s) = take n (to_symbols s)"
proof -
  let ?sz = "symbol_size s" and ?d = "sym_data s"
  have sz: "0 < ?sz" "?sz dvd length ?d" using assms by (auto simp: symbols_ok_def)
  have d: "?sz dvd length (take (n * ?sz) ?d)" using sz by (simp add: min_def)
  have "chunks ?sz ?d = chunks ?sz (take (n * ?sz) ?d) @ chunks ?sz (drop (n * ?sz) ?d)"
    using chunks_append [OF sz(1) d, of "drop (n * ?sz) ?d"] by simp
  moreover have "length (chunks ?sz (take (n * ?sz) ?d)) = min (length ?d div ?sz) n"
    using length_chunks [OF sz(1) d] sz by (auto simp: min_def div_le_mono)
  ultimately have "take n (chunks ?sz ?d) = chunks ?sz (take (n * ?sz) ?d)"
    using length_chunks [OF sz] by (cases "n * ?sz < length ?d") (auto simp: min_def split: if_splits)
  then show ?thesis using sz d by (simp add: symbols_truncate_def symbols_ok_def to_symbols_def)
qed

text \<open>The interface that the coder relies on: a vector of byte strings of one size.\<close>

locale symbol_vector =
  fixes items :: "'s \<Rightarrow> bytes list"
    and inv :: "'s \<Rightarrow> bool"
    and item_size :: "'s \<Rightarrow> nat"
    and put :: "'s \<Rightarrow> nat \<Rightarrow> bytes \<Rightarrow> 's option"
    and append_items :: "'s \<Rightarrow> bytes \<Rightarrow> 's option"
  assumes put_ok: "inv s \<Longrightarrow> i < length (items s) \<Longrightarrow> length v = item_size s \<Longrightarrow>
      \<exists>s'. put s i v = Some s' \<and> inv s' \<and> item_size s' = item_size s \<and> items s' = (items s)[i := v]"
    and append_ok: "inv s \<Longrightarrow> item_size s dvd length d \<Longrightarrow>
      \<exists>s'. append_items s d = Some s' \<and> inv s' \<and> item_size s' = item_size s \<and> items s' = items s @ chunks (item_size s) d"
    and item_size_pos: "inv s \<Longrightarrow> 0 < item_size s"
begin

fun put_all :: "'s \<Rightarrow> (nat \<times> bytes) list \<Rightarrow> 's option" where
  "put_all s [] = Some s"
| "put_all s ((i, v) # ws) = (case put s i v of None \<Rightarrow> None | Some s' \<Rightarrow> put_all s' ws)"

lemma put_all_ok:
  assumes "inv s" "\<forall>(i, v)\<in>set ws. i < length (items s) \<and> length v = item_size s"
  shows "\<exists>s'. put_all s ws = Some s' \<and> inv s' \<and> item_size s' = item_size s
    \<and> items s' = fold (\<lambda>(i, v) xs. xs[i := v]) ws (items s)"
  using assms
proof (induction ws arbitrary: s)
  case (Cons w ws)
  obtain i v where w: "w = (i, v)" by (cases w)
  obtain s' where s': "put s i v = Some s'" "inv s'" "item_size s' = item_size s" "items s' = (items s)[i := v]"
    using put_ok [OF Cons.prems(1), of i v] Cons.prems(2) w by auto
  have "\<forall>(i, v)\<in>set ws. i < length (items s') \<and> length v = item_size s'" using Cons.prems(2) s' by auto
  from Cons.IH [OF s'(2) this] show ?case using s' w by auto
qed simp

fun append_all :: "'s \<Rightarrow> bytes list \<Rightarrow> 's option" where
  "append_all s [] = Some s"
| "append_all s (d # ds) = (case append_items s d of None \<Rightarrow> None | Some s' \<Rightarrow> append_all s' ds)"

lemma append_all_ok:
  assumes "inv s" "\<forall>d\<in>set ds. length d = item_size s"
  shows "\<exists>s'. append_all s ds = Some s' \<and> inv s' \<and> item_size s' = item_size s \<and> items s' = items s @ ds"
  using assms
proof (induction ds arbitrary: s)
  case (Cons d ds)
  have d: "length d = item_size s" "0 < item_size s" using Cons.prems item_size_pos by auto
  obtain s' where s': "append_items s d = Some s'" "inv s'" "item_size s' = item_size s"
    "items s' = items s @ chunks (item_size s) d"
    using append_ok [OF Cons.prems(1), of d] d by auto
  have "chunks (item_size s) d = [d]" using chunks_step [OF d(2,1), of "[]"] by simp
  moreover obtain s'' where "append_all s' ds = Some s''" "inv s''" "item_size s'' = item_size s'" "items s'' = items s' @ ds"
    using Cons.IH [OF s'(2)] Cons.prems s'(3) by auto
  ultimately show ?case using s' by simp
qed simp

end

interpretation sv: symbol_vector to_symbols symbols_ok symbol_size
  "\<lambda>s i v. ok (symbols_index_mut_copy s i v :: (symbols, unit) result)" "\<lambda>s d. ok (symbols_extend s d)"
proof
  show "\<exists>s'. ok (symbols_index_mut_copy s i v :: (symbols, unit) result) = Some s' \<and> symbols_ok s' \<and> symbol_size s' = symbol_size s
      \<and> to_symbols s' = (to_symbols s)[i := v]"
    if "symbols_ok s" "i < length (to_symbols s)" "length v = symbol_size s" for s i v
  proof -
    have "\<exists>s'. symbols_index_mut_copy s i v = (Ok s' :: (symbols, unit) result) \<and> symbols_ok s' \<and> symbol_size s' = symbol_size s
        \<and> to_symbols s' = (to_symbols s)[i := v]"
      by (rule symbols_index_mut_copy_eq [OF that])
    then show ?thesis by force
  qed
  show "\<exists>s'. ok (symbols_extend s d) = Some s' \<and> symbols_ok s' \<and> symbol_size s' = symbol_size s
      \<and> to_symbols s' = to_symbols s @ chunks (symbol_size s) d"
    if "symbols_ok s" "symbol_size s dvd length d" for s d
    using symbols_extend_ok [OF that] by force
qed (simp add: symbols_ok_def)

subsection \<open>What an accepted recovery symbol guarantees\<close>

lemma recovery_symbol_verify_Ok_iff:
  "recovery_symbol_verify h a r n sz md t = Ok () \<longleftrightarrow>
    ds_index (rs_symbol r) < n \<and> length (ds_data (rs_symbol r)) = sz
    \<and> (\<exists>rt. get_sliver_hash md (to_sliver (orthogonal a) (ds_index (rs_symbol r)) n) (orthogonal a) = Some rt
        \<and> verify_proof h (rs_proof r) rt n (ds_data (rs_symbol r)) t = Ok ())"
  by (auto simp: recovery_symbol_verify_def recovery_symbol_verify_proof_def decoding_symbol_len_def not_le)

lemma recovery_symbol_authentic:
  assumes "digest32 h" "\<forall>n\<in>set (path (rs_proof r)). node_ok n"
    and "recovery_symbol_verify h a r (length syms) sz md t = Ok ()"
    and "get_sliver_hash md (to_sliver (orthogonal a) (ds_index (rs_symbol r)) (length syms)) (orthogonal a) = Some (root (build h syms))"
  shows "(t < length syms \<and> ds_data (rs_symbol r) = syms ! t)
    \<or> hash_broken h (set (proof_inputs h (rs_proof r) (ds_data (rs_symbol r)) t)) (set (build_inputs h syms))"
  using assms merkle.binding [OF assms(1,2)] by (auto simp: recovery_symbol_verify_Ok_iff)

lemma recovery_symbol_complete:
  assumes "length syms \<le> U16_MAX" "i < length syms" "t < length syms" "length (syms ! t) = sz"
    and "get_proof (build h syms) t = Ok p"
    and "get_sliver_hash md (to_sliver (orthogonal a) i (length syms)) (orthogonal a) = Some (root (build h syms))"
  shows "recovery_symbol_verify h a (with_proof \<lparr>ds_index = i, ds_data = syms ! t\<rparr> p) (length syms) sz md t = Ok ()"
proof -
  have "verify_proof h p (root (build h syms)) (length syms) (syms ! t) t = Ok ()"
    by (rule merkle.opening_accepted) (use assms in simp_all)
  then show ?thesis using assms by (simp add: recovery_symbol_verify_Ok_iff with_proof_def)
qed

definition on_target :: "general_recovery_symbol \<Rightarrow> sliver_index \<Rightarrow> axis \<Rightarrow> bool" where
  "on_target g t ty \<longleftrightarrow> symbol_id_sliver_index (general_id g) ty = t"

lemma source_index_id: "symbol_id_sliver_index (general_id g) (source_type (grs_symbol g)) = source_index (grs_symbol g)"
  by (cases "grs_symbol g") (auto simp: general_id_def symbol_id_new_def source_index_def)

lemma target_index_id: "ty \<noteq> source_type (grs_symbol g) \<Longrightarrow> symbol_id_sliver_index (general_id g) ty = grs_target_index g"
  by (cases "grs_symbol g"; cases ty) (auto simp: general_id_def symbol_id_new_def)

lemma general_verify_Ok_iff:
  "general_verify h g md cfg t ty = Ok () \<longleftrightarrow>
    source_index (grs_symbol g) < ec_n_shards cfg \<and> grs_target_index g < ec_n_shards cfg
    \<and> metadata_symbol_size md cfg = Ok (length (either_data (grs_symbol g)))
    \<and> ((source_type (grs_symbol g) \<noteq> ty \<and> grs_target_index g = t) \<or> source_index (grs_symbol g) = t)
    \<and> (\<exists>rt. get_sliver_hash md (to_sliver (source_type (grs_symbol g)) (source_index (grs_symbol g)) (ec_n_shards cfg)) (source_type (grs_symbol g)) = Some rt
        \<and> verify_proof h (grs_proof g) rt (ec_n_shards cfg) (either_data (grs_symbol g)) (grs_target_index g) = Ok ())"
proof -
  have len: "either_len (grs_symbol g) = length (either_data (grs_symbol g))"
    by (cases "grs_symbol g") (auto simp: decoding_symbol_len_def)
  have rt: "i < n \<Longrightarrow> (case a of Primary \<Rightarrow> to_pair_index Primary i n | Secondary \<Rightarrow> to_pair_index Secondary i n) = Ok (to_sliver a i n)" for i n a
    by (cases a) (auto simp: to_sliver_def)
  show ?thesis
    by (cases "metadata_symbol_size md cfg")
      (auto simp: general_verify_def get_expected_root_def Let_def len rt source_index_def)
qed

lemma on_target_iff:
  "on_target g t ty \<longleftrightarrow> (if source_type (grs_symbol g) = ty then source_index (grs_symbol g) = t else grs_target_index g = t)"
  using source_index_id [of g] target_index_id [of ty g] by (auto simp: on_target_def)

text \<open>Converting an on-target symbol for the recovery of a sliver keeps the data and indexes it by the other coordinate.\<close>

lemma general_to_decoding_symbol_on_target:
  "general_to_decoding_symbol ty g = \<lparr>ds_index = symbol_id_sliver_index (general_id g) (orthogonal ty), ds_data = either_data (grs_symbol g)\<rparr>"
  by (cases ty; cases "grs_symbol g") (auto simp: general_to_decoding_symbol_def general_id_def symbol_id_new_def decoding_symbol_new_def)

lemma from_recovery_symbol_id:
  "general_id (from_recovery_symbol a r t) =
    (if a = Primary then symbol_id_new t (ds_index (rs_symbol r)) else symbol_id_new (ds_index (rs_symbol r)) t)"
  by (cases a) (auto simp: general_id_def)

subsection \<open>Properties\<close>

text \<open>The container keeps its invariant and acts as a vector of symbols: reading and writing by index,
  extending and truncating have their meaning on the list of symbols, and none of them panics in range.\<close>

lemma symbols_refine_vector:
  assumes "symbols_ok s"
  shows "(\<forall>i. symbols_get s i = (Ok (if i < length (to_symbols s) then Some (to_symbols s ! i) else None) :: (bytes option, unit) result))
    \<and> (\<forall>i v. i < length (to_symbols s) \<and> length v = symbol_size s \<longrightarrow>
        (\<exists>s'. symbols_index_mut_copy s i v = (Ok s' :: (symbols, unit) result) \<and> symbols_ok s' \<and> to_symbols s' = (to_symbols s)[i := v]))
    \<and> (\<forall>d. symbol_size s dvd length d \<longrightarrow>
        (\<exists>s'. symbols_extend s d = Ok s' \<and> symbols_ok s' \<and> to_symbols s' = to_symbols s @ chunks (symbol_size s) d))
    \<and> (\<forall>n. symbols_ok (symbols_truncate n s) \<and> to_symbols (symbols_truncate n s) = take n (to_symbols s))"
  using symbols_get_eq [OF assms] symbols_index_mut_copy_eq [OF assms] symbols_extend_ok [OF assms] symbols_truncate_ok [OF assms]
  by blast

definition example_symbols :: symbols where
  "example_symbols = \<lparr>sym_data = [1, 2, 3, 4], symbol_size = 2\<rparr>"

text \<open>A recovery symbol that is accepted for a target index is the symbol at that index of the source sliver
  whose hash the metadata holds, or the proof exhibits a failure of the hash function; and the symbols with proofs
  that the source sliver hands out are accepted.\<close>

lemma recovery_symbol_sound_complete:
  assumes "digest32 h" "length syms \<le> U16_MAX" "i < length syms"
    and "get_sliver_hash md (to_sliver (orthogonal a) i (length syms)) (orthogonal a) = Some (root (build h syms))"
  shows "(\<forall>t d p. (\<forall>n\<in>set (path p). node_ok n) \<and>
        recovery_symbol_verify h a (with_proof \<lparr>ds_index = i, ds_data = d\<rparr> p) (length syms) sz md t = Ok () \<longrightarrow>
        (t < length syms \<and> d = syms ! t) \<or> hash_broken h (set (proof_inputs h p d t)) (set (build_inputs h syms)))
    \<and> (\<forall>t p. t < length syms \<and> length (syms ! t) = sz \<and> get_proof (build h syms) t = Ok p \<longrightarrow>
        recovery_symbol_verify h a (with_proof \<lparr>ds_index = i, ds_data = syms ! t\<rparr> p) (length syms) sz md t = Ok ())"
proof (intro conjI allI impI; elim conjE)
  fix t d p
  assume "\<forall>n\<in>set (path p). node_ok n"
    and "recovery_symbol_verify h a (with_proof \<lparr>ds_index = i, ds_data = d\<rparr> p) (length syms) sz md t = Ok ()"
  then show "(t < length syms \<and> d = syms ! t) \<or> hash_broken h (set (proof_inputs h p d t)) (set (build_inputs h syms))"
    using recovery_symbol_authentic [of h "with_proof \<lparr>ds_index = i, ds_data = d\<rparr> p" a syms sz md t] assms(1,4)
    by (simp add: with_proof_def)
next
  fix t p
  assume "t < length syms" "length (syms ! t) = sz" "get_proof (build h syms) t = Ok p"
  then show "recovery_symbol_verify h a (with_proof \<lparr>ds_index = i, ds_data = syms ! t\<rparr> p) (length syms) sz md t = Ok ()"
    using recovery_symbol_complete assms by blast
qed

definition example_sliver_symbols :: "bytes list" where
  "example_sliver_symbols = [[1, 2, 3, 4], [5, 6, 7, 8], [9, 10, 11, 12], [13, 14, 15, 16]]"

definition example_metadata :: blob_metadata where
  "example_metadata = \<lparr>encoding_type = RS2, unencoded_length = 13,
    hashes = replicate 4 \<lparr>primary_hash = Empty, secondary_hash = root (build fold_hash example_sliver_symbols)\<rparr>\<rparr>"

definition example_symbol_proof :: merkle_proof where
  "example_symbol_proof = \<lparr>path = tree_path fold_hash (map (leaf_hash fold_hash) example_sliver_symbols) 1\<rparr>"

lemma example_sliver_symbols_simps:
  "length example_sliver_symbols = 4" "example_sliver_symbols ! Suc 0 = [5, 6, 7, 8]"
  by (simp_all add: example_sliver_symbols_def)

lemma example_get_proof: "get_proof (build fold_hash example_sliver_symbols) 1 = Ok example_symbol_proof"
  by (simp add: get_proof_build example_sliver_symbols_simps example_symbol_proof_def)

lemma example_sliver_hash:
  "i < 4 \<Longrightarrow> get_sliver_hash example_metadata i Secondary = Some (root (build fold_hash example_sliver_symbols))"
  by (simp add: get_sliver_hash_def example_metadata_def)

text \<open>An accepted general recovery symbol has both indices in range and the symbol size of the blob, its data is
  authentic for its source sliver, and it lies on the target sliver unless its source sliver is on the other axis and has the
  target's index.\<close>

lemma general_verify_sound:
  assumes "digest32 h" "\<forall>n\<in>set (path (grs_proof g)). node_ok n" "length syms = ec_n_shards cfg"
    and "get_sliver_hash md (to_sliver (source_type (grs_symbol g)) (source_index (grs_symbol g)) (ec_n_shards cfg))
        (source_type (grs_symbol g)) = Some (root (build h syms))"
    and "general_verify h g md cfg t ty = Ok ()"
  shows "primary_sliver_index (general_id g) < ec_n_shards cfg \<and> secondary_sliver_index (general_id g) < ec_n_shards cfg
    \<and> metadata_symbol_size md cfg = Ok (length (either_data (grs_symbol g)))
    \<and> (on_target g t ty \<or> (source_type (grs_symbol g) \<noteq> ty \<and> source_index (grs_symbol g) = t))
    \<and> (either_data (grs_symbol g) = syms ! grs_target_index g
      \<or> hash_broken h (set (proof_inputs h (grs_proof g) (either_data (grs_symbol g)) (grs_target_index g))) (set (build_inputs h syms)))"
proof -
  have "primary_sliver_index (general_id g) < ec_n_shards cfg \<and> secondary_sliver_index (general_id g) < ec_n_shards cfg"
    using assms(5) unfolding general_verify_Ok_iff
    by (cases "grs_symbol g") (auto simp: general_id_def symbol_id_new_def source_index_def)
  moreover have "verify_proof h (grs_proof g) (root (build h syms)) (length syms) (either_data (grs_symbol g)) (grs_target_index g) = Ok ()"
    using assms(3-5) unfolding general_verify_Ok_iff by auto
  from merkle.binding [OF assms(1,2) this]
  have "either_data (grs_symbol g) = syms ! grs_target_index g
      \<or> hash_broken h (set (proof_inputs h (grs_proof g) (either_data (grs_symbol g)) (grs_target_index g))) (set (build_inputs h syms))"
    by auto
  ultimately show ?thesis
    using assms(5) unfolding general_verify_Ok_iff on_target_iff by auto
qed

definition off_target_symbol :: general_recovery_symbol where
  "off_target_symbol = \<lparr>grs_symbol = PrimaryV \<lparr>ds_index = 2, ds_data = [5, 6, 7, 8]\<rparr>, grs_target_index = 1,
    grs_proof = example_symbol_proof\<rparr>"

lemma off_target_symbol_accepted:
  "general_verify fold_hash off_target_symbol example_metadata example_encoding_config t Primary = Ok () \<longleftrightarrow> t = 1 \<or> t = 2"
proof -
  have "verify_proof fold_hash example_symbol_proof (root (build fold_hash example_sliver_symbols)) 4 [5, 6, 7, 8] 1 = Ok ()"
    using merkle.opening_accepted [of fold_hash example_sliver_symbols 1 example_symbol_proof] example_get_proof
    by (simp add: example_sliver_symbols_simps)
  moreover have "metadata_symbol_size example_metadata example_encoding_config = Ok 4"
    using example_symbol_size by (simp add: metadata_symbol_size_def example_metadata_def example_encoding_config_def)
  ultimately show ?thesis
    by (auto simp: general_verify_Ok_iff off_target_symbol_def source_index_def example_encoding_config_def
      to_sliver_def example_sliver_hash)
qed

text \<open>The exception in the previous property does occur: the check accepts, for the recovery of primary sliver 2, a symbol
  that lies on primary sliver 1 and was taken from secondary sliver 2, although the symbol cannot be used for that sliver.\<close>

lemma general_verify_accepts_off_target:
  "general_verify fold_hash off_target_symbol example_metadata example_encoding_config 2 Primary = Ok ()
   \<and> primary_sliver_index (general_id off_target_symbol) = 1 \<and> \<not> on_target off_target_symbol 2 Primary"
  using off_target_symbol_accepted [of 2]
  by (simp add: on_target_def off_target_symbol_def general_id_def symbol_id_new_def)

end
