(* ===== verification/Codec.thy ===== *)
theory Codec
  imports Symbols
begin

text \<open>
  The crate \<open>reed_solomon_simd\<close>, which the encoder and decoder of \<open>encoding/basic_encoding.rs\<close> call and whose sources
  are not part of the repository. It is the parameter \<open>C\<close> of the definitions that use it: whether it supports
  the shard counts and size it is created or reset with, the recovery shards it returns for the original
  shards, and the originals that \<open>decode\<close> restores after a sequence of calls to \<open>add_original_shard\<close> and
  \<open>add_recovery_shard\<close> since its creation or last reset.

  What the sources rely on is stated as two hypotheses. \<open>codec_contract\<close>: supported parameters, the number and
  size of recovery shards, and that any \<open>k\<close> different shards of the \<open>k\<close> originals and their recovery shards
  restore the missing originals. \<open>codec_commute\<close>: Reed-Solomon codes are linear over one field, so the
  coefficients of two codes commute. The last section gives an instance for four shards, on which witnesses
  evaluate: the parity code of three symbols and a code of two symbols over the field of four elements.
\<close>

subsection \<open>The external coder\<close>

datatype shard_call = AddOriginal nat bytes | AddRecovery nat bytes

record 'r rs_codec =
  codec_new_encoder :: "nat \<Rightarrow> nat \<Rightarrow> nat \<Rightarrow> 'r option"
  codec_new_decoder :: "nat \<Rightarrow> nat \<Rightarrow> nat \<Rightarrow> 'r option"
  codec_encode :: "nat \<Rightarrow> nat \<Rightarrow> nat \<Rightarrow> bytes list \<Rightarrow> bytes list option"
  codec_decode :: "nat \<Rightarrow> nat \<Rightarrow> nat \<Rightarrow> shard_call list \<Rightarrow> ((nat \<times> bytes) list, 'r) result"
  codec_error_string :: "'r \<Rightarrow> string"

subsection \<open>What is relied on of the external coder\<close>

definition valid_shards :: "nat \<Rightarrow> nat \<Rightarrow> bytes list \<Rightarrow> bool" where
  "valid_shards k sz xs \<longleftrightarrow> length xs = k \<and> (\<forall>x\<in>set xs. length x = sz)"

fun shard_no :: "nat \<Rightarrow> shard_call \<Rightarrow> nat" where
  "shard_no k (AddOriginal i _) = i"
| "shard_no k (AddRecovery j _) = k + j"

fun shard_bytes :: "shard_call \<Rightarrow> bytes" where
  "shard_bytes (AddOriginal _ d) = d"
| "shard_bytes (AddRecovery _ d) = d"

fun call_ok :: "bytes list \<Rightarrow> bytes list \<Rightarrow> shard_call \<Rightarrow> bool" where
  "call_ok xs ys (AddOriginal i d) \<longleftrightarrow> i < length xs \<and> d = xs ! i"
| "call_ok xs ys (AddRecovery j d) \<longleftrightarrow> j < length ys \<and> d = ys ! j"

definition codec_contract :: "'r rs_codec \<Rightarrow> nat \<Rightarrow> nat \<Rightarrow> nat \<Rightarrow> bool" where
  "codec_contract C k m sz \<longleftrightarrow>
    codec_new_encoder C k m sz = None \<and> codec_new_decoder C k m sz = None
    \<and> (\<forall>xs. valid_shards k sz xs \<longrightarrow> (\<exists>ys. codec_encode C k m sz xs = Some ys \<and> valid_shards m sz ys
        \<and> (\<forall>calls. (\<forall>c\<in>set calls. call_ok xs ys c) \<and> k \<le> card (shard_no k ` set calls) \<longrightarrow>
            (\<exists>rs. codec_decode C k m sz calls = Ok rs
              \<and> set rs = {(i, xs ! i) | i. i < k \<and> i \<notin> shard_no k ` set calls}))))
    \<and> (\<forall>calls. (\<forall>c\<in>set calls. shard_no k c < k + m \<and> length (shard_bytes c) = sz) \<and> card (shard_no k ` set calls) < k \<longrightarrow>
        (\<exists>e. codec_decode C k m sz calls = Err e))"

text \<open>The encoding of data into all symbols: the source symbols, then the recovery symbols.\<close>

definition codeword :: "'r rs_codec \<Rightarrow> nat \<Rightarrow> nat \<Rightarrow> nat \<Rightarrow> bytes \<Rightarrow> bytes list" where
  "codeword C k m sz d = chunks sz d @ (case codec_encode C k m sz (chunks sz d) of Some ys \<Rightarrow> ys | None \<Rightarrow> [])"

lemma valid_shards_chunks: "0 < sz \<Longrightarrow> length d = k * sz \<Longrightarrow> valid_shards k sz (chunks sz d)"
  using chunks_lengths [of sz d] by (auto simp: valid_shards_def length_chunks)

lemma codec_contractD:
  assumes "codec_contract C k m sz" "0 < sz" "length d = k * sz"
  shows "\<exists>ys. codec_encode C k m sz (chunks sz d) = Some ys \<and> valid_shards m sz ys \<and> codeword C k m sz d = chunks sz d @ ys"
  using assms valid_shards_chunks [OF assms(2,3)] by (fastforce simp: codec_contract_def codeword_def)

lemma codeword_shape:
  assumes "codec_contract C k m sz" "0 < sz" "length d = k * sz"
  shows "valid_shards (k + m) sz (codeword C k m sz d)" "take k (codeword C k m sz d) = chunks sz d"
  using codec_contractD [OF assms] valid_shards_chunks [OF assms(2,3)] by (auto simp: valid_shards_def)

lemma codeword_nth_length:
  "codec_contract C k m sz \<Longrightarrow> 0 < sz \<Longrightarrow> length d = k * sz \<Longrightarrow> i < k + m \<Longrightarrow> length (codeword C k m sz d ! i) = sz"
  using codeword_shape(1) [of C k m sz d] by (simp add: valid_shards_def)

lemma codeword_source:
  "codec_contract C k m sz \<Longrightarrow> 0 < sz \<Longrightarrow> length d = k * sz \<Longrightarrow> i < k \<Longrightarrow> codeword C k m sz d ! i = chunks sz d ! i"
  using codeword_shape(2) [of C k m sz d] by (metis nth_take)

lemma codec_contract_decode:
  assumes "codec_contract C k m sz" "valid_shards k sz xs" "codec_encode C k m sz xs = Some ys"
    and "\<forall>c\<in>set calls. call_ok xs ys c" "k \<le> card (shard_no k ` set calls)"
  shows "\<exists>rs. codec_decode C k m sz calls = Ok rs \<and> set rs = {(i, xs ! i) | i. i < k \<and> i \<notin> shard_no k ` set calls}"
proof -
  have "\<forall>xs. valid_shards k sz xs \<longrightarrow> (\<exists>ys. codec_encode C k m sz xs = Some ys \<and> valid_shards m sz ys
        \<and> (\<forall>calls. (\<forall>c\<in>set calls. call_ok xs ys c) \<and> k \<le> card (shard_no k ` set calls) \<longrightarrow>
            (\<exists>rs. codec_decode C k m sz calls = Ok rs
              \<and> set rs = {(i, xs ! i) | i. i < k \<and> i \<notin> shard_no k ` set calls})))"
    using assms(1) by (simp add: codec_contract_def)
  from this [rule_format, OF assms(2)] show ?thesis using assms(3-5) by auto
qed

subsection \<open>Linearity\<close>

unbundle bit_operations_syntax

definition bxor :: "bytes \<Rightarrow> bytes \<Rightarrow> bytes" where
  "bxor x y = map2 (XOR) x y"

definition xor_sum :: "nat \<Rightarrow> bytes list \<Rightarrow> bytes" where
  "xor_sum sz vs = foldr bxor vs (replicate sz 0)"

definition linear_map :: "nat \<Rightarrow> (bytes \<Rightarrow> bytes) \<Rightarrow> bool" where
  "linear_map sz f \<longleftrightarrow> (\<forall>x. length x = sz \<longrightarrow> length (f x) = sz)
    \<and> (\<forall>x y. length x = sz \<and> length y = sz \<longrightarrow> f (bxor x y) = bxor (f x) (f y))"

text \<open>Recovery shard \<open>j\<close> is the sum of the originals, original \<open>i\<close> multiplied by the coefficient \<open>f j i\<close>.\<close>

definition codec_linear :: "'r rs_codec \<Rightarrow> nat \<Rightarrow> nat \<Rightarrow> nat \<Rightarrow> (nat \<Rightarrow> nat \<Rightarrow> bytes \<Rightarrow> bytes) \<Rightarrow> bool" where
  "codec_linear C k m sz f \<longleftrightarrow> (\<forall>j<m. \<forall>i<k. linear_map sz (f j i))
    \<and> (\<forall>xs ys. valid_shards k sz xs \<and> codec_encode C k m sz xs = Some ys \<longrightarrow>
        (\<forall>j<m. ys ! j = xor_sum sz (map (\<lambda>i. f j i (xs ! i)) [0..<k])))"

definition codec_commute :: "'r rs_codec \<Rightarrow> nat \<Rightarrow> nat \<Rightarrow> nat \<Rightarrow> nat \<Rightarrow> nat \<Rightarrow> bool" where
  "codec_commute C k m k' m' sz \<longleftrightarrow> (\<exists>f g. codec_linear C k m sz f \<and> codec_linear C k' m' sz g
    \<and> (\<forall>j<m. \<forall>i<k. \<forall>j'<m'. \<forall>i'<k'. \<forall>x. length x = sz \<longrightarrow> f j i (g j' i' x) = g j' i' (f j i x)))"

lemma length_bxor [simp]: "length (bxor x y) = min (length x) (length y)"
  by (simp add: bxor_def)

lemma bxor_nth [simp]: "p < length x \<Longrightarrow> p < length y \<Longrightarrow> bxor x y ! p = x ! p XOR y ! p"
  by (simp add: bxor_def)

lemma length_xor_sum [simp]: "\<forall>v\<in>set vs. length v = sz \<Longrightarrow> length (xor_sum sz vs) = sz"
  unfolding xor_sum_def by (induction vs) auto

lemma xor_sum_Cons [simp]: "xor_sum sz (v # vs) = bxor v (xor_sum sz vs)" "xor_sum sz [] = replicate sz 0"
  by (simp_all add: xor_sum_def)

lemma bxor_zero: "length x = sz \<Longrightarrow> bxor x (replicate sz 0) = x" "length x = sz \<Longrightarrow> bxor (replicate sz 0) x = x"
  by (auto intro: nth_equalityI)

lemma bxor_self: "bxor x x = replicate (length x) 0"
  by (auto intro: nth_equalityI)

lemma bxor_assoc: "bxor (bxor x y) z = bxor x (bxor y z)"
  by (rule nth_equalityI) (auto simp: ac_simps)

lemma bxor_commute: "bxor x y = bxor y x"
  by (rule nth_equalityI) (auto simp: ac_simps)

lemma bxor_left_commute: "bxor x (bxor y z) = bxor y (bxor x z)"
  by (rule nth_equalityI) (auto simp: ac_simps)

lemmas bxor_ac = bxor_assoc bxor_commute bxor_left_commute

lemma linear_map_zero: "linear_map sz f \<Longrightarrow> f (replicate sz 0) = replicate sz 0"
proof -
  assume f: "linear_map sz f"
  let ?z = "replicate sz (0 :: byte)"
  have len: "length (f ?z) = sz" using f by (simp add: linear_map_def)
  have "f ?z = bxor (f ?z) (f ?z)" using f bxor_self [of ?z] unfolding linear_map_def by (metis length_replicate)
  then show ?thesis using bxor_self [of "f ?z"] len by simp
qed

lemma linear_map_xor_sum:
  "linear_map sz f \<Longrightarrow> \<forall>v\<in>set vs. length v = sz \<Longrightarrow> f (xor_sum sz vs) = xor_sum sz (map f vs)"
  by (induction vs) (auto simp: linear_map_zero linear_map_def)

lemma xor_sum_bxor:
  "length us = length vs \<Longrightarrow> \<forall>v\<in>set us. length v = sz \<Longrightarrow> \<forall>v\<in>set vs. length v = sz \<Longrightarrow>
    xor_sum sz (map2 bxor us vs) = bxor (xor_sum sz us) (xor_sum sz vs)"
proof (induction us vs rule: list_induct2)
  case Nil
  show ?case using bxor_zero(1) [of "replicate sz 0" sz] by simp
next
  case (Cons u us v vs)
  then show ?case by (simp add: bxor_ac)
qed

lemma xor_sum_replicate_zero: "xor_sum sz (replicate n (replicate sz 0)) = replicate sz 0"
  by (induction n) (simp_all add: bxor_zero)

lemma xor_sum_swap:
  assumes "\<forall>i\<in>set is. \<forall>j\<in>set js. length (a i j) = sz"
  shows "xor_sum sz (map (\<lambda>i. xor_sum sz (map (a i) js)) is) = xor_sum sz (map (\<lambda>j. xor_sum sz (map (\<lambda>i. a i j) is)) js)"
  using assms
proof (induction "is")
  case Nil
  have "map (\<lambda>j. replicate sz (0 :: byte)) js = replicate (length js) (replicate sz 0)" by (rule map_replicate_const)
  then show ?case using xor_sum_replicate_zero [of sz "length js"] by (simp add: map_replicate_const)
next
  case (Cons i "is")
  have "map (\<lambda>j. xor_sum sz (map (\<lambda>i. a i j) (i # is))) js
      = map2 bxor (map (a i) js) (map (\<lambda>j. xor_sum sz (map (\<lambda>i. a i j) is)) js)"
    by (simp add: map2_map_map)
  also have "xor_sum sz \<dots> = bxor (xor_sum sz (map (a i) js)) (xor_sum sz (map (\<lambda>j. xor_sum sz (map (\<lambda>i. a i j) is)) js))"
    by (rule xor_sum_bxor) (use Cons.prems in auto)
  finally show ?case using Cons by simp
qed

lemma codec_linear_nth:
  assumes "codec_linear C k m sz f" "\<And>i. i < k \<Longrightarrow> length (x i) = sz" "codec_encode C k m sz (map x [0..<k]) = Some ys" "j < m"
  shows "ys ! j = xor_sum sz (map (\<lambda>i. f j i (x i)) [0..<k])"
proof -
  have "ys ! j = xor_sum sz (map (\<lambda>i. f j i (map x [0..<k] ! i)) [0..<k])"
    using assms unfolding codec_linear_def valid_shards_def by auto
  also have "\<dots> = xor_sum sz (map (\<lambda>i. f j i (x i)) [0..<k])" by (intro arg_cong [where f = "xor_sum sz"] map_cong) auto
  finally show ?thesis .
qed

text \<open>Encoding the rows of a matrix with one code and then a column with the other gives the same symbol as
  encoding the columns first.\<close>

lemma codec_commute_recovery:
  assumes "codec_commute C k m k' m' sz"
    and M: "\<And>i j. i < k \<Longrightarrow> j < k' \<Longrightarrow> length (M i j) = sz"
    and R: "\<And>i. i < k \<Longrightarrow> codec_encode C k' m' sz (map (M i) [0..<k']) = Some (R i)"
    and Q: "\<And>j. j < k' \<Longrightarrow> codec_encode C k m sz (map (\<lambda>i. M i j) [0..<k]) = Some (Q j)"
    and lt: "i < m" "j < m'"
    and row: "codec_encode C k' m' sz (map (\<lambda>j. Q j ! i) [0..<k']) = Some row"
    and col: "codec_encode C k m sz (map (\<lambda>i. R i ! j) [0..<k]) = Some col"
  shows "row ! j = col ! i"
proof -
  obtain f g where f: "codec_linear C k m sz f" and g: "codec_linear C k' m' sz g"
    and comm: "\<And>j i j' i' x. j < m \<Longrightarrow> i < k \<Longrightarrow> j' < m' \<Longrightarrow> i' < k' \<Longrightarrow> length x = sz \<Longrightarrow> f j i (g j' i' x) = g j' i' (f j i x)"
    using assms(1) unfolding codec_commute_def by blast
  have fl: "linear_map sz (f i p)" if "p < k" for p using f lt that by (simp add: codec_linear_def)
  have gl: "linear_map sz (g j q)" if "q < k'" for q using g lt that by (simp add: codec_linear_def)
  have Rj: "R p ! j = xor_sum sz (map (\<lambda>q. g j q (M p q)) [0..<k'])" if "p < k" for p
    by (rule codec_linear_nth [OF g M [OF that] R [OF that] lt(2)])
  have Qi: "Q q ! i = xor_sum sz (map (\<lambda>p. f i p (M p q)) [0..<k])" if "q < k'" for q
    by (rule codec_linear_nth [OF f _ Q [OF that] lt(1)]) (use M that in simp)
  have lenR: "length (R p ! j) = sz" if "p < k" for p
    unfolding Rj [OF that] using M that gl by (intro length_xor_sum) (auto simp: linear_map_def)
  have lenQ: "length (Q q ! i) = sz" if "q < k'" for q
    unfolding Qi [OF that] using M that fl by (intro length_xor_sum) (auto simp: linear_map_def)
  let ?a = "\<lambda>p q. f i p (g j q (M p q))"
  have "col ! i = xor_sum sz (map (\<lambda>p. f i p (R p ! j)) [0..<k])"
    by (rule codec_linear_nth [OF f lenR col lt(1)])
  also have "\<dots> = xor_sum sz (map (\<lambda>p. xor_sum sz (map (?a p) [0..<k'])) [0..<k])"
    using M gl by (intro arg_cong [where f = "xor_sum sz"] map_cong refl)
      (auto simp: Rj linear_map_xor_sum [OF fl] linear_map_def comp_def)
  also have "\<dots> = xor_sum sz (map (\<lambda>q. xor_sum sz (map (\<lambda>p. ?a p q) [0..<k])) [0..<k'])"
    using M fl gl by (intro xor_sum_swap) (auto simp: linear_map_def)
  also have "\<dots> = xor_sum sz (map (\<lambda>q. g j q (Q q ! i)) [0..<k'])"
  proof (intro arg_cong [where f = "xor_sum sz"] map_cong refl)
    fix q assume "q \<in> set [0..<k']"
    then have q: "q < k'" by simp
    have "g j q (Q q ! i) = xor_sum sz (map (\<lambda>p. g j q (f i p (M p q))) [0..<k])"
      using M fl q by (simp add: Qi [OF q] linear_map_xor_sum [OF gl [OF q]] linear_map_def comp_def)
    also have "\<dots> = xor_sum sz (map (\<lambda>p. ?a p q) [0..<k])"
      using comm lt q M by (intro arg_cong [where f = "xor_sum sz"] map_cong) auto
    finally show "xor_sum sz (map (\<lambda>p. ?a p q) [0..<k]) = g j q (Q q ! i)" ..
  qed
  also have "\<dots> = row ! j" by (rule codec_linear_nth [OF g lenQ row lt(2), symmetric])
  finally show ?thesis ..
qed

subsection \<open>An instance for four shards\<close>

text \<open>Multiplication by a generator of the field of four elements, on pairs of bytes.\<close>

fun gf4_mul :: "bytes \<Rightarrow> bytes" where
  "gf4_mul (a # b # r) = b # (a XOR b) # gf4_mul r"
| "gf4_mul _ = []"

lemma length_gf4_mul: "even (length x) \<Longrightarrow> length (gf4_mul x) = length x"
  by (induction x rule: gf4_mul.induct) auto

lemma bxor_Cons [simp]: "bxor (a # x) (b # y) = (a XOR b) # bxor x y" "bxor [] y = []" "bxor x [] = []"
  by (simp_all add: bxor_def)

lemma gf4_mul_bxor: "length x = length y \<Longrightarrow> gf4_mul (bxor x y) = bxor (gf4_mul x) (gf4_mul y)"
proof (induction x arbitrary: y rule: gf4_mul.induct)
  case (1 a b r)
  then obtain c d q where y: "y = c # d # q" by (metis length_Suc_conv)
  then show ?case using 1 by (simp add: ac_simps)
qed (auto simp: length_Suc_conv eq_commute [of "Suc 0"])

lemma gf4_mul_square: "even (length x) \<Longrightarrow> gf4_mul (gf4_mul x) = bxor x (gf4_mul x)"
  by (induction x rule: gf4_mul.induct) (auto simp: ac_simps xor.left_commute)

lemma bxor_cancel: "length x = length y \<Longrightarrow> bxor x (bxor x y) = y"
  by (simp add: bxor_assoc [symmetric] bxor_self bxor_zero)

lemma gf4_mul_cube: "even (length x) \<Longrightarrow> gf4_mul (gf4_mul (gf4_mul x)) = x"
proof -
  assume e: "even (length x)"
  have "gf4_mul (gf4_mul (gf4_mul x)) = bxor (gf4_mul x) (gf4_mul (gf4_mul x))"
    using e gf4_mul_square [of "gf4_mul x"] by (simp add: length_gf4_mul)
  also have "\<dots> = bxor (gf4_mul x) (bxor (gf4_mul x) x)" using gf4_mul_square [OF e] by (simp add: bxor_commute)
  also have "\<dots> = x" using e by (intro bxor_cancel) (simp add: length_gf4_mul)
  finally show ?thesis .
qed

definition shard_lookup :: "nat \<Rightarrow> shard_call list \<Rightarrow> nat \<Rightarrow> bytes option" where
  "shard_lookup k calls i = map_option shard_bytes (find (\<lambda>c. shard_no k c = i) calls)"

definition four_encode :: "nat \<Rightarrow> nat \<Rightarrow> bytes list \<Rightarrow> bytes list option" where
  "four_encode k m xs = (case xs of
      [x, y] \<Rightarrow> if k = 2 \<and> m = 2 then Some [bxor x y, bxor x (gf4_mul y)] else None
    | [x, y, z] \<Rightarrow> if k = 3 \<and> m = 1 then Some [bxor x (bxor y z)] else None
    | _ \<Rightarrow> None)"

definition restore2 :: "(nat \<Rightarrow> bytes option) \<Rightarrow> (nat \<times> bytes) list" where
  "restore2 got =
    (let g = (\<lambda>i. case got i of Some d \<Rightarrow> d | None \<Rightarrow> []);
         x1 = (if got 1 \<noteq> None then g 1
               else if got 0 = None then gf4_mul (bxor (g 2) (g 3))
               else if got 2 \<noteq> None then bxor (g 2) (g 0)
               else gf4_mul (gf4_mul (bxor (g 3) (g 0))));
         x0 = (if got 2 \<noteq> None then bxor (g 2) x1 else bxor (g 3) (gf4_mul x1))
     in filter (\<lambda>(i, _). got i = None) [(0, x0), (1, x1)])"

definition restore3 :: "(nat \<Rightarrow> bytes option) \<Rightarrow> (nat \<times> bytes) list" where
  "restore3 got =
    (let g = (\<lambda>i. case got i of Some d \<Rightarrow> d | None \<Rightarrow> [])
     in filter (\<lambda>(i, _). got i = None)
       [(0, bxor (g 1) (bxor (g 2) (g 3))), (1, bxor (g 0) (bxor (g 2) (g 3))), (2, bxor (g 0) (bxor (g 1) (g 3)))])"

definition four_supported :: "nat \<Rightarrow> nat \<Rightarrow> nat \<Rightarrow> unit option" where
  "four_supported k m sz = (if (k = 2 \<and> m = 2 \<or> k = 3 \<and> m = 1) \<and> 0 < sz \<and> even sz then None else Some ())"

definition four_codec :: "unit rs_codec" where
  "four_codec = \<lparr>codec_new_encoder = four_supported, codec_new_decoder = four_supported,
    codec_encode = (\<lambda>k m sz xs. four_encode k m xs),
    codec_decode = (\<lambda>k m sz calls. if length (remdups (map (shard_no k) calls)) < k then Err ()
      else Ok (if k = 2 then restore2 (shard_lookup k calls) else restore3 (shard_lookup k calls))),
    codec_error_string = (\<lambda>_. ''unsupported'')\<rparr>"

lemma shard_lookup_eq:
  assumes "\<forall>c\<in>set calls. call_ok xs ys c" "length xs = k"
  shows "shard_lookup k calls i = (if i \<in> shard_no k ` set calls then Some ((xs @ ys) ! i) else None)"
proof (cases "find (\<lambda>c. shard_no k c = i) calls")
  case None
  then show ?thesis by (auto simp: shard_lookup_def find_None_iff)
next
  case (Some c)
  then have c: "c \<in> set calls" "shard_no k c = i" by (auto simp: find_Some_iff)
  then have "call_ok xs ys c" using assms(1) by blast
  then have "shard_bytes c = (xs @ ys) ! i" using c(2) assms(2) by (cases c) (auto simp: nth_append)
  then show ?thesis using Some c by (auto simp: shard_lookup_def)
qed

lemma shard_no_less: "\<forall>c\<in>set calls. call_ok xs ys c \<Longrightarrow> length xs = k \<Longrightarrow> length ys = m \<Longrightarrow> shard_no k ` set calls \<subseteq> {..<k + m}"
proof -
  assume "\<forall>c\<in>set calls. call_ok xs ys c" "length xs = k" "length ys = m"
  moreover have "call_ok xs ys c \<Longrightarrow> shard_no (length xs) c < length xs + length ys" for c by (cases c) auto
  ultimately show ?thesis by auto
qed

lemma card_four:
  assumes "S \<subseteq> {..<4 :: nat}"
  shows "card S = of_bool (0 \<in> S) + of_bool (1 \<in> S) + of_bool (2 \<in> S) + of_bool (3 \<in> S)"
proof -
  have "card S = card ({..<4} \<inter> S)" using assms by (simp add: Int_absorb1)
  also have "\<dots> = (\<Sum>i\<in>{..<4}. of_bool (i \<in> S))" by (simp add: of_bool_def sum.If_cases)
  also have "\<dots> = of_bool (0 \<in> S) + of_bool (1 \<in> S) + of_bool (2 \<in> S) + of_bool (3 \<in> S)"
    by (simp add: numeral_eq_Suc lessThan_Suc)
  finally show ?thesis .
qed

lemma missing_pairs:
  "{(i, f i) | i. i < 2 \<and> i \<notin> S} = (if 0 \<in> S then {} else {(0 :: nat, f 0)}) \<union> (if 1 \<in> S then {} else {(1, f 1)})"
  "{(i, f i) | i. i < 3 \<and> i \<notin> S} =
    (if 0 \<in> S then {} else {(0 :: nat, f 0)}) \<union> (if 1 \<in> S then {} else {(1, f 1)}) \<union> (if 2 \<in> S then {} else {(2, f 2)})"
proof -
  have 2: "(i :: nat) < 2 \<longleftrightarrow> i = 0 \<or> i = 1" and 3: "i < 3 \<longleftrightarrow> i = 0 \<or> i = 1 \<or> i = 2" for i by auto
  show "{(i, f i) | i. i < 2 \<and> i \<notin> S} = (if 0 \<in> S then {} else {(0 :: nat, f 0)}) \<union> (if 1 \<in> S then {} else {(1, f 1)})"
    unfolding 2 by (auto intro: gr0I)
  show "{(i, f i) | i. i < 3 \<and> i \<notin> S} =
    (if 0 \<in> S then {} else {(0 :: nat, f 0)}) \<union> (if 1 \<in> S then {} else {(1, f 1)}) \<union> (if 2 \<in> S then {} else {(2, f 2)})"
    unfolding 3 by (auto intro: gr0I)
qed

lemma restore2_eq:
  assumes len: "length x = length y" "even (length x)" and S: "S \<subseteq> {..<4}" "2 \<le> card S"
    and got: "got = (\<lambda>i. if i \<in> S then Some ([x, y, bxor x y, bxor x (gf4_mul y)] ! i) else None)"
  shows "set (restore2 got) = {(i, [x, y] ! i) | i. i < 2 \<and> i \<notin> S}"
proof -
  have mul: "length (gf4_mul y) = length x" using len by (simp add: length_gf4_mul)
  have both: "gf4_mul (bxor (bxor x y) (bxor x (gf4_mul y))) = y"
  proof -
    have "bxor (bxor x y) (bxor x (gf4_mul y)) = bxor x (bxor x (bxor y (gf4_mul y)))" by (simp add: bxor_ac)
    also have "\<dots> = gf4_mul (gf4_mul y)" using len mul by (simp add: bxor_cancel gf4_mul_square)
    finally show ?thesis using len by (simp add: gf4_mul_cube)
  qed
  have y: "bxor (bxor x y) x = y" using len bxor_cancel [of x y] by (simp add: bxor_ac)
  have y': "gf4_mul (gf4_mul (bxor (bxor x (gf4_mul y)) x)) = y"
    using len mul bxor_cancel [of x "gf4_mul y"] by (simp add: bxor_ac gf4_mul_cube)
  have x: "bxor (bxor x y) y = x" "bxor (bxor x (gf4_mul y)) (gf4_mul y) = x"
    using len mul bxor_cancel [of y x] bxor_cancel [of "gf4_mul y" x] by (simp_all add: bxor_ac)
  consider "0 \<in> S" "1 \<in> S" | "0 \<in> S" "1 \<notin> S" "2 \<in> S" | "0 \<in> S" "1 \<notin> S" "2 \<notin> S" "3 \<in> S"
    | "0 \<notin> S" "1 \<in> S" "2 \<in> S" | "0 \<notin> S" "1 \<in> S" "2 \<notin> S" "3 \<in> S" | "0 \<notin> S" "1 \<notin> S" "2 \<in> S" "3 \<in> S"
    using S card_four [OF S(1)] by (auto simp: of_bool_def split: if_splits)
  then show ?thesis
    by cases (auto simp: restore2_def got missing_pairs Let_def both y y' x)
qed

lemma restore3_eq:
  assumes len: "length x = length y" "length x = length z" and S: "S \<subseteq> {..<4}" "3 \<le> card S"
    and got: "got = (\<lambda>i. if i \<in> S then Some ([x, y, z, bxor x (bxor y z)] ! i) else None)"
  shows "set (restore3 got) = {(i, [x, y, z] ! i) | i. i < 3 \<and> i \<notin> S}"
proof -
  have r: "bxor y (bxor z (bxor x (bxor y z))) = x" "bxor x (bxor z (bxor x (bxor y z))) = y" "bxor x (bxor y (bxor x (bxor y z))) = z"
    using len bxor_cancel [of z x] bxor_cancel [of y "bxor z (bxor z x)"] bxor_cancel [of z y] bxor_cancel [of x "bxor z (bxor z y)"]
      bxor_cancel [of y z] bxor_cancel [of x "bxor y (bxor y z)"] by (simp_all add: bxor_ac)
  consider "0 \<in> S" "1 \<in> S" "2 \<in> S" | "0 \<notin> S" "1 \<in> S" "2 \<in> S" "3 \<in> S" | "0 \<in> S" "1 \<notin> S" "2 \<in> S" "3 \<in> S"
    | "0 \<in> S" "1 \<in> S" "2 \<notin> S" "3 \<in> S"
    using S card_four [OF S(1)] by (auto simp: of_bool_def split: if_splits)
  then show ?thesis
    by cases (auto simp: restore3_def got missing_pairs Let_def r)
qed

lemma four_contract:
  assumes "0 < sz" "even sz" "k = 2 \<and> m = 2 \<or> k = 3 \<and> m = 1"
  shows "codec_contract four_codec k m sz"
proof -
  have dec: "\<exists>rs. codec_decode four_codec k m sz calls = Ok rs \<and> set rs = {(i, xs ! i) | i. i < k \<and> i \<notin> shard_no k ` set calls}"
    if xs: "valid_shards k sz xs" "codec_encode four_codec k m sz xs = Some ys"
      and calls: "\<forall>c\<in>set calls. call_ok xs ys c" "k \<le> card (shard_no k ` set calls)" for xs ys calls
  proof -
    let ?S = "shard_no k ` set calls"
    have lens: "length xs = k" "length ys = m"
      using xs assms(3) by (auto simp: valid_shards_def four_codec_def four_encode_def length_Suc_conv numeral_eq_Suc split: list.splits)
    have S: "?S \<subseteq> {..<4}" using shard_no_less [OF calls(1) lens] assms(3) by auto
    have enough: "\<not> length (remdups (map (shard_no k) calls)) < k" using calls(2) by (simp add: length_remdups_card_conv)
    have got: "shard_lookup k calls = (\<lambda>i. if i \<in> ?S then Some ((xs @ ys) ! i) else None)"
      using shard_lookup_eq [OF calls(1) lens(1)] by auto
    show ?thesis
    proof (cases "k = 2")
      case True
      then obtain x y where xy: "xs = [x, y]" "length x = sz" "length y = sz"
        using xs(1) by (auto simp: valid_shards_def length_Suc_conv numeral_eq_Suc)
      then have "ys = [bxor x y, bxor x (gf4_mul y)]" using xs(2) True assms(3) by (simp add: four_codec_def four_encode_def)
      then have "set (restore2 (shard_lookup k calls)) = {(i, [x, y] ! i) | i. i < 2 \<and> i \<notin> ?S}"
        using xy assms(2) S calls(2) True by (intro restore2_eq) (simp_all add: got [unfolded True] cong: if_cong)
      then show ?thesis using True enough xy by (simp add: four_codec_def)
    next
      case False
      then have k: "k = 3" "m = 1" using assms(3) by auto
      then obtain x y z where xyz: "xs = [x, y, z]" "length x = sz" "length y = sz" "length z = sz"
        using xs(1) by (auto simp: valid_shards_def length_Suc_conv numeral_eq_Suc)
      then have "ys = [bxor x (bxor y z)]" using xs(2) k by (simp add: four_codec_def four_encode_def)
      then have "set (restore3 (shard_lookup k calls)) = {(i, [x, y, z] ! i) | i. i < 3 \<and> i \<notin> ?S}"
        using xyz S calls(2) k by (intro restore3_eq) (simp_all add: got [unfolded k] cong: if_cong)
      then show ?thesis using k enough xyz by (simp add: four_codec_def)
    qed
  qed
  have enc: "\<exists>ys. codec_encode four_codec k m sz xs = Some ys \<and> valid_shards m sz ys" if "valid_shards k sz xs" for xs
    using that assms by (auto simp: valid_shards_def four_codec_def four_encode_def length_Suc_conv numeral_eq_Suc length_gf4_mul)
  have few: "\<exists>e. codec_decode four_codec k m sz calls = Err e" if "card (shard_no k ` set calls) < k" for calls
    using that by (simp add: four_codec_def length_remdups_card_conv)
  have new: "codec_new_encoder four_codec k m sz = None" "codec_new_decoder four_codec k m sz = None"
    using assms by (auto simp: four_codec_def four_supported_def)
  have "\<exists>ys. codec_encode four_codec k m sz xs = Some ys \<and> valid_shards m sz ys
      \<and> (\<forall>calls. (\<forall>c\<in>set calls. call_ok xs ys c) \<and> k \<le> card (shard_no k ` set calls) \<longrightarrow>
          (\<exists>rs. codec_decode four_codec k m sz calls = Ok rs \<and> set rs = {(i, xs ! i) | i. i < k \<and> i \<notin> shard_no k ` set calls}))"
    if xs: "valid_shards k sz xs" for xs
  proof -
    obtain ys where ys: "codec_encode four_codec k m sz xs = Some ys" "valid_shards m sz ys" using enc [OF xs] by blast
    show ?thesis by (rule exI [of _ ys]) (use ys dec [OF xs ys(1)] in simp)
  qed
  with new few show ?thesis unfolding codec_contract_def by blast
qed

lemma four_linear:
  assumes "even sz"
  shows "codec_linear four_codec 2 2 sz (\<lambda>j i. if j = 1 \<and> i = 1 then gf4_mul else (\<lambda>x. x))"
    and "codec_linear four_codec 3 1 sz (\<lambda>j i x. x)"
  using assms
  by (auto simp: codec_linear_def linear_map_def four_codec_def four_encode_def valid_shards_def length_Suc_conv numeral_eq_Suc
      length_gf4_mul gf4_mul_bxor less_Suc_eq bxor_zero upt_rec split: list.splits)

lemma four_commute: "even sz \<Longrightarrow> codec_commute four_codec 2 2 3 1 sz"
proof -
  assume e: "even sz"
  let ?f = "\<lambda>j i :: nat. if j = (1 :: nat) \<and> i = 1 then gf4_mul else (\<lambda>x. x)" and ?g = "\<lambda>(j :: nat) (i :: nat) (x :: bytes). x"
  have "?f j i (?g j' i' x) = ?g j' i' (?f j i x)" for j i j' i' x by simp
  with four_linear [OF e] show ?thesis unfolding codec_commute_def by blast
qed

end
