(* ===== verification/BasicEncoding.thy ===== *)
theory BasicEncoding
  imports Codec
begin

text \<open>
  The one-dimensional erasure coder of \<open>crates/walrus-core/src/encoding/basic_encoding.rs\<close>: the wrappers
  \<open>ReedSolomonEncoder\<close> and \<open>ReedSolomonDecoder\<close> around the crate \<open>reed_solomon_simd\<close>.

  The crate is the parameter \<open>C\<close> of the definitions (theory \<open>Codec\<close>).

  The encoder resets the crate's encoder before every use, so the model keeps no state for it; the
  buffer \<open>encoded_symbols\<close> is kept. The decoder keeps the calls it has made since the last reset, because a
  failed decoding leaves them in place.
\<close>

subsection \<open>The encoder\<close>

record rs_encoder =
  enc_n_source_symbols :: nat
  enc_n_shards :: nat
  enc_symbol_size :: nat
  encoded_symbols :: "symbols option"

definition ASSOCIATED_ENCODING_TYPE :: encoding_type where
  "ASSOCIATED_ENCODING_TYPE = RS2"

definition reed_solomon_recovery_count :: "nat \<Rightarrow> nat \<Rightarrow> (nat, 'e) result" where
  "reed_solomon_recovery_count k n = usub n k"

definition encoder_new :: "'r rs_codec \<Rightarrow> nat \<Rightarrow> nat \<Rightarrow> nat \<Rightarrow> (rs_encoder, encode_error) result" where
  "encoder_new C sz k n =
    and_then (ensure (n \<ge> k) (EncodeIncompatibleParameters ''n_shards must be at least n_source_symbols'')) (\<lambda>_.
    and_then (ensure (sz mod required_alignment ASSOCIATED_ENCODING_TYPE = 0)
      (EncodeIncompatibleParameters ''symbol_size must be a multiple of the required alignment'')) (\<lambda>_.
    and_then (reed_solomon_recovery_count k n) (\<lambda>m.
    (case codec_new_encoder C k m sz of
       Some e \<Rightarrow> Err (EncodeIncompatibleParameters (codec_error_string C e))
     | None \<Rightarrow> Ok \<lparr>enc_n_source_symbols = k, enc_n_shards = n, enc_symbol_size = sz, encoded_symbols = None\<rparr>))))"

definition check_parameters_and_compute_symbol_size :: "nat \<Rightarrow> nat \<Rightarrow> (nat, encode_error) result" where
  "check_parameters_and_compute_symbol_size data_length k =
    (if data_length = 0 then Err (InvalidDataSize EmptyData)
     else and_then (map_err (\<lambda>e. InvalidDataSize (invalid_data_size_from e))
         (compute_symbol_size_from_usize data_length k (required_alignment ASSOCIATED_ENCODING_TYPE))) (\<lambda>sz.
       let expected_length = k * sz
       in if data_length \<noteq> expected_length then Err (IncorrectDataLength expected_length) else Ok sz))"

definition check_data_length :: "rs_encoder \<Rightarrow> bytes \<Rightarrow> (unit, encode_error) result" where
  "check_data_length self d =
    (let expected_length = enc_n_source_symbols self * enc_symbol_size self
     in ensure (length d = expected_length) (IncorrectDataLength expected_length))"

definition encoder_reset :: "'r rs_codec \<Rightarrow> rs_encoder \<Rightarrow> (nat, encode_error) result" where
  "encoder_reset C self =
    and_then (reed_solomon_recovery_count (enc_n_source_symbols self) (enc_n_shards self)) (\<lambda>m.
      (case codec_new_encoder C (enc_n_source_symbols self) m (enc_symbol_size self) of Some _ \<Rightarrow> Panic | None \<Rightarrow> Ok m))"

definition encode :: "'r rs_codec \<Rightarrow> rs_encoder \<Rightarrow> bytes \<Rightarrow> (bytes list, encode_error) result" where
  "encode C self d =
    and_then (check_data_length self d) (\<lambda>_.
    and_then (encoder_reset C self) (\<lambda>m.
    expect (codec_encode C (enc_n_source_symbols self) m (enc_symbol_size self) (chunks (enc_symbol_size self) d))))"

definition take_or_create_encoded_symbols :: "rs_encoder \<Rightarrow> nat \<Rightarrow> symbols \<times> rs_encoder" where
  "take_or_create_encoded_symbols self required_capacity =
    (case encoded_symbols self of
       Some s \<Rightarrow> (symbols_truncate 0 s, self\<lparr>encoded_symbols := None\<rparr>)
     | None \<Rightarrow> (symbols_with_capacity required_capacity (enc_symbol_size self), self))"

fun extend_all :: "symbols \<Rightarrow> bytes list \<Rightarrow> (symbols, 'e) result" where
  "extend_all buf [] = Ok buf"
| "extend_all buf (s # ss) = and_then (expect (ok (symbols_extend buf s))) (\<lambda>buf'. extend_all buf' ss)"

definition encode_all_repair_symbols_inner ::
  "'r rs_codec \<Rightarrow> rs_encoder \<Rightarrow> symbols \<Rightarrow> bytes \<Rightarrow> (symbols, encode_error) result" where
  "encode_all_repair_symbols_inner C self result_buffer d =
    and_then (check_data_length self d) (\<lambda>_.
    and_then (rust_assert (symbol_size result_buffer = enc_symbol_size self)) (\<lambda>_.
    and_then (encode C self d) (\<lambda>recovery. extend_all result_buffer recovery)))"

definition encode_all :: "'r rs_codec \<Rightarrow> rs_encoder \<Rightarrow> bytes \<Rightarrow> (symbols, encode_error) result \<times> rs_encoder" where
  "encode_all C self d =
    (let (buf, self) = take_or_create_encoded_symbols self (enc_n_shards self) in
     (and_then (check_data_length self d) (\<lambda>_.
      and_then (rust_assert (symbol_size buf = enc_symbol_size self)) (\<lambda>_.
      and_then (expect (ok (symbols_extend buf d))) (\<lambda>buf.
      encode_all_repair_symbols_inner C self buf d))), self))"

definition encode_all_ref :: "'r rs_codec \<Rightarrow> rs_encoder \<Rightarrow> bytes \<Rightarrow> (symbols, encode_error) result \<times> rs_encoder" where
  "encode_all_ref C self d =
    (case encode_all C self d of
       (Ok s, self) \<Rightarrow> (Ok s, self\<lparr>encoded_symbols := Some s\<rparr>)
     | (r, self) \<Rightarrow> (r, self))"

definition encode_all_repair_symbols ::
  "'r rs_codec \<Rightarrow> rs_encoder \<Rightarrow> bytes \<Rightarrow> (symbols, encode_error) result \<times> rs_encoder" where
  "encode_all_repair_symbols C self d =
    (case (usub (enc_n_shards self) (enc_n_source_symbols self) :: (nat, encode_error) result) of
       Ok m \<Rightarrow> (let (buf, self) = take_or_create_encoded_symbols self m in (encode_all_repair_symbols_inner C self buf d, self))
     | Err e \<Rightarrow> (Err e, self)
     | Panic \<Rightarrow> (Panic, self))"

definition get_symbol :: "'r rs_codec \<Rightarrow> rs_encoder \<Rightarrow> bytes \<Rightarrow> nat \<Rightarrow> (bytes, encode_error) result" where
  "get_symbol C self d index =
    and_then (check_data_length self d) (\<lambda>_.
    and_then (rust_assert (index < enc_n_shards self)) (\<lambda>_.
    let k = enc_n_source_symbols self; sz = enc_symbol_size self in
    if index < k then vec_slice d (index * sz, (index + 1) * sz)
    else and_then (encode C self d) (\<lambda>recovery.
      if index - k < length recovery then Ok (recovery ! (index - k)) else Panic)))"

subsection \<open>The decoder\<close>

record rs_decoder =
  dec_n_source_symbols :: nat
  dec_n_shards :: nat
  dec_source_symbols :: symbols
  dec_calls :: "shard_call list"

definition decoder_new :: "'r rs_codec \<Rightarrow> nat \<Rightarrow> nat \<Rightarrow> nat \<Rightarrow> (rs_decoder, 'r decode_error) result" where
  "decoder_new C k n sz =
    and_then (usub n k) (\<lambda>m.
    (case codec_new_decoder C k m sz of
       Some e \<Rightarrow> Err (DecodeIncompatibleParameters e)
     | None \<Rightarrow> Ok \<lparr>dec_n_source_symbols = k, dec_n_shards = n, dec_source_symbols = symbols_zeros k sz, dec_calls = []\<rparr>))"

definition decoder_add :: "rs_decoder \<Rightarrow> decoding_symbol \<Rightarrow> (rs_decoder, 'e) result" where
  "decoder_add self s =
    (let k = dec_n_source_symbols self in
     if length (ds_data s) \<noteq> symbol_size (dec_source_symbols self) then Ok self
     else if ds_index s < k then
       and_then (symbols_index_mut_copy (dec_source_symbols self) (ds_index s) (ds_data s)) (\<lambda>syms.
       Ok (self\<lparr>dec_source_symbols := syms, dec_calls := dec_calls self @ [AddOriginal (ds_index s) (ds_data s)]\<rparr>))
     else Ok (self\<lparr>dec_calls := dec_calls self @ [AddRecovery (ds_index s - k) (ds_data s)]\<rparr>))"

fun decoder_add_all :: "rs_decoder \<Rightarrow> decoding_symbol list \<Rightarrow> (rs_decoder, 'e) result" where
  "decoder_add_all self [] = Ok self"
| "decoder_add_all self (s # ss) = and_then (decoder_add self s) (\<lambda>self. decoder_add_all self ss)"

fun write_restored :: "symbols \<Rightarrow> (nat \<times> bytes) list \<Rightarrow> (symbols, 'e) result" where
  "write_restored syms [] = Ok syms"
| "write_restored syms ((i, d) # rs) = and_then (symbols_index_mut_copy syms i d) (\<lambda>syms. write_restored syms rs)"

definition decode :: "'r rs_codec \<Rightarrow> rs_decoder \<Rightarrow> decoding_symbol list \<Rightarrow> (bytes, 'r decode_error) result \<times> rs_decoder" where
  "decode C self syms =
    (case (decoder_add_all self syms :: (rs_decoder, 'r decode_error) result) of
       Err e \<Rightarrow> (Err e, self)
     | Panic \<Rightarrow> (Panic, self)
     | Ok self \<Rightarrow>
       (case (usub (dec_n_shards self) (dec_n_source_symbols self) :: (nat, 'r decode_error) result) of
          Err e \<Rightarrow> (Err e, self)
        | Panic \<Rightarrow> (Panic, self)
        | Ok m \<Rightarrow>
          let k = dec_n_source_symbols self; sz = symbol_size (dec_source_symbols self) in
          (case codec_decode C k m sz (dec_calls self) of
             Err e \<Rightarrow> (Err (DecoderError e), self)
           | Panic \<Rightarrow> (Panic, self)
           | Ok restored \<Rightarrow>
             (and_then (write_restored (dec_source_symbols self) restored) (\<lambda>src.
              and_then (case codec_new_decoder C k m sz of Some _ \<Rightarrow> Panic | None \<Rightarrow> Ok ()) (\<lambda>_.
              Ok (sym_data src))),
              self\<lparr>dec_source_symbols := symbols_zeros k sz, dec_calls := []\<rparr>))))"

subsection \<open>The operations of the configuration that run the coder\<close>

text \<open>These are methods of \<open>ReedSolomonEncodingConfig\<close> in \<open>encoding/config.rs\<close>; the axis they are generic in is the first argument.
  An encoder or decoder that a method creates is dropped at its end.\<close>

definition get_encoder :: "'r rs_codec \<Rightarrow> axis \<Rightarrow> rs_config \<Rightarrow> nat \<Rightarrow> (rs_encoder, encode_error) result" where
  "get_encoder C a cfg data_length =
    and_then (check_parameters_and_compute_symbol_size data_length (n_source_symbols a cfg)) (\<lambda>sz.
      encoder_new C sz (n_source_symbols a cfg) (n_shards cfg))"

definition get_decoder :: "'r rs_codec \<Rightarrow> axis \<Rightarrow> rs_config \<Rightarrow> nat \<Rightarrow> (rs_decoder, 'r decode_error) result" where
  "get_decoder C a cfg sz = decoder_new C (n_source_symbols a cfg) (n_shards cfg) sz"

definition encode_all_symbols :: "'r rs_codec \<Rightarrow> axis \<Rightarrow> rs_config \<Rightarrow> bytes \<Rightarrow> (symbols, encode_error) result" where
  "encode_all_symbols C a cfg d = and_then (get_encoder C a cfg (length d)) (\<lambda>e. fst (encode_all C e d))"

definition config_encode_all_repair_symbols :: "'r rs_codec \<Rightarrow> axis \<Rightarrow> rs_config \<Rightarrow> bytes \<Rightarrow> (symbols, encode_error) result" where
  "config_encode_all_repair_symbols C a cfg d =
    and_then (get_encoder C a cfg (length d)) (\<lambda>e. fst (encode_all_repair_symbols C e d))"

definition encode_symbol :: "'r rs_codec \<Rightarrow> axis \<Rightarrow> rs_config \<Rightarrow> bytes \<Rightarrow> nat \<Rightarrow> (bytes, encode_error) result" where
  "encode_symbol C a cfg d index =
    and_then (check_parameters_and_compute_symbol_size (length d) (n_source_symbols a cfg)) (\<lambda>sz.
      if index < n_source_symbols a cfg then vec_slice d (index * sz, index * sz + sz)
      else and_then (get_encoder C a cfg (length d)) (\<lambda>e. get_symbol C e d index))"

definition decode_from_decoding_symbols ::
  "'r rs_codec \<Rightarrow> axis \<Rightarrow> rs_config \<Rightarrow> nat \<Rightarrow> decoding_symbol list \<Rightarrow> (bytes, 'r decode_error) result" where
  "decode_from_decoding_symbols C a cfg sz syms =
    and_then (get_decoder C (orthogonal a) cfg sz) (\<lambda>d. fst (decode C d syms))"

subsection \<open>The encoder\<close>

definition encoder_ok :: "'r rs_codec \<Rightarrow> rs_encoder \<Rightarrow> bool" where
  "encoder_ok C e \<longleftrightarrow> 0 < enc_n_source_symbols e \<and> enc_n_source_symbols e \<le> enc_n_shards e \<and> 0 < enc_symbol_size e
    \<and> codec_contract C (enc_n_source_symbols e) (enc_n_shards e - enc_n_source_symbols e) (enc_symbol_size e)
    \<and> (\<forall>s. encoded_symbols e = Some s \<longrightarrow> symbols_ok s \<and> symbol_size s = enc_symbol_size e)"

definition encoder_code :: "'r rs_codec \<Rightarrow> rs_encoder \<Rightarrow> bytes \<Rightarrow> bytes list" where
  "encoder_code C e d = codeword C (enc_n_source_symbols e) (enc_n_shards e - enc_n_source_symbols e) (enc_symbol_size e) d"

definition encoder_len :: "rs_encoder \<Rightarrow> nat" where
  "encoder_len e = enc_n_source_symbols e * enc_symbol_size e"

lemma encoder_new_ok:
  "encoder_new C sz k n = Ok e \<Longrightarrow> 0 < k \<Longrightarrow> 0 < sz \<Longrightarrow> codec_contract C k (n - k) sz \<Longrightarrow>
    encoder_ok C e \<and> enc_n_source_symbols e = k \<and> enc_n_shards e = n \<and> enc_symbol_size e = sz"
  by (auto simp: encoder_new_def encoder_ok_def reed_solomon_recovery_count_def split: option.splits)

lemma encoder_new_succeeds:
  "k \<le> n \<Longrightarrow> 2 dvd sz \<Longrightarrow> codec_contract C k (n - k) sz \<Longrightarrow>
    encoder_new C sz k n = Ok \<lparr>enc_n_source_symbols = k, enc_n_shards = n, enc_symbol_size = sz, encoded_symbols = None\<rparr>"
  by (auto simp: encoder_new_def ASSOCIATED_ENCODING_TYPE_def reed_solomon_recovery_count_def codec_contract_def mod_eq_0_iff_dvd)

lemma check_data_length_eq: "check_data_length e d = (if length d = encoder_len e then Ok () else Err (IncorrectDataLength (encoder_len e)))"
  by (simp add: check_data_length_def encoder_len_def ensure_def)

lemma encode_eq:
  assumes "encoder_ok C e" "length d = encoder_len e"
  shows "encode C e d = Ok (drop (enc_n_source_symbols e) (encoder_code C e d))"
proof -
  let ?k = "enc_n_source_symbols e" and ?m = "enc_n_shards e - enc_n_source_symbols e" and ?sz = "enc_symbol_size e"
  have ok: "codec_contract C ?k ?m ?sz" "0 < ?sz" "length d = ?k * ?sz" "?k \<le> enc_n_shards e"
    using assms by (auto simp: encoder_ok_def encoder_len_def)
  obtain ys where ys: "codec_encode C ?k ?m ?sz (chunks ?sz d) = Some ys" "codeword C ?k ?m ?sz d = chunks ?sz d @ ys"
    using codec_contractD [OF ok(1-3)] by blast
  have "length (chunks ?sz d) = ?k" using valid_shards_chunks [OF ok(2,3)] by (simp add: valid_shards_def)
  moreover have "codec_new_encoder C ?k ?m ?sz = None" using ok(1) by (simp add: codec_contract_def)
  ultimately show ?thesis
    using ok ys assms(2) by (simp add: encode_def check_data_length_eq encoder_reset_def reed_solomon_recovery_count_def encoder_code_def)
qed

lemma extend_all_append: "extend_all buf ss = (case sv.append_all buf ss of Some b \<Rightarrow> Ok b | None \<Rightarrow> Panic)"
  by (induction ss arbitrary: buf) (auto split: option.splits)

lemma extend_all_eq:
  "symbols_ok buf \<Longrightarrow> \<forall>s\<in>set ss. length s = symbol_size buf \<Longrightarrow>
    \<exists>buf'. extend_all buf ss = Ok buf' \<and> symbols_ok buf' \<and> symbol_size buf' = symbol_size buf \<and> to_symbols buf' = to_symbols buf @ ss"
  using sv.append_all_ok [of buf ss] by (auto simp: extend_all_append)

lemma encoder_code_shape:
  assumes "encoder_ok C e" "length d = encoder_len e"
  shows "length (encoder_code C e d) = enc_n_shards e" "x \<in> set (encoder_code C e d) \<Longrightarrow> length x = enc_symbol_size e"
    "take (enc_n_source_symbols e) (encoder_code C e d) = chunks (enc_symbol_size e) d"
  using codeword_shape [of C "enc_n_source_symbols e" "enc_n_shards e - enc_n_source_symbols e" "enc_symbol_size e" d] assms
  by (auto simp: encoder_ok_def encoder_len_def encoder_code_def valid_shards_def)

lemma inner_eq:
  assumes "encoder_ok C e" "length d = encoder_len e" "symbols_ok buf" "symbol_size buf = enc_symbol_size e"
  shows "\<exists>s. encode_all_repair_symbols_inner C e buf d = Ok s \<and> symbols_ok s \<and> symbol_size s = enc_symbol_size e
    \<and> to_symbols s = to_symbols buf @ drop (enc_n_source_symbols e) (encoder_code C e d)"
proof -
  have "\<forall>s\<in>set (drop (enc_n_source_symbols e) (encoder_code C e d)). length s = symbol_size buf"
    using encoder_code_shape(2) [OF assms(1,2)] assms(4) by (auto dest: in_set_dropD)
  from extend_all_eq [OF assms(3) this] show ?thesis
    using assms by (auto simp: encode_all_repair_symbols_inner_def check_data_length_eq encode_eq)
qed

lemma take_or_create_ok:
  assumes "encoder_ok C e" "take_or_create_encoded_symbols e n = (buf, e')"
  shows "symbols_ok buf \<and> symbol_size buf = enc_symbol_size e \<and> to_symbols buf = [] \<and> e' = e\<lparr>encoded_symbols := None\<rparr>"
  using assms symbols_truncate_ok [of _ 0]
  by (cases e) (auto simp: take_or_create_encoded_symbols_def encoder_ok_def symbols_with_capacity_def symbols_ok_def
    to_symbols_def split: option.splits)

lemma encoder_ok_buffer [simp]:
  "encoder_ok C e \<Longrightarrow> encoder_ok C (e\<lparr>encoded_symbols := None\<rparr>)"
  "encoder_len (e\<lparr>encoded_symbols := b\<rparr>) = encoder_len e"
  "encoder_code C (e\<lparr>encoded_symbols := b\<rparr>) d = encoder_code C e d"
  by (simp_all add: encoder_ok_def encoder_len_def encoder_code_def)

lemma encode_all_eq:
  assumes "encoder_ok C e" "length d = encoder_len e"
  shows "\<exists>s. encode_all C e d = (Ok s, e\<lparr>encoded_symbols := None\<rparr>) \<and> symbols_ok s \<and> symbol_size s = enc_symbol_size e
    \<and> to_symbols s = encoder_code C e d"
proof -
  let ?e = "e\<lparr>encoded_symbols := None\<rparr>"
  obtain buf where buf: "take_or_create_encoded_symbols e (enc_n_shards e) = (buf, ?e)" "symbols_ok buf"
    "symbol_size buf = enc_symbol_size e" "to_symbols buf = []"
    using take_or_create_ok [OF assms(1)] by (metis surj_pair)
  obtain b where b: "symbols_extend buf d = Ok b" "symbols_ok b" "symbol_size b = enc_symbol_size e"
    "to_symbols b = chunks (enc_symbol_size e) d"
    using symbols_extend_ok [OF buf(2), of d] assms(2) buf(3,4) by (auto simp: encoder_len_def)
  obtain s where s: "encode_all_repair_symbols_inner C ?e b d = Ok s" "symbols_ok s" "symbol_size s = enc_symbol_size e"
    "to_symbols s = chunks (enc_symbol_size e) d @ drop (enc_n_source_symbols e) (encoder_code C e d)"
    using inner_eq [of C ?e d b] assms b by auto
  have "to_symbols s = encoder_code C e d"
    using s(4) encoder_code_shape(3) [OF assms] append_take_drop_id by metis
  then show ?thesis using buf b s assms by (simp add: encode_all_def check_data_length_eq)
qed

lemma encode_all_repair_symbols_eq:
  assumes "encoder_ok C e" "length d = encoder_len e"
  shows "\<exists>s. encode_all_repair_symbols C e d = (Ok s, e\<lparr>encoded_symbols := None\<rparr>) \<and> symbols_ok s
    \<and> symbol_size s = enc_symbol_size e \<and> to_symbols s = drop (enc_n_source_symbols e) (encoder_code C e d)"
proof -
  let ?e = "e\<lparr>encoded_symbols := None\<rparr>" and ?m = "enc_n_shards e - enc_n_source_symbols e"
  obtain buf where buf: "take_or_create_encoded_symbols e ?m = (buf, ?e)" "symbols_ok buf"
    "symbol_size buf = enc_symbol_size e" "to_symbols buf = []"
    using take_or_create_ok [OF assms(1)] by (metis surj_pair)
  then show ?thesis
    using inner_eq [of C ?e d buf] assms by (auto simp: encode_all_repair_symbols_def encoder_ok_def)
qed

lemma encode_all_wrong_length:
  assumes "length d \<noteq> encoder_len e"
  shows "fst (encode_all C e d) = Err (IncorrectDataLength (encoder_len e))"
  using assms by (auto simp: encode_all_def check_data_length_eq take_or_create_encoded_symbols_def split: option.splits)

lemma get_symbol_eq:
  assumes "encoder_ok C e" "length d = encoder_len e"
  shows "get_symbol C e d i = (if i < enc_n_shards e then Ok (encoder_code C e d ! i) else Panic)"
proof (cases "i < enc_n_source_symbols e")
  case True
  let ?sz = "enc_symbol_size e"
  have sz: "0 < ?sz" "enc_n_source_symbols e \<le> enc_n_shards e" "length d = enc_n_source_symbols e * ?sz"
    using assms by (auto simp: encoder_ok_def encoder_len_def)
  have "Suc i * ?sz \<le> length d" using True sz(3) by (metis Suc_leI mult_le_mono1)
  then have "vec_slice d (i * ?sz, Suc i * ?sz) = Ok (take ?sz (drop (i * ?sz) d))" by (simp add: vec_slice_def)
  moreover have "encoder_code C e d ! i = chunks ?sz d ! i"
    using encoder_code_shape(3) [OF assms] True by (metis nth_take)
  moreover have "chunks ?sz d ! i = take ?sz (drop (?sz * i) d)"
    by (rule chunks_nth) (use sz True in auto)
  ultimately show ?thesis
    using True sz assms(2) by (simp add: get_symbol_def check_data_length_eq Let_def mult.commute)
next
  case False
  then show ?thesis
    using assms encoder_code_shape(1) [OF assms]
    by (auto simp: get_symbol_def check_data_length_eq Let_def encode_eq encoder_ok_def less_diff_conv2 not_less)
qed

subsection \<open>The decoder\<close>

definition decoder_ok :: "'r rs_codec \<Rightarrow> rs_decoder \<Rightarrow> bool" where
  "decoder_ok C d \<longleftrightarrow> 0 < dec_n_source_symbols d \<and> dec_n_source_symbols d \<le> dec_n_shards d
    \<and> symbols_ok (dec_source_symbols d) \<and> length (to_symbols (dec_source_symbols d)) = dec_n_source_symbols d
    \<and> codec_contract C (dec_n_source_symbols d) (dec_n_shards d - dec_n_source_symbols d) (symbol_size (dec_source_symbols d))"

text \<open>A decoder that is ready for a new decoding.\<close>

definition decoder_fresh :: "rs_decoder \<Rightarrow> bool" where
  "decoder_fresh d \<longleftrightarrow> dec_calls d = []"

lemma decoder_new_Ok:
  assumes "0 < k" "k \<le> n" "0 < sz" "codec_contract C k (n - k) sz"
  shows "decoder_new C k n sz = Ok \<lparr>dec_n_source_symbols = k, dec_n_shards = n, dec_source_symbols = symbols_zeros k sz, dec_calls = []\<rparr>"
    "decoder_ok C \<lparr>dec_n_source_symbols = k, dec_n_shards = n, dec_source_symbols = symbols_zeros k sz, dec_calls = []\<rparr>"
  using assms symbols_zeros_ok [of sz k]
  by (auto simp: decoder_new_def codec_contract_def decoder_ok_def symbols_zeros_def)

definition usable :: "nat \<Rightarrow> decoding_symbol list \<Rightarrow> decoding_symbol list" where
  "usable sz syms = filter (\<lambda>s. length (ds_data s) = sz) syms"

definition call_for :: "nat \<Rightarrow> decoding_symbol \<Rightarrow> shard_call" where
  "call_for k s = (if ds_index s < k then AddOriginal (ds_index s) (ds_data s) else AddRecovery (ds_index s - k) (ds_data s))"

definition source_writes :: "nat \<Rightarrow> decoding_symbol list \<Rightarrow> (nat \<times> bytes) list" where
  "source_writes k syms = map (\<lambda>s. (ds_index s, ds_data s)) (filter (\<lambda>s. ds_index s < k) syms)"

definition apply_writes :: "(nat \<times> 'a) list \<Rightarrow> 'a list \<Rightarrow> 'a list" where
  "apply_writes ws xs = fold (\<lambda>(i, v) xs. xs[i := v]) ws xs"

lemma apply_writes_simps [simp]:
  "apply_writes [] xs = xs" "apply_writes ((i, v) # ws) xs = apply_writes ws (xs[i := v])"
  "length (apply_writes ws xs) = length xs"
proof -
  show "length (apply_writes ws xs) = length xs"
    by (induction ws arbitrary: xs) (auto simp: apply_writes_def)
qed (simp_all add: apply_writes_def)

text \<open>If every write to a position writes the same value there, the order does not matter.\<close>

lemma apply_writes_nth:
  "\<forall>(i, v)\<in>set ws. v = f i \<Longrightarrow> j < length xs \<Longrightarrow> apply_writes ws xs ! j = (if j \<in> fst ` set ws then f j else xs ! j)"
proof (induction ws arbitrary: xs)
  case (Cons w ws)
  obtain i v where w: "w = (i, v)" by (cases w)
  have "apply_writes ws (xs[i := v]) ! j = (if j \<in> fst ` set ws then f j else xs[i := v] ! j)"
    using Cons.prems by (intro Cons.IH) auto
  then show ?case using Cons.prems w by (auto simp: nth_list_update)
qed simp

lemma decoder_add_all_eq:
  assumes "symbols_ok (dec_source_symbols d)" "length (to_symbols (dec_source_symbols d)) = dec_n_source_symbols d"
  shows "\<exists>src. decoder_add_all d syms =
      Ok (d\<lparr>dec_source_symbols := src, dec_calls := dec_calls d @ map (call_for (dec_n_source_symbols d)) (usable (symbol_size (dec_source_symbols d)) syms)\<rparr>)
    \<and> symbols_ok src \<and> symbol_size src = symbol_size (dec_source_symbols d)
    \<and> to_symbols src = apply_writes (source_writes (dec_n_source_symbols d) (usable (symbol_size (dec_source_symbols d)) syms))
        (to_symbols (dec_source_symbols d))"
  using assms
proof (induction syms arbitrary: d)
  case Nil
  then show ?case by (cases d) (auto simp: usable_def source_writes_def)
next
  case (Cons s syms)
  let ?k = "dec_n_source_symbols d" and ?sz = "symbol_size (dec_source_symbols d)"
  consider (skip) "length (ds_data s) \<noteq> ?sz" | (src) "length (ds_data s) = ?sz" "ds_index s < ?k"
    | (rec) "length (ds_data s) = ?sz" "\<not> ds_index s < ?k" by blast
  then show ?case
  proof cases
    case skip
    then show ?thesis using Cons.IH [OF Cons.prems] by (auto simp: decoder_add_def usable_def)
  next
    case src
    obtain src where put: "symbols_index_mut_copy (dec_source_symbols d) (ds_index s) (ds_data s) = (Ok src :: (symbols, 'a) result)"
      "symbols_ok src" "symbol_size src = ?sz" "to_symbols src = (to_symbols (dec_source_symbols d))[ds_index s := ds_data s]"
      using symbols_index_mut_copy_eq [OF Cons.prems(1), of "ds_index s" "ds_data s"] src Cons.prems(2) by metis
    let ?d = "d\<lparr>dec_source_symbols := src, dec_calls := dec_calls d @ [AddOriginal (ds_index s) (ds_data s)]\<rparr>"
    show ?thesis
      using Cons.IH [of ?d] put src Cons.prems
      by (auto simp: decoder_add_def usable_def source_writes_def call_for_def)
  next
    case rec
    let ?d = "d\<lparr>dec_calls := dec_calls d @ [AddRecovery (ds_index s - ?k) (ds_data s)]\<rparr>"
    show ?thesis
      using Cons.IH [of ?d] rec Cons.prems
      by (auto simp: decoder_add_def usable_def source_writes_def call_for_def)
  qed
qed

lemma write_restored_eq:
  assumes "symbols_ok src" "\<forall>(i, v)\<in>set rs. i < length (to_symbols src) \<and> length v = symbol_size src"
  shows "\<exists>src'. write_restored src rs = Ok src' \<and> symbols_ok src' \<and> symbol_size src' = symbol_size src
    \<and> to_symbols src' = apply_writes rs (to_symbols src)"
  using assms
proof (induction rs arbitrary: src)
  case (Cons r rs)
  obtain i v where r: "r = (i, v)" by (cases r)
  obtain src1 where put: "symbols_index_mut_copy src i v = (Ok src1 :: (symbols, 'a) result)" "symbols_ok src1"
    "symbol_size src1 = symbol_size src" "to_symbols src1 = (to_symbols src)[i := v]"
    using symbols_index_mut_copy_eq [OF Cons.prems(1), of i v] Cons.prems(2) r by auto
  then show ?case using Cons.IH [of src1] Cons.prems r by auto
qed simp

text \<open>The symbols given to the decoder, as shards of a codeword.\<close>

lemma call_for_ok:
  assumes "valid_shards k sz xs" "valid_shards m sz ys" "ds_index s < k + m" "ds_data s = (xs @ ys) ! ds_index s"
  shows "call_ok xs ys (call_for k s)" "shard_no k (call_for k s) = ds_index s" "shard_bytes (call_for k s) = ds_data s"
  using assms by (auto simp: call_for_def valid_shards_def nth_append)

lemma shard_no_call_for [simp]: "shard_no k (call_for k s) = ds_index s" "shard_bytes (call_for k s) = ds_data s"
  by (auto simp: call_for_def)

definition dec_size :: "rs_decoder \<Rightarrow> nat" where
  "dec_size d = symbol_size (dec_source_symbols d)"

definition decoder_code :: "'r rs_codec \<Rightarrow> rs_decoder \<Rightarrow> bytes \<Rightarrow> bytes list" where
  "decoder_code C d = codeword C (dec_n_source_symbols d) (dec_n_shards d - dec_n_source_symbols d) (dec_size d)"

definition decoder_reset :: "rs_decoder \<Rightarrow> rs_decoder" where
  "decoder_reset d = d\<lparr>dec_source_symbols := symbols_zeros (dec_n_source_symbols d) (dec_size d), dec_calls := []\<rparr>"

text \<open>The symbols of a codeword that have the right size; symbols of other sizes are dropped by the decoder.\<close>

definition symbols_of_code :: "nat \<Rightarrow> nat \<Rightarrow> bytes list \<Rightarrow> decoding_symbol list \<Rightarrow> bool" where
  "symbols_of_code n sz w syms \<longleftrightarrow> (\<forall>s\<in>set (usable sz syms). ds_index s < n \<and> ds_data s = w ! ds_index s)"

definition n_distinct :: "nat \<Rightarrow> decoding_symbol list \<Rightarrow> nat" where
  "n_distinct sz syms = card (ds_index ` set (usable sz syms))"

lemma decoder_reset_ok [simp]: "decoder_ok C d \<Longrightarrow> decoder_ok C (decoder_reset d) \<and> decoder_fresh (decoder_reset d)"
  using symbols_zeros_ok [of "dec_size d" "dec_n_source_symbols d"]
  by (auto simp: decoder_ok_def decoder_reset_def decoder_fresh_def dec_size_def symbols_ok_def symbols_zeros_def)

text \<open>Every position of the source buffer is written, either by a source symbol that was received or by one that the
  coder restored.\<close>

lemma all_positions_written:
  assumes "length src = k" "length xs = k" "\<forall>s\<in>set us. ds_index s < k \<longrightarrow> ds_data s = xs ! ds_index s"
    and rs: "set rs = {(i, xs ! i) | i. i < k \<and> i \<notin> ds_index ` set us}"
  shows "apply_writes rs (apply_writes (source_writes k us) src) = xs"
proof (rule nth_equalityI)
  show "length (apply_writes rs (apply_writes (source_writes k us) src)) = length xs" using assms by simp
next
  fix j assume "j < length (apply_writes rs (apply_writes (source_writes k us) src))"
  then have j: "j < k" using assms by simp
  have w: "\<forall>(i, v)\<in>set (source_writes k us). v = xs ! i" using assms(3) by (auto simp: source_writes_def)
  have fst: "fst ` set (source_writes k us) = {i \<in> ds_index ` set us. i < k}" by (force simp: source_writes_def)
  have "apply_writes rs (apply_writes (source_writes k us) src) ! j
      = (if j \<in> fst ` set rs then xs ! j else apply_writes (source_writes k us) src ! j)"
    by (rule apply_writes_nth) (use rs assms j in auto)
  also have "apply_writes (source_writes k us) src ! j = (if j \<in> ds_index ` set us then xs ! j else src ! j)"
    using apply_writes_nth [OF w, of j src] assms(1) j fst by simp
  also have "fst ` set rs = {i. i < k \<and> i \<notin> ds_index ` set us}" unfolding rs by force
  finally show "apply_writes rs (apply_writes (source_writes k us) src) ! j = xs ! j" using j by (simp split: if_splits)
qed

lemma decode_codeword:
  assumes ok: "decoder_ok C dec" "decoder_fresh dec" and d: "length d = dec_n_source_symbols dec * dec_size dec"
    and syms: "symbols_of_code (dec_n_shards dec) (dec_size dec) (decoder_code C dec d) syms"
    and enough: "dec_n_source_symbols dec \<le> n_distinct (dec_size dec) syms"
  shows "decode C dec syms = (Ok d, decoder_reset dec)"
proof -
  let ?k = "dec_n_source_symbols dec" and ?sz = "dec_size dec" and ?m = "dec_n_shards dec - dec_n_source_symbols dec"
  let ?us = "usable ?sz syms" and ?xs = "chunks ?sz d"
  have con: "codec_contract C ?k ?m ?sz" and pos: "0 < ?k" "?k \<le> dec_n_shards dec" "0 < ?sz"
    and src: "symbols_ok (dec_source_symbols dec)" "length (to_symbols (dec_source_symbols dec)) = ?k"
    using ok(1) by (auto simp: decoder_ok_def dec_size_def symbols_ok_def)
  obtain ys where ys: "codec_encode C ?k ?m ?sz ?xs = Some ys" "valid_shards ?m ?sz ys" "decoder_code C dec d = ?xs @ ys"
    using codec_contractD [OF con pos(3) d] by (auto simp: decoder_code_def)
  have xs: "valid_shards ?k ?sz ?xs" by (rule valid_shards_chunks [OF pos(3) d])
  obtain src' where add: "decoder_add_all dec syms =
        (Ok (dec\<lparr>dec_source_symbols := src', dec_calls := map (call_for ?k) ?us\<rparr>) :: (rs_decoder, 'a decode_error) result)"
    and src': "symbols_ok src'" "symbol_size src' = ?sz" "to_symbols src' = apply_writes (source_writes ?k ?us) (to_symbols (dec_source_symbols dec))"
    using decoder_add_all_eq [OF src, of syms] ok(2) unfolding dec_size_def decoder_fresh_def by auto
  have calls: "\<forall>c\<in>set (map (call_for ?k) ?us). call_ok ?xs ys c"
    using syms call_for_ok(1) [OF xs ys(2)] pos(2) unfolding symbols_of_code_def ys(3) by auto
  have no: "shard_no ?k ` set (map (call_for ?k) ?us) = ds_index ` set ?us" by (simp add: image_image)
  obtain rs where rs: "codec_decode C ?k ?m ?sz (map (call_for ?k) ?us) = Ok rs"
    "set rs = {(i, ?xs ! i) | i. i < ?k \<and> i \<notin> ds_index ` set ?us}"
    using codec_contract_decode [OF con xs ys(1) calls] enough unfolding no n_distinct_def by blast
  have "\<forall>(i, v)\<in>set rs. i < length (to_symbols src') \<and> length v = symbol_size src'"
    using rs(2) src' src(2) xs by (auto simp: valid_shards_def)
  then obtain fin where fin: "write_restored src' rs = (Ok fin :: (symbols, 'a decode_error) result)" "symbols_ok fin" "symbol_size fin = ?sz"
    "to_symbols fin = apply_writes rs (to_symbols src')"
    using write_restored_eq [OF src'(1)] src'(2) by metis
  have "\<forall>s\<in>set ?us. ds_index s < ?k \<longrightarrow> ds_data s = ?xs ! ds_index s"
    using syms xs unfolding symbols_of_code_def ys(3) valid_shards_def by (auto simp: nth_append)
  then have "to_symbols fin = ?xs"
    unfolding fin(4) src'(3) using rs(2) src(2) xs by (intro all_positions_written) (auto simp: valid_shards_def)
  then have "sym_data fin = d" using fin(3) pos(3) by (auto simp: to_symbols_def intro: eq_of_chunks)
  moreover have "codec_new_decoder C ?k ?m ?sz = None" using con by (simp add: codec_contract_def)
  ultimately show ?thesis
    using add rs(1) fin pos src'(2) unfolding decode_def by (simp add: Let_def dec_size_def decoder_reset_def)
qed

lemma decode_too_few:
  assumes ok: "decoder_ok C dec" "decoder_fresh dec"
    and syms: "\<forall>s\<in>set (usable (dec_size dec) syms). ds_index s < dec_n_shards dec"
    and few: "n_distinct (dec_size dec) syms < dec_n_source_symbols dec"
  shows "\<exists>e. fst (decode C dec syms) = Err (DecoderError e)"
proof -
  let ?k = "dec_n_source_symbols dec" and ?sz = "dec_size dec" and ?m = "dec_n_shards dec - dec_n_source_symbols dec"
  let ?us = "usable ?sz syms"
  have con: "codec_contract C ?k ?m ?sz" and pos: "?k \<le> dec_n_shards dec"
    and src: "symbols_ok (dec_source_symbols dec)" "length (to_symbols (dec_source_symbols dec)) = ?k"
    using ok(1) by (auto simp: decoder_ok_def dec_size_def)
  obtain src' where add: "decoder_add_all dec syms =
        (Ok (dec\<lparr>dec_source_symbols := src', dec_calls := map (call_for ?k) ?us\<rparr>) :: (rs_decoder, 'a decode_error) result)"
    and src': "symbol_size src' = ?sz"
    using decoder_add_all_eq [OF src, of syms] ok(2) unfolding dec_size_def decoder_fresh_def by auto
  have "\<forall>c\<in>set (map (call_for ?k) ?us). shard_no ?k c < ?k + ?m \<and> length (shard_bytes c) = ?sz"
    using syms pos by (auto simp: usable_def)
  moreover have "card (shard_no ?k ` set (map (call_for ?k) ?us)) < ?k"
    using few by (simp add: n_distinct_def image_image)
  ultimately obtain e where "codec_decode C ?k ?m ?sz (map (call_for ?k) ?us) = Err e"
    using con unfolding codec_contract_def by blast
  then show ?thesis using add pos src' unfolding decode_def by (simp add: Let_def)
qed

subsection \<open>The coder of a configuration\<close>

definition coder_ok :: "'r rs_codec \<Rightarrow> rs_config \<Rightarrow> nat \<Rightarrow> bool" where
  "coder_ok C cfg sz \<longleftrightarrow> rs_config_ok cfg \<and> 0 < sz \<and> even sz \<and> sz \<le> U16_MAX
    \<and> (\<forall>a. codec_contract C (n_source_symbols a cfg) (n_shards cfg - n_source_symbols a cfg) sz)"

definition axis_code :: "'r rs_codec \<Rightarrow> axis \<Rightarrow> rs_config \<Rightarrow> nat \<Rightarrow> bytes \<Rightarrow> bytes list" where
  "axis_code C a cfg sz d = codeword C (n_source_symbols a cfg) (n_shards cfg - n_source_symbols a cfg) sz d"

lemma coder_okD:
  assumes "coder_ok C cfg sz"
  shows "rs_config_ok cfg" "0 < sz" "even sz" "sz \<le> U16_MAX"
  using assms by (auto simp: coder_ok_def)

lemma coder_ok_axis:
  assumes "coder_ok C cfg sz"
  shows "0 < n_source_symbols a cfg" "n_source_symbols a cfg \<le> n_shards cfg" "n_source_symbols a cfg \<le> U16_MAX"
    "codec_contract C (n_source_symbols a cfg) (n_shards cfg - n_source_symbols a cfg) sz"
  using assms rs_config_okD(1-3) [of cfg a] by (auto simp: coder_ok_def)

lemma axis_code_shape:
  assumes "coder_ok C cfg sz" "length d = n_source_symbols a cfg * sz"
  shows "length (axis_code C a cfg sz d) = n_shards cfg" "x \<in> set (axis_code C a cfg sz d) \<Longrightarrow> length x = sz"
    "take (n_source_symbols a cfg) (axis_code C a cfg sz d) = chunks sz d"
    "i < n_shards cfg \<Longrightarrow> length (axis_code C a cfg sz d ! i) = sz"
    "i < n_source_symbols a cfg \<Longrightarrow> axis_code C a cfg sz d ! i = chunks sz d ! i"
  using codeword_shape [OF coder_ok_axis(4) [OF assms(1)] coder_okD(2) [OF assms(1)] assms(2)] coder_ok_axis(2) [OF assms(1), of a]
    codeword_source [OF coder_ok_axis(4) [OF assms(1)] coder_okD(2) [OF assms(1)] assms(2)]
  by (auto simp: axis_code_def valid_shards_def)

lemma check_parameters_Ok:
  assumes "0 < k" "0 < sz" "even sz" "sz \<le> U16_MAX" "k \<le> U16_MAX"
  shows "check_parameters_and_compute_symbol_size (k * sz) k = Ok sz"
proof -
  have "sz \<in> fitting_sizes (k * sz) k 2" using assms by (simp add: fitting_sizes_def)
  then obtain t where t: "compute_symbol_size (k * sz) k 2 = Ok t" "t \<le> sz"
    using compute_symbol_size_fits [of k sz "k * sz" 2] assms by auto
  moreover have "k * sz \<le> k * t" using compute_symbol_size_OkD(4) [OF t(1)] assms(1) by simp
  ultimately have "compute_symbol_size (k * sz) k 2 = Ok sz" using assms(1) by simp
  moreover have "k * sz \<le> U16_MAX * U16_MAX" using assms(4,5) by (intro mult_le_mono)
  ultimately show ?thesis
    using assms(1,2) by (simp add: check_parameters_and_compute_symbol_size_def compute_symbol_size_from_usize_def ASSOCIATED_ENCODING_TYPE_def)
qed

lemma get_encoder_Ok:
  assumes "coder_ok C cfg sz" "len = n_source_symbols a cfg * sz"
  shows "\<exists>e. get_encoder C a cfg len = Ok e \<and> encoder_ok C e \<and> encoder_len e = len \<and> encoded_symbols e = None
    \<and> enc_n_source_symbols e = n_source_symbols a cfg \<and> enc_n_shards e = n_shards cfg \<and> enc_symbol_size e = sz
    \<and> encoder_code C e = axis_code C a cfg sz"
proof -
  let ?e = "\<lparr>enc_n_source_symbols = n_source_symbols a cfg, enc_n_shards = n_shards cfg, enc_symbol_size = sz, encoded_symbols = None\<rparr>"
  have "check_parameters_and_compute_symbol_size len (n_source_symbols a cfg) = Ok sz"
    unfolding assms(2) by (rule check_parameters_Ok) (use coder_okD [OF assms(1)] coder_ok_axis [OF assms(1), of a] in auto)
  then have "get_encoder C a cfg len = Ok ?e"
    using coder_okD [OF assms(1)] coder_ok_axis [OF assms(1), of a] by (simp add: get_encoder_def encoder_new_succeeds)
  moreover have "encoder_ok C ?e" using coder_okD [OF assms(1)] coder_ok_axis [OF assms(1), of a] by (simp add: encoder_ok_def)
  ultimately show ?thesis
    using assms(2) by (auto simp: encoder_len_def encoder_code_def axis_code_def fun_eq_iff)
qed

lemma encode_all_symbols_eq:
  assumes "coder_ok C cfg sz" "length d = n_source_symbols a cfg * sz"
  shows "\<exists>s. encode_all_symbols C a cfg d = Ok s \<and> symbols_ok s \<and> symbol_size s = sz \<and> to_symbols s = axis_code C a cfg sz d"
  using get_encoder_Ok [OF assms] encode_all_eq [of C _ d] by (fastforce simp: encode_all_symbols_def)

lemma config_encode_all_repair_symbols_eq:
  assumes "coder_ok C cfg sz" "length d = n_source_symbols a cfg * sz"
  shows "\<exists>s. config_encode_all_repair_symbols C a cfg d = Ok s \<and> symbols_ok s \<and> symbol_size s = sz
    \<and> to_symbols s = drop (n_source_symbols a cfg) (axis_code C a cfg sz d)"
  using get_encoder_Ok [OF assms] encode_all_repair_symbols_eq [of C _ d] by (fastforce simp: config_encode_all_repair_symbols_def)

lemma encode_symbol_eq:
  assumes "coder_ok C cfg sz" "length d = n_source_symbols a cfg * sz"
  shows "encode_symbol C a cfg d i = (if i < n_shards cfg then Ok (axis_code C a cfg sz d ! i) else Panic)"
proof -
  obtain e where e: "get_encoder C a cfg (length d) = Ok e" "encoder_ok C e" "encoder_len e = length d" "enc_n_shards e = n_shards cfg"
    "encoder_code C e = axis_code C a cfg sz" "enc_n_source_symbols e = n_source_symbols a cfg" "enc_symbol_size e = sz"
    using get_encoder_Ok [OF assms] by auto
  have get: "get_symbol C e d i = (if i < n_shards cfg then Ok (axis_code C a cfg sz d ! i) else Panic)"
    using get_symbol_eq [OF e(2), of d i] e by simp
  have chk: "check_parameters_and_compute_symbol_size (length d) (n_source_symbols a cfg) = Ok sz"
    using e(1,7) by (auto simp: get_encoder_def encoder_new_def reed_solomon_recovery_count_def split: option.splits)
  show ?thesis
  proof (cases "i < n_source_symbols a cfg")
    case True
    have "vec_slice d (i * sz, i * sz + sz) = (get_symbol C e d i :: (bytes, encode_error) result)"
      using True e(2,3,4,6,7) coder_ok_axis(2) [OF assms(1), of a]
      by (simp add: get_symbol_def check_data_length_eq Let_def add.commute)
    then show ?thesis using True get chk by (simp add: encode_symbol_def)
  next
    case False
    then show ?thesis using e(1) get chk by (simp add: encode_symbol_def)
  qed
qed

lemma get_decoder_Ok:
  assumes "coder_ok C cfg sz"
  shows "\<exists>d. get_decoder C a cfg sz = Ok d \<and> decoder_ok C d \<and> decoder_fresh d \<and> dec_size d = sz
    \<and> dec_n_source_symbols d = n_source_symbols a cfg \<and> dec_n_shards d = n_shards cfg \<and> decoder_code C d = axis_code C a cfg sz"
  using decoder_new_Ok [of "n_source_symbols a cfg" "n_shards cfg" sz C] coder_okD [OF assms] coder_ok_axis [OF assms, of a]
  by (auto simp: get_decoder_def decoder_fresh_def dec_size_def symbols_zeros_def decoder_code_def axis_code_def fun_eq_iff)

lemma decode_from_decoding_symbols_eq:
  assumes "coder_ok C cfg sz" "length d = n_source_symbols (orthogonal a) cfg * sz"
    and "symbols_of_code (n_shards cfg) sz (axis_code C (orthogonal a) cfg sz d) syms"
    and "n_source_symbols (orthogonal a) cfg \<le> n_distinct sz syms"
  shows "decode_from_decoding_symbols C a cfg sz syms = Ok d"
  using get_decoder_Ok [OF assms(1), of "orthogonal a"] decode_codeword [of C _ d syms] assms
  by (auto simp: decode_from_decoding_symbols_def)

subsection \<open>Erasure codes\<close>

text \<open>What slivers and blobs rely on: a systematic code of \<open>n\<close> symbols with \<open>k\<close> source symbols, of which any \<open>k\<close> restore
  the data.\<close>

locale erasure_code =
  fixes sound :: bool
    and k n sz :: nat
    and enc :: "bytes \<Rightarrow> bytes list option"
    and sym :: "bytes \<Rightarrow> nat \<Rightarrow> bytes option"
    and dec :: "decoding_symbol list \<Rightarrow> bytes option"
  assumes enc_ok: "sound \<Longrightarrow> length d = k * sz \<Longrightarrow>
      \<exists>w. enc d = Some w \<and> length w = n \<and> (\<forall>x\<in>set w. length x = sz) \<and> take k w = chunks sz d"
    and sym_ok: "sound \<Longrightarrow> length d = k * sz \<Longrightarrow> enc d = Some w \<Longrightarrow> i < n \<Longrightarrow> sym d i = Some (w ! i)"
    and dec_ok: "sound \<Longrightarrow> length d = k * sz \<Longrightarrow> enc d = Some w \<Longrightarrow> symbols_of_code n sz w syms \<Longrightarrow> k \<le> n_distinct sz syms \<Longrightarrow>
      dec syms = Some d"
begin

text \<open>Any \<open>k\<close> symbols determine every symbol.\<close>

lemma recover_symbol:
  assumes "sound" "length d = k * sz" "enc d = Some w" "symbols_of_code n sz w syms" "k \<le> n_distinct sz syms" "j < n"
  shows "\<exists>d'. dec syms = Some d' \<and> sym d' j = Some (w ! j)"
  using dec_ok [OF assms(1-5)] sym_ok [OF assms(1-3,6)] by blast

text \<open>The distance of the code: codewords of different data agree in less than \<open>k\<close> positions.\<close>

lemma distance:
  assumes "sound" "length d = k * sz" "length d' = k * sz" "enc d = Some w" "enc d' = Some w'" "d \<noteq> d'"
  shows "card {i. i < n \<and> w ! i = w' ! i} < k"
proof (rule ccontr)
  let ?A = "{i. i < n \<and> w ! i = w' ! i}"
  assume "\<not> card ?A < k"
  define syms where "syms = map (\<lambda>i. \<lparr>ds_index = i, ds_data = w ! i\<rparr>) (sorted_list_of_set ?A)"
  have A: "set syms = (\<lambda>i. \<lparr>ds_index = i, ds_data = w ! i\<rparr>) ` ?A" by (simp add: syms_def)
  have "length w = n" "\<forall>x\<in>set w. length x = sz" using enc_ok [OF assms(1,2)] assms(4) by auto
  then have "i < n \<Longrightarrow> length (w ! i) = sz" for i by simp
  then have u: "set (usable sz syms) = set syms" by (auto simp: A usable_def) metis
  have "ds_index ` set syms = ?A" unfolding A by (force simp: image_image)
  then have k: "k \<le> n_distinct sz syms" using \<open>\<not> card ?A < k\<close> by (simp add: n_distinct_def u)
  have s: "symbols_of_code n sz w syms" "symbols_of_code n sz w' syms" by (auto simp: symbols_of_code_def u A)
  have "dec syms = Some d" by (rule dec_ok [OF assms(1,2,4) s(1) k])
  moreover have "dec syms = Some d'" by (rule dec_ok [OF assms(1,3,5) s(2) k])
  ultimately show False using assms(6) by simp
qed

end

interpretation axis: erasure_code "coder_ok C cfg sz" "n_source_symbols a cfg" "n_shards cfg" sz
  "\<lambda>d. map_option to_symbols (ok (encode_all_symbols C a cfg d))" "\<lambda>d i. ok (encode_symbol C a cfg d i)"
  "\<lambda>syms. ok (decode_from_decoding_symbols C (orthogonal a) cfg sz syms)" for C a cfg sz
proof
  fix d :: bytes
  assume "coder_ok C cfg sz" "length d = n_source_symbols a cfg * sz"
  then show "\<exists>w. map_option to_symbols (ok (encode_all_symbols C a cfg d)) = Some w \<and> length w = n_shards cfg
      \<and> (\<forall>x\<in>set w. length x = sz) \<and> take (n_source_symbols a cfg) w = chunks sz d"
    using encode_all_symbols_eq [of C cfg sz d a] axis_code_shape [of C cfg sz d a] by fastforce
next
  fix d :: bytes and w i
  assume "coder_ok C cfg sz" "length d = n_source_symbols a cfg * sz" "i < n_shards cfg"
    "map_option to_symbols (ok (encode_all_symbols C a cfg d)) = Some w"
  then show "ok (encode_symbol C a cfg d i) = Some (w ! i)"
    using encode_all_symbols_eq [of C cfg sz d a] encode_symbol_eq [of C cfg sz d a i] by auto
next
  fix d :: bytes and w syms
  assume "coder_ok C cfg sz" "length d = n_source_symbols a cfg * sz" "symbols_of_code (n_shards cfg) sz w syms"
    "map_option to_symbols (ok (encode_all_symbols C a cfg d)) = Some w" "n_source_symbols a cfg \<le> n_distinct sz syms"
  then show "ok (decode_from_decoding_symbols C (orthogonal a) cfg sz syms) = Some d"
    using encode_all_symbols_eq [of C cfg sz d a] decode_from_decoding_symbols_eq [of C cfg sz d "orthogonal a" syms] by auto
qed

subsection \<open>Properties\<close>

lemma four_coder_ok: "0 < sz \<Longrightarrow> even sz \<Longrightarrow> sz \<le> U16_MAX \<Longrightarrow> coder_ok four_codec example_config sz"
proof -
  assume sz: "0 < sz" "even sz" "sz \<le> U16_MAX"
  have "codec_contract four_codec (n_source_symbols a example_config) (n_shards example_config - n_source_symbols a example_config) sz" for a
    using four_contract [OF sz(1,2), of 2 2] four_contract [OF sz(1,2), of 3 1] by (cases a) (simp_all add: example_config_def)
  then show ?thesis using sz by (simp add: coder_ok_def example_config_ok)
qed

text \<open>The three ways to compute symbols agree: encoding all symbols gives \<open>n\<close> symbols that start with the source
  symbols, encoding only the repair symbols gives the rest of them, and computing a single symbol gives the one at its index.\<close>

lemma encoders_agree:
  assumes "coder_ok C cfg sz" "length d = n_source_symbols a cfg * sz"
  shows "\<exists>s r. encode_all_symbols C a cfg d = Ok s \<and> symbols_ok s \<and> symbol_size s = sz \<and> length (to_symbols s) = n_shards cfg
    \<and> take (n_source_symbols a cfg) (to_symbols s) = chunks sz d
    \<and> config_encode_all_repair_symbols C a cfg d = Ok r \<and> to_symbols r = drop (n_source_symbols a cfg) (to_symbols s)
    \<and> (\<forall>i<n_shards cfg. encode_symbol C a cfg d i = Ok (to_symbols s ! i))"
  using encode_all_symbols_eq [OF assms] config_encode_all_repair_symbols_eq [OF assms] axis_code_shape [OF assms]
    encode_symbol_eq [OF assms] by auto


text \<open>C35: Decoding inverts encoding from any sufficient set of symbols: from symbols of an encoding with at least as many different
  indices as there are source symbols, in any order, with repetitions, and mixed with symbols of other sizes, the data is
  decoded.\<close>

theorem decode_any_subset:
  assumes "coder_ok C cfg sz" "length d = n_source_symbols a cfg * sz" "encode_all_symbols C a cfg d = Ok s"
    and "\<forall>x\<in>set syms. length (ds_data x) = sz \<longrightarrow> ds_index x < n_shards cfg \<and> ds_data x = to_symbols s ! ds_index x"
    and "n_source_symbols a cfg \<le> card (ds_index ` {x \<in> set syms. length (ds_data x) = sz})"
  shows "decode_from_decoding_symbols C (orthogonal a) cfg sz syms = Ok d"
proof -
  have "{x \<in> set syms. length (ds_data x) = sz} = set (usable sz syms)" by (auto simp: usable_def)
  then have "ok (decode_from_decoding_symbols C (orthogonal a) cfg sz syms) = Some d"
    using assms(3-5) by (intro axis.dec_ok [OF assms(1,2), of "to_symbols s"]) (auto simp: symbols_of_code_def n_distinct_def usable_def)
  then show ?thesis by (cases "decode_from_decoding_symbols C (orthogonal a) cfg sz syms") auto
qed

lemma example_encoding: "encode_all_symbols four_codec Primary example_config [1, 2, 3, 4] = Ok \<lparr>sym_data = [1, 2, 3, 4, 2, 6, 5, 5], symbol_size = 2\<rparr>"
proof -
  obtain s where s: "encode_all_symbols four_codec Primary example_config [1, 2, 3, 4] = Ok s" "symbols_ok s" "symbol_size s = 2"
    "to_symbols s = axis_code four_codec Primary example_config 2 [1, 2, 3, 4]"
    using encode_all_symbols_eq [OF four_coder_ok [of 2], of "[1, 2, 3, 4]" Primary] by (auto simp: example_config_def)
  have "axis_code four_codec Primary example_config 2 [1, 2, 3, 4] = [[1, 2], [3, 4], [2, 6], [5, 5]]"
    by (simp add: axis_code_def codeword_def example_config_def four_codec_def four_encode_def chunks.simps bxor_def)
  then have "s = \<lparr>sym_data = [1, 2, 3, 4, 2, 6, 5, 5], symbol_size = 2\<rparr>"
    using s by (intro symbols_eqI) (simp_all add: to_symbols_def chunks.simps)
  with s(1) show ?thesis by simp
qed

theorem decode_any_subset_witness:
  "decode_from_decoding_symbols four_codec Secondary example_config 2
    [\<lparr>ds_index = 3, ds_data = [5, 5]\<rparr>, \<lparr>ds_index = 0, ds_data = [7]\<rparr>, \<lparr>ds_index = 2, ds_data = [2, 6]\<rparr>] = Ok [1, 2, 3, 4]"
proof -
  let ?syms = "[\<lparr>ds_index = 3, ds_data = [5, 5]\<rparr>, \<lparr>ds_index = 0, ds_data = [7]\<rparr>, \<lparr>ds_index = 2, ds_data = [2, 6]\<rparr>] :: decoding_symbol list"
  have "{x \<in> set ?syms. length (ds_data x) = 2} = {\<lparr>ds_index = 3, ds_data = [5, 5]\<rparr>, \<lparr>ds_index = 2, ds_data = [2, 6]\<rparr>}" by auto
  then show ?thesis
    using decode_any_subset [OF four_coder_ok [of 2] _ example_encoding, of ?syms]
    by (simp add: example_config_def to_symbols_def chunks.simps)
qed

text \<open>The buffer that the encoder reuses does not influence its results: encoding gives the same symbols as with a new encoder,
  and every use leaves the encoder usable.\<close>

lemma encoder_buffer_irrelevant:
  assumes "encoder_ok C e" "length d = enc_n_source_symbols e * enc_symbol_size e"
  shows "\<exists>s e'. encode_all_ref C e d = (Ok s, e') \<and> encoder_ok C e'
    \<and> fst (encode_all C e d) = Ok s \<and> fst (encode_all C (e\<lparr>encoded_symbols := None\<rparr>) d) = Ok s \<and> fst (encode_all C e' d) = Ok s"
proof -
  let ?e = "e\<lparr>encoded_symbols := None\<rparr>"
  have len: "length d = encoder_len e" using assms(2) by (simp add: encoder_len_def)
  obtain s where s: "encode_all C e d = (Ok s, ?e)" "symbols_ok s" "symbol_size s = enc_symbol_size e" "to_symbols s = encoder_code C e d"
    using encode_all_eq [OF assms(1) len] by blast
  have any: "fst (encode_all C (e\<lparr>encoded_symbols := b\<rparr>) d) = Ok s" if b: "encoder_ok C (e\<lparr>encoded_symbols := b\<rparr>)" for b
  proof -
    obtain t where "encode_all C (e\<lparr>encoded_symbols := b\<rparr>) d = (Ok t, ?e)" "symbols_ok t" "symbol_size t = enc_symbol_size e"
      "to_symbols t = encoder_code C e d"
      using encode_all_eq [OF b, of d] len by auto
    then show ?thesis using s symbols_eqI [of t s] by simp
  qed
  have ok: "encoder_ok C (e\<lparr>encoded_symbols := Some s\<rparr>)" using assms(1) s by (simp add: encoder_ok_def)
  show ?thesis using s ok any [OF ok] any [of None] assms(1) by (simp add: encode_all_ref_def)
qed

text \<open>With symbols of less different indices than there are source symbols, decoding reports an error of the coder; a decoder
  that has decoded successfully is ready for the next decoding.\<close>

lemma decoder_too_few_and_reuse:
  assumes "decoder_ok C dec" "decoder_fresh dec"
  shows "(\<forall>syms. (\<forall>x\<in>set (usable (dec_size dec) syms). ds_index x < dec_n_shards dec)
        \<and> n_distinct (dec_size dec) syms < dec_n_source_symbols dec \<longrightarrow> (\<exists>e. fst (decode C dec syms) = Err (DecoderError e)))
    \<and> (\<forall>d syms. length d = dec_n_source_symbols dec * dec_size dec
        \<and> symbols_of_code (dec_n_shards dec) (dec_size dec) (decoder_code C dec d) syms
        \<and> dec_n_source_symbols dec \<le> n_distinct (dec_size dec) syms \<longrightarrow>
        (\<exists>dec'. decode C dec syms = (Ok d, dec') \<and> decoder_ok C dec' \<and> decoder_fresh dec'))"
  using decode_too_few [OF assms] decode_codeword [OF assms] decoder_reset_ok [OF assms(1)] by blast


end
