(* ===== verification/Slivers.thy ===== *)
theory Slivers
  imports BasicEncoding
begin

text \<open>
  Slivers and sliver pairs, \<open>crates/walrus-core/src/encoding/slivers.rs\<close>, with the type of inconsistency proofs of
  \<open>inconsistency.rs\<close> that sliver recovery can return. The axis \<open>T\<close> of \<open>SliverData<T>\<close> is an argument of its
  operations. A sliver of one axis is expanded with the code of the other axis.
\<close>

subsection \<open>Slivers\<close>

record sliver_data =
  sd_symbols :: symbols
  sd_index :: sliver_index

definition sliver_new :: "bytes \<Rightarrow> nat \<Rightarrow> sliver_index \<Rightarrow> (sliver_data, 'e) result" where
  "sliver_new d sz i = and_then (symbols_new d sz) (\<lambda>s. Ok \<lparr>sd_symbols = s, sd_index = i\<rparr>)"

definition sliver_new_empty :: "nat \<Rightarrow> nat \<Rightarrow> sliver_index \<Rightarrow> sliver_data" where
  "sliver_new_empty len sz i = \<lparr>sd_symbols = symbols_zeros len sz, sd_index = i\<rparr>"

definition copy_symbol_to :: "sliver_data \<Rightarrow> nat \<Rightarrow> bytes \<Rightarrow> (sliver_data, 'e) result" where
  "copy_symbol_to self i symbol =
    and_then (rust_assert (length symbol = symbol_size (sd_symbols self))) (\<lambda>_.
    and_then (symbols_index_mut_copy (sd_symbols self) i symbol) (\<lambda>s. Ok (self\<lparr>sd_symbols := s\<rparr>)))"

definition sliver_len :: "sliver_data \<Rightarrow> nat" where
  "sliver_len self = length (sym_data (sd_symbols self))"

definition check_index :: "nat \<Rightarrow> nat \<Rightarrow> (unit, recovery_symbol_error) result" where
  "check_index i n = (if i \<ge> n then Err RecoveryIndexTooLarge else Ok ())"

definition recovery_symbols :: "'r rs_codec \<Rightarrow> axis \<Rightarrow> sliver_data \<Rightarrow> rs_config \<Rightarrow> (symbols, recovery_symbol_error) result" where
  "recovery_symbols C a self cfg =
    and_then (map_err RecoveryEncodeError (encode_all_symbols C (orthogonal a) cfg (sym_data (sd_symbols self)))) (\<lambda>s.
    and_then (rust_assert (\<not> symbols_is_empty s)) (\<lambda>_.
    and_then (symbols_index s 0) (\<lambda>s0.
    and_then (rust_assert (s0 \<noteq> [])) (\<lambda>_.
    Ok s))))"

definition get_merkle_root :: "hash_fun \<Rightarrow> 'r rs_codec \<Rightarrow> axis \<Rightarrow> sliver_data \<Rightarrow> rs_config \<Rightarrow> (node, recovery_symbol_error) result" where
  "get_merkle_root h C a self cfg = and_then (recovery_symbols C a self cfg) (\<lambda>s. Ok (root (build h (to_symbols s))))"

definition recovery_symbol_for_sliver ::
  "hash_fun \<Rightarrow> 'r rs_codec \<Rightarrow> axis \<Rightarrow> sliver_data \<Rightarrow> sliver_pair_index \<Rightarrow> rs_config \<Rightarrow> (recovery_symbol, recovery_symbol_error) result" where
  "recovery_symbol_for_sliver h C a self target_pair_index cfg =
    and_then (check_index target_pair_index (n_shards cfg)) (\<lambda>_.
    and_then (recovery_symbols C a self cfg) (\<lambda>syms.
    and_then (to_sliver_index (orthogonal a) target_pair_index (n_shards cfg)) (\<lambda>target.
    and_then (decoding_symbol_at syms target (sd_index self)) (\<lambda>d.
    and_then (expect d) (\<lambda>d.
    and_then (expect (ok (get_proof (build h (to_symbols syms)) target))) (\<lambda>p.
    Ok (with_proof d p)))))))"

definition decoding_symbol_for_sliver ::
  "'r rs_codec \<Rightarrow> axis \<Rightarrow> sliver_data \<Rightarrow> sliver_pair_index \<Rightarrow> rs_config \<Rightarrow> (decoding_symbol, recovery_symbol_error) result" where
  "decoding_symbol_for_sliver C a self target_pair_index cfg =
    and_then (check_index target_pair_index (n_shards cfg)) (\<lambda>_.
    and_then (to_sliver_index (orthogonal a) target_pair_index (n_shards cfg)) (\<lambda>target.
    and_then (map_err RecoveryEncodeError (encode_symbol C (orthogonal a) cfg (sym_data (sd_symbols self)) target)) (\<lambda>d.
    Ok (decoding_symbol_new (sd_index self) d))))"

subsection \<open>Verification against metadata\<close>

definition expected_length :: "axis \<Rightarrow> rs_config \<Rightarrow> nat \<Rightarrow> (nat option, 'e) result" where
  "expected_length a cfg blob_size =
    (case sliver_size_for_blob a cfg blob_size of Ok l \<Rightarrow> Ok (Some l) | Err _ \<Rightarrow> Ok None | Panic \<Rightarrow> Panic)"

definition has_correct_length :: "axis \<Rightarrow> sliver_data \<Rightarrow> rs_config \<Rightarrow> nat \<Rightarrow> (bool, 'e) result" where
  "has_correct_length a self cfg blob_size =
    and_then (expected_length a cfg blob_size) (\<lambda>l. Ok (case l of Some l \<Rightarrow> sliver_len self = l | None \<Rightarrow> False))"

definition check_hash ::
  "hash_fun \<Rightarrow> 'r rs_codec \<Rightarrow> axis \<Rightarrow> sliver_data \<Rightarrow> rs_config \<Rightarrow> blob_metadata \<Rightarrow> (unit, sliver_verification_error) result" where
  "check_hash h C a self cfg md =
    and_then (to_pair_index a (sd_index self) (n_shards cfg)) (\<lambda>pair.
    and_then (expect (if pair < length (hashes md) then Some (hashes md ! pair) else None)) (\<lambda>pair_metadata.
    and_then (expect (ok (get_merkle_root h C a self cfg))) (\<lambda>rt.
    ensure (rt = pair_metadata_hash a pair_metadata) MerkleRootMismatch)))"

definition sliver_verify ::
  "hash_fun \<Rightarrow> 'r rs_codec \<Rightarrow> axis \<Rightarrow> sliver_data \<Rightarrow> encoding_config \<Rightarrow> blob_metadata \<Rightarrow> (unit, sliver_verification_error) result" where
  "sliver_verify h C a self ecfg md =
    (let cfg = get_for_type ecfg (encoding_type md) in
     and_then (ensure (sd_index self < length (hashes md)) SliverIndexTooLarge) (\<lambda>_.
     and_then (has_correct_length a self cfg (unencoded_length md)) (\<lambda>b.
     and_then (ensure b SliverSizeMismatch) (\<lambda>_.
     and_then (case metadata_symbol_size md ecfg of Ok s \<Rightarrow> ensure (symbol_size (sd_symbols self) = s) SliverSymbolSizeMismatch
       | Err _ \<Rightarrow> Err SliverSymbolSizeMismatch | Panic \<Rightarrow> Panic) (\<lambda>_.
     check_hash h C a self cfg md)))))"

subsection \<open>Recovery\<close>

definition recover_sliver_from_decoding_symbols ::
  "'r rs_codec \<Rightarrow> axis \<Rightarrow> decoding_symbol list \<Rightarrow> sliver_index \<Rightarrow> nat \<Rightarrow> rs_config \<Rightarrow> (sliver_data, 'r decode_error) result" where
  "recover_sliver_from_decoding_symbols C a syms target_index sz cfg =
    (case n_symbols_for_recovery a cfg of Exact n_symbols_required \<Rightarrow>
      if length syms < n_symbols_required then Err DecodingUnsuccessful
      else and_then (decode_from_decoding_symbols C a cfg sz syms) (\<lambda>d. sliver_new d sz target_index))"

definition recover_sliver_without_verification ::
  "'r rs_codec \<Rightarrow> axis \<Rightarrow> recovery_symbol list \<Rightarrow> sliver_index \<Rightarrow> nat \<Rightarrow> rs_config \<Rightarrow> (sliver_data, 'r decode_error) result" where
  "recover_sliver_without_verification C a syms target_index sz cfg =
    recover_sliver_from_decoding_symbols C a (map into_decoding_symbol syms) target_index sz cfg"

definition try_recover_sliver_from_decoding_symbols ::
  "hash_fun \<Rightarrow> 'r rs_codec \<Rightarrow> axis \<Rightarrow> decoding_symbol list \<Rightarrow> sliver_index \<Rightarrow> blob_metadata \<Rightarrow> encoding_config
    \<Rightarrow> (sliver_data, sliver_recovery_or_verification_error) result" where
  "try_recover_sliver_from_decoding_symbols h C a syms target_index md ecfg =
    and_then (map_err sliver_recovery_or_verification_error_from (metadata_symbol_size md ecfg)) (\<lambda>sz.
    and_then (map_err (\<lambda>_. RecoveryError DecodingFailure)
      (recover_sliver_from_decoding_symbols C a syms target_index sz (get_for_type ecfg (encoding_type md)))) (\<lambda>sliver.
    and_then (map_err VerificationError (sliver_verify h C a sliver ecfg md)) (\<lambda>_.
    Ok sliver)))"

record inconsistency_proof =
  target_sliver_index :: sliver_index
  ip_recovery_symbols :: "recovery_symbol list"

definition inconsistency_proof_new :: "sliver_index \<Rightarrow> recovery_symbol list \<Rightarrow> inconsistency_proof" where
  "inconsistency_proof_new t syms = \<lparr>target_sliver_index = t, ip_recovery_symbols = syms\<rparr>"

datatype sliver_or_inconsistency_proof = RecoveredSliver sliver_data | GeneratedProof inconsistency_proof

definition recover_sliver_or_generate_inconsistency_proof ::
  "hash_fun \<Rightarrow> 'r rs_codec \<Rightarrow> axis \<Rightarrow> recovery_symbol list \<Rightarrow> sliver_index \<Rightarrow> blob_metadata \<Rightarrow> encoding_config
    \<Rightarrow> (sliver_or_inconsistency_proof, sliver_recovery_or_verification_error) result" where
  "recover_sliver_or_generate_inconsistency_proof h C a verified_recovery_symbols target_index md ecfg =
    and_then (map_err sliver_recovery_or_verification_error_from (metadata_symbol_size md ecfg)) (\<lambda>sz.
    let cfg = get_for_type ecfg (encoding_type md) in
    (case n_symbols_for_recovery a cfg of Exact n_symbols_required \<Rightarrow>
      let syms = take n_symbols_required verified_recovery_symbols in
      and_then (map_err (\<lambda>_. RecoveryError DecodingFailure)
        (recover_sliver_without_verification C a syms target_index sz cfg)) (\<lambda>sliver.
      (case sliver_verify h C a sliver ecfg md of
         Ok _ \<Rightarrow> Ok (RecoveredSliver sliver)
       | Err MerkleRootMismatch \<Rightarrow> Ok (GeneratedProof (inconsistency_proof_new target_index syms))
       | Err e \<Rightarrow> Err (VerificationError e)
       | Panic \<Rightarrow> Panic))))"

subsection \<open>Sliver pairs\<close>

record sliver_pair =
  primary :: sliver_data
  secondary :: sliver_data

definition pair_index :: "sliver_pair \<Rightarrow> sliver_pair_index" where
  "pair_index p = sd_index (primary p)"

fun pair_sliver :: "axis \<Rightarrow> sliver_pair \<Rightarrow> sliver_data" where
  "pair_sliver Primary p = primary p"
| "pair_sliver Secondary p = secondary p"

definition sliver_pair_new_empty :: "rs_config \<Rightarrow> nat \<Rightarrow> sliver_pair_index \<Rightarrow> (sliver_pair, 'e) result" where
  "sliver_pair_new_empty cfg sz i =
    and_then (to_sliver_index Secondary i (n_shards cfg)) (\<lambda>j.
    Ok \<lparr>primary = sliver_new_empty (source_symbols_secondary cfg) sz i,
        secondary = sliver_new_empty (source_symbols_primary cfg) sz j\<rparr>)"

subsection \<open>The enum of both sliver types\<close>

type_synonym sliver = "(sliver_data, sliver_data) by_axis"

subsection \<open>Expanded slivers\<close>

definition sliver_shape :: "axis \<Rightarrow> rs_config \<Rightarrow> nat \<Rightarrow> sliver_data \<Rightarrow> bool" where
  "sliver_shape a cfg sz s \<longleftrightarrow> symbol_size (sd_symbols s) = sz \<and> sliver_len s = n_source_symbols (orthogonal a) cfg * sz"

definition expanded :: "'r rs_codec \<Rightarrow> axis \<Rightarrow> rs_config \<Rightarrow> sliver_data \<Rightarrow> bytes list" where
  "expanded C a cfg s = axis_code C (orthogonal a) cfg (symbol_size (sd_symbols s)) (sym_data (sd_symbols s))"

lemma sliver_shape_ok: "sliver_shape a cfg sz s \<Longrightarrow> 0 < sz \<Longrightarrow> symbols_ok (sd_symbols s)"
  by (auto simp: sliver_shape_def sliver_len_def symbols_ok_def)

lemma expanded_shape:
  assumes "coder_ok C cfg sz" "sliver_shape a cfg sz s"
  shows "length (expanded C a cfg s) = n_shards cfg" "i < n_shards cfg \<Longrightarrow> length (expanded C a cfg s ! i) = sz"
    "take (n_source_symbols (orthogonal a) cfg) (expanded C a cfg s) = to_symbols (sd_symbols s)"
  using axis_code_shape(1,3,4) [OF assms(1), of "sym_data (sd_symbols s)" "orthogonal a"] assms(2)
  by (auto simp: expanded_def sliver_shape_def sliver_len_def to_symbols_def)

lemma recovery_symbols_eq:
  assumes "coder_ok C cfg sz" "sliver_shape a cfg sz s"
  shows "\<exists>r. recovery_symbols C a s cfg = Ok r \<and> symbols_ok r \<and> symbol_size r = sz \<and> to_symbols r = expanded C a cfg s"
proof -
  obtain r where r: "encode_all_symbols C (orthogonal a) cfg (sym_data (sd_symbols s)) = Ok r" "symbols_ok r" "symbol_size r = sz"
    "to_symbols r = expanded C a cfg s"
    using encode_all_symbols_eq [OF assms(1), of "sym_data (sd_symbols s)" "orthogonal a"] assms(2)
    by (auto simp: sliver_shape_def sliver_len_def expanded_def)
  have n: "0 < n_shards cfg" using rs_config_okD(4) [OF coder_okD(1) [OF assms(1)]] .
  then have len: "length (to_symbols r) = n_shards cfg" "length (to_symbols r ! 0) = sz"
    using expanded_shape [OF assms] r(4) by auto
  then have "\<not> symbols_is_empty r" using n by (auto simp: symbols_is_empty_def to_symbols_def)
  moreover have "symbols_index r 0 = (Ok (to_symbols r ! 0) :: (bytes, recovery_symbol_error) result)"
    using len(1) n by (simp add: symbols_index_eq [OF r(2)] symbols_len_eq [OF r(2)])
  moreover have "to_symbols r ! 0 \<noteq> []" using len(2) coder_okD(2) [OF assms(1)] by auto
  ultimately show ?thesis using r by (simp add: recovery_symbols_def)
qed

lemma get_merkle_root_eq:
  assumes "coder_ok C cfg sz" "sliver_shape a cfg sz s"
  shows "get_merkle_root h C a s cfg = Ok (root (build h (expanded C a cfg s)))"
  using recovery_symbols_eq [OF assms] by (auto simp: get_merkle_root_def)

lemma recovery_symbol_for_sliver_eq:
  assumes "coder_ok C cfg sz" "sliver_shape a cfg sz s" "target < n_shards cfg"
  shows "\<exists>p. get_proof (build h (expanded C a cfg s)) (to_sliver (orthogonal a) target (n_shards cfg)) = Ok p
    \<and> recovery_symbol_for_sliver h C a s target cfg
      = Ok (with_proof \<lparr>ds_index = sd_index s, ds_data = expanded C a cfg s ! to_sliver (orthogonal a) target (n_shards cfg)\<rparr> p)"
proof -
  let ?t = "to_sliver (orthogonal a) target (n_shards cfg)"
  obtain r where r: "recovery_symbols C a s cfg = Ok r" "symbols_ok r" "to_symbols r = expanded C a cfg s"
    using recovery_symbols_eq [OF assms(1,2)] by blast
  have t: "?t < length (expanded C a cfg s)" using expanded_shape(1) [OF assms(1,2)] assms(3) by simp
  let ?p = "\<lparr>path = tree_path h (map (leaf_hash h) (expanded C a cfg s)) ?t\<rparr>"
  have p: "get_proof (build h (expanded C a cfg s)) ?t = Ok ?p" using t by (simp add: get_proof_build)
  then show ?thesis
    using r t assms(3) by (simp add: recovery_symbol_for_sliver_def check_index_def decoding_symbol_at_eq)
qed

lemma recovery_symbol_for_sliver_out_of_range:
  "n_shards cfg \<le> target \<Longrightarrow> recovery_symbol_for_sliver h C a s target cfg = Err RecoveryIndexTooLarge
    \<and> decoding_symbol_for_sliver C a s target cfg = Err RecoveryIndexTooLarge"
  by (simp add: recovery_symbol_for_sliver_def decoding_symbol_for_sliver_def check_index_def)

lemma decoding_symbol_for_sliver_eq:
  assumes "coder_ok C cfg sz" "sliver_shape a cfg sz s" "target < n_shards cfg"
  shows "decoding_symbol_for_sliver C a s target cfg
    = Ok \<lparr>ds_index = sd_index s, ds_data = expanded C a cfg s ! to_sliver (orthogonal a) target (n_shards cfg)\<rparr>"
  using assms encode_symbol_eq [OF assms(1), of "sym_data (sd_symbols s)" "orthogonal a"]
  by (simp add: decoding_symbol_for_sliver_def check_index_def sliver_shape_def sliver_len_def expanded_def decoding_symbol_new_def)

subsection \<open>Verification\<close>

text \<open>Metadata that fits a configuration, and a coder that works for the symbol size of the blob.\<close>

definition md_fits :: "'r rs_codec \<Rightarrow> encoding_config \<Rightarrow> blob_metadata \<Rightarrow> nat \<Rightarrow> bool" where
  "md_fits C ecfg md sz \<longleftrightarrow> encoding_config_ok ecfg \<and> length (hashes md) = ec_n_shards ecfg
    \<and> metadata_symbol_size md ecfg = Ok sz \<and> coder_ok C (reed_solomon ecfg) sz"

lemma sliver_verify_eq:
  assumes "md_fits C ecfg md sz"
  shows "sliver_verify h C a s ecfg md =
    (if ec_n_shards ecfg \<le> sd_index s then Err SliverIndexTooLarge
     else if sliver_len s \<noteq> n_source_symbols (orthogonal a) (reed_solomon ecfg) * sz then Err SliverSizeMismatch
     else if symbol_size (sd_symbols s) \<noteq> sz then Err SliverSymbolSizeMismatch
     else if get_sliver_hash md (to_sliver a (sd_index s) (ec_n_shards ecfg)) a
       \<noteq> Some (root (build h (expanded C a (reed_solomon ecfg) s))) then Err MerkleRootMismatch
     else Ok ())"
proof (cases "ec_n_shards ecfg \<le> sd_index s")
  case True
  then show ?thesis using assms by (simp add: sliver_verify_def md_fits_def Let_def ensure_def)
next
  case False
  let ?cfg = "reed_solomon ecfg" and ?n = "ec_n_shards ecfg"
  have ok: "coder_ok C ?cfg sz" "rs_config_ok ?cfg" "n_shards ?cfg = ?n" "length (hashes md) = ?n"
    using assms encoding_config_okD(1,2) [of ecfg] by (auto simp: md_fits_def)
  have sz: "symbol_size_for_blob ?cfg (unencoded_length md) = Ok sz" "metadata_symbol_size md ecfg = Ok sz"
    using assms by (auto simp: md_fits_def metadata_symbol_size_def)
  have len: "has_correct_length a s ?cfg (unencoded_length md)
      = (Ok (sliver_len s = n_source_symbols (orthogonal a) ?cfg * sz) :: (bool, sliver_verification_error) result)"
    using sliver_size_for_blob_Ok [OF sz(1) ok(2)] by (simp add: has_correct_length_def expected_length_def)
  have hash: "check_hash h C a s ?cfg md = (if root (build h (expanded C a ?cfg s)) = pair_metadata_hash a (hashes md ! to_sliver a (sd_index s) ?n)
      then Ok () else Err MerkleRootMismatch)" if "sliver_shape a ?cfg sz s"
    using get_merkle_root_eq [OF ok(1) that] False ok(3,4) by (simp add: check_hash_def ensure_def)
  show ?thesis
    using False ok sz len hash
    by (auto simp: sliver_verify_def Let_def ensure_def get_sliver_hash_def sliver_shape_def)
qed

lemma sliver_verify_Ok_iff:
  assumes "md_fits C ecfg md sz"
  shows "sliver_verify h C a s ecfg md = Ok () \<longleftrightarrow> sd_index s < ec_n_shards ecfg \<and> sliver_shape a (reed_solomon ecfg) sz s
    \<and> get_sliver_hash md (to_sliver a (sd_index s) (ec_n_shards ecfg)) a = Some (root (build h (expanded C a (reed_solomon ecfg) s)))"
  by (auto simp: sliver_verify_eq [OF assms] sliver_shape_def)

lemma md_fitsD:
  assumes "md_fits C ecfg md sz"
  shows "coder_ok C (reed_solomon ecfg) sz" "n_shards (reed_solomon ecfg) = ec_n_shards ecfg" "ec_n_shards ecfg \<le> U16_MAX" "0 < sz"
  using assms encoding_config_okD [of ecfg] coder_okD(2) [of C "reed_solomon ecfg" sz] by (auto simp: md_fits_def)

text \<open>Slivers of the same shape with the same expansion are the same.\<close>

lemma expanded_inj:
  assumes "coder_ok C cfg sz" "sliver_shape a cfg sz s" "sliver_shape a cfg sz t" "expanded C a cfg s = expanded C a cfg t"
  shows "sd_symbols s = sd_symbols t"
  using assms expanded_shape(3) [OF assms(1,2)] expanded_shape(3) [OF assms(1,3)] coder_okD(2) [OF assms(1)]
  by (intro symbols_eqI) (auto simp: sliver_shape_ok sliver_shape_def)

lemma sliver_binding_lemma:
  assumes "digest32 h" "md_fits C ecfg md sz" "sliver_verify h C a s ecfg md = Ok ()" "sliver_verify h C a t ecfg md = Ok ()"
    and "sd_index s = sd_index t"
  shows "s = t \<or> hash_broken h (set (build_inputs h (expanded C a (reed_solomon ecfg) t))) (set (build_inputs h (expanded C a (reed_solomon ecfg) s)))"
proof (cases "expanded C a (reed_solomon ecfg) s = expanded C a (reed_solomon ecfg) t")
  case True
  have "sd_symbols s = sd_symbols t"
    by (rule expanded_inj [OF md_fitsD(1) [OF assms(2)] _ _ True]) (use assms in \<open>simp_all add: sliver_verify_Ok_iff [OF assms(2)]\<close>)
  then show ?thesis using assms(5) by (cases s; cases t) simp
next
  case False
  let ?x = "expanded C a (reed_solomon ecfg) s" and ?y = "expanded C a (reed_solomon ecfg) t"
  note ok = md_fitsD [OF assms(2)]
  have shapes: "sliver_shape a (reed_solomon ecfg) sz s" "sliver_shape a (reed_solomon ecfg) sz t"
    and roots: "root (build h ?x) = root (build h ?y)"
    using assms(3-5) by (auto simp: sliver_verify_Ok_iff [OF assms(2)])
  have len: "length ?x = length ?y" "length ?y \<le> 2 ^ 63"
    using expanded_shape(1) [OF ok(1) shapes(1)] expanded_shape(1) [OF ok(1) shapes(2)] ok(2,3) by auto
  obtain i p where i: "i < length ?y" "ok (get_proof (build h ?y) i) = Some p"
    and br: "hash_broken h (set (proof_inputs h p (?y ! i) i)) (set (build_inputs h ?x))"
    using merkle.commit_collision [OF assms(1) roots len(1) False len(2)] by blast
  have "hash_broken h (set (build_inputs h ?y)) (set (build_inputs h ?x))"
    by (rule hash_broken_mono [OF br proof_inputs_honest [OF i] subset_refl])
  then show ?thesis ..
qed

subsection \<open>Recovery from symbols\<close>

text \<open>Any \<open>k\<close> symbols with different indices are symbols of some codeword: encoding, read at these \<open>k\<close> positions, is an
  injective function of the data (the symbols decode to it) between finite sets of the same size.\<close>

lemma concat_same_sizes:
  assumes "concat xs = concat ys" "length xs = length ys" "\<forall>x\<in>set xs \<union> set ys. length x = sz"
  shows "xs = ys"
proof (rule concat_injective [OF assms(1,2)], clarify)
  fix x y assume "(x, y) \<in> set (zip xs ys)"
  then show "length x = length y" using assms(3) set_zip_leftD [of x y xs ys] set_zip_rightD [of x y xs ys] by simp
qed

lemma codeword_interpolation:
  assumes ok: "coder_ok C cfg sz" and len: "length syms = n_source_symbols a cfg" and dist: "distinct (map ds_index syms)"
    and syms: "\<forall>s\<in>set syms. ds_index s < n_shards cfg \<and> length (ds_data s) = sz"
  shows "\<exists>d. length d = n_source_symbols a cfg * sz \<and> symbols_of_code (n_shards cfg) sz (axis_code C a cfg sz d) syms"
proof -
  let ?k = "n_source_symbols a cfg" and ?w = "axis_code C a cfg sz" and ?is = "map ds_index syms"
  let ?A = "{d :: bytes. length d = ?k * sz}" and ?f = "\<lambda>d. concat (map (\<lambda>i. ?w d ! i) ?is)"
  have lens: "length (?w d ! i) = sz" if "d \<in> ?A" "i \<in> set ?is" for d i
    using axis_code_shape(4) [OF ok, of d a i] that syms by auto
  have flat: "length (concat (map (\<lambda>x. g x) syms)) = length syms * sz" if "\<forall>x\<in>set syms. length (g x) = sz" for g
    using that by (simp add: length_concat comp_def sum_list_triv cong: map_cong)
  have "length (?f d) = ?k * sz" if "d \<in> ?A" for d
    using flat [of "\<lambda>x. ?w d ! ds_index x"] lens [OF that] len by (simp add: comp_def)
  then have "?f ` ?A \<subseteq> ?A" by auto
  moreover have "inj_on ?f ?A"
  proof (rule inj_onI)
    fix d e assume d: "d \<in> ?A" and e: "e \<in> ?A" and eq: "?f d = ?f e"
    let ?s = "map (\<lambda>i. \<lparr>ds_index = i, ds_data = ?w d ! i\<rparr>) ?is"
    have "map (\<lambda>i. ?w d ! i) ?is = map (\<lambda>i. ?w e ! i) ?is"
      using lens [OF d] lens [OF e] by (intro concat_same_sizes [OF eq, of sz]) auto
    then have we: "\<forall>i\<in>set ?is. ?w d ! i = ?w e ! i" by simp
    have us: "usable sz ?s = ?s" using lens [OF d] by (auto simp: usable_def filter_id_conv)
    have "ds_index ` set ?s = set ?is" by (auto simp: image_image)
    then have "n_distinct sz ?s = ?k" unfolding n_distinct_def us using distinct_card [OF dist] len by simp
    moreover have "symbols_of_code (n_shards cfg) sz (?w x) ?s" if "\<forall>i\<in>set ?is. ?w d ! i = ?w x ! i" for x
      unfolding symbols_of_code_def us using that syms by simp
    ultimately have "decode_from_decoding_symbols C (orthogonal a) cfg sz ?s = Ok x" if "x \<in> ?A" "\<forall>i\<in>set ?is. ?w d ! i = ?w x ! i" for x
      using that by (intro decode_from_decoding_symbols_eq [OF ok]) simp_all
    from this [OF d] this [OF e we] show "d = e" by simp
  qed
  ultimately have "?f ` ?A = ?A"
    using finite_lists_length_eq [of "UNIV :: byte set" "?k * sz"] by (intro endo_inj_surj) auto
  moreover have "concat (map ds_data syms) \<in> ?A" using flat [of ds_data] syms len by simp
  ultimately obtain d where d: "d \<in> ?A" "?f d = concat (map ds_data syms)" by (metis (no_types, lifting) imageE)
  then have "map (\<lambda>i. ?w d ! i) ?is = map ds_data syms"
    using lens [OF d(1)] syms by (intro concat_same_sizes [OF d(2), of sz]) auto
  then show ?thesis using d(1) syms by (auto simp: symbols_of_code_def usable_def)
qed

lemma n_distinct_le: "n_distinct sz syms \<le> length syms"
proof -
  have "card (ds_index ` set (usable sz syms)) \<le> card (set (usable sz syms))" by (rule card_image_le) simp
  also have "\<dots> \<le> length (usable sz syms)" by (rule card_length)
  also have "\<dots> \<le> length syms" by (simp add: usable_def)
  finally show ?thesis by (simp add: n_distinct_def)
qed

lemma recover_sliver_eq:
  assumes "coder_ok C cfg sz" "sliver_shape a cfg sz s" "symbols_of_code (n_shards cfg) sz (expanded C a cfg s) syms"
    and "n_source_symbols (orthogonal a) cfg \<le> n_distinct sz syms"
  shows "recover_sliver_from_decoding_symbols C a syms (sd_index s) sz cfg = Ok s"
proof -
  have sz: "symbol_size (sd_symbols s) = sz" "0 < sz" using assms(1,2) coder_okD(2) by (auto simp: sliver_shape_def)
  have "decode_from_decoding_symbols C a cfg sz syms = Ok (sym_data (sd_symbols s))"
    using assms sz by (intro decode_from_decoding_symbols_eq) (auto simp: sliver_shape_def sliver_len_def expanded_def)
  then show ?thesis
    using assms(2,4) n_distinct_le [of sz syms] sz sliver_shape_ok [OF assms(2)]
    by (simp add: recover_sliver_from_decoding_symbols_def n_symbols_for_recovery_def n_slivers_for_reconstruction_def
        sliver_new_def symbols_new_def symbols_ok_def)
qed

lemma recover_sliver_too_few:
  assumes "coder_ok C cfg sz" "\<forall>s\<in>set (usable sz syms). ds_index s < n_shards cfg"
    and "n_distinct sz syms < n_source_symbols (orthogonal a) cfg"
  shows "\<exists>e. recover_sliver_from_decoding_symbols C a syms t sz cfg = Err e"
proof -
  obtain d where d: "get_decoder C (orthogonal a) cfg sz = (Ok d :: (rs_decoder, 'a decode_error) result)" "decoder_ok C d" "decoder_fresh d"
      "dec_n_source_symbols d = n_source_symbols (orthogonal a) cfg" "dec_n_shards d = n_shards cfg" "dec_size d = sz"
    using get_decoder_Ok [OF assms(1), of "orthogonal a"] by auto
  obtain e where "fst (decode C d syms) = Err (DecoderError e)"
    using decode_too_few [OF d(2,3), of syms] assms(2,3) unfolding d(4-6) by blast
  then show ?thesis
    by (simp add: recover_sliver_from_decoding_symbols_def n_symbols_for_recovery_def n_slivers_for_reconstruction_def
        decode_from_decoding_symbols_def d(1))
qed

subsection \<open>Properties\<close>

text \<open>A sliver of zeros of the example blob, and metadata that commits to it.\<close>

definition zero_sliver :: sliver_data where
  "zero_sliver = sliver_new_empty 3 4 0"

definition zero_metadata :: blob_metadata where
  "zero_metadata = \<lparr>encoding_type = RS2, unencoded_length = 13, hashes = replicate 4
    \<lparr>primary_hash = root (build fold_hash (expanded four_codec Primary example_config zero_sliver)), secondary_hash = Empty\<rparr>\<rparr>"

lemma zero_metadata_fits: "md_fits four_codec example_encoding_config zero_metadata 4"
  using example_encoding_config_ok four_coder_ok [of 4] example_symbol_size
  by (simp add: md_fits_def zero_metadata_def example_encoding_config_def metadata_symbol_size_def)

lemma zero_sliver_verified: "sliver_verify fold_hash four_codec Primary zero_sliver example_encoding_config zero_metadata = Ok ()"
  unfolding sliver_verify_Ok_iff [OF zero_metadata_fits]
  by (simp add: zero_sliver_def sliver_new_empty_def sliver_shape_def sliver_len_def
      symbols_zeros_def example_encoding_config_def example_config_def get_sliver_hash_def zero_metadata_def)

text \<open>Against metadata that fits the configuration, verifying a sliver ends in exactly one of five ways and never panics,
  whatever the sliver contains: the index is checked first, then the length, the symbol size, and the Merkle root of
  all symbols of the expanded sliver.\<close>

lemma sliver_verify_outcome:
  assumes "md_fits C ecfg md sz"
  shows "sliver_verify h C a s ecfg md =
    (if ec_n_shards ecfg \<le> sd_index s then Err SliverIndexTooLarge
     else if sliver_len s \<noteq> n_source_symbols (orthogonal a) (reed_solomon ecfg) * sz then Err SliverSizeMismatch
     else if symbol_size (sd_symbols s) \<noteq> sz then Err SliverSymbolSizeMismatch
     else if get_sliver_hash md (to_sliver a (sd_index s) (ec_n_shards ecfg)) a
       \<noteq> Some (root (build h (axis_code C (orthogonal a) (reed_solomon ecfg) sz (sym_data (sd_symbols s))))) then Err MerkleRootMismatch
     else Ok ())"
  unfolding sliver_verify_eq [OF assms] expanded_def by simp

text \<open>C38: Metadata determines slivers: two slivers with the same index that are verified against the same metadata are the
  same, or the hash function is broken on the inputs hashed for these two slivers.\<close>

theorem sliver_binding:
  assumes "digest32 h" "md_fits C ecfg md sz" "sd_index s = sd_index t"
    and "sliver_verify h C a s ecfg md = Ok ()" "sliver_verify h C a t ecfg md = Ok ()"
  shows "s = t \<or> hash_broken h (set (build_inputs h (axis_code C (orthogonal a) (reed_solomon ecfg) sz (sym_data (sd_symbols t)))))
    (set (build_inputs h (axis_code C (orthogonal a) (reed_solomon ecfg) sz (sym_data (sd_symbols s)))))"
  using sliver_binding_lemma [OF assms(1,2,4,5,3)] assms(4,5)
  by (auto simp: sliver_verify_Ok_iff [OF assms(2)] sliver_shape_def expanded_def)

theorem sliver_binding_witness:
  "digest32 fold_hash \<and> sliver_verify fold_hash four_codec Primary zero_sliver example_encoding_config zero_metadata = Ok ()
    \<and> (zero_sliver = zero_sliver \<or> hash_broken fold_hash
      (set (build_inputs fold_hash (axis_code four_codec Secondary (reed_solomon example_encoding_config) 4 (sym_data (sd_symbols zero_sliver)))))
      (set (build_inputs fold_hash (axis_code four_codec Secondary (reed_solomon example_encoding_config) 4 (sym_data (sd_symbols zero_sliver))))))"
  using sliver_binding [OF digest32_fold_hash zero_metadata_fits refl zero_sliver_verified zero_sliver_verified]
    digest32_fold_hash zero_sliver_verified by simp

text \<open>A node that holds a verified sliver can serve every other sliver: the recovery symbol it computes for a target is
  accepted by the check against the metadata, and agrees with the symbol computed without a proof.\<close>

lemma recovery_symbols_accepted:
  assumes "md_fits C ecfg md sz" "sliver_verify h C a s ecfg md = Ok ()" "target < ec_n_shards ecfg"
  shows "\<exists>r. recovery_symbol_for_sliver h C a s target (reed_solomon ecfg) = Ok r
    \<and> decoding_symbol_for_sliver C a s target (reed_solomon ecfg) = Ok (into_decoding_symbol r)
    \<and> recovery_symbol_verify h (orthogonal a) r (ec_n_shards ecfg) sz md (to_sliver (orthogonal a) target (ec_n_shards ecfg)) = Ok ()"
proof -
  let ?cfg = "reed_solomon ecfg" and ?n = "ec_n_shards ecfg"
  note ok = md_fitsD [OF assms(1)]
  have s: "sd_index s < ?n" "sliver_shape a ?cfg sz s" "get_sliver_hash md (to_sliver a (sd_index s) ?n) a = Some (root (build h (expanded C a ?cfg s)))"
    using assms(2) by (auto simp: sliver_verify_Ok_iff [OF assms(1)])
  have len: "length (expanded C a ?cfg s) = ?n" using expanded_shape(1) [OF ok(1) s(2)] ok(2) by simp
  obtain p where p: "get_proof (build h (expanded C a ?cfg s)) (to_sliver (orthogonal a) target ?n) = Ok p"
    "recovery_symbol_for_sliver h C a s target ?cfg
      = Ok (with_proof \<lparr>ds_index = sd_index s, ds_data = expanded C a ?cfg s ! to_sliver (orthogonal a) target ?n\<rparr> p)"
    using recovery_symbol_for_sliver_eq [OF ok(1) s(2), of target h] assms(3) ok(2) by auto
  have t: "to_sliver (orthogonal a) target ?n < ?n" using assms(3) by simp
  have "recovery_symbol_verify h (orthogonal a) (with_proof \<lparr>ds_index = sd_index s, ds_data = expanded C a ?cfg s ! to_sliver (orthogonal a) target ?n\<rparr> p)
      ?n sz md (to_sliver (orthogonal a) target ?n) = Ok ()"
    using recovery_symbol_complete [of "expanded C a ?cfg s" "sd_index s" "to_sliver (orthogonal a) target ?n" sz h p md "orthogonal a"]
      expanded_shape(2) [OF ok(1) s(2)] s p(1) t ok(2,3) unfolding len by simp
  then show ?thesis
    using p(2) decoding_symbol_for_sliver_eq [OF ok(1) s(2)] assms(3) ok(2) by (simp add: into_decoding_symbol_def with_proof_def)
qed

end
