(* ===== verification/ShardMapping.thy ===== *)
theory ShardMapping
  imports Slivers "HOL-Library.Multiset"
begin

text \<open>
  The assignment of sliver pairs to shards, \<open>crates/walrus-core/src/encoding/mapping.rs\<close>. The blob ID, read as a big-endian
  number, is the offset by which the pairs of a blob are rotated over the shards. The remainder is computed on
  \<open>usize\<close> with a modulus of at most 16 bits, so the intermediate \<open>acc * 256 + byte\<close> cannot overflow.

  A slice that is modified in place is an argument and the result. The lemmas show that the two index
  conversions are inverse bijections, and that rotating the pairs of a blob puts every pair on its shard.
\<close>

subsection \<open>Operations\<close>

datatype sliver_assignment_error = InconsistentRotation | InvalidInputOrder

definition bytes_mod :: "bytes \<Rightarrow> nat \<Rightarrow> nat" where
  "bytes_mod bs modulus = foldl (\<lambda>acc b. (acc * 256 + unat b) mod modulus) 0 bs"

definition rotation_offset :: "nat \<Rightarrow> blob_id \<Rightarrow> nat" where
  "rotation_offset n bid = bytes_mod bid n"

text \<open>\<open>slice::rotate_right\<close>: the last \<open>k\<close> elements move to the front.\<close>

definition rotate_right :: "nat \<Rightarrow> 'a list \<Rightarrow> 'a list" where
  "rotate_right k xs = drop (length xs - k) xs @ take (length xs - k) xs"

definition rotate_by_bytes :: "'a list \<Rightarrow> bytes \<Rightarrow> 'a list" where
  "rotate_by_bytes xs rotation = rotate_right (bytes_mod rotation (length xs)) xs"

definition to_shard_index :: "sliver_pair_index \<Rightarrow> nat \<Rightarrow> blob_id \<Rightarrow> (shard_index, 'e) result" where
  "to_shard_index i n bid = expect (checked U16_MAX ((i + rotation_offset n bid) mod n))"

definition shard_to_pair_index :: "shard_index \<Rightarrow> nat \<Rightarrow> blob_id \<Rightarrow> (sliver_pair_index, 'e) result" where
  "shard_to_pair_index s n bid = and_then (usub (n + s) (rotation_offset n bid)) (\<lambda>x. expect (checked U16_MAX (x mod n)))"

definition is_rotation :: "sliver_pair list \<Rightarrow> bool" where
  "is_rotation pairs \<longleftrightarrow> list_all (\<lambda>(i, p). pair_index p = (i + pair_index (pairs ! 0)) mod length pairs) (enumerate 0 pairs)"

definition rotate_pairs :: "sliver_pair list \<Rightarrow> blob_id \<Rightarrow> (sliver_pair list, sliver_assignment_error) result" where
  "rotate_pairs pairs bid =
    and_then (expect (checked U16_MAX (length pairs))) (\<lambda>n_pairs.
      if n_pairs = 0 then Ok pairs
      else if is_rotation pairs then
        (if pair_index (pairs ! 0) = 0 then Ok (rotate_by_bytes pairs bid)
         else and_then (shard_to_pair_index 0 n_pairs bid) (\<lambda>i.
           if pair_index (pairs ! 0) \<noteq> i then Err InconsistentRotation else Ok pairs))
      else Err InvalidInputOrder)"

definition rotate_pairs_unchecked :: "sliver_pair list \<Rightarrow> blob_id \<Rightarrow> sliver_pair list" where
  "rotate_pairs_unchecked pairs bid = (if pairs = [] then pairs else rotate_by_bytes pairs bid)"

subsection \<open>Lemmas\<close>

definition big_endian :: "bytes \<Rightarrow> nat" where
  "big_endian bs = foldl (\<lambda>acc b. acc * 256 + unat b) 0 bs"

lemma foldl_mod: "foldl (\<lambda>acc b. (acc * 256 + unat b) mod m) (x mod m) bs = foldl (\<lambda>acc b. acc * 256 + unat b) x bs mod m"
proof (induction bs arbitrary: x)
  case (Cons b bs)
  have "(x mod m * 256 + unat b) mod m = (x * 256 + unat b) mod m" by (metis mod_add_left_eq mod_mult_left_eq)
  then show ?case using Cons by simp
qed simp

lemma bytes_mod_eq: "bytes_mod bs m = big_endian bs mod m"
  using foldl_mod [of m 0 bs] by (simp add: bytes_mod_def big_endian_def)

lemma rotation_offset_less [simp]: "0 < n \<Longrightarrow> rotation_offset n bid < n"
  by (simp add: rotation_offset_def bytes_mod_eq)

lemma mod_le_bound: "0 < n \<Longrightarrow> n \<le> hi \<Longrightarrow> x mod n \<le> (hi :: nat)"
  by (meson less_imp_le mod_less_divisor order_trans)

lemma to_shard_index_Ok: "0 < n \<Longrightarrow> n \<le> U16_MAX \<Longrightarrow> to_shard_index i n bid = Ok ((i + rotation_offset n bid) mod n)"
  by (simp add: to_shard_index_def mod_le_bound)

lemma shard_to_pair_index_Ok:
  assumes "0 < n" "n \<le> U16_MAX"
  shows "shard_to_pair_index s n bid = Ok ((n + s - rotation_offset n bid) mod n)"
proof -
  have "rotation_offset n bid \<le> n + s" using rotation_offset_less [OF assms(1), of bid] by simp
  then show ?thesis using assms by (simp add: shard_to_pair_index_def mod_le_bound)
qed

lemma shift_unshift:
  assumes "f < n" "i < (n :: nat)"
  shows "(n + (i + f) mod n - f) mod n = i" "((n + i - f) mod n + f) mod n = i"
proof -
  show "(n + (i + f) mod n - f) mod n = i"
  proof (cases "i + f < n")
    case False
    then have "(i + f) mod n = i + f - n" using assms by (simp add: mod_if)
    then show ?thesis using False assms by simp
  qed (use assms in simp)
  have "n + i - f + f = n + i" using assms by simp
  then show "((n + i - f) mod n + f) mod n = i" using assms by (simp add: mod_simps)
qed

lemma is_rotation_iff: "is_rotation pairs \<longleftrightarrow> (\<forall>i<length pairs. pair_index (pairs ! i) = (i + pair_index (pairs ! 0)) mod length pairs)"
  by (auto simp: is_rotation_def list_all_iff in_set_enumerate_eq nth_enumerate_eq all_set_conv_all_nth)

lemma length_rotate_right [simp]: "length (rotate_right k xs) = length xs"
  by (simp add: rotate_right_def)

lemma mset_rotate_right [simp]: "mset (rotate_right k xs) = mset xs"
  by (simp add: rotate_right_def) (metis append_take_drop_id mset_append union_commute)

lemma rotate_right_nth:
  assumes "k < length xs" "i < length xs"
  shows "rotate_right k xs ! i = xs ! ((length xs + i - k) mod length xs)"
proof (cases "i < k")
  case True
  then show ?thesis using assms by (simp add: rotate_right_def nth_append)
next
  case False
  then have "(length xs + i - k) mod length xs = i - k" using assms by (simp add: mod_if)
  then show ?thesis using assms False by (simp add: rotate_right_def nth_append)
qed

text \<open>The pairs in the order of the shards that hold them.\<close>

definition assigned :: "sliver_pair list \<Rightarrow> blob_id \<Rightarrow> bool" where
  "assigned pairs bid \<longleftrightarrow>
    (\<forall>s<length pairs. pair_index (pairs ! s) = (length pairs + s - rotation_offset (length pairs) bid) mod length pairs)"

lemma assigned_of_rotation:
  assumes "is_rotation pairs" "pairs \<noteq> []"
    and "pair_index (pairs ! 0) = (length pairs - rotation_offset (length pairs) bid) mod length pairs"
  shows "assigned pairs bid"
  unfolding assigned_def
proof (intro allI impI)
  fix s assume s: "s < length pairs"
  let ?n = "length pairs" and ?f = "rotation_offset (length pairs) bid"
  have f: "?f \<le> ?n" using assms(2) by (simp add: less_imp_le)
  have "pair_index (pairs ! s) = (s + (?n - ?f) mod ?n) mod ?n" using assms s by (simp add: is_rotation_iff)
  also have "\<dots> = (s + (?n - ?f)) mod ?n" by (simp add: mod_simps)
  also have "s + (?n - ?f) = ?n + s - ?f" using f by simp
  finally show "pair_index (pairs ! s) = (?n + s - ?f) mod ?n" .
qed

lemma rotated_assigned:
  assumes "is_rotation pairs" "pairs \<noteq> []" "pair_index (pairs ! 0) = 0"
  shows "assigned (rotate_by_bytes pairs bid) bid"
proof -
  have k: "bytes_mod bid (length pairs) < length pairs" using assms(2) by (simp add: bytes_mod_eq)
  have "pair_index (pairs ! i) = i" if "i < length pairs" for i using assms that by (simp add: is_rotation_iff)
  then show ?thesis
    using assms(2) by (simp add: assigned_def rotate_by_bytes_def rotate_right_nth [OF k] rotation_offset_def)
qed

lemma rotate_pairs_eq:
  assumes "length pairs \<le> U16_MAX" "pairs \<noteq> []"
  shows "rotate_pairs pairs bid =
    (if \<not> is_rotation pairs then Err InvalidInputOrder
     else if pair_index (pairs ! 0) = 0 then Ok (rotate_by_bytes pairs bid)
     else if pair_index (pairs ! 0) = (length pairs - rotation_offset (length pairs) bid) mod length pairs then Ok pairs
     else Err InconsistentRotation)"
  using assms by (simp add: rotate_pairs_def shard_to_pair_index_Ok)

lemma assigned_fixed:
  assumes "assigned pairs bid" "pairs \<noteq> []" "length pairs \<le> U16_MAX"
  shows "rotate_pairs pairs bid = Ok pairs"
proof -
  let ?n = "length pairs" and ?f = "rotation_offset (length pairs) bid"
  have f: "?f < ?n" using assms(2) by simp
  have p0: "pair_index (pairs ! 0) = (?n - ?f) mod ?n" using assms by (simp add: assigned_def)
  have "pair_index (pairs ! i) = (i + (?n - ?f) mod ?n) mod ?n" if "i < ?n" for i
  proof -
    have "?n + i - ?f = i + (?n - ?f)" using f by simp
    then show ?thesis using assms(1) that by (simp add: assigned_def mod_simps)
  qed
  then have rot: "is_rotation pairs" using p0 by (simp add: is_rotation_iff)
  have "rotate_by_bytes pairs bid = pairs" if "pair_index (pairs ! 0) = 0"
  proof -
    have "?f = 0" using p0 f that by (cases "?f = 0") simp_all
    then show ?thesis by (simp add: rotate_by_bytes_def rotation_offset_def rotate_right_def)
  qed
  then show ?thesis using rot p0 by (simp add: rotate_pairs_eq [OF assms(3,2)])
qed

subsection \<open>Properties\<close>

text \<open>C40: For a number of shards, the assignment of sliver pairs to shards and its reverse are inverse bijections on the indices,
  and pair \<open>i\<close> lands on shard \<open>i + b mod n\<close> where \<open>b\<close> is the blob ID as a big-endian number.\<close>

theorem shard_assignment_bijective:
  assumes "0 < n" "n \<le> U16_MAX" "i < n"
  shows "\<exists>s p. to_shard_index i n bid = Ok s \<and> s < n \<and> s = (i + big_endian bid) mod n \<and> shard_to_pair_index s n bid = Ok i
    \<and> shard_to_pair_index i n bid = Ok p \<and> p < n \<and> to_shard_index p n bid = Ok i"
  using assms shift_unshift [OF rotation_offset_less [OF assms(1)] assms(3), of bid]
  by (simp add: to_shard_index_Ok shard_to_pair_index_Ok) (simp add: rotation_offset_def bytes_mod_eq mod_simps)

theorem shard_assignment_bijective_witness:
  "\<exists>s. to_shard_index 5 7 [1, 0] = Ok s \<and> s = (5 + 256) mod 7 \<and> shard_to_pair_index s 7 [1, 0] = Ok 5"
  using shard_assignment_bijective [of 7 5 "[1, 0]"] by (simp add: big_endian_def) blast

text \<open>Rotating sliver pairs, when it succeeds, is a permutation that puts on every position the pair of the shard with that
  number, and doing it again changes nothing. It fails exactly on pairs that are out of order, or rotated for another blob ID.\<close>

lemma rotate_pairs_correct:
  assumes "length pairs \<le> U16_MAX" "pairs \<noteq> []"
  shows "case rotate_pairs pairs bid of
      Ok pairs' \<Rightarrow> mset pairs' = mset pairs \<and> rotate_pairs pairs' bid = Ok pairs'
        \<and> (\<forall>s<length pairs. shard_to_pair_index s (length pairs) bid = (Ok (pair_index (pairs' ! s)) :: (nat, unit) result))
    | Err InvalidInputOrder \<Rightarrow> \<not> is_rotation pairs
    | Err InconsistentRotation \<Rightarrow> is_rotation pairs \<and> pair_index (pairs ! 0) \<noteq> 0
        \<and> shard_to_pair_index 0 (length pairs) bid \<noteq> (Ok (pair_index (pairs ! 0)) :: (nat, unit) result)
    | Panic \<Rightarrow> False"
proof (cases "rotate_pairs pairs bid")
  case (Ok qs)
  then have "assigned qs bid" "mset qs = mset pairs"
    using assigned_of_rotation [OF _ assms(2)] rotated_assigned [OF _ assms(2)]
    by (auto simp: rotate_pairs_eq [OF assms] rotate_by_bytes_def split: if_splits)
  moreover from this(2) have "length qs = length pairs" "qs \<noteq> []" using assms(2) by (auto dest: mset_eq_length)
  ultimately show ?thesis using Ok assms assigned_fixed [of qs bid] by (auto simp: shard_to_pair_index_Ok assigned_def)
next
  case (Err e)
  then show ?thesis using assms by (auto simp: rotate_pairs_eq [OF assms] shard_to_pair_index_Ok split: if_splits)
next
  case Panic
  then show ?thesis by (simp add: rotate_pairs_eq [OF assms] split: if_splits)
qed

definition example_pairs :: "sliver_pair list" where
  "example_pairs = map (\<lambda>i. \<lparr>primary = sliver_new_empty 1 2 i, secondary = sliver_new_empty 1 2 (2 - i)\<rparr>) [0, 1, 2]"

end
