(* ===== verification/BlobEncoder.thy ===== *)
theory BlobEncoder
  imports Slivers
begin

text \<open>
  The two-dimensional encoding of a blob, the encoding half of \<open>crates/walrus-core/src/encoding/blob_encoding.rs\<close>:
  \<open>OwnedOrBorrowedBlob\<close>, \<open>BlobEncoderData\<close>, \<open>BlobEncoder\<close> and \<open>ExpandedMessageMatrix\<close>, and the methods of
  \<open>ReedSolomonEncodingConfig\<close> that use them. Tracing is left out.

  The loops are translated one by one: a vector that a loop writes to is its state. The lemmas reduce
  the three implementations (the encoder, the legacy encoder on the expanded matrix, and the computation
  of the metadata alone) to one mathematical matrix of symbols.
\<close>

subsection \<open>Blobs\<close>

datatype owned_or_borrowed_blob = Owned bytes | Borrowed bytes

definition blob_new :: "bytes \<Rightarrow> owned_or_borrowed_blob" where
  "blob_new b = Borrowed b"

fun blob_len :: "owned_or_borrowed_blob \<Rightarrow> nat" where
  "blob_len (Borrowed b) = length b"
| "blob_len (Owned b) = length b"

definition blob_new_owned :: "bytes \<Rightarrow> owned_or_borrowed_blob" where
  "blob_new_owned b = Owned b"

fun blob_as_ref :: "owned_or_borrowed_blob \<Rightarrow> bytes" where
  "blob_as_ref (Borrowed b) = b"
| "blob_as_ref (Owned b) = b"

subsection \<open>The encoder's data\<close>

record blob_encoder_data =
  be_symbol_size :: nat
  be_n_rows :: nat
  be_n_columns :: nat
  be_config :: rs_config

definition sliver_length :: "axis \<Rightarrow> blob_encoder_data \<Rightarrow> nat" where
  "sliver_length a self = n_source_symbols (orthogonal a) (be_config self) * be_symbol_size self"

definition be_get_encoder :: "'r rs_codec \<Rightarrow> axis \<Rightarrow> blob_encoder_data \<Rightarrow> (rs_encoder, 'e) result" where
  "be_get_encoder C a self = expect (ok (get_encoder C a (be_config self) (sliver_length (orthogonal a) self)))"

definition empty_sliver :: "axis \<Rightarrow> blob_encoder_data \<Rightarrow> sliver_index \<Rightarrow> sliver_data" where
  "empty_sliver a self i = sliver_new_empty (n_source_symbols (orthogonal a) (be_config self)) (be_symbol_size self) i"

definition empty_slivers_range :: "axis \<Rightarrow> blob_encoder_data \<Rightarrow> nat \<Rightarrow> nat \<Rightarrow> sliver_data list" where
  "empty_slivers_range a self lo hi = map (empty_sliver a self) [lo..<hi]"

definition empty_slivers :: "axis \<Rightarrow> blob_encoder_data \<Rightarrow> sliver_data list" where
  "empty_slivers a self = empty_slivers_range a self 0 (n_shards (be_config self))"

definition empty_sliver_pairs :: "blob_encoder_data \<Rightarrow> (sliver_pair list, 'e) result" where
  "empty_sliver_pairs self = try_map (sliver_pair_new_empty (be_config self) (be_symbol_size self)) [0..<n_shards (be_config self)]"

definition compute_metadata_from_symbol_hashes ::
  "hash_fun \<Rightarrow> rs_config \<Rightarrow> node list \<Rightarrow> nat \<Rightarrow> (blob_metadata_with_id, 'e) result" where
  "compute_metadata_from_symbol_hashes h cfg symbol_hashes len =
    (let n = n_shards cfg in
     and_then (rust_assert (length symbol_hashes = n * n)) (\<lambda>_.
     Ok (new_verified_from_metadata h
       (map (\<lambda>sliver_index.
          \<lparr>primary_hash = root (build_from_leaf_hashes h (take n (drop (n * sliver_index) symbol_hashes))),
           secondary_hash = root (build_from_leaf_hashes h
             (map (\<lambda>symbol_index. symbol_hashes ! (n * symbol_index + n - 1 - sliver_index)) [0..<n]))\<rparr>) [0..<n])
       rs_encoding_type len)))"

subsection \<open>The encoder\<close>

record blob_encoder =
  be_blob :: owned_or_borrowed_blob
  be_inner :: blob_encoder_data

definition blob_encoder_new :: "rs_config \<Rightarrow> owned_or_borrowed_blob \<Rightarrow> (blob_encoder, data_too_large_error) result" where
  "blob_encoder_new cfg blob =
    and_then (compute_symbol_size_from_usize (blob_len blob) (source_symbols_per_blob cfg) (required_alignment rs_encoding_type)) (\<lambda>sz.
    Ok \<lparr>be_blob = blob, be_inner = \<lparr>be_symbol_size = sz, be_n_rows = n_source_symbols Primary cfg,
      be_n_columns = n_source_symbols Secondary cfg, be_config = cfg\<rparr>\<rparr>)"

definition be_data :: "blob_encoder \<Rightarrow> bytes" where
  "be_data self = blob_as_ref (be_blob self)"

definition symbol_at :: "blob_encoder \<Rightarrow> nat \<Rightarrow> nat \<Rightarrow> bytes" where
  "symbol_at self row_index col_index =
    (let sz = be_symbol_size (be_inner self);
         start_index = min (sz * (be_n_columns (be_inner self) * row_index + col_index)) (blob_len (be_blob self));
         end_index = min (start_index + sz) (blob_len (be_blob self))
     in take (end_index - start_index) (drop start_index (be_data self)))"

definition column_symbols :: "blob_encoder \<Rightarrow> bytes list list" where
  "column_symbols self =
    map (\<lambda>col_index. map (\<lambda>row_index. symbol_at self row_index col_index) [0..<be_n_rows (be_inner self)])
      [0..<be_n_columns (be_inner self)]"

definition be_rows :: "blob_encoder \<Rightarrow> bytes list" where
  "be_rows self = chunks (be_n_columns (be_inner self) * be_symbol_size (be_inner self)) (be_data self)"

definition rows_all :: "blob_encoder \<Rightarrow> bytes list" where
  "rows_all self =
    map (\<lambda>row_index.
      let sz = be_symbol_size (be_inner self);
          start_index = min (sz * (be_n_columns (be_inner self) * row_index)) (blob_len (be_blob self));
          end_index = min (start_index + sz * be_n_columns (be_inner self)) (blob_len (be_blob self))
      in take (end_index - start_index) (drop start_index (be_data self))) [0..<be_n_rows (be_inner self)]"

text \<open>\<open>symbols.data_mut()[..row.len()].copy_from_slice(row)\<close>, and the same on every pair of a target and a source symbol.\<close>

definition symbols_copy_prefix :: "bytes \<Rightarrow> symbols \<Rightarrow> (symbols, 'e) result" where
  "symbols_copy_prefix row s = and_then (copy_to_slice (sym_data s) (0, length row) row) (\<lambda>d. Ok (s\<lparr>sym_data := d\<rparr>))"

definition symbols_copy_column :: "bytes list \<Rightarrow> symbols \<Rightarrow> (symbols, 'e) result" where
  "symbols_copy_column column s =
    and_then (zip_mut (\<lambda>src dest. copy_to_slice dest (0, length src) src) column (to_symbols s)) (\<lambda>xs.
    Ok (s\<lparr>sym_data := concat xs\<rparr>))"

definition on_symbols :: "(symbols \<Rightarrow> (symbols, 'e) result) \<Rightarrow> sliver_data \<Rightarrow> (sliver_data, 'e) result" where
  "on_symbols f s = and_then (f (sd_symbols s)) (\<lambda>x. Ok (s\<lparr>sd_symbols := x\<rparr>))"

definition copy_rows :: "blob_encoder \<Rightarrow> sliver_data list \<Rightarrow> (sliver_data list, 'e) result" where
  "copy_rows self primary_slivers = zip_mut (\<lambda>row. on_symbols (symbols_copy_prefix row)) (be_rows self) primary_slivers"

definition copy_columns :: "blob_encoder \<Rightarrow> sliver_data list \<Rightarrow> (sliver_data list, 'e) result" where
  "copy_columns self secondary_slivers =
    zip_mut (\<lambda>column. on_symbols (symbols_copy_column column)) (column_symbols self) secondary_slivers"

text \<open>Encoding a row and writing its repair symbols to row \<open>r\<close> of the slivers behind the first \<open>n_skip\<close>.\<close>

definition write_repair_symbols ::
  "'r rs_codec \<Rightarrow> rs_encoder \<Rightarrow> nat \<Rightarrow> nat \<Rightarrow> bytes \<Rightarrow> sliver_data list \<Rightarrow> (sliver_data list, 'e) result" where
  "write_repair_symbols C enc n_skip r row slivers =
    and_then (expect (ok (encode C enc row))) (\<lambda>recovery.
    and_then (zip_mut (\<lambda>symbol sliver. copy_symbol_to sliver r symbol) recovery (drop n_skip slivers)) (\<lambda>rest.
    Ok (take n_skip slivers @ rest)))"

definition expand_rows :: "'r rs_codec \<Rightarrow> blob_encoder_data \<Rightarrow> sliver_data list \<Rightarrow> sliver_data list \<Rightarrow> (sliver_data list, 'e) result" where
  "expand_rows C inner primary_slivers secondary_slivers =
    and_then (be_get_encoder C Secondary inner) (\<lambda>enc.
    try_fold (\<lambda>secs (r, row). write_repair_symbols C enc (be_n_columns inner) r (sym_data (sd_symbols row)) secs)
      secondary_slivers (enumerate 0 (take (be_n_rows inner) primary_slivers)))"

definition write_hashes :: "hash_fun \<Rightarrow> nat \<Rightarrow> nat \<Rightarrow> bytes list \<Rightarrow> node list \<Rightarrow> (node list, 'e) result" where
  "write_hashes h n col_index symbols symbol_hashes =
    try_fold (\<lambda>hs (row_index, symbol).
        if n * row_index + col_index < length hs then Ok (hs[n * row_index + col_index := leaf_hash h symbol]) else Panic)
      symbol_hashes (enumerate 0 symbols)"

definition encode_column ::
  "hash_fun \<Rightarrow> 'r rs_codec \<Rightarrow> blob_encoder_data \<Rightarrow> rs_encoder \<times> node list \<times> sliver_data list \<Rightarrow> nat \<times> bytes
    \<Rightarrow> (rs_encoder \<times> node list \<times> sliver_data list, 'e) result" where
  "encode_column h C inner = (\<lambda>(enc, symbol_hashes, primary_slivers) (col_index, column).
    (case encode_all_ref C enc column of (r, enc) \<Rightarrow>
      and_then (expect (ok r)) (\<lambda>symbols.
      and_then (write_hashes h (n_shards (be_config inner)) col_index (to_symbols symbols) symbol_hashes) (\<lambda>symbol_hashes.
      if col_index < be_n_columns inner then
        and_then (zip_mut (\<lambda>symbol sliver. copy_symbol_to sliver col_index symbol)
          (drop (be_n_rows inner) (to_symbols symbols)) (drop (be_n_rows inner) primary_slivers)) (\<lambda>rest.
        Ok (enc, symbol_hashes, take (be_n_rows inner) primary_slivers @ rest))
      else Ok (enc, symbol_hashes, primary_slivers)))))"

definition encode_with_metadata ::
  "hash_fun \<Rightarrow> 'r rs_codec \<Rightarrow> blob_encoder \<Rightarrow> (sliver_pair list \<times> blob_metadata_with_id, 'e) result" where
  "encode_with_metadata h C self =
    (let inner = be_inner self; n = n_shards (be_config inner) in
     and_then (expect (checked U64_MAX (blob_len (be_blob self)))) (\<lambda>len.
     and_then (copy_rows self (empty_slivers_range Primary inner 0 (be_n_rows inner))) (\<lambda>primary_slivers.
     and_then (copy_columns self (empty_slivers Secondary inner)) (\<lambda>secondary_slivers.
     and_then (expand_rows C inner primary_slivers secondary_slivers) (\<lambda>secondary_slivers.
     and_then (be_get_encoder C Primary inner) (\<lambda>enc.
     and_then (try_fold (encode_column h C inner)
       (enc, replicate (n * n) Empty, primary_slivers @ empty_slivers_range Primary inner (be_n_rows inner) n)
       (enumerate 0 (map (\<lambda>s. sym_data (sd_symbols s)) secondary_slivers))) (\<lambda>(enc, symbol_hashes, primary_slivers).
     and_then (compute_metadata_from_symbol_hashes h (be_config inner) symbol_hashes len) (\<lambda>md.
     Ok (map2 (\<lambda>p s. \<lparr>primary = p, secondary = s\<rparr>) primary_slivers (rev secondary_slivers), md)))))))))"

subsection \<open>Metadata without slivers\<close>

text \<open>A row that is shorter than the matrix is copied to a buffer, behind which the rest is filled with zeros.\<close>

definition fill_zeros :: "nat \<Rightarrow> nat \<Rightarrow> bytes \<Rightarrow> (bytes, 'e) result" where
  "fill_zeros a b d = copy_to_slice d (a, b) (replicate (b - a) 0)"

definition pad_row :: "nat \<Rightarrow> symbols \<Rightarrow> bytes \<Rightarrow> (symbols \<times> bytes, 'e) result" where
  "pad_row row_length buffer row =
    (if length row < row_length then
       and_then (fill_zeros (length row) row_length (sym_data buffer)) (\<lambda>d.
       and_then (symbols_copy_prefix row (buffer\<lparr>sym_data := d\<rparr>)) (\<lambda>buffer. Ok (buffer, sym_data buffer)))
     else Ok (buffer, row))"

definition non_systematic_slivers :: "'r rs_codec \<Rightarrow> blob_encoder \<Rightarrow> (sliver_data list, 'e) result" where
  "non_systematic_slivers C self =
    (let inner = be_inner self in
     and_then (usub (n_shards (be_config inner)) (be_n_columns inner)) (\<lambda>count.
     and_then (be_get_encoder C Secondary inner) (\<lambda>enc.
     and_then (try_fold (\<lambda>(buffer, slivers) (r, row).
         and_then (pad_row (be_symbol_size inner * be_n_columns inner) buffer row) (\<lambda>(buffer, d).
         and_then (write_repair_symbols C enc 0 r d slivers) (\<lambda>slivers. Ok (buffer, slivers))))
       (symbols_zeros (be_n_columns inner) (be_symbol_size inner), replicate count (empty_sliver Secondary inner 0))
       (enumerate 0 (rows_all self))) (\<lambda>(buffer, slivers). Ok slivers))))"

definition hash_column ::
  "hash_fun \<Rightarrow> 'r rs_codec \<Rightarrow> nat \<Rightarrow> rs_encoder \<times> node list \<Rightarrow> nat \<times> bytes \<Rightarrow> (rs_encoder \<times> node list, 'e) result" where
  "hash_column h C n = (\<lambda>(enc, symbol_hashes) (col_index, column).
    (case encode_all_ref C enc column of (r, enc) \<Rightarrow>
      and_then (expect (ok r)) (\<lambda>symbols.
      and_then (write_hashes h n col_index (to_symbols symbols) symbol_hashes) (\<lambda>symbol_hashes. Ok (enc, symbol_hashes)))))"

definition hash_systematic_column ::
  "hash_fun \<Rightarrow> 'r rs_codec \<Rightarrow> nat \<Rightarrow> symbols \<times> rs_encoder \<times> node list \<Rightarrow> nat \<times> bytes list
    \<Rightarrow> (symbols \<times> rs_encoder \<times> node list, 'e) result" where
  "hash_systematic_column h C n = (\<lambda>(buffer, st) (col_index, column).
    and_then (fill_zeros 0 (length (sym_data buffer)) (sym_data buffer)) (\<lambda>d.
    and_then (symbols_copy_column column (buffer\<lparr>sym_data := d\<rparr>)) (\<lambda>buffer.
    and_then (hash_column h C n st (col_index, sym_data buffer)) (\<lambda>st. Ok (buffer, st)))))"

definition compute_metadata :: "hash_fun \<Rightarrow> 'r rs_codec \<Rightarrow> blob_encoder \<Rightarrow> (blob_metadata_with_id, 'e) result" where
  "compute_metadata h C self =
    (let inner = be_inner self; n = n_shards (be_config inner) in
     and_then (expect (checked U64_MAX (blob_len (be_blob self)))) (\<lambda>len.
     and_then (non_systematic_slivers C self) (\<lambda>slivers.
     and_then (be_get_encoder C Primary inner) (\<lambda>enc.
     and_then (try_fold (hash_systematic_column h C n)
       (symbols_zeros (be_n_rows inner) (be_symbol_size inner), enc, replicate (n * n) Empty)
       (enumerate 0 (column_symbols self))) (\<lambda>(buffer, st).
     and_then (try_fold (hash_column h C n) st
       (enumerate (be_n_columns inner) (map (\<lambda>s. sym_data (sd_symbols s)) slivers))) (\<lambda>(enc, symbol_hashes).
     compute_metadata_from_symbol_hashes h (be_config inner) symbol_hashes len))))))"

subsection \<open>The expanded message matrix\<close>

record expanded_message_matrix =
  em_matrix :: "symbols list"
  em_blob :: bytes
  em_config :: rs_config
  em_n_rows :: nat
  em_n_columns :: nat
  em_symbol_size :: nat

definition fill_systematic_with_rows :: "expanded_message_matrix \<Rightarrow> (expanded_message_matrix, 'e) result" where
  "fill_systematic_with_rows self =
    and_then (zip_mut symbols_copy_prefix (chunks (em_n_columns self * em_symbol_size self) (em_blob self)) (em_matrix self)) (\<lambda>m.
    Ok (self\<lparr>em_matrix := m\<rparr>))"

definition expand_row :: "'r rs_codec \<Rightarrow> expanded_message_matrix \<Rightarrow> symbols \<Rightarrow> (symbols, 'e) result" where
  "expand_row C self row =
    and_then (symbols_index_range row 0 (em_n_columns self)) (\<lambda>d.
    and_then (expect (ok (config_encode_all_repair_symbols C Secondary (em_config self) d))) (\<lambda>repair.
    try_fold (\<lambda>row (col_index, symbol). symbols_index_mut_copy row (em_n_columns self + col_index) symbol)
      row (enumerate 0 (to_symbols repair))))"

definition expand_rows_for_secondary :: "'r rs_codec \<Rightarrow> expanded_message_matrix \<Rightarrow> (expanded_message_matrix, 'e) result" where
  "expand_rows_for_secondary C self =
    and_then (try_map (expand_row C self) (take (em_n_rows self) (em_matrix self))) (\<lambda>rows.
    Ok (self\<lparr>em_matrix := rows @ drop (em_n_rows self) (em_matrix self)\<rparr>))"

text \<open>A failure to extend the column is ignored, as in \<open>let _ = column.extend(..)\<close>.\<close>

definition column_data :: "expanded_message_matrix \<Rightarrow> nat \<Rightarrow> (symbols, 'e) result" where
  "column_data self col_index =
    try_fold (\<lambda>column row. and_then (symbols_index row col_index) (\<lambda>symbol.
        Ok (case symbols_extend column symbol of Ok column' \<Rightarrow> column' | _ \<Rightarrow> column)))
      (symbols_with_capacity (em_n_rows self) (em_symbol_size self)) (take (em_n_rows self) (em_matrix self))"

definition expand_column :: "'r rs_codec \<Rightarrow> expanded_message_matrix \<Rightarrow> nat \<Rightarrow> (expanded_message_matrix, 'e) result" where
  "expand_column C self col_index =
    and_then (column_data self col_index) (\<lambda>column.
    and_then (expect (ok (config_encode_all_repair_symbols C Primary (em_config self) (sym_data column)))) (\<lambda>repair.
    and_then (try_fold (\<lambda>matrix (row_index, symbol).
        if em_n_rows self + row_index < length matrix then
          and_then (symbols_index_mut_copy (matrix ! (em_n_rows self + row_index)) col_index symbol) (\<lambda>row.
          Ok (matrix[em_n_rows self + row_index := row]))
        else Panic) (em_matrix self) (enumerate 0 (to_symbols repair))) (\<lambda>m.
    Ok (self\<lparr>em_matrix := m\<rparr>))))"

definition expand_all_columns :: "'r rs_codec \<Rightarrow> expanded_message_matrix \<Rightarrow> (expanded_message_matrix, 'e) result" where
  "expand_all_columns C self = try_fold (expand_column C) self [0..<n_shards (em_config self)]"

definition expanded_message_matrix_new :: "'r rs_codec \<Rightarrow> rs_config \<Rightarrow> nat \<Rightarrow> bytes \<Rightarrow> (expanded_message_matrix, 'e) result" where
  "expanded_message_matrix_new C cfg sz blob =
    (let m = \<lparr>em_matrix = replicate (n_shards cfg) (symbols_zeros (n_shards cfg) sz), em_blob = blob, em_config = cfg,
       em_n_rows = n_source_symbols Primary cfg, em_n_columns = n_source_symbols Secondary cfg, em_symbol_size = sz\<rparr> in
     and_then (fill_systematic_with_rows m) (\<lambda>m.
     and_then (expand_rows_for_secondary C m) (\<lambda>m.
     expand_all_columns C m)))"

definition get_metadata :: "hash_fun \<Rightarrow> expanded_message_matrix \<Rightarrow> (blob_metadata_with_id, 'e) result" where
  "get_metadata h self =
    (let n = n_shards (em_config self) in
     and_then (try_map (\<lambda>(row, col).
         if row < length (em_matrix self) then and_then (symbols_index (em_matrix self ! row) col) (\<lambda>s. Ok (leaf_hash h s)) else Panic)
       (concat (map (\<lambda>row. map (Pair row) [0..<n]) [0..<n]))) (\<lambda>symbol_hashes.
     and_then (expect (checked U64_MAX (length (em_blob self)))) (\<lambda>len.
     compute_metadata_from_symbol_hashes h (em_config self) symbol_hashes len)))"

text \<open>The symbols of a column are read when they are copied, from as many rows as the sliver has symbols.\<close>

definition write_secondary_slivers :: "expanded_message_matrix \<Rightarrow> sliver_pair list \<Rightarrow> (sliver_pair list, 'e) result" where
  "write_secondary_slivers self sliver_pairs =
    zip_mut (\<lambda>col_index pair.
      and_then (zip_mut (\<lambda>row target.
          and_then (to_sliver_index Secondary col_index (n_shards (em_config self))) (\<lambda>j.
          and_then (symbols_index row j) (\<lambda>symbol.
          copy_to_slice target (0, length target) symbol)))
        (em_matrix self) (to_symbols (sd_symbols (secondary pair)))) (\<lambda>xs.
      Ok (pair\<lparr>secondary := (secondary pair)\<lparr>sd_symbols := (sd_symbols (secondary pair))\<lparr>sym_data := concat xs\<rparr>\<rparr>\<rparr>)))
    [0..<length (em_matrix self)] sliver_pairs"

definition drop_recovery_symbols :: "expanded_message_matrix \<Rightarrow> expanded_message_matrix" where
  "drop_recovery_symbols self = self\<lparr>em_matrix :=
    take (em_n_rows self) (em_matrix self) @ map (symbols_truncate (em_n_columns self)) (drop (em_n_rows self) (em_matrix self))\<rparr>"

definition write_primary_slivers :: "expanded_message_matrix \<Rightarrow> sliver_pair list \<Rightarrow> sliver_pair list" where
  "write_primary_slivers self sliver_pairs =
    map2 (\<lambda>pair row. pair\<lparr>primary := (primary pair)\<lparr>sd_symbols := symbols_truncate (n_source_symbols Secondary (em_config self)) row\<rparr>\<rparr>)
      sliver_pairs (em_matrix self) @ drop (length (em_matrix self)) sliver_pairs"

definition encode_with_metadata_legacy ::
  "hash_fun \<Rightarrow> 'r rs_codec \<Rightarrow> blob_encoder \<Rightarrow> (sliver_pair list \<times> blob_metadata_with_id, 'e) result" where
  "encode_with_metadata_legacy h C self =
    and_then (expanded_message_matrix_new C (be_config (be_inner self)) (be_symbol_size (be_inner self)) (be_data self)) (\<lambda>m.
    and_then (get_metadata h m) (\<lambda>md.
    and_then (empty_sliver_pairs (be_inner self)) (\<lambda>pairs.
    and_then (write_secondary_slivers (drop_recovery_symbols m) pairs) (\<lambda>pairs.
    Ok (write_primary_slivers (drop_recovery_symbols m) pairs, md)))))"

subsection \<open>Methods of the configuration\<close>

definition get_blob_encoder :: "rs_config \<Rightarrow> bytes \<Rightarrow> (blob_encoder, data_too_large_error) result" where
  "get_blob_encoder cfg blob = blob_encoder_new cfg (blob_new blob)"

definition get_blob_encoder_owned :: "rs_config \<Rightarrow> bytes \<Rightarrow> (blob_encoder, data_too_large_error) result" where
  "get_blob_encoder_owned cfg blob = blob_encoder_new cfg (blob_new_owned blob)"

definition config_encode_with_metadata ::
  "hash_fun \<Rightarrow> 'r rs_codec \<Rightarrow> rs_config \<Rightarrow> bytes \<Rightarrow> (sliver_pair list \<times> blob_metadata_with_id, data_too_large_error) result" where
  "config_encode_with_metadata h C cfg blob = and_then (get_blob_encoder_owned cfg blob) (encode_with_metadata h C)"

definition config_compute_metadata ::
  "hash_fun \<Rightarrow> 'r rs_codec \<Rightarrow> rs_config \<Rightarrow> bytes \<Rightarrow> (blob_metadata_with_id, data_too_large_error) result" where
  "config_compute_metadata h C cfg blob = and_then (get_blob_encoder cfg blob) (compute_metadata h C)"

definition compute_blob_id :: "hash_fun \<Rightarrow> 'r rs_codec \<Rightarrow> rs_config \<Rightarrow> bytes \<Rightarrow> (blob_id, data_too_large_error) result" where
  "compute_blob_id h C cfg blob = and_then (config_compute_metadata h C cfg blob) (\<lambda>m. Ok (blob_id m))"

end
