(* ===== verification/BlobMatrix.thy ===== *)
theory BlobMatrix
  imports BlobEncoder
begin

text \<open>
  The mathematical content of the blob encoding of theory \<open>BlobEncoder\<close>. The blob, padded with zeros, fills a matrix of
  source symbols. Its rows are extended with the secondary code, and then all columns with the primary
  code; \<open>msg\<close> is the resulting matrix. Every implementation in \<open>blob_encoding.rs\<close> is shown to compute the slivers and
  hashes of this matrix.
\<close>

subsection \<open>Symbol vectors from lists\<close>

definition mk_symbols :: "nat \<Rightarrow> bytes list \<Rightarrow> symbols" where
  "mk_symbols sz xs = \<lparr>sym_data = concat xs, symbol_size = sz\<rparr>"

definition mk_sliver :: "nat \<Rightarrow> bytes list \<Rightarrow> sliver_index \<Rightarrow> sliver_data" where
  "mk_sliver sz xs i = \<lparr>sd_symbols = mk_symbols sz xs, sd_index = i\<rparr>"

definition sized :: "nat \<Rightarrow> bytes list \<Rightarrow> bool" where
  "sized sz xs \<longleftrightarrow> 0 < sz \<and> (\<forall>x\<in>set xs. length x = sz)"

lemma sizedI [intro]: "0 < sz \<Longrightarrow> (\<And>x. x \<in> set xs \<Longrightarrow> length x = sz) \<Longrightarrow> sized sz xs"
  by (simp add: sized_def)

lemma sized_simps [simp]:
  "sized sz [] \<longleftrightarrow> 0 < sz" "sized sz (x # xs) \<longleftrightarrow> length x = sz \<and> sized sz xs" "sized sz (xs @ ys) \<longleftrightarrow> sized sz xs \<and> sized sz ys"
  by (auto simp: sized_def)

lemma sized_map_upt [simp]: "sized sz (map f [a..<b]) \<longleftrightarrow> 0 < sz \<and> (\<forall>i. a \<le> i \<and> i < b \<longrightarrow> length (f i) = sz)"
  by (auto simp: sized_def)

lemma sized_nth: "sized sz xs \<Longrightarrow> i < length xs \<Longrightarrow> length (xs ! i) = sz"
  by (simp add: sized_def)

lemma length_concat_sized: "sized sz xs \<Longrightarrow> length (concat xs) = length xs * sz"
  by (rule length_concat_const) (simp add: sized_def)

lemma mk_symbols_simps [simp]:
  "symbol_size (mk_symbols sz xs) = sz" "sym_data (mk_symbols sz xs) = concat xs"
  "sd_symbols (mk_sliver sz xs i) = mk_symbols sz xs" "sd_index (mk_sliver sz xs i) = i"
  by (simp_all add: mk_symbols_def mk_sliver_def)

lemma mk_symbols_ok: "sized sz xs \<Longrightarrow> symbols_ok (mk_symbols sz xs)"
  by (auto simp: symbols_ok_def length_concat_sized) (simp_all add: sized_def)

lemma to_symbols_mk [simp]: "sized sz xs \<Longrightarrow> to_symbols (mk_symbols sz xs) = xs"
  by (auto simp: to_symbols_def sized_def chunks_concat)

lemma mk_symbols_eqI: "symbols_ok s \<Longrightarrow> symbol_size s = sz \<Longrightarrow> s = mk_symbols sz (to_symbols s)"
  by (cases s) (simp add: mk_symbols_def to_symbols_def symbols_ok_def concat_chunks)

lemma symbols_zeros_mk: "0 < sz \<Longrightarrow> symbols_zeros n sz = mk_symbols sz (replicate n (replicate sz 0))"
  using mk_symbols_eqI [of "symbols_zeros n sz" sz] symbols_zeros_ok [of sz n] by (simp add: symbols_zeros_def)

lemma symbols_index_mk: "sized sz xs \<Longrightarrow> i < length xs \<Longrightarrow> symbols_index (mk_symbols sz xs) i = Ok (xs ! i)"
  by (simp add: symbols_index_eq mk_symbols_ok symbols_len_eq)

lemma symbols_index_mut_copy_mk:
  assumes "sized sz xs" "i < length xs" "length v = sz"
  shows "symbols_index_mut_copy (mk_symbols sz xs) i v = Ok (mk_symbols sz (xs[i := v]))"
proof -
  obtain s where s: "symbols_index_mut_copy (mk_symbols sz xs) i v = (Ok s :: (symbols, 'a) result)" "symbols_ok s" "symbol_size s = sz"
      "to_symbols s = xs[i := v]"
    using symbols_index_mut_copy_eq [OF mk_symbols_ok [OF assms(1)], of i v] assms by auto
  with mk_symbols_eqI [OF s(2,3)] show ?thesis by simp
qed

lemma copy_symbol_to_mk:
  "sized sz xs \<Longrightarrow> i < length xs \<Longrightarrow> length v = sz \<Longrightarrow> copy_symbol_to (mk_sliver sz xs j) i v = Ok (mk_sliver sz (xs[i := v]) j)"
  by (simp add: copy_symbol_to_def symbols_index_mut_copy_mk mk_sliver_def)

lemma symbols_index_range_mk:
  assumes "sized sz xs" "k \<le> length xs"
  shows "symbols_index_range (mk_symbols sz xs) 0 k = Ok (concat (take k xs))"
proof -
  have k: "k * sz \<le> length xs * sz" using assms(2) by simp
  have "concat xs = concat (take k xs) @ concat (drop k xs)" by (metis append_take_drop_id concat_append)
  moreover have "length (concat (take k xs)) = k * sz"
    using assms length_concat_sized [of sz "take k xs"] by (auto simp: sized_def dest: in_set_takeD)
  ultimately have "take (k * sz) (concat xs) = concat (take k xs)" by simp
  then show ?thesis
    using k length_concat_sized [OF assms(1)]
    by (simp add: symbols_index_range_def symbol_range_def vec_slice_def mult.commute [of sz k])
qed

lemma symbols_truncate_mk: "sized sz xs \<Longrightarrow> symbols_truncate k (mk_symbols sz xs) = mk_symbols sz (take k xs)"
  using symbols_truncate_ok [OF mk_symbols_ok, of sz xs k] mk_symbols_eqI [of "symbols_truncate k (mk_symbols sz xs)" sz] by auto

lemma symbols_extend_mk: "sized sz xs \<Longrightarrow> length v = sz \<Longrightarrow> symbols_extend (mk_symbols sz xs) v = Ok (mk_symbols sz (xs @ [v]))"
  by (simp add: symbols_extend_def mk_symbols_def)

lemma map_upt_update: "r < m \<Longrightarrow> (map f [0..<m])[r := v] = map (\<lambda>i. if i = r then v else f i) [0..<m]"
  by (rule nth_equalityI) (auto simp: nth_list_update)

lemma enumerate_nth: "i < length xs \<Longrightarrow> enumerate a xs ! i = (a + i, xs ! i)"
  by (simp add: nth_enumerate_eq)

subsection \<open>Padding\<close>

definition pad :: "nat \<Rightarrow> bytes \<Rightarrow> bytes" where
  "pad n xs = xs @ replicate (n - length xs) 0"

lemma length_pad [simp]: "length xs \<le> n \<Longrightarrow> length (pad n xs) = n"
  by (simp add: pad_def)

lemma pad_id [simp]: "length xs = n \<Longrightarrow> pad n xs = xs"
  by (simp add: pad_def)

lemma pad_Nil [simp]: "pad n [] = replicate n 0"
  by (simp add: pad_def)

text \<open>A padded row is the sequence of its padded symbols.\<close>

lemma pad_split:
  "concat (map (\<lambda>j. pad sz (take sz (drop (sz * j) xs))) [0..<k]) = pad (k * sz) (take (k * sz) xs)"
proof (induction k arbitrary: xs)
  case (Suc k)
  have "[0..<Suc k] = 0 # map Suc [0..<k]" by (simp add: map_Suc_upt upt_conv_Cons del: upt_Suc)
  then have "concat (map (\<lambda>j. pad sz (take sz (drop (sz * j) xs))) [0..<Suc k])
      = pad sz (take sz xs) @ concat (map (\<lambda>j. pad sz (take sz (drop (sz * j) (drop sz xs)))) [0..<k])"
    by (simp add: comp_def ac_simps del: upt_Suc)
  also have "\<dots> = pad sz (take sz xs) @ pad (k * sz) (take (k * sz) (drop sz xs))" by (simp only: Suc.IH)
  also have "\<dots> = pad (Suc k * sz) (take (Suc k * sz) xs)"
  proof (cases "length xs \<le> sz")
    case True
    then show ?thesis by (simp add: pad_def replicate_add [symmetric])
  next
    case False
    then show ?thesis by (simp add: pad_def take_add min_def)
  qed
  finally show ?case .
qed (simp add: pad_def)

lemma copy_to_slice_prefix: "length v \<le> length xs \<Longrightarrow> copy_to_slice xs (0, length v) v = Ok (v @ drop (length v) xs)"
  by (simp add: copy_to_slice_def)

lemma copy_prefix_zeros: "length row \<le> n \<Longrightarrow> copy_to_slice (replicate n 0) (0, length row) row = Ok (pad n row)"
  by (simp add: copy_to_slice_prefix pad_def)

lemma concat_replicate_zeros: "concat (replicate n (replicate sz (0 :: byte))) = replicate (n * sz) 0"
  by (induction n) (simp_all add: replicate_add [symmetric])

lemma zip_copy_zeros:
  assumes "length column = n" "\<forall>x\<in>set column. length x \<le> sz"
  shows "zip_mut (\<lambda>src dest. copy_to_slice dest (0, length src) src) column (replicate n (replicate sz 0)) = Ok (map (pad sz) column)"
proof -
  have "zip_mut (\<lambda>src dest. copy_to_slice dest (0, length src) src) column (replicate n (replicate sz 0))
      = Ok (map (\<lambda>i. if i < length column then pad sz (column ! i) else replicate n (replicate sz 0) ! i) [0..<length (replicate n (replicate sz (0 :: byte)))])"
    using assms by (intro zip_mut_Ok) (simp add: copy_prefix_zeros)
  also have "map (\<lambda>i. if i < length column then pad sz (column ! i) else replicate n (replicate sz 0) ! i) [0..<length (replicate n (replicate sz (0 :: byte)))]
      = map (pad sz) column"
    using assms(1) by (intro nth_equalityI) auto
  finally show ?thesis .
qed

lemma symbols_copy_column_zeros:
  assumes "0 < sz" "length column = n" "\<forall>x\<in>set column. length x \<le> sz"
  shows "symbols_copy_column column (mk_symbols sz (replicate n (replicate sz 0))) = Ok (mk_symbols sz (map (pad sz) column))"
  using assms(1) by (simp add: symbols_copy_column_def sized_def zip_copy_zeros [OF assms(2,3)])


subsection \<open>The matrix of symbols\<close>

definition src :: "rs_config \<Rightarrow> nat \<Rightarrow> bytes \<Rightarrow> nat \<Rightarrow> nat \<Rightarrow> bytes" where
  "src cfg sz blob i j = pad sz (take sz (drop (sz * (source_symbols_secondary cfg * i + j)) blob))"

definition src_row :: "rs_config \<Rightarrow> nat \<Rightarrow> bytes \<Rightarrow> nat \<Rightarrow> bytes list" where
  "src_row cfg sz blob i = map (src cfg sz blob i) [0..<source_symbols_secondary cfg]"

definition row_code :: "'r rs_codec \<Rightarrow> rs_config \<Rightarrow> nat \<Rightarrow> bytes \<Rightarrow> nat \<Rightarrow> bytes list" where
  "row_code C cfg sz blob i = axis_code C Secondary cfg sz (concat (src_row cfg sz blob i))"

definition col_src :: "'r rs_codec \<Rightarrow> rs_config \<Rightarrow> nat \<Rightarrow> bytes \<Rightarrow> nat \<Rightarrow> bytes list" where
  "col_src C cfg sz blob j = map (\<lambda>i. row_code C cfg sz blob i ! j) [0..<source_symbols_primary cfg]"

definition col_code :: "'r rs_codec \<Rightarrow> rs_config \<Rightarrow> nat \<Rightarrow> bytes \<Rightarrow> nat \<Rightarrow> bytes list" where
  "col_code C cfg sz blob j = axis_code C Primary cfg sz (concat (col_src C cfg sz blob j))"

definition msg :: "'r rs_codec \<Rightarrow> rs_config \<Rightarrow> nat \<Rightarrow> bytes \<Rightarrow> nat \<Rightarrow> nat \<Rightarrow> bytes" where
  "msg C cfg sz blob i j = col_code C cfg sz blob j ! i"

lemma length_src [simp]: "length (src cfg sz blob i j) = sz"
  by (simp add: src_def)

lemma src_row_simps [simp]:
  "length (src_row cfg sz blob i) = source_symbols_secondary cfg" "0 < sz \<Longrightarrow> sized sz (src_row cfg sz blob i)"
  "j < source_symbols_secondary cfg \<Longrightarrow> src_row cfg sz blob i ! j = src cfg sz blob i j"
  by (auto simp: src_row_def)

lemma concat_src_row:
  "concat (src_row cfg sz blob i) = pad (source_symbols_secondary cfg * sz)
    (take (source_symbols_secondary cfg * sz) (drop (source_symbols_secondary cfg * sz * i) blob))"
  using pad_split [of sz "drop (source_symbols_secondary cfg * sz * i) blob" "source_symbols_secondary cfg"]
  by (simp add: src_row_def src_def [abs_def] algebra_simps)

lemma row_code_shape:
  assumes "coder_ok C cfg sz"
  shows "length (row_code C cfg sz blob i) = n_shards cfg" "j < n_shards cfg \<Longrightarrow> length (row_code C cfg sz blob i ! j) = sz"
    "j < source_symbols_secondary cfg \<Longrightarrow> row_code C cfg sz blob i ! j = src cfg sz blob i j"
proof -
  have sz: "0 < sz" using coder_okD(2) [OF assms] .
  have len: "length (concat (src_row cfg sz blob i)) = n_source_symbols Secondary cfg * sz"
    using length_concat_sized [of sz "src_row cfg sz blob i"] sz by simp
  note sh = axis_code_shape [OF assms len]
  show "length (row_code C cfg sz blob i) = n_shards cfg" "j < n_shards cfg \<Longrightarrow> length (row_code C cfg sz blob i ! j) = sz"
    using sh(1,4) by (simp_all add: row_code_def)
  have "chunks sz (concat (src_row cfg sz blob i)) = src_row cfg sz blob i"
    using to_symbols_mk [of sz "src_row cfg sz blob i"] sz by (simp add: to_symbols_def)
  then show "j < source_symbols_secondary cfg \<Longrightarrow> row_code C cfg sz blob i ! j = src cfg sz blob i j"
    using sh(5) [of j] by (simp add: row_code_def)
qed

lemma col_src_simps:
  assumes "coder_ok C cfg sz" "j < n_shards cfg"
  shows "length (col_src C cfg sz blob j) = source_symbols_primary cfg" "sized sz (col_src C cfg sz blob j)"
    "length (concat (col_src C cfg sz blob j)) = source_symbols_primary cfg * sz"
proof -
  show len: "length (col_src C cfg sz blob j) = source_symbols_primary cfg" by (simp add: col_src_def)
  show s: "sized sz (col_src C cfg sz blob j)"
    using assms coder_okD(2) [OF assms(1)] row_code_shape(2) [OF assms(1)] by (auto simp: col_src_def)
  show "length (concat (col_src C cfg sz blob j)) = source_symbols_primary cfg * sz"
    using length_concat_sized [OF s] len by simp
qed

lemma msg_shape:
  assumes "coder_ok C cfg sz" "j < n_shards cfg"
  shows "length (col_code C cfg sz blob j) = n_shards cfg" "i < n_shards cfg \<Longrightarrow> length (msg C cfg sz blob i j) = sz"
    "i < source_symbols_primary cfg \<Longrightarrow> msg C cfg sz blob i j = row_code C cfg sz blob i ! j"
    "col_code C cfg sz blob j = map (\<lambda>i. msg C cfg sz blob i j) [0..<n_shards cfg]"
proof -
  have len: "length (concat (col_src C cfg sz blob j)) = n_source_symbols Primary cfg * sz" using col_src_simps(3) [OF assms] by simp
  note sh = axis_code_shape [OF assms(1) len]
  show l: "length (col_code C cfg sz blob j) = n_shards cfg" and "i < n_shards cfg \<Longrightarrow> length (msg C cfg sz blob i j) = sz"
    using sh(1,4) by (simp_all add: col_code_def msg_def)
  have "chunks sz (concat (col_src C cfg sz blob j)) = col_src C cfg sz blob j"
    using to_symbols_mk [OF col_src_simps(2) [OF assms]] by (simp add: to_symbols_def)
  then show "i < source_symbols_primary cfg \<Longrightarrow> msg C cfg sz blob i j = row_code C cfg sz blob i ! j"
    using sh(5) [of i] by (simp add: col_code_def msg_def col_src_def)
  show "col_code C cfg sz blob j = map (\<lambda>i. msg C cfg sz blob i j) [0..<n_shards cfg]"
    using l by (intro nth_equalityI) (simp_all add: msg_def)
qed

text \<open>The slivers of the matrix.\<close>

definition primary_sliver :: "'r rs_codec \<Rightarrow> rs_config \<Rightarrow> nat \<Rightarrow> bytes \<Rightarrow> nat \<Rightarrow> sliver_data" where
  "primary_sliver C cfg sz blob i = mk_sliver sz (map (msg C cfg sz blob i) [0..<source_symbols_secondary cfg]) i"

definition secondary_sliver :: "'r rs_codec \<Rightarrow> rs_config \<Rightarrow> nat \<Rightarrow> bytes \<Rightarrow> nat \<Rightarrow> sliver_data" where
  "secondary_sliver C cfg sz blob j = mk_sliver sz (map (\<lambda>i. msg C cfg sz blob i j) [0..<source_symbols_primary cfg]) j"

lemma primary_sliver_systematic:
  assumes "coder_ok C cfg sz" "i < source_symbols_primary cfg"
  shows "primary_sliver C cfg sz blob i = mk_sliver sz (src_row cfg sz blob i) i"
proof -
  have "source_symbols_secondary cfg \<le> n_shards cfg" using coder_ok_axis(2) [OF assms(1), of Secondary] by simp
  then have "map (msg C cfg sz blob i) [0..<source_symbols_secondary cfg] = src_row cfg sz blob i"
    using assms by (auto simp: src_row_def msg_shape(3) row_code_shape(3))
  then show ?thesis by (simp add: primary_sliver_def)
qed

lemma secondary_sliver_eq:
  assumes "coder_ok C cfg sz" "j < n_shards cfg"
  shows "secondary_sliver C cfg sz blob j = mk_sliver sz (col_src C cfg sz blob j) j"
proof -
  have "map (\<lambda>i. msg C cfg sz blob i j) [0..<source_symbols_primary cfg] = col_src C cfg sz blob j"
    unfolding col_src_def by (rule map_cong) (auto simp: msg_shape(3) [OF assms])
  then show ?thesis by (simp add: secondary_sliver_def)
qed

definition blob_hashes :: "hash_fun \<Rightarrow> 'r rs_codec \<Rightarrow> rs_config \<Rightarrow> nat \<Rightarrow> bytes \<Rightarrow> sliver_pair_metadata list" where
  "blob_hashes h C cfg sz blob =
    map (\<lambda>i. \<lparr>primary_hash = root (build h (map (msg C cfg sz blob i) [0..<n_shards cfg])),
              secondary_hash = root (build h (col_code C cfg sz blob (n_shards cfg - 1 - i)))\<rparr>) [0..<n_shards cfg]"

definition blob_pairs :: "'r rs_codec \<Rightarrow> rs_config \<Rightarrow> nat \<Rightarrow> bytes \<Rightarrow> sliver_pair list" where
  "blob_pairs C cfg sz blob =
    map (\<lambda>i. \<lparr>primary = primary_sliver C cfg sz blob i, secondary = secondary_sliver C cfg sz blob (n_shards cfg - 1 - i)\<rparr>) [0..<n_shards cfg]"

definition blob_md :: "hash_fun \<Rightarrow> 'r rs_codec \<Rightarrow> rs_config \<Rightarrow> nat \<Rightarrow> bytes \<Rightarrow> blob_metadata_with_id" where
  "blob_md h C cfg sz blob = new_verified_from_metadata h (blob_hashes h C cfg sz blob) rs_encoding_type (length blob)"

subsection \<open>Encoders\<close>

definition fresh_encoder :: "axis \<Rightarrow> rs_config \<Rightarrow> nat \<Rightarrow> rs_encoder" where
  "fresh_encoder a cfg sz = \<lparr>enc_n_source_symbols = n_source_symbols a cfg, enc_n_shards = n_shards cfg, enc_symbol_size = sz, encoded_symbols = None\<rparr>"

definition encoder_for :: "'r rs_codec \<Rightarrow> axis \<Rightarrow> rs_config \<Rightarrow> nat \<Rightarrow> rs_encoder \<Rightarrow> bool" where
  "encoder_for C a cfg sz e \<longleftrightarrow> encoder_ok C e \<and> enc_n_source_symbols e = n_source_symbols a cfg \<and> enc_n_shards e = n_shards cfg \<and> enc_symbol_size e = sz"

definition mk_data :: "rs_config \<Rightarrow> nat \<Rightarrow> blob_encoder_data" where
  "mk_data cfg sz = \<lparr>be_symbol_size = sz, be_n_rows = source_symbols_primary cfg, be_n_columns = source_symbols_secondary cfg, be_config = cfg\<rparr>"

lemma mk_data_simps [simp]:
  "be_symbol_size (mk_data cfg sz) = sz" "be_n_rows (mk_data cfg sz) = source_symbols_primary cfg"
  "be_n_columns (mk_data cfg sz) = source_symbols_secondary cfg" "be_config (mk_data cfg sz) = cfg"
  by (simp_all add: mk_data_def)

lemma be_get_encoder_eq:
  assumes "coder_ok C cfg sz"
  shows "be_get_encoder C a (mk_data cfg sz) = Ok (fresh_encoder a cfg sz)" "encoder_for C a cfg sz (fresh_encoder a cfg sz)"
proof -
  obtain e where e: "get_encoder C a cfg (n_source_symbols a cfg * sz) = Ok e" "encoder_ok C e" "encoded_symbols e = None"
    "enc_n_source_symbols e = n_source_symbols a cfg" "enc_n_shards e = n_shards cfg" "enc_symbol_size e = sz"
    using get_encoder_Ok [OF assms, of _ a] by blast
  have f: "e = fresh_encoder a cfg sz" using e(3-6) by (simp add: fresh_encoder_def)
  show "be_get_encoder C a (mk_data cfg sz) = Ok (fresh_encoder a cfg sz)" using e(1) f by (simp add: be_get_encoder_def sliver_length_def)
  show "encoder_for C a cfg sz (fresh_encoder a cfg sz)" using e f by (simp add: encoder_for_def)
qed

lemma encoder_for_code: "encoder_for C a cfg sz e \<Longrightarrow> encoder_code C e d = axis_code C a cfg sz d \<and> encoder_len e = n_source_symbols a cfg * sz"
  by (simp add: encoder_for_def encoder_code_def axis_code_def encoder_len_def)

lemma encode_for:
  assumes "encoder_for C a cfg sz e" "length d = n_source_symbols a cfg * sz"
  shows "encode C e d = Ok (drop (n_source_symbols a cfg) (axis_code C a cfg sz d))"
  using assms encode_eq [of C e d] encoder_for_code [OF assms(1)] by (simp add: encoder_for_def)

lemma encode_all_ref_for:
  assumes "encoder_for C a cfg sz e" "length d = n_source_symbols a cfg * sz"
  shows "encode_all_ref C e d = (Ok (mk_symbols sz (axis_code C a cfg sz d)), e\<lparr>encoded_symbols := Some (mk_symbols sz (axis_code C a cfg sz d))\<rparr>)"
    "encoder_for C a cfg sz (e\<lparr>encoded_symbols := Some (mk_symbols sz (axis_code C a cfg sz d))\<rparr>)"
proof -
  have ok: "encoder_ok C e" "length d = encoder_len e" "enc_symbol_size e = sz" using assms encoder_for_code [OF assms(1)] by (auto simp: encoder_for_def)
  obtain s where s: "encode_all C e d = (Ok s, e\<lparr>encoded_symbols := None\<rparr>)" "symbols_ok s" "symbol_size s = sz" "to_symbols s = axis_code C a cfg sz d"
    using encode_all_eq [OF ok(1,2)] encoder_for_code [OF assms(1)] ok(3) by auto
  have m: "s = mk_symbols sz (axis_code C a cfg sz d)" using mk_symbols_eqI [OF s(2,3)] s(4) by simp
  show "encode_all_ref C e d = (Ok (mk_symbols sz (axis_code C a cfg sz d)), e\<lparr>encoded_symbols := Some (mk_symbols sz (axis_code C a cfg sz d))\<rparr>)"
    using s(1) m by (simp add: encode_all_ref_def)
  show "encoder_for C a cfg sz (e\<lparr>encoded_symbols := Some (mk_symbols sz (axis_code C a cfg sz d))\<rparr>)"
    using assms(1) s(2,3) m by (auto simp: encoder_for_def encoder_ok_def)
qed

lemma config_repair_mk:
  assumes "coder_ok C cfg sz" "length d = n_source_symbols a cfg * sz"
  shows "config_encode_all_repair_symbols C a cfg d = Ok (mk_symbols sz (drop (n_source_symbols a cfg) (axis_code C a cfg sz d)))"
  using config_encode_all_repair_symbols_eq [OF assms] mk_symbols_eqI by metis

subsection \<open>The systematic slivers\<close>

definition mk_encoder :: "rs_config \<Rightarrow> nat \<Rightarrow> owned_or_borrowed_blob \<Rightarrow> blob_encoder" where
  "mk_encoder cfg sz b = \<lparr>be_blob = b, be_inner = mk_data cfg sz\<rparr>"

lemma mk_encoder_simps [simp]: "be_blob (mk_encoder cfg sz b) = b" "be_inner (mk_encoder cfg sz b) = mk_data cfg sz"
  by (simp_all add: mk_encoder_def)

lemma blob_len_eq: "blob_len b = length (blob_as_ref b)"
  by (cases b) simp_all

lemma take_min_slice: "take (min (min s l + k) l - min s l) (drop (min s l) xs) = take k (drop s xs)" if "l = length xs"
  using that by (cases "s \<le> l") (auto simp: min_def)

lemma symbol_at_eq:
  "symbol_at (mk_encoder cfg sz b) i j = take sz (drop (sz * (source_symbols_secondary cfg * i + j)) (blob_as_ref b))"
  by (simp add: symbol_at_def Let_def be_data_def blob_len_eq take_min_slice)

lemma rows_all_eq:
  "rows_all (mk_encoder cfg sz b) = map (\<lambda>i. take (source_symbols_secondary cfg * sz) (drop (source_symbols_secondary cfg * sz * i) (blob_as_ref b))) [0..<source_symbols_primary cfg]"
  by (simp add: rows_all_def Let_def be_data_def blob_len_eq take_min_slice) (simp add: ac_simps)

lemma column_symbols_eq:
  "column_symbols (mk_encoder cfg sz b) = map (\<lambda>j. map (\<lambda>i. take sz (drop (sz * (source_symbols_secondary cfg * i + j)) (blob_as_ref b))) [0..<source_symbols_primary cfg]) [0..<source_symbols_secondary cfg]"
  by (simp add: column_symbols_def symbol_at_eq)

lemma be_rows_nth:
  assumes "0 < sz" "0 < source_symbols_secondary cfg"
  shows "i < length (be_rows (mk_encoder cfg sz b)) \<longleftrightarrow> source_symbols_secondary cfg * sz * i < length (blob_as_ref b)"
    "i < length (be_rows (mk_encoder cfg sz b)) \<Longrightarrow> be_rows (mk_encoder cfg sz b) ! i =
      take (source_symbols_secondary cfg * sz) (drop (source_symbols_secondary cfg * sz * i) (blob_as_ref b))"
  using assms by (simp_all add: be_rows_def be_data_def length_chunks_gr chunks_nth_general)

lemma empty_sliver_mk:
  "0 < sz \<Longrightarrow> empty_sliver a (mk_data cfg sz) i = mk_sliver sz (replicate (n_source_symbols (orthogonal a) cfg) (replicate sz 0)) i"
  by (simp add: empty_sliver_def sliver_new_empty_def symbols_zeros_mk mk_sliver_def)

lemma src_row_beyond:
  assumes "length blob \<le> source_symbols_secondary cfg * sz * i"
  shows "src_row cfg sz blob i = replicate (source_symbols_secondary cfg) (replicate sz 0)"
proof -
  have "length blob \<le> sz * (source_symbols_secondary cfg * i + j)" for j
    using assms by (simp add: algebra_simps)
  then show ?thesis by (intro nth_equalityI) (auto simp: src_def)
qed

lemma copy_prefix_mk:
  "length row \<le> k * sz \<Longrightarrow> symbols_copy_prefix row (mk_symbols sz (replicate k (replicate sz 0))) = Ok \<lparr>sym_data = pad (k * sz) row, symbol_size = sz\<rparr>"
  by (simp add: symbols_copy_prefix_def concat_replicate_zeros copy_prefix_zeros mk_symbols_def)

lemma copy_prefix_src_row:
  shows "symbols_copy_prefix (take (source_symbols_secondary cfg * sz) (drop (source_symbols_secondary cfg * sz * i) blob))
      (mk_symbols sz (replicate (source_symbols_secondary cfg) (replicate sz 0)))
    = Ok (mk_symbols sz (src_row cfg sz blob i))"
  by (subst copy_prefix_mk) (simp_all add: mk_symbols_def concat_src_row)

lemma copy_rows_eq:
  assumes "coder_ok C cfg sz"
  shows "copy_rows (mk_encoder cfg sz b) (empty_slivers_range Primary (mk_data cfg sz) 0 (source_symbols_primary cfg))
    = Ok (map (\<lambda>i. mk_sliver sz (src_row cfg sz (blob_as_ref b) i) i) [0..<source_symbols_primary cfg])"
proof -
  let ?rows = "be_rows (mk_encoder cfg sz b)" and ?ys = "empty_slivers_range Primary (mk_data cfg sz) 0 (source_symbols_primary cfg)"
  let ?g = "\<lambda>i. mk_sliver sz (src_row cfg sz (blob_as_ref b) i) i"
  have sz: "0 < sz" "0 < source_symbols_secondary cfg" using coder_okD(2) [OF assms] coder_ok_axis(1) [OF assms, of Secondary] by simp_all
  have ys: "i < length ?ys \<Longrightarrow> ?ys ! i = mk_sliver sz (replicate (source_symbols_secondary cfg) (replicate sz 0)) i" "length ?ys = source_symbols_primary cfg" for i
    by (simp_all add: empty_slivers_range_def empty_sliver_mk sz)
  have "copy_rows (mk_encoder cfg sz b) ?ys = Ok (map (\<lambda>i. if i < length ?rows then ?g i else ?ys ! i) [0..<length ?ys])"
    unfolding copy_rows_def
  proof (rule zip_mut_Ok)
    fix i assume "i < length ?rows" "i < length ?ys"
    then show "on_symbols (symbols_copy_prefix (?rows ! i)) (?ys ! i) = Ok (?g i)"
      by (simp add: on_symbols_def ys(1) be_rows_nth(2) [OF sz] copy_prefix_src_row mk_sliver_def)
  qed
  also have "map (\<lambda>i. if i < length ?rows then ?g i else ?ys ! i) [0..<length ?ys] = map ?g [0..<source_symbols_primary cfg]"
    using be_rows_nth(1) [OF sz, of _ b] ys src_row_beyond [of "blob_as_ref b" cfg sz] by (auto simp: not_less)
  finally show ?thesis .
qed

text \<open>A vector of slivers in which sliver \<open>j\<close> has the symbols \<open>f i j\<close> and the index \<open>ix j\<close>.\<close>

definition slivers_of :: "(nat \<Rightarrow> nat) \<Rightarrow> nat \<Rightarrow> nat \<Rightarrow> (nat \<Rightarrow> nat \<Rightarrow> bytes) \<Rightarrow> nat list \<Rightarrow> sliver_data list" where
  "slivers_of ix sz m f js = map (\<lambda>j. mk_sliver sz (map (\<lambda>i. f i j) [0..<m]) (ix j)) js"

lemma slivers_of_cong:
  "(\<And>i j. i < m \<Longrightarrow> j \<in> set js \<Longrightarrow> f i j = g i j) \<Longrightarrow> slivers_of ix sz m f js = slivers_of ix sz m g js"
  unfolding slivers_of_def by (intro map_cong refl arg_cong2 [where f = "mk_sliver sz"]) auto

lemma length_slivers_of [simp]: "length (slivers_of ix sz m f js) = length js"
  by (simp add: slivers_of_def)

lemma slivers_of_append: "slivers_of ix sz m f (is @ js) = slivers_of ix sz m f is @ slivers_of ix sz m f js"
  by (simp add: slivers_of_def)

lemma take_upt_min: "take k [a..<b] = [a..<min (a + k) b]"
  by (cases "a + k \<le> b") (simp_all add: min_def)

lemma take_drop_slivers_of:
  "take k (slivers_of ix sz m f [a..<b]) = slivers_of ix sz m f [a..<min (a + k) b]" "drop k (slivers_of ix sz m f [a..<b]) = slivers_of ix sz m f [a + k..<b]"
  by (simp_all add: slivers_of_def take_map drop_map take_upt_min)

text \<open>Writing a column of symbols, one to each sliver.\<close>

lemma zip_copy_symbols:
  assumes "0 < sz" "r < m" "length xs = length js" "sized sz xs" "\<And>i j. i < m \<Longrightarrow> j \<in> set js \<Longrightarrow> length (f i j) = sz"
    and "\<And>q. q < length js \<Longrightarrow> xs ! q = v (js ! q)"
  shows "zip_mut (\<lambda>symbol sliver. copy_symbol_to sliver r symbol) xs (slivers_of ix sz m f js)
    = Ok (slivers_of ix sz m (\<lambda>i j. if i = r then v j else f i j) js)"
proof -
  let ?h = "\<lambda>i j. if i = r then v j else f i j"
  have "zip_mut (\<lambda>symbol sliver. copy_symbol_to sliver r symbol) xs (slivers_of ix sz m f js)
      = Ok (map (\<lambda>q. if q < length xs then mk_sliver sz (map (\<lambda>i. ?h i (js ! q)) [0..<m]) (ix (js ! q)) else slivers_of ix sz m f js ! q) [0..<length (slivers_of ix sz m f js)])"
  proof (rule zip_mut_Ok)
    fix q assume q: "q < length xs" "q < length (slivers_of ix sz m f js)"
    have "sized sz (map (\<lambda>i. f i (js ! q)) [0..<m])" using assms(1,5) q by simp
    moreover have "length (xs ! q) = sz" using assms(4) q(1) by (rule sized_nth)
    ultimately show "copy_symbol_to (slivers_of ix sz m f js ! q) r (xs ! q) = Ok (mk_sliver sz (map (\<lambda>i. ?h i (js ! q)) [0..<m]) (ix (js ! q)))"
      using q assms(2,6) by (simp add: slivers_of_def copy_symbol_to_mk map_upt_update cong: if_cong)
  qed
  also have "map (\<lambda>q. if q < length xs then mk_sliver sz (map (\<lambda>i. ?h i (js ! q)) [0..<m]) (ix (js ! q)) else slivers_of ix sz m f js ! q) [0..<length (slivers_of ix sz m f js)]
      = slivers_of ix sz m ?h js"
    using assms(3) by (intro nth_equalityI) (auto simp: slivers_of_def cong: if_cong)
  finally show ?thesis .
qed

lemma copy_columns_eq:
  assumes "coder_ok C cfg sz"
  shows "copy_columns (mk_encoder cfg sz b) (empty_slivers Secondary (mk_data cfg sz))
    = Ok (slivers_of (\<lambda>j. j) sz (source_symbols_primary cfg)
        (\<lambda>i j. if j < source_symbols_secondary cfg then src cfg sz (blob_as_ref b) i j else replicate sz 0) [0..<n_shards cfg])"
proof -
  let ?cols = "column_symbols (mk_encoder cfg sz b)" and ?ys = "empty_slivers Secondary (mk_data cfg sz)"
  let ?nr = "source_symbols_primary cfg" and ?nc = "source_symbols_secondary cfg"
  let ?g = "\<lambda>j. mk_sliver sz (map (\<lambda>i. src cfg sz (blob_as_ref b) i j) [0..<?nr]) j"
  have sz: "0 < sz" "?nc \<le> n_shards cfg" using coder_okD(2) [OF assms] coder_ok_axis(2) [OF assms, of Secondary] by simp_all
  have ys: "j < length ?ys \<Longrightarrow> ?ys ! j = mk_sliver sz (replicate ?nr (replicate sz 0)) j" "length ?ys = n_shards cfg" for j
    by (simp_all add: empty_slivers_def empty_slivers_range_def empty_sliver_mk sz)
  have "copy_columns (mk_encoder cfg sz b) ?ys = Ok (map (\<lambda>j. if j < length ?cols then ?g j else ?ys ! j) [0..<length ?ys])"
    unfolding copy_columns_def
  proof (rule zip_mut_Ok)
    fix j assume j: "j < length ?cols" "j < length ?ys"
    have "symbols_copy_column (?cols ! j) (mk_symbols sz (replicate ?nr (replicate sz 0))) = Ok (mk_symbols sz (map (pad sz) (?cols ! j)))"
      by (rule symbols_copy_column_zeros) (use sz j in \<open>auto simp: column_symbols_eq\<close>)
    moreover have "map (pad sz) (?cols ! j) = map (\<lambda>i. src cfg sz (blob_as_ref b) i j) [0..<?nr]"
      using j by (simp add: column_symbols_eq src_def)
    ultimately show "on_symbols (symbols_copy_column (?cols ! j)) (?ys ! j) = Ok (?g j)"
      using j by (simp add: on_symbols_def ys(1) mk_sliver_def)
  qed
  also have "map (\<lambda>j. if j < length ?cols then ?g j else ?ys ! j) [0..<length ?ys]
      = slivers_of (\<lambda>j. j) sz ?nr (\<lambda>i j. if j < ?nc then src cfg sz (blob_as_ref b) i j else replicate sz 0) [0..<n_shards cfg]"
    by (intro nth_equalityI) (auto simp: slivers_of_def ys column_symbols_eq map_replicate_const)
  finally show ?thesis .
qed

subsection \<open>Expanding the rows\<close>

lemma write_repair_symbols_eq:
  assumes ok: "coder_ok C cfg sz" and e: "encoder_for C Secondary cfg sz e" and r: "r < m" and d: "length d = source_symbols_secondary cfg * sz"
    and f: "\<And>i j. i < m \<Longrightarrow> j < n_shards cfg \<Longrightarrow> length (f i j) = sz"
    and v: "\<And>j. v j = axis_code C Secondary cfg sz d ! j"
    and skip: "length ys = k"
  shows "write_repair_symbols C e k r d (ys @ slivers_of ix sz m f [source_symbols_secondary cfg..<n_shards cfg])
    = Ok (ys @ slivers_of ix sz m (\<lambda>i j. if i = r then v j else f i j) [source_symbols_secondary cfg..<n_shards cfg])"
proof -
  let ?nc = "source_symbols_secondary cfg" and ?w = "axis_code C Secondary cfg sz d"
  have d': "length d = n_source_symbols Secondary cfg * sz" using d by simp
  have sz: "0 < sz" "?nc \<le> n_shards cfg" using coder_okD(2) [OF ok] coder_ok_axis(2) [OF ok, of Secondary] by simp_all
  have w: "length ?w = n_shards cfg" "\<forall>x\<in>set ?w. length x = sz" using axis_code_shape(1,2) [OF ok d'] by auto
  have "sized sz (drop ?nc ?w)" using sz(1) w(2) by (auto dest: in_set_dropD)
  then have "zip_mut (\<lambda>symbol sliver. copy_symbol_to sliver r symbol) (drop ?nc ?w) (slivers_of ix sz m f [?nc..<n_shards cfg])
      = (Ok (slivers_of ix sz m (\<lambda>i j. if i = r then v j else f i j) [?nc..<n_shards cfg]) :: (sliver_data list, 'b) result)"
    using sz r w(1) f v by (intro zip_copy_symbols) auto
  then show ?thesis using skip by (simp add: write_repair_symbols_def encode_for [OF e d'])
qed

lemma map_data_slivers_of: "map (\<lambda>s. sym_data (sd_symbols s)) (slivers_of ix sz m f js) = map (\<lambda>j. concat (map (\<lambda>i. f i j) [0..<m])) js"
  by (simp add: slivers_of_def)

text \<open>The columns after \<open>k\<close> rows have been expanded.\<close>

definition partial_cols :: "'r rs_codec \<Rightarrow> rs_config \<Rightarrow> nat \<Rightarrow> bytes \<Rightarrow> nat \<Rightarrow> nat \<Rightarrow> nat \<Rightarrow> bytes" where
  "partial_cols C cfg sz blob k i j = (if j < source_symbols_secondary cfg then src cfg sz blob i j
    else if i < k then row_code C cfg sz blob i ! j else replicate sz 0)"

lemma length_partial_cols [simp]: "coder_ok C cfg sz \<Longrightarrow> j < n_shards cfg \<Longrightarrow> length (partial_cols C cfg sz blob k i j) = sz"
  by (simp add: partial_cols_def row_code_shape(2))

lemma partial_cols_step:
  "slivers_of ix sz m (\<lambda>i j. if i = k then row_code C cfg sz blob k ! j else partial_cols C cfg sz blob k i j) [source_symbols_secondary cfg..<n]
    = slivers_of ix sz m (partial_cols C cfg sz blob (Suc k)) [source_symbols_secondary cfg..<n]"
  by (rule slivers_of_cong) (auto simp: partial_cols_def)

lemma partial_cols_full:
  assumes "coder_ok C cfg sz"
  shows "slivers_of ix sz (source_symbols_primary cfg) (partial_cols C cfg sz blob (source_symbols_primary cfg)) js
    = slivers_of ix sz (source_symbols_primary cfg) (\<lambda>i j. row_code C cfg sz blob i ! j) js"
  by (rule slivers_of_cong) (auto simp: partial_cols_def row_code_shape(3) [OF assms])

lemma length_concat_src_row: "0 < sz \<Longrightarrow> length (concat (src_row cfg sz blob i)) = source_symbols_secondary cfg * sz"
  using length_concat_sized [of sz "src_row cfg sz blob i"] by simp

lemma expand_rows_eq:
  assumes ok: "coder_ok C cfg sz"
  shows "expand_rows C (mk_data cfg sz) (map (\<lambda>i. mk_sliver sz (src_row cfg sz blob i) i) [0..<source_symbols_primary cfg])
      (slivers_of (\<lambda>j. j) sz (source_symbols_primary cfg) (partial_cols C cfg sz blob 0) [0..<n_shards cfg])
    = Ok (slivers_of (\<lambda>j. j) sz (source_symbols_primary cfg) (\<lambda>i j. row_code C cfg sz blob i ! j) [0..<n_shards cfg])"
proof -
  let ?nr = "source_symbols_primary cfg" and ?nc = "source_symbols_secondary cfg" and ?n = "n_shards cfg"
  let ?rows = "map (\<lambda>i. mk_sliver sz (src_row cfg sz blob i) i) [0..<?nr]"
  let ?g = "\<lambda>k. slivers_of (\<lambda>j. j) sz ?nr (partial_cols C cfg sz blob k) [0..<?n]"
  let ?f = "\<lambda>secs (r, row). write_repair_symbols C (fresh_encoder Secondary cfg sz) ?nc r (sym_data (sd_symbols row)) secs"
  have sz: "0 < sz" "?nc \<le> ?n" using coder_okD(2) [OF ok] coder_ok_axis(2) [OF ok, of Secondary] by simp_all
  then have upt: "[0..<?n] = [0..<?nc] @ [?nc..<?n]" using upt_add_eq_append [of 0 ?nc "?n - ?nc"] by simp
  have "try_fold ?f (?g 0) (enumerate 0 (take ?nr ?rows)) = Ok (?g (length (enumerate 0 (take ?nr ?rows))))"
  proof (rule try_fold_states)
    fix k assume "k < length (enumerate 0 (take ?nr ?rows))"
    then have k: "k < ?nr" by simp
    have "write_repair_symbols C (fresh_encoder Secondary cfg sz) ?nc k (concat (src_row cfg sz blob k)) (?g k)
      = Ok (slivers_of (\<lambda>j. j) sz ?nr (partial_cols C cfg sz blob k) [0..<?nc]
          @ slivers_of (\<lambda>j. j) sz ?nr (\<lambda>i j. if i = k then row_code C cfg sz blob k ! j else partial_cols C cfg sz blob k i j) [?nc..<?n])"
      unfolding upt slivers_of_append
      by (rule write_repair_symbols_eq [OF ok be_get_encoder_eq(2) [OF ok] k]) (use sz ok in \<open>auto simp: length_concat_src_row row_code_def\<close>)
    also have "slivers_of (\<lambda>j. j) sz ?nr (partial_cols C cfg sz blob k) [0..<?nc] = slivers_of (\<lambda>j. j) sz ?nr (partial_cols C cfg sz blob (Suc k)) [0..<?nc]"
      by (rule slivers_of_cong) (simp add: partial_cols_def)
    finally show "?f (?g k) (enumerate 0 (take ?nr ?rows) ! k) = Ok (?g (Suc k))"
      using k by (simp add: enumerate_nth partial_cols_step upt slivers_of_append)
  qed
  then show ?thesis by (simp add: expand_rows_def be_get_encoder_eq(1) [OF ok] partial_cols_full [OF ok])
qed

subsection \<open>Expanding the columns and hashing\<close>

definition grid :: "nat \<Rightarrow> (nat \<Rightarrow> nat \<Rightarrow> 'a) \<Rightarrow> 'a list" where
  "grid n f = map (\<lambda>p. f (p div n) (p mod n)) [0..<n * n]"

lemma length_grid [simp]: "length (grid n f) = n * n"
  by (simp add: grid_def)

lemma grid_index: "i < n \<Longrightarrow> j < n \<Longrightarrow> n * i + j < n * (n :: nat)"
proof -
  assume "i < n" "j < n"
  then have "n * i + j < n * Suc i" "n * Suc i \<le> n * n" by (simp, intro mult_le_mono) auto
  then show ?thesis by simp
qed

lemma grid_nth: "i < n \<Longrightarrow> j < n \<Longrightarrow> grid n f ! (n * i + j) = f i j"
  using grid_index [of i n j] by (simp add: grid_def)

lemma grid_update: "r < n \<Longrightarrow> c < n \<Longrightarrow> (grid n f)[n * r + c := v] = grid n (\<lambda>i j. if i = r \<and> j = c then v else f i j)"
proof (rule nth_equalityI)
  fix p assume rc: "r < n" "c < n" and "p < length ((grid n f)[n * r + c := v])"
  then have p: "p < n * n" by simp
  have "p = n * r + c \<longleftrightarrow> p div n = r \<and> p mod n = c" using rc by auto
  then show "(grid n f)[n * r + c := v] ! p = grid n (\<lambda>i j. if i = r \<and> j = c then v else f i j) ! p"
    using p by (auto simp: grid_def nth_list_update)
qed simp

lemma grid_cong: "(\<And>i j. i < n \<Longrightarrow> j < n \<Longrightarrow> f i j = g i j) \<Longrightarrow> grid n f = grid n g"
proof -
  assume fg: "\<And>i j. i < n \<Longrightarrow> j < n \<Longrightarrow> f i j = g i j"
  have "f (p div n) (p mod n) = g (p div n) (p mod n)" if "p < n * n" for p
    by (rule fg) (use that in \<open>auto simp: less_mult_imp_div_less intro!: mod_less_divisor gr0I\<close>)
  then show ?thesis by (simp add: grid_def)
qed

lemma grid_const: "grid n (\<lambda>i j. x) = replicate (n * n) x"
  by (simp add: grid_def map_replicate_const)

lemma grid_row: "i < n \<Longrightarrow> take n (drop (n * i) (grid n f)) = map (f i) [0..<n]"
proof (rule nth_equalityI)
  assume i: "i < n"
  then have le: "n * i + n \<le> n * n" using mult_le_mono2 [of "Suc i" n n] by simp
  then show "length (take n (drop (n * i) (grid n f))) = length (map (f i) [0..<n])" by simp
  fix j assume "j < length (take n (drop (n * i) (grid n f)))"
  then show "take n (drop (n * i) (grid n f)) ! j = map (f i) [0..<n] ! j" using le i grid_nth [OF i, of j f] by (simp add: less_imp_le)
qed

lemma write_hashes_eq:
  assumes "length xs = n" "c < n"
  shows "write_hashes h n c xs (grid n f) = Ok (grid n (\<lambda>i j. if j = c then leaf_hash h (xs ! i) else f i j))"
proof -
  let ?g = "\<lambda>k. grid n (\<lambda>i j. if i < k \<and> j = c then leaf_hash h (xs ! i) else f i j)"
  have "write_hashes h n c xs (?g 0) = Ok (?g (length (enumerate 0 xs)))"
    unfolding write_hashes_def
  proof (rule try_fold_states)
    fix k assume "k < length (enumerate 0 xs)"
    then have k: "k < n" using assms by simp
    have "(?g k)[n * k + c := leaf_hash h (xs ! k)] = ?g (Suc k)"
      unfolding grid_update [OF k assms(2)] by (rule grid_cong) (auto simp: less_Suc_eq)
    then show "(\<lambda>hs (row_index, symbol). if n * row_index + c < length hs then Ok (hs[n * row_index + c := leaf_hash h symbol]) else Panic)
        (?g k) (enumerate 0 xs ! k) = Ok (?g (Suc k))"
      using k assms grid_index [OF k assms(2)] by (simp add: enumerate_nth)
  qed
  also have "?g (length (enumerate 0 xs)) = grid n (\<lambda>i j. if j = c then leaf_hash h (xs ! i) else f i j)"
    by (rule grid_cong) (simp add: assms)
  finally show ?thesis by simp
qed

lemma compute_metadata_from_grid:
  assumes "coder_ok C cfg sz"
  shows "compute_metadata_from_symbol_hashes h cfg (grid (n_shards cfg) (\<lambda>i j. leaf_hash h (msg C cfg sz blob i j))) (length blob)
    = Ok (blob_md h C cfg sz blob)"
proof -
  let ?n = "n_shards cfg" and ?g = "grid (n_shards cfg) (\<lambda>i j. leaf_hash h (msg C cfg sz blob i j))"
  have col: "map (\<lambda>s. ?g ! (?n * s + ?n - 1 - i)) [0..<?n] = map (leaf_hash h) (col_code C cfg sz blob (?n - 1 - i))" if "i < ?n" for i
  proof -
    have "?g ! (?n * s + ?n - 1 - i) = leaf_hash h (msg C cfg sz blob s (?n - 1 - i))" if s: "s < ?n" for s
    proof -
      have "?n * s + ?n - 1 - i = ?n * s + (?n - 1 - i)" using \<open>i < ?n\<close> by simp
      then show ?thesis using grid_nth [OF s, of "?n - 1 - i"] \<open>i < ?n\<close> by simp
    qed
    then show ?thesis using that by (subst msg_shape(4) [OF assms]) auto
  qed
  have row: "take ?n (drop (?n * i) ?g) = map (leaf_hash h) (map (msg C cfg sz blob i) [0..<?n])" if "i < ?n" for i
    by (simp add: grid_row [OF that])
  have "map (\<lambda>i. \<lparr>primary_hash = root (build_from_leaf_hashes h (take ?n (drop (?n * i) ?g))),
        secondary_hash = root (build_from_leaf_hashes h (map (\<lambda>s. ?g ! (?n * s + ?n - 1 - i)) [0..<?n]))\<rparr>) [0..<?n]
      = blob_hashes h C cfg sz blob"
    unfolding blob_hashes_def build_def by (rule map_cong) (simp_all only: row col set_upt atLeastLessThan_iff)
  then show ?thesis by (simp add: compute_metadata_from_symbol_hashes_def Let_def blob_md_def)
qed

text \<open>The state after \<open>k\<close> columns: the hashes of these columns, and the primary slivers with their symbols in them.\<close>

definition partial_hashes :: "hash_fun \<Rightarrow> 'r rs_codec \<Rightarrow> rs_config \<Rightarrow> nat \<Rightarrow> bytes \<Rightarrow> nat \<Rightarrow> node list" where
  "partial_hashes h C cfg sz blob k = grid (n_shards cfg) (\<lambda>i j. if j < k then leaf_hash h (msg C cfg sz blob i j) else Empty)"

definition partial_rows :: "'r rs_codec \<Rightarrow> rs_config \<Rightarrow> nat \<Rightarrow> bytes \<Rightarrow> nat \<Rightarrow> nat \<Rightarrow> nat \<Rightarrow> bytes" where
  "partial_rows C cfg sz blob k j i = (if i < source_symbols_primary cfg then src cfg sz blob i j
    else if j < k then msg C cfg sz blob i j else replicate sz 0)"

lemma write_hashes_step:
  assumes "coder_ok C cfg sz" "k < n_shards cfg"
  shows "write_hashes h (n_shards cfg) k (col_code C cfg sz blob k) (partial_hashes h C cfg sz blob k) = Ok (partial_hashes h C cfg sz blob (Suc k))"
proof -
  have "grid (n_shards cfg) (\<lambda>i j. if j = k then leaf_hash h (col_code C cfg sz blob k ! i) else if j < k then leaf_hash h (msg C cfg sz blob i j) else Empty)
      = partial_hashes h C cfg sz blob (Suc k)"
    unfolding partial_hashes_def by (rule grid_cong) (auto simp: msg_def less_Suc_eq)
  then show ?thesis using msg_shape(1) [OF assms] assms(2) by (simp add: partial_hashes_def write_hashes_eq)
qed

lemma partial_rows_step:
  "slivers_of (\<lambda>i. i) sz m (\<lambda>j i. if j = k then msg C cfg sz blob i k else partial_rows C cfg sz blob k j i) [source_symbols_primary cfg..<n]
    = slivers_of (\<lambda>i. i) sz m (partial_rows C cfg sz blob (Suc k)) [source_symbols_primary cfg..<n]"
  by (rule slivers_of_cong) (auto simp: partial_rows_def)

lemma partial_rows_stable:
  "m \<le> k \<or> (\<forall>i\<in>set is. i < source_symbols_primary cfg) \<Longrightarrow>
    slivers_of (\<lambda>i. i) sz m (partial_rows C cfg sz blob k) is = slivers_of (\<lambda>i. i) sz m (partial_rows C cfg sz blob (Suc k)) is"
  by (rule slivers_of_cong) (auto simp: partial_rows_def)

lemma encode_column_eq:
  assumes ok: "coder_ok C cfg sz" and e: "encoder_for C Primary cfg sz e" and k: "k < n_shards cfg"
  shows "\<exists>e'. encode_column h C (mk_data cfg sz) (e, partial_hashes h C cfg sz blob k,
        slivers_of (\<lambda>i. i) sz (source_symbols_secondary cfg) (partial_rows C cfg sz blob k) [0..<n_shards cfg]) (k, concat (col_src C cfg sz blob k))
      = Ok (e', partial_hashes h C cfg sz blob (Suc k),
        slivers_of (\<lambda>i. i) sz (source_symbols_secondary cfg) (partial_rows C cfg sz blob (Suc k)) [0..<n_shards cfg])
    \<and> encoder_for C Primary cfg sz e'"
proof -
  let ?nr = "source_symbols_primary cfg" and ?nc = "source_symbols_secondary cfg" and ?n = "n_shards cfg" and ?w = "col_code C cfg sz blob k"
  let ?e = "e\<lparr>encoded_symbols := Some (mk_symbols sz ?w)\<rparr>"
  have len: "length (concat (col_src C cfg sz blob k)) = n_source_symbols Primary cfg * sz" using col_src_simps(3) [OF ok k] by simp
  have w: "axis_code C Primary cfg sz (concat (col_src C cfg sz blob k)) = ?w" by (simp add: col_code_def)
  have enc: "encode_all_ref C e (concat (col_src C cfg sz blob k)) = (Ok (mk_symbols sz ?w), ?e)" "encoder_for C Primary cfg sz ?e"
    using encode_all_ref_for [OF e len] unfolding w by auto
  have sz: "0 < sz" "?nr \<le> ?n" using coder_okD(2) [OF ok] coder_ok_axis(2) [OF ok, of Primary] by simp_all
  have sw: "sized sz ?w" using msg_shape(4) [OF ok k, of blob] msg_shape(2) [OF ok k] sz(1) by simp
  have upt: "[0..<?n] = [0..<?nr] @ [?nr..<?n]" using sz(2) upt_add_eq_append [of 0 ?nr "?n - ?nr"] by simp
  have zip: "zip_mut (\<lambda>symbol sliver. copy_symbol_to sliver k symbol) (drop ?nr ?w)
        (slivers_of (\<lambda>i. i) sz ?nc (partial_rows C cfg sz blob k) [?nr..<?n])
      = Ok (slivers_of (\<lambda>i. i) sz ?nc (partial_rows C cfg sz blob (Suc k)) [?nr..<?n])" if "k < ?nc"
    unfolding partial_rows_step [symmetric]
    using that sz sw msg_shape(1,2) [OF ok k] msg_shape(2) [OF ok] coder_ok_axis(2) [OF ok, of Secondary]
    by (intro zip_copy_symbols) (auto simp: sized_def msg_def partial_rows_def dest: in_set_dropD)
  have st: "slivers_of (\<lambda>i. i) sz ?nc (partial_rows C cfg sz blob k) [0..<?nr] = slivers_of (\<lambda>i. i) sz ?nc (partial_rows C cfg sz blob (Suc k)) [0..<?nr]"
    by (rule partial_rows_stable) simp
  have "encode_column h C (mk_data cfg sz) (e, partial_hashes h C cfg sz blob k,
      slivers_of (\<lambda>i. i) sz ?nc (partial_rows C cfg sz blob k) [0..<?n]) (k, concat (col_src C cfg sz blob k))
    = Ok (?e, partial_hashes h C cfg sz blob (Suc k), slivers_of (\<lambda>i. i) sz ?nc (partial_rows C cfg sz blob (Suc k)) [0..<?n])"
  proof (cases "k < ?nc")
    case True
    then show ?thesis using sw by (simp add: encode_column_def enc(1) write_hashes_step [OF ok k] upt slivers_of_append zip [OF True] st)
  next
    case False
    then show ?thesis using sw partial_rows_stable [of ?nc k] by (simp add: encode_column_def enc(1) write_hashes_step [OF ok k])
  qed
  with enc(2) show ?thesis by blast
qed

lemma encode_columns_eq:
  assumes ok: "coder_ok C cfg sz"
  shows "\<exists>e. try_fold (encode_column h C (mk_data cfg sz)) (fresh_encoder Primary cfg sz, replicate (n_shards cfg * n_shards cfg) Empty,
        slivers_of (\<lambda>i. i) sz (source_symbols_secondary cfg) (partial_rows C cfg sz blob 0) [0..<n_shards cfg])
        (enumerate 0 (map (\<lambda>j. concat (col_src C cfg sz blob j)) [0..<n_shards cfg]))
      = Ok (e, partial_hashes h C cfg sz blob (n_shards cfg),
        slivers_of (\<lambda>i. i) sz (source_symbols_secondary cfg) (partial_rows C cfg sz blob (n_shards cfg)) [0..<n_shards cfg])"
proof -
  let ?xs = "enumerate 0 (map (\<lambda>j. concat (col_src C cfg sz blob j)) [0..<n_shards cfg])"
  let ?I = "\<lambda>k (e, hs, ps). encoder_for C Primary cfg sz e \<and> hs = partial_hashes h C cfg sz blob k
    \<and> ps = slivers_of (\<lambda>i. i) sz (source_symbols_secondary cfg) (partial_rows C cfg sz blob k) [0..<n_shards cfg]"
  let ?s = "(fresh_encoder Primary cfg sz, replicate (n_shards cfg * n_shards cfg) Empty,
        slivers_of (\<lambda>i. i) sz (source_symbols_secondary cfg) (partial_rows C cfg sz blob 0) [0..<n_shards cfg])"
  have "\<exists>s. try_fold (encode_column h C (mk_data cfg sz)) ?s ?xs = Ok s \<and> ?I (length ?xs) s"
  proof (rule try_fold_invariant)
    fix k s assume "k < length ?xs" and I: "?I k s"
    then have k: "k < n_shards cfg" by simp
    show "\<exists>s'. encode_column h C (mk_data cfg sz) s (?xs ! k) = Ok s' \<and> ?I (Suc k) s'"
      using I encode_column_eq [OF ok _ k, of _ h blob] k by (cases s) (force simp: enumerate_nth)
  qed (simp add: be_get_encoder_eq(2) [OF ok] partial_hashes_def grid_const)
  then show ?thesis by auto
qed

lemma partial_rows_full:
  assumes "coder_ok C cfg sz"
  shows "slivers_of (\<lambda>i. i) sz (source_symbols_secondary cfg) (partial_rows C cfg sz blob (n_shards cfg)) [0..<n_shards cfg]
    = map (primary_sliver C cfg sz blob) [0..<n_shards cfg]"
proof -
  have "source_symbols_secondary cfg \<le> n_shards cfg" using coder_ok_axis(2) [OF assms, of Secondary] by simp
  then have "slivers_of (\<lambda>i. i) sz (source_symbols_secondary cfg) (partial_rows C cfg sz blob (n_shards cfg)) [0..<n_shards cfg]
      = slivers_of (\<lambda>i. i) sz (source_symbols_secondary cfg) (\<lambda>j i. msg C cfg sz blob i j) [0..<n_shards cfg]"
    by (intro slivers_of_cong) (auto simp: partial_rows_def msg_shape(3) [OF assms] row_code_shape(3) [OF assms])
  then show ?thesis by (simp add: slivers_of_def primary_sliver_def)
qed

lemma secondary_slivers_eq:
  assumes "coder_ok C cfg sz"
  shows "slivers_of (\<lambda>j. j) sz (source_symbols_primary cfg) (\<lambda>i j. row_code C cfg sz blob i ! j) [0..<n_shards cfg]
    = map (secondary_sliver C cfg sz blob) [0..<n_shards cfg]"
  by (simp add: slivers_of_def secondary_sliver_eq [OF assms] col_src_def)

lemma initial_rows_eq:
  assumes "coder_ok C cfg sz"
  shows "map (\<lambda>i. mk_sliver sz (src_row cfg sz blob i) i) [0..<source_symbols_primary cfg]
      @ empty_slivers_range Primary (mk_data cfg sz) (source_symbols_primary cfg) (n_shards cfg)
    = slivers_of (\<lambda>i. i) sz (source_symbols_secondary cfg) (partial_rows C cfg sz blob 0) [0..<n_shards cfg]"
proof -
  let ?nr = "source_symbols_primary cfg" and ?n = "n_shards cfg"
  have sz: "0 < sz" "?nr \<le> ?n" using coder_okD(2) [OF assms] coder_ok_axis(2) [OF assms, of Primary] by simp_all
  have upt: "[0..<?n] = [0..<?nr] @ [?nr..<?n]" using sz(2) upt_add_eq_append [of 0 ?nr "?n - ?nr"] by simp
  have "empty_slivers_range Primary (mk_data cfg sz) ?nr ?n = slivers_of (\<lambda>i. i) sz (source_symbols_secondary cfg) (partial_rows C cfg sz blob 0) [?nr..<?n]"
    by (simp add: empty_slivers_range_def slivers_of_def empty_sliver_mk sz partial_rows_def map_replicate_const)
  moreover have "map (\<lambda>i. mk_sliver sz (src_row cfg sz blob i) i) [0..<?nr] = slivers_of (\<lambda>i. i) sz (source_symbols_secondary cfg) (partial_rows C cfg sz blob 0) [0..<?nr]"
    by (simp add: slivers_of_def partial_rows_def src_row_def)
  ultimately show ?thesis by (simp add: upt slivers_of_append)
qed

lemma map2_rev: "map2 f (map p [0..<n]) (rev (map s [0..<n])) = map (\<lambda>i. f (p i) (s (n - 1 - i))) [0..<n]"
  by (rule nth_equalityI) (simp_all add: rev_nth)

lemma encode_with_metadata_eq:
  assumes "coder_ok C cfg sz" "length (blob_as_ref b) \<le> U64_MAX"
  shows "encode_with_metadata h C (mk_encoder cfg sz b) = Ok (blob_pairs C cfg sz (blob_as_ref b), blob_md h C cfg sz (blob_as_ref b))"
proof -
  let ?blob = "blob_as_ref b" and ?n = "n_shards cfg" and ?nr = "source_symbols_primary cfg" and ?nc = "source_symbols_secondary cfg"
  have cols: "copy_columns (mk_encoder cfg sz b) (empty_slivers Secondary (mk_data cfg sz))
      = (Ok (slivers_of (\<lambda>j. j) sz ?nr (partial_cols C cfg sz ?blob 0) [0..<?n]) :: (sliver_data list, 'b) result)"
    unfolding copy_columns_eq [OF assms(1)] by (simp add: slivers_of_def partial_cols_def cong: if_cong)
  have data: "map (\<lambda>s. sym_data (sd_symbols s)) (map (secondary_sliver C cfg sz ?blob) [0..<?n]) = map (\<lambda>j. concat (col_src C cfg sz ?blob j)) [0..<?n]"
    by (simp add: secondary_sliver_eq [OF assms(1)])
  obtain e where fold: "try_fold (encode_column h C (mk_data cfg sz)) (fresh_encoder Primary cfg sz, replicate (?n * ?n) Empty,
        slivers_of (\<lambda>i. i) sz ?nc (partial_rows C cfg sz ?blob 0) [0..<?n]) (enumerate 0 (map (\<lambda>j. concat (col_src C cfg sz ?blob j)) [0..<?n]))
      = (Ok (e, partial_hashes h C cfg sz ?blob ?n, map (primary_sliver C cfg sz ?blob) [0..<?n]) :: (rs_encoder \<times> node list \<times> sliver_data list, 'b) result)"
    using encode_columns_eq [OF assms(1), of h ?blob] unfolding partial_rows_full [OF assms(1)] by blast
  have md: "partial_hashes h C cfg sz ?blob ?n = grid ?n (\<lambda>i j. leaf_hash h (msg C cfg sz ?blob i j))"
    unfolding partial_hashes_def by (rule grid_cong) simp
  show ?thesis
    using assms(2)
    by (simp add: encode_with_metadata_def Let_def blob_len_eq copy_rows_eq [OF assms(1)] cols expand_rows_eq [OF assms(1)]
        secondary_slivers_eq [OF assms(1)] be_get_encoder_eq(1) [OF assms(1)] initial_rows_eq [OF assms(1)] data fold md
        compute_metadata_from_grid [OF assms(1)] map2_rev blob_pairs_def del: map_map)
qed

subsection \<open>Computing only the metadata\<close>

lemma copy_prefix_filled:
  "length (sym_data buffer) = len \<Longrightarrow> length row \<le> len \<Longrightarrow>
    symbols_copy_prefix row (buffer\<lparr>sym_data := take (length row) (sym_data buffer) @ replicate (len - length row) 0\<rparr>)
    = Ok (buffer\<lparr>sym_data := pad len row\<rparr>)"
  by (simp add: symbols_copy_prefix_def copy_to_slice_def pad_def)

lemma pad_row_eq:
  assumes "length (sym_data buffer) = len" "length row \<le> len"
  shows "\<exists>buffer'. pad_row len buffer row = Ok (buffer', pad len row) \<and> length (sym_data buffer') = len"
  using assms by (cases "length row < len") (auto simp: pad_row_def fill_zeros_def copy_to_slice_def copy_prefix_filled)

lemma non_systematic_slivers_eq:
  assumes ok: "coder_ok C cfg sz"
  shows "non_systematic_slivers C (mk_encoder cfg sz b)
    = Ok (slivers_of (\<lambda>j. 0) sz (source_symbols_primary cfg) (\<lambda>i j. row_code C cfg sz (blob_as_ref b) i ! j) [source_symbols_secondary cfg..<n_shards cfg])"
proof -
  let ?nr = "source_symbols_primary cfg" and ?nc = "source_symbols_secondary cfg" and ?n = "n_shards cfg" and ?blob = "blob_as_ref b"
  let ?xs = "enumerate 0 (rows_all (mk_encoder cfg sz b))" and ?g = "\<lambda>k. slivers_of (\<lambda>j. 0) sz ?nr (partial_cols C cfg sz ?blob k) [?nc..<?n]"
  let ?I = "\<lambda>k (buffer :: symbols, slivers). length (sym_data buffer) = ?nc * sz \<and> slivers = ?g k"
  let ?f = "\<lambda>(buffer, slivers) (r, row). and_then (pad_row (sz * ?nc) buffer row) (\<lambda>(buffer, d).
      and_then (write_repair_symbols C (fresh_encoder Secondary cfg sz) 0 r d slivers) (\<lambda>slivers. Ok (buffer, slivers)))
    :: (symbols \<times> sliver_data list, 'b) result"
  have sz: "0 < sz" "?nc \<le> ?n" using coder_okD(2) [OF ok] coder_ok_axis(2) [OF ok, of Secondary] by simp_all
  have "\<exists>s. try_fold ?f (symbols_zeros ?nc sz, ?g 0) ?xs = Ok s \<and> ?I (length ?xs) s"
  proof (rule try_fold_invariant)
    fix k s assume "k < length ?xs" and I: "?I k s"
    then have k: "k < ?nr" by (simp add: rows_all_eq)
    let ?row = "take (?nc * sz) (drop (?nc * sz * k) ?blob)"
    obtain buf where s: "s = (buf, ?g k)" "length (sym_data buf) = ?nc * sz" using I by (cases s) auto
    obtain buf' where buf': "pad_row (?nc * sz) buf ?row = (Ok (buf', concat (src_row cfg sz ?blob k)) :: (symbols \<times> bytes, 'b) result)" "length (sym_data buf') = ?nc * sz"
      using pad_row_eq [OF s(2), of ?row] by (auto simp: concat_src_row)
    have "write_repair_symbols C (fresh_encoder Secondary cfg sz) 0 k (concat (src_row cfg sz ?blob k)) ([] @ ?g k)
      = Ok ([] @ slivers_of (\<lambda>j. 0) sz ?nr (\<lambda>i j. if i = k then row_code C cfg sz ?blob k ! j else partial_cols C cfg sz ?blob k i j) [?nc..<?n])"
      by (rule write_repair_symbols_eq [OF ok be_get_encoder_eq(2) [OF ok] k]) (use sz ok in \<open>auto simp: length_concat_src_row row_code_def\<close>)
    then show "\<exists>s'. ?f s (?xs ! k) = Ok s' \<and> ?I (Suc k) s'"
      using k s buf' by (simp add: enumerate_nth rows_all_eq partial_cols_step mult.commute [of sz])
  qed (use sz in \<open>simp add: symbols_zeros_def\<close>)
  then obtain buf where fold: "try_fold ?f (symbols_zeros ?nc sz, ?g 0) ?xs
      = Ok (buf, slivers_of (\<lambda>j. 0) sz ?nr (\<lambda>i j. row_code C cfg sz ?blob i ! j) [?nc..<?n])"
    by (auto simp: rows_all_eq partial_cols_full [OF ok])
  have init: "replicate (?n - ?nc) (empty_sliver Secondary (mk_data cfg sz) 0) = ?g 0"
    by (rule nth_equalityI) (auto simp: slivers_of_def empty_sliver_mk sz partial_cols_def map_replicate_const)
  show ?thesis using sz by (simp add: non_systematic_slivers_def Let_def be_get_encoder_eq(1) [OF ok] init fold)
qed

lemma hash_column_eq:
  assumes ok: "coder_ok C cfg sz" and e: "encoder_for C Primary cfg sz e" and k: "k < n_shards cfg"
  shows "\<exists>e'. hash_column h C (n_shards cfg) (e, partial_hashes h C cfg sz blob k) (k, concat (col_src C cfg sz blob k))
      = Ok (e', partial_hashes h C cfg sz blob (Suc k)) \<and> encoder_for C Primary cfg sz e'"
proof -
  let ?w = "col_code C cfg sz blob k"
  have len: "length (concat (col_src C cfg sz blob k)) = n_source_symbols Primary cfg * sz" using col_src_simps(3) [OF ok k] by simp
  have w: "axis_code C Primary cfg sz (concat (col_src C cfg sz blob k)) = ?w" by (simp add: col_code_def)
  have sw: "sized sz ?w" using msg_shape(4) [OF ok k, of blob] msg_shape(2) [OF ok k] coder_okD(2) [OF ok] by simp
  show ?thesis
    using encode_all_ref_for [OF e len] sw unfolding w by (simp add: hash_column_def write_hashes_step [OF ok k])
qed

lemma copy_column_src:
  assumes "coder_ok C cfg sz" "k < source_symbols_secondary cfg"
  shows "symbols_copy_column (column_symbols (mk_encoder cfg sz b) ! k) (mk_symbols sz (replicate (source_symbols_primary cfg) (replicate sz 0)))
    = Ok (mk_symbols sz (col_src C cfg sz (blob_as_ref b) k))"
proof -
  have "map (pad sz) (column_symbols (mk_encoder cfg sz b) ! k) = col_src C cfg sz (blob_as_ref b) k"
    using assms by (simp add: column_symbols_eq col_src_def row_code_shape(3) src_def)
  then show ?thesis using assms coder_okD(2) [OF assms(1)] by (subst symbols_copy_column_zeros) (auto simp: column_symbols_eq)
qed

lemma hash_systematic_column_eq:
  assumes ok: "coder_ok C cfg sz" and e: "encoder_for C Primary cfg sz e" and k: "k < source_symbols_secondary cfg"
    and buf: "length (sym_data buf) = source_symbols_primary cfg * sz" "symbol_size buf = sz"
  shows "\<exists>buf' e'. hash_systematic_column h C (n_shards cfg) (buf, e, partial_hashes h C cfg sz (blob_as_ref b) k)
        (k, column_symbols (mk_encoder cfg sz b) ! k)
      = Ok (buf', e', partial_hashes h C cfg sz (blob_as_ref b) (Suc k))
    \<and> encoder_for C Primary cfg sz e' \<and> length (sym_data buf') = source_symbols_primary cfg * sz \<and> symbol_size buf' = sz"
proof -
  let ?nr = "source_symbols_primary cfg" and ?blob = "blob_as_ref b" and ?col = "column_symbols (mk_encoder cfg sz b) ! k"
  have kn: "k < n_shards cfg" using k coder_ok_axis(2) [OF ok, of Secondary] by simp
  have sz: "0 < sz" using coder_okD(2) [OF ok] .
  have zero: "buf\<lparr>sym_data := replicate (?nr * sz) 0\<rparr> = mk_symbols sz (replicate ?nr (replicate sz 0))"
    using buf(2) by (simp add: mk_symbols_def concat_replicate_zeros)
  show ?thesis
    using hash_column_eq [OF ok e kn, of h ?blob] buf(1) col_src_simps(3) [OF ok kn]
    by (auto simp: hash_systematic_column_def fill_zeros_def copy_to_slice_def zero copy_column_src [OF ok k])
qed

lemma hash_systematic_columns_eq:
  assumes ok: "coder_ok C cfg sz"
  shows "\<exists>buf e. try_fold (hash_systematic_column h C (n_shards cfg))
        (symbols_zeros (source_symbols_primary cfg) sz, fresh_encoder Primary cfg sz, replicate (n_shards cfg * n_shards cfg) Empty)
        (enumerate 0 (column_symbols (mk_encoder cfg sz b)))
      = Ok (buf, e, partial_hashes h C cfg sz (blob_as_ref b) (source_symbols_secondary cfg)) \<and> encoder_for C Primary cfg sz e"
proof -
  let ?xs = "enumerate 0 (column_symbols (mk_encoder cfg sz b))"
  let ?I = "\<lambda>k (buf :: symbols, e, hs). encoder_for C Primary cfg sz e \<and> hs = partial_hashes h C cfg sz (blob_as_ref b) k
    \<and> length (sym_data buf) = source_symbols_primary cfg * sz \<and> symbol_size buf = sz"
  let ?s = "(symbols_zeros (source_symbols_primary cfg) sz, fresh_encoder Primary cfg sz, replicate (n_shards cfg * n_shards cfg) Empty)"
  have "\<exists>s. try_fold (hash_systematic_column h C (n_shards cfg)) ?s ?xs = Ok s \<and> ?I (length ?xs) s"
  proof (rule try_fold_invariant)
    fix k s assume "k < length ?xs" and I: "?I k s"
    then have k: "k < source_symbols_secondary cfg" by (simp add: column_symbols_eq)
    then have x: "?xs ! k = (k, column_symbols (mk_encoder cfg sz b) ! k)" by (simp add: enumerate_nth column_symbols_eq)
    obtain buf e where s: "s = (buf, e, partial_hashes h C cfg sz (blob_as_ref b) k)" "encoder_for C Primary cfg sz e"
      "length (sym_data buf) = source_symbols_primary cfg * sz" "symbol_size buf = sz"
      using I by (cases s) auto
    show "\<exists>s'. hash_systematic_column h C (n_shards cfg) s (?xs ! k) = Ok s' \<and> ?I (Suc k) s'"
      using hash_systematic_column_eq [OF ok s(2) k s(3,4), of h b] unfolding s(1) x by force
  qed (simp add: be_get_encoder_eq(2) [OF ok] partial_hashes_def grid_const symbols_zeros_def)
  then show ?thesis by (auto simp: column_symbols_eq)
qed

lemma hash_other_columns_eq:
  assumes ok: "coder_ok C cfg sz" and e: "encoder_for C Primary cfg sz e"
  shows "\<exists>e'. try_fold (hash_column h C (n_shards cfg)) (e, partial_hashes h C cfg sz blob (source_symbols_secondary cfg))
        (enumerate (source_symbols_secondary cfg) (map (\<lambda>j. concat (col_src C cfg sz blob j)) [source_symbols_secondary cfg..<n_shards cfg]))
      = Ok (e', partial_hashes h C cfg sz blob (n_shards cfg))"
proof -
  let ?nc = "source_symbols_secondary cfg"
  let ?xs = "enumerate ?nc (map (\<lambda>j. concat (col_src C cfg sz blob j)) [?nc..<n_shards cfg])"
  let ?I = "\<lambda>k (e, hs). encoder_for C Primary cfg sz e \<and> hs = partial_hashes h C cfg sz blob (?nc + k)"
  have "\<exists>s. try_fold (hash_column h C (n_shards cfg)) (e, partial_hashes h C cfg sz blob ?nc) ?xs = Ok s \<and> ?I (length ?xs) s"
  proof (rule try_fold_invariant)
    fix k s assume k: "k < length ?xs" and I: "?I k s"
    then have x: "?xs ! k = (?nc + k, concat (col_src C cfg sz blob (?nc + k)))" "?nc + k < n_shards cfg" by (simp_all add: enumerate_nth)
    show "\<exists>s'. hash_column h C (n_shards cfg) s (?xs ! k) = Ok s' \<and> ?I (Suc k) s'"
      using I hash_column_eq [OF ok _ x(2), of _ h blob] unfolding x(1) by (cases s) force
  qed (simp add: e)
  moreover have "?nc \<le> n_shards cfg" using coder_ok_axis(2) [OF ok, of Secondary] by simp
  ultimately show ?thesis by auto
qed

lemma compute_metadata_eq:
  assumes "coder_ok C cfg sz" "length (blob_as_ref b) \<le> U64_MAX"
  shows "compute_metadata h C (mk_encoder cfg sz b) = Ok (blob_md h C cfg sz (blob_as_ref b))"
proof -
  let ?blob = "blob_as_ref b" and ?n = "n_shards cfg" and ?nr = "source_symbols_primary cfg" and ?nc = "source_symbols_secondary cfg"
  obtain buf e where sys: "try_fold (hash_systematic_column h C ?n) (symbols_zeros ?nr sz, fresh_encoder Primary cfg sz, replicate (?n * ?n) Empty)
      (enumerate 0 (column_symbols (mk_encoder cfg sz b))) = (Ok (buf, e, partial_hashes h C cfg sz ?blob ?nc) :: (symbols \<times> rs_encoder \<times> node list, 'b) result)"
      "encoder_for C Primary cfg sz e"
    using hash_systematic_columns_eq [OF assms(1), of h b] by blast
  obtain e' where other: "try_fold (hash_column h C ?n) (e, partial_hashes h C cfg sz ?blob ?nc)
        (enumerate ?nc (map (\<lambda>j. concat (col_src C cfg sz ?blob j)) [?nc..<?n])) = (Ok (e', partial_hashes h C cfg sz ?blob ?n) :: (rs_encoder \<times> node list, 'b) result)"
    using hash_other_columns_eq [OF assms(1) sys(2)] by blast
  have data: "map (\<lambda>s. sym_data (sd_symbols s)) (slivers_of (\<lambda>j. 0) sz ?nr (\<lambda>i j. row_code C cfg sz ?blob i ! j) [?nc..<?n])
      = map (\<lambda>j. concat (col_src C cfg sz ?blob j)) [?nc..<?n]"
    by (simp add: map_data_slivers_of col_src_def)
  have md: "partial_hashes h C cfg sz ?blob ?n = grid ?n (\<lambda>i j. leaf_hash h (msg C cfg sz ?blob i j))"
    unfolding partial_hashes_def by (rule grid_cong) simp
  show ?thesis
    using assms(2)
    by (simp add: compute_metadata_def Let_def blob_len_eq non_systematic_slivers_eq [OF assms(1)] be_get_encoder_eq(1) [OF assms(1)]
        sys(1) data other md compute_metadata_from_grid [OF assms(1)])
qed

subsection \<open>The legacy encoder\<close>

text \<open>A matrix whose rows are symbol vectors.\<close>

definition mk_matrix :: "rs_config \<Rightarrow> nat \<Rightarrow> bytes \<Rightarrow> (nat \<Rightarrow> nat \<Rightarrow> bytes) \<Rightarrow> expanded_message_matrix" where
  "mk_matrix cfg sz blob f = \<lparr>em_matrix = map (\<lambda>i. mk_symbols sz (map (f i) [0..<n_shards cfg])) [0..<n_shards cfg], em_blob = blob,
    em_config = cfg, em_n_rows = source_symbols_primary cfg, em_n_columns = source_symbols_secondary cfg, em_symbol_size = sz\<rparr>"

lemma mk_matrix_simps [simp]:
  "em_matrix (mk_matrix cfg sz blob f) = map (\<lambda>i. mk_symbols sz (map (f i) [0..<n_shards cfg])) [0..<n_shards cfg]"
  "em_blob (mk_matrix cfg sz blob f) = blob" "em_config (mk_matrix cfg sz blob f) = cfg" "em_symbol_size (mk_matrix cfg sz blob f) = sz"
  "em_n_rows (mk_matrix cfg sz blob f) = source_symbols_primary cfg" "em_n_columns (mk_matrix cfg sz blob f) = source_symbols_secondary cfg"
  by (simp_all add: mk_matrix_def)

lemma mk_matrix_cong:
  "(\<And>i j. i < n_shards cfg \<Longrightarrow> j < n_shards cfg \<Longrightarrow> f i j = g i j) \<Longrightarrow> mk_matrix cfg sz blob f = mk_matrix cfg sz blob g"
  unfolding mk_matrix_def by (simp cong: map_cong) (intro ballI arg_cong2 [where f = mk_symbols] map_cong, auto)

lemma copy_prefix_long:
  assumes "k \<le> n"
  shows "symbols_copy_prefix (take (k * sz) xs) (mk_symbols sz (replicate n (replicate sz 0)))
    = Ok \<lparr>sym_data = pad (k * sz) (take (k * sz) xs) @ concat (replicate (n - k) (replicate sz 0)), symbol_size = sz\<rparr>"
proof -
  have le: "k * sz \<le> n * sz" using assms by simp
  have eq: "n * sz - length (take (k * sz) xs) = (k * sz - length (take (k * sz) xs)) + (n - k) * sz"
    using le by (simp add: diff_mult_distrib)
  have "pad (n * sz) (take (k * sz) xs) = pad (k * sz) (take (k * sz) xs) @ replicate ((n - k) * sz) 0"
    unfolding pad_def eq replicate_add by simp
  moreover have "length (take (k * sz) xs) \<le> n * sz" by (metis le le_trans length_take min.cobounded2)
  ultimately show ?thesis by (simp add: copy_prefix_mk concat_replicate_zeros)
qed

lemma fill_systematic_eq:
  assumes "coder_ok C cfg sz" "length blob \<le> source_symbols_primary cfg * source_symbols_secondary cfg * sz"
  shows "fill_systematic_with_rows (mk_matrix cfg sz blob (\<lambda>i j. replicate sz 0))
    = Ok (mk_matrix cfg sz blob (\<lambda>i j. if j < source_symbols_secondary cfg then src cfg sz blob i j else replicate sz 0))"
proof -
  let ?nc = "source_symbols_secondary cfg" and ?n = "n_shards cfg"
  let ?rows = "chunks (?nc * sz) blob" and ?ys = "map (\<lambda>i. mk_symbols sz (map (\<lambda>j. replicate sz 0) [0..<?n])) [0..<?n]"
  let ?g = "\<lambda>i. mk_symbols sz (map (\<lambda>j. if j < ?nc then src cfg sz blob i j else replicate sz 0) [0..<?n])"
  have sz: "0 < ?nc * sz" "?nc \<le> ?n" using coder_okD(2) [OF assms(1)] coder_ok_axis(1,2) [OF assms(1), of Secondary] by simp_all
  have g: "?g i = mk_symbols sz (src_row cfg sz blob i @ replicate (?n - ?nc) (replicate sz 0))" for i
    by (intro arg_cong2 [where f = mk_symbols] refl nth_equalityI) (use sz(2) in \<open>auto simp: nth_append\<close>)
  have "zip_mut symbols_copy_prefix ?rows ?ys = Ok (map (\<lambda>i. if i < length ?rows then ?g i else ?ys ! i) [0..<length ?ys])"
  proof (rule zip_mut_Ok)
    fix i assume i: "i < length ?rows" "i < length ?ys"
    have "?rows ! i = take (?nc * sz) (drop (?nc * sz * i) blob)" by (rule chunks_nth_general [OF sz(1) i(1)])
    then show "symbols_copy_prefix (?rows ! i) (?ys ! i) = Ok (?g i)"
      unfolding g using i(2) sz(2) by (simp add: map_replicate_const copy_prefix_long) (simp add: mk_symbols_def concat_src_row)
  qed
  also have "map (\<lambda>i. if i < length ?rows then ?g i else ?ys ! i) [0..<length ?ys] = map ?g [0..<?n]"
  proof (rule nth_equalityI)
    fix i assume "i < length (map (\<lambda>i. if i < length ?rows then ?g i else ?ys ! i) [0..<length ?ys])"
    then have i: "i < ?n" by simp
    have "?g i = ?ys ! i" if "\<not> i < length ?rows"
      unfolding g using that i sz src_row_beyond [of blob cfg sz i] by (simp add: length_chunks_gr map_replicate_const replicate_add [symmetric])
    then show "map (\<lambda>i. if i < length ?rows then ?g i else ?ys ! i) [0..<length ?ys] ! i = map ?g [0..<?n] ! i" using i by (auto cong: if_cong)
  qed simp
  finally show ?thesis by (simp add: fill_systematic_with_rows_def mk_matrix_def)
qed

lemma expand_row_eq:
  assumes ok: "coder_ok C cfg sz"
  shows "expand_row C (mk_matrix cfg sz blob f) (mk_symbols sz (map (\<lambda>j. if j < source_symbols_secondary cfg then src cfg sz blob i j else replicate sz 0) [0..<n_shards cfg]))
    = Ok (mk_symbols sz (map (\<lambda>j. row_code C cfg sz blob i ! j) [0..<n_shards cfg]))"
proof -
  let ?nc = "source_symbols_secondary cfg" and ?n = "n_shards cfg" and ?w = "row_code C cfg sz blob i"
  let ?row = "map (\<lambda>j. if j < ?nc then src cfg sz blob i j else replicate sz 0) [0..<?n]"
  let ?g = "\<lambda>k. mk_symbols sz (map (\<lambda>j. if j < ?nc + k then ?w ! j else replicate sz 0) [0..<?n])"
  let ?xs = "enumerate 0 (drop ?nc ?w)"
  have sz: "0 < sz" "?nc \<le> ?n" using coder_okD(2) [OF ok] coder_ok_axis(2) [OF ok, of Secondary] by simp_all
  have w: "length ?w = ?n" "j < ?n \<Longrightarrow> length (?w ! j) = sz" for j using row_code_shape(1,2) [OF ok] by auto
  have take: "take ?nc ?row = src_row cfg sz blob i" using sz(2) by (auto simp: take_map src_row_def intro: nth_equalityI)
  have srow: "sized sz ?row" using sz(1) by auto
  have sized: "sized sz (drop ?nc ?w)" using sz(1) w by (auto simp: sized_def in_set_conv_nth)
  have "try_fold (\<lambda>row (col_index, symbol). symbols_index_mut_copy row (?nc + col_index) symbol) (?g 0) ?xs = Ok (?g (length ?xs))"
  proof (rule try_fold_states)
    fix k assume "k < length ?xs"
    then have k: "?nc + k < ?n" "?xs ! k = (k, ?w ! (?nc + k))" using w(1) sz(2) by (simp_all add: enumerate_nth)
    have s: "sized sz (map (\<lambda>j. if j < ?nc + k then ?w ! j else replicate sz 0) [0..<?n])" using sz(1) w(2) by simp
    have "(map (\<lambda>j. if j < ?nc + k then ?w ! j else replicate sz 0) [0..<?n])[?nc + k := ?w ! (?nc + k)]
        = map (\<lambda>j. if j < ?nc + Suc k then ?w ! j else replicate sz 0) [0..<?n]"
      unfolding map_upt_update [OF k(1)] by auto
    then show "(\<lambda>row (col_index, symbol). symbols_index_mut_copy row (?nc + col_index) symbol) (?g k) (?xs ! k) = Ok (?g (Suc k))"
      using k w(2) by (simp add: symbols_index_mut_copy_mk [OF s])
  qed
  moreover have "?g 0 = mk_symbols sz ?row"
    by (intro arg_cong2 [where f = mk_symbols] refl map_cong) (auto simp: row_code_shape(3) [OF ok])
  moreover have "?g (length ?xs) = mk_symbols sz (map (\<lambda>j. ?w ! j) [0..<?n])"
    by (intro arg_cong2 [where f = mk_symbols] refl map_cong) (use w(1) sz(2) in auto)
  moreover have "symbols_index_range (mk_symbols sz ?row) 0 ?nc = (Ok (concat (src_row cfg sz blob i)) :: (bytes, 'b) result)"
    using symbols_index_range_mk [OF srow, of ?nc] sz(2) take by simp
  moreover have "config_encode_all_repair_symbols C Secondary cfg (concat (src_row cfg sz blob i)) = Ok (mk_symbols sz (drop ?nc ?w))"
    using config_repair_mk [OF ok, of "concat (src_row cfg sz blob i)" Secondary] sz(1) by (simp add: length_concat_src_row row_code_def)
  ultimately show ?thesis using sized by (simp add: expand_row_def)
qed

text \<open>The matrix after the rows and \<open>k\<close> columns have been expanded.\<close>

definition partial_matrix :: "'r rs_codec \<Rightarrow> rs_config \<Rightarrow> nat \<Rightarrow> bytes \<Rightarrow> nat \<Rightarrow> nat \<Rightarrow> nat \<Rightarrow> bytes" where
  "partial_matrix C cfg sz blob k i j = (if i < source_symbols_primary cfg then row_code C cfg sz blob i ! j
    else if j < k then msg C cfg sz blob i j else if j < source_symbols_secondary cfg then src cfg sz blob i j else replicate sz 0)"

lemma length_partial_matrix: "coder_ok C cfg sz \<Longrightarrow> i < n_shards cfg \<Longrightarrow> j < n_shards cfg \<Longrightarrow> length (partial_matrix C cfg sz blob k i j) = sz"
  by (simp add: partial_matrix_def row_code_shape(2) msg_shape(2))

lemma sized_partial_matrix:
  "coder_ok C cfg sz \<Longrightarrow> i < n_shards cfg \<Longrightarrow> sized sz (map (partial_matrix C cfg sz blob k i) [0..<n_shards cfg])"
  using coder_okD(2) by (auto simp: length_partial_matrix)

lemma expand_rows_for_secondary_eq:
  assumes ok: "coder_ok C cfg sz"
  shows "expand_rows_for_secondary C (mk_matrix cfg sz blob (\<lambda>i j. if j < source_symbols_secondary cfg then src cfg sz blob i j else replicate sz 0))
    = Ok (mk_matrix cfg sz blob (partial_matrix C cfg sz blob 0))"
proof -
  let ?nr = "source_symbols_primary cfg" and ?n = "n_shards cfg" and ?f = "\<lambda>i j. if j < source_symbols_secondary cfg then src cfg sz blob i j else replicate sz 0"
  let ?row = "\<lambda>i. mk_symbols sz (map (?f i) [0..<?n])" and ?g = "\<lambda>i. mk_symbols sz (map (\<lambda>j. row_code C cfg sz blob i ! j) [0..<?n])"
  have nr: "?nr \<le> ?n" using coder_ok_axis(2) [OF ok, of Primary] by simp
  have "try_map (expand_row C (mk_matrix cfg sz blob ?f)) (map ?row [0..<?nr]) = (Ok (map ?g [0..<?nr]) :: (symbols list, 'b) result)"
    unfolding try_map_eq_Ok_iff by (auto simp: list_all2_conv_all_nth expand_row_eq [OF ok])
  moreover have "map ?g [0..<?nr] @ map ?row [?nr..<?n] = map (\<lambda>i. mk_symbols sz (map (partial_matrix C cfg sz blob 0 i) [0..<?n])) [0..<?n]"
    by (rule nth_equalityI) (use nr in \<open>auto simp: nth_append partial_matrix_def [abs_def] cong: if_cong\<close>)
  ultimately show ?thesis using nr by (simp add: expand_rows_for_secondary_def take_map drop_map mk_matrix_def)
qed

lemma column_data_eq:
  assumes ok: "coder_ok C cfg sz" and k: "k < n_shards cfg"
  shows "column_data (mk_matrix cfg sz blob (partial_matrix C cfg sz blob q)) k = Ok (mk_symbols sz (col_src C cfg sz blob k))"
proof -
  let ?nr = "source_symbols_primary cfg" and ?n = "n_shards cfg"
  let ?xs = "take ?nr (map (\<lambda>i. mk_symbols sz (map (partial_matrix C cfg sz blob q i) [0..<?n])) [0..<?n])"
  let ?g = "\<lambda>r. mk_symbols sz (map (\<lambda>i. row_code C cfg sz blob i ! k) [0..<r])"
  let ?f = "\<lambda>column row. and_then (symbols_index row k) (\<lambda>symbol. Ok (case symbols_extend column symbol of Ok column' \<Rightarrow> column' | _ \<Rightarrow> column))
    :: (symbols, 'b) result"
  have nr: "?nr \<le> ?n" "0 < sz" using coder_ok_axis(2) [OF ok, of Primary] coder_okD(2) [OF ok] by simp_all
  have "try_fold ?f (?g 0) ?xs = Ok (?g (length ?xs))"
  proof (rule try_fold_states)
    fix r assume "r < length ?xs"
    then have r: "r < ?nr" using nr by simp
    have x: "?xs ! r = mk_symbols sz (map (partial_matrix C cfg sz blob q r) [0..<?n])" using r nr by simp
    have sr: "sized sz (map (partial_matrix C cfg sz blob q r) [0..<?n])" using sized_partial_matrix [OF ok] r nr by simp
    have "symbols_index (?xs ! r) k = (Ok (row_code C cfg sz blob r ! k) :: (bytes, 'b) result)"
      using symbols_index_mk [OF sr, of k] k r unfolding x by (simp add: partial_matrix_def)
    moreover have "symbols_extend (?g r) (row_code C cfg sz blob r ! k) = Ok (?g (Suc r))"
      using nr k row_code_shape(2) [OF ok] by (simp add: symbols_extend_mk)
    ultimately show "?f (?g r) (?xs ! r) = Ok (?g (Suc r))" by simp
  qed
  moreover have "symbols_with_capacity ?nr sz = ?g 0" by (simp add: symbols_with_capacity_def mk_symbols_def)
  ultimately show ?thesis using nr by (simp add: column_data_def col_src_def)
qed

lemma map_nested_update:
  assumes "r < n" "c < n"
  shows "(map (\<lambda>i. mk_symbols sz (map (f i) [0..<n])) [0..<n])[r := mk_symbols sz ((map (f r) [0..<n])[c := v])]
    = map (\<lambda>i. mk_symbols sz (map (\<lambda>j. if i = r \<and> j = c then v else f i j) [0..<n])) [0..<n]"
  unfolding map_upt_update [OF assms(1)] map_upt_update [OF assms(2)]
  by (rule nth_equalityI) (auto intro!: arg_cong2 [where f = mk_symbols])

lemma expand_column_eq:
  assumes ok: "coder_ok C cfg sz" and k: "k < n_shards cfg"
  shows "expand_column C (mk_matrix cfg sz blob (partial_matrix C cfg sz blob k)) k = Ok (mk_matrix cfg sz blob (partial_matrix C cfg sz blob (Suc k)))"
proof -
  let ?nr = "source_symbols_primary cfg" and ?n = "n_shards cfg" and ?w = "col_code C cfg sz blob k" and ?p = "partial_matrix C cfg sz blob k"
  let ?xs = "enumerate 0 (drop ?nr ?w)"
  let ?F = "\<lambda>r i j. if i < ?nr + r \<and> ?nr \<le> i \<and> j = k then msg C cfg sz blob i j else ?p i j"
  let ?g = "\<lambda>r. map (\<lambda>i. mk_symbols sz (map (?F r i) [0..<?n])) [0..<?n]"
  let ?f = "\<lambda>matrix (row_index, symbol). if ?nr + row_index < length matrix then
      and_then (symbols_index_mut_copy (matrix ! (?nr + row_index)) k symbol) (\<lambda>row. Ok (matrix[?nr + row_index := row])) else Panic
    :: (symbols list, 'b) result"
  have nr: "?nr \<le> ?n" "0 < sz" using coder_ok_axis(2) [OF ok, of Primary] coder_okD(2) [OF ok] by simp_all
  have w: "length ?w = ?n" "\<And>i. i < ?n \<Longrightarrow> length (?w ! i) = sz" using msg_shape(1,2) [OF ok k] by (simp_all add: msg_def)
  have fold: "try_fold ?f (?g 0) ?xs = Ok (?g (length ?xs))"
  proof (rule try_fold_states)
    fix r assume "r < length ?xs"
    then have r: "?nr + r < ?n" "?xs ! r = (r, msg C cfg sz blob (?nr + r) k)" using w(1) nr by (simp_all add: enumerate_nth msg_def)
    have s: "sized sz (map (?F r (?nr + r)) [0..<?n])" using nr r msg_shape(2) [OF ok] length_partial_matrix [OF ok] by auto
    have "symbols_index_mut_copy (mk_symbols sz (map (?F r (?nr + r)) [0..<?n])) k (msg C cfg sz blob (?nr + r) k)
        = (Ok (mk_symbols sz ((map (?F r (?nr + r)) [0..<?n])[k := msg C cfg sz blob (?nr + r) k])) :: (symbols, 'b) result)"
      by (rule symbols_index_mut_copy_mk [OF s]) (use k r msg_shape(2) [OF ok] in simp_all)
    moreover have "(?g r)[?nr + r := mk_symbols sz ((map (?F r (?nr + r)) [0..<?n])[k := msg C cfg sz blob (?nr + r) k])] = ?g (Suc r)"
      by (rule trans [OF map_nested_update [OF r(1) k, of sz "?F r"]], intro map_cong refl arg_cong2 [where f = mk_symbols]) auto
    ultimately show "?f (?g r) (?xs ! r) = Ok (?g (Suc r))" using r by simp
  qed
  have g0: "?g 0 = map (\<lambda>i. mk_symbols sz (map (?p i) [0..<?n])) [0..<?n]"
    by (intro map_cong refl arg_cong2 [where f = mk_symbols]) auto
  have gn: "?g (length ?xs) = map (\<lambda>i. mk_symbols sz (map (partial_matrix C cfg sz blob (Suc k) i) [0..<?n])) [0..<?n]"
    by (intro map_cong refl arg_cong2 [where f = mk_symbols]) (use w(1) nr in \<open>auto simp: partial_matrix_def less_Suc_eq\<close>)
  have "config_encode_all_repair_symbols C Primary cfg (concat (col_src C cfg sz blob k)) = Ok (mk_symbols sz (drop ?nr ?w))"
    using config_repair_mk [OF ok, of "concat (col_src C cfg sz blob k)" Primary] col_src_simps(3) [OF ok k] by (simp add: col_code_def)
  moreover have "sized sz (drop ?nr ?w)" using nr(2) w by (auto simp: sized_def in_set_conv_nth)
  ultimately show ?thesis using fold [unfolded g0 gn] by (simp add: expand_column_def column_data_eq [OF ok k] mk_matrix_def [of cfg sz blob "partial_matrix C cfg sz blob (Suc k)"] cong: if_cong)
qed

lemma expanded_matrix_eq:
  assumes "coder_ok C cfg sz" "length blob \<le> source_symbols_primary cfg * source_symbols_secondary cfg * sz"
  shows "expanded_message_matrix_new C cfg sz blob = Ok (mk_matrix cfg sz blob (msg C cfg sz blob))"
proof -
  let ?g = "\<lambda>k. mk_matrix cfg sz blob (partial_matrix C cfg sz blob k)"
  have "try_fold (expand_column C) (?g 0) [0..<n_shards cfg] = (Ok (?g (length [0..<n_shards cfg])) :: (expanded_message_matrix, 'b) result)"
    by (rule try_fold_states) (simp add: expand_column_eq [OF assms(1)])
  moreover have "?g (n_shards cfg) = mk_matrix cfg sz blob (msg C cfg sz blob)"
    by (rule mk_matrix_cong) (simp add: partial_matrix_def msg_shape(3) [OF assms(1)])
  moreover have "replicate (n_shards cfg) (symbols_zeros (n_shards cfg) sz) = em_matrix (mk_matrix cfg sz blob (\<lambda>i j. replicate sz 0))"
    using coder_okD(2) [OF assms(1)] by (simp add: symbols_zeros_mk map_replicate_const)
  ultimately show ?thesis
    using fill_systematic_eq [OF assms]
    by (simp add: expanded_message_matrix_new_def Let_def expand_all_columns_def mk_matrix_def [symmetric] fill_systematic_eq [OF assms]
        expand_rows_for_secondary_eq [OF assms(1)])
qed

lemma grid_concat: "concat (map (\<lambda>i. map (f i) [0..<n]) [0..<n]) = grid n f"
proof -
  have "concat (map (\<lambda>i. map (f i) [0..<n]) [0..<m]) = map (\<lambda>p. f (p div n) (p mod n)) [0..<n * m]" for m
  proof (induction m)
    case (Suc m)
    have "[0..<n * Suc m] = [0..<n * m] @ map (\<lambda>j. n * m + j) [0..<n]"
      using upt_add_eq_append [of 0 "n * m" n] map_add_upt [of "n * m" n] by (simp add: add.commute)
    moreover have "map (\<lambda>p. f (p div n) (p mod n)) (map (\<lambda>j. n * m + j) [0..<n]) = map (f m) [0..<n]" by simp
    ultimately show ?case by (simp add: Suc.IH)
  qed simp
  then show ?thesis by (simp add: grid_def)
qed

lemma get_metadata_eq:
  assumes "coder_ok C cfg sz" "length blob \<le> U64_MAX"
  shows "get_metadata h (mk_matrix cfg sz blob (msg C cfg sz blob)) = Ok (blob_md h C cfg sz blob)"
proof -
  let ?n = "n_shards cfg" and ?m = "mk_matrix cfg sz blob (msg C cfg sz blob)"
  let ?f = "\<lambda>(row, col). if row < length (em_matrix ?m) then and_then (symbols_index (em_matrix ?m ! row) col) (\<lambda>s. Ok (leaf_hash h s)) else Panic
    :: (node, 'b) result"
  have s: "sized sz (map (msg C cfg sz blob i) [0..<?n])" if "i < ?n" for i
    using msg_shape(2) [OF assms(1)] coder_okD(2) [OF assms(1)] that by simp
  have "try_map ?f (grid ?n Pair) = Ok (map (\<lambda>(i, j). leaf_hash h (msg C cfg sz blob i j)) (grid ?n Pair))"
  proof (rule try_map_Ok)
    fix x assume "x \<in> set (grid ?n Pair)"
    then obtain i j where x: "x = (i, j)" "i < ?n" "j < ?n" unfolding grid_concat [symmetric] by auto
    then show "?f x = Ok (case x of (i, j) \<Rightarrow> leaf_hash h (msg C cfg sz blob i j))" by (simp add: symbols_index_mk [OF s])
  qed
  moreover have "map (\<lambda>(i, j). leaf_hash h (msg C cfg sz blob i j)) (grid ?n Pair) = grid ?n (\<lambda>i j. leaf_hash h (msg C cfg sz blob i j))"
    by (simp add: grid_def)
  ultimately show ?thesis using assms(2) by (simp add: get_metadata_def Let_def grid_concat compute_metadata_from_grid [OF assms(1)])
qed

lemma empty_sliver_pairs_eq:
  assumes "coder_ok C cfg sz"
  shows "empty_sliver_pairs (mk_data cfg sz) = Ok (map (\<lambda>i. \<lparr>primary = mk_sliver sz (replicate (source_symbols_secondary cfg) (replicate sz 0)) i,
      secondary = mk_sliver sz (replicate (source_symbols_primary cfg) (replicate sz 0)) (n_shards cfg - Suc i)\<rparr>) [0..<n_shards cfg])"
  unfolding empty_sliver_pairs_def mk_data_simps
  using coder_okD(2) [OF assms] by (intro try_map_Ok) (simp add: sliver_pair_new_empty_def sliver_new_empty_def symbols_zeros_mk mk_sliver_def)

text \<open>The rows that the slivers are read from.\<close>

lemma dropped_rows:
  assumes ok: "coder_ok C cfg sz" and i: "i < n_shards cfg"
  shows "em_matrix (drop_recovery_symbols (mk_matrix cfg sz blob (msg C cfg sz blob))) ! i
    = mk_symbols sz (map (msg C cfg sz blob i) [0..<if i < source_symbols_primary cfg then n_shards cfg else source_symbols_secondary cfg])"
    "length (em_matrix (drop_recovery_symbols (mk_matrix cfg sz blob (msg C cfg sz blob)))) = n_shards cfg"
proof -
  have le: "source_symbols_primary cfg \<le> n_shards cfg" "source_symbols_secondary cfg \<le> n_shards cfg"
    using coder_ok_axis(2) [OF ok, of Primary] coder_ok_axis(2) [OF ok, of Secondary] by simp_all
  have "sized sz (map (msg C cfg sz blob i) [0..<n_shards cfg])" using msg_shape(2) [OF ok] coder_okD(2) [OF ok] i by simp
  then show "em_matrix (drop_recovery_symbols (mk_matrix cfg sz blob (msg C cfg sz blob))) ! i
      = mk_symbols sz (map (msg C cfg sz blob i) [0..<if i < source_symbols_primary cfg then n_shards cfg else source_symbols_secondary cfg])"
    using i le by (simp add: drop_recovery_symbols_def nth_append symbols_truncate_mk take_map take_upt_min)
  show "length (em_matrix (drop_recovery_symbols (mk_matrix cfg sz blob (msg C cfg sz blob)))) = n_shards cfg"
    using le by (simp add: drop_recovery_symbols_def)
qed

lemma zip_copy_column:
  assumes ok: "coder_ok C cfg sz" and c: "c < n_shards cfg"
  shows "zip_mut (\<lambda>row target. and_then (symbols_index row (n_shards cfg - Suc c)) (copy_to_slice target (0, length target)))
      (em_matrix (drop_recovery_symbols (mk_matrix cfg sz blob (msg C cfg sz blob)))) (replicate (source_symbols_primary cfg) (replicate sz 0))
    = Ok (map (\<lambda>i. msg C cfg sz blob i (n_shards cfg - Suc c)) [0..<source_symbols_primary cfg])"
proof -
  let ?rows = "em_matrix (drop_recovery_symbols (mk_matrix cfg sz blob (msg C cfg sz blob)))" and ?nr = "source_symbols_primary cfg" and ?n = "n_shards cfg"
  let ?ys = "replicate ?nr (replicate sz (0 :: byte))"
  let ?f = "\<lambda>row target. and_then (symbols_index row (?n - Suc c)) (copy_to_slice target (0, length target)) :: (bytes, 'b) result"
  have nr: "?nr \<le> ?n" using coder_ok_axis(2) [OF ok, of Primary] by simp
  have "zip_mut ?f ?rows ?ys = Ok (map (\<lambda>i. if i < length ?rows then msg C cfg sz blob i (?n - Suc c) else ?ys ! i) [0..<length ?ys])"
  proof (rule zip_mut_Ok)
    fix i assume "i < length ?rows" "i < length ?ys"
    then have i: "i < ?nr" "i < ?n" using nr by simp_all
    have s: "sized sz (map (msg C cfg sz blob i) [0..<?n])" using msg_shape(2) [OF ok] coder_okD(2) [OF ok] i by simp
    have "length (msg C cfg sz blob i (?n - Suc c)) = sz" using msg_shape(2) [OF ok] c i by simp
    then show "?f (?rows ! i) (?ys ! i) = Ok (msg C cfg sz blob i (?n - Suc c))"
      using i c dropped_rows(1) [OF ok i(2), of blob] by (simp add: symbols_index_mk [OF s] copy_to_slice_def)
  qed
  also have "map (\<lambda>i. if i < length ?rows then msg C cfg sz blob i (?n - Suc c) else ?ys ! i) [0..<length ?ys]
      = map (\<lambda>i. msg C cfg sz blob i (?n - Suc c)) [0..<?nr]"
    using nr dropped_rows(2) [OF ok] c by auto
  finally show ?thesis .
qed

lemma write_secondary_slivers_eq:
  assumes ok: "coder_ok C cfg sz"
  shows "write_secondary_slivers (drop_recovery_symbols (mk_matrix cfg sz blob (msg C cfg sz blob)))
      (map (\<lambda>i. \<lparr>primary = p i, secondary = mk_sliver sz (replicate (source_symbols_primary cfg) (replicate sz 0)) (n_shards cfg - Suc i)\<rparr>) [0..<n_shards cfg])
    = Ok (map (\<lambda>i. \<lparr>primary = p i, secondary = secondary_sliver C cfg sz blob (n_shards cfg - Suc i)\<rparr>) [0..<n_shards cfg])"
proof (cases "n_shards cfg = 0")
  case False
  let ?m = "drop_recovery_symbols (mk_matrix cfg sz blob (msg C cfg sz blob))" and ?n = "n_shards cfg"
  let ?ys = "map (\<lambda>i. \<lparr>primary = p i, secondary = mk_sliver sz (replicate (source_symbols_primary cfg) (replicate sz 0)) (?n - Suc i)\<rparr>) [0..<?n]"
  have len: "length (em_matrix ?m) = ?n" using dropped_rows(2) [OF ok] False by blast
  have cfg: "em_config ?m = cfg" by (simp add: drop_recovery_symbols_def)
  have "write_secondary_slivers ?m ?ys
      = Ok (map (\<lambda>i. if i < length [0..<length (em_matrix ?m)] then \<lparr>primary = p i, secondary = secondary_sliver C cfg sz blob (?n - Suc i)\<rparr> else ?ys ! i) [0..<length ?ys])"
    unfolding write_secondary_slivers_def
  proof (rule zip_mut_Ok)
    fix i assume "i < length [0..<length (em_matrix ?m)]" "i < length ?ys"
    then have i: "i < ?n" by simp
    show "(case ?ys ! i of pair \<Rightarrow> and_then (zip_mut (\<lambda>row target. and_then (to_sliver_index Secondary ([0..<length (em_matrix ?m)] ! i) (n_shards (em_config ?m))) (\<lambda>j.
          and_then (symbols_index row j) (\<lambda>symbol. copy_to_slice target (0, length target) symbol)))
        (em_matrix ?m) (to_symbols (sd_symbols (secondary pair)))) (\<lambda>xs.
      Ok (pair\<lparr>secondary := (secondary pair)\<lparr>sd_symbols := (sd_symbols (secondary pair))\<lparr>sym_data := concat xs\<rparr>\<rparr>\<rparr>)))
      = Ok \<lparr>primary = p i, secondary = secondary_sliver C cfg sz blob (?n - Suc i)\<rparr>"
      using i coder_okD(2) [OF ok]
      by (simp add: cfg len zip_copy_column [OF ok i] sized_def secondary_sliver_def mk_sliver_def)
  qed
  also have "map (\<lambda>i. if i < length [0..<length (em_matrix ?m)] then \<lparr>primary = p i, secondary = secondary_sliver C cfg sz blob (?n - Suc i)\<rparr> else ?ys ! i) [0..<length ?ys]
      = map (\<lambda>i. \<lparr>primary = p i, secondary = secondary_sliver C cfg sz blob (?n - Suc i)\<rparr>) [0..<?n]"
    using len by auto
  finally show ?thesis .
qed (simp add: write_secondary_slivers_def drop_recovery_symbols_def)

lemma encode_with_metadata_legacy_eq:
  assumes "coder_ok C cfg sz" "length (blob_as_ref b) \<le> U64_MAX"
    and "length (blob_as_ref b) \<le> source_symbols_primary cfg * source_symbols_secondary cfg * sz"
  shows "encode_with_metadata_legacy h C (mk_encoder cfg sz b) = Ok (blob_pairs C cfg sz (blob_as_ref b), blob_md h C cfg sz (blob_as_ref b))"
proof -
  let ?blob = "blob_as_ref b" and ?n = "n_shards cfg" and ?nc = "source_symbols_secondary cfg"
  let ?m = "drop_recovery_symbols (mk_matrix cfg sz ?blob (msg C cfg sz ?blob))"
  let ?ys = "map (\<lambda>i. \<lparr>primary = mk_sliver sz (replicate ?nc (replicate sz 0)) i, secondary = secondary_sliver C cfg sz ?blob (?n - Suc i)\<rparr>) [0..<?n]"
  have n: "0 < ?n" "?nc \<le> ?n" using coder_ok_axis(1,2) [OF assms(1), of Secondary] by simp_all
  have len: "length (em_matrix ?m) = ?n" using dropped_rows(2) [OF assms(1) n(1)] .
  have cfg: "em_config ?m = cfg" by (simp add: drop_recovery_symbols_def)
  have row: "symbols_truncate ?nc (em_matrix ?m ! i) = mk_symbols sz (map (msg C cfg sz ?blob i) [0..<?nc])" if "i < ?n" for i
  proof -
    have "sized sz (map (msg C cfg sz ?blob i) [0..<?n])" "sized sz (map (msg C cfg sz ?blob i) [0..<?nc])"
      using msg_shape(2) [OF assms(1)] coder_okD(2) [OF assms(1)] that n(2) by simp_all
    then show ?thesis using n(2) unfolding dropped_rows(1) [OF assms(1) that] by (simp add: symbols_truncate_mk take_map take_upt_min)
  qed
  have "write_primary_slivers ?m ?ys = blob_pairs C cfg sz ?blob"
    by (rule nth_equalityI) (simp_all add: write_primary_slivers_def cfg len row blob_pairs_def primary_sliver_def mk_sliver_def)
  then show ?thesis
    using assms(2,3)
    by (simp add: encode_with_metadata_legacy_def be_data_def expanded_matrix_eq [OF assms(1)] get_metadata_eq [OF assms(1)]
        empty_sliver_pairs_eq [OF assms(1)] write_secondary_slivers_eq [OF assms(1)])
qed

end
