(* ===== verification/BlobEncoding.thy ===== *)
theory BlobEncoding
  imports BlobMatrix
begin

text \<open>
  What the encoding of a blob guarantees, on top of the matrix of theory \<open>BlobMatrix\<close>: the implementations agree, their
  metadata is valid, every sliver they produce is accepted by verification, and every sliver can be
  recovered from symbols of slivers of the other axis. The last two rest on the two erasure codes
  commuting, which is a property of linear codes (theory \<open>Codec\<close>).
\<close>

subsection \<open>Rows of the matrix are codewords\<close>

definition coder_commute :: "'r rs_codec \<Rightarrow> rs_config \<Rightarrow> nat \<Rightarrow> bool" where
  "coder_commute C cfg sz \<longleftrightarrow> codec_commute C (source_symbols_primary cfg) (n_shards cfg - source_symbols_primary cfg)
    (source_symbols_secondary cfg) (n_shards cfg - source_symbols_secondary cfg) sz"

lemma axis_code_encode:
  assumes ok: "coder_ok C cfg sz" and xs: "length xs = n_source_symbols a cfg" "sized sz xs"
  shows "codec_encode C (n_source_symbols a cfg) (n_shards cfg - n_source_symbols a cfg) sz xs
    = Some (drop (n_source_symbols a cfg) (axis_code C a cfg sz (concat xs)))"
proof -
  have d: "length (concat xs) = n_source_symbols a cfg * sz" using length_concat_sized [OF xs(2)] xs(1) by simp
  have "chunks sz (concat xs) = xs" using to_symbols_mk [OF xs(2)] by (simp add: to_symbols_def)
  then show ?thesis
    using codec_contractD [OF coder_ok_axis(4) [OF ok] coder_okD(2) [OF ok] d] xs(1) by (auto simp: axis_code_def)
qed

lemma row_repair:
  assumes ok: "coder_ok C cfg sz" and com: "coder_commute C cfg sz" and i: "source_symbols_primary cfg \<le> i" "i < n_shards cfg"
    and j: "source_symbols_secondary cfg \<le> j" "j < n_shards cfg"
  shows "axis_code C Secondary cfg sz (concat (map (msg C cfg sz blob i) [0..<source_symbols_secondary cfg])) ! j = msg C cfg sz blob i j"
proof -
  let ?nr = "source_symbols_primary cfg" and ?nc = "source_symbols_secondary cfg" and ?n = "n_shards cfg"
  let ?row = "axis_code C Secondary cfg sz (concat (map (msg C cfg sz blob i) [0..<?nc]))"
  note sec = axis_code_encode [OF ok, of _ Secondary, simplified] and pri = axis_code_encode [OF ok, of _ Primary, simplified]
  have sz: "0 < sz" "?nr \<le> ?n" "?nc \<le> ?n" using coder_okD(2) [OF ok] coder_ok_axis(2) [OF ok, of Primary] coder_ok_axis(2) [OF ok, of Secondary] by simp_all
  have colq: "map (\<lambda>p. src cfg sz blob p q) [0..<?nr] = col_src C cfg sz blob q" if "q < ?nc" for q
    using that by (simp add: col_src_def row_code_shape(3) [OF ok])
  have colj: "map (\<lambda>p. drop ?nc (row_code C cfg sz blob p) ! (j - ?nc)) [0..<?nr] = col_src C cfg sz blob j"
    using j row_code_shape(1) [OF ok] by (simp add: col_src_def)
  have rowi: "map (\<lambda>q. drop ?nr (col_code C cfg sz blob q) ! (i - ?nr)) [0..<?nc] = map (msg C cfg sz blob i) [0..<?nc]"
    using i sz(3) msg_shape(1) [OF ok] by (simp add: msg_def)
  have "drop ?nc ?row ! (j - ?nc) = drop ?nr (col_code C cfg sz blob j) ! (i - ?nr)"
  proof (rule codec_commute_recovery [OF com [unfolded coder_commute_def], where M = "src cfg sz blob" and R = "\<lambda>p. drop ?nc (row_code C cfg sz blob p)"
        and Q = "\<lambda>q. drop ?nr (col_code C cfg sz blob q)"])
    show "codec_encode C ?nc (?n - ?nc) sz (map (src cfg sz blob p) [0..<?nc]) = Some (drop ?nc (row_code C cfg sz blob p))" for p
      using sec [of "src_row cfg sz blob p"] sz(1) by (simp add: row_code_def src_row_def)
    show "codec_encode C ?nr (?n - ?nr) sz (map (\<lambda>p. src cfg sz blob p q) [0..<?nr]) = Some (drop ?nr (col_code C cfg sz blob q))" if "q < ?nc" for q
      unfolding colq [OF that] using pri [of "col_src C cfg sz blob q"] col_src_simps(1,2) [OF ok, of q] that sz(3) by (simp add: col_code_def)
    show "codec_encode C ?nc (?n - ?nc) sz (map (\<lambda>q. drop ?nr (col_code C cfg sz blob q) ! (i - ?nr)) [0..<?nc]) = Some (drop ?nc ?row)"
      unfolding rowi using sz(1,3) i msg_shape(2) [OF ok] by (intro sec) auto
    show "codec_encode C ?nr (?n - ?nr) sz (map (\<lambda>p. drop ?nc (row_code C cfg sz blob p) ! (j - ?nc)) [0..<?nr]) = Some (drop ?nr (col_code C cfg sz blob j))"
      unfolding colj using pri [of "col_src C cfg sz blob j"] col_src_simps(1,2) [OF ok j(2)] by (simp add: col_code_def)
  qed (use i j in simp_all)
  moreover have "length (concat (map (msg C cfg sz blob i) [0..<?nc])) = n_source_symbols Secondary cfg * sz"
    using length_concat_sized [of sz "map (msg C cfg sz blob i) [0..<?nc]"] sz(1,3) i msg_shape(2) [OF ok] by simp
  ultimately show ?thesis using i j msg_shape(1) [OF ok j(2)] axis_code_shape(1) [OF ok] by (simp add: msg_def)
qed

lemma row_is_codeword:
  assumes ok: "coder_ok C cfg sz" and com: "coder_commute C cfg sz" and i: "i < n_shards cfg"
  shows "axis_code C Secondary cfg sz (concat (map (msg C cfg sz blob i) [0..<source_symbols_secondary cfg])) = map (msg C cfg sz blob i) [0..<n_shards cfg]"
    (is "?row = _")
proof (rule nth_equalityI)
  let ?nc = "source_symbols_secondary cfg"
  have sz: "0 < sz" "?nc \<le> n_shards cfg" using coder_okD(2) [OF ok] coder_ok_axis(2) [OF ok, of Secondary] by simp_all
  have s: "sized sz (map (msg C cfg sz blob i) [0..<?nc])" using sz i msg_shape(2) [OF ok] by simp
  have len: "length (concat (map (msg C cfg sz blob i) [0..<?nc])) = n_source_symbols Secondary cfg * sz" using length_concat_sized [OF s] by simp
  show lr: "length ?row = length (map (msg C cfg sz blob i) [0..<n_shards cfg])" using axis_code_shape(1) [OF ok len] by simp
  fix j assume "j < length ?row"
  then have j: "j < n_shards cfg" using lr by simp
  have "?row ! j = msg C cfg sz blob i j"
  proof (cases "j < ?nc")
    case True
    have "chunks sz (concat (map (msg C cfg sz blob i) [0..<?nc])) = map (msg C cfg sz blob i) [0..<?nc]"
      using to_symbols_mk [OF s] by (simp add: to_symbols_def)
    then show ?thesis using axis_code_shape(5) [OF ok len, of j] True by simp
  next
    case False
    show ?thesis
    proof (cases "i < source_symbols_primary cfg")
      case True
      have "map (msg C cfg sz blob i) [0..<?nc] = src_row cfg sz blob i"
        using primary_sliver_systematic [OF ok True, of blob] True sz(2) by (auto simp: src_row_def msg_shape(3) [OF ok] row_code_shape(3) [OF ok])
      then show ?thesis using True j msg_shape(3) [OF ok j True] by (simp add: row_code_def)
    qed (use row_repair [OF ok com _ i _ j] False in simp)
  qed
  then show "?row ! j = map (msg C cfg sz blob i) [0..<n_shards cfg] ! j" using j by simp
qed

subsection \<open>The encoder's output\<close>

text \<open>A blob that the configuration can encode, with a coder that works for its symbol size.\<close>

definition blob_fits :: "'r rs_codec \<Rightarrow> encoding_config \<Rightarrow> nat \<Rightarrow> bytes \<Rightarrow> bool" where
  "blob_fits C ecfg sz blob \<longleftrightarrow> encoding_config_ok ecfg \<and> coder_ok C (reed_solomon ecfg) sz
    \<and> symbol_size_for_blob (reed_solomon ecfg) (length blob) = Ok sz"

lemma blob_fitsD:
  assumes "blob_fits C ecfg sz blob"
  shows "encoding_config_ok ecfg" "coder_ok C (reed_solomon ecfg) sz" "symbol_size_for_blob (reed_solomon ecfg) (length blob) = Ok sz"
    "n_shards (reed_solomon ecfg) = ec_n_shards ecfg" "0 < sz"
    "length blob \<le> source_symbols_primary (reed_solomon ecfg) * source_symbols_secondary (reed_solomon ecfg) * sz" "length blob \<le> U64_MAX"
proof -
  show ok: "encoding_config_ok ecfg" "coder_ok C (reed_solomon ecfg) sz" and sz: "symbol_size_for_blob (reed_solomon ecfg) (length blob) = Ok sz"
    using assms by (auto simp: blob_fits_def)
  show "n_shards (reed_solomon ecfg) = ec_n_shards ecfg" "0 < sz" using encoding_config_okD(2) [OF ok(1)] coder_okD(2) [OF ok(2)] by auto
  show le: "length blob \<le> source_symbols_primary (reed_solomon ecfg) * source_symbols_secondary (reed_solomon ecfg) * sz"
    using symbol_size_for_blob_OkD(4) [OF sz coder_okD(1) [OF ok(2)]] .
  also have "\<dots> \<le> U16_MAX * U16_MAX * U16_MAX"
    using coder_ok_axis(3) [OF ok(2), of Primary] coder_ok_axis(3) [OF ok(2), of Secondary] coder_okD(4) [OF ok(2)] by (intro mult_le_mono) auto
  finally show "length blob \<le> U64_MAX" by simp
qed

lemma blob_encoder_new_eq:
  assumes "blob_fits C ecfg sz (blob_as_ref b)"
  shows "blob_encoder_new (reed_solomon ecfg) b = Ok (mk_encoder (reed_solomon ecfg) sz b)"
  using blob_fitsD(3,7) [OF assms]
  by (simp add: blob_encoder_new_def blob_len_eq compute_symbol_size_from_usize_def symbol_size_for_blob_def mk_encoder_def mk_data_def)

lemma config_encode_eq:
  assumes "blob_fits C ecfg sz blob"
  shows "config_encode_with_metadata h C (reed_solomon ecfg) blob = Ok (blob_pairs C (reed_solomon ecfg) sz blob, blob_md h C (reed_solomon ecfg) sz blob)"
    "config_compute_metadata h C (reed_solomon ecfg) blob = Ok (blob_md h C (reed_solomon ecfg) sz blob)"
  using blob_fitsD [OF assms] blob_encoder_new_eq [of C ecfg sz "Owned blob"] blob_encoder_new_eq [of C ecfg sz "Borrowed blob"] assms
  by (simp_all add: config_encode_with_metadata_def config_compute_metadata_def get_blob_encoder_def get_blob_encoder_owned_def blob_new_def
      blob_new_owned_def encode_with_metadata_eq compute_metadata_eq)

lemma blob_md_simps [simp]:
  "hashes (metadata (blob_md h C cfg sz blob)) = blob_hashes h C cfg sz blob" "unencoded_length (metadata (blob_md h C cfg sz blob)) = length blob"
  "length (blob_hashes h C cfg sz blob) = n_shards cfg" "length (blob_pairs C cfg sz blob) = n_shards cfg"
  by (simp_all add: blob_md_def new_verified_from_metadata_def new_verified_unchecked_def blob_metadata_new_def Let_def blob_hashes_def blob_pairs_def)

lemma blob_md_fits: "blob_fits C ecfg sz blob \<Longrightarrow> md_fits C ecfg (metadata (blob_md h C (reed_solomon ecfg) sz blob)) sz"
  using blob_fitsD [of C ecfg sz blob] by (simp add: md_fits_def metadata_symbol_size_def)

lemma sliver_shapes:
  assumes "coder_ok C cfg sz" "i < n_shards cfg"
  shows "sliver_shape Primary cfg sz (primary_sliver C cfg sz blob i)" "sliver_shape Secondary cfg sz (secondary_sliver C cfg sz blob i)"
proof -
  have le: "source_symbols_primary cfg \<le> n_shards cfg" "source_symbols_secondary cfg \<le> n_shards cfg" "0 < sz"
    using coder_ok_axis(2) [OF assms(1), of Primary] coder_ok_axis(2) [OF assms(1), of Secondary] coder_okD(2) [OF assms(1)] by simp_all
  have "sized sz (map (msg C cfg sz blob i) [0..<source_symbols_secondary cfg])" "sized sz (map (\<lambda>p. msg C cfg sz blob p i) [0..<source_symbols_primary cfg])"
    using le assms(2) msg_shape(2) [OF assms(1)] by auto
  then show "sliver_shape Primary cfg sz (primary_sliver C cfg sz blob i)" "sliver_shape Secondary cfg sz (secondary_sliver C cfg sz blob i)"
    by (simp_all only: sliver_shape_def sliver_len_def primary_sliver_def secondary_sliver_def mk_symbols_simps length_concat_sized) simp_all
qed

lemma expanded_slivers:
  assumes "coder_ok C cfg sz" "i < n_shards cfg"
  shows "coder_commute C cfg sz \<Longrightarrow> expanded C Primary cfg (primary_sliver C cfg sz blob i) = map (msg C cfg sz blob i) [0..<n_shards cfg]"
    "expanded C Secondary cfg (secondary_sliver C cfg sz blob i) = col_code C cfg sz blob i"
  using row_is_codeword [OF assms(1) _ assms(2), of blob] secondary_sliver_eq [OF assms, of blob]
  by (simp_all add: expanded_def primary_sliver_def col_code_def)

lemma slivers_verified:
  assumes fits: "blob_fits C ecfg sz blob" and i: "i < ec_n_shards ecfg"
  shows "coder_commute C (reed_solomon ecfg) sz \<Longrightarrow>
      sliver_verify h C Primary (primary_sliver C (reed_solomon ecfg) sz blob i) ecfg (metadata (blob_md h C (reed_solomon ecfg) sz blob)) = Ok ()"
    "sliver_verify h C Secondary (secondary_sliver C (reed_solomon ecfg) sz blob i) ecfg (metadata (blob_md h C (reed_solomon ecfg) sz blob)) = Ok ()"
proof -
  let ?cfg = "reed_solomon ecfg"
  note D = blob_fitsD [OF fits] and ok = blob_fitsD(2) [OF fits]
  have i': "i < n_shards ?cfg" using i D(4) by simp
  note sh = sliver_shapes [OF ok i', of blob] and ex = expanded_slivers [OF ok i', of blob]
  show "coder_commute C ?cfg sz \<Longrightarrow> sliver_verify h C Primary (primary_sliver C ?cfg sz blob i) ecfg (metadata (blob_md h C ?cfg sz blob)) = Ok ()"
    using sh(1) ex(1) i D(4) unfolding sliver_verify_Ok_iff [OF blob_md_fits [OF fits]]
    by (simp add: primary_sliver_def get_sliver_hash_def blob_hashes_def)
  have "n_shards ?cfg - 1 - (n_shards ?cfg - Suc i) = i" using i' by simp
  then show "sliver_verify h C Secondary (secondary_sliver C ?cfg sz blob i) ecfg (metadata (blob_md h C ?cfg sz blob)) = Ok ()"
    using sh(2) ex(2) i D(4) unfolding sliver_verify_Ok_iff [OF blob_md_fits [OF fits]]
    by (simp add: secondary_sliver_def get_sliver_hash_def blob_hashes_def to_sliver_def)
qed

text \<open>The sliver of an axis with a sliver index, and its expansion.\<close>

fun blob_sliver :: "'r rs_codec \<Rightarrow> axis \<Rightarrow> rs_config \<Rightarrow> nat \<Rightarrow> bytes \<Rightarrow> nat \<Rightarrow> sliver_data" where
  "blob_sliver C Primary cfg sz blob i = primary_sliver C cfg sz blob i"
| "blob_sliver C Secondary cfg sz blob i = secondary_sliver C cfg sz blob i"

lemma blob_pairs_slivers: "i < n_shards cfg \<Longrightarrow> pair_sliver a (blob_pairs C cfg sz blob ! i) = blob_sliver C a cfg sz blob (to_sliver a i (n_shards cfg))"
  by (cases a) (simp_all add: blob_pairs_def to_sliver_def)

lemma blob_sliver_shape:
  assumes "coder_ok C cfg sz" "i < n_shards cfg"
  shows "sliver_shape a cfg sz (blob_sliver C a cfg sz blob i)" "sd_index (blob_sliver C a cfg sz blob i) = i"
  using sliver_shapes [OF assms] by (cases a; simp add: primary_sliver_def secondary_sliver_def)+

text \<open>Symbol \<open>j\<close> of sliver \<open>i\<close> is symbol \<open>i\<close> of sliver \<open>j\<close> of the other axis.\<close>

lemma expanded_cross:
  assumes "coder_ok C cfg sz" "coder_commute C cfg sz" "i < n_shards cfg" "j < n_shards cfg"
  shows "expanded C a cfg (blob_sliver C a cfg sz blob i) ! j = expanded C (orthogonal a) cfg (blob_sliver C (orthogonal a) cfg sz blob j) ! i"
  using assms expanded_slivers(1) [OF assms(1,3,2), of blob] expanded_slivers(1) [OF assms(1,4,2), of blob]
    expanded_slivers(2) [OF assms(1,3), of blob] expanded_slivers(2) [OF assms(1,4), of blob]
  by (cases a) (simp_all add: msg_def)

lemma blob_sliver_verified:
  "blob_fits C ecfg sz blob \<Longrightarrow> coder_commute C (reed_solomon ecfg) sz \<Longrightarrow> i < ec_n_shards ecfg \<Longrightarrow>
    sliver_verify h C a (blob_sliver C a (reed_solomon ecfg) sz blob i) ecfg (metadata (blob_md h C (reed_solomon ecfg) sz blob)) = Ok ()"
  by (cases a) (simp_all add: slivers_verified)

subsection \<open>Recovery\<close>

definition symbols_for :: "'r rs_codec \<Rightarrow> axis \<Rightarrow> rs_config \<Rightarrow> nat \<Rightarrow> bytes \<Rightarrow> nat \<Rightarrow> nat list \<Rightarrow> decoding_symbol list" where
  "symbols_for C a cfg sz blob t srcs = map (\<lambda>j. \<lparr>ds_index = j, ds_data = expanded C a cfg (blob_sliver C a cfg sz blob t) ! j\<rparr>) srcs"

lemma decoding_symbols_served:
  assumes ok: "coder_ok C cfg sz" "coder_commute C cfg sz" and t: "t < n_shards cfg" and j: "j < n_shards cfg"
  shows "decoding_symbol_for_sliver C (orthogonal a) (pair_sliver (orthogonal a) (blob_pairs C cfg sz blob ! j)) t cfg
    = Ok \<lparr>ds_index = to_sliver (orthogonal a) j (n_shards cfg),
        ds_data = expanded C a cfg (blob_sliver C a cfg sz blob (to_sliver a t (n_shards cfg))) ! to_sliver (orthogonal a) j (n_shards cfg)\<rparr>"
proof -
  let ?n = "n_shards cfg" and ?j = "to_sliver (orthogonal a) j (n_shards cfg)"
  have lt: "?j < ?n" "to_sliver a t ?n < ?n" using t j by simp_all
  note sh = blob_sliver_shape [OF ok(1) lt(1), of "orthogonal a" blob]
  show ?thesis
    unfolding blob_pairs_slivers [OF j]
    using decoding_symbol_for_sliver_eq [OF ok(1) sh(1) t] sh(2) expanded_cross [OF ok lt(2) lt(1), of a blob] by simp
qed

lemma symbols_for_code:
  assumes "coder_ok C cfg sz" "t < n_shards cfg" "\<forall>j\<in>set srcs. j < n_shards cfg"
  shows "symbols_of_code (n_shards cfg) sz (expanded C a cfg (blob_sliver C a cfg sz blob t)) (symbols_for C a cfg sz blob t srcs)"
    "n_distinct sz (symbols_for C a cfg sz blob t srcs) = card (set srcs)"
proof -
  have len: "length (expanded C a cfg (blob_sliver C a cfg sz blob t) ! j) = sz" if "j < n_shards cfg" for j
    using expanded_shape(2) [OF assms(1) blob_sliver_shape(1) [OF assms(1,2)]] that by simp
  then have u: "usable sz (symbols_for C a cfg sz blob t srcs) = symbols_for C a cfg sz blob t srcs"
    using assms(3) by (auto simp: usable_def symbols_for_def filter_id_conv)
  show "symbols_of_code (n_shards cfg) sz (expanded C a cfg (blob_sliver C a cfg sz blob t)) (symbols_for C a cfg sz blob t srcs)"
    unfolding symbols_of_code_def u using assms(3) by (auto simp: symbols_for_def)
  show "n_distinct sz (symbols_for C a cfg sz blob t srcs) = card (set srcs)"
    unfolding n_distinct_def u by (simp add: symbols_for_def image_image)
qed

lemma recover_blob_sliver:
  assumes "coder_ok C cfg sz" "t < n_shards cfg" "\<forall>j\<in>set srcs. j < n_shards cfg" "n_source_symbols (orthogonal a) cfg \<le> card (set srcs)"
  shows "recover_sliver_from_decoding_symbols C a (symbols_for C a cfg sz blob t srcs) t sz cfg = Ok (blob_sliver C a cfg sz blob t)"
  using recover_sliver_eq [OF assms(1) blob_sliver_shape(1) [OF assms(1,2)] symbols_for_code(1) [OF assms(1-3)], of a blob]
    symbols_for_code(2) [OF assms(1-3), of a blob] blob_sliver_shape(2) [OF assms(1,2), of a blob] assms(4) by simp

lemma try_recover_blob_sliver:
  assumes "blob_fits C ecfg sz blob" "coder_commute C (reed_solomon ecfg) sz" "t < ec_n_shards ecfg" "\<forall>j\<in>set srcs. j < ec_n_shards ecfg"
    and "n_source_symbols (orthogonal a) (reed_solomon ecfg) \<le> card (set srcs)"
  shows "try_recover_sliver_from_decoding_symbols h C a (symbols_for C a (reed_solomon ecfg) sz blob t srcs) t
      (metadata (blob_md h C (reed_solomon ecfg) sz blob)) ecfg = Ok (blob_sliver C a (reed_solomon ecfg) sz blob t)"
  using recover_blob_sliver [OF blob_fitsD(2) [OF assms(1)], of t srcs a blob] blob_sliver_verified [OF assms(1-3)] blob_md_fits [OF assms(1)]
    blob_fitsD(4) [OF assms(1)] assms(3-5)
  by (simp add: try_recover_sliver_from_decoding_symbols_def md_fits_def)

subsection \<open>Properties\<close>

text \<open>C13: The three implementations of the encoding agree: the encoder, the legacy encoder on the expanded matrix, and the computation
  of the metadata alone succeed on every blob of an encodable size and give the same slivers, metadata and blob ID, and the
  metadata passes verification.\<close>

theorem encoders_same_output:
  assumes "blob_fits C ecfg sz blob"
  shows "\<exists>pairs md be. config_encode_with_metadata h C (reed_solomon ecfg) blob = Ok (pairs, md) \<and> length pairs = ec_n_shards ecfg
    \<and> config_compute_metadata h C (reed_solomon ecfg) blob = Ok md \<and> compute_blob_id h C (reed_solomon ecfg) blob = Ok (blob_id md)
    \<and> get_blob_encoder (reed_solomon ecfg) blob = Ok be
    \<and> encode_with_metadata_legacy h C be = (Ok (pairs, md) :: (sliver_pair list \<times> blob_metadata_with_id, data_too_large_error) result)
    \<and> metadata_verify h (into_unverified md) ecfg = Ok md"
proof -
  note D = blob_fitsD [OF assms]
  have "length blob \<le> max_blob_size (reed_solomon ecfg)"
    using symbol_size_for_blob_Ok_iff [of "ec_n_shards ecfg" "reed_solomon ecfg" "length blob"] D(1,3) by (auto simp: encoding_config_ok_def)
  then have "metadata_verify h (into_unverified (blob_md h C (reed_solomon ecfg) sz blob)) ecfg = Ok (blob_md h C (reed_solomon ecfg) sz blob)"
    unfolding blob_md_def by (intro new_verified_verifies) (simp_all add: D(4))
  then show ?thesis
    using config_encode_eq [OF assms, of h] blob_encoder_new_eq [of C ecfg sz "Borrowed blob"] assms D
      encode_with_metadata_legacy_eq [OF D(2), of "Borrowed blob" h]
    by (simp add: compute_blob_id_def get_blob_encoder_def blob_new_def)
qed

definition example_blob :: bytes where
  "example_blob = [1, 2, 3, 4, 5, 6, 7, 8, 9, 10, 11, 12, 13]"

lemma length_example_blob [simp]: "length example_blob = 13"
  by (simp add: example_blob_def)

lemma example_fits: "blob_fits four_codec example_encoding_config 4 example_blob"
  using example_encoding_config_ok four_coder_ok [of 4] example_symbol_size
  by (simp add: blob_fits_def example_encoding_config_def)

lemma example_commute: "coder_commute four_codec (reed_solomon example_encoding_config) 4"
  using four_commute [of 4] by (simp add: coder_commute_def example_encoding_config_def example_config_def)

theorem encoders_same_output_witness:
  "\<exists>pairs md. config_encode_with_metadata fold_hash four_codec example_config example_blob = Ok (pairs, md) \<and> length pairs = 4
    \<and> config_compute_metadata fold_hash four_codec example_config example_blob = Ok md
    \<and> metadata_verify fold_hash (into_unverified md) example_encoding_config = Ok md"
  using encoders_same_output [OF example_fits, of fold_hash] by (auto simp: example_encoding_config_def)

text \<open>C14: Everything the encoder produces is accepted: pair \<open>i\<close> of the output has index \<open>i\<close>, and both of its slivers pass verification
  against the metadata of the blob.\<close>

theorem encoded_slivers_verify:
  assumes "blob_fits C ecfg sz blob" "coder_commute C (reed_solomon ecfg) sz"
    and "config_encode_with_metadata h C (reed_solomon ecfg) blob = Ok (pairs, md)" "i < ec_n_shards ecfg"
  shows "pair_index (pairs ! i) = i \<and> sd_index (secondary (pairs ! i)) = ec_n_shards ecfg - 1 - i
    \<and> sliver_verify h C Primary (primary (pairs ! i)) ecfg (metadata md) = Ok ()
    \<and> sliver_verify h C Secondary (secondary (pairs ! i)) ecfg (metadata md) = Ok ()"
proof -
  have out: "pairs = blob_pairs C (reed_solomon ecfg) sz blob" "md = blob_md h C (reed_solomon ecfg) sz blob"
    using config_encode_eq(1) [OF assms(1), of h] assms(3) by auto
  show ?thesis
    using assms(4) blob_fitsD(4) [OF assms(1)] slivers_verified(1) [OF assms(1,4,2)] slivers_verified(2) [OF assms(1), of "ec_n_shards ecfg - 1 - i"]
    by (simp add: out blob_pairs_def pair_index_def primary_sliver_def [of _ _ _ _ i] secondary_sliver_def [of _ _ _ _ "_ - _"])
qed

theorem encoded_slivers_verify_witness:
  "\<exists>pairs md. config_encode_with_metadata fold_hash four_codec example_config example_blob = Ok (pairs, md)
    \<and> sliver_verify fold_hash four_codec Primary (primary (pairs ! 3)) example_encoding_config (metadata md) = Ok ()"
  using encoded_slivers_verify [OF example_fits example_commute config_encode_eq(1) [OF example_fits], of 3]
    config_encode_eq(1) [OF example_fits, of fold_hash]
  by (auto simp: example_encoding_config_def)

text \<open>C15: Every sliver can be recovered from the others: the symbols that enough pairs of the encoded blob serve for a
  target pair, taken from their slivers of the other axis, reconstruct exactly the target's sliver, and it passes verification.\<close>

theorem sliver_recoverable:
  assumes "blob_fits C ecfg sz blob" "coder_commute C (reed_solomon ecfg) sz"
    and "config_encode_with_metadata h C (reed_solomon ecfg) blob = Ok (pairs, md)"
    and "t < ec_n_shards ecfg" "\<forall>j\<in>set helpers. j < ec_n_shards ecfg" "n_source_symbols (orthogonal a) (reed_solomon ecfg) \<le> card (set helpers)"
  shows "\<exists>syms. try_map (\<lambda>j. decoding_symbol_for_sliver C (orthogonal a) (pair_sliver (orthogonal a) (pairs ! j)) t (reed_solomon ecfg)) helpers = Ok syms
    \<and> try_recover_sliver_from_decoding_symbols h C a syms (to_sliver a t (ec_n_shards ecfg)) (metadata md) ecfg = Ok (pair_sliver a (pairs ! t))"
proof -
  let ?cfg = "reed_solomon ecfg" and ?n = "ec_n_shards ecfg" and ?t = "to_sliver a t (ec_n_shards ecfg)"
  let ?srcs = "map (\<lambda>j. to_sliver (orthogonal a) j ?n) helpers"
  note D = blob_fitsD [OF assms(1)]
  have out: "pairs = blob_pairs C ?cfg sz blob" "md = blob_md h C ?cfg sz blob" using config_encode_eq(1) [OF assms(1), of h] assms(3) by auto
  have "try_map (\<lambda>j. decoding_symbol_for_sliver C (orthogonal a) (pair_sliver (orthogonal a) (pairs ! j)) t ?cfg) helpers
      = Ok (map (\<lambda>j. \<lparr>ds_index = to_sliver (orthogonal a) j ?n, ds_data = expanded C a ?cfg (blob_sliver C a ?cfg sz blob ?t) ! to_sliver (orthogonal a) j ?n\<rparr>) helpers)"
    using decoding_symbols_served [OF D(2) assms(2)] assms(4,5) D(4) by (intro try_map_Ok) (simp add: out)
  then have syms: "try_map (\<lambda>j. decoding_symbol_for_sliver C (orthogonal a) (pair_sliver (orthogonal a) (pairs ! j)) t ?cfg) helpers
      = Ok (symbols_for C a ?cfg sz blob ?t ?srcs)"
    by (simp add: symbols_for_def comp_def)
  have "inj_on (\<lambda>j. to_sliver (orthogonal a) j ?n) (set helpers)"
    using assms(5) by (intro inj_onI) (metis to_sliver_invol)
  then have "card (set ?srcs) = card (set helpers)" by (simp add: card_image)
  then have "try_recover_sliver_from_decoding_symbols h C a (symbols_for C a ?cfg sz blob ?t ?srcs) ?t (metadata md) ecfg = Ok (blob_sliver C a ?cfg sz blob ?t)"
    unfolding out using assms(4-6) by (intro try_recover_blob_sliver [OF assms(1,2)]) auto
  then show ?thesis using syms assms(4) D(4) blob_pairs_slivers [of t ?cfg a C sz blob] by (simp add: out)
qed

theorem sliver_recoverable_witness:
  "\<exists>pairs md syms. config_encode_with_metadata fold_hash four_codec example_config example_blob = Ok (pairs, md)
    \<and> try_map (\<lambda>j. decoding_symbol_for_sliver four_codec Secondary (pair_sliver Secondary (pairs ! j)) 3 example_config) [0, 1, 2] = Ok syms
    \<and> try_recover_sliver_from_decoding_symbols fold_hash four_codec Primary syms 3 (metadata md) example_encoding_config = Ok (primary (pairs ! 3))"
  using sliver_recoverable [OF example_fits example_commute config_encode_eq(1) [OF example_fits], of 3 "[0, 1, 2]" Primary]
    config_encode_eq(1) [OF example_fits, of fold_hash]
  by (auto simp: example_encoding_config_def example_config_def)

end
