(* ===== verification/Inconsistency.thy ===== *)
theory Inconsistency
  imports BlobEncoding
begin

text \<open>
  Proofs that a blob is encoded inconsistently, \<open>crates/walrus-core/src/inconsistency.rs\<close>. The axis \<open>T\<close> of an \<open>InconsistencyProof<T, U>\<close> is an argument of its operations; the record of a proof is in
  theory \<open>Slivers\<close>, because the recovery of a sliver can return one. The lemmas show both directions: recovery from
  verified symbols gives a verified sliver or a proof that is accepted, and no proof is accepted for a blob that is encoded as
  the encoder does it.
\<close>

subsection \<open>Verification of a proof\<close>

datatype inconsistency_verification_error =
  IncorrectSymbolCount nat nat
| InvalidRecoverySymbols
| RecoveryFailure
| ProofVerificationError sliver_verification_error
| SliverNotInconsistent

text \<open>The iterator method \<open>all\<close> on a test that returns a \<open>Result\<close>: it stops at the first element for which the result is not \<open>Ok\<close>.\<close>

fun all_ok :: "('a \<Rightarrow> ('b, 'f) result) \<Rightarrow> 'a list \<Rightarrow> (bool, 'e) result" where
  "all_ok f [] = Ok True"
| "all_ok f (x # xs) = (case f x of Ok _ \<Rightarrow> all_ok f xs | Err _ \<Rightarrow> Ok False | Panic \<Rightarrow> Panic)"

definition check_recovery_symbols ::
  "hash_fun \<Rightarrow> axis \<Rightarrow> inconsistency_proof \<Rightarrow> blob_metadata \<Rightarrow> nat \<Rightarrow> encoding_config \<Rightarrow> (unit, inconsistency_verification_error) result" where
  "check_recovery_symbols h a self md expected_symbol_size ecfg =
    (case n_symbols_for_recovery a (get_for_type ecfg (encoding_type md)) of Exact expected_symbol_count \<Rightarrow>
      and_then (ensure (length (ip_recovery_symbols self) = expected_symbol_count)
        (IncorrectSymbolCount expected_symbol_count (length (ip_recovery_symbols self)))) (\<lambda>_.
      and_then (all_ok (\<lambda>symbol. recovery_symbol_verify h a symbol (ec_n_shards ecfg) expected_symbol_size md (target_sliver_index self))
        (ip_recovery_symbols self)) (\<lambda>b.
      ensure b InvalidRecoverySymbols)))"

definition inconsistency_proof_verify ::
  "hash_fun \<Rightarrow> 'r rs_codec \<Rightarrow> axis \<Rightarrow> inconsistency_proof \<Rightarrow> blob_metadata \<Rightarrow> encoding_config \<Rightarrow> (unit, inconsistency_verification_error) result" where
  "inconsistency_proof_verify h C a self md ecfg =
    and_then (map_err (\<lambda>_. RecoveryFailure) (metadata_symbol_size md ecfg)) (\<lambda>sz.
    and_then (check_recovery_symbols h a self md sz ecfg) (\<lambda>_.
    and_then (map_err (\<lambda>_. RecoveryFailure) (recover_sliver_without_verification C a (ip_recovery_symbols self) (target_sliver_index self)
      sz (get_for_type ecfg (encoding_type md)))) (\<lambda>sliver.
    (case sliver_verify h C a sliver ecfg md of
       Ok _ \<Rightarrow> Err SliverNotInconsistent
     | Err MerkleRootMismatch \<Rightarrow> Ok ()
     | Err e \<Rightarrow> Err (ProofVerificationError e)
     | Panic \<Rightarrow> Panic))))"

subsection \<open>Outcome of the checks\<close>

lemma all_ok_eq: "\<forall>x\<in>set xs. f x \<noteq> Panic \<Longrightarrow> all_ok f xs = Ok (\<forall>x\<in>set xs. is_ok (f x))"
  by (induction xs) (auto split: result.splits)

lemma verify_proof_no_panic: "n \<le> U16_MAX \<Longrightarrow> verify_proof h p rt n leaf i \<noteq> Panic"
proof -
  assume "n \<le> U16_MAX"
  then have "path_length n \<le> 63" by (intro path_length_le) simp
  then show ?thesis by (simp add: verify_proof_def check_path_length_def compute_root_def ensure_def)
qed

lemma recovery_symbol_verify_no_panic: "n \<le> U16_MAX \<Longrightarrow> recovery_symbol_verify h a r n sz md t \<noteq> Panic"
  using verify_proof_no_panic by (simp add: recovery_symbol_verify_def recovery_symbol_verify_proof_def not_le)

definition proof_symbols_ok :: "hash_fun \<Rightarrow> axis \<Rightarrow> inconsistency_proof \<Rightarrow> blob_metadata \<Rightarrow> nat \<Rightarrow> encoding_config \<Rightarrow> bool" where
  "proof_symbols_ok h a p md sz ecfg \<longleftrightarrow> length (ip_recovery_symbols p) = n_source_symbols (orthogonal a) (reed_solomon ecfg)
    \<and> (\<forall>r\<in>set (ip_recovery_symbols p). recovery_symbol_verify h a r (ec_n_shards ecfg) sz md (target_sliver_index p) = Ok ())"

lemma check_recovery_symbols_eq:
  "ec_n_shards ecfg \<le> U16_MAX \<Longrightarrow> check_recovery_symbols h a p md sz ecfg = (if proof_symbols_ok h a p md sz ecfg then Ok ()
    else if length (ip_recovery_symbols p) \<noteq> n_source_symbols (orthogonal a) (reed_solomon ecfg)
      then Err (IncorrectSymbolCount (n_source_symbols (orthogonal a) (reed_solomon ecfg)) (length (ip_recovery_symbols p)))
    else Err InvalidRecoverySymbols)"
proof -
  assume n: "ec_n_shards ecfg \<le> U16_MAX"
  let ?f = "\<lambda>r. recovery_symbol_verify h a r (ec_n_shards ecfg) sz md (target_sliver_index p)"
  have "is_ok (?f r) \<longleftrightarrow> ?f r = Ok ()" for r by (cases "?f r") auto
  then have "all_ok ?f (ip_recovery_symbols p) = (Ok (\<forall>r\<in>set (ip_recovery_symbols p). ?f r = Ok ()) :: (bool, inconsistency_verification_error) result)"
    using all_ok_eq [of "ip_recovery_symbols p" ?f] recovery_symbol_verify_no_panic [OF n] by simp
  then show ?thesis
    by (simp add: check_recovery_symbols_def n_symbols_for_recovery_def n_slivers_for_reconstruction_def proof_symbols_ok_def ensure_def)
qed

text \<open>The symbols of a proof as the decoder sees them.\<close>

lemma proof_symbols:
  assumes "\<forall>r\<in>set rs. recovery_symbol_verify h a r n sz md t = Ok ()"
  shows "usable sz (map into_decoding_symbol rs) = map into_decoding_symbol rs"
    "\<forall>s\<in>set (map into_decoding_symbol rs). ds_index s < n \<and> length (ds_data s) = sz"
  using assms by (auto simp: usable_def filter_id_conv recovery_symbol_verify_Ok_iff into_decoding_symbol_def)

text \<open>Symbols with different indices, as many as a sliver has, decode to some sliver.\<close>

lemma recover_interpolated:
  assumes ok: "coder_ok C cfg sz" and len: "length rs = n_source_symbols (orthogonal a) cfg" and dist: "distinct (map (\<lambda>r. ds_index (rs_symbol r)) rs)"
    and ver: "\<forall>r\<in>set rs. recovery_symbol_verify h a r (n_shards cfg) sz md t = Ok ()"
  shows "\<exists>s. recover_sliver_without_verification C a rs t sz cfg = Ok s \<and> sd_index s = t \<and> sliver_shape a cfg sz s"
proof -
  let ?ds = "map into_decoding_symbol rs"
  note P = proof_symbols [OF ver]
  have d: "distinct (map ds_index ?ds)" using dist by (simp add: into_decoding_symbol_def comp_def)
  obtain d where d': "length d = n_source_symbols (orthogonal a) cfg * sz" "symbols_of_code (n_shards cfg) sz (axis_code C (orthogonal a) cfg sz d) ?ds"
    using codeword_interpolation [OF ok _ d P(2)] len by auto
  let ?s = "\<lparr>sd_symbols = \<lparr>sym_data = d, symbol_size = sz\<rparr>, sd_index = t\<rparr>"
  have sh: "sliver_shape a cfg sz ?s" using d'(1) by (simp add: sliver_shape_def sliver_len_def)
  have "n_distinct sz ?ds = length ?ds" unfolding n_distinct_def P(1) using distinct_card [OF d] by (simp add: image_image)
  then have "recover_sliver_from_decoding_symbols C a ?ds (sd_index ?s) sz cfg = Ok ?s"
    using d'(2) len by (intro recover_sliver_eq [OF ok sh]) (simp_all add: expanded_def)
  then show ?thesis using sh by (auto simp: recover_sliver_without_verification_def)
qed

lemma recover_authentic:
  assumes fits: "blob_fits C ecfg sz blob" and com: "coder_commute C (reed_solomon ecfg) sz" and t: "t < ec_n_shards ecfg"
    and len: "length rs = n_source_symbols (orthogonal a) (reed_solomon ecfg)"
    and auth: "\<forall>r\<in>set rs. ds_index (rs_symbol r) < ec_n_shards ecfg \<and> ds_data (rs_symbol r) =
      expanded C (orthogonal a) (reed_solomon ecfg) (blob_sliver C (orthogonal a) (reed_solomon ecfg) sz blob (ds_index (rs_symbol r))) ! t"
  shows "recover_sliver_without_verification C a rs t sz (reed_solomon ecfg) = Ok (blob_sliver C a (reed_solomon ecfg) sz blob t)
    \<or> (\<exists>e. recover_sliver_without_verification C a rs t sz (reed_solomon ecfg) = Err e)"
proof -
  let ?cfg = "reed_solomon ecfg" and ?srcs = "map (\<lambda>r. ds_index (rs_symbol r)) rs"
  note D = blob_fitsD [OF fits]
  have i: "\<forall>j\<in>set ?srcs. j < n_shards ?cfg" using auth D(4) by simp
  have "into_decoding_symbol r = \<lparr>ds_index = ds_index (rs_symbol r), ds_data = expanded C a ?cfg (blob_sliver C a ?cfg sz blob t) ! ds_index (rs_symbol r)\<rparr>"
    if "r \<in> set rs" for r
    using auth that t D(4) expanded_cross [OF D(2) com, of t "ds_index (rs_symbol r)" a blob] by (simp add: into_decoding_symbol_def)
  then have ds: "map into_decoding_symbol rs = symbols_for C a ?cfg sz blob t ?srcs" by (simp add: symbols_for_def)
  have t': "t < n_shards ?cfg" using t D(4) by simp
  have "\<exists>e. recover_sliver_from_decoding_symbols C a (symbols_for C a ?cfg sz blob t ?srcs) t sz ?cfg = Err e"
    if "card (set ?srcs) < n_source_symbols (orthogonal a) ?cfg"
    by (rule recover_sliver_too_few [OF D(2)])
      (use symbols_for_code [OF D(2) t' i, of a blob] that in \<open>auto simp: symbols_of_code_def\<close>)
  then show ?thesis
    using recover_blob_sliver [OF D(2) t' i, of a blob]
    by (cases "card (set ?srcs) < n_source_symbols (orthogonal a) ?cfg") (simp_all add: recover_sliver_without_verification_def ds)
qed

text \<open>The recovery symbol that the holder of a sliver of an encoded blob gives.\<close>

lemma honest_symbol:
  assumes h: "digest32 h" and fits: "blob_fits C ecfg sz blob" and com: "coder_commute C (reed_solomon ecfg) sz" and j: "j < ec_n_shards ecfg" and t: "t < ec_n_shards ecfg"
  shows "\<exists>r. recovery_symbol_verify h a r (ec_n_shards ecfg) sz (metadata (blob_md h C (reed_solomon ecfg) sz blob)) t = Ok ()
    \<and> ds_index (rs_symbol r) = j \<and> list_all node_ok (path (rs_proof r))"
proof -
  let ?cfg = "reed_solomon ecfg" and ?n = "ec_n_shards ecfg" and ?s = "blob_sliver C (orthogonal a) (reed_solomon ecfg) sz blob j"
  let ?e = "expanded C (orthogonal a) ?cfg ?s" and ?md = "metadata (blob_md h C (reed_solomon ecfg) sz blob)"
  note D = blob_fitsD [OF fits] and fit = blob_md_fits [OF fits, of h]
  have j': "j < n_shards ?cfg" using j D(4) by simp
  note sh = blob_sliver_shape [OF D(2) j', of "orthogonal a" blob]
  have len: "length ?e = ?n" using expanded_shape(1) [OF D(2) sh(1)] D(4) by simp
  have hash: "get_sliver_hash ?md (to_sliver (orthogonal a) j ?n) (orthogonal a) = Some (root (build h ?e))"
    using blob_sliver_verified [OF fits com j, of h "orthogonal a"] sh(2) unfolding sliver_verify_Ok_iff [OF fit] by simp
  obtain p where p: "get_proof (build h ?e) t = Ok p" using t len by (auto simp: get_proof_build)
  have "\<forall>n\<in>set (path p). node_ok n" using merkle.opening_wf [OF h, of ?e t p] p by simp
  moreover have "recovery_symbol_verify h a (with_proof \<lparr>ds_index = j, ds_data = ?e ! t\<rparr> p) ?n sz ?md t = Ok ()"
    using recovery_symbol_complete [of ?e j t sz h p ?md a] len j t p hash md_fitsD(3) [OF fit] expanded_shape(2) [OF D(2) sh(1), of t] D(4) by simp
  ultimately show ?thesis
    by (intro exI [of _ "with_proof \<lparr>ds_index = j, ds_data = ?e ! t\<rparr> p"]) (simp add: with_proof_def list_all_iff)
qed

subsection \<open>Properties\<close>

text \<open>Three recovery symbols for the last primary sliver of the example blob.\<close>

lemma example_symbols:
  "\<exists>rs. length rs = 3 \<and> distinct (map (\<lambda>r. ds_index (rs_symbol r)) rs) \<and> list_all (\<lambda>r. list_all node_ok (path (rs_proof r))) rs
    \<and> list_all (\<lambda>r. recovery_symbol_verify fold_hash Primary r 4 4 (metadata (blob_md fold_hash four_codec example_config 4 example_blob)) 3 = Ok ()) rs"
proof -
  have cfg: "reed_solomon example_encoding_config = example_config" "ec_n_shards example_encoding_config = 4"
    by (simp_all add: example_encoding_config_def)
  note sym = honest_symbol [OF digest32_fold_hash example_fits example_commute, unfolded cfg, of _ 3 Primary]
  have "\<forall>j\<in>{0, 1, 2}. \<exists>r. recovery_symbol_verify fold_hash Primary r 4 4 (metadata (blob_md fold_hash four_codec example_config 4 example_blob)) 3 = Ok ()
      \<and> ds_index (rs_symbol r) = j \<and> list_all node_ok (path (rs_proof r))" using sym by auto
  from bchoice [OF this] obtain f where "\<forall>j\<in>{0, 1, 2}.
    recovery_symbol_verify fold_hash Primary (f j) 4 4 (metadata (blob_md fold_hash four_codec example_config 4 example_blob)) 3 = Ok ()
      \<and> ds_index (rs_symbol (f j)) = j \<and> list_all node_ok (path (rs_proof (f j)))" by blast
  then show ?thesis by (intro exI [of _ "[f 0, f 1, f 2]"]) simp
qed

text \<open>C20: Recovery never ends without a result: from verified recovery symbols of enough different slivers, recovery returns either the
  target sliver, which passes verification against the metadata, or an inconsistency proof, which everyone accepts who verifies it
  against the same metadata.\<close>

theorem recovery_sliver_or_proof:
  assumes "md_fits C ecfg md sz" "t < ec_n_shards ecfg" "distinct (map (\<lambda>r. ds_index (rs_symbol r)) rs)"
    and "n_source_symbols (orthogonal a) (reed_solomon ecfg) \<le> length rs"
    and "list_all (\<lambda>r. recovery_symbol_verify h a r (ec_n_shards ecfg) sz md t = Ok ()) rs"
  shows "(\<exists>s. recover_sliver_or_generate_inconsistency_proof h C a rs t md ecfg = Ok (RecoveredSliver s)
      \<and> sd_index s = t \<and> sliver_verify h C a s ecfg md = Ok ())
    \<or> (\<exists>p. recover_sliver_or_generate_inconsistency_proof h C a rs t md ecfg = Ok (GeneratedProof p)
      \<and> target_sliver_index p = t \<and> inconsistency_proof_verify h C a p md ecfg = Ok ())"
proof -
  let ?cfg = "reed_solomon ecfg" and ?k = "n_source_symbols (orthogonal a) (reed_solomon ecfg)"
  let ?rs = "take ?k rs" and ?p = "inconsistency_proof_new t (take ?k rs)"
  note D = md_fitsD [OF assms(1)]
  have sz: "metadata_symbol_size md ecfg = Ok sz" using assms(1) by (simp add: md_fits_def)
  have ver: "\<forall>r\<in>set ?rs. recovery_symbol_verify h a r (ec_n_shards ecfg) sz md t = Ok ()" using assms(5) in_set_takeD by (fastforce simp: list_all_iff)
  have "distinct (map (\<lambda>r. ds_index (rs_symbol r)) ?rs)" using assms(3) by (simp add: take_map [symmetric])
  then obtain s where s: "recover_sliver_without_verification C a ?rs t sz ?cfg = Ok s" "sd_index s = t" "sliver_shape a ?cfg sz s"
    using recover_interpolated [OF D(1), of ?rs a h md t] ver assms(4) D(2) by auto
  have p: "proof_symbols_ok h a ?p md sz ecfg" using ver assms(4) by (simp add: proof_symbols_ok_def inconsistency_proof_new_def)
  have "sliver_verify h C a s ecfg md = Ok () \<or> sliver_verify h C a s ecfg md = Err MerkleRootMismatch"
    using s(2,3) assms(2) by (auto simp: sliver_verify_eq [OF assms(1)] sliver_shape_def)
  then show ?thesis
    using s sz p check_recovery_symbols_eq [OF D(3), of h a ?p md sz]
    by (auto simp: recover_sliver_or_generate_inconsistency_proof_def inconsistency_proof_verify_def n_symbols_for_recovery_def
        n_slivers_for_reconstruction_def inconsistency_proof_new_def)
qed

theorem recovery_sliver_or_proof_witness:
  "\<exists>rs. (\<exists>s. recover_sliver_or_generate_inconsistency_proof fold_hash four_codec Primary rs 3
        (metadata (blob_md fold_hash four_codec example_config 4 example_blob)) example_encoding_config = Ok (RecoveredSliver s) \<and> sd_index s = 3)
    \<or> (\<exists>p. recover_sliver_or_generate_inconsistency_proof fold_hash four_codec Primary rs 3
        (metadata (blob_md fold_hash four_codec example_config 4 example_blob)) example_encoding_config = Ok (GeneratedProof p))"
proof -
  have cfg: "reed_solomon example_encoding_config = example_config" "ec_n_shards example_encoding_config = 4" "n_source_symbols Secondary example_config = 3"
    by (simp_all add: example_encoding_config_def example_config_def)
  obtain rs where rs: "length rs = 3" "distinct (map (\<lambda>r. ds_index (rs_symbol r)) rs)"
    "list_all (\<lambda>r. recovery_symbol_verify fold_hash Primary r 4 4 (metadata (blob_md fold_hash four_codec example_config 4 example_blob)) 3 = Ok ()) rs"
    using example_symbols by blast
  show ?thesis
    using recovery_sliver_or_proof [OF blob_md_fits [OF example_fits, of fold_hash], of 3 rs Primary fold_hash, unfolded cfg] rs cfg(3) by auto
qed

text \<open>C21: Honest blobs cannot be proved inconsistent: against the metadata of an encoded blob, every inconsistency proof is rejected
  with an error, unless one of its recovery symbols breaks the hash function on the inputs hashed for the symbol and for its
  source sliver.\<close>

theorem honest_blob_not_inconsistent:
  assumes "digest32 h" "blob_fits C ecfg sz blob" "coder_commute C (reed_solomon ecfg) sz"
    and "config_encode_with_metadata h C (reed_solomon ecfg) blob = Ok (pairs, md)"
    and "list_all (\<lambda>r. list_all node_ok (path (rs_proof r))) (ip_recovery_symbols p)"
  shows "(\<exists>e. inconsistency_proof_verify h C a p (metadata md) ecfg = Err e)
    \<or> (\<exists>r\<in>set (ip_recovery_symbols p). hash_broken h (set (proof_inputs h (rs_proof r) (ds_data (rs_symbol r)) (target_sliver_index p)))
      (set (build_inputs h (expanded C (orthogonal a) (reed_solomon ecfg)
        (pair_sliver (orthogonal a) (pairs ! to_sliver (orthogonal a) (ds_index (rs_symbol r)) (ec_n_shards ecfg)))))))"
    (is "?rejected \<or> (\<exists>r\<in>set _. ?broken r)")
proof (cases "\<exists>r\<in>set (ip_recovery_symbols p). ?broken r")
  case False
  let ?cfg = "reed_solomon ecfg" and ?n = "ec_n_shards ecfg" and ?t = "target_sliver_index p" and ?rs = "ip_recovery_symbols p"
  note D = blob_fitsD [OF assms(2)]
  have out: "pairs = blob_pairs C ?cfg sz blob" "md = blob_md h C ?cfg sz blob" using config_encode_eq(1) [OF assms(2), of h] assms(4) by auto
  note fit = blob_md_fits [OF assms(2), of h, folded out(2)] and ver = blob_sliver_verified [OF assms(2,3), of _ h, folded out(2)]
  note F = md_fitsD [OF fit]
  have sz: "metadata_symbol_size (metadata md) ecfg = Ok sz" using fit by (simp add: md_fits_def)
  have ?rejected
  proof (cases "proof_symbols_ok h a p (metadata md) sz ecfg")
    case True
    have auth: "ds_index (rs_symbol r) < ?n \<and> ?t < ?n
      \<and> ds_data (rs_symbol r) = expanded C (orthogonal a) ?cfg (blob_sliver C (orthogonal a) ?cfg sz blob (ds_index (rs_symbol r))) ! ?t"
      if r: "r \<in> set ?rs" for r
    proof -
      let ?j = "ds_index (rs_symbol r)" and ?s = "blob_sliver C (orthogonal a) ?cfg sz blob (ds_index (rs_symbol r))"
      have v: "recovery_symbol_verify h a r ?n sz (metadata md) ?t = Ok ()" using True r by (simp add: proof_symbols_ok_def)
      then have j: "?j < ?n" by (simp add: recovery_symbol_verify_Ok_iff)
      have sl: "pair_sliver (orthogonal a) (pairs ! to_sliver (orthogonal a) ?j ?n) = ?s"
        using j D(4) blob_pairs_slivers [of "to_sliver (orthogonal a) ?j ?n" ?cfg "orthogonal a" C sz blob] by (simp add: out(1))
      note sh = blob_sliver_shape [OF D(2), of ?j "orthogonal a" blob]
      have len: "length (expanded C (orthogonal a) ?cfg ?s) = ?n" using expanded_shape(1) [OF D(2) sh(1)] j D(4) by simp
      have hash: "get_sliver_hash (metadata md) (to_sliver (orthogonal a) ?j ?n) (orthogonal a) = Some (root (build h (expanded C (orthogonal a) ?cfg ?s)))"
        using ver [OF j, of "orthogonal a"] sh(2) j D(4) unfolding sliver_verify_Ok_iff [OF fit] by simp
      have "\<forall>n\<in>set (path (rs_proof r)). node_ok n" using assms(5) r by (auto simp: list_all_iff)
      from recovery_symbol_authentic [OF assms(1) this, of a "expanded C (orthogonal a) ?cfg ?s" sz "metadata md" ?t] v hash len False r j
      show ?thesis by (auto simp: sl)
    qed
    have "?rs \<noteq> []" using True coder_ok_axis(1) [OF D(2), of "orthogonal a"] by (auto simp: proof_symbols_ok_def)
    then have t: "?t < ?n" using auth by (cases ?rs) auto
    have "length ?rs = n_source_symbols (orthogonal a) ?cfg" using True by (simp add: proof_symbols_ok_def)
    from recover_authentic [OF assms(2,3) t this] auth True ver [OF t, of a] sz show ?thesis
      by (auto simp: inconsistency_proof_verify_def check_recovery_symbols_eq [OF F(3)])
  next
    case False
    then show ?thesis using sz by (auto simp: inconsistency_proof_verify_def check_recovery_symbols_eq [OF F(3)])
  qed
  then show ?thesis ..
qed simp

theorem honest_blob_not_inconsistent_witness:
  "\<exists>pairs md rs. config_encode_with_metadata fold_hash four_codec example_config example_blob = Ok (pairs, md) \<and> length rs = 3
    \<and> ((\<exists>e. inconsistency_proof_verify fold_hash four_codec Primary (inconsistency_proof_new 3 rs) (metadata md) example_encoding_config = Err e)
      \<or> (\<exists>r :: recovery_symbol. hash_broken fold_hash (set (proof_inputs fold_hash (rs_proof r) (ds_data (rs_symbol r)) 3))
          (set (build_inputs fold_hash (expanded four_codec Secondary example_config
            (secondary (pairs ! to_sliver Secondary (ds_index (rs_symbol r)) 4)))))))"
proof -
  have cfg: "reed_solomon example_encoding_config = example_config" "ec_n_shards example_encoding_config = 4" by (simp_all add: example_encoding_config_def)
  note enc = config_encode_eq(1) [OF example_fits, of fold_hash, unfolded cfg]
  obtain rs :: "recovery_symbol list" where rs: "length rs = 3" "list_all (\<lambda>r. list_all node_ok (path (rs_proof r))) rs" using example_symbols by blast
  then have "list_all (\<lambda>r. list_all node_ok (path (rs_proof r))) (ip_recovery_symbols (inconsistency_proof_new 3 rs))"
    by (simp add: inconsistency_proof_new_def)
  from honest_blob_not_inconsistent [OF digest32_fold_hash example_fits example_commute, unfolded cfg, OF enc this, of Primary] enc rs(1)
  show ?thesis by (simp add: inconsistency_proof_new_def) blast
qed

end
