(* ===== verification/BlobDecoder.thy ===== *)
theory BlobDecoder
  imports BlobEncoding
begin

text \<open>
  Decoding a blob from slivers: \<open>BlobDecoder\<close> of \<open>crates/walrus-core/src/encoding/blob_encoding.rs\<close>, the consistency checks, and the
  methods \<open>decode\<close> and \<open>decode_and_verify\<close> of \<open>ReedSolomonEncodingConfig\<close> in \<open>encoding/config.rs\<close>. The axis \<open>E\<close> of the decoder is an
  argument, and the decoder trait \<open>D\<close> has the one implementation of theory \<open>BasicEncoding\<close>. \<open>usize\<close> has 64 bits.

  The iterator of slivers is a list. The loop that consumes it also gives the slivers that it has pulled from the
  iterator, because \<open>decode_and_verify\<close> inspects them when they are pulled.
\<close>

subsection \<open>The decoder\<close>

record blob_decoder =
  bd_decoder :: rs_decoder
  bd_blob_size :: nat
  bd_symbol_size :: nat
  bd_sliver_count :: nat
  bd_sliver_length :: nat
  bd_n_columns :: nat
  bd_workspace :: symbols
  bd_sliver_indices :: "sliver_index list"

definition blob_decoder_new :: "'r rs_codec \<Rightarrow> axis \<Rightarrow> rs_config \<Rightarrow> nat \<Rightarrow> (blob_decoder, 'r decode_error) result" where
  "blob_decoder_new C a cfg blob_size =
    and_then (map_err decode_error_from (symbol_size_for_blob cfg blob_size)) (\<lambda>sz.
    and_then (ok_or (checked U64_MAX blob_size) DecodeDataTooLarge) (\<lambda>blob_size.
    and_then (decoder_new C (n_source_symbols a cfg) (n_shards cfg) sz) (\<lambda>decoder.
    let sliver_len = n_source_symbols (orthogonal a) cfg; sliver_count = n_source_symbols a cfg; n_symbols = sliver_len * sliver_count;
        (n_columns, workspace) = (if is_primary a then (sliver_len, symbols_with_capacity n_symbols sz) else (sliver_count, symbols_zeros n_symbols sz))
    in Ok \<lparr>bd_decoder = decoder, bd_blob_size = blob_size, bd_symbol_size = sz, bd_sliver_count = sliver_count, bd_sliver_length = sliver_len,
      bd_n_columns = n_columns, bd_workspace = workspace, bd_sliver_indices = []\<rparr>)))"

definition write_primary_sliver_to_workspace :: "blob_decoder \<Rightarrow> symbols \<Rightarrow> (blob_decoder, 'e) result" where
  "write_primary_sliver_to_workspace self sliver =
    and_then (expect (ok (symbols_extend (bd_workspace self) (sym_data sliver)))) (\<lambda>w. Ok (self\<lparr>bd_workspace := w\<rparr>))"

definition write_secondary_sliver_to_workspace :: "blob_decoder \<Rightarrow> symbols \<Rightarrow> nat \<Rightarrow> (blob_decoder, 'e) result" where
  "write_secondary_sliver_to_workspace self sliver column =
    and_then (try_fold (\<lambda>w (row, symbol). symbols_index_mut_copy w (row * bd_n_columns self + column) symbol)
      (bd_workspace self) (enumerate 0 (to_symbols sliver))) (\<lambda>w. Ok (self\<lparr>bd_workspace := w\<rparr>))"

fun write_slivers_loop ::
  "axis \<Rightarrow> blob_decoder \<Rightarrow> sliver_index list \<Rightarrow> nat \<Rightarrow> sliver_data list \<Rightarrow> sliver_data list \<Rightarrow> (blob_decoder \<times> nat \<times> sliver_data list, 'e) result" where
  "write_slivers_loop a self seen slivers_count pulled [] = Ok (self, slivers_count, pulled)"
| "write_slivers_loop a self seen slivers_count pulled (sliver # slivers) =
    (if slivers_count = bd_sliver_count self then Ok (self, slivers_count, pulled @ [sliver])
     else if sd_index sliver \<in> set seen then write_slivers_loop a self seen slivers_count (pulled @ [sliver]) slivers
     else if symbols_len (sd_symbols sliver) \<noteq> bd_sliver_length self \<or> symbol_size (sd_symbols sliver) \<noteq> bd_symbol_size self then
       write_slivers_loop a self seen slivers_count (pulled @ [sliver]) slivers
     else and_then (if is_primary a then write_primary_sliver_to_workspace self (sd_symbols sliver)
         else write_secondary_sliver_to_workspace self (sd_symbols sliver) slivers_count) (\<lambda>self.
       write_slivers_loop a (self\<lparr>bd_sliver_indices := bd_sliver_indices self @ [sd_index sliver]\<rparr>) (sd_index sliver # seen)
         (slivers_count + 1) (pulled @ [sliver]) slivers))"

definition check_and_write_slivers_to_workspace ::
  "axis \<Rightarrow> blob_decoder \<Rightarrow> sliver_data list \<Rightarrow> (blob_decoder \<times> sliver_data list, 'r decode_error) result" where
  "check_and_write_slivers_to_workspace a self slivers =
    and_then (write_slivers_loop a self [] 0 [] slivers) (\<lambda>(self', slivers_count, pulled).
    and_then (ensure (slivers_count = bd_sliver_count self) DecodingUnsuccessful) (\<lambda>_.
    Ok (self', pulled)))"

definition decode_step :: "'r rs_codec \<Rightarrow> axis \<Rightarrow> blob_decoder \<Rightarrow> nat \<Rightarrow> (blob_decoder, 'r decode_error) result" where
  "decode_step C a self decoder_index =
    and_then (try_map (\<lambda>(sliver_index_in_workspace, sliver_index).
        let index = (if is_primary a then sliver_index_in_workspace * bd_n_columns self + decoder_index
          else decoder_index * bd_n_columns self + sliver_index_in_workspace)
        in and_then (symbols_index (bd_workspace self) index) (\<lambda>d. Ok (decoding_symbol_new sliver_index d)))
      (enumerate 0 (bd_sliver_indices self))) (\<lambda>symbols.
    (case decode C (bd_decoder self) symbols of (decoded, decoder) \<Rightarrow>
      and_then decoded (\<lambda>decoded_data.
      and_then (if is_primary a then
          try_fold (\<lambda>w (row_index, symbol). symbols_index_mut_copy w (bd_n_columns self * row_index + decoder_index) symbol)
            (bd_workspace self) (enumerate 0 (chunks (bd_symbol_size self) decoded_data))
        else symbols_index_range_mut_copy (bd_workspace self) (bd_n_columns self * decoder_index) (bd_n_columns self * (decoder_index + 1)) decoded_data) (\<lambda>w.
      Ok (self\<lparr>bd_decoder := decoder, bd_workspace := w\<rparr>)))))"

definition perform_decoding :: "'r rs_codec \<Rightarrow> axis \<Rightarrow> blob_decoder \<Rightarrow> (blob_decoder, 'r decode_error) result" where
  "perform_decoding C a self = try_fold (decode_step C a) self [0..<bd_sliver_length self]"

definition decode_pulling :: "'r rs_codec \<Rightarrow> axis \<Rightarrow> blob_decoder \<Rightarrow> sliver_data list \<Rightarrow> (bytes \<times> sliver_data list, 'r decode_error) result" where
  "decode_pulling C a self slivers =
    and_then (check_and_write_slivers_to_workspace a self slivers) (\<lambda>(self, pulled).
    and_then (perform_decoding C a self) (\<lambda>self.
    Ok (take (bd_blob_size self) (sym_data (bd_workspace self)), pulled)))"

definition blob_decoder_decode :: "'r rs_codec \<Rightarrow> axis \<Rightarrow> blob_decoder \<Rightarrow> sliver_data list \<Rightarrow> (bytes, 'r decode_error) result" where
  "blob_decoder_decode C a self slivers = and_then (decode_pulling C a self slivers) (\<lambda>(blob, pulled). Ok blob)"

subsection \<open>Consistency checks\<close>

datatype consistency_check_type = SkipCheck | DefaultCheck | StrictCheck

definition systematic_primary_sliver :: "blob_encoder \<Rightarrow> sliver_index \<Rightarrow> (sliver_data, 'e) result" where
  "systematic_primary_sliver self index =
    (let sliver = empty_sliver Primary (be_inner self) index; rows = be_rows self in
     if index < length rows then on_symbols (symbols_copy_prefix (rows ! index)) sliver else Ok sliver)"

definition default_consistency_check ::
  "hash_fun \<Rightarrow> 'r rs_codec \<Rightarrow> blob_encoder \<Rightarrow> blob_metadata_with_id \<Rightarrow> bool list option \<Rightarrow> (unit, 'r decode_error) result" where
  "default_consistency_check h C self md already_verified_slivers =
    (let n = n_systematic_slivers Primary (be_config (be_inner self)) in
     and_then (case already_verified_slivers of Some v \<Rightarrow> rust_assert (length v = n) | None \<Rightarrow> Ok ()) (\<lambda>_.
     try_fold (\<lambda>_ i.
         if (case already_verified_slivers of Some v \<Rightarrow> v ! i | None \<Rightarrow> False) then Ok ()
         else and_then (systematic_primary_sliver self i) (\<lambda>sliver.
           map_err (\<lambda>_. DecodeVerificationError) (check_hash h C Primary sliver (be_config (be_inner self)) (metadata md))))
       () [0..<n]))"

definition strict_consistency_check ::
  "hash_fun \<Rightarrow> 'r rs_codec \<Rightarrow> rs_config \<Rightarrow> blob_id \<Rightarrow> bytes \<Rightarrow> (unit, 'r decode_error) result" where
  "strict_consistency_check h C cfg bid blob =
    and_then (map_err decode_error_from (config_compute_metadata h C cfg blob)) (\<lambda>md.
    ensure (blob_id md = bid) DecodeVerificationError)"

subsection \<open>Methods of the configuration\<close>

definition get_blob_decoder :: "'r rs_codec \<Rightarrow> axis \<Rightarrow> rs_config \<Rightarrow> nat \<Rightarrow> (blob_decoder, 'r decode_error) result" where
  "get_blob_decoder C a cfg blob_size = blob_decoder_new C a cfg blob_size"

definition config_decode :: "'r rs_codec \<Rightarrow> axis \<Rightarrow> rs_config \<Rightarrow> nat \<Rightarrow> sliver_data list \<Rightarrow> (bytes, 'r decode_error) result" where
  "config_decode C a cfg blob_size slivers = and_then (get_blob_decoder C a cfg blob_size) (\<lambda>d. blob_decoder_decode C a d slivers)"

text \<open>The closure given to \<open>inspect\<close>, applied to the slivers in the order in which they are pulled.\<close>

definition mark_verified :: "nat \<Rightarrow> sliver_data list \<Rightarrow> bool list" where
  "mark_verified n pulled =
    fold (\<lambda>s v. if sd_index s < n then v[sd_index s := True] else v) pulled (replicate n False)"

definition decode_and_verify ::
  "hash_fun \<Rightarrow> 'r rs_codec \<Rightarrow> axis \<Rightarrow> rs_config \<Rightarrow> blob_metadata_with_id \<Rightarrow> sliver_data list \<Rightarrow> consistency_check_type \<Rightarrow> (bytes, 'r decode_error) result" where
  "decode_and_verify h C a cfg md slivers consistency_check =
    and_then (if is_primary a \<and> consistency_check = DefaultCheck then
        and_then (get_blob_decoder C a cfg (unencoded_length (metadata md))) (\<lambda>d.
        and_then (decode_pulling C a d slivers) (\<lambda>(blob, pulled).
        Ok (blob, Some (mark_verified (n_systematic_slivers a cfg) pulled))))
      else and_then (config_decode C a cfg (unencoded_length (metadata md)) slivers) (\<lambda>blob. Ok (blob, None))) (\<lambda>(blob, already_verified_slivers).
    and_then (case consistency_check of
        SkipCheck \<Rightarrow> Ok ()
      | DefaultCheck \<Rightarrow> and_then (map_err decode_error_from (get_blob_encoder cfg blob)) (\<lambda>be. default_consistency_check h C be md already_verified_slivers)
      | StrictCheck \<Rightarrow> strict_consistency_check h C cfg (blob_id md) blob) (\<lambda>_.
    Ok blob))"

end
