(* ===== verification/BlobDecoding.thy ===== *)
theory BlobDecoding
  imports BlobDecoder
begin

text \<open>
  Correctness of decoding blobs (theory \<open>BlobDecoder\<close>): what the loop over the slivers keeps, what the decoding of the workspace
  computes, that decoding inverts encoding, and what the consistency checks guarantee.
\<close>

subsection \<open>Workspaces\<close>

definition flat :: "nat \<Rightarrow> nat \<Rightarrow> (nat \<Rightarrow> nat \<Rightarrow> bytes) \<Rightarrow> bytes list" where
  "flat rows cols f = map (\<lambda>p. f (p div cols) (p mod cols)) [0..<rows * cols]"

lemma length_flat [simp]: "length (flat rows cols f) = rows * cols"
  by (simp add: flat_def)

lemma flat_index: "r < rows \<Longrightarrow> c < cols \<Longrightarrow> cols * r + c < rows * (cols :: nat)"
proof -
  assume "r < rows" "c < cols"
  then have "cols * r + c < cols * Suc r" "cols * Suc r \<le> cols * rows" by (simp, intro mult_le_mono) auto
  then show ?thesis by (simp add: mult.commute)
qed

lemma flat_nth: "r < rows \<Longrightarrow> c < cols \<Longrightarrow> flat rows cols f ! (cols * r + c) = f r c"
  using flat_index [of r rows c cols] by (simp add: flat_def)

lemma flat_cong: "(\<And>r c. r < rows \<Longrightarrow> c < cols \<Longrightarrow> f r c = g r c) \<Longrightarrow> flat rows cols f = flat rows cols g"
proof -
  assume fg: "\<And>r c. r < rows \<Longrightarrow> c < cols \<Longrightarrow> f r c = g r c"
  have "f (p div cols) (p mod cols) = g (p div cols) (p mod cols)" if "p < rows * cols" for p
    by (rule fg) (use that in \<open>auto simp: less_mult_imp_div_less intro!: mod_less_divisor gr0I\<close>)
  then show ?thesis by (simp add: flat_def)
qed

lemma flat_update:
  "r < rows \<Longrightarrow> c < cols \<Longrightarrow> (flat rows cols f)[cols * r + c := v] = flat rows cols (\<lambda>i j. if i = r \<and> j = c then v else f i j)"
proof (rule nth_equalityI)
  fix p assume rc: "r < rows" "c < cols" and "p < length ((flat rows cols f)[cols * r + c := v])"
  then have p: "p < rows * cols" by simp
  have "p = cols * r + c \<longleftrightarrow> p div cols = r \<and> p mod cols = c" using rc by auto
  then show "(flat rows cols f)[cols * r + c := v] ! p = flat rows cols (\<lambda>i j. if i = r \<and> j = c then v else f i j) ! p"
    using p by (auto simp: flat_def nth_list_update)
qed simp

lemma flat_rows: "flat rows cols f = concat (map (\<lambda>r. map (f r) [0..<cols]) [0..<rows])"
proof (induction rows)
  case (Suc rows)
  have "[0..<Suc rows * cols] = [0..<rows * cols] @ map (\<lambda>j. rows * cols + j) [0..<cols]"
    using upt_add_eq_append [of 0 "rows * cols" cols] map_add_upt [of "rows * cols" cols] by (simp add: add.commute)
  then have "flat (Suc rows) cols f = flat rows cols f @ map (\<lambda>j. f ((rows * cols + j) div cols) ((rows * cols + j) mod cols)) [0..<cols]"
    by (simp add: flat_def del: upt_Suc)
  then show ?case by (simp add: Suc.IH)
qed (simp add: flat_def)

lemma sized_flat: "0 < sz \<Longrightarrow> (\<And>r c. r < rows \<Longrightarrow> c < cols \<Longrightarrow> length (f r c) = sz) \<Longrightarrow> sized sz (flat rows cols f)"
  by (auto simp: flat_rows sized_def)

text \<open>Writing a column, and writing a row.\<close>

lemma write_column:
  assumes f: "\<And>r c. r < rows \<Longrightarrow> c < cols \<Longrightarrow> length (f r c) = sz" and c: "c < cols" and xs: "length xs = rows" "sized sz xs"
    and ix: "\<And>r. r < rows \<Longrightarrow> ix r = cols * r + c"
  shows "try_fold (\<lambda>w (r, symbol). symbols_index_mut_copy w (ix r) symbol) (mk_symbols sz (flat rows cols f)) (enumerate 0 xs)
    = Ok (mk_symbols sz (flat rows cols (\<lambda>i j. if j = c then xs ! i else f i j)))"
proof -
  let ?F = "\<lambda>k i j. if j = c \<and> i < k then xs ! i else f i j"
  have sz: "0 < sz" using xs(2) by (simp add: sized_def)
  have "try_fold (\<lambda>w (r, symbol). symbols_index_mut_copy w (ix r) symbol) (mk_symbols sz (flat rows cols (?F 0))) (enumerate 0 xs)
      = Ok (mk_symbols sz (flat rows cols (?F (length (enumerate 0 xs)))))"
  proof (rule try_fold_states)
    fix k assume "k < length (enumerate 0 xs)"
    then have k: "k < rows" "enumerate 0 xs ! k = (k, xs ! k)" using xs(1) by (simp_all add: enumerate_nth)
    have s: "sized sz (flat rows cols (?F k))" using sz f sized_nth [OF xs(2)] xs(1) by (intro sized_flat) auto
    have "flat rows cols (\<lambda>i j. if i = k \<and> j = c then xs ! k else ?F k i j) = flat rows cols (?F (Suc k))"
      by (rule flat_cong) (auto simp: less_Suc_eq)
    then show "(\<lambda>w (r, symbol). symbols_index_mut_copy w (ix r) symbol) (mk_symbols sz (flat rows cols (?F k))) (enumerate 0 xs ! k)
        = Ok (mk_symbols sz (flat rows cols (?F (Suc k))))"
      using k ix c flat_index [OF k(1) c] sized_nth [OF xs(2)] xs(1)
      by (simp add: symbols_index_mut_copy_mk [OF s] flat_update [OF k(1) c])
  qed
  moreover have "flat rows cols (?F (length (enumerate 0 xs))) = flat rows cols (\<lambda>i j. if j = c then xs ! i else f i j)"
    by (rule flat_cong) (simp add: xs(1))
  moreover have "flat rows cols (?F 0) = flat rows cols f" by (rule flat_cong) simp
  ultimately show ?thesis by simp
qed

lemma range_mut_copy_mk:
  assumes "sized sz xs" "a \<le> b" "b \<le> length xs" "sized sz ys" "length ys = b - a"
  shows "symbols_index_range_mut_copy (mk_symbols sz xs) a b (concat ys) = Ok (mk_symbols sz (take a xs @ ys @ drop b xs))"
proof -
  have part: "length (concat (take k xs)) = k * sz" "take (k * sz) (concat xs) = concat (take k xs)" "drop (k * sz) (concat xs) = concat (drop k xs)"
    if "k \<le> length xs" for k
  proof -
    have "sized sz (take k xs)" using assms(1) by (auto simp: sized_def dest: in_set_takeD)
    then show l: "length (concat (take k xs)) = k * sz" using length_concat_sized that by fastforce
    have "concat xs = concat (take k xs) @ concat (drop k xs)" by (metis append_take_drop_id concat_append)
    then show "take (k * sz) (concat xs) = concat (take k xs)" "drop (k * sz) (concat xs) = concat (drop k xs)" using l by simp_all
  qed
  have "a * sz \<le> b * sz" "b * sz \<le> length xs * sz" using assms by simp_all
  then show ?thesis
    using assms length_concat_sized [OF assms(1)] length_concat_sized [OF assms(4)] part [of a] part [of b]
    by (simp add: symbols_index_range_mut_copy_def symbol_range_def copy_to_slice_def mult.commute [of sz] diff_mult_distrib mk_symbols_def)
qed

lemma write_row:
  assumes f: "\<And>r c. r < rows \<Longrightarrow> c < cols \<Longrightarrow> length (f r c) = sz" and r: "r < rows" and xs: "length xs = cols" "sized sz xs"
  shows "symbols_index_range_mut_copy (mk_symbols sz (flat rows cols f)) (cols * r) (cols * (r + 1)) (concat xs)
    = Ok (mk_symbols sz (flat rows cols (\<lambda>i j. if i = r then xs ! j else f i j)))"
proof -
  have sz: "0 < sz" using xs(2) by (simp add: sized_def)
  have le: "cols * r + cols \<le> rows * cols" using mult_le_mono1 [of "Suc r" rows cols] r by (simp add: mult.commute)
  have m: "min (rows * cols) (cols * r) = cols * r" using le by simp
  have eq: "take (cols * r) (flat rows cols f) @ xs @ drop (cols * r + cols) (flat rows cols f) = flat rows cols (\<lambda>i j. if i = r then xs ! j else f i j)"
  proof (rule nth_equalityI)
    fix p assume "p < length (take (cols * r) (flat rows cols f) @ xs @ drop (cols * r + cols) (flat rows cols f))"
    then have p: "p < rows * cols" using le xs(1) by simp
    consider "p < cols * r" | "cols * r \<le> p" "p < cols * r + cols" | "cols * r + cols \<le> p" by linarith
    then show "(take (cols * r) (flat rows cols f) @ xs @ drop (cols * r + cols) (flat rows cols f)) ! p = flat rows cols (\<lambda>i j. if i = r then xs ! j else f i j) ! p"
    proof cases
      case 1
      then have "p div cols \<noteq> r" by (metis div_less_iff_less_mult less_irrefl mult.commute mult_0 not_less_zero neq0_conv)
      then show ?thesis using 1 p le by (simp add: flat_def nth_append)
    next
      case 2
      then have "p div cols = r" "p mod cols = p - cols * r" using div_nat_eqI [of cols r p] by (auto simp: algebra_simps minus_mult_div_eq_mod [symmetric])
      then show ?thesis using 2 p le xs(1) by (simp add: flat_def nth_append m less_diff_conv2 add.commute)
    next
      case 3
      then have "p div cols \<noteq> r" using dividend_less_div_times [of cols p] p by (metis add.commute gr0I less_le_not_le mult.commute mult_0_right not_less_zero)
      moreover have "\<not> p - cols * r < cols" using 3 by simp
      ultimately show ?thesis using 3 p le xs(1) by (simp add: flat_def nth_append m)
    qed
  qed (use le xs(1) in simp)
  have s: "sized sz (flat rows cols f)" by (rule sized_flat [OF sz f])
  have ix: "cols * (r + 1) = cols * r + cols" by simp
  show ?thesis unfolding ix by (subst range_mut_copy_mk [OF s _ _ xs(2)]) (use le xs(1) eq in simp_all)
qed

subsection \<open>Reading the slivers\<close>

text \<open>The slivers that the loop keeps: at most \<open>k\<close>, with different indices and the expected shape.\<close>

fun pick :: "axis \<Rightarrow> rs_config \<Rightarrow> nat \<Rightarrow> nat \<Rightarrow> nat list \<Rightarrow> sliver_data list \<Rightarrow> sliver_data list" where
  "pick a cfg sz k seen [] = []"
| "pick a cfg sz k seen (s # ss) =
    (if k = 0 then [] else if sd_index s \<in> set seen \<or> \<not> sliver_shape a cfg sz s then pick a cfg sz k seen ss
     else s # pick a cfg sz (k - 1) (sd_index s # seen) ss)"

lemma pick_length: "length (pick a cfg sz k seen ss) \<le> k" "length (pick a cfg sz k seen ss) \<le> length ss"
proof -
  show "length (pick a cfg sz k seen ss) \<le> k" by (induction a cfg sz k seen ss rule: pick.induct) auto
  show "length (pick a cfg sz k seen ss) \<le> length ss" by (induction a cfg sz k seen ss rule: pick.induct) auto
qed

lemma pick_subset: "s \<in> set (pick a cfg sz k seen ss) \<Longrightarrow> s \<in> set ss \<and> sliver_shape a cfg sz s"
  by (induction a cfg sz k seen ss rule: pick.induct) (auto split: if_splits)

lemma pick_distinct: "distinct (map sd_index (pick a cfg sz k seen ss)) \<and> set (map sd_index (pick a cfg sz k seen ss)) \<inter> set seen = {}"
  by (induction a cfg sz k seen ss rule: pick.induct) auto

lemma pick_all: "length (pick a cfg sz k seen ss) = length ss \<Longrightarrow> pick a cfg sz k seen ss = ss"
proof (induction a cfg sz k seen ss rule: pick.induct)
  case (2 a cfg sz k seen s ss)
  then show ?case using pick_length(2) [of a cfg sz k seen ss] by (auto split: if_splits)
qed simp

lemma pick_enough:
  "length (pick a cfg sz k seen ss) = min k (card (sd_index ` {s \<in> set ss. sliver_shape a cfg sz s} - set seen))"
proof (induction a cfg sz k seen ss rule: pick.induct)
  case (2 a cfg sz k seen s ss)
  let ?A = "sd_index ` {x \<in> set (s # ss). sliver_shape a cfg sz x} - set seen" and ?B = "sd_index ` {x \<in> set ss. sliver_shape a cfg sz x}"
  show ?case
  proof (cases "k = 0 \<or> sd_index s \<in> set seen \<or> \<not> sliver_shape a cfg sz s")
    case True
    then have "k \<noteq> 0 \<Longrightarrow> ?A = ?B - set seen" by auto
    then show ?thesis using True 2(1) by (cases "k = 0") auto
  next
    case False
    then have eq: "?A = insert (sd_index s) (?B - set (sd_index s # seen))" by auto
    have "card ?A = Suc (card (?B - set (sd_index s # seen)))" unfolding eq by (rule card_insert_disjoint) simp_all
    moreover have "length (pick a cfg sz (k - 1) (sd_index s # seen) ss) = min (k - 1) (card (?B - set (sd_index s # seen)))"
      using 2(2) False by simp
    ultimately show ?thesis using False by (cases k) simp_all
  qed
qed simp

text \<open>The slivers that the loop takes from the iterator: it stops at the first one after the last that it needs.\<close>

fun pull :: "axis \<Rightarrow> rs_config \<Rightarrow> nat \<Rightarrow> nat \<Rightarrow> nat list \<Rightarrow> sliver_data list \<Rightarrow> sliver_data list" where
  "pull a cfg sz k seen [] = []"
| "pull a cfg sz k seen (s # ss) = s #
    (if k = 0 then [] else if sd_index s \<in> set seen \<or> \<not> sliver_shape a cfg sz s then pull a cfg sz k seen ss
     else pull a cfg sz (k - 1) (sd_index s # seen) ss)"

lemma pull_subset: "set (pull a cfg sz k seen ss) \<subseteq> set ss"
  by (induction a cfg sz k seen ss rule: pull.induct) auto

text \<open>Slivers whose data is a sequence of whole symbols are accepted by the check of the loop if and only if they have the shape.\<close>

definition whole_symbols :: "sliver_data list \<Rightarrow> bool" where
  "whole_symbols ss \<longleftrightarrow> (\<forall>s\<in>set ss. symbols_ok (sd_symbols s))"

lemma shape_check:
  assumes "symbols_ok (sd_symbols s)"
  shows "symbols_len (sd_symbols s) \<noteq> n_source_symbols (orthogonal a) cfg \<or> symbol_size (sd_symbols s) \<noteq> sz \<longleftrightarrow> \<not> sliver_shape a cfg sz s"
proof -
  have "length (sym_data (sd_symbols s)) = n_source_symbols (orthogonal a) cfg * sz \<longleftrightarrow> symbols_len (sd_symbols s) = n_source_symbols (orthogonal a) cfg"
    if "symbol_size (sd_symbols s) = sz"
    using assms that by (auto simp: symbols_ok_def symbols_len_def)
  then show ?thesis by (auto simp: sliver_shape_def sliver_len_def)
qed

definition sliver_symbols :: "sliver_data \<Rightarrow> bytes list" where
  "sliver_symbols s = to_symbols (sd_symbols s)"

lemma sliver_symbols_shape:
  assumes "sliver_shape a cfg sz s" "0 < sz"
  shows "length (sliver_symbols s) = n_source_symbols (orthogonal a) cfg" "sized sz (sliver_symbols s)" "sd_symbols s = mk_symbols sz (sliver_symbols s)"
    "sym_data (sd_symbols s) = concat (sliver_symbols s)"
proof -
  have ok: "symbols_ok (sd_symbols s)" by (rule sliver_shape_ok [OF assms])
  have sz: "symbol_size (sd_symbols s) = sz" using assms(1) by (simp add: sliver_shape_def)
  show "length (sliver_symbols s) = n_source_symbols (orthogonal a) cfg"
    using symbols_len_eq [OF ok] assms by (simp add: sliver_symbols_def symbols_len_def sliver_shape_def sliver_len_def)
  show "sized sz (sliver_symbols s)" using to_symbols_lengths [OF ok] assms(2) sz by (auto simp: sliver_symbols_def)
  show eq: "sd_symbols s = mk_symbols sz (sliver_symbols s)" using mk_symbols_eqI [OF ok sz] by (simp add: sliver_symbols_def)
  show "sym_data (sd_symbols s) = concat (sliver_symbols s)" by (subst eq) simp
qed

lemma is_primary_simps [simp]: "is_primary Primary" "\<not> is_primary Secondary"
  by (simp_all add: is_primary_def)

text \<open>The loop, for each axis: it keeps the picked slivers, and pulls nothing but the given ones.\<close>

lemma primary_loop:
  assumes "bd_sliver_count self = n_source_symbols Primary cfg" "bd_sliver_length self = n_source_symbols Secondary cfg" "bd_symbol_size self = sz"
    and "0 < sz" "bd_workspace self = mk_symbols sz xs" "sized sz xs" "whole_symbols ss" "k + cnt = n_source_symbols Primary cfg"
  shows "write_slivers_loop Primary self seen cnt pulled ss
      = Ok (self\<lparr>bd_workspace := mk_symbols sz (xs @ concat (map sliver_symbols (pick Primary cfg sz k seen ss))),
          bd_sliver_indices := bd_sliver_indices self @ map sd_index (pick Primary cfg sz k seen ss)\<rparr>,
        cnt + length (pick Primary cfg sz k seen ss), pulled @ pull Primary cfg sz k seen ss)"
  using assms
proof (induction ss arbitrary: self seen cnt pulled k xs)
  case Nil
  then show ?case by (cases self) auto
next
  case (Cons s ss)
  have ws: "symbols_ok (sd_symbols s)" "whole_symbols ss" using Cons.prems(7) by (auto simp: whole_symbols_def)
  note chk = shape_check [OF ws(1), of Primary cfg sz, simplified]
  consider "k = 0" | "0 < k" "sd_index s \<in> set seen \<or> \<not> sliver_shape Primary cfg sz s" | "0 < k" "sd_index s \<notin> set seen" "sliver_shape Primary cfg sz s" by blast
  then show ?case
  proof cases
    case 1
    then show ?thesis using Cons.prems by (cases self) auto
  next
    case 2
    have "(write_slivers_loop Primary self seen cnt (pulled @ [s]) ss :: (blob_decoder \<times> nat \<times> sliver_data list, 'a) result)
      = Ok (self\<lparr>bd_workspace := mk_symbols sz (xs @ concat (map sliver_symbols (pick Primary cfg sz k seen ss))),
          bd_sliver_indices := bd_sliver_indices self @ map sd_index (pick Primary cfg sz k seen ss)\<rparr>,
        cnt + length (pick Primary cfg sz k seen ss), (pulled @ [s]) @ pull Primary cfg sz k seen ss)"
      by (rule Cons.IH) (use Cons.prems ws in auto)
    then show ?thesis using 2 Cons.prems chk by auto
  next
    case 3
    note sy = sliver_symbols_shape [OF 3(3) Cons.prems(4)]
    let ?self = "self\<lparr>bd_workspace := mk_symbols sz (xs @ sliver_symbols s), bd_sliver_indices := bd_sliver_indices self @ [sd_index s]\<rparr>"
    have wr: "write_primary_sliver_to_workspace self (sd_symbols s) = (Ok (self\<lparr>bd_workspace := mk_symbols sz (xs @ sliver_symbols s)\<rparr>) :: (blob_decoder, 'a) result)"
      using Cons.prems(5) sy length_concat_sized [OF sy(2)]
      by (simp add: write_primary_sliver_to_workspace_def symbols_extend_def mk_symbols_def)
    have "(write_slivers_loop Primary ?self (sd_index s # seen) (cnt + 1) (pulled @ [s]) ss :: (blob_decoder \<times> nat \<times> sliver_data list, 'a) result)
      = Ok (?self\<lparr>bd_workspace := mk_symbols sz ((xs @ sliver_symbols s) @ concat (map sliver_symbols (pick Primary cfg sz (k - 1) (sd_index s # seen) ss))),
          bd_sliver_indices := bd_sliver_indices ?self @ map sd_index (pick Primary cfg sz (k - 1) (sd_index s # seen) ss)\<rparr>,
        cnt + 1 + length (pick Primary cfg sz (k - 1) (sd_index s # seen) ss), (pulled @ [s]) @ pull Primary cfg sz (k - 1) (sd_index s # seen) ss)"
      by (rule Cons.IH) (use Cons.prems ws sy 3 in auto)
    then show ?thesis using 3 Cons.prems chk wr by auto
  qed
qed

definition columns_of :: "(nat \<Rightarrow> nat \<Rightarrow> bytes) \<Rightarrow> nat \<Rightarrow> sliver_data list \<Rightarrow> nat \<Rightarrow> nat \<Rightarrow> bytes" where
  "columns_of f cnt ps r c = (if cnt \<le> c \<and> c < cnt + length ps then sliver_symbols (ps ! (c - cnt)) ! r else f r c)"

lemma columns_of_Cons: "columns_of (\<lambda>r c. if c = cnt then sliver_symbols s ! r else f r c) (cnt + 1) ps = columns_of f cnt (s # ps)"
  by (auto simp: columns_of_def fun_eq_iff nth_Cons' Suc_diff_Suc)

lemma write_secondary_eq:
  assumes "sliver_shape Secondary cfg sz s" "0 < sz" "bd_workspace self = mk_symbols sz (flat (source_symbols_primary cfg) (source_symbols_secondary cfg) f)"
    and "\<And>r c. r < source_symbols_primary cfg \<Longrightarrow> c < source_symbols_secondary cfg \<Longrightarrow> length (f r c) = sz"
    and "bd_n_columns self = source_symbols_secondary cfg" "cnt < source_symbols_secondary cfg"
  shows "write_secondary_sliver_to_workspace self (sd_symbols s) cnt
    = Ok (self\<lparr>bd_workspace := mk_symbols sz (flat (source_symbols_primary cfg) (source_symbols_secondary cfg) (\<lambda>r c. if c = cnt then sliver_symbols s ! r else f r c))\<rparr>)"
proof -
  let ?nr = "source_symbols_primary cfg" and ?nc = "source_symbols_secondary cfg"
  note sy = sliver_symbols_shape [OF assms(1,2)]
  have "try_fold (\<lambda>w (row, symbol). symbols_index_mut_copy w (row * ?nc + cnt) symbol) (mk_symbols sz (flat ?nr ?nc f)) (enumerate 0 (sliver_symbols s))
      = (Ok (mk_symbols sz (flat ?nr ?nc (\<lambda>r c. if c = cnt then sliver_symbols s ! r else f r c))) :: (symbols, 'a) result)"
    by (rule write_column [OF assms(4,6)]) (use sy in \<open>simp_all add: mult.commute\<close>)
  then show ?thesis using assms(3,5) by (simp add: write_secondary_sliver_to_workspace_def sliver_symbols_def)
qed

lemma secondary_loop:
  assumes "bd_sliver_count self = source_symbols_secondary cfg" "bd_sliver_length self = source_symbols_primary cfg" "bd_symbol_size self = sz"
    and "0 < sz" "bd_workspace self = mk_symbols sz (flat (source_symbols_primary cfg) (source_symbols_secondary cfg) f)"
    and "\<And>r c. r < source_symbols_primary cfg \<Longrightarrow> c < source_symbols_secondary cfg \<Longrightarrow> length (f r c) = sz"
    and "whole_symbols ss" "k + cnt = source_symbols_secondary cfg" "bd_n_columns self = source_symbols_secondary cfg"
  shows "write_slivers_loop Secondary self seen cnt pulled ss
      = Ok (self\<lparr>bd_workspace := mk_symbols sz (flat (source_symbols_primary cfg) (source_symbols_secondary cfg) (columns_of f cnt (pick Secondary cfg sz k seen ss))),
          bd_sliver_indices := bd_sliver_indices self @ map sd_index (pick Secondary cfg sz k seen ss)\<rparr>,
        cnt + length (pick Secondary cfg sz k seen ss), pulled @ pull Secondary cfg sz k seen ss)"
  using assms
proof (induction ss arbitrary: self seen cnt pulled k f)
  case Nil
  have "columns_of f cnt [] = f" by (auto simp: columns_of_def fun_eq_iff)
  then show ?case using Nil.prems by (cases self) auto
next
  case (Cons s ss)
  have ws: "symbols_ok (sd_symbols s)" "whole_symbols ss" using Cons.prems(7) by (auto simp: whole_symbols_def)
  note chk = shape_check [OF ws(1), of Secondary cfg sz, simplified]
  have none: "columns_of f cnt [] = f" by (auto simp: columns_of_def fun_eq_iff)
  consider "k = 0" | "0 < k" "sd_index s \<in> set seen \<or> \<not> sliver_shape Secondary cfg sz s" | "0 < k" "sd_index s \<notin> set seen" "sliver_shape Secondary cfg sz s" by blast
  then show ?case
  proof cases
    case 1
    then show ?thesis using Cons.prems none by (cases self) auto
  next
    case 2
    have "(write_slivers_loop Secondary self seen cnt (pulled @ [s]) ss :: (blob_decoder \<times> nat \<times> sliver_data list, 'a) result)
      = Ok (self\<lparr>bd_workspace := mk_symbols sz (flat (source_symbols_primary cfg) (source_symbols_secondary cfg) (columns_of f cnt (pick Secondary cfg sz k seen ss))),
          bd_sliver_indices := bd_sliver_indices self @ map sd_index (pick Secondary cfg sz k seen ss)\<rparr>,
        cnt + length (pick Secondary cfg sz k seen ss), (pulled @ [s]) @ pull Secondary cfg sz k seen ss)"
      by (rule Cons.IH) (use Cons.prems ws in auto)
    then show ?thesis using 2 Cons.prems chk by auto
  next
    case 3
    let ?f = "\<lambda>r c. if c = cnt then sliver_symbols s ! r else f r c"
    let ?self = "self\<lparr>bd_workspace := mk_symbols sz (flat (source_symbols_primary cfg) (source_symbols_secondary cfg) ?f), bd_sliver_indices := bd_sliver_indices self @ [sd_index s]\<rparr>"
    have cnt: "cnt < source_symbols_secondary cfg" using 3(1) Cons.prems(8) by simp
    have len: "length (?f r c) = sz" if "r < source_symbols_primary cfg" "c < source_symbols_secondary cfg" for r c
      using Cons.prems(6) [OF that] sliver_symbols_shape(1,2) [OF 3(3) Cons.prems(4)] that by (simp add: sized_nth)
    have "(write_slivers_loop Secondary ?self (sd_index s # seen) (cnt + 1) (pulled @ [s]) ss :: (blob_decoder \<times> nat \<times> sliver_data list, 'a) result)
      = Ok (?self\<lparr>bd_workspace := mk_symbols sz (flat (source_symbols_primary cfg) (source_symbols_secondary cfg)
            (columns_of ?f (cnt + 1) (pick Secondary cfg sz (k - 1) (sd_index s # seen) ss))),
          bd_sliver_indices := bd_sliver_indices ?self @ map sd_index (pick Secondary cfg sz (k - 1) (sd_index s # seen) ss)\<rparr>,
        cnt + 1 + length (pick Secondary cfg sz (k - 1) (sd_index s # seen) ss), (pulled @ [s]) @ pull Secondary cfg sz (k - 1) (sd_index s # seen) ss)"
      by (rule Cons.IH) (use Cons.prems ws len 3 in auto)
    moreover have "write_secondary_sliver_to_workspace self (sd_symbols s) cnt = (Ok (self\<lparr>bd_workspace := mk_symbols sz
        (flat (source_symbols_primary cfg) (source_symbols_secondary cfg) ?f)\<rparr>) :: (blob_decoder, 'a) result)"
      by (rule write_secondary_eq [OF 3(3) Cons.prems(4,5,6,9) cnt])
    ultimately show ?thesis using 3 Cons.prems(1-3,8) chk unfolding columns_of_Cons by auto
  qed
qed

subsection \<open>Decoding the workspace\<close>

text \<open>The workspace always has the layout of the message matrix. Symbol \<open>i\<close> of the sliver at position \<open>p\<close> is in row \<open>p\<close> for
  primary slivers and in column \<open>p\<close> for secondary ones.\<close>

fun cell :: "axis \<Rightarrow> (nat \<Rightarrow> nat \<Rightarrow> bytes) \<Rightarrow> nat \<Rightarrow> nat \<Rightarrow> bytes" where
  "cell Primary f p i = f p i"
| "cell Secondary f p i = f i p"

fun put_cells :: "axis \<Rightarrow> nat \<Rightarrow> bytes list \<Rightarrow> (nat \<Rightarrow> nat \<Rightarrow> bytes) \<Rightarrow> nat \<Rightarrow> nat \<Rightarrow> bytes" where
  "put_cells Primary i xs f r c = (if c = i then xs ! r else f r c)"
| "put_cells Secondary i xs f r c = (if r = i then xs ! c else f r c)"

lemma put_cells_eq:
  "put_cells Primary i xs f = (\<lambda>r c. if c = i then xs ! r else f r c)" "put_cells Secondary i xs f = (\<lambda>r c. if r = i then xs ! c else f r c)"
  by (simp_all add: fun_eq_iff)

definition workspace :: "rs_config \<Rightarrow> nat \<Rightarrow> (nat \<Rightarrow> nat \<Rightarrow> bytes) \<Rightarrow> symbols" where
  "workspace cfg sz f = mk_symbols sz (flat (source_symbols_primary cfg) (source_symbols_secondary cfg) f)"

definition cells_sized :: "rs_config \<Rightarrow> nat \<Rightarrow> (nat \<Rightarrow> nat \<Rightarrow> bytes) \<Rightarrow> bool" where
  "cells_sized cfg sz f \<longleftrightarrow> 0 < sz \<and> (\<forall>r < source_symbols_primary cfg. \<forall>c < source_symbols_secondary cfg. length (f r c) = sz)"

lemma workspace_sized: "cells_sized cfg sz f \<Longrightarrow> sized sz (flat (source_symbols_primary cfg) (source_symbols_secondary cfg) f)"
  by (rule sized_flat) (auto simp: cells_sized_def)

definition decoder_for :: "'r rs_codec \<Rightarrow> axis \<Rightarrow> rs_config \<Rightarrow> nat \<Rightarrow> rs_decoder \<Rightarrow> bool" where
  "decoder_for C a cfg sz d \<longleftrightarrow> decoder_ok C d \<and> decoder_fresh d \<and> dec_size d = sz \<and> dec_n_source_symbols d = n_source_symbols a cfg \<and> dec_n_shards d = n_shards cfg"

lemma decoder_for_decode:
  assumes "decoder_for C a cfg sz d" "length x = n_source_symbols a cfg * sz" "symbols_of_code (n_shards cfg) sz (axis_code C a cfg sz x) syms"
    and "n_source_symbols a cfg \<le> n_distinct sz syms"
  shows "decode C d syms = (Ok x, decoder_reset d)" "decoder_for C a cfg sz (decoder_reset d)"
proof -
  have ok: "decoder_ok C d" "decoder_fresh d" and f: "dec_size d = sz" "dec_n_source_symbols d = n_source_symbols a cfg" "dec_n_shards d = n_shards cfg"
    using assms(1) by (auto simp: decoder_for_def)
  have "decoder_code C d x = axis_code C a cfg sz x" using f by (simp add: decoder_code_def axis_code_def)
  then show "decode C d syms = (Ok x, decoder_reset d)" using decode_codeword [OF ok, of x syms] assms(2-4) f by simp
  show "decoder_for C a cfg sz (decoder_reset d)"
    using decoder_reset_ok [OF ok(1)] f by (simp add: decoder_for_def decoder_reset_def dec_size_def symbols_zeros_def)
qed

definition dec_state :: "'r rs_codec \<Rightarrow> axis \<Rightarrow> rs_config \<Rightarrow> nat \<Rightarrow> nat \<Rightarrow> nat list \<Rightarrow> (nat \<Rightarrow> nat \<Rightarrow> bytes) \<Rightarrow> blob_decoder \<Rightarrow> bool" where
  "dec_state C a cfg sz len idx f self \<longleftrightarrow> decoder_for C a cfg sz (bd_decoder self) \<and> bd_blob_size self = len \<and> bd_symbol_size self = sz
    \<and> bd_sliver_count self = n_source_symbols a cfg \<and> bd_sliver_length self = n_source_symbols (orthogonal a) cfg
    \<and> bd_n_columns self = source_symbols_secondary cfg \<and> bd_sliver_indices self = idx \<and> bd_workspace self = workspace cfg sz f"

text \<open>The symbols that one decoding uses, and the workspace after it.\<close>

lemma read_cells:
  assumes "cells_sized cfg sz f" "i < n_source_symbols (orthogonal a) cfg" "length idx = n_source_symbols a cfg"
  shows "try_map (\<lambda>(p, ix). let index = (if is_primary a then p * source_symbols_secondary cfg + i else i * source_symbols_secondary cfg + p)
        in and_then (symbols_index (workspace cfg sz f) index) (\<lambda>d. Ok (decoding_symbol_new ix d))) (enumerate 0 idx)
    = Ok (map (\<lambda>p. \<lparr>ds_index = idx ! p, ds_data = cell a f p i\<rparr>) [0..<length idx])"
proof -
  let ?nr = "source_symbols_primary cfg" and ?nc = "source_symbols_secondary cfg"
  let ?f = "\<lambda>(p, ix). let index = (if is_primary a then p * ?nc + i else i * ?nc + p)
        in and_then (symbols_index (workspace cfg sz f) index) (\<lambda>d. Ok (decoding_symbol_new ix d)) :: (decoding_symbol, 'a) result"
  have get: "symbols_index (workspace cfg sz f) (?nc * r + c) = Ok (f r c)" if "r < ?nr" "c < ?nc" for r c
    using symbols_index_mk [OF workspace_sized [OF assms(1)], of "?nc * r + c"] flat_index [OF that] flat_nth [OF that] by (simp add: workspace_def)
  have "?f (p, ix) = Ok \<lparr>ds_index = ix, ds_data = cell a f p i\<rparr>" if "p < length idx" for p ix
    using that assms(2,3) get [of p i] get [of i p] by (cases a) (simp_all add: Let_def decoding_symbol_new_def mult.commute)
  then have "try_map ?f (enumerate 0 idx) = Ok (map (\<lambda>(p, ix). \<lparr>ds_index = ix, ds_data = cell a f p i\<rparr>) (enumerate 0 idx))"
    by (intro try_map_Ok) (auto simp: in_set_enumerate_eq)
  also have "map (\<lambda>(p, ix). \<lparr>ds_index = ix, ds_data = cell a f p i\<rparr>) (enumerate 0 idx) = map (\<lambda>p. \<lparr>ds_index = idx ! p, ds_data = cell a f p i\<rparr>) [0..<length idx]"
    by (rule nth_equalityI) (simp_all add: enumerate_nth)
  finally show ?thesis .
qed

lemma put_column:
  assumes "cells_sized cfg sz f" "i < source_symbols_secondary cfg" "length xs = source_symbols_primary cfg" "sized sz xs"
  shows "try_fold (\<lambda>w (row, symbol). symbols_index_mut_copy w (source_symbols_secondary cfg * row + i) symbol) (workspace cfg sz f) (enumerate 0 xs)
    = Ok (workspace cfg sz (put_cells Primary i xs f))"
  unfolding workspace_def put_cells_eq by (rule write_column) (use assms in \<open>auto simp: cells_sized_def\<close>)

lemma put_row:
  assumes "cells_sized cfg sz f" "i < source_symbols_primary cfg" "length xs = source_symbols_secondary cfg" "sized sz xs"
  shows "symbols_index_range_mut_copy (workspace cfg sz f) (source_symbols_secondary cfg * i) (source_symbols_secondary cfg * (i + 1)) (concat xs)
    = Ok (workspace cfg sz (put_cells Secondary i xs f))"
  unfolding workspace_def put_cells_eq by (rule write_row) (use assms in \<open>auto simp: cells_sized_def\<close>)

lemma chunks_sized:
  assumes "0 < sz" "length d = k * sz"
  shows "length (chunks sz d) = k" "sized sz (chunks sz d)" "concat (chunks sz d) = d"
  using valid_shards_chunks [OF assms] concat_chunks [OF assms(1)] assms(1) by (auto simp: valid_shards_def)

lemma write_cells:
  assumes "cells_sized cfg sz f" "i < n_source_symbols (orthogonal a) cfg" "length d = n_source_symbols a cfg * sz"
  shows "(if is_primary a then try_fold (\<lambda>w (row, symbol). symbols_index_mut_copy w (source_symbols_secondary cfg * row + i) symbol) (workspace cfg sz f) (enumerate 0 (chunks sz d))
      else symbols_index_range_mut_copy (workspace cfg sz f) (source_symbols_secondary cfg * i) (source_symbols_secondary cfg * (i + 1)) d)
    = Ok (workspace cfg sz (put_cells a i (chunks sz d) f))"
proof (cases a)
  case Primary
  have "length d = source_symbols_primary cfg * sz" "0 < sz" using assms(1,3) Primary by (auto simp: cells_sized_def)
  note v = chunks_sized [OF this(2,1)]
  show ?thesis using assms(1,2) Primary v by (simp add: put_column)
next
  case Secondary
  have "length d = source_symbols_secondary cfg * sz" "0 < sz" using assms(1,3) Secondary by (auto simp: cells_sized_def)
  note v = chunks_sized [OF this(2,1)]
  have i: "i < source_symbols_primary cfg" using assms(2) Secondary by simp
  show ?thesis unfolding Secondary using put_row [OF assms(1) i v(1,2), unfolded v(3)] by (simp add: put_row [OF assms(1) i v(1,2), unfolded v(3), simplified])
qed

lemma put_cells_sized:
  assumes "cells_sized cfg sz f" "i < n_source_symbols (orthogonal a) cfg" "length d = n_source_symbols a cfg * sz"
  shows "cells_sized cfg sz (put_cells a i (chunks sz d) f)"
proof -
  have sz: "0 < sz" using assms(1) by (simp add: cells_sized_def)
  show ?thesis
    using assms(1) chunks_sized(1) [OF sz assms(3)] sized_nth [OF chunks_sized(2) [OF sz assms(3)]] by (cases a) (auto simp: cells_sized_def)
qed

lemma decode_step_eq:
  assumes st: "dec_state C a cfg sz len idx f self" and f: "cells_sized cfg sz f" and i: "i < n_source_symbols (orthogonal a) cfg"
    and idx: "length idx = n_source_symbols a cfg" "distinct idx" "\<forall>j\<in>set idx. j < n_shards cfg"
    and d: "length d = n_source_symbols a cfg * sz" "\<And>p. p < length idx \<Longrightarrow> axis_code C a cfg sz d ! (idx ! p) = cell a f p i"
  shows "\<exists>self'. decode_step C a self i = Ok self' \<and> dec_state C a cfg sz len idx (put_cells a i (chunks sz d) f) self'"
proof -
  let ?syms = "map (\<lambda>p. \<lparr>ds_index = idx ! p, ds_data = cell a f p i\<rparr>) [0..<length idx]"
  have dec: "decoder_for C a cfg sz (bd_decoder self)" and fields: "bd_symbol_size self = sz" "bd_n_columns self = source_symbols_secondary cfg"
      "bd_sliver_indices self = idx" "bd_workspace self = workspace cfg sz f"
    using st by (auto simp: dec_state_def)
  have "length (cell a f p i) = sz" if "p < length idx" for p
    using f i idx(1) that by (cases a) (auto simp: cells_sized_def)
  then have u: "usable sz ?syms = ?syms" by (auto simp: usable_def filter_id_conv)
  have "ds_index ` set ?syms = set idx" by (force simp: in_set_conv_nth image_iff)
  then have n: "n_distinct sz ?syms = n_source_symbols a cfg" unfolding n_distinct_def u using distinct_card [OF idx(2)] idx(1) by simp
  have code: "symbols_of_code (n_shards cfg) sz (axis_code C a cfg sz d) ?syms"
    unfolding symbols_of_code_def u using d(2) idx(3) by auto
  note decoded = decoder_for_decode [OF dec d(1) code, unfolded n, OF order_refl]
  show ?thesis
    unfolding decode_step_def fields read_cells [OF f i idx(1)] and_then.simps decoded(1) prod.case write_cells [OF f i d(1)]
    using st decoded(2) by (simp add: dec_state_def)
qed

lemma perform_decoding_eq:
  assumes st: "dec_state C a cfg sz len idx f self" and f: "cells_sized cfg sz f"
    and idx: "length idx = n_source_symbols a cfg" "distinct idx" "\<forall>j\<in>set idx. j < n_shards cfg"
    and d: "\<And>i. i < n_source_symbols (orthogonal a) cfg \<Longrightarrow> length (d i) = n_source_symbols a cfg * sz
      \<and> (\<forall>p<length idx. axis_code C a cfg sz (d i) ! (idx ! p) = cell a f p i)"
  shows "\<exists>self'. perform_decoding C a self = Ok self' \<and> bd_blob_size self' = len
    \<and> bd_workspace self' = workspace cfg sz (\<lambda>r c. case a of Primary \<Rightarrow> chunks sz (d c) ! r | Secondary \<Rightarrow> chunks sz (d r) ! c)"
proof -
  let ?L = "n_source_symbols (orthogonal a) cfg"
  let ?F = "\<lambda>k r c. case a of Primary \<Rightarrow> if c < k then chunks sz (d c) ! r else f r c | Secondary \<Rightarrow> if r < k then chunks sz (d r) ! c else f r c"
  let ?I = "\<lambda>k s. dec_state C a cfg sz len idx (?F k) s \<and> cells_sized cfg sz (?F k)"
  have step: "put_cells a k (chunks sz (d k)) (?F k) = ?F (Suc k)" for k
    by (cases a) (auto simp: put_cells_eq fun_eq_iff less_Suc_eq)
  have F0: "?F 0 = f" by (cases a) (auto simp: fun_eq_iff)
  have "\<exists>s. try_fold (decode_step C a) self [0..<?L] = Ok s \<and> ?I (length [0..<?L]) s"
  proof (rule try_fold_invariant)
    fix k s assume "k < length [0..<?L]" and I: "?I k s"
    then have k: "k < ?L" by simp
    have "cell a (?F k) p k = cell a f p k" for p by (cases a) simp_all
    then have "\<exists>s'. decode_step C a s k = Ok s' \<and> dec_state C a cfg sz len idx (?F (Suc k)) s'"
      using decode_step_eq [OF conjunct1 [OF I] conjunct2 [OF I] k idx, of "d k"] d [OF k] unfolding step by simp
    moreover have "cells_sized cfg sz (?F (Suc k))" using put_cells_sized [OF conjunct2 [OF I] k, of "d k"] d [OF k] unfolding step by simp
    ultimately show "\<exists>s'. decode_step C a s ([0..<?L] ! k) = Ok s' \<and> ?I (Suc k) s'" using k by auto
  qed (use st f F0 in simp)
  then obtain s where fold: "try_fold (decode_step C a) self [0..<?L] = Ok s" and I: "?I (length [0..<?L]) s" by blast
  have "length [0..<?L] = ?L" by simp
  from I [unfolded this] fold have s: "perform_decoding C a self = Ok s" "dec_state C a cfg sz len idx (?F ?L) s"
    using st by (simp_all add: perform_decoding_def dec_state_def)
  have "workspace cfg sz (?F ?L) = workspace cfg sz (\<lambda>r c. case a of Primary \<Rightarrow> chunks sz (d c) ! r | Secondary \<Rightarrow> chunks sz (d r) ! c)"
    unfolding workspace_def by (intro arg_cong2 [where f = mk_symbols] refl flat_cong) (cases a, auto)
  then show ?thesis using s by (auto simp: dec_state_def)
qed

text \<open>The workspace that holds the picked slivers.\<close>

fun picked_cells :: "axis \<Rightarrow> sliver_data list \<Rightarrow> nat \<Rightarrow> nat \<Rightarrow> bytes" where
  "picked_cells Primary ps r c = sliver_symbols (ps ! r) ! c"
| "picked_cells Secondary ps r c = sliver_symbols (ps ! c) ! r"

lemma cell_picked: "cell a (picked_cells a ps) p i = sliver_symbols (ps ! p) ! i"
  by (cases a) simp_all

lemma picked_cells_sized:
  assumes "\<forall>s\<in>set ps. sliver_shape a cfg sz s" "length ps = n_source_symbols a cfg" "0 < sz"
  shows "cells_sized cfg sz (picked_cells a ps)"
proof -
  have "length (sliver_symbols (ps ! p) ! i) = sz" if "p < n_source_symbols a cfg" "i < n_source_symbols (orthogonal a) cfg" for p i
    using sliver_symbols_shape(1,2) [of a cfg sz "ps ! p"] that assms by (simp add: sized_nth)
  then show ?thesis using assms(3) by (cases a) (auto simp: cells_sized_def)
qed

lemma blob_decoder_new_eq:
  assumes "coder_ok C cfg sz" "symbol_size_for_blob cfg len = Ok sz" "len \<le> U64_MAX"
  shows "\<exists>d. get_blob_decoder C a cfg len = Ok d \<and> decoder_for C a cfg sz (bd_decoder d) \<and> bd_blob_size d = len \<and> bd_symbol_size d = sz
    \<and> bd_sliver_count d = n_source_symbols a cfg \<and> bd_sliver_length d = n_source_symbols (orthogonal a) cfg
    \<and> bd_n_columns d = source_symbols_secondary cfg \<and> bd_sliver_indices d = []
    \<and> bd_workspace d = (if is_primary a then mk_symbols sz [] else workspace cfg sz (\<lambda>r c. replicate sz 0))"
proof -
  have sz: "0 < sz" using coder_okD(2) [OF assms(1)] .
  obtain d where d: "get_decoder C a cfg sz = Ok d" "decoder_for C a cfg sz d" using get_decoder_Ok [OF assms(1), of a] by (auto simp: decoder_for_def)
  have z: "symbols_zeros (source_symbols_primary cfg * source_symbols_secondary cfg) sz = workspace cfg sz (\<lambda>r c. replicate sz 0)"
    by (simp add: workspace_def symbols_zeros_mk [OF sz] flat_def map_replicate_const)
  show ?thesis
    using d assms(2,3) z by (cases a) (simp_all add: get_blob_decoder_def blob_decoder_new_def get_decoder_def Let_def symbols_with_capacity_def mk_symbols_def)
qed

lemma concat_picked:
  assumes "\<forall>s\<in>set ps. sliver_shape Primary cfg sz s" "length ps = source_symbols_primary cfg" "0 < sz"
  shows "concat (map sliver_symbols ps) = flat (source_symbols_primary cfg) (source_symbols_secondary cfg) (picked_cells Primary ps)"
proof -
  have "sliver_symbols (ps ! r) = map (picked_cells Primary ps r) [0..<source_symbols_secondary cfg]" if "r < source_symbols_primary cfg" for r
    using sliver_symbols_shape(1) [of Primary cfg sz "ps ! r"] assms that by (intro nth_equalityI) auto
  then have "map sliver_symbols ps = map (\<lambda>r. map (picked_cells Primary ps r) [0..<source_symbols_secondary cfg]) [0..<source_symbols_primary cfg]"
    using assms(2) by (intro nth_equalityI) (simp_all del: picked_cells.simps)
  then show ?thesis by (simp only: flat_rows)
qed

lemma read_slivers:
  fixes C :: "'r rs_codec"
  assumes ok: "coder_ok C cfg sz" and len: "symbol_size_for_blob cfg len = Ok sz" "len \<le> U64_MAX" and w: "whole_symbols ss"
    and d: "get_blob_decoder C a cfg len = Ok d"
  defines "ps \<equiv> pick a cfg sz (n_source_symbols a cfg) [] ss"
  shows "length ps < n_source_symbols a cfg \<Longrightarrow> check_and_write_slivers_to_workspace a d ss = (Err DecodingUnsuccessful :: (_, 'r decode_error) result)"
    "length ps = n_source_symbols a cfg \<Longrightarrow> \<exists>d'. check_and_write_slivers_to_workspace a d ss = (Ok (d', pull a cfg sz (n_source_symbols a cfg) [] ss) :: (_, 'r decode_error) result)
      \<and> dec_state C a cfg sz len (map sd_index ps) (picked_cells a ps) d'"
proof -
  have sz: "0 < sz" using coder_okD(2) [OF ok] .
  have D: "decoder_for C a cfg sz (bd_decoder d)" "bd_blob_size d = len" "bd_symbol_size d = sz"
    "bd_sliver_count d = n_source_symbols a cfg" "bd_sliver_length d = n_source_symbols (orthogonal a) cfg"
    "bd_n_columns d = source_symbols_secondary cfg" "bd_sliver_indices d = []"
    "bd_workspace d = (if is_primary a then mk_symbols sz [] else workspace cfg sz (\<lambda>r c. replicate sz 0))"
    using blob_decoder_new_eq [OF ok len, of a] d by auto
  have shape: "\<forall>s\<in>set ps. sliver_shape a cfg sz s" using pick_subset unfolding ps_def by blast
  have "\<exists>w'. write_slivers_loop a d [] 0 [] ss = (Ok (d\<lparr>bd_workspace := w', bd_sliver_indices := map sd_index ps\<rparr>, length ps, pull a cfg sz (n_source_symbols a cfg) [] ss) :: (_, 'r decode_error) result)
      \<and> (length ps = n_source_symbols a cfg \<longrightarrow> w' = workspace cfg sz (picked_cells a ps))"
  proof (cases a)
    case Primary
    then show ?thesis
      using primary_loop [of d cfg sz "[]" ss "n_source_symbols Primary cfg" 0 "[]" "[]"] D sz w shape concat_picked [of ps cfg sz]
      by (fastforce simp: ps_def workspace_def)
  next
    case Secondary
    have "workspace cfg sz (columns_of (\<lambda>r c. replicate sz 0) 0 ps) = workspace cfg sz (picked_cells Secondary ps)" if "length ps = source_symbols_secondary cfg"
      unfolding workspace_def by (intro arg_cong2 [where f = mk_symbols] refl flat_cong) (simp add: columns_of_def that)
    then show ?thesis
      using secondary_loop [of d cfg sz "\<lambda>r c. replicate sz 0" ss "source_symbols_secondary cfg" 0 "[]" "[]"] D sz w Secondary
      by (fastforce simp: ps_def workspace_def)
  qed
  then obtain w' where loop: "write_slivers_loop a d [] 0 [] ss = (Ok (d\<lparr>bd_workspace := w', bd_sliver_indices := map sd_index ps\<rparr>, length ps, pull a cfg sz (n_source_symbols a cfg) [] ss) :: (_, 'r decode_error) result)"
    "length ps = n_source_symbols a cfg \<longrightarrow> w' = workspace cfg sz (picked_cells a ps)" by blast
  show "length ps < n_source_symbols a cfg \<Longrightarrow> check_and_write_slivers_to_workspace a d ss = (Err DecodingUnsuccessful :: (_, 'r decode_error) result)"
    using loop(1) D(4) by (simp add: check_and_write_slivers_to_workspace_def)
  show "length ps = n_source_symbols a cfg \<Longrightarrow> \<exists>d'. check_and_write_slivers_to_workspace a d ss = (Ok (d', pull a cfg sz (n_source_symbols a cfg) [] ss) :: (_, 'r decode_error) result)
      \<and> dec_state C a cfg sz len (map sd_index ps) (picked_cells a ps) d'"
    using loop D by (simp add: check_and_write_slivers_to_workspace_def dec_state_def)
qed

text \<open>The matrix that decoding gives from the data \<open>d i\<close> of decoding \<open>i\<close>.\<close>

fun decoded_cells :: "axis \<Rightarrow> nat \<Rightarrow> (nat \<Rightarrow> bytes) \<Rightarrow> nat \<Rightarrow> nat \<Rightarrow> bytes" where
  "decoded_cells Primary sz d r c = chunks sz (d c) ! r"
| "decoded_cells Secondary sz d r c = chunks sz (d r) ! c"

lemma decoded_cells_eq: "(\<lambda>r c. case a of Primary \<Rightarrow> chunks sz (d c) ! r | Secondary \<Rightarrow> chunks sz (d r) ! c) = decoded_cells a sz d"
  by (cases a) (auto simp: fun_eq_iff)

definition matching_data :: "'r rs_codec \<Rightarrow> axis \<Rightarrow> rs_config \<Rightarrow> nat \<Rightarrow> sliver_data list \<Rightarrow> (nat \<Rightarrow> bytes) \<Rightarrow> bool" where
  "matching_data C a cfg sz ps d \<longleftrightarrow> (\<forall>i<n_source_symbols (orthogonal a) cfg. length (d i) = n_source_symbols a cfg * sz
    \<and> (\<forall>s\<in>set ps. axis_code C a cfg sz (d i) ! sd_index s = sliver_symbols s ! i))"

lemma matching_data_exists:
  assumes ok: "coder_ok C cfg sz" and ps: "length ps = n_source_symbols a cfg" "distinct (map sd_index ps)"
    "\<forall>s\<in>set ps. sliver_shape a cfg sz s \<and> sd_index s < n_shards cfg"
  shows "\<exists>d. matching_data C a cfg sz ps d"
proof -
  have "\<exists>x. length x = n_source_symbols a cfg * sz \<and> (\<forall>s\<in>set ps. axis_code C a cfg sz x ! sd_index s = sliver_symbols s ! i)"
    if i: "i < n_source_symbols (orthogonal a) cfg" for i
  proof -
    let ?syms = "map (\<lambda>s. \<lparr>ds_index = sd_index s, ds_data = sliver_symbols s ! i\<rparr>) ps"
    have len: "length (sliver_symbols s ! i) = sz" if "s \<in> set ps" for s
      using sliver_symbols_shape(1,2) [of a cfg sz s] ps(3) that i coder_okD(2) [OF ok] by (simp add: sized_nth)
    have "\<exists>x. length x = n_source_symbols a cfg * sz \<and> symbols_of_code (n_shards cfg) sz (axis_code C a cfg sz x) ?syms"
      by (rule codeword_interpolation [OF ok]) (use ps len in \<open>simp_all add: comp_def\<close>)
    moreover have "usable sz ?syms = ?syms" using len by (auto simp: usable_def filter_id_conv)
    ultimately show ?thesis by (auto simp: symbols_of_code_def)
  qed
  then obtain d where "\<forall>i<n_source_symbols (orthogonal a) cfg. length (d i) = n_source_symbols a cfg * sz \<and> (\<forall>s\<in>set ps. axis_code C a cfg sz (d i) ! sd_index s = sliver_symbols s ! i)"
    by metis
  then show ?thesis by (auto simp: matching_data_def)
qed

lemma decode_pulling_eq:
  assumes ok: "coder_ok C cfg sz" and len: "symbol_size_for_blob cfg len = Ok sz" "len \<le> U64_MAX" and w: "whole_symbols ss"
    and dd: "get_blob_decoder C a cfg len = Ok dec" and ps: "ps = pick a cfg sz (n_source_symbols a cfg) [] ss" "length ps = n_source_symbols a cfg"
    and d: "matching_data C a cfg sz ps d" and idx: "\<forall>s\<in>set ps. sd_index s < n_shards cfg"
  shows "decode_pulling C a dec ss = Ok (take len (concat (flat (source_symbols_primary cfg) (source_symbols_secondary cfg) (decoded_cells a sz d))),
    pull a cfg sz (n_source_symbols a cfg) [] ss)"
proof -
  have shape: "\<forall>s\<in>set ps. sliver_shape a cfg sz s" using pick_subset unfolding ps(1) by blast
  obtain d' where rd: "check_and_write_slivers_to_workspace a dec ss = (Ok (d', pull a cfg sz (n_source_symbols a cfg) [] ss) :: (_, 'a decode_error) result)"
    "dec_state C a cfg sz len (map sd_index ps) (picked_cells a ps) d'"
    using read_slivers(2) [OF ok len w dd] ps by auto
  have "\<exists>s. perform_decoding C a d' = Ok s \<and> bd_blob_size s = len \<and> bd_workspace s = workspace cfg sz (decoded_cells a sz d)"
    unfolding decoded_cells_eq [symmetric]
  proof (rule perform_decoding_eq [OF rd(2) picked_cells_sized [OF shape ps(2) coder_okD(2) [OF ok]]])
    show "length (map sd_index ps) = n_source_symbols a cfg" "\<forall>j\<in>set (map sd_index ps). j < n_shards cfg" using ps(2) idx by auto
    show "distinct (map sd_index ps)" using pick_distinct unfolding ps(1) by blast
    show "length (d i) = n_source_symbols a cfg * sz \<and> (\<forall>p<length (map sd_index ps). axis_code C a cfg sz (d i) ! (map sd_index ps ! p) = cell a (picked_cells a ps) p i)"
      if "i < n_source_symbols (orthogonal a) cfg" for i
      using d that by (simp add: matching_data_def cell_picked)
  qed
  then show ?thesis using rd(1) by (auto simp: decode_pulling_def workspace_def)
qed

text \<open>A systematic sliver that was used for decoding is a row of the result.\<close>

lemma decoded_systematic:
  assumes ok: "coder_ok C cfg sz" and d: "matching_data C Primary cfg sz ps d" and s: "s \<in> set ps" "sd_index s < source_symbols_primary cfg"
    "sliver_shape Primary cfg sz s"
  shows "map (decoded_cells Primary sz d (sd_index s)) [0..<source_symbols_secondary cfg] = sliver_symbols s"
proof (rule nth_equalityI)
  show len: "length (map (decoded_cells Primary sz d (sd_index s)) [0..<source_symbols_secondary cfg]) = length (sliver_symbols s)"
    using sliver_symbols_shape(1) [OF s(3) coder_okD(2) [OF ok]] by simp
  fix c assume "c < length (map (decoded_cells Primary sz d (sd_index s)) [0..<source_symbols_secondary cfg])"
  then have c: "c < source_symbols_secondary cfg" by simp
  have "length (d c) = n_source_symbols Primary cfg * sz" "axis_code C Primary cfg sz (d c) ! sd_index s = sliver_symbols s ! c"
    using d c s(1) by (auto simp: matching_data_def)
  then show "map (decoded_cells Primary sz d (sd_index s)) [0..<source_symbols_secondary cfg] ! c = sliver_symbols s ! c"
    using axis_code_shape(5) [OF ok, of "d c" Primary "sd_index s"] s(2) c by simp
qed

subsection \<open>Decoding an encoded blob\<close>

lemma concat_concat: "concat (concat xss) = concat (map concat xss)"
  by (induction xss) simp_all

lemma concat_src_matrix:
  assumes "length blob \<le> source_symbols_primary cfg * source_symbols_secondary cfg * sz"
  shows "take (length blob) (concat (flat (source_symbols_primary cfg) (source_symbols_secondary cfg) (src cfg sz blob))) = blob"
proof -
  let ?nr = "source_symbols_primary cfg" and ?L = "source_symbols_secondary cfg * sz"
  have "concat (flat ?nr (source_symbols_secondary cfg) (src cfg sz blob)) = concat (map (\<lambda>r. concat (src_row cfg sz blob r)) [0..<?nr])"
    by (simp add: flat_rows src_row_def [symmetric] concat_concat comp_def)
  also have "\<dots> = concat (map (\<lambda>r. pad ?L (take ?L (drop (?L * r) blob))) [0..<?nr])" by (simp only: concat_src_row)
  also have "\<dots> = pad (?nr * ?L) (take (?nr * ?L) blob)" by (rule pad_split)
  finally show ?thesis using assms by (simp add: pad_def ac_simps)
qed

end
