(* ===== verification/BlobReading.thy ===== *)
theory BlobReading
  imports BlobDecoding
begin

text \<open>
  What a client gets that reads a blob with \<open>decode_and_verify\<close> (theory \<open>BlobDecoder\<close>): slivers of an encoded blob give
  the blob back under every consistency check, two reads with the default check agree as long as no surplus slivers are given, and two
  reads with the strict check always agree. The last part shows that surplus slivers defeat the default check.
\<close>

subsection \<open>Decoding the slivers of an encoded blob\<close>

lemma chunks_concat_sized: "sized sz xs \<Longrightarrow> chunks sz (concat xs) = xs"
  using to_symbols_mk [of sz xs] by (simp add: to_symbols_def)

lemma sliver_symbols_mk: "sized sz xs \<Longrightarrow> sliver_symbols (mk_sliver sz xs i) = xs"
  by (simp add: sliver_symbols_def mk_sliver_def to_symbols_mk)

fun blob_data :: "'r rs_codec \<Rightarrow> axis \<Rightarrow> rs_config \<Rightarrow> nat \<Rightarrow> bytes \<Rightarrow> nat \<Rightarrow> bytes" where
  "blob_data C Primary cfg sz blob i = concat (col_src C cfg sz blob i)"
| "blob_data C Secondary cfg sz blob i = concat (src_row cfg sz blob i)"

lemma decoded_blob_data:
  assumes ok: "coder_ok C cfg sz" and rc: "r < source_symbols_primary cfg" "c < source_symbols_secondary cfg"
  shows "decoded_cells a sz (blob_data C a cfg sz blob) r c = src cfg sz blob r c"
proof -
  have c: "c < n_shards cfg" and sz: "0 < sz" using rc(2) coder_ok_axis(2) [OF ok, of Secondary] coder_okD(2) [OF ok] by simp_all
  show ?thesis
    using rc sz chunks_concat_sized [OF col_src_simps(2) [OF ok c, of blob]] chunks_concat_sized [of sz "src_row cfg sz blob r"]
    by (cases a) (simp_all add: col_src_def row_code_shape(3) [OF ok])
qed

lemma blob_slivers_match:
  assumes ok: "coder_ok C cfg sz" and ps: "\<forall>s\<in>set ps. \<exists>i<n_shards cfg. s = blob_sliver C a cfg sz blob i"
  shows "matching_data C a cfg sz ps (blob_data C a cfg sz blob)"
proof -
  have le: "source_symbols_primary cfg \<le> n_shards cfg" "source_symbols_secondary cfg \<le> n_shards cfg" "0 < sz"
    using coder_ok_axis(2) [OF ok, of Primary] coder_ok_axis(2) [OF ok, of Secondary] coder_okD(2) [OF ok] by simp_all
  have "axis_code C a cfg sz (blob_data C a cfg sz blob i) ! sd_index s = sliver_symbols s ! i"
    if i: "i < n_source_symbols (orthogonal a) cfg" and s: "j < n_shards cfg" "s = blob_sliver C a cfg sz blob j" for i j s
  proof (cases a)
    case Primary
    have "sized sz (map (msg C cfg sz blob j) [0..<source_symbols_secondary cfg])" using le s(1) msg_shape(2) [OF ok] by auto
    then have "sliver_symbols s = map (msg C cfg sz blob j) [0..<source_symbols_secondary cfg]"
      using Primary s(2) by (simp add: primary_sliver_def sliver_symbols_mk)
    then show ?thesis using Primary i blob_sliver_shape(2) [OF ok s(1), of a blob] s(2) by (simp add: msg_def col_code_def)
  next
    case Secondary
    then have "sliver_symbols s = col_src C cfg sz blob j"
      using s(2) sliver_symbols_mk [OF col_src_simps(2) [OF ok s(1), of blob], of j] by (simp add: secondary_sliver_eq [OF ok s(1)])
    then show ?thesis using Secondary i blob_sliver_shape(2) [OF ok s(1), of a blob] s(2) by (simp add: row_code_def [symmetric] col_src_def)
  qed
  moreover have "length (blob_data C a cfg sz blob i) = n_source_symbols a cfg * sz" if "i < n_source_symbols (orthogonal a) cfg" for i
    using that le col_src_simps(3) [OF ok, of i blob] length_concat_src_row [OF le(3), of cfg blob i] by (cases a) simp_all
  ultimately show ?thesis using ps by (fastforce simp: matching_data_def)
qed

text \<open>Slivers among which those with the right shape are slivers of the blob, with enough different ones among them.\<close>

definition genuine :: "'r rs_codec \<Rightarrow> axis \<Rightarrow> rs_config \<Rightarrow> nat \<Rightarrow> bytes \<Rightarrow> sliver_data list \<Rightarrow> bool" where
  "genuine C a cfg sz blob ss \<longleftrightarrow> whole_symbols ss
    \<and> (\<forall>s\<in>set (pick a cfg sz (n_source_symbols a cfg) [] ss). \<exists>i<n_shards cfg. s = blob_sliver C a cfg sz blob i)
    \<and> length (pick a cfg sz (n_source_symbols a cfg) [] ss) = n_source_symbols a cfg"

lemma decode_genuine:
  assumes fits: "blob_fits C ecfg sz blob" and gen: "genuine C a (reed_solomon ecfg) sz blob ss"
  shows "\<exists>dec. get_blob_decoder C a (reed_solomon ecfg) (length blob) = Ok dec
    \<and> decode_pulling C a dec ss = Ok (blob, pull a (reed_solomon ecfg) sz (n_source_symbols a (reed_solomon ecfg)) [] ss)"
proof -
  let ?cfg = "reed_solomon ecfg"
  let ?ps = "pick a ?cfg sz (n_source_symbols a ?cfg) [] ss"
  note D = blob_fitsD [OF fits]
  have g: "whole_symbols ss" "\<forall>s\<in>set ?ps. \<exists>i<n_shards ?cfg. s = blob_sliver C a ?cfg sz blob i" "length ?ps = n_source_symbols a ?cfg"
    using gen by (auto simp: genuine_def)
  obtain dec where dec: "get_blob_decoder C a ?cfg (length blob) = Ok dec" using blob_decoder_new_eq [OF D(2,3,7), of a] by blast
  have idx: "\<forall>s\<in>set ?ps. sd_index s < n_shards ?cfg" using g(2) blob_sliver_shape(2) [OF D(2)] by fastforce
  have "flat (source_symbols_primary ?cfg) (source_symbols_secondary ?cfg) (decoded_cells a sz (blob_data C a ?cfg sz blob))
      = flat (source_symbols_primary ?cfg) (source_symbols_secondary ?cfg) (src ?cfg sz blob)"
    by (rule flat_cong) (rule decoded_blob_data [OF D(2)])
  then show ?thesis
    using dec decode_pulling_eq [OF D(2,3,7) g(1) dec refl g(3) blob_slivers_match [OF D(2) g(2)] idx] concat_src_matrix [OF D(6)] by simp
qed

subsection \<open>The consistency checks\<close>

lemma get_blob_encoder_eq: "blob_fits C ecfg sz blob \<Longrightarrow> get_blob_encoder (reed_solomon ecfg) blob = Ok (mk_encoder (reed_solomon ecfg) sz (Borrowed blob))"
  using blob_encoder_new_eq [of C ecfg sz "Borrowed blob"] by (simp add: get_blob_encoder_def blob_new_def)

lemma systematic_primary_sliver_eq:
  assumes "coder_ok C cfg sz"
  shows "systematic_primary_sliver (mk_encoder cfg sz b) i = Ok (mk_sliver sz (src_row cfg sz (blob_as_ref b) i) i)"
proof -
  have sz: "0 < sz" "0 < source_symbols_secondary cfg" using coder_okD(2) [OF assms] coder_ok_axis(1) [OF assms, of Secondary] by simp_all
  note rows = be_rows_nth [OF sz, of i b]
  show ?thesis
  proof (cases "i < length (be_rows (mk_encoder cfg sz b))")
    case True
    then show ?thesis
      using rows(2) copy_prefix_src_row [of cfg sz i "blob_as_ref b"]
      by (simp add: systematic_primary_sliver_def empty_sliver_mk [OF sz(1)] on_symbols_def mk_sliver_def)
  next
    case False
    then show ?thesis using rows(1) by (simp add: systematic_primary_sliver_def empty_sliver_mk [OF sz(1)] src_row_beyond)
  qed
qed

lemma check_hash_eq:
  assumes md: "md_fits C ecfg md sz" and s: "sliver_shape a (reed_solomon ecfg) sz s" "sd_index s < ec_n_shards ecfg"
  shows "check_hash h C a s (reed_solomon ecfg) md = sliver_verify h C a s ecfg md"
    "sliver_verify h C a s ecfg md \<noteq> Ok () \<Longrightarrow> sliver_verify h C a s ecfg md = Err MerkleRootMismatch"
proof -
  note D = md_fitsD [OF md]
  have n: "sd_index s < length (hashes md)" "metadata_symbol_size md ecfg = Ok sz" "symbol_size (sd_symbols s) = sz"
    "symbol_size_for_blob (reed_solomon ecfg) (unencoded_length md) = Ok sz"
    using md s by (auto simp: md_fits_def sliver_shape_def metadata_symbol_size_def)
  have "has_correct_length a s (reed_solomon ecfg) (unencoded_length md) = (Ok True :: (bool, sliver_verification_error) result)"
    using sliver_size_for_blob_Ok [OF n(4) coder_okD(1) [OF D(1)]] s(1) by (simp add: has_correct_length_def expected_length_def sliver_shape_def)
  then show "check_hash h C a s (reed_solomon ecfg) md = sliver_verify h C a s ecfg md" using n by (simp add: sliver_verify_def Let_def)
  show "sliver_verify h C a s ecfg md \<noteq> Ok () \<Longrightarrow> sliver_verify h C a s ecfg md = Err MerkleRootMismatch"
    using s by (auto simp: sliver_verify_eq [OF md] sliver_shape_def split: if_splits)
qed

lemma src_row_shape: "0 < sz \<Longrightarrow> sliver_shape Primary cfg sz (mk_sliver sz (src_row cfg sz blob i) i)"
  using length_concat_src_row [of sz cfg blob i] by (simp add: sliver_shape_def sliver_len_def mk_sliver_def)

text \<open>The default check accepts if and only if the systematic primary slivers of the blob verify, but for those given as already
  verified.\<close>

lemma default_check_eq:
  assumes md: "md_fits C ecfg (metadata md) sz" and v: "\<And>bs. v = Some bs \<Longrightarrow> length bs = source_symbols_primary (reed_solomon ecfg)"
  shows "default_consistency_check h C (mk_encoder (reed_solomon ecfg) sz b) md v =
    (if \<forall>i < source_symbols_primary (reed_solomon ecfg). (case v of Some bs \<Rightarrow> bs ! i | None \<Rightarrow> False)
        \<or> sliver_verify h C Primary (mk_sliver sz (src_row (reed_solomon ecfg) sz (blob_as_ref b) i) i) ecfg (metadata md) = Ok ()
     then Ok () else Err DecodeVerificationError)"
proof -
  let ?cfg = "reed_solomon ecfg" and ?n = "source_symbols_primary (reed_solomon ecfg)"
  let ?done = "\<lambda>i. case v of Some bs \<Rightarrow> bs ! i | None \<Rightarrow> False" and ?s = "\<lambda>i. mk_sliver sz (src_row ?cfg sz (blob_as_ref b) i) i"
  note D = md_fitsD [OF md]
  have le: "?n \<le> ec_n_shards ecfg" using coder_ok_axis(2) [OF D(1), of Primary] D(2) by simp
  have "try_fold (\<lambda>_ i. if ?done i then Ok () else and_then (systematic_primary_sliver (mk_encoder ?cfg sz b) i) (\<lambda>sliver.
      map_err (\<lambda>_. DecodeVerificationError) (check_hash h C Primary sliver ?cfg (metadata md)))) () [0..<?n]
    = (if \<forall>i\<in>set [0..<?n]. ?done i \<or> sliver_verify h C Primary (?s i) ecfg (metadata md) = Ok () then Ok () else Err DecodeVerificationError :: (unit, 'a decode_error) result)"
  proof (rule try_fold_checks)
    fix i assume "i \<in> set [0..<?n]"
    then have i: "sd_index (?s i) < ec_n_shards ecfg" using le by (simp add: mk_sliver_def)
    show "(if ?done i then Ok () else and_then (systematic_primary_sliver (mk_encoder ?cfg sz b) i) (\<lambda>sliver.
        map_err (\<lambda>_. DecodeVerificationError) (check_hash h C Primary sliver ?cfg (metadata md))))
      = (if ?done i \<or> sliver_verify h C Primary (?s i) ecfg (metadata md) = Ok () then Ok () else Err DecodeVerificationError)"
      using check_hash_eq [OF md src_row_shape [OF D(4)] i, of h] by (auto simp: systematic_primary_sliver_eq [OF D(1)])
  qed
  moreover have "(case v of Some bs \<Rightarrow> rust_assert (length bs = ?n) | None \<Rightarrow> Ok ()) = (Ok () :: (unit, 'a decode_error) result)"
    using v by (auto split: option.split)
  moreover have "be_config (be_inner (mk_encoder ?cfg sz b)) = ?cfg" by simp
  ultimately show ?thesis by (simp add: default_consistency_check_def Let_def n_systematic_slivers_def Ball_def cong: if_cong)
qed

lemma mark_verified_eq:
  "length (mark_verified n ss) = n" "i < n \<Longrightarrow> mark_verified n ss ! i \<longleftrightarrow> (\<exists>s\<in>set ss. sd_index s = i)"
proof -
  have "length (fold (\<lambda>s v. if sd_index s < n then v[sd_index s := True] else v) ss v) = length v" for v :: "bool list"
    by (induction ss arbitrary: v) auto
  then show "length (mark_verified n ss) = n" by (simp add: mark_verified_def)
  have "fold (\<lambda>s v. if sd_index s < n then v[sd_index s := True] else v) ss v ! i \<longleftrightarrow> v ! i \<or> (\<exists>s\<in>set ss. sd_index s = i)"
    if "length v = n" "i < n" for v :: "bool list"
    using that by (induction ss arbitrary: v) (auto simp: nth_list_update)
  then show "i < n \<Longrightarrow> mark_verified n ss ! i \<longleftrightarrow> (\<exists>s\<in>set ss. sd_index s = i)" by (simp add: mark_verified_def)
qed

subsection \<open>Reads\<close>

lemma decode_and_verify_eq:
  assumes "get_blob_decoder C a cfg (unencoded_length (metadata md)) = Ok dec" "decode_pulling C a dec ss = Ok (blob, pulled)"
  shows "decode_and_verify h C a cfg md ss chk = and_then (case chk of
      SkipCheck \<Rightarrow> Ok ()
    | DefaultCheck \<Rightarrow> and_then (map_err decode_error_from (get_blob_encoder cfg blob)) (\<lambda>be.
        default_consistency_check h C be md (if is_primary a then Some (mark_verified (n_systematic_slivers a cfg) pulled) else None))
    | StrictCheck \<Rightarrow> strict_consistency_check h C cfg (blob_id md) blob) (\<lambda>_. Ok blob)"
  using assms by (cases chk) (simp_all add: decode_and_verify_def config_decode_def blob_decoder_decode_def)

lemma decode_and_verify_OkD:
  assumes "decode_and_verify h C a cfg md ss chk = Ok blob"
  shows "\<exists>dec pulled. get_blob_decoder C a cfg (unencoded_length (metadata md)) = Ok dec \<and> decode_pulling C a dec ss = Ok (blob, pulled)"
  using assms by (auto simp: decode_and_verify_def config_decode_def blob_decoder_decode_def and_then_eq_Ok split: if_splits)

lemma pair_slivers_eq: "pair_sliver a ` set (blob_pairs C cfg sz blob) = blob_sliver C a cfg sz blob ` {..<n_shards cfg}"
proof -
  have "set (blob_pairs C cfg sz blob) = (!) (blob_pairs C cfg sz blob) ` {..<n_shards cfg}"
    by (auto simp: in_set_conv_nth image_iff)
  then have "pair_sliver a ` set (blob_pairs C cfg sz blob) = blob_sliver C a cfg sz blob ` (\<lambda>i. to_sliver a i (n_shards cfg)) ` {..<n_shards cfg}"
    by (simp add: image_image blob_pairs_slivers)
  also have "(\<lambda>i. to_sliver a i (n_shards cfg)) ` {..<n_shards cfg} = {..<n_shards cfg}"
  proof (intro equalityI subsetI)
    show "x \<in> (\<lambda>i. to_sliver a i (n_shards cfg)) ` {..<n_shards cfg}" if "x \<in> {..<n_shards cfg}" for x
      by (rule image_eqI [of _ _ "to_sliver a x (n_shards cfg)"]) (use that in simp_all)
  qed auto
  finally show ?thesis .
qed

lemma given_slivers_genuine:
  assumes ok: "coder_ok C cfg sz" and ss: "whole_symbols ss" "\<forall>s\<in>set ss. sliver_shape a cfg sz s \<longrightarrow> s \<in> blob_sliver C a cfg sz blob ` {..<n_shards cfg}"
    and enough: "n_source_symbols a cfg \<le> card (set ss \<inter> blob_sliver C a cfg sz blob ` {..<n_shards cfg})"
  shows "genuine C a cfg sz blob ss"
proof -
  let ?B = "set ss \<inter> blob_sliver C a cfg sz blob ` {..<n_shards cfg}"
  note sh = blob_sliver_shape [OF ok, of _ a blob]
  have eq: "{s \<in> set ss. sliver_shape a cfg sz s} = ?B" using ss(2) sh(1) by auto
  have "inj_on sd_index ?B" using sh(2) by (auto intro!: inj_onI)
  then have "card (sd_index ` {s \<in> set ss. sliver_shape a cfg sz s} - set []) = card ?B" unfolding eq by (simp add: card_image)
  then have "length (pick a cfg sz (n_source_symbols a cfg) [] ss) = n_source_symbols a cfg" unfolding pick_enough using enough by simp
  moreover have "\<exists>i<n_shards cfg. s = blob_sliver C a cfg sz blob i" if "s \<in> set (pick a cfg sz (n_source_symbols a cfg) [] ss)" for s
    using pick_subset [OF that] ss(2) by blast
  ultimately show ?thesis using ss(1) by (simp add: genuine_def)
qed

lemma read_genuine:
  assumes fits: "blob_fits C ecfg sz blob" and com: "coder_commute C (reed_solomon ecfg) sz" and gen: "genuine C a (reed_solomon ecfg) sz blob ss"
  shows "decode_and_verify h C a (reed_solomon ecfg) (blob_md h C (reed_solomon ecfg) sz blob) ss chk = Ok blob"
proof -
  let ?cfg = "reed_solomon ecfg" and ?md = "blob_md h C (reed_solomon ecfg) sz blob"
  note D = blob_fitsD [OF fits] and mdf = blob_md_fits [OF fits, of h]
  obtain dec pulled where dec: "get_blob_decoder C a ?cfg (length blob) = Ok dec" "decode_pulling C a dec ss = Ok (blob, pulled)"
    using decode_genuine [OF fits gen] by blast
  have "sliver_verify h C Primary (mk_sliver sz (src_row ?cfg sz blob i) i) ecfg (metadata ?md) = Ok ()" if "i < source_symbols_primary ?cfg" for i
    using slivers_verified(1) [OF fits _ com, of i h] primary_sliver_systematic [OF D(2) that, of blob] that
      coder_ok_axis(2) [OF D(2), of Primary] D(4) by simp
  then have "default_consistency_check h C (mk_encoder ?cfg sz (Borrowed blob)) ?md
      (if is_primary a then Some (mark_verified (n_systematic_slivers a ?cfg) pulled) else None) = Ok ()"
    using mdf by (subst default_check_eq) (auto simp: mark_verified_eq(1) n_systematic_slivers_def is_primary_def split: if_splits)
  moreover have "strict_consistency_check h C ?cfg (blob_id ?md) blob = Ok ()"
    using config_encode_eq(2) [OF fits, of h] by (simp add: strict_consistency_check_def)
  ultimately show ?thesis
    using dec get_blob_encoder_eq [OF fits] by (subst decode_and_verify_eq) (auto split: consistency_check_type.split)
qed

lemma blob_slivers_genuine:
  assumes ok: "coder_ok C cfg sz" and idx: "\<forall>i\<in>set is. i < n_shards cfg" "n_source_symbols a cfg \<le> card (set is)"
  shows "genuine C a cfg sz blob (map (blob_sliver C a cfg sz blob) is)"
proof (rule given_slivers_genuine [OF ok])
  let ?f = "blob_sliver C a cfg sz blob"
  note sh = blob_sliver_shape [OF ok, of _ a blob]
  show "whole_symbols (map ?f is)" using idx(1) sh(1) sliver_shape_ok coder_okD(2) [OF ok] by (fastforce simp: whole_symbols_def)
  show "\<forall>s\<in>set (map ?f is). sliver_shape a cfg sz s \<longrightarrow> s \<in> ?f ` {..<n_shards cfg}" using idx(1) by auto
  have "inj_on ?f (set is)" using idx(1) sh(2) by (intro inj_onI) metis
  moreover have "set (map ?f is) \<inter> ?f ` {..<n_shards cfg} = ?f ` set is" using idx(1) by auto
  ultimately show "n_source_symbols a cfg \<le> card (set (map ?f is) \<inter> ?f ` {..<n_shards cfg})" using idx(2) by (simp add: card_image)
qed

text \<open>C16: Reading inverts writing: from slivers among which enough different ones of the encoded blob occur, in any order, repeated and
  mixed with others of a different shape, the blob is read back, whatever the axis and the consistency check.\<close>

theorem read_encoded_blob:
  assumes "blob_fits C ecfg sz blob" "coder_commute C (reed_solomon ecfg) sz"
    and "config_encode_with_metadata h C (reed_solomon ecfg) blob = Ok (pairs, md)"
    and "whole_symbols ss" "\<forall>s\<in>set ss. sliver_shape a (reed_solomon ecfg) sz s \<longrightarrow> s \<in> pair_sliver a ` set pairs"
    and "n_source_symbols a (reed_solomon ecfg) \<le> card (set ss \<inter> pair_sliver a ` set pairs)"
  shows "decode_and_verify h C a (reed_solomon ecfg) md ss chk = Ok blob"
proof -
  let ?cfg = "reed_solomon ecfg"
  have out: "pairs = blob_pairs C ?cfg sz blob" "md = blob_md h C ?cfg sz blob" using config_encode_eq(1) [OF assms(1), of h] assms(3) by auto
  have "genuine C a ?cfg sz blob ss"
    by (rule given_slivers_genuine [OF blob_fitsD(2) [OF assms(1)] assms(4)]) (use assms(5,6) in \<open>simp_all add: out pair_slivers_eq\<close>)
  then show ?thesis unfolding out(2) by (rule read_genuine [OF assms(1,2)])
qed

lemma example_shapes:
  "i < 4 \<Longrightarrow> sliver_shape a example_config 4 (blob_sliver four_codec a example_config 4 example_blob i)"
  "i < 4 \<Longrightarrow> sd_index (blob_sliver four_codec a example_config 4 example_blob i) = i"
  using blob_sliver_shape [of four_codec example_config 4 i a example_blob] blob_fitsD(2) [OF example_fits]
  by (simp_all add: example_encoding_config_def example_config_def)

theorem read_encoded_blob_witness:
  "\<exists>pairs md. config_encode_with_metadata fold_hash four_codec example_config example_blob = Ok (pairs, md)
    \<and> decode_and_verify fold_hash four_codec Primary example_config md [primary (pairs ! 3), primary (pairs ! 1), primary (pairs ! 3)] StrictCheck
      = Ok example_blob"
proof -
  let ?pairs = "blob_pairs four_codec example_config 4 example_blob"
  have p: "primary (?pairs ! i) = blob_sliver four_codec Primary example_config 4 example_blob i" if "i < 4" for i
    using blob_pairs_slivers [of i example_config Primary four_codec 4 example_blob] that by (simp add: example_config_def)
  have len: "length ?pairs = 4" by (simp add: example_config_def)
  let ?ss = "[primary (?pairs ! 3), primary (?pairs ! 1), primary (?pairs ! 3)]"
  have mem: "set ?ss \<subseteq> pair_sliver Primary ` set ?pairs" using len by (auto intro!: image_eqI)
  have "primary (?pairs ! 3) \<noteq> primary (?pairs ! 1)" using example_shapes(2) [of 3 Primary] example_shapes(2) [of 1 Primary] p [of 3] p [of 1] by auto
  then have "2 \<le> card (set ?ss)" by (simp add: card_insert_if)
  then have card: "n_source_symbols Primary example_config \<le> card (set ?ss \<inter> pair_sliver Primary ` set ?pairs)"
    using mem by (simp add: Int_absorb2 example_config_def)
  have "whole_symbols ?ss"
    using example_shapes(1) [of 3 Primary] example_shapes(1) [of 1 Primary] p [of 3] p [of 1] by (auto simp: whole_symbols_def sliver_shape_ok)
  then show ?thesis
    using read_encoded_blob [OF example_fits example_commute, of fold_hash ?pairs "blob_md fold_hash four_codec example_config 4 example_blob" ?ss Primary StrictCheck]
      config_encode_eq(1) [OF example_fits, of fold_hash] card mem by (auto simp: example_encoding_config_def)
qed

subsection \<open>Agreement of reads\<close>

lemma concat_rows_nth:
  assumes "\<forall>i<n. length (f i) = L" "r < n" "q < L"
  shows "concat (map f [0..<n]) ! (L * r + q) = f r ! q"
proof -
  have len: "length (concat (map f [0..<k])) = L * k" if "k \<le> n" for k using that assms(1) by (induction k) auto
  have "[0..<n] = [0..<r] @ r # [Suc r..<n]" using assms(2) by (metis le_add1 less_imp_add_positive plus_nat.add_0 upt_add_eq_append upt_conv_Cons assms(2))
  then show ?thesis using len [of r] assms by (simp add: nth_append)
qed

lemma rows_prefix:
  assumes R: "\<forall>i<n. length (R i) = L"
    and Q: "\<forall>i<n. Q i = R i \<or> Q i = pad L (take L (drop (L * i) (take len (concat (map R [0..<n])))))"
  shows "take len (concat (map Q [0..<n])) = take len (concat (map R [0..<n]))"
proof -
  have QL: "\<forall>i<n. length (Q i) = L" using R Q by fastforce
  have len: "length (concat (map f [0..<n])) = L * n" if "\<forall>i<n. length (f i) = L" for f :: "nat \<Rightarrow> bytes"
    using that by (induction n) auto
  show ?thesis
  proof (rule nth_equalityI)
    show "length (take len (concat (map Q [0..<n]))) = length (take len (concat (map R [0..<n])))" using len [OF R] len [OF QL] by simp
    fix p assume "p < length (take len (concat (map Q [0..<n])))"
    then have p: "p < len" "p < L * n" using len [OF QL] by simp_all
    then have r: "p div L < n" "p mod L < L" by (auto simp: less_mult_imp_div_less mult.commute intro!: mod_less_divisor gr0I)
    have e: "p = L * (p div L) + p mod L" by simp
    have "Q (p div L) ! (p mod L) = R (p div L) ! (p mod L)"
    proof (cases "Q (p div L) = R (p div L)")
      case False
      then have "Q (p div L) = pad L (take L (drop (L * (p div L)) (take len (concat (map R [0..<n])))))" using Q r(1) by blast
      moreover have "p mod L < min (L * n) len - L * (p div L)" unfolding less_diff_conv using p by simp
      moreover have "L * (p div L) \<le> length (take len (concat (map R [0..<n])))"
        using p r(1) len [OF R] order.trans [OF times_div_less_eq_dividend [of L p]] by simp
      ultimately have "Q (p div L) ! (p mod L) = concat (map R [0..<n]) ! (L * (p div L) + p mod L)"
        using p r(2) len [OF R] by (simp add: pad_def nth_append)
      then show ?thesis using concat_rows_nth [OF R r] by simp
    qed simp
    then show "take len (concat (map Q [0..<n])) ! p = take len (concat (map R [0..<n])) ! p"
      using p concat_rows_nth [OF R r] concat_rows_nth [OF QL r] e by simp
  qed
qed

text \<open>What a read with the default check gives: the bytes of verified systematic slivers.\<close>

lemma md_length:
  assumes "md_fits C ecfg md sz"
  shows "symbol_size_for_blob (reed_solomon ecfg) (unencoded_length md) = Ok sz"
    "unencoded_length md \<le> source_symbols_primary (reed_solomon ecfg) * source_symbols_secondary (reed_solomon ecfg) * sz" "unencoded_length md \<le> U64_MAX"
proof -
  show sz: "symbol_size_for_blob (reed_solomon ecfg) (unencoded_length md) = Ok sz" using assms by (simp add: md_fits_def metadata_symbol_size_def)
  then have "blob_fits C ecfg sz (replicate (unencoded_length md) 0)" using assms by (simp add: md_fits_def blob_fits_def)
  from blob_fitsD(6,7) [OF this]
  show "unencoded_length md \<le> source_symbols_primary (reed_solomon ecfg) * source_symbols_secondary (reed_solomon ecfg) * sz" "unencoded_length md \<le> U64_MAX"
    by simp_all
qed

definition decoded_row :: "axis \<Rightarrow> rs_config \<Rightarrow> nat \<Rightarrow> (nat \<Rightarrow> bytes) \<Rightarrow> nat \<Rightarrow> bytes" where
  "decoded_row a cfg sz d i = concat (map (decoded_cells a sz d i) [0..<source_symbols_secondary cfg])"

lemma decode_in_range:
  assumes md: "md_fits C ecfg md sz" and w: "whole_symbols ss" and rng: "\<forall>s\<in>set ss. sd_index s < n_shards (reed_solomon ecfg)"
    and dec: "get_blob_decoder C a (reed_solomon ecfg) (unencoded_length md) = Ok dec" "decode_pulling C a dec ss = Ok (blob, pulled)"
  defines "ps \<equiv> pick a (reed_solomon ecfg) sz (n_source_symbols a (reed_solomon ecfg)) [] ss"
  shows "\<exists>d. matching_data C a (reed_solomon ecfg) sz ps d \<and> length ps = n_source_symbols a (reed_solomon ecfg)
    \<and> blob = take (unencoded_length md) (concat (map (decoded_row a (reed_solomon ecfg) sz d) [0..<source_symbols_primary (reed_solomon ecfg)]))
    \<and> (\<forall>i < source_symbols_primary (reed_solomon ecfg). length (decoded_row a (reed_solomon ecfg) sz d i) = source_symbols_secondary (reed_solomon ecfg) * sz)
    \<and> set pulled \<subseteq> set ss \<and> blob_fits C ecfg sz blob \<and> length blob = unencoded_length md"
proof -
  let ?cfg = "reed_solomon ecfg"
  let ?nr = "source_symbols_primary ?cfg" and ?nc = "source_symbols_secondary ?cfg"
  note D = md_fitsD [OF md] and L = md_length [OF md]
  have sub: "set ps \<subseteq> set ss" and shapes: "\<forall>s\<in>set ps. sliver_shape a ?cfg sz s \<and> sd_index s < n_shards ?cfg"
    unfolding ps_def using pick_subset rng by fastforce+
  have "\<not> length ps < n_source_symbols a ?cfg"
    using read_slivers(1) [OF D(1) L(1,3) w dec(1)] dec(2) by (auto simp: decode_pulling_def ps_def)
  then have len: "length ps = n_source_symbols a ?cfg" using pick_length(1) [of a ?cfg sz "n_source_symbols a ?cfg" "[]" ss] by (simp add: ps_def)
  obtain d where d: "matching_data C a ?cfg sz ps d"
    using matching_data_exists [OF D(1) len, unfolded ps_def, OF conjunct1 [OF pick_distinct]] shapes sub unfolding ps_def by blast
  have idx: "\<forall>s\<in>set ps. sd_index s < n_shards ?cfg" using shapes by blast
  have out: "blob = take (unencoded_length md) (concat (flat ?nr ?nc (decoded_cells a sz d)))" "pulled = pull a ?cfg sz (n_source_symbols a ?cfg) [] ss"
    using decode_pulling_eq [OF D(1) L(1,3) w dec(1) _ len d idx] dec(2) by (auto simp: ps_def)
  have cells: "length (decoded_cells a sz d r c) = sz" if rc: "r < ?nr" "c < ?nc" for r c
  proof -
    have i: "(case a of Primary \<Rightarrow> c | Secondary \<Rightarrow> r) < n_source_symbols (orthogonal a) ?cfg" using rc by (cases a) simp_all
    then have "length (d (case a of Primary \<Rightarrow> c | Secondary \<Rightarrow> r)) = n_source_symbols a ?cfg * sz" using d by (simp add: matching_data_def)
    note ch = chunks_sized(1,2) [OF D(4) this]
    show ?thesis using ch rc by (cases a) (simp_all add: sized_nth)
  qed
  have rows: "length (decoded_row a ?cfg sz d i) = ?nc * sz" if "i < ?nr" for i
    using length_concat_sized [of sz "map (decoded_cells a sz d i) [0..<?nc]"] cells that D(4) by (simp add: decoded_row_def)
  have blob: "blob = take (unencoded_length md) (concat (map (decoded_row a ?cfg sz d) [0..<?nr]))"
    unfolding out(1) by (simp add: flat_rows concat_concat decoded_row_def [abs_def] comp_def)
  have "length (concat (map (decoded_row a ?cfg sz d) [0..<k])) = k * (?nc * sz)" if "k \<le> ?nr" for k
    using that rows by (induction k) auto
  then have lb: "length blob = unencoded_length md" using L(2) by (simp add: blob mult.assoc)
  then have "blob_fits C ecfg sz blob" using L(1) md by (simp add: blob_fits_def md_fits_def)
  then show ?thesis using d len blob rows out(2) lb pull_subset by blast
qed

lemma verified_in_range:
  assumes "md_fits C ecfg md sz" "\<forall>s\<in>set ss. sliver_verify h C a s ecfg md = Ok ()"
  shows "whole_symbols ss" "\<forall>s\<in>set ss. sd_index s < n_shards (reed_solomon ecfg)"
proof -
  have "\<forall>s\<in>set ss. sliver_shape a (reed_solomon ecfg) sz s \<and> sd_index s < n_shards (reed_solomon ecfg)"
    using assms(2) sliver_verify_Ok_iff [OF assms(1)] md_fitsD(2) [OF assms(1)] by simp
  then show "whole_symbols ss" "\<forall>s\<in>set ss. sd_index s < n_shards (reed_solomon ecfg)"
    using sliver_shape_ok md_fitsD(4) [OF assms(1)] by (auto simp: whole_symbols_def)
qed

lemma default_read_sound:
  assumes md: "md_fits C ecfg (metadata md) sz" and ver: "\<forall>s\<in>set ss. sliver_verify h C a s ecfg (metadata md) = Ok ()"
    and few: "a = Primary \<Longrightarrow> length ss \<le> source_symbols_primary (reed_solomon ecfg)"
    and rd: "decode_and_verify h C a (reed_solomon ecfg) md ss DefaultCheck = Ok blob"
  shows "\<exists>S. (\<forall>i < source_symbols_primary (reed_solomon ecfg). sd_index (S i) = i \<and> sliver_verify h C Primary (S i) ecfg (metadata md) = Ok ())
    \<and> blob = take (unencoded_length (metadata md)) (concat (map (\<lambda>i. sym_data (sd_symbols (S i))) [0..<source_symbols_primary (reed_solomon ecfg)]))"
proof -
  let ?cfg = "reed_solomon ecfg"
  let ?nr = "source_symbols_primary ?cfg" and ?L = "source_symbols_secondary ?cfg * sz" and ?ps = "pick a ?cfg sz (n_source_symbols a ?cfg) [] ss"
  let ?row = "\<lambda>i. mk_sliver sz (src_row ?cfg sz blob i) i" and ?v = "\<lambda>s. sliver_verify h C Primary s ecfg (metadata md) = Ok ()"
  note D = md_fitsD [OF md]
  obtain dec pulled where dec: "get_blob_decoder C a ?cfg (unencoded_length (metadata md)) = Ok dec" "decode_pulling C a dec ss = Ok (blob, pulled)"
    using decode_and_verify_OkD [OF rd] by blast
  obtain d where d: "matching_data C a ?cfg sz ?ps d" "length ?ps = n_source_symbols a ?cfg"
    "blob = take (unencoded_length (metadata md)) (concat (map (decoded_row a ?cfg sz d) [0..<?nr]))"
    "\<forall>i<?nr. length (decoded_row a ?cfg sz d i) = ?L" "set pulled \<subseteq> set ss" "blob_fits C ecfg sz blob"
    using decode_in_range [OF md verified_in_range [OF md ver] dec] by auto
  have chk: "?v (?row i) \<or> (a = Primary \<and> (\<exists>s\<in>set ss. sd_index s = i))" if "i < ?nr" for i
  proof -
    have "default_consistency_check h C (mk_encoder ?cfg sz (Borrowed blob)) md
        (if is_primary a then Some (mark_verified (n_systematic_slivers a ?cfg) pulled) else None) = Ok ()"
      using rd unfolding decode_and_verify_eq [OF dec] by (simp add: get_blob_encoder_eq [OF d(6)] and_then_eq_Ok)
    then show ?thesis
      using that d(5) by (subst (asm) default_check_eq [OF md])
        (auto simp: mark_verified_eq n_systematic_slivers_def is_primary_def split: if_splits)
  qed
  have used: "\<exists>s. sd_index s = i \<and> ?v s \<and> sym_data (sd_symbols s) = decoded_row a ?cfg sz d i" if i: "i < ?nr" and nv: "\<not> ?v (?row i)" for i
  proof -
    obtain s where s: "s \<in> set ss" "sd_index s = i" and a: "a = Primary" using chk [OF i] nv by blast
    have "?ps = ss" using pick_all [of a ?cfg sz "n_source_symbols a ?cfg" "[]" ss] d(2) few [OF a] pick_length(2) [of a ?cfg sz "n_source_symbols a ?cfg" "[]" ss] a by simp
    then have m: "matching_data C Primary ?cfg sz ss d" using d(1) a by simp
    have sh: "sliver_shape Primary ?cfg sz s" "?v s" using ver s(1) a sliver_verify_Ok_iff [OF md] by auto
    have "sym_data (sd_symbols s) = decoded_row a ?cfg sz d i"
      using decoded_systematic [OF D(1) m s(1) _ sh(1)] sliver_symbols_shape(4) [OF sh(1) D(4)] s(2) i a by (simp add: decoded_row_def)
    then show ?thesis using s(2) sh(2) by blast
  qed
  define S where "S i = (if ?v (?row i) then ?row i else (SOME s. sd_index s = i \<and> ?v s \<and> sym_data (sd_symbols s) = decoded_row a ?cfg sz d i))" for i
  have S: "sd_index (S i) = i \<and> ?v (S i) \<and> (sym_data (sd_symbols (S i)) = decoded_row a ?cfg sz d i
      \<or> sym_data (sd_symbols (S i)) = pad ?L (take ?L (drop (?L * i) (take (unencoded_length (metadata md)) (concat (map (decoded_row a ?cfg sz d) [0..<?nr]))))))"
    if "i < ?nr" for i
    using someI_ex [OF used [OF that]] concat_src_row [of ?cfg sz blob i] unfolding d(3) [symmetric] by (auto simp: S_def mk_sliver_def)
  have "blob = take (unencoded_length (metadata md)) (concat (map (\<lambda>i. sym_data (sd_symbols (S i))) [0..<?nr]))"
    unfolding d(3) by (rule rows_prefix [OF d(4), symmetric]) (use S in blast)
  then show ?thesis using S by blast
qed

text \<open>C18: Two reads with the default check against the same metadata return the same blob, from whichever verified slivers and along
  whichever axis, unless two different verified slivers break the hash function. For reads from primary slivers no surplus slivers
  may be given.\<close>

theorem default_reads_agree:
  assumes "digest32 h" "md_fits C ecfg (metadata md) sz"
    and "\<forall>s\<in>set ss. sliver_verify h C a s ecfg (metadata md) = Ok ()" "\<forall>s\<in>set ts. sliver_verify h C b s ecfg (metadata md) = Ok ()"
    and "a = Primary \<Longrightarrow> length ss \<le> n_source_symbols Primary (reed_solomon ecfg)" "b = Primary \<Longrightarrow> length ts \<le> n_source_symbols Primary (reed_solomon ecfg)"
    and "decode_and_verify h C a (reed_solomon ecfg) md ss DefaultCheck = Ok blob" "decode_and_verify h C b (reed_solomon ecfg) md ts DefaultCheck = Ok blob'"
  shows "blob = blob' \<or> (\<exists>s t. sd_index s = sd_index t \<and> s \<noteq> t
    \<and> sliver_verify h C Primary s ecfg (metadata md) = Ok () \<and> sliver_verify h C Primary t ecfg (metadata md) = Ok ()
    \<and> hash_broken h (set (build_inputs h (expanded C Primary (reed_solomon ecfg) t))) (set (build_inputs h (expanded C Primary (reed_solomon ecfg) s))))"
proof -
  let ?n = "source_symbols_primary (reed_solomon ecfg)" and ?v = "\<lambda>s. sliver_verify h C Primary s ecfg (metadata md) = Ok ()"
  obtain S where S: "\<forall>i<?n. sd_index (S i) = i \<and> ?v (S i)"
    "blob = take (unencoded_length (metadata md)) (concat (map (\<lambda>i. sym_data (sd_symbols (S i))) [0..<?n]))"
    using default_read_sound [OF assms(2,3) _ assms(7)] assms(5) by auto
  obtain T where T: "\<forall>i<?n. sd_index (T i) = i \<and> ?v (T i)"
    "blob' = take (unencoded_length (metadata md)) (concat (map (\<lambda>i. sym_data (sd_symbols (T i))) [0..<?n]))"
    using default_read_sound [OF assms(2,4) _ assms(8)] assms(6) by auto
  show ?thesis
  proof (cases "\<forall>i<?n. S i = T i")
    case True
    then have "map (\<lambda>i. sym_data (sd_symbols (S i))) [0..<?n] = map (\<lambda>i. sym_data (sd_symbols (T i))) [0..<?n]" by simp
    then show ?thesis unfolding S(2) T(2) by (intro disjI1) (simp only:)
  next
    case False
    then obtain i where i: "i < ?n" "S i \<noteq> T i" by blast
    then have "hash_broken h (set (build_inputs h (expanded C Primary (reed_solomon ecfg) (T i)))) (set (build_inputs h (expanded C Primary (reed_solomon ecfg) (S i))))"
      using sliver_binding_lemma [OF assms(1,2), of Primary "S i" "T i"] S(1) T(1) by auto
    then show ?thesis using i S(1) T(1) by metis
  qed
qed

theorem default_reads_agree_witness:
  "\<exists>md ss ts. decode_and_verify fold_hash four_codec Primary example_config md ss DefaultCheck = Ok example_blob
    \<and> decode_and_verify fold_hash four_codec Secondary example_config md ts DefaultCheck = Ok example_blob
    \<and> (example_blob = example_blob \<or> (\<exists>s t. sd_index s = sd_index t \<and> s \<noteq> t
      \<and> hash_broken fold_hash (set (build_inputs fold_hash (expanded four_codec Primary example_config t)))
          (set (build_inputs fold_hash (expanded four_codec Primary example_config s)))))"
proof -
  let ?md = "blob_md fold_hash four_codec example_config 4 example_blob"
  let ?ss = "\<lambda>a is. map (blob_sliver four_codec a example_config 4 example_blob) is"
  have cfg: "reed_solomon example_encoding_config = example_config" "n_shards example_config = 4" "ec_n_shards example_encoding_config = 4"
    by (simp_all add: example_encoding_config_def example_config_def)
  note ok = blob_fitsD(2) [OF example_fits, unfolded cfg]
  have rd: "decode_and_verify fold_hash four_codec a example_config ?md (?ss a is) DefaultCheck = Ok example_blob"
    if "\<forall>i\<in>set is. i < 4" "n_source_symbols a example_config \<le> card (set is)" for a "is"
    using read_genuine [OF example_fits example_commute, unfolded cfg, OF blob_slivers_genuine [OF ok]] that cfg(2) by simp
  have v: "\<forall>s\<in>set (?ss a is). sliver_verify fold_hash four_codec a s example_encoding_config (metadata ?md) = Ok ()" if "\<forall>i\<in>set is. i < 4" for a "is"
    using blob_sliver_verified [OF example_fits example_commute, unfolded cfg] that by auto
  have r: "decode_and_verify fold_hash four_codec Primary example_config ?md (?ss Primary [3, 1]) DefaultCheck = Ok example_blob"
    "decode_and_verify fold_hash four_codec Secondary example_config ?md (?ss Secondary [0, 3, 2]) DefaultCheck = Ok example_blob"
    by (rule rd; simp add: example_config_def)+
  have "example_blob = example_blob \<or> (\<exists>s t. sd_index s = sd_index t \<and> s \<noteq> t
    \<and> sliver_verify fold_hash four_codec Primary s example_encoding_config (metadata ?md) = Ok ()
    \<and> sliver_verify fold_hash four_codec Primary t example_encoding_config (metadata ?md) = Ok ()
    \<and> hash_broken fold_hash (set (build_inputs fold_hash (expanded four_codec Primary example_config t)))
        (set (build_inputs fold_hash (expanded four_codec Primary example_config s))))"
    by (rule default_reads_agree [OF digest32_fold_hash blob_md_fits [OF example_fits], unfolded cfg, OF v v _ _ r])
      (simp_all add: example_config_def)
  then show ?thesis using r by blast
qed

subsection \<open>Surplus slivers and the default check\<close>

text \<open>The metadata of a blob in which the hash of the first primary sliver is replaced by that of another blob.\<close>

definition mixed_md :: "hash_fun \<Rightarrow> 'r rs_codec \<Rightarrow> rs_config \<Rightarrow> nat \<Rightarrow> bytes \<Rightarrow> bytes \<Rightarrow> blob_metadata_with_id" where
  "mixed_md h C cfg sz blob blob' = new_verified_from_metadata h
    ((blob_hashes h C cfg sz blob)[0 := (blob_hashes h C cfg sz blob ! 0)\<lparr>primary_hash := primary_hash (blob_hashes h C cfg sz blob' ! 0)\<rparr>])
    rs_encoding_type (length blob)"

lemma mixed_md_simps:
  "unencoded_length (metadata (mixed_md h C cfg sz blob blob')) = length blob"
  "hashes (metadata (mixed_md h C cfg sz blob blob')) =
    (blob_hashes h C cfg sz blob)[0 := (blob_hashes h C cfg sz blob ! 0)\<lparr>primary_hash := primary_hash (blob_hashes h C cfg sz blob' ! 0)\<rparr>]"
  by (simp_all add: mixed_md_def new_verified_from_metadata_def new_verified_unchecked_def blob_metadata_new_def Let_def)

lemma mixed_md_fits: "blob_fits C ecfg sz blob \<Longrightarrow> md_fits C ecfg (metadata (mixed_md h C (reed_solomon ecfg) sz blob blob')) sz"
  using blob_fitsD [of C ecfg sz blob] by (simp add: md_fits_def metadata_symbol_size_def mixed_md_simps)

lemma mixed_md_slivers:
  assumes fits: "blob_fits C ecfg sz blob" and com: "coder_commute C (reed_solomon ecfg) sz" and i: "i < ec_n_shards ecfg"
  shows "0 < i \<Longrightarrow> sliver_verify h C Primary (primary_sliver C (reed_solomon ecfg) sz blob i) ecfg (metadata (mixed_md h C (reed_solomon ecfg) sz blob blob')) = Ok ()"
    "sliver_verify h C Primary (primary_sliver C (reed_solomon ecfg) sz blob' 0) ecfg (metadata (mixed_md h C (reed_solomon ecfg) sz blob blob')) = Ok ()"
proof -
  note D = blob_fitsD [OF fits]
  have n: "i < n_shards (reed_solomon ecfg)" "0 < n_shards (reed_solomon ecfg)" using i D(4) by simp_all
  note sh = blob_sliver_shape [OF D(2) n(1), of Primary blob] blob_sliver_shape [OF D(2) n(2), of Primary blob']
    and ex = expanded_slivers(1) [OF D(2) n(1) com, of blob] expanded_slivers(1) [OF D(2) n(2) com, of blob']
  show "0 < i \<Longrightarrow> sliver_verify h C Primary (primary_sliver C (reed_solomon ecfg) sz blob i) ecfg (metadata (mixed_md h C (reed_solomon ecfg) sz blob blob')) = Ok ()"
    "sliver_verify h C Primary (primary_sliver C (reed_solomon ecfg) sz blob' 0) ecfg (metadata (mixed_md h C (reed_solomon ecfg) sz blob blob')) = Ok ()"
    using sh ex i D(4) unfolding sliver_verify_Ok_iff [OF mixed_md_fits [OF fits]]
    by (simp_all add: get_sliver_hash_def mixed_md_simps blob_hashes_def)
qed

lemma pick_prefix:
  assumes "\<forall>s\<in>set xs. sliver_shape a cfg sz s" "distinct (map sd_index xs)" "sd_index ` set xs \<inter> set seen = {}"
  shows "pick a cfg sz (length xs) seen (xs @ ys) = xs" "pull a cfg sz (length xs) seen (xs @ ys) = xs @ take 1 ys"
proof -
  show "pick a cfg sz (length xs) seen (xs @ ys) = xs" using assms
  proof (induction xs arbitrary: seen)
    case Nil
    then show ?case by (cases ys) simp_all
  qed auto
  show "pull a cfg sz (length xs) seen (xs @ ys) = xs @ take 1 ys" using assms
  proof (induction xs arbitrary: seen)
    case Nil
    then show ?case by (cases ys) simp_all
  qed auto
qed

text \<open>A read from \<open>k\<close> slivers of a blob, with one more sliver behind them.\<close>

lemma default_read_surplus:
  assumes fits: "blob_fits C ecfg sz blob" and idx: "set is \<subseteq> {..<ec_n_shards ecfg}" "distinct is" "length is = source_symbols_primary (reed_solomon ecfg)"
    and md: "md_fits C ecfg (metadata md) sz" "unencoded_length (metadata md) = length blob"
    and ver: "\<forall>i < source_symbols_primary (reed_solomon ecfg). i \<in> set is \<or> (\<exists>s\<in>set (take 1 ys). sd_index s = i)
      \<or> sliver_verify h C Primary (primary_sliver C (reed_solomon ecfg) sz blob i) ecfg (metadata md) = Ok ()"
    and ys: "whole_symbols ys"
  shows "decode_and_verify h C Primary (reed_solomon ecfg) md (map (primary_sliver C (reed_solomon ecfg) sz blob) is @ ys) DefaultCheck = Ok blob"
proof -
  let ?cfg = "reed_solomon ecfg" and ?n = "source_symbols_primary (reed_solomon ecfg)" and ?xs = "map (primary_sliver C (reed_solomon ecfg) sz blob) is"
  note D = blob_fitsD [OF fits]
  have n: "i < n_shards ?cfg" if "i \<in> set is" for i using that idx(1) D(4) by auto
  have sh: "sliver_shape Primary ?cfg sz (primary_sliver C ?cfg sz blob i) \<and> sd_index (primary_sliver C ?cfg sz blob i) = i" if "i \<in> set is" for i
    using blob_sliver_shape [OF D(2) n [OF that], of Primary blob] by simp
  have "map sd_index ?xs = is" using sh by (simp add: map_idI)
  then have "pick Primary ?cfg sz (length ?xs) [] (?xs @ ys) = ?xs" "pull Primary ?cfg sz (length ?xs) [] (?xs @ ys) = ?xs @ take 1 ys"
    using pick_prefix [of ?xs Primary ?cfg sz "[]" ys] sh idx(2) by auto
  then have p: "pick Primary ?cfg sz ?n [] (?xs @ ys) = ?xs" "pull Primary ?cfg sz ?n [] (?xs @ ys) = ?xs @ take 1 ys" using idx(3) by simp_all
  have "\<forall>i\<in>set is. symbols_ok (sd_symbols (primary_sliver C ?cfg sz blob i))" using sh sliver_shape_ok [OF _ D(5)] by blast
  then have "whole_symbols (?xs @ ys)" using ys by (auto simp: whole_symbols_def)
  then have "genuine C Primary ?cfg sz blob (?xs @ ys)" using p(1) n idx(3) by (auto simp: genuine_def)
  then obtain dec where dec: "get_blob_decoder C Primary ?cfg (length blob) = Ok dec" "decode_pulling C Primary dec (?xs @ ys) = Ok (blob, ?xs @ take 1 ys)"
    using decode_genuine [OF fits] p(2) by fastforce
  have "default_consistency_check h C (mk_encoder ?cfg sz (Borrowed blob)) md (Some (mark_verified ?n (?xs @ take 1 ys))) = Ok ()"
    using ver sh primary_sliver_systematic [OF D(2), of _ blob]
    by (subst default_check_eq [OF md(1)]) (auto simp: mark_verified_eq image_iff)
  then show ?thesis
    using dec md(2) by (subst decode_and_verify_eq) (auto simp: get_blob_encoder_eq [OF fits] n_systematic_slivers_def)
qed

lemma src_row_tail:
  assumes "drop (source_symbols_secondary cfg * sz) blob = drop (source_symbols_secondary cfg * sz) blob'" "0 < i"
  shows "src_row cfg sz blob i = src_row cfg sz blob' i"
proof -
  have "drop (sz * (source_symbols_secondary cfg * i + j)) b = drop (sz * (source_symbols_secondary cfg * (i - 1) + j)) (drop (source_symbols_secondary cfg * sz) b)"
    for j and b :: bytes
  proof -
    have "sz * (source_symbols_secondary cfg * i + j) = sz * (source_symbols_secondary cfg * (i - 1) + j) + source_symbols_secondary cfg * sz"
      using assms(2) by (cases i) (simp_all add: algebra_simps)
    then show ?thesis by simp
  qed
  then have "drop (sz * (source_symbols_secondary cfg * i + j)) blob = drop (sz * (source_symbols_secondary cfg * i + j)) blob'" for j
    using assms(1) by (metis (no_types))
  then show ?thesis by (simp add: src_row_def src_def)
qed

text \<open>C19: The agreement needs its restriction on surplus slivers: for two different blobs that differ in the first row only, there are
  metadata that pass verification, and two lists of slivers that are all verified against them, such that reading with the default
  check returns the one blob from the first list and the other blob from the second. (A surplus sliver that the decoder drops is
  still marked as verified, so that the row decoded at its index is not checked.)\<close>

theorem default_check_bypassed:
  assumes "blob_fits C ecfg sz blob" "blob_fits C ecfg sz blob'" "coder_commute C (reed_solomon ecfg) sz" "length blob = length blob'"
    and "2 * n_source_symbols Primary (reed_solomon ecfg) \<le> ec_n_shards ecfg"
    and "drop (n_source_symbols Secondary (reed_solomon ecfg) * sz) blob = drop (n_source_symbols Secondary (reed_solomon ecfg) * sz) blob'"
  shows "\<exists>md ss ts. metadata_verify h (into_unverified md) ecfg = Ok md
    \<and> list_all (\<lambda>s. sliver_verify h C Primary s ecfg (metadata md) = Ok ()) (ss @ ts)
    \<and> decode_and_verify h C Primary (reed_solomon ecfg) md ss DefaultCheck = Ok blob
    \<and> decode_and_verify h C Primary (reed_solomon ecfg) md ts DefaultCheck = Ok blob'"
proof -
  let ?cfg = "reed_solomon ecfg" and ?n = "source_symbols_primary (reed_solomon ecfg)" and ?md = "mixed_md h C (reed_solomon ecfg) sz blob blob'"
  let ?p = "primary_sliver C ?cfg sz blob" and ?q = "primary_sliver C ?cfg sz blob'"
  let ?ss = "map ?p [?n..<2 * ?n] @ [?q 0]" and ?ts = "map ?q [0..<?n] @ []"
  note D = blob_fitsD [OF assms(1)] and fit = mixed_md_fits [OF assms(1), of h blob'] and ver = mixed_md_slivers [OF assms(1,3), of _ h blob']
  have n: "0 < ?n" "2 * ?n \<le> ec_n_shards ecfg" using coder_ok_axis(1) [OF D(2), of Primary] assms(5) by simp_all
  have tail: "?q i = ?p i" if "0 < i" "i < ?n" for i
    using src_row_tail [OF assms(6) [simplified] that(1)] primary_sliver_systematic [OF D(2) that(2)] by simp
  have q0: "sd_index (?q 0) = 0" "sliver_shape Primary ?cfg sz (?q 0)" using blob_sliver_shape [OF D(2), of 0 Primary blob'] n D(4) by simp_all
  have "length blob \<le> max_blob_size ?cfg"
    using symbol_size_for_blob_Ok_iff [of "ec_n_shards ecfg" ?cfg "length blob"] D(1,3) by (auto simp: encoding_config_ok_def)
  then have md: "metadata_verify h (into_unverified ?md) ecfg = Ok ?md"
    unfolding mixed_md_def by (intro new_verified_verifies) (simp_all add: D(4))
  have v: "sliver_verify h C Primary (?p i) ecfg (metadata ?md) = Ok ()" if "0 < i" "i < ec_n_shards ecfg" for i using ver(1) that by simp
  have v0: "sliver_verify h C Primary (?q 0) ecfg (metadata ?md) = Ok ()" using ver(2) [of 0] n by simp
  have all: "list_all (\<lambda>s. sliver_verify h C Primary s ecfg (metadata ?md) = Ok ()) (?ss @ ?ts)"
  proof -
    have "sliver_verify h C Primary (?q i) ecfg (metadata ?md) = Ok ()" if "i < ?n" for i
      using v [of i] v0 tail [of i] that n by (cases "i = 0") simp_all
    moreover have "sliver_verify h C Primary (?p i) ecfg (metadata ?md) = Ok ()" if "?n \<le> i" "i < 2 * ?n" for i using v [of i] that n by simp
    ultimately show ?thesis using v0 by (auto simp: list_all_iff)
  qed
  have r1: "decode_and_verify h C Primary ?cfg ?md ?ss DefaultCheck = Ok blob"
  proof (rule default_read_surplus [OF assms(1) _ _ _ fit])
    have "i = 0 \<or> sliver_verify h C Primary (?p i) ecfg (metadata ?md) = Ok ()" if "i < ?n" for i
      using v [of i] that n by (cases "i = 0") simp_all
    then show "\<forall>i<?n. i \<in> set [?n..<2 * ?n] \<or> (\<exists>s\<in>set (take 1 [?q 0]). sd_index s = i) \<or> sliver_verify h C Primary (?p i) ecfg (metadata ?md) = Ok ()"
      using q0(1) by auto
  qed (use n sliver_shape_ok [OF q0(2) D(5)] in \<open>simp_all add: mixed_md_simps whole_symbols_def atLeastLessThan_subset_iff lessThan_atLeast0\<close>)
  have r2: "decode_and_verify h C Primary ?cfg ?md ?ts DefaultCheck = Ok blob'"
    by (rule default_read_surplus [OF assms(2) _ _ _ fit]) (use n assms(4) in \<open>simp_all add: mixed_md_simps whole_symbols_def lessThan_atLeast0\<close>)
  show ?thesis using md all r1 r2 by blast
qed

definition other_blob :: bytes where
  "other_blob = 42 # tl example_blob"

theorem default_check_bypassed_witness:
  "example_blob \<noteq> other_blob \<and> (\<exists>md ss ts. metadata_verify fold_hash (into_unverified md) example_encoding_config = Ok md
    \<and> decode_and_verify fold_hash four_codec Primary example_config md ss DefaultCheck = Ok example_blob
    \<and> decode_and_verify fold_hash four_codec Primary example_config md ts DefaultCheck = Ok other_blob)"
proof -
  have cfg: "reed_solomon example_encoding_config = example_config" "ec_n_shards example_encoding_config = 4"
    "n_source_symbols Primary example_config = 2" "n_source_symbols Secondary example_config = 3"
    by (simp_all add: example_encoding_config_def example_config_def)
  have eq: "example_blob \<noteq> other_blob" "length other_blob = length example_blob" "drop 12 example_blob = drop 12 other_blob"
    by (simp_all add: other_blob_def example_blob_def)
  have "blob_fits four_codec example_encoding_config 4 other_blob" using example_fits eq(2) by (simp add: blob_fits_def)
  from default_check_bypassed [OF example_fits this example_commute, of fold_hash] eq show ?thesis unfolding cfg by auto
qed

subsection \<open>The strict check\<close>

lemma equal_slivers_equal_blobs:
  assumes fits: "blob_fits C ecfg sz blob" "blob_fits C ecfg sz blob'" and len: "length blob = length blob'"
    and eq: "\<And>i. i < source_symbols_primary (reed_solomon ecfg) \<Longrightarrow> primary_sliver C (reed_solomon ecfg) sz blob i = primary_sliver C (reed_solomon ecfg) sz blob' i"
  shows "blob = blob'"
proof -
  let ?cfg = "reed_solomon ecfg"
  note D = blob_fitsD [OF fits(1)] and D' = blob_fitsD [OF fits(2)]
  have "src_row ?cfg sz blob r = src_row ?cfg sz blob' r" if r: "r < source_symbols_primary ?cfg" for r
  proof -
    have "sliver_symbols (mk_sliver sz (src_row ?cfg sz blob r) r) = sliver_symbols (mk_sliver sz (src_row ?cfg sz blob' r) r)"
      using eq [OF r] primary_sliver_systematic [OF D(2) r, of blob] primary_sliver_systematic [OF D(2) r, of blob'] by simp
    then show ?thesis by (simp only: sliver_symbols_mk [OF src_row_simps(2) [OF D(5)]])
  qed
  then have "src ?cfg sz blob r c = src ?cfg sz blob' r c" if "r < source_symbols_primary ?cfg" "c < source_symbols_secondary ?cfg" for r c
    using that by (metis src_row_simps(3))
  then have "flat (source_symbols_primary ?cfg) (source_symbols_secondary ?cfg) (src ?cfg sz blob)
      = flat (source_symbols_primary ?cfg) (source_symbols_secondary ?cfg) (src ?cfg sz blob')" by (rule flat_cong)
  from arg_cong [OF this, of concat] show ?thesis using concat_src_matrix [OF D(6)] concat_src_matrix [OF D'(6)] len by metis
qed

lemma blob_hash_Digest:
  assumes "digest32 h" "coder_ok C cfg sz" "p \<in> set (blob_hashes h C cfg sz blob)"
  shows "pair_metadata_ok p" "\<exists>d. primary_hash p = Digest d"
proof -
  obtain i where i: "i < n_shards cfg" "primary_hash p = root (build h (map (msg C cfg sz blob i) [0..<n_shards cfg]))"
    "secondary_hash p = root (build h (col_code C cfg sz blob (n_shards cfg - 1 - i)))"
    using assms(3) by (auto simp: blob_hashes_def)
  have "length (col_code C cfg sz blob (n_shards cfg - 1 - i)) = n_shards cfg" by (rule msg_shape(1) [OF assms(2)]) (use i in simp)
  then have "map (msg C cfg sz blob i) [0..<n_shards cfg] \<noteq> []" "col_code C cfg sz blob (n_shards cfg - 1 - i) \<noteq> []" using i(1) by auto
  then obtain d e where "primary_hash p = Digest (h d)" "secondary_hash p = Digest (h e)"
    using root_build_Digest [of _ h] i(2,3) by metis
  then show "pair_metadata_ok p" "\<exists>d. primary_hash p = Digest d" using assms(1) by (simp_all add: pair_metadata_ok_def)
qed

text \<open>Blobs of one length with one blob id are the same, up to the inputs of the hash function.\<close>

lemma equal_ids_equal_blobs:
  assumes h: "digest32 h" and fits: "blob_fits C ecfg sz blob" "blob_fits C ecfg sz blob'" and len: "length blob = length blob'"
    and com: "coder_commute C (reed_solomon ecfg) sz"
    and eq: "blob_id (blob_md h C (reed_solomon ecfg) sz blob) = blob_id (blob_md h C (reed_solomon ecfg) sz blob')"
  shows "blob = blob'
    \<or> hash_broken h (set (metadata_inputs h (metadata (blob_md h C (reed_solomon ecfg) sz blob')))) (set (metadata_inputs h (metadata (blob_md h C (reed_solomon ecfg) sz blob))))
    \<or> (\<exists>i<n_shards (reed_solomon ecfg). hash_broken h (set (build_inputs h (expanded C Primary (reed_solomon ecfg) (primary_sliver C (reed_solomon ecfg) sz blob' i))))
        (set (build_inputs h (expanded C Primary (reed_solomon ecfg) (primary_sliver C (reed_solomon ecfg) sz blob i)))))"
    (is "_ \<or> ?broken \<or> ?sl")
proof -
  let ?cfg = "reed_solomon ecfg" and ?m = "\<lambda>b. metadata (blob_md h C (reed_solomon ecfg) sz b)"
  note D = blob_fitsD [OF fits(1)] and D' = blob_fitsD [OF fits(2)]
  have n: "0 < n_shards ?cfg" "n_shards ?cfg \<le> U16_MAX" using D(4) encoding_config_okD [OF D(1)] by simp_all
  have hs: "hashes (?m b) = blob_hashes h C ?cfg sz b" "length (blob_hashes h C ?cfg sz b) = n_shards ?cfg" for b by (simp_all add: blob_hashes_def)
  have ok: "metadata_ok (?m blob)" "metadata_ok (?m blob')"
    using blob_hash_Digest(1) [OF h D(2)] D(7) D'(7) by (simp_all add: metadata_ok_def)
  have bid: "blob_id_from_sliver_pair_metadata h (?m blob) = blob_id_from_sliver_pair_metadata h (?m blob')"
    using eq by (simp add: blob_md_def new_verified_from_metadata_def new_verified_unchecked_def Let_def)
  show ?thesis
  proof (cases ?broken)
    case False
    then have nb: "node_bytes (pair_metadata_hash a (hashes (?m blob) ! i)) = node_bytes (pair_metadata_hash a (hashes (?m blob') ! i))"
      if "i < n_shards ?cfg" for a i
    proof -
      have "length (hashes (?m blob)) = length (hashes (?m blob'))" "hashes (?m blob) \<noteq> []" "length (hashes (?m blob)) \<le> U16_MAX"
        using n hs(2) [of blob] hs(2) [of blob'] by (auto simp del: length_0_conv simp add: hs(1) length_greater_0_conv [symmetric])
      from blob_id_binds [OF h ok this bid] False that show ?thesis by (simp add: hs)
    qed
    have ph: "primary_hash (hashes (?m blob) ! i) = primary_hash (hashes (?m blob') ! i)" if i: "i < n_shards ?cfg" for i
    proof -
      obtain d where d: "primary_hash (hashes (?m blob) ! i) = Digest d" using blob_hash_Digest(2) [OF h D(2)] i hs by (metis nth_mem)
      obtain e where e: "primary_hash (hashes (?m blob') ! i) = Digest e" using blob_hash_Digest(2) [OF h D(2)] i hs by (metis nth_mem)
      show ?thesis using nb [OF i, of Primary] d e by simp
    qed
    have ver: "sliver_verify h C Primary (primary_sliver C ?cfg sz b i) ecfg (?m blob) = Ok ()" if i: "i < n_shards ?cfg" and b: "b = blob \<or> b = blob'" for i b
    proof -
      note sh = blob_sliver_shape [OF D(2) i, of Primary b]
      have "get_sliver_hash (?m blob) i Primary = Some (root (build h (map (msg C ?cfg sz b i) [0..<n_shards ?cfg])))"
        using ph [OF i] i b hs by (auto simp: get_sliver_hash_def blob_hashes_def)
      then show ?thesis using sh i D(4) expanded_slivers(1) [OF D(2) i com, of b] unfolding sliver_verify_Ok_iff [OF blob_md_fits [OF fits(1)]] by simp
    qed
    have bind: "primary_sliver C ?cfg sz blob i = primary_sliver C ?cfg sz blob' i
      \<or> hash_broken h (set (build_inputs h (expanded C Primary ?cfg (primary_sliver C ?cfg sz blob' i))))
        (set (build_inputs h (expanded C Primary ?cfg (primary_sliver C ?cfg sz blob i))))" if i: "i < n_shards ?cfg" for i
      by (rule sliver_binding_lemma [OF h blob_md_fits [OF fits(1)] ver [OF i] ver [OF i]])
        (use blob_sliver_shape [OF D(2) i, of Primary blob] blob_sliver_shape [OF D(2) i, of Primary blob'] in simp_all)
    have "source_symbols_primary ?cfg \<le> n_shards ?cfg" using coder_ok_axis(2) [OF D(2), of Primary] by simp
    then show ?thesis using bind equal_slivers_equal_blobs [OF fits len] by (meson order_less_le_trans)
  qed simp
qed

text \<open>C17: A read with the strict check returns only a blob of the length that the metadata have, whose own metadata have the blob id. So two
  strict reads against the same metadata, from any slivers with an index in range, verified or not, along any axis and with any
  surplus, return the same blob, unless the inputs of the metadata or of the slivers of the two blobs break the hash function.\<close>

theorem strict_reads_agree:
  assumes "digest32 h" "md_fits C ecfg (metadata md) sz" "coder_commute C (reed_solomon ecfg) sz"
    and "list_all (\<lambda>s. symbols_ok (sd_symbols s) \<and> sd_index s < n_shards (reed_solomon ecfg)) (ss @ ts)"
    and "decode_and_verify h C a (reed_solomon ecfg) md ss StrictCheck = Ok blob" "decode_and_verify h C b (reed_solomon ecfg) md ts StrictCheck = Ok blob'"
  shows "length blob = unencoded_length (metadata md) \<and> compute_blob_id h C (reed_solomon ecfg) blob = Ok (blob_id md)
    \<and> (blob = blob' \<or> (\<exists>m m'. config_compute_metadata h C (reed_solomon ecfg) blob = Ok m \<and> config_compute_metadata h C (reed_solomon ecfg) blob' = Ok m'
          \<and> hash_broken h (set (metadata_inputs h (metadata m'))) (set (metadata_inputs h (metadata m))))
      \<or> (\<exists>i<n_shards (reed_solomon ecfg). hash_broken h (set (build_inputs h (expanded C Primary (reed_solomon ecfg) (primary_sliver C (reed_solomon ecfg) sz blob' i))))
          (set (build_inputs h (expanded C Primary (reed_solomon ecfg) (primary_sliver C (reed_solomon ecfg) sz blob i))))))"
proof -
  let ?cfg = "reed_solomon ecfg"
  have read: "blob_fits C ecfg sz x \<and> length x = unencoded_length (metadata md) \<and> blob_id (blob_md h C ?cfg sz x) = blob_id md"
    if r: "decode_and_verify h C c ?cfg md us StrictCheck = Ok x" and us: "list_all (\<lambda>s. symbols_ok (sd_symbols s) \<and> sd_index s < n_shards ?cfg) us" for c us x
  proof -
    obtain dec pulled where d: "get_blob_decoder C c ?cfg (unencoded_length (metadata md)) = Ok dec" "decode_pulling C c dec us = Ok (x, pulled)"
      using decode_and_verify_OkD [OF r] by blast
    have len: "length x = unencoded_length (metadata md)" and fit: "blob_fits C ecfg sz x"
      using decode_in_range [OF assms(2) _ _ d] us by (auto simp: whole_symbols_def list_all_iff)
    show ?thesis using r len fit config_encode_eq(2) [OF fit, of h]
      by (auto simp: decode_and_verify_def strict_consistency_check_def and_then_eq_Ok ensure_def split: if_splits)
  qed
  have x: "blob_fits C ecfg sz blob" "length blob = unencoded_length (metadata md)" "blob_id (blob_md h C ?cfg sz blob) = blob_id md"
    using read [OF assms(5)] assms(4) by simp_all
  have y: "blob_fits C ecfg sz blob'" "length blob' = unencoded_length (metadata md)" "blob_id (blob_md h C ?cfg sz blob') = blob_id md"
    using read [OF assms(6)] assms(4) by simp_all
  note cm = config_encode_eq(2) [OF x(1), of h] config_encode_eq(2) [OF y(1), of h]
  have "compute_blob_id h C ?cfg blob = Ok (blob_id md)" using cm(1) x(3) by (simp add: compute_blob_id_def)
  then show ?thesis using equal_ids_equal_blobs [OF assms(1) x(1) y(1) _ assms(3)] x y cm by auto
qed

theorem strict_reads_agree_witness:
  "\<exists>md ss ts. decode_and_verify fold_hash four_codec Primary example_config md ss StrictCheck = Ok example_blob
    \<and> decode_and_verify fold_hash four_codec Secondary example_config md ts StrictCheck = Ok example_blob
    \<and> compute_blob_id fold_hash four_codec example_config example_blob = Ok (blob_id md)"
proof -
  let ?md = "blob_md fold_hash four_codec example_config 4 example_blob"
  let ?ss = "\<lambda>a is. map (blob_sliver four_codec a example_config 4 example_blob) is"
  have cfg: "reed_solomon example_encoding_config = example_config" "n_shards example_config = 4" "ec_n_shards example_encoding_config = 4"
    by (simp_all add: example_encoding_config_def example_config_def)
  note ok = blob_fitsD(2) [OF example_fits, unfolded cfg]
  have rd: "decode_and_verify fold_hash four_codec a example_config ?md (?ss a is) StrictCheck = Ok example_blob"
    if "\<forall>i\<in>set is. i < 4" "n_source_symbols a example_config \<le> card (set is)" for a "is"
    using read_genuine [OF example_fits example_commute, unfolded cfg, OF blob_slivers_genuine [OF ok]] that cfg(2) by simp
  have r: "decode_and_verify fold_hash four_codec Primary example_config ?md (?ss Primary [3, 1]) StrictCheck = Ok example_blob"
    "decode_and_verify fold_hash four_codec Secondary example_config ?md (?ss Secondary [0, 3, 2]) StrictCheck = Ok example_blob"
    by (rule rd; simp add: example_config_def)+
  have sh: "sliver_shape a example_config 4 s \<and> sd_index s < 4" if "s = blob_sliver four_codec a example_config 4 example_blob i" "i < 4" for s a i
    using blob_sliver_shape [OF ok, of i a example_blob] that cfg(2) by simp
  then have "symbols_ok (sd_symbols (blob_sliver four_codec a example_config 4 example_blob i)) \<and> sd_index (blob_sliver four_codec a example_config 4 example_blob i) < 4"
    if "i < 4" for a i using sliver_shape_ok that by (metis zero_less_numeral)
  from this [of _ Primary] this [of _ Secondary]
  have "list_all (\<lambda>s. symbols_ok (sd_symbols s) \<and> sd_index s < 4) (?ss Primary [3, 1] @ ?ss Secondary [0, 3, 2])"
    by simp
  from strict_reads_agree [OF digest32_fold_hash blob_md_fits [OF example_fits, of fold_hash] example_commute, unfolded cfg, OF this r] r
  show ?thesis by blast
qed

end
