(* ===== verification/BlobEvents.thy ===== *)
theory BlobEvents
  imports CoreTypes
begin

text \<open>
  The events of the contracts that change the status of blobs, \<open>crates/walrus-sui/src/types/events.rs\<close>, and what a storage node
  derives from them, the first part of \<open>crates/walrus-service/src/node/storage/blob_info.rs\<close>: the kind and the data of a status
  change, and the merge operands of the tables of blob information. Epochs are \<open>u32\<close>. The ID of a Sui event is opaque: it is
  stored and compared, and its type is defined outside the repository.
\<close>

type_synonym epoch = nat
type_synonym object_id = bytes
typedecl event_id

subsection \<open>Events\<close>

record blob_registered =
  br_epoch :: epoch
  br_blob_id :: blob_id
  br_size :: nat
  br_encoding_type :: encoding_type
  br_end_epoch :: epoch
  br_deletable :: bool
  br_object_id :: object_id
  br_event_id :: event_id

record blob_certified =
  bc_epoch :: epoch
  bc_blob_id :: blob_id
  bc_end_epoch :: epoch
  bc_deletable :: bool
  bc_object_id :: object_id
  bc_is_extension :: bool
  bc_event_id :: event_id

record blob_deleted =
  bdel_epoch :: epoch
  bdel_blob_id :: blob_id
  bdel_end_epoch :: epoch
  bdel_object_id :: object_id
  bdel_was_certified :: bool
  bdel_event_id :: event_id

record invalid_blob_id =
  ib_epoch :: epoch
  ib_blob_id :: blob_id
  ib_event_id :: event_id

record deny_list_blob_deleted =
  dl_epoch :: epoch
  dl_blob_id :: blob_id
  dl_event_id :: event_id

record pooled_blob_registered =
  pr_epoch :: epoch
  pr_blob_id :: blob_id
  pr_unencoded_size :: nat
  pr_encoding_type :: encoding_type
  pr_deletable :: bool
  pr_object_id :: object_id
  pr_storage_pool_id :: object_id
  pr_event_id :: event_id

record pooled_blob_certified =
  pc_epoch :: epoch
  pc_blob_id :: blob_id
  pc_deletable :: bool
  pc_object_id :: object_id
  pc_storage_pool_id :: object_id
  pc_event_id :: event_id

record pooled_blob_deleted =
  pd_epoch :: epoch
  pd_blob_id :: blob_id
  pd_object_id :: object_id
  pd_was_certified :: bool
  pd_storage_pool_id :: object_id
  pd_event_id :: event_id

record storage_pool_created_event =
  spc_epoch :: epoch
  spc_storage_pool_id :: object_id
  spc_reserved_encoded_capacity_bytes :: nat
  spc_start_epoch :: epoch
  spc_end_epoch :: epoch
  spc_event_id :: event_id

record storage_pool_extended_event =
  spe_epoch :: epoch
  spe_storage_pool_id :: object_id
  spe_new_end_epoch :: epoch
  spe_event_id :: event_id

datatype blob_event =
  Registered blob_registered
| Certified blob_certified
| Deleted blob_deleted
| InvalidBlobID invalid_blob_id
| DenyListBlobDeleted deny_list_blob_deleted
| PooledBlobRegistered pooled_blob_registered
| PooledBlobCertified pooled_blob_certified
| PooledBlobDeleted pooled_blob_deleted

fun event_blob_id :: "blob_event \<Rightarrow> blob_id" where
  "event_blob_id (Registered e) = br_blob_id e"
| "event_blob_id (Certified e) = bc_blob_id e"
| "event_blob_id (Deleted e) = bdel_blob_id e"
| "event_blob_id (InvalidBlobID e) = ib_blob_id e"
| "event_blob_id (DenyListBlobDeleted e) = dl_blob_id e"
| "event_blob_id (PooledBlobRegistered e) = pr_blob_id e"
| "event_blob_id (PooledBlobCertified e) = pc_blob_id e"
| "event_blob_id (PooledBlobDeleted e) = pd_blob_id e"

datatype storage_pool_event =
  StoragePoolCreated storage_pool_created_event
| StoragePoolExtended storage_pool_extended_event

fun pool_event_storage_pool_id :: "storage_pool_event \<Rightarrow> object_id" where
  "pool_event_storage_pool_id (StoragePoolCreated e) = spc_storage_pool_id e"
| "pool_event_storage_pool_id (StoragePoolExtended e) = spe_storage_pool_id e"

subsection \<open>Status changes\<close>

record blob_status_change_info =
  ci_blob_id :: blob_id
  ci_deletable :: bool
  ci_epoch :: epoch
  ci_end_epoch :: epoch
  ci_status_event :: event_id

datatype blob_status_change_type = Register | Certify | Extend | Delete bool

record pooled_blob_change_info =
  pci_blob_id :: blob_id
  pci_epoch :: epoch
  pci_storage_pool_id :: object_id
  pci_status_event :: event_id

datatype blob_info_merge_operand =
  MarkMetadataStored bool
| MarkInvalid epoch event_id
| ChangeStatus blob_status_change_type blob_status_change_info
| DeletableExpired bool
| PermanentExpired bool
| PooledBlobChangeStatus blob_status_change_type pooled_blob_change_info
| PoolExpired object_id bool

definition registered_change_type :: "blob_registered \<Rightarrow> blob_status_change_type" where
  "registered_change_type e = Register"

definition registered_change_info :: "blob_registered \<Rightarrow> blob_status_change_info" where
  "registered_change_info e = \<lparr>ci_blob_id = br_blob_id e, ci_deletable = br_deletable e, ci_epoch = br_epoch e,
    ci_end_epoch = br_end_epoch e, ci_status_event = br_event_id e\<rparr>"

definition certified_change_type :: "blob_certified \<Rightarrow> blob_status_change_type" where
  "certified_change_type e = (if bc_is_extension e then Extend else Certify)"

definition certified_change_info :: "blob_certified \<Rightarrow> blob_status_change_info" where
  "certified_change_info e = \<lparr>ci_blob_id = bc_blob_id e, ci_deletable = bc_deletable e, ci_epoch = bc_epoch e,
    ci_end_epoch = bc_end_epoch e, ci_status_event = bc_event_id e\<rparr>"

definition deleted_change_type :: "blob_deleted \<Rightarrow> blob_status_change_type" where
  "deleted_change_type e = Delete (bdel_was_certified e)"

definition deleted_change_info :: "blob_deleted \<Rightarrow> blob_status_change_info" where
  "deleted_change_info e = \<lparr>ci_blob_id = bdel_blob_id e, ci_deletable = True, ci_epoch = bdel_epoch e,
    ci_end_epoch = bdel_end_epoch e, ci_status_event = bdel_event_id e\<rparr>"

definition pooled_registered_change_type :: "pooled_blob_registered \<Rightarrow> blob_status_change_type" where
  "pooled_registered_change_type e = Register"

definition pooled_registered_change_info :: "pooled_blob_registered \<Rightarrow> pooled_blob_change_info" where
  "pooled_registered_change_info e = \<lparr>pci_blob_id = pr_blob_id e, pci_epoch = pr_epoch e,
    pci_storage_pool_id = pr_storage_pool_id e, pci_status_event = pr_event_id e\<rparr>"

definition pooled_certified_change_type :: "pooled_blob_certified \<Rightarrow> blob_status_change_type" where
  "pooled_certified_change_type e = Certify"

definition pooled_certified_change_info :: "pooled_blob_certified \<Rightarrow> pooled_blob_change_info" where
  "pooled_certified_change_info e = \<lparr>pci_blob_id = pc_blob_id e, pci_epoch = pc_epoch e,
    pci_storage_pool_id = pc_storage_pool_id e, pci_status_event = pc_event_id e\<rparr>"

definition pooled_deleted_change_type :: "pooled_blob_deleted \<Rightarrow> blob_status_change_type" where
  "pooled_deleted_change_type e = Delete (pd_was_certified e)"

definition pooled_deleted_change_info :: "pooled_blob_deleted \<Rightarrow> pooled_blob_change_info" where
  "pooled_deleted_change_info e = \<lparr>pci_blob_id = pd_blob_id e, pci_epoch = pd_epoch e,
    pci_storage_pool_id = pd_storage_pool_id e, pci_status_event = pd_event_id e\<rparr>"

definition invalid_blob_id_merge_operand :: "invalid_blob_id \<Rightarrow> blob_info_merge_operand" where
  "invalid_blob_id_merge_operand e = MarkInvalid (ib_epoch e) (ib_event_id e)"

text \<open>The conversion of an event; the handling of \<open>DenyListBlobDeleted\<close> is a \<open>todo!\<close> in the code.\<close>

fun blob_event_merge_operand :: "blob_event \<Rightarrow> (blob_info_merge_operand, 'e) result" where
  "blob_event_merge_operand (Registered e) = Ok (ChangeStatus (registered_change_type e) (registered_change_info e))"
| "blob_event_merge_operand (Certified e) = Ok (ChangeStatus (certified_change_type e) (certified_change_info e))"
| "blob_event_merge_operand (Deleted e) = Ok (ChangeStatus (deleted_change_type e) (deleted_change_info e))"
| "blob_event_merge_operand (InvalidBlobID e) = Ok (invalid_blob_id_merge_operand e)"
| "blob_event_merge_operand (DenyListBlobDeleted e) = Panic"
| "blob_event_merge_operand (PooledBlobRegistered e) = Ok (PooledBlobChangeStatus (pooled_registered_change_type e) (pooled_registered_change_info e))"
| "blob_event_merge_operand (PooledBlobCertified e) = Ok (PooledBlobChangeStatus (pooled_certified_change_type e) (pooled_certified_change_info e))"
| "blob_event_merge_operand (PooledBlobDeleted e) = Ok (PooledBlobChangeStatus (pooled_deleted_change_type e) (pooled_deleted_change_info e))"

lemmas change_simps [simp] =
  registered_change_type_def registered_change_info_def certified_change_type_def certified_change_info_def
  deleted_change_type_def deleted_change_info_def pooled_registered_change_type_def pooled_registered_change_info_def
  pooled_certified_change_type_def pooled_certified_change_info_def pooled_deleted_change_type_def pooled_deleted_change_info_def
  invalid_blob_id_merge_operand_def

subsection \<open>The public status of a blob\<close>

record deletable_counts =
  dc_total :: nat
  dc_certified :: nat

datatype blob_status =
  Nonexistent
| InvalidStatus event_id
| PermanentStatus epoch bool event_id deletable_counts "epoch option"
| DeletableStatus "epoch option" deletable_counts

fun status_is_registered :: "blob_status \<Rightarrow> bool" where
  "status_is_registered (DeletableStatus e counts) = True"
| "status_is_registered (PermanentStatus end_epoch is_certified ev counts e) = True"
| "status_is_registered _ = False"

subsection \<open>The order of statuses\<close>

text \<open>Rust's total comparisons and the lexicographic comparison of tuples. An absent option is less than a present one, and \<open>Reverse\<close>
  swaps the arguments.\<close>

datatype ordering = Less | Equal | Greater

definition cmp :: "'a :: linorder \<Rightarrow> 'a \<Rightarrow> ordering" where
  "cmp x y = (if x < y then Less else if x = y then Equal else Greater)"

fun then_cmp :: "ordering \<Rightarrow> ordering \<Rightarrow> ordering" where
  "then_cmp Equal r = r"
| "then_cmp Less r = Less"
| "then_cmp Greater r = Greater"

fun cmp_option :: "'a :: linorder option \<Rightarrow> 'a option \<Rightarrow> ordering" where
  "cmp_option None None = Equal"
| "cmp_option None (Some y) = Less"
| "cmp_option (Some x) None = Greater"
| "cmp_option (Some x) (Some y) = cmp x y"

definition deletable_counts_cmp :: "deletable_counts \<Rightarrow> deletable_counts \<Rightarrow> ordering" where
  "deletable_counts_cmp self other = then_cmp (cmp (dc_certified self) (dc_certified other)) (cmp (dc_total self) (dc_total other))"

definition blob_status_cmp :: "blob_status \<Rightarrow> blob_status \<Rightarrow> ordering" where
  "blob_status_cmp self other =
    (if self = other then Equal
     else (case (self, other) of
       (Nonexistent, _) \<Rightarrow> Less
     | (_, Nonexistent) \<Rightarrow> Greater
     | (InvalidStatus _, InvalidStatus _) \<Rightarrow> Equal
     | (InvalidStatus _, _) \<Rightarrow> Greater
     | (_, InvalidStatus _) \<Rightarrow> Less
     | (PermanentStatus _ _ _ _ _, DeletableStatus _ _) \<Rightarrow> Greater
     | (DeletableStatus _ _, PermanentStatus _ _ _ _ _) \<Rightarrow> Less
     | (DeletableStatus e counts, DeletableStatus e' counts') \<Rightarrow> then_cmp (deletable_counts_cmp counts counts') (cmp_option e' e)
     | (PermanentStatus end_epoch is_certified _ counts e, PermanentStatus end_epoch' is_certified' _ counts' e') \<Rightarrow>
         then_cmp (cmp is_certified is_certified') (then_cmp (cmp end_epoch end_epoch')
           (then_cmp (deletable_counts_cmp counts counts') (cmp_option e' e)))))"

end
