(* ===== verification/PermBlobInfo.thy ===== *)
theory PermBlobInfo
  imports BlobEvents
begin

text \<open>
  The summary of the permanent \<open>Blob\<close> objects of one blob ID,
  \<open>crates/walrus-service/src/node/storage/blob_info/perm_blob_info.rs\<close>: how many there are, and the latest epoch at which one of
  them expires. The operations work on an optional summary, which is there exactly if there are objects.
\<close>

record permanent_blob_info =
  pbi_count :: nat
  pbi_end_epoch :: epoch
  pbi_event :: event_id

definition perm_new_first :: "epoch \<Rightarrow> event_id \<Rightarrow> permanent_blob_info" where
  "perm_new_first e ev = \<lparr>pbi_count = 1, pbi_end_epoch = e, pbi_event = ev\<rparr>"

definition perm_update :: "permanent_blob_info \<Rightarrow> blob_status_change_info \<Rightarrow> bool \<Rightarrow> (permanent_blob_info, 'e) result" where
  "perm_update self change_info increase_count =
    and_then (rust_assert (\<not> ci_deletable change_info)) (\<lambda>_.
    let self = (if increase_count then self\<lparr>pbi_count := min U32_MAX (pbi_count self + 1)\<rparr> else self)
    in Ok (if ci_end_epoch change_info > pbi_end_epoch self
      then \<lparr>pbi_count = pbi_count self, pbi_end_epoch = ci_end_epoch change_info, pbi_event = ci_status_event change_info\<rparr> else self))"

definition perm_update_optional ::
  "permanent_blob_info option \<Rightarrow> blob_status_change_info \<Rightarrow> (permanent_blob_info option, 'e) result" where
  "perm_update_optional existing_info change_info =
    and_then (rust_assert (\<not> ci_deletable change_info)) (\<lambda>_.
    (case existing_info of
       None \<Rightarrow> Ok (Some (perm_new_first (ci_end_epoch change_info) (ci_status_event change_info)))
     | Some p \<Rightarrow> and_then (perm_update p change_info True) (\<lambda>p. Ok (Some p))))"

definition perm_register ::
  "permanent_blob_info option \<Rightarrow> blob_status_change_info \<Rightarrow> (permanent_blob_info option, 'e) result" where
  "perm_register permanent_total change_info = perm_update_optional permanent_total change_info"

text \<open>\<open>None\<close> is the return value \<open>false\<close>, where nothing has been changed.\<close>

definition perm_certify ::
  "permanent_blob_info option \<Rightarrow> permanent_blob_info option \<Rightarrow> blob_status_change_info \<Rightarrow> (permanent_blob_info option option, 'e) result" where
  "perm_certify permanent_total permanent_certified change_info =
    (case permanent_total of
       None \<Rightarrow> Ok None
     | Some t \<Rightarrow>
       if ci_end_epoch change_info > pbi_end_epoch t then Ok None
       else if pbi_count t \<le> (case permanent_certified of Some p \<Rightarrow> pbi_count p | None \<Rightarrow> 0) then Ok None
       else and_then (perm_update_optional permanent_certified change_info) (\<lambda>c. Ok (Some c)))"

definition perm_extend ::
  "permanent_blob_info option \<Rightarrow> blob_status_change_info \<Rightarrow> (permanent_blob_info option, 'e) result" where
  "perm_extend permanent_info change_info =
    (case permanent_info of
       None \<Rightarrow> Ok None
     | Some p \<Rightarrow> and_then (perm_update p change_info False) (\<lambda>p. Ok (Some p)))"

fun perm_decrement :: "permanent_blob_info option \<Rightarrow> permanent_blob_info option" where
  "perm_decrement None = None"
| "perm_decrement (Some p) = (if pbi_count p = 1 then None else Some (p\<lparr>pbi_count := pbi_count p - 1\<rparr>))"

subsection \<open>Counts and end epochs\<close>

fun perm_count :: "permanent_blob_info option \<Rightarrow> nat" where
  "perm_count None = 0"
| "perm_count (Some p) = pbi_count p"

definition perm_ok :: "permanent_blob_info option \<Rightarrow> bool" where
  "perm_ok p \<longleftrightarrow> (case p of None \<Rightarrow> True | Some p \<Rightarrow> 0 < pbi_count p \<and> pbi_count p \<le> U32_MAX)"

text \<open>The end epoch is not before \<open>e\<close>.\<close>

definition perm_covers :: "permanent_blob_info option \<Rightarrow> epoch \<Rightarrow> bool" where
  "perm_covers p e \<longleftrightarrow> (case p of None \<Rightarrow> False | Some p \<Rightarrow> e \<le> pbi_end_epoch p)"

lemma perm_ok_simps [simp]: "perm_ok None" "perm_ok (Some p) \<longleftrightarrow> 0 < pbi_count p \<and> pbi_count p \<le> U32_MAX"
  by (simp_all add: perm_ok_def)

lemma perm_covers_simps [simp]: "\<not> perm_covers None e" "perm_covers (Some p) e \<longleftrightarrow> e \<le> pbi_end_epoch p"
  by (simp_all add: perm_covers_def)

lemma perm_count_0: "perm_ok p \<Longrightarrow> perm_count p = 0 \<longleftrightarrow> p = None"
  by (cases p) auto

lemma perm_update_optional_ok:
  assumes "perm_ok p" "\<not> ci_deletable ci" "perm_count p < U32_MAX"
  shows "\<exists>q. perm_update_optional p ci = Ok (Some q) \<and> perm_ok (Some q) \<and> pbi_count q = perm_count p + 1
    \<and> (\<forall>e. e \<le> pbi_end_epoch q \<longleftrightarrow> perm_covers p e \<or> e \<le> ci_end_epoch ci)"
  using assms by (cases p) (auto simp: perm_update_optional_def perm_update_def perm_new_first_def Let_def)

lemma perm_extend_ok:
  assumes "perm_ok p" "\<not> ci_deletable ci"
  shows "\<exists>q. perm_extend p ci = Ok q \<and> perm_ok q \<and> perm_count q = perm_count p
    \<and> (\<forall>e. perm_covers q e \<longleftrightarrow> p \<noteq> None \<and> (perm_covers p e \<or> e \<le> ci_end_epoch ci))"
  using assms by (cases p) (auto simp: perm_extend_def perm_update_def)

lemma perm_decrement_ok:
  assumes "perm_ok p"
  shows "perm_ok (perm_decrement p)" "perm_count (perm_decrement p) = perm_count p - 1"
    "0 < perm_count (perm_decrement p) \<Longrightarrow> perm_covers (perm_decrement p) e = perm_covers p e"
  using assms by (cases p; auto)+

end
