(* ===== verification/BlobInfoV1.thy ===== *)
theory BlobInfoV1
  imports PermBlobInfo
begin

text \<open>
  Version 1 of the information that a storage node keeps about a blob ID,
  \<open>crates/walrus-service/src/node/storage/blob_info/blob_info_v1.rs\<close>: a summary of all \<open>Blob\<close> objects with that ID, updated by merge
  operands. Debug assertions are off; the addition to a counter panics when it overflows.
\<close>

record valid_blob_info_v1 =
  v1_is_metadata_stored :: bool
  v1_count_deletable_total :: nat
  v1_count_deletable_certified :: nat
  v1_permanent_total :: "permanent_blob_info option"
  v1_permanent_certified :: "permanent_blob_info option"
  v1_initial_certified_epoch :: "epoch option"
  v1_latest_seen_deletable_registered_end_epoch :: "epoch option"
  v1_latest_seen_deletable_certified_end_epoch :: "epoch option"

datatype blob_info_v1 = InvalidV1 epoch event_id | ValidV1 valid_blob_info_v1

definition v1_default :: valid_blob_info_v1 where
  "v1_default = \<lparr>v1_is_metadata_stored = False, v1_count_deletable_total = 0, v1_count_deletable_certified = 0,
    v1_permanent_total = None, v1_permanent_certified = None, v1_initial_certified_epoch = None,
    v1_latest_seen_deletable_registered_end_epoch = None, v1_latest_seen_deletable_certified_end_epoch = None\<rparr>"

text \<open>\<open>Option::is_some_and\<close> with a comparison.\<close>

definition is_after :: "epoch option \<Rightarrow> epoch \<Rightarrow> bool" where
  "is_after x current_epoch \<longleftrightarrow> (case x of Some e \<Rightarrow> e > current_epoch | None \<Rightarrow> False)"

definition perm_is_after :: "permanent_blob_info option \<Rightarrow> epoch \<Rightarrow> bool" where
  "perm_is_after p current_epoch \<longleftrightarrow> (case p of Some p \<Rightarrow> pbi_end_epoch p > current_epoch | None \<Rightarrow> False)"

definition is_at_most :: "epoch option \<Rightarrow> epoch \<Rightarrow> bool" where
  "is_at_most x current_epoch \<longleftrightarrow> (case x of Some e \<Rightarrow> e \<le> current_epoch | None \<Rightarrow> False)"

subsection \<open>Queries\<close>

text \<open>A summary of permanent objects whose end epoch is still to come.\<close>

definition live_permanent :: "permanent_blob_info option \<Rightarrow> epoch \<Rightarrow> permanent_blob_info option" where
  "live_permanent p current_epoch = (case p of None \<Rightarrow> None | Some q \<Rightarrow> if pbi_end_epoch q > current_epoch then Some q else None)"

definition v1_to_blob_status :: "valid_blob_info_v1 \<Rightarrow> epoch \<Rightarrow> blob_status" where
  "v1_to_blob_status self current_epoch =
    (let count_deletable_total = (if is_after (v1_latest_seen_deletable_registered_end_epoch self) current_epoch
           then v1_count_deletable_total self else 0);
         count_deletable_certified = (if is_after (v1_latest_seen_deletable_certified_end_epoch self) current_epoch
           then v1_count_deletable_certified self else 0);
         counts = \<lparr>dc_total = count_deletable_total, dc_certified = count_deletable_certified\<rparr>;
         e = v1_initial_certified_epoch self
     in case live_permanent (v1_permanent_certified self) current_epoch of
          Some p \<Rightarrow> PermanentStatus (pbi_end_epoch p) True (pbi_event p) counts e
        | None \<Rightarrow> (case live_permanent (v1_permanent_total self) current_epoch of
            Some p \<Rightarrow> PermanentStatus (pbi_end_epoch p) False (pbi_event p) counts e
          | None \<Rightarrow> if counts \<noteq> \<lparr>dc_total = 0, dc_certified = 0\<rparr> then DeletableStatus e counts else Nonexistent))"

definition v1_is_certified :: "valid_blob_info_v1 \<Rightarrow> epoch \<Rightarrow> bool" where
  "v1_is_certified self current_epoch \<longleftrightarrow>
    is_at_most (v1_initial_certified_epoch self) current_epoch
    \<and> (perm_is_after (v1_permanent_certified self) current_epoch
      \<or> (v1_count_deletable_certified self > 0 \<and> is_after (v1_latest_seen_deletable_certified_end_epoch self) current_epoch))"

definition v1_has_no_objects :: "valid_blob_info_v1 \<Rightarrow> bool" where
  "v1_has_no_objects self \<longleftrightarrow> v1_count_deletable_total self = 0 \<and> v1_count_deletable_certified self = 0
    \<and> v1_permanent_total self = None \<and> v1_permanent_certified self = None \<and> v1_initial_certified_epoch self = None
    \<and> v1_latest_seen_deletable_registered_end_epoch self = None \<and> v1_latest_seen_deletable_certified_end_epoch self = None"

subsection \<open>Updates\<close>

definition v1_update_initial_certified_epoch :: "epoch \<Rightarrow> bool \<Rightarrow> valid_blob_info_v1 \<Rightarrow> valid_blob_info_v1" where
  "v1_update_initial_certified_epoch new_certified_epoch force self =
    (if force \<or> (case v1_initial_certified_epoch self of None \<Rightarrow> True | Some existing_epoch \<Rightarrow> existing_epoch > new_certified_epoch)
     then self\<lparr>v1_initial_certified_epoch := Some new_certified_epoch\<rparr> else self)"

definition v1_maybe_unset_initial_certified_epoch :: "valid_blob_info_v1 \<Rightarrow> valid_blob_info_v1" where
  "v1_maybe_unset_initial_certified_epoch self =
    (if v1_count_deletable_certified self = 0 \<and> v1_permanent_certified self = None
     then self\<lparr>v1_initial_certified_epoch := None\<rparr> else self)"

definition v1_maybe_increase_latest_deletable_registered_epoch :: "epoch \<Rightarrow> valid_blob_info_v1 \<Rightarrow> valid_blob_info_v1" where
  "v1_maybe_increase_latest_deletable_registered_epoch e self = self\<lparr>v1_latest_seen_deletable_registered_end_epoch :=
    Some (max e (case v1_latest_seen_deletable_registered_end_epoch self of Some x \<Rightarrow> x | None \<Rightarrow> 0))\<rparr>"

definition v1_maybe_increase_latest_deletable_certified_epoch :: "epoch \<Rightarrow> valid_blob_info_v1 \<Rightarrow> valid_blob_info_v1" where
  "v1_maybe_increase_latest_deletable_certified_epoch e self = self\<lparr>v1_latest_seen_deletable_certified_end_epoch :=
    Some (max e (case v1_latest_seen_deletable_certified_end_epoch self of Some x \<Rightarrow> x | None \<Rightarrow> 0))\<rparr>"

definition decrement_deletable_counter_and_maybe_unset_latest_end_epoch :: "nat \<Rightarrow> epoch option \<Rightarrow> nat \<times> epoch option" where
  "decrement_deletable_counter_and_maybe_unset_latest_end_epoch counter latest_seen_end_epoch =
    (let counter = counter - 1 in (counter, if counter = 0 then None else latest_seen_end_epoch))"

definition v1_update_deletable_counters_and_end_epochs :: "bool \<Rightarrow> valid_blob_info_v1 \<Rightarrow> valid_blob_info_v1" where
  "v1_update_deletable_counters_and_end_epochs was_certified self =
    (let (total, registered) = decrement_deletable_counter_and_maybe_unset_latest_end_epoch
           (v1_count_deletable_total self) (v1_latest_seen_deletable_registered_end_epoch self);
         self = self\<lparr>v1_count_deletable_total := total, v1_latest_seen_deletable_registered_end_epoch := registered\<rparr>
     in if was_certified then
          let (n, certified) = decrement_deletable_counter_and_maybe_unset_latest_end_epoch
                (v1_count_deletable_certified self) (v1_latest_seen_deletable_certified_end_epoch self)
          in self\<lparr>v1_count_deletable_certified := n, v1_latest_seen_deletable_certified_end_epoch := certified\<rparr>
        else self)"

definition v1_deletable_expired :: "bool \<Rightarrow> valid_blob_info_v1 \<Rightarrow> valid_blob_info_v1" where
  "v1_deletable_expired was_certified self =
    v1_maybe_unset_initial_certified_epoch (v1_update_deletable_counters_and_end_epochs was_certified self)"

definition v1_permanent_expired :: "bool \<Rightarrow> valid_blob_info_v1 \<Rightarrow> valid_blob_info_v1" where
  "v1_permanent_expired was_certified self =
    (let self = self\<lparr>v1_permanent_total := perm_decrement (v1_permanent_total self)\<rparr>;
         self = (if was_certified then self\<lparr>v1_permanent_certified := perm_decrement (v1_permanent_certified self)\<rparr> else self)
     in v1_maybe_unset_initial_certified_epoch self)"

definition v1_update_status ::
  "blob_status_change_type \<Rightarrow> blob_status_change_info \<Rightarrow> valid_blob_info_v1 \<Rightarrow> (valid_blob_info_v1, 'e) result" where
  "v1_update_status change_type change_info self =
    (let was_certified = v1_is_certified self (ci_epoch change_info) in
     if ci_deletable change_info then
       (case change_type of
          Register \<Rightarrow>
            and_then (expect (checked U32_MAX (v1_count_deletable_total self + 1))) (\<lambda>n.
            Ok (v1_maybe_increase_latest_deletable_registered_epoch (ci_end_epoch change_info) (self\<lparr>v1_count_deletable_total := n\<rparr>)))
        | Certify \<Rightarrow>
            if v1_count_deletable_total self \<le> v1_count_deletable_certified self then Ok self
            else and_then (expect (checked U32_MAX (v1_count_deletable_certified self + 1))) (\<lambda>n.
              Ok (v1_update_initial_certified_epoch (ci_epoch change_info) (\<not> was_certified)
                (v1_maybe_increase_latest_deletable_certified_epoch (ci_end_epoch change_info) (self\<lparr>v1_count_deletable_certified := n\<rparr>))))
        | Extend \<Rightarrow>
            Ok (v1_maybe_increase_latest_deletable_certified_epoch (ci_end_epoch change_info)
              (v1_maybe_increase_latest_deletable_registered_epoch (ci_end_epoch change_info) self))
        | Delete was_certified \<Rightarrow>
            Ok (v1_maybe_unset_initial_certified_epoch (v1_update_deletable_counters_and_end_epochs was_certified self)))
     else
       (case change_type of
          Register \<Rightarrow>
            and_then (perm_register (v1_permanent_total self) change_info) (\<lambda>t. Ok (self\<lparr>v1_permanent_total := t\<rparr>))
        | Certify \<Rightarrow>
            and_then (perm_certify (v1_permanent_total self) (v1_permanent_certified self) change_info) (\<lambda>r.
            (case r of
               None \<Rightarrow> Ok self
             | Some c \<Rightarrow> Ok (v1_update_initial_certified_epoch (ci_epoch change_info) (\<not> was_certified) (self\<lparr>v1_permanent_certified := c\<rparr>))))
        | Extend \<Rightarrow>
            and_then (perm_extend (v1_permanent_total self) change_info) (\<lambda>t.
            and_then (perm_extend (v1_permanent_certified self) change_info) (\<lambda>c.
            Ok (self\<lparr>v1_permanent_total := t, v1_permanent_certified := c\<rparr>)))
        | Delete was_certified \<Rightarrow> Ok self))"

subsection \<open>Invariants\<close>

datatype invariant_error = InvariantViolated string

definition check_option_order :: "epoch option \<Rightarrow> epoch option \<Rightarrow> (unit, invariant_error) result" where
  "check_option_order registered certified =
    (case (registered, certified) of
       (None, Some _) \<Rightarrow> Err (InvariantViolated ''latest_seen_deletable_registered_end_epoch.is_none()'')
     | (Some r, Some c) \<Rightarrow> ensure (r \<ge> c) (InvariantViolated ''registered >= certified'')
     | _ \<Rightarrow> Ok ())"

definition check_permanent_order :: "permanent_blob_info option \<Rightarrow> permanent_blob_info option \<Rightarrow> (unit, invariant_error) result" where
  "check_permanent_order permanent_total permanent_certified =
    (case (permanent_total, permanent_certified) of
       (None, Some _) \<Rightarrow> Err (InvariantViolated ''permanent_total.is_none() => permanent_certified.is_none()'')
     | (Some t, Some c) \<Rightarrow>
         and_then (ensure (pbi_end_epoch t \<ge> pbi_end_epoch c) (InvariantViolated ''end_epoch'')) (\<lambda>_.
         ensure (pbi_count t \<ge> pbi_count c) (InvariantViolated ''count''))
     | _ \<Rightarrow> Ok ())"

definition v1_check_invariants :: "valid_blob_info_v1 \<Rightarrow> (unit, invariant_error) result" where
  "v1_check_invariants self =
    and_then (ensure (v1_count_deletable_total self \<ge> v1_count_deletable_certified self) (InvariantViolated ''count_deletable'')) (\<lambda>_.
    and_then (case v1_initial_certified_epoch self of
        None \<Rightarrow> ensure (v1_count_deletable_certified self = 0 \<and> v1_permanent_certified self = None) (InvariantViolated ''initial_certified_epoch'')
      | Some _ \<Rightarrow> ensure (v1_count_deletable_certified self > 0 \<or> v1_permanent_certified self \<noteq> None) (InvariantViolated ''initial_certified_epoch'')) (\<lambda>_.
    and_then (check_permanent_order (v1_permanent_total self) (v1_permanent_certified self)) (\<lambda>_.
    check_option_order (v1_latest_seen_deletable_registered_end_epoch self) (v1_latest_seen_deletable_certified_end_epoch self))))"

subsection \<open>The enum\<close>

fun info_v1_is_certified :: "blob_info_v1 \<Rightarrow> epoch \<Rightarrow> bool" where
  "info_v1_is_certified (ValidV1 v) current_epoch = v1_is_certified v current_epoch"
| "info_v1_is_certified (InvalidV1 e ev) current_epoch = False"

fun info_v1_is_registered :: "blob_info_v1 \<Rightarrow> epoch \<Rightarrow> bool" where
  "info_v1_is_registered (ValidV1 v) current_epoch =
    (perm_is_after (v1_permanent_total v) current_epoch
     \<or> (v1_count_deletable_total v > 0 \<and> is_after (v1_latest_seen_deletable_registered_end_epoch v) current_epoch))"
| "info_v1_is_registered (InvalidV1 e ev) current_epoch = False"

definition info_v1_can_data_be_deleted :: "blob_info_v1 \<Rightarrow> epoch \<Rightarrow> bool" where
  "info_v1_can_data_be_deleted self current_epoch \<longleftrightarrow> \<not> info_v1_is_registered self current_epoch"

fun info_v1_can_blob_info_be_deleted :: "blob_info_v1 \<Rightarrow> epoch \<Rightarrow> bool" where
  "info_v1_can_blob_info_be_deleted (InvalidV1 e ev) current_epoch = False"
| "info_v1_can_blob_info_be_deleted (ValidV1 v) current_epoch =
    (v1_count_deletable_total v = 0 \<and> v1_permanent_total v = None \<and> info_v1_can_data_be_deleted (ValidV1 v) current_epoch)"

fun info_v1_invalidation_event :: "blob_info_v1 \<Rightarrow> event_id option" where
  "info_v1_invalidation_event (InvalidV1 e ev) = Some ev"
| "info_v1_invalidation_event (ValidV1 v) = None"

fun info_v1_to_blob_status :: "blob_info_v1 \<Rightarrow> epoch \<Rightarrow> blob_status" where
  "info_v1_to_blob_status (InvalidV1 e ev) current_epoch = InvalidStatus ev"
| "info_v1_to_blob_status (ValidV1 v) current_epoch = v1_to_blob_status v current_epoch"

fun info_v1_merge_with :: "blob_info_v1 \<Rightarrow> blob_info_merge_operand \<Rightarrow> (blob_info_v1, 'e) result" where
  "info_v1_merge_with (InvalidV1 e ev) operand = Ok (InvalidV1 e ev)"
| "info_v1_merge_with (ValidV1 v) (MarkInvalid e ev) = Ok (InvalidV1 e ev)"
| "info_v1_merge_with (ValidV1 v) (MarkMetadataStored b) = Ok (ValidV1 (v\<lparr>v1_is_metadata_stored := b\<rparr>))"
| "info_v1_merge_with (ValidV1 v) (ChangeStatus change_type change_info) =
    and_then (v1_update_status change_type change_info v) (\<lambda>v. Ok (ValidV1 v))"
| "info_v1_merge_with (ValidV1 v) (DeletableExpired was_certified) = Ok (ValidV1 (v1_deletable_expired was_certified v))"
| "info_v1_merge_with (ValidV1 v) (PermanentExpired was_certified) = Ok (ValidV1 (v1_permanent_expired was_certified v))"
| "info_v1_merge_with (ValidV1 v) (PooledBlobChangeStatus _ _) = Panic"
| "info_v1_merge_with (ValidV1 v) (PoolExpired _ _) = Panic"

fun info_v1_merge_new :: "blob_info_merge_operand \<Rightarrow> (blob_info_v1 option, 'e) result" where
  "info_v1_merge_new (ChangeStatus Register change_info) = Ok (Some (ValidV1
    (if ci_deletable change_info then
       v1_default\<lparr>v1_count_deletable_total := 1, v1_latest_seen_deletable_registered_end_epoch := Some (ci_end_epoch change_info)\<rparr>
     else v1_default\<lparr>v1_permanent_total := Some (perm_new_first (ci_end_epoch change_info) (ci_status_event change_info))\<rparr>)))"
| "info_v1_merge_new (MarkInvalid e ev) = Ok (Some (InvalidV1 e ev))"
| "info_v1_merge_new (MarkMetadataStored b) = Ok (Some (ValidV1 (v1_default\<lparr>v1_is_metadata_stored := b\<rparr>)))"
| "info_v1_merge_new (ChangeStatus _ _) = Ok None"
| "info_v1_merge_new (DeletableExpired _) = Ok None"
| "info_v1_merge_new (PermanentExpired _) = Ok None"
| "info_v1_merge_new (PooledBlobChangeStatus _ _) = Panic"
| "info_v1_merge_new (PoolExpired _ _) = Panic"

end
