(* ===== verification/BlobInfoV2.thy ===== *)
theory BlobInfoV2
  imports BlobInfoV1
begin

text \<open>
  Version 2 of the information about a blob ID, \<open>crates/walrus-service/src/node/storage/blob_info/blob_info_v2.rs\<close>, which also counts the
  references from storage pools, and the enum of both versions with its upgrade, \<open>BlobInfo\<close> of \<open>blob_info.rs\<close>. A record of
  version 1 is upgraded when the first operand about a storage pool arrives.
\<close>

record valid_blob_info_v2 =
  v2_is_metadata_stored :: bool
  v2_initial_certified_epoch :: "epoch option"
  v2_count_deletable_total :: nat
  v2_count_deletable_certified :: nat
  v2_permanent_total :: "permanent_blob_info option"
  v2_permanent_certified :: "permanent_blob_info option"
  v2_count_pooled_refs_total :: nat
  v2_count_pooled_refs_certified :: nat

definition v2_default :: valid_blob_info_v2 where
  "v2_default = \<lparr>v2_is_metadata_stored = False, v2_initial_certified_epoch = None, v2_count_deletable_total = 0,
    v2_count_deletable_certified = 0, v2_permanent_total = None, v2_permanent_certified = None,
    v2_count_pooled_refs_total = 0, v2_count_pooled_refs_certified = 0\<rparr>"

definition v2_from_v1 :: "valid_blob_info_v1 \<Rightarrow> valid_blob_info_v2" where
  "v2_from_v1 v1 = \<lparr>v2_is_metadata_stored = v1_is_metadata_stored v1, v2_initial_certified_epoch = v1_initial_certified_epoch v1,
    v2_count_deletable_total = v1_count_deletable_total v1, v2_count_deletable_certified = v1_count_deletable_certified v1,
    v2_permanent_total = v1_permanent_total v1, v2_permanent_certified = v1_permanent_certified v1,
    v2_count_pooled_refs_total = 0, v2_count_pooled_refs_certified = 0\<rparr>"

datatype blob_info_v2 = InvalidV2 epoch event_id | ValidV2 valid_blob_info_v2

fun info_v2_from_v1 :: "blob_info_v1 \<Rightarrow> blob_info_v2" where
  "info_v2_from_v1 (InvalidV1 e ev) = InvalidV2 e ev"
| "info_v2_from_v1 (ValidV1 v) = ValidV2 (v2_from_v1 v)"

subsection \<open>Queries\<close>

definition v2_to_blob_status :: "valid_blob_info_v2 \<Rightarrow> epoch \<Rightarrow> blob_status" where
  "v2_to_blob_status self current_epoch =
    (let e = v2_initial_certified_epoch self;
         counts = \<lparr>dc_total = min U32_MAX (v2_count_deletable_total self + v2_count_pooled_refs_total self),
           dc_certified = min U32_MAX (v2_count_deletable_certified self + v2_count_pooled_refs_certified self)\<rparr>
     in case live_permanent (v2_permanent_certified self) current_epoch of
          Some p \<Rightarrow> PermanentStatus (pbi_end_epoch p) True (pbi_event p) counts e
        | None \<Rightarrow> (case live_permanent (v2_permanent_total self) current_epoch of
            Some p \<Rightarrow> PermanentStatus (pbi_end_epoch p) False (pbi_event p) counts e
          | None \<Rightarrow> if counts \<noteq> \<lparr>dc_total = 0, dc_certified = 0\<rparr> then DeletableStatus e counts else Nonexistent))"

definition v2_is_certified :: "valid_blob_info_v2 \<Rightarrow> epoch \<Rightarrow> bool" where
  "v2_is_certified self current_epoch \<longleftrightarrow>
    is_at_most (v2_initial_certified_epoch self) current_epoch
    \<and> (perm_is_after (v2_permanent_certified self) current_epoch
      \<or> v2_count_deletable_certified self > 0 \<or> v2_count_pooled_refs_certified self > 0)"

definition v2_has_no_objects :: "valid_blob_info_v2 \<Rightarrow> bool" where
  "v2_has_no_objects self \<longleftrightarrow> v2_count_deletable_total self = 0 \<and> v2_count_deletable_certified self = 0
    \<and> v2_permanent_total self = None \<and> v2_permanent_certified self = None \<and> v2_initial_certified_epoch self = None
    \<and> v2_count_pooled_refs_total self = 0"

subsection \<open>Updates\<close>

definition v2_update_initial_certified_epoch :: "epoch \<Rightarrow> bool \<Rightarrow> valid_blob_info_v2 \<Rightarrow> valid_blob_info_v2" where
  "v2_update_initial_certified_epoch new_certified_epoch force self =
    (if force \<or> (case v2_initial_certified_epoch self of None \<Rightarrow> True | Some existing_epoch \<Rightarrow> existing_epoch > new_certified_epoch)
     then self\<lparr>v2_initial_certified_epoch := Some new_certified_epoch\<rparr> else self)"

definition v2_maybe_unset_initial_certified_epoch :: "valid_blob_info_v2 \<Rightarrow> valid_blob_info_v2" where
  "v2_maybe_unset_initial_certified_epoch self =
    (if v2_count_pooled_refs_certified self = 0 \<and> v2_count_deletable_certified self = 0 \<and> v2_permanent_certified self = None
     then self\<lparr>v2_initial_certified_epoch := None\<rparr> else self)"

definition v2_update_deletable_counters :: "bool \<Rightarrow> valid_blob_info_v2 \<Rightarrow> valid_blob_info_v2" where
  "v2_update_deletable_counters was_certified self =
    (let self = self\<lparr>v2_count_deletable_total := v2_count_deletable_total self - 1\<rparr>
     in if was_certified then self\<lparr>v2_count_deletable_certified := v2_count_deletable_certified self - 1\<rparr> else self)"

definition v2_deletable_expired :: "bool \<Rightarrow> valid_blob_info_v2 \<Rightarrow> valid_blob_info_v2" where
  "v2_deletable_expired was_certified self = v2_maybe_unset_initial_certified_epoch (v2_update_deletable_counters was_certified self)"

definition v2_permanent_expired :: "bool \<Rightarrow> valid_blob_info_v2 \<Rightarrow> valid_blob_info_v2" where
  "v2_permanent_expired was_certified self =
    (let self = self\<lparr>v2_permanent_total := perm_decrement (v2_permanent_total self)\<rparr>;
         self = (if was_certified then self\<lparr>v2_permanent_certified := perm_decrement (v2_permanent_certified self)\<rparr> else self)
     in v2_maybe_unset_initial_certified_epoch self)"

definition v2_update_status ::
  "blob_status_change_type \<Rightarrow> blob_status_change_info \<Rightarrow> valid_blob_info_v2 \<Rightarrow> (valid_blob_info_v2, 'e) result" where
  "v2_update_status change_type change_info self =
    (let was_certified = v2_is_certified self (ci_epoch change_info) in
     if ci_deletable change_info then
       (case change_type of
          Register \<Rightarrow>
            and_then (expect (checked U32_MAX (v2_count_deletable_total self + 1))) (\<lambda>n. Ok (self\<lparr>v2_count_deletable_total := n\<rparr>))
        | Certify \<Rightarrow>
            if v2_count_deletable_total self \<le> v2_count_deletable_certified self then Ok self
            else and_then (expect (checked U32_MAX (v2_count_deletable_certified self + 1))) (\<lambda>n.
              Ok (v2_update_initial_certified_epoch (ci_epoch change_info) (\<not> was_certified) (self\<lparr>v2_count_deletable_certified := n\<rparr>)))
        | Extend \<Rightarrow> Ok self
        | Delete was_certified \<Rightarrow> Ok (v2_maybe_unset_initial_certified_epoch (v2_update_deletable_counters was_certified self)))
     else
       (case change_type of
          Register \<Rightarrow>
            and_then (perm_register (v2_permanent_total self) change_info) (\<lambda>t. Ok (self\<lparr>v2_permanent_total := t\<rparr>))
        | Certify \<Rightarrow>
            and_then (perm_certify (v2_permanent_total self) (v2_permanent_certified self) change_info) (\<lambda>r.
            (case r of
               None \<Rightarrow> Ok self
             | Some c \<Rightarrow> Ok (v2_update_initial_certified_epoch (ci_epoch change_info) (\<not> was_certified) (self\<lparr>v2_permanent_certified := c\<rparr>))))
        | Extend \<Rightarrow>
            and_then (perm_extend (v2_permanent_total self) change_info) (\<lambda>t.
            and_then (perm_extend (v2_permanent_certified self) change_info) (\<lambda>c.
            Ok (self\<lparr>v2_permanent_total := t, v2_permanent_certified := c\<rparr>)))
        | Delete was_certified \<Rightarrow> Ok self))"

definition v2_pool_register :: "valid_blob_info_v2 \<Rightarrow> valid_blob_info_v2" where
  "v2_pool_register self = self\<lparr>v2_count_pooled_refs_total := min U32_MAX (v2_count_pooled_refs_total self + 1)\<rparr>"

definition v2_pool_certify :: "epoch \<Rightarrow> valid_blob_info_v2 \<Rightarrow> valid_blob_info_v2" where
  "v2_pool_certify e self =
    (let was_certified = v2_is_certified self e in
     if v2_count_pooled_refs_total self \<le> v2_count_pooled_refs_certified self then self
     else v2_update_initial_certified_epoch e (\<not> was_certified)
       (self\<lparr>v2_count_pooled_refs_certified := min U32_MAX (v2_count_pooled_refs_certified self + 1)\<rparr>))"

definition v2_pool_delete :: "bool \<Rightarrow> valid_blob_info_v2 \<Rightarrow> valid_blob_info_v2" where
  "v2_pool_delete was_certified self =
    (if v2_count_pooled_refs_total self = 0 then self
     else let self = self\<lparr>v2_count_pooled_refs_total := v2_count_pooled_refs_total self - 1\<rparr>;
              self = (if was_certified then self\<lparr>v2_count_pooled_refs_certified := v2_count_pooled_refs_certified self - 1\<rparr> else self)
          in v2_maybe_unset_initial_certified_epoch self)"

subsection \<open>Invariants\<close>

definition v2_check_invariants :: "valid_blob_info_v2 \<Rightarrow> (unit, invariant_error) result" where
  "v2_check_invariants self =
    (let has_regular_certified = (v2_count_deletable_certified self > 0 \<or> v2_permanent_certified self \<noteq> None);
         has_pool_certified = (v2_count_pooled_refs_certified self > 0) in
     and_then (ensure (v2_count_deletable_total self \<ge> v2_count_deletable_certified self) (InvariantViolated ''count_deletable'')) (\<lambda>_.
     and_then (case v2_initial_certified_epoch self of
         None \<Rightarrow> ensure (\<not> has_regular_certified \<and> \<not> has_pool_certified) (InvariantViolated ''initial_certified_epoch'')
       | Some _ \<Rightarrow> ensure (has_regular_certified \<or> has_pool_certified) (InvariantViolated ''initial_certified_epoch'')) (\<lambda>_.
     and_then (check_permanent_order (v2_permanent_total self) (v2_permanent_certified self)) (\<lambda>_.
     ensure (v2_count_pooled_refs_total self \<ge> v2_count_pooled_refs_certified self) (InvariantViolated ''count_pooled_refs'')))))"

subsection \<open>The enum\<close>

fun info_v2_is_certified :: "blob_info_v2 \<Rightarrow> epoch \<Rightarrow> bool" where
  "info_v2_is_certified (ValidV2 v) current_epoch = v2_is_certified v current_epoch"
| "info_v2_is_certified (InvalidV2 e ev) current_epoch = False"

fun info_v2_is_registered :: "blob_info_v2 \<Rightarrow> epoch \<Rightarrow> bool" where
  "info_v2_is_registered (ValidV2 v) current_epoch =
    (perm_is_after (v2_permanent_total v) current_epoch \<or> v2_count_deletable_total v > 0 \<or> v2_count_pooled_refs_total v > 0)"
| "info_v2_is_registered (InvalidV2 e ev) current_epoch = False"

definition info_v2_can_data_be_deleted :: "blob_info_v2 \<Rightarrow> epoch \<Rightarrow> bool" where
  "info_v2_can_data_be_deleted self current_epoch \<longleftrightarrow> \<not> info_v2_is_registered self current_epoch"

fun info_v2_can_blob_info_be_deleted :: "blob_info_v2 \<Rightarrow> epoch \<Rightarrow> bool" where
  "info_v2_can_blob_info_be_deleted (InvalidV2 e ev) current_epoch = False"
| "info_v2_can_blob_info_be_deleted (ValidV2 v) current_epoch =
    (v2_count_deletable_total v = 0 \<and> v2_permanent_total v = None \<and> v2_count_pooled_refs_total v = 0
     \<and> info_v2_can_data_be_deleted (ValidV2 v) current_epoch)"

fun info_v2_invalidation_event :: "blob_info_v2 \<Rightarrow> event_id option" where
  "info_v2_invalidation_event (InvalidV2 e ev) = Some ev"
| "info_v2_invalidation_event (ValidV2 v) = None"

fun info_v2_to_blob_status :: "blob_info_v2 \<Rightarrow> epoch \<Rightarrow> blob_status" where
  "info_v2_to_blob_status (InvalidV2 e ev) current_epoch = InvalidStatus ev"
| "info_v2_to_blob_status (ValidV2 v) current_epoch = v2_to_blob_status v current_epoch"

fun info_v2_merge_with :: "blob_info_v2 \<Rightarrow> blob_info_merge_operand \<Rightarrow> (blob_info_v2, 'e) result" where
  "info_v2_merge_with (InvalidV2 e ev) operand = Ok (InvalidV2 e ev)"
| "info_v2_merge_with (ValidV2 v) (MarkInvalid e ev) = Ok (InvalidV2 e ev)"
| "info_v2_merge_with (ValidV2 v) (MarkMetadataStored b) = Ok (ValidV2 (v\<lparr>v2_is_metadata_stored := b\<rparr>))"
| "info_v2_merge_with (ValidV2 v) (ChangeStatus change_type change_info) =
    and_then (v2_update_status change_type change_info v) (\<lambda>v. Ok (ValidV2 v))"
| "info_v2_merge_with (ValidV2 v) (DeletableExpired was_certified) = Ok (ValidV2 (v2_deletable_expired was_certified v))"
| "info_v2_merge_with (ValidV2 v) (PermanentExpired was_certified) = Ok (ValidV2 (v2_permanent_expired was_certified v))"
| "info_v2_merge_with (ValidV2 v) (PooledBlobChangeStatus change_type change_info) = Ok (ValidV2
    (case change_type of
       Register \<Rightarrow> v2_pool_register v
     | Certify \<Rightarrow> v2_pool_certify (pci_epoch change_info) v
     | Extend \<Rightarrow> v
     | Delete was_certified \<Rightarrow> v2_pool_delete was_certified v))"
| "info_v2_merge_with (ValidV2 v) (PoolExpired _ was_certified) = Ok (ValidV2 (v2_pool_delete was_certified v))"

fun info_v2_merge_new :: "blob_info_merge_operand \<Rightarrow> blob_info_v2 option" where
  "info_v2_merge_new (PooledBlobChangeStatus Register _) = Some (ValidV2 (v2_pool_register v2_default))"
| "info_v2_merge_new (MarkInvalid e ev) = Some (InvalidV2 e ev)"
| "info_v2_merge_new (MarkMetadataStored b) = Some (ValidV2 (v2_default\<lparr>v2_is_metadata_stored := b\<rparr>))"
| "info_v2_merge_new (ChangeStatus Register change_info) = Some (ValidV2
    (if ci_deletable change_info then v2_default\<lparr>v2_count_deletable_total := 1\<rparr>
     else v2_default\<lparr>v2_permanent_total := Some (perm_new_first (ci_end_epoch change_info) (ci_status_event change_info))\<rparr>))"
| "info_v2_merge_new _ = None"

subsection \<open>Both versions\<close>

datatype blob_info = V1 blob_info_v1 | V2 blob_info_v2

fun is_pool_operand :: "blob_info_merge_operand \<Rightarrow> bool" where
  "is_pool_operand (PooledBlobChangeStatus _ _) = True"
| "is_pool_operand (PoolExpired _ _) = True"
| "is_pool_operand _ = False"

fun blob_info_merge_with :: "blob_info \<Rightarrow> blob_info_merge_operand \<Rightarrow> (blob_info, 'e) result" where
  "blob_info_merge_with (V1 v1) operand =
    (if is_pool_operand operand then and_then (info_v2_merge_with (info_v2_from_v1 v1) operand) (\<lambda>v. Ok (V2 v))
     else and_then (info_v1_merge_with v1 operand) (\<lambda>v. Ok (V1 v)))"
| "blob_info_merge_with (V2 v2) operand = and_then (info_v2_merge_with v2 operand) (\<lambda>v. Ok (V2 v))"

fun blob_info_merge_new :: "blob_info_merge_operand \<Rightarrow> (blob_info option, 'e) result" where
  "blob_info_merge_new (PooledBlobChangeStatus t i) = Ok (map_option V2 (info_v2_merge_new (PooledBlobChangeStatus t i)))"
| "blob_info_merge_new (PoolExpired p b) = Ok None"
| "blob_info_merge_new operand = and_then (info_v1_merge_new operand) (\<lambda>v. Ok (map_option V1 v))"

fun is_certified :: "blob_info \<Rightarrow> epoch \<Rightarrow> bool" where
  "is_certified (V1 v) current_epoch = info_v1_is_certified v current_epoch"
| "is_certified (V2 v) current_epoch = info_v2_is_certified v current_epoch"

fun is_registered :: "blob_info \<Rightarrow> epoch \<Rightarrow> bool" where
  "is_registered (V1 v) current_epoch = info_v1_is_registered v current_epoch"
| "is_registered (V2 v) current_epoch = info_v2_is_registered v current_epoch"

fun can_data_be_deleted :: "blob_info \<Rightarrow> epoch \<Rightarrow> bool" where
  "can_data_be_deleted (V1 v) current_epoch = info_v1_can_data_be_deleted v current_epoch"
| "can_data_be_deleted (V2 v) current_epoch = info_v2_can_data_be_deleted v current_epoch"

fun can_blob_info_be_deleted :: "blob_info \<Rightarrow> epoch \<Rightarrow> bool" where
  "can_blob_info_be_deleted (V1 v) current_epoch = info_v1_can_blob_info_be_deleted v current_epoch"
| "can_blob_info_be_deleted (V2 v) current_epoch = info_v2_can_blob_info_be_deleted v current_epoch"

fun invalidation_event :: "blob_info \<Rightarrow> event_id option" where
  "invalidation_event (V1 v) = info_v1_invalidation_event v"
| "invalidation_event (V2 v) = info_v2_invalidation_event v"

fun to_blob_status :: "blob_info \<Rightarrow> epoch \<Rightarrow> blob_status" where
  "to_blob_status (V1 v) current_epoch = info_v1_to_blob_status v current_epoch"
| "to_blob_status (V2 v) current_epoch = info_v2_to_blob_status v current_epoch"

end
