(* ===== verification/BlobInfoTable.thy ===== *)
theory BlobInfoTable
  imports BlobInfoV2 "HOL-Library.Mapping" "HOL-Library.List_Lexorder"
begin

text \<open>
  The tables of blob information of a storage node, \<open>crates/walrus-service/src/node/storage/blob_info.rs\<close> with
  \<open>per_object_pooled_blob_info.rs\<close> and \<open>storage_pool_info.rs\<close>: one aggregate entry per blob ID and one entry per object, updated
  by the events of the contracts, and cleaned up when objects expire.

  A column family of the database is a finite mapping. The database itself is outside the repository; what the code relies on
  is that a batch is written atomically, that a range iterator yields the entries that existed when it was made in the order of
  their keys, and that a merge applies its operands, in order, with the registered merge operator. A merge whose operator gives no
  value fails. Input and output errors are left out, and so is the serialisation of values and operands. Debug assertions are off.
\<close>

subsection \<open>Objects outside of storage pools\<close>

record per_object_blob_info_v1 =
  po_blob_id :: blob_id
  po_registered_epoch :: epoch
  po_certified_epoch :: "epoch option"
  po_end_epoch :: epoch
  po_deletable :: bool
  po_event :: event_id
  po_deleted :: bool

datatype per_object_blob_info = PerObjectV1 (po_v1: per_object_blob_info_v1)

type_synonym per_object_blob_info_merge_operand = "blob_status_change_type \<times> blob_status_change_info"

fun from_blob_info_merge_operand :: "blob_info_merge_operand \<Rightarrow> per_object_blob_info_merge_operand option" where
  "from_blob_info_merge_operand (ChangeStatus change_type change_info) = Some (change_type, change_info)"
| "from_blob_info_merge_operand _ = None"

definition po_is_registered :: "per_object_blob_info_v1 \<Rightarrow> epoch \<Rightarrow> bool" where
  "po_is_registered self current_epoch \<longleftrightarrow> po_end_epoch self > current_epoch \<and> \<not> po_deleted self"

definition po_is_certified :: "per_object_blob_info_v1 \<Rightarrow> epoch \<Rightarrow> bool" where
  "po_is_certified self current_epoch \<longleftrightarrow> po_is_registered self current_epoch \<and> is_at_most (po_certified_epoch self) current_epoch"

fun po_merge_with :: "per_object_blob_info_v1 \<Rightarrow> per_object_blob_info_merge_operand \<Rightarrow> (per_object_blob_info_v1, 'e) result" where
  "po_merge_with self (change_type, change_info) =
    and_then (rust_assert (po_blob_id self = ci_blob_id change_info)) (\<lambda>_.
    and_then (rust_assert (po_deletable self = ci_deletable change_info)) (\<lambda>_.
    and_then (rust_assert (\<not> po_deleted self)) (\<lambda>_.
    let self = self\<lparr>po_event := ci_status_event change_info\<rparr> in
    (case change_type of
       Register \<Rightarrow> Panic
     | Certify \<Rightarrow>
         and_then (rust_assert (po_certified_epoch self = None)) (\<lambda>_. Ok (self\<lparr>po_certified_epoch := Some (ci_epoch change_info)\<rparr>))
     | Extend \<Rightarrow>
         and_then (rust_assert (po_certified_epoch self \<noteq> None)) (\<lambda>_. Ok (self\<lparr>po_end_epoch := ci_end_epoch change_info\<rparr>))
     | Delete was_certified \<Rightarrow>
         and_then (rust_assert ((po_certified_epoch self \<noteq> None) = was_certified)) (\<lambda>_. Ok (self\<lparr>po_deleted := True\<rparr>))))))"

fun po_merge_new :: "per_object_blob_info_merge_operand \<Rightarrow> per_object_blob_info_v1 option" where
  "po_merge_new (change_type, change_info) =
    (case change_type of
       Register \<Rightarrow> Some \<lparr>po_blob_id = ci_blob_id change_info, po_registered_epoch = ci_epoch change_info, po_certified_epoch = None,
         po_end_epoch = ci_end_epoch change_info, po_deletable = ci_deletable change_info, po_event = ci_status_event change_info,
         po_deleted = False\<rparr>
     | _ \<Rightarrow> None)"

fun per_object_merge :: "per_object_blob_info option \<Rightarrow> per_object_blob_info_merge_operand \<Rightarrow> (per_object_blob_info option, 'e) result" where
  "per_object_merge (Some (PerObjectV1 v)) operand = and_then (po_merge_with v operand) (\<lambda>v. Ok (Some (PerObjectV1 v)))"
| "per_object_merge None operand = Ok (map_option PerObjectV1 (po_merge_new operand))"

subsection \<open>Objects in storage pools\<close>

record per_object_pooled_blob_info_v1 =
  pp_blob_id :: blob_id
  pp_registered_epoch :: epoch
  pp_certified_epoch :: "epoch option"
  pp_storage_pool_id :: object_id
  pp_event :: event_id

datatype per_object_pooled_blob_info = PooledV1 (pp_v1: per_object_pooled_blob_info_v1)

type_synonym per_object_pooled_blob_info_merge_operand = "blob_status_change_type \<times> pooled_blob_change_info"

fun pp_merge_with :: "per_object_pooled_blob_info_v1 \<Rightarrow> per_object_pooled_blob_info_merge_operand \<Rightarrow> (per_object_pooled_blob_info_v1, 'e) result" where
  "pp_merge_with self (change_type, change_info) =
    and_then (rust_assert (pp_blob_id self = pci_blob_id change_info)) (\<lambda>_.
    let self = self\<lparr>pp_event := pci_status_event change_info\<rparr> in
    (case change_type of
       Certify \<Rightarrow>
         and_then (rust_assert (pp_certified_epoch self = None)) (\<lambda>_. Ok (self\<lparr>pp_certified_epoch := Some (pci_epoch change_info)\<rparr>))
     | Register \<Rightarrow> Panic
     | Extend \<Rightarrow> Panic
     | Delete was_certified \<Rightarrow> Panic))"

fun pp_merge_new :: "per_object_pooled_blob_info_merge_operand \<Rightarrow> per_object_pooled_blob_info_v1 option" where
  "pp_merge_new (change_type, change_info) =
    (case change_type of
       Register \<Rightarrow> Some \<lparr>pp_blob_id = pci_blob_id change_info, pp_registered_epoch = pci_epoch change_info, pp_certified_epoch = None,
         pp_storage_pool_id = pci_storage_pool_id change_info, pp_event = pci_status_event change_info\<rparr>
     | _ \<Rightarrow> None)"

fun pooled_merge :: "per_object_pooled_blob_info option \<Rightarrow> per_object_pooled_blob_info_merge_operand \<Rightarrow> (per_object_pooled_blob_info option, 'e) result" where
  "pooled_merge (Some (PooledV1 v)) operand = and_then (pp_merge_with v operand) (\<lambda>v. Ok (Some (PooledV1 v)))"
| "pooled_merge None operand = Ok (map_option PooledV1 (pp_merge_new operand))"

subsection \<open>Storage pools\<close>

record storage_pool_info_v1 =
  sp_start_epoch :: epoch
  sp_end_epoch :: epoch

datatype storage_pool_info = StoragePoolV1 storage_pool_info_v1

definition storage_pool_info_new :: "epoch \<Rightarrow> epoch \<Rightarrow> storage_pool_info" where
  "storage_pool_info_new start_epoch end_epoch = StoragePoolV1 \<lparr>sp_start_epoch = start_epoch, sp_end_epoch = end_epoch\<rparr>"

fun pool_end_epoch :: "storage_pool_info \<Rightarrow> epoch" where
  "pool_end_epoch (StoragePoolV1 v1) = sp_end_epoch v1"

datatype storage_pool_info_merge_operand = PoolCreate epoch epoch | PoolExtend epoch

fun pool_merge_with :: "storage_pool_info \<Rightarrow> storage_pool_info_merge_operand \<Rightarrow> (storage_pool_info, 'e) result" where
  "pool_merge_with (StoragePoolV1 v1) (PoolExtend end_epoch) = Ok (StoragePoolV1 (v1\<lparr>sp_end_epoch := max (sp_end_epoch v1) end_epoch\<rparr>))"
| "pool_merge_with (StoragePoolV1 v1) (PoolCreate start_epoch end_epoch) = Panic"

fun pool_merge_new :: "storage_pool_info_merge_operand \<Rightarrow> (storage_pool_info option, 'e) result" where
  "pool_merge_new (PoolCreate start_epoch end_epoch) = Ok (Some (storage_pool_info_new start_epoch end_epoch))"
| "pool_merge_new (PoolExtend end_epoch) = Panic"

fun pool_merge :: "storage_pool_info option \<Rightarrow> storage_pool_info_merge_operand \<Rightarrow> (storage_pool_info option, 'e) result" where
  "pool_merge (Some v) operand = and_then (pool_merge_with v operand) (\<lambda>v. Ok (Some v))"
| "pool_merge None operand = pool_merge_new operand"

subsection \<open>The database\<close>

datatype table_error = MergeFailed

fun blob_info_merge :: "blob_info option \<Rightarrow> blob_info_merge_operand \<Rightarrow> (blob_info option, 'e) result" where
  "blob_info_merge (Some existing_val) operand = and_then (blob_info_merge_with existing_val operand) (\<lambda>v. Ok (Some v))"
| "blob_info_merge None operand = blob_info_merge_new operand"

text \<open>\<open>merge\<close> is the function \<open>T::merge\<close> of the type of the values.\<close>

definition merge_mergeable ::
  "('v option \<Rightarrow> 'o \<Rightarrow> ('v option, 'e) result) \<Rightarrow> 'v option \<Rightarrow> 'o list \<Rightarrow> ('v option, 'e) result" where
  "merge_mergeable merge existing_val operands = try_fold merge existing_val operands"

definition partial_merge ::
  "('v option \<Rightarrow> 'o \<Rightarrow> ('v option, table_error) result) \<Rightarrow> 'k \<Rightarrow> 'o list \<Rightarrow> ('k, 'v) mapping \<Rightarrow> (('k, 'v) mapping, table_error) result" where
  "partial_merge merge k operands t =
    and_then (merge_mergeable merge (Mapping.lookup t k) operands) (\<lambda>v.
    (case v of None \<Rightarrow> Err MergeFailed | Some v \<Rightarrow> Ok (Mapping.update k v t)))"

text \<open>The range iterator from a key, which is excluded, or from the first one.\<close>

definition range_iter :: "('k :: linorder, 'v) mapping \<Rightarrow> 'k option \<Rightarrow> ('k \<times> 'v) list" where
  "range_iter t start_bound =
    List.map_filter (\<lambda>k. map_option (\<lambda>v. (k, v)) (Mapping.lookup t k))
      (filter (\<lambda>k. case start_bound of None \<Rightarrow> True | Some b \<Rightarrow> b < k) (Mapping.ordered_keys t))"

record blob_info_table =
  aggregate_blob_info :: "(blob_id, blob_info) mapping"
  per_object_blob_info :: "(object_id, per_object_blob_info) mapping"
  per_object_pooled_blob_info :: "(object_id, per_object_pooled_blob_info) mapping"
  storage_pool_info :: "(object_id, storage_pool_info) mapping"
  latest_handled_event_index :: "nat option"

definition empty_table :: blob_info_table where
  "empty_table = \<lparr>aggregate_blob_info = Mapping.empty, per_object_blob_info = Mapping.empty,
    per_object_pooled_blob_info = Mapping.empty, storage_pool_info = Mapping.empty, latest_handled_event_index = None\<rparr>"

definition table_clear :: "blob_info_table \<Rightarrow> blob_info_table" where
  "table_clear self = self\<lparr>aggregate_blob_info := Mapping.empty, per_object_blob_info := Mapping.empty,
    per_object_pooled_blob_info := Mapping.empty, storage_pool_info := Mapping.empty, latest_handled_event_index := None\<rparr>"

subsection \<open>Events\<close>

fun has_event_been_handled :: "nat option \<Rightarrow> nat \<Rightarrow> bool" where
  "has_event_been_handled None event_index = False"
| "has_event_been_handled (Some i) event_index = (event_index \<le> i)"

fun update_per_object_blob_info :: "blob_event \<Rightarrow> blob_info_table \<Rightarrow> (blob_info_table, table_error) result" where
  "update_per_object_blob_info (Registered e) self =
    and_then (partial_merge per_object_merge (br_object_id e) [(registered_change_type e, registered_change_info e)] (per_object_blob_info self)) (\<lambda>t.
    Ok (self\<lparr>per_object_blob_info := t\<rparr>))"
| "update_per_object_blob_info (Certified e) self =
    and_then (partial_merge per_object_merge (bc_object_id e) [(certified_change_type e, certified_change_info e)] (per_object_blob_info self)) (\<lambda>t.
    Ok (self\<lparr>per_object_blob_info := t\<rparr>))"
| "update_per_object_blob_info (Deleted e) self =
    Ok (self\<lparr>per_object_blob_info := Mapping.delete (bdel_object_id e) (per_object_blob_info self)\<rparr>)"
| "update_per_object_blob_info (PooledBlobRegistered e) self =
    and_then (partial_merge pooled_merge (pr_object_id e) [(pooled_registered_change_type e, pooled_registered_change_info e)]
      (per_object_pooled_blob_info self)) (\<lambda>t. Ok (self\<lparr>per_object_pooled_blob_info := t\<rparr>))"
| "update_per_object_blob_info (PooledBlobCertified e) self =
    and_then (partial_merge pooled_merge (pc_object_id e) [(pooled_certified_change_type e, pooled_certified_change_info e)]
      (per_object_pooled_blob_info self)) (\<lambda>t. Ok (self\<lparr>per_object_pooled_blob_info := t\<rparr>))"
| "update_per_object_blob_info (PooledBlobDeleted e) self =
    Ok (self\<lparr>per_object_pooled_blob_info := Mapping.delete (pd_object_id e) (per_object_pooled_blob_info self)\<rparr>)"
| "update_per_object_blob_info (InvalidBlobID e) self = Ok self"
| "update_per_object_blob_info (DenyListBlobDeleted e) self = Ok self"

definition update_blob_info :: "nat \<Rightarrow> blob_event \<Rightarrow> blob_info_table \<Rightarrow> (blob_info_table, table_error) result" where
  "update_blob_info event_index event self =
    (if has_event_been_handled (latest_handled_event_index self) event_index then Ok self
     else and_then (blob_event_merge_operand event) (\<lambda>operation.
       and_then (partial_merge blob_info_merge (event_blob_id event) [operation] (aggregate_blob_info self)) (\<lambda>t.
       and_then (update_per_object_blob_info event (self\<lparr>aggregate_blob_info := t\<rparr>)) (\<lambda>self.
       Ok (self\<lparr>latest_handled_event_index := Some event_index\<rparr>)))))"

text \<open>The end epoch that lets an event be skipped during recovery with an incomplete history.\<close>

fun event_end_epoch :: "blob_event \<Rightarrow> epoch option" where
  "event_end_epoch (Registered e) = Some (br_end_epoch e)"
| "event_end_epoch (Certified e) = Some (bc_end_epoch e)"
| "event_end_epoch (Deleted e) = Some (bdel_end_epoch e)"
| "event_end_epoch _ = None"

definition handle_extension_of_untracked_blob :: "nat \<Rightarrow> blob_certified \<Rightarrow> blob_info_table \<Rightarrow> (blob_info_table, table_error) result" where
  "handle_extension_of_untracked_blob event_index extension_event self =
    (if has_event_been_handled (latest_handled_event_index self) event_index then Ok self
     else
       let change_info = \<lparr>ci_blob_id = bc_blob_id extension_event, ci_deletable = bc_deletable extension_event,
             ci_epoch = bc_epoch extension_event, ci_end_epoch = bc_end_epoch extension_event, ci_status_event = bc_event_id extension_event\<rparr>;
           operations = map (\<lambda>change_type. ChangeStatus change_type change_info) [Register, Certify] in
       and_then (try_map (\<lambda>operation. expect (from_blob_info_merge_operand operation)) operations) (\<lambda>per_object_operations.
       and_then (partial_merge blob_info_merge (bc_blob_id extension_event) operations (aggregate_blob_info self)) (\<lambda>a.
       and_then (partial_merge per_object_merge (bc_object_id extension_event) per_object_operations (per_object_blob_info self)) (\<lambda>p.
       Ok (self\<lparr>aggregate_blob_info := a, per_object_blob_info := p, latest_handled_event_index := Some event_index\<rparr>)))))"

definition update_blob_info_during_recovery_with_incomplete_history ::
  "nat \<Rightarrow> blob_event \<Rightarrow> epoch \<Rightarrow> blob_info_table \<Rightarrow> (blob_info_table, table_error) result" where
  "update_blob_info_during_recovery_with_incomplete_history event_index event epoch_at_start self =
    (if (case event_end_epoch event of Some end_epoch \<Rightarrow> end_epoch \<le> epoch_at_start | None \<Rightarrow> False) then Ok self
     else (case event of
       Certified e \<Rightarrow>
         if \<not> bc_is_extension e then update_blob_info event_index event self
         else (case Mapping.lookup (per_object_blob_info self) (bc_object_id e) of
           Some info \<Rightarrow>
             and_then (rust_assert (po_is_registered (po_v1 info) epoch_at_start)) (\<lambda>_. update_blob_info event_index event self)
         | None \<Rightarrow> handle_extension_of_untracked_blob event_index e self)
     | _ \<Rightarrow> update_blob_info event_index event self))"

definition set_metadata_stored :: "blob_id \<Rightarrow> bool \<Rightarrow> blob_info_table \<Rightarrow> (blob_info_table, table_error) result" where
  "set_metadata_stored bid metadata_stored self =
    and_then (partial_merge blob_info_merge bid [MarkMetadataStored metadata_stored] (aggregate_blob_info self)) (\<lambda>t.
    Ok (self\<lparr>aggregate_blob_info := t\<rparr>))"

fun storage_pool_event_operand :: "storage_pool_event \<Rightarrow> storage_pool_info_merge_operand" where
  "storage_pool_event_operand (StoragePoolCreated e) = PoolCreate (spc_start_epoch e) (spc_end_epoch e)"
| "storage_pool_event_operand (StoragePoolExtended e) = PoolExtend (spe_new_end_epoch e)"

definition update_storage_pool_info :: "nat \<Rightarrow> storage_pool_event \<Rightarrow> blob_info_table \<Rightarrow> (blob_info_table, table_error) result" where
  "update_storage_pool_info event_index event self =
    (if has_event_been_handled (latest_handled_event_index self) event_index then Ok self
     else and_then (partial_merge pool_merge (pool_event_storage_pool_id event) [storage_pool_event_operand event] (storage_pool_info self)) (\<lambda>t.
       Ok (self\<lparr>storage_pool_info := t, latest_handled_event_index := Some event_index\<rparr>)))"

definition table_get :: "blob_id \<Rightarrow> blob_info_table \<Rightarrow> blob_info option" where
  "table_get bid self = Mapping.lookup (aggregate_blob_info self) bid"

end
