(* ===== verification/BlobInfoGc.thy ===== *)
theory BlobInfoGc
  imports BlobInfoTable
begin

text \<open>
  Garbage collection of the tables of blob information: the methods \<open>process_expired_*\<close> and \<open>check_invariants\<close> of \<open>BlobInfoTable\<close>, the
  batch loop of \<open>common/utils.rs\<close>, the deletion of expired blob data in \<open>node/storage.rs\<close>, and the first phase of
  \<open>node/garbage_collector.rs\<close>. Metrics and logging are left out, and so are conflicts of the optimistic transactions, after
  which the code changes nothing.
\<close>

subsection \<open>Batches\<close>

record 'k batch_processing_result =
  total_count :: nat
  modified_count :: nat
  last_processed_item :: "'k option"

text \<open>The loop over batches, on a state \<open>'s\<close>. It need not end for every \<open>process_function\<close>, and then its value is \<open>None\<close>.\<close>

partial_function (option) process_items_in_batches ::
  "('k option \<Rightarrow> 's \<Rightarrow> ('k batch_processing_result \<times> 's, 'e) result) \<Rightarrow> 'k option \<Rightarrow> nat \<Rightarrow> 's \<Rightarrow> (nat \<times> 's, 'e) result option" where
  "process_items_in_batches process_function last_item modified_total s =
    (case process_function last_item s of
       Ok (r, s) \<Rightarrow>
         if total_count r = 0 then Some (Ok (modified_total, s))
         else process_items_in_batches process_function (last_processed_item r) (modified_total + modified_count r) s
     | Err e \<Rightarrow> Some (Err e)
     | Panic \<Rightarrow> Some Panic)"

text \<open>One batch: the loop over the first \<open>batch_size\<close> entries from \<open>last_item\<close> on. The body gives the new state, and whether the entry
  was modified.\<close>

definition process_batch ::
  "('k \<Rightarrow> 'v \<Rightarrow> 's \<Rightarrow> ('s \<times> bool, 'e) result) \<Rightarrow> ('k :: linorder, 'v) mapping \<Rightarrow> nat \<Rightarrow> 'k option \<Rightarrow> 's
    \<Rightarrow> ('k batch_processing_result \<times> 's, 'e) result" where
  "process_batch body t batch_size last_item s =
    try_fold (\<lambda>(r, s) (k, v).
        and_then (body k v s) (\<lambda>(s, modified).
        Ok (\<lparr>total_count = total_count r + 1, modified_count = modified_count r + (if modified then 1 else 0), last_processed_item = Some k\<rparr>, s)))
      (\<lparr>total_count = 0, modified_count = 0, last_processed_item = last_item\<rparr>, s) (take batch_size (range_iter t last_item))"

subsection \<open>Expired entries\<close>

text \<open>The body of each loop over entries is a definition of its own.\<close>

definition process_maybe_expired_pool ::
  "epoch \<Rightarrow> object_id \<Rightarrow> storage_pool_info \<Rightarrow> blob_info_table \<Rightarrow> (blob_info_table \<times> bool, table_error) result" where
  "process_maybe_expired_pool current_epoch pool_id info self =
    (if pool_end_epoch info \<le> current_epoch then Ok (self\<lparr>storage_pool_info := Mapping.delete pool_id (storage_pool_info self)\<rparr>, True)
     else Ok (self, False))"

definition process_expired_storage_pool_batch ::
  "nat \<Rightarrow> epoch \<Rightarrow> object_id option \<Rightarrow> blob_info_table \<Rightarrow> (object_id batch_processing_result \<times> blob_info_table, table_error) result" where
  "process_expired_storage_pool_batch batch_size current_epoch last_processed_pool_id self =
    process_batch (process_maybe_expired_pool current_epoch) (storage_pool_info self) batch_size last_processed_pool_id self"

definition process_expired_storage_pools :: "epoch \<Rightarrow> nat \<Rightarrow> blob_info_table \<Rightarrow> (blob_info_table, table_error) result option" where
  "process_expired_storage_pools current_epoch batch_size self =
    map_option (\<lambda>r. and_then r (\<lambda>(_, self). Ok self))
      (process_items_in_batches (process_expired_storage_pool_batch batch_size current_epoch) None 0 self)"

definition process_maybe_expired_blob_object ::
  "epoch \<Rightarrow> object_id \<Rightarrow> per_object_blob_info \<Rightarrow> blob_info_table \<Rightarrow> (blob_info_table \<times> bool, table_error) result" where
  "process_maybe_expired_blob_object current_epoch oid info self =
    (let p = po_v1 info in
     if po_is_registered p current_epoch then Ok (self, False)
     else
       let was_certified = (po_certified_epoch p \<noteq> None);
           self = self\<lparr>per_object_blob_info := Mapping.delete oid (per_object_blob_info self)\<rparr> in
       if \<not> po_deleted p then
         and_then (partial_merge blob_info_merge (po_blob_id p)
           [if po_deletable p then DeletableExpired was_certified else PermanentExpired was_certified] (aggregate_blob_info self)) (\<lambda>t.
         Ok (self\<lparr>aggregate_blob_info := t\<rparr>, True))
       else Ok (self, True))"

definition process_expired_regular_blob_objects_batch ::
  "nat \<Rightarrow> epoch \<Rightarrow> object_id option \<Rightarrow> blob_info_table \<Rightarrow> (object_id batch_processing_result \<times> blob_info_table, table_error) result" where
  "process_expired_regular_blob_objects_batch batch_size current_epoch last_processed_object_id self =
    process_batch (process_maybe_expired_blob_object current_epoch) (per_object_blob_info self) batch_size last_processed_object_id self"

definition process_expired_regular_blob_objects :: "epoch \<Rightarrow> nat \<Rightarrow> blob_info_table \<Rightarrow> (blob_info_table, table_error) result option" where
  "process_expired_regular_blob_objects current_epoch batch_size self =
    map_option (\<lambda>r. and_then r (\<lambda>(_, self). Ok self))
      (process_items_in_batches (process_expired_regular_blob_objects_batch batch_size current_epoch) None 0 self)"

text \<open>The state of the collection of pooled objects is the table with the cache of the pools that have been looked up.\<close>

type_synonym pool_expired_cache = "(object_id, bool) mapping"

definition process_maybe_expired_pooled_blob_object ::
  "epoch \<Rightarrow> object_id \<Rightarrow> per_object_pooled_blob_info \<Rightarrow> pool_expired_cache \<times> blob_info_table
    \<Rightarrow> ((pool_expired_cache \<times> blob_info_table) \<times> bool, table_error) result" where
  "process_maybe_expired_pooled_blob_object current_epoch oid info s =
    (let (cache, self) = s; v1 = pp_v1 info; pool = pp_storage_pool_id v1;
         (is_expired, cache) = (case Mapping.lookup cache pool of
             Some cached \<Rightarrow> (cached, cache)
           | None \<Rightarrow>
               let expired = (case Mapping.lookup (storage_pool_info self) pool of None \<Rightarrow> True | Some info \<Rightarrow> pool_end_epoch info \<le> current_epoch)
               in (expired, Mapping.update pool expired cache)) in
     if \<not> is_expired then Ok ((cache, self), False)
     else
       let was_certified = (pp_certified_epoch v1 \<noteq> None);
           self = self\<lparr>per_object_pooled_blob_info := Mapping.delete oid (per_object_pooled_blob_info self)\<rparr> in
       and_then (partial_merge blob_info_merge (pp_blob_id v1) [PoolExpired pool was_certified] (aggregate_blob_info self)) (\<lambda>t.
       Ok ((cache, self\<lparr>aggregate_blob_info := t\<rparr>), True)))"

definition process_expired_pooled_blob_objects_batch ::
  "nat \<Rightarrow> epoch \<Rightarrow> object_id option \<Rightarrow> pool_expired_cache \<times> blob_info_table
    \<Rightarrow> (object_id batch_processing_result \<times> pool_expired_cache \<times> blob_info_table, table_error) result" where
  "process_expired_pooled_blob_objects_batch batch_size current_epoch last_processed_object_id s =
    process_batch (process_maybe_expired_pooled_blob_object current_epoch) (per_object_pooled_blob_info (snd s)) batch_size last_processed_object_id s"

definition process_expired_pooled_blob_objects :: "epoch \<Rightarrow> nat \<Rightarrow> blob_info_table \<Rightarrow> (blob_info_table, table_error) result option" where
  "process_expired_pooled_blob_objects current_epoch batch_size self =
    map_option (\<lambda>r. and_then r (\<lambda>(_, _, self). Ok self))
      (process_items_in_batches (process_expired_pooled_blob_objects_batch batch_size current_epoch) None 0 (Mapping.empty, self))"

text \<open>Computations that may not end, one after the other.\<close>

definition then_run :: "('a, 'e) result option \<Rightarrow> ('a \<Rightarrow> ('b, 'e) result option) \<Rightarrow> ('b, 'e) result option" where
  "then_run m f = (case m of None \<Rightarrow> None | Some (Ok x) \<Rightarrow> f x | Some (Err e) \<Rightarrow> Some (Err e) | Some Panic \<Rightarrow> Some Panic)"

definition process_expired_blob_objects :: "epoch \<Rightarrow> nat \<Rightarrow> blob_info_table \<Rightarrow> (blob_info_table, table_error) result option" where
  "process_expired_blob_objects current_epoch batch_size self =
    then_run (process_expired_regular_blob_objects current_epoch batch_size self) (process_expired_pooled_blob_objects current_epoch batch_size)"

definition perform_blob_info_cleanup :: "epoch \<Rightarrow> nat \<Rightarrow> blob_info_table \<Rightarrow> (blob_info_table, table_error) result option" where
  "perform_blob_info_cleanup current_epoch batch_size self =
    then_run (process_expired_storage_pools current_epoch batch_size self) (process_expired_blob_objects current_epoch batch_size)"

subsection \<open>The data of blobs\<close>

text \<open>What a storage node keeps of a blob: its metadata, and for every shard its two slivers. Values are opaque here.\<close>

record ('m, 's) storage =
  blob_info :: blob_info_table
  metadata_cf :: "(blob_id, 'm) mapping"
  primary_slivers :: "(shard_index \<times> blob_id, 's) mapping"
  secondary_slivers :: "(shard_index \<times> blob_id, 's) mapping"

definition delete_sliver_pair_in_transaction :: "blob_id \<Rightarrow> shard_index \<Rightarrow> ('m, 's) storage \<Rightarrow> ('m, 's) storage" where
  "delete_sliver_pair_in_transaction bid shard self =
    self\<lparr>primary_slivers := Mapping.delete (shard, bid) (primary_slivers self),
         secondary_slivers := Mapping.delete (shard, bid) (secondary_slivers self)\<rparr>"

definition delete_blob_data_in_transaction :: "blob_id \<Rightarrow> shard_index list \<Rightarrow> ('m, 's) storage \<Rightarrow> ('m, 's) storage" where
  "delete_blob_data_in_transaction bid shards self =
    fold (delete_sliver_pair_in_transaction bid) shards (self\<lparr>metadata_cf := Mapping.delete bid (metadata_cf self)\<rparr>)"

definition attempt_to_delete_blob_data_inner :: "blob_id \<Rightarrow> epoch \<Rightarrow> shard_index list \<Rightarrow> ('m, 's) storage \<Rightarrow> ('m, 's) storage \<times> bool" where
  "attempt_to_delete_blob_data_inner bid current_epoch shards self =
    (case table_get bid (blob_info self) of
       None \<Rightarrow> (self, False)
     | Some info \<Rightarrow>
         if \<not> can_data_be_deleted info current_epoch then (self, False)
         else
           let self = (if can_blob_info_be_deleted info current_epoch
                 then self\<lparr>blob_info := (blob_info self)\<lparr>aggregate_blob_info := Mapping.delete bid (aggregate_blob_info (blob_info self))\<rparr>\<rparr>
                 else self)
           in (delete_blob_data_in_transaction bid shards self, True))"

definition process_maybe_expired_data ::
  "shard_index list \<Rightarrow> epoch \<Rightarrow> blob_id \<Rightarrow> blob_info \<Rightarrow> ('m, 's) storage \<Rightarrow> (('m, 's) storage \<times> bool, table_error) result" where
  "process_maybe_expired_data shards current_epoch bid info self =
    (if \<not> can_data_be_deleted info current_epoch then Ok (self, False)
     else Ok (attempt_to_delete_blob_data_inner bid current_epoch shards self))"

definition iterate_and_delete_expired_blob_data ::
  "shard_index list \<Rightarrow> nat \<Rightarrow> epoch \<Rightarrow> blob_id option \<Rightarrow> ('m, 's) storage \<Rightarrow> (blob_id batch_processing_result \<times> ('m, 's) storage, table_error) result" where
  "iterate_and_delete_expired_blob_data shards batch_size current_epoch last_processed_blob_id self =
    process_batch (process_maybe_expired_data shards current_epoch) (aggregate_blob_info (blob_info self)) batch_size last_processed_blob_id self"

text \<open>The first component of the result is the value that is returned: whether the processing was completed.\<close>

definition delete_expired_blob_data ::
  "bool \<Rightarrow> bool \<Rightarrow> shard_index list \<Rightarrow> epoch \<Rightarrow> nat \<Rightarrow> ('m, 's) storage \<Rightarrow> (bool \<times> ('m, 's) storage, table_error) result option" where
  "delete_expired_blob_data supports_transactions is_active shards current_epoch batch_size self =
    (if \<not> supports_transactions then Some (Ok (False, self))
     else if \<not> is_active then Some (Ok (False, self))
     else map_option (\<lambda>r. and_then r (\<lambda>(_, self). Ok (True, self)))
       (process_items_in_batches (iterate_and_delete_expired_blob_data shards batch_size current_epoch) None 0 self))"

subsection \<open>The check of the invariants\<close>

datatype table_invariant_error =
  BlobInfoNotFound blob_id object_id
| CountDeletableTotal blob_id
| CountDeletableCertified blob_id
| LatestSeenRegistered blob_id
| LatestSeenCertified blob_id
| PooledWithV1 blob_id
| PerObjectNotFound blob_id
| AggregateViolated blob_id invariant_error
| PooledTotalMismatch blob_id
| PooledCertifiedMismatch blob_id

definition check_per_object_entry ::
  "blob_info_table \<Rightarrow> object_id \<Rightarrow> per_object_blob_info_v1 \<Rightarrow> (unit, table_invariant_error) result" where
  "check_per_object_entry self oid p =
    (let bid = po_blob_id p in
     case Mapping.lookup (aggregate_blob_info self) bid of
       None \<Rightarrow> Err (BlobInfoNotFound bid oid)
     | Some (V1 (ValidV1 v)) \<Rightarrow>
         if po_deletable p then
           and_then (ensure (v1_count_deletable_total v > 0) (CountDeletableTotal bid)) (\<lambda>_.
           and_then (ensure (case v1_latest_seen_deletable_registered_end_epoch v of Some e \<Rightarrow> e \<ge> po_end_epoch p | None \<Rightarrow> False) (LatestSeenRegistered bid)) (\<lambda>_.
           if po_certified_epoch p \<noteq> None then
             and_then (ensure (v1_count_deletable_certified v > 0) (CountDeletableCertified bid)) (\<lambda>_.
             ensure (case v1_latest_seen_deletable_certified_end_epoch v of Some e \<Rightarrow> e \<ge> po_end_epoch p | None \<Rightarrow> False) (LatestSeenCertified bid))
           else Ok ()))
         else Ok ()
     | Some _ \<Rightarrow> Ok ())"

text \<open>The counts of pooled objects, by blob ID; a count that overflows its type panics.\<close>

definition check_pooled_entry ::
  "blob_info_table \<Rightarrow> (blob_id, nat \<times> nat) mapping \<Rightarrow> object_id \<times> per_object_pooled_blob_info \<Rightarrow> ((blob_id, nat \<times> nat) mapping, table_invariant_error) result" where
  "check_pooled_entry self pooled_counts x =
    (let (oid, info) = x; bid = pp_blob_id (pp_v1 info) in
     case Mapping.lookup (aggregate_blob_info self) bid of
       None \<Rightarrow> Err (BlobInfoNotFound bid oid)
     | Some (V1 _) \<Rightarrow> Err (PooledWithV1 bid)
     | Some (V2 _) \<Rightarrow>
         let (n, certified) = (case Mapping.lookup pooled_counts bid of Some c \<Rightarrow> c | None \<Rightarrow> (0, 0)) in
         and_then (expect (checked U32_MAX (n + 1))) (\<lambda>n.
         and_then (if pp_certified_epoch (pp_v1 info) \<noteq> None then expect (checked U32_MAX (certified + 1)) else Ok certified) (\<lambda>certified.
         Ok (Mapping.update bid (n, certified) pooled_counts))))"

definition check_aggregate_entry ::
  "(blob_id, nat \<times> nat) mapping \<Rightarrow> blob_id set \<Rightarrow> blob_id \<Rightarrow> blob_info \<Rightarrow> (unit, table_invariant_error) result" where
  "check_aggregate_entry pooled_counts per_object_table_blob_ids bid info =
    (case info of
       V1 (ValidV1 v) \<Rightarrow>
         and_then (ensure (v1_has_no_objects v \<or> bid \<in> per_object_table_blob_ids) (PerObjectNotFound bid)) (\<lambda>_.
         map_err (AggregateViolated bid) (v1_check_invariants v))
     | V2 (ValidV2 v) \<Rightarrow>
         and_then (ensure (v2_has_no_objects v \<or> bid \<in> per_object_table_blob_ids) (PerObjectNotFound bid)) (\<lambda>_.
         and_then (map_err (AggregateViolated bid) (v2_check_invariants v)) (\<lambda>_.
         let (expected_total, expected_certified) = (case Mapping.lookup pooled_counts bid of Some c \<Rightarrow> c | None \<Rightarrow> (0, 0)) in
         and_then (ensure (v2_count_pooled_refs_total v = expected_total) (PooledTotalMismatch bid)) (\<lambda>_.
         ensure (v2_count_pooled_refs_certified v = expected_certified) (PooledCertifiedMismatch bid))))
     | _ \<Rightarrow> Ok ())"

definition check_invariants :: "blob_info_table \<Rightarrow> (unit, table_invariant_error) result" where
  "check_invariants self =
    and_then (try_fold (\<lambda>_ (oid, info). check_per_object_entry self oid (po_v1 info)) () (range_iter (per_object_blob_info self) None)) (\<lambda>_.
    and_then (try_fold (check_pooled_entry self) Mapping.empty (range_iter (per_object_pooled_blob_info self) None)) (\<lambda>pooled_counts.
    let per_object_table_blob_ids =
      (\<lambda>(oid, info). po_blob_id (po_v1 info)) ` set (range_iter (per_object_blob_info self) None)
      \<union> (\<lambda>(oid, info). pp_blob_id (pp_v1 info)) ` set (range_iter (per_object_pooled_blob_info self) None) in
    try_fold (\<lambda>_ (bid, info). check_aggregate_entry pooled_counts per_object_table_blob_ids bid info) () (range_iter (aggregate_blob_info self) None)))"

end
