(* ===== verification/BlobInfoInvariant.thy ===== *)
theory BlobInfoInvariant
  imports BlobInfoGc
begin

text \<open>
  The aggregate blob information is a summary of the objects. The interface \<open>object_summary\<close> says what a version of the aggregate
  entries promises: how its counters follow the changes, and that the end epochs that it keeps cover those of the objects. Both
  versions provide it. On it rest the invariant of the tables, that \<open>check_invariants\<close> accepts every table that the
  node can reach, and that every live object is seen in the aggregate entry of its blob.
\<close>

subsection \<open>Counting the entries of a table\<close>

definition count_if :: "('v \<Rightarrow> bool) \<Rightarrow> ('k, 'v) mapping \<Rightarrow> nat" where
  "count_if P t = card {k. \<exists>v. Mapping.lookup t k = Some v \<and> P v}"

lemma lookup_delete_iff: "Mapping.lookup (Mapping.delete k t) j = (if j = k then None else Mapping.lookup t j)"
  by (cases "j = k") auto

lemma finite_entries: "finite (Mapping.keys t) \<Longrightarrow> finite {k. \<exists>v. Mapping.lookup t k = Some v \<and> P v}"
  by (rule finite_subset [of _ "Mapping.keys t"]) (auto simp: keys_dom_lookup)

lemma count_if_split:
  assumes "finite (Mapping.keys t)"
  shows "count_if P t = count_if P (Mapping.delete k t) + (case Mapping.lookup t k of None \<Rightarrow> 0 | Some v \<Rightarrow> of_bool (P v))"
proof -
  let ?A = "{j. \<exists>v. Mapping.lookup t j = Some v \<and> P v}" and ?B = "{j. \<exists>v. Mapping.lookup (Mapping.delete k t) j = Some v \<and> P v}"
  have B: "?B = ?A - {k}" by (auto simp: lookup_delete_iff split: if_splits)
  show ?thesis
  proof (cases "k \<in> ?A")
    case True
    then have "card ?A = card (?A - {k}) + 1" using card_Suc_Diff1 [OF finite_entries [OF assms] True] by simp
    then show ?thesis using True by (auto simp: count_if_def B)
  next
    case False
    then show ?thesis by (auto simp: count_if_def B split: option.splits)
  qed
qed

lemma count_if_update:
  assumes "finite (Mapping.keys t)"
  shows "count_if P (Mapping.update k v t) = count_if P (Mapping.delete k t) + of_bool (P v)"
proof -
  have "Mapping.delete k (Mapping.update k v t) = Mapping.delete k t"
    by (rule mapping_eqI) (simp add: lookup_delete_iff lookup_update')
  then show ?thesis using count_if_split [of "Mapping.update k v t" P k] assms by simp
qed

lemma count_if_pos: "finite (Mapping.keys t) \<Longrightarrow> Mapping.lookup t k = Some v \<Longrightarrow> P v \<Longrightarrow> 0 < count_if P t"
  using finite_entries [of t P] by (auto simp: count_if_def card_gt_0_iff)

lemma count_if_0: "finite (Mapping.keys t) \<Longrightarrow> count_if P t = 0 \<longleftrightarrow> (\<forall>k v. Mapping.lookup t k = Some v \<longrightarrow> \<not> P v)"
  using finite_entries [of t P] by (auto simp: count_if_def)

lemma count_if_mono: "finite (Mapping.keys t) \<Longrightarrow> (\<And>v. P v \<Longrightarrow> Q v) \<Longrightarrow> count_if P t \<le> count_if Q t"
  unfolding count_if_def by (rule card_mono) (auto intro: finite_entries)

subsection \<open>Summaries of objects\<close>

text \<open>The objects of a blob, by whether they are deletable; with \<open>c\<close> only the certified ones.\<close>

definition of_class :: "blob_id \<Rightarrow> bool \<Rightarrow> bool \<Rightarrow> per_object_blob_info \<Rightarrow> bool" where
  "of_class b d c x \<longleftrightarrow> po_blob_id (po_v1 x) = b \<and> po_deletable (po_v1 x) = d \<and> (c \<longrightarrow> po_certified_epoch (po_v1 x) \<noteq> None)"

text \<open>The counters are those of the objects in the table, and the end epochs cover those of the objects.\<close>

definition matches ::
  "('v \<Rightarrow> bool \<Rightarrow> bool \<Rightarrow> nat) \<Rightarrow> ('v \<Rightarrow> bool \<Rightarrow> bool \<Rightarrow> epoch \<Rightarrow> bool) \<Rightarrow> 'v \<Rightarrow> (object_id, per_object_blob_info) mapping \<Rightarrow> blob_id \<Rightarrow> bool" where
  "matches cnt covers v m b \<longleftrightarrow> (\<forall>d c. cnt v d c = count_if (of_class b d c) m)
    \<and> (\<forall>k x d c. Mapping.lookup m k = Some x \<longrightarrow> of_class b d c x \<longrightarrow> covers v d c (po_end_epoch (po_v1 x)))"

lemma matchesD:
  assumes "matches cnt covers v m b"
  shows "cnt v d c = count_if (of_class b d c) m" "Mapping.lookup m k = Some x \<Longrightarrow> of_class b d c x \<Longrightarrow> covers v d c (po_end_epoch (po_v1 x))"
  using assms by (auto simp: matches_def)

text \<open>Entries of other blobs do not matter: two tables that agree on the entries of a blob are the same for it.\<close>

definition agree :: "('v \<Rightarrow> blob_id) \<Rightarrow> blob_id \<Rightarrow> ('k, 'v) mapping \<Rightarrow> ('k, 'v) mapping \<Rightarrow> bool" where
  "agree f b m m' \<longleftrightarrow> (\<forall>k x. f x = b \<longrightarrow> (Mapping.lookup m k = Some x \<longleftrightarrow> Mapping.lookup m' k = Some x))"

lemma agree_refl [simp]: "agree f b m m"
  by (simp add: agree_def)

lemma agree_update: "f x \<noteq> b \<Longrightarrow> (\<And>y. Mapping.lookup m k = Some y \<Longrightarrow> f y \<noteq> b) \<Longrightarrow> agree f b m (Mapping.update k x m)"
  by (auto simp: agree_def lookup_update')

lemma agree_delete: "(\<And>y. Mapping.lookup m k = Some y \<Longrightarrow> f y \<noteq> b) \<Longrightarrow> agree f b m (Mapping.delete k m)"
  by (auto simp: agree_def lookup_delete_iff)

lemma agree_count: "agree f b m m' \<Longrightarrow> (\<And>x. P x \<Longrightarrow> f x = b) \<Longrightarrow> count_if P m' = count_if P m"
  unfolding count_if_def agree_def by metis

lemma agree_matches:
  assumes "agree (\<lambda>x. po_blob_id (po_v1 x)) b m m'" "matches cnt covers v m b"
  shows "matches cnt covers v m' b"
proof -
  have "count_if (of_class b d c) m' = count_if (of_class b d c) m" for d c
    by (rule agree_count [OF assms(1)]) (simp add: of_class_def)
  then show ?thesis using assms by (auto simp: matches_def agree_def of_class_def)
qed

text \<open>What a version of the aggregate entries provides: \<open>upd\<close> for the change of a status, and \<open>expired\<close> for an object that expires.\<close>

locale object_summary =
  fixes inv :: "'v \<Rightarrow> bool"
    and cnt :: "'v \<Rightarrow> bool \<Rightarrow> bool \<Rightarrow> nat"
    and covers :: "'v \<Rightarrow> bool \<Rightarrow> bool \<Rightarrow> epoch \<Rightarrow> bool"
    and since :: "'v \<Rightarrow> epoch option"
    and upd :: "blob_status_change_type \<Rightarrow> blob_status_change_info \<Rightarrow> 'v \<Rightarrow> 'v option"
    and expired :: "bool \<Rightarrow> bool \<Rightarrow> 'v \<Rightarrow> 'v"
  assumes upd_register: "inv v \<Longrightarrow> cnt v (ci_deletable i) False < U32_MAX \<Longrightarrow>
      \<exists>v'. upd Register i v = Some v' \<and> inv v' \<and> since v' = since v
        \<and> (\<forall>d c. cnt v' d c = cnt v d c + of_bool (d = ci_deletable i \<and> \<not> c))
        \<and> covers v' (ci_deletable i) False (ci_end_epoch i) \<and> (\<forall>d c e. covers v d c e \<longrightarrow> covers v' d c e)"
    and upd_certify: "inv v \<Longrightarrow> cnt v (ci_deletable i) True < cnt v (ci_deletable i) False \<Longrightarrow>
      covers v (ci_deletable i) False (ci_end_epoch i) \<Longrightarrow>
      \<exists>v'. upd Certify i v = Some v' \<and> inv v' \<and> since v' \<in> {since v, Some (ci_epoch i)}
        \<and> (\<forall>d c. cnt v' d c = cnt v d c + of_bool (d = ci_deletable i \<and> c))
        \<and> covers v' (ci_deletable i) True (ci_end_epoch i) \<and> (\<forall>d c e. covers v d c e \<longrightarrow> covers v' d c e)"
    and upd_extend: "inv v \<Longrightarrow> 0 < cnt v (ci_deletable i) True \<Longrightarrow>
      \<exists>v'. upd Extend i v = Some v' \<and> inv v' \<and> since v' = since v \<and> (\<forall>d c. cnt v' d c = cnt v d c)
        \<and> (\<forall>c. covers v' (ci_deletable i) c (ci_end_epoch i)) \<and> (\<forall>d c e. covers v d c e \<longrightarrow> covers v' d c e)"
    and upd_delete: "ci_deletable i \<Longrightarrow> upd (Delete w) i v = Some (expired True w v)"
    and expired_object: "inv v \<Longrightarrow> 0 < cnt v d False \<Longrightarrow> (if w then 0 < cnt v d True else cnt v d True < cnt v d False) \<Longrightarrow>
      inv (expired d w v) \<and> since (expired d w v) \<in> {since v, None}
        \<and> (\<forall>d' c. cnt (expired d w v) d' c = cnt v d' c - of_bool (d' = d \<and> (c \<longrightarrow> w)))
        \<and> (\<forall>d' c e. 0 < cnt (expired d w v) d' c \<longrightarrow> covers v d' c e \<longrightarrow> covers (expired d w v) d' c e)"
begin

lemma matches_register:
  assumes "finite (Mapping.keys m)" "inv v" "matches cnt covers v m (ci_blob_id i)" "Mapping.lookup m k = None"
    and "count_if (of_class (ci_blob_id i) (ci_deletable i) False) m < U32_MAX"
    and x: "\<And>d c. of_class (ci_blob_id i) d c x \<longleftrightarrow> d = ci_deletable i \<and> \<not> c" "po_end_epoch (po_v1 x) = ci_end_epoch i"
  shows "\<exists>v'. upd Register i v = Some v' \<and> inv v' \<and> since v' = since v \<and> matches cnt covers v' (Mapping.update k x m) (ci_blob_id i)"
proof -
  let ?b = "ci_blob_id i" and ?d = "ci_deletable i"
  note M = matchesD [OF assms(3)]
  obtain v' where v': "upd Register i v = Some v'" "inv v'" "since v' = since v" "\<And>d c. cnt v' d c = cnt v d c + of_bool (d = ?d \<and> \<not> c)"
    "covers v' ?d False (ci_end_epoch i)" "\<And>d c e. covers v d c e \<Longrightarrow> covers v' d c e"
    using upd_register [OF assms(2), of i] M(1) [of ?d False] assms(5) by auto
  have "count_if (of_class ?b d c) (Mapping.update k x m) = count_if (of_class ?b d c) m + of_bool (d = ?d \<and> \<not> c)" for d c
    using count_if_split [OF assms(1), of "of_class ?b d c" k] count_if_update [OF assms(1), of "of_class ?b d c" k x] assms(4) x(1) by simp
  then have "matches cnt covers v' (Mapping.update k x m) ?b"
    using v'(4-6) M x by (auto simp: matches_def lookup_update')
  then show ?thesis using v'(1-3) by blast
qed

lemma matches_certify:
  assumes "finite (Mapping.keys m)" "inv v" "matches cnt covers v m (ci_blob_id i)" "Mapping.lookup m k = Some y"
    and y: "\<And>d c. of_class (ci_blob_id i) d c y \<longleftrightarrow> d = ci_deletable i \<and> \<not> c" "po_end_epoch (po_v1 y) = ci_end_epoch i"
    and x: "\<And>d c. of_class (ci_blob_id i) d c x \<longleftrightarrow> d = ci_deletable i" "po_end_epoch (po_v1 x) = ci_end_epoch i"
  shows "\<exists>v'. upd Certify i v = Some v' \<and> inv v' \<and> since v' \<in> {since v, Some (ci_epoch i)} \<and> matches cnt covers v' (Mapping.update k x m) (ci_blob_id i)"
proof -
  let ?b = "ci_blob_id i" and ?d = "ci_deletable i"
  note M = matchesD [OF assms(3)] and S = count_if_split [OF assms(1), of "of_class ?b _ _" k]
  have "count_if (of_class ?b ?d True) (Mapping.delete k m) \<le> count_if (of_class ?b ?d False) (Mapping.delete k m)"
    by (rule count_if_mono) (use assms(1) in \<open>auto simp: of_class_def\<close>)
  then have lt: "cnt v ?d True < cnt v ?d False" using S [of ?d True] S [of ?d False] assms(4) y(1) M(1) by simp
  have cov: "covers v ?d False (ci_end_epoch i)" using M(2) [OF assms(4), of ?d False] y by simp
  obtain v' where v': "upd Certify i v = Some v'" "inv v'" "since v' \<in> {since v, Some (ci_epoch i)}" "\<And>d c. cnt v' d c = cnt v d c + of_bool (d = ?d \<and> c)"
    "covers v' ?d True (ci_end_epoch i)" "\<And>d c e. covers v d c e \<Longrightarrow> covers v' d c e"
    using upd_certify [OF assms(2) lt cov] by auto
  have "count_if (of_class ?b d c) (Mapping.update k x m) = count_if (of_class ?b d c) m + of_bool (d = ?d \<and> c)" for d c
    using S [of d c] count_if_update [OF assms(1), of "of_class ?b d c" k x] assms(4) y(1) x(1) by simp
  moreover have "covers v' ?d c (ci_end_epoch i)" for c using v'(5,6) cov by (cases c) auto
  ultimately have "matches cnt covers v' (Mapping.update k x m) ?b"
    using v'(4,6) M x by (auto simp: matches_def lookup_update')
  then show ?thesis using v'(1-3) by blast
qed

lemma matches_extend:
  assumes "finite (Mapping.keys m)" "inv v" "matches cnt covers v m (ci_blob_id i)" "Mapping.lookup m k = Some y"
    and y: "\<And>d c. of_class (ci_blob_id i) d c y \<longleftrightarrow> d = ci_deletable i"
    and x: "\<And>d c. of_class (ci_blob_id i) d c x \<longleftrightarrow> d = ci_deletable i" "po_end_epoch (po_v1 x) = ci_end_epoch i"
  shows "\<exists>v'. upd Extend i v = Some v' \<and> inv v' \<and> since v' = since v \<and> matches cnt covers v' (Mapping.update k x m) (ci_blob_id i)"
proof -
  let ?b = "ci_blob_id i" and ?d = "ci_deletable i"
  note M = matchesD [OF assms(3)] and S = count_if_split [OF assms(1), of "of_class ?b _ _" k]
  have pos: "0 < cnt v ?d True" using count_if_pos [OF assms(1,4), of "of_class ?b ?d True"] y M(1) by simp
  obtain v' where v': "upd Extend i v = Some v'" "inv v'" "since v' = since v" "\<And>d c. cnt v' d c = cnt v d c"
    "\<And>c. covers v' ?d c (ci_end_epoch i)" "\<And>d c e. covers v d c e \<Longrightarrow> covers v' d c e"
    using upd_extend [OF assms(2) pos] by auto
  have "count_if (of_class ?b d c) (Mapping.update k x m) = count_if (of_class ?b d c) m" for d c
    using S [of d c] count_if_update [OF assms(1), of "of_class ?b d c" k x] assms(4) y x(1) by simp
  then have "matches cnt covers v' (Mapping.update k x m) ?b"
    using v'(4-6) M x by (auto simp: matches_def lookup_update')
  then show ?thesis using v'(1-3) by blast
qed

lemma matches_expired:
  assumes "finite (Mapping.keys m)" "inv v" "matches cnt covers v m b" "Mapping.lookup m k = Some y"
    and y: "\<And>d' c. of_class b d' c y \<longleftrightarrow> d' = d \<and> (c \<longrightarrow> w)"
  shows "inv (expired d w v)" "since (expired d w v) \<in> {since v, None}" "matches cnt covers (expired d w v) (Mapping.delete k m) b"
proof -
  note M = matchesD [OF assms(3)] and S = count_if_split [OF assms(1), of "of_class b _ _" k]
  have le: "count_if (of_class b d True) (Mapping.delete k m) \<le> count_if (of_class b d False) (Mapping.delete k m)"
    by (rule count_if_mono) (use assms(1) in \<open>auto simp: of_class_def\<close>)
  have pre: "0 < cnt v d False" "if w then 0 < cnt v d True else cnt v d True < cnt v d False"
    using S [of d True] S [of d False] assms(4) y M(1) le by simp_all
  note E = expired_object [OF assms(2) pre]
  have cnt: "cnt (expired d w v) d' c = count_if (of_class b d' c) (Mapping.delete k m)" for d' c
    using E S [of d' c] assms(4) y M(1) [of d' c] by simp
  have "covers (expired d w v) d' c (po_end_epoch (po_v1 x))" if x: "Mapping.lookup (Mapping.delete k m) j = Some x" "of_class b d' c x" for j x d' c
  proof -
    have "0 < cnt (expired d w v) d' c" unfolding cnt using assms(1) x by (intro count_if_pos [of _ j x]) auto
    then show ?thesis using E M(2) x by (auto simp: lookup_delete_iff split: if_splits)
  qed
  then show "matches cnt covers (expired d w v) (Mapping.delete k m) b" using cnt by (auto simp: matches_def)
  show "inv (expired d w v)" "since (expired d w v) \<in> {since v, None}" using E by blast+
qed

end

subsection \<open>Version 1\<close>

definition v1_inv :: "valid_blob_info_v1 \<Rightarrow> bool" where
  "v1_inv v \<longleftrightarrow> v1_count_deletable_certified v \<le> v1_count_deletable_total v \<and> v1_count_deletable_total v \<le> U32_MAX
    \<and> perm_ok (v1_permanent_total v) \<and> perm_ok (v1_permanent_certified v)
    \<and> perm_count (v1_permanent_certified v) \<le> perm_count (v1_permanent_total v)
    \<and> (\<forall>e. perm_covers (v1_permanent_certified v) e \<longrightarrow> perm_covers (v1_permanent_total v) e)
    \<and> (v1_initial_certified_epoch v = None \<longleftrightarrow> v1_count_deletable_certified v = 0 \<and> v1_permanent_certified v = None)
    \<and> (v1_latest_seen_deletable_registered_end_epoch v = None \<longleftrightarrow> v1_count_deletable_total v = 0)
    \<and> (v1_latest_seen_deletable_certified_end_epoch v = None \<longleftrightarrow> v1_count_deletable_certified v = 0)
    \<and> (\<forall>c. v1_latest_seen_deletable_certified_end_epoch v = Some c \<longrightarrow>
        (\<exists>r\<ge>c. v1_latest_seen_deletable_registered_end_epoch v = Some r))"

fun v1_cnt :: "valid_blob_info_v1 \<Rightarrow> bool \<Rightarrow> bool \<Rightarrow> nat" where
  "v1_cnt v True False = v1_count_deletable_total v"
| "v1_cnt v True True = v1_count_deletable_certified v"
| "v1_cnt v False False = perm_count (v1_permanent_total v)"
| "v1_cnt v False True = perm_count (v1_permanent_certified v)"

definition at_least :: "epoch option \<Rightarrow> epoch \<Rightarrow> bool" where
  "at_least x e \<longleftrightarrow> (case x of Some y \<Rightarrow> e \<le> y | None \<Rightarrow> False)"

lemma at_least_simps [simp]: "\<not> at_least None e" "at_least (Some y) e \<longleftrightarrow> e \<le> y"
  by (simp_all add: at_least_def)

fun v1_covers :: "valid_blob_info_v1 \<Rightarrow> bool \<Rightarrow> bool \<Rightarrow> epoch \<Rightarrow> bool" where
  "v1_covers v True False e = at_least (v1_latest_seen_deletable_registered_end_epoch v) e"
| "v1_covers v True True e = at_least (v1_latest_seen_deletable_certified_end_epoch v) e"
| "v1_covers v False False e = perm_covers (v1_permanent_total v) e"
| "v1_covers v False True e = perm_covers (v1_permanent_certified v) e"

definition v1_expired :: "bool \<Rightarrow> bool \<Rightarrow> valid_blob_info_v1 \<Rightarrow> valid_blob_info_v1" where
  "v1_expired d w v = (if d then v1_deletable_expired w v else v1_permanent_expired w v)"

lemmas v1_update_defs =
  v1_update_status_def v1_maybe_increase_latest_deletable_registered_epoch_def v1_maybe_increase_latest_deletable_certified_epoch_def
  v1_update_initial_certified_epoch_def Let_def

lemma ok_eq_Some: "ok m = Some x \<longleftrightarrow> m = Ok x"
  by (cases m) auto

lemma all_bool: "(\<forall>b. P b) \<longleftrightarrow> P True \<and> P False"
  by (metis (full_types))

lemma v1_register:
  assumes v: "v1_inv v" and n: "v1_cnt v (ci_deletable i) False < U32_MAX"
  shows "\<exists>v'. v1_update_status Register i v = (Ok v' :: (valid_blob_info_v1, 'e) result) \<and> v1_inv v' \<and> v1_initial_certified_epoch v' = v1_initial_certified_epoch v
    \<and> (\<forall>d c. v1_cnt v' d c = v1_cnt v d c + of_bool (d = ci_deletable i \<and> \<not> c))
    \<and> v1_covers v' (ci_deletable i) False (ci_end_epoch i) \<and> (\<forall>d c e. v1_covers v d c e \<longrightarrow> v1_covers v' d c e)"
    (is "\<exists>v'. ?u = Ok v' \<and> _ v'")
proof (cases "ci_deletable i")
  case True
  then show ?thesis using assms
    by (auto simp: v1_update_defs v1_inv_def checked_def all_bool split: option.splits)
next
  case False
  obtain q where q: "perm_update_optional (v1_permanent_total v) i = (Ok (Some q) :: (permanent_blob_info option, 'e) result)" "perm_ok (Some q)" "pbi_count q = perm_count (v1_permanent_total v) + 1"
    "\<And>e. e \<le> pbi_end_epoch q \<longleftrightarrow> perm_covers (v1_permanent_total v) e \<or> e \<le> ci_end_epoch i"
    using perm_update_optional_ok [of "v1_permanent_total v" i] v n False unfolding v1_inv_def by force
  have "?u = Ok (v\<lparr>v1_permanent_total := Some q\<rparr>)" using False q(1) by (simp add: v1_update_defs perm_register_def)
  then show ?thesis using v False q(2-) by (auto simp: v1_inv_def all_bool)
qed

lemma v1_certify:
  assumes v: "v1_inv v" and n: "v1_cnt v (ci_deletable i) True < v1_cnt v (ci_deletable i) False" and e: "v1_covers v (ci_deletable i) False (ci_end_epoch i)"
  shows "\<exists>v'. v1_update_status Certify i v = (Ok v' :: (valid_blob_info_v1, 'e) result) \<and> v1_inv v' \<and> v1_initial_certified_epoch v' \<in> {v1_initial_certified_epoch v, Some (ci_epoch i)}
    \<and> (\<forall>d c. v1_cnt v' d c = v1_cnt v d c + of_bool (d = ci_deletable i \<and> c))
    \<and> v1_covers v' (ci_deletable i) True (ci_end_epoch i) \<and> (\<forall>d c e. v1_covers v d c e \<longrightarrow> v1_covers v' d c e)"
    (is "\<exists>v'. ?u = Ok v' \<and> _ v'")
proof (cases "ci_deletable i")
  case True
  then show ?thesis using assms
    by (auto simp: v1_update_defs v1_inv_def checked_def all_bool at_least_def split: option.splits)
next
  case False
  obtain t where t: "v1_permanent_total v = Some t" "ci_end_epoch i \<le> pbi_end_epoch t" "perm_count (v1_permanent_certified v) < pbi_count t"
    using e n False by (cases "v1_permanent_total v") auto
  obtain q where q: "perm_update_optional (v1_permanent_certified v) i = (Ok (Some q) :: (permanent_blob_info option, 'e) result)" "perm_ok (Some q)" "pbi_count q = perm_count (v1_permanent_certified v) + 1"
    "\<And>e. e \<le> pbi_end_epoch q \<longleftrightarrow> perm_covers (v1_permanent_certified v) e \<or> e \<le> ci_end_epoch i"
    using perm_update_optional_ok [of "v1_permanent_certified v" i] v t(1,3) False unfolding v1_inv_def by force
  have "(case v1_permanent_certified v of Some p \<Rightarrow> pbi_count p | None \<Rightarrow> 0) = perm_count (v1_permanent_certified v)"
    by (cases "v1_permanent_certified v") auto
  then have "perm_certify (v1_permanent_total v) (v1_permanent_certified v) i = (Ok (Some (Some q)) :: (permanent_blob_info option option, 'e) result)"
    using t q(1) by (simp add: perm_certify_def)
  then have "?u = Ok (v1_update_initial_certified_epoch (ci_epoch i) (\<not> v1_is_certified v (ci_epoch i)) (v\<lparr>v1_permanent_certified := Some q\<rparr>))"
    using False by (simp add: v1_update_status_def)
  then show ?thesis using v False q(2-) t by (auto simp: v1_update_initial_certified_epoch_def v1_inv_def all_bool split: option.splits)
qed

lemma v1_extend:
  assumes v: "v1_inv v" and n: "0 < v1_cnt v (ci_deletable i) True"
  shows "\<exists>v'. v1_update_status Extend i v = (Ok v' :: (valid_blob_info_v1, 'e) result) \<and> v1_inv v' \<and> v1_initial_certified_epoch v' = v1_initial_certified_epoch v
    \<and> (\<forall>d c. v1_cnt v' d c = v1_cnt v d c)
    \<and> (\<forall>c. v1_covers v' (ci_deletable i) c (ci_end_epoch i)) \<and> (\<forall>d c e. v1_covers v d c e \<longrightarrow> v1_covers v' d c e)"
    (is "\<exists>v'. ?u = Ok v' \<and> _ v'")
proof (cases "ci_deletable i")
  case True
  then show ?thesis using assms
    by (auto simp: v1_update_defs v1_inv_def all_bool at_least_def split: option.splits)
next
  case False
  have pk: "perm_ok (v1_permanent_total v)" "perm_ok (v1_permanent_certified v)" using v by (simp_all add: v1_inv_def)
  obtain t where t: "perm_extend (v1_permanent_total v) i = (Ok t :: (permanent_blob_info option, 'e) result)"
    "perm_ok t" "perm_count t = perm_count (v1_permanent_total v)"
    "\<And>e. perm_covers t e \<longleftrightarrow> v1_permanent_total v \<noteq> None \<and> (perm_covers (v1_permanent_total v) e \<or> e \<le> ci_end_epoch i)"
    using perm_extend_ok [OF pk(1) False] by blast
  obtain c where c: "perm_extend (v1_permanent_certified v) i = (Ok c :: (permanent_blob_info option, 'e) result)"
    "perm_ok c" "perm_count c = perm_count (v1_permanent_certified v)"
    "\<And>e. perm_covers c e \<longleftrightarrow> v1_permanent_certified v \<noteq> None \<and> (perm_covers (v1_permanent_certified v) e \<or> e \<le> ci_end_epoch i)"
    using perm_extend_ok [OF pk(2) False] by blast
  note tc = t(1) c(1) t(2-) c(2-)
  have ex: "v1_permanent_total v \<noteq> None" "v1_permanent_certified v \<noteq> None" "c \<noteq> None"
    using n False v c(2,3) by (auto simp: v1_inv_def perm_count_0)
  have "?u = Ok (v\<lparr>v1_permanent_total := t, v1_permanent_certified := c\<rparr>)" using False tc(1,2) by (simp add: v1_update_defs)
  then show ?thesis using v False tc(3-) ex by (auto simp: v1_inv_def all_bool)
qed

lemmas v1_expired_defs =
  v1_expired_def v1_deletable_expired_def v1_permanent_expired_def v1_update_deletable_counters_and_end_epochs_def
  decrement_deletable_counter_and_maybe_unset_latest_end_epoch_def v1_maybe_unset_initial_certified_epoch_def Let_def

lemma v1_deletable_expired_ok:
  assumes "v1_inv v" "0 < v1_count_deletable_total v"
    and "if w then 0 < v1_count_deletable_certified v else v1_count_deletable_certified v < v1_count_deletable_total v"
  shows "v1_inv (v1_expired True w v)"
  using assms by (cases w) (auto simp: v1_inv_def v1_expired_defs)

lemma v1_permanent_expired_ok:
  assumes v: "v1_inv v" and n: "0 < perm_count (v1_permanent_total v)"
    and w: "if w then 0 < perm_count (v1_permanent_certified v) else perm_count (v1_permanent_certified v) < perm_count (v1_permanent_total v)"
  shows "v1_inv (v1_expired False w v)"
proof -
  obtain t where t: "v1_permanent_total v = Some t" "0 < pbi_count t" "pbi_count t \<le> U32_MAX" using n v by (cases "v1_permanent_total v") (auto simp: v1_inv_def)
  show ?thesis
  proof (cases "v1_permanent_certified v")
    case None
    then show ?thesis using v w t by (cases w) (auto simp: v1_inv_def v1_expired_defs)
  next
    case (Some c)
    then have "0 < pbi_count c" "pbi_count c \<le> pbi_count t" using v t(1) by (auto simp: v1_inv_def)
    then show ?thesis using v w t Some by (cases w) (auto simp: v1_inv_def v1_expired_defs)
  qed
qed

lemma v1_expired_object:
  assumes v: "v1_inv v" and n: "0 < v1_cnt v d False" "if w then 0 < v1_cnt v d True else v1_cnt v d True < v1_cnt v d False"
  shows "v1_inv (v1_expired d w v) \<and> v1_initial_certified_epoch (v1_expired d w v) \<in> {v1_initial_certified_epoch v, None}
    \<and> (\<forall>d' c. v1_cnt (v1_expired d w v) d' c = v1_cnt v d' c - of_bool (d' = d \<and> (c \<longrightarrow> w)))
    \<and> (\<forall>d' c e. 0 < v1_cnt (v1_expired d w v) d' c \<longrightarrow> v1_covers v d' c e \<longrightarrow> v1_covers (v1_expired d w v) d' c e)"
proof -
  have "perm_ok (v1_permanent_total v)" "perm_ok (v1_permanent_certified v)" using v by (simp_all add: v1_inv_def)
  note P = perm_decrement_ok [OF this(1)] perm_decrement_ok [OF this(2)]
  have "v1_inv (v1_expired d w v)" using v1_deletable_expired_ok [OF v, of w] v1_permanent_expired_ok [OF v, of w] n by (cases d; cases w) simp_all
  moreover have "v1_initial_certified_epoch (v1_expired d w v) \<in> {v1_initial_certified_epoch v, None}"
    by (cases d; cases w) (simp_all add: v1_expired_defs)
  moreover have "v1_cnt (v1_expired d w v) d' c = v1_cnt v d' c - of_bool (d' = d \<and> (c \<longrightarrow> w))" for d' c
    using P by (cases d; cases w; cases d'; cases c) (auto simp: v1_expired_defs)
  moreover have "v1_covers (v1_expired d w v) d' c e" if "0 < v1_cnt (v1_expired d w v) d' c" "v1_covers v d' c e" for d' c e
    using P that by (cases d; cases w; cases d'; cases c) (auto simp: v1_expired_defs split: if_splits)
  ultimately show ?thesis by blast
qed

interpretation v1: object_summary v1_inv v1_cnt v1_covers v1_initial_certified_epoch "\<lambda>t i v. ok (v1_update_status t i v :: (valid_blob_info_v1, table_error) result)" v1_expired
proof (unfold_locales, unfold ok_eq_Some)
  show "v1_update_status (Delete w) i v = (Ok (v1_expired True w v) :: (valid_blob_info_v1, table_error) result)" if "ci_deletable i" for i w v
    using that by (simp add: v1_update_status_def v1_expired_def v1_deletable_expired_def Let_def)
qed (rule v1_register v1_certify v1_extend v1_expired_object; assumption)+

subsection \<open>Version 2\<close>

definition v2_inv :: "valid_blob_info_v2 \<Rightarrow> bool" where
  "v2_inv v \<longleftrightarrow> v2_count_deletable_certified v \<le> v2_count_deletable_total v \<and> v2_count_deletable_total v \<le> U32_MAX
    \<and> perm_ok (v2_permanent_total v) \<and> perm_ok (v2_permanent_certified v)
    \<and> perm_count (v2_permanent_certified v) \<le> perm_count (v2_permanent_total v)
    \<and> (\<forall>e. perm_covers (v2_permanent_certified v) e \<longrightarrow> perm_covers (v2_permanent_total v) e)
    \<and> (v2_initial_certified_epoch v = None \<longleftrightarrow>
        v2_count_deletable_certified v = 0 \<and> v2_permanent_certified v = None \<and> v2_count_pooled_refs_certified v = 0)
    \<and> v2_count_pooled_refs_certified v \<le> v2_count_pooled_refs_total v \<and> v2_count_pooled_refs_total v \<le> U32_MAX"

fun v2_cnt :: "valid_blob_info_v2 \<Rightarrow> bool \<Rightarrow> bool \<Rightarrow> nat" where
  "v2_cnt v True False = v2_count_deletable_total v"
| "v2_cnt v True True = v2_count_deletable_certified v"
| "v2_cnt v False False = perm_count (v2_permanent_total v)"
| "v2_cnt v False True = perm_count (v2_permanent_certified v)"

fun v2_covers :: "valid_blob_info_v2 \<Rightarrow> bool \<Rightarrow> bool \<Rightarrow> epoch \<Rightarrow> bool" where
  "v2_covers v True False e = (v2_count_deletable_total v > 0)"
| "v2_covers v True True e = (v2_count_deletable_certified v > 0)"
| "v2_covers v False False e = perm_covers (v2_permanent_total v) e"
| "v2_covers v False True e = perm_covers (v2_permanent_certified v) e"

definition v2_expired :: "bool \<Rightarrow> bool \<Rightarrow> valid_blob_info_v2 \<Rightarrow> valid_blob_info_v2" where
  "v2_expired d w v = (if d then v2_deletable_expired w v else v2_permanent_expired w v)"

lemmas v2_update_defs =
  v2_update_status_def v2_update_initial_certified_epoch_def Let_def

lemma v2_register:
  assumes v: "v2_inv v" and n: "v2_cnt v (ci_deletable i) False < U32_MAX"
  shows "\<exists>v'. v2_update_status Register i v = (Ok v' :: (valid_blob_info_v2, 'e) result) \<and> v2_inv v' \<and> v2_initial_certified_epoch v' = v2_initial_certified_epoch v
    \<and> (\<forall>d c. v2_cnt v' d c = v2_cnt v d c + of_bool (d = ci_deletable i \<and> \<not> c))
    \<and> v2_covers v' (ci_deletable i) False (ci_end_epoch i) \<and> (\<forall>d c e. v2_covers v d c e \<longrightarrow> v2_covers v' d c e)"
    (is "\<exists>v'. ?u = Ok v' \<and> _ v'")
proof (cases "ci_deletable i")
  case True
  then show ?thesis using assms
    by (auto simp: v2_update_defs v2_inv_def checked_def all_bool split: option.splits)
next
  case False
  obtain q where q: "perm_update_optional (v2_permanent_total v) i = (Ok (Some q) :: (permanent_blob_info option, 'e) result)" "perm_ok (Some q)" "pbi_count q = perm_count (v2_permanent_total v) + 1"
    "\<And>e. e \<le> pbi_end_epoch q \<longleftrightarrow> perm_covers (v2_permanent_total v) e \<or> e \<le> ci_end_epoch i"
    using perm_update_optional_ok [of "v2_permanent_total v" i] v n False unfolding v2_inv_def by force
  have "?u = Ok (v\<lparr>v2_permanent_total := Some q\<rparr>)" using False q(1) by (simp add: v2_update_defs perm_register_def)
  then show ?thesis using v False q(2-) by (auto simp: v2_inv_def all_bool)
qed

lemma v2_certify:
  assumes v: "v2_inv v" and n: "v2_cnt v (ci_deletable i) True < v2_cnt v (ci_deletable i) False" and e: "v2_covers v (ci_deletable i) False (ci_end_epoch i)"
  shows "\<exists>v'. v2_update_status Certify i v = (Ok v' :: (valid_blob_info_v2, 'e) result) \<and> v2_inv v' \<and> v2_initial_certified_epoch v' \<in> {v2_initial_certified_epoch v, Some (ci_epoch i)}
    \<and> (\<forall>d c. v2_cnt v' d c = v2_cnt v d c + of_bool (d = ci_deletable i \<and> c))
    \<and> v2_covers v' (ci_deletable i) True (ci_end_epoch i) \<and> (\<forall>d c e. v2_covers v d c e \<longrightarrow> v2_covers v' d c e)"
    (is "\<exists>v'. ?u = Ok v' \<and> _ v'")
proof (cases "ci_deletable i")
  case True
  then show ?thesis using assms
    by (auto simp: v2_update_defs v2_inv_def checked_def all_bool at_least_def split: option.splits)
next
  case False
  obtain t where t: "v2_permanent_total v = Some t" "ci_end_epoch i \<le> pbi_end_epoch t" "perm_count (v2_permanent_certified v) < pbi_count t"
    using e n False by (cases "v2_permanent_total v") auto
  obtain q where q: "perm_update_optional (v2_permanent_certified v) i = (Ok (Some q) :: (permanent_blob_info option, 'e) result)" "perm_ok (Some q)" "pbi_count q = perm_count (v2_permanent_certified v) + 1"
    "\<And>e. e \<le> pbi_end_epoch q \<longleftrightarrow> perm_covers (v2_permanent_certified v) e \<or> e \<le> ci_end_epoch i"
    using perm_update_optional_ok [of "v2_permanent_certified v" i] v t(1,3) False unfolding v2_inv_def by force
  have "(case v2_permanent_certified v of Some p \<Rightarrow> pbi_count p | None \<Rightarrow> 0) = perm_count (v2_permanent_certified v)"
    by (cases "v2_permanent_certified v") auto
  then have "perm_certify (v2_permanent_total v) (v2_permanent_certified v) i = (Ok (Some (Some q)) :: (permanent_blob_info option option, 'e) result)"
    using t q(1) by (simp add: perm_certify_def)
  then have "?u = Ok (v2_update_initial_certified_epoch (ci_epoch i) (\<not> v2_is_certified v (ci_epoch i)) (v\<lparr>v2_permanent_certified := Some q\<rparr>))"
    using False by (simp add: v2_update_status_def)
  then show ?thesis using v False q(2-) t by (auto simp: v2_update_initial_certified_epoch_def v2_inv_def all_bool split: option.splits)
qed

lemma v2_extend:
  assumes v: "v2_inv v" and n: "0 < v2_cnt v (ci_deletable i) True"
  shows "\<exists>v'. v2_update_status Extend i v = (Ok v' :: (valid_blob_info_v2, 'e) result) \<and> v2_inv v' \<and> v2_initial_certified_epoch v' = v2_initial_certified_epoch v
    \<and> (\<forall>d c. v2_cnt v' d c = v2_cnt v d c)
    \<and> (\<forall>c. v2_covers v' (ci_deletable i) c (ci_end_epoch i)) \<and> (\<forall>d c e. v2_covers v d c e \<longrightarrow> v2_covers v' d c e)"
    (is "\<exists>v'. ?u = Ok v' \<and> _ v'")
proof (cases "ci_deletable i")
  case True
  then show ?thesis using assms
    by (auto simp: v2_update_defs v2_inv_def all_bool at_least_def split: option.splits)
next
  case False
  have pk: "perm_ok (v2_permanent_total v)" "perm_ok (v2_permanent_certified v)" using v by (simp_all add: v2_inv_def)
  obtain t where t: "perm_extend (v2_permanent_total v) i = (Ok t :: (permanent_blob_info option, 'e) result)"
    "perm_ok t" "perm_count t = perm_count (v2_permanent_total v)"
    "\<And>e. perm_covers t e \<longleftrightarrow> v2_permanent_total v \<noteq> None \<and> (perm_covers (v2_permanent_total v) e \<or> e \<le> ci_end_epoch i)"
    using perm_extend_ok [OF pk(1) False] by blast
  obtain c where c: "perm_extend (v2_permanent_certified v) i = (Ok c :: (permanent_blob_info option, 'e) result)"
    "perm_ok c" "perm_count c = perm_count (v2_permanent_certified v)"
    "\<And>e. perm_covers c e \<longleftrightarrow> v2_permanent_certified v \<noteq> None \<and> (perm_covers (v2_permanent_certified v) e \<or> e \<le> ci_end_epoch i)"
    using perm_extend_ok [OF pk(2) False] by blast
  note tc = t(1) c(1) t(2-) c(2-)
  have ex: "v2_permanent_total v \<noteq> None" "v2_permanent_certified v \<noteq> None" "c \<noteq> None"
    using n False v c(2,3) by (auto simp: v2_inv_def perm_count_0)
  have "?u = Ok (v\<lparr>v2_permanent_total := t, v2_permanent_certified := c\<rparr>)" using False tc(1,2) by (simp add: v2_update_defs)
  then show ?thesis using v False tc(3-) ex by (auto simp: v2_inv_def all_bool)
qed

lemmas v2_expired_defs =
  v2_expired_def v2_deletable_expired_def v2_permanent_expired_def v2_update_deletable_counters_def v2_maybe_unset_initial_certified_epoch_def Let_def

lemma v2_deletable_expired_ok:
  assumes "v2_inv v" "0 < v2_count_deletable_total v"
    and "if w then 0 < v2_count_deletable_certified v else v2_count_deletable_certified v < v2_count_deletable_total v"
  shows "v2_inv (v2_expired True w v)"
  using assms by (cases w) (auto simp: v2_inv_def v2_expired_defs)

lemma v2_permanent_expired_ok:
  assumes v: "v2_inv v" and n: "0 < perm_count (v2_permanent_total v)"
    and w: "if w then 0 < perm_count (v2_permanent_certified v) else perm_count (v2_permanent_certified v) < perm_count (v2_permanent_total v)"
  shows "v2_inv (v2_expired False w v)"
proof -
  obtain t where t: "v2_permanent_total v = Some t" "0 < pbi_count t" "pbi_count t \<le> U32_MAX" using n v by (cases "v2_permanent_total v") (auto simp: v2_inv_def)
  show ?thesis
  proof (cases "v2_permanent_certified v")
    case None
    then show ?thesis using v w t by (cases w) (auto simp: v2_inv_def v2_expired_defs)
  next
    case (Some c)
    then have "0 < pbi_count c" "pbi_count c \<le> pbi_count t" using v t(1) by (auto simp: v2_inv_def)
    then show ?thesis using v w t Some by (cases w) (auto simp: v2_inv_def v2_expired_defs)
  qed
qed

lemma v2_expired_object:
  assumes v: "v2_inv v" and n: "0 < v2_cnt v d False" "if w then 0 < v2_cnt v d True else v2_cnt v d True < v2_cnt v d False"
  shows "v2_inv (v2_expired d w v) \<and> v2_initial_certified_epoch (v2_expired d w v) \<in> {v2_initial_certified_epoch v, None}
    \<and> (\<forall>d' c. v2_cnt (v2_expired d w v) d' c = v2_cnt v d' c - of_bool (d' = d \<and> (c \<longrightarrow> w)))
    \<and> (\<forall>d' c e. 0 < v2_cnt (v2_expired d w v) d' c \<longrightarrow> v2_covers v d' c e \<longrightarrow> v2_covers (v2_expired d w v) d' c e)"
proof -
  have "perm_ok (v2_permanent_total v)" "perm_ok (v2_permanent_certified v)" using v by (simp_all add: v2_inv_def)
  note P = perm_decrement_ok [OF this(1)] perm_decrement_ok [OF this(2)]
  have "v2_inv (v2_expired d w v)" using v2_deletable_expired_ok [OF v, of w] v2_permanent_expired_ok [OF v, of w] n by (cases d; cases w) simp_all
  moreover have "v2_initial_certified_epoch (v2_expired d w v) \<in> {v2_initial_certified_epoch v, None}"
    by (cases d; cases w) (simp_all add: v2_expired_defs)
  moreover have "v2_cnt (v2_expired d w v) d' c = v2_cnt v d' c - of_bool (d' = d \<and> (c \<longrightarrow> w))" for d' c
    using P by (cases d; cases w; cases d'; cases c) (auto simp: v2_expired_defs)
  moreover have "v2_covers (v2_expired d w v) d' c e" if "0 < v2_cnt (v2_expired d w v) d' c" "v2_covers v d' c e" for d' c e
    using P that by (cases d; cases w; cases d'; cases c) (auto simp: v2_expired_defs split: if_splits)
  ultimately show ?thesis by blast
qed

interpretation v2: object_summary v2_inv v2_cnt v2_covers v2_initial_certified_epoch "\<lambda>t i v. ok (v2_update_status t i v :: (valid_blob_info_v2, table_error) result)" v2_expired
proof (unfold_locales, unfold ok_eq_Some)
  show "v2_update_status (Delete w) i v = (Ok (v2_expired True w v) :: (valid_blob_info_v2, table_error) result)" if "ci_deletable i" for i w v
    using that by (simp add: v2_update_status_def v2_expired_def v2_deletable_expired_def Let_def)
qed (rule v2_register v2_certify v2_extend v2_expired_object; assumption)+

text \<open>References from storage pools: the operations on them keep what is known of the other objects, and the other way round.\<close>

lemma v2_regular_pool_frame:
  "v2_update_status t i v = Ok v' \<Longrightarrow> v2_count_pooled_refs_total v' = v2_count_pooled_refs_total v \<and> v2_count_pooled_refs_certified v' = v2_count_pooled_refs_certified v"
  by (auto simp: v2_update_status_def Let_def v2_update_initial_certified_epoch_def v2_maybe_unset_initial_certified_epoch_def v2_update_deletable_counters_def
      split: if_splits blob_status_change_type.splits option.splits)

lemma v2_expired_pool_frame:
  "v2_count_pooled_refs_total (v2_expired d w v) = v2_count_pooled_refs_total v \<and> v2_count_pooled_refs_certified (v2_expired d w v) = v2_count_pooled_refs_certified v"
  by (auto simp: v2_expired_defs)

definition same_objects :: "valid_blob_info_v2 \<Rightarrow> valid_blob_info_v2 \<Rightarrow> bool" where
  "same_objects v v' \<longleftrightarrow> v2_count_deletable_total v' = v2_count_deletable_total v \<and> v2_count_deletable_certified v' = v2_count_deletable_certified v
    \<and> v2_permanent_total v' = v2_permanent_total v \<and> v2_permanent_certified v' = v2_permanent_certified v"

lemma same_objects_matches: "same_objects v v' \<Longrightarrow> matches v2_cnt v2_covers v m b \<Longrightarrow> matches v2_cnt v2_covers v' m b"
proof -
  assume s: "same_objects v v'"
  have "v2_cnt v' d c = v2_cnt v d c" "v2_covers v' d c e = v2_covers v d c e" for d c e
    using s by (cases d; cases c; simp add: same_objects_def)+
  then show "matches v2_cnt v2_covers v m b \<Longrightarrow> matches v2_cnt v2_covers v' m b" by (simp add: matches_def)
qed

lemma v2_pool_register_ok:
  assumes "v2_inv v" "v2_count_pooled_refs_total v < U32_MAX"
  shows "v2_inv (v2_pool_register v)" "same_objects v (v2_pool_register v)" "v2_initial_certified_epoch (v2_pool_register v) = v2_initial_certified_epoch v"
    "v2_count_pooled_refs_total (v2_pool_register v) = v2_count_pooled_refs_total v + 1"
    "v2_count_pooled_refs_certified (v2_pool_register v) = v2_count_pooled_refs_certified v"
  using assms by (auto simp: v2_pool_register_def v2_inv_def same_objects_def)

lemma v2_pool_certify_ok:
  assumes "v2_inv v" "v2_count_pooled_refs_certified v < v2_count_pooled_refs_total v"
  shows "v2_inv (v2_pool_certify e v)" "same_objects v (v2_pool_certify e v)"
    "v2_initial_certified_epoch (v2_pool_certify e v) \<in> {v2_initial_certified_epoch v, Some e}"
    "v2_count_pooled_refs_total (v2_pool_certify e v) = v2_count_pooled_refs_total v"
    "v2_count_pooled_refs_certified (v2_pool_certify e v) = v2_count_pooled_refs_certified v + 1"
  using assms by (auto simp: v2_pool_certify_def v2_update_initial_certified_epoch_def v2_inv_def same_objects_def Let_def split: option.splits)

lemma v2_pool_delete_ok:
  assumes "v2_inv v" "0 < v2_count_pooled_refs_total v"
    and "if w then 0 < v2_count_pooled_refs_certified v else v2_count_pooled_refs_certified v < v2_count_pooled_refs_total v"
  shows "v2_inv (v2_pool_delete w v)" "same_objects v (v2_pool_delete w v)"
    "v2_initial_certified_epoch (v2_pool_delete w v) \<in> {v2_initial_certified_epoch v, None}"
    "v2_count_pooled_refs_total (v2_pool_delete w v) = v2_count_pooled_refs_total v - 1"
    "v2_count_pooled_refs_certified (v2_pool_delete w v) = v2_count_pooled_refs_certified v - of_bool w"
  using assms by (auto simp: v2_pool_delete_def v2_maybe_unset_initial_certified_epoch_def v2_inv_def same_objects_def Let_def split: if_splits)

subsection \<open>Upgrades\<close>

lemma v2_from_v1_ok:
  assumes "v1_inv v"
  shows "v2_inv (v2_from_v1 v)" "v2_initial_certified_epoch (v2_from_v1 v) = v1_initial_certified_epoch v"
    "v2_count_pooled_refs_total (v2_from_v1 v) = 0" "v2_count_pooled_refs_certified (v2_from_v1 v) = 0"
    "matches v1_cnt v1_covers v m b \<Longrightarrow> matches v2_cnt v2_covers (v2_from_v1 v) m b"
proof -
  show "v2_inv (v2_from_v1 v)" "v2_initial_certified_epoch (v2_from_v1 v) = v1_initial_certified_epoch v"
    "v2_count_pooled_refs_total (v2_from_v1 v) = 0" "v2_count_pooled_refs_certified (v2_from_v1 v) = 0"
    using assms by (auto simp: v2_from_v1_def v2_inv_def v1_inv_def)
  have "v2_cnt (v2_from_v1 v) d c = v1_cnt v d c" for d c by (cases d; cases c) (simp_all add: v2_from_v1_def)
  moreover have "v1_covers v d c e \<Longrightarrow> v2_covers (v2_from_v1 v) d c e" for d c e
    using assms by (cases d; cases c) (auto simp: v2_from_v1_def v1_inv_def at_least_def split: option.splits)
  ultimately show "matches v1_cnt v1_covers v m b \<Longrightarrow> matches v2_cnt v2_covers (v2_from_v1 v) m b" by (auto simp: matches_def)
qed

lemma inv_check:
  "v1_inv v \<Longrightarrow> v1_check_invariants v = Ok ()" "v2_inv w \<Longrightarrow> v2_check_invariants w = Ok ()"
proof -
  have order: "check_permanent_order t c = Ok ()"
    if "perm_ok t" "perm_ok c" "perm_count c \<le> perm_count t" "\<forall>e. perm_covers c e \<longrightarrow> perm_covers t e" for t c
    using that by (cases t; cases c) (auto simp: check_permanent_order_def)
  show "v1_inv v \<Longrightarrow> v1_check_invariants v = Ok ()"
    using order [of "v1_permanent_total v" "v1_permanent_certified v"]
    by (auto simp: v1_inv_def v1_check_invariants_def check_option_order_def split: option.splits)
  show "v2_inv w \<Longrightarrow> v2_check_invariants w = Ok ()"
    using order [of "v2_permanent_total w" "v2_permanent_certified w"]
    by (auto simp: v2_inv_def v2_check_invariants_def Let_def split: option.splits)
qed

end
