(* ===== verification/BlobInfoConsistent.thy ===== *)
theory BlobInfoConsistent
  imports BlobInfoInvariant
begin

text \<open>
  The tables that a storage node can reach. Every operation keeps the invariant \<open>table_ok\<close>, that each aggregate entry is a summary
  of the objects of its blob, as long as the events are those that the contracts can emit: objects are registered once, certified at
  most once and with the end epoch they were registered with, extended only when certified, and deleted only when deletable.
\<close>

subsection \<open>The invariant\<close>

definition of_pool :: "blob_id \<Rightarrow> bool \<Rightarrow> per_object_pooled_blob_info \<Rightarrow> bool" where
  "of_pool b c x \<longleftrightarrow> pp_blob_id (pp_v1 x) = b \<and> (c \<longrightarrow> pp_certified_epoch (pp_v1 x) \<noteq> None)"

type_synonym objects = "(object_id, per_object_blob_info) mapping"
type_synonym pooled_objects = "(object_id, per_object_pooled_blob_info) mapping"

definition no_objects :: "objects \<Rightarrow> blob_id \<Rightarrow> bool" where
  "no_objects m b \<longleftrightarrow> (\<forall>k x. Mapping.lookup m k = Some x \<longrightarrow> po_blob_id (po_v1 x) \<noteq> b)"

definition no_pooled :: "pooled_objects \<Rightarrow> blob_id \<Rightarrow> bool" where
  "no_pooled pm b \<longleftrightarrow> (\<forall>k x. Mapping.lookup pm k = Some x \<longrightarrow> pp_blob_id (pp_v1 x) \<noteq> b)"

definition not_after :: "epoch option \<Rightarrow> epoch \<Rightarrow> bool" where
  "not_after x now \<longleftrightarrow> (\<forall>e. x = Some e \<longrightarrow> e \<le> now)"

text \<open>The numbers of objects fit the counters, also for blobs that are known to be invalid and are no longer counted.\<close>

definition fit :: "objects \<Rightarrow> pooled_objects \<Rightarrow> blob_id \<Rightarrow> bool" where
  "fit m pm b \<longleftrightarrow> (\<forall>d. count_if (of_class b d False) m \<le> U32_MAX) \<and> count_if (of_pool b False) pm \<le> U32_MAX"

fun entry_ok :: "epoch \<Rightarrow> blob_info option \<Rightarrow> objects \<Rightarrow> pooled_objects \<Rightarrow> blob_id \<Rightarrow> bool" where
  "entry_ok now None m pm b = (no_objects m b \<and> no_pooled pm b)"
| "entry_ok now (Some (V1 (InvalidV1 e ev))) m pm b = (no_pooled pm b \<and> fit m pm b)"
| "entry_ok now (Some (V1 (ValidV1 v))) m pm b =
    (v1_inv v \<and> matches v1_cnt v1_covers v m b \<and> no_pooled pm b \<and> not_after (v1_initial_certified_epoch v) now)"
| "entry_ok now (Some (V2 (InvalidV2 e ev))) m pm b = fit m pm b"
| "entry_ok now (Some (V2 (ValidV2 v))) m pm b =
    (v2_inv v \<and> matches v2_cnt v2_covers v m b \<and> v2_count_pooled_refs_total v = count_if (of_pool b False) pm
     \<and> v2_count_pooled_refs_certified v = count_if (of_pool b True) pm \<and> not_after (v2_initial_certified_epoch v) now)"

definition table_ok :: "epoch \<Rightarrow> blob_info_table \<Rightarrow> bool" where
  "table_ok now t \<longleftrightarrow> finite (Mapping.keys (aggregate_blob_info t)) \<and> finite (Mapping.keys (per_object_blob_info t))
    \<and> finite (Mapping.keys (per_object_pooled_blob_info t)) \<and> finite (Mapping.keys (storage_pool_info t))
    \<and> (\<forall>k x. Mapping.lookup (per_object_blob_info t) k = Some x \<longrightarrow> \<not> po_deleted (po_v1 x))
    \<and> (\<forall>b. entry_ok now (Mapping.lookup (aggregate_blob_info t) b) (per_object_blob_info t) (per_object_pooled_blob_info t) b)"

lemma table_okD:
  assumes "table_ok now t"
  shows "finite (Mapping.keys (aggregate_blob_info t))" "finite (Mapping.keys (per_object_blob_info t))"
    "finite (Mapping.keys (per_object_pooled_blob_info t))" "finite (Mapping.keys (storage_pool_info t))"
    "Mapping.lookup (per_object_blob_info t) k = Some x \<Longrightarrow> \<not> po_deleted (po_v1 x)"
    "entry_ok now (Mapping.lookup (aggregate_blob_info t) b) (per_object_blob_info t) (per_object_pooled_blob_info t) b"
  using assms by (auto simp: table_ok_def)

lemma empty_table_ok: "table_ok now empty_table"
  by (simp add: table_ok_def empty_table_def no_objects_def no_pooled_def)

lemma entry_ok_later: "entry_ok now a m pm b \<Longrightarrow> now \<le> now' \<Longrightarrow> entry_ok now' a m pm b"
  by (induction now a m pm b rule: entry_ok.induct) (auto simp: not_after_def)

lemma not_after_cases: "not_after x now \<Longrightarrow> y \<in> {x, Some e} \<Longrightarrow> e \<le> now \<Longrightarrow> not_after y now" "not_after x now \<Longrightarrow> y \<in> {x, None} \<Longrightarrow> not_after y now"
  by (auto simp: not_after_def)

lemma no_objects_matches:
  assumes "finite (Mapping.keys m)" "no_objects m b"
  shows "matches v1_cnt v1_covers v1_default m b" "matches v2_cnt v2_covers v2_default m b"
proof -
  have 0: "count_if (of_class b d c) m = 0" for d c using assms by (auto simp: count_if_0 no_objects_def of_class_def)
  have z: "v1_cnt v1_default d c = 0" "v2_cnt v2_default d c = 0" for d c by (cases d; cases c; simp add: v1_default_def v2_default_def)+
  show "matches v1_cnt v1_covers v1_default m b" "matches v2_cnt v2_covers v2_default m b"
    using assms(2) by (auto simp: matches_def 0 z no_objects_def of_class_def)
qed

lemma no_pooled_count: "finite (Mapping.keys pm) \<Longrightarrow> no_pooled pm b \<longleftrightarrow> count_if (of_pool b False) pm = 0"
  by (auto simp: count_if_0 no_pooled_def of_pool_def)

lemma no_pooled_counts: "finite (Mapping.keys pm) \<Longrightarrow> no_pooled pm b \<Longrightarrow> count_if (of_pool b c) pm = 0"
  by (auto simp: count_if_0 no_pooled_def of_pool_def)

lemma default_inv [simp]: "v1_inv v1_default" "v1_initial_certified_epoch v1_default = None" "v2_inv v2_default" "v2_initial_certified_epoch v2_default = None"
  "v2_count_pooled_refs_total v2_default = 0" "v2_count_pooled_refs_certified v2_default = 0"
  by (simp_all add: v1_inv_def v1_default_def v2_inv_def v2_default_def)

text \<open>Only the objects of the blob matter.\<close>

lemma entry_ok_agree:
  assumes m: "agree (\<lambda>x. po_blob_id (po_v1 x)) b m m'" and pm: "agree (\<lambda>x. pp_blob_id (pp_v1 x)) b pm pm'" and "entry_ok now a m pm b"
  shows "entry_ok now a m' pm' b"
proof -
  have "no_objects m b \<Longrightarrow> no_objects m' b" "no_pooled pm b \<Longrightarrow> no_pooled pm' b"
    using m pm unfolding agree_def no_objects_def no_pooled_def by blast+
  moreover have "count_if (of_pool b c) pm' = count_if (of_pool b c) pm" for c
    by (rule agree_count [OF pm]) (simp add: of_pool_def)
  moreover have "count_if (of_class b d False) m' = count_if (of_class b d False) m" for d
    by (rule agree_count [OF m]) (simp add: of_class_def)
  ultimately show ?thesis using assms(3)
    by (cases "(now, a, m, pm, b)" rule: entry_ok.cases) (simp_all add: agree_matches [OF m] fit_def)
qed

lemma entry_fit:
  assumes "finite (Mapping.keys m)" "finite (Mapping.keys pm)" "entry_ok now a m pm b"
  shows "fit m pm b"
proof -
  have le: "v1_inv v \<Longrightarrow> v1_cnt v d False \<le> U32_MAX" "v2_inv w \<Longrightarrow> v2_cnt w d False \<le> U32_MAX" for v w d
    by (cases d; cases "v1_permanent_total v"; cases "v2_permanent_total w"; simp add: v1_inv_def v2_inv_def)+
  have "no_objects m b \<Longrightarrow> count_if (of_class b d c) m = 0" for d c using assms(1) by (auto simp: count_if_0 no_objects_def of_class_def)
  moreover have "v1_inv v \<Longrightarrow> matches v1_cnt v1_covers v m b \<Longrightarrow> count_if (of_class b d False) m \<le> U32_MAX"
    "v2_inv w \<Longrightarrow> matches v2_cnt v2_covers w m b \<Longrightarrow> count_if (of_class b d False) m \<le> U32_MAX" for v w d
    using le(1) [of v d] le(2) [of w d] matchesD(1) [of v1_cnt v1_covers v m b d False] matchesD(1) [of v2_cnt v2_covers w m b d False] by simp_all
  moreover have "v2_inv w \<Longrightarrow> v2_count_pooled_refs_total w \<le> U32_MAX" for w by (simp add: v2_inv_def)
  ultimately show ?thesis using assms no_pooled_counts [of pm b False]
    by (cases "(now, a, m, pm, b)" rule: entry_ok.cases) (force simp: fit_def)+
qed

lemma count_if_le:
  assumes "finite (Mapping.keys t)"
  shows "count_if P t \<le> n \<Longrightarrow> (P v \<Longrightarrow> (case Mapping.lookup t k of None \<Rightarrow> False | Some y \<Rightarrow> P y) \<or> count_if P t < n) \<Longrightarrow> count_if P (Mapping.update k v t) \<le> n"
    "count_if P (Mapping.delete k t) \<le> count_if P t"
  using count_if_split [OF assms, of P k] count_if_update [OF assms, of P k v]
  by (cases "Mapping.lookup t k"; cases "P v"; auto)+

lemma fit_update:
  "finite (Mapping.keys m) \<Longrightarrow> fit m pm b \<Longrightarrow>
    (\<And>d. of_class b d False x \<Longrightarrow> (case Mapping.lookup m k of None \<Rightarrow> False | Some y \<Rightarrow> of_class b d False y) \<or> count_if (of_class b d False) m < U32_MAX) \<Longrightarrow>
    fit (Mapping.update k x m) pm b"
  by (simp add: fit_def count_if_le(1))

lemma fit_delete: "finite (Mapping.keys m) \<Longrightarrow> fit m pm b \<Longrightarrow> fit (Mapping.delete k m) pm b"
  unfolding fit_def using count_if_le(2) [of m] by (meson order_trans)

lemma fit_pool_update:
  "finite (Mapping.keys pm) \<Longrightarrow> fit m pm b \<Longrightarrow>
    (case Mapping.lookup pm k of None \<Rightarrow> False | Some y \<Rightarrow> of_pool b False y) \<or> count_if (of_pool b False) pm < U32_MAX \<Longrightarrow> fit m (Mapping.update k x pm) b"
  by (simp add: fit_def count_if_le(1))

lemma fit_pool_delete: "finite (Mapping.keys pm) \<Longrightarrow> fit m pm b \<Longrightarrow> fit m (Mapping.delete k pm) b"
  unfolding fit_def using count_if_le(2) [of pm] by (meson order_trans)

text \<open>A change to a table of objects that concerns only the objects of one blob.\<close>

definition changes_only :: "blob_id \<Rightarrow> ('v \<Rightarrow> blob_id) \<Rightarrow> ('v \<Rightarrow> bool) \<Rightarrow> ('k, 'v) mapping \<Rightarrow> ('k, 'v) mapping \<Rightarrow> bool" where
  "changes_only b f P m m' \<longleftrightarrow> finite (Mapping.keys m') \<and> (\<forall>j. j \<noteq> b \<longrightarrow> agree f j m m') \<and> (\<forall>k x. Mapping.lookup m' k = Some x \<longrightarrow> P x)"

lemma changes_only_refl: "finite (Mapping.keys m) \<Longrightarrow> (\<And>k x. Mapping.lookup m k = Some x \<Longrightarrow> P x) \<Longrightarrow> changes_only b f P m m"
  by (auto simp: changes_only_def)

lemma changes_only_update:
  "finite (Mapping.keys m) \<Longrightarrow> (\<And>k x. Mapping.lookup m k = Some x \<Longrightarrow> P x) \<Longrightarrow> f x = b \<Longrightarrow> P x \<Longrightarrow>
    (case Mapping.lookup m k of None \<Rightarrow> True | Some y \<Rightarrow> f y = b) \<Longrightarrow> changes_only b f P m (Mapping.update k x m)"
  by (auto simp: changes_only_def lookup_update' split: if_splits option.splits intro!: agree_update)

lemma changes_only_delete:
  "finite (Mapping.keys m) \<Longrightarrow> (\<And>k x. Mapping.lookup m k = Some x \<Longrightarrow> P x) \<Longrightarrow> Mapping.lookup m k = Some y \<Longrightarrow> f y = b \<Longrightarrow>
    changes_only b f P m (Mapping.delete k m)"
  by (auto simp: changes_only_def lookup_delete_iff split: if_splits intro!: agree_delete)

abbreviation objects_change :: "blob_id \<Rightarrow> objects \<Rightarrow> objects \<Rightarrow> bool" where
  "objects_change b \<equiv> changes_only b (\<lambda>x. po_blob_id (po_v1 x)) (\<lambda>x. \<not> po_deleted (po_v1 x))"

abbreviation pooled_change :: "blob_id \<Rightarrow> pooled_objects \<Rightarrow> pooled_objects \<Rightarrow> bool" where
  "pooled_change b \<equiv> changes_only b (\<lambda>x. pp_blob_id (pp_v1 x)) (\<lambda>_. True)"

lemma table_ok_change:
  assumes t: "table_ok now t" and e: "entry_ok now a (per_object_blob_info t') (per_object_pooled_blob_info t') b"
    and agg: "\<And>j. Mapping.lookup (aggregate_blob_info t') j = (if j = b then a else Mapping.lookup (aggregate_blob_info t) j)"
    and m: "objects_change b (per_object_blob_info t) (per_object_blob_info t')"
    and pm: "pooled_change b (per_object_pooled_blob_info t) (per_object_pooled_blob_info t')"
    and sp: "finite (Mapping.keys (storage_pool_info t'))"
  shows "table_ok now t'"
proof -
  have "Mapping.keys (aggregate_blob_info t') \<subseteq> insert b (Mapping.keys (aggregate_blob_info t))"
    by (auto simp: keys_dom_lookup agg split: if_splits)
  then have "finite (Mapping.keys (aggregate_blob_info t'))" using table_okD(1) [OF t] finite_subset by auto
  moreover have "entry_ok now (Mapping.lookup (aggregate_blob_info t') j) (per_object_blob_info t') (per_object_pooled_blob_info t') j" for j
    using e m pm entry_ok_agree [OF _ _ table_okD(6) [OF t], of j] by (cases "j = b") (simp_all add: agg changes_only_def)
  ultimately show ?thesis using m pm sp by (auto simp: table_ok_def changes_only_def)
qed

subsection \<open>One operand\<close>

text \<open>Each operand keeps the invariant of the entry that it is merged into, together with the change to the table of objects that comes
  with it.\<close>

lemma merge_status [simp]:
  "v1_update_status t i v = (Ok v' :: (valid_blob_info_v1, 'e) result) \<Longrightarrow>
    blob_info_merge (Some (V1 (ValidV1 v))) (ChangeStatus t i) = (Ok (Some (V1 (ValidV1 v'))) :: (blob_info option, 'e) result)"
  "v2_update_status t i w = (Ok w' :: (valid_blob_info_v2, 'e) result) \<Longrightarrow>
    blob_info_merge (Some (V2 (ValidV2 w))) (ChangeStatus t i) = (Ok (Some (V2 (ValidV2 w'))) :: (blob_info option, 'e) result)"
  by simp_all

lemma merge_new_register [simp]:
  "v1_update_status Register i v1_default = (Ok v' :: (valid_blob_info_v1, 'e) result) \<Longrightarrow>
    blob_info_merge None (ChangeStatus Register i) = (Ok (Some (V1 (ValidV1 v'))) :: (blob_info option, 'e) result)"
  by (auto simp: v1_update_defs v1_default_def checked_def perm_register_def perm_update_optional_def split: if_splits)

text \<open>The two versions at once: \<open>P\<close> is what the summary of either has to give for a change of the status.\<close>

lemma entry_change:
  assumes e: "entry_ok now a m pm (ci_blob_id i)" and a: "a \<noteq> None \<or> t = Register \<and> finite (Mapping.keys m)" and s: "ci_epoch i \<le> now \<or> t \<noteq> Certify"
    and fit: "fit m pm (ci_blob_id i) \<Longrightarrow> fit m' pm (ci_blob_id i)"
    and V1: "\<And>v. v1_inv v \<Longrightarrow> matches v1_cnt v1_covers v m (ci_blob_id i) \<Longrightarrow>
      \<exists>v'. v1_update_status t i v = (Ok v' :: (valid_blob_info_v1, table_error) result) \<and> v1_inv v' \<and> matches v1_cnt v1_covers v' m' (ci_blob_id i)
        \<and> v1_initial_certified_epoch v' \<in> {v1_initial_certified_epoch v, if t = Certify then Some (ci_epoch i) else None}"
    and V2: "\<And>v. v2_inv v \<Longrightarrow> matches v2_cnt v2_covers v m (ci_blob_id i) \<Longrightarrow>
      \<exists>v'. v2_update_status t i v = (Ok v' :: (valid_blob_info_v2, table_error) result) \<and> v2_inv v' \<and> matches v2_cnt v2_covers v' m' (ci_blob_id i)
        \<and> v2_initial_certified_epoch v' \<in> {v2_initial_certified_epoch v, if t = Certify then Some (ci_epoch i) else None}"
  shows "\<exists>a'. blob_info_merge a (ChangeStatus t i) = (Ok (Some a') :: (blob_info option, table_error) result) \<and> entry_ok now (Some a') m' pm (ci_blob_id i)"
proof -
  have na: "not_after y now" if "not_after x now" "y \<in> {x, if t = Certify then Some (ci_epoch i) else None}" for x y
    using that s by (auto simp: not_after_def split: if_splits)
  show ?thesis
  proof (cases "(now, a, m, pm, ci_blob_id i)" rule: entry_ok.cases)
    case 1
    then obtain v' where v': "v1_update_status Register i v1_default = (Ok v' :: (valid_blob_info_v1, table_error) result)" "v1_inv v'" "matches v1_cnt v1_covers v' m' (ci_blob_id i)"
      "v1_initial_certified_epoch v' = None" "t = Register"
      using V1 [OF default_inv(1)] a e no_objects_matches(1) [of m "ci_blob_id i"] by auto
    then show ?thesis using 1 e by (auto simp: not_after_def simp del: blob_info_merge.simps)
  next
    case (3 n v)
    then obtain v' where v': "v1_update_status t i v = (Ok v' :: (valid_blob_info_v1, table_error) result)" "v1_inv v'" "matches v1_cnt v1_covers v' m' (ci_blob_id i)"
      "v1_initial_certified_epoch v' \<in> {v1_initial_certified_epoch v, if t = Certify then Some (ci_epoch i) else None}" using V1 [of v] e by auto
    then show ?thesis using 3 e na [OF _ v'(4)] by (auto simp del: blob_info_merge.simps)
  next
    case (5 n v)
    then obtain v' where v': "v2_update_status t i v = (Ok v' :: (valid_blob_info_v2, table_error) result)" "v2_inv v'" "matches v2_cnt v2_covers v' m' (ci_blob_id i)"
      "v2_initial_certified_epoch v' \<in> {v2_initial_certified_epoch v, if t = Certify then Some (ci_epoch i) else None}" using V2 [of v] e by auto
    then show ?thesis using 5 e na [OF _ v'(4)] v2_regular_pool_frame [OF v'(1)] by (auto simp del: blob_info_merge.simps)
  qed (use e fit in auto)
qed

lemma entry_register:
  assumes m: "finite (Mapping.keys m)" and "entry_ok now a m pm (ci_blob_id i)" and k: "Mapping.lookup m k = None"
    and n: "count_if (of_class (ci_blob_id i) (ci_deletable i) False) m < U32_MAX" and x: "po_merge_new (Register, i) = Some x"
  shows "\<exists>a'. blob_info_merge a (ChangeStatus Register i) = (Ok (Some a') :: (blob_info option, table_error) result)
    \<and> entry_ok now (Some a') (Mapping.update k (PerObjectV1 x) m) pm (ci_blob_id i)"
proof -
  have x': "of_class (ci_blob_id i) d c (PerObjectV1 x) \<longleftrightarrow> d = ci_deletable i \<and> \<not> c" "po_end_epoch (po_v1 (PerObjectV1 x)) = ci_end_epoch i" for d c
    using x by (auto simp: of_class_def)
  have "fit m pm (ci_blob_id i) \<Longrightarrow> fit (Mapping.update k (PerObjectV1 x) m) pm (ci_blob_id i)"
    by (erule fit_update [OF m]) (use x'(1) n in auto)
  then show ?thesis using m v1.matches_register [OF m _ _ k n x', unfolded ok_eq_Some] v2.matches_register [OF m _ _ k n x', unfolded ok_eq_Some]
    by (intro entry_change [OF assms(2)]) auto
qed

lemma entry_known: "entry_ok now a m pm b \<Longrightarrow> Mapping.lookup m k = Some x \<Longrightarrow> po_blob_id (po_v1 x) = b \<Longrightarrow> a \<noteq> None"
  "entry_ok now a m pm b \<Longrightarrow> Mapping.lookup pm k = Some y \<Longrightarrow> pp_blob_id (pp_v1 y) = b \<Longrightarrow> a \<noteq> None"
  by (cases a; auto simp: no_objects_def no_pooled_def)+

lemma entry_certify:
  assumes m: "finite (Mapping.keys m)" and e: "entry_ok now a m pm (ci_blob_id i)" and k: "Mapping.lookup m k = Some y"
    and y: "po_blob_id (po_v1 y) = ci_blob_id i" "po_deletable (po_v1 y) = ci_deletable i" "po_end_epoch (po_v1 y) = ci_end_epoch i"
      "po_certified_epoch (po_v1 y) = None" and s: "ci_epoch i \<le> now"
    and x: "x = PerObjectV1 ((po_v1 y)\<lparr>po_event := ev, po_certified_epoch := Some (ci_epoch i)\<rparr>)"
  shows "\<exists>a'. blob_info_merge a (ChangeStatus Certify i) = (Ok (Some a') :: (blob_info option, table_error) result)
    \<and> entry_ok now (Some a') (Mapping.update k x m) pm (ci_blob_id i)"
proof -
  have y': "of_class (ci_blob_id i) d c y \<longleftrightarrow> d = ci_deletable i \<and> \<not> c" and x': "of_class (ci_blob_id i) d c x \<longleftrightarrow> d = ci_deletable i"
    "po_end_epoch (po_v1 x) = ci_end_epoch i" for d c
    using x y by (auto simp: of_class_def)
  have "fit m pm (ci_blob_id i) \<Longrightarrow> fit (Mapping.update k x m) pm (ci_blob_id i)"
    by (erule fit_update [OF m]) (use x'(1) y' k in auto)
  then show ?thesis using s entry_known(1) [OF e k y(1)]
      v1.matches_certify [OF m _ _ k y' y(3) x', unfolded ok_eq_Some] v2.matches_certify [OF m _ _ k y' y(3) x', unfolded ok_eq_Some]
    by (intro entry_change [OF e]) auto
qed

lemma entry_extend:
  assumes m: "finite (Mapping.keys m)" and e: "entry_ok now a m pm (ci_blob_id i)" and k: "Mapping.lookup m k = Some y"
    and y: "po_blob_id (po_v1 y) = ci_blob_id i" "po_deletable (po_v1 y) = ci_deletable i" "po_certified_epoch (po_v1 y) \<noteq> None"
    and x: "x = PerObjectV1 ((po_v1 y)\<lparr>po_event := ev, po_end_epoch := ci_end_epoch i\<rparr>)"
  shows "\<exists>a'. blob_info_merge a (ChangeStatus Extend i) = (Ok (Some a') :: (blob_info option, table_error) result)
    \<and> entry_ok now (Some a') (Mapping.update k x m) pm (ci_blob_id i)"
proof -
  have y': "of_class (ci_blob_id i) d c y \<longleftrightarrow> d = ci_deletable i" and x': "of_class (ci_blob_id i) d c x \<longleftrightarrow> d = ci_deletable i"
    "po_end_epoch (po_v1 x) = ci_end_epoch i" for d c
    using x y by (auto simp: of_class_def)
  have "fit m pm (ci_blob_id i) \<Longrightarrow> fit (Mapping.update k x m) pm (ci_blob_id i)"
    by (erule fit_update [OF m]) (use x'(1) y' k in auto)
  then show ?thesis using entry_known(1) [OF e k y(1)]
      v1.matches_extend [OF m _ _ k y' x', unfolded ok_eq_Some] v2.matches_extend [OF m _ _ k y' x', unfolded ok_eq_Some]
    by (intro entry_change [OF e]) auto
qed

lemma entry_delete:
  assumes m: "finite (Mapping.keys m)" and e: "entry_ok now a m pm (ci_blob_id i)" and k: "Mapping.lookup m k = Some y"
    and y: "po_blob_id (po_v1 y) = ci_blob_id i" "po_deletable (po_v1 y)" "ci_deletable i" "(po_certified_epoch (po_v1 y) \<noteq> None) = w"
  shows "\<exists>a'. blob_info_merge a (ChangeStatus (Delete w) i) = (Ok (Some a') :: (blob_info option, table_error) result)
    \<and> entry_ok now (Some a') (Mapping.delete k m) pm (ci_blob_id i)"
proof -
  have y': "of_class (ci_blob_id i) d' c y \<longleftrightarrow> d' = True \<and> (c \<longrightarrow> w)" for d' c using y by (auto simp: of_class_def)
  show ?thesis using entry_known(1) [OF e k y(1)] fit_delete [OF m, of pm "ci_blob_id i" k] v1.matches_expired [OF m _ _ k y'] v2.matches_expired [OF m _ _ k y']
      v1.upd_delete [OF y(3), unfolded ok_eq_Some] v2.upd_delete [OF y(3), unfolded ok_eq_Some]
    by (intro entry_change [OF e]) auto
qed

lemma entry_expired:
  assumes m: "finite (Mapping.keys m)" and e: "entry_ok now a m pm (po_blob_id (po_v1 y))" and k: "Mapping.lookup m k = Some y"
    and w: "(po_certified_epoch (po_v1 y) \<noteq> None) = w"
  shows "\<exists>a'. blob_info_merge a (if po_deletable (po_v1 y) then DeletableExpired w else PermanentExpired w) = (Ok (Some a') :: (blob_info option, table_error) result)
    \<and> entry_ok now (Some a') (Mapping.delete k m) pm (po_blob_id (po_v1 y))"
proof -
  let ?b = "po_blob_id (po_v1 y)" and ?d = "po_deletable (po_v1 y)"
  have y': "of_class ?b d' c y \<longleftrightarrow> d' = ?d \<and> (c \<longrightarrow> w)" for d' c using w by (auto simp: of_class_def)
  note E1 = v1.matches_expired [OF m _ _ k y'] and E2 = v2.matches_expired [OF m _ _ k y']
  show ?thesis
  proof (cases "(now, a, m, pm, ?b)" rule: entry_ok.cases)
    case (3 n v)
    then have "v1_inv v" "matches v1_cnt v1_covers v m ?b" using e by auto
    from E1 [OF this] show ?thesis using 3 e by (cases ?d) (auto simp: v1_expired_def not_after_def)
  next
    case (5 n v)
    then have "v2_inv v" "matches v2_cnt v2_covers v m ?b" using e by auto
    from E2 [OF this] show ?thesis using 5 e v2_expired_pool_frame [of ?d w v] by (cases ?d) (auto simp: v2_expired_def not_after_def)
  qed (use e entry_known(1) [OF e k refl] fit_delete [OF m, of pm ?b k] in auto)
qed

lemma entry_invalid:
  assumes "finite (Mapping.keys m)" "finite (Mapping.keys pm)" "entry_ok now a m pm b"
  shows "\<exists>a'. blob_info_merge a (MarkInvalid e ev) = (Ok (Some a') :: (blob_info option, table_error) result) \<and> entry_ok now (Some a') m pm b"
  using assms(3) entry_fit [OF assms] by (cases "(now, a, m, pm, b)" rule: entry_ok.cases) auto

lemma same_objects_metadata: "same_objects v (v\<lparr>v2_is_metadata_stored := s\<rparr>)"
  by (simp add: same_objects_def)

lemma entry_metadata:
  assumes "finite (Mapping.keys m)" "entry_ok now a m pm b"
  shows "\<exists>a'. blob_info_merge a (MarkMetadataStored s) = (Ok (Some a') :: (blob_info option, table_error) result) \<and> entry_ok now (Some a') m pm b"
proof -
  have 1: "v1_inv (v\<lparr>v1_is_metadata_stored := s\<rparr>) = v1_inv v" "v2_inv (w\<lparr>v2_is_metadata_stored := s\<rparr>) = v2_inv w" for v w
    by (simp_all add: v1_inv_def v2_inv_def)
  have "v1_cnt (v\<lparr>v1_is_metadata_stored := s\<rparr>) d c = v1_cnt v d c" "v1_covers (v\<lparr>v1_is_metadata_stored := s\<rparr>) d c e = v1_covers v d c e" for v d c e
    by (cases d; cases c; simp)+
  then have 2: "matches v1_cnt v1_covers (v\<lparr>v1_is_metadata_stored := s\<rparr>) m b = matches v1_cnt v1_covers v m b" for v
    by (simp add: matches_def)
  show ?thesis using assms no_objects_matches [OF assms(1), of b] same_objects_matches [OF same_objects_metadata]
    by (cases "(now, a, m, pm, b)" rule: entry_ok.cases) (auto simp: 1 2 not_after_def)
qed

text \<open>Operands about storage pools: an entry of version 1 is upgraded first.\<close>

definition pooled_entry_ok :: "epoch \<Rightarrow> valid_blob_info_v2 \<Rightarrow> objects \<Rightarrow> pooled_objects \<Rightarrow> blob_id \<Rightarrow> bool" where
  "pooled_entry_ok now v m pm b \<longleftrightarrow> entry_ok now (Some (V2 (ValidV2 v))) m pm b"

lemma entry_pool_operand:
  assumes m: "finite (Mapping.keys m)" "finite (Mapping.keys pm)" and e: "entry_ok now a m pm b" and op: "is_pool_operand op"
    and a: "a \<noteq> None \<or> (\<exists>i. op = PooledBlobChangeStatus Register i)" and fit: "fit m pm b \<Longrightarrow> fit m pm' b"
    and step: "\<And>v. pooled_entry_ok now v m pm b \<Longrightarrow>
      \<exists>v'. info_v2_merge_with (ValidV2 v) op = (Ok (ValidV2 v') :: (blob_info_v2, table_error) result) \<and> pooled_entry_ok now v' m pm' b"
  shows "\<exists>a'. blob_info_merge a op = (Ok (Some a') :: (blob_info option, table_error) result) \<and> entry_ok now (Some a') m pm' b"
proof (cases "(now, a, m, pm, b)" rule: entry_ok.cases)
  case 1
  then obtain i where i: "op = PooledBlobChangeStatus Register i" using a by blast
  have "pooled_entry_ok now v2_default m pm b"
    using 1 e m no_objects_matches(2) [of m b] no_pooled_counts [of pm b] by (simp add: pooled_entry_ok_def not_after_def)
  from step [OF this] show ?thesis using 1 i by (auto simp: pooled_entry_ok_def)
next
  case (3 n v)
  have "pooled_entry_ok now (v2_from_v1 v) m pm b"
    using 3 e m v2_from_v1_ok [of v] no_pooled_counts [of pm b] by (simp add: pooled_entry_ok_def)
  from step [OF this] show ?thesis using 3 op by (auto simp: pooled_entry_ok_def)
next
  case (5 n v)
  then show ?thesis using step [of v] e op by (auto simp: pooled_entry_ok_def)
qed (use e op fit in auto)

lemma pool_count_step:
  assumes "finite (Mapping.keys pm)"
  shows "count_if (of_pool b c) (Mapping.update k x pm) + (case Mapping.lookup pm k of None \<Rightarrow> 0 | Some y \<Rightarrow> of_bool (of_pool b c y)) = count_if (of_pool b c) pm + of_bool (of_pool b c x)"
    "count_if (of_pool b c) (Mapping.delete k pm) + (case Mapping.lookup pm k of None \<Rightarrow> 0 | Some y \<Rightarrow> of_bool (of_pool b c y)) = count_if (of_pool b c) pm"
  using count_if_split [OF assms, of "of_pool b c" k] count_if_update [OF assms, of "of_pool b c" k x] by auto

lemma pool_count_le: "finite (Mapping.keys pm) \<Longrightarrow> count_if (of_pool b True) pm \<le> count_if (of_pool b False) pm"
  by (rule count_if_mono) (auto simp: of_pool_def)

lemma entry_pool_register:
  assumes m: "finite (Mapping.keys m)" "finite (Mapping.keys pm)" and e: "entry_ok now a m pm (pci_blob_id i)" and k: "Mapping.lookup pm k = None"
    and n: "count_if (of_pool (pci_blob_id i) False) pm < U32_MAX" and x: "pp_merge_new (Register, i) = Some x"
  shows "\<exists>a'. blob_info_merge a (PooledBlobChangeStatus Register i) = (Ok (Some a') :: (blob_info option, table_error) result)
    \<and> entry_ok now (Some a') m (Mapping.update k (PooledV1 x) pm) (pci_blob_id i)"
proof (rule entry_pool_operand [OF m e])
  fix v assume v: "pooled_entry_ok now v m pm (pci_blob_id i)"
  have x': "of_pool (pci_blob_id i) c (PooledV1 x) \<longleftrightarrow> \<not> c" for c using x by (auto simp: of_pool_def)
  show "\<exists>v'. info_v2_merge_with (ValidV2 v) (PooledBlobChangeStatus Register i) = Ok (ValidV2 v') \<and> pooled_entry_ok now v' m (Mapping.update k (PooledV1 x) pm) (pci_blob_id i)"
    using v n v2_pool_register_ok [of v] same_objects_matches [of v "v2_pool_register v" m "pci_blob_id i"] k x'
      pool_count_step(1) [OF m(2), of "pci_blob_id i" False k "PooledV1 x"] pool_count_step(1) [OF m(2), of "pci_blob_id i" True k "PooledV1 x"]
    by (simp add: pooled_entry_ok_def)
qed (use fit_pool_update [OF m(2), of m "pci_blob_id i" k] n in auto)

lemma entry_pool_certify:
  assumes m: "finite (Mapping.keys m)" "finite (Mapping.keys pm)" and e: "entry_ok now a m pm (pci_blob_id i)" and k: "Mapping.lookup pm k = Some y"
    and y: "pp_blob_id (pp_v1 y) = pci_blob_id i" "pp_certified_epoch (pp_v1 y) = None" and s: "pci_epoch i \<le> now"
    and x: "x = PooledV1 ((pp_v1 y)\<lparr>pp_event := ev, pp_certified_epoch := Some (pci_epoch i)\<rparr>)"
  shows "\<exists>a'. blob_info_merge a (PooledBlobChangeStatus Certify i) = (Ok (Some a') :: (blob_info option, table_error) result)
    \<and> entry_ok now (Some a') m (Mapping.update k x pm) (pci_blob_id i)"
proof (rule entry_pool_operand [OF m e])
  fix v assume v: "pooled_entry_ok now v m pm (pci_blob_id i)"
  let ?b = "pci_blob_id i" and ?v = "v2_pool_certify (pci_epoch i) v"
  have xy: "of_pool ?b c x" "of_pool ?b c y \<longleftrightarrow> \<not> c" for c using x y by (auto simp: of_pool_def)
  note S = pool_count_step [OF m(2), of ?b _ k] and k xy
  have "count_if (of_pool ?b True) pm < count_if (of_pool ?b False) pm"
    using S(2) [of False] S(2) [of True] pool_count_le [of "Mapping.delete k pm" ?b] m(2) k xy by simp
  then have "v2_count_pooled_refs_certified v < v2_count_pooled_refs_total v" "v2_inv v" using v by (simp_all add: pooled_entry_ok_def)
  note C = v2_pool_certify_ok [OF this(2,1), of "pci_epoch i"]
  show "\<exists>v'. info_v2_merge_with (ValidV2 v) (PooledBlobChangeStatus Certify i) = Ok (ValidV2 v') \<and> pooled_entry_ok now v' m (Mapping.update k x pm) ?b"
    using v C same_objects_matches [of v ?v m ?b] S(1) [of False x] S(1) [of True x] k xy s
    by (auto simp: pooled_entry_ok_def not_after_def)
qed (use entry_known(2) [OF e k y(1)] fit_pool_update [OF m(2), of m "pci_blob_id i" k] k y in \<open>auto simp: of_pool_def\<close>)

lemma entry_pool_delete:
  assumes m: "finite (Mapping.keys m)" "finite (Mapping.keys pm)" and e: "entry_ok now a m pm b" and k: "Mapping.lookup pm k = Some y"
    and y: "pp_blob_id (pp_v1 y) = b" "(pp_certified_epoch (pp_v1 y) \<noteq> None) = w"
    and op: "op = PooledBlobChangeStatus (Delete w) i \<or> op = PoolExpired p w"
  shows "\<exists>a'. blob_info_merge a op = (Ok (Some a') :: (blob_info option, table_error) result) \<and> entry_ok now (Some a') m (Mapping.delete k pm) b"
proof (rule entry_pool_operand [OF m e])
  fix v assume v: "pooled_entry_ok now v m pm b"
  let ?v = "v2_pool_delete w v"
  have y': "of_pool b c y \<longleftrightarrow> (c \<longrightarrow> w)" for c using y by (auto simp: of_pool_def)
  note S = pool_count_step(2) [OF m(2), of b _ k]
  have "0 < count_if (of_pool b False) pm" "if w then 0 < count_if (of_pool b True) pm else count_if (of_pool b True) pm < count_if (of_pool b False) pm"
    using S [of False] S [of True] pool_count_le [of "Mapping.delete k pm" b] m(2) k y' by (cases w; simp)+
  then have n: "0 < v2_count_pooled_refs_total v" "if w then 0 < v2_count_pooled_refs_certified v else v2_count_pooled_refs_certified v < v2_count_pooled_refs_total v" "v2_inv v"
    using v by (simp_all add: pooled_entry_ok_def)
  note C = v2_pool_delete_ok [OF n(3,1,2)]
  show "\<exists>v'. info_v2_merge_with (ValidV2 v) op = Ok (ValidV2 v') \<and> pooled_entry_ok now v' m (Mapping.delete k pm) b"
    using v C same_objects_matches [of v ?v m b] S [of False] S [of True] k y' op
    by (auto simp: pooled_entry_ok_def not_after_def)
qed (use entry_known(2) [OF e k y(1)] fit_pool_delete [OF m(2), of m b k] op in auto)

subsection \<open>Events\<close>

text \<open>What the contracts guarantee about the next event. Objects are created once; only a registered object is certified, and only once,
  in an epoch that has begun, and until then its end epoch stays; only certified objects are extended; only deletable objects are
  deleted, and the event says whether they were certified. The numbers of objects fit their counters. Events about the deny
  list are not handled by the code.\<close>

fun event_ok :: "epoch \<Rightarrow> blob_info_table \<Rightarrow> blob_event \<Rightarrow> bool" where
  "event_ok now t (Registered e) \<longleftrightarrow> Mapping.lookup (per_object_blob_info t) (br_object_id e) = None
    \<and> count_if (of_class (br_blob_id e) (br_deletable e) False) (per_object_blob_info t) < U32_MAX"
| "event_ok now t (Certified e) \<longleftrightarrow> (case Mapping.lookup (per_object_blob_info t) (bc_object_id e) of
      None \<Rightarrow> False
    | Some x \<Rightarrow> po_blob_id (po_v1 x) = bc_blob_id e \<and> po_deletable (po_v1 x) = bc_deletable e
        \<and> (if bc_is_extension e then po_certified_epoch (po_v1 x) \<noteq> None
           else po_certified_epoch (po_v1 x) = None \<and> po_end_epoch (po_v1 x) = bc_end_epoch e \<and> bc_epoch e \<le> now))"
| "event_ok now t (Deleted e) \<longleftrightarrow> (case Mapping.lookup (per_object_blob_info t) (bdel_object_id e) of
      None \<Rightarrow> False
    | Some x \<Rightarrow> po_blob_id (po_v1 x) = bdel_blob_id e \<and> po_deletable (po_v1 x)
        \<and> (po_certified_epoch (po_v1 x) \<noteq> None) = bdel_was_certified e)"
| "event_ok now t (InvalidBlobID e) \<longleftrightarrow> True"
| "event_ok now t (DenyListBlobDeleted e) \<longleftrightarrow> False"
| "event_ok now t (PooledBlobRegistered e) \<longleftrightarrow> Mapping.lookup (per_object_pooled_blob_info t) (pr_object_id e) = None
    \<and> count_if (of_pool (pr_blob_id e) False) (per_object_pooled_blob_info t) < U32_MAX"
| "event_ok now t (PooledBlobCertified e) \<longleftrightarrow> (case Mapping.lookup (per_object_pooled_blob_info t) (pc_object_id e) of
      None \<Rightarrow> False
    | Some x \<Rightarrow> pp_blob_id (pp_v1 x) = pc_blob_id e \<and> pp_certified_epoch (pp_v1 x) = None \<and> pc_epoch e \<le> now)"
| "event_ok now t (PooledBlobDeleted e) \<longleftrightarrow> (case Mapping.lookup (per_object_pooled_blob_info t) (pd_object_id e) of
      None \<Rightarrow> False
    | Some x \<Rightarrow> pp_blob_id (pp_v1 x) = pd_blob_id e \<and> (pp_certified_epoch (pp_v1 x) \<noteq> None) = pd_was_certified e)"

text \<open>The two merges of an event, and what is left to show: that the new entry of its blob is a summary of the new objects.\<close>

lemma partial_merge_one: "merge (Mapping.lookup t k) op = Ok (Some v) \<Longrightarrow> partial_merge merge k [op] t = Ok (Mapping.update k v t)"
  by (simp add: partial_merge_def merge_mergeable_def)

lemma merge_Some:
  "per_object_merge (Some x) op = and_then (po_merge_with (po_v1 x) op) (\<lambda>v. Ok (Some (PerObjectV1 v)))"
  "pooled_merge (Some y) op' = and_then (pp_merge_with (pp_v1 y) op') (\<lambda>v. Ok (Some (PooledV1 v)))"
  by (cases x; cases y; simp)+

lemma update_blob_info_ok:
  assumes t: "table_ok now t" and op: "blob_event_merge_operand ev = (Ok op :: (blob_info_merge_operand, table_error) result)" and b: "event_blob_id ev = b"
    and e: "\<exists>a. blob_info_merge (Mapping.lookup (aggregate_blob_info t) b) op = (Ok (Some a) :: (blob_info option, table_error) result) \<and> entry_ok now (Some a) m pm b"
    and u: "\<And>a. update_per_object_blob_info ev (t\<lparr>aggregate_blob_info := a\<rparr>) = Ok (t\<lparr>aggregate_blob_info := a, per_object_blob_info := m, per_object_pooled_blob_info := pm\<rparr>)"
    and m: "objects_change b (per_object_blob_info t) m" and pm: "pooled_change b (per_object_pooled_blob_info t) pm"
  shows "\<exists>t'. update_blob_info n ev t = Ok t' \<and> table_ok now t' \<and> storage_pool_info t' = storage_pool_info t"
proof (cases "has_event_been_handled (latest_handled_event_index t) n")
  case True
  then show ?thesis using t by (simp add: update_blob_info_def)
next
  case False
  obtain a where a: "blob_info_merge (Mapping.lookup (aggregate_blob_info t) b) op = (Ok (Some a) :: (blob_info option, table_error) result)"
    "entry_ok now (Some a) m pm b" using e by blast
  let ?t = "t\<lparr>aggregate_blob_info := Mapping.update b a (aggregate_blob_info t), per_object_blob_info := m,
    per_object_pooled_blob_info := pm, latest_handled_event_index := Some n\<rparr>"
  have "update_blob_info n ev t = Ok ?t"
    using False op b partial_merge_one [of blob_info_merge "aggregate_blob_info t" b op a] a(1) u by (simp add: update_blob_info_def)
  moreover have "table_ok now ?t"
    using a(2) m pm table_okD(4) [OF t] by (intro table_ok_change [OF t, of "Some a" _ b]) (auto simp: lookup_update')
  ultimately show ?thesis by simp
qed

lemma event_table_ok:
  assumes t: "table_ok now t" and ok: "event_ok now t ev"
  shows "\<exists>t'. update_blob_info n ev t = Ok t' \<and> table_ok now t' \<and> storage_pool_info t' = storage_pool_info t"
proof -
  let ?m = "per_object_blob_info t" and ?pm = "per_object_pooled_blob_info t"
  note F = table_okD(2,3) [OF t] and D = table_okD(5) [OF t] and E = table_okD(6) [OF t]
  have same: "objects_change b ?m ?m" "pooled_change b ?pm ?pm" for b using F D by (auto intro: changes_only_refl)
  note U = update_blob_info_ok [OF t] and upd = changes_only_update [OF F(1) D] changes_only_update [OF F(2)] and del = changes_only_delete [OF F(1) D] changes_only_delete [OF F(2)]
  show ?thesis
  proof (cases ev)
    case (Registered e)
    let ?i = "registered_change_info e"
    obtain x where x: "po_merge_new (Register, ?i) = Some x" by simp
    have k: "Mapping.lookup ?m (br_object_id e) = None" using ok Registered by simp
    have "count_if (of_class (ci_blob_id ?i) (ci_deletable ?i) False) ?m < U32_MAX" using ok Registered by simp
    from entry_register [OF F(1) E k this x] show ?thesis
      by (rule U [rotated 2]) (use Registered k x same in \<open>auto simp: partial_merge_one intro!: upd\<close>)
  next
    case (Certified e)
    let ?i = "certified_change_info e"
    obtain y where y: "Mapping.lookup ?m (bc_object_id e) = Some y" "po_blob_id (po_v1 y) = ci_blob_id ?i" "po_deletable (po_v1 y) = ci_deletable ?i"
      using ok Certified by (auto split: option.splits)
    show ?thesis
    proof (cases "bc_is_extension e")
      case True
      then have c: "po_certified_epoch (po_v1 y) \<noteq> None" using ok Certified y by auto
      from entry_extend [OF F(1) E y c refl, of "bc_event_id e"] show ?thesis
        by (rule U [rotated 2]) (use Certified True y c D [OF y(1)] same in \<open>auto simp: partial_merge_one merge_Some intro!: upd\<close>)
    next
      case False
      then have c: "po_end_epoch (po_v1 y) = ci_end_epoch ?i" "po_certified_epoch (po_v1 y) = None" "ci_epoch ?i \<le> now" using ok Certified y by auto
      from entry_certify [OF F(1) E y c refl, of "bc_event_id e"] show ?thesis
        by (rule U [rotated 2]) (use Certified False y c D [OF y(1)] same in \<open>auto simp: partial_merge_one merge_Some intro!: upd\<close>)
    qed
  next
    case (Deleted e)
    let ?i = "deleted_change_info e"
    obtain y where y: "Mapping.lookup ?m (bdel_object_id e) = Some y" "po_blob_id (po_v1 y) = ci_blob_id ?i" "po_deletable (po_v1 y)" "ci_deletable ?i"
      "(po_certified_epoch (po_v1 y) \<noteq> None) = bdel_was_certified e"
      using ok Deleted by (auto split: option.splits)
    from entry_delete [OF F(1) E y] show ?thesis
      by (rule U [rotated 2]) (use Deleted y same in \<open>auto intro!: del\<close>)
  next
    case (InvalidBlobID e)
    from entry_invalid [OF F E] show ?thesis
      by (rule U [rotated 2]) (use InvalidBlobID same in auto)
  next
    case (PooledBlobRegistered e)
    let ?i = "pooled_registered_change_info e"
    obtain x where x: "pp_merge_new (Register, ?i) = Some x" by simp
    have k: "Mapping.lookup ?pm (pr_object_id e) = None" using ok PooledBlobRegistered by simp
    have "count_if (of_pool (pci_blob_id ?i) False) ?pm < U32_MAX" using ok PooledBlobRegistered by simp
    from entry_pool_register [OF F E k this x] show ?thesis
      by (rule U [rotated 2]) (use PooledBlobRegistered k x same in \<open>auto simp: partial_merge_one intro!: upd\<close>)
  next
    case (PooledBlobCertified e)
    let ?i = "pooled_certified_change_info e"
    obtain y where y: "Mapping.lookup ?pm (pc_object_id e) = Some y" "pp_blob_id (pp_v1 y) = pci_blob_id ?i" "pp_certified_epoch (pp_v1 y) = None" "pci_epoch ?i \<le> now"
      using ok PooledBlobCertified by (auto split: option.splits)
    from entry_pool_certify [OF F E y refl, of "pc_event_id e"] show ?thesis
      by (rule U [rotated 2]) (use PooledBlobCertified y same in \<open>auto simp: partial_merge_one merge_Some intro!: upd\<close>)
  next
    case (PooledBlobDeleted e)
    obtain y where y: "Mapping.lookup ?pm (pd_object_id e) = Some y" "pp_blob_id (pp_v1 y) = pd_blob_id e" "(pp_certified_epoch (pp_v1 y) \<noteq> None) = pd_was_certified e"
      using ok PooledBlobDeleted by (auto split: option.splits)
    from entry_pool_delete [OF F E y disjI1, OF refl, of "pooled_deleted_change_info e"] show ?thesis
      by (rule U [rotated 2]) (use PooledBlobDeleted y same in \<open>auto intro!: del\<close>)
  qed (use ok in simp)
qed

lemma table_clear_ok: "table_ok now (table_clear t)"
  by (simp add: table_ok_def table_clear_def no_objects_def no_pooled_def)

lemma set_metadata_stored_ok:
  assumes t: "table_ok now t"
  shows "\<exists>t'. set_metadata_stored b s t = Ok t' \<and> table_ok now t'"
proof -
  note F = table_okD(2,3,4) [OF t] and D = table_okD(5) [OF t]
  obtain a where a: "blob_info_merge (Mapping.lookup (aggregate_blob_info t) b) (MarkMetadataStored s) = (Ok (Some a) :: (blob_info option, table_error) result)"
    "entry_ok now (Some a) (per_object_blob_info t) (per_object_pooled_blob_info t) b" using entry_metadata [OF F(1) table_okD(6) [OF t]] by blast
  have "table_ok now (t\<lparr>aggregate_blob_info := Mapping.update b a (aggregate_blob_info t)\<rparr>)"
    using a(2) F D by (intro table_ok_change [OF t, of "Some a" _ b]) (auto simp: lookup_update' intro: changes_only_refl)
  then show ?thesis
    using partial_merge_one [of blob_info_merge "aggregate_blob_info t" b "MarkMetadataStored s" a] a(1) by (simp add: set_metadata_stored_def)
qed

lemma update_storage_pool_info_ok: "table_ok now t \<Longrightarrow> update_storage_pool_info n ev t = Ok t' \<Longrightarrow> table_ok now t'"
  by (auto simp: update_storage_pool_info_def table_ok_def partial_merge_def split: if_splits option.splits)

text \<open>The two operands for the extension of an object whose registration was skipped.\<close>

lemma handle_extension_of_untracked_blob_ok:
  assumes t: "table_ok now t" and k: "Mapping.lookup (per_object_blob_info t) (bc_object_id e) = None" and s: "bc_epoch e \<le> now"
    and n: "count_if (of_class (bc_blob_id e) (bc_deletable e) False) (per_object_blob_info t) < U32_MAX"
  shows "\<exists>t'. handle_extension_of_untracked_blob i e t = Ok t' \<and> table_ok now t'"
proof (cases "has_event_been_handled (latest_handled_event_index t) i")
  case True
  then show ?thesis using t by (simp add: handle_extension_of_untracked_blob_def)
next
  case False
  let ?m = "per_object_blob_info t" and ?pm = "per_object_pooled_blob_info t" and ?k = "bc_object_id e"
  note F = table_okD(2,3,4) [OF t] and D = table_okD(5) [OF t] and E = table_okD(6) [OF t]
  define c where "c = \<lparr>ci_blob_id = bc_blob_id e, ci_deletable = bc_deletable e, ci_epoch = bc_epoch e, ci_end_epoch = bc_end_epoch e, ci_status_event = bc_event_id e\<rparr>"
  have c: "ci_blob_id c = bc_blob_id e" "ci_deletable c = bc_deletable e" "ci_epoch c = bc_epoch e" by (simp_all add: c_def)
  obtain x where x: "po_merge_new (Register, c) = Some x" by simp
  define y where "y = PerObjectV1 (x\<lparr>po_event := ci_status_event c, po_certified_epoch := Some (ci_epoch c)\<rparr>)"
  obtain a where a: "blob_info_merge (Mapping.lookup (aggregate_blob_info t) (ci_blob_id c)) (ChangeStatus Register c) = (Ok (Some a) :: (blob_info option, table_error) result)"
    "entry_ok now (Some a) (Mapping.update ?k (PerObjectV1 x) ?m) ?pm (ci_blob_id c)"
    using entry_register [OF F(1) E k _ x] n c by auto
  have "\<exists>a'. blob_info_merge (Some a) (ChangeStatus Certify c) = (Ok (Some a') :: (blob_info option, table_error) result)
    \<and> entry_ok now (Some a') (Mapping.update ?k y (Mapping.update ?k (PerObjectV1 x) ?m)) ?pm (ci_blob_id c)"
    using F(1) a(2) x s by (intro entry_certify [where ev = "ci_status_event c" and y = "PerObjectV1 x"]) (auto simp: y_def c)
  moreover have "Mapping.update ?k y (Mapping.update ?k (PerObjectV1 x) ?m) = Mapping.update ?k y ?m"
    by (rule mapping_eqI) (simp add: lookup_update')
  ultimately obtain a' where a': "blob_info_merge (Some a) (ChangeStatus Certify c) = (Ok (Some a') :: (blob_info option, table_error) result)"
    "entry_ok now (Some a') (Mapping.update ?k y ?m) ?pm (ci_blob_id c)" by auto
  have "per_object_merge None (Register, c) = (Ok (Some (PerObjectV1 x)) :: (per_object_blob_info option, table_error) result)"
    "per_object_merge (Some (PerObjectV1 x)) (Certify, c) = (Ok (Some y) :: (per_object_blob_info option, table_error) result)"
    using x by (auto simp: y_def)
  then have u: "partial_merge per_object_merge ?k [(Register, c), (Certify, c)] ?m = Ok (Mapping.update ?k y ?m)"
    "partial_merge blob_info_merge (bc_blob_id e) [ChangeStatus Register c, ChangeStatus Certify c] (aggregate_blob_info t) = Ok (Mapping.update (bc_blob_id e) a' (aggregate_blob_info t))"
    using k a(1) a'(1) c(1) by (simp_all add: partial_merge_def merge_mergeable_def)
  let ?t = "t\<lparr>aggregate_blob_info := Mapping.update (bc_blob_id e) a' (aggregate_blob_info t), per_object_blob_info := Mapping.update ?k y ?m, latest_handled_event_index := Some i\<rparr>"
  have "table_ok now ?t"
    using a'(2) c(1) F D k x by (intro table_ok_change [OF t, of "Some a'" _ "bc_blob_id e"]) (auto simp: lookup_update' y_def intro!: changes_only_refl changes_only_update)
  moreover have "handle_extension_of_untracked_blob i e t = Ok ?t" using False u by (simp add: handle_extension_of_untracked_blob_def flip: c_def)
  ultimately show ?thesis by blast
qed

text \<open>During recovery with an incomplete history, events about objects that had expired before are skipped; a tracked object that is extended
  was registered in the epoch at which the recovery starts.\<close>

definition recovery_event_ok :: "epoch \<Rightarrow> epoch \<Rightarrow> blob_info_table \<Rightarrow> blob_event \<Rightarrow> bool" where
  "recovery_event_ok now epoch_at_start t ev \<longleftrightarrow>
    (case event_end_epoch ev of Some e \<Rightarrow> e \<le> epoch_at_start | None \<Rightarrow> False)
    \<or> (case ev of
         Certified e \<Rightarrow> if \<not> bc_is_extension e then event_ok now t ev
           else (case Mapping.lookup (per_object_blob_info t) (bc_object_id e) of
             Some x \<Rightarrow> po_end_epoch (po_v1 x) > epoch_at_start \<and> event_ok now t ev
           | None \<Rightarrow> bc_epoch e \<le> now \<and> count_if (of_class (bc_blob_id e) (bc_deletable e) False) (per_object_blob_info t) < U32_MAX)
       | _ \<Rightarrow> event_ok now t ev)"

lemma recovery_event_table_ok:
  assumes t: "table_ok now t" and ok: "recovery_event_ok now e0 t ev"
  shows "\<exists>t'. update_blob_info_during_recovery_with_incomplete_history n ev e0 t = Ok t' \<and> table_ok now t'"
proof (cases "case event_end_epoch ev of Some e \<Rightarrow> e \<le> e0 | None \<Rightarrow> False")
  case True
  then show ?thesis using t by (simp add: update_blob_info_during_recovery_with_incomplete_history_def)
next
  case False
  note U = event_table_ok [OF t, of ev n] and X = handle_extension_of_untracked_blob_ok [OF t] and D = table_okD(5) [OF t]
  show ?thesis using False ok U X D
    by (auto simp: update_blob_info_during_recovery_with_incomplete_history_def recovery_event_ok_def po_is_registered_def
        simp del: event_ok.simps split: blob_event.splits option.splits if_splits)
qed

subsection \<open>Iterators\<close>

definition in_range :: "'k :: linorder option \<Rightarrow> 'k \<Rightarrow> bool" where
  "in_range bound k \<longleftrightarrow> (case bound of None \<Rightarrow> True | Some b \<Rightarrow> b < k)"

lemma range_iter_eq:
  "finite (Mapping.keys t) \<Longrightarrow> range_iter t bound = map (\<lambda>k. (k, the (Mapping.lookup t k))) (filter (in_range bound) (sorted_list_of_set (Mapping.keys t)))"
proof -
  assume fin: "finite (Mapping.keys t)"
  have "List.map_filter (\<lambda>k. map_option (Pair k) (Mapping.lookup t k)) ks = map (\<lambda>k. (k, the (Mapping.lookup t k))) ks" if "set ks \<subseteq> Mapping.keys t" for ks
    using that by (induction ks) (auto simp: List.map_filter_simps keys_dom_lookup)
  then show ?thesis using fin unfolding range_iter_def in_range_def ordered_keys_def by simp
qed

lemma range_iter_set: "finite (Mapping.keys t) \<Longrightarrow> (k, v) \<in> set (range_iter t bound) \<longleftrightarrow> Mapping.lookup t k = Some v \<and> in_range bound k"
  by (auto simp: range_iter_eq keys_dom_lookup)

lemma range_iter_keys: "finite (Mapping.keys t) \<Longrightarrow> map fst (range_iter t bound) = filter (in_range bound) (sorted_list_of_set (Mapping.keys t))"
  by (simp add: range_iter_eq comp_def)

lemma range_iter_distinct: "finite (Mapping.keys t) \<Longrightarrow> distinct (map fst (range_iter t bound))"
  by (simp add: range_iter_keys)

lemma count_if_range_iter:
  assumes "finite (Mapping.keys t)"
  shows "count_if P t = length (filter (\<lambda>(k, v). P v) (range_iter t None))"
proof -
  let ?L = "filter (\<lambda>(k, v). P v) (range_iter t None)"
  have d: "distinct (map fst ?L)" using range_iter_distinct [OF assms] by (simp add: distinct_map_filter)
  have "{k. \<exists>v. Mapping.lookup t k = Some v \<and> P v} = fst ` set ?L"
    using range_iter_set [OF assms] by (force simp: in_range_def image_iff)
  then show ?thesis using distinct_card [OF d] by (simp add: count_if_def)
qed

subsection \<open>The check of the invariants\<close>

lemma try_fold_unit: "(\<And>x. x \<in> set xs \<Longrightarrow> f x = Ok ()) \<Longrightarrow> try_fold (\<lambda>_. f) () xs = Ok ()"
  by (induction xs) auto

lemma check_per_object_entry_ok:
  assumes t: "table_ok now t" and x: "Mapping.lookup (per_object_blob_info t) k = Some x"
  shows "check_per_object_entry t k (po_v1 x) = Ok ()"
proof -
  let ?p = "po_v1 x" and ?m = "per_object_blob_info t"
  let ?b = "po_blob_id ?p"
  note F = table_okD(2) [OF t] and E = table_okD(6) [OF t, of ?b]
  have "Mapping.lookup (aggregate_blob_info t) ?b \<noteq> None" using entry_known(1) [OF E x refl] by simp
  moreover have "(case (v1_latest_seen_deletable_registered_end_epoch v) of Some e \<Rightarrow> e \<ge> po_end_epoch ?p | None \<Rightarrow> False) \<and> v1_count_deletable_total v > 0
      \<and> (po_certified_epoch ?p \<noteq> None \<longrightarrow> v1_count_deletable_certified v > 0 \<and> (case (v1_latest_seen_deletable_certified_end_epoch v) of Some e \<Rightarrow> e \<ge> po_end_epoch ?p | None \<Rightarrow> False))"
    if v: "Mapping.lookup (aggregate_blob_info t) ?b = Some (V1 (ValidV1 v))" "po_deletable ?p" for v
  proof -
    have M: "matches v1_cnt v1_covers v ?m ?b" using E v(1) by simp
    have "v1_cnt v True c > 0 \<and> v1_covers v True c (po_end_epoch ?p)" if "c \<longrightarrow> po_certified_epoch ?p \<noteq> None" for c
      using matchesD(2) [OF M x, of True c] matchesD(1) [OF M, of True c] count_if_pos [OF F x, of "of_class ?b True c"] v(2) that by (simp add: of_class_def)
    from this [of False] this [of True] show ?thesis by (auto simp: at_least_def)
  qed
  ultimately show ?thesis
    by (auto simp: check_per_object_entry_def Let_def split: blob_info.splits blob_info_v1.splits option.splits)
qed

text \<open>The counts that the check collects are those of the objects in storage pools.\<close>

lemma check_pooled_entry_ok:
  assumes "Mapping.lookup (aggregate_blob_info t) (pp_blob_id (pp_v1 x)) = Some (V2 v)"
    and "(case Mapping.lookup c (pp_blob_id (pp_v1 x)) of Some n \<Rightarrow> n | None \<Rightarrow> (0, 0)) = (n, m)"
    and "n + 1 \<le> U32_MAX" "m + of_bool (pp_certified_epoch (pp_v1 x) \<noteq> None) \<le> U32_MAX"
  shows "check_pooled_entry t c (i, x) = Ok (Mapping.update (pp_blob_id (pp_v1 x)) (n + 1, m + of_bool (pp_certified_epoch (pp_v1 x) \<noteq> None)) c)"
  using assms by (cases "pp_certified_epoch (pp_v1 x)") (simp_all add: check_pooled_entry_def checked_def)

lemma pooled_entry_v2:
  assumes t: "table_ok now t" and x: "Mapping.lookup (per_object_pooled_blob_info t) i = Some x"
  shows "\<exists>v. Mapping.lookup (aggregate_blob_info t) (pp_blob_id (pp_v1 x)) = Some (V2 v)"
  using table_okD(6) [OF t, of "pp_blob_id (pp_v1 x)"] x
  by (cases "(now, Mapping.lookup (aggregate_blob_info t) (pp_blob_id (pp_v1 x)), per_object_blob_info t, per_object_pooled_blob_info t, pp_blob_id (pp_v1 x))" rule: entry_ok.cases)
    (auto simp: no_pooled_def)

lemma check_pooled_entries_ok:
  assumes t: "table_ok now t"
  shows "\<exists>c. try_fold (check_pooled_entry t) Mapping.empty (range_iter (per_object_pooled_blob_info t) None) = Ok c
    \<and> (\<forall>b. (case Mapping.lookup c b of Some n \<Rightarrow> n | None \<Rightarrow> (0, 0))
      = (count_if (of_pool b False) (per_object_pooled_blob_info t), count_if (of_pool b True) (per_object_pooled_blob_info t)))"
proof -
  let ?pm = "per_object_pooled_blob_info t"
  let ?L = "range_iter ?pm None"
  define N where "N k b c = length (filter (\<lambda>(_, x). of_pool b c x) (take k ?L))" for k b c
  note F = table_okD(2,3) [OF t]
  have C: "count_if (of_pool b c) ?pm = N (length ?L) b c" for b c using count_if_range_iter [OF F(2)] by (simp add: N_def)
  have N0: "N 0 b c = 0" for b c by (simp add: N_def)
  have "\<exists>c. try_fold (check_pooled_entry t) Mapping.empty ?L = Ok c
    \<and> (\<forall>b. (case Mapping.lookup c b of Some n \<Rightarrow> n | None \<Rightarrow> (0, 0)) = (N (length ?L) b False, N (length ?L) b True))"
  proof (rule try_fold_invariant)
    fix k c
    assume k: "k < length ?L" and c: "\<forall>b. (case Mapping.lookup c b of Some n \<Rightarrow> n | None \<Rightarrow> (0, 0)) = (N k b False, N k b True)"
    obtain i x where x: "?L ! k = (i, x)" by (cases "?L ! k")
    let ?b = "pp_blob_id (pp_v1 x)"
    have "Mapping.lookup ?pm i = Some x" using nth_mem [OF k] range_iter_set [OF F(2), of i x None] x by simp
    from pooled_entry_v2 [OF t this] obtain v where v: "Mapping.lookup (aggregate_blob_info t) ?b = Some (V2 v)" ..
    have step: "N (Suc k) b d = N k b d + of_bool (of_pool b d x)" for b d using k x by (simp add: take_Suc_conv_app_nth N_def)
    have "N (Suc k) b d \<le> N (length ?L) b d" for b d
      unfolding N_def using append_take_drop_id [of "Suc k" ?L] by (metis (no_types, lifting) filter_append le_add1 length_append take_all_iff order_refl)
    moreover have "N (length ?L) ?b d \<le> U32_MAX" for d
      using pool_count_le [OF F(2), of ?b] entry_fit [OF F table_okD(6) [OF t, of ?b]] C by (cases d) (auto simp: fit_def)
    ultimately have le: "N (Suc k) ?b d \<le> U32_MAX" for d using order_trans by blast
    have e: "check_pooled_entry t c (i, x) = Ok (Mapping.update ?b (N k ?b False + 1, N k ?b True + of_bool (pp_certified_epoch (pp_v1 x) \<noteq> None)) c)"
      by (rule check_pooled_entry_ok [OF v]) (use c le [of False] le [of True] step in \<open>auto simp: of_pool_def\<close>)
    show "\<exists>c'. check_pooled_entry t c (?L ! k) = Ok c' \<and> (\<forall>b. (case Mapping.lookup c' b of Some n \<Rightarrow> n | None \<Rightarrow> (0, 0)) = (N (Suc k) b False, N (Suc k) b True))"
      using c by (auto simp: x e step of_pool_def lookup_update')
  qed (simp add: N0)
  then show ?thesis by (simp add: C)
qed

lemma check_aggregate_entry_ok:
  assumes t: "table_ok now t" and a: "Mapping.lookup (aggregate_blob_info t) b = Some a"
    and c: "(case Mapping.lookup c b of Some n \<Rightarrow> n | None \<Rightarrow> (0, 0))
      = (count_if (of_pool b False) (per_object_pooled_blob_info t), count_if (of_pool b True) (per_object_pooled_blob_info t))"
    and S: "\<And>k x. Mapping.lookup (per_object_blob_info t) k = Some x \<Longrightarrow> po_blob_id (po_v1 x) \<in> S"
      "\<And>k x. Mapping.lookup (per_object_pooled_blob_info t) k = Some x \<Longrightarrow> pp_blob_id (pp_v1 x) \<in> S"
  shows "check_aggregate_entry c S b a = Ok ()"
proof -
  let ?m = "per_object_blob_info t" and ?pm = "per_object_pooled_blob_info t"
  note F = table_okD(2,3) [OF t] and E = table_okD(6) [OF t, of b]
  have "no_objects ?m b \<and> no_pooled ?pm b" if "b \<notin> S" using S that by (auto simp: no_objects_def no_pooled_def)
  then have 0: "count_if (of_class b d e) ?m = 0 \<and> count_if (of_pool b e) ?pm = 0" if "b \<notin> S" for d e
    using that no_pooled_counts [OF F(2)] F(1) by (auto simp: count_if_0 no_objects_def of_class_def)
  have 1: "v1_has_no_objects v" if "a = V1 (ValidV1 v)" "b \<notin> S" for v
  proof -
    have "matches v1_cnt v1_covers v ?m b" "v1_inv v" using E a that(1) by simp_all
    moreover have "v1_cnt v d e = 0" for d e using matchesD(1) [OF calculation(1)] 0 [OF that(2)] by simp
    from this [of True True] this [of True False] this [of False True] this [of False False] calculation(2) show ?thesis
      by (auto simp: v1_has_no_objects_def v1_inv_def perm_count_0)
  qed
  have 2: "v2_has_no_objects v" if "a = V2 (ValidV2 v)" "b \<notin> S" for v
  proof -
    have *: "matches v2_cnt v2_covers v ?m b" "v2_inv v" "v2_count_pooled_refs_total v = 0" "v2_count_pooled_refs_certified v = 0"
      using E a that(1) 0 [OF that(2)] by simp_all
    moreover have "v2_cnt v d e = 0" for d e using matchesD(1) [OF *(1)] 0 [OF that(2)] by simp
    from this [of True True] this [of True False] this [of False True] this [of False False] *(2-) show ?thesis
      by (auto simp: v2_has_no_objects_def v2_inv_def perm_count_0)
  qed
  show ?thesis using 1 2 E a c inv_check
    by (auto simp: check_aggregate_entry_def split: blob_info.splits blob_info_v1.splits blob_info_v2.splits)
qed

lemma check_invariants_ok:
  assumes t: "table_ok now t"
  shows "check_invariants t = Ok ()"
proof -
  note F = table_okD(1,2,3) [OF t]
  obtain c where c: "try_fold (check_pooled_entry t) Mapping.empty (range_iter (per_object_pooled_blob_info t) None) = Ok c"
    "\<And>b. (case Mapping.lookup c b of Some n \<Rightarrow> n | None \<Rightarrow> (0, 0))
      = (count_if (of_pool b False) (per_object_pooled_blob_info t), count_if (of_pool b True) (per_object_pooled_blob_info t))"
    using check_pooled_entries_ok [OF t] by blast
  let ?S = "(\<lambda>(k, x). po_blob_id (po_v1 x)) ` set (range_iter (per_object_blob_info t) None)
    \<union> (\<lambda>(k, x). pp_blob_id (pp_v1 x)) ` set (range_iter (per_object_pooled_blob_info t) None)"
  have S: "Mapping.lookup (per_object_blob_info t) k = Some x \<Longrightarrow> po_blob_id (po_v1 x) \<in> ?S"
    "Mapping.lookup (per_object_pooled_blob_info t) k = Some y \<Longrightarrow> pp_blob_id (pp_v1 y) \<in> ?S" for k x y
    using range_iter_set [OF F(2), of k x None] range_iter_set [OF F(3), of k y None] by (force simp: in_range_def)+
  have "try_fold (\<lambda>_ (oid, info). check_per_object_entry t oid (po_v1 info)) () (range_iter (per_object_blob_info t) None) = Ok ()"
    by (rule try_fold_unit) (auto simp: range_iter_set [OF F(2)] check_per_object_entry_ok [OF t])
  moreover have "try_fold (\<lambda>_ (bid, info). check_aggregate_entry c ?S bid info) () (range_iter (aggregate_blob_info t) None) = Ok ()"
    by (rule try_fold_unit) (use check_aggregate_entry_ok [OF t _ c(2) S] in \<open>auto simp: range_iter_set [OF F(1)]\<close>)
  ultimately show ?thesis using c(1) by (simp add: check_invariants_def)
qed

end
