(* ===== verification/BlobInfoCleanup.thy ===== *)
theory BlobInfoCleanup
  imports BlobInfoConsistent
begin

text \<open>
  Garbage collection terminates, and what it leaves. The interface \<open>batch_table\<close> is what the batch loop needs of the table it goes through:
  processing an entry leaves the entries after it alone. Then the batches do the same as one pass. With \<open>sweep\<close>, where an entry is
  either kept or removed, one pass leaves exactly the entries that are to be kept.
\<close>

subsection \<open>One pass\<close>

definition one_pass :: "('k \<Rightarrow> 'v \<Rightarrow> 's \<Rightarrow> ('s \<times> bool, 'e) result) \<Rightarrow> nat \<times> 's \<Rightarrow> 'k \<times> 'v \<Rightarrow> (nat \<times> 's, 'e) result" where
  "one_pass body r x = and_then (body (fst x) (snd x) (snd r)) (\<lambda>(s, modified). Ok (fst r + (if modified then 1 else 0), s))"

lemma one_pass_pair: "one_pass body (c, s) x = and_then (body (fst x) (snd x) s) (\<lambda>(s, modified). Ok (c + (if modified then 1 else 0), s))"
  by (simp add: one_pass_def)

lemma one_pass_count: "try_fold (one_pass body) (c + d, s) xs = and_then (try_fold (one_pass body) (d, s) xs) (\<lambda>(n, s). Ok (c + n, s))"
proof (induction xs arbitrary: d s)
  case (Cons x xs)
  show ?case
  proof (cases "body (fst x) (snd x) s")
    case (Ok r)
    then show ?thesis using Cons [of "d + (if snd r then 1 else 0)" "fst r"] by (simp add: one_pass_def split_def add.assoc)
  qed (simp_all add: one_pass_def)
qed simp

lemma process_batch_pass:
  "process_batch body t n bound s = and_then (try_fold (one_pass body) (0, s) (take n (range_iter t bound))) (\<lambda>(c, s).
    let xs = take n (range_iter t bound) in
    Ok (\<lparr>total_count = length xs, modified_count = c, last_processed_item = (if xs = [] then bound else Some (fst (last xs)))\<rparr>, s))"
proof -
  have "try_fold (\<lambda>(r, s) (k, v). and_then (body k v s) (\<lambda>(s, modified).
        Ok (\<lparr>total_count = total_count r + 1, modified_count = modified_count r + (if modified then 1 else 0), last_processed_item = Some k\<rparr>, s)))
      (\<lparr>total_count = m, modified_count = c, last_processed_item = l\<rparr>, s) xs
    = and_then (try_fold (one_pass body) (c, s) xs) (\<lambda>(c, s).
        Ok (\<lparr>total_count = m + length xs, modified_count = c, last_processed_item = (if xs = [] then l else Some (fst (last xs)))\<rparr>, s))" for m c l s xs
  proof (induction xs arbitrary: m c l s)
    case (Cons x xs)
    show ?case
    proof (cases "body (fst x) (snd x) s")
      case (Ok r)
      then show ?thesis using Cons [of "m + 1" "c + (if snd r then 1 else 0)" "Some (fst x)" "fst r"]
        by (simp add: one_pass_def split_def)
    qed (simp_all add: one_pass_def split_def)
  qed simp
  from this [of 0 0 bound s "take n (range_iter t bound)"] show ?thesis by (simp add: process_batch_def Let_def)
qed

lemma filter_after: "sorted_wrt (<) (xs @ ys) \<Longrightarrow> xs \<noteq> [] \<Longrightarrow> filter (\<lambda>j. last xs < j) (xs @ ys) = ys \<and> (\<forall>x \<in> set xs. x \<le> (last xs :: 'k :: linorder))"
proof (induction xs rule: rev_induct)
  case (snoc x xs)
  then have "filter (\<lambda>j. x < j) xs = []" "filter (\<lambda>j. x < j) ys = ys" by (auto simp: sorted_wrt_append filter_empty_conv filter_id_conv)
  then show ?case using snoc.prems by (auto simp: sorted_wrt_append)
qed simp

locale batch_table =
  fixes tbl :: "'s \<Rightarrow> ('k :: linorder, 'v) mapping"
    and body :: "'k \<Rightarrow> 'v \<Rightarrow> 's \<Rightarrow> ('s \<times> bool, 'e) result"
  assumes keeps: "body k v s = Ok (s', m) \<Longrightarrow> k < j \<Longrightarrow> Mapping.lookup (tbl s') j = Mapping.lookup (tbl s) j"
    and finite_keys: "body k v s = Ok (s', m) \<Longrightarrow> finite (Mapping.keys (tbl s)) \<Longrightarrow> finite (Mapping.keys (tbl s'))"
begin

lemma pass_keeps:
  "try_fold (one_pass body) (c, s) xs = Ok (c', s') \<Longrightarrow> (\<And>x. x \<in> set xs \<Longrightarrow> fst x \<le> i) \<Longrightarrow> finite (Mapping.keys (tbl s)) \<Longrightarrow>
    finite (Mapping.keys (tbl s')) \<and> (i < j \<longrightarrow> Mapping.lookup (tbl s') j = Mapping.lookup (tbl s) j)"
proof (induction xs arbitrary: c s)
  case (Cons x xs)
  obtain s1 m where s1: "body (fst x) (snd x) s = Ok (s1, m)" "try_fold (one_pass body) (c + (if m then 1 else 0), s1) xs = Ok (c', s')"
    using Cons.prems(1) by (auto simp: one_pass_pair)
  have "i < j \<Longrightarrow> Mapping.lookup (tbl s1) j = Mapping.lookup (tbl s) j" using keeps [OF s1(1), of j] Cons.prems(2) [of x] by auto
  then show ?case using Cons.IH [OF s1(2)] Cons.prems(2,3) finite_keys [OF s1(1)] by auto
qed simp

text \<open>After a batch, the iterator from the last key on yields what is left.\<close>

lemma rest_of_range:
  assumes fin: "finite (Mapping.keys (tbl s))" and n: "0 < n" and ne: "range_iter (tbl s) bound \<noteq> []"
    and pass: "try_fold (one_pass body) (c, s) (take n (range_iter (tbl s) bound)) = Ok (c', s')"
  shows "finite (Mapping.keys (tbl s'))" "range_iter (tbl s') (Some (fst (last (take n (range_iter (tbl s) bound))))) = drop n (range_iter (tbl s) bound)"
proof -
  let ?L = "range_iter (tbl s) bound"
  define K where "K = filter (in_range bound) (sorted_list_of_set (Mapping.keys (tbl s)))"
  define k where "k = fst (last (take n ?L))"
  have K: "map fst ?L = K" "sorted_wrt (<) K" using range_iter_keys [OF fin] fin by (simp_all add: K_def sorted_wrt_filter)
  have k: "k = last (take n K)" "take n K \<noteq> []" using ne n by (auto simp: k_def last_map take_map simp flip: K(1))
  have after: "filter (\<lambda>j. k < j) K = drop n K" "x \<in> set (take n K) \<Longrightarrow> x \<le> k" for x
    using filter_after [of "take n K" "drop n K"] K(2) k by auto
  have fst: "x \<in> set (take n ?L) \<Longrightarrow> fst x \<le> k" for x
    using after(2) [of "fst x"] imageI [of x "set (take n ?L)" fst] by (simp add: take_map flip: K(1))
  note P = pass_keeps [OF pass fst fin]
  show fin': "finite (Mapping.keys (tbl s'))" using P by blast
  have "k \<in> set K" unfolding k(1) by (rule in_set_takeD [OF last_in_set [OF k(2)]])
  then have b: "in_range bound j" if "k < j" for j using that by (auto simp: K_def in_range_def split: option.splits)
  have "filter (in_range (Some k)) (sorted_list_of_set (Mapping.keys (tbl s'))) = drop n K"
  proof (rule strict_sorted_equal)
    show "set (filter (in_range (Some k)) (sorted_list_of_set (Mapping.keys (tbl s')))) = set (drop n K)"
      unfolding after(1) [symmetric] using P b fin fin' by (auto simp: K_def in_range_def keys_dom_lookup)
  qed (use fin' K(2) in \<open>simp_all add: sorted_wrt_filter sorted_wrt_drop\<close>)
  moreover have "drop n ?L = map (\<lambda>j. (j, the (Mapping.lookup (tbl s) j))) (drop n K)" by (simp add: range_iter_eq [OF fin] drop_map flip: K_def)
  moreover have "Mapping.lookup (tbl s') j = Mapping.lookup (tbl s) j" if "j \<in> set (drop n K)" for j
    using that P [of j] unfolding after(1) [symmetric] by simp
  ultimately show "range_iter (tbl s') (Some (fst (last (take n ?L)))) = drop n ?L"
    by (simp add: range_iter_eq [OF fin'] flip: k_def)
qed

lemma single_pass:
  assumes "finite (Mapping.keys (tbl s))" "0 < n"
  shows "process_items_in_batches (\<lambda>bound s. process_batch body (tbl s) n bound s) bound c s = Some (try_fold (one_pass body) (c, s) (range_iter (tbl s) bound))"
  using assms(1)
proof (induction "length (range_iter (tbl s) bound)" arbitrary: s bound c rule: less_induct)
  case less
  let ?L = "range_iter (tbl s) bound"
  have split: "try_fold (one_pass body) (c, s) ?L = and_then (try_fold (one_pass body) (c, s) (take n ?L)) (\<lambda>r. try_fold (one_pass body) r (drop n ?L))"
    by (subst append_take_drop_id [symmetric, of _ n]) (rule try_fold_append)
  have shift: "try_fold (one_pass body) (c, s) (take n ?L) = and_then (try_fold (one_pass body) (0, s) (take n ?L)) (\<lambda>(m, s). Ok (c + m, s))"
    using one_pass_count [of body c 0] by simp
  show ?case
  proof (cases "?L = []")
    case True
    then show ?thesis by (subst process_items_in_batches.simps) (simp add: process_batch_pass)
  next
    case ne: False
    show ?thesis
    proof (cases "try_fold (one_pass body) (0, s) (take n ?L)")
      case (Ok r)
      then obtain m s' where r: "try_fold (one_pass body) (0, s) (take n ?L) = Ok (m, s')" by (cases r) auto
      note R = rest_of_range [OF less.prems assms(2) ne r]
      have "length (range_iter (tbl s') (Some (fst (last (take n ?L))))) < length ?L" using R(2) ne assms(2) by simp
      from less.hyps [OF this R(1)] show ?thesis
        using split shift r R(2) ne assms(2) by (subst process_items_in_batches.simps) (simp add: process_batch_pass min_def)
    qed (use split shift in \<open>subst process_items_in_batches.simps, simp add: process_batch_pass\<close>)+
  qed
qed

end

text \<open>A pass that keeps some entries and removes the others.\<close>

locale sweep = batch_table +
  fixes keep :: "'v \<Rightarrow> bool" and inv :: "'s \<Rightarrow> bool"
  assumes step: "inv s \<Longrightarrow> Mapping.lookup (tbl s) k = Some v \<Longrightarrow>
    \<exists>s' m. body k v s = Ok (s', m) \<and> inv s' \<and> tbl s' = (if keep v then tbl s else Mapping.delete k (tbl s))"
begin

lemma pass:
  assumes "inv s" "distinct (map fst xs)" "\<And>k v. (k, v) \<in> set xs \<Longrightarrow> Mapping.lookup (tbl s) k = Some v"
  shows "\<exists>c' s'. try_fold (one_pass body) (c, s) xs = Ok (c', s') \<and> inv s'
    \<and> (\<forall>j. Mapping.lookup (tbl s') j = (if \<exists>v. (j, v) \<in> set xs \<and> \<not> keep v then None else Mapping.lookup (tbl s) j))"
  using assms
proof (induction xs arbitrary: c s)
  case (Cons x xs)
  obtain k v where x: "x = (k, v)" by (cases x)
  obtain s1 m where s1: "body k v s = Ok (s1, m)" "inv s1" "tbl s1 = (if keep v then tbl s else Mapping.delete k (tbl s))"
    using step [OF Cons.prems(1), of k v] Cons.prems(3) [of k v] x by auto
  have k: "(k, w) \<notin> set xs" for w using Cons.prems(2) x by force
  have l: "Mapping.lookup (tbl s1) j = (if j = k \<and> \<not> keep v then None else Mapping.lookup (tbl s) j)" for j
    by (simp add: s1(3) lookup_delete_iff)
  have "Mapping.lookup (tbl s1) j = Some w" if "(j, w) \<in> set xs" for j w using that k Cons.prems(3) [of j w] l by auto
  from Cons.IH [OF s1(2) _ this, of "c + (if m then 1 else 0)"] obtain c' s' where
    "try_fold (one_pass body) (c + (if m then 1 else 0), s1) xs = Ok (c', s')" "inv s'"
    "\<And>j. Mapping.lookup (tbl s') j = (if \<exists>v. (j, v) \<in> set xs \<and> \<not> keep v then None else Mapping.lookup (tbl s1) j)"
    using Cons.prems(2) by auto
  then show ?case using s1(1) by (intro exI [of _ c'] exI [of _ s']) (auto simp: x l one_pass_pair)
qed simp

lemma batches:
  assumes "inv s" "finite (Mapping.keys (tbl s))" "0 < n"
  shows "\<exists>c s'. process_items_in_batches (\<lambda>bound s. process_batch body (tbl s) n bound s) None 0 s = Some (Ok (c, s')) \<and> inv s'
    \<and> tbl s' = Mapping.filter (\<lambda>_. keep) (tbl s)"
proof -
  have L: "(j, v) \<in> set (range_iter (tbl s) None) \<longleftrightarrow> Mapping.lookup (tbl s) j = Some v" for j v
    using range_iter_set [OF assms(2), of j v None] by (simp add: in_range_def)
  from pass [OF assms(1) range_iter_distinct [OF assms(2)], of None 0] obtain c s' where
    *: "try_fold (one_pass body) (0, s) (range_iter (tbl s) None) = Ok (c, s')" "inv s'"
      "\<And>j. Mapping.lookup (tbl s') j = (if \<exists>v. Mapping.lookup (tbl s) j = Some v \<and> \<not> keep v then None else Mapping.lookup (tbl s) j)"
    by (auto simp: L)
  have "tbl s' = Mapping.filter (\<lambda>_. keep) (tbl s)" by (rule mapping_eqI) (auto simp: *(3) lookup_filter split: option.splits)
  then show ?thesis using single_pass [OF assms(2,3)] *(1,2) by auto
qed

end

subsection \<open>The tables\<close>

text \<open>Garbage collection of objects neither adds nor removes aggregate entries, and does not change which of them are invalid.\<close>

definition same_validity :: "blob_info_table \<Rightarrow> blob_info_table \<Rightarrow> bool" where
  "same_validity t t' \<longleftrightarrow> (\<forall>b. map_option invalidation_event (Mapping.lookup (aggregate_blob_info t') b) = map_option invalidation_event (Mapping.lookup (aggregate_blob_info t) b))"

lemma merge_validity:
  assumes "blob_info_merge (Some a) op = (Ok (Some a') :: (blob_info option, 'e) result)" "\<And>e ev. op \<noteq> MarkInvalid e ev"
  shows "invalidation_event a' = invalidation_event a"
proof -
  have 1: "info_v1_merge_with v op = (Ok v' :: (blob_info_v1, 'e) result) \<Longrightarrow> info_v1_invalidation_event v' = info_v1_invalidation_event v" for v v'
    using assms(2) by (cases "(v, op)" rule: info_v1_merge_with.cases) auto
  have 2: "info_v2_merge_with v op = (Ok v' :: (blob_info_v2, 'e) result) \<Longrightarrow> info_v2_invalidation_event v' = info_v2_invalidation_event v" for v v'
    using assms(2) by (cases "(v, op)" rule: info_v2_merge_with.cases) auto
  have 3: "info_v2_invalidation_event (info_v2_from_v1 v) = info_v1_invalidation_event v" for v by (cases v) auto
  show ?thesis using assms(1) 1 2 3 by (cases a) (fastforce split: if_splits)+
qed

lemma same_validity_update:
  "same_validity t t' \<Longrightarrow> Mapping.lookup (aggregate_blob_info t') b = Some a \<Longrightarrow> invalidation_event a' = invalidation_event a \<Longrightarrow>
    aggregate_blob_info t'' = Mapping.update b a' (aggregate_blob_info t') \<Longrightarrow> same_validity t t''"
  by (auto simp: same_validity_def lookup_update' split: if_splits dest: spec [of _ b])

definition same_but_objects :: "blob_info_table \<Rightarrow> blob_info_table \<Rightarrow> bool" where
  "same_but_objects t t' \<longleftrightarrow> same_validity t t' \<and> storage_pool_info t' = storage_pool_info t \<and> latest_handled_event_index t' = latest_handled_event_index t"

interpretation pools: sweep storage_pool_info "process_maybe_expired_pool now" "\<lambda>info. \<not> pool_end_epoch info \<le> now"
  "\<lambda>t. table_ok now t \<and> t\<lparr>storage_pool_info := Mapping.empty\<rparr> = t0\<lparr>storage_pool_info := Mapping.empty\<rparr>" for now t0
  by unfold_locales (auto simp: process_maybe_expired_pool_def table_ok_def lookup_delete_iff split: if_splits)

lemma expired_object_step:
  assumes t: "table_ok now t" and x: "Mapping.lookup (per_object_blob_info t) k = Some x" and "same_but_objects t0 t"
  shows "\<exists>t' m. process_maybe_expired_blob_object e k x t = Ok (t', m) \<and> table_ok now t' \<and> same_but_objects t0 t'
    \<and> per_object_pooled_blob_info t' = per_object_pooled_blob_info t
    \<and> per_object_blob_info t' = (if po_is_registered (po_v1 x) e then per_object_blob_info t else Mapping.delete k (per_object_blob_info t))"
proof (cases "po_is_registered (po_v1 x) e")
  case True
  then show ?thesis using assms by (auto simp: process_maybe_expired_blob_object_def)
next
  case False
  let ?b = "po_blob_id (po_v1 x)" and ?w = "po_certified_epoch (po_v1 x) \<noteq> None"
  let ?op = "if po_deletable (po_v1 x) then DeletableExpired ?w else PermanentExpired ?w"
  note F = table_okD(2,3,4) [OF t] and D = table_okD(5) [OF t] and E = table_okD(6) [OF t, of ?b]
  obtain a where a: "Mapping.lookup (aggregate_blob_info t) ?b = Some a" using entry_known(1) [OF E x refl] by auto
  obtain a' where a': "blob_info_merge (Some a) ?op = (Ok (Some a') :: (blob_info option, table_error) result)"
    "entry_ok now (Some a') (Mapping.delete k (per_object_blob_info t)) (per_object_pooled_blob_info t) ?b"
    using entry_expired [OF F(1) E x refl] a by auto
  let ?t = "t\<lparr>per_object_blob_info := Mapping.delete k (per_object_blob_info t), aggregate_blob_info := Mapping.update ?b a' (aggregate_blob_info t)\<rparr>"
  have "table_ok now ?t"
    using a'(2) F D x by (intro table_ok_change [OF t, of "Some a'" _ ?b]) (auto simp: lookup_update' intro!: changes_only_refl changes_only_delete)
  moreover have "invalidation_event a' = invalidation_event a" by (rule merge_validity [OF a'(1)]) auto
  then have "same_but_objects t0 ?t" using assms(3) a same_validity_update [of t0 t ?b a a' ?t] by (simp add: same_but_objects_def)
  moreover have "partial_merge blob_info_merge ?b [?op] (aggregate_blob_info t) = Ok (Mapping.update ?b a' (aggregate_blob_info t))"
    by (rule partial_merge_one) (simp only: a a'(1))
  then have "process_maybe_expired_blob_object e k x t = Ok (?t, True)"
    using False D [OF x] by (simp add: process_maybe_expired_blob_object_def Let_def del: not_None_eq)
  ultimately show ?thesis using False by auto
qed

lemma expired_object_objects:
  "process_maybe_expired_blob_object now k x t = Ok (t', m) \<Longrightarrow> per_object_blob_info t' \<in> {per_object_blob_info t, Mapping.delete k (per_object_blob_info t)}"
  by (auto simp: process_maybe_expired_blob_object_def Let_def split: if_splits)

interpretation regular: sweep per_object_blob_info "process_maybe_expired_blob_object now" "\<lambda>x. po_is_registered (po_v1 x) now"
  "\<lambda>t. table_ok now t \<and> same_but_objects t0 t \<and> per_object_pooled_blob_info t = per_object_pooled_blob_info t0" for now t0
proof unfold_locales
  fix k v s s' m j
  assume "process_maybe_expired_blob_object now k v s = Ok (s', m)"
  note * = expired_object_objects [OF this]
  show "k < j \<Longrightarrow> Mapping.lookup (per_object_blob_info s') j = Mapping.lookup (per_object_blob_info s) j" using * by (auto simp: lookup_delete_iff)
  show "finite (Mapping.keys (per_object_blob_info s)) \<Longrightarrow> finite (Mapping.keys (per_object_blob_info s'))" using * by auto
next
  fix s k v
  assume "table_ok now s \<and> same_but_objects t0 s \<and> per_object_pooled_blob_info s = per_object_pooled_blob_info t0" "Mapping.lookup (per_object_blob_info s) k = Some v"
  then show "\<exists>s' m. process_maybe_expired_blob_object now k v s = Ok (s', m)
    \<and> (table_ok now s' \<and> same_but_objects t0 s' \<and> per_object_pooled_blob_info s' = per_object_pooled_blob_info t0)
    \<and> per_object_blob_info s' = (if po_is_registered (po_v1 v) now then per_object_blob_info s else Mapping.delete k (per_object_blob_info s))"
    using expired_object_step [of now s k v t0 now] by auto
qed

text \<open>An object in a storage pool lives as long as its pool.\<close>

definition pool_is_expired :: "epoch \<Rightarrow> blob_info_table \<Rightarrow> object_id \<Rightarrow> bool" where
  "pool_is_expired now t p \<longleftrightarrow> (case Mapping.lookup (storage_pool_info t) p of None \<Rightarrow> True | Some info \<Rightarrow> pool_end_epoch info \<le> now)"

definition cache_ok :: "epoch \<Rightarrow> blob_info_table \<Rightarrow> pool_expired_cache \<Rightarrow> bool" where
  "cache_ok now t cache \<longleftrightarrow> (\<forall>p e. Mapping.lookup cache p = Some e \<longrightarrow> e = pool_is_expired now t p)"

text \<open>The cache makes no difference.\<close>

lemma process_pooled_eq:
  assumes "cache_ok now t cache"
  shows "\<exists>cache'. cache_ok now t cache' \<and> process_maybe_expired_pooled_blob_object now k x (cache, t) =
    (if \<not> pool_is_expired now t (pp_storage_pool_id (pp_v1 x)) then Ok ((cache', t), False)
     else and_then (partial_merge blob_info_merge (pp_blob_id (pp_v1 x)) [PoolExpired (pp_storage_pool_id (pp_v1 x)) (pp_certified_epoch (pp_v1 x) \<noteq> None)] (aggregate_blob_info t)) (\<lambda>a.
       Ok ((cache', t\<lparr>per_object_pooled_blob_info := Mapping.delete k (per_object_pooled_blob_info t), aggregate_blob_info := a\<rparr>), True)))"
proof (cases "Mapping.lookup cache (pp_storage_pool_id (pp_v1 x))")
  case None
  have "cache_ok now t (Mapping.update (pp_storage_pool_id (pp_v1 x)) (pool_is_expired now t (pp_storage_pool_id (pp_v1 x))) cache)"
    using assms by (auto simp: cache_ok_def lookup_update' split: if_splits)
  with None show ?thesis
    by (intro exI [of _ "Mapping.update (pp_storage_pool_id (pp_v1 x)) (pool_is_expired now t (pp_storage_pool_id (pp_v1 x))) cache"])
      (simp add: process_maybe_expired_pooled_blob_object_def Let_def pool_is_expired_def del: not_None_eq)
next
  case (Some e)
  then have "e = pool_is_expired now t (pp_storage_pool_id (pp_v1 x))" using assms by (simp add: cache_ok_def)
  with Some assms show ?thesis
    by (intro exI [of _ cache]) (simp add: process_maybe_expired_pooled_blob_object_def Let_def del: not_None_eq)
qed

lemma expired_pooled_step:
  assumes t: "table_ok now t" and x: "Mapping.lookup (per_object_pooled_blob_info t) k = Some x" and s: "same_but_objects t0 t" and c: "cache_ok e t0 cache"
  shows "\<exists>cache' t' m. process_maybe_expired_pooled_blob_object e k x (cache, t) = Ok ((cache', t'), m) \<and> table_ok now t' \<and> same_but_objects t0 t' \<and> cache_ok e t0 cache'
    \<and> per_object_blob_info t' = per_object_blob_info t
    \<and> per_object_pooled_blob_info t' = (if \<not> pool_is_expired e t0 (pp_storage_pool_id (pp_v1 x)) then per_object_pooled_blob_info t else Mapping.delete k (per_object_pooled_blob_info t))"
proof -
  have same: "pool_is_expired e t = pool_is_expired e t0" "cache_ok e t = cache_ok e t0"
    using s by (simp_all add: fun_eq_iff pool_is_expired_def cache_ok_def same_but_objects_def)
  then have "cache_ok e t cache" using c by simp
  from process_pooled_eq [OF this, of k x] obtain cache' where cache': "cache_ok e t0 cache'"
    and eq: "process_maybe_expired_pooled_blob_object e k x (cache, t) =
      (if \<not> pool_is_expired e t0 (pp_storage_pool_id (pp_v1 x)) then Ok ((cache', t), False)
       else and_then (partial_merge blob_info_merge (pp_blob_id (pp_v1 x)) [PoolExpired (pp_storage_pool_id (pp_v1 x)) (pp_certified_epoch (pp_v1 x) \<noteq> None)] (aggregate_blob_info t)) (\<lambda>a.
         Ok ((cache', t\<lparr>per_object_pooled_blob_info := Mapping.delete k (per_object_pooled_blob_info t), aggregate_blob_info := a\<rparr>), True)))"
    unfolding same by blast
  show ?thesis
  proof (cases "pool_is_expired e t0 (pp_storage_pool_id (pp_v1 x))")
    case False
    then show ?thesis using eq cache' t s by auto
  next
    case True
    let ?b = "pp_blob_id (pp_v1 x)" and ?op = "PoolExpired (pp_storage_pool_id (pp_v1 x)) (pp_certified_epoch (pp_v1 x) \<noteq> None)"
    note F = table_okD(2,3,4) [OF t] and D = table_okD(5) [OF t] and E = table_okD(6) [OF t, of ?b]
    obtain a where a: "Mapping.lookup (aggregate_blob_info t) ?b = Some a" using entry_known(2) [OF E x refl] by auto
    obtain a' where a': "blob_info_merge (Some a) ?op = (Ok (Some a') :: (blob_info option, table_error) result)"
      "entry_ok now (Some a') (per_object_blob_info t) (Mapping.delete k (per_object_pooled_blob_info t)) ?b"
      using entry_pool_delete [OF F(1,2) E x refl refl disjI2 [OF refl]] a by auto
    let ?t = "t\<lparr>per_object_pooled_blob_info := Mapping.delete k (per_object_pooled_blob_info t), aggregate_blob_info := Mapping.update ?b a' (aggregate_blob_info t)\<rparr>"
    have "table_ok now ?t"
      using a'(2) F D x by (intro table_ok_change [OF t, of "Some a'" _ ?b]) (auto simp: lookup_update' intro!: changes_only_refl changes_only_delete)
    moreover have "invalidation_event a' = invalidation_event a" by (rule merge_validity [OF a'(1)]) auto
    then have "same_but_objects t0 ?t" using s a same_validity_update [of t0 t ?b a a' ?t] by (simp add: same_but_objects_def)
    moreover have "partial_merge blob_info_merge ?b [?op] (aggregate_blob_info t) = Ok (Mapping.update ?b a' (aggregate_blob_info t))"
      by (rule partial_merge_one) (simp only: a a'(1))
    then have "process_maybe_expired_pooled_blob_object e k x (cache, t) = Ok ((cache', ?t), True)" using True eq by simp
    ultimately show ?thesis using True cache' by auto
  qed
qed

lemma expired_pooled_objects:
  "process_maybe_expired_pooled_blob_object now k x s = Ok (s', m) \<Longrightarrow>
    per_object_pooled_blob_info (snd s') \<in> {per_object_pooled_blob_info (snd s), Mapping.delete k (per_object_pooled_blob_info (snd s))}"
  by (auto simp: process_maybe_expired_pooled_blob_object_def Let_def split: prod.splits if_splits)

interpretation pooled: sweep "\<lambda>s. per_object_pooled_blob_info (snd s)" "process_maybe_expired_pooled_blob_object now" "\<lambda>x. \<not> pool_is_expired now t0 (pp_storage_pool_id (pp_v1 x))"
  "\<lambda>s. table_ok now (snd s) \<and> same_but_objects t0 (snd s) \<and> cache_ok now t0 (fst s) \<and> per_object_blob_info (snd s) = per_object_blob_info t0" for now t0
proof unfold_locales
  fix k v s s' m j
  assume "process_maybe_expired_pooled_blob_object now k v s = Ok (s', m)"
  note * = expired_pooled_objects [OF this]
  show "k < j \<Longrightarrow> Mapping.lookup (per_object_pooled_blob_info (snd s')) j = Mapping.lookup (per_object_pooled_blob_info (snd s)) j" using * by (auto simp: lookup_delete_iff)
  show "finite (Mapping.keys (per_object_pooled_blob_info (snd s))) \<Longrightarrow> finite (Mapping.keys (per_object_pooled_blob_info (snd s')))" using * by auto
next
  fix s k v
  assume "table_ok now (snd s) \<and> same_but_objects t0 (snd s) \<and> cache_ok now t0 (fst s) \<and> per_object_blob_info (snd s) = per_object_blob_info t0"
    "Mapping.lookup (per_object_pooled_blob_info (snd s)) k = Some v"
  then show "\<exists>s' m. process_maybe_expired_pooled_blob_object now k v s = Ok (s', m)
    \<and> (table_ok now (snd s') \<and> same_but_objects t0 (snd s') \<and> cache_ok now t0 (fst s') \<and> per_object_blob_info (snd s') = per_object_blob_info t0)
    \<and> per_object_pooled_blob_info (snd s') = (if \<not> pool_is_expired now t0 (pp_storage_pool_id (pp_v1 v)) then per_object_pooled_blob_info (snd s) else Mapping.delete k (per_object_pooled_blob_info (snd s)))"
    using expired_pooled_step [of now "snd s" k v t0 now "fst s"] by force
qed

text \<open>The three phases, and their composition.\<close>

lemma process_expired_storage_pools_ok:
  assumes t: "table_ok now t" and n: "0 < n"
  shows "\<exists>t'. process_expired_storage_pools now n t = Some (Ok t') \<and> table_ok now t'
    \<and> t' = t\<lparr>storage_pool_info := Mapping.filter (\<lambda>_ info. \<not> pool_end_epoch info \<le> now) (storage_pool_info t)\<rparr>"
proof -
  have eq: "process_expired_storage_pool_batch n now = (\<lambda>bound s. process_batch (process_maybe_expired_pool now) (storage_pool_info s) n bound s)"
    by (simp add: fun_eq_iff process_expired_storage_pool_batch_def)
  obtain c t' where *: "process_items_in_batches (\<lambda>bound s. process_batch (process_maybe_expired_pool now) (storage_pool_info s) n bound s) None 0 t = Some (Ok (c, t'))"
    "table_ok now t'" "t'\<lparr>storage_pool_info := Mapping.empty\<rparr> = t\<lparr>storage_pool_info := Mapping.empty\<rparr>"
    "storage_pool_info t' = Mapping.filter (\<lambda>_ info. \<not> pool_end_epoch info \<le> now) (storage_pool_info t)"
    using pools.batches [of now t t n] t n table_okD(4) [OF t] by auto
  have "t' = t\<lparr>storage_pool_info := storage_pool_info t'\<rparr>" using *(3) by (cases t; cases t') simp
  then show ?thesis using * by (auto simp: process_expired_storage_pools_def eq)
qed

lemma process_expired_regular_blob_objects_ok:
  assumes t: "table_ok now t" and n: "0 < n"
  shows "\<exists>t'. process_expired_regular_blob_objects now n t = Some (Ok t') \<and> table_ok now t' \<and> same_but_objects t t'
    \<and> per_object_blob_info t' = Mapping.filter (\<lambda>_ x. po_is_registered (po_v1 x) now) (per_object_blob_info t)
    \<and> per_object_pooled_blob_info t' = per_object_pooled_blob_info t"
proof -
  have eq: "process_expired_regular_blob_objects_batch n now = (\<lambda>bound s. process_batch (process_maybe_expired_blob_object now) (per_object_blob_info s) n bound s)"
    by (simp add: fun_eq_iff process_expired_regular_blob_objects_batch_def)
  have "same_but_objects t t" by (simp add: same_but_objects_def same_validity_def)
  then show ?thesis using regular.batches [of now t t n] t n table_okD(2) [OF t] by (auto simp: process_expired_regular_blob_objects_def eq)
qed

lemma process_expired_pooled_blob_objects_ok:
  assumes t: "table_ok now t" and n: "0 < n"
  shows "\<exists>t'. process_expired_pooled_blob_objects now n t = Some (Ok t') \<and> table_ok now t' \<and> same_but_objects t t'
    \<and> per_object_pooled_blob_info t' = Mapping.filter (\<lambda>_ x. \<not> pool_is_expired now t (pp_storage_pool_id (pp_v1 x))) (per_object_pooled_blob_info t)
    \<and> per_object_blob_info t' = per_object_blob_info t"
proof -
  have eq: "process_expired_pooled_blob_objects_batch n now = (\<lambda>bound s. process_batch (process_maybe_expired_pooled_blob_object now) (per_object_pooled_blob_info (snd s)) n bound s)"
    by (simp add: fun_eq_iff process_expired_pooled_blob_objects_batch_def)
  have "same_but_objects t t" "cache_ok now t Mapping.empty" by (simp_all add: same_but_objects_def same_validity_def cache_ok_def)
  then show ?thesis using pooled.batches [of now "(Mapping.empty, t)" t n] t n table_okD(3) [OF t] by (auto simp: process_expired_pooled_blob_objects_def eq)
qed

lemma perform_blob_info_cleanup_ok:
  assumes t: "table_ok now t" and n: "0 < n"
  shows "\<exists>t'. perform_blob_info_cleanup now n t = Some (Ok t') \<and> table_ok now t' \<and> same_validity t t'
    \<and> latest_handled_event_index t' = latest_handled_event_index t
    \<and> storage_pool_info t' = Mapping.filter (\<lambda>_ info. now < pool_end_epoch info) (storage_pool_info t)
    \<and> per_object_blob_info t' = Mapping.filter (\<lambda>_ x. now < po_end_epoch (po_v1 x)) (per_object_blob_info t)
    \<and> per_object_pooled_blob_info t' = Mapping.filter (\<lambda>_ x. \<not> pool_is_expired now t (pp_storage_pool_id (pp_v1 x))) (per_object_pooled_blob_info t)"
proof -
  let ?t1 = "t\<lparr>storage_pool_info := Mapping.filter (\<lambda>_ info. \<not> pool_end_epoch info \<le> now) (storage_pool_info t)\<rparr>"
  obtain 1: "process_expired_storage_pools now n t = Some (Ok ?t1)" "table_ok now ?t1" using process_expired_storage_pools_ok [OF t n] by auto
  obtain t2 where 2: "process_expired_regular_blob_objects now n ?t1 = Some (Ok t2)" "table_ok now t2" "same_but_objects ?t1 t2"
    "per_object_blob_info t2 = Mapping.filter (\<lambda>_ x. po_is_registered (po_v1 x) now) (per_object_blob_info t)" "per_object_pooled_blob_info t2 = per_object_pooled_blob_info t"
    using process_expired_regular_blob_objects_ok [OF 1(2) n] by auto
  obtain t3 where 3: "process_expired_pooled_blob_objects now n t2 = Some (Ok t3)" "table_ok now t3" "same_but_objects t2 t3"
    "per_object_pooled_blob_info t3 = Mapping.filter (\<lambda>_ x. \<not> pool_is_expired now t2 (pp_storage_pool_id (pp_v1 x))) (per_object_pooled_blob_info t2)"
    "per_object_blob_info t3 = per_object_blob_info t2"
    using process_expired_pooled_blob_objects_ok [OF 2(2) n] by auto
  have "pool_is_expired now t2 p = pool_is_expired now t p" for p
    using 2(3) by (auto simp: pool_is_expired_def same_but_objects_def lookup_filter split: option.splits)
  moreover have "Mapping.filter (\<lambda>_ x. po_is_registered (po_v1 x) now) (per_object_blob_info t) = Mapping.filter (\<lambda>_ x. now < po_end_epoch (po_v1 x)) (per_object_blob_info t)"
    by (rule mapping_eqI) (auto simp: lookup_filter po_is_registered_def table_okD(5) [OF t] split: option.splits)
  ultimately show ?thesis using 1(1) 2 3
    by (auto simp: perform_blob_info_cleanup_def process_expired_blob_objects_def then_run_def same_but_objects_def same_validity_def linorder_not_le)
qed

end
