(* ===== verification/BlobDataCleanup.thy ===== *)
theory BlobDataCleanup
  imports BlobInfoCleanup
begin

text \<open>
  The data of blobs is deleted when no object needs it. A live object is seen in the aggregate entry of its blob, so that its data is kept;
  after the tables have been cleaned up, the aggregate entry of a blob without live objects allows its data to be deleted.
\<close>

subsection \<open>Live objects\<close>

definition live_object :: "epoch \<Rightarrow> blob_info_table \<Rightarrow> blob_id \<Rightarrow> bool" where
  "live_object now t b \<longleftrightarrow>
    (\<exists>k x. Mapping.lookup (per_object_blob_info t) k = Some x \<and> po_blob_id (po_v1 x) = b \<and> po_is_registered (po_v1 x) now)
    \<or> (\<exists>k x. Mapping.lookup (per_object_pooled_blob_info t) k = Some x \<and> pp_blob_id (pp_v1 x) = b \<and> \<not> pool_is_expired now t (pp_storage_pool_id (pp_v1 x)))"

definition live_certified_object :: "epoch \<Rightarrow> blob_info_table \<Rightarrow> blob_id \<Rightarrow> bool" where
  "live_certified_object now t b \<longleftrightarrow>
    (\<exists>k x. Mapping.lookup (per_object_blob_info t) k = Some x \<and> po_blob_id (po_v1 x) = b \<and> po_is_certified (po_v1 x) now)
    \<or> (\<exists>k x. Mapping.lookup (per_object_pooled_blob_info t) k = Some x \<and> pp_blob_id (pp_v1 x) = b \<and> pp_certified_epoch (pp_v1 x) \<noteq> None
        \<and> \<not> pool_is_expired now t (pp_storage_pool_id (pp_v1 x)))"

lemma covers_after:
  "v1_cnt v d c > 0 \<Longrightarrow> v1_covers v d c e \<Longrightarrow> now < e \<Longrightarrow>
    (if d then v1_cnt v True c > 0 \<and> is_after (if c then v1_latest_seen_deletable_certified_end_epoch v else v1_latest_seen_deletable_registered_end_epoch v) now
     else perm_is_after (if c then v1_permanent_certified v else v1_permanent_total v) now)"
  "v2_cnt w d c > 0 \<Longrightarrow> v2_covers w d c e \<Longrightarrow> now < e \<Longrightarrow>
    (if d then v2_cnt w True c > 0 else perm_is_after (if c then v2_permanent_certified w else v2_permanent_total w) now)"
  by (cases d; cases c; auto simp: is_after_def at_least_def perm_is_after_def perm_covers_def split: option.splits)+

lemma object_seen:
  assumes t: "table_ok now t" and x: "Mapping.lookup (per_object_blob_info t) k = Some x" "po_blob_id (po_v1 x) = b" "po_is_registered (po_v1 x) now"
    and a: "table_get b t = Some a" "invalidation_event a = None"
  shows "is_registered a now" "po_is_certified (po_v1 x) now \<Longrightarrow> is_certified a now"
proof -
  let ?m = "per_object_blob_info t" and ?d = "po_deletable (po_v1 x)"
  have e: "now < po_end_epoch (po_v1 x)" using x(3) by (simp add: po_is_registered_def)
  have c: "po_is_certified (po_v1 x) now \<Longrightarrow> po_certified_epoch (po_v1 x) \<noteq> None" by (auto simp: po_is_certified_def is_at_most_def split: option.splits)
  have E: "entry_ok now (Some a) ?m (per_object_pooled_blob_info t) b" using table_okD(6) [OF t, of b] a(1) by (simp add: table_get_def)
  have pos: "cl \<longrightarrow> po_certified_epoch (po_v1 x) \<noteq> None \<Longrightarrow> 0 < count_if (of_class b ?d cl) ?m \<and> of_class b ?d cl x" for cl
    using count_if_pos [OF table_okD(2) [OF t] x(1), of "of_class b ?d cl"] x(2) by (simp add: of_class_def)
  have "is_registered a now \<and> (po_is_certified (po_v1 x) now \<longrightarrow> is_certified a now)"
  proof (cases "(now, Some a, ?m, per_object_pooled_blob_info t, b)" rule: entry_ok.cases)
    case (3 n v)
    then have M: "matches v1_cnt v1_covers v ?m b" and v: "v1_inv v" "not_after (v1_initial_certified_epoch v) now" using E by auto
    have "0 < v1_cnt v ?d cl \<and> v1_covers v ?d cl (po_end_epoch (po_v1 x))" if "cl \<longrightarrow> po_certified_epoch (po_v1 x) \<noteq> None" for cl
      using pos [OF that] matchesD [OF M] x(1) by metis
    from covers_after(1) [OF conjunct1 [OF this] conjunct2 [OF this] e, of False] covers_after(1) [OF conjunct1 [OF this] conjunct2 [OF this] e, of True] show ?thesis
      using 3 v c by (auto simp: v1_is_certified_def v1_inv_def not_after_def is_at_most_def perm_is_after_def split: if_splits option.splits)
  next
    case (5 n v)
    then have M: "matches v2_cnt v2_covers v ?m b" and v: "v2_inv v" "not_after (v2_initial_certified_epoch v) now" using E by auto
    have "0 < v2_cnt v ?d cl \<and> v2_covers v ?d cl (po_end_epoch (po_v1 x))" if "cl \<longrightarrow> po_certified_epoch (po_v1 x) \<noteq> None" for cl
      using pos [OF that] matchesD [OF M] x(1) by metis
    from covers_after(2) [OF conjunct1 [OF this] conjunct2 [OF this] e, of False] covers_after(2) [OF conjunct1 [OF this] conjunct2 [OF this] e, of True] show ?thesis
      using 5 v c by (auto simp: v2_is_certified_def v2_inv_def not_after_def is_at_most_def perm_is_after_def split: if_splits option.splits)
  qed (use a(2) in auto)
  then show "is_registered a now" "po_is_certified (po_v1 x) now \<Longrightarrow> is_certified a now" by blast+
qed

lemma pooled_seen:
  assumes t: "table_ok now t" and x: "Mapping.lookup (per_object_pooled_blob_info t) k = Some x" "pp_blob_id (pp_v1 x) = b"
    and a: "table_get b t = Some a" "invalidation_event a = None"
  shows "is_registered a now" "pp_certified_epoch (pp_v1 x) \<noteq> None \<Longrightarrow> is_certified a now"
proof -
  let ?pm = "per_object_pooled_blob_info t"
  have E: "entry_ok now (Some a) (per_object_blob_info t) ?pm b" using table_okD(6) [OF t, of b] a(1) by (simp add: table_get_def)
  obtain u where "a = V2 u" using pooled_entry_v2 [OF t x(1)] x(2) a by (auto simp: table_get_def)
  then obtain v where v: "a = V2 (ValidV2 v)" using a(2) by (cases u) auto
  have pos: "c \<longrightarrow> pp_certified_epoch (pp_v1 x) \<noteq> None \<Longrightarrow> 0 < count_if (of_pool b c) ?pm" for c
    using count_if_pos [OF table_okD(3) [OF t] x(1), of "of_pool b c"] x(2) by (simp add: of_pool_def)
  show "is_registered a now" "pp_certified_epoch (pp_v1 x) \<noteq> None \<Longrightarrow> is_certified a now"
    using v E pos [of False] pos [of True] by (auto simp: v2_is_certified_def v2_inv_def not_after_def is_at_most_def split: option.splits)
qed

lemma live_object_seen:
  "table_ok now t \<Longrightarrow> live_object now t b \<Longrightarrow> table_get b t = Some a \<Longrightarrow> invalidation_event a = None \<Longrightarrow> is_registered a now"
  "table_ok now t \<Longrightarrow> live_certified_object now t b \<Longrightarrow> table_get b t = Some a \<Longrightarrow> invalidation_event a = None \<Longrightarrow> is_certified a now"
  using object_seen pooled_seen by (auto simp: live_object_def live_certified_object_def po_is_certified_def)

lemma live_object_known: "table_ok now t \<Longrightarrow> live_object now t b \<Longrightarrow> table_get b t \<noteq> None"
  using table_okD(6) [of now t b] entry_known by (fastforce simp: live_object_def table_get_def)

text \<open>Conversely, after the tables have been cleaned up.\<close>

lemma no_objects_unregistered:
  assumes t: "table_ok now t" and a: "table_get b t = Some a" and n: "no_objects (per_object_blob_info t) b" "no_pooled (per_object_pooled_blob_info t) b"
  shows "\<not> is_registered a e" "invalidation_event a = None \<Longrightarrow> can_blob_info_be_deleted a e"
proof -
  let ?m = "per_object_blob_info t"
  have E: "entry_ok now (Some a) ?m (per_object_pooled_blob_info t) b" using table_okD(6) [OF t, of b] a(1) by (simp add: table_get_def)
  have 0: "count_if (of_class b d c) ?m = 0" for d c using n(1) table_okD(2) [OF t] by (auto simp: count_if_0 no_objects_def of_class_def)
  have 1: "v1_count_deletable_total v = 0 \<and> v1_permanent_total v = None" if "v1_inv v" "matches v1_cnt v1_covers v ?m b" for v
    using matchesD(1) [OF that(2), of True False] matchesD(1) [OF that(2), of False False] that(1) 0 by (simp add: v1_inv_def perm_count_0)
  have 2: "v2_count_deletable_total v = 0 \<and> v2_permanent_total v = None" if "v2_inv v" "matches v2_cnt v2_covers v ?m b" for v
    using matchesD(1) [OF that(2), of True False] matchesD(1) [OF that(2), of False False] that(1) 0 by (simp add: v2_inv_def perm_count_0)
  have "\<not> is_registered a e \<and> (invalidation_event a = None \<longrightarrow> can_blob_info_be_deleted a e)"
    using E 1 2 no_pooled_counts [OF table_okD(3) [OF t] n(2)]
    by (cases "(now, Some a, ?m, per_object_pooled_blob_info t, b)" rule: entry_ok.cases)
      (auto simp: info_v1_can_data_be_deleted_def info_v2_can_data_be_deleted_def perm_is_after_def)
  then show "\<not> is_registered a e" "invalidation_event a = None \<Longrightarrow> can_blob_info_be_deleted a e" by blast+
qed

lemma can_data_be_deleted_iff: "can_data_be_deleted a e \<longleftrightarrow> \<not> is_registered a e"
  by (cases a) (simp_all add: info_v1_can_data_be_deleted_def info_v2_can_data_be_deleted_def)

lemma can_blob_info_be_deleted_data: "can_blob_info_be_deleted a e \<Longrightarrow> can_data_be_deleted a e \<and> invalidation_event a = None"
  by (cases "(a, e)" rule: can_blob_info_be_deleted.cases)
    (auto elim: info_v1_can_blob_info_be_deleted.elims info_v2_can_blob_info_be_deleted.elims)

lemma matches_none:
  assumes "finite (Mapping.keys m)" "matches cnt covers v m b" "cnt v True False = 0" "cnt v False False = 0"
  shows "no_objects m b"
proof -
  have "count_if (of_class b d False) m = 0" for d using matchesD(1) [OF assms(2), of d False] assms(3,4) by (cases d) auto
  then show ?thesis using assms(1) by (auto simp: count_if_0 no_objects_def of_class_def)
qed

lemma removable_entry:
  assumes fin: "finite (Mapping.keys m)" "finite (Mapping.keys pm)" and e: "entry_ok now (Some a) m pm b" and r: "can_blob_info_be_deleted a e'"
  shows "no_objects m b \<and> no_pooled pm b"
  using e r matches_none [OF fin(1), of v1_cnt v1_covers _ b] matches_none [OF fin(1), of v2_cnt v2_covers _ b] no_pooled_count [OF fin(2), of b]
  by (cases "(now, Some a, m, pm, b)" rule: entry_ok.cases) auto

subsection \<open>Deletion of data\<close>

lemma delete_sliver_pairs:
  "metadata_cf (fold (delete_sliver_pair_in_transaction b) shards s) = metadata_cf s"
  "blob_info (fold (delete_sliver_pair_in_transaction b) shards s) = blob_info s"
  "Mapping.lookup (primary_slivers (fold (delete_sliver_pair_in_transaction b) shards s)) (i, j) = (if j = b \<and> i \<in> set shards then None else Mapping.lookup (primary_slivers s) (i, j))"
  "Mapping.lookup (secondary_slivers (fold (delete_sliver_pair_in_transaction b) shards s)) (i, j) = (if j = b \<and> i \<in> set shards then None else Mapping.lookup (secondary_slivers s) (i, j))"
  by (induction shards arbitrary: s) (auto simp: delete_sliver_pair_in_transaction_def lookup_delete_iff)

text \<open>What a pass over the aggregate entries does, where \<open>D\<close> are the blobs whose data is deleted and \<open>R\<close> those whose entries are removed.\<close>

definition data_pass :: "shard_index list \<Rightarrow> (blob_id \<Rightarrow> bool) \<Rightarrow> (blob_id \<Rightarrow> bool) \<Rightarrow> ('m, 's) storage \<Rightarrow> ('m, 's) storage \<Rightarrow> bool" where
  "data_pass shards D R s s' \<longleftrightarrow>
    (\<forall>b. Mapping.lookup (metadata_cf s') b = (if D b then None else Mapping.lookup (metadata_cf s) b))
    \<and> (\<forall>i b. Mapping.lookup (primary_slivers s') (i, b) = (if D b \<and> i \<in> set shards then None else Mapping.lookup (primary_slivers s) (i, b)))
    \<and> (\<forall>i b. Mapping.lookup (secondary_slivers s') (i, b) = (if D b \<and> i \<in> set shards then None else Mapping.lookup (secondary_slivers s) (i, b)))
    \<and> (\<forall>b. Mapping.lookup (aggregate_blob_info (blob_info s')) b = (if R b then None else Mapping.lookup (aggregate_blob_info (blob_info s)) b))
    \<and> (blob_info s')\<lparr>aggregate_blob_info := Mapping.empty\<rparr> = (blob_info s)\<lparr>aggregate_blob_info := Mapping.empty\<rparr>"

lemma data_step:
  assumes "Mapping.lookup (aggregate_blob_info (blob_info s)) b = Some a"
  shows "\<exists>s' m. process_maybe_expired_data shards now b a s = Ok (s', m)
    \<and> data_pass shards (\<lambda>j. j = b \<and> can_data_be_deleted a now) (\<lambda>j. j = b \<and> can_blob_info_be_deleted a now) s s'"
  using assms can_blob_info_be_deleted_data [of a now]
  by (auto simp: process_maybe_expired_data_def attempt_to_delete_blob_data_inner_def table_get_def delete_blob_data_in_transaction_def data_pass_def
      delete_sliver_pairs lookup_delete_iff Let_def)

lemma data_pass_trans:
  "data_pass shards D R s s' \<Longrightarrow> data_pass shards D' R' s' s'' \<Longrightarrow> data_pass shards (\<lambda>b. D b \<or> D' b) (\<lambda>b. R b \<or> R' b) s s''"
  by (simp add: data_pass_def)

interpretation data: batch_table "\<lambda>s. aggregate_blob_info (blob_info s)" "process_maybe_expired_data shards now" for shards now
proof unfold_locales
  fix k v and s s' :: "('m, 's) storage" and m j
  assume *: "process_maybe_expired_data shards now k v s = Ok (s', m)"
  have "aggregate_blob_info (blob_info s') \<in> {aggregate_blob_info (blob_info s), Mapping.delete k (aggregate_blob_info (blob_info s))}"
    using * by (auto simp: process_maybe_expired_data_def attempt_to_delete_blob_data_inner_def delete_blob_data_in_transaction_def delete_sliver_pairs Let_def
        split: if_splits option.splits)
  then show "k < j \<Longrightarrow> Mapping.lookup (aggregate_blob_info (blob_info s')) j = Mapping.lookup (aggregate_blob_info (blob_info s)) j"
    "finite (Mapping.keys (aggregate_blob_info (blob_info s))) \<Longrightarrow> finite (Mapping.keys (aggregate_blob_info (blob_info s')))"
    by (auto simp: lookup_delete_iff)
qed

lemma data_pass_entries:
  assumes "distinct (map fst xs)" "\<And>b a. (b, a) \<in> set xs \<Longrightarrow> Mapping.lookup (aggregate_blob_info (blob_info s)) b = Some a"
  shows "\<exists>c' s'. try_fold (one_pass (process_maybe_expired_data shards now)) (c, s) xs = Ok (c', s')
    \<and> data_pass shards (\<lambda>b. \<exists>a. (b, a) \<in> set xs \<and> can_data_be_deleted a now) (\<lambda>b. \<exists>a. (b, a) \<in> set xs \<and> can_blob_info_be_deleted a now) s s'"
  using assms
proof (induction xs arbitrary: c s)
  case Nil
  then show ?case by (simp add: data_pass_def)
next
  case (Cons x xs)
  obtain b a where x: "x = (b, a)" by (cases x)
  obtain s1 m where s1: "process_maybe_expired_data shards now b a s = Ok (s1, m)"
    "data_pass shards (\<lambda>j. j = b \<and> can_data_be_deleted a now) (\<lambda>j. j = b \<and> can_blob_info_be_deleted a now) s s1"
    using data_step [of s b a shards now] Cons.prems(2) [of b a] x by auto
  have b: "(b, y) \<notin> set xs" for y using Cons.prems(1) x by force
  have "Mapping.lookup (aggregate_blob_info (blob_info s1)) j = Some y" if "(j, y) \<in> set xs" for j y
    using that b Cons.prems(2) [of j y] s1(2) by (auto simp: data_pass_def)
  from Cons.IH [OF _ this, of "c + (if m then 1 else 0)"] Cons.prems(1) obtain c' s' where
    s': "try_fold (one_pass (process_maybe_expired_data shards now)) (c + (if m then 1 else 0), s1) xs = Ok (c', s')"
      "data_pass shards (\<lambda>b. \<exists>a. (b, a) \<in> set xs \<and> can_data_be_deleted a now) (\<lambda>b. \<exists>a. (b, a) \<in> set xs \<and> can_blob_info_be_deleted a now) s1 s'"
    by auto
  have *: "(\<lambda>j. j = b \<and> P a \<or> (\<exists>a. (j, a) \<in> set xs \<and> P a)) = (\<lambda>j. \<exists>a. (j, a) \<in> set (x # xs) \<and> P a)" for P
    by (auto simp: x fun_eq_iff)
  have "data_pass shards (\<lambda>b. \<exists>a. (b, a) \<in> set (x # xs) \<and> can_data_be_deleted a now) (\<lambda>b. \<exists>a. (b, a) \<in> set (x # xs) \<and> can_blob_info_be_deleted a now) s s'"
    using data_pass_trans [OF s1(2) s'(2)] unfolding * [of "\<lambda>a. can_data_be_deleted a now"] * [of "\<lambda>a. can_blob_info_be_deleted a now"] .
  then show ?case using s'(1) s1(1) by (intro exI [of _ c'] exI [of _ s'] conjI) (simp_all add: x one_pass_pair)
qed

lemma delete_expired_blob_data_ok:
  assumes fin: "finite (Mapping.keys (aggregate_blob_info (blob_info s)))" and n: "0 < n"
  shows "\<exists>s'. delete_expired_blob_data True True shards now n s = Some (Ok (True, s'))
    \<and> data_pass shards (\<lambda>b. \<exists>a. table_get b (blob_info s) = Some a \<and> can_data_be_deleted a now)
      (\<lambda>b. \<exists>a. table_get b (blob_info s) = Some a \<and> can_blob_info_be_deleted a now) s s'"
proof -
  have eq: "iterate_and_delete_expired_blob_data shards n now =
    (\<lambda>bound s. process_batch (process_maybe_expired_data shards now) (aggregate_blob_info (blob_info s)) n bound s)"
    by (simp add: fun_eq_iff iterate_and_delete_expired_blob_data_def)
  have L: "(b, a) \<in> set (range_iter (aggregate_blob_info (blob_info s)) None) \<longleftrightarrow> table_get b (blob_info s) = Some a" for b a
    using range_iter_set [OF fin, of b a None] by (simp add: in_range_def table_get_def)
  show ?thesis
    using data_pass_entries [OF range_iter_distinct [OF fin], of None s shards now 0] data.single_pass [OF fin n]
    by (auto simp: L table_get_def delete_expired_blob_data_def eq)
qed

lemma data_pass_table_ok:
  assumes t: "table_ok now (blob_info s)"
    and p: "data_pass shards D (\<lambda>b. \<exists>a. table_get b (blob_info s) = Some a \<and> can_blob_info_be_deleted a now) s s'"
  shows "table_ok now (blob_info s')"
proof -
  let ?t = "blob_info s" and ?t' = "blob_info s'"
  have b: "?t'\<lparr>aggregate_blob_info := Mapping.empty\<rparr> = ?t\<lparr>aggregate_blob_info := Mapping.empty\<rparr>"
    and l: "Mapping.lookup (aggregate_blob_info ?t') b = (if \<exists>a. table_get b ?t = Some a \<and> can_blob_info_be_deleted a now then None else Mapping.lookup (aggregate_blob_info ?t) b)" for b
    using p unfolding data_pass_def by blast+
  have same: "per_object_blob_info ?t' = per_object_blob_info ?t" "per_object_pooled_blob_info ?t' = per_object_pooled_blob_info ?t" "storage_pool_info ?t' = storage_pool_info ?t"
    using arg_cong [OF b, of per_object_blob_info] arg_cong [OF b, of per_object_pooled_blob_info] arg_cong [OF b, of storage_pool_info] by simp_all
  have "Mapping.keys (aggregate_blob_info ?t') \<subseteq> Mapping.keys (aggregate_blob_info ?t)" by (auto simp: keys_dom_lookup l split: if_splits)
  then have "finite (Mapping.keys (aggregate_blob_info ?t'))" using table_okD(1) [OF t] finite_subset by blast
  moreover have "entry_ok now (Mapping.lookup (aggregate_blob_info ?t') j) (per_object_blob_info ?t) (per_object_pooled_blob_info ?t) j" for j
    using table_okD(6) [OF t, of j] removable_entry [OF table_okD(2,3) [OF t]] by (auto simp: l table_get_def)
  ultimately show ?thesis using t by (auto simp: table_ok_def same)
qed

text \<open>What the aggregate entries say after the tables have been cleaned up.\<close>

lemma invalid_unregistered: "invalidation_event a \<noteq> None \<Longrightarrow> \<not> is_registered a e"
  by (cases "(a, e)" rule: is_registered.cases)
    (auto elim!: info_v1_is_registered.elims info_v2_is_registered.elims)

lemma after_cleanup:
  assumes t: "table_ok now t" and t': "table_ok now t'"
    and sp: "storage_pool_info t' = Mapping.filter (\<lambda>_ info. now < pool_end_epoch info) (storage_pool_info t)"
    and m: "per_object_blob_info t' = Mapping.filter (\<lambda>_ x. now < po_end_epoch (po_v1 x)) (per_object_blob_info t)"
    and pm: "per_object_pooled_blob_info t' = Mapping.filter (\<lambda>_ x. \<not> pool_is_expired now t (pp_storage_pool_id (pp_v1 x))) (per_object_pooled_blob_info t)"
    and a: "table_get b t' = Some a"
  shows "can_data_be_deleted a now \<longleftrightarrow> \<not> (invalidation_event a = None \<and> live_object now t b)"
    "can_blob_info_be_deleted a now \<longleftrightarrow> invalidation_event a = None \<and> \<not> live_object now t b"
proof -
  have p: "pool_is_expired now t' = pool_is_expired now t"
    by (auto simp: fun_eq_iff pool_is_expired_def sp lookup_filter split: option.splits)
  have live: "live_object now t' b \<longleftrightarrow> live_object now t b"
    unfolding live_object_def p m pm using table_okD(5) [OF t] by (auto simp: lookup_filter po_is_registered_def split: option.splits if_splits)
  have none: "no_objects (per_object_blob_info t') b \<and> no_pooled (per_object_pooled_blob_info t') b" if "\<not> live_object now t b"
    using that table_okD(5) [OF t] unfolding live_object_def m pm no_objects_def no_pooled_def
    by (auto simp: lookup_filter po_is_registered_def split: option.splits if_splits)
  have "is_registered a now \<longleftrightarrow> invalidation_event a = None \<and> live_object now t b"
    using live_object_seen(1) [OF t' _ a] no_objects_unregistered(1) [OF t' a] none live invalid_unregistered [of a now] by blast
  then show d: "can_data_be_deleted a now \<longleftrightarrow> \<not> (invalidation_event a = None \<and> live_object now t b)" by (simp add: can_data_be_deleted_iff)
  show "can_blob_info_be_deleted a now \<longleftrightarrow> invalidation_event a = None \<and> \<not> live_object now t b"
    using d can_blob_info_be_deleted_data [of a now] no_objects_unregistered(2) [OF t' a] none by blast
qed

end
