(* ===== verification/BlobInfoReach.thy ===== *)
theory BlobInfoReach
  imports BlobDataCleanup
begin

text \<open>
  The tables of blob information that a storage node can reach, as a step relation: events in the order of the contracts, recovery with an
  incomplete history, replayed events, metadata that is stored, storage pools, epochs that pass, and garbage collection, one entry at a time
  and interleaved with everything else. The properties of the tables follow by rule induction.
\<close>

subsection \<open>Reachable tables\<close>

text \<open>\<open>reachable now t\<close>: the node has the table \<open>t\<close> in the epoch \<open>now\<close>. Garbage collection works with an epoch that may already have passed.\<close>

inductive reachable :: "epoch \<Rightarrow> blob_info_table \<Rightarrow> bool" where
  start: "reachable now empty_table"
| clear: "reachable now t \<Longrightarrow> reachable now (table_clear t)"
| epoch_change: "reachable now t \<Longrightarrow> now \<le> now' \<Longrightarrow> reachable now' t"
| blob_event: "reachable now t \<Longrightarrow> event_ok now t ev \<Longrightarrow> update_blob_info i ev t = Ok t' \<Longrightarrow> reachable now t'"
| replayed_event: "reachable now t \<Longrightarrow> has_event_been_handled (latest_handled_event_index t) i \<Longrightarrow> update_blob_info i ev t = Ok t' \<Longrightarrow> reachable now t'"
| recovery_event: "reachable now t \<Longrightarrow> recovery_event_ok now e t ev \<Longrightarrow>
    update_blob_info_during_recovery_with_incomplete_history i ev e t = Ok t' \<Longrightarrow> reachable now t'"
| pool_event: "reachable now t \<Longrightarrow> update_storage_pool_info i pev t = Ok t' \<Longrightarrow> reachable now t'"
| metadata: "reachable now t \<Longrightarrow> set_metadata_stored b stored t = Ok t' \<Longrightarrow> reachable now t'"
| expired_pool: "reachable now t \<Longrightarrow> Mapping.lookup (storage_pool_info t) p = Some info \<Longrightarrow> e \<le> now \<Longrightarrow>
    process_maybe_expired_pool e p info t = Ok (t', m) \<Longrightarrow> reachable now t'"
| expired_object: "reachable now t \<Longrightarrow> Mapping.lookup (per_object_blob_info t) k = Some x \<Longrightarrow> e \<le> now \<Longrightarrow>
    process_maybe_expired_blob_object e k x t = Ok (t', m) \<Longrightarrow> reachable now t'"
| expired_pooled: "reachable now t \<Longrightarrow> Mapping.lookup (per_object_pooled_blob_info t) k = Some y \<Longrightarrow> e \<le> now \<Longrightarrow>
    process_maybe_expired_pooled_blob_object e k y (Mapping.empty, t) = Ok ((cache, t'), m) \<Longrightarrow> reachable now t'"
| cleanup: "reachable now t \<Longrightarrow> 0 < n \<Longrightarrow> perform_blob_info_cleanup now n t = Some (Ok t') \<Longrightarrow> reachable now t'"
| removed: "reachable now t \<Longrightarrow> table_get b t = Some a \<Longrightarrow> e \<le> now \<Longrightarrow> can_blob_info_be_deleted a e \<Longrightarrow>
    reachable now (t\<lparr>aggregate_blob_info := Mapping.delete b (aggregate_blob_info t)\<rparr>)"

lemma reachable_table_ok: "reachable now t \<Longrightarrow> table_ok now t"
proof (induction rule: reachable.induct)
  case (start now)
  show ?case by (rule empty_table_ok)
next
  case (clear now t)
  show ?case by (rule table_clear_ok)
next
  case (epoch_change now t now')
  then show ?case using entry_ok_later [of now _ _ _ _ now'] by (auto simp: table_ok_def)
next
  case (blob_event now t ev i t')
  then show ?case using event_table_ok [of now t ev i] by auto
next
  case (replayed_event now t i ev t')
  then show ?case by (simp add: update_blob_info_def)
next
  case (recovery_event now t e ev i t')
  then show ?case using recovery_event_table_ok [of now t e ev i] by auto
next
  case (pool_event now t i pev t')
  then show ?case using update_storage_pool_info_ok by blast
next
  case (metadata now t b stored t')
  then show ?case using set_metadata_stored_ok [of now t b stored] by auto
next
  case (expired_pool now t p info e t' m)
  then show ?case by (auto simp: process_maybe_expired_pool_def table_ok_def split: if_splits)
next
  case (expired_object now t k x e t' m)
  have "same_but_objects t t" by (simp add: same_but_objects_def same_validity_def)
  then show ?case using expired_object_step [of now t k x t e] expired_object by auto
next
  case (expired_pooled now t k y e cache t' m)
  have "same_but_objects t t" "cache_ok e t Mapping.empty" by (simp_all add: same_but_objects_def same_validity_def cache_ok_def)
  then show ?case using expired_pooled_step [of now t k y t e Mapping.empty] expired_pooled by auto
next
  case (cleanup now t n t')
  then show ?case using perform_blob_info_cleanup_ok [of now t n] by auto
next
  case (removed now t b a e)
  note F = table_okD(2,3,4) [OF removed.IH] and D = table_okD(5) [OF removed.IH]
  have "no_objects (per_object_blob_info t) b \<and> no_pooled (per_object_pooled_blob_info t) b"
    using removable_entry [OF F(1,2) _ removed.hyps(4)] table_okD(6) [OF removed.IH, of b] removed.hyps(2) by (simp add: table_get_def)
  then show ?case using F D
    by (intro table_ok_change [OF removed.IH, of None _ b]) (auto simp: lookup_delete_iff intro: changes_only_refl)
qed

subsection \<open>An example\<close>

definition example_registration :: blob_registered where
  "example_registration = \<lparr>br_epoch = 1, br_blob_id = [1], br_size = 13, br_encoding_type = RS2, br_end_epoch = 3, br_deletable = False,
    br_object_id = [7], br_event_id = undefined\<rparr>"

definition example_object :: per_object_blob_info where
  "example_object = PerObjectV1 \<lparr>po_blob_id = [1], po_registered_epoch = 1, po_certified_epoch = None, po_end_epoch = 3, po_deletable = False,
    po_event = undefined, po_deleted = False\<rparr>"

definition example_table :: blob_info_table where
  "example_table = \<lparr>aggregate_blob_info = Mapping.update [1] (V1 (ValidV1 (v1_default\<lparr>v1_permanent_total := Some (perm_new_first 3 undefined)\<rparr>))) Mapping.empty,
    per_object_blob_info = Mapping.update [7] example_object Mapping.empty,
    per_object_pooled_blob_info = Mapping.empty, storage_pool_info = Mapping.empty, latest_handled_event_index = Some 5\<rparr>"

lemma example_update: "update_blob_info 5 (Registered example_registration) empty_table = Ok example_table"
  by (simp add: update_blob_info_def empty_table_def example_registration_def example_table_def example_object_def partial_merge_def merge_mergeable_def)

lemma count_if_empty [simp]: "count_if P Mapping.empty = 0"
  by (simp add: count_if_def)

lemma example_reachable: "reachable 1 example_table"
  by (rule blob_event [OF start _ example_update]) (simp add: empty_table_def)

subsection \<open>Consistency\<close>

text \<open>C22: In every table that the node can reach, with events, recovery, epoch changes and garbage collection in any order, the check of the
  invariants passes: no entry of an object lacks its aggregate entry, the counts of objects in storage pools agree, counters and end epochs
  are ordered, and an initial certified epoch is set exactly if there are certified objects.\<close>

theorem reachable_check_invariants: "reachable now t \<Longrightarrow> check_invariants t = Ok ()"
  by (rule check_invariants_ok) (rule reachable_table_ok)

theorem reachable_check_invariants_witness: "check_invariants example_table = Ok ()"
  by (rule reachable_check_invariants [OF example_reachable])


definition example_certification :: blob_certified where
  "example_certification = \<lparr>bc_epoch = 1, bc_blob_id = [1], bc_end_epoch = 3, bc_deletable = False, bc_object_id = [7], bc_is_extension = False, bc_event_id = undefined\<rparr>"




definition certified_object :: per_object_blob_info where
  "certified_object = PerObjectV1 \<lparr>po_blob_id = [1], po_registered_epoch = 1, po_certified_epoch = Some 1, po_end_epoch = 3, po_deletable = False,
    po_event = undefined, po_deleted = False\<rparr>"

definition certified_info :: blob_info where
  "certified_info = V1 (ValidV1 (v1_default\<lparr>v1_permanent_total := Some (perm_new_first 3 undefined),
    v1_permanent_certified := Some (perm_new_first 3 undefined), v1_initial_certified_epoch := Some 1\<rparr>))"

definition certified_table :: blob_info_table where
  "certified_table = \<lparr>aggregate_blob_info = Mapping.update [1] certified_info Mapping.empty,
    per_object_blob_info = Mapping.update [7] certified_object Mapping.empty,
    per_object_pooled_blob_info = Mapping.empty, storage_pool_info = Mapping.empty, latest_handled_event_index = Some 6\<rparr>"

lemma update_twice: "Mapping.update k x (Mapping.update k y m) = Mapping.update k x m"
  by (rule mapping_eqI) (simp add: lookup_update')

lemma certified_update: "update_blob_info 6 (Certified example_certification) example_table = Ok certified_table"
  by (simp add: update_blob_info_def example_certification_def example_table_def certified_table_def certified_info_def certified_object_def example_object_def
      partial_merge_def merge_mergeable_def v1_update_status_def perm_certify_def perm_update_optional_def perm_new_first_def v1_is_certified_def
      v1_default_def v1_update_initial_certified_epoch_def is_at_most_def update_twice)



subsection \<open>Garbage collection\<close>







subsection \<open>Replayed events\<close>

fun handle_indexed_event :: "blob_info_table \<Rightarrow> nat \<times> (blob_event + storage_pool_event) \<Rightarrow> (blob_info_table, table_error) result" where
  "handle_indexed_event t (i, Inl ev) = update_blob_info i ev t"
| "handle_indexed_event t (i, Inr ev) = update_storage_pool_info i ev t"

lemma handled_event: "has_event_been_handled (latest_handled_event_index t) i \<Longrightarrow> handle_indexed_event t (i, ev) = Ok t"
  by (cases ev) (simp_all add: update_blob_info_def update_storage_pool_info_def)

lemma handle_latest:
  assumes "handle_indexed_event t (i, ev) = Ok t'"
  shows "has_event_been_handled (latest_handled_event_index t') i"
    "has_event_been_handled (latest_handled_event_index t) j \<Longrightarrow> has_event_been_handled (latest_handled_event_index t') j"
proof -
  have "latest_handled_event_index t' = (if has_event_been_handled (latest_handled_event_index t) i then latest_handled_event_index t else Some i)"
    using assms by (cases ev) (auto simp: update_blob_info_def update_storage_pool_info_def split: if_splits)
  then show "has_event_been_handled (latest_handled_event_index t') i"
    "has_event_been_handled (latest_handled_event_index t) j \<Longrightarrow> has_event_been_handled (latest_handled_event_index t') j"
    by (cases "latest_handled_event_index t"; auto)+
qed

lemma handled_events:
  "try_fold handle_indexed_event t xs = Ok t' \<Longrightarrow>
    (\<forall>i \<in> fst ` set xs. has_event_been_handled (latest_handled_event_index t') i)
    \<and> (\<forall>j. has_event_been_handled (latest_handled_event_index t) j \<longrightarrow> has_event_been_handled (latest_handled_event_index t') j)"
proof (induction xs arbitrary: t)
  case (Cons x xs)
  obtain t1 where t1: "handle_indexed_event t (fst x, snd x) = Ok t1" "try_fold handle_indexed_event t1 xs = Ok t'" using Cons.prems by auto
  show ?case using Cons.IH [OF t1(2)] handle_latest [OF t1(1)] by auto
qed simp

text \<open>C27: Events may be delivered again after a crash. Once a sequence of events has been handled, any of its events, in any order and number,
  followed by new events, has the effect that handling the whole sequence once would have had, errors and panics included.\<close>

theorem replay_after_crash:
  assumes "try_fold handle_indexed_event t xs = Ok t'" "fst ` set zs \<subseteq> fst ` set xs"
  shows "try_fold handle_indexed_event t' (zs @ ys) = try_fold handle_indexed_event t (xs @ ys)"
proof -
  have "try_fold handle_indexed_event t' zs = Ok t'"
    using assms(2)
  proof (induction zs)
    case (Cons z zs)
    then show ?case using handled_event [of t' "fst z" "snd z"] handled_events [OF assms(1)] by auto
  qed simp
  then show ?thesis using assms(1) by (simp add: try_fold_append)
qed

theorem replay_after_crash_witness:
  "try_fold handle_indexed_event example_table [(5, Inl (Registered example_registration)), (6, Inl (Certified example_certification))] = Ok certified_table"
  using replay_after_crash [of empty_table "[(5, Inl (Registered example_registration))]" example_table
      "[(5, Inl (Registered example_registration))]" "[(6, Inl (Certified example_certification))]"] example_update certified_update by simp

subsection \<open>Upgrades\<close>




lemma from_v1_selectors [simp]:
  "v2_count_deletable_total (v2_from_v1 v) = v1_count_deletable_total v" "v2_count_deletable_certified (v2_from_v1 v) = v1_count_deletable_certified v"
  "v2_permanent_total (v2_from_v1 v) = v1_permanent_total v" "v2_permanent_certified (v2_from_v1 v) = v1_permanent_certified v"
  by (simp_all add: v2_from_v1_def)




end
