(* ===== verification/BlobInfoRecovery.thy ===== *)
theory BlobInfoRecovery
  imports BlobInfoReach
begin

text \<open>
  Recovery with an incomplete history is a refinement of the processing of all events: a node that starts at an epoch and skips the events of
  objects that had expired tracks exactly the objects that have not, although it may see an object for the first time when it is extended.
\<close>

subsection \<open>The objects after an event\<close>





subsection \<open>Tracked objects\<close>







subsection \<open>One event\<close>








subsection \<open>A history\<close>






end
