(* ===== verification/QuiltTypes.thy ===== *)
theory QuiltTypes
  imports BlobEncoder "HOL-Library.List_Lexorder"
begin

unbundle bit_operations_syntax

text \<open>
  The data of quilts, from \<open>crates/walrus-core/src/encoding/quilt_encoding.rs\<close> and the quilt part of
  \<open>crates/walrus-core/src/metadata.rs\<close>: identifiers and tags, the patches of the quilt index with their internal IDs,
  the blobs to store, and the six-byte header in front of every blob of a quilt.

  A Rust string is the list of its Unicode scalar values; its \<open>len()\<close> is the length in UTF-8, whose byte order is the
  order of the scalar values. A \<open>BTreeMap\<close> is the list of its entries in the order of the keys. The crate \<open>bcs\<close> is not
  part of the sources: its functions on the three types that quilts serialise are the record \<open>bcs\<close>. The texts
  inside errors are left out.
\<close>

subsection \<open>Strings and maps of the standard library\<close>

type_synonym str = "nat list"

definition char_len_utf8 :: "nat \<Rightarrow> nat" where
  "char_len_utf8 c = (if c < 128 then 1 else if c < 2048 then 2 else if c < 65536 then 3 else 4)"

definition str_len :: "str \<Rightarrow> nat" where
  "str_len s = sum_list (map char_len_utf8 s)"

definition is_whitespace :: "nat \<Rightarrow> bool" where
  "is_whitespace c \<longleftrightarrow> (9 \<le> c \<and> c \<le> 13) \<or> c = 32 \<or> c = 133 \<or> c = 160 \<or> c = 5760 \<or> (8192 \<le> c \<and> c \<le> 8202)
    \<or> c = 8232 \<or> c = 8233 \<or> c = 8239 \<or> c = 8287 \<or> c = 12288"

definition is_control :: "nat \<Rightarrow> bool" where
  "is_control c \<longleftrightarrow> c < 32 \<or> (127 \<le> c \<and> c < 160)"

definition trim_end :: "str \<Rightarrow> str" where
  "trim_end s = rev (dropWhile is_whitespace (rev s))"

type_synonym tags = "(str \<times> str) list"

fun btree_insert :: "str \<Rightarrow> str \<Rightarrow> tags \<Rightarrow> tags" where
  "btree_insert k v [] = [(k, v)]"
| "btree_insert k v ((k', v') # m) =
    (if k < k' then (k, v) # (k', v') # m else if k = k' then (k, v) # m else (k', v') # btree_insert k v m)"

definition btree_collect :: "(str \<times> str) list \<Rightarrow> tags" where
  "btree_collect xs = foldl (\<lambda>m (k, v). btree_insert k v m) [] xs"

definition tags_ok :: "tags \<Rightarrow> bool" where
  "tags_ok t \<longleftrightarrow> sorted_wrt (<) (map fst t)"

fun to_le_bytes :: "nat \<Rightarrow> nat \<Rightarrow> bytes" where
  "to_le_bytes 0 n = []"
| "to_le_bytes (Suc k) n = of_nat n # to_le_bytes k (n div 256)"

fun from_le_bytes :: "bytes \<Rightarrow> nat" where
  "from_le_bytes [] = 0"
| "from_le_bytes (b # bs) = unat b + 256 * from_le_bytes bs"

subsection \<open>Errors\<close>

datatype quilt_error =
  BlobsNotFoundInQuilt "str set"
| QuiltVersionMismatch byte byte
| InvalidFormatNotAligned
| FailedToExtractQuiltIndexSize
| QuiltIndexSerDerError
| MissingSlivers "sliver_index list"
| MissingQuiltIndex
| TooManyBlobs nat nat
| QuiltOversize
| IndexOutOfBounds nat nat
| InsufficientQuiltData nat nat
| EmptyInput
| InvalidIdentifier
| DuplicateIdentifier str
| FailedToDecodeExtension
| QuiltPatchIdParseError
| InvalidQuiltData
| QuiltOtherError
| ColumnSizeMismatch nat nat

subsection \<open>Constants and identifiers\<close>

abbreviation (input) QUILT_INDEX_SIZE_BYTES_LENGTH :: nat where "QUILT_INDEX_SIZE_BYTES_LENGTH \<equiv> 4"
abbreviation (input) QUILT_VERSION_BYTES_LENGTH :: nat where "QUILT_VERSION_BYTES_LENGTH \<equiv> 1"
abbreviation (input) BLOB_IDENTIFIER_SIZE_BYTES_LENGTH :: nat where "BLOB_IDENTIFIER_SIZE_BYTES_LENGTH \<equiv> 2"
abbreviation (input) TAGS_SIZE_BYTES_LENGTH :: nat where "TAGS_SIZE_BYTES_LENGTH \<equiv> 2"
abbreviation (input) MAX_BLOB_IDENTIFIER_BYTES_LENGTH :: nat where
  "MAX_BLOB_IDENTIFIER_BYTES_LENGTH \<equiv> 2 ^ (8 * BLOB_IDENTIFIER_SIZE_BYTES_LENGTH) - 1"
abbreviation (input) QUILT_INDEX_PREFIX_SIZE :: nat where
  "QUILT_INDEX_PREFIX_SIZE \<equiv> QUILT_INDEX_SIZE_BYTES_LENGTH + QUILT_VERSION_BYTES_LENGTH"
abbreviation (input) MAX_NUM_SLIVERS_FOR_QUILT_INDEX :: nat where "MAX_NUM_SLIVERS_FOR_QUILT_INDEX \<equiv> 10"
abbreviation (input) QUILT_VERSION_BYTE :: byte where "QUILT_VERSION_BYTE \<equiv> 1"
abbreviation (input) BLOB_HEADER_SIZE :: nat where "BLOB_HEADER_SIZE \<equiv> 6"
abbreviation (input) TAGS_ENABLED :: byte where "TAGS_ENABLED \<equiv> 1"
abbreviation (input) MAX_SERIALIZED_BLOB_SIZE :: nat where "MAX_SERIALIZED_BLOB_SIZE \<equiv> U32_MAX"

definition validate_quilt_identifier :: "str \<Rightarrow> (unit, quilt_error) result" where
  "validate_quilt_identifier identifier =
    (if str_len identifier > MAX_BLOB_IDENTIFIER_BYTES_LENGTH then Err InvalidIdentifier
     else if identifier = [] then Err InvalidIdentifier
     else if trim_end identifier \<noteq> identifier then Err InvalidIdentifier
     else if \<exists>c\<in>set identifier. is_control c then Err InvalidIdentifier
     else Ok ())"

subsection \<open>Versions\<close>

datatype quilt_version_enum = QuiltV1Version

text \<open>\<open>value as u8\<close> is the discriminant of the variant, which is 0 for the first one.\<close>

fun quilt_version_enum_to_u8 :: "quilt_version_enum \<Rightarrow> byte" where
  "quilt_version_enum_to_u8 QuiltV1Version = 0"

definition quilt_version_enum_try_from :: "byte \<Rightarrow> (quilt_version_enum, quilt_error) result" where
  "quilt_version_enum_try_from value = (if value = QUILT_VERSION_BYTE then Ok QuiltV1Version else Err QuiltOtherError)"

definition get_quilt_version_byte :: "bytes \<Rightarrow> (byte, quilt_error) result" where
  "get_quilt_version_byte d = (case d of [] \<Rightarrow> Err EmptyInput | b # _ \<Rightarrow> Ok b)"

definition check_quilt_version :: "bytes \<Rightarrow> (unit, quilt_error) result" where
  "check_quilt_version d =
    and_then (get_quilt_version_byte d) (\<lambda>b.
    if b \<noteq> QUILT_VERSION_BYTE then Err (QuiltVersionMismatch b QUILT_VERSION_BYTE) else Ok ())"

subsection \<open>Patches and the index\<close>

record quilt_patch =
  qp_start_index :: nat
  qp_end_index :: nat
  qp_identifier :: str
  qp_tags :: tags

record patch_internal_id =
  pid_start_index :: nat
  pid_end_index :: nat

record quilt_index =
  quilt_patches :: "quilt_patch list"

definition has_matched_tag :: "quilt_patch \<Rightarrow> str \<Rightarrow> str \<Rightarrow> bool" where
  "has_matched_tag self target_tag target_value \<longleftrightarrow> map_of (qp_tags self) target_tag = Some target_value"

definition patch_sliver_indices :: "quilt_patch \<Rightarrow> sliver_index list" where
  "patch_sliver_indices self = [qp_start_index self..<qp_end_index self]"

definition patch_new_with_tags :: "str \<Rightarrow> (str \<times> str) list \<Rightarrow> (quilt_patch, quilt_error) result" where
  "patch_new_with_tags identifier tags =
    and_then (validate_quilt_identifier identifier) (\<lambda>_.
    Ok \<lparr>qp_start_index = 0, qp_end_index = 0, qp_identifier = identifier, qp_tags = btree_collect tags\<rparr>)"

definition patch_set_range :: "nat \<Rightarrow> nat \<Rightarrow> quilt_patch \<Rightarrow> quilt_patch" where
  "patch_set_range start_index end_index self = self\<lparr>qp_start_index := start_index, qp_end_index := end_index\<rparr>"

definition patch_internal_id_to_bytes :: "patch_internal_id \<Rightarrow> bytes" where
  "patch_internal_id_to_bytes self =
    [QUILT_VERSION_BYTE] @ to_le_bytes 2 (pid_start_index self) @ to_le_bytes 2 (pid_end_index self)"

definition patch_internal_id_from_bytes :: "bytes \<Rightarrow> (patch_internal_id, quilt_error) result" where
  "patch_internal_id_from_bytes b =
    (if length b \<noteq> 5 then Err QuiltOtherError
     else if b ! 0 \<noteq> QUILT_VERSION_BYTE then Err (QuiltVersionMismatch (b ! 0) QUILT_VERSION_BYTE)
     else Ok \<lparr>pid_start_index = from_le_bytes (take 2 (drop 1 b)), pid_end_index = from_le_bytes (take 2 (drop 3 b))\<rparr>)"

text \<open>\<open>filter(|patch| identifiers.remove(&patch.identifier()))\<close>: the first patch of every identifier, and the identifiers left over.\<close>

fun remove_matching :: "str set \<Rightarrow> quilt_patch list \<Rightarrow> quilt_patch list \<times> str set" where
  "remove_matching ids [] = ([], ids)"
| "remove_matching ids (p # ps) =
    (if qp_identifier p \<in> ids
     then (case remove_matching (ids - {qp_identifier p}) ps of (qs, ids') \<Rightarrow> (p # qs, ids'))
     else remove_matching ids ps)"

definition get_quilt_patches_by_identifiers :: "quilt_index \<Rightarrow> str list \<Rightarrow> (quilt_patch list, quilt_error) result" where
  "get_quilt_patches_by_identifiers self identifiers =
    (case remove_matching (set identifiers) (quilt_patches self) of (patches, rest) \<Rightarrow>
       if rest \<noteq> {} then Err (BlobsNotFoundInQuilt rest) else Ok patches)"

definition get_quilt_patches_by_tag :: "quilt_index \<Rightarrow> str \<Rightarrow> str \<Rightarrow> quilt_patch list" where
  "get_quilt_patches_by_tag self target_tag target_value =
    filter (\<lambda>patch. has_matched_tag patch target_tag target_value) (quilt_patches self)"

definition get_sliver_indices_for_identifiers :: "quilt_index \<Rightarrow> str list \<Rightarrow> (sliver_index list, quilt_error) result" where
  "get_sliver_indices_for_identifiers self identifiers =
    (case remove_matching (set identifiers) (quilt_patches self) of (patches, rest) \<Rightarrow>
       if rest \<noteq> {} then Err (BlobsNotFoundInQuilt rest) else Ok (concat (map patch_sliver_indices patches)))"

fun populate_start_indices :: "nat \<Rightarrow> quilt_patch list \<Rightarrow> quilt_patch list" where
  "populate_start_indices prev [] = []"
| "populate_start_indices prev (p # ps) = p\<lparr>qp_start_index := prev\<rparr> # populate_start_indices (qp_end_index p) ps"

subsection \<open>Serialisation\<close>

text \<open>Serialising, or computing the serialised size, gives an error for values that the format cannot hold; a serialised
  index holds the end index, the identifier and the tags of every patch, because \<open>start_index\<close> is skipped.\<close>

type_synonym serialized_patch = "nat \<times> str \<times> tags"

record bcs =
  string_to_bytes :: "str \<Rightarrow> bytes option"
  string_from_bytes :: "bytes \<Rightarrow> str option"
  tags_to_bytes :: "tags \<Rightarrow> bytes option"
  tags_from_bytes :: "bytes \<Rightarrow> tags option"
  index_to_bytes :: "serialized_patch list \<Rightarrow> bytes option"
  index_from_bytes :: "bytes \<Rightarrow> serialized_patch list option"

definition patch_fields :: "quilt_patch \<Rightarrow> serialized_patch" where
  "patch_fields p = (qp_end_index p, qp_identifier p, qp_tags p)"

definition patch_of_fields :: "serialized_patch \<Rightarrow> quilt_patch" where
  "patch_of_fields = (\<lambda>(e, i, t). \<lparr>qp_start_index = 0, qp_end_index = e, qp_identifier = i, qp_tags = t\<rparr>)"

definition index_serialize :: "bcs \<Rightarrow> quilt_index \<Rightarrow> bytes option" where
  "index_serialize B idx = index_to_bytes B (map patch_fields (quilt_patches idx))"

definition index_deserialize :: "bcs \<Rightarrow> bytes \<Rightarrow> quilt_index option" where
  "index_deserialize B b = map_option (\<lambda>fs. \<lparr>quilt_patches = map patch_of_fields fs\<rparr>) (index_from_bytes B b)"

subsection \<open>Blobs to store\<close>

record quilt_store_blob =
  qb_blob :: bytes
  qb_identifier :: str
  qb_tags :: tags

definition store_blob_new :: "bytes \<Rightarrow> str \<Rightarrow> (quilt_store_blob, quilt_error) result" where
  "store_blob_new blob identifier =
    and_then (validate_quilt_identifier identifier) (\<lambda>_. Ok \<lparr>qb_blob = blob, qb_identifier = identifier, qb_tags = []\<rparr>)"

definition store_blob_new_owned :: "bytes \<Rightarrow> str \<Rightarrow> (quilt_store_blob, quilt_error) result" where
  "store_blob_new_owned blob identifier =
    and_then (validate_quilt_identifier identifier) (\<lambda>_. Ok \<lparr>qb_blob = blob, qb_identifier = identifier, qb_tags = []\<rparr>)"

definition with_tags :: "(str \<times> str) list \<Rightarrow> quilt_store_blob \<Rightarrow> quilt_store_blob" where
  "with_tags tags self = self\<lparr>qb_tags := btree_collect tags\<rparr>"

subsection \<open>Headers\<close>

record blob_header =
  bh_length :: nat
  bh_mask :: byte

definition header_from_bytes :: "bytes \<Rightarrow> (blob_header, quilt_error) result" where
  "header_from_bytes b =
    (if b ! 0 \<noteq> QUILT_VERSION_BYTE then Err InvalidQuiltData
     else Ok \<lparr>bh_length = from_le_bytes [b ! 1, b ! 2, b ! 3, b ! 4], bh_mask = b ! 5\<rparr>)"

definition header_as_bytes :: "blob_header \<Rightarrow> bytes" where
  "header_as_bytes self = [QUILT_VERSION_BYTE] @ to_le_bytes 4 (bh_length self) @ [bh_mask self]"

definition has_tags :: "blob_header \<Rightarrow> bool" where
  "has_tags self \<longleftrightarrow> bh_mask self AND TAGS_ENABLED \<noteq> 0"

definition set_has_tags :: "bool \<Rightarrow> blob_header \<Rightarrow> blob_header" where
  "set_has_tags b self =
    (if b then self\<lparr>bh_mask := bh_mask self OR TAGS_ENABLED\<rparr> else self\<lparr>bh_mask := bh_mask self AND NOT TAGS_ENABLED\<rparr>)"

text \<open>The header and the sizes of the extensions and of the data of a blob in a quilt.\<close>

definition serialized_blob_size :: "bcs \<Rightarrow> quilt_store_blob \<Rightarrow> (nat, quilt_error) result" where
  "serialized_blob_size B blob =
    and_then (ok_or (map_option length (string_to_bytes B (qb_identifier blob))) QuiltOtherError) (\<lambda>identifier_size.
    if identifier_size \<ge> MAX_BLOB_IDENTIFIER_BYTES_LENGTH then Err InvalidIdentifier
    else
      let prefix_size = identifier_size + BLOB_IDENTIFIER_SIZE_BYTES_LENGTH in
      and_then (if qb_tags blob \<noteq> []
        then and_then (ok_or (map_option length (tags_to_bytes B (qb_tags blob))) QuiltOtherError) (\<lambda>tags_size.
          Ok (prefix_size + tags_size + TAGS_SIZE_BYTES_LENGTH))
        else Ok prefix_size) (\<lambda>prefix_size.
      let blob_content_size = prefix_size + length (qb_blob blob) in
      if blob_content_size > MAX_SERIALIZED_BLOB_SIZE then Err QuiltOversize
      else Ok (blob_content_size + BLOB_HEADER_SIZE)))"

definition get_header_and_extension_bytes :: "bcs \<Rightarrow> quilt_store_blob \<Rightarrow> (bytes, quilt_error) result" where
  "get_header_and_extension_bytes B blob =
    (let header = \<lparr>bh_length = 0, bh_mask = 0\<rparr> in
     and_then (ok_or (map_option length (string_to_bytes B (qb_identifier blob))) InvalidIdentifier) (\<lambda>size.
     and_then (ok_or (checked U16_MAX size) InvalidIdentifier) (\<lambda>identifier_size.
     and_then (ok_or (string_to_bytes B (qb_identifier blob)) InvalidIdentifier) (\<lambda>identifier.
     let extension_bytes = [to_le_bytes 2 identifier_size @ identifier] in
     and_then (if qb_tags blob \<noteq> []
       then and_then (ok_or (tags_to_bytes B (qb_tags blob)) QuiltOtherError) (\<lambda>serialized_tags.
         and_then (ok_or (checked U16_MAX (length serialized_tags)) QuiltOtherError) (\<lambda>tags_size.
         Ok (set_has_tags True header, extension_bytes @ [to_le_bytes 2 tags_size @ serialized_tags])))
       else Ok (header, extension_bytes)) (\<lambda>(header, extension_bytes).
     let total_size = sum_list (map length extension_bytes) + length (qb_blob blob) in
     and_then (ok_or (checked U32_MAX total_size) QuiltOversize) (\<lambda>l.
     Ok (header_as_bytes (header\<lparr>bh_length := l\<rparr>) @ concat extension_bytes)))))))"

end
