(* ===== verification/Quilt.thy ===== *)
theory Quilt
  imports QuiltTypes "HOL-Library.Mapping"
begin

text \<open>
  Quilts of version 1, \<open>crates/walrus-core/src/encoding/quilt_encoding.rs\<close>: the decoding of the index and of blobs from any
  source of columns (\<open>QuiltVersionV1\<close>), the quilt as a matrix of symbols (\<open>QuiltV1\<close>), the encoder (\<open>QuiltEncoderV1\<close>) with the
  search for the symbol size, and the decoder on secondary slivers (\<open>QuiltDecoderV1\<close>).

  The trait \<open>QuiltColumnRangeReader\<close> is the record \<open>column_reader\<close>. Divisions by zero, failing assertions and slices out of
  bounds are panics; offsets into data in memory do not overflow a \<open>usize\<close>. Tracing and \<open>Debug\<close> are left out.
\<close>

subsection \<open>Standard library\<close>

definition try_into_array :: "nat \<Rightarrow> bytes \<Rightarrow> bytes option" where
  "try_into_array n b = (if length b = n then Some b else None)"

definition str_of :: "string \<Rightarrow> str" where
  "str_of s = map of_char s"

lemma and_then_fundef_cong [fundef_cong]:
  "m = m' \<Longrightarrow> (\<And>x. m' = Ok x \<Longrightarrow> f x = g x) \<Longrightarrow> and_then m f = and_then m' g"
  by (cases m) auto

subsection \<open>Decoding from columns\<close>

record column_reader =
  range_read_from_columns :: "nat \<Rightarrow> nat \<Rightarrow> nat \<Rightarrow> (bytes, quilt_error) result"
  total_data_size :: nat

definition decode_quilt_index :: "bcs \<Rightarrow> column_reader \<Rightarrow> nat \<Rightarrow> (quilt_index, quilt_error) result" where
  "decode_quilt_index B data_source column_size =
    and_then (range_read_from_columns data_source 0 0 QUILT_VERSION_BYTES_LENGTH) (\<lambda>version_bytes.
    and_then (check_quilt_version version_bytes) (\<lambda>_.
    and_then (range_read_from_columns data_source 0 QUILT_VERSION_BYTES_LENGTH QUILT_INDEX_SIZE_BYTES_LENGTH) (\<lambda>size_bytes.
    and_then (ok_or (try_into_array 4 size_bytes) FailedToExtractQuiltIndexSize) (\<lambda>a.
    let index_size = from_le_bytes a;
        max_index_size = min U64_MAX (column_size * MAX_NUM_SLIVERS_FOR_QUILT_INDEX) - QUILT_INDEX_PREFIX_SIZE in
    if index_size > max_index_size then Err InvalidQuiltData
    else
      and_then (range_read_from_columns data_source 0 QUILT_INDEX_PREFIX_SIZE index_size) (\<lambda>index_bytes.
      and_then (ok_or (index_deserialize B index_bytes) QuiltIndexSerDerError) (\<lambda>quilt_index.
      let total_size = index_size + QUILT_INDEX_PREFIX_SIZE in
      and_then (udiv_ceil total_size column_size) (\<lambda>columns_needed.
      and_then (ok_or (checked U16_MAX columns_needed) InvalidQuiltData) (\<lambda>first_start.
      Ok (quilt_index\<lparr>quilt_patches := populate_start_indices first_start (quilt_patches quilt_index)\<rparr>)))))))))"

definition decode_blob_identifier :: "bcs \<Rightarrow> column_reader \<Rightarrow> nat \<Rightarrow> nat \<Rightarrow> (str \<times> nat, quilt_error) result" where
  "decode_blob_identifier B data_source start_col initial_offset =
    and_then (range_read_from_columns data_source start_col initial_offset BLOB_IDENTIFIER_SIZE_BYTES_LENGTH) (\<lambda>size_buffer.
    let offset = initial_offset + BLOB_IDENTIFIER_SIZE_BYTES_LENGTH in
    and_then (ok_or (try_into_array 2 size_buffer) InvalidQuiltData) (\<lambda>a.
    let identifier_size = from_le_bytes a in
    and_then (range_read_from_columns data_source start_col offset identifier_size) (\<lambda>identifier_bytes.
    and_then (ok_or (string_from_bytes B identifier_bytes) InvalidIdentifier) (\<lambda>identifier.
    Ok (identifier, BLOB_IDENTIFIER_SIZE_BYTES_LENGTH + identifier_size)))))"

definition decode_blob_tags :: "bcs \<Rightarrow> column_reader \<Rightarrow> nat \<Rightarrow> nat \<Rightarrow> (tags \<times> nat, quilt_error) result" where
  "decode_blob_tags B data_source start_col initial_offset =
    and_then (range_read_from_columns data_source start_col initial_offset TAGS_SIZE_BYTES_LENGTH) (\<lambda>size_bytes.
    and_then (ok_or (try_into_array 2 size_bytes) InvalidQuiltData) (\<lambda>a.
    let tags_size = from_le_bytes a;
        offset = initial_offset + TAGS_SIZE_BYTES_LENGTH in
    and_then (range_read_from_columns data_source start_col offset tags_size) (\<lambda>tags_bytes.
    and_then (ok_or (tags_from_bytes B tags_bytes) FailedToDecodeExtension) (\<lambda>tags.
    Ok (tags, offset + tags_size - initial_offset)))))"

definition decode_blob :: "bcs \<Rightarrow> column_reader \<Rightarrow> nat \<Rightarrow> (quilt_store_blob, quilt_error) result" where
  "decode_blob B data_source start_col =
    and_then (range_read_from_columns data_source start_col 0 BLOB_HEADER_SIZE) (\<lambda>header_bytes.
    and_then (ok_or (try_into_array BLOB_HEADER_SIZE header_bytes) InvalidQuiltData) (\<lambda>a.
    and_then (header_from_bytes a) (\<lambda>blob_header.
    let offset = BLOB_HEADER_SIZE; blob_bytes_size = bh_length blob_header in
    if blob_bytes_size > total_data_size data_source then Err InvalidQuiltData
    else
      and_then (decode_blob_identifier B data_source start_col offset) (\<lambda>(identifier, bytes_consumed).
      let offset = offset + bytes_consumed in
      and_then (ok_or (checked_sub blob_bytes_size bytes_consumed) InvalidQuiltData) (\<lambda>blob_bytes_size.
      and_then (if has_tags blob_header
        then and_then (decode_blob_tags B data_source start_col offset) (\<lambda>(tags, bytes_consumed).
          and_then (ok_or (checked_sub blob_bytes_size bytes_consumed) InvalidQuiltData) (\<lambda>blob_bytes_size.
          Ok (tags, offset + bytes_consumed, blob_bytes_size)))
        else Ok ([], offset, blob_bytes_size)) (\<lambda>(tags, offset, blob_bytes_size).
      and_then (range_read_from_columns data_source start_col offset blob_bytes_size) (\<lambda>data_bytes.
      and_then (store_blob_new_owned data_bytes identifier) (\<lambda>blob. Ok (with_tags tags blob)))))))))"

subsection \<open>The quilt\<close>

record quilt =
  q_data :: bytes
  q_row_size :: nat
  q_symbol_size :: nat
  q_quilt_index :: "quilt_index option"

definition get_slice :: "quilt \<Rightarrow> nat \<Rightarrow> nat \<Rightarrow> nat \<Rightarrow> nat \<Rightarrow> (bytes, quilt_error) result" where
  "get_slice self col row skip limit =
    (let base_index = row * q_row_size self + col * q_symbol_size self;
         start_index = base_index + skip;
         end_index = min (min (base_index + q_symbol_size self) (start_index + limit)) (length (q_data self)) in
     if start_index \<ge> length (q_data self) then Err (IndexOutOfBounds start_index (length (q_data self)))
     else vec_slice (q_data self) (start_index, end_index))"

text \<open>The position behind a cell, and the loop over the cells. The loop is only entered with a positive symbol size;
  every round then reads at least one byte or gives up the offset into the first symbol.\<close>

definition advance_position :: "nat \<Rightarrow> nat \<times> nat \<Rightarrow> nat \<times> nat" where
  "advance_position n_rows = (\<lambda>(col, row).
    let row = (row + 1) mod n_rows in (if row = 0 then (col + 1, row) else (col, row)))"

lemma get_slice_length: "get_slice self col row skip limit = Ok cell \<Longrightarrow> length cell =
    min (min (row * q_row_size self + col * q_symbol_size self + q_symbol_size self)
      (row * q_row_size self + col * q_symbol_size self + skip + limit)) (length (q_data self))
      - (row * q_row_size self + col * q_symbol_size self + skip)"
  by (auto simp: get_slice_def Let_def vec_slice_def split: if_splits)

function read_cells :: "quilt \<Rightarrow> nat \<Rightarrow> nat \<times> nat \<Rightarrow> nat \<Rightarrow> nat \<Rightarrow> bytes \<Rightarrow> (bytes, quilt_error) result" where
  "read_cells self n_rows (col, row) bytes_to_skip bytes_to_return result =
    (if bytes_to_return = 0 then Ok result
     else if q_symbol_size self = 0 then Panic
     else and_then (get_slice self col row bytes_to_skip bytes_to_return) (\<lambda>cell.
       read_cells self n_rows (advance_position n_rows (col, row)) 0 (bytes_to_return - length cell) (result @ cell)))"
  by pat_completeness auto
termination
proof (relation "measures [\<lambda>(self, n_rows, pos, skip, ret, acc). ret, \<lambda>(self, n_rows, pos, skip, ret, acc). skip]", goal_cases)
  case (2 self n_rows col row skip ret acc cell)
  show ?case
  proof (cases "cell = []")
    case True
    with get_slice_length [OF 2(3)] 2(1,2,3) show ?thesis
      by (auto simp: get_slice_def Let_def split: if_splits)
  qed (use 2(1) in auto)
qed auto

declare read_cells.simps [simp del]

definition quilt_range_read :: "quilt \<Rightarrow> nat \<Rightarrow> nat \<Rightarrow> nat \<Rightarrow> (bytes, quilt_error) result" where
  "quilt_range_read self start_col bytes_to_skip bytes_to_return =
    (if q_symbol_size self = 0 \<or> q_row_size self = 0 \<or> q_data self = [] then Err QuiltOtherError
     else
       let n_rows = length (q_data self) div q_row_size self;
           symbols_to_skip = bytes_to_skip div q_symbol_size self in
       and_then (udiv symbols_to_skip n_rows) (\<lambda>cols_to_skip.
       and_then (umod symbols_to_skip n_rows) (\<lambda>current_row.
       and_then (usub bytes_to_skip (symbols_to_skip * q_symbol_size self)) (\<lambda>bytes_to_skip.
       read_cells self n_rows (start_col + cols_to_skip, current_row) bytes_to_skip bytes_to_return []))))"

definition quilt_reader :: "quilt \<Rightarrow> column_reader" where
  "quilt_reader self = \<lparr>range_read_from_columns = quilt_range_read self, total_data_size = length (q_data self)\<rparr>"

definition quilt_get_or_decode_quilt_index :: "bcs \<Rightarrow> quilt \<Rightarrow> (quilt_index \<times> quilt, quilt_error) result" where
  "quilt_get_or_decode_quilt_index B self =
    and_then (case q_quilt_index self of
        Some _ \<Rightarrow> Ok self
      | None \<Rightarrow>
          and_then (udiv (length (q_data self)) (q_row_size self)) (\<lambda>rows.
          and_then (decode_quilt_index B (quilt_reader self) (rows * q_symbol_size self)) (\<lambda>quilt_index.
          Ok (self\<lparr>q_quilt_index := Some quilt_index\<rparr>)))) (\<lambda>self.
    and_then (expect (q_quilt_index self)) (\<lambda>quilt_index. Ok (quilt_index, self)))"

definition new_from_quilt_blob :: "bcs \<Rightarrow> bytes \<Rightarrow> rs_config \<Rightarrow> (quilt, quilt_error) result" where
  "new_from_quilt_blob B quilt_blob cfg =
    (if quilt_blob = [] then Err EmptyInput
     else
       let n_symbols = n_source_symbols Primary cfg * n_source_symbols Secondary cfg in
       if n_symbols = 0 then Err QuiltOtherError
       else if length quilt_blob mod n_symbols \<noteq> 0 then Err InvalidFormatNotAligned
       else
         let sz = length quilt_blob div n_symbols;
             quilt = \<lparr>q_data = quilt_blob, q_row_size = sz * n_source_symbols Secondary cfg, q_symbol_size = sz,
               q_quilt_index = None\<rparr> in
         and_then (quilt_get_or_decode_quilt_index B quilt) (\<lambda>(_, quilt). Ok quilt))"

definition get_blobs_by_identifiers :: "bcs \<Rightarrow> quilt \<Rightarrow> str list \<Rightarrow> (quilt_store_blob list, quilt_error) result" where
  "get_blobs_by_identifiers B self identifiers =
    and_then (ok_or (q_quilt_index self) MissingQuiltIndex) (\<lambda>quilt_index.
    and_then (get_quilt_patches_by_identifiers quilt_index identifiers) (\<lambda>patches.
    try_map (\<lambda>patch. decode_blob B (quilt_reader self) (qp_start_index patch)) patches))"

definition get_blob_by_patch_internal_id :: "bcs \<Rightarrow> quilt \<Rightarrow> bytes \<Rightarrow> (quilt_store_blob, quilt_error) result" where
  "get_blob_by_patch_internal_id B self id_bytes =
    and_then (patch_internal_id_from_bytes id_bytes) (\<lambda>patch_id. decode_blob B (quilt_reader self) (pid_start_index patch_id))"

definition get_blobs_by_tag :: "bcs \<Rightarrow> quilt \<Rightarrow> str \<Rightarrow> str \<Rightarrow> (quilt_store_blob list, quilt_error) result" where
  "get_blobs_by_tag B self target_tag target_value =
    and_then (ok_or (q_quilt_index self) MissingQuiltIndex) (\<lambda>quilt_index.
    try_map (\<lambda>patch. decode_blob B (quilt_reader self) (qp_start_index patch))
      (get_quilt_patches_by_tag quilt_index target_tag target_value))"

definition get_all_blobs :: "bcs \<Rightarrow> quilt \<Rightarrow> (quilt_store_blob list, quilt_error) result" where
  "get_all_blobs B self =
    and_then (ok_or (q_quilt_index self) MissingQuiltIndex) (\<lambda>quilt_index.
    try_map (\<lambda>patch. decode_blob B (quilt_reader self) (qp_start_index patch)) (quilt_patches quilt_index))"

subsection \<open>The symbol size of a quilt\<close>

definition can_blobs_fit_into_matrix :: "nat list \<Rightarrow> nat \<Rightarrow> nat \<Rightarrow> (bool, quilt_error) result" where
  "can_blobs_fit_into_matrix blobs_sizes n_columns column_size =
    and_then (try_map (\<lambda>blob_size. udiv_ceil blob_size column_size) blobs_sizes) (\<lambda>columns.
    Ok (n_columns \<ge> sum_list columns))"

function symbol_size_search :: "nat list \<Rightarrow> nat \<Rightarrow> nat \<Rightarrow> nat \<Rightarrow> nat \<Rightarrow> (nat, quilt_error) result" where
  "symbol_size_search blobs_sizes n_columns n_rows min_val max_val =
    (if min_val < max_val then
       let mid = (min_val + max_val) div 2 in
       and_then (can_blobs_fit_into_matrix blobs_sizes n_columns (mid * n_rows)) (\<lambda>fits.
       if fits then symbol_size_search blobs_sizes n_columns n_rows min_val mid
       else symbol_size_search blobs_sizes n_columns n_rows (mid + 1) max_val)
     else Ok min_val)"
  by pat_completeness auto
termination
  by (relation "measure (\<lambda>(sizes, n_columns, n_rows, min_val, max_val). max_val - min_val)") auto

declare symbol_size_search.simps [simp del]

definition quilt_compute_symbol_size :: "nat list \<Rightarrow> nat \<Rightarrow> nat \<Rightarrow> nat \<Rightarrow> encoding_type \<Rightarrow> (nat, quilt_error) result" where
  "quilt_compute_symbol_size blobs_sizes n_columns n_rows max_index_columns e =
    (if length blobs_sizes > n_columns then
       and_then (usub (length blobs_sizes) 1) (\<lambda>n. and_then (usub n_columns 1) (\<lambda>m. Err (TooManyBlobs n m)))
     else if blobs_sizes = [] then Err EmptyInput
     else
       and_then (udiv_ceil (sum_list blobs_sizes) (n_columns * n_rows)) (\<lambda>by_sum.
       and_then (udiv_ceil (hd blobs_sizes) (n_rows * max_index_columns)) (\<lambda>by_index.
       and_then (udiv_ceil QUILT_INDEX_PREFIX_SIZE n_rows) (\<lambda>by_prefix.
       let min_val = max (max by_sum by_index) by_prefix in
       and_then (udiv_ceil (Max (set blobs_sizes)) (n_columns div length blobs_sizes * n_rows)) (\<lambda>max_val.
       and_then (symbol_size_search blobs_sizes n_columns n_rows min_val max_val) (\<lambda>min_val.
       let sz = next_multiple_of min_val (required_alignment e) in
       if sz > max_symbol_size e then Err QuiltOversize else Ok sz))))))"

subsection \<open>The encoder\<close>

function write_cells ::
  "nat \<Rightarrow> nat \<Rightarrow> nat \<Rightarrow> bytes \<Rightarrow> bytes \<Rightarrow> nat \<times> nat \<Rightarrow> nat \<Rightarrow> nat \<Rightarrow> (bytes, quilt_error) result" where
  "write_cells n_rows row_size sz data bytes (current_col, current_row) offset idx =
    (if idx \<ge> length bytes then Ok data
     else if sz = 0 then Panic
     else
       and_then (usub sz offset) (\<lambda>room.
       let start_idx = current_row * row_size + current_col * sz + offset; len = min room (length bytes - idx) in
       and_then (copy_to_slice data (start_idx, start_idx + len) (take len (drop idx bytes))) (\<lambda>data.
       write_cells n_rows row_size sz data bytes (advance_position n_rows (current_col, current_row)) 0 (idx + len))))"
  by pat_completeness auto
termination
  by (relation "measures [\<lambda>(n_rows, row_size, sz, data, bytes, pos, offset, idx). length bytes - idx,
      \<lambda>(n_rows, row_size, sz, data, bytes, pos, offset, idx). offset]") auto

declare write_cells.simps [simp del]

definition write_bytes_to_columns ::
  "bytes \<Rightarrow> bytes \<Rightarrow> nat \<Rightarrow> nat \<Rightarrow> nat \<Rightarrow> nat \<Rightarrow> nat \<Rightarrow> (bytes, quilt_error) result" where
  "write_bytes_to_columns data bytes start_col row_size column_size sz bytes_to_skip =
    and_then (udiv column_size sz) (\<lambda>n_rows.
    and_then (udiv row_size sz) (\<lambda>n_cols.
    and_then (udiv bytes_to_skip column_size) (\<lambda>cols_to_skip.
    and_then (rust_assert (start_col + cols_to_skip < n_cols)) (\<lambda>_.
    and_then (umod (bytes_to_skip div sz) n_rows) (\<lambda>current_row.
    and_then (rust_assert (bytes_to_skip mod sz < sz)) (\<lambda>_.
    write_cells n_rows row_size sz data bytes (start_col + cols_to_skip, current_row) (bytes_to_skip mod sz) 0))))))"

definition add_blob_to_quilt ::
  "bcs \<Rightarrow> bytes \<Rightarrow> quilt_store_blob \<Rightarrow> bool \<Rightarrow> nat \<Rightarrow> nat \<Rightarrow> nat \<Rightarrow> nat \<Rightarrow> (bytes \<times> nat, quilt_error) result" where
  "add_blob_to_quilt B data blob is_meta_blob current_col column_size row_size sz =
    and_then (umod column_size sz) (\<lambda>rest.
    and_then (rust_assert (rest = 0)) (\<lambda>_.
    and_then (if \<not> is_meta_blob
      then and_then (get_header_and_extension_bytes B blob) (\<lambda>prefix_bytes.
        and_then (write_bytes_to_columns data prefix_bytes current_col row_size column_size sz 0) (\<lambda>data.
        Ok (data, length prefix_bytes)))
      else Ok (data, 0)) (\<lambda>(data, total_bytes_written).
    and_then (write_bytes_to_columns data (qb_blob blob) current_col row_size column_size sz total_bytes_written) (\<lambda>data.
    and_then (udiv_ceil (total_bytes_written + length (qb_blob blob)) column_size) (\<lambda>cols. Ok (data, cols))))))"

fun check_duplicates :: "quilt_store_blob list \<Rightarrow> (unit, quilt_error) result" where
  "check_duplicates (a # b # xs) =
    (if qb_identifier a = qb_identifier b then Err (DuplicateIdentifier (qb_identifier a)) else check_duplicates (b # xs))"
| "check_duplicates _ = Ok ()"

definition add_user_blob ::
  "bcs \<Rightarrow> nat \<Rightarrow> nat \<Rightarrow> nat \<Rightarrow> bytes \<times> quilt_patch list \<times> nat \<Rightarrow> nat \<times> quilt_store_blob
    \<Rightarrow> (bytes \<times> quilt_patch list \<times> nat, quilt_error) result" where
  "add_user_blob B column_size row_size sz = (\<lambda>(data, patches, current_col) (i, blob).
    and_then (add_blob_to_quilt B data blob False current_col column_size row_size sz) (\<lambda>(data, cols_needed).
    and_then (expect (checked U16_MAX current_col)) (\<lambda>s.
    and_then (expect (checked U16_MAX (current_col + cols_needed))) (\<lambda>e.
    if i < length patches then Ok (data, patches[i := patch_set_range s e (patches ! i)], current_col + cols_needed)
    else Panic))))"

definition construct_quilt :: "bcs \<Rightarrow> rs_config \<Rightarrow> quilt_store_blob list \<Rightarrow> (quilt, quilt_error) result" where
  "construct_quilt B cfg blobs =
    (let n_rows = n_source_symbols Primary cfg;
         n_columns = n_source_symbols Secondary cfg;
         blob_pairs = sort_key qb_identifier blobs in
     and_then (check_duplicates blob_pairs) (\<lambda>_.
     and_then (try_map (\<lambda>blob. patch_new_with_tags (qb_identifier blob) (qb_tags blob)) blob_pairs) (\<lambda>patches.
     and_then (ok_or (map_option length (index_serialize B \<lparr>quilt_patches = patches\<rparr>)) QuiltIndexSerDerError) (\<lambda>size.
     and_then (expect (checked U32_MAX size)) (\<lambda>serialized_index_size.
     let index_total_size = QUILT_INDEX_PREFIX_SIZE + serialized_index_size in
     and_then (try_map (serialized_blob_size B) blob_pairs) (\<lambda>sizes.
     and_then (quilt_compute_symbol_size (index_total_size # sizes) n_columns n_rows MAX_NUM_SLIVERS_FOR_QUILT_INDEX
       rs_encoding_type) (\<lambda>sz.
     let row_size = sz * n_columns; column_size = sz * n_rows in
     and_then (udiv_ceil index_total_size column_size) (\<lambda>index_cols_needed.
     and_then (rust_assert (index_cols_needed \<le> MAX_NUM_SLIVERS_FOR_QUILT_INDEX)) (\<lambda>_.
     and_then (try_fold (add_user_blob B column_size row_size sz)
       (replicate (row_size * n_rows) 0, patches, index_cols_needed) (enumerate 0 blob_pairs)) (\<lambda>(data, patches, _).
     and_then (expect (index_serialize B \<lparr>quilt_patches = patches\<rparr>)) (\<lambda>index_bytes.
     let meta_blob_data = [QUILT_VERSION_BYTE] @ to_le_bytes 4 serialized_index_size @ index_bytes in
     and_then (rust_assert (length meta_blob_data = index_total_size)) (\<lambda>_.
     and_then (store_blob_new meta_blob_data (str_of ''quilt_index'')) (\<lambda>meta_blob.
     and_then (add_blob_to_quilt B data meta_blob True 0 column_size row_size sz) (\<lambda>(data, _).
     Ok \<lparr>q_data = data, q_row_size = row_size, q_symbol_size = sz,
       q_quilt_index = Some \<lparr>quilt_patches = patches\<rparr>\<rparr>))))))))))))))"

record quilt_metadata =
  quilt_id :: blob_id
  qm_metadata :: blob_metadata
  qm_index :: quilt_index

definition get_verified_metadata :: "quilt_metadata \<Rightarrow> blob_metadata_with_id" where
  "get_verified_metadata self = new_verified_unchecked (quilt_id self) (qm_metadata self)"

definition quilt_encode_with_metadata ::
  "bcs \<Rightarrow> hash_fun \<Rightarrow> 'r rs_codec \<Rightarrow> rs_config \<Rightarrow> quilt_store_blob list \<Rightarrow> (sliver_pair list \<times> quilt_metadata, quilt_error) result" where
  "quilt_encode_with_metadata B h C cfg blobs =
    and_then (construct_quilt B cfg blobs) (\<lambda>quilt.
    and_then (ok_or (q_quilt_index quilt) MissingQuiltIndex) (\<lambda>quilt_index.
    and_then (map_err (\<lambda>_. QuiltOversize) (blob_encoder_new cfg (blob_new_owned (q_data quilt)))) (\<lambda>encoder.
    and_then (rust_assert (be_symbol_size (be_inner encoder) = q_symbol_size quilt)) (\<lambda>_.
    and_then (encode_with_metadata h C encoder) (\<lambda>(sliver_pairs, md).
    Ok (sliver_pairs, \<lparr>quilt_id = blob_id md, qm_metadata = metadata md, qm_index = quilt_index\<rparr>))))))"

subsection \<open>The decoder\<close>

record quilt_decoder =
  qd_slivers :: "(sliver_index, sliver_data) mapping"
  qd_quilt_index :: "quilt_index option"
  qd_column_size :: "nat option"

definition validate_and_update_column_size :: "nat option \<Rightarrow> nat \<Rightarrow> (nat option, quilt_error) result" where
  "validate_and_update_column_size column_size sliver_data_len =
    (case column_size of
       None \<Rightarrow> Ok (Some sliver_data_len)
     | Some expected \<Rightarrow>
         if expected = sliver_data_len then Ok (Some expected) else Err (ColumnSizeMismatch expected sliver_data_len))"

text \<open>Adding stops at the first sliver of another size; the slivers before it have been added.\<close>

fun add_slivers :: "quilt_decoder \<Rightarrow> sliver_data list \<Rightarrow> quilt_decoder \<times> (unit, quilt_error) result" where
  "add_slivers self [] = (self, Ok ())"
| "add_slivers self (sliver # slivers) =
    (case validate_and_update_column_size (qd_column_size self) (length (sym_data (sd_symbols sliver))) of
       Ok c \<Rightarrow> add_slivers (self\<lparr>qd_column_size := c, qd_slivers := Mapping.update (sd_index sliver) sliver (qd_slivers self)\<rparr>) slivers
     | Err e \<Rightarrow> (self, Err e)
     | Panic \<Rightarrow> (self, Panic))"

definition quilt_decoder_new :: "sliver_data list \<Rightarrow> (quilt_decoder, quilt_error) result" where
  "quilt_decoder_new slivers =
    (case add_slivers \<lparr>qd_slivers = Mapping.empty, qd_quilt_index = None, qd_column_size = None\<rparr> slivers of
       (decoder, r) \<Rightarrow> and_then r (\<lambda>_. Ok decoder))"

definition quilt_decoder_new_with_quilt_index :: "sliver_data list \<Rightarrow> quilt_index \<Rightarrow> (quilt_decoder, quilt_error) result" where
  "quilt_decoder_new_with_quilt_index slivers quilt_index =
    (case add_slivers \<lparr>qd_slivers = Mapping.empty, qd_quilt_index = Some quilt_index, qd_column_size = None\<rparr> slivers of
       (decoder, r) \<Rightarrow> and_then r (\<lambda>_. Ok decoder))"

definition check_missing_slivers :: "quilt_decoder \<Rightarrow> nat \<Rightarrow> nat \<Rightarrow> (unit, quilt_error) result" where
  "check_missing_slivers self start_idx end_idx =
    (let missing_slivers = filter (\<lambda>i. Mapping.lookup (qd_slivers self) i = None) (map (\<lambda>i. i mod 65536) [start_idx..<end_idx]) in
     if missing_slivers \<noteq> [] then Err (MissingSlivers missing_slivers) else Ok ())"

fun read_slivers :: "sliver_data list \<Rightarrow> nat \<Rightarrow> nat \<Rightarrow> bytes \<Rightarrow> bytes" where
  "read_slivers [] bytes_to_skip bytes_to_return result = result"
| "read_slivers (sliver # slivers) bytes_to_skip bytes_to_return result =
    (if bytes_to_return = 0 then result
     else
       let data = sym_data (sd_symbols sliver) in
       if bytes_to_skip \<ge> length data then read_slivers slivers (bytes_to_skip - length data) bytes_to_return result
       else
         let copy_len = min (length data - bytes_to_skip) bytes_to_return in
         read_slivers slivers 0 (bytes_to_return - copy_len) (result @ take copy_len (drop bytes_to_skip data)))"

definition decoder_range_read :: "quilt_decoder \<Rightarrow> nat \<Rightarrow> nat \<Rightarrow> nat \<Rightarrow> (bytes, quilt_error) result" where
  "decoder_range_read self start_col bytes_to_skip bytes_to_return =
    and_then (check_missing_slivers self start_col (start_col + 1)) (\<lambda>_.
    and_then (expect (qd_column_size self)) (\<lambda>column_size.
    and_then (udiv_ceil (bytes_to_skip + bytes_to_return) column_size) (\<lambda>cols.
    let end_col = start_col + cols in
    and_then (check_missing_slivers self start_col end_col) (\<lambda>_.
    and_then (try_map (\<lambda>col. expect (Mapping.lookup (qd_slivers self) (col mod 65536))) [start_col..<end_col]) (\<lambda>slivers.
    let result = read_slivers slivers bytes_to_skip bytes_to_return [] in
    if length result \<noteq> bytes_to_return then Err (InsufficientQuiltData bytes_to_return (length result)) else Ok result)))))"

definition decoder_total_data_size :: "quilt_decoder \<Rightarrow> nat" where
  "decoder_total_data_size self =
    (case qd_column_size self of Some col_size \<Rightarrow> Mapping.size (qd_slivers self) * col_size | None \<Rightarrow> 0)"

definition decoder_reader :: "quilt_decoder \<Rightarrow> column_reader" where
  "decoder_reader self =
    \<lparr>range_read_from_columns = decoder_range_read self, total_data_size = decoder_total_data_size self\<rparr>"

definition decoder_get_or_decode_quilt_index :: "bcs \<Rightarrow> quilt_decoder \<Rightarrow> (quilt_index \<times> quilt_decoder, quilt_error) result" where
  "decoder_get_or_decode_quilt_index B self =
    (case qd_quilt_index self of
       Some quilt_index \<Rightarrow> Ok (quilt_index, self)
     | None \<Rightarrow>
         and_then (check_missing_slivers self 0 1) (\<lambda>_.
         and_then (expect (qd_column_size self)) (\<lambda>column_size.
         and_then (decode_quilt_index B (decoder_reader self) column_size) (\<lambda>quilt_index.
         Ok (quilt_index, self\<lparr>qd_quilt_index := Some quilt_index\<rparr>)))))"

definition get_patch_by_quilt_patch :: "bcs \<Rightarrow> quilt_decoder \<Rightarrow> quilt_patch \<Rightarrow> (quilt_store_blob, quilt_error) result" where
  "get_patch_by_quilt_patch B self patch =
    and_then (check_missing_slivers self (qp_start_index patch) (qp_end_index patch)) (\<lambda>_.
    decode_blob B (decoder_reader self) (qp_start_index patch))"

definition decoder_get_blobs_by_identifiers :: "bcs \<Rightarrow> quilt_decoder \<Rightarrow> str list \<Rightarrow> (quilt_store_blob list, quilt_error) result" where
  "decoder_get_blobs_by_identifiers B self identifiers =
    and_then (ok_or (qd_quilt_index self) MissingQuiltIndex) (\<lambda>quilt_index.
    and_then (get_quilt_patches_by_identifiers quilt_index identifiers) (\<lambda>patches.
    try_map (get_patch_by_quilt_patch B self) patches))"

definition decoder_get_blob_by_patch_internal_id :: "bcs \<Rightarrow> quilt_decoder \<Rightarrow> bytes \<Rightarrow> (quilt_store_blob, quilt_error) result" where
  "decoder_get_blob_by_patch_internal_id B self id_bytes =
    and_then (patch_internal_id_from_bytes id_bytes) (\<lambda>patch_id.
    and_then (check_missing_slivers self (pid_start_index patch_id) (pid_end_index patch_id)) (\<lambda>_.
    decode_blob B (decoder_reader self) (pid_start_index patch_id)))"

definition decoder_get_blobs_by_tag :: "bcs \<Rightarrow> quilt_decoder \<Rightarrow> str \<Rightarrow> str \<Rightarrow> (quilt_store_blob list, quilt_error) result" where
  "decoder_get_blobs_by_tag B self target_tag target_value =
    and_then (ok_or (qd_quilt_index self) MissingQuiltIndex) (\<lambda>quilt_index.
    try_map (get_patch_by_quilt_patch B self) (get_quilt_patches_by_tag quilt_index target_tag target_value))"

end
