(* ===== verification/QuiltLayout.thy ===== *)
theory QuiltLayout
  imports Quilt
begin

text \<open>
  The layout of a quilt: the matrix of symbols is stored row by row, and blobs are written and read column by column.
  \<open>columns\<close> is the matrix read column by column. Reading cells is a slice of it, and writing cells overwrites a slice.
\<close>

subsection \<open>Bytes and headers\<close>

lemma length_to_le_bytes [simp]: "length (to_le_bytes k n) = k"
  by (induction k arbitrary: n) simp_all

lemma from_to_le_bytes: "from_le_bytes (to_le_bytes k n) = n mod 256 ^ k"
proof (induction k arbitrary: n)
  case (Suc k)
  have "n mod 256 + 256 * (n div 256 mod 256 ^ k) = n mod (256 * 256 ^ k)"
    by (simp only: mod_mult2_eq add.commute)
  then show ?case by (simp add: Suc unat_of_nat)
qed simp

lemma from_to_le_bytes_small [simp]: "n < 256 ^ k \<Longrightarrow> from_le_bytes (to_le_bytes k n) = n"
  by (simp add: from_to_le_bytes)

lemma from_le_bytes_less: "from_le_bytes b < 256 ^ length b"
proof (induction b)
  case (Cons x b)
  have "unat x < 256" by (rule less_le_trans [OF unsigned_less]) simp
  with Cons have "unat x + 256 * from_le_bytes b < 256 * 256 ^ length b" by linarith
  then show ?case by simp
qed simp

lemma to_le_bytes_4: "to_le_bytes 4 n = [of_nat n, of_nat (n div 256), of_nat (n div 256 div 256), of_nat (n div 256 div 256 div 256)]"
  by (simp only: numeral_eq_Suc pred_numeral_simps to_le_bytes.simps BitM.simps numeral_One One_nat_def)

lemma header_roundtrip:
  assumes "bh_length hdr \<le> U32_MAX"
  shows "header_from_bytes (header_as_bytes hdr) = Ok hdr" "length (header_as_bytes hdr) = BLOB_HEADER_SIZE"
proof -
  have "from_le_bytes (to_le_bytes 4 (bh_length hdr)) = bh_length hdr" using assms by simp
  then show "header_from_bytes (header_as_bytes hdr) = Ok hdr"
    by (simp add: header_from_bytes_def header_as_bytes_def to_le_bytes_4)
  show "length (header_as_bytes hdr) = BLOB_HEADER_SIZE" by (simp add: header_as_bytes_def)
qed

lemma patch_internal_id_roundtrip:
  assumes "pid_start_index p \<le> U16_MAX" "pid_end_index p \<le> U16_MAX"
  shows "patch_internal_id_from_bytes (patch_internal_id_to_bytes p) = Ok p"
  using assms by (simp add: patch_internal_id_from_bytes_def patch_internal_id_to_bytes_def)

subsection \<open>Tags\<close>

lemma btree_insert_last: "(\<forall>k'\<in>fst ` set m. k' < k) \<Longrightarrow> btree_insert k v m = m @ [(k, v)]"
  by (induction k v m rule: btree_insert.induct) auto

lemma btree_collect_sorted: "tags_ok t \<Longrightarrow> btree_collect t = t"
proof (induction t rule: rev_induct)
  case (snoc x t)
  then have "btree_collect t = t" "\<forall>k\<in>fst ` set t. k < fst x"
    by (auto simp: tags_ok_def sorted_wrt_append)
  then show ?case by (cases x) (simp add: btree_collect_def btree_insert_last)
qed (simp add: btree_collect_def)

subsection \<open>Slices\<close>

definition slice_at :: "nat \<Rightarrow> nat \<Rightarrow> 'a list \<Rightarrow> 'a list" where
  "slice_at p n xs = take n (drop p xs)"

definition overwrite :: "nat \<Rightarrow> 'a list \<Rightarrow> 'a list \<Rightarrow> 'a list" where
  "overwrite p ys xs = take p xs @ ys @ drop (p + length ys) xs"

lemma length_slice_at [simp]: "p + n \<le> length xs \<Longrightarrow> length (slice_at p n xs) = n"
  by (simp add: slice_at_def)

lemma slice_at_nth [simp]: "p + n \<le> length xs \<Longrightarrow> i < n \<Longrightarrow> slice_at p n xs ! i = xs ! (p + i)"
  by (simp add: slice_at_def)

lemma slice_at_0 [simp]: "slice_at p 0 xs = []"
  by (simp add: slice_at_def)

lemma slice_at_append: "slice_at p n xs @ slice_at (p + n) m xs = slice_at p (n + m) xs"
  by (simp add: slice_at_def take_add add.commute [of n p])

lemma slice_at_slice_at: "k + m \<le> n \<Longrightarrow> slice_at k m (slice_at p n xs) = slice_at (p + k) m xs"
  by (simp add: slice_at_def drop_take min_absorb1 add.commute)

lemma slice_at_append_left [simp]: "p + n \<le> length xs \<Longrightarrow> slice_at p n (xs @ ys) = slice_at p n xs"
  by (simp add: slice_at_def)

lemma slice_at_append_right: "slice_at (length xs) n (xs @ ys) = take n ys"
  by (simp add: slice_at_def)

lemma length_overwrite [simp]: "p + length ys \<le> length xs \<Longrightarrow> length (overwrite p ys xs) = length xs"
  by (simp add: overwrite_def)

lemma nth_overwrite:
  "p + length ys \<le> length xs \<Longrightarrow> i < length xs \<Longrightarrow>
    overwrite p ys xs ! i = (if p \<le> i \<and> i < p + length ys then ys ! (i - p) else xs ! i)"
  by (auto simp: overwrite_def nth_append min_absorb1)

lemma overwrite_Nil [simp]: "overwrite p [] xs = xs"
  by (simp add: overwrite_def)

lemma overwrite_overwrite:
  "p + length ys + length zs \<le> length xs \<Longrightarrow> overwrite (p + length ys) zs (overwrite p ys xs) = overwrite p (ys @ zs) xs"
  by (simp add: overwrite_def ac_simps)

lemma slice_overwrite_same [simp]: "p + length ys \<le> length xs \<Longrightarrow> slice_at p (length ys) (overwrite p ys xs) = ys"
  by (simp add: overwrite_def slice_at_def)

lemma slice_overwrite_other:
  assumes "p + length ys \<le> length xs" "q + n \<le> length xs" "q + n \<le> p \<or> p + length ys \<le> q"
  shows "slice_at q n (overwrite p ys xs) = slice_at q n xs"
  by (rule nth_equalityI) (use assms in \<open>auto simp: nth_overwrite\<close>)

lemma copy_to_slice_overwrite:
  "a + length v \<le> length xs \<Longrightarrow> copy_to_slice xs (a, a + length v) v = Ok (overwrite a v xs)"
  by (simp add: copy_to_slice_def overwrite_def)

subsection \<open>The matrix by columns\<close>

definition cell_pos :: "nat \<Rightarrow> nat \<Rightarrow> nat \<Rightarrow> nat \<Rightarrow> nat" where
  "cell_pos n_rows row_size sz p = p div sz mod n_rows * row_size + p div sz div n_rows * sz + p mod sz"

definition columns :: "nat \<Rightarrow> nat \<Rightarrow> nat \<Rightarrow> bytes \<Rightarrow> bytes" where
  "columns n_rows row_size sz data = map (\<lambda>p. data ! cell_pos n_rows row_size sz p) [0..<length data]"

definition layout :: "nat \<Rightarrow> nat \<Rightarrow> nat \<Rightarrow> nat \<Rightarrow> bool" where
  "layout n_rows row_size sz len \<longleftrightarrow> 0 < n_rows \<and> 0 < sz \<and> sz dvd row_size \<and> len = row_size * n_rows"

lemma layoutE:
  assumes "layout nr rs sz len"
  obtains nc where "0 < nr" "0 < sz" "rs = nc * sz" "len = nc * nr * sz"
  using assms by (auto simp: layout_def dvd_def ac_simps)

lemma cell_pos_eq: "r < nr \<Longrightarrow> k < sz \<Longrightarrow> cell_pos nr rs sz ((c * nr + r) * sz + k) = r * rs + c * sz + k"
  by (simp add: cell_pos_def)

lemma cell_of_offset:
  "((a + skip div sz div nr) * nr + skip div sz mod nr) * sz + skip mod sz = a * (nr * sz) + (skip :: nat)"
proof -
  have "(a + skip div sz div nr) * nr + skip div sz mod nr = a * nr + skip div sz"
    by (simp add: add_mult_distrib)
  then have "((a + skip div sz div nr) * nr + skip div sz mod nr) * sz + skip mod sz
      = a * (nr * sz) + (skip div sz * sz + skip mod sz)"
    by (simp only: add_mult_distrib mult.assoc add.assoc)
  then show ?thesis by (simp only: div_mult_mod_eq)
qed

lemma cell_pos_split:
  assumes "layout nr rs sz len" "p < len"
  obtains c r k where "p = (c * nr + r) * sz + k" "r < nr" "k < sz" "c < rs div sz" "c * sz + k < rs"
proof -
  from assms(1) obtain nc where l: "0 < nr" "0 < sz" "rs = nc * sz" "len = nc * nr * sz" by (rule layoutE)
  let ?q = "p div sz"
  have "?q < nc * nr" using assms(2) l by (simp add: div_less_iff_less_mult)
  then have c: "?q div nr < nc" using l(1) by (simp add: div_less_iff_less_mult)
  then have "(?q div nr + 1) * sz \<le> rs" using mult_le_mono1 [of "?q div nr + 1" nc sz] l(3) by simp
  moreover have "p mod sz < sz" using l(2) by simp
  ultimately have "?q div nr * sz + p mod sz < rs" by simp
  with c l show thesis by (intro that [of "?q div nr" "?q mod nr" "p mod sz"]) simp_all
qed

lemma cell_pos_less:
  assumes "layout nr rs sz len" "p < len"
  shows "cell_pos nr rs sz p < len"
proof -
  from assms obtain c r k where p: "p = (c * nr + r) * sz + k" "r < nr" "k < sz" "c * sz + k < rs" by (rule cell_pos_split)
  have "r * rs + (c * sz + k) < (r + 1) * rs" using p(4) by simp
  also have "\<dots> \<le> nr * rs" using p(2) by (intro mult_le_mono1) simp
  finally show ?thesis using p assms(1) by (simp add: cell_pos_eq layout_def mult.commute [of rs])
qed

text \<open>The column position of a byte of the matrix.\<close>

definition cell_inv :: "nat \<Rightarrow> nat \<Rightarrow> nat \<Rightarrow> nat \<Rightarrow> nat" where
  "cell_inv n_rows row_size sz x = (x mod row_size div sz * n_rows + x div row_size) * sz + x mod row_size mod sz"

lemma cell_inv_pos:
  assumes "layout nr rs sz len" "p < len"
  shows "cell_inv nr rs sz (cell_pos nr rs sz p) = p"
proof -
  from assms obtain c r k where p: "p = (c * nr + r) * sz + k" "r < nr" "k < sz" "c * sz + k < rs" by (rule cell_pos_split)
  let ?x = "r * rs + (c * sz + k)"
  have "cell_pos nr rs sz p = ?x" using p by (simp add: cell_pos_eq)
  moreover have "?x div rs = r" "?x mod rs = c * sz + k" using p(4) by auto
  moreover have "(c * sz + k) div sz = c" "(c * sz + k) mod sz = k" using p(3) by auto
  ultimately show ?thesis using p(1) by (simp add: cell_inv_def)
qed

lemma length_columns [simp]: "length (columns nr rs sz data) = length data"
  by (simp add: columns_def)

lemma columns_nth [simp]: "p < length data \<Longrightarrow> columns nr rs sz data ! p = data ! cell_pos nr rs sz p"
  by (simp add: columns_def)

text \<open>A part of one symbol is contiguous in both views.\<close>

lemma slice_columns:
  assumes "layout nr rs sz (length data)" "r < nr" "k + n \<le> sz" "(c * nr + r) * sz + k + n \<le> length data"
  shows "slice_at (r * rs + c * sz + k) n data = slice_at ((c * nr + r) * sz + k) n (columns nr rs sz data)"
    and "0 < n \<Longrightarrow> r * rs + c * sz + k + n \<le> length data"
proof -
  have pos: "cell_pos nr rs sz ((c * nr + r) * sz + k + i) = r * rs + c * sz + k + i" if "i < n" for i
    using cell_pos_eq [of r nr "k + i" sz rs c] that assms(2,3) by (simp add: add.assoc)
  show bound: "r * rs + c * sz + k + n \<le> length data" if "0 < n"
  proof -
    from that obtain m where n: "n = Suc m" by (cases n) auto
    have "(c * nr + r) * sz + k + m < length data" using assms(4) n by simp
    from cell_pos_less [OF assms(1) this] show ?thesis using pos [of m] n by simp
  qed
  show "slice_at (r * rs + c * sz + k) n data = slice_at ((c * nr + r) * sz + k) n (columns nr rs sz data)"
  proof (cases "0 < n")
    case True
    then show ?thesis using bound assms(4) by (intro nth_equalityI) (simp_all add: pos)
  qed simp
qed

lemma overwrite_columns:
  assumes "layout nr rs sz (length data)" "r < nr" "k + length v \<le> sz" "(c * nr + r) * sz + k + length v \<le> length data"
    and "v \<noteq> []"
  shows "columns nr rs sz (overwrite (r * rs + c * sz + k) v data)
    = overwrite ((c * nr + r) * sz + k) v (columns nr rs sz data)"
proof (rule nth_equalityI)
  let ?a = "r * rs + c * sz + k" and ?p = "(c * nr + r) * sz + k"
  have bound: "?a + length v \<le> length data" using slice_columns(2) [OF assms(1-4)] assms(5) by simp
  then show "length (columns nr rs sz (overwrite ?a v data)) = length (overwrite ?p v (columns nr rs sz data))"
    using assms(4) by simp
  fix q assume "q < length (columns nr rs sz (overwrite ?a v data))"
  then have q: "q < length data" using bound by simp
  have pos: "cell_pos nr rs sz (?p + i) = ?a + i" if "i < length v" for i
    using cell_pos_eq [of r nr "k + i" sz rs c] that assms(2,3) by (simp add: add.assoc)
  have "?a \<le> cell_pos nr rs sz q \<and> cell_pos nr rs sz q < ?a + length v \<longleftrightarrow> ?p \<le> q \<and> q < ?p + length v"
  proof
    assume *: "?a \<le> cell_pos nr rs sz q \<and> cell_pos nr rs sz q < ?a + length v"
    then obtain i where i: "i < length v" "cell_pos nr rs sz q = ?a + i" by (metis add_less_cancel_left le_Suc_ex)
    then have "cell_pos nr rs sz q = cell_pos nr rs sz (?p + i)" by (simp only: pos)
    moreover have "?p + i < length data" using i assms(4) by simp
    ultimately have "q = ?p + i" using cell_inv_pos [OF assms(1)] q by metis
    then show "?p \<le> q \<and> q < ?p + length v" using i by simp
  next
    assume "?p \<le> q \<and> q < ?p + length v"
    then obtain i where "i < length v" "q = ?p + i" by (metis add_less_cancel_left le_Suc_ex)
    then show "?a \<le> cell_pos nr rs sz q \<and> cell_pos nr rs sz q < ?a + length v" by (simp only: pos) simp
  qed
  moreover have "cell_pos nr rs sz q - ?a = q - ?p" if "?p \<le> q \<and> q < ?p + length v"
    using pos [of "q - ?p"] that by auto
  ultimately show "columns nr rs sz (overwrite ?a v data) ! q = overwrite ?p v (columns nr rs sz data) ! q"
    using q bound assms(4) cell_pos_less [OF assms(1) q] by (simp add: nth_overwrite)
qed

subsection \<open>Reading cells\<close>

lemma advance_position:
  assumes "r < nr"
  obtains c' r' where "advance_position nr (c, r) = (c', r')" "r' < nr" "c' * nr + r' = c * nr + r + 1"
proof (cases "r + 1 = nr")
  case True
  then show thesis by (intro that [of "c + 1" 0]) (auto simp: advance_position_def)
next
  case False
  then have "r + 1 < nr" using assms by simp
  then show thesis by (intro that [of c "r + 1"]) (auto simp: advance_position_def)
qed

lemma get_slice_columns:
  assumes "layout nr (q_row_size q) (q_symbol_size q) (length (q_data q))" "r < nr" "skip < q_symbol_size q" "0 < n"
    and k: "k = min (q_symbol_size q - skip) n" "(c * nr + r) * q_symbol_size q + skip + k \<le> length (q_data q)"
  shows "get_slice q c r skip n
    = Ok (slice_at ((c * nr + r) * q_symbol_size q + skip) k (columns nr (q_row_size q) (q_symbol_size q) (q_data q)))"
proof -
  let ?a = "r * q_row_size q + c * q_symbol_size q"
  have kn: "0 < k" "skip + k \<le> q_symbol_size q" using assms(3,4) k(1) by auto
  note cell = slice_columns [OF assms(1,2) kn(2) k(2)]
  have bound: "?a + skip + k \<le> length (q_data q)" using cell(2) kn(1) by simp
  have "min (min (?a + q_symbol_size q) (?a + skip + n)) (length (q_data q)) = ?a + skip + k"
    using bound k(1) assms(3) by auto
  then have "get_slice q c r skip n = Ok (slice_at (?a + skip) k (q_data q))"
    using bound kn by (simp add: get_slice_def Let_def vec_slice_def slice_at_def)
  then show ?thesis by (simp only: cell(1))
qed

lemma read_cells_columns:
  assumes "layout nr (q_row_size q) (q_symbol_size q) (length (q_data q))" "r < nr" "skip < q_symbol_size q"
    and "(c * nr + r) * q_symbol_size q + skip + n \<le> length (q_data q)"
  shows "read_cells q nr (c, r) skip n acc
    = Ok (acc @ slice_at ((c * nr + r) * q_symbol_size q + skip) n (columns nr (q_row_size q) (q_symbol_size q) (q_data q)))"
  using assms(2-4)
proof (induction n arbitrary: c r skip acc rule: less_induct)
  case (less n)
  let ?sz = "q_symbol_size q" and ?cols = "columns nr (q_row_size q) (q_symbol_size q) (q_data q)"
  let ?p = "(c * nr + r) * ?sz + skip"
  show ?case
  proof (cases "n = 0")
    case False
    define k where "k = min (?sz - skip) n"
    have k: "0 < k" "k \<le> n" "?p + k \<le> length (q_data q)" using False less.prems by (auto simp: k_def)
    obtain c' r' where adv: "advance_position nr (c, r) = (c', r')" "r' < nr" "c' * nr + r' = c * nr + r + 1"
      using less.prems(1) by (rule advance_position)
    have rest: "read_cells q nr (c', r') 0 (n - k) (acc @ slice_at ?p k ?cols)
      = Ok (acc @ slice_at ?p k ?cols @ slice_at (?p + k) (n - k) ?cols)"
    proof (cases "n = k")
      case True
      then show ?thesis by (simp add: read_cells.simps)
    next
      case neq: False
      then have "k = ?sz - skip" by (auto simp: k_def)
      then have p: "(c' * nr + r') * ?sz = ?p + k" using adv(3) less.prems(2) by simp
      show ?thesis using less.IH [OF _ adv(2), of "n - k" 0 c' "acc @ slice_at ?p k ?cols"] p k less.prems by simp
    qed
    have "slice_at ?p k ?cols @ slice_at (?p + k) (n - k) ?cols = slice_at ?p n ?cols"
      using slice_at_append [of ?p k ?cols "n - k"] k(2) by simp
    moreover have "get_slice q c r skip n = Ok (slice_at ?p k ?cols)"
      using get_slice_columns [OF assms(1) less.prems(1,2) _ k_def k(3)] False by simp
    ultimately show ?thesis
      using False less.prems(2) adv(1) rest k by (subst read_cells.simps) simp
  qed (simp add: read_cells.simps)
qed

lemma read_cells_length: "read_cells q nr pos skip n acc = Ok b \<Longrightarrow> length b = length acc + n"
proof (induction q nr pos skip n acc rule: read_cells.induct)
  case (1 q nr c r skip n acc)
  show ?case
  proof (cases "n = 0 \<or> q_symbol_size q = 0")
    case False
    then obtain cell where cell: "get_slice q c r skip n = Ok cell"
      and rest: "read_cells q nr (advance_position nr (c, r)) 0 (n - length cell) (acc @ cell) = Ok b"
      using 1(2) by (subst (asm) read_cells.simps) auto
    have "length b = length (acc @ cell) + (n - length cell)" using 1(1) [OF _ _ cell rest] False by simp
    moreover have "length cell \<le> n" using get_slice_length [OF cell] by linarith
    ultimately show ?thesis by simp
  qed (use 1(2) in \<open>auto simp: read_cells.simps split: if_splits\<close>)
qed

lemma read_cells_no_panic:
  "0 < q_symbol_size q \<Longrightarrow> skip \<le> q_symbol_size q \<Longrightarrow> read_cells q nr pos skip n acc \<noteq> Panic"
proof (induction q nr pos skip n acc rule: read_cells.induct)
  case (1 q nr c r skip n acc)
  have "get_slice q c r skip n \<noteq> Panic"
    using 1(3) by (auto simp: get_slice_def Let_def vec_slice_def)
  then show ?case using 1 by (subst read_cells.simps) auto
qed

subsection \<open>Writing cells\<close>

lemma write_cells_columns:
  assumes "layout nr rs sz (length data)" "r < nr" "off < sz" "idx \<le> length bytes"
    and "(c * nr + r) * sz + off + (length bytes - idx) \<le> length data"
  shows "\<exists>data'. write_cells nr rs sz data bytes (c, r) off idx = Ok data' \<and> length data' = length data
    \<and> columns nr rs sz data' = overwrite ((c * nr + r) * sz + off) (drop idx bytes) (columns nr rs sz data)"
  using assms
proof (induction "length bytes - idx" arbitrary: data c r off idx rule: less_induct)
  case less
  let ?p = "(c * nr + r) * sz + off" and ?a = "r * rs + c * sz + off"
  show ?case
  proof (cases "idx < length bytes")
    case True
    define k where "k = min (sz - off) (length bytes - idx)"
    let ?v = "take k (drop idx bytes)"
    have k: "0 < k" "k \<le> length bytes - idx" "off + k \<le> sz" using True less.prems(3) by (auto simp: k_def)
    have lv: "length ?v = k" "?v \<noteq> []" using k True by auto
    have room: "?p + k \<le> length data" using less.prems(5) k(2) by linarith
    note in_cell = less.prems(1,2) k(3) room
    have fits: "?a + k \<le> length data" using slice_columns(2) [OF in_cell] k(1) by simp
    define data1 where "data1 = overwrite ?a ?v data"
    have data1: "length data1 = length data" "columns nr rs sz data1 = overwrite ?p ?v (columns nr rs sz data)"
      using overwrite_columns [of nr rs sz data r off ?v c] in_cell lv fits by (auto simp: data1_def)
    obtain c' r' where adv: "advance_position nr (c, r) = (c', r')" "r' < nr" "c' * nr + r' = c * nr + r + 1"
      using less.prems(2) by (rule advance_position)
    have "copy_to_slice data (?a, ?a + k) ?v = (Ok data1 :: (bytes, quilt_error) result)"
      using copy_to_slice_overwrite [of ?a ?v data] lv(1) fits by (simp add: data1_def)
    then have step: "write_cells nr rs sz data bytes (c, r) off idx = write_cells nr rs sz data1 bytes (c', r') 0 (idx + k)"
      using True less.prems(3) adv(1)
      by (subst write_cells.simps) (simp add: Let_def k_def [symmetric])
    show ?thesis
    proof (cases "idx + k = length bytes")
      case last: True
      then have "?v = drop idx bytes" using k by simp
      then show ?thesis using step data1 last by (auto simp: write_cells.simps)
    next
      case False
      then have "k = sz - off" using True by (auto simp: k_def min_def split: if_splits)
      then have p: "(c' * nr + r') * sz = ?p + k" using adv(3) less.prems(3) by simp
      have "\<exists>data'. write_cells nr rs sz data1 bytes (c', r') 0 (idx + k) = Ok data' \<and> length data' = length data1
        \<and> columns nr rs sz data' = overwrite ((c' * nr + r') * sz + 0) (drop (idx + k) bytes) (columns nr rs sz data1)"
        using less.hyps [of "idx + k" data1 r' 0 c'] adv(2) p k data1(1) less.prems by simp
      moreover have "overwrite (?p + k) (drop (idx + k) bytes) (columns nr rs sz data1)
          = overwrite ?p (drop idx bytes) (columns nr rs sz data)"
      proof -
        have "overwrite (?p + length ?v) (drop (idx + k) bytes) (overwrite ?p ?v (columns nr rs sz data))
          = overwrite ?p (?v @ drop (idx + k) bytes) (columns nr rs sz data)"
          by (rule overwrite_overwrite) (use lv less.prems(5) k in simp)
        moreover have "?v @ drop (idx + k) bytes = drop idx bytes" by (metis append_take_drop_id drop_drop add.commute)
        ultimately show ?thesis using lv(1) data1(2) by simp
      qed
      ultimately show ?thesis using step data1(1) p by simp
    qed
  qed (use less.prems in \<open>auto simp: write_cells.simps\<close>)
qed

text \<open>Writing behind the first \<open>skip\<close> bytes of a column: the position must be in the matrix, and then the bytes are written if they fit.\<close>

lemma write_bytes_to_columns_eq:
  assumes l: "layout nr (nc * sz) sz (length data)" and cs: "cs = nr * sz"
    and fits: "start * cs + skip + length bytes \<le> length data"
  shows "\<not> start + skip div cs < nc \<Longrightarrow> write_bytes_to_columns data bytes start (nc * sz) cs sz skip = Panic"
    and "start + skip div cs < nc \<Longrightarrow> \<exists>data'. write_bytes_to_columns data bytes start (nc * sz) cs sz skip = Ok data'
      \<and> length data' = length data
      \<and> columns nr (nc * sz) sz data' = overwrite (start * cs + skip) bytes (columns nr (nc * sz) sz data)"
proof -
  from l have pos: "0 < nr" "0 < sz" by (simp_all add: layout_def)
  have n: "cs div sz = nr" "nc * sz div sz = nc" "cs \<noteq> 0" using pos cs by auto
  show "write_bytes_to_columns data bytes start (nc * sz) cs sz skip = Panic" if "\<not> start + skip div cs < nc"
    using that pos n by (simp add: write_bytes_to_columns_def udiv_def)
  assume c: "start + skip div cs < nc"
  let ?c = "start + skip div cs" and ?r = "skip div sz mod nr"
  have "skip div cs = skip div sz div nr" by (simp add: cs mult.commute [of nr] div_mult2_eq)
  then have p: "(?c * nr + ?r) * sz + skip mod sz = start * cs + skip" by (simp only: cs cell_of_offset)
  have "write_bytes_to_columns data bytes start (nc * sz) cs sz skip = write_cells nr (nc * sz) sz data bytes (?c, ?r) (skip mod sz) 0"
    using c pos n by (simp add: write_bytes_to_columns_def udiv_def umod_def)
  then show "\<exists>data'. write_bytes_to_columns data bytes start (nc * sz) cs sz skip = Ok data' \<and> length data' = length data
      \<and> columns nr (nc * sz) sz data' = overwrite (start * cs + skip) bytes (columns nr (nc * sz) sz data)"
    using write_cells_columns [OF l, of ?r "skip mod sz" 0 bytes ?c] pos p fits by simp
qed

end
