(* ===== verification/QuiltReading.thy ===== *)
theory QuiltReading
  imports QuiltLayout
begin

text \<open>
  The decoding functions of quilts against the interface \<open>QuiltColumnRangeReader\<close>. The locale \<open>column_source\<close> states what a
  source of columns promises: a read inside a window of columns is a slice of it, a successful read has exactly the
  requested length, and reads of a valid source do not panic. What decoding does with such a source is proved once; the
  quilt and the decoder on slivers are both shown to be column sources.
\<close>

subsection \<open>The serialisation format\<close>

text \<open>What quilts rely on of BCS: what has been serialised can be read back, and the index of a patch takes a fixed number of bytes.\<close>

definition fields_ok :: "serialized_patch \<Rightarrow> bool" where
  "fields_ok = (\<lambda>(e, i, t). e \<le> U16_MAX \<and> tags_ok t)"

definition bcs_ok :: "bcs \<Rightarrow> bool" where
  "bcs_ok B \<longleftrightarrow> (\<forall>s b. string_to_bytes B s = Some b \<longrightarrow> string_from_bytes B b = Some s)
    \<and> (\<forall>t b. tags_ok t \<longrightarrow> tags_to_bytes B t = Some b \<longrightarrow> tags_from_bytes B b = Some t)
    \<and> (\<forall>fs b. list_all fields_ok fs \<longrightarrow> index_to_bytes B fs = Some b \<longrightarrow> index_from_bytes B b = Some fs)
    \<and> (\<forall>fs fs'. list_all fields_ok fs \<longrightarrow> list_all fields_ok fs' \<longrightarrow> map snd fs = map snd fs'
        \<longrightarrow> map_option length (index_to_bytes B fs) = map_option length (index_to_bytes B fs'))"

lemma bcs_okD:
  assumes "bcs_ok B"
  shows "string_to_bytes B s = Some b \<Longrightarrow> string_from_bytes B b = Some s"
    and "tags_ok t \<Longrightarrow> tags_to_bytes B t = Some b \<Longrightarrow> tags_from_bytes B b = Some t"
    and "list_all fields_ok fs \<Longrightarrow> index_to_bytes B fs = Some b \<Longrightarrow> index_from_bytes B b = Some fs"
    and "list_all fields_ok fs \<Longrightarrow> list_all fields_ok fs' \<Longrightarrow> map snd fs = map snd fs' \<Longrightarrow>
      map_option length (index_to_bytes B fs) = map_option length (index_to_bytes B fs')"
  using assms unfolding bcs_ok_def by blast+

definition store_blob_ok :: "quilt_store_blob \<Rightarrow> bool" where
  "store_blob_ok blob \<longleftrightarrow> validate_quilt_identifier (qb_identifier blob) = Ok () \<and> tags_ok (qb_tags blob)"

text \<open>The bytes of a blob in a quilt.\<close>

lemma header_and_extension_bytes:
  assumes "get_header_and_extension_bytes B blob = Ok pre"
  obtains ib tp where "string_to_bytes B (qb_identifier blob) = Some ib" "length ib \<le> U16_MAX"
    "(qb_tags blob = [] \<and> tp = []) \<or>
      (qb_tags blob \<noteq> [] \<and> (\<exists>tb. tags_to_bytes B (qb_tags blob) = Some tb \<and> length tb \<le> U16_MAX \<and> tp = to_le_bytes 2 (length tb) @ tb))"
    "pre = header_as_bytes \<lparr>bh_length = 2 + length ib + length tp + length (qb_blob blob), bh_mask = (if qb_tags blob = [] then 0 else 1)\<rparr>
      @ to_le_bytes 2 (length ib) @ ib @ tp"
    "2 + length ib + length tp + length (qb_blob blob) \<le> U32_MAX"
proof (cases "qb_tags blob = []")
  case True
  with assms obtain ib where "string_to_bytes B (qb_identifier blob) = Some ib" "length ib \<le> U16_MAX"
      "length ib + 2 + length (qb_blob blob) \<le> U32_MAX"
      "pre = header_as_bytes \<lparr>bh_length = length ib + 2 + length (qb_blob blob), bh_mask = 0\<rparr> @ to_le_bytes 2 (length ib) @ ib"
    by (auto simp: get_header_and_extension_bytes_def Let_def)
  with True show thesis by (intro that [of ib "[]"]) (simp_all add: ac_simps)
next
  case False
  with assms obtain ib tb where "string_to_bytes B (qb_identifier blob) = Some ib" "length ib \<le> U16_MAX"
      "tags_to_bytes B (qb_tags blob) = Some tb" "length tb \<le> U16_MAX"
      "length ib + 2 + (length tb + 2) + length (qb_blob blob) \<le> U32_MAX"
      "pre = header_as_bytes \<lparr>bh_length = length ib + 2 + (length tb + 2) + length (qb_blob blob), bh_mask = 1\<rparr>
        @ to_le_bytes 2 (length ib) @ ib @ to_le_bytes 2 (length tb) @ tb"
    by (auto simp: get_header_and_extension_bytes_def Let_def set_has_tags_def)
  with False show thesis by (intro that [of ib "to_le_bytes 2 (length tb) @ tb"]) (auto simp: ac_simps)
qed

fun contiguous :: "nat \<Rightarrow> quilt_patch list \<Rightarrow> bool" where
  "contiguous k [] = True"
| "contiguous k (p # ps) \<longleftrightarrow> qp_start_index p = k \<and> contiguous (qp_end_index p) ps"

lemma populate_contiguous: "contiguous k ps \<Longrightarrow> populate_start_indices k (map patch_of_fields (map patch_fields ps)) = ps"
  by (induction k ps rule: contiguous.induct) (auto simp: patch_of_fields_def patch_fields_def)

subsection \<open>Sources of columns\<close>

lemma slice_at_part: "p = length xs \<Longrightarrow> n = length ys \<Longrightarrow> slice_at p n (xs @ ys @ zs) = ys"
  by (simp add: slice_at_def)

locale column_source =
  fixes reader :: "'s \<Rightarrow> column_reader" and window :: "'s \<Rightarrow> nat \<Rightarrow> nat \<Rightarrow> bytes" and valid :: "'s \<Rightarrow> bool"
  assumes read_window: "window s a b \<noteq> [] \<Longrightarrow> skip + n \<le> length (window s a b) \<Longrightarrow>
      range_read_from_columns (reader s) a skip n = Ok (slice_at skip n (window s a b))"
    and window_total: "length (window s a b) \<le> total_data_size (reader s)"
    and read_exact: "range_read_from_columns (reader s) a skip n = Ok bs \<Longrightarrow> length bs = n"
    and read_no_panic: "valid s \<Longrightarrow> range_read_from_columns (reader s) a skip n \<noteq> Panic"
begin

lemma read_part:
  assumes "window s a b = xs @ ys @ zs" "skip = length xs" "n = length ys" "window s a b \<noteq> []"
  shows "range_read_from_columns (reader s) a skip n = Ok ys"
  using read_window [of s a b skip n] assms by (simp add: slice_at_part)

lemma decode_blob_identifier_part:
  assumes w: "window s a b = xs @ to_le_bytes 2 (length ib) @ ib @ zs" and off: "off = length xs"
    and B: "bcs_ok B" "string_to_bytes B i = Some ib" "length ib \<le> U16_MAX"
  shows "decode_blob_identifier B (reader s) a off = Ok (i, 2 + length ib)"
proof -
  have ne: "window s a b \<noteq> []" using arg_cong [OF w, of length] by auto
  have "range_read_from_columns (reader s) a off 2 = Ok (to_le_bytes 2 (length ib))"
    using read_part [OF w off _ ne] by simp
  moreover have "range_read_from_columns (reader s) a (off + 2) (length ib) = Ok ib"
    using read_part [of s a b "xs @ to_le_bytes 2 (length ib)" ib zs "off + 2"] w off ne by simp
  ultimately show ?thesis
    using bcs_okD(1) [OF B(1,2)] B(3) by (simp add: decode_blob_identifier_def try_into_array_def Let_def)
qed

lemma decode_blob_tags_part:
  assumes w: "window s a b = xs @ to_le_bytes 2 (length tb) @ tb @ zs" and off: "off = length xs"
    and B: "bcs_ok B" "tags_to_bytes B t = Some tb" "length tb \<le> U16_MAX" "tags_ok t"
  shows "decode_blob_tags B (reader s) a off = Ok (t, 2 + length tb)"
proof -
  have ne: "window s a b \<noteq> []" using arg_cong [OF w, of length] by auto
  have "range_read_from_columns (reader s) a off 2 = Ok (to_le_bytes 2 (length tb))"
    using read_part [OF w off _ ne] by simp
  moreover have "range_read_from_columns (reader s) a (off + 2) (length tb) = Ok tb"
    using read_part [of s a b "xs @ to_le_bytes 2 (length tb)" tb zs "off + 2"] w off ne by simp
  ultimately show ?thesis
    using bcs_okD(2) [OF B(1,4,2)] B(3) by (simp add: decode_blob_tags_def try_into_array_def Let_def)
qed

text \<open>A window that starts with a serialised blob gives back the blob.\<close>

lemma decode_blob_part:
  assumes w: "window s a b = pre @ qb_blob blob @ zs" and pre: "get_header_and_extension_bytes B blob = Ok pre"
    and B: "bcs_ok B" and ok: "store_blob_ok blob"
  shows "decode_blob B (reader s) a = Ok blob"
proof -
  obtain ib tp where p: "string_to_bytes B (qb_identifier blob) = Some ib" "length ib \<le> U16_MAX"
      "(qb_tags blob = [] \<and> tp = []) \<or>
        (qb_tags blob \<noteq> [] \<and> (\<exists>tb. tags_to_bytes B (qb_tags blob) = Some tb \<and> length tb \<le> U16_MAX \<and> tp = to_le_bytes 2 (length tb) @ tb))"
      "pre = header_as_bytes \<lparr>bh_length = 2 + length ib + length tp + length (qb_blob blob), bh_mask = (if qb_tags blob = [] then 0 else 1)\<rparr>
        @ to_le_bytes 2 (length ib) @ ib @ tp"
      "2 + length ib + length tp + length (qb_blob blob) \<le> U32_MAX"
    using pre by (rule header_and_extension_bytes)
  define hdr where "hdr = \<lparr>bh_length = 2 + length ib + length tp + length (qb_blob blob), bh_mask = (if qb_tags blob = [] then 0 else (1 :: byte))\<rparr>"
  have hdr: "header_from_bytes (header_as_bytes hdr) = Ok hdr" "length (header_as_bytes hdr) = 6"
    using header_roundtrip [of hdr] p(5) by (simp_all add: hdr_def)
  have tags: "has_tags hdr \<longleftrightarrow> qb_tags blob \<noteq> []" by (simp add: has_tags_def hdr_def)
  have w': "window s a b = header_as_bytes hdr @ to_le_bytes 2 (length ib) @ ib @ tp @ qb_blob blob @ zs"
    using w p(4) by (simp add: hdr_def)
  then have ne: "window s a b \<noteq> []" using hdr(2) by auto
  have "bh_length hdr \<le> length (window s a b)" using w' by (simp add: hdr_def)
  then have total: "\<not> total_data_size (reader s) < bh_length hdr" using window_total [of s a b] by simp
  have header: "range_read_from_columns (reader s) a 0 6 = Ok (header_as_bytes hdr)"
    using read_part [of s a b "[]" "header_as_bytes hdr"] w' ne hdr(2) by simp
  have ident: "decode_blob_identifier B (reader s) a 6 = Ok (qb_identifier blob, 2 + length ib)"
    by (rule decode_blob_identifier_part [OF w' _ B p(1,2)]) (simp add: hdr(2))
  have data: "range_read_from_columns (reader s) a (8 + (length ib + length tp)) (length (qb_blob blob)) = Ok (qb_blob blob)"
    using read_part [of s a b "header_as_bytes hdr @ to_le_bytes 2 (length ib) @ ib @ tp" "qb_blob blob" zs] w' ne hdr(2) by simp
  have new: "store_blob_new_owned (qb_blob blob) (qb_identifier blob) = Ok \<lparr>qb_blob = qb_blob blob, qb_identifier = qb_identifier blob, qb_tags = []\<rparr>"
    using ok by (simp add: store_blob_ok_def store_blob_new_owned_def)
  have blob: "with_tags (qb_tags blob) \<lparr>qb_blob = qb_blob blob, qb_identifier = qb_identifier blob, qb_tags = []\<rparr> = blob"
    using ok by (simp add: store_blob_ok_def with_tags_def btree_collect_sorted)
  have len: "bh_length hdr = 2 + length ib + length tp + length (qb_blob blob)" by (simp add: hdr_def)
  note decode = decode_blob_def try_into_array_def Let_def header ident new hdr tags len checked_sub_def
  show ?thesis
  proof (cases "qb_tags blob = []")
    case True
    with p(3) data blob total show ?thesis by (simp add: decode)
  next
    case False
    with p(3) obtain tb where tb: "tags_to_bytes B (qb_tags blob) = Some tb" "length tb \<le> U16_MAX" "tp = to_le_bytes 2 (length tb) @ tb"
      by blast
    have "decode_blob_tags B (reader s) a (8 + length ib) = Ok (qb_tags blob, 2 + length tb)"
    proof (rule decode_blob_tags_part [OF _ _ B tb(1,2)])
      show "window s a b = (header_as_bytes hdr @ to_le_bytes 2 (length ib) @ ib) @ to_le_bytes 2 (length tb) @ tb @ qb_blob blob @ zs"
        using w' tb(3) by simp
    qed (use hdr(2) ok in \<open>simp_all add: store_blob_ok_def\<close>)
    then show ?thesis using False tb(3) data blob total by (simp add: decode ac_simps)
  qed
qed

lemma decode_quilt_index_part:
  assumes w: "window s 0 b = [QUILT_VERSION_BYTE] @ to_le_bytes 4 (length ib) @ ib @ zs"
    and ib: "index_serialize B idx = Some ib" "length ib \<le> U32_MAX" "5 + length ib \<le> cs * 10"
    and B: "bcs_ok B" "list_all (\<lambda>p. fields_ok (patch_fields p)) (quilt_patches idx)"
    and k: "k = div_ceil (5 + length ib) cs" "k \<le> U16_MAX" "contiguous k (quilt_patches idx)"
  shows "decode_quilt_index B (reader s) cs = Ok idx"
proof -
  have ne: "window s 0 b \<noteq> []" using w by simp
  have version: "range_read_from_columns (reader s) 0 0 1 = Ok [QUILT_VERSION_BYTE]"
    using read_part [of s 0 b "[]" "[QUILT_VERSION_BYTE]"] w ne by simp
  have size: "range_read_from_columns (reader s) 0 1 4 = Ok (to_le_bytes 4 (length ib))"
    using read_part [OF w _ _ ne] by simp
  have index: "range_read_from_columns (reader s) 0 5 (length ib) = Ok ib"
    using read_part [of s 0 b "[QUILT_VERSION_BYTE] @ to_le_bytes 4 (length ib)" ib zs] w ne by simp
  have "index_from_bytes B ib = Some (map patch_fields (quilt_patches idx))"
    using bcs_okD(3) [OF B(1), of "map patch_fields (quilt_patches idx)" ib] B(2) ib(1)
    by (simp add: index_serialize_def list_all_iff)
  then have idx: "index_deserialize B ib = Some \<lparr>quilt_patches = map patch_of_fields (map patch_fields (quilt_patches idx))\<rparr>"
    by (simp add: index_deserialize_def)
  have cs: "cs \<noteq> 0" using ib(3) by auto
  have "\<not> min U64_MAX (cs * 10) - 5 < length ib" using ib(2,3) by auto
  then show ?thesis
    using version size index idx cs k ib(2) populate_contiguous [OF k(3)]
    by (simp add: decode_quilt_index_def check_quilt_version_def get_quilt_version_byte_def try_into_array_def Let_def
        udiv_ceil_def add.commute [of _ 5])
qed

text \<open>Decoding untrusted data gives an error or a value.\<close>

lemma decode_blob_no_panic: "valid s \<Longrightarrow> decode_blob B (reader s) a \<noteq> Panic"
  by (auto simp: decode_blob_def decode_blob_identifier_def decode_blob_tags_def header_from_bytes_def Let_def
      store_blob_new_owned_def validate_quilt_identifier_def read_no_panic split: if_splits)

lemma decode_quilt_index_no_panic: "valid s \<Longrightarrow> 0 < cs \<Longrightarrow> decode_quilt_index B (reader s) cs \<noteq> Panic"
  by (auto simp: decode_quilt_index_def check_quilt_version_def get_quilt_version_byte_def udiv_ceil_def Let_def
      read_no_panic split: if_splits list.splits)

end

subsection \<open>The quilt is a source of columns\<close>

definition q_n_rows :: "quilt \<Rightarrow> nat" where
  "q_n_rows q = length (q_data q) div q_row_size q"

definition q_column_size :: "quilt \<Rightarrow> nat" where
  "q_column_size q = q_n_rows q * q_symbol_size q"

definition q_columns :: "quilt \<Rightarrow> bytes" where
  "q_columns q = columns (q_n_rows q) (q_row_size q) (q_symbol_size q) (q_data q)"

definition quilt_ok :: "quilt \<Rightarrow> bool" where
  "quilt_ok q \<longleftrightarrow> layout (q_n_rows q) (q_row_size q) (q_symbol_size q) (length (q_data q)) \<and> 0 < q_row_size q"

definition quilt_window :: "quilt \<Rightarrow> nat \<Rightarrow> nat \<Rightarrow> bytes" where
  "quilt_window q a b = (if quilt_ok q then slice_at (a * q_column_size q) ((b - a) * q_column_size q) (q_columns q) else [])"

lemma length_q_columns [simp]: "length (q_columns q) = length (q_data q)"
  by (simp add: q_columns_def)

lemma quilt_range_read_columns:
  assumes ok: "quilt_ok q" and fits: "a * q_column_size q + skip + n \<le> length (q_data q)"
  shows "quilt_range_read q a skip n = Ok (slice_at (a * q_column_size q + skip) n (q_columns q))"
proof -
  let ?nr = "q_n_rows q" and ?sz = "q_symbol_size q"
  from ok have l: "layout ?nr (q_row_size q) ?sz (length (q_data q))" and rs: "0 < q_row_size q" by (simp_all add: quilt_ok_def)
  then have pos: "0 < ?nr" "0 < ?sz" "q_data q \<noteq> []" by (auto simp: layout_def)
  let ?c = "a + skip div ?sz div ?nr" and ?r = "skip div ?sz mod ?nr"
  have p: "(?c * ?nr + ?r) * ?sz + skip mod ?sz = a * q_column_size q + skip"
    unfolding q_column_size_def by (rule cell_of_offset)
  have "skip - skip div ?sz * ?sz = skip mod ?sz" by (simp add: minus_div_mult_eq_mod)
  then have "quilt_range_read q a skip n = read_cells q ?nr (?c, ?r) (skip mod ?sz) n []"
    using pos rs by (simp add: quilt_range_read_def Let_def udiv_def umod_def q_n_rows_def [symmetric])
  also have "\<dots> = Ok ([] @ slice_at ((?c * ?nr + ?r) * ?sz + skip mod ?sz) n (columns ?nr (q_row_size q) ?sz (q_data q)))"
    by (rule read_cells_columns [OF l]) (use pos p fits in simp_all)
  finally show ?thesis by (simp only: p q_columns_def append_Nil)
qed

interpretation qs: column_source quilt_reader quilt_window "\<lambda>q. q_row_size q \<le> length (q_data q)"
proof (unfold_locales, goal_cases)
  case (1 q a b skip n)
  then have ok: "quilt_ok q" and w: "quilt_window q a b = slice_at (a * q_column_size q) ((b - a) * q_column_size q) (q_columns q)"
    by (auto simp: quilt_window_def split: if_splits)
  have len: "length (quilt_window q a b) = min (length (q_data q) - a * q_column_size q) ((b - a) * q_column_size q)"
    by (simp add: w slice_at_def)
  have "a * q_column_size q + skip + n \<le> length (q_data q)"
    using 1 len length_greater_0_conv [of "quilt_window q a b"] by linarith
  from quilt_range_read_columns [OF ok this] show ?case
    using 1(2) len by (simp add: quilt_reader_def w slice_at_slice_at)
next
  case (2 q a b)
  then show ?case by (simp add: quilt_window_def quilt_reader_def slice_at_def min.coboundedI1)
next
  case (3 q a skip n bs)
  then show ?case by (auto simp: quilt_reader_def quilt_range_read_def Let_def dest: read_cells_length split: if_splits)
next
  case (4 q a skip n)
  then show ?case
    by (auto simp: quilt_reader_def quilt_range_read_def Let_def udiv_def umod_def div_eq_0_iff
        minus_div_mult_eq_mod read_cells_no_panic split: if_splits)
qed

subsection \<open>The decoder is a source of columns\<close>

definition sliver_bytes :: "quilt_decoder \<Rightarrow> nat \<Rightarrow> bytes" where
  "sliver_bytes d i = (case Mapping.lookup (qd_slivers d) i of Some s \<Rightarrow> sym_data (sd_symbols s) | None \<Rightarrow> [])"

definition has_columns :: "quilt_decoder \<Rightarrow> nat \<Rightarrow> nat \<Rightarrow> bool" where
  "has_columns d a b \<longleftrightarrow> b \<le> 65536 \<and> (\<forall>i. a \<le> i \<and> i < b \<longrightarrow> Mapping.lookup (qd_slivers d) i \<noteq> None)"

text \<open>What adding slivers establishes: all slivers have the recorded size.\<close>

definition slivers_ok :: "quilt_decoder \<Rightarrow> bool" where
  "slivers_ok d \<longleftrightarrow> finite (Mapping.keys (qd_slivers d))
    \<and> (\<forall>i s. Mapping.lookup (qd_slivers d) i = Some s \<longrightarrow>
        qd_column_size d = Some (length (sym_data (sd_symbols s))) \<and> 0 < length (sym_data (sd_symbols s)))"

definition decoder_window :: "quilt_decoder \<Rightarrow> nat \<Rightarrow> nat \<Rightarrow> bytes" where
  "decoder_window d a b = (if slivers_ok d \<and> has_columns d a b then concat (map (sliver_bytes d) [a..<b]) else [])"

lemma read_slivers_eq:
  "read_slivers ss skip n acc = acc @ slice_at skip n (concat (map (\<lambda>s. sym_data (sd_symbols s)) ss))"
  by (induction ss skip n acc rule: read_slivers.induct) (auto simp: Let_def slice_at_def min_def not_le)

lemma check_missing_no_panic [simp]: "check_missing_slivers d a b \<noteq> Panic"
  by (simp add: check_missing_slivers_def Let_def)

lemma check_missing_Ok: "has_columns d a b \<Longrightarrow> c \<le> b \<Longrightarrow> check_missing_slivers d a c = Ok ()"
  by (auto simp: check_missing_slivers_def has_columns_def Let_def filter_empty_conv)

lemma decoder_columns:
  assumes "slivers_ok d" "has_columns d a b" "a < b"
  obtains cs where "qd_column_size d = Some cs" "0 < cs" "\<And>i. a \<le> i \<Longrightarrow> i < b \<Longrightarrow> length (sliver_bytes d i) = cs"
proof -
  from assms(2,3) obtain s where s: "Mapping.lookup (qd_slivers d) a = Some s" by (auto simp: has_columns_def)
  with assms(1) have cs: "qd_column_size d = Some (length (sym_data (sd_symbols s)))" "0 < length (sym_data (sd_symbols s))"
    by (auto simp: slivers_ok_def)
  moreover have "length (sliver_bytes d i) = length (sym_data (sd_symbols s))" if "a \<le> i" "i < b" for i
  proof -
    from assms(2) that obtain t where "Mapping.lookup (qd_slivers d) i = Some t" by (auto simp: has_columns_def)
    with assms(1) cs show ?thesis by (auto simp: slivers_ok_def sliver_bytes_def)
  qed
  ultimately show thesis by (rule that)
qed

lemma length_concat_upt: "(\<And>i. a \<le> i \<Longrightarrow> i < b \<Longrightarrow> length (f i) = cs) \<Longrightarrow> length (concat (map f [a..<b])) = (b - a) * cs"
  by (subst length_concat_const [where n = cs]) auto

lemma concat_upt_prefix:
  assumes "\<And>i. a \<le> i \<Longrightarrow> i < b \<Longrightarrow> length (f i) = cs" "c \<le> b" "k \<le> (c - a) * cs"
  shows "take k (concat (map f [a..<c])) = take k (concat (map f [a..<b]))"
proof (cases "a \<le> c")
  case True
  then have "[a..<b] = [a..<c] @ [c..<b]" using assms(2) by (metis le_add_diff_inverse upt_add_eq_append)
  moreover have "length (concat (map f [a..<c])) = (c - a) * cs" using assms(1,2) by (intro length_concat_upt) auto
  ultimately show ?thesis using assms(3) by simp
qed (use assms(3) in simp)

lemma decoder_range_read_window:
  assumes ok: "slivers_ok d" "has_columns d a b" "a < b" and fits: "skip + n \<le> length (concat (map (sliver_bytes d) [a..<b]))"
  shows "decoder_range_read d a skip n = Ok (slice_at skip n (concat (map (sliver_bytes d) [a..<b])))"
proof -
  from ok obtain cs where cs: "qd_column_size d = Some cs" "0 < cs" "\<And>i. a \<le> i \<Longrightarrow> i < b \<Longrightarrow> length (sliver_bytes d i) = cs"
    by (rule decoder_columns) blast
  define c where "c = a + div_ceil (skip + n) cs"
  have total: "length (concat (map (sliver_bytes d) [a..<b])) = (b - a) * cs" using cs(3) by (rule length_concat_upt)
  have "div_ceil (skip + n) cs \<le> b - a" using fits total cs(2) by (simp add: div_ceil_le_iff mult.commute)
  then have c: "a \<le> c" "c \<le> b" using ok(3) by (auto simp: c_def)
  have k: "skip + n \<le> (c - a) * cs" using div_ceil_le_iff [OF cs(2), of "skip + n" "c - a"] by (simp add: c_def mult.commute)
  have lookup: "Mapping.lookup (qd_slivers d) (i mod 65536) = Some (the (Mapping.lookup (qd_slivers d) i))"
    and data: "sym_data (sd_symbols (the (Mapping.lookup (qd_slivers d) i))) = sliver_bytes d i" if "a \<le> i" "i < b" for i
    using ok(2) that by (auto simp: has_columns_def sliver_bytes_def split: option.splits)
  have slivers: "try_map (\<lambda>col. expect (Mapping.lookup (qd_slivers d) (col mod 65536))) [a..<c]
      = (Ok (map (\<lambda>i. the (Mapping.lookup (qd_slivers d) i)) [a..<c]) :: (_, quilt_error) result)"
    by (rule try_map_Ok) (use lookup c in auto)
  have "map (\<lambda>s. sym_data (sd_symbols s)) (map (\<lambda>i. the (Mapping.lookup (qd_slivers d) i)) [a..<c]) = map (sliver_bytes d) [a..<c]"
    using data c by auto
  then have "read_slivers (map (\<lambda>i. the (Mapping.lookup (qd_slivers d) i)) [a..<c]) skip n []
      = slice_at skip n (concat (map (sliver_bytes d) [a..<c]))"
    by (simp only: read_slivers_eq append_Nil)
  also have "\<dots> = slice_at skip n (concat (map (sliver_bytes d) [a..<b]))"
    using concat_upt_prefix [of a b "sliver_bytes d" cs c "skip + n", OF cs(3) c(2) k] by (simp add: slice_at_def take_drop add.commute)
  finally have read: "read_slivers (map (\<lambda>i. the (Mapping.lookup (qd_slivers d) i)) [a..<c]) skip n []
      = slice_at skip n (concat (map (sliver_bytes d) [a..<b]))" .
  have "check_missing_slivers d a (a + 1) = Ok ()" "check_missing_slivers d a c = Ok ()"
    using check_missing_Ok [OF ok(2)] ok(3) c by auto
  then show ?thesis
    using cs(1,2) slivers read fits by (simp add: decoder_range_read_def udiv_ceil_def Let_def c_def [symmetric])
qed

interpretation ds: column_source decoder_reader decoder_window slivers_ok
proof (unfold_locales, goal_cases)
  case (1 d a b skip n)
  then have "slivers_ok d" "has_columns d a b" "a < b" by (auto simp: decoder_window_def split: if_splits)
  with decoder_range_read_window [OF this] 1(2) show ?case by (simp add: decoder_reader_def decoder_window_def)
next
  case (2 d a b)
  show ?case
  proof (cases "slivers_ok d \<and> has_columns d a b \<and> a < b")
    case True
    then obtain cs where cs: "qd_column_size d = Some cs" "\<And>i. a \<le> i \<Longrightarrow> i < b \<Longrightarrow> length (sliver_bytes d i) = cs"
      using decoder_columns by metis
    have "{a..<b} \<subseteq> Mapping.keys (qd_slivers d)" using True by (auto simp: has_columns_def keys_is_none_rep)
    then have "b - a \<le> Mapping.size (qd_slivers d)"
      using True card_mono [of "Mapping.keys (qd_slivers d)" "{a..<b}"] by (simp add: Mapping.size_def slivers_ok_def)
    moreover have "length (decoder_window d a b) = (b - a) * cs" using True length_concat_upt [OF cs(2)] by (simp add: decoder_window_def)
    ultimately show ?thesis using cs(1) by (simp add: decoder_reader_def decoder_total_data_size_def)
  qed (auto simp: decoder_window_def)
next
  case (3 d a skip n bs)
  then show ?case by (auto simp: decoder_reader_def decoder_range_read_def Let_def split: if_splits)
next
  case (4 d a skip n)
  show ?case
  proof (cases "check_missing_slivers d a (a + 1) = Ok ()")
    case True
    then obtain s where "Mapping.lookup (qd_slivers d) (a mod 65536) = Some s"
      by (auto simp: check_missing_slivers_def Let_def split: if_splits)
    with 4 obtain cs where cs: "qd_column_size d = Some cs" "0 < cs" by (auto simp: slivers_ok_def)
    have "try_map (\<lambda>col. expect (Mapping.lookup (qd_slivers d) (col mod 65536))) [a..<c] \<noteq> (Panic :: (_, quilt_error) result)"
      if "check_missing_slivers d a c = Ok ()" for c
    proof -
      have "try_map (\<lambda>col. expect (Mapping.lookup (qd_slivers d) (col mod 65536))) [a..<c]
        = (Ok (map (\<lambda>i. the (Mapping.lookup (qd_slivers d) (i mod 65536))) [a..<c]) :: (_, quilt_error) result)"
        by (rule try_map_Ok) (use that in \<open>auto simp: check_missing_slivers_def Let_def filter_empty_conv split: if_splits\<close>)
      then show ?thesis by simp
    qed
    then show ?thesis
      using True cs by (auto simp: decoder_reader_def decoder_range_read_def Let_def udiv_ceil_def split: if_splits)
  qed (auto simp: decoder_reader_def decoder_range_read_def check_missing_slivers_def Let_def split: if_splits)
qed

text \<open>Adding slivers that are not empty keeps the decoder's invariant.\<close>

lemma add_slivers_ok:
  "slivers_ok d \<Longrightarrow> (\<And>s. s \<in> set ss \<Longrightarrow> sym_data (sd_symbols s) \<noteq> []) \<Longrightarrow> slivers_ok (fst (add_slivers d ss))"
proof (induction d ss rule: add_slivers.induct)
  case (2 d s ss)
  show ?case
  proof (cases "validate_and_update_column_size (qd_column_size d) (length (sym_data (sd_symbols s)))")
    case (Ok c)
    let ?d = "d\<lparr>qd_column_size := c, qd_slivers := Mapping.update (sd_index s) s (qd_slivers d)\<rparr>"
    have "slivers_ok ?d"
      using Ok 2(2,3) by (auto simp: slivers_ok_def validate_and_update_column_size_def lookup_update' split: option.splits if_splits)
    then show ?thesis using 2(1) [OF Ok] 2(3) Ok by simp
  qed (use 2(2) in simp_all)
qed simp

lemma decoder_empty_ok: "slivers_ok \<lparr>qd_slivers = Mapping.empty, qd_quilt_index = i, qd_column_size = None\<rparr>"
  by (simp add: slivers_ok_def)

end
