(* ===== verification/QuiltSize.thy ===== *)
theory QuiltSize
  imports Quilt
begin

text \<open>
  The binary search of \<open>quilt_encoding.rs\<close> for the symbol size of a quilt finds the least aligned size with which the index
  fits into its columns and all blobs fit into the matrix.
\<close>

definition columns_needed :: "nat list \<Rightarrow> nat \<Rightarrow> nat" where
  "columns_needed sizes column_size = sum_list (map (\<lambda>s. div_ceil s column_size) sizes)"

definition quilt_sizes :: "nat list \<Rightarrow> nat \<Rightarrow> nat \<Rightarrow> nat \<Rightarrow> nat set" where
  "quilt_sizes sizes n_columns n_rows max_index_columns = {s. QUILT_INDEX_PREFIX_SIZE \<le> n_rows * s
    \<and> hd sizes \<le> n_rows * max_index_columns * s \<and> columns_needed sizes (s * n_rows) \<le> n_columns}"

lemma columns_needed_simps [simp]:
  "columns_needed [] cs = 0" "columns_needed (s # sizes) cs = div_ceil s cs + columns_needed sizes cs"
  by (simp_all add: columns_needed_def)

lemma div_ceil_antimono: "0 < b \<Longrightarrow> b \<le> c \<Longrightarrow> div_ceil a c \<le> div_ceil a b"
proof -
  assume "0 < b" "b \<le> c"
  then have "a \<le> b * div_ceil a b" using div_ceil_le_iff by blast
  also have "\<dots> \<le> c * div_ceil a b" using \<open>b \<le> c\<close> by simp
  finally show ?thesis using \<open>0 < b\<close> \<open>b \<le> c\<close> by (simp add: div_ceil_le_iff)
qed

lemma columns_needed_antimono: "0 < b \<Longrightarrow> b \<le> c \<Longrightarrow> columns_needed sizes c \<le> columns_needed sizes b"
  by (induction sizes) (simp_all add: add_mono div_ceil_antimono)

lemma columns_needed_sum: "0 < cs \<Longrightarrow> sum_list sizes \<le> cs * columns_needed sizes cs"
proof (induction sizes)
  case (Cons s sizes)
  have "s \<le> cs * div_ceil s cs" using Cons.prems div_ceil_le_iff by blast
  with Cons show ?case by (simp add: add_mult_distrib2)
qed simp

lemma columns_needed_le: "(\<And>s. s \<in> set sizes \<Longrightarrow> div_ceil s cs \<le> k) \<Longrightarrow> columns_needed sizes cs \<le> length sizes * k"
proof (induction sizes)
  case (Cons s sizes)
  have "div_ceil s cs \<le> k" "columns_needed sizes cs \<le> length sizes * k" using Cons by simp_all
  then show ?case by simp
qed simp

lemma can_blobs_fit_eq: "0 < cs \<Longrightarrow> can_blobs_fit_into_matrix sizes nc cs = Ok (columns_needed sizes cs \<le> nc)"
  by (simp add: can_blobs_fit_into_matrix_def columns_needed_def udiv_ceil_def try_map_Ok [where g = "\<lambda>s. div_ceil s cs"])

text \<open>The search, on any range whose upper end fits.\<close>

lemma symbol_size_search_least:
  assumes "0 < nr" "0 < lo" "lo \<le> hi" "columns_needed sizes (hi * nr) \<le> nc"
  shows "\<exists>s. symbol_size_search sizes nc nr lo hi = Ok s \<and> lo \<le> s \<and> columns_needed sizes (s * nr) \<le> nc
    \<and> (\<forall>t. lo \<le> t \<longrightarrow> columns_needed sizes (t * nr) \<le> nc \<longrightarrow> s \<le> t)"
  using assms
proof (induction "hi - lo" arbitrary: lo hi rule: less_induct)
  case less
  show ?case
  proof (cases "lo < hi")
    case True
    let ?mid = "(lo + hi) div 2"
    have mid: "lo \<le> ?mid" "?mid < hi" "0 < ?mid * nr" using True less.prems by auto
    show ?thesis
    proof (cases "columns_needed sizes (?mid * nr) \<le> nc")
      case fits: True
      have "symbol_size_search sizes nc nr lo hi = symbol_size_search sizes nc nr lo ?mid"
        using True mid fits by (subst symbol_size_search.simps) (simp add: Let_def can_blobs_fit_eq)
      then show ?thesis using less.hyps [of ?mid lo] mid less.prems fits by simp
    next
      case False
      have "symbol_size_search sizes nc nr lo hi = symbol_size_search sizes nc nr (?mid + 1) hi"
        using True mid False by (subst symbol_size_search.simps) (simp add: Let_def can_blobs_fit_eq)
      moreover have "?mid + 1 \<le> t" if "lo \<le> t" "columns_needed sizes (t * nr) \<le> nc" for t
      proof (rule ccontr)
        assume "\<not> ?mid + 1 \<le> t"
        then have "columns_needed sizes (?mid * nr) \<le> columns_needed sizes (t * nr)"
          using that(1) less.prems by (intro columns_needed_antimono) auto
        with that(2) False show False by simp
      qed
      moreover obtain s where "symbol_size_search sizes nc nr (?mid + 1) hi = Ok s" "?mid + 1 \<le> s" "columns_needed sizes (s * nr) \<le> nc"
          "\<forall>t. ?mid + 1 \<le> t \<longrightarrow> columns_needed sizes (t * nr) \<le> nc \<longrightarrow> s \<le> t"
        using less.hyps [of hi "?mid + 1"] diff_less_mono2 [of lo "?mid + 1" hi] mid True less.prems by auto
      ultimately show ?thesis using mid(1) by (intro exI [of _ s]) simp
    qed
  next
    case False
    then show ?thesis using less.prems by (auto simp: symbol_size_search.simps)
  qed
qed

text \<open>The upper end of the range fits: every blob gets an equal share of the columns.\<close>

lemma equal_share_fits:
  assumes "0 < nr" "sizes \<noteq> []" "length sizes \<le> nc" "0 < t"
    and t: "div_ceil (Max (set sizes)) (nc div length sizes * nr) \<le> t"
  shows "columns_needed sizes (t * nr) \<le> nc"
proof -
  let ?k = "nc div length sizes"
  have "0 < length sizes" using assms(2) by simp
  then have k: "0 < ?k" using assms(3) by (simp add: div_greater_zero_iff)
  have "div_ceil s (t * nr) \<le> ?k" if "s \<in> set sizes" for s
  proof -
    have "s \<le> Max (set sizes)" using that by simp
    also have "\<dots> \<le> ?k * nr * t" using t k assms(1) by (simp add: div_ceil_le_iff)
    finally show ?thesis using assms(1,4) by (simp add: div_ceil_le_iff ac_simps)
  qed
  then have "columns_needed sizes (t * nr) \<le> length sizes * ?k" by (rule columns_needed_le)
  also have "\<dots> \<le> nc" by simp
  finally show ?thesis .
qed

lemma quilt_symbol_size_cases:
  assumes pos: "0 < nr" "0 < m" and sizes: "sizes \<noteq> []" "length sizes \<le> nc"
  obtains s where "s \<in> quilt_sizes sizes nc nr m" "\<And>t. t \<in> quilt_sizes sizes nc nr m \<Longrightarrow> s \<le> t" "0 < s"
    "quilt_compute_symbol_size sizes nc nr m e =
      (let sz = next_multiple_of s (required_alignment e) in if sz > max_symbol_size e then Err QuiltOversize else Ok sz)"
proof -
  have len: "0 < length sizes" using sizes by simp
  then have nc: "0 < nc" "0 < nc div length sizes" using sizes(2) by (linarith, simp add: div_greater_zero_iff)
  define lo where "lo = max (max (div_ceil (sum_list sizes) (nc * nr)) (div_ceil (hd sizes) (nr * m))) (div_ceil QUILT_INDEX_PREFIX_SIZE nr)"
  define hi where "hi = div_ceil (Max (set sizes)) (nc div length sizes * nr)"
  have "0 < div_ceil QUILT_INDEX_PREFIX_SIZE nr" using pos by (intro div_ceil_pos) simp_all
  then have lo: "0 < lo" by (simp add: lo_def)
  have in_range: "t \<in> quilt_sizes sizes nc nr m \<longleftrightarrow> lo \<le> t \<and> columns_needed sizes (t * nr) \<le> nc" for t
  proof -
    have "sum_list sizes \<le> nc * nr * t" if "columns_needed sizes (t * nr) \<le> nc" "0 < t"
    proof -
      have "sum_list sizes \<le> t * nr * columns_needed sizes (t * nr)" using that pos by (intro columns_needed_sum) simp
      also have "\<dots> \<le> t * nr * nc" using that by simp
      finally show ?thesis by (simp add: ac_simps)
    qed
    moreover have "QUILT_INDEX_PREFIX_SIZE \<le> nr * t \<Longrightarrow> 0 < t" by (cases t) auto
    ultimately show ?thesis using pos nc by (auto simp: quilt_sizes_def lo_def div_ceil_le_iff)
  qed
  have "\<exists>s. symbol_size_search sizes nc nr lo hi = Ok s \<and> lo \<le> s \<and> columns_needed sizes (s * nr) \<le> nc
    \<and> (\<forall>t. lo \<le> t \<longrightarrow> columns_needed sizes (t * nr) \<le> nc \<longrightarrow> s \<le> t)"
  proof (cases "lo \<le> hi")
    case True
    then show ?thesis using symbol_size_search_least [OF pos(1) lo True] equal_share_fits [OF pos(1) sizes] lo hi_def by simp
  next
    case False
    then have "columns_needed sizes (lo * nr) \<le> nc" using equal_share_fits [OF pos(1) sizes lo] hi_def by simp
    then show ?thesis using False by (auto simp: symbol_size_search.simps)
  qed
  then obtain s where s: "symbol_size_search sizes nc nr lo hi = Ok s" "lo \<le> s" "columns_needed sizes (s * nr) \<le> nc"
    "\<And>t. lo \<le> t \<Longrightarrow> columns_needed sizes (t * nr) \<le> nc \<Longrightarrow> s \<le> t" by blast
  show thesis
  proof (rule that [of s])
    show "quilt_compute_symbol_size sizes nc nr m e =
      (let sz = next_multiple_of s (required_alignment e) in if sz > max_symbol_size e then Err QuiltOversize else Ok sz)"
      using sizes pos nc s(1) by (simp add: quilt_compute_symbol_size_def udiv_ceil_def Let_def lo_def hi_def not_less)
  qed (use s in_range lo in auto)
qed

lemma quilt_sizes_upward: "s \<in> quilt_sizes sizes nc nr m \<Longrightarrow> 0 < nr \<Longrightarrow> 0 < s \<Longrightarrow> s \<le> t \<Longrightarrow> t \<in> quilt_sizes sizes nc nr m"
  using columns_needed_antimono [of "s * nr" "t * nr" sizes]
  by (auto simp: quilt_sizes_def intro: le_trans [OF _ mult_le_mono2])

text \<open>C34: The symbol size of a quilt is the least multiple of the alignment with which the index fits into its columns and
  every blob into columns of its own; there is an error exactly if that size exceeds the largest symbol size.\<close>

theorem quilt_symbol_size_minimal:
  assumes "0 < n_rows" "0 < max_index_columns" "sizes \<noteq> []" "length sizes \<le> n_columns"
  shows "\<exists>s. s \<in> quilt_sizes sizes n_columns n_rows max_index_columns \<and> required_alignment e dvd s
    \<and> (\<forall>t. t \<in> quilt_sizes sizes n_columns n_rows max_index_columns \<longrightarrow> required_alignment e dvd t \<longrightarrow> s \<le> t)
    \<and> quilt_compute_symbol_size sizes n_columns n_rows max_index_columns e
      = (if s \<le> max_symbol_size e then Ok s else Err QuiltOversize)"
proof -
  from assms obtain s where s: "s \<in> quilt_sizes sizes n_columns n_rows max_index_columns"
    "\<And>t. t \<in> quilt_sizes sizes n_columns n_rows max_index_columns \<Longrightarrow> s \<le> t" "0 < s"
    "quilt_compute_symbol_size sizes n_columns n_rows max_index_columns e =
      (let sz = next_multiple_of s (required_alignment e) in if sz > max_symbol_size e then Err QuiltOversize else Ok sz)"
    using quilt_symbol_size_cases [OF assms, where e = e] by blast
  have a: "0 < required_alignment e" by (cases e) simp
  have "next_multiple_of s (required_alignment e) \<in> quilt_sizes sizes n_columns n_rows max_index_columns"
    using quilt_sizes_upward [OF s(1) assms(1) s(3) next_multiple_of_ge] .
  then show ?thesis
    using a s next_multiple_of_least by (intro exI [of _ "next_multiple_of s (required_alignment e)"]) (auto simp: Let_def)
qed

theorem quilt_symbol_size_minimal_witness:
  "\<exists>s. s \<in> quilt_sizes [1000, 1, 1] 4 7 2 \<and> quilt_compute_symbol_size [1000, 1, 1] 4 7 2 RS2 = Ok s \<and> s \<le> 72"
proof -
  have "72 \<in> quilt_sizes [1000, 1, 1] 4 7 2" by (simp add: quilt_sizes_def div_ceil_def)
  then show ?thesis using quilt_symbol_size_minimal [of 7 2 "[1000, 1, 1]" 4 RS2] by fastforce
qed

end
