(* ===== verification/QuiltEncoding.thy ===== *)
theory QuiltEncoding
  imports QuiltReading QuiltSize
begin

text \<open>
  What \<open>construct_quilt\<close> of \<open>quilt_encoding.rs\<close> writes: the index at the start of the first columns and every blob, with its header, at
  the start of columns of its own. The predicate \<open>quilt_holds\<close> states this of a quilt; the encoder establishes it, and panics only
  if a blob is empty or the index is larger than \<open>u32::MAX\<close>.
\<close>

subsection \<open>Serialised blobs\<close>

lemma serialized_blob_size_eq:
  assumes "serialized_blob_size B blob = Ok n" "get_header_and_extension_bytes B blob = Ok pre"
  shows "n = length pre + length (qb_blob blob)" "pre \<noteq> []"
proof -
  obtain ib tp where p: "string_to_bytes B (qb_identifier blob) = Some ib"
      "(qb_tags blob = [] \<and> tp = []) \<or>
        (qb_tags blob \<noteq> [] \<and> (\<exists>tb. tags_to_bytes B (qb_tags blob) = Some tb \<and> length tb \<le> U16_MAX \<and> tp = to_le_bytes 2 (length tb) @ tb))"
      "pre = header_as_bytes \<lparr>bh_length = 2 + length ib + length tp + length (qb_blob blob), bh_mask = (if qb_tags blob = [] then 0 else 1)\<rparr>
        @ to_le_bytes 2 (length ib) @ ib @ tp"
    using assms(2) by (rule header_and_extension_bytes)
  have "length pre = 8 + length ib + length tp" using p(3) by (simp add: header_as_bytes_def)
  then show "n = length pre + length (qb_blob blob)" "pre \<noteq> []"
    using p(1,2) assms(1) by (auto simp: serialized_blob_size_def Let_def split: if_splits)
qed

lemma no_panic_serialized [simp]:
  "validate_quilt_identifier i \<noteq> Panic" "serialized_blob_size B blob \<noteq> Panic" "get_header_and_extension_bytes B blob \<noteq> Panic"
  "patch_new_with_tags i t \<noteq> Panic"
  by (auto simp: validate_quilt_identifier_def serialized_blob_size_def get_header_and_extension_bytes_def patch_new_with_tags_def
      Let_def split: if_splits)

lemma try_map_no_panic: "(\<And>x. x \<in> set xs \<Longrightarrow> f x \<noteq> Panic) \<Longrightarrow> try_map f xs \<noteq> Panic"
  by (induction xs) auto

subsection \<open>Adding one blob\<close>

lemma add_blob_to_quilt_outcome:
  assumes l: "layout nr (nc * sz) sz (length data)" and cs: "cs = nr * sz" and c: "c < nc"
    and fits: "c * cs + length pre + length (qb_blob blob) \<le> length data"
    and pre: "if meta then pre = [] else get_header_and_extension_bytes B blob = Ok pre"
  shows "outcome (\<lambda>(data', n). n = div_ceil (length pre + length (qb_blob blob)) cs \<and> length data' = length data
      \<and> columns nr (nc * sz) sz data' = overwrite (c * cs) (pre @ qb_blob blob) (columns nr (nc * sz) sz data))
    (\<lambda>_. False) (\<not> c + length pre div cs < nc) (add_blob_to_quilt B data blob meta c cs (nc * sz) sz)"
proof -
  have pos: "0 < sz" "0 < cs" "cs mod sz = 0" using l cs by (simp_all add: layout_def)
  obtain data1 where d1: "(if \<not> meta then and_then (get_header_and_extension_bytes B blob) (\<lambda>prefix_bytes.
        and_then (write_bytes_to_columns data prefix_bytes c (nc * sz) cs sz 0) (\<lambda>data. Ok (data, length prefix_bytes)))
      else Ok (data, 0)) = Ok (data1, length pre)" "length data1 = length data"
      "columns nr (nc * sz) sz data1 = overwrite (c * cs) pre (columns nr (nc * sz) sz data)"
  proof (cases meta)
    case True
    then show thesis using pre that [of data] by simp
  next
    case False
    have "c * cs + 0 + length pre \<le> length data" using fits by simp
    from write_bytes_to_columns_eq(2) [OF l cs this] obtain data1 where
      "write_bytes_to_columns data pre c (nc * sz) cs sz 0 = Ok data1" "length data1 = length data"
      "columns nr (nc * sz) sz data1 = overwrite (c * cs) pre (columns nr (nc * sz) sz data)"
      using c by auto
    then show thesis using pre False that [of data1] by simp
  qed
  have step: "add_blob_to_quilt B data blob meta c cs (nc * sz) sz =
    and_then (write_bytes_to_columns data1 (qb_blob blob) c (nc * sz) cs sz (length pre)) (\<lambda>data.
      Ok (data, div_ceil (length pre + length (qb_blob blob)) cs))"
    unfolding add_blob_to_quilt_def d1(1) using pos by (simp add: umod_def udiv_ceil_def)
  show ?thesis
  proof (cases "c + length pre div cs < nc")
    case True
    have "layout nr (nc * sz) sz (length data1)" "c * cs + length pre + length (qb_blob blob) \<le> length data1"
      using l fits d1(2) by simp_all
    from write_bytes_to_columns_eq(2) [OF this(1) cs this(2) True] obtain data2 where
      d2: "write_bytes_to_columns data1 (qb_blob blob) c (nc * sz) cs sz (length pre) = Ok data2" "length data2 = length data1"
      "columns nr (nc * sz) sz data2 = overwrite (c * cs + length pre) (qb_blob blob) (columns nr (nc * sz) sz data1)"
      by blast
    moreover have "overwrite (c * cs + length pre) (qb_blob blob) (overwrite (c * cs) pre (columns nr (nc * sz) sz data))
        = overwrite (c * cs) (pre @ qb_blob blob) (columns nr (nc * sz) sz data)"
      by (rule overwrite_overwrite) (use fits in simp)
    ultimately show ?thesis using d1 by (simp add: step)
  next
    case False
    have "layout nr (nc * sz) sz (length data1)" "c * cs + length pre + length (qb_blob blob) \<le> length data1"
      using l fits d1(2) by simp_all
    from write_bytes_to_columns_eq(1) [OF this(1) cs this(2) False] show ?thesis using False by (simp add: step)
  qed
qed

lemma add_blob_header_error:
  assumes "0 < sz" "cs mod sz = 0" "get_header_and_extension_bytes B blob = Err e"
  shows "add_blob_to_quilt B data blob False c cs rs sz = Err e"
  using assms by (simp add: add_blob_to_quilt_def umod_def)

subsection \<open>The quilt holds the blobs\<close>

definition holds_blob :: "bcs \<Rightarrow> quilt \<Rightarrow> quilt_patch \<Rightarrow> quilt_store_blob \<Rightarrow> bool" where
  "holds_blob B q p blob \<longleftrightarrow> qp_identifier p = qb_identifier blob \<and> qp_tags p = qb_tags blob \<and> qp_start_index p < qp_end_index p
    \<and> (\<exists>pre zs. get_header_and_extension_bytes B blob = Ok pre
        \<and> quilt_window q (qp_start_index p) (qp_end_index p) = pre @ qb_blob blob @ zs)"

definition quilt_holds :: "bcs \<Rightarrow> rs_config \<Rightarrow> quilt \<Rightarrow> quilt_store_blob list \<Rightarrow> bool" where
  "quilt_holds B cfg q bs \<longleftrightarrow> quilt_ok q \<and> q_n_rows q = n_source_symbols Primary cfg
    \<and> q_row_size q = n_source_symbols Secondary cfg * q_symbol_size q
    \<and> required_alignment rs_encoding_type dvd q_symbol_size q \<and> q_symbol_size q \<le> max_symbol_size rs_encoding_type
    \<and> (\<exists>idx ib zs k. q_quilt_index q = Some idx \<and> list_all2 (holds_blob B q) (quilt_patches idx) bs
      \<and> index_serialize B idx = Some ib \<and> length ib \<le> U32_MAX
      \<and> k = div_ceil (5 + length ib) (q_column_size q) \<and> k \<le> MAX_NUM_SLIVERS_FOR_QUILT_INDEX \<and> contiguous k (quilt_patches idx)
      \<and> (\<forall>p\<in>set (quilt_patches idx). qp_end_index p \<le> n_source_symbols Secondary cfg)
      \<and> quilt_window q 0 k = [QUILT_VERSION_BYTE] @ to_le_bytes 4 (length ib) @ ib @ zs)"

subsection \<open>The loop over the blobs\<close>

lemma columns_needed_append [simp]: "columns_needed (xs @ ys) cs = columns_needed xs cs + columns_needed ys cs"
  by (simp add: columns_needed_def)

definition start_col :: "nat \<Rightarrow> nat \<Rightarrow> nat list \<Rightarrow> nat \<Rightarrow> nat" where
  "start_col c0 cs sizes i = c0 + columns_needed (take i sizes) cs"

lemma start_col_simps [simp]:
  "start_col c0 cs sizes 0 = c0"
  "i < length sizes \<Longrightarrow> start_col c0 cs sizes (Suc i) = start_col c0 cs sizes i + div_ceil (sizes ! i) cs"
  by (simp_all add: start_col_def take_Suc_conv_app_nth)

lemma start_col_mono: "i \<le> j \<Longrightarrow> start_col c0 cs sizes i \<le> start_col c0 cs sizes j"
proof -
  assume "i \<le> j"
  then have "take j sizes = take i sizes @ drop i (take j sizes)" by (metis append_take_drop_id min_absorb1 take_take)
  then show ?thesis unfolding start_col_def by (metis columns_needed_append le_add1 add_le_cancel_left)
qed

lemma start_col_le: "start_col c0 cs sizes i \<le> c0 + columns_needed sizes cs"
  using start_col_mono [of i "max i (length sizes)" c0 cs sizes] by (simp add: start_col_def)

text \<open>The bytes of a blob end before the columns of the next one begin.\<close>

lemma start_col_room:
  assumes "0 < cs" "i < length sizes"
  shows "start_col c0 cs sizes i * cs + sizes ! i \<le> start_col c0 cs sizes (Suc i) * cs"
  using assms div_ceil_le_iff [of cs "sizes ! i" "div_ceil (sizes ! i) cs"] by (simp add: mult.commute [of _ cs] add_mult_distrib2)

definition blob_at :: "bcs \<Rightarrow> bytes \<Rightarrow> nat \<Rightarrow> quilt_store_blob \<Rightarrow> nat \<Rightarrow> bool" where
  "blob_at B cols p blob n \<longleftrightarrow> (\<exists>pre. get_header_and_extension_bytes B blob = Ok pre \<and> n = length pre + length (qb_blob blob)
    \<and> slice_at p n cols = pre @ qb_blob blob)"

definition written ::
  "bcs \<Rightarrow> nat \<Rightarrow> nat \<Rightarrow> nat \<Rightarrow> nat \<Rightarrow> quilt_store_blob list \<Rightarrow> nat list \<Rightarrow> nat \<Rightarrow> bytes \<times> quilt_patch list \<times> nat \<Rightarrow> bool" where
  "written B nr nc sz c0 bs sizes k = (\<lambda>(data, ps, col).
    length data = nc * sz * nr \<and> col = start_col c0 (nr * sz) sizes k
    \<and> map (\<lambda>p. (qp_identifier p, qp_tags p)) ps = map (\<lambda>b. (qb_identifier b, qb_tags b)) bs
    \<and> (\<forall>i<k. qp_start_index (ps ! i) = start_col c0 (nr * sz) sizes i \<and> qp_end_index (ps ! i) = start_col c0 (nr * sz) sizes (Suc i)
        \<and> blob_at B (columns nr (nc * sz) sz data) (start_col c0 (nr * sz) sizes i * (nr * sz)) (bs ! i) (sizes ! i)))"

lemma blob_at_other:
  assumes "blob_at B cols p blob n" "p + n \<le> length cols" "q + length ys \<le> length cols" "p + n \<le> q \<or> q + length ys \<le> p"
  shows "blob_at B (overwrite q ys cols) p blob n"
  using assms slice_overwrite_other [of q ys cols p n] by (auto simp: blob_at_def)

lemma div_ceil_gt: "0 < c \<Longrightarrow> 0 < b \<Longrightarrow> a div c < div_ceil (a + b) c"
proof -
  assume "0 < c" "0 < b"
  then have "a + b \<le> c * div_ceil (a + b) c" using div_ceil_le_iff by blast
  then have "a < div_ceil (a + b) c * c" using \<open>0 < b\<close> by (simp add: mult.commute)
  then show ?thesis using \<open>0 < c\<close> by (simp add: div_less_iff_less_mult)
qed

lemma add_user_blob_written:
  assumes pos: "0 < nr" "0 < sz" and nc: "nc \<le> U16_MAX"
    and sizes: "length sizes = length bs" "\<And>i. i < length bs \<Longrightarrow> serialized_blob_size B (bs ! i) = Ok (sizes ! i)"
    and fits: "c0 + columns_needed sizes (nr * sz) \<le> nc" and k: "k < length bs"
    and inv: "written B nr nc sz c0 bs sizes k s"
  shows "outcome (written B nr nc sz c0 bs sizes (Suc k)) (\<lambda>e. get_header_and_extension_bytes B (bs ! k) = Err e) (qb_blob (bs ! k) = [])
    (add_user_blob B (nr * sz) (nc * sz) sz s (k, bs ! k))"
proof -
  let ?cs = "nr * sz" let ?st = "start_col c0 (nr * sz) sizes"
  obtain data ps col where s: "s = (data, ps, col)" by (cases s) blast
  have I: "length data = nc * sz * nr" "col = ?st k" "map (\<lambda>p. (qp_identifier p, qp_tags p)) ps = map (\<lambda>b. (qb_identifier b, qb_tags b)) bs"
    and parts: "\<And>i. i < k \<Longrightarrow> qp_start_index (ps ! i) = ?st i \<and> qp_end_index (ps ! i) = ?st (Suc i)
      \<and> blob_at B (columns nr (nc * sz) sz data) (?st i * ?cs) (bs ! i) (sizes ! i)"
    using inv by (simp_all add: s written_def)
  have len: "length ps = length bs" using arg_cong [OF I(3), of length] by simp
  have cs: "0 < ?cs" "?cs mod sz = 0" using pos by simp_all
  have st: "?st (Suc i) \<le> nc" for i using start_col_le [of c0 ?cs sizes "Suc i"] fits by simp
  have l: "layout nr (nc * sz) sz (length data)" using pos I(1) by (simp add: layout_def)
  have data_len: "length data = nc * ?cs" using I(1) by (simp add: ac_simps)
  have room: "?st i * ?cs + sizes ! i \<le> ?st (Suc i) * ?cs" "?st (Suc i) * ?cs \<le> length data" if "i < length bs" for i
    using start_col_room [OF cs(1), of i sizes c0] that sizes(1) mult_le_mono1 [OF st, of i ?cs] data_len by simp_all
  show ?thesis
  proof (cases "get_header_and_extension_bytes B (bs ! k)")
    case (Err e)
    then show ?thesis using add_blob_header_error [OF pos(2) cs(2) Err] by (simp add: s add_user_blob_def)
  next
    case (Ok pre)
    have size: "sizes ! k = length pre + length (qb_blob (bs ! k))" "pre \<noteq> []"
      using serialized_blob_size_eq [OF sizes(2) [OF k] Ok] by simp_all
    then have "0 < div_ceil (sizes ! k) ?cs" using cs by (intro div_ceil_pos) simp_all
    then have c: "?st k < nc" using st [of k] k sizes(1) by simp
    have f: "?st k * ?cs + length pre + length (qb_blob (bs ! k)) \<le> length data" using room [OF k] size by simp
    have add: "outcome (\<lambda>(data', n). n = div_ceil (length pre + length (qb_blob (bs ! k))) ?cs \<and> length data' = length data
        \<and> columns nr (nc * sz) sz data' = overwrite (?st k * ?cs) (pre @ qb_blob (bs ! k)) (columns nr (nc * sz) sz data))
      (\<lambda>_. False) (\<not> ?st k + length pre div ?cs < nc) (add_blob_to_quilt B data (bs ! k) False (?st k) ?cs (nc * sz) sz)"
      by (rule add_blob_to_quilt_outcome [OF l refl c f]) (simp add: Ok)
    show ?thesis
    proof (cases "add_blob_to_quilt B data (bs ! k) False (?st k) ?cs (nc * sz) sz")
      case (Ok r)
      obtain data' n where r: "r = (data', n)" by (cases r)
      with add Ok size have new: "?st (Suc k) = ?st k + n" "length data' = length data"
        "columns nr (nc * sz) sz data' = overwrite (?st k * ?cs) (pre @ qb_blob (bs ! k)) (columns nr (nc * sz) sz data)"
        using k sizes(1) by simp_all
      let ?ps = "ps[k := patch_set_range (?st k) (?st (Suc k)) (ps ! k)]"
      have "add_user_blob B ?cs (nc * sz) sz s (k, bs ! k) = Ok (data', ?ps, ?st (Suc k))"
        using Ok r new(1) c st [of k] nc len k I(2) by (simp add: s add_user_blob_def)
      moreover have "map (\<lambda>p. (qp_identifier p, qp_tags p)) ?ps = map (\<lambda>b. (qb_identifier b, qb_tags b)) bs"
        using I(3) k len by (auto simp: list_eq_iff_nth_eq nth_list_update patch_set_range_def)
      moreover have "blob_at B (columns nr (nc * sz) sz data') (?st i * ?cs) (bs ! i) (sizes ! i)" if "i < k" for i
        unfolding new(3)
      proof (rule blob_at_other)
        have "?st (Suc i) * ?cs \<le> ?st k * ?cs" using start_col_mono [of "Suc i" k c0 ?cs sizes] that by (simp add: mult_le_mono1)
        then show "?st i * ?cs + sizes ! i \<le> ?st k * ?cs \<or> ?st k * ?cs + length (pre @ qb_blob (bs ! k)) \<le> ?st i * ?cs"
          using room(1) [of i] that k by linarith
        show "?st i * ?cs + sizes ! i \<le> length (columns nr (nc * sz) sz data)" using room [of i] that k by simp
      qed (use parts [OF that] f in simp_all)
      moreover have "blob_at B (columns nr (nc * sz) sz data') (?st k * ?cs) (bs ! k) (sizes ! k)"
        unfolding new(3) blob_at_def size(1) length_append [symmetric]
        using \<open>get_header_and_extension_bytes B (bs ! k) = Ok pre\<close> f
          slice_overwrite_same [of "?st k * ?cs" "pre @ qb_blob (bs ! k)" "columns nr (nc * sz) sz data"]
        by (intro exI [of _ pre]) simp
      ultimately show ?thesis
        using new(2) I(1) parts len k
        by (auto simp: written_def less_Suc_eq nth_list_update patch_set_range_def)
    next
      case Panic
      have "qb_blob (bs ! k) = []"
      proof (rule ccontr)
        assume "qb_blob (bs ! k) \<noteq> []"
        then have "length pre div ?cs < div_ceil (sizes ! k) ?cs" using div_ceil_gt [OF cs(1)] size(1) by simp
        then have "?st k + length pre div ?cs < nc" using st [of k] k sizes(1) by simp
        with add Panic show False by simp
      qed
      then show ?thesis by (auto simp: outcome_def s add_user_blob_def I(2) Panic)
    qed (use add in \<open>simp add: s add_user_blob_def I(2)\<close>)
  qed simp
qed

subsection \<open>The whole quilt\<close>

lemma contiguous_nth:
  "(\<And>i. i < length ps \<Longrightarrow> qp_start_index (ps ! i) = st i \<and> qp_end_index (ps ! i) = st (Suc i)) \<Longrightarrow> contiguous (st 0) ps"
proof (induction ps arbitrary: st)
  case (Cons p ps)
  have "contiguous (st (Suc 0)) ps" by (rule Cons.IH [of "\<lambda>i. st (Suc i)"]) (use Cons.prems in force)
  then show ?case using Cons.prems [of 0] by simp
qed simp

lemma slice_at_extend: "n \<le> m \<Longrightarrow> slice_at p m xs = slice_at p n xs @ slice_at (p + n) (m - n) xs"
  using slice_at_append [of p n xs "m - n"] by simp

lemma quilt_window_blob:
  assumes "quilt_ok q" "blob_at B (q_columns q) (a * q_column_size q) blob n" "a * q_column_size q + n \<le> b * q_column_size q"
  shows "\<exists>pre zs. get_header_and_extension_bytes B blob = Ok pre \<and> quilt_window q a b = pre @ qb_blob blob @ zs"
proof -
  from assms(2) obtain pre where pre: "get_header_and_extension_bytes B blob = Ok pre"
      "slice_at (a * q_column_size q) n (q_columns q) = pre @ qb_blob blob"
    by (auto simp: blob_at_def)
  have "n \<le> (b - a) * q_column_size q" using assms(3) by (simp add: diff_mult_distrib)
  from slice_at_extend [OF this, of "a * q_column_size q" "q_columns q"] pre show ?thesis
    using assms(1) by (simp add: quilt_window_def)
qed

definition empty_patch :: "quilt_store_blob \<Rightarrow> quilt_patch" where
  "empty_patch b = \<lparr>qp_start_index = 0, qp_end_index = 0, qp_identifier = qb_identifier b, qp_tags = qb_tags b\<rparr>"

lemma patches_new:
  assumes "try_map (\<lambda>b. patch_new_with_tags (qb_identifier b) (qb_tags b)) bs = Ok ps" "\<forall>b\<in>set bs. tags_ok (qb_tags b)"
  shows "ps = map empty_patch bs" "\<forall>b\<in>set bs. store_blob_ok b"
proof -
  have "list_all2 (\<lambda>b p. patch_new_with_tags (qb_identifier b) (qb_tags b) = Ok p) bs ps"
    using assms(1) by (simp add: try_map_eq_Ok_iff)
  then show "ps = map empty_patch bs" "\<forall>b\<in>set bs. store_blob_ok b"
    using assms(2) by (induction bs ps rule: list_all2_induct)
      (auto simp: patch_new_with_tags_def empty_patch_def btree_collect_sorted store_blob_ok_def)
qed

text \<open>Writing the index in front of the blobs completes the quilt.\<close>

lemma quilt_complete:
  assumes pos: "0 < nr" "0 < sz" "0 < nc"
    and cfg: "nr = n_source_symbols Primary cfg" "nc = n_source_symbols Secondary cfg"
    and sz: "required_alignment rs_encoding_type dvd sz" "sz \<le> max_symbol_size rs_encoding_type"
    and sizes: "length sizes = length bs" "\<And>i. i < length bs \<Longrightarrow> serialized_blob_size B (bs ! i) = Ok (sizes ! i)"
    and fits: "c0 + columns_needed sizes (nr * sz) \<le> nc" and inv: "written B nr nc sz c0 bs sizes (length bs) (data, ps, col)"
    and idx: "index_serialize B \<lparr>quilt_patches = ps\<rparr> = Some ib" "length ib \<le> U32_MAX"
    and c0: "c0 = div_ceil (5 + length ib) (nr * sz)" "c0 \<le> 10"
    and data': "length data' = length data" "columns nr (nc * sz) sz data'
      = overwrite 0 ([QUILT_VERSION_BYTE] @ to_le_bytes 4 (length ib) @ ib) (columns nr (nc * sz) sz data)"
    and q: "q = \<lparr>q_data = data', q_row_size = nc * sz, q_symbol_size = sz, q_quilt_index = Some \<lparr>quilt_patches = ps\<rparr>\<rparr>"
  shows "quilt_holds B cfg q bs"
proof -
  let ?cs = "nr * sz" and ?meta = "[QUILT_VERSION_BYTE] @ to_le_bytes 4 (length ib) @ ib"
  let ?st = "start_col c0 (nr * sz) sizes"
  have I: "length data = nc * sz * nr" "map (\<lambda>p. (qp_identifier p, qp_tags p)) ps = map (\<lambda>b. (qb_identifier b, qb_tags b)) bs"
    and parts: "\<And>i. i < length bs \<Longrightarrow> qp_start_index (ps ! i) = ?st i \<and> qp_end_index (ps ! i) = ?st (Suc i)
      \<and> blob_at B (columns nr (nc * sz) sz data) (?st i * ?cs) (bs ! i) (sizes ! i)"
    using inv by (simp_all add: written_def)
  have len: "length ps = length bs" using arg_cong [OF I(2), of length] by simp
  have cs: "0 < ?cs" using pos by simp
  have st: "?st (Suc i) \<le> nc" for i using start_col_le [of c0 ?cs sizes "Suc i"] fits by simp
  have data_len: "length data' = nc * ?cs" using I(1) data'(1) by (simp add: ac_simps)
  have room: "?st i * ?cs + sizes ! i \<le> ?st (Suc i) * ?cs" "?st (Suc i) * ?cs \<le> length data'" if "i < length bs" for i
    using start_col_room [OF cs(1), of i sizes c0] that sizes(1) mult_le_mono1 [OF st, of i ?cs] data_len by simp_all
  have nr: "q_n_rows q = nr" using I(1) data'(1) pos by (simp add: q q_n_rows_def)
  have qcs: "q_column_size q = ?cs" by (simp add: q_column_size_def nr) (simp add: q)
  have ok: "quilt_ok q" using pos I(1) data'(1) nr by (simp add: quilt_ok_def layout_def) (simp add: q)
  have cols: "q_columns q = columns nr (nc * sz) sz data'" using nr by (simp add: q_columns_def) (simp add: q)
  have meta: "length ?meta \<le> c0 * ?cs"
    using div_ceil_le_iff [OF cs, of "5 + length ib" c0] c0(1) by (simp add: mult.commute)
  have c0_nc: "c0 * ?cs \<le> length data'" using fits data_len by (simp add: mult_le_mono1)
  have blobs: "holds_blob B q (ps ! i) (bs ! i)" if i: "i < length bs" for i
  proof -
    have "blob_at B (q_columns q) (?st i * ?cs) (bs ! i) (sizes ! i)" unfolding cols data'(2)
    proof (rule blob_at_other)
      have "c0 * ?cs \<le> ?st i * ?cs" using start_col_mono [of 0 i c0 ?cs sizes] by simp
      then show "?st i * ?cs + sizes ! i \<le> 0 \<or> 0 + length ?meta \<le> ?st i * ?cs" using meta by linarith
    qed (use parts [OF i] room [OF i] meta c0_nc data'(1) in simp_all)
    then have "\<exists>pre zs. get_header_and_extension_bytes B (bs ! i) = Ok pre \<and> quilt_window q (?st i) (?st (Suc i)) = pre @ qb_blob (bs ! i) @ zs"
      using quilt_window_blob [OF ok] room(1) [OF i] by (simp add: qcs)
    moreover have "?st i < ?st (Suc i)"
    proof -
      have "0 < sizes ! i" using parts [OF i] serialized_blob_size_eq [OF sizes(2) [OF i]] by (auto simp: blob_at_def)
      then show ?thesis using div_ceil_pos [OF _ cs] i sizes(1) by simp
    qed
    moreover have "qp_identifier (ps ! i) = qb_identifier (bs ! i)" "qp_tags (ps ! i) = qb_tags (bs ! i)"
      using arg_cong [OF I(2), of "\<lambda>xs. xs ! i"] i len by simp_all
    ultimately show ?thesis using parts [OF i] by (simp add: holds_blob_def)
  qed
  have "quilt_window q 0 c0 = slice_at 0 (length ?meta) (q_columns q) @ slice_at (length ?meta) (c0 * ?cs - length ?meta) (q_columns q)"
    using slice_at_extend [OF meta, of 0 "q_columns q"] ok by (simp add: quilt_window_def qcs)
  moreover have "slice_at 0 (length ?meta) (q_columns q) = ?meta"
    unfolding cols data'(2) using slice_overwrite_same [of 0 ?meta "columns nr (nc * sz) sz data"] meta c0_nc data'(1) by simp
  ultimately have window: "quilt_window q 0 c0 = [QUILT_VERSION_BYTE] @ to_le_bytes 4 (length ib) @ ib
      @ slice_at (length ?meta) (c0 * ?cs - length ?meta) (q_columns q)" by simp
  have "contiguous c0 ps" using contiguous_nth [of ps ?st] parts len by simp
  moreover have "list_all2 (holds_blob B q) ps bs" using blobs len by (simp add: list_all2_conv_all_nth)
  moreover have "\<forall>p\<in>set ps. qp_end_index p \<le> nc" using parts len st by (auto simp: in_set_conv_nth)
  ultimately show ?thesis
    using ok nr idx c0 window sz cfg
    unfolding quilt_holds_def qcs by (simp add: q)
qed

definition index_oversize :: "bcs \<Rightarrow> quilt_store_blob list \<Rightarrow> bool" where
  "index_oversize B bs \<longleftrightarrow>
    (case index_serialize B \<lparr>quilt_patches = map empty_patch bs\<rparr> of Some ib \<Rightarrow> U32_MAX < length ib | None \<Rightarrow> False)"

lemma quilt_index_identifier_ok: "validate_quilt_identifier (str_of ''quilt_index'') = Ok ()"
  by (simp add: validate_quilt_identifier_def str_of_def str_len_def char_len_utf8_def trim_end_def is_whitespace_def is_control_def)

lemma fields_ok_ranges:
  assumes "map (\<lambda>p. (qp_identifier p, qp_tags p)) ps = map (\<lambda>b. (qb_identifier b, qb_tags b)) bs" "\<forall>b\<in>set bs. tags_ok (qb_tags b)"
    and "\<forall>p\<in>set ps. qp_end_index p \<le> U16_MAX"
  shows "list_all fields_ok (map patch_fields ps)" "map snd (map patch_fields ps) = map snd (map patch_fields (map empty_patch bs))"
proof -
  have "tags_ok (qp_tags p)" if "p \<in> set ps" for p
  proof -
    have "(qp_identifier p, qp_tags p) \<in> set (map (\<lambda>b. (qb_identifier b, qb_tags b)) bs)" using that assms(1) by (metis (no_types, lifting) image_eqI list.set_map)
    then show ?thesis using assms(2) by auto
  qed
  then show "list_all fields_ok (map patch_fields ps)" using assms(3) by (auto simp: list_all_iff fields_ok_def patch_fields_def)
  show "map snd (map patch_fields ps) = map snd (map patch_fields (map empty_patch bs))"
    using assms(1) by (simp add: patch_fields_def empty_patch_def comp_def)
qed

text \<open>The index has the same size before and after the ranges are set.\<close>

lemma index_serialize_same_size:
  assumes "bcs_ok B" "map (\<lambda>p. (qp_identifier p, qp_tags p)) ps = map (\<lambda>b. (qb_identifier b, qb_tags b)) bs"
    "\<forall>b\<in>set bs. tags_ok (qb_tags b)" "\<forall>p\<in>set ps. qp_end_index p \<le> U16_MAX"
    "index_serialize B \<lparr>quilt_patches = map empty_patch bs\<rparr> = Some ib0"
  obtains ib where "index_serialize B \<lparr>quilt_patches = ps\<rparr> = Some ib" "length ib = length ib0"
proof -
  have "map (\<lambda>p. (qp_identifier p, qp_tags p)) (map empty_patch bs) = map (\<lambda>b. (qb_identifier b, qb_tags b)) bs"
    by (simp add: empty_patch_def)
  from fields_ok_ranges(1) [OF this assms(3)] have "list_all fields_ok (map patch_fields (map empty_patch bs))"
    by (simp add: empty_patch_def)
  from bcs_okD(4) [OF assms(1) fields_ok_ranges(1) [OF assms(2-4)] this fields_ok_ranges(2) [OF assms(2-4)]] assms(5)
  show thesis using that by (auto simp: index_serialize_def)
qed

lemma finish_quilt:
  assumes B: "bcs_ok B" and pos: "0 < nr" "0 < sz" "0 < nc" "nc \<le> U16_MAX"
    and cfg: "nr = n_source_symbols Primary cfg" "nc = n_source_symbols Secondary cfg"
    and sz: "required_alignment rs_encoding_type dvd sz" "sz \<le> max_symbol_size rs_encoding_type"
    and sizes: "length sizes = length bs" "\<And>i. i < length bs \<Longrightarrow> serialized_blob_size B (bs ! i) = Ok (sizes ! i)"
    and tags: "\<forall>b\<in>set bs. tags_ok (qb_tags b)"
    and fits: "c0 + columns_needed sizes (nr * sz) \<le> nc" and inv: "written B nr nc sz c0 bs sizes (length bs) (data, ps, col)"
    and idx: "index_serialize B \<lparr>quilt_patches = map empty_patch bs\<rparr> = Some ib0" "length ib0 \<le> U32_MAX"
    and c0: "c0 = div_ceil (5 + length ib0) (nr * sz)" "c0 \<le> 10"
  shows "outcome (\<lambda>q. quilt_holds B cfg q bs) E Q
    (and_then (expect (index_serialize B \<lparr>quilt_patches = ps\<rparr>)) (\<lambda>index_bytes.
     and_then (rust_assert (length ([QUILT_VERSION_BYTE] @ to_le_bytes 4 (length ib0) @ index_bytes) = 5 + length ib0)) (\<lambda>_.
     and_then (store_blob_new ([QUILT_VERSION_BYTE] @ to_le_bytes 4 (length ib0) @ index_bytes) (str_of ''quilt_index'')) (\<lambda>meta_blob.
     and_then (add_blob_to_quilt B data meta_blob True 0 (nr * sz) (nc * sz) sz) (\<lambda>(data, _).
     Ok \<lparr>q_data = data, q_row_size = nc * sz, q_symbol_size = sz, q_quilt_index = Some \<lparr>quilt_patches = ps\<rparr>\<rparr>)))))"
proof -
  let ?cs = "nr * sz" let ?st = "start_col c0 (nr * sz) sizes"
  have I: "length data = nc * sz * nr" "map (\<lambda>p. (qp_identifier p, qp_tags p)) ps = map (\<lambda>b. (qb_identifier b, qb_tags b)) bs"
    and parts: "\<And>i. i < length bs \<Longrightarrow> qp_end_index (ps ! i) = ?st (Suc i)"
    using inv by (simp_all add: written_def)
  have len: "length ps = length bs" using arg_cong [OF I(2), of length] by simp
  have st: "?st (Suc i) \<le> U16_MAX" for i using start_col_le [of c0 ?cs sizes "Suc i"] fits pos(4) by simp
  have "\<forall>p\<in>set ps. qp_end_index p \<le> U16_MAX" using parts len st by (auto simp: in_set_conv_nth)
  then obtain ib where ib: "index_serialize B \<lparr>quilt_patches = ps\<rparr> = Some ib" "length ib = length ib0"
    using index_serialize_same_size [OF B I(2) tags _ idx(1)] by metis
  let ?meta = "[QUILT_VERSION_BYTE] @ to_le_bytes 4 (length ib0) @ ib"
  let ?blob = "\<lparr>qb_blob = ?meta, qb_identifier = str_of ''quilt_index'', qb_tags = []\<rparr>"
  have new: "store_blob_new ?meta (str_of ''quilt_index'') = Ok ?blob"
    by (simp add: store_blob_new_def quilt_index_identifier_ok)
  have l: "layout nr (nc * sz) sz (length data)" using pos I(1) by (simp add: layout_def)
  have "5 + length ib0 \<le> c0 * ?cs" using div_ceil_le_iff [of ?cs "5 + length ib0" c0] c0(1) pos by (simp add: mult.commute)
  also have "\<dots> \<le> nc * ?cs" using fits by (intro mult_le_mono1) simp
  finally have meta: "0 * ?cs + length ([] :: bytes) + length (qb_blob ?blob) \<le> length data" using I(1) ib(2) by (simp add: ac_simps)
  have add: "outcome (\<lambda>(data', n). n = div_ceil (length ([] :: bytes) + length (qb_blob ?blob)) ?cs \<and> length data' = length data
      \<and> columns nr (nc * sz) sz data' = overwrite (0 * ?cs) ([] @ qb_blob ?blob) (columns nr (nc * sz) sz data))
    (\<lambda>_. False) (\<not> 0 + length ([] :: bytes) div ?cs < nc) (add_blob_to_quilt B data ?blob True 0 ?cs (nc * sz) sz)"
    by (rule add_blob_to_quilt_outcome [OF l refl pos(3) meta]) simp
  have "quilt_holds B cfg \<lparr>q_data = data', q_row_size = nc * sz, q_symbol_size = sz, q_quilt_index = Some \<lparr>quilt_patches = ps\<rparr>\<rparr> bs"
    if "length data' = length data" "columns nr (nc * sz) sz data' = overwrite 0 ?meta (columns nr (nc * sz) sz data)" for data'
    using quilt_complete [OF pos(1-3) cfg sz sizes fits inv ib(1) _ _ c0(2) that(1) _ refl] ib(2) idx(2) c0(1) that(2) by simp
  then show ?thesis
    using ib new add pos(3) by (cases "add_blob_to_quilt B data ?blob True 0 ?cs (nc * sz) sz") auto
qed

lemma check_duplicates_Ok: "sorted (map qb_identifier bs) \<Longrightarrow> check_duplicates bs = Ok () \<longleftrightarrow> distinct (map qb_identifier bs)"
proof (induction bs rule: check_duplicates.induct)
  case (1 a b bs)
  then have "qb_identifier a \<le> qb_identifier b" "\<forall>x\<in>set bs. qb_identifier b \<le> qb_identifier x" by auto
  then show ?case using 1 by (auto simp: antisym)
qed simp_all

lemma check_duplicates_Err: "check_duplicates bs = Err e \<Longrightarrow> \<exists>i. 2 \<le> count_list (map qb_identifier bs) i \<and> e = DuplicateIdentifier i"
proof (induction bs rule: check_duplicates.induct)
  case (1 a b bs)
  then show ?case
  proof (cases "qb_identifier a = qb_identifier b")
    case False
    with 1 obtain i where "2 \<le> count_list (map qb_identifier (b # bs)) i" "e = DuplicateIdentifier i" by auto
    then show ?thesis by (intro exI [of _ i]) auto
  qed auto
qed simp_all

lemma check_duplicates_no_panic [simp]: "check_duplicates bs \<noteq> Panic"
  by (induction bs rule: check_duplicates.induct) auto

lemma quilt_compute_symbol_size_no_panic:
  assumes "0 < nr" "0 < nc" "0 < m" "sizes \<noteq> []"
  shows "quilt_compute_symbol_size sizes nc nr m e \<noteq> Panic"
proof (cases "length sizes \<le> nc")
  case True
  obtain s where "quilt_compute_symbol_size sizes nc nr m e =
      (let sz = next_multiple_of s (required_alignment e) in if sz > max_symbol_size e then Err QuiltOversize else Ok sz)"
    using quilt_symbol_size_cases [OF assms(1,3,4) True, where e = e] by blast
  then show ?thesis by (simp add: Let_def)
next
  case False
  then show ?thesis using assms by (simp add: quilt_compute_symbol_size_def not_le Suc_le_eq)
qed

text \<open>What the steps before the loop establish.\<close>

lemma construct_setup:
  assumes pos: "0 < nr" and tags: "\<forall>b\<in>set bs. tags_ok (qb_tags b)"
    and patches: "try_map (\<lambda>b. patch_new_with_tags (qb_identifier b) (qb_tags b)) bs = Ok ps"
    and size: "ok_or (map_option length (index_serialize B \<lparr>quilt_patches = ps\<rparr>)) e = Ok n"
    and sizes: "try_map (serialized_blob_size B) bs = Ok sizes"
    and sz: "quilt_compute_symbol_size ((5 + n) # sizes) nc nr 10 rs_encoding_type = Ok sz"
  obtains ib0 where "ps = map empty_patch bs" "\<forall>b\<in>set bs. store_blob_ok b"
    "index_serialize B \<lparr>quilt_patches = map empty_patch bs\<rparr> = Some ib0" "n = length ib0"
    "length sizes = length bs" "\<And>i. i < length bs \<Longrightarrow> serialized_blob_size B (bs ! i) = Ok (sizes ! i)"
    "0 < sz" "required_alignment rs_encoding_type dvd sz" "sz \<le> max_symbol_size rs_encoding_type"
    "div_ceil (5 + n) (nr * sz) \<le> 10" "div_ceil (5 + n) (nr * sz) + columns_needed sizes (nr * sz) \<le> nc"
proof -
  note ps = patches_new [OF patches tags]
  from size ps(1) obtain ib0 where ib0: "index_serialize B \<lparr>quilt_patches = map empty_patch bs\<rparr> = Some ib0" "n = length ib0" by auto
  have all: "list_all2 (\<lambda>b s. serialized_blob_size B b = Ok s) bs sizes" using sizes by (simp add: try_map_eq_Ok_iff)
  have "length ((5 + n) # sizes) \<le> nc" using sz by (auto simp: quilt_compute_symbol_size_def split: if_splits)
  then obtain s where s: "s \<in> quilt_sizes ((5 + n) # sizes) nc nr 10" "0 < s"
      "quilt_compute_symbol_size ((5 + n) # sizes) nc nr 10 rs_encoding_type =
        (let sz = next_multiple_of s (required_alignment rs_encoding_type) in
         if sz > max_symbol_size rs_encoding_type then Err QuiltOversize else Ok sz)"
    using quilt_symbol_size_cases [of nr 10 "(5 + n) # sizes" nc, where e = rs_encoding_type] pos by auto
  then have z: "sz = next_multiple_of s (required_alignment rs_encoding_type)" "sz \<le> max_symbol_size rs_encoding_type"
    using sz by (auto simp: Let_def split: if_splits)
  have "0 < required_alignment rs_encoding_type" by (simp add: rs_encoding_type_def)
  then have dvd: "required_alignment rs_encoding_type dvd sz" using z(1) by simp
  have "s \<le> sz" using next_multiple_of_ge z(1) by simp
  then have q: "sz \<in> quilt_sizes ((5 + n) # sizes) nc nr 10" "0 < sz" using quilt_sizes_upward [OF s(1) pos s(2)] s(2) by auto
  then have "div_ceil (5 + n) (nr * sz) \<le> 10" using pos by (simp add: quilt_sizes_def div_ceil_le_iff ac_simps)
  then show thesis
    using that [OF ps ib0] all q z(2) dvd by (simp add: quilt_sizes_def list_all2_conv_all_nth mult.commute)
qed

lemma add_user_blobs_outcome:
  assumes "0 < nr" "0 < sz" "nc \<le> U16_MAX" "length sizes = length bs"
    and "\<And>i. i < length bs \<Longrightarrow> serialized_blob_size B (bs ! i) = Ok (sizes ! i)"
    and "c0 + columns_needed sizes (nr * sz) \<le> nc" "length data = nc * sz * nr"
  shows "outcome (written B nr nc sz c0 bs sizes (length bs)) (\<lambda>e. \<exists>b\<in>set bs. get_header_and_extension_bytes B b = Err e) (\<exists>b\<in>set bs. qb_blob b = [])
    (try_fold (add_user_blob B (nr * sz) (nc * sz) sz) (data, map empty_patch bs, c0) (enumerate 0 bs))"
proof -
  have "outcome (written B nr nc sz c0 bs sizes (length (enumerate 0 bs))) (\<lambda>e. \<exists>b\<in>set bs. get_header_and_extension_bytes B b = Err e) (\<exists>b\<in>set bs. qb_blob b = [])
    (try_fold (add_user_blob B (nr * sz) (nc * sz) sz) (data, map empty_patch bs, c0) (enumerate 0 bs))"
  proof (rule outcome_try_fold)
    fix k s assume k: "k < length (enumerate 0 bs)" and "written B nr nc sz c0 bs sizes k s"
    then have "outcome (written B nr nc sz c0 bs sizes (Suc k)) (\<lambda>e. get_header_and_extension_bytes B (bs ! k) = Err e) (qb_blob (bs ! k) = [])
        (add_user_blob B (nr * sz) (nc * sz) sz s (k, bs ! k))"
      using add_user_blob_written [OF assms(1-6)] by simp
    moreover have "bs ! k \<in> set bs" using k by simp
    ultimately show "outcome (written B nr nc sz c0 bs sizes (Suc k)) (\<lambda>e. \<exists>b\<in>set bs. get_header_and_extension_bytes B b = Err e)
        (\<exists>b\<in>set bs. qb_blob b = []) (add_user_blob B (nr * sz) (nc * sz) sz s (enumerate 0 bs ! k))"
      using k by (auto simp: nth_enumerate_eq elim!: outcome_mono)
  qed (use assms(7) in \<open>simp add: written_def empty_patch_def comp_def\<close>)
  then show ?thesis by simp
qed

lemma construct_loop:
  assumes "0 < nr" "nc \<le> U16_MAX" "\<forall>b\<in>set bs. tags_ok (qb_tags b)"
    and "try_map (\<lambda>b. patch_new_with_tags (qb_identifier b) (qb_tags b)) bs = Ok ps"
    and "ok_or (map_option length (index_serialize B \<lparr>quilt_patches = ps\<rparr>)) e = Ok n" "try_map (serialized_blob_size B) bs = Ok sizes"
    and "quilt_compute_symbol_size ((5 + n) # sizes) nc nr 10 rs_encoding_type = Ok sz" "length data = nc * sz * nr"
    and c0: "udiv_ceil (5 + n) (nr * sz) = (Ok c0 :: (nat, quilt_error) result)"
  shows "outcome (written B nr nc sz (div_ceil (5 + n) (nr * sz)) bs sizes (length bs))
    (\<lambda>e. \<exists>b\<in>set bs. get_header_and_extension_bytes B b = Err e) (\<exists>b\<in>set bs. qb_blob b = [])
    (try_fold (add_user_blob B (nr * sz) (nc * sz) sz) (data, ps, c0) (enumerate 0 bs))"
proof -
  obtain ib0 where set: "ps = map empty_patch bs" "length sizes = length bs"
    "\<And>i. i < length bs \<Longrightarrow> serialized_blob_size B (bs ! i) = Ok (sizes ! i)" "0 < sz"
    "div_ceil (5 + n) (nr * sz) + columns_needed sizes (nr * sz) \<le> nc"
    using construct_setup [OF assms(1,3-7)] by metis
  have "c0 = div_ceil (5 + n) (nr * sz)" using c0 by (auto simp: udiv_ceil_def split: if_splits)
  then show ?thesis using add_user_blobs_outcome [OF assms(1) set(4) assms(2) set(2,3,5) assms(8)] set(1) by simp
qed

text \<open>The reasons for which a quilt cannot be constructed.\<close>

definition construct_error :: "bcs \<Rightarrow> rs_config \<Rightarrow> quilt_store_blob list \<Rightarrow> quilt_error \<Rightarrow> bool" where
  "construct_error B cfg bs e \<longleftrightarrow> (\<exists>i. 2 \<le> count_list (map qb_identifier bs) i \<and> e = DuplicateIdentifier i)
    \<or> (\<exists>b\<in>set bs. validate_quilt_identifier (qb_identifier b) = Err e \<or> serialized_blob_size B b = Err e \<or> get_header_and_extension_bytes B b = Err e)
    \<or> index_serialize B \<lparr>quilt_patches = map empty_patch bs\<rparr> = None \<and> e = QuiltIndexSerDerError
    \<or> (\<exists>ib sizes. index_serialize B \<lparr>quilt_patches = map empty_patch bs\<rparr> = Some ib \<and> list_all2 (\<lambda>b n. serialized_blob_size B b = Ok n) bs sizes
        \<and> quilt_compute_symbol_size ((5 + length ib) # sizes) (n_source_symbols Secondary cfg) (n_source_symbols Primary cfg)
          MAX_NUM_SLIVERS_FOR_QUILT_INDEX rs_encoding_type = Err e)"

lemma try_map_Err: "try_map f xs = Err e \<Longrightarrow> \<exists>x\<in>set xs. f x = Err e"
  by (induction xs) auto

lemma construct_quilt_outcome:
  fixes cfg :: rs_config and blobs :: "quilt_store_blob list"
  defines "bs \<equiv> sort_key qb_identifier blobs"
  assumes B: "bcs_ok B" and cfg: "rs_config_ok cfg" and tags: "\<forall>b\<in>set blobs. tags_ok (qb_tags b)"
  shows "outcome (\<lambda>q. quilt_holds B cfg q bs \<and> distinct (map qb_identifier bs) \<and> (\<forall>b\<in>set bs. store_blob_ok b))
    (construct_error B cfg bs) ((\<exists>b\<in>set bs. qb_blob b = []) \<or> index_oversize B bs) (construct_quilt B cfg blobs)"
proof -
  let ?nr = "n_source_symbols Primary cfg" and ?nc = "n_source_symbols Secondary cfg"
  have pos: "0 < ?nr" "0 < ?nc" "?nc \<le> U16_MAX" using rs_config_okD(1,3) [OF cfg] by (simp_all only: less_imp_le)
  have tags: "\<forall>b\<in>set bs. tags_ok (qb_tags b)" using tags by (simp add: bs_def)
  have sorted: "sorted (map qb_identifier bs)" by (simp add: bs_def)
  have prefix: "QUILT_INDEX_PREFIX_SIZE = 5" by simp
  show ?thesis
    unfolding construct_quilt_def Let_def prefix bs_def [symmetric] mult.commute [where b = ?nr] mult.commute [where b = ?nc]
  proof (intro outcome_and_then, goal_cases)
    case (2 e)
    then show ?case using check_duplicates_Err by (auto simp: construct_error_def)
  next
    case (4 _ e)
    then show ?case by (auto simp: construct_error_def patch_new_with_tags_def dest!: try_map_Err)
  next
    case (6 _ ps e)
    then show ?case using patches_new(1) [OF 6(2) tags] by (auto simp: construct_error_def)
  next
    case (7 _ ps n)
    then show ?case using patches_new(1) [OF 7(2) tags] by (auto simp: index_oversize_def)
  next
    case (10 _ ps n n' e)
    then show ?case by (auto simp: construct_error_def dest!: try_map_Err)
  next
    case (11 _ ps n n' sizes)
    then show ?case using quilt_compute_symbol_size_no_panic pos by simp
  next
    case (12 _ ps n n' sizes e)
    then show ?case using patches_new(1) [OF 12(2) tags] by (auto simp: construct_error_def try_map_eq_Ok_iff)
  next
    case (13 _ ps n n' sizes sz)
    then obtain "0 < sz" using construct_setup [OF pos(1) tags 13(2,3,5)] by auto
    then show ?case using 13 pos by (simp add: udiv_ceil_def)
  next
    case (15 _ ps n n' sizes sz c0)
    then have n: "n' = n" by simp
    obtain "div_ceil (5 + n) (?nr * sz) \<le> 10" using construct_setup [OF pos(1) tags 15(2,3,5,6) [unfolded n]] by metis
    then show ?case using 15(7,8) n by (auto simp: udiv_ceil_def split: if_splits)
  next
    case (17 _ ps n n' sizes sz c0)
    then show ?case using construct_loop [OF pos(1,3) tags 17(2,3,5), of sz "replicate (?nr * (?nc * sz)) 0"] by (simp add: ac_simps)
  next
    case (18 _ ps n n' sizes sz c0 _ e)
    then show ?case
      using construct_loop [OF pos(1,3) tags 18(2,3,5), of sz "replicate (?nr * (?nc * sz)) 0"] by (auto simp: ac_simps construct_error_def)
  next
    case (19 _ ps n n' sizes sz c0 _ st)
    then have n: "n' = n" "n \<le> U32_MAX" by simp_all
    obtain ib0 where set: "ps = map empty_patch bs" "\<forall>b\<in>set bs. store_blob_ok b"
      "index_serialize B \<lparr>quilt_patches = map empty_patch bs\<rparr> = Some ib0" "n = length ib0"
      "length sizes = length bs" "\<And>i. i < length bs \<Longrightarrow> serialized_blob_size B (bs ! i) = Ok (sizes ! i)"
      "0 < sz" "required_alignment rs_encoding_type dvd sz" "sz \<le> max_symbol_size rs_encoding_type"
      "div_ceil (5 + n) (?nr * sz) \<le> 10" "div_ceil (5 + n) (?nr * sz) + columns_needed sizes (?nr * sz) \<le> ?nc"
      using construct_setup [OF pos(1) tags 19(2,3,5,6) [unfolded n]] by metis
    obtain data ps' col where st: "st = (data, ps', col)" by (cases st) blast
    have w: "written B ?nr ?nc sz (div_ceil (5 + n) (?nr * sz)) bs sizes (length bs) (data, ps', col)"
      using construct_loop [OF pos(1,3) tags 19(2,3,5), of sz "replicate (?nr * (?nc * sz)) 0"] 19(6,7,9) n st by (simp add: ac_simps)
    have "distinct (map qb_identifier bs)" using 19(1) check_duplicates_Ok [OF sorted] by simp
    with finish_quilt [OF B pos(1) set(7) pos(2,3) refl refl set(8,9,5,6) tags set(11) w set(3) _ _ set(10)] set(2,4) n st
    show ?case by simp
  qed (simp_all add: try_map_no_panic udiv_ceil_def split: if_splits)
qed

end
