(* ===== verification/BcsExample.thy ===== *)
theory BcsExample
  imports QuiltReading
begin

text \<open>
  The BCS format on short ASCII strings, maps and sequences, where every length takes one byte: an instance of the record \<open>bcs\<close> that
  meets the assumptions on the format, for examples.
\<close>

definition short_string :: "str \<Rightarrow> bool" where
  "short_string s \<longleftrightarrow> length s < 128 \<and> (\<forall>c\<in>set s. c < 128)"

definition put_string :: "str \<Rightarrow> bytes" where
  "put_string s = of_nat (length s) # map of_nat s"

fun get_string :: "bytes \<Rightarrow> (str \<times> bytes) option" where
  "get_string [] = None"
| "get_string (n # r) = (if unat n \<le> length r then Some (map unat (take (unat n) r), drop (unat n) r) else None)"

fun get_many :: "nat \<Rightarrow> (bytes \<Rightarrow> ('a \<times> bytes) option) \<Rightarrow> bytes \<Rightarrow> ('a list \<times> bytes) option" where
  "get_many 0 p b = Some ([], b)"
| "get_many (Suc n) p b = (case p b of None \<Rightarrow> None | Some (x, r) \<Rightarrow>
    (case get_many n p r of None \<Rightarrow> None | Some (xs, r) \<Rightarrow> Some (x # xs, r)))"

definition put_list :: "('a \<Rightarrow> bytes) \<Rightarrow> 'a list \<Rightarrow> bytes" where
  "put_list f xs = of_nat (length xs) # concat (map f xs)"

fun get_list :: "(bytes \<Rightarrow> ('a \<times> bytes) option) \<Rightarrow> bytes \<Rightarrow> ('a list \<times> bytes) option" where
  "get_list p [] = None"
| "get_list p (n # r) = get_many (unat n) p r"

definition put_pair :: "str \<times> str \<Rightarrow> bytes" where
  "put_pair = (\<lambda>(k, v). put_string k @ put_string v)"

definition get_pair :: "bytes \<Rightarrow> ((str \<times> str) \<times> bytes) option" where
  "get_pair b = (case get_string b of None \<Rightarrow> None | Some (k, r) \<Rightarrow> (case get_string r of None \<Rightarrow> None | Some (v, r) \<Rightarrow> Some ((k, v), r)))"

definition put_fields :: "serialized_patch \<Rightarrow> bytes" where
  "put_fields = (\<lambda>(e, i, t). to_le_bytes 2 e @ put_string i @ put_list put_pair t)"

definition get_fields :: "bytes \<Rightarrow> (serialized_patch \<times> bytes) option" where
  "get_fields b = (if length b < 2 then None else (case get_string (drop 2 b) of None \<Rightarrow> None | Some (i, r) \<Rightarrow>
    (case get_list get_pair r of None \<Rightarrow> None | Some (t, r) \<Rightarrow> Some ((from_le_bytes (take 2 b), i, t), r))))"

definition short_tags :: "tags \<Rightarrow> bool" where
  "short_tags t \<longleftrightarrow> length t < 128 \<and> (\<forall>(k, v)\<in>set t. short_string k \<and> short_string v)"

definition short_index :: "serialized_patch list \<Rightarrow> bool" where
  "short_index fs \<longleftrightarrow> length fs < 128 \<and> (\<forall>(e, i, t)\<in>set fs. short_string i \<and> short_tags t)"

definition all_of :: "('a \<times> bytes) option \<Rightarrow> 'a option" where
  "all_of r = (case r of Some (x, []) \<Rightarrow> Some x | _ \<Rightarrow> None)"

definition bcs_example :: bcs where
  "bcs_example = \<lparr>
    string_to_bytes = (\<lambda>s. if short_string s then Some (put_string s) else None),
    string_from_bytes = (\<lambda>b. all_of (get_string b)),
    tags_to_bytes = (\<lambda>t. if short_tags t then Some (put_list put_pair t) else None),
    tags_from_bytes = (\<lambda>b. all_of (get_list get_pair b)),
    index_to_bytes = (\<lambda>fs. if short_index fs then Some (put_list put_fields fs) else None),
    index_from_bytes = (\<lambda>b. all_of (get_list get_fields b))\<rparr>"

lemma unat_small: "n < 256 \<Longrightarrow> unat (of_nat n :: byte) = n"
  by (simp add: unat_of_nat)

lemma get_put_string: "short_string s \<Longrightarrow> get_string (put_string s @ r) = Some (s, r)"
proof -
  assume s: "short_string s"
  then have "map (\<lambda>c. unat (of_nat c :: byte)) s = s" by (intro map_idI) (auto simp: short_string_def unat_small)
  then show ?thesis using s by (simp add: short_string_def put_string_def unat_small comp_def)
qed

lemma get_put_many:
  "(\<And>x r. x \<in> set xs \<Longrightarrow> p (f x @ r) = Some (x, r)) \<Longrightarrow> get_many (length xs) p (concat (map f xs) @ r) = Some (xs, r)"
  by (induction xs) auto

lemma get_put_list:
  "length xs < 128 \<Longrightarrow> (\<And>x r. x \<in> set xs \<Longrightarrow> p (f x @ r) = Some (x, r)) \<Longrightarrow> get_list p (put_list f xs @ r) = Some (xs, r)"
  by (simp add: put_list_def unat_small get_put_many)

lemma get_put_tags: "short_tags t \<Longrightarrow> get_list get_pair (put_list put_pair t @ r) = Some (t, r)"
  by (rule get_put_list) (auto simp: short_tags_def put_pair_def get_pair_def get_put_string)

lemma get_put_index:
  assumes "short_index fs" "list_all fields_ok fs"
  shows "get_list get_fields (put_list put_fields fs @ r) = Some (fs, r)"
proof (rule get_put_list)
  fix x r assume x: "x \<in> set fs"
  obtain e i t where xe: "x = (e, i, t)" by (cases x)
  have "short_string i" "short_tags t" "e \<le> U16_MAX" using assms x xe by (auto simp: short_index_def list_all_iff fields_ok_def)
  then show "get_fields (put_fields x @ r) = Some (x, r)"
    using xe by (simp add: put_fields_def get_fields_def get_put_string get_put_tags)
qed (use assms in \<open>simp add: short_index_def\<close>)

lemma length_put_fields: "length (put_fields f) = (case snd f of (i, t) \<Rightarrow> 2 + length (put_string i) + length (put_list put_pair t))"
  by (cases f) (simp add: put_fields_def)

lemma length_put_index: "map snd fs = map snd gs \<Longrightarrow> length (put_list put_fields fs) = length (put_list put_fields gs)"
proof -
  assume eq: "map snd fs = map snd gs"
  have "map length (map put_fields hs) = map (\<lambda>(i, t). 2 + length (put_string i) + length (put_list put_pair t)) (map snd hs)" for hs
    by (simp add: length_put_fields)
  then have "length (put_list put_fields hs) = 1 + sum_list (map (\<lambda>(i, t). 2 + length (put_string i) + length (put_list put_pair t)) (map snd hs))" for hs
    by (simp only: put_list_def list.size length_concat)
  then show ?thesis using eq by (simp only:)
qed

lemma short_index_snd: "map snd fs = map snd gs \<Longrightarrow> short_index fs \<longleftrightarrow> short_index gs"
proof -
  assume eq: "map snd fs = map snd gs"
  have "short_index hs \<longleftrightarrow> length (map snd hs) < 128 \<and> (\<forall>(i, t)\<in>set (map snd hs). short_string i \<and> short_tags t)" for hs :: "serialized_patch list"
    by (auto simp: short_index_def)
  then show ?thesis using eq by metis
qed

lemma bcs_example_ok: "bcs_ok bcs_example"
proof -
  have all: "all_of (p b) = Some x" if "p (b @ []) = Some (x, [])" for p :: "bytes \<Rightarrow> ('a \<times> bytes) option" and b x
    using that by (simp add: all_of_def)
  show ?thesis
    unfolding bcs_ok_def
  proof (intro conjI allI impI)
    fix s b assume "string_to_bytes bcs_example s = Some b"
    then show "string_from_bytes bcs_example b = Some s"
      by (auto simp: bcs_example_def get_put_string simp del: append_Nil2 intro!: all split: if_splits)
  next
    fix t b assume "tags_to_bytes bcs_example t = Some b"
    then show "tags_from_bytes bcs_example b = Some t"
      by (auto simp: bcs_example_def get_put_tags simp del: append_Nil2 intro!: all split: if_splits)
  next
    fix fs b assume "list_all fields_ok fs" "index_to_bytes bcs_example fs = Some b"
    then show "index_from_bytes bcs_example b = Some fs"
      by (auto simp: bcs_example_def get_put_index simp del: append_Nil2 intro!: all split: if_splits)
  next
    fix fs gs :: "serialized_patch list" assume "map snd fs = map snd gs"
    then show "map_option length (index_to_bytes bcs_example fs) = map_option length (index_to_bytes bcs_example gs)"
      using length_put_index [of fs gs] short_index_snd [of fs gs] by (simp add: bcs_example_def)
  qed
qed

end
