(* ===== verification/QuiltCorrect.thy ===== *)
theory QuiltCorrect
  imports QuiltEncoding BlobEncoding BcsExample
begin

text \<open>
  What was stored in a quilt is read back, from the quilt and from the secondary slivers of the encoded quilt.
\<close>

subsection \<open>Reading a quilt\<close>

lemma quilt_holds_len: "quilt_holds B cfg q bs \<Longrightarrow> length (q_data q)
    = n_source_symbols Primary cfg * n_source_symbols Secondary cfg * q_symbol_size q"
proof -
  assume "quilt_holds B cfg q bs"
  then have "length (q_data q) = q_row_size q * q_n_rows q" "q_n_rows q = n_source_symbols Primary cfg"
      "q_row_size q = n_source_symbols Secondary cfg * q_symbol_size q"
    by (auto simp: quilt_holds_def quilt_ok_def layout_def)
  then show ?thesis by simp
qed

lemma quilt_holds_pos:
  assumes "quilt_holds B cfg q bs"
  shows "0 < q_symbol_size q" "0 < n_source_symbols Primary cfg" "0 < n_source_symbols Secondary cfg" "q_data q \<noteq> []" "0 < q_column_size q"
  using assms by (auto simp: quilt_holds_def quilt_ok_def layout_def q_column_size_def)

lemma holds_blob_fields:
  assumes "quilt_holds B cfg q bs" "q_quilt_index q = Some idx" "\<forall>b\<in>set bs. store_blob_ok b" "n_source_symbols Secondary cfg \<le> U16_MAX"
  shows "list_all (\<lambda>p. fields_ok (patch_fields p)) (quilt_patches idx)"
proof -
  have all: "list_all2 (holds_blob B q) (quilt_patches idx) bs"
    and ends: "\<forall>p\<in>set (quilt_patches idx). qp_end_index p \<le> n_source_symbols Secondary cfg"
    using assms(1,2) by (auto simp: quilt_holds_def)
  have "fields_ok (patch_fields p)" if p: "p \<in> set (quilt_patches idx)" for p
  proof -
    from all p obtain b where "b \<in> set bs" "holds_blob B q p b" by (metis in_set_conv_nth list_all2_conv_all_nth)
    then show ?thesis using assms(3,4) ends p by (auto simp: fields_ok_def patch_fields_def holds_blob_def store_blob_ok_def)
  qed
  then show ?thesis by (simp add: list_all_iff)
qed

lemma quilt_window_index: "quilt_window (q\<lparr>q_quilt_index := i\<rparr>) = quilt_window q"
  by (intro ext) (simp add: quilt_window_def quilt_ok_def q_columns_def q_column_size_def q_n_rows_def)

lemma new_from_constructed:
  assumes B: "bcs_ok B" and q: "quilt_holds B cfg q bs" "\<forall>b\<in>set bs. store_blob_ok b" and nc: "n_source_symbols Secondary cfg \<le> U16_MAX"
  shows "new_from_quilt_blob B (q_data q) cfg = Ok q"
proof -
  let ?n = "n_source_symbols Primary cfg * n_source_symbols Secondary cfg"
  note pos = quilt_holds_pos [OF q(1)]
  have len: "length (q_data q) = ?n * q_symbol_size q" using quilt_holds_len [OF q(1)] .
  have n: "?n \<noteq> 0" using pos by simp
  have sz: "length (q_data q) div ?n = q_symbol_size q" "length (q_data q) mod ?n = 0" using len n by auto
  have row: "q_row_size q = q_symbol_size q * n_source_symbols Secondary cfg" "q_row_size q \<noteq> 0"
    using q(1) by (auto simp: quilt_holds_def quilt_ok_def mult.commute)
  obtain idx ib zs k where idx: "q_quilt_index q = Some idx" "index_serialize B idx = Some ib" "length ib \<le> U32_MAX"
      "k = div_ceil (5 + length ib) (q_column_size q)" "k \<le> 10" "contiguous k (quilt_patches idx)"
      "quilt_window q 0 k = [QUILT_VERSION_BYTE] @ to_le_bytes 4 (length ib) @ ib @ zs"
    using q(1) by (auto simp: quilt_holds_def)
  let ?q = "q\<lparr>q_quilt_index := None\<rparr>"
  have "5 + length ib \<le> q_column_size q * 10" using idx(4,5) pos(5) by (simp add: div_ceil_le_iff)
  moreover have "quilt_window ?q 0 k = [QUILT_VERSION_BYTE] @ to_le_bytes 4 (length ib) @ ib @ zs"
    using idx(7) by (simp add: quilt_window_index)
  ultimately have "decode_quilt_index B (quilt_reader ?q) (q_column_size q) = Ok idx"
    using qs.decode_quilt_index_part [OF _ idx(2,3) _ B holds_blob_fields [OF q(1) idx(1) q(2) nc] idx(4) _ idx(6)] idx(5) by simp
  then have "quilt_get_or_decode_quilt_index B ?q = Ok (idx, q)"
    using row(2) idx(1) by (simp add: quilt_get_or_decode_quilt_index_def udiv_def q_column_size_def q_n_rows_def)
  moreover have "\<lparr>q_data = q_data q, q_row_size = q_symbol_size q * n_source_symbols Secondary cfg, q_symbol_size = q_symbol_size q, q_quilt_index = None\<rparr> = ?q"
    using row(1) by simp
  ultimately show ?thesis using sz n pos(4) by (simp add: new_from_quilt_blob_def Let_def)
qed

lemma decode_held_blob:
  assumes "bcs_ok B" "holds_blob B q p b" "store_blob_ok b"
  shows "decode_blob B (quilt_reader q) (qp_start_index p) = Ok b"
  using assms qs.decode_blob_part by (auto simp: holds_blob_def)

text \<open>Reading all patches of a selection gives the blobs of the same selection.\<close>

lemma try_map_held:
  assumes "list_all2 (\<lambda>p b. P p = P' b \<and> (P p \<longrightarrow> f p = Ok b)) ps bs"
  shows "try_map f (filter P ps) = Ok (filter P' bs)"
  using assms by (induction ps bs rule: list_all2_induct) auto

lemma remove_matching_eq:
  "distinct (map qp_identifier ps) \<Longrightarrow> remove_matching ids ps = (filter (\<lambda>p. qp_identifier p \<in> ids) ps, ids - qp_identifier ` set ps)"
proof (induction ids ps rule: remove_matching.induct)
  case (2 ids p ps)
  have *: "filter (\<lambda>q. qp_identifier q \<in> ids \<and> qp_identifier q \<noteq> qp_identifier p) ps = filter (\<lambda>q. qp_identifier q \<in> ids) ps"
    using 2(3) by (intro filter_cong) (auto intro: rev_image_eqI)
  show ?case
  proof (cases "qp_identifier p \<in> ids")
    case True
    then show ?thesis using 2(1) 2(3) by (simp only: remove_matching.simps if_True) (auto simp: *)
  next
    case False
    then show ?thesis using 2(2,3) by auto
  qed
qed simp

lemma holds_identifiers:
  assumes "list_all2 (holds_blob B q) ps bs"
  shows "map qp_identifier ps = map qb_identifier bs"
  using assms by (induction ps bs rule: list_all2_induct) (auto simp: holds_blob_def)

lemma patches_by_identifiers:
  assumes "list_all2 (holds_blob B q) (quilt_patches idx) bs" "distinct (map qb_identifier bs)"
  shows "get_quilt_patches_by_identifiers idx ids = (let rest = set ids - qb_identifier ` set bs in
    if rest = {} then Ok (filter (\<lambda>p. qp_identifier p \<in> set ids) (quilt_patches idx)) else Err (BlobsNotFoundInQuilt rest))"
proof -
  have "qp_identifier ` set (quilt_patches idx) = qb_identifier ` set bs"
    using arg_cong [OF holds_identifiers [OF assms(1)], of set] by simp
  then show ?thesis
    using holds_identifiers [OF assms(1)] assms(2) by (simp add: get_quilt_patches_by_identifiers_def remove_matching_eq Let_def)
qed

subsection \<open>Slivers of an encoded quilt\<close>

lemma concat_slices: "concat (map (\<lambda>r. slice_at (p + r * sz) sz xs) [0..<n]) = slice_at p (n * sz) xs"
proof (induction n)
  case (Suc n)
  then show ?case using slice_at_append [of p "n * sz" xs sz] by (simp add: add.commute)
qed simp

lemma column_slices:
  assumes "layout nr rs sz (length data)" "c * sz < rs"
  shows "concat (map (\<lambda>r. slice_at (r * rs + c * sz) sz data) [0..<nr]) = slice_at (c * (nr * sz)) (nr * sz) (columns nr rs sz data)"
proof -
  from assms(1) obtain nc where l: "0 < nr" "0 < sz" "rs = nc * sz" "length data = nc * nr * sz" by (rule layoutE)
  then have c: "c < nc" using assms(2) by simp
  have "slice_at (r * rs + c * sz) sz data = slice_at (c * (nr * sz) + r * sz) sz (columns nr rs sz data)" if "r < nr" for r
  proof -
    have "c * nr + r + 1 \<le> (c + 1) * nr" using that by simp
    also have "\<dots> \<le> nc * nr" using c by (intro mult_le_mono1) simp
    finally have "(c * nr + r + 1) * sz \<le> length data" unfolding l(4) by (rule mult_le_mono1)
    moreover have "c * (nr * sz) + r * sz = (c * nr + r) * sz" by (simp add: add_mult_distrib mult.assoc)
    ultimately show ?thesis using slice_columns(1) [OF assms(1) that, of 0 sz c] by (simp add: add.commute [of sz])
  qed
  then have "map (\<lambda>r. slice_at (r * rs + c * sz) sz data) [0..<nr] = map (\<lambda>r. slice_at (c * (nr * sz) + r * sz) sz (columns nr rs sz data)) [0..<nr]"
    by simp
  then show ?thesis by (simp only: concat_slices)
qed

text \<open>A systematic secondary sliver is a column of the quilt.\<close>

lemma secondary_sliver_column:
  assumes ok: "coder_ok C cfg (q_symbol_size q)" and q: "quilt_holds B cfg q bs" and j: "j < source_symbols_secondary cfg"
  shows "sym_data (sd_symbols (secondary_sliver C cfg (q_symbol_size q) (q_data q) j)) = quilt_window q j (Suc j)"
proof -
  let ?sz = "q_symbol_size q" and ?nr = "source_symbols_primary cfg" and ?nc = "source_symbols_secondary cfg"
  have n: "?nc \<le> n_shards cfg" using coder_ok_axis(2) [OF ok, of Secondary] by simp
  have qok: "quilt_ok q" "q_n_rows q = ?nr" "q_row_size q = ?nc * ?sz" using q by (auto simp: quilt_holds_def)
  then have l: "layout ?nr (?nc * ?sz) ?sz (length (q_data q))" by (simp add: quilt_ok_def)
  have len: "length (q_data q) = ?nc * ?sz * ?nr" using l by (simp add: layout_def)
  have src: "src cfg ?sz (q_data q) r j = slice_at (r * (?nc * ?sz) + j * ?sz) ?sz (q_data q)" if "r < ?nr" for r
  proof -
    have "?nc * r + j + 1 \<le> ?nc * (r + 1)" using j by simp
    also have "\<dots> \<le> ?nc * ?nr" using that by (intro mult_le_mono2) simp
    finally have "(?nc * r + j + 1) * ?sz \<le> ?nc * ?nr * ?sz" by (rule mult_le_mono1)
    then have "?sz * (?nc * r + j) + ?sz \<le> length (q_data q)" using len by (simp add: ac_simps)
    moreover have "r * (?nc * ?sz) + j * ?sz = ?sz * (?nc * r + j)" by (simp add: add_mult_distrib2 ac_simps)
    ultimately show ?thesis by (simp only: src_def slice_at_def) simp
  qed
  have "col_src C cfg ?sz (q_data q) j = map (\<lambda>r. slice_at (r * (?nc * ?sz) + j * ?sz) ?sz (q_data q)) [0..<?nr]"
    unfolding col_src_def by (rule map_cong) (use src row_code_shape(3) [OF ok j] in auto)
  moreover have "secondary_sliver C cfg ?sz (q_data q) j = mk_sliver ?sz (col_src C cfg ?sz (q_data q) j) j"
    by (rule secondary_sliver_eq [OF ok]) (use j n in simp)
  moreover have "j * ?sz < ?nc * ?sz" using j quilt_holds_pos(1) [OF q] by simp
  ultimately show ?thesis
    using column_slices [OF l, of j] qok by (simp add: quilt_window_def q_columns_def q_column_size_def)
qed

lemma quilt_window_columns:
  assumes "quilt_ok q" "a \<le> b"
  shows "quilt_window q a b = concat (map (\<lambda>i. quilt_window q i (Suc i)) [a..<b])"
  using assms(2)
proof (induction b rule: dec_induct)
  case base
  then show ?case by (simp add: quilt_window_def)
next
  case (step b)
  have "a * q_column_size q + (b - a) * q_column_size q = b * q_column_size q"
    using step(1) by (simp add: add_mult_distrib [symmetric])
  then have "quilt_window q a (Suc b) = quilt_window q a b @ quilt_window q b (Suc b)"
    using slice_at_append [of "a * q_column_size q" "(b - a) * q_column_size q" "q_columns q" "q_column_size q"] step(1) assms(1)
    by (simp add: quilt_window_def Suc_diff_le add.commute)
  then show ?case using step by simp
qed

lemma quilt_window_length:
  assumes "quilt_holds B cfg q bs" "j < n_source_symbols Secondary cfg"
  shows "length (quilt_window q j (Suc j)) = q_column_size q"
proof -
  have ok: "quilt_ok q" "q_n_rows q = n_source_symbols Primary cfg" using assms(1) by (auto simp: quilt_holds_def)
  have "Suc j * q_column_size q \<le> n_source_symbols Secondary cfg * q_column_size q" using assms(2) by (intro mult_le_mono1) simp
  then have "Suc j * q_column_size q \<le> length (q_data q)"
    using quilt_holds_len [OF assms(1)] ok(2) by (simp add: q_column_size_def ac_simps)
  then show ?thesis using ok(1) by (simp add: quilt_window_def)
qed

subsection \<open>Decoders\<close>

text \<open>Slivers that are all determined by their index are all added, if they have the same size.\<close>

lemma add_slivers_all:
  assumes "\<And>s. s \<in> set ss \<Longrightarrow> s = f (sd_index s) \<and> length (sym_data (sd_symbols s)) = cs" "qd_column_size d = None \<or> qd_column_size d = Some cs"
  shows "\<exists>d'. add_slivers d ss = (d', Ok ()) \<and> qd_quilt_index d' = qd_quilt_index d
    \<and> (qd_column_size d' = None \<or> qd_column_size d' = Some cs)
    \<and> (\<forall>i. Mapping.lookup (qd_slivers d') i = (if i \<in> sd_index ` set ss then Some (f i) else Mapping.lookup (qd_slivers d) i))"
  using assms
proof (induction d ss rule: add_slivers.induct)
  case (2 d s ss)
  let ?d = "d\<lparr>qd_column_size := Some cs, qd_slivers := Mapping.update (sd_index s) s (qd_slivers d)\<rparr>"
  have v: "validate_and_update_column_size (qd_column_size d) (length (sym_data (sd_symbols s))) = Ok (Some cs)"
    using 2(2) [of s] 2(3) by (auto simp: validate_and_update_column_size_def)
  have s: "s = f (sd_index s)" using 2(2) [of s] by simp
  have "\<exists>d'. add_slivers ?d ss = (d', Ok ()) \<and> qd_quilt_index d' = qd_quilt_index ?d
    \<and> (qd_column_size d' = None \<or> qd_column_size d' = Some cs) \<and> (\<forall>i. Mapping.lookup (qd_slivers d') i = (if i \<in> sd_index ` set ss then Some (f i) else Mapping.lookup (qd_slivers ?d) i))"
    by (rule 2(1) [OF v]) (use 2(2) in auto)
  then obtain d' where d': "add_slivers ?d ss = (d', Ok ())" "qd_quilt_index d' = qd_quilt_index ?d"
      "qd_column_size d' = None \<or> qd_column_size d' = Some cs"
      "\<And>i. Mapping.lookup (qd_slivers d') i = (if i \<in> sd_index ` set ss then Some (f i) else Mapping.lookup (qd_slivers ?d) i)" by blast
  then have "Mapping.lookup (qd_slivers d') i = (if i \<in> sd_index ` set (s # ss) then Some (f i) else Mapping.lookup (qd_slivers d) i)" for i
    using s by (auto simp: lookup_update')
  then show ?case using d'(1-3) v by simp
qed simp

text \<open>A decoder that holds the slivers with indices in \<open>S\<close> of an encoded quilt.\<close>

definition holds_slivers :: "'r rs_codec \<Rightarrow> rs_config \<Rightarrow> quilt \<Rightarrow> nat set \<Rightarrow> quilt_decoder \<Rightarrow> bool" where
  "holds_slivers C cfg q S d \<longleftrightarrow> slivers_ok d \<and> (qd_column_size d = None \<or> qd_column_size d = Some (q_column_size q))
    \<and> (\<forall>i. Mapping.lookup (qd_slivers d) i = (if i \<in> S then Some (secondary_sliver C cfg (q_symbol_size q) (q_data q) i) else None))"

definition coder_works :: "'r rs_codec \<Rightarrow> rs_config \<Rightarrow> bool" where
  "coder_works C cfg \<longleftrightarrow> (\<forall>sz. 0 < sz \<and> even sz \<and> sz \<le> U16_MAX \<longrightarrow> coder_ok C cfg sz)"

lemma coder_works_quilt: "coder_works C cfg \<Longrightarrow> quilt_holds B cfg q bs \<Longrightarrow> coder_ok C cfg (q_symbol_size q)"
  using quilt_holds_pos(1) [of B cfg q bs] by (auto simp: coder_works_def quilt_holds_def rs_encoding_type_def)

lemma add_encoded_slivers:
  assumes ok: "coder_ok C cfg (q_symbol_size q)" and q: "quilt_holds B cfg q bs" and d: "holds_slivers C cfg q S d"
    and ss: "set ss \<subseteq> secondary ` set (blob_pairs C cfg (q_symbol_size q) (q_data q))"
  shows "\<exists>d'. add_slivers d ss = (d', Ok ()) \<and> qd_quilt_index d' = qd_quilt_index d \<and> holds_slivers C cfg q (S \<union> sd_index ` set ss) d'"
proof -
  let ?f = "secondary_sliver C cfg (q_symbol_size q) (q_data q)"
  have cs: "0 < q_column_size q" "q_column_size q = source_symbols_primary cfg * q_symbol_size q"
    using quilt_holds_pos(5) [OF q] q by (auto simp: quilt_holds_def q_column_size_def)
  have s: "s = ?f (sd_index s) \<and> length (sym_data (sd_symbols s)) = q_column_size q" if "s \<in> set ss" for s
  proof -
    from that ss obtain i where i: "i < n_shards cfg" "s = ?f (n_shards cfg - 1 - i)" by (auto simp: blob_pairs_def)
    moreover have "sliver_shape Secondary cfg (q_symbol_size q) (?f (n_shards cfg - 1 - i))"
      using sliver_shapes(2) [OF ok, of "n_shards cfg - 1 - i"] i(1) by simp
    ultimately show ?thesis using cs(2) by (auto simp: secondary_sliver_def sliver_shape_def sliver_len_def)
  qed
  obtain d' where d': "add_slivers d ss = (d', Ok ())" "qd_quilt_index d' = qd_quilt_index d"
      "qd_column_size d' = None \<or> qd_column_size d' = Some (q_column_size q)"
      "\<forall>i. Mapping.lookup (qd_slivers d') i = (if i \<in> sd_index ` set ss then Some (?f i) else Mapping.lookup (qd_slivers d) i)"
    using add_slivers_all [of ss ?f "q_column_size q" d] s d by (auto simp: holds_slivers_def)
  moreover have "slivers_ok d'"
    using add_slivers_ok [of d ss] d d'(1) s cs(1) by (metis fst_conv holds_slivers_def length_greater_0_conv)
  ultimately show ?thesis using d by (auto simp: holds_slivers_def)
qed

lemma decoder_window_eq:
  assumes ok: "coder_ok C cfg (q_symbol_size q)" and q: "quilt_holds B cfg q bs" and d: "holds_slivers C cfg q S d"
    and ab: "a \<le> b" "b \<le> n_source_symbols Secondary cfg" "{a..<b} \<subseteq> S" and nc: "n_source_symbols Secondary cfg \<le> U16_MAX"
  shows "has_columns d a b" "decoder_window d a b = quilt_window q a b"
proof -
  show has: "has_columns d a b" using d ab nc by (auto simp: has_columns_def holds_slivers_def)
  have "sliver_bytes d i = quilt_window q i (Suc i)" if "a \<le> i" "i < b" for i
    using d that ab secondary_sliver_column [OF ok q, of i] by (auto simp: sliver_bytes_def holds_slivers_def)
  then have "concat (map (sliver_bytes d) [a..<b]) = concat (map (\<lambda>i. quilt_window q i (Suc i)) [a..<b])"
    by (intro arg_cong [where f = concat] map_cong) auto
  moreover have "quilt_ok q" using q by (simp add: quilt_holds_def)
  ultimately show "decoder_window d a b = quilt_window q a b"
    using has d quilt_window_columns [OF _ ab(1)] by (simp add: decoder_window_def holds_slivers_def)
qed

lemma decoder_reads_patch:
  assumes B: "bcs_ok B" and ok: "coder_ok C cfg (q_symbol_size q)" and q: "quilt_holds B cfg q bs" and d: "holds_slivers C cfg q S d"
    and p: "holds_blob B q p b" "store_blob_ok b" "qp_end_index p \<le> n_source_symbols Secondary cfg" "set (patch_sliver_indices p) \<subseteq> S"
    and nc: "n_source_symbols Secondary cfg \<le> U16_MAX"
  shows "get_patch_by_quilt_patch B d p = Ok b"
proof -
  from p(1) obtain pre zs where pre: "get_header_and_extension_bytes B b = Ok pre"
      "quilt_window q (qp_start_index p) (qp_end_index p) = pre @ qb_blob b @ zs" and le: "qp_start_index p \<le> qp_end_index p"
    by (auto simp: holds_blob_def)
  note w = decoder_window_eq [OF ok q d le p(3) _ nc]
  have "{qp_start_index p..<qp_end_index p} \<subseteq> S" using p(4) by (simp add: patch_sliver_indices_def)
  note w = w [OF this]
  have "decode_blob B (decoder_reader d) (qp_start_index p) = Ok b"
    using ds.decode_blob_part [OF _ pre(1) B p(2)] w(2) pre(2) by simp
  then show ?thesis using check_missing_Ok [OF w(1)] by (simp add: get_patch_by_quilt_patch_def)
qed

lemma decoder_reads_index:
  assumes B: "bcs_ok B" and ok: "coder_ok C cfg (q_symbol_size q)" and q: "quilt_holds B cfg q bs" and d: "holds_slivers C cfg q S d"
    and blobs: "\<forall>b\<in>set bs. store_blob_ok b" and nc: "n_source_symbols Secondary cfg \<le> U16_MAX"
    and S: "{..<min MAX_NUM_SLIVERS_FOR_QUILT_INDEX (n_source_symbols Secondary cfg)} \<subseteq> S" and none: "qd_quilt_index d = None"
    and idx: "q_quilt_index q = Some idx"
  shows "decoder_get_or_decode_quilt_index B d = Ok (idx, d\<lparr>qd_quilt_index := Some idx\<rparr>)"
proof -
  obtain ib zs k where ix: "index_serialize B idx = Some ib" "length ib \<le> U32_MAX"
      "k = div_ceil (5 + length ib) (q_column_size q)" "k \<le> 10" "contiguous k (quilt_patches idx)"
      "quilt_window q 0 k = [QUILT_VERSION_BYTE] @ to_le_bytes 4 (length ib) @ ib @ zs"
    using q idx by (auto simp: quilt_holds_def)
  have pos: "0 < q_column_size q" "0 < n_source_symbols Secondary cfg" using quilt_holds_pos [OF q] by auto
  have "quilt_window q 0 k = quilt_window q 0 (min k (n_source_symbols Secondary cfg))"
  proof -
    have "length (q_columns q) = n_source_symbols Secondary cfg * q_column_size q"
      using quilt_holds_len [OF q] q by (simp add: q_column_size_def quilt_holds_def)
    then show ?thesis by (cases "k \<le> n_source_symbols Secondary cfg") (simp_all add: quilt_window_def slice_at_def min_def mult_le_mono1)
  qed
  moreover have "{0..<min k (n_source_symbols Secondary cfg)} \<subseteq> S" using S ix(4) by auto
  ultimately have w: "decoder_window d 0 (min k (n_source_symbols Secondary cfg)) = [QUILT_VERSION_BYTE] @ to_le_bytes 4 (length ib) @ ib @ zs"
    using decoder_window_eq(2) [OF ok q d, of 0 "min k (n_source_symbols Secondary cfg)"] nc ix(6) by simp
  have le: "5 + length ib \<le> q_column_size q * 10" using ix(3,4) pos by (simp add: div_ceil_le_iff)
  have "0 \<in> S" using S pos by auto
  then have zero: "Mapping.lookup (qd_slivers d) 0 = Some (secondary_sliver C cfg (q_symbol_size q) (q_data q) 0)"
    using d by (simp add: holds_slivers_def)
  then have "qd_column_size d \<noteq> None" using d by (auto simp: holds_slivers_def slivers_ok_def)
  then have "qd_column_size d = Some (q_column_size q)" using d by (auto simp: holds_slivers_def)
  moreover have "check_missing_slivers d 0 1 = Ok ()" using zero by (simp add: check_missing_slivers_def)
  moreover have "decode_quilt_index B (decoder_reader d) (q_column_size q) = Ok idx"
    using ds.decode_quilt_index_part [OF w ix(1,2) le B holds_blob_fields [OF q idx blobs nc] ix(3) _ ix(5)] ix(4) by simp
  ultimately show ?thesis using none by (simp add: decoder_get_or_decode_quilt_index_def)
qed

lemma quilt_encode_eq:
  assumes ok: "coder_works C (reed_solomon ecfg)" "encoding_config_ok ecfg" and q: "quilt_holds B (reed_solomon ecfg) q bs"
    and con: "construct_quilt B (reed_solomon ecfg) blobs = Ok q" and idx: "q_quilt_index q = Some idx"
  shows "\<exists>md. quilt_encode_with_metadata B h C (reed_solomon ecfg) blobs
    = Ok (blob_pairs C (reed_solomon ecfg) (q_symbol_size q) (q_data q), md) \<and> qm_index md = idx
    \<and> get_verified_metadata md = blob_md h C (reed_solomon ecfg) (q_symbol_size q) (q_data q)"
proof -
  let ?cfg = "reed_solomon ecfg" and ?sz = "q_symbol_size q"
  note cok = coder_works_quilt [OF ok(1) q]
  note pos = quilt_holds_pos [OF q]
  have len: "length (q_data q) = source_symbols_per_blob ?cfg * ?sz" "0 < source_symbols_per_blob ?cfg"
    using quilt_holds_len [OF q] pos by (simp_all add: source_symbols_per_blob_def utils_source_symbols_per_blob_def)
  have al: "required_alignment rs_encoding_type dvd ?sz" "?sz \<le> U16_MAX" "0 < required_alignment rs_encoding_type"
    using q by (auto simp: quilt_holds_def rs_encoding_type_def)
  have "div_ceil (length (q_data q)) (source_symbols_per_blob ?cfg) = ?sz" using len by (simp add: div_ceil_def)
  moreover have "next_multiple_of ?sz (required_alignment rs_encoding_type) = ?sz" using al(1) by (simp add: next_multiple_of_def)
  moreover have "max (length (q_data q)) 1 = length (q_data q)" using pos(4) by (cases "q_data q") auto
  ultimately have "symbol_size_for_blob ?cfg (length (q_data q)) = Ok ?sz"
    using compute_symbol_size_cases [OF len(2) al(3), of "length (q_data q)"] al(2) by (simp add: symbol_size_for_blob_def)
  then have fits: "blob_fits C ecfg ?sz (q_data q)" using ok(2) cok by (simp add: blob_fits_def)
  have "quilt_encode_with_metadata B h C ?cfg blobs = Ok (blob_pairs C ?cfg ?sz (q_data q),
      \<lparr>quilt_id = blob_id (blob_md h C ?cfg ?sz (q_data q)), qm_metadata = metadata (blob_md h C ?cfg ?sz (q_data q)), qm_index = idx\<rparr>)"
    using con idx fits blob_encoder_new_eq [of C ecfg ?sz "Owned (q_data q)"] blob_fitsD(7) [OF fits]
    by (simp add: quilt_encode_with_metadata_def blob_new_owned_def encode_with_metadata_eq [OF cok] mk_data_def)
  then show ?thesis
    by (intro exI conjI) (assumption, simp_all add: get_verified_metadata_def new_verified_unchecked_def)
qed

subsection \<open>An example\<close>

definition example_blobs :: "quilt_store_blob list" where
  "example_blobs = [\<lparr>qb_blob = [7], qb_identifier = [98], qb_tags = []\<rparr>, \<lparr>qb_blob = [8, 9], qb_identifier = [97], qb_tags = [([107], [118])]\<rparr>]"

lemma example_blobs_sorted: "sort_key qb_identifier example_blobs = rev example_blobs"
  by (simp add: example_blobs_def)

lemma example_tags: "\<forall>b\<in>set example_blobs. tags_ok (qb_tags b)"
  by (simp add: example_blobs_def tags_ok_def)

lemma example_no_error:
  "\<not> construct_error bcs_example example_config (rev example_blobs) e" "\<not> index_oversize bcs_example (rev example_blobs)"
proof -
  have valid: "validate_quilt_identifier [c] = Ok ()" if "c = 97 \<or> c = 98" for c
    using that by (auto simp: validate_quilt_identifier_def str_len_def char_len_utf8_def trim_end_def is_whitespace_def is_control_def)
  have short: "short_string [c]" if "c < 128" for c using that by (simp add: short_string_def)
  have bytes: "string_to_bytes bcs_example [97] = Some [1, 97]" "string_to_bytes bcs_example [98] = Some [1, 98]"
      "tags_to_bytes bcs_example [([107], [118])] = Some [1, 1, 107, 1, 118]"
    using short by (simp_all add: bcs_example_def put_string_def short_tags_def put_list_def put_pair_def)
  have index: "index_serialize bcs_example \<lparr>quilt_patches = map empty_patch (rev example_blobs)\<rparr>
      = Some [2, 0, 0, 1, 97, 1, 1, 107, 1, 118, 0, 0, 1, 98, 0]"
    using short by (simp add: bcs_example_def index_serialize_def example_blobs_def empty_patch_def patch_fields_def short_index_def
        short_tags_def put_list_def put_fields_def put_pair_def put_string_def numeral_2_eq_2)
  have sizes: "map (serialized_blob_size bcs_example) (rev example_blobs) = [Ok 19, Ok 11]"
    by (simp add: example_blobs_def serialized_blob_size_def bytes)
  have headers: "get_header_and_extension_bytes bcs_example b \<noteq> Err e" if "b \<in> set example_blobs" for b e
    using that by (auto simp: example_blobs_def get_header_and_extension_bytes_def bytes)
  have "quilt_compute_symbol_size [20, 19, 11] 3 2 10 rs_encoding_type = Ok 10"
    by (simp add: quilt_compute_symbol_size_def rs_encoding_type_def udiv_ceil_def div_ceil_def symbol_size_search.simps
        can_blobs_fit_into_matrix_def next_multiple_of_def)
  then have size: "quilt_compute_symbol_size (20 # sizes) 3 2 10 rs_encoding_type \<noteq> Err e"
    if "list_all2 (\<lambda>b n. serialized_blob_size bcs_example b = Ok n) (rev example_blobs) sizes" for sizes e
    using that sizes by (auto simp: example_blobs_def list_all2_Cons1)
  show "\<not> construct_error bcs_example example_config (rev example_blobs) e"
    using size index headers sizes valid
    by (auto simp: construct_error_def example_config_def) (auto simp: example_blobs_def split: if_splits)
  show "\<not> index_oversize bcs_example (rev example_blobs)" using index by (simp add: index_oversize_def)
qed

lemma example_nonempty: "\<forall>b\<in>set example_blobs. qb_blob b \<noteq> []"
  by (simp add: example_blobs_def)

lemma example_constructed: "\<exists>q. construct_quilt bcs_example example_config example_blobs = Ok q"
  using construct_quilt_outcome [OF bcs_example_ok example_config_ok example_tags] example_blobs_sorted example_no_error example_nonempty
  by (cases "construct_quilt bcs_example example_config example_blobs") auto

subsection \<open>Properties\<close>

text \<open>C30: A quilt is opened again from its data alone, with the same index, and gives back all the blobs it was constructed from, in the
  order of their identifiers; a lookup gives the blobs with the requested identifiers or names exactly the missing ones, and a
  lookup by tag the blobs that carry it.\<close>

theorem quilt_roundtrip:
  assumes "bcs_ok B" "rs_config_ok cfg" "\<forall>b\<in>set blobs. tags_ok (qb_tags b)" "construct_quilt B cfg blobs = Ok q"
  shows "new_from_quilt_blob B (q_data q) cfg = Ok q
    \<and> get_all_blobs B q = Ok (sort_key qb_identifier blobs)
    \<and> get_blobs_by_identifiers B q ids = (let rest = set ids - qb_identifier ` set blobs in
      if rest = {} then Ok (filter (\<lambda>b. qb_identifier b \<in> set ids) (sort_key qb_identifier blobs)) else Err (BlobsNotFoundInQuilt rest))
    \<and> get_blobs_by_tag B q t v = Ok (filter (\<lambda>b. map_of (qb_tags b) t = Some v) (sort_key qb_identifier blobs))"
proof (intro conjI)
  let ?bs = "sort_key qb_identifier blobs"
  have q: "quilt_holds B cfg q ?bs" and dist: "distinct (map qb_identifier ?bs)" and ok: "\<forall>b\<in>set ?bs. store_blob_ok b"
    using construct_quilt_outcome [OF assms(1-3)] assms(4) by simp_all
  show "new_from_quilt_blob B (q_data q) cfg = Ok q" using new_from_constructed [OF assms(1) q ok] rs_config_okD(3) [OF assms(2)] by (simp only: less_imp_le)
  obtain idx where idx: "q_quilt_index q = Some idx" "list_all2 (holds_blob B q) (quilt_patches idx) ?bs"
    using q by (auto simp: quilt_holds_def)
  have held: "list_all2 (\<lambda>p b. P p = P' b \<and> (P p \<longrightarrow> decode_blob B (quilt_reader q) (qp_start_index p) = Ok b)) (quilt_patches idx) ?bs"
    if "\<And>p b. holds_blob B q p b \<Longrightarrow> P p = P' b" for P P'
    using idx(2) ok [unfolded all_set_conv_all_nth] that decode_held_blob [OF assms(1)] unfolding list_all2_conv_all_nth by simp
  show "get_all_blobs B q = Ok ?bs"
    using try_map_held [OF held, of "\<lambda>_. True" "\<lambda>_. True"] idx(1) by (simp add: get_all_blobs_def)
  show "get_blobs_by_identifiers B q ids = (let rest = set ids - qb_identifier ` set blobs in
      if rest = {} then Ok (filter (\<lambda>b. qb_identifier b \<in> set ids) ?bs) else Err (BlobsNotFoundInQuilt rest))"
    using try_map_held [OF held, of "\<lambda>p. qp_identifier p \<in> set ids" "\<lambda>b. qb_identifier b \<in> set ids"] idx(1)
      patches_by_identifiers [OF idx(2) dist, of ids]
    by (auto simp: get_blobs_by_identifiers_def Let_def holds_blob_def)
  show "get_blobs_by_tag B q t v = Ok (filter (\<lambda>b. map_of (qb_tags b) t = Some v) ?bs)"
    using try_map_held [OF held, of "\<lambda>p. has_matched_tag p t v" "\<lambda>b. map_of (qb_tags b) t = Some v"] idx(1)
    by (simp add: get_blobs_by_tag_def get_quilt_patches_by_tag_def has_matched_tag_def holds_blob_def)
qed

theorem quilt_roundtrip_witness:
  "\<exists>q. new_from_quilt_blob bcs_example (q_data q) example_config = Ok q \<and> get_all_blobs bcs_example q = Ok (rev example_blobs)
    \<and> get_blobs_by_identifiers bcs_example q [[98], [99]] = Err (BlobsNotFoundInQuilt {[99]})
    \<and> get_blobs_by_tag bcs_example q [107] [118] = Ok [\<lparr>qb_blob = [8, 9], qb_identifier = [97], qb_tags = [([107], [118])]\<rparr>]"
proof -
  obtain q where q: "construct_quilt bcs_example example_config example_blobs = Ok q" using example_constructed by blast
  have "{[98], [99]} - qb_identifier ` set example_blobs = {[99]}" by (auto simp: example_blobs_def)
  moreover have "filter (\<lambda>b. map_of (qb_tags b) [107] = Some [118]) (rev example_blobs)
      = [\<lparr>qb_blob = [8, 9], qb_identifier = [97], qb_tags = [([107], [118])]\<rparr>]" by (simp add: example_blobs_def)
  ultimately show ?thesis
    using quilt_roundtrip [OF bcs_example_ok example_config_ok example_tags q, of "[[98], [99]]" "[107]" "[118]"] example_blobs_sorted
    by (intro exI [of _ q]) (simp add: Let_def)
qed

text \<open>C31: A client reads blobs of an encoded quilt from a part of its secondary slivers. With the slivers of the first columns the decoder
  recovers the index of the quilt. After the slivers are added that the index names for some identifiers, the decoder returns exactly
  the blobs with these identifiers.\<close>

theorem quilt_read_from_slivers:
  assumes "bcs_ok B" "encoding_config_ok ecfg" "coder_works C (reed_solomon ecfg)" "\<forall>b\<in>set blobs. tags_ok (qb_tags b)"
    and enc: "quilt_encode_with_metadata B h C (reed_solomon ecfg) blobs = Ok (pairs, qm)"
    and slivers: "set first \<subseteq> secondary ` set pairs" "set further \<subseteq> secondary ` set pairs"
    and first: "{..<min MAX_NUM_SLIVERS_FOR_QUILT_INDEX (n_source_symbols Secondary (reed_solomon ecfg))} \<subseteq> sd_index ` set first"
    and needed: "get_sliver_indices_for_identifiers (qm_index qm) ids = Ok needed" "set needed \<subseteq> sd_index ` (set first \<union> set further)"
  shows "\<exists>d d' d''. quilt_decoder_new first = Ok d \<and> decoder_get_or_decode_quilt_index B d = Ok (qm_index qm, d')
    \<and> add_slivers d' further = (d'', Ok ())
    \<and> decoder_get_blobs_by_identifiers B d'' ids = Ok (filter (\<lambda>b. qb_identifier b \<in> set ids) (sort_key qb_identifier blobs))"
proof -
  let ?cfg = "reed_solomon ecfg" and ?bs = "sort_key qb_identifier blobs"
  have cfg: "rs_config_ok ?cfg" using encoding_config_okD(1) [OF assms(2)] .
  have nc: "n_source_symbols Secondary ?cfg \<le> U16_MAX" using rs_config_okD(3) [OF cfg, of Secondary] by simp
  obtain q where con: "construct_quilt B ?cfg blobs = Ok q" using enc by (auto simp: quilt_encode_with_metadata_def)
  have q: "quilt_holds B ?cfg q ?bs" and dist: "distinct (map qb_identifier ?bs)" and ok: "\<forall>b\<in>set ?bs. store_blob_ok b"
    using construct_quilt_outcome [OF assms(1) cfg assms(4)] con by simp_all
  obtain idx where idx: "q_quilt_index q = Some idx" "list_all2 (holds_blob B q) (quilt_patches idx) ?bs"
      "\<forall>p\<in>set (quilt_patches idx). qp_end_index p \<le> n_source_symbols Secondary ?cfg"
    using q by (auto simp: quilt_holds_def)
  have pairs: "pairs = blob_pairs C ?cfg (q_symbol_size q) (q_data q)" and qm: "qm_index qm = idx"
    using quilt_encode_eq [OF assms(3,2) q con idx(1), of h] enc by auto
  note cok = coder_works_quilt [OF assms(3) q]
  have "holds_slivers C ?cfg q {} \<lparr>qd_slivers = Mapping.empty, qd_quilt_index = None, qd_column_size = None\<rparr>"
    by (simp add: holds_slivers_def decoder_empty_ok)
  from add_encoded_slivers [OF cok q this, of first] slivers(1) obtain d where
    d: "quilt_decoder_new first = Ok d" "qd_quilt_index d = None" "holds_slivers C ?cfg q (sd_index ` set first) d"
    by (auto simp: pairs quilt_decoder_new_def)
  let ?d' = "d\<lparr>qd_quilt_index := Some idx\<rparr>"
  have d': "decoder_get_or_decode_quilt_index B d = Ok (idx, ?d')"
    using decoder_reads_index [OF assms(1) cok q d(3) ok nc first d(2) idx(1)] .
  have "holds_slivers C ?cfg q (sd_index ` set first) ?d'" using d(3) by (simp add: holds_slivers_def slivers_ok_def)
  from add_encoded_slivers [OF cok q this, of further] slivers(2) obtain d'' where
    d'': "add_slivers ?d' further = (d'', Ok ())" "qd_quilt_index d'' = Some idx" "holds_slivers C ?cfg q (sd_index ` (set first \<union> set further)) d''"
    by (auto simp: pairs image_Un)
  have all_ids: "qp_identifier ` set (quilt_patches idx) = qb_identifier ` set ?bs"
    using arg_cong [OF holds_identifiers [OF idx(2)], of set] by simp
  have rest: "set ids - qb_identifier ` set ?bs = {}"
    and found: "needed = concat (map patch_sliver_indices (filter (\<lambda>p. qp_identifier p \<in> set ids) (quilt_patches idx)))"
    using needed(1) holds_identifiers [OF idx(2)] dist
    by (auto simp del: set_sort simp: all_ids qm get_sliver_indices_for_identifiers_def remove_matching_eq split: if_splits)
  have "list_all2 (\<lambda>p b. (qp_identifier p \<in> set ids) = (qb_identifier b \<in> set ids)
      \<and> (qp_identifier p \<in> set ids \<longrightarrow> get_patch_by_quilt_patch B d'' p = Ok b)) (quilt_patches idx) ?bs"
    unfolding list_all2_conv_all_nth
  proof (intro conjI allI impI)
    show len: "length (quilt_patches idx) = length ?bs" using idx(2) by (rule list_all2_lengthD)
    fix i assume i: "i < length (quilt_patches idx)"
    have held: "holds_blob B q (quilt_patches idx ! i) (?bs ! i)" using list_all2_nthD [OF idx(2) i] .
    then show "(qp_identifier (quilt_patches idx ! i) \<in> set ids) = (qb_identifier (?bs ! i) \<in> set ids)" by (simp add: holds_blob_def)
    assume "qp_identifier (quilt_patches idx ! i) \<in> set ids"
    then have "quilt_patches idx ! i \<in> set (filter (\<lambda>p. qp_identifier p \<in> set ids) (quilt_patches idx))" using i by simp
    then have "set (patch_sliver_indices (quilt_patches idx ! i)) \<subseteq> set needed" unfolding found by auto
    then have "set (patch_sliver_indices (quilt_patches idx ! i)) \<subseteq> sd_index ` (set first \<union> set further)"
      using needed(2) by (rule order_trans)
    moreover have "?bs ! i \<in> set ?bs" by (rule nth_mem) (use i len in simp)
    ultimately show "get_patch_by_quilt_patch B d'' (quilt_patches idx ! i) = Ok (?bs ! i)"
      using decoder_reads_patch [OF assms(1) cok q d''(3) held _ _ _ nc] ok idx(3) i by simp
  qed
  from try_map_held [OF this] have "decoder_get_blobs_by_identifiers B d'' ids = Ok (filter (\<lambda>b. qb_identifier b \<in> set ids) ?bs)"
    using patches_by_identifiers [OF idx(2) dist, of ids] rest d''(2) by (simp add: decoder_get_blobs_by_identifiers_def Let_def)
  with d(1) d' d''(1) qm show ?thesis by blast
qed

lemma four_coder_works: "coder_works four_codec example_config"
  using four_coder_ok by (simp add: coder_works_def)

theorem quilt_read_from_slivers_witness:
  "\<exists>pairs qm d d' d''. quilt_encode_with_metadata bcs_example fold_hash four_codec example_config example_blobs = Ok (pairs, qm)
    \<and> quilt_decoder_new (map secondary pairs) = Ok d \<and> decoder_get_or_decode_quilt_index bcs_example d = Ok (qm_index qm, d')
    \<and> add_slivers d' [] = (d'', Ok ()) \<and> decoder_get_blobs_by_identifiers bcs_example d'' [[98]] = Ok [hd example_blobs]"
proof -
  let ?ec = example_encoding_config
  have ec: "reed_solomon ?ec = example_config" by (simp add: example_encoding_config_def)
  obtain q where con: "construct_quilt bcs_example example_config example_blobs = Ok q" using example_constructed by blast
  have q: "quilt_holds bcs_example example_config q (rev example_blobs)"
    using construct_quilt_outcome [OF bcs_example_ok example_config_ok example_tags] con example_blobs_sorted by simp
  then obtain idx where idx: "q_quilt_index q = Some idx" "list_all2 (holds_blob bcs_example q) (quilt_patches idx) (rev example_blobs)"
      "\<forall>p\<in>set (quilt_patches idx). qp_end_index p \<le> 3"
    by (auto simp: quilt_holds_def example_config_def)
  obtain qm where enc: "quilt_encode_with_metadata bcs_example fold_hash four_codec example_config example_blobs
      = Ok (blob_pairs four_codec example_config (q_symbol_size q) (q_data q), qm)" "qm_index qm = idx"
    using quilt_encode_eq [OF _ example_encoding_config_ok, unfolded ec, OF four_coder_works q con idx(1), of fold_hash] by blast
  let ?pairs = "blob_pairs four_codec example_config (q_symbol_size q) (q_data q)"
  have indices: "sd_index ` set (map secondary ?pairs) = {0, 1, 2, 3}"
    by (auto simp: blob_pairs_def secondary_sliver_def example_config_def upt_rec)
  from idx(2) obtain pa pb where ps: "quilt_patches idx = [pa, pb]" "qp_identifier pa = [97]" "qp_identifier pb = [98]"
    by (auto simp: example_blobs_def list_all2_Cons2 holds_blob_def)
  have needed: "get_sliver_indices_for_identifiers (qm_index qm) [[98]] = Ok (patch_sliver_indices pb)"
    using ps enc(2) by (simp add: get_sliver_indices_for_identifiers_def)
  have "set (patch_sliver_indices pb) \<subseteq> {0, 1, 2, 3}" using idx(3) ps(1) by (auto simp: patch_sliver_indices_def)
  moreover have "{..<min MAX_NUM_SLIVERS_FOR_QUILT_INDEX (n_source_symbols Secondary example_config)} \<subseteq> {0, 1, 2, 3}"
    by (auto simp: example_config_def)
  moreover have "set (map secondary ?pairs) \<subseteq> secondary ` set ?pairs" by simp
  ultimately have "\<exists>d d' d''. quilt_decoder_new (map secondary ?pairs) = Ok d \<and> decoder_get_or_decode_quilt_index bcs_example d = Ok (qm_index qm, d')
      \<and> add_slivers d' [] = (d'', Ok ()) \<and> decoder_get_blobs_by_identifiers bcs_example d'' [[98]]
        = Ok (filter (\<lambda>b. qb_identifier b \<in> set [[98]]) (sort_key qb_identifier example_blobs))"
    by (intro quilt_read_from_slivers [OF bcs_example_ok example_encoding_config_ok, unfolded ec, OF four_coder_works example_tags enc(1) _ _ _ needed])
      (simp_all only: indices list.set Un_empty_right empty_subsetI)
  with enc(1) show ?thesis by (auto simp: example_blobs_def)
qed

end
