(* ===== verification/MoveBase.thy ===== *)
theory MoveBase
  imports Prelude "HOL-Library.Multiset" "HOL-Library.Product_Lexorder" "HOL-Library.Mapping"
begin

text \<open>
  What the models of the Move contracts share. A transaction that aborts with an error code of a module is \<open>Err\<close> with the name of
  the code; an abort of the virtual machine (overflow, division by zero, an index out of range) is \<open>Panic\<close>. Either way the
  transaction has no effect. Vectors of Move are lists. A \<open>VecMap\<close> of the Sui framework is documented as a map backed by a vector, with
  distinct keys and the entries in the order of insertion: it is the list of its entries, and inserting a key that is present
  aborts. Object IDs are compared by the number that their address denotes, so they are numbers.
\<close>

type_synonym node_id = nat

text \<open>The error codes of the modules, then those of the framework. Codes of different modules with the same name are one constructor.\<close>

datatype move_abort =
    EPopFromEmptyHeap | ENoStake | EInvalidShardAssignment | EZeroMaxSize | EDuplicateInsertion
  | ETooFarInFuture | EInvalidEpoch | EIncompatibleEpochs | EIncompatibleAmount | EInvalidEpochRange
  | EInvalidEncodingType
  | EInvalidBitmap | ESigVerification | ENotEnoughStake | EIncorrectCommittee
  | EIncorrectAppId | EIncorrectEpoch | EInvalidMsgType | EIncorrectIntentVersion | EInvalidBlobPersistenceType | ENotDeletable
  | ENotCertified | EBlobNotDeletable | EResourceBounds | EResourceSize | EAlreadyCertified | EInvalidBlobId | EInvalidBlobObject
  | EInsufficientCapacity | EPoolNotEmpty | EInvalidBlobSize | EInvalidBlobCount | EIncompatibleEndEpoch | EInvalidPercent
  | EInvalidMaxEpochsAhead | EStorageExceeded | EInvalidEpochsAhead | EInvalidIdEpoch | EInvalidAccountingEpoch | EInvalidResourceSize
  | EIncorrectAttestation | ERepeatedAttestation | ENotCommitteeMember | EInvalidSequenceNumber | EIncorrectDenyListSequence | EIncorrectDenyListNode | EInvalidStartEpoch
  | EKeyAlreadyExists | EFixedPointRange | ENotEnough | EFieldAlreadyExists | EFieldDoesNotExist | ETableNotEmpty | EOutOfRange

subsection \<open>Arithmetic\<close>

definition uadd :: "nat \<Rightarrow> nat \<Rightarrow> nat \<Rightarrow> (nat, 'e) result" where
  "uadd m a b = expect (checked m (a + b))"

lemma uadd_simps [simp]: "uadd m a b = Ok c \<longleftrightarrow> a + b \<le> m \<and> c = a + b" "uadd m a b \<noteq> Err e" "uadd m a b = Panic \<longleftrightarrow> m < a + b"
  by (auto simp: uadd_def checked_def)

text \<open>The sum of a vector, computed with \<open>fold!\<close>.\<close>

definition usum :: "nat \<Rightarrow> nat list \<Rightarrow> (nat, 'e) result" where
  "usum m xs = try_fold (uadd m) 0 xs"

lemma try_fold_uadd: "a + sum_list xs \<le> m \<Longrightarrow> try_fold (uadd m) a xs = Ok (a + sum_list xs)"
  by (induction xs arbitrary: a) (auto simp: uadd_def checked_def add.assoc)

lemma usum_Ok: "sum_list xs \<le> m \<Longrightarrow> usum m xs = Ok (sum_list xs)"
  using try_fold_uadd [of 0 xs m] by (simp add: usum_def)

lemma try_fold_uadd_Ok: "try_fold (uadd m) a xs = Ok b \<Longrightarrow> b = a + sum_list xs"
proof (induction xs arbitrary: a)
  case (Cons x xs)
  then show ?case by (auto dest!: Cons.IH)
qed simp

lemma usum_eq_Ok: "usum m xs = Ok b \<Longrightarrow> b = sum_list xs"
  using try_fold_uadd_Ok by (fastforce simp: usum_def)

subsection \<open>Balances\<close>

text \<open>A \<open>Balance\<close> of the Sui framework is an amount of coins in 64 bits. \<open>split\<close> takes an amount out of it and aborts if there is not enough;
  the result is the rest.\<close>

definition bal_split :: "nat \<Rightarrow> nat \<Rightarrow> (nat, move_abort) result" where
  "bal_split self value = (if value \<le> self then Ok (self - value) else Err ENotEnough)"

definition bal_join :: "nat \<Rightarrow> nat \<Rightarrow> (nat, 'e) result" where
  "bal_join self balance = uadd U64_MAX self balance"

lemma bal_split_simps [simp]: "bal_split b v = Ok r \<longleftrightarrow> v \<le> b \<and> r = b - v" "bal_split b v \<noteq> Panic"
  by (auto simp: bal_split_def)

lemma bal_join_simps [simp]: "bal_join a b = Ok c \<longleftrightarrow> a + b \<le> U64_MAX \<and> c = a + b" "bal_join a b \<noteq> Err e"
  by (auto simp: bal_join_def)

subsection \<open>Vectors\<close>

definition vec_get :: "'a list \<Rightarrow> nat \<Rightarrow> ('a, 'e) result" where
  "vec_get xs i = (if i < length xs then Ok (xs ! i) else Panic)"

definition swap :: "'a list \<Rightarrow> nat \<Rightarrow> nat \<Rightarrow> 'a list" where
  "swap xs i j = xs[i := xs ! j, j := xs ! i]"

text \<open>Removing an element by putting the last one in its place.\<close>

definition swap_remove :: "'a list \<Rightarrow> nat \<Rightarrow> ('a \<times> 'a list, 'e) result" where
  "swap_remove xs i = (if i < length xs then Ok (xs ! i, butlast (swap xs i (length xs - 1))) else Panic)"

text \<open>Moving elements from the end of one vector to the end of another, with \<open>pop_back\<close> and \<open>push_back\<close>.\<close>

fun move_back :: "nat \<Rightarrow> 'a list \<Rightarrow> 'a list \<Rightarrow> ('a list \<times> 'a list, 'e) result" where
  "move_back 0 xs ys = Ok (xs, ys)"
| "move_back (Suc n) xs ys = (if xs = [] then Panic else move_back n (butlast xs) (ys @ [last xs]))"

text \<open>The index of the first element with a property, \<open>find_index!\<close>.\<close>

fun find_index :: "('a \<Rightarrow> bool) \<Rightarrow> 'a list \<Rightarrow> nat option" where
  "find_index p [] = None"
| "find_index p (x # xs) = (if p x then Some 0 else map_option Suc (find_index p xs))"

lemma find_index_None [simp]: "find_index p xs = None \<longleftrightarrow> (\<forall>x\<in>set xs. \<not> p x)"
  by (induction xs) auto

lemma find_index_SomeD: "find_index p xs = Some i \<Longrightarrow> i < length xs \<and> p (xs ! i)"
  by (induction xs arbitrary: i) (auto split: if_splits)

lemma length_swap [simp]: "length (swap xs i j) = length xs"
  by (simp add: swap_def)

lemma nth_swap: "i < length xs \<Longrightarrow> j < length xs \<Longrightarrow> k < length xs \<Longrightarrow>
    swap xs i j ! k = (if k = i then xs ! j else if k = j then xs ! i else xs ! k)"
  by (simp add: swap_def nth_list_update)

lemma mset_swapped [simp]: "i < length xs \<Longrightarrow> j < length xs \<Longrightarrow> mset (swap xs i j) = mset xs"
  by (simp add: swap_def mset_swap)

lemma mset_butlast: "xs \<noteq> [] \<Longrightarrow> mset (butlast xs) = mset xs - {#last xs#}"
  by (induction xs) auto

lemma swap_remove_mset:
  assumes "i < length xs"
  shows "\<exists>ys. swap_remove xs i = Ok (xs ! i, ys) \<and> mset xs = add_mset (xs ! i) (mset ys) \<and> length ys = length xs - 1"
proof -
  let ?s = "swap xs i (length xs - 1)"
  have "xs \<noteq> []" "?s \<noteq> []" using assms by (auto simp: swap_def)
  moreover have "last ?s = xs ! i" using assms \<open>?s \<noteq> []\<close> by (auto simp: last_conv_nth nth_swap)
  moreover have "mset ?s = mset xs" by (rule mset_swapped) (use assms in auto)
  ultimately show ?thesis
    using assms mset_butlast [of ?s] by (auto simp: swap_remove_def nth_mem intro!: exI [of _ "butlast ?s"])
qed

lemma move_back_eq: "n \<le> length xs \<Longrightarrow> move_back n xs ys = Ok (take (length xs - n) xs, ys @ rev (drop (length xs - n) xs))"
proof (induction n arbitrary: xs ys)
  case (Suc n)
  then obtain zs z where xs: "xs = zs @ [z]" by (cases xs rule: rev_cases) auto
  then show ?case using Suc by simp
qed simp

subsection \<open>Vector maps\<close>

type_synonym 'v vec_map = "(node_id \<times> 'v) list"

definition vm_insert :: "'v vec_map \<Rightarrow> node_id \<Rightarrow> 'v \<Rightarrow> ('v vec_map, move_abort) result" where
  "vm_insert m k v = (if k \<in> fst ` set m then Err EKeyAlreadyExists else Ok (m @ [(k, v)]))"

definition vm_from_entries :: "'v vec_map \<Rightarrow> ('v vec_map, move_abort) result" where
  "vm_from_entries es = try_fold (\<lambda>m (k, v). vm_insert m k v) [] es"

definition vm_remove :: "'v vec_map \<Rightarrow> node_id \<Rightarrow> 'v vec_map" where
  "vm_remove m k = filter (\<lambda>(k', v). k' \<noteq> k) m"

definition vm_ok :: "'v vec_map \<Rightarrow> bool" where
  "vm_ok m \<longleftrightarrow> distinct (map fst m)"

lemma vm_insert_simps [simp]:
  "vm_insert m k v = Ok m' \<longleftrightarrow> k \<notin> fst ` set m \<and> m' = m @ [(k, v)]"
  "vm_insert m k v \<noteq> Panic" "vm_insert m k v = Err e \<longleftrightarrow> k \<in> fst ` set m \<and> e = EKeyAlreadyExists"
  by (auto simp: vm_insert_def)

lemma try_fold_vm_insert: "distinct (map fst (m @ es)) \<Longrightarrow> try_fold (\<lambda>m (k, v). vm_insert m k v) m es = Ok (m @ es)"
proof (induction es arbitrary: m)
  case (Cons e es)
  then have "fst e \<notin> fst ` set m" by auto
  then show ?case using Cons by (cases e) (simp add: vm_insert_def)
qed simp

lemma vm_from_entries_Ok: "vm_ok es \<Longrightarrow> vm_from_entries es = Ok es"
  using try_fold_vm_insert [of "[]" es] by (simp add: vm_from_entries_def vm_ok_def)

lemma vm_remove_keys [simp]: "fst ` set (vm_remove m k) = fst ` set m - {k}"
  by (force simp: vm_remove_def)

lemma vm_remove_ok: "vm_ok m \<Longrightarrow> vm_ok (vm_remove m k)"
  by (auto simp: vm_ok_def vm_remove_def distinct_map inj_on_def)

lemma map_of_vm_remove: "map_of (vm_remove m k) = (map_of m)(k := None)"
  by (induction m) (auto simp: vm_remove_def)

subsection \<open>Tables\<close>

text \<open>A table of objects is a mapping from their keys. The sum of a quantity over the entries of a table, and how the operations change it.\<close>

definition msum :: "('v \<Rightarrow> nat) \<Rightarrow> ('k, 'v) mapping \<Rightarrow> nat" where
  "msum f m = (\<Sum>k\<in>Mapping.keys m. f (the (Mapping.lookup m k)))"

lemma keys_None: "k \<notin> Mapping.keys m \<longleftrightarrow> Mapping.lookup m k = None"
  by (simp add: keys_is_none_rep Option.is_none_def)

lemma keys_Some: "Mapping.lookup m k = Some b \<Longrightarrow> k \<in> Mapping.keys m"
  using keys_None [of k m] by auto

lemma lookup_delete: "Mapping.lookup (Mapping.delete k m) j = (if j = k then None else Mapping.lookup m j)"
  by (cases "j = k") (auto simp: lookup_delete_neq)

lemma msum_empty [simp]: "msum f Mapping.empty = 0"
  by (simp add: msum_def)

lemma msum_cong: "(\<And>k v. Mapping.lookup m k = Some v \<Longrightarrow> f v = g v) \<Longrightarrow> msum f m = msum g m"
  unfolding msum_def using keys_None [of _ m] by (intro sum.cong [OF refl]) fastforce

lemma msum_update_new:
  assumes "finite (Mapping.keys m)" "Mapping.lookup m k = None"
  shows "msum f (Mapping.update k v m) = msum f m + f v"
proof -
  have k: "k \<notin> Mapping.keys m" using assms(2) by (simp only: keys_None)
  have "(\<Sum>j\<in>Mapping.keys m. f (the (Mapping.lookup (Mapping.update k v m) j))) = msum f m"
    unfolding msum_def using k by (intro sum.cong [OF refl]) (simp add: lookup_update' split: if_splits, blast)
  then show ?thesis using k assms(1) by (simp add: msum_def)
qed

lemma msum_delete:
  assumes "finite (Mapping.keys m)" "Mapping.lookup m k = Some u"
  shows "msum f (Mapping.delete k m) + f u = msum f m"
proof -
  have "(\<Sum>j\<in>Mapping.keys m - {k}. f (the (Mapping.lookup (Mapping.delete k m) j))) = (\<Sum>j\<in>Mapping.keys m - {k}. f (the (Mapping.lookup m j)))"
    by (intro sum.cong [OF refl]) (auto simp: lookup_delete)
  then show ?thesis using assms(2) sum.remove [OF assms(1) keys_Some [OF assms(2)], of "\<lambda>j. f (the (Mapping.lookup m j))"] by (simp add: msum_def)
qed

lemma msum_update:
  assumes "finite (Mapping.keys m)" "Mapping.lookup m k = Some u"
  shows "msum f (Mapping.update k v m) + f u = msum f m + f v"
proof -
  have "Mapping.update k v (Mapping.delete k m) = Mapping.update k v m" by (rule mapping_eqI) (simp add: lookup_update' lookup_delete)
  moreover have "msum f (Mapping.update k v (Mapping.delete k m)) = msum f (Mapping.delete k m) + f v"
    by (rule msum_update_new) (use assms(1) in simp_all)
  ultimately show ?thesis using msum_delete [OF assms, of f] by simp
qed

lemma card_keys: "finite (Mapping.keys m) \<Longrightarrow> card (Mapping.keys m) = msum (\<lambda>_. 1) m"
  by (simp add: msum_def)

end
