(* ===== verification/ApportionmentQueue.thy ===== *)
theory ApportionmentQueue
  imports MoveBase
begin

text \<open>
  The priority queue of \<open>staking/apportionment_queue.move\<close>: a binary max heap in a vector, where the children of index \<open>i\<close> are at
  \<open>2 * i + 1\<close> and \<open>2 * i + 2\<close>. The loops only use indices below the length of the vector. The locale \<open>max_queue\<close> is what a client
  relies on, and the heap is an instance of it.
\<close>

record 'a queue_entry =
  qe_priority :: nat
  qe_tie_breaker :: nat
  qe_value :: 'a

type_synonym 'a apportionment_queue = "'a queue_entry list"

definition higher_priority_than :: "'a queue_entry \<Rightarrow> 'a queue_entry \<Rightarrow> bool" where
  "higher_priority_than e1 e2 \<longleftrightarrow>
    qe_priority e1 > qe_priority e2 \<or> (qe_priority e1 = qe_priority e2 \<and> qe_tie_breaker e1 > qe_tie_breaker e2)"

definition queue_new :: "'a apportionment_queue" where
  "queue_new = []"

function bubble_down :: "'a apportionment_queue \<Rightarrow> nat \<Rightarrow> 'a apportionment_queue" where
  "bubble_down elements i =
    (if i < length elements then
       let left = i * 2 + 1; right = left + 1;
           m = (if left < length elements \<and> higher_priority_than (elements ! left) (elements ! i) then left else i);
           m = (if right < length elements \<and> higher_priority_than (elements ! right) (elements ! m) then right else m) in
       if m = i then elements else bubble_down (swap elements m i) m
     else elements)"
  by pat_completeness auto
termination
  by (relation "measure (\<lambda>(es, i). length es - i)") (auto split: if_splits)

declare bubble_down.simps [simp del]

function bubble_up :: "'a apportionment_queue \<Rightarrow> nat \<Rightarrow> 'a apportionment_queue" where
  "bubble_up elements i =
    (if i > 0 then
       let parent = (i - 1) div 2 in
       if higher_priority_than (elements ! i) (elements ! parent) then bubble_up (swap elements i parent) parent else elements
     else elements)"
  by pat_completeness auto
termination
  by (relation "measure (\<lambda>(es, i). i)") auto

declare bubble_up.simps [simp del]

definition pop_max :: "'a apportionment_queue \<Rightarrow> ('a queue_entry \<times> 'a apportionment_queue, move_abort) result" where
  "pop_max pq =
    and_then (ensure (length pq > 0) EPopFromEmptyHeap) (\<lambda>_.
    and_then (swap_remove pq 0) (\<lambda>(entry, entries). Ok (entry, bubble_down entries 0)))"

definition queue_insert :: "'a apportionment_queue \<Rightarrow> nat \<Rightarrow> nat \<Rightarrow> 'a \<Rightarrow> 'a apportionment_queue" where
  "queue_insert pq p t v =
    (let entries = pq @ [\<lparr>qe_priority = p, qe_tie_breaker = t, qe_value = v\<rparr>] in bubble_up entries (length entries - 1))"

subsection \<open>The heap invariant\<close>

definition entry_key :: "'a queue_entry \<Rightarrow> nat \<times> nat" where
  "entry_key e = (qe_priority e, qe_tie_breaker e)"

lemma higher_priority_key: "higher_priority_than e1 e2 \<longleftrightarrow> entry_key e2 < entry_key e1"
  by (auto simp: higher_priority_than_def entry_key_def less_prod_def)

definition parent :: "nat \<Rightarrow> nat" where
  "parent k = (k - 1) div 2"

definition above :: "'a queue_entry list \<Rightarrow> nat \<Rightarrow> nat \<Rightarrow> bool" where
  "above es i k \<longleftrightarrow> entry_key (es ! k) \<le> entry_key (es ! i)"

definition is_heap :: "'a queue_entry list \<Rightarrow> bool" where
  "is_heap es \<longleftrightarrow> (\<forall>k. 0 < k \<and> k < length es \<longrightarrow> above es (parent k) k)"

text \<open>A heap but for the edge above, or the edges below, the index that moves; the parent of this index is above its children.\<close>

definition skips :: "'a queue_entry list \<Rightarrow> nat \<Rightarrow> bool" where
  "skips es i \<longleftrightarrow> (\<forall>k. 0 < i \<and> 0 < k \<and> k < length es \<and> parent k = i \<longrightarrow> above es (parent i) k)"

definition heap_but_above :: "'a queue_entry list \<Rightarrow> nat \<Rightarrow> bool" where
  "heap_but_above es i \<longleftrightarrow> skips es i \<and> (\<forall>k. 0 < k \<and> k < length es \<and> k \<noteq> i \<longrightarrow> above es (parent k) k)"

definition heap_but_below :: "'a queue_entry list \<Rightarrow> nat \<Rightarrow> bool" where
  "heap_but_below es i \<longleftrightarrow> skips es i \<and> (\<forall>k. 0 < k \<and> k < length es \<and> parent k \<noteq> i \<longrightarrow> above es (parent k) k)"

lemma parent_less: "0 < k \<Longrightarrow> parent k < k"
  by (simp add: parent_def)

lemma parent_iff: "0 < k \<Longrightarrow> parent k = i \<longleftrightarrow> k = i * 2 + 1 \<or> k = i * 2 + 2"
  by (auto simp: parent_def)

lemma bubble_up_step:
  assumes "heap_but_above es i" "0 < i" "i < length es" "entry_key (es ! parent i) < entry_key (es ! i)"
  shows "heap_but_above (swap es i (parent i)) (parent i)"
proof -
  let ?p = "parent i" and ?s = "swap es i (parent i)"
  have p: "?p < i" "?p < length es" using parent_less [OF assms(2)] assms(3) by auto
  have nth: "?s ! k = (if k = i then es ! ?p else if k = ?p then es ! i else es ! k)" if "k < length es" for k
    using nth_swap [of i es ?p k] assms(3) p that by simp
  have edge: "above es (parent k) k" if "0 < k" "k < length es" "k \<noteq> i" for k using assms(1) that by (auto simp: heap_but_above_def)
  have skip: "above es ?p k" if "0 < k" "k < length es" "parent k = i" for k
    using assms(1,2) that by (auto simp: heap_but_above_def skips_def)
  have "above ?s (parent k) k" if k: "0 < k" "k < length es" "k \<noteq> ?p" for k
  proof -
    have pk: "parent k < k" "parent k < length es" using parent_less [OF k(1)] k(2) by auto
    consider "k = i" | "k \<noteq> i" "parent k = i" | "k \<noteq> i" "parent k = ?p" | "parent k \<noteq> i" "parent k \<noteq> ?p" "k \<noteq> i" by blast
    then show ?thesis
    proof cases
      case 1
      then show ?thesis using assms(4) p k by (simp add: above_def nth less_imp_le)
    next
      case 2
      then show ?thesis using skip [of k] k p pk by (simp add: above_def nth)
    next
      case 3
      then show ?thesis using edge [of k] k p pk assms(4) by (simp add: above_def nth)
    next
      case 4
      then show ?thesis using edge [of k] k pk by (simp add: above_def nth)
    qed
  qed
  moreover have "above ?s (parent ?p) k" if k: "0 < ?p" "0 < k" "k < length es" "parent k = ?p" for k
  proof -
    have pp: "parent ?p < ?p" using parent_less [OF k(1)] .
    have "above es (parent ?p) ?p" using edge [of ?p] k p by simp
    moreover have "above es ?p k" if "k \<noteq> i" using edge [of k] k that by simp
    ultimately show ?thesis using k p pp parent_less [OF k(2)] by (cases "k = i") (auto simp: above_def nth)
  qed
  ultimately show ?thesis by (simp add: heap_but_above_def skips_def)
qed

lemma bubble_up_heap: "heap_but_above es i \<Longrightarrow> i < length es \<Longrightarrow> is_heap (bubble_up es i) \<and> mset (bubble_up es i) = mset es"
proof (induction es i rule: bubble_up.induct)
  case (1 es i)
  show ?case
  proof (cases "0 < i \<and> higher_priority_than (es ! i) (es ! parent i)")
    case True
    then have p: "parent i < length es" using 1(3) parent_less [of i] by simp
    have "heap_but_above (swap es i (parent i)) (parent i)" using bubble_up_step [OF 1(2) _ 1(3)] True by (simp add: higher_priority_key)
    moreover have "bubble_up es i = bubble_up (swap es i (parent i)) (parent i)"
      using True by (subst bubble_up.simps) (simp add: parent_def Let_def)
    ultimately show ?thesis using 1 True p by (simp add: parent_def)
  next
    case False
    then have "bubble_up es i = es" by (subst bubble_up.simps) (auto simp: parent_def Let_def)
    moreover have "above es (parent k) k" if "0 < k" "k < length es" for k
      using 1(2) False that by (cases "k = i") (auto simp: heap_but_above_def above_def higher_priority_key)
    ultimately show ?thesis by (simp add: is_heap_def)
  qed
qed

lemma bubble_down_step:
  assumes h: "heap_but_below es i" and m: "0 < m" "m < length es" "parent m = i" "entry_key (es ! i) < entry_key (es ! m)"
    and best: "\<And>k. 0 < k \<Longrightarrow> k < length es \<Longrightarrow> parent k = i \<Longrightarrow> above es m k"
  shows "heap_but_below (swap es m i) m"
proof -
  let ?s = "swap es m i"
  have im: "i < m" "i < length es" using parent_less [OF m(1)] m by auto
  have nth: "?s ! k = (if k = m then es ! i else if k = i then es ! m else es ! k)" if "k < length es" for k
    using nth_swap [of m es i k] m(2) im that by simp
  have edge: "above es (parent k) k" if "0 < k" "k < length es" "parent k \<noteq> i" for k using h that by (auto simp: heap_but_below_def)
  have "above ?s (parent k) k" if k: "0 < k" "k < length es" "parent k \<noteq> m" for k
  proof -
    have pk: "parent k < k" "parent k < length es" using parent_less [OF k(1)] k(2) by auto
    consider "parent k = i" | "parent k \<noteq> i" "k = i" | "parent k \<noteq> i" "k \<noteq> i" by blast
    then show ?thesis
    proof cases
      case 1
      then show ?thesis using best [of k] k m im pk by (auto simp: above_def nth)
    next
      case 2
      then have "above es (parent i) m" using h m k by (auto simp: heap_but_below_def skips_def)
      then show ?thesis using 2 k m im pk by (auto simp: above_def nth)
    next
      case 3
      then show ?thesis using edge [of k] k pk m by (auto simp: above_def nth)
    qed
  qed
  moreover have "above ?s (parent m) k" if k: "0 < k" "k < length es" "parent k = m" for k
    using edge [of k] k m im parent_less [OF k(1)] by (auto simp: above_def nth)
  ultimately show ?thesis by (simp add: heap_but_below_def skips_def)
qed

lemma bubble_down_heap: "heap_but_below es i \<Longrightarrow> is_heap (bubble_down es i) \<and> mset (bubble_down es i) = mset es"
proof (induction es i rule: bubble_down.induct)
  case (1 es i)
  define l where "l = (if i * 2 + 1 < length es \<and> higher_priority_than (es ! (i * 2 + 1)) (es ! i) then i * 2 + 1 else i)"
  define m where "m = (if i * 2 + 1 + 1 < length es \<and> higher_priority_than (es ! (i * 2 + 1 + 1)) (es ! l) then i * 2 + 1 + 1 else l)"
  have step: "bubble_down es i = (if i < length es then if m = i then es else bubble_down (swap es m i) m else es)"
    by (subst bubble_down.simps) (simp add: Let_def l_def m_def)
  have children: "k = i * 2 + 1 \<or> k = i * 2 + 1 + 1" if "0 < k" "parent k = i" for k using parent_iff [OF that(1), of i] that(2) by simp
  have best: "above es m k" if "0 < k" "k < length es" "parent k = i" for k
    using children [OF that(1,3)] that(2) by (auto simp: m_def l_def above_def higher_priority_key)
  show ?case
  proof (cases "i < length es \<and> m \<noteq> i")
    case True
    then have m: "0 < m" "m < length es" "parent m = i" "entry_key (es ! i) < entry_key (es ! m)"
      by (auto simp: m_def l_def parent_def higher_priority_key split: if_splits)
    have "heap_but_below (swap es m i) m" by (rule bubble_down_step [OF 1(2) m best])
    then show ?thesis using 1(1) [OF _ refl refl l_def m_def] True m step by simp
  next
    case False
    have "above es (parent k) k" if "0 < k" "k < length es" for k
      using 1(2) False best [of k] that parent_less [of k] by (cases "parent k = i") (auto simp: heap_but_below_def)
    then show ?thesis using False step by (auto simp: is_heap_def)
  qed
qed

lemma heap_root: "is_heap es \<Longrightarrow> k < length es \<Longrightarrow> above es 0 k"
proof (induction k rule: less_induct)
  case (less k)
  show ?case
  proof (cases "k = 0")
    case False
    then have "above es 0 (parent k)" "above es (parent k) k" using less parent_less [of k] by (auto simp: is_heap_def)
    then show ?thesis by (auto simp: above_def)
  qed (simp add: above_def)
qed

lemma heap_snoc: "is_heap q \<Longrightarrow> heap_but_above (q @ [e]) (length q)"
proof -
  assume q: "is_heap q"
  have "\<not> (k < Suc (length q) \<and> 0 < k \<and> parent k = length q)" for k using parent_less [of k] by auto
  moreover have "above (q @ [e]) (parent k) k" if "0 < k" "k < length q" for k
    using q that parent_less [of k] by (auto simp: is_heap_def above_def nth_append)
  ultimately show ?thesis by (auto simp: heap_but_above_def skips_def less_Suc_eq)
qed

subsection \<open>The interface\<close>

locale max_queue =
  fixes ins :: "'q \<Rightarrow> 'e \<Rightarrow> 'q" and pop :: "'q \<Rightarrow> ('e \<times> 'q, move_abort) result" and entries :: "'q \<Rightarrow> 'e multiset"
    and invar :: "'q \<Rightarrow> bool" and key :: "'e \<Rightarrow> 'k::linorder"
  assumes ins_invar: "invar q \<Longrightarrow> invar (ins q e)" and ins_entries: "invar q \<Longrightarrow> entries (ins q e) = add_mset e (entries q)"
    and pop_max_entry: "invar q \<Longrightarrow> entries q \<noteq> {#} \<Longrightarrow> \<exists>e q'. pop q = Ok (e, q') \<and> invar q' \<and> entries q = add_mset e (entries q')
      \<and> (\<forall>e'\<in>#entries q. key e' \<le> key e)"
    and pop_empty: "invar q \<Longrightarrow> entries q = {#} \<Longrightarrow> pop q = Err EPopFromEmptyHeap"
begin

lemma pop_Ok:
  assumes "invar q" "pop q = Ok (e, q')"
  shows "invar q'" "entries q = add_mset e (entries q')" "e' \<in># entries q \<Longrightarrow> key e' \<le> key e"
proof -
  have "entries q \<noteq> {#}" using assms pop_empty by fastforce
  then show "invar q'" "entries q = add_mset e (entries q')" "e' \<in># entries q \<Longrightarrow> key e' \<le> key e"
    using pop_max_entry [OF assms(1)] assms(2) by auto
qed

end

interpretation aq: max_queue "\<lambda>q e. queue_insert q (qe_priority e) (qe_tie_breaker e) (qe_value e)" pop_max mset is_heap entry_key
proof (unfold_locales, goal_cases)
  case (1 q e)
  from bubble_up_heap [OF heap_snoc [OF 1]] show ?case by (simp add: queue_insert_def)
next
  case (2 q e)
  from bubble_up_heap [OF heap_snoc [OF 2]] show ?case by (simp add: queue_insert_def)
next
  case (3 q)
  then have q: "0 < length q" by auto
  from swap_remove_mset [OF this] obtain ys where ys: "swap_remove q 0 = (Ok (q ! 0, ys) :: (_, move_abort) result)" "mset q = add_mset (q ! 0) (mset ys)" by blast
  have nth: "ys ! k = q ! k" if "0 < k" "k < length ys" for k
    using ys(1) q that by (auto simp: swap_remove_def nth_butlast swap_def)
  have len: "length ys = length q - 1" using arg_cong [OF ys(2), of size] by simp
  have "heap_but_below ys 0"
    unfolding heap_but_below_def
  proof (intro conjI allI impI)
    fix k assume k: "0 < k \<and> k < length ys \<and> parent k \<noteq> 0"
    then have "above q (parent k) k" using 3(1) len by (auto simp: is_heap_def)
    then show "above ys (parent k) k" using k nth [of k] nth [of "parent k"] parent_less [of k] by (auto simp: above_def)
  qed (simp add: skips_def)
  from bubble_down_heap [OF this] have "is_heap (bubble_down ys 0)" "mset (bubble_down ys 0) = mset ys" by auto
  moreover have "\<forall>e'\<in>#mset q. entry_key e' \<le> entry_key (q ! 0)"
    using heap_root [OF 3(1)] by (auto simp: above_def in_set_conv_nth)
  ultimately show ?case using ys q by (intro exI [of _ "q ! 0"] exI [of _ "bubble_down ys 0"]) (simp add: pop_max_def)
next
  case (4 q)
  then show ?case by (simp add: pop_max_def)
qed

end
