(* ===== verification/Apportionment.thy ===== *)
theory Apportionment
  imports ApportionmentQueue
begin

text \<open>
  The apportionment of shards to storage nodes by stake, \<open>dhondt\<close> of \<open>staking/staking_inner.move\<close>: a lower bound for every node at
  once, then one shard at a time to the node with the highest quotient, with a limit for every node. Quotients are fixed-point
  numbers of \<open>std::uq64_64\<close> with 64 fractional bits. The assignment is the one of the D'Hondt method with ties broken by the
  priorities: the rounding of the quotients never changes a comparison.
\<close>

abbreviation (input) MIN_NODES_FOR_SHARDS_LIMIT :: nat where "MIN_NODES_FOR_SHARDS_LIMIT \<equiv> 20"
abbreviation (input) SHARDS_LIMIT_DENOMINATOR :: nat where "SHARDS_LIMIT_DENOMINATOR \<equiv> 10"

definition from_quotient :: "nat \<Rightarrow> nat \<Rightarrow> (nat, move_abort) result" where
  "from_quotient numerator denominator =
    (if denominator = 0 then Err EFixedPointRange
     else let quotient = numerator * 2 ^ 64 div denominator in
       if quotient = 0 \<and> numerator \<noteq> 0 \<or> quotient > 2 ^ 128 - 1 then Err EFixedPointRange else Ok quotient)"

definition max_shards_per_node :: "nat \<Rightarrow> nat \<Rightarrow> (nat, move_abort) result" where
  "max_shards_per_node n_nodes n_shards =
    (if n_nodes \<ge> MIN_NODES_FOR_SHARDS_LIMIT then Ok (n_shards div SHARDS_LIMIT_DENOMINATOR)
     else udiv_ceil (n_shards * MIN_NODES_FOR_SHARDS_LIMIT) (n_nodes * SHARDS_LIMIT_DENOMINATOR))"

text \<open>A node that has not reached the limit enters the queue with the quotient for one more shard.\<close>

definition push_quotient ::
  "nat list \<Rightarrow> nat \<Rightarrow> nat list \<Rightarrow> (nat, move_abort) result \<Rightarrow> nat apportionment_queue \<Rightarrow> nat \<Rightarrow> (nat apportionment_queue, move_abort) result" where
  "push_quotient stake max_shards shards tie_breaker quotients index =
    and_then (vec_get shards index) (\<lambda>s.
    if s \<noteq> max_shards then
      and_then (vec_get stake index) (\<lambda>st.
      and_then (from_quotient st (s + 1)) (\<lambda>quotient.
      and_then tie_breaker (\<lambda>t. Ok (queue_insert quotients quotient t index))))
    else Ok quotients)"

definition dhondt_step ::
  "nat list \<Rightarrow> nat \<Rightarrow> nat list \<Rightarrow> nat apportionment_queue \<Rightarrow> nat \<Rightarrow> (nat list \<times> nat apportionment_queue \<times> nat, move_abort) result" where
  "dhondt_step stake max_shards shards quotients n_shards_distributed =
    and_then (pop_max quotients) (\<lambda>(e, quotients).
    and_then (vec_get shards (qe_value e)) (\<lambda>s.
    and_then (uadd U64_MAX s 1) (\<lambda>s.
    let shards = shards[qe_value e := s] in
    and_then (push_quotient stake max_shards shards (Ok (qe_tie_breaker e)) quotients (qe_value e)) (\<lambda>quotients.
    and_then (uadd U64_MAX n_shards_distributed 1) (\<lambda>n_shards_distributed. Ok (shards, quotients, n_shards_distributed))))))"

text \<open>The loop ends when all shards are distributed; \<open>None\<close> would be a loop that never ends.\<close>

partial_function (option) dhondt_loop ::
  "nat list \<Rightarrow> nat \<Rightarrow> nat \<Rightarrow> nat list \<Rightarrow> nat apportionment_queue \<Rightarrow> nat \<Rightarrow> (nat list, move_abort) result option" where
  "dhondt_loop stake max_shards n_shards shards quotients n_shards_distributed =
    (if n_shards_distributed = n_shards then Some (Ok shards)
     else (case dhondt_step stake max_shards shards quotients n_shards_distributed of
         Ok s \<Rightarrow> dhondt_loop stake max_shards n_shards (fst s) (fst (snd s)) (snd (snd s))
       | Err e \<Rightarrow> Some (Err e)
       | Panic \<Rightarrow> Some Panic))"

definition dhondt_initial :: "nat list \<Rightarrow> nat \<Rightarrow> nat \<Rightarrow> nat \<Rightarrow> nat list" where
  "dhondt_initial stake n_shards max_shards total_stake =
    map (\<lambda>s. min (s div (total_stake div (n_shards + 1) + 1)) max_shards) stake"

definition dhondt :: "nat list \<Rightarrow> nat \<Rightarrow> nat list \<Rightarrow> (nat list, move_abort) result option" where
  "dhondt node_priorities n_shards stake =
    (case and_then (usum U64_MAX stake) (\<lambda>total_stake.
       and_then (ensure (total_stake > 0) ENoStake) (\<lambda>_.
       and_then (max_shards_per_node (length stake) n_shards) (\<lambda>max_shards.
       let shards = dhondt_initial stake n_shards max_shards total_stake in
       and_then (try_fold (\<lambda>q index. push_quotient stake max_shards shards (vec_get node_priorities index) q index)
         queue_new [0..<length stake]) (\<lambda>quotients.
       and_then (usum U64_MAX shards) (\<lambda>n_shards_distributed. Ok (max_shards, shards, quotients, n_shards_distributed)))))) of
       Ok (max_shards, shards, quotients, n_shards_distributed) \<Rightarrow>
         if length stake = 0 then Some (Ok [])
         else map_option (\<lambda>r. and_then r (try_map (\<lambda>s. expect (checked U16_MAX s))))
           (dhondt_loop stake max_shards n_shards shards quotients n_shards_distributed)
     | Err e \<Rightarrow> Some (Err e)
     | Panic \<Rightarrow> Some Panic)"

subsection \<open>Quotients\<close>

definition quot :: "nat \<Rightarrow> nat \<Rightarrow> nat" where
  "quot s k = s * 2 ^ 64 div k"

lemma quot_antimono: "0 < k \<Longrightarrow> k \<le> l \<Longrightarrow> quot s l \<le> quot s k"
  by (simp add: quot_def div_le_mono2)

lemma from_quotient_Ok:
  assumes "0 < k" "k \<le> 2 ^ 64" "s \<le> U64_MAX"
  shows "from_quotient s k = Ok (quot s k)"
proof -
  have "s * 2 ^ 64 div k \<le> s * 2 ^ 64" by simp
  also have "\<dots> \<le> (2 ^ 64 - 1) * 2 ^ 64" using assms(3) by (intro mult_le_mono1) simp
  also have "\<dots> \<le> 2 ^ 128 - 1" by simp
  finally have small: "s * 2 ^ 64 div k \<le> 2 ^ 128 - 1" .
  have "s * 2 ^ 64 div k \<noteq> 0" if "s \<noteq> 0"
  proof -
    have "k \<le> s * 2 ^ 64" using assms(2) that by (metis One_nat_def Suc_leI le_trans mult_le_mono1 nat_mult_1 neq0_conv)
    then show ?thesis using assms(1) by (simp add: div_greater_zero_iff)
  qed
  then show ?thesis using small assms(1) by (auto simp: from_quotient_def quot_def Let_def)
qed

text \<open>The comparison of fixed-point quotients is the comparison of the fractions.\<close>

lemma quot_exact:
  assumes "quot a k \<le> quot b l" "0 < k" "0 < l" "k * l \<le> 2 ^ 64"
  shows "a * l \<le> b * k"
proof (rule ccontr)
  assume "\<not> a * l \<le> b * k"
  then have lt: "b * k + 1 \<le> a * l" by simp
  let ?Q = "quot b l"
  have "?Q * l \<le> b * 2 ^ 64" by (simp add: quot_def)
  then have "?Q * l * k \<le> b * 2 ^ 64 * k" by (rule mult_le_mono1)
  then have "?Q * l * k + k * l \<le> b * 2 ^ 64 * k + 2 ^ 64" using assms(4) by (rule add_le_mono)
  moreover have "(?Q + 1) * k * l = ?Q * l * k + k * l" by (simp add: algebra_simps)
  ultimately have "(?Q + 1) * k * l \<le> b * 2 ^ 64 * k + 2 ^ 64" by (simp only:)
  also have "\<dots> = (b * k + 1) * 2 ^ 64" by (simp add: algebra_simps)
  also have "\<dots> \<le> a * l * 2 ^ 64" using lt by (rule mult_le_mono1)
  also have "\<dots> = a * 2 ^ 64 * l" by (simp add: ac_simps)
  finally have "(?Q + 1) * k \<le> a * 2 ^ 64" using assms(3) by (simp only: mult_le_cancel2)
  then have "?Q + 1 \<le> quot a k" using assms(2) by (simp add: quot_def less_eq_div_iff_mult_less_eq)
  then show False using assms(1) by simp
qed

lemma quot_eq:
  assumes "a * k = b * l" "0 < k" "0 < l"
  shows "quot a l = quot b k"
proof -
  have "quot a l = a * 2 ^ 64 * k div (l * k)" using assms(2) div_mult_mult2 [of k "a * 2 ^ 64" l] by (simp add: quot_def)
  also have "a * 2 ^ 64 * k = a * k * 2 ^ 64" by (simp only: ac_simps)
  also have "\<dots> = b * 2 ^ 64 * l" by (simp only: assms(1) ac_simps)
  also have "b * 2 ^ 64 * l div (l * k) = quot b k"
    using assms(3) div_mult_mult2 [of l "b * 2 ^ 64" k] by (simp add: quot_def mult.commute [of l k])
  finally show ?thesis .
qed

subsection \<open>The limit of shards per node\<close>

lemma max_shards_enough:
  assumes "0 < n_nodes" "n_nodes < MIN_NODES_FOR_SHARDS_LIMIT \<or> SHARDS_LIMIT_DENOMINATOR \<le> n_shards"
  shows "\<exists>m. max_shards_per_node n_nodes n_shards = Ok m \<and> n_shards \<le> n_nodes * m"
proof (cases "n_nodes \<ge> 20")
  case True
  then have "n_shards < 10 * (n_shards div 10 + 1)" "1 \<le> n_shards div 10" using assms(2) by auto
  then have "n_shards \<le> 20 * (n_shards div 10)" by simp
  also have "\<dots> \<le> n_nodes * (n_shards div 10)" using True by (rule mult_le_mono1)
  finally show ?thesis using True by (simp add: max_shards_per_node_def)
next
  case False
  have "n_shards * 20 \<le> n_nodes * 10 * div_ceil (n_shards * 20) (n_nodes * 10)"
    using div_ceil_le_iff [of "n_nodes * 10" "n_shards * 20" "div_ceil (n_shards * 20) (n_nodes * 10)"] assms(1) by (simp add: mult.commute)
  then have "n_shards \<le> n_nodes * div_ceil (n_shards * 20) (n_nodes * 10)" by (simp add: mult.assoc mult.left_commute [of _ 10])
  then show ?thesis using False assms(1) by (simp add: max_shards_per_node_def udiv_ceil_def)
qed

subsection \<open>The loop\<close>

text \<open>The entry of a node in the queue, and the state of the loop. Where a node has a shard and another one could take one more, the
  quotient that gave the first its last shard is at least the quotient that the second asks with.\<close>

definition quotient_entry :: "nat list \<Rightarrow> nat list \<Rightarrow> nat list \<Rightarrow> nat \<Rightarrow> nat queue_entry" where
  "quotient_entry prios stake shards i =
    \<lparr>qe_priority = quot (stake ! i) (shards ! i + 1), qe_tie_breaker = prios ! i, qe_value = i\<rparr>"

definition queued :: "nat list \<Rightarrow> nat list \<Rightarrow> nat \<Rightarrow> nat list \<Rightarrow> nat list \<Rightarrow> nat queue_entry multiset" where
  "queued prios stake m shards ks = mset (map (quotient_entry prios stake shards) (filter (\<lambda>i. shards ! i \<noteq> m) ks))"

definition best_quotients :: "nat list \<Rightarrow> nat list \<Rightarrow> nat \<Rightarrow> nat list \<Rightarrow> bool" where
  "best_quotients prios stake m shards \<longleftrightarrow> (\<forall>i j. i < length stake \<and> j < length stake \<and> 0 < shards ! i \<and> shards ! j < m \<longrightarrow>
    (quot (stake ! j) (shards ! j + 1), prios ! j) \<le> (quot (stake ! i) (shards ! i), prios ! i))"

definition dhondt_state :: "nat list \<Rightarrow> nat list \<Rightarrow> nat \<Rightarrow> nat list \<Rightarrow> nat apportionment_queue \<Rightarrow> nat \<Rightarrow> bool" where
  "dhondt_state prios stake m shards q d \<longleftrightarrow> length shards = length stake \<and> (\<forall>s\<in>set shards. s \<le> m) \<and> sum_list shards = d
    \<and> is_heap q \<and> mset q = queued prios stake m shards [0..<length stake] \<and> best_quotients prios stake m shards"

lemma push_quotient_eq:
  assumes "i < length shards" "length shards = length stake" "shards ! i < 2 ^ 64" "stake ! i \<le> U64_MAX" "is_heap q" "t = prios ! i"
  shows "\<exists>q'. push_quotient stake m shards (Ok t) q i = Ok q' \<and> is_heap q' \<and> mset q' = mset q + queued prios stake m shards [i]"
proof (cases "shards ! i = m")
  case True
  then show ?thesis using assms by (simp add: push_quotient_def vec_get_def queued_def)
next
  case False
  have "from_quotient (stake ! i) (shards ! i + 1) = Ok (quot (stake ! i) (shards ! i + 1))"
    by (rule from_quotient_Ok) (use assms in auto)
  then have "push_quotient stake m shards (Ok t) q i = Ok (queue_insert q (quot (stake ! i) (shards ! i + 1)) t i)"
    using assms False by (simp add: push_quotient_def vec_get_def)
  then show ?thesis
    using False assms aq.ins_invar [OF assms(5), of "quotient_entry prios stake shards i"]
      aq.ins_entries [OF assms(5), of "quotient_entry prios stake shards i"]
    by (simp add: queued_def quotient_entry_def)
qed

lemma queued_update:
  assumes "i < length shards" "shards ! i \<noteq> m" "length shards = n"
  shows "queued prios stake m shards [0..<n] = add_mset (quotient_entry prios stake shards i) (queued prios stake m (shards[i := s]) (filter (\<lambda>k. k \<noteq> i) [0..<n]))"
    and "queued prios stake m (shards[i := s]) [0..<n]
      = queued prios stake m (shards[i := s]) [i] + queued prios stake m (shards[i := s]) (filter (\<lambda>k. k \<noteq> i) [0..<n])"
proof -
  have split: "mset [0..<n] = add_mset i (mset (filter (\<lambda>k. k \<noteq> i) [0..<n]))"
  proof -
    have "filter (\<lambda>k. k \<noteq> i) [0..<n] = filter (\<lambda>k. i \<noteq> k) [0..<n]" by (intro filter_cong) auto
    also have "\<dots> = remove1 i [0..<n]" by (simp add: distinct_remove1_removeAll removeAll_filter_not_eq)
    finally show ?thesis using assms(1,3) by simp
  qed
  have queued_mset: "queued prios stake m sh ks = image_mset (quotient_entry prios stake sh) (filter_mset (\<lambda>i. sh ! i \<noteq> m) (mset ks))" for sh ks
    by (simp add: queued_def)
  have same: "queued prios stake m (shards[i := s]) (filter (\<lambda>k. k \<noteq> i) [0..<n]) = queued prios stake m shards (filter (\<lambda>k. k \<noteq> i) [0..<n])"
    unfolding queued_def filter_filter
    by (intro arg_cong [where f = mset] map_cong filter_cong) (auto simp: quotient_entry_def)
  show "queued prios stake m shards [0..<n] = add_mset (quotient_entry prios stake shards i) (queued prios stake m (shards[i := s]) (filter (\<lambda>k. k \<noteq> i) [0..<n]))"
    unfolding same unfolding queued_mset split using assms(2) by simp
  show "queued prios stake m (shards[i := s]) [0..<n]
      = queued prios stake m (shards[i := s]) [i] + queued prios stake m (shards[i := s]) (filter (\<lambda>k. k \<noteq> i) [0..<n])"
    unfolding queued_mset split by simp
qed

lemma best_quotients_step:
  assumes "best_quotients prios stake m shards" "i < length stake" "length shards = length stake" "shards ! i < m"
    and top: "\<And>j. j < length stake \<Longrightarrow> shards ! j \<noteq> m \<Longrightarrow> entry_key (quotient_entry prios stake shards j) \<le> entry_key (quotient_entry prios stake shards i)"
  shows "best_quotients prios stake m (shards[i := shards ! i + 1])"
  unfolding best_quotients_def
proof (intro allI impI)
  fix a b assume ab: "a < length stake \<and> b < length stake \<and> 0 < shards[i := shards ! i + 1] ! a \<and> shards[i := shards ! i + 1] ! b < m"
  have old: "(quot (stake ! b) (shards ! b + 1), prios ! b) \<le> (quot (stake ! a) (shards ! a), prios ! a)" if "0 < shards ! a" "shards ! b < m"
    using assms(1) ab that by (auto simp: best_quotients_def)
  have less: "quot (stake ! i) (shards ! i + 2) \<le> quot (stake ! i) (shards ! i + 1)" by (rule quot_antimono) auto
  show "(quot (stake ! b) (shards[i := shards ! i + 1] ! b + 1), prios ! b) \<le> (quot (stake ! a) (shards[i := shards ! i + 1] ! a), prios ! a)"
  proof (cases "a = i")
    case True
    then show ?thesis
      using top [of b] ab less assms(2,3) by (cases "b = i") (auto simp: quotient_entry_def entry_key_def less_eq_prod_def)
  next
    case False
    then show ?thesis
      using old ab less assms(2,3,4) by (cases "b = i") (auto simp: less_eq_prod_def)
  qed
qed

lemma sum_list_all_max: "\<forall>s\<in>set xs. s = m \<Longrightarrow> sum_list xs = length xs * (m :: nat)"
  by (induction xs) auto

lemma dhondt_step_state:
  assumes st: "dhondt_state prios stake m shards q d" and d: "d < n" "n \<le> length stake * m" "n \<le> U16_MAX"
    and stake: "\<forall>s\<in>set stake. s \<le> U64_MAX"
  shows "\<exists>shards' q'. dhondt_step stake m shards q d = Ok (shards', q', d + 1) \<and> dhondt_state prios stake m shards' q' (d + 1)
    \<and> list_all2 (\<le>) shards shards'"
proof -
  have len: "length shards = length stake" and heap: "is_heap q" and mq: "mset q = queued prios stake m shards [0..<length stake]"
    and best: "best_quotients prios stake m shards" and le: "\<forall>s\<in>set shards. s \<le> m" and sum: "sum_list shards = d"
    using st by (auto simp: dhondt_state_def)
  have "\<exists>k<length stake. shards ! k \<noteq> m"
  proof (rule ccontr)
    assume "\<not> ?thesis"
    then have "sum_list shards = length shards * m" using len by (intro sum_list_all_max) (auto simp: in_set_conv_nth)
    then show False using sum d len by simp
  qed
  then obtain k where "k < length stake" "shards ! k \<noteq> m" by blast
  then have "quotient_entry prios stake shards k \<in># mset q" unfolding mq queued_def by auto
  then have "mset q \<noteq> {#}" by auto
  from aq.pop_max_entry [OF heap this] obtain e q1 where
    pop: "pop_max q = Ok (e, q1)" "is_heap q1" "mset q = add_mset e (mset q1)" "\<forall>e'\<in>#mset q. entry_key e' \<le> entry_key e" by blast
  then have "e \<in># queued prios stake m shards [0..<length stake]" using mq by simp
  then obtain i where i: "i < length stake" "shards ! i \<noteq> m" "e = quotient_entry prios stake shards i" by (auto simp: queued_def)
  then have val: "qe_value e = i" "qe_tie_breaker e = prios ! i" by (simp_all add: quotient_entry_def)
  have lt: "shards ! i < m" using le i len by (metis le_neq_implies_less nth_mem)
  let ?s = "shards[i := shards ! i + 1]"
  have small: "shards ! i \<le> d" using elem_le_sum_list [of i shards] i(1) len sum by simp
  have "stake ! i \<le> U64_MAX" using stake i(1) by simp
  then obtain q2 where push: "push_quotient stake m ?s (Ok (qe_tie_breaker e)) q1 i = Ok q2" "is_heap q2"
      "mset q2 = mset q1 + queued prios stake m ?s [i]"
    using push_quotient_eq [of i ?s stake q1 "qe_tie_breaker e" prios m] i(1) len pop(2) val(2) small d by auto
  have "dhondt_step stake m shards q d = Ok (?s, q2, d + 1)"
    using pop(1) push(1) val(1) i(1) len small d by (simp add: dhondt_step_def vec_get_def Let_def)
  moreover have "mset q2 = queued prios stake m ?s [0..<length stake]"
    using push(3) pop(3) mq queued_update [of i shards m "length stake" prios stake "shards ! i + 1"] i len by simp
  moreover have "best_quotients prios stake m ?s"
    using best_quotients_step [OF best i(1) len lt] pop(4) mq i(3) by (auto simp: queued_def)
  moreover have "sum_list ?s = d + 1" using sum_list_update [of i shards "shards ! i + 1"] i(1) len sum small by simp
  moreover have "\<forall>s\<in>set ?s. s \<le> m" using le lt set_update_subset_insert [of shards i "shards ! i + 1"] by auto
  moreover have "list_all2 (\<le>) shards ?s" using i(1) len by (auto simp: list_all2_conv_all_nth nth_list_update)
  ultimately show ?thesis using push(2) len by (auto simp: dhondt_state_def)
qed

lemma dhondt_loop_state:
  assumes "dhondt_state prios stake m shards q d" "d \<le> n" "n \<le> length stake * m" "n \<le> U16_MAX" "\<forall>s\<in>set stake. s \<le> U64_MAX"
  shows "\<exists>shards' q'. dhondt_loop stake m n shards q d = Some (Ok shards') \<and> dhondt_state prios stake m shards' q' n \<and> list_all2 (\<le>) shards shards'"
  using assms(1,2)
proof (induction "n - d" arbitrary: shards q d)
  case 0
  then show ?case by (subst dhondt_loop.simps) (auto simp: list_all2_refl)
next
  case (Suc k)
  then have d: "d < n" by simp
  from dhondt_step_state [OF Suc.prems(1) d assms(3-5)] obtain shards1 q1 where
    s: "dhondt_step stake m shards q d = Ok (shards1, q1, d + 1)" "dhondt_state prios stake m shards1 q1 (d + 1)" "list_all2 (\<le>) shards shards1" by blast
  have "k = n - (d + 1)" "d + 1 \<le> n" using Suc(2) d by auto
  from Suc(1) [OF this(1) s(2) this(2)] obtain shards' q' where
    "dhondt_loop stake m n shards1 q1 (d + 1) = Some (Ok shards')" "dhondt_state prios stake m shards' q' n" "list_all2 (\<le>) shards1 shards'" by blast
  moreover from list_all2_trans [OF _ s(3) this(3)] have "list_all2 (\<le>) shards shards'" by (meson order_trans)
  ultimately show ?case using d s(1) by (subst dhondt_loop.simps) auto
qed

subsection \<open>The initial assignment\<close>

lemma queued_snoc: "queued prios stake m shards (ks @ [k]) = queued prios stake m shards ks + queued prios stake m shards [k]"
  by (simp add: queued_def)

lemma initial_sum_le: "sum_list (dhondt_initial stake n m (sum_list stake)) \<le> n"
proof -
  let ?D = "sum_list stake div (n + 1) + 1"
  have "sum_list (dhondt_initial stake n m (sum_list stake)) * ?D \<le> sum_list stake" unfolding dhondt_initial_def
  proof -
    have "sum_list (map (\<lambda>s. min (s div D) m) xs) * D \<le> sum_list xs" for D xs
    proof (induction xs)
      case (Cons x xs)
      have "min (x div D) m * D \<le> x div D * D" by (intro mult_le_mono1) simp
      also have "\<dots> \<le> x" by simp
      finally have "min (x div D) m * D \<le> x" .
      then show ?case using Cons by (simp add: add_mult_distrib)
    qed simp
    then show "sum_list (map (\<lambda>s. min (s div ?D) m) stake) * ?D \<le> sum_list stake" .
  qed
  moreover have "sum_list stake < ?D * (n + 1)" using dividend_less_div_times [of "n + 1" "sum_list stake"] by (simp add: algebra_simps)
  ultimately have "sum_list (dhondt_initial stake n m (sum_list stake)) * ?D < (n + 1) * ?D" by (simp add: mult.commute)
  then show ?thesis by (simp only: mult_less_cancel2) simp
qed

lemma initial_best: "best_quotients prios stake m (dhondt_initial stake n m tot)"
  unfolding best_quotients_def
proof (intro allI impI)
  let ?D = "tot div (n + 1) + 1" and ?s = "dhondt_initial stake n m tot"
  fix i j assume ij: "i < length stake \<and> j < length stake \<and> 0 < ?s ! i \<and> ?s ! j < m"
  then have i: "?s ! i \<le> stake ! i div ?D" and j: "?s ! j = stake ! j div ?D" by (auto simp: dhondt_initial_def)
  have "stake ! j < ?D * (?s ! j + 1)" using dividend_less_times_div [of ?D "stake ! j"] j by simp
  then have "stake ! j * 2 ^ 64 < ?D * (?s ! j + 1) * 2 ^ 64" by (rule mult_less_mono1) simp
  also have "\<dots> = ?D * 2 ^ 64 * (?s ! j + 1)" by (simp only: ac_simps)
  finally have "quot (stake ! j) (?s ! j + 1) < ?D * 2 ^ 64" by (simp only: quot_def less_mult_imp_div_less)
  also have "?D * 2 ^ 64 \<le> quot (stake ! i) (?s ! i)"
  proof -
    have "?s ! i * ?D \<le> stake ! i div ?D * ?D" using i by (rule mult_le_mono1)
    also have "\<dots> \<le> stake ! i" by (rule div_times_less_eq_dividend)
    finally have "?s ! i * ?D * 2 ^ 64 \<le> stake ! i * 2 ^ 64" by (rule mult_le_mono1)
    then have "?D * 2 ^ 64 * ?s ! i \<le> stake ! i * 2 ^ 64" by (simp only: ac_simps)
    then show ?thesis using ij by (simp only: quot_def less_eq_div_iff_mult_less_eq)
  qed
  finally show "(quot (stake ! j) (?s ! j + 1), prios ! j) \<le> (quot (stake ! i) (?s ! i), prios ! i)" by (simp add: less_eq_prod_def)
qed

lemma initial_state:
  fixes m :: nat
  assumes "length prios = length stake" "sum_list stake \<le> U64_MAX" "n \<le> U16_MAX"
  defines "shards \<equiv> dhondt_initial stake n m (sum_list stake)"
  shows "\<exists>q. try_fold (\<lambda>q index. push_quotient stake m shards (vec_get prios index) q index) queue_new [0..<length stake] = Ok q
    \<and> dhondt_state prios stake m shards q (sum_list shards)"
proof -
  have len: "length shards = length stake" by (simp add: shards_def dhondt_initial_def)
  have sum: "sum_list shards \<le> n" unfolding shards_def by (rule initial_sum_le)
  have "\<exists>q. try_fold (\<lambda>q index. push_quotient stake m shards (vec_get prios index) q index) queue_new [0..<length stake] = Ok q
    \<and> is_heap q \<and> mset q = queued prios stake m shards [0..<length [0..<length stake]]"
  proof (rule try_fold_invariant)
    fix k q assume k: "k < length [0..<length stake]" and q: "is_heap q \<and> mset q = queued prios stake m shards [0..<k]"
    have "shards ! k \<le> sum_list shards" "stake ! k \<le> sum_list stake" using elem_le_sum_list [of k shards] elem_le_sum_list [of k stake] k len by simp_all
    then have "shards ! k < 2 ^ 64" "stake ! k \<le> U64_MAX" using sum assms(2,3) by auto
    then show "\<exists>q'. push_quotient stake m shards (vec_get prios ([0..<length stake] ! k)) q ([0..<length stake] ! k) = Ok q'
        \<and> is_heap q' \<and> mset q' = queued prios stake m shards [0..<Suc k]"
      using push_quotient_eq [of k shards stake q "prios ! k" prios m] k q len assms(1) by (simp add: vec_get_def queued_snoc)
  qed (simp add: queue_new_def is_heap_def queued_def)
  moreover have "\<forall>s\<in>set shards. s \<le> m" by (auto simp: shards_def dhondt_initial_def)
  moreover have "best_quotients prios stake m shards" unfolding shards_def by (rule initial_best)
  ultimately show ?thesis using len by (simp add: dhondt_state_def)
qed

lemma dhondt_result:
  assumes stake: "0 < sum_list stake" "sum_list stake \<le> U64_MAX" and prios: "length prios = length stake" and n: "n \<le> U16_MAX"
    and limit: "length stake < MIN_NODES_FOR_SHARDS_LIMIT \<or> SHARDS_LIMIT_DENOMINATOR \<le> n"
  shows "\<exists>shards m. dhondt prios n stake = Some (Ok shards) \<and> max_shards_per_node (length stake) n = Ok m
    \<and> length shards = length stake \<and> sum_list shards = n \<and> list_all (\<lambda>s. s \<le> m) shards
    \<and> list_all2 (\<le>) (dhondt_initial stake n m (sum_list stake)) shards
    \<and> (\<forall>i j. i < length stake \<and> j < length stake \<and> 0 < shards ! i \<and> shards ! j < m \<longrightarrow>
        stake ! j * shards ! i < stake ! i * (shards ! j + 1)
        \<or> stake ! j * shards ! i = stake ! i * (shards ! j + 1) \<and> prios ! j \<le> prios ! i)"
proof -
  have "stake \<noteq> []" using stake(1) by auto
  then obtain m where m: "max_shards_per_node (length stake) n = Ok m" "n \<le> length stake * m" using max_shards_enough [OF _ limit] by auto
  have st: "\<forall>s\<in>set stake. s \<le> U64_MAX" using stake(2) by (auto dest!: member_le_sum_list)
  let ?s = "dhondt_initial stake n m (sum_list stake)"
  have sum: "sum_list ?s \<le> n" by (rule initial_sum_le)
  obtain q where q: "try_fold (\<lambda>q index. push_quotient stake m ?s (vec_get prios index) q index) queue_new [0..<length stake] = Ok q"
      "dhondt_state prios stake m ?s q (sum_list ?s)" using initial_state [OF prios stake(2) n] by blast
  from dhondt_loop_state [OF q(2) sum m(2) n st] obtain shards q' where
    r: "dhondt_loop stake m n ?s q (sum_list ?s) = Some (Ok shards)" "dhondt_state prios stake m shards q' n" "list_all2 (\<le>) ?s shards" by blast
  have sh: "length shards = length stake" "sum_list shards = n" "\<forall>s\<in>set shards. s \<le> m" "best_quotients prios stake m shards"
    using r(2) by (auto simp: dhondt_state_def)
  have bound: "s \<le> U16_MAX" if "s \<in> set shards" for s using member_le_sum_list [OF that] sh(2) n by simp
  then have "try_map (\<lambda>s. expect (checked U16_MAX s)) shards = (Ok (map (\<lambda>s. s) shards) :: (_, move_abort) result)"
    by (intro try_map_Ok) (simp add: checked_def)
  then have "dhondt prios n stake = Some (Ok shards)"
    using q(1) r(1) m(1) stake sum n \<open>stake \<noteq> []\<close> usum_Ok [where 'a = move_abort, of stake U64_MAX] usum_Ok [where 'a = move_abort, of ?s U64_MAX] by (simp add: dhondt_def Let_def)
  moreover have "stake ! j * shards ! i < stake ! i * (shards ! j + 1) \<or> stake ! j * shards ! i = stake ! i * (shards ! j + 1) \<and> prios ! j \<le> prios ! i"
    if ij: "i < length stake" "j < length stake" "0 < shards ! i" "shards ! j < m" for i j
  proof -
    have le: "(quot (stake ! j) (shards ! j + 1), prios ! j) \<le> (quot (stake ! i) (shards ! i), prios ! i)"
      using sh(4) ij by (auto simp: best_quotients_def)
    have "(shards ! j + 1) * shards ! i \<le> 2 ^ 16 * 2 ^ 16"
      using bound [of "shards ! i"] bound [of "shards ! j"] ij sh(1) by (intro mult_le_mono) auto
    then have small: "(shards ! j + 1) * shards ! i \<le> 2 ^ 64" by (rule order_trans) simp
    have "stake ! j * shards ! i \<le> stake ! i * (shards ! j + 1)"
      by (rule quot_exact [OF _ _ ij(3) small]) (use le in \<open>auto simp: less_eq_prod_def\<close>)
    moreover have "prios ! j \<le> prios ! i" if "stake ! j * shards ! i = stake ! i * (shards ! j + 1)"
      using le quot_eq [OF that ij(3)] by (simp add: less_eq_prod_def)
    ultimately show ?thesis by linarith
  qed
  ultimately show ?thesis using m(1) sh r(3) by (auto simp: list_all_iff)
qed

subsection \<open>Properties\<close>

text \<open>C10: With stake in the system, and at least ten shards if there are twenty or more nodes, the apportionment ends and assigns all
  shards, no node gets more than the limit, and every node at least the integer part of its stake over the distribution number. It
  is the D'Hondt assignment: no node below the limit would have used a further shard with a higher quotient of stake and shards
  than the one with which another node got its last shard, and equal quotients are decided by the priorities.\<close>

theorem dhondt_correct:
  assumes stake: "0 < sum_list stake" "sum_list stake \<le> U64_MAX" and prios: "length prios = length stake" and n: "n \<le> U16_MAX"
    and limit: "length stake < MIN_NODES_FOR_SHARDS_LIMIT \<or> SHARDS_LIMIT_DENOMINATOR \<le> n"
  shows "\<exists>shards m. dhondt prios n stake = Some (Ok shards) \<and> max_shards_per_node (length stake) n = Ok m
    \<and> length shards = length stake \<and> sum_list shards = n \<and> list_all (\<lambda>s. s \<le> m) shards
    \<and> list_all2 (\<le>) (dhondt_initial stake n m (sum_list stake)) shards
    \<and> (\<forall>i j. i < length stake \<and> j < length stake \<and> 0 < shards ! i \<and> shards ! j < m \<longrightarrow>
        stake ! j * shards ! i < stake ! i * (shards ! j + 1)
        \<or> stake ! j * shards ! i = stake ! i * (shards ! j + 1) \<and> prios ! j \<le> prios ! i)"
  using dhondt_result [OF assms] .

theorem dhondt_correct_witness:
  "\<exists>shards. dhondt [3, 2, 1] 10 [60, 30, 10] = Some (Ok shards) \<and> length shards = 3 \<and> sum_list shards = 10
    \<and> list_all2 (\<le>) (dhondt_initial [60, 30, 10] 10 7 100) shards"
  using dhondt_correct [of "[60, 30, 10]" "[3, 2, 1]" 10]
  by (auto simp: max_shards_per_node_def udiv_ceil_def div_ceil_def)

text \<open>With twenty nodes and fewer than ten shards the limit is zero, and the queue is empty although shards are left.\<close>

lemma dhondt_few_shards:
  assumes "length stake = 20" "0 < sum_list stake" "sum_list stake \<le> U64_MAX" "0 < n" "n < 10"
  shows "dhondt prios n stake = Some (Err EPopFromEmptyHeap)"
proof -
  have m: "max_shards_per_node (length stake) n = Ok 0" using assms by (simp add: max_shards_per_node_def)
  have s: "dhondt_initial stake n 0 (sum_list stake) = replicate 20 0" using assms(1) by (simp add: dhondt_initial_def map_replicate_const)
  have "try_fold (\<lambda>q index. push_quotient stake 0 (replicate 20 0) (vec_get prios index) q index) queue_new ks = Ok queue_new"
    if "\<forall>k\<in>set ks. k < 20" for ks using that by (induction ks) (auto simp: push_quotient_def vec_get_def)
  then have "try_fold (\<lambda>q index. push_quotient stake 0 (replicate 20 0) (vec_get prios index) q index) queue_new [0..<length stake] = Ok queue_new"
    using assms(1) by simp
  moreover have "dhondt_loop stake 0 n (replicate 20 0) queue_new 0 = Some (Err EPopFromEmptyHeap)"
    using assms(4) by (subst dhondt_loop.simps) (simp add: dhondt_step_def pop_max_def queue_new_def)
  ultimately show ?thesis
    using assms m s usum_Ok [where 'a = move_abort, of stake U64_MAX] usum_Ok [where 'a = move_abort, of "replicate 20 0" U64_MAX] by (simp add: dhondt_def Let_def sum_list_replicate)
qed

end
