(* ===== verification/ActiveSet.thy ===== *)
theory ActiveSet
  imports MoveBase
begin

text \<open>
  The active set of storage nodes, \<open>staking/active_set.move\<close>: the nodes with the most stake, up to a maximal size, with the sum of
  their stake. The set is shown to implement a map from nodes to stake in which a new node replaces a node with the smallest stake.
\<close>

record active_set_entry =
  ae_node_id :: node_id
  ae_staked_amount :: nat

record active_set =
  as_max_size :: nat
  as_threshold_stake :: nat
  as_nodes :: "active_set_entry list"
  as_total_stake :: nat

definition active_set_new :: "nat \<Rightarrow> nat \<Rightarrow> (active_set, move_abort) result" where
  "active_set_new max_size threshold_stake =
    and_then (ensure (max_size > 0) EZeroMaxSize) (\<lambda>_.
    Ok \<lparr>as_max_size = max_size, as_threshold_stake = threshold_stake, as_nodes = [], as_total_stake = 0\<rparr>)"

definition active_set_update :: "active_set \<Rightarrow> node_id \<Rightarrow> nat \<Rightarrow> (bool \<times> active_set, move_abort) result" where
  "active_set_update self node_id staked_amount =
    (case find_index (\<lambda>entry. ae_node_id entry = node_id) (as_nodes self) of
       None \<Rightarrow> Ok (False, self)
     | Some idx \<Rightarrow>
         and_then (uadd U64_MAX (as_total_stake self) staked_amount) (\<lambda>total.
         and_then (usub total (ae_staked_amount (as_nodes self ! idx))) (\<lambda>total.
         Ok (True, self\<lparr>as_total_stake := total,
           as_nodes := (as_nodes self)[idx := (as_nodes self ! idx)\<lparr>ae_staked_amount := staked_amount\<rparr>]\<rparr>))))"

text \<open>The loop over all nodes for the smallest stake below the given one.\<close>

definition smallest_stake :: "active_set_entry list \<Rightarrow> nat \<Rightarrow> nat \<times> nat option" where
  "smallest_stake nodes staked_amount =
    fold (\<lambda>i (min_stake, min_idx).
      if ae_staked_amount (nodes ! i) < min_stake then (ae_staked_amount (nodes ! i), Some i) else (min_stake, min_idx))
      [0..<length nodes] (staked_amount, None)"

definition active_set_insert :: "active_set \<Rightarrow> node_id \<Rightarrow> nat \<Rightarrow> (bool \<times> active_set, move_abort) result" where
  "active_set_insert self node_id staked_amount =
    and_then (ensure (find_index (\<lambda>entry. ae_node_id entry = node_id) (as_nodes self) = None) EDuplicateInsertion) (\<lambda>_.
    and_then (expect (checked U16_MAX (length (as_nodes self)))) (\<lambda>len.
    let entry = \<lparr>ae_node_id = node_id, ae_staked_amount = staked_amount\<rparr> in
    if len < as_max_size self then
      and_then (uadd U64_MAX (as_total_stake self) staked_amount) (\<lambda>total.
      Ok (True, self\<lparr>as_total_stake := total, as_nodes := as_nodes self @ [entry]\<rparr>))
    else
      (case smallest_stake (as_nodes self) staked_amount of
         (min_stake, Some min_idx) \<Rightarrow>
           and_then (usub (as_total_stake self) min_stake) (\<lambda>total.
           and_then (uadd U64_MAX total staked_amount) (\<lambda>total.
           Ok (True, self\<lparr>as_total_stake := total, as_nodes := (as_nodes self)[min_idx := entry]\<rparr>)))
       | (min_stake, None) \<Rightarrow> Ok (False, self))))"

definition active_set_remove :: "active_set \<Rightarrow> node_id \<Rightarrow> (active_set, move_abort) result" where
  "active_set_remove self node_id =
    (case find_index (\<lambda>entry. ae_node_id entry = node_id) (as_nodes self) of
       None \<Rightarrow> Ok self
     | Some idx \<Rightarrow>
         and_then (swap_remove (as_nodes self) idx) (\<lambda>(entry, nodes).
         and_then (usub (as_total_stake self) (ae_staked_amount entry)) (\<lambda>total.
         Ok (self\<lparr>as_nodes := nodes, as_total_stake := total\<rparr>))))"

definition insert_or_update :: "active_set \<Rightarrow> node_id \<Rightarrow> nat \<Rightarrow> (bool \<times> active_set, move_abort) result" where
  "insert_or_update self node_id staked_amount =
    (if staked_amount = 0 \<or> staked_amount < as_threshold_stake self then
       and_then (active_set_remove self node_id) (\<lambda>self. Ok (False, self))
     else
       and_then (active_set_update self node_id staked_amount) (\<lambda>(updated, self).
       if updated then Ok (True, self) else active_set_insert self node_id staked_amount))"

definition active_ids_and_stake :: "active_set \<Rightarrow> node_id list \<times> nat list" where
  "active_ids_and_stake self = (map ae_node_id (as_nodes self), map ae_staked_amount (as_nodes self))"

subsection \<open>The set as a map\<close>

definition node_stakes :: "active_set \<Rightarrow> node_id \<rightharpoonup> nat" where
  "node_stakes self = map_of (map (\<lambda>e. (ae_node_id e, ae_staked_amount e)) (as_nodes self))"

definition active_set_ok :: "active_set \<Rightarrow> bool" where
  "active_set_ok s \<longleftrightarrow> distinct (map ae_node_id (as_nodes s)) \<and> length (as_nodes s) \<le> as_max_size s \<and> as_max_size s \<le> U16_MAX
    \<and> as_total_stake s = sum_list (map ae_staked_amount (as_nodes s)) \<and> as_total_stake s \<le> U64_MAX
    \<and> (\<forall>e\<in>set (as_nodes s). 0 < ae_staked_amount e \<and> as_threshold_stake s \<le> ae_staked_amount e)"

text \<open>What inserting or updating a node does to the map.\<close>

definition stakes_step :: "active_set \<Rightarrow> node_id \<Rightarrow> nat \<Rightarrow> bool \<Rightarrow> (node_id \<rightharpoonup> nat) \<Rightarrow> bool" where
  "stakes_step s node_id amount in_set m \<longleftrightarrow> (let old = node_stakes s in
    if amount = 0 \<or> amount < as_threshold_stake s then m = old(node_id := None) \<and> \<not> in_set
    else if node_id \<in> dom old \<or> card (dom old) < as_max_size s then m = old(node_id \<mapsto> amount) \<and> in_set
    else if \<forall>v\<in>ran old. amount \<le> v then m = old \<and> \<not> in_set
    else \<exists>victim v. old victim = Some v \<and> v < amount \<and> (\<forall>w\<in>ran old. v \<le> w) \<and> m = old(victim := None, node_id \<mapsto> amount) \<and> in_set)"

lemma node_stakes_None: "node_stakes s k = None \<longleftrightarrow> k \<notin> ae_node_id ` set (as_nodes s)"
  by (simp add: node_stakes_def map_of_eq_None_iff image_image)

lemma node_stakes_nth:
  assumes "distinct (map ae_node_id (as_nodes s))" "i < length (as_nodes s)"
  shows "node_stakes s (ae_node_id (as_nodes s ! i)) = Some (ae_staked_amount (as_nodes s ! i))"
  unfolding node_stakes_def using assms by (intro map_of_is_SomeI) (auto simp: comp_def)

lemma node_stakes_dom: "dom (node_stakes s) = ae_node_id ` set (as_nodes s)"
  by (rule set_eqI) (metis domIff node_stakes_None)

lemma node_stakes_ran: "distinct (map ae_node_id (as_nodes s)) \<Longrightarrow> ran (node_stakes s) = ae_staked_amount ` set (as_nodes s)"
  by (simp add: node_stakes_def ran_distinct comp_def image_image)

lemma node_stakes_card: "distinct (map ae_node_id (as_nodes s)) \<Longrightarrow> card (dom (node_stakes s)) = length (as_nodes s)"
  using distinct_card [of "map ae_node_id (as_nodes s)"] by (simp add: node_stakes_dom)

lemma node_stakes_Some:
  "distinct (map ae_node_id (as_nodes s)) \<Longrightarrow> node_stakes s k = Some v \<longleftrightarrow> (\<exists>e\<in>set (as_nodes s). k = ae_node_id e \<and> v = ae_staked_amount e)"
  by (auto simp: node_stakes_def comp_def)

lemma map_eqI: "(\<And>k v. f k = Some v \<longleftrightarrow> g k = Some v) \<Longrightarrow> f = g"
  by (intro ext) (metis not_Some_eq)

text \<open>Replacing one entry: by another stake of the same node, or by another node.\<close>

lemma replace_entry:
  assumes ok: "active_set_ok s" and i: "i < length (as_nodes s)" and new: "e = \<lparr>ae_node_id = k, ae_staked_amount = v\<rparr>"
    and k: "k = ae_node_id (as_nodes s ! i) \<or> k \<notin> ae_node_id ` set (as_nodes s)"
    and v: "0 < v" "as_threshold_stake s \<le> v" "t = as_total_stake s + v - ae_staked_amount (as_nodes s ! i)" "t \<le> U64_MAX"
  shows "active_set_ok (s\<lparr>as_total_stake := t, as_nodes := (as_nodes s)[i := e]\<rparr>)"
    and "node_stakes (s\<lparr>as_total_stake := t, as_nodes := (as_nodes s)[i := e]\<rparr>) = (node_stakes s)(ae_node_id (as_nodes s ! i) := None, k \<mapsto> v)"
proof -
  let ?xs = "as_nodes s" and ?s = "s\<lparr>as_total_stake := t, as_nodes := (as_nodes s)[i := e]\<rparr>"
  have d: "distinct (map ae_node_id ?xs)" using ok by (simp add: active_set_ok_def)
  have others: "ae_node_id (?xs ! j) \<noteq> k \<and> ae_node_id (?xs ! j) \<noteq> ae_node_id (?xs ! i)" if "j < length ?xs" "j \<noteq> i" for j
    using d i k that by (auto simp: distinct_conv_nth)
  have d': "distinct (map ae_node_id (as_nodes ?s))"
    using d others i new by (auto simp: distinct_conv_nth nth_list_update)
  have "sum_list (map ae_staked_amount (?xs[i := e])) = sum_list (map ae_staked_amount ?xs) + v - ae_staked_amount (?xs ! i)"
    using sum_list_update [of i "map ae_staked_amount ?xs" v] i new by (simp add: map_update)
  then show "active_set_ok ?s"
    using ok d' v new set_update_subset_insert [of ?xs i e] by (auto simp: active_set_ok_def)
  show "node_stakes ?s = (node_stakes s)(ae_node_id (?xs ! i) := None, k \<mapsto> v)"
  proof (rule map_eqI)
    fix k' v'
    have "node_stakes ?s k' = Some v' \<longleftrightarrow> (\<exists>j<length ?xs. k' = ae_node_id (?xs[i := e] ! j) \<and> v' = ae_staked_amount (?xs[i := e] ! j))"
      using node_stakes_Some [OF d'] by (auto simp: in_set_conv_nth Bex_def)
    also have "\<dots> \<longleftrightarrow> k' = k \<and> v' = v \<or> (\<exists>j<length ?xs. j \<noteq> i \<and> k' = ae_node_id (?xs ! j) \<and> v' = ae_staked_amount (?xs ! j))"
      using i new by (auto simp: nth_list_update)
    also have "\<dots> \<longleftrightarrow> k' = k \<and> v' = v \<or> k' \<noteq> k \<and> k' \<noteq> ae_node_id (?xs ! i) \<and> (\<exists>j<length ?xs. k' = ae_node_id (?xs ! j) \<and> v' = ae_staked_amount (?xs ! j))"
      using others by metis
    also have "\<dots> \<longleftrightarrow> ((node_stakes s)(ae_node_id (?xs ! i) := None, k \<mapsto> v)) k' = Some v'"
      using node_stakes_Some [OF d, of k' v'] by (auto simp: in_set_conv_nth Bex_def)
    finally show "node_stakes ?s k' = Some v' \<longleftrightarrow> ((node_stakes s)(ae_node_id (?xs ! i) := None, k \<mapsto> v)) k' = Some v'" .
  qed
qed

subsection \<open>The operations\<close>

definition is_smallest :: "active_set_entry list \<Rightarrow> nat \<Rightarrow> nat \<Rightarrow> nat \<times> nat option \<Rightarrow> bool" where
  "is_smallest nodes amount n = (\<lambda>(m, i). (\<forall>k<n. m \<le> ae_staked_amount (nodes ! k)) \<and> m \<le> amount
    \<and> (case i of None \<Rightarrow> m = amount | Some j \<Rightarrow> j < n \<and> m = ae_staked_amount (nodes ! j) \<and> m < amount))"

lemma is_smallest_step: "is_smallest nodes amount n p \<Longrightarrow> is_smallest nodes amount (Suc n) (case p of (m, i) \<Rightarrow>
    if ae_staked_amount (nodes ! n) < m then (ae_staked_amount (nodes ! n), Some n) else (m, i))"
  by (cases p) (auto simp: is_smallest_def less_Suc_eq split: option.splits)

lemma smallest_stake_eq: "is_smallest nodes amount (length nodes) (smallest_stake nodes amount)"
proof -
  have "is_smallest nodes amount n (fold (\<lambda>i (min_stake, min_idx).
      if ae_staked_amount (nodes ! i) < min_stake then (ae_staked_amount (nodes ! i), Some i) else (min_stake, min_idx))
      [0..<n] (amount, None))" for n
  proof (induction n)
    case (Suc n)
    from is_smallest_step [OF Suc] show ?case by simp
  qed (simp add: is_smallest_def)
  then show ?thesis by (simp add: smallest_stake_def)
qed

lemma active_set_remove_ok:
  assumes "active_set_ok s"
  shows "\<exists>s'. active_set_remove s k = Ok s' \<and> active_set_ok s' \<and> node_stakes s' = (node_stakes s)(k := None)
    \<and> as_max_size s' = as_max_size s \<and> as_threshold_stake s' = as_threshold_stake s"
proof (cases "find_index (\<lambda>entry. ae_node_id entry = k) (as_nodes s)")
  case None
  then have "node_stakes s k = None" by (auto simp: node_stakes_None)
  then show ?thesis using None assms by (intro exI [of _ s]) (simp add: active_set_remove_def fun_upd_idem del: find_index_None)
next
  case (Some i)
  then have i: "i < length (as_nodes s)" "ae_node_id (as_nodes s ! i) = k" by (auto dest: find_index_SomeD)
  obtain ys where ys: "swap_remove (as_nodes s) i = (Ok (as_nodes s ! i, ys) :: (_, move_abort) result)"
      "mset (as_nodes s) = add_mset (as_nodes s ! i) (mset ys)" "length ys = length (as_nodes s) - 1"
    using swap_remove_mset [OF i(1)] by blast
  have sum: "sum_list (map ae_staked_amount (as_nodes s)) = ae_staked_amount (as_nodes s ! i) + sum_list (map ae_staked_amount ys)"
    using arg_cong [OF ys(2), of "\<lambda>m. sum_mset (image_mset ae_staked_amount m)"] by (simp add: sum_mset_sum_list [symmetric])
  have "mset (map ae_node_id (as_nodes s)) = add_mset k (mset (map ae_node_id ys))" using ys(2) i(2) by simp
  then have dist: "distinct (map ae_node_id ys)" "k \<notin> ae_node_id ` set ys"
    using assms mset_eq_imp_distinct_iff [of "map ae_node_id (as_nodes s)" "k # map ae_node_id ys"] by (auto simp: active_set_ok_def)
  have set: "set (as_nodes s) = insert (as_nodes s ! i) (set ys)" using arg_cong [OF ys(2), of set_mset] by simp
  let ?s = "s\<lparr>as_nodes := ys, as_total_stake := sum_list (map ae_staked_amount ys)\<rparr>"
  have "node_stakes ?s = (node_stakes s)(k := None)"
    by (rule map_eqI) (use assms dist set i(2) in \<open>auto simp: node_stakes_Some active_set_ok_def\<close>)
  moreover have "active_set_ok ?s" using assms dist set sum ys(3) by (auto simp: active_set_ok_def)
  moreover have "active_set_remove s k = Ok ?s" using Some ys(1) sum assms by (simp add: active_set_remove_def active_set_ok_def usub_def)
  ultimately show ?thesis by auto
qed

lemma active_set_update_ok:
  assumes ok: "active_set_ok s" and amount: "0 < amount" "as_threshold_stake s \<le> amount" "as_total_stake s + amount \<le> U64_MAX"
    and k: "k \<in> dom (node_stakes s)"
  shows "\<exists>s'. active_set_update s k amount = Ok (True, s') \<and> active_set_ok s' \<and> node_stakes s' = (node_stakes s)(k \<mapsto> amount)
    \<and> as_max_size s' = as_max_size s \<and> as_threshold_stake s' = as_threshold_stake s"
proof -
  have "find_index (\<lambda>entry. ae_node_id entry = k) (as_nodes s) \<noteq> None" using k by (auto simp: node_stakes_dom)
  then obtain i where i: "find_index (\<lambda>entry. ae_node_id entry = k) (as_nodes s) = Some i" by blast
  from find_index_SomeD [OF this] have idx: "i < length (as_nodes s)" "ae_node_id (as_nodes s ! i) = k" by auto
  let ?t = "as_total_stake s + amount - ae_staked_amount (as_nodes s ! i)"
  have "ae_staked_amount (as_nodes s ! i) \<le> as_total_stake s"
    using ok idx(1) member_le_sum_list [of "ae_staked_amount (as_nodes s ! i)" "map ae_staked_amount (as_nodes s)"]
    by (simp add: active_set_ok_def)
  then have "active_set_update s k amount = Ok (True, s\<lparr>as_total_stake := ?t, as_nodes := (as_nodes s)[i := \<lparr>ae_node_id = k, ae_staked_amount = amount\<rparr>]\<rparr>)"
    using i amount(3) idx(2) by (cases "as_nodes s ! i") (simp add: active_set_update_def usub_def)
  then show ?thesis
    using replace_entry [OF ok idx(1) refl _ amount(1,2) refl, of k] idx(2) amount(3) by (auto simp: fun_upd_def)
qed

lemma active_set_insert_ok:
  assumes ok: "active_set_ok s" and amount: "0 < amount" "as_threshold_stake s \<le> amount" "as_total_stake s + amount \<le> U64_MAX"
    and k: "k \<notin> dom (node_stakes s)"
  shows "\<exists>b s'. active_set_insert s k amount = Ok (b, s') \<and> active_set_ok s' \<and> stakes_step s k amount b (node_stakes s')
    \<and> as_max_size s' = as_max_size s \<and> as_threshold_stake s' = as_threshold_stake s"
proof -
  have new: "k \<notin> ae_node_id ` set (as_nodes s)" using k by (simp add: node_stakes_dom)
  then have none: "find_index (\<lambda>entry. ae_node_id entry = k) (as_nodes s) = None" by auto
  have d: "distinct (map ae_node_id (as_nodes s))" and len: "length (as_nodes s) \<le> U16_MAX" using ok by (auto simp: active_set_ok_def)
  let ?e = "\<lparr>ae_node_id = k, ae_staked_amount = amount\<rparr>"
  have step: "stakes_step s k amount b m \<longleftrightarrow> (if length (as_nodes s) < as_max_size s then m = (node_stakes s)(k \<mapsto> amount) \<and> b
      else if \<forall>e\<in>set (as_nodes s). amount \<le> ae_staked_amount e then m = node_stakes s \<and> \<not> b
      else \<exists>victim v. node_stakes s victim = Some v \<and> v < amount \<and> (\<forall>e\<in>set (as_nodes s). v \<le> ae_staked_amount e)
        \<and> m = (node_stakes s)(victim := None, k \<mapsto> amount) \<and> b)" for b m
    using amount(1,2) k by (simp add: stakes_step_def Let_def node_stakes_card [OF d] node_stakes_ran [OF d])
  show ?thesis
  proof (cases "length (as_nodes s) < as_max_size s")
    case True
    let ?s = "s\<lparr>as_total_stake := as_total_stake s + amount, as_nodes := as_nodes s @ [?e]\<rparr>"
    have "active_set_insert s k amount = Ok (True, ?s)"
      using none len amount(3) True by (simp add: active_set_insert_def checked_def Let_def)
    moreover have ok': "active_set_ok ?s" using ok new amount True by (auto simp: active_set_ok_def)
    moreover have "node_stakes ?s = (node_stakes s)(k \<mapsto> amount)"
      by (rule map_eqI) (use ok ok' new in \<open>auto simp: node_stakes_Some active_set_ok_def\<close>)
    ultimately show ?thesis using True step by auto
  next
    case False
    obtain m i where small: "smallest_stake (as_nodes s) amount = (m, i)" by fastforce
    then have m: "\<forall>e\<in>set (as_nodes s). m \<le> ae_staked_amount e"
      and i: "case i of None \<Rightarrow> m = amount | Some j \<Rightarrow> j < length (as_nodes s) \<and> m = ae_staked_amount (as_nodes s ! j) \<and> m < amount"
      using smallest_stake_eq [of "as_nodes s" amount] by (auto simp: is_smallest_def all_set_conv_all_nth)
    show ?thesis
    proof (cases i)
      case None
      then have "active_set_insert s k amount = Ok (False, s)"
        using none len False small by (simp add: active_set_insert_def checked_def Let_def)
      then show ?thesis using None i m step False ok by auto
    next
      case (Some j)
      then have j: "j < length (as_nodes s)" "m = ae_staked_amount (as_nodes s ! j)" "m < amount" using i by auto
      have "m \<le> as_total_stake s"
        using ok j member_le_sum_list [of m "map ae_staked_amount (as_nodes s)"] by (simp add: active_set_ok_def)
      then have ins: "active_set_insert s k amount
          = Ok (True, s\<lparr>as_total_stake := as_total_stake s + amount - m, as_nodes := (as_nodes s)[j := ?e]\<rparr>)"
        using none len False small Some amount(3) by (simp add: active_set_insert_def checked_def Let_def usub_def)
      have "\<not> (\<forall>e\<in>set (as_nodes s). amount \<le> ae_staked_amount e)" using j by (metis leD nth_mem)
      then have "stakes_step s k amount True ((node_stakes s)(ae_node_id (as_nodes s ! j) := None, k \<mapsto> amount))"
        using False step m j node_stakes_nth [OF d j(1)] by auto
      then show ?thesis
        using ins replace_entry [OF ok j(1) refl _ amount(1,2) refl, of k] new amount(3) j(2) by auto
    qed
  qed
qed

subsection \<open>Properties\<close>

text \<open>C12: The active set holds distinct nodes, at most the maximal number, each with at least the threshold of stake, and its total is the
  sum of their stake. Setting the stake of a node keeps this: a node without enough stake leaves the set; a node of the set is
  updated; a new node is added if there is room, and otherwise takes the place of a node with the smallest stake if that is
  smaller. The result says whether the node is in the set.\<close>

theorem active_set_implements_map:
  assumes ok: "active_set_ok s" and total: "as_total_stake s + amount \<le> U64_MAX"
  shows "\<exists>b s'. insert_or_update s k amount = Ok (b, s') \<and> active_set_ok s' \<and> stakes_step s k amount b (node_stakes s')
    \<and> b = (k \<in> dom (node_stakes s'))"
proof (cases "amount = 0 \<or> amount < as_threshold_stake s")
  case True
  then show ?thesis using active_set_remove_ok [OF ok, of k] by (auto simp: insert_or_update_def stakes_step_def)
next
  case False
  then have amount: "0 < amount" "as_threshold_stake s \<le> amount" by auto
  show ?thesis
  proof (cases "k \<in> dom (node_stakes s)")
    case True
    then obtain s' where "active_set_update s k amount = Ok (True, s')" "active_set_ok s'" "node_stakes s' = (node_stakes s)(k \<mapsto> amount)"
      using active_set_update_ok [OF ok amount total] by blast
    then show ?thesis using True False by (intro exI [of _ True] exI [of _ s']) (simp add: insert_or_update_def stakes_step_def Let_def)
  next
    case new: False
    then have "active_set_update s k amount = Ok (False, s)"
      by (auto simp: active_set_update_def node_stakes_dom split: option.splits dest: find_index_SomeD)
    moreover obtain b s' where b: "active_set_insert s k amount = Ok (b, s')" "active_set_ok s'" "stakes_step s k amount b (node_stakes s')"
      using active_set_insert_ok [OF ok amount total new] by blast
    moreover have "b = (k \<in> dom (node_stakes s'))" using b(3) amount new by (auto simp: stakes_step_def Let_def split: if_splits)
    ultimately show ?thesis using False by (simp add: insert_or_update_def)
  qed
qed

definition example_active_set :: active_set where
  "example_active_set = \<lparr>as_max_size = 2, as_threshold_stake = 1,
    as_nodes = [\<lparr>ae_node_id = 1, ae_staked_amount = 5\<rparr>, \<lparr>ae_node_id = 2, ae_staked_amount = 7\<rparr>], as_total_stake = 12\<rparr>"

theorem active_set_implements_map_witness:
  "\<exists>s'. insert_or_update example_active_set 3 6 = Ok (True, s') \<and> active_set_ok s' \<and> node_stakes s' = [2 \<mapsto> 7, 3 \<mapsto> 6]"
proof -
  have ok: "active_set_ok example_active_set" by (simp add: active_set_ok_def example_active_set_def)
  have m: "node_stakes example_active_set = [1 \<mapsto> 5, 2 \<mapsto> 7]" by (simp add: node_stakes_def example_active_set_def fun_upd_twist)
  have step: "m' = [2 \<mapsto> 7, 3 \<mapsto> 6] \<and> b" if "stakes_step example_active_set 3 6 b m'" for b m'
    using that unfolding stakes_step_def m by (auto simp: example_active_set_def ran_def split: if_splits)
  have "as_total_stake example_active_set + 6 \<le> U64_MAX" by (simp add: example_active_set_def)
  from active_set_implements_map [OF ok this, of 3] obtain b s' where
    r: "insert_or_update example_active_set 3 6 = Ok (b, s')" "active_set_ok s'" "stakes_step example_active_set 3 6 b (node_stakes s')" by blast
  with step [OF r(3)] show ?thesis by auto
qed

end
