(* ===== verification/Committee.thy ===== *)
theory Committee
  imports MoveBase
begin

text \<open>
  Committees and their shards, \<open>staking/committee.move\<close>, and the sorting macro of \<open>utils/sort.move\<close>. A committee is a map from nodes to
  their shards. A transition to a new assignment of numbers of shards keeps the set of shards, keeps the committee sorted by node,
  and moves as few shards as possible.
\<close>

type_synonym shards = "nat list"
type_synonym committee = "shards vec_map"

subsection \<open>Sorting\<close>

text \<open>The inner loop moves the entry at an index down to its place; the vectors of keys and values are swapped together.\<close>

fun sift_down :: "'v vec_map \<Rightarrow> nat \<Rightarrow> 'v vec_map" where
  "sift_down xs 0 = xs"
| "sift_down xs (Suc j) = (if fst (xs ! j) > fst (xs ! Suc j) then sift_down (swap xs j (Suc j)) j else xs)"

definition sort_vec_map_by_node_id :: "'v vec_map \<Rightarrow> ('v vec_map, move_abort) result" where
  "sort_vec_map_by_node_id self =
    (if length self \<le> 1 then Ok self else vm_from_entries (fold (\<lambda>i xs. sift_down xs i) [1..<length self] self))"

subsection \<open>Committees\<close>

definition committee_empty :: committee where
  "committee_empty = []"

text \<open>Sequential shards for every node, \<open>tabulate!\<close> with a counter.\<close>

fun take_shards :: "nat \<Rightarrow> nat \<Rightarrow> (shards \<times> nat, move_abort) result" where
  "take_shards 0 shard_idx = Ok ([], shard_idx)"
| "take_shards (Suc n) shard_idx =
    and_then (uadd U16_MAX shard_idx 1) (\<lambda>next.
    and_then (take_shards n next) (\<lambda>(shards, shard_idx'). Ok (shard_idx # shards, shard_idx')))"

definition initialize :: "nat vec_map \<Rightarrow> (committee, move_abort) result" where
  "initialize assigned_number =
    and_then (sort_vec_map_by_node_id assigned_number) (\<lambda>sorted_assignments.
    and_then (try_fold (\<lambda>(cmt, shard_idx) (k, v).
        and_then (take_shards v shard_idx) (\<lambda>(shards, shard_idx). Ok (cmt @ [(k, shards)], shard_idx))) ([], 0) sorted_assignments)
      (\<lambda>(cmt, _). vm_from_entries cmt))"

text \<open>One member of the current committee: its shards stay, some or all of them become available, or the node waits for more.\<close>

definition transition_member ::
  "nat vec_map \<times> shards \<times> committee \<times> nat \<Rightarrow> node_id \<times> shards \<Rightarrow> (nat vec_map \<times> shards \<times> committee \<times> nat, move_abort) result" where
  "transition_member = (\<lambda>(new_assignments, to_move, new_cmt, current_num_of_shards) (node_id, prev_shards).
    and_then (uadd U64_MAX current_num_of_shards (length prev_shards)) (\<lambda>current_num_of_shards.
    let assigned = map_of new_assignments node_id;
        new_assignments = vm_remove new_assignments node_id in
    if assigned = None \<or> assigned = Some 0 then Ok (new_assignments, to_move @ prev_shards, new_cmt, current_num_of_shards)
    else
      let curr_len = length prev_shards; assigned_len = the assigned in
      and_then (if curr_len = assigned_len then vm_insert new_cmt node_id prev_shards else Ok new_cmt) (\<lambda>new_cmt.
      and_then (if curr_len > assigned_len
        then and_then (move_back (curr_len - assigned_len) prev_shards to_move) (\<lambda>(node_shards, to_move).
          and_then (vm_insert new_cmt node_id node_shards) (\<lambda>new_cmt. Ok (to_move, new_cmt)))
        else Ok (to_move, new_cmt)) (\<lambda>(to_move, new_cmt).
      and_then (if curr_len < assigned_len then vm_insert new_assignments node_id assigned_len else Ok new_assignments)
        (\<lambda>new_assignments. Ok (new_assignments, to_move, new_cmt, current_num_of_shards))))))"

text \<open>One node that waits for shards; \<open>diff\<close> is the absolute difference.\<close>

definition assign_missing ::
  "committee \<Rightarrow> shards \<times> committee \<Rightarrow> node_id \<times> nat \<Rightarrow> (shards \<times> committee, move_abort) result" where
  "assign_missing cmt = (\<lambda>(to_move, new_cmt) (key, value).
    if value = 0 then Ok (to_move, new_cmt)
    else
      let current_shards = (case map_of cmt key of Some s \<Rightarrow> s | None \<Rightarrow> []);
          diff = max (length current_shards) value - min (length current_shards) value in
      and_then (move_back diff to_move current_shards) (\<lambda>(to_move, current_shards).
      and_then (vm_insert new_cmt key current_shards) (\<lambda>new_cmt. Ok (to_move, new_cmt))))"

definition transition :: "committee \<Rightarrow> nat vec_map \<Rightarrow> (committee, move_abort) result" where
  "transition cmt new_assignments =
    and_then (usum U16_MAX (map snd new_assignments)) (\<lambda>new_num_of_shards.
    and_then (try_fold transition_member (new_assignments, [], [], 0) cmt) (\<lambda>(new_assignments, to_move, new_cmt, current_num_of_shards).
    and_then (ensure (new_num_of_shards = current_num_of_shards) EInvalidShardAssignment) (\<lambda>_.
    and_then (try_fold (assign_missing cmt) (to_move, new_cmt) new_assignments) (\<lambda>(_, new_cmt).
    sort_vec_map_by_node_id new_cmt))))"

fun committee_diff :: "committee \<Rightarrow> committee \<Rightarrow> node_id list \<times> node_id list" where
  "committee_diff (x # xs) (y # ys) =
    (if fst x = fst y then committee_diff xs ys
     else if fst x < fst y then (case committee_diff xs (y # ys) of (d1, d2) \<Rightarrow> (fst x # d1, d2))
     else (case committee_diff (x # xs) ys of (d1, d2) \<Rightarrow> (d1, fst y # d2)))"
| "committee_diff (x # xs) [] = (case committee_diff xs [] of (d1, d2) \<Rightarrow> (fst x # d1, d2))"
| "committee_diff [] ys = ([], map fst ys)"

subsection \<open>Sorting sorts\<close>

lemma swap_middle: "swap (ys @ y # x # zs) (length ys) (Suc (length ys)) = ys @ x # y # zs"
  by (simp add: swap_def list_update_append nth_append)

lemma sift_down_insert:
  "sorted (map fst ys) \<Longrightarrow> \<exists>r. sift_down (ys @ x # zs) (length ys) = r @ zs \<and> mset r = mset (ys @ [x]) \<and> sorted (map fst r)"
proof (induction ys arbitrary: x zs rule: rev_induct)
  case (snoc y ys)
  have nth: "(ys @ y # x # zs) ! length ys = y" "(ys @ y # x # zs) ! Suc (length ys) = x" by (simp_all add: nth_append)
  show ?case
  proof (cases "fst y > fst x")
    case True
    have "sorted (map fst ys)" using snoc.prems by (simp add: sorted_append)
    from snoc.IH [OF this, of x "y # zs"] obtain r where
      r: "sift_down (ys @ x # y # zs) (length ys) = r @ y # zs" "mset r = mset (ys @ [x])" "sorted (map fst r)" by blast
    have "set r = set ys \<union> {x}" using arg_cong [OF r(2), of set_mset] by simp
    then have "sorted (map fst (r @ [y]))" using r(3) snoc.prems True by (auto simp: sorted_append)
    then show ?thesis using r True nth swap_middle [of ys y x zs] by (intro exI [of _ "r @ [y]"]) simp
  next
    case False
    then have "sorted (map fst (ys @ [y, x]))" using snoc.prems by (force simp: sorted_append)
    then show ?thesis using False nth by (intro exI [of _ "ys @ [y, x]"]) simp
  qed
qed simp

lemma sort_vec_map_eq:
  assumes "vm_ok m"
  shows "\<exists>m'. sort_vec_map_by_node_id m = Ok m' \<and> mset m' = mset m \<and> sorted (map fst m')"
proof (cases "length m \<le> 1")
  case True
  then show ?thesis by (cases m) (auto simp: sort_vec_map_by_node_id_def)
next
  case False
  have "\<exists>r. fold (\<lambda>i xs. sift_down xs i) [1..<Suc n] m = r @ drop (Suc n) m \<and> mset r = mset (take (Suc n) m) \<and> sorted (map fst r) \<and> length r = Suc n"
    if "n < length m" for n
    using that
  proof (induction n)
    case 0
    then show ?case by (cases m) auto
  next
    case (Suc n)
    then obtain r where r: "fold (\<lambda>i xs. sift_down xs i) [1..<Suc n] m = r @ drop (Suc n) m" "mset r = mset (take (Suc n) m)"
      "sorted (map fst r)" "length r = Suc n" by auto
    have drop: "drop (Suc n) m = m ! Suc n # drop (Suc (Suc n)) m" using Suc.prems by (simp add: Cons_nth_drop_Suc)
    from sift_down_insert [OF r(3), of "m ! Suc n" "drop (Suc (Suc n)) m"] obtain r' where
      r': "sift_down (r @ m ! Suc n # drop (Suc (Suc n)) m) (length r) = r' @ drop (Suc (Suc n)) m" "mset r' = mset (r @ [m ! Suc n])" "sorted (map fst r')"
      by blast
    have "[1..<Suc (Suc n)] = [1..<Suc n] @ [Suc n]" by simp
    then have "fold (\<lambda>i xs. sift_down xs i) [1..<Suc (Suc n)] m = r' @ drop (Suc (Suc n)) m"
      using r(1,4) r'(1) drop by (simp only: fold_append comp_apply fold.simps id_apply)
    moreover have "mset (take (Suc (Suc n)) m) = mset (r @ [m ! Suc n])" using r(2) Suc.prems by (simp add: take_Suc_conv_app_nth)
    moreover have "length r' = Suc (Suc n)" using arg_cong [OF r'(2), of size] r(4) by simp
    ultimately show ?case using r' by (intro exI [of _ r']) simp
  qed
  note loop = this
  obtain k where k: "length m = Suc k" using False by (cases m) auto
  from loop [of k] k obtain r where r: "fold (\<lambda>i xs. sift_down xs i) [1..<length m] m = r" "mset r = mset m" "sorted (map fst r)"
    by (auto simp del: upt_Suc)
  have "vm_ok r" using assms mset_eq_imp_distinct_iff [of "map fst r" "map fst m"] r(2) by (simp add: vm_ok_def)
  then show ?thesis using r False by (simp add: sort_vec_map_by_node_id_def vm_from_entries_Ok)
qed

subsection \<open>The transition\<close>

definition members :: "'v vec_map \<Rightarrow> node_id set" where
  "members m = fst ` set m"

lemma members_simps [simp]: "members [] = {}" "members (x # m) = insert (fst x) (members m)" "members (m @ m') = members m \<union> members m'"
    "members (vm_remove m k) = members m - {k}"
  by (auto simp: members_def)

lemma vm_insert_members [simp]: "vm_insert m k v = (if k \<in> members m then Err EKeyAlreadyExists else Ok (m @ [(k, v)]))"
  by (simp add: vm_insert_def members_def)

lemma vm_ok_members: "vm_ok (m @ [(k, v)]) \<longleftrightarrow> vm_ok m \<and> k \<notin> members m" "vm_ok (x # m) \<longleftrightarrow> fst x \<notin> members m \<and> vm_ok m"
  by (auto simp: vm_ok_def members_def)

definition shards_of :: "committee \<Rightarrow> node_id \<Rightarrow> shards" where
  "shards_of cmt k = (case map_of cmt k of Some s \<Rightarrow> s | None \<Rightarrow> [])"

definition all_shards :: "committee \<Rightarrow> nat multiset" where
  "all_shards cmt = mset (concat (map snd cmt))"

lemma all_shards_simps [simp]: "all_shards [] = {#}" "all_shards (m @ [(k, s)]) = all_shards m + mset s"
  by (simp_all add: all_shards_def)

text \<open>The shards that members wait with for more: those of the nodes in \<open>P\<close> among the remaining assignments.\<close>

definition waiting :: "committee \<Rightarrow> node_id set \<Rightarrow> nat vec_map \<Rightarrow> nat multiset" where
  "waiting cmt P na = sum_list (map (\<lambda>(k, v). if k \<in> P then mset (shards_of cmt k) else {#}) na)"

lemma waiting_simps [simp]: "waiting cmt P [] = {#}" "waiting cmt P ((k, v) # na) = (if k \<in> P then mset (shards_of cmt k) else {#}) + waiting cmt P na"
  "waiting cmt P (na @ na') = waiting cmt P na + waiting cmt P na'"
  by (simp_all add: waiting_def)

lemma waiting_none [simp]: "waiting cmt {} na = {#}"
  by (induction na) auto

lemma waiting_other: "k \<notin> members na \<Longrightarrow> waiting cmt (insert k P) na = waiting cmt P na"
  by (induction na) auto

lemma waiting_vm_remove: "k \<notin> P \<Longrightarrow> waiting cmt P (vm_remove na k) = waiting cmt P na"
  by (induction na) (auto simp: vm_remove_def)

lemma vm_remove_absent: "k \<notin> members na \<Longrightarrow> vm_remove na k = na"
  by (force simp: vm_remove_def filter_id_conv members_def)

lemma sum_vm_remove: "vm_ok (na :: nat vec_map) \<Longrightarrow> sum_list (map snd (vm_remove na k)) + (case map_of na k of Some a \<Rightarrow> a | None \<Rightarrow> 0) = sum_list (map snd na)"
proof (induction na)
  case (Cons x na)
  show ?case
  proof (cases "fst x = k")
    case True
    then have "vm_remove (x # na) k = na" using Cons.prems vm_remove_absent [of k na] by (auto simp: vm_ok_members vm_remove_def)
    then show ?thesis using True by (cases x) auto
  next
    case False
    then show ?thesis using Cons by (cases x) (simp add: vm_ok_members vm_remove_def)
  qed
qed (simp add: vm_remove_def)

lemma vm_remove_set: "(k', v) \<in> set (vm_remove na k) \<longleftrightarrow> (k', v) \<in> set na \<and> k' \<noteq> k"
  by (auto simp: vm_remove_def)

text \<open>How a member of the new committee relates to the old one: it has the assigned number of shards and keeps its shards as far as possible.\<close>

definition member_ok :: "committee \<Rightarrow> nat vec_map \<Rightarrow> node_id \<times> shards \<Rightarrow> bool" where
  "member_ok cmt na0 = (\<lambda>(k, s). map_of na0 k = Some (length s) \<and> 0 < length s
    \<and> take (length (shards_of cmt k)) s = take (length s) (shards_of cmt k))"

text \<open>The state after the members in \<open>P\<close>.\<close>

definition moved :: "committee \<Rightarrow> nat vec_map \<Rightarrow> committee \<Rightarrow> nat vec_map \<times> shards \<times> committee \<times> nat \<Rightarrow> bool" where
  "moved cmt na0 P = (\<lambda>(na, to_move, new_cmt, n). vm_ok na \<and> vm_ok new_cmt \<and> members new_cmt \<subseteq> members P \<and> members new_cmt \<inter> members na = {}
    \<and> all_shards new_cmt + mset to_move + waiting cmt (members P) na = all_shards P
    \<and> size (all_shards new_cmt) + sum_list (map snd na) = sum_list (map snd na0) \<and> n = size (all_shards P)
    \<and> (\<forall>(k, v)\<in>set na. map_of na0 k = Some v \<and> (k \<in> members P \<longrightarrow> length (shards_of cmt k) < v))
    \<and> (\<forall>k. k \<notin> members P \<longrightarrow> map_of na k = map_of na0 k)
    \<and> (\<forall>m\<in>set new_cmt. member_ok cmt na0 m)
    \<and> (\<forall>k a. map_of na0 k = Some a \<and> 0 < a \<longrightarrow> k \<in> members na \<union> members new_cmt))"

lemma transition_member_moved:
  assumes m: "moved cmt na0 P (na, to_move, new_cmt, n)" and new: "k \<notin> members P" and s: "shards_of cmt k = s"
    and bound: "n + length s \<le> U64_MAX"
  shows "\<exists>st. transition_member (na, to_move, new_cmt, n) (k, s) = Ok st \<and> moved cmt na0 (P @ [(k, s)]) st"
proof -
  have P: "members (P @ [(k, s)]) = insert k (members P)" by auto
  have I: "vm_ok na" "vm_ok new_cmt" "members new_cmt \<subseteq> members P" "members new_cmt \<inter> members na = {}"
    "all_shards new_cmt + mset to_move + waiting cmt (members P) na = all_shards P"
    "size (all_shards new_cmt) + sum_list (map snd na) = sum_list (map snd na0)" "n = size (all_shards P)"
    "\<And>k v. (k, v) \<in> set na \<Longrightarrow> map_of na0 k = Some v \<and> (k \<in> members P \<longrightarrow> length (shards_of cmt k) < v)"
    "\<And>k. k \<notin> members P \<Longrightarrow> map_of na k = map_of na0 k" "\<And>m. m \<in> set new_cmt \<Longrightarrow> member_ok cmt na0 m"
    "\<And>k a. map_of na0 k = Some a \<Longrightarrow> 0 < a \<Longrightarrow> k \<in> members na \<union> members new_cmt"
    using m unfolding moved_def by (simp_all, blast+)
  let ?na = "vm_remove na k"
  have knew: "k \<notin> members new_cmt" using I(3) new by auto
  have kna: "k \<notin> members ?na" by simp
  have wait: "waiting cmt (insert k (members P)) ?na = waiting cmt (members P) na"
    using waiting_other [OF kna] waiting_vm_remove [OF new] by simp
  have n: "uadd U64_MAX n (length s) = (Ok (n + length s) :: (_, move_abort) result)" using bound by simp
  have assigned: "map_of na0 k = map_of na k" using I(9) [OF new] by simp
  have rest: "size (all_shards (P @ [(k, s)])) = n + length s" using I(7) by simp
  have other: "map_of (vm_remove na k) k' = map_of na0 k'" if "k' \<notin> insert k (members P)" for k' using I(9) that by (simp add: map_of_vm_remove)
  have open': "map_of na0 k' = Some v \<and> (k' \<in> insert k (members P) \<longrightarrow> length (shards_of cmt k') < v)" if "(k', v) \<in> set ?na" for k' v
    using I(8) [of k' v] that by (auto simp: vm_remove_set)
  have all: "k' \<in> insert k (members ?na \<union> members new_cmt)" if "map_of na0 k' = Some a" "0 < a" for k' a using I(11) [OF that] by auto
  show ?thesis
  proof (cases "map_of na k = None \<or> map_of na k = Some 0")
    case True
    have "transition_member (na, to_move, new_cmt, n) (k, s) = Ok (?na, to_move @ s, new_cmt, n + length s)"
      using n True by (simp add: transition_member_def Let_def)
    moreover have "sum_list (map snd ?na) = sum_list (map snd na)" using sum_vm_remove [OF I(1), of k] True by auto
    moreover have "k' \<in> members ?na \<union> members new_cmt" if "map_of na0 k' = Some a" "0 < a" for k' a
      using all [OF that] that assigned True by auto
    moreover have "all_shards new_cmt + mset (to_move @ s) + waiting cmt (insert k (members P)) ?na = all_shards (P @ [(k, s)])"
      using I(5) wait by (simp add: ac_simps)
    ultimately have "moved cmt na0 (P @ [(k, s)]) (?na, to_move @ s, new_cmt, n + length s)"
      unfolding moved_def P prod.case using I vm_remove_ok [OF I(1)] rest other open' by (intro conjI) (auto simp: I(6))
    with \<open>transition_member (na, to_move, new_cmt, n) (k, s) = _\<close> show ?thesis by blast
  next
    case False
    then obtain a where a: "map_of na k = Some a" "0 < a" by (cases "map_of na k") auto
    have sum: "sum_list (map snd ?na) + a = sum_list (map snd na)" using sum_vm_remove [OF I(1), of k] a by simp
    show ?thesis
    proof (cases "length s < a")
      case True
      let ?st = "(?na @ [(k, a)], to_move, new_cmt, n + length s)"
      have "transition_member (na, to_move, new_cmt, n) (k, s) = Ok ?st"
        using n a True by (simp add: transition_member_def Let_def)
      moreover have "all_shards new_cmt + mset to_move + waiting cmt (insert k (members P)) (?na @ [(k, a)]) = all_shards (P @ [(k, s)])"
        using I(5) wait s by (simp add: ac_simps)
      then have "moved cmt na0 (P @ [(k, s)]) ?st"
        unfolding moved_def P prod.case
        using I vm_remove_ok [OF I(1)] rest other open' all knew sum a assigned True s by (intro conjI) (auto simp: vm_ok_members map_add_def split: option.splits)
      ultimately show ?thesis by blast
    next
      case False
      let ?tm = "to_move @ rev (drop a s)" and ?st = "(?na, to_move @ rev (drop a s), new_cmt @ [(k, take a s)], n + length s)"
      have "transition_member (na, to_move, new_cmt, n) (k, s) = Ok ?st"
        using n a False knew by (cases "length s = a") (simp_all add: transition_member_def Let_def move_back_eq)
      moreover have "mset (take a s) + mset (drop a s) = mset s" by (metis append_take_drop_id mset_append)
      then have "all_shards (new_cmt @ [(k, take a s)]) + mset ?tm + waiting cmt (insert k (members P)) ?na = all_shards (P @ [(k, s)])"
        using I(5) wait by (simp add: ac_simps)
      moreover have "member_ok cmt na0 (k, take a s)" using a assigned False s by (cases s) (auto simp: member_ok_def)
      then have "moved cmt na0 (P @ [(k, s)]) ?st"
        unfolding moved_def P prod.case
        using I vm_remove_ok [OF I(1)] rest other open' all knew sum a False calculation(2) by (intro conjI) (auto simp: vm_ok_members)
      ultimately show ?thesis by blast
    qed
  qed
qed

lemma transition_members:
  assumes ok: "vm_ok cmt" "vm_ok na0" and bound: "size (all_shards cmt) \<le> U64_MAX"
  shows "\<exists>st. try_fold transition_member (na0, [], [], 0) cmt = Ok st \<and> moved cmt na0 cmt st"
proof -
  have "\<exists>st. try_fold transition_member (na0, [], [], 0) cmt = Ok st \<and> moved cmt na0 (take (length cmt) cmt) st"
  proof (rule try_fold_invariant)
    fix i st assume i: "i < length cmt" and st: "moved cmt na0 (take i cmt) st"
    obtain na to_move new_cmt n where st': "st = (na, to_move, new_cmt, n)" by (cases st) auto
    obtain k s where ks: "cmt ! i = (k, s)" by fastforce
    have cmt: "cmt = take i cmt @ (k, s) # drop (Suc i) cmt" using i ks by (metis id_take_nth_drop)
    have "distinct (map fst (take i cmt @ (k, s) # drop (Suc i) cmt))" using ok(1) cmt by (simp add: vm_ok_def)
    then have "k \<notin> members (take i cmt)" by (auto simp: members_def)
    moreover have "map_of cmt k = Some s" using ok(1) nth_mem [OF i] ks by (simp add: vm_ok_def)
    then have "shards_of cmt k = s" by (simp add: shards_of_def)
    moreover have "n + length s \<le> U64_MAX"
    proof -
      have "all_shards cmt = all_shards (take i cmt) + mset s + all_shards (drop (Suc i) cmt)"
        by (subst cmt) (simp add: all_shards_def)
      then show ?thesis using bound st st' by (simp add: moved_def)
    qed
    ultimately show "\<exists>st'. transition_member st (cmt ! i) = Ok st' \<and> moved cmt na0 (take (Suc i) cmt) st'"
      using transition_member_moved [of cmt na0 "take i cmt" na to_move new_cmt n k s] st st' ks i by (simp add: take_Suc_conv_app_nth)
  qed (use ok in \<open>auto simp: moved_def vm_ok_def members_def image_iff map_of_eq_Some_iff intro: bexI [rotated] dest: map_of_SomeD\<close>)
  then show ?thesis by simp
qed

text \<open>The state while shards are given to the waiting nodes; \<open>na\<close> are those still waiting.\<close>

definition assigning :: "committee \<Rightarrow> nat vec_map \<Rightarrow> nat vec_map \<Rightarrow> shards \<times> committee \<Rightarrow> bool" where
  "assigning cmt na0 na = (\<lambda>(to_move, new_cmt). vm_ok na \<and> vm_ok new_cmt \<and> members new_cmt \<inter> members na = {}
    \<and> all_shards new_cmt + mset to_move + waiting cmt UNIV na = all_shards cmt
    \<and> size (all_shards new_cmt) + sum_list (map snd na) = sum_list (map snd na0)
    \<and> (\<forall>(k, v)\<in>set na. map_of na0 k = Some v \<and> length (shards_of cmt k) \<le> v)
    \<and> (\<forall>m\<in>set new_cmt. member_ok cmt na0 m)
    \<and> (\<forall>k a. map_of na0 k = Some a \<and> 0 < a \<longrightarrow> k \<in> members na \<union> members new_cmt))"

lemma waiting_UNIV: "waiting cmt (members cmt) na = waiting cmt UNIV na"
proof -
  have "shards_of cmt k = []" if "k \<notin> members cmt" for k
    using that by (simp add: shards_of_def members_def map_of_eq_None_iff [symmetric])
  then show ?thesis by (induction na) auto
qed

lemma waiting_size: "(\<forall>(k, v)\<in>set na. length (shards_of cmt k) \<le> v) \<Longrightarrow> size (waiting cmt UNIV na) \<le> sum_list (map snd na)"
  by (induction na) auto

lemma assign_missing_step:
  assumes "assigning cmt na0 ((k, v) # na) (to_move, new_cmt)" "size (all_shards cmt) = sum_list (map snd na0)"
  shows "\<exists>st. assign_missing cmt (to_move, new_cmt) (k, v) = Ok st \<and> assigning cmt na0 na st"
proof (cases "v = 0")
  case True
  then show ?thesis using assms(1) by (auto simp: assign_missing_def assigning_def vm_ok_members)
next
  case False
  let ?s = "shards_of cmt k"
  have I: "vm_ok na" "vm_ok new_cmt" "k \<notin> members na" "k \<notin> members new_cmt" "members new_cmt \<inter> members na = {}"
    "all_shards new_cmt + mset to_move + (mset ?s + waiting cmt UNIV na) = all_shards cmt"
    "size (all_shards new_cmt) + (v + sum_list (map snd na)) = sum_list (map snd na0)"
    "map_of na0 k = Some v" "length ?s \<le> v" "\<forall>(k, v)\<in>set na. map_of na0 k = Some v \<and> length (shards_of cmt k) \<le> v"
    "\<forall>m\<in>set new_cmt. member_ok cmt na0 m" "\<forall>k' a. map_of na0 k' = Some a \<and> 0 < a \<longrightarrow> k' \<in> insert k (members na \<union> members new_cmt)"
    using assms(1) by (auto simp: assigning_def vm_ok_members)
  let ?d = "v - length ?s" and ?rest = "take (length to_move - (v - length ?s)) to_move" and ?moved = "drop (length to_move - (v - length ?s)) to_move"
  have "size (all_shards new_cmt) + length to_move + length ?s + size (waiting cmt UNIV na) = size (all_shards cmt)"
    using arg_cong [OF I(6), of size] by simp
  moreover have "size (waiting cmt UNIV na) \<le> sum_list (map snd na)" using waiting_size I(10) by fastforce
  ultimately have d: "?d \<le> length to_move" using I(7) assms(2) by linarith
  have "max (length ?s) v - min (length ?s) v = ?d" using I(9) by simp
  then have step: "assign_missing cmt (to_move, new_cmt) (k, v) = Ok (?rest, new_cmt @ [(k, ?s @ rev ?moved)])"
    using False I(4) move_back_eq [OF d, of ?s] by (simp add: assign_missing_def Let_def shards_of_def [symmetric])
  have len: "length (?s @ rev ?moved) = v" using d I(9) by simp
  have "member_ok cmt na0 (k, ?s @ rev ?moved)"
    using I(8,9) False len by (auto simp: member_ok_def)
  moreover have "mset ?rest + mset ?moved = mset to_move" by (metis append_take_drop_id mset_append)
  then have "all_shards (new_cmt @ [(k, ?s @ rev ?moved)]) + mset ?rest + waiting cmt UNIV na = all_shards cmt"
    using I(6) by (simp add: ac_simps)
  moreover have "size (all_shards (new_cmt @ [(k, ?s @ rev ?moved)])) + sum_list (map snd na) = sum_list (map snd na0)"
    using I(7) len by simp
  ultimately have "assigning cmt na0 na (?rest, new_cmt @ [(k, ?s @ rev ?moved)])"
    unfolding assigning_def prod.case using I by (intro conjI) (auto simp: vm_ok_members)
  with step show ?thesis by blast
qed

lemma assign_all_missing:
  assumes "assigning cmt na0 na st" "size (all_shards cmt) = sum_list (map snd na0)"
  shows "\<exists>st'. try_fold (assign_missing cmt) st na = Ok st' \<and> assigning cmt na0 [] st'"
  using assms(1)
proof (induction na arbitrary: st)
  case (Cons x na)
  obtain st1 where "assign_missing cmt st x = Ok st1" "assigning cmt na0 na st1"
    using assign_missing_step [OF _ assms(2), of "fst x" "snd x" na "fst st" "snd st"] Cons.prems by auto
  with Cons.IH show ?case by auto
qed auto

subsection \<open>The first committee\<close>

lemma take_shards_eq: "i + n \<le> U16_MAX \<Longrightarrow> take_shards n i = Ok ([i..<i + n], i + n)"
  by (induction n arbitrary: i) (simp_all add: uadd_def checked_def upt_rec)

lemma initialize_entries:
  assumes "i + sum_list (map snd na) \<le> U16_MAX"
  shows "\<exists>cmt. try_fold (\<lambda>(cmt, shard_idx) (k, v).
      and_then (take_shards v shard_idx) (\<lambda>(shards, shard_idx). Ok (cmt @ [(k, shards)], shard_idx))) (cmt0, i) na = Ok (cmt0 @ cmt, i + sum_list (map snd na))
    \<and> map (\<lambda>(k, s). (k, length s)) cmt = na \<and> concat (map snd cmt) = [i..<i + sum_list (map snd na)]"
  using assms
proof (induction na arbitrary: i cmt0)
  case (Cons x na)
  obtain k v where x: "x = (k, v)" by (cases x)
  have v: "i + v \<le> U16_MAX" "i + v + sum_list (map snd na) \<le> U16_MAX" using Cons.prems x by simp_all
  obtain cmt where cmt: "try_fold (\<lambda>(cmt, shard_idx) (k, v).
      and_then (take_shards v shard_idx) (\<lambda>(shards, shard_idx). Ok (cmt @ [(k, shards)], shard_idx))) (cmt0 @ [(k, [i..<i + v])], i + v) na
        = Ok ((cmt0 @ [(k, [i..<i + v])]) @ cmt, i + v + sum_list (map snd na))"
      "map (\<lambda>(k, s). (k, length s)) cmt = na" "concat (map snd cmt) = [i + v..<i + v + sum_list (map snd na)]"
    using Cons.IH [OF v(2)] by blast
  have "[i..<i + v] @ [i + v..<i + v + sum_list (map snd na)] = [i..<i + (v + sum_list (map snd na))]"
    using upt_add_eq_append [of i "i + v" "sum_list (map snd na)"] by (simp add: add.assoc)
  then show ?case
    using cmt x take_shards_eq [OF v(1)] by (intro exI [of _ "(k, [i..<i + v]) # cmt"]) (simp add: add.assoc)
qed simp

lemma initialize_eq:
  assumes ok: "vm_ok na" and bound: "sum_list (map snd na) \<le> U16_MAX"
  shows "\<exists>cmt. initialize na = Ok cmt \<and> vm_ok cmt \<and> sorted (map fst cmt) \<and> (\<forall>k. map_option length (map_of cmt k) = map_of na k)
    \<and> concat (map snd cmt) = [0..<sum_list (map snd na)]"
proof -
  obtain ms where ms: "sort_vec_map_by_node_id na = Ok ms" "mset ms = mset na" "sorted (map fst ms)" using sort_vec_map_eq [OF ok] by blast
  have sum: "sum_list (map snd ms) = sum_list (map snd na)"
    using arg_cong [OF ms(2), of "\<lambda>m. sum_mset (image_mset snd m)"] by (simp flip: sum_mset_sum_list)
  obtain cmt where cmt: "try_fold (\<lambda>(cmt, shard_idx) (k, v).
      and_then (take_shards v shard_idx) (\<lambda>(shards, shard_idx). Ok (cmt @ [(k, shards)], shard_idx))) ([], 0) ms = Ok (cmt, sum_list (map snd ms))"
      "map (\<lambda>(k, s). (k, length s)) cmt = ms" "concat (map snd cmt) = [0..<sum_list (map snd ms)]"
    using initialize_entries [of 0 ms "[]"] bound sum by auto
  have keys: "map fst cmt = map fst ms" using arg_cong [OF cmt(2), of "map fst"] by (simp add: comp_def case_prod_beta)
  have d: "distinct (map fst ms)" using ok ms(2) mset_eq_imp_distinct_iff [of "map fst ms" "map fst na"] by (simp add: vm_ok_def)
  have "map_of ms = map_of na" using d ok ms(2) by (intro map_of_eqI) (auto simp: vm_ok_def map_of_eq_Some_iff dest: mset_eq_setD)
  moreover have "map_option length (map_of cmt k) = map_of ms k" for k
    unfolding cmt(2) [symmetric] by (induction cmt) auto
  moreover have "vm_ok cmt" using keys d by (simp add: vm_ok_def)
  ultimately show ?thesis using ms cmt keys sum by (intro exI [of _ cmt]) (simp add: initialize_def vm_from_entries_Ok)
qed

subsection \<open>Differences\<close>

lemma committee_diff_eq:
  "sorted_wrt (<) (map fst c1) \<Longrightarrow> sorted_wrt (<) (map fst c2) \<Longrightarrow>
    committee_diff c1 c2 = (filter (\<lambda>k. k \<notin> members c2) (map fst c1), filter (\<lambda>k. k \<notin> members c1) (map fst c2))"
proof (induction c1 c2 rule: committee_diff.induct)
  case (1 x xs y ys)
  have lt: "\<forall>z\<in>set xs. fst x < fst z" "\<forall>z\<in>set ys. fst y < fst z" using 1(4,5) by auto
  consider "fst x = fst y" | "fst x < fst y" | "fst y < fst x" by linarith
  then show ?case
  proof cases
    case a: 1
    have "filter (\<lambda>k. k \<notin> members (y # ys)) (map fst xs) = filter (\<lambda>k. k \<notin> members ys) (map fst xs)"
      "filter (\<lambda>k. k \<notin> members (x # xs)) (map fst ys) = filter (\<lambda>k. k \<notin> members xs) (map fst ys)"
      using lt a by (force intro!: filter_cong)+
    then show ?thesis using 1(1) 1(4,5) a by simp
  next
    case a: 2
    then have "fst x \<notin> members (y # ys)" using lt(2) by (auto simp: members_def)
    moreover have "filter (\<lambda>k. k \<notin> members (x # xs)) (map fst (y # ys)) = filter (\<lambda>k. k \<notin> members xs) (map fst (y # ys))"
      using lt a by (intro filter_cong) auto
    ultimately show ?thesis using 1(2) 1(4,5) a by (simp del: members_simps filter.simps(2) list.map) (simp add: members_simps)
  next
    case a: 3
    then have "fst y \<notin> members (x # xs)" using lt(1) by (auto simp: members_def)
    moreover have "filter (\<lambda>k. k \<notin> members (y # ys)) (map fst (x # xs)) = filter (\<lambda>k. k \<notin> members ys) (map fst (x # xs))"
      using lt a by (intro filter_cong) auto
    ultimately show ?thesis using 1(3) 1(4,5) a by (simp del: members_simps filter.simps(2) list.map) (simp add: members_simps)
  qed
qed simp_all

lemma transition_result:
  assumes ok: "vm_ok cmt" "vm_ok na" and bound: "sum_list (map snd na) \<le> U16_MAX" "length (concat (map snd cmt)) \<le> U64_MAX"
  shows "if length (concat (map snd cmt)) = sum_list (map snd na)
    then \<exists>cmt'. transition cmt na = Ok cmt' \<and> vm_ok cmt' \<and> sorted (map fst cmt')
      \<and> (\<forall>k. map_option length (map_of cmt' k) = (if map_of na k = Some 0 then None else map_of na k))
      \<and> mset (concat (map snd cmt')) = mset (concat (map snd cmt))
      \<and> (\<forall>k s s'. map_of cmt k = Some s \<and> map_of cmt' k = Some s' \<longrightarrow> take (length s) s' = take (length s') s)
    else transition cmt na = Err EInvalidShardAssignment"
proof -
  have size: "size (all_shards cmt) = length (concat (map snd cmt))" by (simp add: all_shards_def)
  have sum: "usum U16_MAX (map snd na) = (Ok (sum_list (map snd na)) :: (_, move_abort) result)" using bound(1) by (rule usum_Ok)
  obtain na1 to_move new_cmt n where st: "try_fold transition_member (na, [], [], 0) cmt = Ok (na1, to_move, new_cmt, n)"
      "moved cmt na cmt (na1, to_move, new_cmt, n)"
    using transition_members [OF ok] bound(2) size by (metis prod_cases4)
  have n: "n = length (concat (map snd cmt))" using st(2) size by (simp add: moved_def)
  show ?thesis
  proof (cases "length (concat (map snd cmt)) = sum_list (map snd na)")
    case True
    have "shards_of cmt k = []" if "k \<notin> members cmt" for k
      using that by (simp add: shards_of_def members_def map_of_eq_None_iff [symmetric])
    then have le: "length (shards_of cmt k) \<le> v" if "(k, v) \<in> set na1" for k v
      using st(2) that by (cases "k \<in> members cmt") (auto simp: moved_def)
    then have "assigning cmt na na1 (to_move, new_cmt)"
      using st(2) by (auto simp: moved_def assigning_def waiting_UNIV)
    from assign_all_missing [OF this] True size obtain to_move' cmt1 where
      r: "try_fold (assign_missing cmt) (to_move, new_cmt) na1 = Ok (to_move', cmt1)" "assigning cmt na [] (to_move', cmt1)" by auto
    have "vm_ok cmt1" using r(2) by (simp add: assigning_def)
    from sort_vec_map_eq [OF this] obtain cmt' where c: "sort_vec_map_by_node_id cmt1 = Ok cmt'" "mset cmt' = mset cmt1" "sorted (map fst cmt')" by blast
    have ok': "vm_ok cmt'" using \<open>vm_ok cmt1\<close> c(2) mset_eq_imp_distinct_iff [of "map fst cmt'" "map fst cmt1"] by (simp add: vm_ok_def)
    have set: "set cmt' = set cmt1" using c(2) by (rule mset_eq_setD)
    have "mset (concat (map snd xs)) = sum_mset (image_mset (\<lambda>m. mset (snd m)) (mset xs))" for xs :: committee by (induction xs) auto
    then have "mset (concat (map snd cmt')) = all_shards cmt1" using c(2) by (simp add: all_shards_def)
    moreover have total: "all_shards cmt1 + mset to_move' = all_shards cmt" "size (all_shards cmt1) = sum_list (map snd na)"
      using r(2) by (simp_all add: assigning_def)
    have "to_move' = []" using arg_cong [OF total(1), of size] total(2) True size by simp
    ultimately have shards: "mset (concat (map snd cmt')) = mset (concat (map snd cmt))" using r(2) by (simp add: assigning_def all_shards_def)
    have member: "map_of na k = Some (length s) \<and> 0 < length s \<and> take (length (shards_of cmt k)) s = take (length s) (shards_of cmt k)"
      if "map_of cmt' k = Some s" for k s
      using r(2) map_of_SomeD [OF that] set by (fastforce simp: assigning_def member_ok_def)
    have "map_option length (map_of cmt' k) = (if map_of na k = Some 0 then None else map_of na k)" for k
    proof (cases "map_of cmt' k")
      case None
      then have "k \<notin> members cmt1" using set by (simp add: members_def map_of_eq_None_iff)
      then have "map_of na k = None \<or> map_of na k = Some 0" using r(2) by (cases "map_of na k") (auto simp: assigning_def)
      then show ?thesis using None by auto
    next
      case (Some s)
      with member [OF this] show ?thesis by auto
    qed
    moreover have "take (length s) s' = take (length s') s" if "map_of cmt k = Some s \<and> map_of cmt' k = Some s'" for k s s'
      using member [of k s'] that by (simp add: shards_of_def)
    moreover have "transition cmt na = Ok cmt'" using sum st(1) n True r(1) c(1) by (simp add: transition_def)
    ultimately show ?thesis using True ok' c(3) shards by auto
  next
    case False
    then show ?thesis using sum st(1) n by (auto simp: transition_def)
  qed
qed

subsection \<open>Properties\<close>

text \<open>C11: The transition to a new assignment with the same total number of shards succeeds. In the new committee, sorted by node, exactly
  the nodes with a positive number take part, each with the assigned number of shards; every shard of the old committee belongs to
  exactly one node, as before; and a node of both committees keeps its first shards, up to the smaller of the two numbers. With
  another total the transition is refused.\<close>

theorem transition_correct:
  assumes ok: "vm_ok cmt" "vm_ok na" and bound: "sum_list (map snd na) \<le> U16_MAX" "length (concat (map snd cmt)) \<le> U64_MAX"
  shows "if length (concat (map snd cmt)) = sum_list (map snd na)
    then \<exists>cmt'. transition cmt na = Ok cmt' \<and> vm_ok cmt' \<and> sorted (map fst cmt')
      \<and> (\<forall>k. map_option length (map_of cmt' k) = (if map_of na k = Some 0 then None else map_of na k))
      \<and> mset (concat (map snd cmt')) = mset (concat (map snd cmt))
      \<and> (\<forall>k s s'. map_of cmt k = Some s \<and> map_of cmt' k = Some s' \<longrightarrow> take (length s) s' = take (length s') s)
    else transition cmt na = Err EInvalidShardAssignment"
  using transition_result [OF assms] .

theorem transition_correct_witness:
  "\<exists>cmt'. transition [(1, [0, 1, 2]), (2, [3, 4])] [(3, 2), (1, 2), (2, 1)] = Ok cmt' \<and> sorted (map fst cmt')
    \<and> map_option length (map_of cmt' 1) = Some 2 \<and> map_option length (map_of cmt' 3) = Some 2 \<and> mset (concat (map snd cmt')) = {#0, 1, 2, 3, 4#}"
proof -
  let ?c = "[(1, [0, 1, 2]), (2, [3, 4])] :: committee" and ?na = "[(3, 2), (1, 2), (2, 1)] :: nat vec_map"
  have "vm_ok ?c" "vm_ok ?na" "sum_list (map snd ?na) \<le> U16_MAX" "length (concat (map snd ?c)) \<le> U64_MAX" by (simp_all add: vm_ok_def)
  from transition_correct [OF this] obtain cmt' where c: "transition ?c ?na = Ok cmt'" "sorted (map fst cmt')"
      "\<And>k. map_option length (map_of cmt' k) = (if map_of ?na k = Some 0 then None else map_of ?na k)"
      "mset (concat (map snd cmt')) = mset (concat (map snd ?c))" by auto
  show ?thesis using c(1,2) c(3) [of 1] c(3) [of 3] c(4) by (intro exI [of _ cmt']) simp
qed

end
