(* ===== verification/CommitteeSelection.thy ===== *)
theory CommitteeSelection
  imports Apportionment ActiveSet Committee
begin



subsection \<open>The distribution\<close>






subsection \<open>Properties\<close>



end
