(* ===== verification/StorageResource.thy ===== *)
theory StorageResource
  imports MoveBase
begin

text \<open>
  Storage resources, \<open>system/storage_resource.move\<close>: a reservation of a number of bytes from a start epoch (inclusive) to an end epoch
  (exclusive). Splitting and fusing resources neither creates nor loses reserved bytes in any epoch. The object ID of a resource is
  not read by the contracts and is left out. An operation that mutates a resource returns its new value.
\<close>

record storage =
  st_start_epoch :: nat
  st_end_epoch :: nat
  st_size :: nat

definition create_storage :: "nat \<Rightarrow> nat \<Rightarrow> nat \<Rightarrow> (storage, move_abort) result" where
  "create_storage start_epoch end_epoch storage_size =
    and_then (ensure (start_epoch < end_epoch) EInvalidEpochRange) (\<lambda>_.
    Ok \<lparr>st_start_epoch = start_epoch, st_end_epoch = end_epoch, st_size = storage_size\<rparr>)"

definition extend_end_epoch :: "storage \<Rightarrow> nat \<Rightarrow> (storage, move_abort) result" where
  "extend_end_epoch self extension_epochs =
    and_then (uadd U32_MAX (st_end_epoch self) extension_epochs) (\<lambda>e. Ok (self\<lparr>st_end_epoch := e\<rparr>))"

definition increase_size :: "storage \<Rightarrow> nat \<Rightarrow> (storage, move_abort) result" where
  "increase_size self additional_size =
    and_then (uadd U64_MAX (st_size self) additional_size) (\<lambda>n. Ok (self\<lparr>st_size := n\<rparr>))"

definition split_by_epoch :: "storage \<Rightarrow> nat \<Rightarrow> (storage \<times> storage, move_abort) result" where
  "split_by_epoch storage split_epoch =
    and_then (ensure (split_epoch > st_start_epoch storage \<and> split_epoch < st_end_epoch storage) EInvalidEpoch) (\<lambda>_.
    Ok (storage\<lparr>st_end_epoch := split_epoch\<rparr>,
      \<lparr>st_start_epoch = split_epoch, st_end_epoch = st_end_epoch storage, st_size = st_size storage\<rparr>))"

definition split_by_size :: "storage \<Rightarrow> nat \<Rightarrow> (storage \<times> storage, move_abort) result" where
  "split_by_size storage split_size =
    and_then (ensure (st_size storage \<ge> split_size) EIncompatibleAmount) (\<lambda>_.
    Ok (storage\<lparr>st_size := split_size\<rparr>,
      \<lparr>st_start_epoch = st_start_epoch storage, st_end_epoch = st_end_epoch storage, st_size = st_size storage - split_size\<rparr>))"

definition fuse_periods :: "storage \<Rightarrow> storage \<Rightarrow> (storage, move_abort) result" where
  "fuse_periods first second =
    and_then (ensure (st_size first = st_size second) EIncompatibleAmount) (\<lambda>_.
    if st_end_epoch first = st_start_epoch second then Ok (first\<lparr>st_end_epoch := st_end_epoch second\<rparr>)
    else and_then (ensure (st_start_epoch first = st_end_epoch second) EIncompatibleEpochs) (\<lambda>_.
      Ok (first\<lparr>st_start_epoch := st_start_epoch second\<rparr>)))"

definition fuse_amount :: "storage \<Rightarrow> storage \<Rightarrow> (storage, move_abort) result" where
  "fuse_amount first second =
    and_then (ensure (st_start_epoch first = st_start_epoch second \<and> st_end_epoch first = st_end_epoch second) EIncompatibleEpochs) (\<lambda>_.
    and_then (uadd U64_MAX (st_size first) (st_size second)) (\<lambda>n. Ok (first\<lparr>st_size := n\<rparr>)))"

definition fuse :: "storage \<Rightarrow> storage \<Rightarrow> (storage, move_abort) result" where
  "fuse first second =
    (if st_start_epoch first = st_start_epoch second then fuse_amount first second else fuse_periods first second)"

subsection \<open>Reserved bytes\<close>

text \<open>The bytes that a resource reserves in an epoch.\<close>

definition reserved :: "storage \<Rightarrow> nat \<Rightarrow> nat" where
  "reserved s e = (if st_start_epoch s \<le> e \<and> e < st_end_epoch s then st_size s else 0)"

definition storage_ok :: "storage \<Rightarrow> bool" where
  "storage_ok s \<longleftrightarrow> st_start_epoch s < st_end_epoch s \<and> st_end_epoch s \<le> U32_MAX \<and> st_size s \<le> U64_MAX"

lemma storage_ok_range: "storage_ok s \<Longrightarrow> st_start_epoch s < st_end_epoch s"
  by (simp add: storage_ok_def)

lemma split_reserved:
  assumes "split_by_epoch s k = Ok (s', t) \<or> split_by_size s k = Ok (s', t)" "storage_ok s"
  shows "reserved s' e + reserved t e = reserved s e" "storage_ok s'" "storage_ok t"
    "max (st_end_epoch s') (st_end_epoch t) = st_end_epoch s"
  using assms by (auto simp: split_by_epoch_def split_by_size_def reserved_def storage_ok_def)

lemma fuse_reserved:
  assumes "fuse_periods s t = Ok s' \<or> fuse_amount s t = Ok s' \<or> fuse s t = Ok s'" "storage_ok s" "storage_ok t"
  shows "reserved s' e = reserved s e + reserved t e" "storage_ok s'" "st_end_epoch s' = max (st_end_epoch s) (st_end_epoch t)"
  using assms by (auto simp: fuse_def fuse_periods_def fuse_amount_def reserved_def storage_ok_def split: if_splits)

text \<open>The two ways to fuse undo the two ways to split.\<close>

lemma split_fuse:
  assumes "storage_ok s"
  shows "split_by_epoch s k = Ok (s', t) \<Longrightarrow> fuse s' t = Ok s" "split_by_size s k = Ok (s', t) \<Longrightarrow> fuse s' t = Ok s"
  using assms by (auto simp: split_by_epoch_def split_by_size_def fuse_def fuse_periods_def fuse_amount_def storage_ok_def)

end
