(* ===== verification/StorageAccounting.thy ===== *)
theory StorageAccounting
  imports MoveBase
begin

text \<open>
  The accounts of the current and the future epochs, \<open>system/storage_accounting.move\<close>: for every epoch the capacity that is used and the
  rewards to distribute, in a ring buffer that moves on by one with every epoch. The ring is an implementation of a window on
  the accounts of consecutive epochs: \<open>ring_list\<close> reads the window from the buffer, and the operations on the ring are the obvious ones on it.
\<close>

record future_accounting =
  fa_epoch :: nat
  fa_used_capacity :: nat
  fa_rewards :: nat

definition increase_used_capacity :: "nat \<Rightarrow> future_accounting \<Rightarrow> (future_accounting, move_abort) result" where
  "increase_used_capacity amount accounting =
    and_then (uadd U64_MAX (fa_used_capacity accounting) amount) (\<lambda>c. Ok (accounting\<lparr>fa_used_capacity := c\<rparr>))"

text \<open>Joining a balance to \<open>rewards_balance\<close>.\<close>

definition join_rewards :: "nat \<Rightarrow> future_accounting \<Rightarrow> (future_accounting, move_abort) result" where
  "join_rewards amount accounting =
    and_then (bal_join (fa_rewards accounting) amount) (\<lambda>b. Ok (accounting\<lparr>fa_rewards := b\<rparr>))"

record future_accounting_ring_buffer =
  current_index :: nat
  ring_length :: nat
  ring_buffer :: "future_accounting list"

definition ring_new :: "nat \<Rightarrow> future_accounting_ring_buffer" where
  "ring_new n = \<lparr>current_index = 0, ring_length = n,
    ring_buffer = map (\<lambda>epoch. \<lparr>fa_epoch = epoch, fa_used_capacity = 0, fa_rewards = 0\<rparr>) [0..<n]\<rparr>"

definition actual_index :: "future_accounting_ring_buffer \<Rightarrow> nat \<Rightarrow> (nat, move_abort) result" where
  "actual_index self epochs_in_future =
    and_then (ensure (epochs_in_future < ring_length self) ETooFarInFuture) (\<lambda>_.
    and_then (uadd U32_MAX epochs_in_future (current_index self)) (\<lambda>i. umod i (ring_length self)))"

definition ring_lookup :: "future_accounting_ring_buffer \<Rightarrow> nat \<Rightarrow> (future_accounting, move_abort) result" where
  "ring_lookup self epochs_in_future =
    and_then (actual_index self epochs_in_future) (vec_get (ring_buffer self))"

text \<open>A change of the entry that the mutable reference of \<open>ring_lookup_mut\<close> points to.\<close>

definition ring_lookup_mut ::
  "future_accounting_ring_buffer \<Rightarrow> nat \<Rightarrow> (future_accounting \<Rightarrow> (future_accounting, move_abort) result)
    \<Rightarrow> (future_accounting_ring_buffer, move_abort) result" where
  "ring_lookup_mut self epochs_in_future change =
    and_then (actual_index self epochs_in_future) (\<lambda>i.
    and_then (vec_get (ring_buffer self) i) (\<lambda>accounting.
    and_then (change accounting) (\<lambda>accounting.
    Ok (self\<lparr>ring_buffer := (ring_buffer self)[i := accounting]\<rparr>))))"

definition ring_pop_expand ::
  "future_accounting_ring_buffer \<Rightarrow> (future_accounting \<times> future_accounting_ring_buffer, move_abort) result" where
  "ring_pop_expand self =
    and_then (vec_get (ring_buffer self) (current_index self)) (\<lambda>accounting.
    and_then (uadd U32_MAX (fa_epoch accounting) (ring_length self)) (\<lambda>e.
    and_then (swap_remove (ring_buffer self @ [\<lparr>fa_epoch = e, fa_used_capacity = 0, fa_rewards = 0\<rparr>]) (current_index self))
      (\<lambda>(accounting, buffer).
    and_then (uadd U32_MAX (current_index self) 1) (\<lambda>i.
    and_then (umod i (ring_length self)) (\<lambda>i.
    Ok (accounting, self\<lparr>ring_buffer := buffer, current_index := i\<rparr>))))))"

definition ring_extract_burn_balance ::
  "future_accounting_ring_buffer \<Rightarrow> (nat \<times> future_accounting_ring_buffer, move_abort) result" where
  "ring_extract_burn_balance self =
    and_then (vec_get (ring_buffer self) (current_index self)) (\<lambda>accounting.
    and_then (expect (checked U64_MAX (fa_rewards accounting * 3))) (\<lambda>x.
    let burn_amount = x div 100 in
    and_then (bal_split (fa_rewards accounting) burn_amount) (\<lambda>rest.
    Ok (burn_amount, self\<lparr>ring_buffer := (ring_buffer self)[current_index self := accounting\<lparr>fa_rewards := rest\<rparr>]\<rparr>))))"

subsection \<open>The window of accounts\<close>

definition ring_list :: "future_accounting_ring_buffer \<Rightarrow> future_accounting list" where
  "ring_list r = rotate (current_index r) (ring_buffer r)"

text \<open>The accounts are those of consecutive epochs from the current one on. The bound on the length is the limit
  \<open>MAX_MAX_EPOCHS_AHEAD\<close> of \<open>system_state_inner.move\<close>.\<close>

definition ring_ok :: "nat \<Rightarrow> future_accounting_ring_buffer \<Rightarrow> bool" where
  "ring_ok now r \<longleftrightarrow> 0 < ring_length r \<and> ring_length r \<le> 1000 \<and> length (ring_buffer r) = ring_length r \<and> current_index r < ring_length r
    \<and> map fa_epoch (ring_list r) = [now..<now + ring_length r]"

lemma length_ring_list: "ring_ok now r \<Longrightarrow> length (ring_list r) = ring_length r"
  by (simp add: ring_list_def ring_ok_def)

lemma ring_new_ok: "0 < n \<Longrightarrow> n \<le> 1000 \<Longrightarrow> ring_ok 0 (ring_new n)"
  by (simp add: ring_ok_def ring_new_def ring_list_def comp_def)

lemma actual_index_eq:
  assumes "ring_ok now r"
  shows "actual_index r i = (if i < ring_length r then Ok ((current_index r + i) mod ring_length r) else Err ETooFarInFuture)"
  using assms by (auto simp: actual_index_def ring_ok_def umod_def add.commute)

lemma ring_lookup_eq:
  assumes "ring_ok now r"
  shows "ring_lookup r i = (if i < ring_length r then Ok (ring_list r ! i) else Err ETooFarInFuture)"
  using assms by (auto simp: ring_lookup_def actual_index_eq vec_get_def ring_list_def ring_ok_def nth_rotate)

lemma rotate_update:
  assumes "i < length xs" "k < length xs"
  shows "rotate k (xs[(k + i) mod length xs := v]) = (rotate k xs)[i := v]"
proof (rule nth_equalityI)
  fix j assume "j < length (rotate k (xs[(k + i) mod length xs := v]))"
  then have j: "j < length xs" by simp
  have m: "(k + m) mod length xs = (if k + m < length xs then k + m else k + m - length xs)" if "m < length xs" for m
    using that assms(2) by (simp add: mod_if)
  have "(k + j) mod length xs = (k + i) mod length xs \<longleftrightarrow> j = i"
    using assms j unfolding m [OF assms(1)] m [OF j] by (auto split: if_splits)
  then show "rotate k (xs[(k + i) mod length xs := v]) ! j = (rotate k xs)[i := v] ! j"
    using j assms by (cases "j = i") (simp_all add: nth_rotate nth_list_update mod_less_divisor [OF order.strict_trans1 [OF le0 assms(1)]])
qed simp

lemma ring_lookup_mut_eq:
  assumes "ring_ok now r"
  shows "ring_lookup_mut r i f = (if i < ring_length r
    then and_then (f (ring_list r ! i)) (\<lambda>a. Ok (r\<lparr>ring_buffer := (ring_buffer r)[(current_index r + i) mod ring_length r := a]\<rparr>))
    else Err ETooFarInFuture)"
  using assms by (auto simp: ring_lookup_mut_def actual_index_eq vec_get_def ring_list_def ring_ok_def nth_rotate)

text \<open>A change of an account that keeps its epoch.\<close>

lemma ring_lookup_mut_Ok:
  assumes ok: "ring_ok now r" and m: "ring_lookup_mut r i f = Ok r'" and f: "\<And>a a'. f a = Ok a' \<Longrightarrow> fa_epoch a' = fa_epoch a"
  obtains a where "i < ring_length r" "f (ring_list r ! i) = Ok a" "ring_list r' = (ring_list r)[i := a]" "ring_ok now r'" "ring_length r' = ring_length r"
proof -
  obtain a where a: "i < ring_length r" "f (ring_list r ! i) = Ok a"
    and r': "r' = r\<lparr>ring_buffer := (ring_buffer r)[(current_index r + i) mod ring_length r := a]\<rparr>"
    using m by (auto simp: ring_lookup_mut_eq [OF ok] split: if_splits)
  have l: "ring_list r' = (ring_list r)[i := a]"
    using ok a(1) rotate_update [of i "ring_buffer r" "current_index r" a] by (simp add: r' ring_list_def ring_ok_def)
  moreover have "map fa_epoch ((ring_list r)[i := a]) = map fa_epoch (ring_list r)"
    using a length_ring_list [OF ok] f [OF a(2)] by (simp add: map_update list_update_same_conv)
  ultimately have "ring_ok now r'" using ok unfolding ring_ok_def by (simp add: r')
  then show ?thesis using that a l r' by simp
qed

lemma swap_remove_last:
  assumes "i < length xs"
  shows "swap_remove (xs @ [x]) i = Ok (xs ! i, xs[i := x])"
  using assms by (simp add: swap_remove_def swap_def nth_append list_update_append butlast_append)

lemma rotate_replace_first:
  assumes "k < length xs"
  shows "rotate (Suc k mod length xs) (xs[k := x]) = tl (rotate k xs) @ [x]"
proof -
  have ne: "rotate k xs \<noteq> []" using assms by auto
  have "rotate (Suc k mod length xs) (xs[k := x]) = rotate1 (rotate k (xs[k := x]))"
    using rotate_conv_mod [of "Suc k" "xs[k := x]"] by simp
  also have "rotate k (xs[k := x]) = (rotate k xs)[0 := x]" using rotate_update [of 0 xs k x] assms ne by simp
  also have "rotate1 ((rotate k xs)[0 := x]) = tl (rotate k xs) @ [x]" using ne by (cases "rotate k xs") simp_all
  finally show ?thesis .
qed

lemma ring_pop_expand_eq:
  assumes ok: "ring_ok now r" and e: "now + ring_length r \<le> U32_MAX"
  shows "\<exists>r'. ring_pop_expand r = Ok (hd (ring_list r), r')
    \<and> ring_list r' = tl (ring_list r) @ [\<lparr>fa_epoch = now + ring_length r, fa_used_capacity = 0, fa_rewards = 0\<rparr>]
    \<and> ring_ok (Suc now) r' \<and> ring_length r' = ring_length r"
proof -
  let ?k = "current_index r" and ?b = "ring_buffer r" and ?n = "ring_length r"
  let ?new = "\<lparr>fa_epoch = now + ?n, fa_used_capacity = 0, fa_rewards = 0\<rparr>"
  have k: "?k < length ?b" "length ?b = ?n" "?n \<le> 1000" "0 < ?n" using ok by (auto simp: ring_ok_def)
  have hd: "hd (ring_list r) = ?b ! ?k"
    using k hd_rotate_conv_nth [of "ring_buffer r" ?k] by (cases "ring_buffer r") (auto simp: ring_list_def)
  have map: "map fa_epoch (ring_list r) = [now..<now + ?n]" using ok by (simp add: ring_ok_def)
  then have "fa_epoch (hd (ring_list r)) = now"
    using k(4) by (cases "ring_list r") (auto simp: upt_rec [of now])
  then have ep: "fa_epoch (?b ! ?k) = now" by (simp add: hd)
  let ?r = "r\<lparr>ring_buffer := ?b[?k := ?new], current_index := Suc ?k mod ?n\<rparr>"
  have "ring_pop_expand r = Ok (?b ! ?k, ?r)"
    using k e ep by (simp add: ring_pop_expand_def vec_get_def swap_remove_last umod_def uadd_def)
  moreover have l: "ring_list ?r = tl (ring_list r) @ [?new]"
    using rotate_replace_first [of ?k ?b ?new] k by (simp add: ring_list_def)
  moreover have "map fa_epoch (ring_list ?r) = [Suc now..<Suc now + ?n]"
    unfolding l using map k(4) by (cases "ring_list r") (auto simp: upt_rec [of now "now + ?n"])
  then have "ring_ok (Suc now) ?r" using ok k by (simp add: ring_ok_def)
  ultimately show ?thesis by (intro exI [of _ ?r]) (simp add: hd)
qed

lemma ring_extract_burn_balance_Ok:
  assumes ok: "ring_ok now r" and x: "ring_extract_burn_balance r = Ok (b, r')"
  shows "b = fa_rewards (ring_list r ! 0) * 3 div 100"
    "ring_list r' = (ring_list r)[0 := (ring_list r ! 0)\<lparr>fa_rewards := fa_rewards (ring_list r ! 0) - b\<rparr>]"
    "b \<le> fa_rewards (ring_list r ! 0)" "ring_ok now r'" "ring_length r' = ring_length r"
proof -
  let ?k = "current_index r"
  have k: "?k < length (ring_buffer r)" "length (ring_buffer r) = ring_length r" using ok by (auto simp: ring_ok_def)
  have a: "ring_list r ! 0 = ring_buffer r ! ?k" using k by (simp add: ring_list_def nth_rotate)
  have r': "b = fa_rewards (ring_buffer r ! ?k) * 3 div 100" "b \<le> fa_rewards (ring_buffer r ! ?k)"
    "r' = r\<lparr>ring_buffer := (ring_buffer r)[?k := (ring_buffer r ! ?k)\<lparr>fa_rewards := fa_rewards (ring_buffer r ! ?k) - b\<rparr>]\<rparr>"
    using x k by (auto simp: ring_extract_burn_balance_def vec_get_def Let_def split: if_splits)
  show "b = fa_rewards (ring_list r ! 0) * 3 div 100" "b \<le> fa_rewards (ring_list r ! 0)" using r' a by simp_all
  show l: "ring_list r' = (ring_list r)[0 := (ring_list r ! 0)\<lparr>fa_rewards := fa_rewards (ring_list r ! 0) - b\<rparr>]"
    using rotate_update [of 0 "ring_buffer r" ?k] k by (simp add: ring_list_def r'(3) a [unfolded ring_list_def])
  have "map fa_epoch (ring_list r') = map fa_epoch (ring_list r)"
    unfolding l using ok k by (simp add: map_update list_update_same_conv length_ring_list)
  then show "ring_ok now r'" "ring_length r' = ring_length r" using ok by (simp_all add: ring_ok_def r'(3))
qed

subsection \<open>The interface\<close>

text \<open>What the system contract needs of the accounts: a view of the window, and that a change of an entry is a change at its place in the view.
  The clients see the rewards and the used capacities as two lists.\<close>

locale account_window =
  fixes ok :: "nat \<Rightarrow> 'r \<Rightarrow> bool" and view :: "'r \<Rightarrow> future_accounting list"
    and modify :: "'r \<Rightarrow> nat \<Rightarrow> (future_accounting \<Rightarrow> (future_accounting, move_abort) result) \<Rightarrow> ('r, move_abort) result"
  assumes modify_view: "ok now r \<Longrightarrow> modify r i f = Ok r' \<Longrightarrow> (\<And>a a'. f a = Ok a' \<Longrightarrow> fa_epoch a' = fa_epoch a) \<Longrightarrow>
      \<exists>a. i < length (view r) \<and> f (view r ! i) = Ok a \<and> view r' = (view r)[i := a] \<and> ok now r'"
    and modify_defined: "ok now r \<Longrightarrow> i < length (view r) \<Longrightarrow> f (view r ! i) = Ok a \<Longrightarrow> \<exists>r'. modify r i f = Ok r'"
begin

lemma map_same: "g a = g (xs ! i) \<Longrightarrow> i < length xs \<Longrightarrow> map g (xs[i := a]) = map g xs"
  by (simp add: map_update list_update_same_conv)

lemma pay:
  assumes ok: "ok now r" and m: "modify r i (join_rewards amount) = Ok r'"
  shows "i < length (view r)" "map fa_rewards (view r') = (map fa_rewards (view r))[i := fa_rewards (view r ! i) + amount]"
    "map fa_used_capacity (view r') = map fa_used_capacity (view r)" "ok now r'"
    "fa_rewards (view r ! i) + amount \<le> U64_MAX"
proof -
  have "\<exists>a. i < length (view r) \<and> join_rewards amount (view r ! i) = Ok a \<and> view r' = (view r)[i := a] \<and> ok now r'"
    by (rule modify_view [OF ok m]) (auto simp: join_rewards_def)
  then obtain a where a: "i < length (view r)" "fa_rewards (view r ! i) + amount \<le> U64_MAX"
    "a = (view r ! i)\<lparr>fa_rewards := fa_rewards (view r ! i) + amount\<rparr>" "view r' = (view r)[i := a]" "ok now r'" by (auto simp: join_rewards_def)
  then show "i < length (view r)" "map fa_rewards (view r') = (map fa_rewards (view r))[i := fa_rewards (view r ! i) + amount]"
    "map fa_used_capacity (view r') = map fa_used_capacity (view r)" "ok now r'" "fa_rewards (view r ! i) + amount \<le> U64_MAX"
    by (simp_all add: map_update map_same list_update_same_conv)
qed

lemma use_capacity:
  assumes ok: "ok now r" and m: "modify r i (increase_used_capacity amount) = Ok r'"
  shows "i < length (view r)" "map fa_used_capacity (view r') = (map fa_used_capacity (view r))[i := fa_used_capacity (view r ! i) + amount]"
    "map fa_rewards (view r') = map fa_rewards (view r)" "ok now r'"
    "fa_used_capacity (view r ! i) + amount \<le> U64_MAX"
proof -
  have "\<exists>a. i < length (view r) \<and> increase_used_capacity amount (view r ! i) = Ok a \<and> view r' = (view r)[i := a] \<and> ok now r'"
    by (rule modify_view [OF ok m]) (auto simp: increase_used_capacity_def)
  then obtain a where a: "i < length (view r)" "fa_used_capacity (view r ! i) + amount \<le> U64_MAX"
    "a = (view r ! i)\<lparr>fa_used_capacity := fa_used_capacity (view r ! i) + amount\<rparr>" "view r' = (view r)[i := a]" "ok now r'"
    by (auto simp: increase_used_capacity_def)
  then show "i < length (view r)" "map fa_used_capacity (view r') = (map fa_used_capacity (view r))[i := fa_used_capacity (view r ! i) + amount]"
    "map fa_rewards (view r') = map fa_rewards (view r)" "ok now r'" "fa_used_capacity (view r ! i) + amount \<le> U64_MAX"
    by (simp_all add: map_update map_same list_update_same_conv)
qed

lemma pay_defined:
  assumes "ok now r" "i < length (view r)" "fa_rewards (view r ! i) + amount \<le> U64_MAX"
  shows "\<exists>r'. modify r i (join_rewards amount) = Ok r'"
  by (rule modify_defined [OF assms(1,2)]) (simp add: join_rewards_def assms(3))

end

interpretation ring: account_window ring_ok ring_list ring_lookup_mut
proof
  fix now r i f r'
  assume ok: "ring_ok now r" and m: "ring_lookup_mut r i f = Ok r'" "\<And>a a'. f a = Ok a' \<Longrightarrow> fa_epoch a' = fa_epoch a"
  from ring_lookup_mut_Ok [OF ok m] obtain a where "i < ring_length r" "f (ring_list r ! i) = Ok a" "ring_list r' = (ring_list r)[i := a]" "ring_ok now r'"
    by blast
  then show "\<exists>a. i < length (ring_list r) \<and> f (ring_list r ! i) = Ok a \<and> ring_list r' = (ring_list r)[i := a] \<and> ring_ok now r'"
    using length_ring_list [OF ok] by auto
qed (simp add: ring_lookup_mut_eq length_ring_list)

lemma ring_lookup_mut_length: "ring_lookup_mut r i f = Ok r' \<Longrightarrow> ring_length r' = ring_length r"
  by (auto simp: ring_lookup_mut_def)

end
