(* ===== verification/MoveEncoding.thy ===== *)
theory MoveEncoding
  imports MoveBase EncodingConfig
begin

text \<open>
  The encoded size of a blob and its blob ID as the contracts compute them: \<open>system/encoding.move\<close>, \<open>system/redstuff.move\<close> and
  \<open>derive_blob_id\<close> of \<open>system/blob.move\<close>. Their comments ask to keep them in sync with \<open>crates/walrus-core\<close>; the lemmas show that both
  compute the same, for every blob size and number of shards, and reject the same blobs. A \<open>u256\<close> is the list of its 32 bytes in the
  little-endian order of its serialisation, which is how blob IDs and root hashes are compared and hashed.
\<close>

subsection \<open>Encoded sizes\<close>

definition max_byzantine :: "nat \<Rightarrow> (nat, move_abort) result" where
  "max_byzantine n = and_then (usub n 1) (\<lambda>m. Ok (m div 3))"

definition move_source_symbols_primary :: "nat \<Rightarrow> (nat, move_abort) result" where
  "move_source_symbols_primary n =
    and_then (max_byzantine n) (\<lambda>f. and_then (expect (checked U16_MAX (2 * f))) (\<lambda>f2. usub n f2))"

definition move_source_symbols_secondary :: "nat \<Rightarrow> (nat, move_abort) result" where
  "move_source_symbols_secondary n = and_then (max_byzantine n) (\<lambda>f. usub n f)"

definition move_n_source_symbols :: "nat \<Rightarrow> (nat, move_abort) result" where
  "move_n_source_symbols n =
    and_then (move_source_symbols_primary n) (\<lambda>p.
    and_then (move_source_symbols_secondary n) (\<lambda>s. expect (checked U64_MAX (p * s))))"

definition move_symbol_size :: "nat \<Rightarrow> nat \<Rightarrow> (nat, move_abort) result" where
  "move_symbol_size len n =
    (let len = (if len = 0 then 1 else len) in
     and_then (move_n_source_symbols n) (\<lambda>n_symbols.
     and_then (udiv (len - 1) n_symbols) (\<lambda>q.
     and_then (uadd U64_MAX q 1) (\<lambda>x.
     and_then (expect (checked U16_MAX x)) (\<lambda>symbol_size.
     if symbol_size mod 2 = 1 then uadd U16_MAX symbol_size 1 else Ok symbol_size)))))"

definition metadata_size :: "nat \<Rightarrow> nat" where
  "metadata_size n = n * 32 * 2 + 32"

definition redstuff_encoded_blob_length :: "nat \<Rightarrow> nat \<Rightarrow> (nat, move_abort) result" where
  "redstuff_encoded_blob_length len n =
    and_then (move_source_symbols_primary n) (\<lambda>p.
    and_then (move_source_symbols_secondary n) (\<lambda>s.
    and_then (move_symbol_size len n) (\<lambda>sz.
    and_then (expect (checked U64_MAX ((p + s) * sz))) (\<lambda>slivers_size.
    expect (checked U64_MAX (n * (slivers_size + metadata_size n)))))))"

definition move_encoded_blob_length :: "nat \<Rightarrow> nat \<Rightarrow> nat \<Rightarrow> (nat, move_abort) result" where
  "move_encoded_blob_length len e n =
    and_then (ensure (e = 1) EInvalidEncodingType) (\<lambda>_. redstuff_encoded_blob_length len n)"

subsection \<open>Blob IDs\<close>

text \<open>The serialisation of \<open>BlobIdDerivation\<close>: a byte, eight bytes and 32 bytes.\<close>

definition derive_blob_id :: "hash_fun \<Rightarrow> bytes \<Rightarrow> nat \<Rightarrow> nat \<Rightarrow> blob_id" where
  "derive_blob_id h root_hash e len = h ([of_nat e] @ u64_to_le_bytes len @ root_hash)"

subsection \<open>Agreement with the core crate\<close>

lemma source_symbols_agree:
  assumes "0 < n" "n \<le> U16_MAX"
  shows "move_source_symbols_primary n = Ok (fst (source_symbols_for_n_shards n))"
    "move_source_symbols_secondary n = Ok (snd (source_symbols_for_n_shards n))"
proof -
  have "2 * ((n - 1) div 3) \<le> n" by linarith
  then show "move_source_symbols_primary n = Ok (fst (source_symbols_for_n_shards n))"
    "move_source_symbols_secondary n = Ok (snd (source_symbols_for_n_shards n))"
    using assms by (auto simp: move_source_symbols_primary_def move_source_symbols_secondary_def max_byzantine_def source_symbols_for_n_shards_def
        min_n_correct_def max_n_faulty_def mult_2)
qed

lemma even_up: "next_multiple_of s 2 = (if s mod 2 = 1 then s + 1 else s)"
  by (simp add: next_multiple_of_def)

lemma symbol_size_agree:
  assumes n: "0 < n" "n \<le> U16_MAX" and l: "l \<le> U64_MAX"
  shows "move_symbol_size l n = (case compute_symbol_size l (source_symbols_per_blob_for_n_shards n) 2 of Ok s \<Rightarrow> Ok s | _ \<Rightarrow> Panic)"
proof -
  let ?k = "source_symbols_per_blob_for_n_shards n" and ?l = "max l 1"
  have le: "fst (source_symbols_for_n_shards n) \<le> n" "snd (source_symbols_for_n_shards n) \<le> n"
    and pos: "0 < fst (source_symbols_for_n_shards n)" "0 < snd (source_symbols_for_n_shards n)"
    using max_n_faulty_less [OF n(1)] by (auto simp: source_symbols_for_n_shards_def min_n_correct_def)
  have k: "?k = fst (source_symbols_for_n_shards n) * snd (source_symbols_for_n_shards n)"
    by (simp add: source_symbols_per_blob_for_n_shards_def split: prod.splits)
  have "?k \<le> 65535 * 65535" unfolding k using le n(2) by (intro mult_mono) auto
  moreover have k0: "0 < ?k" using pos by (simp add: k)
  ultimately have N: "move_n_source_symbols n = Ok ?k"
    using source_symbols_agree [OF n] by (simp add: move_n_source_symbols_def k)
  have q: "(?l - 1) div ?k + 1 = div_ceil ?l ?k"
  proof (rule antisym)
    show "div_ceil ?l ?k \<le> (?l - 1) div ?k + 1"
      unfolding div_ceil_le_iff [OF k0] using dividend_less_times_div [OF k0, of "?l - 1"] by simp
    have "?l \<le> ?k * div_ceil ?l ?k" using div_ceil_le_iff [OF k0] by blast
    then have "?l - 1 < div_ceil ?l ?k * ?k" by (simp add: mult.commute [of _ ?k] del: max.bounded_iff)
    then show "(?l - 1) div ?k + 1 \<le> div_ceil ?l ?k" using less_mult_imp_div_less by fastforce
  qed
  have "div_ceil ?l ?k \<le> U64_MAX" using div_ceil_le_iff [OF k0, of ?l U64_MAX] l k0 mult_le_mono1 [of 1 ?k U64_MAX] by simp
  moreover have "(if l = 0 then 1 else l) = ?l" by auto
  ultimately have "move_symbol_size l n = and_then (expect (checked U16_MAX (div_ceil ?l ?k)))
      (\<lambda>s. if s mod 2 = 1 then uadd U16_MAX s 1 else Ok s)"
    using k0 q by (simp add: move_symbol_size_def N udiv_def uadd_def Let_def)
  moreover have "0 < div_ceil ?l ?k" using div_ceil_pos k0 by simp
  ultimately show ?thesis
    by (auto simp: compute_symbol_size_def even_up checked_def uadd_def Let_def split: if_splits)
qed

lemma encoded_blob_length_agree:
  assumes n: "0 < n" "n \<le> U16_MAX" and l: "l \<le> U64_MAX"
  shows "move_encoded_blob_length l 1 n = (case encoded_blob_length_for_n_shards n l RS2 of Some v \<Rightarrow> Ok v | None \<Rightarrow> Panic)"
proof -
  obtain p s where ps: "source_symbols_for_n_shards n = (p, s)" by fastforce
  have le: "p \<le> 65535" "s \<le> 65535" using ps n by (auto simp: source_symbols_for_n_shards_def min_n_correct_def)
  have "(p + s) * sz \<le> 131070 * 65535" and "n * ((p + s) * sz + metadata_size n) \<le> U64_MAX" if "sz \<le> U16_MAX" for sz
  proof -
    show 1: "(p + s) * sz \<le> 131070 * 65535" using le that by (intro mult_mono) auto
    have "n * ((p + s) * sz + metadata_size n) \<le> 65535 * (131070 * 65535 + (65535 * 32 * 2 + 32))"
      by (rule mult_le_mono [OF n(2) add_le_mono [OF 1]]) (use n(2) in \<open>simp add: metadata_size_def\<close>)
    then show "n * ((p + s) * sz + metadata_size n) \<le> U64_MAX" by simp
  qed
  note fits = this
  show ?thesis
  proof (cases "compute_symbol_size l (source_symbols_per_blob_for_n_shards n) 2")
    case (Ok sz)
    then have "sz \<le> U16_MAX" by (auto simp: compute_symbol_size_def Let_def split: if_splits)
    with fits [OF this] Ok show ?thesis
      using source_symbols_agree [OF n] symbol_size_agree [OF n l] ps
      by (simp add: move_encoded_blob_length_def redstuff_encoded_blob_length_def encoded_blob_length_for_n_shards_def
          encoded_slivers_length_for_n_shards_def metadata_length_for_n_shards_def metadata_size_def DIGEST_LEN_def BLOB_ID_LENGTH_def
          algebra_simps)
  qed (use source_symbols_agree [OF n] symbol_size_agree [OF n l] ps in
      \<open>simp_all add: move_encoded_blob_length_def redstuff_encoded_blob_length_def encoded_blob_length_for_n_shards_def
        encoded_slivers_length_for_n_shards_def\<close>)
qed

lemma derive_blob_id_agree: "derive_blob_id h (node_bytes mr) 1 len = blob_id_from_metadata h mr RS2 len"
  by (simp add: derive_blob_id_def blob_id_from_metadata_def blob_id_new_with_hash_function_def)

text \<open>C8: The contracts and the clients agree on sizes and blob IDs: for every number of shards and every size of a blob, the encoded length that the
  contracts charge and reserve is the one that the core crate computes, with an abort exactly for the sizes that cannot be encoded, and the
  blob ID that the contracts derive from the root of the metadata is the one of the core crate.\<close>

theorem contract_sizes_agree:
  assumes "0 < n" "n \<le> U16_MAX" "len \<le> U64_MAX"
  shows "move_encoded_blob_length len 1 n = (case encoded_blob_length_for_n_shards n len RS2 of Some v \<Rightarrow> Ok v | None \<Rightarrow> Panic)
    \<and> derive_blob_id h (node_bytes mr) 1 len = blob_id_from_metadata h mr RS2 len"
  using encoded_blob_length_agree [OF assms] derive_blob_id_agree by blast

theorem contract_sizes_agree_witness:
  "move_encoded_blob_length 13 1 10 = Ok 6940 \<and> encoded_blob_length_for_n_shards 10 13 RS2 = Some 6940"
proof -
  have "move_encoded_blob_length 13 (Suc 0) 10 = Ok 6940"
    by (simp add: move_encoded_blob_length_def redstuff_encoded_blob_length_def metadata_size_def move_symbol_size_def move_n_source_symbols_def
      move_source_symbols_primary_def move_source_symbols_secondary_def max_byzantine_def checked_def udiv_def usub_def uadd_def del: and_then_eq_Ok)
  then show ?thesis using contract_sizes_agree [of 10 13 undefined undefined] by (auto split: option.splits)
qed

end
