(* ===== verification/Certificates.thy ===== *)
theory Certificates
  imports MoveBase Bft CoreTypes
begin

unbundle bit_operations_syntax

text \<open>
  Certificates of the storage committee: \<open>system/bls_aggregate.move\<close> and the messages of \<open>system/messages.move\<close> that are certified.
  Signatures are BLS signatures of the framework module \<open>sui::bls12381\<close>. Public keys are elements of a commutative group, the type
  \<open>'k\<close>, and \<open>V signature key message\<close> is the signature check \<open>bls12381_min_pk_verify\<close>. The lemmas show that an accepted certificate is
  signed by exactly the members of its bitmap, with the weight that is required, and that two quorums share a correct member.
\<close>

subsection \<open>Committees\<close>

record 'k bls_committee_member =
  public_key :: 'k
  weight :: nat
  bls_node_id :: node_id

record 'k bls_committee =
  bls_members :: "'k bls_committee_member list"
  bls_n_shards :: nat
  bls_epoch :: nat
  total_aggregated_key :: 'k

datatype required_weight = Quorum | OneCorrectNode

definition new_bls_committee :: "nat \<Rightarrow> ('k :: ab_group_add) bls_committee_member list \<Rightarrow> ('k bls_committee, move_abort) result" where
  "new_bls_committee epoch members =
    and_then (try_fold (\<lambda>n member. and_then (ensure (weight member > 0) EIncorrectCommittee) (\<lambda>_. uadd U16_MAX n (weight member))) 0 members) (\<lambda>n.
    Ok \<lparr>bls_members = members, bls_n_shards = n, bls_epoch = epoch, total_aggregated_key = sum_list (map public_key members)\<rparr>)"

definition get_member_weight :: "'k bls_committee \<Rightarrow> node_id \<Rightarrow> nat" where
  "get_member_weight self node_id =
    (case find_index (\<lambda>m. bls_node_id m = node_id) (bls_members self) of Some i \<Rightarrow> weight (bls_members self ! i) | None \<Rightarrow> 0)"

definition bls_contains :: "'k bls_committee \<Rightarrow> node_id \<Rightarrow> bool" where
  "bls_contains self node_id \<longleftrightarrow> find_index (\<lambda>m. bls_node_id m = node_id) (bls_members self) \<noteq> None"

definition to_vec_map :: "'k bls_committee \<Rightarrow> (nat vec_map, move_abort) result" where
  "to_vec_map self = try_fold (\<lambda>m member. vm_insert m (bls_node_id member) (weight member)) [] (bls_members self)"

definition is_quorum :: "'k bls_committee \<Rightarrow> nat \<Rightarrow> bool" where
  "is_quorum self w \<longleftrightarrow> 3 * w \<ge> 2 * bls_n_shards self + 1"

definition includes_one_correct_node :: "'k bls_committee \<Rightarrow> nat \<Rightarrow> bool" where
  "includes_one_correct_node self w \<longleftrightarrow> 3 * w \<ge> bls_n_shards self + 1"

subsection \<open>Verification\<close>

text \<open>One bit of the bitmap: a member that did not sign adds to the weight and the keys of the non-signers.\<close>

definition read_signer_bit ::
  "'k bls_committee \<Rightarrow> nat \<Rightarrow> byte \<Rightarrow> nat \<times> 'k list \<Rightarrow> nat \<Rightarrow> (nat \<times> 'k list, move_abort) result" where
  "read_signer_bit self offset byte = (\<lambda>(non_signer_aggregate_weight, non_signer_public_keys) i.
    let index = offset + i; is_signer = (drop_bit i byte AND 1 = 1) in
    if index \<ge> length (bls_members self)
    then and_then (ensure (\<not> is_signer) EInvalidBitmap) (\<lambda>_. Ok (non_signer_aggregate_weight, non_signer_public_keys))
    else if \<not> is_signer
    then let member = bls_members self ! index in
      and_then (uadd U16_MAX non_signer_aggregate_weight (weight member)) (\<lambda>w. Ok (w, non_signer_public_keys @ [public_key member]))
    else Ok (non_signer_aggregate_weight, non_signer_public_keys))"

definition read_signers_bitmap :: "'k bls_committee \<Rightarrow> bytes \<Rightarrow> (nat \<times> 'k list, move_abort) result" where
  "read_signers_bitmap self signers_bitmap =
    (let max_bitmap_len_bytes = div_ceil (length (bls_members self)) 8 in
     and_then (ensure (length signers_bitmap \<le> max_bitmap_len_bytes) EInvalidBitmap) (\<lambda>_.
     try_fold (\<lambda>s i. try_fold (read_signer_bit self (8 * i) (if i < length signers_bitmap then signers_bitmap ! i else 0)) s [0..<8])
       (0, []) [0..<max_bitmap_len_bytes]))"

definition verify_certificate_and_weight ::
  "(bytes \<Rightarrow> 'k \<Rightarrow> bytes \<Rightarrow> bool) \<Rightarrow> ('k :: ab_group_add) bls_committee \<Rightarrow> bytes \<Rightarrow> bytes \<Rightarrow> bytes \<Rightarrow> required_weight \<Rightarrow> (nat, move_abort) result" where
  "verify_certificate_and_weight V self signature signers_bitmap message required =
    and_then (read_signers_bitmap self signers_bitmap) (\<lambda>(non_signer_aggregate_weight, non_signer_public_keys).
    and_then (usub (bls_n_shards self) non_signer_aggregate_weight) (\<lambda>aggregate_weight.
    and_then (case required of
        Quorum \<Rightarrow> ensure (is_quorum self aggregate_weight) ENotEnoughStake
      | OneCorrectNode \<Rightarrow> ensure (includes_one_correct_node self aggregate_weight) ENotEnoughStake) (\<lambda>_.
    let aggregate_key = total_aggregated_key self - sum_list non_signer_public_keys in
    and_then (ensure (V signature aggregate_key message) ESigVerification) (\<lambda>_. Ok aggregate_weight))))"

subsection \<open>Certified messages\<close>

text \<open>Reading from the front of a BCS encoding, \<open>sui::bcs\<close>.\<close>

definition peel :: "nat \<Rightarrow> bytes \<Rightarrow> (bytes \<times> bytes, move_abort) result" where
  "peel n bs = (if n \<le> length bs then Ok (take n bs, drop n bs) else Err EOutOfRange)"

definition le_value :: "bytes \<Rightarrow> nat" where
  "le_value bs = foldr (\<lambda>b a. unat b + 256 * a) bs 0"

record certified_message =
  intent_type :: nat
  intent_version :: nat
  cert_epoch :: nat
  cert_message :: bytes
  stake_support :: nat

datatype blob_persistence_type = Permanent | Deletable bytes

record certified_blob_message =
  certified_blob_id :: blob_id
  persistence :: blob_persistence_type

definition new_certified_message :: "bytes \<Rightarrow> nat \<Rightarrow> nat \<Rightarrow> (certified_message, move_abort) result" where
  "new_certified_message message_bytes committee_epoch support =
    and_then (peel 1 message_bytes) (\<lambda>(t, bs).
    and_then (peel 1 bs) (\<lambda>(v, bs).
    and_then (ensure (le_value v = 0) EIncorrectIntentVersion) (\<lambda>_.
    and_then (peel 1 bs) (\<lambda>(app, bs).
    and_then (ensure (le_value app = 3) EIncorrectAppId) (\<lambda>_.
    and_then (peel 4 bs) (\<lambda>(e, bs).
    and_then (ensure (le_value e = committee_epoch) EIncorrectEpoch) (\<lambda>_.
    Ok \<lparr>intent_type = le_value t, intent_version = le_value v, cert_epoch = le_value e, cert_message = bs, stake_support = support\<rparr>)))))))"

definition peel_blob_persistence_type :: "bytes \<Rightarrow> (blob_persistence_type \<times> bytes, move_abort) result" where
  "peel_blob_persistence_type bs =
    and_then (peel 1 bs) (\<lambda>(t, bs).
    if le_value t = 0 then Ok (Permanent, bs)
    else if le_value t = 1 then and_then (peel 32 bs) (\<lambda>(object_id, bs). Ok (Deletable object_id, bs))
    else Err EInvalidBlobPersistenceType)"

definition certify_blob_message :: "certified_message \<Rightarrow> (certified_blob_message, move_abort) result" where
  "certify_blob_message message =
    and_then (ensure (intent_type message = 1) EInvalidMsgType) (\<lambda>_.
    and_then (peel 32 (cert_message message)) (\<lambda>(blob_id, bs).
    and_then (peel_blob_persistence_type bs) (\<lambda>(t, _).
    Ok \<lparr>certified_blob_id = blob_id, persistence = t\<rparr>)))"

definition certified_event_blob_message :: "blob_id \<Rightarrow> certified_blob_message" where
  "certified_event_blob_message b = \<lparr>certified_blob_id = b, persistence = Permanent\<rparr>"

definition invalid_blob_id_message :: "certified_message \<Rightarrow> (blob_id, move_abort) result" where
  "invalid_blob_id_message message =
    and_then (ensure (intent_type message = 2) EInvalidMsgType) (\<lambda>_.
    and_then (peel 32 (cert_message message)) (\<lambda>(blob_id, _). Ok blob_id))"

definition verify_quorum_in_epoch ::
  "(bytes \<Rightarrow> 'k \<Rightarrow> bytes \<Rightarrow> bool) \<Rightarrow> ('k :: ab_group_add) bls_committee \<Rightarrow> bytes \<Rightarrow> bytes \<Rightarrow> bytes \<Rightarrow> (certified_message, move_abort) result" where
  "verify_quorum_in_epoch V self signature signers_bitmap message =
    and_then (verify_certificate_and_weight V self signature signers_bitmap message Quorum) (\<lambda>support.
    new_certified_message message (bls_epoch self) support)"

definition verify_one_correct_node_in_epoch ::
  "(bytes \<Rightarrow> 'k \<Rightarrow> bytes \<Rightarrow> bool) \<Rightarrow> ('k :: ab_group_add) bls_committee \<Rightarrow> bytes \<Rightarrow> bytes \<Rightarrow> bytes \<Rightarrow> (certified_message, move_abort) result" where
  "verify_one_correct_node_in_epoch V self signature signers_bitmap message =
    and_then (verify_certificate_and_weight V self signature signers_bitmap message OneCorrectNode) (\<lambda>support.
    new_certified_message message (bls_epoch self) support)"

subsection \<open>Who signed\<close>

definition committee_wf :: "('k :: ab_group_add) bls_committee \<Rightarrow> bool" where
  "committee_wf c \<longleftrightarrow> bls_n_shards c = sum_list (map weight (bls_members c)) \<and> bls_n_shards c \<le> U16_MAX
    \<and> list_all (\<lambda>m. 0 < weight m) (bls_members c) \<and> total_aggregated_key c = sum_list (map public_key (bls_members c))"

text \<open>The members whose bit is set.\<close>

definition is_signer :: "bytes \<Rightarrow> nat \<Rightarrow> bool" where
  "is_signer bitmap i \<longleftrightarrow> i div 8 < length bitmap \<and> bit (bitmap ! (i div 8)) (i mod 8)"

definition signers :: "'k bls_committee \<Rightarrow> bytes \<Rightarrow> nat set" where
  "signers c bitmap = {i. i < length (bls_members c) \<and> is_signer bitmap i}"

definition weight_of :: "'k bls_committee \<Rightarrow> nat set \<Rightarrow> nat" where
  "weight_of c S = (\<Sum>i\<in>S. weight (bls_members c ! i))"

lemma new_bls_committee_wf: "new_bls_committee e ms = Ok c \<Longrightarrow> committee_wf c \<and> bls_epoch c = e \<and> bls_members c = ms"
proof -
  have "try_fold (\<lambda>n member. and_then (ensure (weight member > 0) EIncorrectCommittee) (\<lambda>_. uadd U16_MAX n (weight member))) a ms = Ok n
    \<Longrightarrow> a \<le> U16_MAX \<Longrightarrow> n = a + sum_list (map weight ms) \<and> n \<le> U16_MAX \<and> list_all (\<lambda>m. 0 < weight m) ms" for a n
  proof (induction ms arbitrary: a)
    case (Cons m ms)
    then have "0 < weight m" "a + weight m \<le> U16_MAX" and t: "try_fold (\<lambda>n member. and_then (ensure (weight member > 0) EIncorrectCommittee)
      (\<lambda>_. uadd U16_MAX n (weight member))) (a + weight m) ms = Ok n" by simp_all
    with Cons.IH [OF t] show ?case by simp
  qed auto
  then show "new_bls_committee e ms = Ok c \<Longrightarrow> committee_wf c \<and> bls_epoch c = e \<and> bls_members c = ms"
    by (fastforce simp: new_bls_committee_def committee_wf_def)
qed

text \<open>The two loops read the bits one after the other.\<close>

definition read_bit :: "'k bls_committee \<Rightarrow> bytes \<Rightarrow> nat \<times> 'k list \<Rightarrow> nat \<Rightarrow> (nat \<times> 'k list, move_abort) result" where
  "read_bit c bitmap s k = read_signer_bit c (8 * (k div 8)) (if k div 8 < length bitmap then bitmap ! (k div 8) else 0) s (k mod 8)"

lemma bit_test: "(drop_bit i (b :: byte) AND 1 = 1) = bit b i"
  by (simp add: and_one_eq bit_iff_odd_drop_bit odd_iff_mod_2_eq_one)

lemma try_fold_cong: "(\<And>s x. x \<in> set xs \<Longrightarrow> f s x = g s x) \<Longrightarrow> try_fold f s xs = try_fold g s xs"
  by (induction xs arbitrary: s) (auto intro!: and_then_cong)

lemma try_fold_map: "try_fold f s (map g xs) = try_fold (\<lambda>s x. f s (g x)) s xs"
  by (induction xs arbitrary: s) (auto intro!: and_then_cong)

lemma read_bytes:
  "try_fold (\<lambda>s i. try_fold (read_signer_bit c (8 * i) (if i < length bitmap then bitmap ! i else 0)) s [0..<8]) s [0..<n]
    = try_fold (read_bit c bitmap) s [0..<8 * n]"
proof (induction n)
  case (Suc n)
  have e: "[8 * n..<8 * n + 8] = map (\<lambda>i. 8 * n + i) [0..<8]" using map_add_upt [of "8 * n" 8] by (simp add: add.commute)
  have "try_fold (read_bit c bitmap) s' [8 * n..<8 * n + 8]
    = try_fold (read_signer_bit c (8 * n) (if n < length bitmap then bitmap ! n else 0)) s' [0..<8]" for s'
    unfolding e try_fold_map by (rule try_fold_cong) (simp add: read_bit_def)
  moreover have "[0..<8 * Suc n] = [0..<8 * n] @ [8 * n..<8 * n + 8]" using upt_add_eq_append [of 0 "8 * n" 8] by (simp add: add.commute)
  ultimately show ?case by (simp add: try_fold_append Suc.IH del: upt.upt_Suc) (simp add: try_fold_append Suc.IH and_then_return)
qed simp

lemma read_bit_eq:
  "read_bit c bitmap (w, ks) k =
    (if k \<ge> length (bls_members c) then (if is_signer bitmap k then Err EInvalidBitmap else Ok (w, ks))
     else if is_signer bitmap k then Ok (w, ks)
     else and_then (uadd U16_MAX w (weight (bls_members c ! k))) (\<lambda>w. Ok (w, ks @ [public_key (bls_members c ! k)])))"
  by (simp add: read_bit_def read_signer_bit_def bit_test is_signer_def Let_def ensure_def)

definition nonsigners :: "'k bls_committee \<Rightarrow> bytes \<Rightarrow> nat \<Rightarrow> 'k bls_committee_member list" where
  "nonsigners c bitmap k = map ((!) (bls_members c)) (filter (\<lambda>i. \<not> is_signer bitmap i) [0..<min k (length (bls_members c))])"

lemma read_bits:
  assumes "try_fold (read_bit c bitmap) (0, []) [0..<k] = Ok (w, ks)"
  shows "w = sum_list (map weight (nonsigners c bitmap k)) \<and> ks = map public_key (nonsigners c bitmap k)
    \<and> (\<forall>i<k. is_signer bitmap i \<longrightarrow> i < length (bls_members c))"
  using assms
proof (induction k arbitrary: w ks)
  case 0
  then show ?case by (simp add: nonsigners_def)
next
  case (Suc k)
  obtain w' ks' where s: "try_fold (read_bit c bitmap) (0, []) [0..<k] = Ok (w', ks')" and r: "read_bit c bitmap (w', ks') k = Ok (w, ks)"
    using Suc.prems by (auto simp: try_fold_append)
  show ?case using Suc.IH [OF s] r
    by (auto simp: read_bit_eq nonsigners_def less_Suc_eq min_def split: if_splits)
qed

text \<open>What is left after taking away the non-signers.\<close>

lemma signers_rest:
  fixes f :: "'k bls_committee_member \<Rightarrow> 'b :: comm_monoid_add"
  shows "sum_list (map f (bls_members c))
    = sum_list (map f (nonsigners c bitmap (length (bls_members c)))) + (\<Sum>i\<in>signers c bitmap. f (bls_members c ! i))"
proof -
  let ?n = "length (bls_members c)" and ?g = "\<lambda>i. f (bls_members c ! i)"
  have "sum_list (map f (bls_members c)) = (\<Sum>i<?n. ?g i)" by (simp add: sum_list_sum_nth atLeast0LessThan)
  also have "{..<?n} = {i. i < ?n \<and> \<not> is_signer bitmap i} \<union> signers c bitmap" by (auto simp: signers_def)
  also have "sum ?g \<dots> = sum ?g {i. i < ?n \<and> \<not> is_signer bitmap i} + sum ?g (signers c bitmap)"
    by (rule sum.union_disjoint) (auto simp: signers_def)
  also have "sum ?g {i. i < ?n \<and> \<not> is_signer bitmap i} = sum_list (map f (nonsigners c bitmap ?n))"
    by (simp add: nonsigners_def comp_def sum_list_distinct_conv_sum_set conj_commute)
  finally show ?thesis .
qed

lemma certificate_signers:
  assumes wf: "committee_wf c" and v: "verify_certificate_and_weight V c signature bitmap message required = Ok w"
  shows "w = weight_of c (signers c bitmap)" "V signature (\<Sum>i\<in>signers c bitmap. public_key (bls_members c ! i)) message"
    "case required of Quorum \<Rightarrow> is_quorum c w | OneCorrectNode \<Rightarrow> includes_one_correct_node c w"
    "\<And>i. is_signer bitmap i \<Longrightarrow> i < length (bls_members c)"
proof -
  let ?n = "length (bls_members c)"
  obtain nw nk where r: "read_signers_bitmap c bitmap = Ok (nw, nk)" and w: "nw \<le> bls_n_shards c" "w = bls_n_shards c - nw"
    and q: "case required of Quorum \<Rightarrow> is_quorum c w | OneCorrectNode \<Rightarrow> includes_one_correct_node c w"
    and V: "V signature (total_aggregated_key c - sum_list nk) message"
    using v by (cases required) (auto simp: verify_certificate_and_weight_def Let_def)
  have len: "length bitmap \<le> div_ceil ?n 8" and f: "try_fold (read_bit c bitmap) (0, []) [0..<8 * div_ceil ?n 8] = Ok (nw, nk)"
    using r by (auto simp: read_signers_bitmap_def read_bytes Let_def)
  have "?n \<le> 8 * div_ceil ?n 8" using div_ceil_le_iff [of 8 ?n "div_ceil ?n 8"] by simp
  then have N: "nonsigners c bitmap (8 * div_ceil ?n 8) = nonsigners c bitmap ?n" by (simp add: nonsigners_def min_absorb2)
  note b = read_bits [OF f, unfolded N]
  show "w = weight_of c (signers c bitmap)"
    using w b wf signers_rest [of weight c bitmap] by (simp add: committee_wf_def weight_of_def)
  show "V signature (\<Sum>i\<in>signers c bitmap. public_key (bls_members c ! i)) message"
    using V b wf signers_rest [of public_key c bitmap] by (simp add: committee_wf_def)
  show "case required of Quorum \<Rightarrow> is_quorum c w | OneCorrectNode \<Rightarrow> includes_one_correct_node c w" using q .
  show "i < ?n" if "is_signer bitmap i" for i
  proof -
    have "i div 8 < div_ceil ?n 8" using that len by (auto simp: is_signer_def)
    then have "i < 8 * div_ceil ?n 8" by linarith
    then show ?thesis using b that by blast
  qed
qed

lemma quorum_intersection:
  assumes wf: "committee_wf c" and S: "S \<subseteq> {..<length (bls_members c)}" "T \<subseteq> {..<length (bls_members c)}"
    and q: "is_quorum c (weight_of c S)" "is_quorum c (weight_of c T)"
  shows "max_n_faulty (bls_n_shards c) < weight_of c (S \<inter> T)"
proof -
  have fin: "finite S" "finite T" using S finite_subset by blast+
  have "weight_of c (S \<union> T) \<le> weight_of c {..<length (bls_members c)}"
    unfolding weight_of_def using S by (intro sum_mono2) auto
  also have "\<dots> = bls_n_shards c" using wf by (simp add: committee_wf_def weight_of_def sum_list_sum_nth atLeast0LessThan)
  finally have "weight_of c (S \<union> T) \<le> bls_n_shards c" .
  moreover have "weight_of c (S \<union> T) + weight_of c (S \<inter> T) = weight_of c S + weight_of c T"
    unfolding weight_of_def by (rule sum.union_inter [OF fin])
  ultimately show ?thesis using q unfolding is_quorum_def max_n_faulty_def by linarith
qed

subsection \<open>What a certificate says\<close>

text \<open>The bytes of a message about the availability of a blob.\<close>

fun persistence_bytes :: "blob_persistence_type \<Rightarrow> bytes" where
  "persistence_bytes Permanent = [0]"
| "persistence_bytes (Deletable object_id) = 1 # object_id"

lemma peel_Ok [simp]: "peel n bs = Ok (x, y) \<longleftrightarrow> length x = n \<and> bs = x @ y"
  by (auto simp: peel_def)

lemma le_value_byte: "length t = 1 \<Longrightarrow> k < 256 \<Longrightarrow> le_value t = k \<longleftrightarrow> t = [of_nat k]"
  by (auto simp: length_Suc_conv le_value_def unat_of_nat unsigned_of_nat take_bit_eq_mod word_unat_eq_iff simp del: unsigned_of_nat)

lemma certified_blob_bytes:
  assumes "new_certified_message msg e n = Ok m" "certify_blob_message m = Ok b"
  shows "\<exists>eb rest. msg = [1, 0, 3] @ eb @ certified_blob_id b @ persistence_bytes (persistence b) @ rest
    \<and> length eb = 4 \<and> le_value eb = e \<and> length (certified_blob_id b) = 32"
proof -
  obtain t v app eb bs where m: "msg = t @ v @ app @ eb @ bs" "length t = 1" "length v = 1" "length app = 1" "length eb = 4"
      "le_value v = 0" "le_value app = 3" "le_value eb = e"
      "m = \<lparr>intent_type = le_value t, intent_version = 0, cert_epoch = e, cert_message = bs, stake_support = n\<rparr>"
    using assms(1) by (auto simp: new_certified_message_def)
  obtain bid bs' p rest where c: "le_value t = 1" "bs = bid @ bs'" "length bid = 32" "peel_blob_persistence_type bs' = Ok (p, rest)"
      "b = \<lparr>certified_blob_id = bid, persistence = p\<rparr>"
    using assms(2) by (auto simp: certify_blob_message_def m(9))
  have "bs' = persistence_bytes p @ rest"
    using c(4) le_value_byte [of _ 0] le_value_byte [of _ 1] by (auto simp: peel_blob_persistence_type_def split: if_splits)
  moreover have "t = [1]" "v = [0]" "app = [3]"
    using m c(1) le_value_byte [of t 1] le_value_byte [of v 0] le_value_byte [of app 3] by auto
  ultimately show ?thesis using m(1,5,8) c by (intro exI [of _ eb] exI [of _ rest]) simp
qed

text \<open>C6: A certificate with which a blob is certified is a signature of the members in its bitmap on a message with exactly the blob ID, the
  kind of blob and the epoch of the committee. The signers hold a quorum of the shards; with the signers of any other quorum
  certificate of the committee they share more shards than faulty nodes can hold.\<close>

theorem blob_certificate_sound:
  assumes wf: "committee_wf c" and v: "verify_quorum_in_epoch V c signature bitmap msg = Ok m" and b: "certify_blob_message m = Ok b"
  shows "is_quorum c (weight_of c (signers c bitmap))
    \<and> V signature (\<Sum>i\<in>signers c bitmap. public_key (bls_members c ! i)) msg
    \<and> (\<exists>eb rest. msg = [1, 0, 3] @ eb @ certified_blob_id b @ persistence_bytes (persistence b) @ rest
      \<and> length eb = 4 \<and> le_value eb = bls_epoch c \<and> length (certified_blob_id b) = 32)
    \<and> (\<forall>signature' bitmap' msg' m'. verify_quorum_in_epoch V c signature' bitmap' msg' = Ok m' \<longrightarrow>
      max_n_faulty (bls_n_shards c) < weight_of c (signers c bitmap \<inter> signers c bitmap'))"
proof -
  have q: "is_quorum c (weight_of c (signers c bm)) \<and> V s (\<Sum>i\<in>signers c bm. public_key (bls_members c ! i)) x"
    if "verify_quorum_in_epoch V c s bm x = Ok y" for s bm x y
    using that certificate_signers [OF wf, of V s bm x Quorum] by (auto simp: verify_quorum_in_epoch_def)
  obtain n where n: "new_certified_message msg (bls_epoch c) n = Ok m" using v by (auto simp: verify_quorum_in_epoch_def)
  have S: "signers c bm \<subseteq> {..<length (bls_members c)}" for bm by (auto simp: signers_def)
  have "max_n_faulty (bls_n_shards c) < weight_of c (signers c bitmap \<inter> signers c bm)" if "verify_quorum_in_epoch V c s bm x = Ok y" for s bm x y
    using quorum_intersection [OF wf S S] q [OF v] q [OF that] by simp
  with q [OF v] certified_blob_bytes [OF n b] show ?thesis by simp
qed

definition example_bls_committee :: "int bls_committee" where
  "example_bls_committee = \<lparr>bls_members = [\<lparr>public_key = 1, weight = 1, bls_node_id = 1\<rparr>, \<lparr>public_key = 2, weight = 1, bls_node_id = 2\<rparr>,
      \<lparr>public_key = 4, weight = 1, bls_node_id = 3\<rparr>, \<lparr>public_key = 8, weight = 1, bls_node_id = 4\<rparr>],
    bls_n_shards = 4, bls_epoch = 5, total_aggregated_key = 15\<rparr>"

definition example_certificate :: bytes where
  "example_certificate = [1, 0, 3] @ [5, 0, 0, 0] @ replicate 32 9 @ [0]"

lemma example_bitmap: "read_signers_bitmap example_bls_committee [7] = Ok (1, [8])"
proof -
  have d: "div_ceil (length (bls_members example_bls_committee)) 8 = 1" by (simp add: div_ceil_def example_bls_committee_def)
  have u: "[0..<8] = [0, 1, 2, 3, 4, 5, 6, 7]" by (simp add: upt_rec)
  have s: "is_signer [7] 0" "is_signer [7] (Suc 0)" "is_signer [7] 2" "\<not> is_signer [7] 3" "\<not> is_signer [7] 4" "\<not> is_signer [7] 5"
    "\<not> is_signer [7] 6" "\<not> is_signer [7] 7"
    by (simp_all add: is_signer_def bit_1_iff)
  have "read_signers_bitmap example_bls_committee [7] = try_fold (read_bit example_bls_committee [7]) (0, []) [0..<8]"
    using read_bytes [of example_bls_committee "[7]" "(0, [])" 1] by (simp add: read_signers_bitmap_def d del: upt_Suc)
  also have "\<dots> = Ok (1, [8])"
    unfolding u by (simp add: read_bit_eq s uadd_def example_bls_committee_def del: and_then_eq_Ok)
  finally show ?thesis .
qed

lemma example_certificate_ok:
  "verify_quorum_in_epoch (\<lambda>s k m. k = 7) example_bls_committee [] [7] example_certificate
    = Ok \<lparr>intent_type = 1, intent_version = 0, cert_epoch = 5, cert_message = replicate 32 9 @ [0], stake_support = 3\<rparr>"
  "certify_blob_message \<lparr>intent_type = 1, intent_version = 0, cert_epoch = 5, cert_message = replicate 32 9 @ [0], stake_support = 3\<rparr>
    = Ok \<lparr>certified_blob_id = replicate 32 9, persistence = Permanent\<rparr>"
proof -
  have "verify_certificate_and_weight (\<lambda>s k m. k = 7) example_bls_committee [] [7] example_certificate Quorum = Ok 3"
    unfolding verify_certificate_and_weight_def example_bitmap
    by (simp add: is_quorum_def example_bls_committee_def usub_def del: and_then_eq_Ok)
  then show "verify_quorum_in_epoch (\<lambda>s k m. k = 7) example_bls_committee [] [7] example_certificate
    = Ok \<lparr>intent_type = 1, intent_version = 0, cert_epoch = 5, cert_message = replicate 32 9 @ [0], stake_support = 3\<rparr>"
    by (simp add: verify_quorum_in_epoch_def new_certified_message_def example_certificate_def peel_def le_value_def example_bls_committee_def)
qed (simp add: certify_blob_message_def peel_blob_persistence_type_def peel_def le_value_def)

theorem blob_certificate_sound_witness:
  "is_quorum example_bls_committee (weight_of example_bls_committee (signers example_bls_committee [7]))
    \<and> max_n_faulty (bls_n_shards example_bls_committee) < weight_of example_bls_committee (signers example_bls_committee [7] \<inter> signers example_bls_committee [7])"
proof -
  have "committee_wf example_bls_committee" by (simp add: committee_wf_def example_bls_committee_def)
  from blob_certificate_sound [OF this example_certificate_ok] example_certificate_ok(1) show ?thesis by blast
qed

end
