(* ===== verification/MoveBlob.thy ===== *)
theory MoveBlob
  imports StorageResource MoveEncoding Certificates BlobEvents
begin

text \<open>
  Blob objects on chain, \<open>system/blob.move\<close>. Every operation that emits an event returns it, as the event that a storage node receives
  (theory \<open>BlobEvents\<close>); \<open>eid\<close> is the ID that Sui gives to the event and \<open>oid\<close> the ID of a new object. The encoding type in an event is
  always the one that the contracts accept. User metadata, which is attached to a blob and not read by the contracts, is left out.
\<close>

record move_blob =
  mb_id :: object_id
  mb_registered_epoch :: epoch
  mb_blob_id :: blob_id
  mb_size :: nat
  mb_encoding_type :: nat
  mb_certified_epoch :: "epoch option"
  mb_storage :: storage
  mb_deletable :: bool

definition assert_certified_not_expired :: "move_blob \<Rightarrow> epoch \<Rightarrow> (unit, move_abort) result" where
  "assert_certified_not_expired self current_epoch =
    and_then (ensure (mb_certified_epoch self \<noteq> None) ENotCertified) (\<lambda>_.
    ensure (current_epoch < st_end_epoch (mb_storage self)) EResourceBounds)"

definition move_blob_new ::
  "hash_fun \<Rightarrow> object_id \<Rightarrow> event_id \<Rightarrow> storage \<Rightarrow> blob_id \<Rightarrow> bytes \<Rightarrow> nat \<Rightarrow> nat \<Rightarrow> bool \<Rightarrow> epoch \<Rightarrow> nat \<Rightarrow> (move_blob \<times> blob_event, move_abort) result" where
  "move_blob_new h oid eid storage blob_id root_hash len encoding deletable registered_epoch n =
    and_then (ensure (registered_epoch \<ge> st_start_epoch storage) EResourceBounds) (\<lambda>_.
    and_then (ensure (registered_epoch < st_end_epoch storage) EResourceBounds) (\<lambda>_.
    and_then (move_encoded_blob_length len encoding n) (\<lambda>encoded_size.
    and_then (ensure (encoded_size \<le> st_size storage) EResourceSize) (\<lambda>_.
    and_then (ensure (derive_blob_id h root_hash encoding len = blob_id) EInvalidBlobId) (\<lambda>_.
    Ok (\<lparr>mb_id = oid, mb_registered_epoch = registered_epoch, mb_blob_id = blob_id, mb_size = len, mb_encoding_type = encoding,
          mb_certified_epoch = None, mb_storage = storage, mb_deletable = deletable\<rparr>,
        Registered \<lparr>br_epoch = registered_epoch, br_blob_id = blob_id, br_size = len, br_encoding_type = RS2,
          br_end_epoch = st_end_epoch storage, br_deletable = deletable, br_object_id = oid, br_event_id = eid\<rparr>))))))"

definition emit_certified :: "event_id \<Rightarrow> move_blob \<Rightarrow> bool \<Rightarrow> (blob_event, move_abort) result" where
  "emit_certified eid self is_extension =
    and_then (expect (mb_certified_epoch self)) (\<lambda>e.
    Ok (Certified \<lparr>bc_epoch = e, bc_blob_id = mb_blob_id self, bc_end_epoch = st_end_epoch (mb_storage self),
      bc_deletable = mb_deletable self, bc_object_id = mb_id self, bc_is_extension = is_extension, bc_event_id = eid\<rparr>))"

fun is_deletable :: "blob_persistence_type \<Rightarrow> bool" where
  "is_deletable (Deletable _) = True"
| "is_deletable Permanent = False"

fun persistence_object_id :: "blob_persistence_type \<Rightarrow> (object_id, move_abort) result" where
  "persistence_object_id (Deletable object_id) = Ok object_id"
| "persistence_object_id Permanent = Err ENotDeletable"

definition certify_with_certified_msg ::
  "event_id \<Rightarrow> move_blob \<Rightarrow> epoch \<Rightarrow> certified_blob_message \<Rightarrow> (move_blob \<times> blob_event, move_abort) result" where
  "certify_with_certified_msg eid blob current_epoch message =
    and_then (ensure (mb_blob_id blob = certified_blob_id message) EInvalidBlobId) (\<lambda>_.
    and_then (ensure (mb_certified_epoch blob = None) EAlreadyCertified) (\<lambda>_.
    and_then (ensure (current_epoch < st_end_epoch (mb_storage blob)) EResourceBounds) (\<lambda>_.
    and_then (ensure (mb_deletable blob = is_deletable (persistence message)) EInvalidBlobPersistenceType) (\<lambda>_.
    and_then (if mb_deletable blob
      then and_then (persistence_object_id (persistence message)) (\<lambda>object_id. ensure (object_id = mb_id blob) EInvalidBlobObject)
      else Ok ()) (\<lambda>_.
    let blob = blob\<lparr>mb_certified_epoch := Some current_epoch\<rparr> in
    and_then (emit_certified eid blob False) (\<lambda>ev. Ok (blob, ev)))))))"

definition move_blob_delete :: "event_id \<Rightarrow> move_blob \<Rightarrow> epoch \<Rightarrow> (storage \<times> blob_event, move_abort) result" where
  "move_blob_delete eid self epoch =
    and_then (ensure (mb_deletable self) EBlobNotDeletable) (\<lambda>_.
    and_then (ensure (st_end_epoch (mb_storage self) > epoch) EResourceBounds) (\<lambda>_.
    Ok (mb_storage self, Deleted \<lparr>bdel_epoch = epoch, bdel_blob_id = mb_blob_id self, bdel_end_epoch = st_end_epoch (mb_storage self),
      bdel_object_id = mb_id self, bdel_was_certified = (mb_certified_epoch self \<noteq> None), bdel_event_id = eid\<rparr>)))"

definition extend_with_resource ::
  "event_id \<Rightarrow> move_blob \<Rightarrow> storage \<Rightarrow> epoch \<Rightarrow> (move_blob \<times> blob_event, move_abort) result" where
  "extend_with_resource eid blob extension current_epoch =
    and_then (assert_certified_not_expired blob current_epoch) (\<lambda>_.
    and_then (ensure (st_end_epoch extension > st_end_epoch (mb_storage blob)) EResourceBounds) (\<lambda>_.
    and_then (fuse_periods (mb_storage blob) extension) (\<lambda>s.
    let blob = blob\<lparr>mb_storage := s\<rparr> in
    and_then (emit_certified eid blob True) (\<lambda>ev. Ok (blob, ev)))))"

end
