(* ===== verification/StoragePool.thy ===== *)
theory StoragePool
  imports MoveBlob
begin

text \<open>
  Storage pools on chain, \<open>system/storage_pool.move\<close>: a storage resource that is shared by the blobs registered in the pool. The object
  table of the blobs is a mapping from blob IDs; adding a key that is present and borrowing or removing one that is not aborts. The
  version of a pool is the constant \<open>VERSION\<close> from its creation on, so its check does nothing and is left out, as is user metadata.
\<close>

record pooled_blob =
  pb_id :: object_id
  pb_registered_epoch :: epoch
  pb_blob_id :: blob_id
  pb_unencoded_size :: nat
  pb_encoding_type :: nat
  pb_certified_epoch :: "epoch option"
  pb_storage_pool_id :: object_id
  pb_deletable :: bool

record storage_pool =
  pl_id :: object_id
  pl_storage :: storage
  used_encoded_bytes :: nat
  blob_count :: nat
  pl_blobs :: "(blob_id, pooled_blob) mapping"

definition pool_create :: "object_id \<Rightarrow> storage \<Rightarrow> storage_pool" where
  "pool_create oid storage = \<lparr>pl_id = oid, pl_storage = storage, used_encoded_bytes = 0, blob_count = 0, pl_blobs = Mapping.empty\<rparr>"

definition pool_extend_end_epoch :: "storage_pool \<Rightarrow> nat \<Rightarrow> (storage_pool, move_abort) result" where
  "pool_extend_end_epoch self extension_epochs =
    and_then (extend_end_epoch (pl_storage self) extension_epochs) (\<lambda>s. Ok (self\<lparr>pl_storage := s\<rparr>))"

definition increase_reserved_encoded_capacity :: "storage_pool \<Rightarrow> nat \<Rightarrow> (storage_pool, move_abort) result" where
  "increase_reserved_encoded_capacity self additional_capacity_bytes =
    and_then (increase_size (pl_storage self) additional_capacity_bytes) (\<lambda>s. Ok (self\<lparr>pl_storage := s\<rparr>))"

definition pool_add_blob :: "storage_pool \<Rightarrow> pooled_blob \<Rightarrow> nat \<Rightarrow> (storage_pool, move_abort) result" where
  "pool_add_blob self blob encoded_size =
    and_then (uadd U64_MAX (blob_count self) 1) (\<lambda>count.
    and_then (uadd U64_MAX (used_encoded_bytes self) encoded_size) (\<lambda>used.
    and_then (ensure (used \<le> st_size (pl_storage self)) EInsufficientCapacity) (\<lambda>_.
    and_then (ensure (Mapping.lookup (pl_blobs self) (pb_blob_id blob) = None) EFieldAlreadyExists) (\<lambda>_.
    Ok (self\<lparr>blob_count := count, used_encoded_bytes := used, pl_blobs := Mapping.update (pb_blob_id blob) blob (pl_blobs self)\<rparr>)))))"

definition borrow_blob :: "storage_pool \<Rightarrow> blob_id \<Rightarrow> (pooled_blob, move_abort) result" where
  "borrow_blob self blob_id = ok_or (Mapping.lookup (pl_blobs self) blob_id) EFieldDoesNotExist"

definition pool_remove_blob :: "storage_pool \<Rightarrow> blob_id \<Rightarrow> nat \<Rightarrow> (pooled_blob \<times> storage_pool, move_abort) result" where
  "pool_remove_blob self blob_id n =
    and_then (borrow_blob self blob_id) (\<lambda>blob.
    and_then (move_encoded_blob_length (pb_unencoded_size blob) (pb_encoding_type blob) n) (\<lambda>encoded_size.
    and_then (ensure (used_encoded_bytes self \<ge> encoded_size) EInvalidBlobSize) (\<lambda>_.
    and_then (ensure (blob_count self \<ge> 1) EInvalidBlobCount) (\<lambda>_.
    Ok (blob, self\<lparr>used_encoded_bytes := used_encoded_bytes self - encoded_size, blob_count := blob_count self - 1,
      pl_blobs := Mapping.delete blob_id (pl_blobs self)\<rparr>)))))"

definition increase_capacity_with_storage :: "storage_pool \<Rightarrow> storage \<Rightarrow> epoch \<Rightarrow> (storage_pool, move_abort) result" where
  "increase_capacity_with_storage self other current_epoch =
    and_then (ensure (st_start_epoch other \<le> current_epoch) EResourceBounds) (\<lambda>_.
    and_then (ensure (st_end_epoch other = st_end_epoch (pl_storage self)) EIncompatibleEndEpoch) (\<lambda>_.
    and_then (increase_size (pl_storage self) (st_size other)) (\<lambda>s. Ok (self\<lparr>pl_storage := s\<rparr>))))"

definition decrease_capacity_by_size :: "storage_pool \<Rightarrow> nat \<Rightarrow> (storage option \<times> storage_pool, move_abort) result" where
  "decrease_capacity_by_size self extract_size =
    (if extract_size = 0 then Ok (None, self)
     else
       and_then (usub (st_size (pl_storage self)) (used_encoded_bytes self)) (\<lambda>unused.
       and_then (ensure (unused \<ge> extract_size) EInsufficientCapacity) (\<lambda>_.
       and_then (usub (st_size (pl_storage self)) extract_size) (\<lambda>keep_size.
       and_then (split_by_size (pl_storage self) keep_size) (\<lambda>(s, extracted). Ok (Some extracted, self\<lparr>pl_storage := s\<rparr>))))))"

definition decrease_unused_capacity_by_percent :: "storage_pool \<Rightarrow> nat \<Rightarrow> (storage option \<times> storage_pool, move_abort) result" where
  "decrease_unused_capacity_by_percent self percent =
    and_then (ensure (percent \<le> 100) EInvalidPercent) (\<lambda>_.
    and_then (usub (st_size (pl_storage self)) (used_encoded_bytes self)) (\<lambda>unused.
    decrease_capacity_by_size self (unused * percent div 100)))"

definition pool_destroy :: "storage_pool \<Rightarrow> (storage, move_abort) result" where
  "pool_destroy self =
    and_then (ensure (blob_count self = 0) EPoolNotEmpty) (\<lambda>_.
    and_then (ensure (Mapping.is_empty (pl_blobs self)) ETableNotEmpty) (\<lambda>_. Ok (pl_storage self)))"

definition new_pooled_blob ::
  "hash_fun \<Rightarrow> object_id \<Rightarrow> event_id \<Rightarrow> object_id \<Rightarrow> blob_id \<Rightarrow> bytes \<Rightarrow> nat \<Rightarrow> nat \<Rightarrow> bool \<Rightarrow> epoch \<Rightarrow> (pooled_blob \<times> blob_event, move_abort) result" where
  "new_pooled_blob h oid eid storage_pool_id blob_id root_hash len encoding deletable registered_epoch =
    and_then (ensure (derive_blob_id h root_hash encoding len = blob_id) EInvalidBlobId) (\<lambda>_.
    Ok (\<lparr>pb_id = oid, pb_registered_epoch = registered_epoch, pb_blob_id = blob_id, pb_unencoded_size = len, pb_encoding_type = encoding,
          pb_certified_epoch = None, pb_storage_pool_id = storage_pool_id, pb_deletable = deletable\<rparr>,
        PooledBlobRegistered \<lparr>pr_epoch = registered_epoch, pr_blob_id = blob_id, pr_unencoded_size = len, pr_encoding_type = RS2,
          pr_deletable = deletable, pr_object_id = oid, pr_storage_pool_id = storage_pool_id, pr_event_id = eid\<rparr>))"

definition certify_pooled ::
  "event_id \<Rightarrow> pooled_blob \<Rightarrow> epoch \<Rightarrow> epoch \<Rightarrow> certified_blob_message \<Rightarrow> (pooled_blob \<times> blob_event, move_abort) result" where
  "certify_pooled eid pooled_blob current_epoch end_epoch message =
    and_then (ensure (pb_blob_id pooled_blob = certified_blob_id message) EInvalidBlobId) (\<lambda>_.
    and_then (ensure (current_epoch < end_epoch) EResourceBounds) (\<lambda>_.
    and_then (ensure (pb_certified_epoch pooled_blob = None) EAlreadyCertified) (\<lambda>_.
    and_then (ensure (pb_deletable pooled_blob = is_deletable (persistence message)) EInvalidBlobPersistenceType) (\<lambda>_.
    and_then (if pb_deletable pooled_blob
      then and_then (persistence_object_id (persistence message)) (\<lambda>object_id. ensure (object_id = pb_id pooled_blob) EInvalidBlobObject)
      else Ok ()) (\<lambda>_.
    Ok (pooled_blob\<lparr>pb_certified_epoch := Some current_epoch\<rparr>,
      PooledBlobCertified \<lparr>pc_epoch = current_epoch, pc_blob_id = pb_blob_id pooled_blob, pc_deletable = pb_deletable pooled_blob,
        pc_object_id = pb_id pooled_blob, pc_storage_pool_id = pb_storage_pool_id pooled_blob, pc_event_id = eid\<rparr>))))))"

definition delete_blob_object :: "event_id \<Rightarrow> pooled_blob \<Rightarrow> epoch \<Rightarrow> (blob_event, move_abort) result" where
  "delete_blob_object eid pooled_blob epoch =
    and_then (ensure (pb_deletable pooled_blob) EBlobNotDeletable) (\<lambda>_.
    Ok (PooledBlobDeleted \<lparr>pd_epoch = epoch, pd_blob_id = pb_blob_id pooled_blob, pd_object_id = pb_id pooled_blob,
      pd_was_certified = (pb_certified_epoch pooled_blob \<noteq> None), pd_storage_pool_id = pb_storage_pool_id pooled_blob, pd_event_id = eid\<rparr>))"

subsection \<open>The contents of a pool\<close>

text \<open>The encoded size of a blob with \<open>n\<close> shards; blobs in a pool have one.\<close>

definition encoded_size_of :: "nat \<Rightarrow> pooled_blob \<Rightarrow> nat" where
  "encoded_size_of n b = (case move_encoded_blob_length (pb_unencoded_size b) (pb_encoding_type b) n of Ok s \<Rightarrow> s | _ \<Rightarrow> 0)"

definition pool_ok :: "nat \<Rightarrow> storage_pool \<Rightarrow> bool" where
  "pool_ok n p \<longleftrightarrow> finite (Mapping.keys (pl_blobs p)) \<and> storage_ok (pl_storage p) \<and> blob_count p = msum (\<lambda>_. 1) (pl_blobs p)
    \<and> used_encoded_bytes p = msum (encoded_size_of n) (pl_blobs p) \<and> used_encoded_bytes p \<le> st_size (pl_storage p)
    \<and> (\<forall>k b. Mapping.lookup (pl_blobs p) k = Some b \<longrightarrow> pb_blob_id b = k \<and> pb_storage_pool_id b = pl_id p
        \<and> (\<exists>s. move_encoded_blob_length (pb_unencoded_size b) (pb_encoding_type b) n = Ok s))"

lemma pool_create_ok: "storage_ok s \<Longrightarrow> pool_ok n (pool_create i s)"
  by (simp add: pool_ok_def pool_create_def)

lemma pool_add_blob_ok:
  assumes ok: "pool_ok n p" and a: "pool_add_blob p b s = Ok p'" and s: "move_encoded_blob_length (pb_unencoded_size b) (pb_encoding_type b) n = Ok s"
    and i: "pb_storage_pool_id b = pl_id p"
  shows "pool_ok n p'" "pl_blobs p' = Mapping.update (pb_blob_id b) b (pl_blobs p)" "pl_storage p' = pl_storage p" "pl_id p' = pl_id p"
    "Mapping.lookup (pl_blobs p) (pb_blob_id b) = None"
proof -
  let ?k = "pb_blob_id b" and ?m = "pl_blobs p"
  have new: "Mapping.lookup ?m ?k = None" and le: "used_encoded_bytes p + s \<le> st_size (pl_storage p)"
    and p': "p' = p\<lparr>blob_count := blob_count p + 1, used_encoded_bytes := used_encoded_bytes p + s, pl_blobs := Mapping.update ?k b ?m\<rparr>"
    using a by (auto simp: pool_add_blob_def)
  have f: "finite (Mapping.keys ?m)" using ok by (simp add: pool_ok_def)
  have "encoded_size_of n b = s" by (simp add: encoded_size_of_def s)
  then show "pool_ok n p'"
    using ok le i s by (auto simp: pool_ok_def p' lookup_update' msum_update_new [OF f new] split: if_splits)
  show "pl_blobs p' = Mapping.update ?k b ?m" "pl_storage p' = pl_storage p" "pl_id p' = pl_id p" "Mapping.lookup ?m ?k = None"
    using new by (simp_all add: p')
qed

text \<open>Removing a blob of a pool does not abort: the assertions on its size and on the number of blobs hold.\<close>

lemma pool_remove_blob_ok:
  assumes ok: "pool_ok n p" and b: "Mapping.lookup (pl_blobs p) k = Some b"
  shows "\<exists>p'. pool_remove_blob p k n = Ok (b, p') \<and> pool_ok n p' \<and> pl_blobs p' = Mapping.delete k (pl_blobs p)
    \<and> pl_storage p' = pl_storage p \<and> pl_id p' = pl_id p"
proof -
  let ?m = "pl_blobs p"
  obtain s where s: "move_encoded_blob_length (pb_unencoded_size b) (pb_encoding_type b) n = Ok s" using ok b by (auto simp: pool_ok_def)
  then have e: "encoded_size_of n b = s" by (simp add: encoded_size_of_def)
  let ?p = "p\<lparr>used_encoded_bytes := used_encoded_bytes p - s, blob_count := blob_count p - 1, pl_blobs := Mapping.delete k ?m\<rparr>"
  have f: "finite (Mapping.keys ?m)" using ok by (simp add: pool_ok_def)
  note u = msum_delete [OF f b, of "encoded_size_of n", unfolded e] msum_delete [OF f b, of "\<lambda>_. 1"]
  have "pool_remove_blob p k n = Ok (b, ?p)" and "pool_ok n ?p"
    using ok b s u by (auto simp: pool_remove_blob_def borrow_blob_def pool_ok_def lookup_delete split: if_splits)
  then show ?thesis by (intro exI [of _ ?p]) simp
qed

lemma pool_certify_ok:
  assumes ok: "pool_ok n p" and b: "Mapping.lookup (pl_blobs p) k = Some b"
  shows "pool_ok n (p\<lparr>pl_blobs := Mapping.update k (b\<lparr>pb_certified_epoch := e\<rparr>) (pl_blobs p)\<rparr>)"
proof -
  have f: "finite (Mapping.keys (pl_blobs p))" using ok by (simp add: pool_ok_def)
  have "encoded_size_of n (b\<lparr>pb_certified_epoch := e\<rparr>) = encoded_size_of n b" by (simp add: encoded_size_of_def)
  then show ?thesis using ok b msum_update [OF f b, of "encoded_size_of n" "b\<lparr>pb_certified_epoch := e\<rparr>"] msum_update [OF f b, of "\<lambda>_. 1" "b\<lparr>pb_certified_epoch := e\<rparr>"]
    by (auto simp: pool_ok_def lookup_update' split: if_splits)
qed

text \<open>The operations on the capacity of a pool.\<close>

lemma pool_capacity_ok:
  assumes ok: "pool_ok n p"
  shows "pool_extend_end_epoch p k = Ok p' \<Longrightarrow> pool_ok n p'" "increase_reserved_encoded_capacity p k = Ok p' \<Longrightarrow> pool_ok n p'"
    "increase_capacity_with_storage p s e = Ok p' \<Longrightarrow> pool_ok n p'" "decrease_capacity_by_size p k = Ok (x, p') \<Longrightarrow> pool_ok n p'"
  using ok by (auto simp: pool_ok_def pool_extend_end_epoch_def extend_end_epoch_def increase_reserved_encoded_capacity_def increase_size_def
      increase_capacity_with_storage_def decrease_capacity_by_size_def split_by_size_def storage_ok_def split: if_splits)

lemma decrease_percent_ok:
  "pool_ok n p \<Longrightarrow> decrease_unused_capacity_by_percent p k = Ok (x, p') \<Longrightarrow> pool_ok n p'"
  using pool_capacity_ok(4) by (auto simp: decrease_unused_capacity_by_percent_def)

end
