(* ===== verification/SystemState.thy ===== *)
theory SystemState
  imports StorageAccounting StoragePool "HOL-Library.AList"
begin

text \<open>
  The state of the system contract, \<open>system/system_state_inner.move\<close>, with the certification of event blobs of \<open>system/event_blob.move\<close>.
  One definition for every entry function; \<open>system.move\<close> only forwards to them. A mutable reference is an argument and a result: the
  state, a blob, a pool, and a coin, of which the contracts see the balance. \<open>V\<close> is the signature check of theory \<open>Certificates\<close>
  and \<open>h\<close> the hash function.
\<close>

abbreviation U128_MAX :: nat where "U128_MAX \<equiv> 340282366920938463463374607431768211455"
abbreviation (input) BYTES_PER_UNIT_SIZE :: nat where "BYTES_PER_UNIT_SIZE \<equiv> 1048576"
abbreviation (input) MAX_MAX_EPOCHS_AHEAD :: nat where "MAX_MAX_EPOCHS_AHEAD \<equiv> 1000"

subsection \<open>Event blobs\<close>

type_synonym event_blob = "blob_id \<times> nat"

record event_blob_attestation =
  ea_checkpoint_sequence_num :: nat
  ea_epoch :: epoch

record event_blob_certification_state =
  latest_certified_blob :: "event_blob option"
  aggregate_weight_per_blob :: "(event_blob \<times> nat) list"

definition is_blob_already_certified :: "event_blob_certification_state \<Rightarrow> nat \<Rightarrow> bool" where
  "is_blob_already_certified self num = (case latest_certified_blob self of Some (_, latest) \<Rightarrow> latest \<ge> num | None \<Rightarrow> False)"

definition start_tracking_blob :: "event_blob_certification_state \<Rightarrow> blob_id \<Rightarrow> nat \<Rightarrow> event_blob_certification_state" where
  "start_tracking_blob self blob_id num =
    (if map_of (aggregate_weight_per_blob self) (blob_id, num) = None
     then self\<lparr>aggregate_weight_per_blob := aggregate_weight_per_blob self @ [((blob_id, num), 0)]\<rparr> else self)"

definition update_aggregate_weight ::
  "event_blob_certification_state \<Rightarrow> blob_id \<Rightarrow> nat \<Rightarrow> nat \<Rightarrow> (nat \<times> event_blob_certification_state, move_abort) result" where
  "update_aggregate_weight self blob_id num w =
    and_then (expect (map_of (aggregate_weight_per_blob self) (blob_id, num))) (\<lambda>agg.
    and_then (uadd U16_MAX agg w) (\<lambda>agg.
    Ok (agg, self\<lparr>aggregate_weight_per_blob := AList.update (blob_id, num) agg (aggregate_weight_per_blob self)\<rparr>)))"

definition update_latest_certified_event_blob ::
  "event_blob_certification_state \<Rightarrow> nat \<Rightarrow> blob_id \<Rightarrow> (event_blob_certification_state, move_abort) result" where
  "update_latest_certified_event_blob self num blob_id =
    and_then (case latest_certified_blob self of Some (_, latest) \<Rightarrow> ensure (num > latest) EInvalidSequenceNumber | None \<Rightarrow> Ok ()) (\<lambda>_.
    Ok (self\<lparr>latest_certified_blob := Some (blob_id, num)\<rparr>))"

definition event_blob_reset :: "event_blob_certification_state \<Rightarrow> event_blob_certification_state" where
  "event_blob_reset self = self\<lparr>aggregate_weight_per_blob := []\<rparr>"

text \<open>The fields of the capability of a storage node that the system contract uses.\<close>

record storage_node_cap =
  cap_node_id :: node_id
  last_event_blob_attestation :: "event_blob_attestation option"
  cap_deny_list_root :: bytes
  cap_deny_list_sequence :: nat
  cap_deny_list_size :: nat

subsection \<open>The system\<close>

record 'k system_state =
  sys_committee :: "'k bls_committee"
  total_capacity_size :: nat
  used_capacity_size :: nat
  storage_price_per_unit_size :: nat
  write_price_per_unit_size :: nat
  accounting :: future_accounting_ring_buffer
  event_blob_state :: event_blob_certification_state
  deny_list_sizes :: "nat vec_map"

record epoch_params =
  ep_total_capacity_size :: nat
  ep_storage_price_per_unit_size :: nat
  ep_write_price_per_unit_size :: nat

abbreviation sys_epoch :: "'k system_state \<Rightarrow> epoch" where "sys_epoch self \<equiv> bls_epoch (sys_committee self)"
abbreviation sys_n_shards :: "'k system_state \<Rightarrow> nat" where "sys_n_shards self \<equiv> bls_n_shards (sys_committee self)"
abbreviation max_epochs_ahead :: "'k system_state \<Rightarrow> nat" where "max_epochs_ahead self \<equiv> ring_length (accounting self)"

definition create_empty :: "nat \<Rightarrow> (('k :: ab_group_add) system_state, move_abort) result" where
  "create_empty epochs_ahead =
    and_then (new_bls_committee 0 []) (\<lambda>committee.
    and_then (ensure (epochs_ahead \<le> MAX_MAX_EPOCHS_AHEAD) EInvalidMaxEpochsAhead) (\<lambda>_.
    Ok \<lparr>sys_committee = committee, total_capacity_size = 0, used_capacity_size = 0, storage_price_per_unit_size = 0,
      write_price_per_unit_size = 0, accounting = ring_new epochs_ahead,
      event_blob_state = \<lparr>latest_certified_blob = None, aggregate_weight_per_blob = []\<rparr>, deny_list_sizes = []\<rparr>))"

definition storage_units_from_size :: "nat \<Rightarrow> nat" where
  "storage_units_from_size s = div_ceil s BYTES_PER_UNIT_SIZE"

definition write_price :: "'k system_state \<Rightarrow> nat \<Rightarrow> (nat, move_abort) result" where
  "write_price self write_size = expect (checked U64_MAX (write_price_per_unit_size self * storage_units_from_size write_size))"

definition set_storage_price :: "'k system_state \<Rightarrow> nat \<Rightarrow> 'k system_state" where
  "set_storage_price self price = self\<lparr>storage_price_per_unit_size := price\<rparr>"

definition set_write_price :: "'k system_state \<Rightarrow> nat \<Rightarrow> 'k system_state" where
  "set_write_price self price = self\<lparr>write_price_per_unit_size := price\<rparr>"

text \<open>Joining an amount to the rewards of an epoch.\<close>

definition pay_epoch :: "'k system_state \<Rightarrow> nat \<Rightarrow> nat \<Rightarrow> ('k system_state, move_abort) result" where
  "pay_epoch self i amount = and_then (ring_lookup_mut (accounting self) i (join_rewards amount)) (\<lambda>r. Ok (self\<lparr>accounting := r\<rparr>))"

definition process_storage_payments ::
  "'k system_state \<Rightarrow> nat \<Rightarrow> nat \<Rightarrow> nat \<Rightarrow> nat \<Rightarrow> ('k system_state \<times> nat, move_abort) result" where
  "process_storage_payments self storage_size start_offset end_offset payment =
    and_then (expect (checked U64_MAX (storage_price_per_unit_size self * storage_units_from_size storage_size))) (\<lambda>period_payment_due.
    try_fold (\<lambda>(self, coin) i.
      and_then (bal_split coin period_payment_due) (\<lambda>coin.
      and_then (pay_epoch self i period_payment_due) (\<lambda>self. Ok (self, coin)))) (self, payment) [start_offset..<end_offset])"

text \<open>One round of the loops that account for used capacity; the current epoch is also recorded in the state.\<close>

definition account_epoch :: "nat \<Rightarrow> bool \<Rightarrow> 'k system_state \<Rightarrow> nat \<Rightarrow> ('k system_state, move_abort) result" where
  "account_epoch amount check_capacity self i =
    and_then (ring_lookup_mut (accounting self) i (increase_used_capacity amount)) (\<lambda>r.
    and_then (ring_lookup r i) (\<lambda>acc.
    let self = self\<lparr>accounting := r\<rparr>;
        self = (if i = 0 then self\<lparr>used_capacity_size := fa_used_capacity acc\<rparr> else self) in
    and_then (ensure (\<not> check_capacity \<or> fa_used_capacity acc \<le> total_capacity_size self) EStorageExceeded) (\<lambda>_. Ok self)))"

definition account_capacity :: "'k system_state \<Rightarrow> nat \<Rightarrow> nat \<Rightarrow> nat \<Rightarrow> ('k system_state, move_abort) result" where
  "account_capacity self start_epoch_offset end_epoch_offset encoded_capacity_bytes =
    try_fold (account_epoch encoded_capacity_bytes True) self [start_epoch_offset..<end_epoch_offset]"

definition reserve_space_without_payment ::
  "'k system_state \<Rightarrow> nat \<Rightarrow> nat \<Rightarrow> nat \<Rightarrow> bool \<Rightarrow> ('k system_state \<times> storage, move_abort) result" where
  "reserve_space_without_payment self storage_amount start_epoch_offset end_epoch_offset check_capacity =
    and_then (usub end_epoch_offset start_epoch_offset) (\<lambda>d.
    and_then (ensure (d > 0) EInvalidEpochsAhead) (\<lambda>_.
    and_then (ensure (end_epoch_offset \<le> max_epochs_ahead self) EInvalidEpochsAhead) (\<lambda>_.
    and_then (ensure (storage_amount > 0) EInvalidResourceSize) (\<lambda>_.
    and_then (try_fold (account_epoch storage_amount check_capacity) self [start_epoch_offset..<end_epoch_offset]) (\<lambda>self.
    and_then (uadd U32_MAX (sys_epoch self) start_epoch_offset) (\<lambda>start_epoch.
    and_then (uadd U32_MAX (sys_epoch self) end_epoch_offset) (\<lambda>end_epoch.
    and_then (create_storage start_epoch end_epoch storage_amount) (\<lambda>s. Ok (self, s)))))))))"

definition reserve_space_for_epochs ::
  "'k system_state \<Rightarrow> nat \<Rightarrow> nat \<Rightarrow> nat \<Rightarrow> nat \<Rightarrow> ('k system_state \<times> storage \<times> nat, move_abort) result" where
  "reserve_space_for_epochs self storage_amount start_epoch end_epoch payment =
    (let current_epoch = sys_epoch self;
         start_epoch = max start_epoch current_epoch;
         start_offset = start_epoch - current_epoch in
     and_then (ensure (end_epoch > start_epoch) EInvalidEpochsAhead) (\<lambda>_.
     and_then (usub end_epoch current_epoch) (\<lambda>end_offset.
     and_then (ensure (end_offset \<le> max_epochs_ahead self) EInvalidEpochsAhead) (\<lambda>_.
     and_then (process_storage_payments self storage_amount start_offset end_offset payment) (\<lambda>(self, payment).
     and_then (reserve_space_without_payment self storage_amount start_offset end_offset True) (\<lambda>(self, s). Ok (self, s, payment)))))))"

definition reserve_space :: "'k system_state \<Rightarrow> nat \<Rightarrow> nat \<Rightarrow> nat \<Rightarrow> ('k system_state \<times> storage \<times> nat, move_abort) result" where
  "reserve_space self storage_amount epochs_ahead payment =
    and_then (ensure (epochs_ahead > 0) EInvalidEpochsAhead) (\<lambda>_.
    and_then (ensure (epochs_ahead \<le> max_epochs_ahead self) EInvalidEpochsAhead) (\<lambda>_.
    and_then (uadd U32_MAX (sys_epoch self) epochs_ahead) (\<lambda>end_epoch.
    reserve_space_for_epochs self storage_amount (sys_epoch self) end_epoch payment)))"

subsection \<open>Epoch change\<close>

definition extract_burn_balance :: "'k system_state \<Rightarrow> (nat \<times> 'k system_state, move_abort) result" where
  "extract_burn_balance self =
    and_then (ring_extract_burn_balance (accounting self)) (\<lambda>(b, r). Ok (b, self\<lparr>accounting := r\<rparr>))"

text \<open>What a node stored, weighted with its shards.\<close>

definition stored_weighted :: "nat vec_map \<Rightarrow> nat \<Rightarrow> node_id \<times> nat \<Rightarrow> nat" where
  "stored_weighted deny_sizes used = (\<lambda>(node_id, w).
    w * (used - min (case map_of deny_sizes node_id of Some d \<Rightarrow> d | None \<Rightarrow> 0) used))"

definition distribute_rewards :: "nat list \<Rightarrow> nat \<Rightarrow> (nat list \<times> nat, move_abort) result" where
  "distribute_rewards stored_vec total_rewards =
    and_then (usum U128_MAX stored_vec) (\<lambda>total_stored.
    try_fold (\<lambda>(values, rest) stored.
      and_then (expect (checked U128_MAX (stored * total_rewards))) (\<lambda>x.
      and_then (expect (checked U64_MAX (x div max total_stored 1))) (\<lambda>v.
      and_then (bal_split rest v) (\<lambda>rest. Ok (values @ [v], rest))))) ([], total_rewards) stored_vec)"

definition advance_epoch ::
  "'k system_state \<Rightarrow> 'k bls_committee \<Rightarrow> epoch_params \<Rightarrow> (nat vec_map \<times> 'k system_state, move_abort) result" where
  "advance_epoch self new_committee new_epoch_params =
    (let old_epoch = sys_epoch self; old_committee = sys_committee self in
     and_then (uadd U32_MAX old_epoch 1) (\<lambda>new_epoch.
     and_then (ensure (bls_epoch new_committee = new_epoch) EIncorrectCommittee) (\<lambda>_.
     and_then (ring_pop_expand (accounting self)) (\<lambda>(accounts_old_epoch, r).
     and_then (ensure (fa_epoch accounts_old_epoch = old_epoch) EInvalidAccountingEpoch) (\<lambda>_.
     and_then (ring_lookup r 0) (\<lambda>acc.
     let used = fa_used_capacity acc;
         self = self\<lparr>sys_committee := new_committee, accounting := r, event_blob_state := event_blob_reset (event_blob_state self),
           used_capacity_size := used, total_capacity_size := max (ep_total_capacity_size new_epoch_params) used\<rparr> in
     and_then (to_vec_map old_committee) (\<lambda>weights.
     let stored_vec = map (stored_weighted (deny_list_sizes self) (fa_used_capacity accounts_old_epoch)) weights in
     and_then (distribute_rewards stored_vec (fa_rewards accounts_old_epoch)) (\<lambda>(reward_values, total_rewards).
     and_then (pay_epoch self 0 total_rewards) (\<lambda>self.
     and_then (vm_from_entries (zip (map fst weights) reward_values)) (\<lambda>rewards. Ok (rewards, self)))))))))))"

subsection \<open>Subsidies\<close>

definition add_subsidy :: "'k system_state \<Rightarrow> nat \<Rightarrow> nat \<Rightarrow> ('k system_state, move_abort) result" where
  "add_subsidy self subsidy epochs_ahead =
    and_then (ensure (epochs_ahead > 0) EInvalidEpochsAhead) (\<lambda>_.
    and_then (ensure (epochs_ahead \<le> max_epochs_ahead self) EInvalidEpochsAhead) (\<lambda>_.
    let reward_per_epoch = subsidy div epochs_ahead in
    and_then (try_fold (\<lambda>(self, balance) i.
        and_then (bal_split balance reward_per_epoch) (\<lambda>balance.
        and_then (pay_epoch self i reward_per_epoch) (\<lambda>self. Ok (self, balance)))) (self, subsidy) [0..<epochs_ahead]) (\<lambda>(self, balance).
    pay_epoch self 0 balance)))"

definition add_per_epoch_subsidies :: "'k system_state \<Rightarrow> nat list \<Rightarrow> ('k system_state, move_abort) result" where
  "add_per_epoch_subsidies self subsidies =
    and_then (ensure (length subsidies \<le> max_epochs_ahead self) EInvalidEpochsAhead) (\<lambda>_.
    try_fold (\<lambda>self (i, subsidy). pay_epoch self i subsidy) self (zip [0..<length subsidies] subsidies))"

subsection \<open>Blobs\<close>

definition register_blob ::
  "hash_fun \<Rightarrow> object_id \<Rightarrow> event_id \<Rightarrow> 'k system_state \<Rightarrow> storage \<Rightarrow> blob_id \<Rightarrow> bytes \<Rightarrow> nat \<Rightarrow> nat \<Rightarrow> bool \<Rightarrow> nat
    \<Rightarrow> ('k system_state \<times> move_blob \<times> nat \<times> blob_event, move_abort) result" where
  "register_blob h oid eid self storage blob_id root_hash len encoding deletable write_payment_coin =
    and_then (move_blob_new h oid eid storage blob_id root_hash len encoding deletable (sys_epoch self) (sys_n_shards self)) (\<lambda>(blob, ev).
    and_then (move_encoded_blob_length (mb_size blob) (mb_encoding_type blob) (sys_n_shards self)) (\<lambda>encoded_size.
    and_then (write_price self encoded_size) (\<lambda>price.
    and_then (bal_split write_payment_coin price) (\<lambda>coin.
    and_then (pay_epoch self 0 price) (\<lambda>self. Ok (self, blob, coin, ev))))))"

definition certify_blob ::
  "(bytes \<Rightarrow> 'k \<Rightarrow> bytes \<Rightarrow> bool) \<Rightarrow> event_id \<Rightarrow> ('k :: ab_group_add) system_state \<Rightarrow> move_blob \<Rightarrow> bytes \<Rightarrow> bytes \<Rightarrow> bytes
    \<Rightarrow> (move_blob \<times> blob_event, move_abort) result" where
  "certify_blob V eid self blob signature signers_bitmap message =
    and_then (verify_quorum_in_epoch V (sys_committee self) signature signers_bitmap message) (\<lambda>certified_msg.
    and_then (ensure (cert_epoch certified_msg = sys_epoch self) EInvalidIdEpoch) (\<lambda>_.
    and_then (certify_blob_message certified_msg) (\<lambda>certified_blob_msg.
    certify_with_certified_msg eid blob (sys_epoch self) certified_blob_msg)))"

definition invalidate_blob_id ::
  "(bytes \<Rightarrow> 'k \<Rightarrow> bytes \<Rightarrow> bool) \<Rightarrow> event_id \<Rightarrow> ('k :: ab_group_add) system_state \<Rightarrow> bytes \<Rightarrow> bytes \<Rightarrow> bytes \<Rightarrow> (blob_event, move_abort) result" where
  "invalidate_blob_id V eid self signature members_bitmap message =
    and_then (verify_one_correct_node_in_epoch V (sys_committee self) signature members_bitmap message) (\<lambda>certified_message.
    and_then (invalid_blob_id_message certified_message) (\<lambda>blob_id.
    and_then (ensure (cert_epoch certified_message = sys_epoch self) EInvalidIdEpoch) (\<lambda>_.
    Ok (InvalidBlobID \<lparr>ib_epoch = cert_epoch certified_message, ib_blob_id = blob_id, ib_event_id = eid\<rparr>))))"

definition delete_blob :: "event_id \<Rightarrow> 'k system_state \<Rightarrow> move_blob \<Rightarrow> (storage \<times> blob_event, move_abort) result" where
  "delete_blob eid self blob = move_blob_delete eid blob (sys_epoch self)"

definition extend_blob_with_resource ::
  "event_id \<Rightarrow> 'k system_state \<Rightarrow> move_blob \<Rightarrow> storage \<Rightarrow> (move_blob \<times> blob_event, move_abort) result" where
  "extend_blob_with_resource eid self blob extension = extend_with_resource eid blob extension (sys_epoch self)"

definition extend_blob ::
  "event_id \<Rightarrow> 'k system_state \<Rightarrow> move_blob \<Rightarrow> nat \<Rightarrow> nat \<Rightarrow> ('k system_state \<times> move_blob \<times> nat \<times> blob_event, move_abort) result" where
  "extend_blob eid self blob extended_epochs payment =
    and_then (assert_certified_not_expired blob (sys_epoch self)) (\<lambda>_.
    and_then (usub (st_end_epoch (mb_storage blob)) (sys_epoch self)) (\<lambda>start_offset.
    and_then (uadd U32_MAX start_offset extended_epochs) (\<lambda>end_offset.
    and_then (ensure (extended_epochs > 0) EInvalidEpochsAhead) (\<lambda>_.
    and_then (ensure (end_offset \<le> max_epochs_ahead self) EInvalidEpochsAhead) (\<lambda>_.
    let storage_size = st_size (mb_storage blob) in
    and_then (process_storage_payments self storage_size start_offset end_offset payment) (\<lambda>(self, payment).
    and_then (try_fold (\<lambda>self i.
        and_then (ring_lookup_mut (accounting self) i (increase_used_capacity storage_size)) (\<lambda>r.
        and_then (ring_lookup r i) (\<lambda>acc.
        and_then (ensure (fa_used_capacity acc \<le> total_capacity_size self) EStorageExceeded) (\<lambda>_. Ok (self\<lparr>accounting := r\<rparr>)))))
      self [start_offset..<end_offset]) (\<lambda>self.
    and_then (extend_end_epoch (mb_storage blob) extended_epochs) (\<lambda>s.
    let blob = blob\<lparr>mb_storage := s\<rparr> in
    and_then (emit_certified eid blob True) (\<lambda>ev. Ok (self, blob, payment, ev))))))))))"

text \<open>The attestation of a node for an event blob. When its weight completes a quorum, the blob is registered, certified and burned.\<close>

definition check_attestation :: "'k system_state \<Rightarrow> storage_node_cap \<Rightarrow> nat \<Rightarrow> (unit, move_abort) result" where
  "check_attestation self cap num =
    (case last_event_blob_attestation cap of
       None \<Rightarrow> Ok ()
     | Some attestation \<Rightarrow>
         and_then (ensure (ea_epoch attestation < sys_epoch self \<or> num > ea_checkpoint_sequence_num attestation) ERepeatedAttestation) (\<lambda>_.
         case latest_certified_blob (event_blob_state self) of
           Some (_, latest) \<Rightarrow>
             ensure (ea_epoch attestation < sys_epoch self \<or> ea_checkpoint_sequence_num attestation \<le> latest) EIncorrectAttestation
         | None \<Rightarrow> ensure (ea_epoch attestation < sys_epoch self) EIncorrectAttestation))"

definition certify_event_blob ::
  "hash_fun \<Rightarrow> object_id \<Rightarrow> event_id \<Rightarrow> event_id \<Rightarrow> 'k system_state \<Rightarrow> storage_node_cap \<Rightarrow> blob_id \<Rightarrow> bytes \<Rightarrow> nat \<Rightarrow> nat \<Rightarrow> nat \<Rightarrow> epoch
    \<Rightarrow> ('k system_state \<times> storage_node_cap \<times> blob_event list, move_abort) result" where
  "certify_event_blob h oid eid eid' self cap blob_id root_hash len encoding num epoch =
    and_then (ensure (bls_contains (sys_committee self) (cap_node_id cap)) ENotCommitteeMember) (\<lambda>_.
    and_then (ensure (epoch = sys_epoch self) EInvalidIdEpoch) (\<lambda>_.
    and_then (check_attestation self cap num) (\<lambda>_.
    let cap = cap\<lparr>last_event_blob_attestation := Some \<lparr>ea_checkpoint_sequence_num = num, ea_epoch = epoch\<rparr>\<rparr> in
    if is_blob_already_certified (event_blob_state self) num then Ok (self, cap, [])
    else
      and_then (update_aggregate_weight (start_tracking_blob (event_blob_state self) blob_id num) blob_id num
          (get_member_weight (sys_committee self) (cap_node_id cap))) (\<lambda>(agg_weight, ebs).
      let self = self\<lparr>event_blob_state := ebs\<rparr> in
      if \<not> is_quorum (sys_committee self) agg_weight then Ok (self, cap, [])
      else
        and_then (move_encoded_blob_length len encoding (sys_n_shards self)) (\<lambda>encoded_size.
        and_then (reserve_space_without_payment self encoded_size 0 (max_epochs_ahead self) False) (\<lambda>(self, storage).
        and_then (move_blob_new h oid eid storage blob_id root_hash len encoding False (sys_epoch self) (sys_n_shards self)) (\<lambda>(blob, ev).
        and_then (certify_with_certified_msg eid' blob (sys_epoch self) (certified_event_blob_message blob_id)) (\<lambda>(_, ev').
        and_then (update_latest_certified_event_blob (event_blob_state self) num blob_id) (\<lambda>ebs.
        Ok (self\<lparr>event_blob_state := event_blob_reset ebs\<rparr>, cap, [ev, ev']))))))))))"

subsection \<open>Storage pools\<close>

definition create_storage_pool_with_storage ::
  "object_id \<Rightarrow> event_id \<Rightarrow> 'k system_state \<Rightarrow> storage \<Rightarrow> (storage_pool \<times> storage_pool_event, move_abort) result" where
  "create_storage_pool_with_storage oid eid self storage =
    and_then (ensure (st_size storage > 0) EInvalidResourceSize) (\<lambda>_.
    and_then (ensure (st_start_epoch storage \<le> sys_epoch self) EInvalidEpochsAhead) (\<lambda>_.
    and_then (ensure (st_end_epoch storage > sys_epoch self) EInvalidEpochsAhead) (\<lambda>_.
    Ok (pool_create oid storage, StoragePoolCreated \<lparr>spc_epoch = sys_epoch self, spc_storage_pool_id = oid,
      spc_reserved_encoded_capacity_bytes = st_size storage, spc_start_epoch = st_start_epoch storage,
      spc_end_epoch = st_end_epoch storage, spc_event_id = eid\<rparr>))))"

definition create_storage_pool ::
  "object_id \<Rightarrow> event_id \<Rightarrow> 'k system_state \<Rightarrow> nat \<Rightarrow> nat \<Rightarrow> nat \<Rightarrow> ('k system_state \<times> storage_pool \<times> nat \<times> storage_pool_event, move_abort) result" where
  "create_storage_pool oid eid self reserved_encoded_capacity_bytes epochs_ahead payment =
    and_then (reserve_space self reserved_encoded_capacity_bytes epochs_ahead payment) (\<lambda>(self, storage, payment).
    and_then (create_storage_pool_with_storage oid eid self storage) (\<lambda>(pool, ev). Ok (self, pool, payment, ev)))"

definition register_pooled_blob ::
  "hash_fun \<Rightarrow> object_id \<Rightarrow> event_id \<Rightarrow> 'k system_state \<Rightarrow> storage_pool \<Rightarrow> blob_id \<Rightarrow> bytes \<Rightarrow> nat \<Rightarrow> nat \<Rightarrow> bool \<Rightarrow> nat
    \<Rightarrow> ('k system_state \<times> storage_pool \<times> nat \<times> blob_event, move_abort) result" where
  "register_pooled_blob h oid eid self pool blob_id root_hash len encoding deletable write_payment_coin =
    and_then (ensure (sys_epoch self \<ge> st_start_epoch (pl_storage pool)) EInvalidEpochsAhead) (\<lambda>_.
    and_then (ensure (sys_epoch self < st_end_epoch (pl_storage pool)) EInvalidEpochsAhead) (\<lambda>_.
    and_then (new_pooled_blob h oid eid (pl_id pool) blob_id root_hash len encoding deletable (sys_epoch self)) (\<lambda>(blob, ev).
    and_then (move_encoded_blob_length len encoding (sys_n_shards self)) (\<lambda>encoded_size.
    and_then (pool_add_blob pool blob encoded_size) (\<lambda>pool.
    and_then (write_price self encoded_size) (\<lambda>price.
    and_then (bal_split write_payment_coin price) (\<lambda>coin.
    and_then (pay_epoch self 0 price) (\<lambda>self. Ok (self, pool, coin, ev)))))))))"

definition delete_pooled_blob :: "event_id \<Rightarrow> 'k system_state \<Rightarrow> storage_pool \<Rightarrow> blob_id \<Rightarrow> (storage_pool \<times> blob_event, move_abort) result" where
  "delete_pooled_blob eid self pool blob_id =
    and_then (ensure (st_end_epoch (pl_storage pool) > sys_epoch self) EInvalidEpochsAhead) (\<lambda>_.
    and_then (pool_remove_blob pool blob_id (sys_n_shards self)) (\<lambda>(blob, pool).
    and_then (delete_blob_object eid blob (sys_epoch self)) (\<lambda>ev. Ok (pool, ev))))"

definition burn_expired_pooled_blob :: "'k system_state \<Rightarrow> storage_pool \<Rightarrow> blob_id \<Rightarrow> (storage_pool, move_abort) result" where
  "burn_expired_pooled_blob self pool blob_id =
    and_then (ensure (st_end_epoch (pl_storage pool) \<le> sys_epoch self) EInvalidEpochsAhead) (\<lambda>_.
    and_then (pool_remove_blob pool blob_id (sys_n_shards self)) (\<lambda>(_, pool). Ok pool))"

definition extend_storage_pool ::
  "event_id \<Rightarrow> 'k system_state \<Rightarrow> storage_pool \<Rightarrow> nat \<Rightarrow> nat \<Rightarrow> ('k system_state \<times> storage_pool \<times> nat \<times> storage_pool_event, move_abort) result" where
  "extend_storage_pool eid self pool extended_epochs payment =
    and_then (ensure (extended_epochs > 0) EInvalidEpochsAhead) (\<lambda>_.
    and_then (ensure (st_end_epoch (pl_storage pool) > sys_epoch self) EInvalidEpochsAhead) (\<lambda>_.
    and_then (usub (st_end_epoch (pl_storage pool)) (sys_epoch self)) (\<lambda>start_offset.
    and_then (uadd U32_MAX start_offset extended_epochs) (\<lambda>end_offset.
    and_then (ensure (end_offset \<le> max_epochs_ahead self) EInvalidEpochsAhead) (\<lambda>_.
    and_then (process_storage_payments self (st_size (pl_storage pool)) start_offset end_offset payment) (\<lambda>(self, payment).
    and_then (account_capacity self start_offset end_offset (st_size (pl_storage pool))) (\<lambda>self.
    and_then (pool_extend_end_epoch pool extended_epochs) (\<lambda>pool.
    Ok (self, pool, payment, StoragePoolExtended \<lparr>spe_epoch = sys_epoch self, spe_storage_pool_id = pl_id pool,
      spe_new_end_epoch = st_end_epoch (pl_storage pool), spe_event_id = eid\<rparr>)))))))))"

definition increase_storage_pool_capacity ::
  "'k system_state \<Rightarrow> storage_pool \<Rightarrow> nat \<Rightarrow> nat \<Rightarrow> ('k system_state \<times> storage_pool \<times> nat, move_abort) result" where
  "increase_storage_pool_capacity self pool additional payment =
    and_then (ensure (additional > 0) EInvalidResourceSize) (\<lambda>_.
    and_then (ensure (st_end_epoch (pl_storage pool) > sys_epoch self) EInvalidEpochsAhead) (\<lambda>_.
    and_then (usub (st_end_epoch (pl_storage pool)) (sys_epoch self)) (\<lambda>remaining_epochs.
    and_then (process_storage_payments self additional 0 remaining_epochs payment) (\<lambda>(self, payment).
    and_then (account_capacity self 0 remaining_epochs additional) (\<lambda>self.
    and_then (increase_reserved_encoded_capacity pool additional) (\<lambda>pool. Ok (self, pool, payment)))))))"

definition increase_storage_pool_capacity_with_storage ::
  "'k system_state \<Rightarrow> storage_pool \<Rightarrow> storage \<Rightarrow> (storage_pool, move_abort) result" where
  "increase_storage_pool_capacity_with_storage self pool storage =
    and_then (ensure (st_end_epoch (pl_storage pool) > sys_epoch self) EInvalidEpochsAhead) (\<lambda>_.
    increase_capacity_with_storage pool storage (sys_epoch self))"

definition decrease_storage_pool_capacity_by_size ::
  "'k system_state \<Rightarrow> storage_pool \<Rightarrow> nat \<Rightarrow> (storage option \<times> storage_pool, move_abort) result" where
  "decrease_storage_pool_capacity_by_size self pool s =
    and_then (ensure (st_end_epoch (pl_storage pool) > sys_epoch self) EInvalidEpochsAhead) (\<lambda>_. decrease_capacity_by_size pool s)"

definition decrease_storage_pool_unused_capacity_by_percent ::
  "'k system_state \<Rightarrow> storage_pool \<Rightarrow> nat \<Rightarrow> (storage option \<times> storage_pool, move_abort) result" where
  "decrease_storage_pool_unused_capacity_by_percent self pool percent =
    and_then (ensure (st_end_epoch (pl_storage pool) > sys_epoch self) EInvalidEpochsAhead) (\<lambda>_. decrease_unused_capacity_by_percent pool percent)"

definition certify_pooled_blob ::
  "(bytes \<Rightarrow> 'k \<Rightarrow> bytes \<Rightarrow> bool) \<Rightarrow> event_id \<Rightarrow> ('k :: ab_group_add) system_state \<Rightarrow> storage_pool \<Rightarrow> blob_id \<Rightarrow> bytes \<Rightarrow> bytes \<Rightarrow> bytes
    \<Rightarrow> (storage_pool \<times> blob_event, move_abort) result" where
  "certify_pooled_blob V eid self pool blob_id signature signers_bitmap message =
    and_then (verify_quorum_in_epoch V (sys_committee self) signature signers_bitmap message) (\<lambda>certified_msg.
    and_then (ensure (cert_epoch certified_msg = sys_epoch self) EInvalidIdEpoch) (\<lambda>_.
    and_then (certify_blob_message certified_msg) (\<lambda>certified_blob_msg.
    and_then (borrow_blob pool blob_id) (\<lambda>pooled_blob.
    and_then (certify_pooled eid pooled_blob (sys_epoch self) (st_end_epoch (pl_storage pool)) certified_blob_msg) (\<lambda>(pooled_blob, ev).
    Ok (pool\<lparr>pl_blobs := Mapping.update blob_id pooled_blob (pl_blobs pool)\<rparr>, ev))))))"

subsection \<open>Deny lists\<close>

definition be_value :: "bytes \<Rightarrow> nat" where
  "be_value bs = le_value (rev bs)"

record deny_list_update_msg =
  du_storage_node_id :: node_id
  du_sequence_number :: nat
  du_size :: nat
  du_root :: bytes

definition deny_list_update_message :: "certified_message \<Rightarrow> (deny_list_update_msg, move_abort) result" where
  "deny_list_update_message message =
    and_then (ensure (intent_type message = 4) EInvalidMsgType) (\<lambda>_.
    and_then (peel 32 (cert_message message)) (\<lambda>(node, bs).
    and_then (peel 8 bs) (\<lambda>(number, bs).
    and_then (peel 8 bs) (\<lambda>(s, bs).
    and_then (peel 32 bs) (\<lambda>(r, bs).
    Ok \<lparr>du_storage_node_id = be_value node, du_sequence_number = le_value number, du_size = le_value s, du_root = r\<rparr>)))))"

text \<open>The events \<open>RegisterDenyListUpdate\<close> and \<open>DenyListUpdate\<close> with the epoch, the root and the number of the list, and the node.\<close>

datatype deny_list_event =
  RegisterDenyListUpdate epoch bytes nat node_id
| DenyListUpdate epoch bytes nat node_id

definition register_deny_list_update :: "'k system_state \<Rightarrow> storage_node_cap \<Rightarrow> bytes \<Rightarrow> nat \<Rightarrow> (deny_list_event, move_abort) result" where
  "register_deny_list_update self cap deny_list_root deny_list_sequence =
    and_then (ensure (bls_contains (sys_committee self) (cap_node_id cap)) ENotCommitteeMember) (\<lambda>_.
    and_then (ensure (deny_list_sequence > cap_deny_list_sequence cap) EIncorrectDenyListSequence) (\<lambda>_.
    Ok (RegisterDenyListUpdate (sys_epoch self) deny_list_root deny_list_sequence (cap_node_id cap))))"

definition update_deny_list ::
  "(bytes \<Rightarrow> 'k \<Rightarrow> bytes \<Rightarrow> bool) \<Rightarrow> ('k :: ab_group_add) system_state \<Rightarrow> storage_node_cap \<Rightarrow> bytes \<Rightarrow> bytes \<Rightarrow> bytes
    \<Rightarrow> ('k system_state \<times> storage_node_cap \<times> deny_list_event, move_abort) result" where
  "update_deny_list V self cap signature members_bitmap message =
    and_then (ensure (bls_contains (sys_committee self) (cap_node_id cap)) ENotCommitteeMember) (\<lambda>_.
    and_then (verify_quorum_in_epoch V (sys_committee self) signature members_bitmap message) (\<lambda>certified_message.
    and_then (deny_list_update_message certified_message) (\<lambda>message.
    and_then (ensure (cert_epoch certified_message = sys_epoch self) EInvalidIdEpoch) (\<lambda>_.
    and_then (ensure (du_storage_node_id message = cap_node_id cap) EIncorrectDenyListNode) (\<lambda>_.
    and_then (ensure (cap_deny_list_sequence cap < du_sequence_number message) EIncorrectDenyListSequence) (\<lambda>_.
    Ok (self\<lparr>deny_list_sizes := AList.update (du_storage_node_id message) (du_size message) (deny_list_sizes self)\<rparr>,
      cap\<lparr>cap_deny_list_root := du_root message, cap_deny_list_sequence := du_sequence_number message, cap_deny_list_size := du_size message\<rparr>,
      DenyListUpdate (sys_epoch self) (du_root message) (du_sequence_number message) (cap_node_id cap))))))))"

definition deny_list_blob_deleted_message :: "certified_message \<Rightarrow> (blob_id, move_abort) result" where
  "deny_list_blob_deleted_message message =
    and_then (ensure (intent_type message = 5) EInvalidMsgType) (\<lambda>_.
    and_then (peel 32 (cert_message message)) (\<lambda>(blob_id, bs). Ok blob_id))"

definition delete_deny_listed_blob ::
  "(bytes \<Rightarrow> 'k \<Rightarrow> bytes \<Rightarrow> bool) \<Rightarrow> event_id \<Rightarrow> ('k :: ab_group_add) system_state \<Rightarrow> bytes \<Rightarrow> bytes \<Rightarrow> bytes \<Rightarrow> (blob_event, move_abort) result" where
  "delete_deny_listed_blob V eid self signature members_bitmap message =
    and_then (verify_one_correct_node_in_epoch V (sys_committee self) signature members_bitmap message) (\<lambda>certified_message.
    and_then (deny_list_blob_deleted_message certified_message) (\<lambda>blob_id.
    and_then (ensure (cert_epoch certified_message = sys_epoch self) EInvalidIdEpoch) (\<lambda>_.
    Ok (DenyListBlobDeleted \<lparr>dl_epoch = cert_epoch certified_message, dl_blob_id = blob_id, dl_event_id = eid\<rparr>))))"

subsection \<open>The protocol version\<close>

definition protocol_version_message :: "certified_message \<Rightarrow> (epoch \<times> nat, move_abort) result" where
  "protocol_version_message message =
    and_then (ensure (intent_type message = 6) EInvalidMsgType) (\<lambda>_.
    and_then (peel 4 (cert_message message)) (\<lambda>(start_epoch, bs).
    and_then (peel 8 bs) (\<lambda>(protocol_version, bs). Ok (le_value start_epoch, le_value protocol_version))))"

text \<open>The result is the event: the epoch, the start epoch and the version.\<close>

definition update_protocol_version ::
  "(bytes \<Rightarrow> 'k \<Rightarrow> bytes \<Rightarrow> bool) \<Rightarrow> ('k :: ab_group_add) system_state \<Rightarrow> storage_node_cap \<Rightarrow> bytes \<Rightarrow> bytes \<Rightarrow> bytes
    \<Rightarrow> (epoch \<times> epoch \<times> nat, move_abort) result" where
  "update_protocol_version V self cap signature members_bitmap message =
    and_then (ensure (bls_contains (sys_committee self) (cap_node_id cap)) ENotCommitteeMember) (\<lambda>_.
    and_then (verify_quorum_in_epoch V (sys_committee self) signature members_bitmap message) (\<lambda>certified_message.
    and_then (protocol_version_message certified_message) (\<lambda>(start_epoch, protocol_version).
    and_then (ensure (cert_epoch certified_message = sys_epoch self) EInvalidIdEpoch) (\<lambda>_.
    and_then (ensure (start_epoch \<ge> sys_epoch self) EInvalidStartEpoch) (\<lambda>_.
    Ok (cert_epoch certified_message, start_epoch, protocol_version))))))"

end
