(* ===== verification/SystemAccounting.thy ===== *)
theory SystemAccounting
  imports SystemState
begin

text \<open>
  What the operations of the system contract do to the accounts. All of them are described by one relation: \<open>accounted p g s s'\<close> says that
  \<open>s'\<close> has \<open>p\<close> more coins in its accounts than \<open>s\<close>, and \<open>g j\<close> more bytes of used capacity in the \<open>j\<close>-th epoch from now.
\<close>

subsection \<open>Changes of the accounts\<close>

definition rewards :: "'k system_state \<Rightarrow> nat list" where
  "rewards s = map fa_rewards (ring_list (accounting s))"

definition used :: "'k system_state \<Rightarrow> nat list" where
  "used s = map fa_used_capacity (ring_list (accounting s))"

definition sys_ok :: "('k :: ab_group_add) system_state \<Rightarrow> bool" where
  "sys_ok s \<longleftrightarrow> ring_ok (sys_epoch s) (accounting s) \<and> used_capacity_size s = used s ! 0 \<and> committee_wf (sys_committee s)"

definition same_frame :: "'k system_state \<Rightarrow> 'k system_state \<Rightarrow> bool" where
  "same_frame s s' \<longleftrightarrow> sys_committee s' = sys_committee s \<and> max_epochs_ahead s' = max_epochs_ahead s
    \<and> total_capacity_size s' = total_capacity_size s"

definition accounted :: "nat \<Rightarrow> (nat \<Rightarrow> nat) \<Rightarrow> ('k :: ab_group_add) system_state \<Rightarrow> 'k system_state \<Rightarrow> bool" where
  "accounted p g s s' \<longleftrightarrow> sys_ok s' \<and> same_frame s s' \<and> sum_list (rewards s') = sum_list (rewards s) + p
    \<and> (\<forall>j<max_epochs_ahead s. used s' ! j = used s ! j + g j)"

lemma sys_okD: "sys_ok s \<Longrightarrow> ring_ok (sys_epoch s) (accounting s)"
  by (simp add: sys_ok_def)

lemma length_accounts [simp]:
  assumes "sys_ok s"
  shows "length (rewards s) = max_epochs_ahead s" "length (used s) = max_epochs_ahead s"
  using length_ring_list [OF sys_okD [OF assms]] by (simp_all add: rewards_def used_def)

lemma ring_length_pos: "ring_ok now r \<Longrightarrow> 0 < ring_length r"
  by (simp add: ring_ok_def)

lemma accounted_refl: "sys_ok s \<Longrightarrow> accounted 0 (\<lambda>_. 0) s s"
  by (simp add: accounted_def same_frame_def)

lemma accounted_trans:
  "accounted p g s s' \<Longrightarrow> accounted q k s' s'' \<Longrightarrow> accounted (p + q) (\<lambda>j. g j + k j) s s''"
  by (auto simp: accounted_def same_frame_def)

lemma accounted_cong: "accounted p g s s' \<Longrightarrow> p = q \<Longrightarrow> (\<And>j. j < max_epochs_ahead s \<Longrightarrow> g j = k j) \<Longrightarrow> accounted q k s s'"
  by (simp add: accounted_def)

lemma accountedD:
  assumes "accounted p g s s'"
  shows "sys_ok s'" "sys_committee s' = sys_committee s" "max_epochs_ahead s' = max_epochs_ahead s" "total_capacity_size s' = total_capacity_size s"
  using assms by (auto simp: accounted_def same_frame_def)

text \<open>Fields outside of the accounts do not matter.\<close>

lemma accounted_update:
  assumes "accounted p g s s'"
  shows "accounted p g s (s'\<lparr>event_blob_state := e\<rparr>)" "accounted p g s (s'\<lparr>storage_price_per_unit_size := c\<rparr>)"
    "accounted p g s (s'\<lparr>write_price_per_unit_size := c\<rparr>)" "accounted p g s (s'\<lparr>deny_list_sizes := d\<rparr>)"
  using assms by (auto simp: accounted_def same_frame_def sys_ok_def rewards_def used_def)

lemma accounted_before: "accounted p g (s\<lparr>event_blob_state := e\<rparr>) s' \<Longrightarrow> accounted p g s s'"
  by (simp add: accounted_def same_frame_def rewards_def used_def)

lemma sum_list_add: "i < length xs \<Longrightarrow> sum_list (xs[i := xs ! i + a]) = sum_list xs + (a :: nat)"
  by (simp add: sum_list_update)

lemma pay_epoch_accounted:
  assumes ok: "sys_ok s" and p: "pay_epoch s i a = Ok s'"
  shows "accounted a (\<lambda>_. 0) s s'"
proof -
  obtain r where r: "ring_lookup_mut (accounting s) i (join_rewards a) = Ok r" and s': "s' = s\<lparr>accounting := r\<rparr>"
    using p by (auto simp: pay_epoch_def)
  note w = ring.pay [OF sys_okD [OF ok] r]
  have "sum_list (map fa_rewards (ring_list r)) = sum_list (rewards s) + a"
    using sum_list_add [of i "rewards s" a] w(1,2) by (simp add: rewards_def)
  then show ?thesis
    using ok w ring_lookup_mut_length [OF r] by (simp add: accounted_def same_frame_def sys_ok_def s' used_def rewards_def)
qed

lemma pay_epoch_defined:
  assumes "sys_ok s" "i < max_epochs_ahead s" "rewards s ! i + a \<le> U64_MAX"
  shows "\<exists>s'. pay_epoch s i a = Ok s'"
proof -
  have "i < length (ring_list (accounting s))" using assms(2) length_ring_list [OF sys_okD [OF assms(1)]] by simp
  then show ?thesis using ring.pay_defined [OF sys_okD [OF assms(1)], of i a] assms(3) by (auto simp: pay_epoch_def rewards_def)
qed

lemma payments_accounted:
  assumes "try_fold (\<lambda>(s, coin) i. and_then (bal_split coin due) (\<lambda>coin. and_then (pay_epoch s i due) (\<lambda>s. Ok (s, coin)))) (s, coin) xs = Ok (s', coin')"
    "sys_ok s"
  shows "coin' \<le> coin \<and> accounted (coin - coin') (\<lambda>_. 0) s s'"
  using assms
proof (induction xs arbitrary: s coin)
  case Nil
  then show ?case by (simp add: accounted_refl)
next
  case (Cons i xs)
  obtain s1 where s1: "due \<le> coin" "pay_epoch s i due = Ok s1"
    and t: "try_fold (\<lambda>(s, coin) i. and_then (bal_split coin due) (\<lambda>coin. and_then (pay_epoch s i due) (\<lambda>s. Ok (s, coin)))) (s1, coin - due) xs = Ok (s', coin')"
    using Cons.prems(1) by auto
  have a: "accounted due (\<lambda>_. 0) s s1" by (rule pay_epoch_accounted [OF Cons.prems(2) s1(2)])
  have i: "coin' \<le> coin - due" "accounted (coin - due - coin') (\<lambda>_. 0) s1 s'"
    using Cons.IH [OF t accountedD(1) [OF a]] by simp_all
  show ?case using accounted_cong [OF accounted_trans [OF a i(2)], of "coin - coin'" "\<lambda>_. 0"] i(1) s1(1) by simp
qed

lemma process_storage_payments_accounted:
  "sys_ok s \<Longrightarrow> process_storage_payments s n a b coin = Ok (s', coin') \<Longrightarrow> coin' \<le> coin \<and> accounted (coin - coin') (\<lambda>_. 0) s s'"
  by (auto simp: process_storage_payments_def dest: payments_accounted)

subsection \<open>Capacity\<close>

lemma used_update:
  assumes ok: "sys_ok s" and r: "ring_lookup_mut (accounting s) i (increase_used_capacity a) = Ok r"
  shows "i < max_epochs_ahead s" "ring_ok (sys_epoch s) r" "ring_length r = max_epochs_ahead s" "map fa_rewards (ring_list r) = rewards s"
    "map fa_used_capacity (ring_list r) = (used s)[i := used s ! i + a]" "ring_lookup r i = Ok (ring_list r ! i)"
    "fa_used_capacity (ring_list r ! i) = used s ! i + a"
proof -
  note w = ring.use_capacity [OF sys_okD [OF ok] r]
  note l = length_ring_list [OF sys_okD [OF ok]] length_ring_list [OF w(4)]
  show i: "i < max_epochs_ahead s" and o: "ring_ok (sys_epoch s) r" and n: "ring_length r = max_epochs_ahead s"
    using w(1,4) l ring_lookup_mut_length [OF r] by simp_all
  show "map fa_rewards (ring_list r) = rewards s" using w(3) by (simp add: rewards_def)
  show u: "map fa_used_capacity (ring_list r) = (used s)[i := used s ! i + a]" using w(1,2) by (simp add: used_def)
  show "ring_lookup r i = Ok (ring_list r ! i)" using ring_lookup_eq [OF o] i n by simp
  show "fa_used_capacity (ring_list r ! i) = used s ! i + a"
    using arg_cong [OF u, of "\<lambda>xs. xs ! i"] i l n by (simp add: used_def)
qed

lemma account_epoch_accounted:
  assumes ok: "sys_ok s" and a: "account_epoch n check s i = Ok s'"
  shows "accounted 0 (\<lambda>j. if j = i then n else 0) s s'" "check \<Longrightarrow> used s' ! i \<le> total_capacity_size s" "i < max_epochs_ahead s"
proof -
  obtain r where r: "ring_lookup_mut (accounting s) i (increase_used_capacity n) = Ok r" using a by (auto simp: account_epoch_def)
  note u = used_update [OF ok r]
  have s': "s' = (if i = 0 then s\<lparr>accounting := r, used_capacity_size := used s ! i + n\<rparr> else s\<lparr>accounting := r\<rparr>)"
    and c: "check \<Longrightarrow> used s ! i + n \<le> total_capacity_size s"
    using a u(6,7) by (auto simp: account_epoch_def r Let_def split: if_splits)
  have us: "used s' = (used s)[i := used s ! i + n]" and rs: "rewards s' = rewards s" using u(4,5) by (auto simp: s' used_def rewards_def)
  have "0 < max_epochs_ahead s" using ring_length_pos [OF sys_okD [OF ok]] .
  then have "used_capacity_size s' = used s' ! 0" using ok us by (auto simp: s' sys_ok_def)
  then have "sys_ok s'" using ok u(2) by (auto simp: sys_ok_def s')
  moreover have "same_frame s s'" using u(3) by (auto simp: same_frame_def s')
  ultimately show "accounted 0 (\<lambda>j. if j = i then n else 0) s s'"
    using ok us rs by (auto simp: accounted_def nth_list_update)
  show "i < max_epochs_ahead s" using u(1) .
  show "used s' ! i \<le> total_capacity_size s" if check using c [OF that] us u(1) ok by simp
qed

text \<open>The loops over a range of epochs. \<open>epochs_in n a b\<close> is \<open>n\<close> in the epochs from \<open>a\<close> to \<open>b\<close>.\<close>

definition epochs_in :: "nat \<Rightarrow> nat \<Rightarrow> nat \<Rightarrow> nat \<Rightarrow> nat" where
  "epochs_in n a b j = (if a \<le> j \<and> j < b then n else 0)"

lemma epochs_in_step: "a \<le> b \<Longrightarrow> epochs_in n a (Suc b) j = epochs_in n a b j + (if j = b then n else 0)"
  by (auto simp: epochs_in_def less_Suc_eq)

lemma range_accounted:
  assumes ok: "sys_ok s" and f: "try_fold f s [a..<b] = Ok s'"
    and step: "\<And>s i s'. sys_ok s \<Longrightarrow> f s i = Ok s' \<Longrightarrow> i \<in> {a..<b} \<Longrightarrow> accounted 0 (\<lambda>j. if j = i then n else 0) s s' \<and> (c \<longrightarrow> used s' ! i \<le> total_capacity_size s)
      \<and> i < max_epochs_ahead s"
  shows "accounted 0 (epochs_in n a b) s s' \<and> (\<forall>j. c \<and> a \<le> j \<and> j < b \<longrightarrow> used s' ! j \<le> total_capacity_size s) \<and> (a < b \<longrightarrow> b \<le> max_epochs_ahead s)"
  using f step
proof (induction b arbitrary: s')
  case 0
  have "epochs_in n a 0 = (\<lambda>_. 0)" by (auto simp: epochs_in_def)
  then show ?case using 0 accounted_refl [OF ok] by simp
next
  case (Suc b)
  show ?case
  proof (cases "a \<le> b")
    case False
    then have "epochs_in n a (Suc b) = (\<lambda>_. 0)" by (auto simp: epochs_in_def)
    then show ?thesis using False Suc.prems(1) accounted_refl [OF ok] by simp
  next
    case True
    then obtain s1 where s1: "try_fold f s [a..<b] = Ok s1" "f s1 b = Ok s'" using Suc.prems(1) by (auto simp: try_fold_append)
    have "accounted 0 (epochs_in n a b) s s1 \<and> (\<forall>j. c \<and> a \<le> j \<and> j < b \<longrightarrow> used s1 ! j \<le> total_capacity_size s) \<and> (a < b \<longrightarrow> b \<le> max_epochs_ahead s)"
      by (rule Suc.IH [OF s1(1)]) (use Suc.prems(2) in auto)
    then have I: "accounted 0 (epochs_in n a b) s s1" "\<And>j. c \<Longrightarrow> a \<le> j \<Longrightarrow> j < b \<Longrightarrow> used s1 ! j \<le> total_capacity_size s" by auto
    note F = accountedD [OF I(1)]
    have st: "accounted 0 (\<lambda>j. if j = b then n else 0) s1 s'" "c \<longrightarrow> used s' ! b \<le> total_capacity_size s" "b < max_epochs_ahead s"
      using Suc.prems(2) [OF F(1) s1(2)] True F by auto
    have "accounted 0 (epochs_in n a (Suc b)) s s'"
      by (rule accounted_cong [OF accounted_trans [OF I(1) st(1)]]) (simp_all add: epochs_in_step [OF True])
    moreover have "used s' ! j \<le> total_capacity_size s" if "c" "a \<le> j" "j < Suc b" for j
      using that I(2) [of j] st F by (cases "j = b") (auto simp: accounted_def)
    ultimately show ?thesis using st(3) by auto
  qed
qed

lemma account_range:
  assumes "sys_ok s" "try_fold (account_epoch n check) s [a..<b] = Ok s'"
  shows "accounted 0 (epochs_in n a b) s s' \<and> (\<forall>j. check \<and> a \<le> j \<and> j < b \<longrightarrow> used s' ! j \<le> total_capacity_size s) \<and> (a < b \<longrightarrow> b \<le> max_epochs_ahead s)"
  by (rule range_accounted [OF assms]) (use account_epoch_accounted in blast)

subsection \<open>Reservations\<close>

lemma reserve_without_payment_accounted:
  assumes ok: "sys_ok s" and r: "reserve_space_without_payment s n a b check = Ok (s', st)"
  shows "accounted 0 (\<lambda>j. reserved st (sys_epoch s + j)) s s'" "storage_ok st" "st_end_epoch st \<le> sys_epoch s + max_epochs_ahead s"
    "st_start_epoch st = sys_epoch s + a" "st_end_epoch st = sys_epoch s + b" "st_size st = n" "0 < n"
    "\<And>j. check \<Longrightarrow> a \<le> j \<Longrightarrow> j < b \<Longrightarrow> used s' ! j \<le> total_capacity_size s"
proof -
  obtain s1 where t: "try_fold (account_epoch n check) s [a..<b] = Ok s1" and ab: "a < b" "b \<le> max_epochs_ahead s" "0 < n"
    and e: "sys_epoch s1 + b \<le> U32_MAX" "st = \<lparr>st_start_epoch = sys_epoch s1 + a, st_end_epoch = sys_epoch s1 + b, st_size = n\<rparr>" "s' = s1"
    using r by (auto simp: reserve_space_without_payment_def create_storage_def)
  note A = account_range [OF ok t]
  have ep: "sys_epoch s1 = sys_epoch s" using A accountedD(2) by metis
  have "epochs_in n a b j = reserved st (sys_epoch s + j)" for j by (simp add: e(2) ep epochs_in_def reserved_def)
  then show "accounted 0 (\<lambda>j. reserved st (sys_epoch s + j)) s s'" using A e(3) accounted_cong by fastforce
  have "used s' ! a \<le> U64_MAX \<and> used s ! a + n = used s' ! a"
  proof -
    obtain s2 where "account_epoch n check s a = Ok s2" using t ab(1) by (auto simp: upt_rec [of a b])
    then obtain r where "ring_lookup_mut (accounting s) a (increase_used_capacity n) = Ok r" by (auto simp: account_epoch_def)
    from ring.use_capacity(5) [OF sys_okD [OF ok] this] have "used s ! a + n \<le> U64_MAX"
      using ab ok by (simp add: used_def length_ring_list [OF sys_okD [OF ok]])
    moreover have "used s' ! a = used s ! a + n" using A ab e(3) by (auto simp: accounted_def epochs_in_def)
    ultimately show ?thesis by simp
  qed
  then have "n \<le> U64_MAX" by linarith
  then show "storage_ok st" using e ab by (simp add: storage_ok_def)
  show "st_end_epoch st \<le> sys_epoch s + max_epochs_ahead s" "st_start_epoch st = sys_epoch s + a" "st_end_epoch st = sys_epoch s + b"
    "st_size st = n" "0 < n"
    using e ab ep by simp_all
  show "used s' ! j \<le> total_capacity_size s" if "check" "a \<le> j" "j < b" for j using A that e(3) by blast
qed

lemma reserve_for_epochs_accounted:
  assumes ok: "sys_ok s" and r: "reserve_space_for_epochs s n a b coin = Ok (s', st, coin')"
  shows "coin' \<le> coin" "accounted (coin - coin') (\<lambda>j. reserved st (sys_epoch s + j)) s s'" "storage_ok st"
    "st_end_epoch st \<le> sys_epoch s + max_epochs_ahead s" "st_start_epoch st = max a (sys_epoch s)" "st_end_epoch st = b" "st_size st = n" "0 < n"
    "\<And>j. reserved st (sys_epoch s + j) \<noteq> 0 \<Longrightarrow> used s' ! j \<le> total_capacity_size s"
proof -
  let ?e = "sys_epoch s"
  obtain s1 where b: "max a ?e < b" "b - ?e \<le> max_epochs_ahead s"
    and p: "process_storage_payments s n (max a ?e - ?e) (b - ?e) coin = Ok (s1, coin')"
    and q: "reserve_space_without_payment s1 n (max a ?e - ?e) (b - ?e) True = Ok (s', st)"
    using r by (auto simp: reserve_space_for_epochs_def Let_def)
  have P: "coin' \<le> coin" "accounted (coin - coin') (\<lambda>_. 0) s s1" using process_storage_payments_accounted [OF ok p] by auto
  note F = accountedD [OF P(2)]
  note R = reserve_without_payment_accounted [OF F(1) q]
  show "coin' \<le> coin" using P(1) .
  show "accounted (coin - coin') (\<lambda>j. reserved st (?e + j)) s s'"
    by (rule accounted_cong [OF accounted_trans [OF P(2) R(1)]]) (simp_all add: F(2))
  show "storage_ok st" "st_end_epoch st \<le> ?e + max_epochs_ahead s" "st_start_epoch st = max a ?e" "st_end_epoch st = b" "st_size st = n" "0 < n"
    using R(2-7) b F by simp_all
  show "used s' ! j \<le> total_capacity_size s" if "reserved st (?e + j) \<noteq> 0" for j
    using that R(8) [of j] R(4,5) F by (auto simp: reserved_def split: if_splits)
qed

lemma reserve_space_accounted:
  assumes "sys_ok s" "reserve_space s n k coin = Ok (s', st, coin')"
  shows "coin' \<le> coin" "accounted (coin - coin') (\<lambda>j. reserved st (sys_epoch s + j)) s s'" "storage_ok st"
    "st_end_epoch st \<le> sys_epoch s + max_epochs_ahead s" "st_start_epoch st = sys_epoch s" "st_size st = n" "0 < n"
proof -
  obtain b where "reserve_space_for_epochs s n (sys_epoch s) b coin = Ok (s', st, coin')" using assms(2) by (auto simp: reserve_space_def)
  from reserve_for_epochs_accounted [OF assms(1) this] show "coin' \<le> coin" "accounted (coin - coin') (\<lambda>j. reserved st (sys_epoch s + j)) s s'"
    "storage_ok st" "st_end_epoch st \<le> sys_epoch s + max_epochs_ahead s" "st_start_epoch st = sys_epoch s" "st_size st = n" "0 < n" by simp_all
qed

subsection \<open>Extensions\<close>

text \<open>Extending a resource that has not expired by \<open>k\<close> epochs.\<close>

lemma reserved_extended:
  assumes "storage_ok st" "e < st_end_epoch st"
  shows "reserved (st\<lparr>st_end_epoch := st_end_epoch st + k\<rparr>) (e + j) = reserved st (e + j) + epochs_in (st_size st) (st_end_epoch st - e) (st_end_epoch st - e + k) j"
  using assms by (auto simp: reserved_def epochs_in_def storage_ok_def)

lemma extend_blob_accounted:
  assumes ok: "sys_ok s" and b: "storage_ok (mb_storage b)" and x: "extend_blob eid s b k coin = Ok (s', b', coin', ev)"
  shows "coin' \<le> coin" "\<exists>g. accounted (coin - coin') g s s' \<and> (\<forall>j. reserved (mb_storage b') (sys_epoch s + j) = reserved (mb_storage b) (sys_epoch s + j) + g j)"
    "storage_ok (mb_storage b')" "st_end_epoch (mb_storage b') \<le> sys_epoch s + max_epochs_ahead s"
    "b' = b\<lparr>mb_storage := (mb_storage b)\<lparr>st_end_epoch := st_end_epoch (mb_storage b) + k\<rparr>\<rparr>" "emit_certified eid b' True = Ok ev"
    "sys_epoch s < st_end_epoch (mb_storage b)" "mb_certified_epoch b \<noteq> None"
proof -
  let ?st = "mb_storage b" and ?e = "sys_epoch s"
  let ?a = "st_end_epoch ?st - ?e"
  let ?f = "\<lambda>self i. and_then (ring_lookup_mut (accounting self) i (increase_used_capacity (st_size ?st))) (\<lambda>r.
      and_then (ring_lookup r i) (\<lambda>acc.
      and_then (ensure (fa_used_capacity acc \<le> total_capacity_size self) EStorageExceeded) (\<lambda>_. Ok (self\<lparr>accounting := r\<rparr>))))"
  obtain s1 where c: "mb_certified_epoch b \<noteq> None" "?e < st_end_epoch ?st" "?a + k \<le> max_epochs_ahead s"
    and p: "process_storage_payments s (st_size ?st) ?a (?a + k) coin = Ok (s1, coin')" and t: "try_fold ?f s1 [?a..<?a + k] = Ok s'"
    and u: "st_end_epoch ?st + k \<le> U32_MAX" and b': "b' = b\<lparr>mb_storage := ?st\<lparr>st_end_epoch := st_end_epoch ?st + k\<rparr>\<rparr>" and ev: "emit_certified eid b' True = Ok ev"
    using x by (auto simp: extend_blob_def assert_certified_not_expired_def extend_end_epoch_def Let_def)
  have P: "coin' \<le> coin" "accounted (coin - coin') (\<lambda>_. 0) s s1" using process_storage_payments_accounted [OF ok p] by auto
  note F = accountedD [OF P(2)]
  have step: "accounted 0 (\<lambda>j. if j = i then st_size ?st else 0) t t' \<and> (False \<longrightarrow> used t' ! i \<le> total_capacity_size t) \<and> i < max_epochs_ahead t"
    if t: "sys_ok t" "?f t i = Ok t'" "i \<in> {?a..<?a + k}" for t i t'
  proof -
    have "i \<noteq> 0" using t(3) c(2) by auto
    obtain r where r: "ring_lookup_mut (accounting t) i (increase_used_capacity (st_size ?st)) = Ok r"
      and "t' = t\<lparr>accounting := r\<rparr>" "fa_used_capacity (ring_list r ! i) \<le> total_capacity_size t"
      using t(2) used_update(6) [OF t(1)] by auto
    then have "account_epoch (st_size ?st) True t i = Ok t'"
      using used_update(6) [OF t(1) r] \<open>i \<noteq> 0\<close> by (simp add: account_epoch_def Let_def)
    then show ?thesis using account_epoch_accounted [OF t(1)] by blast
  qed
  have A: "accounted 0 (epochs_in (st_size ?st) ?a (?a + k)) s1 s'"
    using range_accounted [OF F(1) t, of "st_size ?st" False, OF step] by blast
  have "accounted (coin - coin') (epochs_in (st_size ?st) ?a (?a + k)) s s'"
    by (rule accounted_cong [OF accounted_trans [OF P(2) A]]) simp_all
  then show "\<exists>g. accounted (coin - coin') g s s' \<and> (\<forall>j. reserved (mb_storage b') (?e + j) = reserved ?st (?e + j) + g j)"
    using reserved_extended [OF b c(2), of k] by (auto simp: b')
  show "coin' \<le> coin" using P(1) .
  show "storage_ok (mb_storage b')" using b u by (auto simp: b' storage_ok_def)
  show "st_end_epoch (mb_storage b') \<le> ?e + max_epochs_ahead s" using c(2,3) by (simp add: b')
  show "b' = b\<lparr>mb_storage := ?st\<lparr>st_end_epoch := st_end_epoch ?st + k\<rparr>\<rparr>" by (rule b')
  show "emit_certified eid b' True = Ok ev" by (rule ev)
  show "?e < st_end_epoch ?st" "mb_certified_epoch b \<noteq> None" using c by simp_all
qed

lemma extend_pool_accounted:
  assumes ok: "sys_ok s" and b: "storage_ok (pl_storage p)" and x: "extend_storage_pool eid s p k coin = Ok (s', p', coin', ev)"
  shows "coin' \<le> coin" "\<exists>g. accounted (coin - coin') g s s' \<and> (\<forall>j. reserved (pl_storage p') (sys_epoch s + j) = reserved (pl_storage p) (sys_epoch s + j) + g j)"
    "st_end_epoch (pl_storage p') \<le> sys_epoch s + max_epochs_ahead s"
    "p' = p\<lparr>pl_storage := (pl_storage p)\<lparr>st_end_epoch := st_end_epoch (pl_storage p) + k\<rparr>\<rparr>" "sys_epoch s < st_end_epoch (pl_storage p)"
    "pool_extend_end_epoch p k = Ok p'"
    "ev = StoragePoolExtended \<lparr>spe_epoch = sys_epoch s, spe_storage_pool_id = pl_id p, spe_new_end_epoch = st_end_epoch (pl_storage p'), spe_event_id = eid\<rparr>"
proof -
  let ?st = "pl_storage p" and ?e = "sys_epoch s"
  let ?a = "st_end_epoch ?st - ?e"
  obtain s1 where c: "?e < st_end_epoch ?st" "?a + k \<le> max_epochs_ahead s"
    and p: "process_storage_payments s (st_size ?st) ?a (?a + k) coin = Ok (s1, coin')" and t: "account_capacity s1 ?a (?a + k) (st_size ?st) = Ok s'"
    and p': "p' = p\<lparr>pl_storage := ?st\<lparr>st_end_epoch := st_end_epoch ?st + k\<rparr>\<rparr>" "pool_extend_end_epoch p k = Ok p'"
    and ev: "ev = StoragePoolExtended \<lparr>spe_epoch = sys_epoch s', spe_storage_pool_id = pl_id p, spe_new_end_epoch = st_end_epoch (pl_storage p'), spe_event_id = eid\<rparr>"
    using x by (auto simp: extend_storage_pool_def pool_extend_end_epoch_def extend_end_epoch_def)
  have P: "coin' \<le> coin" "accounted (coin - coin') (\<lambda>_. 0) s s1" using process_storage_payments_accounted [OF ok p] by auto
  note F = accountedD [OF P(2)]
  have A: "accounted 0 (epochs_in (st_size ?st) ?a (?a + k)) s1 s'" using account_range [OF F(1)] t by (auto simp: account_capacity_def)
  have B: "accounted (coin - coin') (epochs_in (st_size ?st) ?a (?a + k)) s s'"
    by (rule accounted_cong [OF accounted_trans [OF P(2) A]]) simp_all
  then show "\<exists>g. accounted (coin - coin') g s s' \<and> (\<forall>j. reserved (pl_storage p') (?e + j) = reserved ?st (?e + j) + g j)"
    using reserved_extended [OF b c(1), of k] by (auto simp: p'(1))
  show "coin' \<le> coin" using P(1) .
  show "st_end_epoch (pl_storage p') \<le> ?e + max_epochs_ahead s" using c by (simp add: p'(1))
  show "p' = p\<lparr>pl_storage := ?st\<lparr>st_end_epoch := st_end_epoch ?st + k\<rparr>\<rparr>" "pool_extend_end_epoch p k = Ok p'" by fact+
  show "?e < st_end_epoch ?st" using c by simp
  show "ev = StoragePoolExtended \<lparr>spe_epoch = ?e, spe_storage_pool_id = pl_id p, spe_new_end_epoch = st_end_epoch (pl_storage p'), spe_event_id = eid\<rparr>"
    using ev accountedD(2) [OF B] by simp
qed

lemma increase_pool_accounted:
  assumes ok: "sys_ok s" and b: "storage_ok (pl_storage p)" "st_start_epoch (pl_storage p) \<le> sys_epoch s"
    and x: "increase_storage_pool_capacity s p n coin = Ok (s', p', coin')"
  shows "coin' \<le> coin" "\<exists>g. accounted (coin - coin') g s s' \<and> (\<forall>j. reserved (pl_storage p') (sys_epoch s + j) = reserved (pl_storage p) (sys_epoch s + j) + g j)"
    "p' = p\<lparr>pl_storage := (pl_storage p)\<lparr>st_size := st_size (pl_storage p) + n\<rparr>\<rparr>" "increase_reserved_encoded_capacity p n = Ok p'"
proof -
  let ?st = "pl_storage p" and ?e = "sys_epoch s"
  obtain s1 where c: "?e < st_end_epoch ?st"
    and q: "process_storage_payments s n 0 (st_end_epoch ?st - ?e) coin = Ok (s1, coin')" and t: "account_capacity s1 0 (st_end_epoch ?st - ?e) n = Ok s'"
    and p': "p' = p\<lparr>pl_storage := ?st\<lparr>st_size := st_size ?st + n\<rparr>\<rparr>" "increase_reserved_encoded_capacity p n = Ok p'"
    using x by (auto simp: increase_storage_pool_capacity_def increase_reserved_encoded_capacity_def increase_size_def)
  have P: "coin' \<le> coin" "accounted (coin - coin') (\<lambda>_. 0) s s1" using process_storage_payments_accounted [OF ok q] by auto
  note F = accountedD [OF P(2)]
  have A: "accounted 0 (epochs_in n 0 (st_end_epoch ?st - ?e)) s1 s'" using account_range [OF F(1)] t by (auto simp: account_capacity_def)
  have "accounted (coin - coin') (epochs_in n 0 (st_end_epoch ?st - ?e)) s s'"
    by (rule accounted_cong [OF accounted_trans [OF P(2) A]]) simp_all
  moreover have "reserved (pl_storage p') (?e + j) = reserved ?st (?e + j) + epochs_in n 0 (st_end_epoch ?st - ?e) j" for j
    using b(2) c by (auto simp: p'(1) reserved_def epochs_in_def)
  ultimately show "\<exists>g. accounted (coin - coin') g s s' \<and> (\<forall>j. reserved (pl_storage p') (?e + j) = reserved ?st (?e + j) + g j)" by blast
  show "coin' \<le> coin" using P(1) .
  show "p' = p\<lparr>pl_storage := ?st\<lparr>st_size := st_size ?st + n\<rparr>\<rparr>" "increase_reserved_encoded_capacity p n = Ok p'" by fact+
qed

subsection \<open>Payments and subsidies\<close>

lemma register_blob_accounted:
  assumes ok: "sys_ok s" and x: "register_blob h oid eid s st bid rt len enc del coin = Ok (s', b, coin', ev)"
  shows "coin' \<le> coin" "accounted (coin - coin') (\<lambda>_. 0) s s'"
    "move_blob_new h oid eid st bid rt len enc del (sys_epoch s) (sys_n_shards s) = Ok (b, ev)"
  using x pay_epoch_accounted [OF ok] by (auto simp: register_blob_def)

lemma register_pooled_accounted:
  assumes ok: "sys_ok s" and x: "register_pooled_blob h oid eid s p bid rt len enc del coin = Ok (s', p', coin', ev)"
  shows "coin' \<le> coin" "accounted (coin - coin') (\<lambda>_. 0) s s'"
    "\<exists>b n. new_pooled_blob h oid eid (pl_id p) bid rt len enc del (sys_epoch s) = Ok (b, ev) \<and> move_encoded_blob_length len enc (sys_n_shards s) = Ok n
      \<and> pool_add_blob p b n = Ok p' \<and> sys_epoch s < st_end_epoch (pl_storage p)"
  using x pay_epoch_accounted [OF ok] by (auto simp: register_pooled_blob_def)

lemma add_subsidy_accounted:
  assumes ok: "sys_ok s" and x: "add_subsidy s n k = Ok s'"
  shows "accounted n (\<lambda>_. 0) s s'"
proof -
  obtain s1 rest where t: "try_fold (\<lambda>(self, balance) i. and_then (bal_split balance (n div k)) (\<lambda>balance.
        and_then (pay_epoch self i (n div k)) (\<lambda>self. Ok (self, balance)))) (s, n) [0..<k] = Ok (s1, rest)" and p: "pay_epoch s1 0 rest = Ok s'"
    using x by (auto simp: add_subsidy_def Let_def)
  have A: "rest \<le> n" "accounted (n - rest) (\<lambda>_. 0) s s1" using payments_accounted [OF t ok] by auto
  have "accounted rest (\<lambda>_. 0) s1 s'" by (rule pay_epoch_accounted [OF accountedD(1) [OF A(2)] p])
  from accounted_trans [OF A(2) this] A(1) show ?thesis by simp
qed

lemma add_per_epoch_subsidies_accounted:
  assumes "sys_ok s" "add_per_epoch_subsidies s subsidies = Ok s'"
  shows "accounted (sum_list subsidies) (\<lambda>_. 0) s s'"
proof -
  have "accounted (sum_list (map snd xs)) (\<lambda>_. 0) s s'"
    if "try_fold (\<lambda>self (i, subsidy). pay_epoch self i subsidy) s xs = Ok s'" "sys_ok s" for xs and s s' :: "'a system_state"
    using that
  proof (induction xs arbitrary: s)
    case Nil
    then show ?case by (simp add: accounted_refl)
  next
    case (Cons x xs)
    obtain s1 where s1: "pay_epoch s (fst x) (snd x) = Ok s1" "try_fold (\<lambda>self (i, subsidy). pay_epoch self i subsidy) s1 xs = Ok s'"
      using Cons.prems(1) by (cases x) auto
    have a: "accounted (snd x) (\<lambda>_. 0) s s1" by (rule pay_epoch_accounted [OF Cons.prems(2) s1(1)])
    show ?case using accounted_trans [OF a Cons.IH [OF s1(2) accountedD(1) [OF a]]] by simp
  qed
  then show ?thesis using assms by (fastforce simp: add_per_epoch_subsidies_def)
qed

lemma certify_event_blob_accounted:
  assumes ok: "sys_ok s" and x: "certify_event_blob h oid eid eid' s cap bid rt len enc num e = Ok (s', cap', evs)"
  shows "\<exists>g. accounted 0 g s s'"
    "evs = [] \<or> (\<exists>st b b' ev ev'. evs = [ev, ev'] \<and> move_blob_new h oid eid st bid rt len enc False (sys_epoch s) (sys_n_shards s) = Ok (b, ev)
      \<and> certify_with_certified_msg eid' b (sys_epoch s) (certified_event_blob_message bid) = Ok (b', ev'))"
proof -
  consider "evs = []" "\<exists>ebs. s' = s\<lparr>event_blob_state := ebs\<rparr>"
    | ebs ebs' n s1 st b b' ev ev' where "reserve_space_without_payment (s\<lparr>event_blob_state := ebs\<rparr>) n 0 (max_epochs_ahead s) False = Ok (s1, st)"
      "move_blob_new h oid eid st bid rt len enc False (sys_epoch s1) (sys_n_shards s1) = Ok (b, ev)"
      "certify_with_certified_msg eid' b (sys_epoch s1) (certified_event_blob_message bid) = Ok (b', ev')"
      "s' = s1\<lparr>event_blob_state := ebs'\<rparr>" "evs = [ev, ev']"
  proof (cases "is_blob_already_certified (event_blob_state s) num")
    case True
    then have "evs = []" "s' = s\<lparr>event_blob_state := event_blob_state s\<rparr>" using x by (auto simp: certify_event_blob_def Let_def)
    then show ?thesis using that(1) by blast
  next
    case False
    obtain w ebs where u: "update_aggregate_weight (start_tracking_blob (event_blob_state s) bid num) bid num
        (get_member_weight (sys_committee s) (cap_node_id cap)) = Ok (w, ebs)"
      using x False by (simp add: certify_event_blob_def Let_def) blast
    show ?thesis
    proof (cases "is_quorum (sys_committee s) w")
      case q: True
      obtain n s1 st b b' ev ev' ebs' where "reserve_space_without_payment (s\<lparr>event_blob_state := ebs\<rparr>) n 0 (max_epochs_ahead s) False = Ok (s1, st)"
        "move_blob_new h oid eid st bid rt len enc False (sys_epoch s1) (sys_n_shards s1) = Ok (b, ev)"
        "certify_with_certified_msg eid' b (sys_epoch s1) (certified_event_blob_message bid) = Ok (b', ev')"
        "s' = s1\<lparr>event_blob_state := event_blob_reset ebs'\<rparr>" "evs = [ev, ev']"
        using x False q by (simp add: certify_event_blob_def Let_def u) blast
      then show ?thesis by (rule that(2))
    next
      case q: False
      have "evs = []" "s' = s\<lparr>event_blob_state := ebs\<rparr>" using x False q by (simp_all add: certify_event_blob_def Let_def u)
      then show ?thesis using that(1) by blast
    qed
  qed
  then have "(\<exists>g. accounted 0 g s s') \<and> (evs = [] \<or> (\<exists>st b b' ev ev'. evs = [ev, ev']
      \<and> move_blob_new h oid eid st bid rt len enc False (sys_epoch s) (sys_n_shards s) = Ok (b, ev)
      \<and> certify_with_certified_msg eid' b (sys_epoch s) (certified_event_blob_message bid) = Ok (b', ev')))"
  proof cases
    case 1
    then show ?thesis using accounted_update(1) [OF accounted_refl [OF ok]] by blast
  next
    case 2
    have "sys_ok (s\<lparr>event_blob_state := ebs\<rparr>)" using accounted_update(1) [OF accounted_refl [OF ok]] accountedD(1) by blast
    note A = reserve_without_payment_accounted(1) [OF this 2(1)]
    show ?thesis using accounted_update(1) [OF accounted_before [OF A]] accountedD(2) [OF A] 2 by auto
  qed
  then show "\<exists>g. accounted 0 g s s'"
    "evs = [] \<or> (\<exists>st b b' ev ev'. evs = [ev, ev'] \<and> move_blob_new h oid eid st bid rt len enc False (sys_epoch s) (sys_n_shards s) = Ok (b, ev)
      \<and> certify_with_certified_msg eid' b (sys_epoch s) (certified_event_blob_message bid) = Ok (b', ev'))" by blast+
qed

end
