(* ===== verification/EpochChange.thy ===== *)
theory EpochChange
  imports SystemAccounting
begin

text \<open>
  The epoch change on the side of the system contract: the burned share, the rewards of the nodes, the shift of the window of accounts
  (\<open>extract_burn_balance\<close> and \<open>advance_epoch\<close> of \<open>system_state_inner.move\<close>).
\<close>

subsection \<open>The rewards\<close>

definition reward_shares :: "nat list \<Rightarrow> nat \<Rightarrow> nat list" where
  "reward_shares stored r = map (\<lambda>x. x * r div max (sum_list stored) 1) stored"

lemma sum_div_le: "sum_list (map (\<lambda>x. f x div t) xs) \<le> sum_list (map f xs) div (t :: nat)"
proof (induction xs)
  case (Cons x xs)
  have "f x div t + sum_list (map f xs) div t \<le> (f x + sum_list (map f xs)) div t"
    by (cases "t = 0") (simp_all add: less_eq_div_iff_mult_less_eq add_mult_distrib add_mono)
  with Cons show ?case by simp
qed simp

lemma reward_shares_le: "sum_list (reward_shares stored r) \<le> r"
proof -
  have "sum_list (reward_shares stored r) \<le> sum_list (map (\<lambda>x. x * r) stored) div max (sum_list stored) 1"
    unfolding reward_shares_def by (rule sum_div_le)
  also have "sum_list (map (\<lambda>x. x * r) stored) = sum_list stored * r" by (induction stored) (simp_all add: algebra_simps)
  also have "sum_list stored * r div max (sum_list stored) 1 \<le> r" by (cases "sum_list stored = 0") (simp_all add: max_def)
  finally show ?thesis .
qed

definition split_share :: "nat \<Rightarrow> nat \<Rightarrow> nat list \<times> nat \<Rightarrow> nat \<Rightarrow> (nat list \<times> nat, move_abort) result" where
  "split_share t r = (\<lambda>(values, rest) stored.
      and_then (expect (checked U128_MAX (stored * r))) (\<lambda>x.
      and_then (expect (checked U64_MAX (x div max t 1))) (\<lambda>v.
      and_then (bal_split rest v) (\<lambda>rest. Ok (values @ [v], rest)))))"

lemma distribute_rewards_eq: "distribute_rewards stored r = and_then (usum U128_MAX stored) (\<lambda>t. try_fold (split_share t r) ([], r) stored)"
  by (simp add: distribute_rewards_def split_share_def)

lemma split_shares_Ok:
  assumes "try_fold (split_share t r) (vs, rest) xs = Ok (vs', rest')"
  shows "vs' = vs @ map (\<lambda>x. x * r div max t 1) xs" "rest' + sum_list (map (\<lambda>x. x * r div max t 1) xs) = rest"
proof -
  have "vs' = vs @ map (\<lambda>x. x * r div max t 1) xs \<and> rest' + sum_list (map (\<lambda>x. x * r div max t 1) xs) = rest"
    using assms
  proof (induction xs arbitrary: vs rest)
    case (Cons x xs)
    let ?v = "x * r div max t 1"
    have "?v \<le> rest" and t: "try_fold (split_share t r) (vs @ [?v], rest - ?v) xs = Ok (vs', rest')"
      using Cons.prems by (auto simp: split_share_def checked_def bal_split_def split: if_splits)
    have "rest' + sum_list (map (\<lambda>x. x * r div max t 1) xs) = rest - ?v" using Cons.IH [OF t] by blast
    with \<open>?v \<le> rest\<close> have "rest' + (?v + sum_list (map (\<lambda>x. x * r div max t 1) xs)) = rest" by linarith
    with Cons.IH [OF t] show ?case by simp
  qed simp
  then show "vs' = vs @ map (\<lambda>x. x * r div max t 1) xs" "rest' + sum_list (map (\<lambda>x. x * r div max t 1) xs) = rest" by simp_all
qed

lemma split_shares_defined:
  assumes "list_all (\<lambda>x. x * r \<le> U128_MAX) xs" "sum_list (map (\<lambda>x. x * r div max t 1) xs) \<le> rest" "rest \<le> U64_MAX"
  shows "\<exists>y. try_fold (split_share t r) (vs, rest) xs = Ok y"
  using assms
proof (induction xs arbitrary: vs rest)
  case (Cons x xs)
  let ?v = "x * r div max t 1"
  have "sum_list (map (\<lambda>x. x * r div max t 1) xs) \<le> rest - ?v" "rest - ?v \<le> U64_MAX" "list_all (\<lambda>x. x * r \<le> U128_MAX) xs"
    and v: "?v \<le> rest" "?v \<le> U64_MAX" "x * r \<le> U128_MAX" using Cons.prems by (auto simp del: max.bounded_iff)
  from Cons.IH [OF this(3) this(1) this(2), of "vs @ [?v]"] v show ?case by (simp add: split_share_def checked_def bal_split_def)
qed simp

lemma distribute_rewards_Ok:
  assumes "distribute_rewards stored r = Ok (vs, rest)"
  shows "vs = reward_shares stored r" "rest + sum_list vs = r"
proof -
  have t: "try_fold (split_share (sum_list stored) r) ([], r) stored = Ok (vs, rest)"
    using assms by (auto simp: distribute_rewards_eq dest: usum_eq_Ok)
  show "vs = reward_shares stored r" "rest + sum_list vs = r" using split_shares_Ok [OF t] by (simp_all add: reward_shares_def)
qed

lemma member_le_sum: "x \<in> set xs \<Longrightarrow> x \<le> sum_list (xs :: nat list)"
  by (simp add: member_le_sum_list)

lemma distribute_rewards_defined:
  assumes "sum_list stored * r \<le> U128_MAX" "sum_list stored \<le> U128_MAX" "r \<le> U64_MAX"
  shows "distribute_rewards stored r = Ok (reward_shares stored r, r - sum_list (reward_shares stored r))"
proof -
  have "x * r \<le> U128_MAX" if "x \<in> set stored" for x
    using mult_le_mono1 [OF member_le_sum [OF that]] assms(1) order_trans by blast
  then have l: "list_all (\<lambda>x. x * r \<le> U128_MAX) stored" by (simp add: list_all_iff)
  obtain vs rest where d: "distribute_rewards stored r = Ok (vs, rest)"
    using split_shares_defined [OF l, of "sum_list stored" r "[]"] reward_shares_le [of stored r] assms(2,3)
    by (auto simp: distribute_rewards_eq usum_Ok reward_shares_def)
  from distribute_rewards_Ok [OF d] d show ?thesis by auto
qed

subsection \<open>The burned share\<close>

lemma extract_burn_accounted:
  assumes ok: "sys_ok s" and x: "extract_burn_balance s = Ok (b, s')"
  shows "sys_ok s'" "same_frame s s'" "used s' = used s" "b = rewards s ! 0 * 3 div 100" "sum_list (rewards s') + b = sum_list (rewards s)"
    "rewards s' = (rewards s)[0 := rewards s ! 0 - b]" "deny_list_sizes s' = deny_list_sizes s"
proof -
  obtain r where r: "ring_extract_burn_balance (accounting s) = Ok (b, r)" and s': "s' = s\<lparr>accounting := r\<rparr>"
    using x by (auto simp: extract_burn_balance_def)
  note R = ring_extract_burn_balance_Ok [OF sys_okD [OF ok] r]
  have n: "0 < length (ring_list (accounting s))" using ring_length_pos [OF sys_okD [OF ok]] length_ring_list [OF sys_okD [OF ok]] by simp
  have u: "used s' = used s" using n by (simp add: s' used_def R(2) map_update list_update_same_conv)
  show "used s' = used s" by fact
  show rs: "rewards s' = (rewards s)[0 := rewards s ! 0 - b]" using n by (simp add: s' rewards_def R(2) map_update)
  show "b = rewards s ! 0 * 3 div 100" using R(1) n by (simp add: rewards_def)
  have b: "b \<le> rewards s ! 0" using R(3) n by (simp add: rewards_def)
  have l: "0 < length (rewards s)" using n by (simp add: rewards_def)
  have "rewards s ! 0 \<le> sum_list (rewards s)" using l by (simp add: member_le_sum)
  then show "sum_list (rewards s') + b = sum_list (rewards s)" unfolding rs using l b by (simp add: sum_list_update)
  show "sys_ok s'" using ok R(4) u by (simp add: sys_ok_def s')
  show "same_frame s s'" by (simp add: same_frame_def s' R(5))
  show "deny_list_sizes s' = deny_list_sizes s" by (simp add: s')
qed

lemma extract_burn_defined:
  assumes ok: "sys_ok s" and u: "sum_list (rewards s) * 3 \<le> U64_MAX"
  shows "\<exists>b s'. extract_burn_balance s = Ok (b, s')"
proof -
  let ?r = "accounting s"
  let ?a = "ring_buffer ?r ! current_index ?r"
  have k: "current_index ?r < length (ring_buffer ?r)" using sys_okD [OF ok] by (simp add: ring_ok_def)
  then have "?a \<in> set (ring_list ?r)" by (simp add: ring_list_def)
  then have "fa_rewards ?a \<in> set (rewards s)" by (simp add: rewards_def)
  then have "fa_rewards ?a * 3 \<le> U64_MAX" using member_le_sum u by fastforce
  then show ?thesis using k by (simp add: extract_burn_balance_def ring_extract_burn_balance_def vec_get_def checked_def bal_split_def Let_def)
qed

subsection \<open>The next epoch\<close>

lemma to_vec_map_eq:
  "to_vec_map c = vm_from_entries (map (\<lambda>m. (bls_node_id m, weight m)) (bls_members c))"
  by (simp add: to_vec_map_def vm_from_entries_def try_fold_map)

lemma vm_from_entries_eq_Ok:
  assumes "vm_from_entries es = Ok m"
  shows "m = es" "distinct (map fst es)"
proof -
  have "try_fold (\<lambda>m (k, v). vm_insert m k v) a es = Ok m \<Longrightarrow> distinct (map fst a) \<Longrightarrow> m = a @ es \<and> distinct (map fst (a @ es))" for a
  proof (induction es arbitrary: a)
    case (Cons e es)
    then have t: "try_fold (\<lambda>m (k, v). vm_insert m k v) (a @ [e]) es = Ok m" and "fst e \<notin> fst ` set a"
      by (cases e; simp add: vm_insert_def split: if_splits)+
    with Cons.IH [OF t] Cons.prems(2) show ?case by simp
  qed simp
  from this [of "[]"] assms show "m = es" "distinct (map fst es)" by (auto simp: vm_from_entries_def)
qed

definition entries :: "'k bls_committee \<Rightarrow> nat vec_map" where
  "entries c = map (\<lambda>m. (bls_node_id m, weight m)) (bls_members c)"

text \<open>What the nodes of the old committee stored.\<close>

definition stored :: "('k :: ab_group_add) system_state \<Rightarrow> nat list" where
  "stored s = map (stored_weighted (deny_list_sizes s) (used s ! 0)) (entries (sys_committee s))"

lemma ring_pop_expand_bound:
  assumes "ring_ok now r" "ring_pop_expand r = Ok y"
  shows "now + ring_length r \<le> U32_MAX"
proof -
  have k: "current_index r < length (ring_buffer r)" "0 < ring_length r" using assms(1) by (auto simp: ring_ok_def)
  have "hd (map fa_epoch (ring_list r)) = now" using assms(1) by (simp add: ring_ok_def)
  then have "fa_epoch (ring_buffer r ! current_index r) = now"
    using k hd_rotate_conv_nth [of "ring_buffer r" "current_index r"] by (cases "ring_buffer r = []"; cases "ring_list r") (auto simp: ring_list_def)
  then show ?thesis using assms(2) k by (auto simp: ring_pop_expand_def vec_get_def uadd_def checked_def split: if_splits)
qed

text \<open>The state after the window has moved, before the leftover rewards are added.\<close>

definition shifted :: "'k system_state \<Rightarrow> future_accounting_ring_buffer \<Rightarrow> 'k bls_committee \<Rightarrow> epoch_params \<Rightarrow> 'k system_state" where
  "shifted s r c ep = s\<lparr>sys_committee := c, accounting := r, event_blob_state := event_blob_reset (event_blob_state s),
     used_capacity_size := fa_used_capacity (ring_list r ! 0),
     total_capacity_size := max (ep_total_capacity_size ep) (fa_used_capacity (ring_list r ! 0))\<rparr>"

lemma shift_facts:
  assumes ok: "sys_ok s" and e: "sys_epoch s + max_epochs_ahead s \<le> U32_MAX" and c: "committee_wf c" "bls_epoch c = Suc (sys_epoch s)"
  obtains r where "ring_pop_expand (accounting s) = Ok (hd (ring_list (accounting s)), r)" "sys_ok (shifted s r c ep)"
    "rewards (shifted s r c ep) = tl (rewards s) @ [0]" "used (shifted s r c ep) = tl (used s) @ [0]" "ring_ok (Suc (sys_epoch s)) r"
    "ring_length r = max_epochs_ahead s"
proof -
  obtain r where r: "ring_pop_expand (accounting s) = Ok (hd (ring_list (accounting s)), r)"
      "ring_list r = tl (ring_list (accounting s)) @ [\<lparr>fa_epoch = sys_epoch s + max_epochs_ahead s, fa_used_capacity = 0, fa_rewards = 0\<rparr>]"
      "ring_ok (Suc (sys_epoch s)) r" "ring_length r = max_epochs_ahead s"
    using ring_pop_expand_eq [OF sys_okD [OF ok] e] by blast
  have n: "0 < length (ring_list r)" by (simp add: r(2))
  have "sys_ok (shifted s r c ep)" using r(3) c n by (simp add: sys_ok_def shifted_def used_def)
  moreover have "rewards (shifted s r c ep) = tl (rewards s) @ [0]" "used (shifted s r c ep) = tl (used s) @ [0]"
    by (simp_all add: rewards_def used_def shifted_def r(2) map_tl)
  ultimately show ?thesis using that r by blast
qed

lemma first_account:
  assumes ok: "sys_ok s"
  shows "fa_rewards (hd (ring_list (accounting s))) = rewards s ! 0" "fa_used_capacity (hd (ring_list (accounting s))) = used s ! 0"
    "fa_epoch (hd (ring_list (accounting s))) = sys_epoch s" "rewards s \<noteq> []" "used s \<noteq> []"
proof -
  have n: "ring_list (accounting s) \<noteq> []" using ring_length_pos [OF sys_okD [OF ok]] length_ring_list [OF sys_okD [OF ok]] by auto
  show "fa_rewards (hd (ring_list (accounting s))) = rewards s ! 0" "fa_used_capacity (hd (ring_list (accounting s))) = used s ! 0"
    "rewards s \<noteq> []" "used s \<noteq> []"
    using n by (simp_all add: rewards_def used_def hd_conv_nth)
  have "hd (map fa_epoch (ring_list (accounting s))) = sys_epoch s"
    using sys_okD [OF ok] ring_length_pos [OF sys_okD [OF ok]] by (simp add: ring_ok_def)
  then show "fa_epoch (hd (ring_list (accounting s))) = sys_epoch s" using n by (simp add: hd_map)
qed

text \<open>The whole of \<open>advance_epoch\<close> in terms of the window.\<close>

lemma advance_epoch_eq:
  assumes ok: "sys_ok s" and e: "sys_epoch s + max_epochs_ahead s \<le> U32_MAX" and c: "committee_wf c" "bls_epoch c = Suc (sys_epoch s)"
  shows "\<exists>s1. sys_ok s1 \<and> sys_committee s1 = c \<and> max_epochs_ahead s1 = max_epochs_ahead s \<and> rewards s1 = tl (rewards s) @ [0] \<and> used s1 = tl (used s) @ [0]
    \<and> used s1 ! 0 \<le> total_capacity_size s1
    \<and> advance_epoch s c ep =
      and_then (to_vec_map (sys_committee s)) (\<lambda>weights.
      and_then (distribute_rewards (map (stored_weighted (deny_list_sizes s) (used s ! 0)) weights) (rewards s ! 0)) (\<lambda>(vs, rest).
      and_then (pay_epoch s1 0 rest) (\<lambda>s'.
      and_then (vm_from_entries (zip (map fst weights) vs)) (\<lambda>rewards. Ok (rewards, s')))))"
proof -
  obtain r where r: "ring_pop_expand (accounting s) = Ok (hd (ring_list (accounting s)), r)" "sys_ok (shifted s r c ep)"
    "rewards (shifted s r c ep) = tl (rewards s) @ [0]" "used (shifted s r c ep) = tl (used s) @ [0]" "ring_ok (Suc (sys_epoch s)) r"
    "ring_length r = max_epochs_ahead s"
    by (rule shift_facts [OF ok e c])
  note f = first_account [OF ok] ring_length_pos [OF sys_okD [OF ok]]
  let ?s = "shifted s r c ep"
  have u: "uadd U32_MAX (sys_epoch s) (Suc 0) = Ok (Suc (sys_epoch s))" using e f(6) by (simp add: uadd_def)
  have "advance_epoch s c ep = and_then (to_vec_map (sys_committee s)) (\<lambda>weights.
      and_then (distribute_rewards (map (stored_weighted (deny_list_sizes ?s) (used s ! 0)) weights) (rewards s ! 0)) (\<lambda>(vs, rest).
      and_then (pay_epoch ?s 0 rest) (\<lambda>s'.
      and_then (vm_from_entries (zip (map fst weights) vs)) (\<lambda>rewards. Ok (rewards, s')))))"
    using c(2) f(6) by (simp add: advance_epoch_def Let_def u r(1,6) f(1-3) ring_lookup_eq [OF r(5)] shifted_def)
  moreover have "used ?s ! 0 \<le> total_capacity_size ?s" "sys_committee ?s = c" "max_epochs_ahead ?s = max_epochs_ahead s" "deny_list_sizes ?s = deny_list_sizes s"
    using r(2) r(6) by (simp_all add: sys_ok_def shifted_def)
  ultimately show ?thesis using r(2-4) by (intro exI [of _ ?s]) simp
qed

lemma advance_epoch_accounted:
  assumes ok: "sys_ok s" and c: "committee_wf c" and x: "advance_epoch s c ep = Ok (rw, s')"
  shows "sys_ok s'" "sys_committee s' = c" "bls_epoch c = Suc (sys_epoch s)" "max_epochs_ahead s' = max_epochs_ahead s"
    "used s' = tl (used s) @ [0]" "used s' ! 0 \<le> total_capacity_size s'"
    "sum_list (rewards s') + sum_list (map snd rw) = sum_list (rewards s)"
    "rw = zip (map bls_node_id (bls_members (sys_committee s))) (reward_shares (stored s) (rewards s ! 0))"
proof -
  have e: "sys_epoch s + max_epochs_ahead s \<le> U32_MAX" and ce: "bls_epoch c = Suc (sys_epoch s)"
    using x ring_pop_expand_bound [OF sys_okD [OF ok]] by (auto simp: advance_epoch_def Let_def uadd_def checked_def split: if_splits)
  obtain s1 where s1: "sys_ok s1" "sys_committee s1 = c" "max_epochs_ahead s1 = max_epochs_ahead s" "rewards s1 = tl (rewards s) @ [0]"
      "used s1 = tl (used s) @ [0]" "used s1 ! 0 \<le> total_capacity_size s1"
    and q: "advance_epoch s c ep =
      and_then (to_vec_map (sys_committee s)) (\<lambda>weights.
      and_then (distribute_rewards (map (stored_weighted (deny_list_sizes s) (used s ! 0)) weights) (rewards s ! 0)) (\<lambda>(vs, rest).
      and_then (pay_epoch s1 0 rest) (\<lambda>s'.
      and_then (vm_from_entries (zip (map fst weights) vs)) (\<lambda>rewards. Ok (rewards, s')))))"
    using advance_epoch_eq [OF ok e c ce, of ep] by (elim exE conjE) (rule that)
  obtain w vs rest where w: "to_vec_map (sys_committee s) = Ok w"
    and d: "distribute_rewards (map (stored_weighted (deny_list_sizes s) (used s ! 0)) w) (rewards s ! 0) = Ok (vs, rest)"
    and p: "pay_epoch s1 0 rest = Ok s'" and z: "vm_from_entries (zip (map fst w) vs) = Ok rw"
    using x unfolding q by auto
  have w': "w = entries (sys_committee s)" using vm_from_entries_eq_Ok(1) [OF w [unfolded to_vec_map_eq]] by (simp add: entries_def)
  note D = distribute_rewards_Ok [OF d]
  have l: "length vs = length w" by (simp add: D(1) reward_shares_def)
  have rw: "rw = zip (map fst w) vs" by (rule vm_from_entries_eq_Ok(1) [OF z])
  note A = pay_epoch_accounted [OF s1(1) p]
  note F = accountedD [OF A]
  show "sys_ok s'" "bls_epoch c = Suc (sys_epoch s)" by fact+
  show "sys_committee s' = c" "max_epochs_ahead s' = max_epochs_ahead s" using F s1 by simp_all
  have u: "used s' = used s1" using A length_accounts(2) [OF F(1)] length_accounts(2) [OF s1(1)] F(3)
    by (intro nth_equalityI) (auto simp: accounted_def)
  show "used s' = tl (used s) @ [0]" "used s' ! 0 \<le> total_capacity_size s'" using u s1 F by simp_all
  show "rw = zip (map bls_node_id (bls_members (sys_committee s))) (reward_shares (stored s) (rewards s ! 0))"
    by (simp add: rw D(1) stored_def w' entries_def comp_def)
  have "sum_list (rewards s') = sum_list (tl (rewards s)) + rest" using A s1(4) by (simp add: accounted_def)
  moreover have "sum_list (rewards s) = rewards s ! 0 + sum_list (tl (rewards s))"
    using first_account(4) [OF ok] by (cases "rewards s") simp_all
  ultimately show "sum_list (rewards s') + sum_list (map snd rw) = sum_list (rewards s)" using D(2) l by (simp add: rw)
qed

lemma sum_stored_le: "committee_wf (sys_committee s) \<Longrightarrow> sum_list (stored s) \<le> sys_n_shards s * used s ! 0"
proof -
  have "sum_list (map (stored_weighted d u) (map (\<lambda>m. (bls_node_id m, weight m)) ms)) \<le> sum_list (map weight ms) * u" for d u ms
    by (induction ms) (auto simp: stored_weighted_def algebra_simps intro: add_mono)
  then show "committee_wf (sys_committee s) \<Longrightarrow> sum_list (stored s) \<le> sys_n_shards s * used s ! 0"
    by (simp add: stored_def entries_def committee_wf_def)
qed

lemma advance_epoch_defined:
  assumes ok: "sys_ok s" and c: "committee_wf c" "bls_epoch c = Suc (sys_epoch s)" and e: "sys_epoch s + max_epochs_ahead s \<le> U32_MAX"
    and d: "distinct (map bls_node_id (bls_members (sys_committee s)))"
    and r: "sum_list (rewards s) \<le> U64_MAX" "sys_n_shards s * used s ! 0 * rewards s ! 0 \<le> U128_MAX" "used s ! 0 \<le> U64_MAX"
  shows "\<exists>rw s'. advance_epoch s c ep = Ok (rw, s')"
proof -
  obtain s1 where s1: "sys_ok s1" "sys_committee s1 = c" "max_epochs_ahead s1 = max_epochs_ahead s" "rewards s1 = tl (rewards s) @ [0]"
    and q: "advance_epoch s c ep =
      and_then (to_vec_map (sys_committee s)) (\<lambda>weights.
      and_then (distribute_rewards (map (stored_weighted (deny_list_sizes s) (used s ! 0)) weights) (rewards s ! 0)) (\<lambda>(vs, rest).
      and_then (pay_epoch s1 0 rest) (\<lambda>s'.
      and_then (vm_from_entries (zip (map fst weights) vs)) (\<lambda>rewards. Ok (rewards, s')))))"
    using advance_epoch_eq [OF ok e c, of ep] by (elim exE conjE) (rule that)
  let ?e = "entries (sys_committee s)" and ?R = "rewards s ! 0"
  have ids: "map fst ?e = map bls_node_id (bls_members (sys_committee s))" by (simp add: entries_def comp_def)
  have w: "to_vec_map (sys_committee s) = Ok ?e"
    using d vm_from_entries_Ok [of ?e] by (simp add: to_vec_map_eq vm_ok_def ids flip: entries_def)
  have wf: "committee_wf (sys_committee s)" using ok by (simp add: sys_ok_def)
  have n: "sys_n_shards s \<le> U16_MAX" using wf by (simp add: committee_wf_def)
  have "sum_list (stored s) * ?R \<le> U128_MAX" using mult_le_mono1 [OF sum_stored_le [OF wf]] r(2) order_trans by blast
  moreover have "sum_list (stored s) \<le> U16_MAX * U64_MAX" using sum_stored_le [OF wf] mult_le_mono [OF n r(3)] order_trans by blast
  then have "sum_list (stored s) \<le> U128_MAX" by (rule order_trans) simp
  moreover have R: "?R \<le> sum_list (rewards s)" using first_account(4) [OF ok] by (simp add: member_le_sum)
  then have "?R \<le> U64_MAX" using r(1) by simp
  ultimately have D: "distribute_rewards (stored s) ?R = Ok (reward_shares (stored s) ?R, ?R - sum_list (reward_shares (stored s) ?R))"
    by (rule distribute_rewards_defined)
  have len: "length (map fst ?e) = length (reward_shares (stored s) ?R)" by (simp add: reward_shares_def stored_def)
  have z: "vm_from_entries (zip (map fst ?e) (reward_shares (stored s) ?R)) = Ok (zip (map fst ?e) (reward_shares (stored s) ?R))"
    using d by (intro vm_from_entries_Ok) (simp only: vm_ok_def map_fst_zip [OF len [unfolded ids]] ids)
  have "rewards s1 ! 0 \<le> sum_list (rewards s1)" using first_account(4) [OF s1(1)] by (simp add: member_le_sum)
  moreover have "sum_list (rewards s) = ?R + sum_list (rewards s1)" using first_account(4) [OF ok] by (cases "rewards s") (simp_all add: s1(4))
  ultimately have "rewards s1 ! 0 + (?R - sum_list (reward_shares (stored s) ?R)) \<le> U64_MAX" using r(1) by linarith
  then obtain s' where p: "pay_epoch s1 0 (?R - sum_list (reward_shares (stored s) ?R)) = Ok s'"
    using pay_epoch_defined [OF s1(1), of 0] ring_length_pos [OF sys_okD [OF s1(1)]] by blast
  show ?thesis unfolding q w using D z p by (simp flip: stored_def)
qed

end
