(* ===== verification/ContractWorld.thy ===== *)
theory ContractWorld
  imports EpochChange "HOL-Library.Multiset"
begin

text \<open>
  The system contract together with all the objects it gave out: storage resources, blobs and storage pools in the hands of users. A
  transaction calls one of the public functions of \<open>system.move\<close>, \<open>storage_resource.move\<close>, \<open>blob.move\<close> or \<open>storage_pool.move\<close> with
  objects that exist; a call that aborts changes nothing. The transactions are a step relation labelled with the events they emit.
  Deny-listed blobs, which the storage node does not handle, and the upgrade of the protocol version are left out.
\<close>

subsection \<open>Worlds and transactions\<close>

text \<open>\<open>w_ids\<close> holds the IDs of all objects created so far, \<open>w_paid\<close> the coins paid to the system and \<open>w_paid_out\<close> those that left it.\<close>

record 'k world =
  w_system :: "'k system_state"
  w_storages :: "storage multiset"
  w_blobs :: "(object_id, move_blob) mapping"
  w_pools :: "(object_id, storage_pool) mapping"
  w_ids :: "object_id set"
  w_paid :: nat
  w_paid_out :: nat

type_synonym contract_event = "blob_event + storage_pool_event"

text \<open>The transactions, with \<open>n\<close> shards in every committee, a hash function and a check of aggregated signatures.\<close>

inductive transaction ::
  "nat \<Rightarrow> hash_fun \<Rightarrow> (bytes \<Rightarrow> 'k \<Rightarrow> bytes \<Rightarrow> bool) \<Rightarrow> ('k :: ab_group_add) world \<Rightarrow> contract_event list \<Rightarrow> 'k world \<Rightarrow> bool" for n h V where
  reserve: "reserve_space_for_epochs (w_system w) amount a b coin = Ok (s, st, coin') \<Longrightarrow>
    transaction n h V w [] (w\<lparr>w_system := s, w_storages := add_mset st (w_storages w), w_paid := w_paid w + (coin - coin')\<rparr>)"
| reserve_ahead: "reserve_space (w_system w) amount k coin = Ok (s, st, coin') \<Longrightarrow>
    transaction n h V w [] (w\<lparr>w_system := s, w_storages := add_mset st (w_storages w), w_paid := w_paid w + (coin - coin')\<rparr>)"
| split_epoch: "w_storages w = add_mset st S \<Longrightarrow> split_by_epoch st k = Ok (a, b) \<Longrightarrow>
    transaction n h V w [] (w\<lparr>w_storages := add_mset a (add_mset b S)\<rparr>)"
| split_size: "w_storages w = add_mset st S \<Longrightarrow> split_by_size st k = Ok (a, b) \<Longrightarrow>
    transaction n h V w [] (w\<lparr>w_storages := add_mset a (add_mset b S)\<rparr>)"
| fuse: "w_storages w = add_mset a (add_mset b S) \<Longrightarrow> fuse_periods a b = Ok st \<or> fuse_amount a b = Ok st \<or> fuse a b = Ok st \<Longrightarrow>
    transaction n h V w [] (w\<lparr>w_storages := add_mset st S\<rparr>)"
| destroy: "w_storages w = add_mset st S \<Longrightarrow> transaction n h V w [] (w\<lparr>w_storages := S\<rparr>)"
| register: "w_storages w = add_mset st S \<Longrightarrow> i \<notin> w_ids w \<Longrightarrow>
    register_blob h i eid (w_system w) st bid rt len enc del coin = Ok (s, b, coin', ev) \<Longrightarrow>
    transaction n h V w [Inl ev] (w\<lparr>w_system := s, w_storages := S, w_blobs := Mapping.update i b (w_blobs w), w_ids := insert i (w_ids w),
      w_paid := w_paid w + (coin - coin')\<rparr>)"
| certify: "Mapping.lookup (w_blobs w) i = Some b \<Longrightarrow> certify_blob V eid (w_system w) b sig bitmap msg = Ok (b', ev) \<Longrightarrow>
    transaction n h V w [Inl ev] (w\<lparr>w_blobs := Mapping.update i b' (w_blobs w)\<rparr>)"
| delete: "Mapping.lookup (w_blobs w) i = Some b \<Longrightarrow> delete_blob eid (w_system w) b = Ok (st, ev) \<Longrightarrow>
    transaction n h V w [Inl ev] (w\<lparr>w_storages := add_mset st (w_storages w), w_blobs := Mapping.delete i (w_blobs w)\<rparr>)"
| burn: "Mapping.lookup (w_blobs w) i = Some b \<Longrightarrow> transaction n h V w [] (w\<lparr>w_blobs := Mapping.delete i (w_blobs w)\<rparr>)"
| extend: "Mapping.lookup (w_blobs w) i = Some b \<Longrightarrow> extend_blob eid (w_system w) b k coin = Ok (s, b', coin', ev) \<Longrightarrow>
    transaction n h V w [Inl ev] (w\<lparr>w_system := s, w_blobs := Mapping.update i b' (w_blobs w), w_paid := w_paid w + (coin - coin')\<rparr>)"
| extend_resource: "Mapping.lookup (w_blobs w) i = Some b \<Longrightarrow> w_storages w = add_mset st S \<Longrightarrow>
    extend_blob_with_resource eid (w_system w) b st = Ok (b', ev) \<Longrightarrow>
    transaction n h V w [Inl ev] (w\<lparr>w_storages := S, w_blobs := Mapping.update i b' (w_blobs w)\<rparr>)"
| event_blob: "i \<notin> w_ids w \<Longrightarrow> certify_event_blob h i eid eid' (w_system w) cap bid rt len enc num e = Ok (s, cap', evs) \<Longrightarrow>
    transaction n h V w (map Inl evs) (w\<lparr>w_system := s, w_ids := insert i (w_ids w)\<rparr>)"
| invalidate: "invalidate_blob_id V eid (w_system w) sig bitmap msg = Ok ev \<Longrightarrow> transaction n h V w [Inl ev] w"
| subsidy: "add_subsidy (w_system w) a k = Ok s \<Longrightarrow> transaction n h V w [] (w\<lparr>w_system := s, w_paid := w_paid w + a\<rparr>)"
| subsidies: "add_per_epoch_subsidies (w_system w) as = Ok s \<Longrightarrow>
    transaction n h V w [] (w\<lparr>w_system := s, w_paid := w_paid w + sum_list as\<rparr>)"
| storage_price: "transaction n h V w [] (w\<lparr>w_system := set_storage_price (w_system w) price\<rparr>)"
| write_price: "transaction n h V w [] (w\<lparr>w_system := set_write_price (w_system w) price\<rparr>)"
| deny_list: "update_deny_list V (w_system w) cap sig bitmap msg = Ok (s, cap', dev) \<Longrightarrow> transaction n h V w [] (w\<lparr>w_system := s\<rparr>)"
| create_pool: "i \<notin> w_ids w \<Longrightarrow> create_storage_pool i eid (w_system w) amount k coin = Ok (s, p, coin', ev) \<Longrightarrow>
    transaction n h V w [Inr ev] (w\<lparr>w_system := s, w_pools := Mapping.update i p (w_pools w), w_ids := insert i (w_ids w),
      w_paid := w_paid w + (coin - coin')\<rparr>)"
| create_pool_with: "w_storages w = add_mset st S \<Longrightarrow> i \<notin> w_ids w \<Longrightarrow> create_storage_pool_with_storage i eid (w_system w) st = Ok (p, ev) \<Longrightarrow>
    transaction n h V w [Inr ev] (w\<lparr>w_storages := S, w_pools := Mapping.update i p (w_pools w), w_ids := insert i (w_ids w)\<rparr>)"
| register_pooled: "Mapping.lookup (w_pools w) i = Some p \<Longrightarrow> j \<notin> w_ids w \<Longrightarrow>
    register_pooled_blob h j eid (w_system w) p bid rt len enc del coin = Ok (s, p', coin', ev) \<Longrightarrow>
    transaction n h V w [Inl ev] (w\<lparr>w_system := s, w_pools := Mapping.update i p' (w_pools w), w_ids := insert j (w_ids w),
      w_paid := w_paid w + (coin - coin')\<rparr>)"
| certify_pooled: "Mapping.lookup (w_pools w) i = Some p \<Longrightarrow> certify_pooled_blob V eid (w_system w) p bid sig bitmap msg = Ok (p', ev) \<Longrightarrow>
    transaction n h V w [Inl ev] (w\<lparr>w_pools := Mapping.update i p' (w_pools w)\<rparr>)"
| delete_pooled: "Mapping.lookup (w_pools w) i = Some p \<Longrightarrow> delete_pooled_blob eid (w_system w) p bid = Ok (p', ev) \<Longrightarrow>
    transaction n h V w [Inl ev] (w\<lparr>w_pools := Mapping.update i p' (w_pools w)\<rparr>)"
| burn_pooled: "Mapping.lookup (w_pools w) i = Some p \<Longrightarrow> burn_expired_pooled_blob (w_system w) p bid = Ok p' \<Longrightarrow>
    transaction n h V w [] (w\<lparr>w_pools := Mapping.update i p' (w_pools w)\<rparr>)"
| extend_pool: "Mapping.lookup (w_pools w) i = Some p \<Longrightarrow> extend_storage_pool eid (w_system w) p k coin = Ok (s, p', coin', ev) \<Longrightarrow>
    transaction n h V w [Inr ev] (w\<lparr>w_system := s, w_pools := Mapping.update i p' (w_pools w), w_paid := w_paid w + (coin - coin')\<rparr>)"
| increase_pool: "Mapping.lookup (w_pools w) i = Some p \<Longrightarrow> increase_storage_pool_capacity (w_system w) p k coin = Ok (s, p', coin') \<Longrightarrow>
    transaction n h V w [] (w\<lparr>w_system := s, w_pools := Mapping.update i p' (w_pools w), w_paid := w_paid w + (coin - coin')\<rparr>)"
| increase_pool_with: "Mapping.lookup (w_pools w) i = Some p \<Longrightarrow> w_storages w = add_mset st S \<Longrightarrow>
    increase_storage_pool_capacity_with_storage (w_system w) p st = Ok p' \<Longrightarrow>
    transaction n h V w [] (w\<lparr>w_storages := S, w_pools := Mapping.update i p' (w_pools w)\<rparr>)"
| decrease_pool: "Mapping.lookup (w_pools w) i = Some p \<Longrightarrow>
    decrease_storage_pool_capacity_by_size (w_system w) p k = Ok (x, p') \<or>
    decrease_storage_pool_unused_capacity_by_percent (w_system w) p k = Ok (x, p') \<Longrightarrow>
    transaction n h V w [] (w\<lparr>w_storages := w_storages w + (case x of None \<Rightarrow> {#} | Some st \<Rightarrow> {#st#}), w_pools := Mapping.update i p' (w_pools w)\<rparr>)"
| destroy_pool: "Mapping.lookup (w_pools w) i = Some p \<Longrightarrow> pool_destroy p = Ok st \<Longrightarrow>
    transaction n h V w [] (w\<lparr>w_storages := add_mset st (w_storages w), w_pools := Mapping.delete i (w_pools w)\<rparr>)"
| epoch_change: "committee_wf c \<Longrightarrow> bls_n_shards c = n \<Longrightarrow> extract_burn_balance (w_system w) = Ok (b, s) \<Longrightarrow>
    advance_epoch s c params = Ok (rw, s') \<Longrightarrow>
    transaction n h V w [] (w\<lparr>w_system := s', w_paid_out := w_paid_out w + b + sum_list (map snd rw)\<rparr>)"

subsection \<open>The invariant\<close>

text \<open>The bytes that storage resources, blobs and pools reserve in an epoch.\<close>

definition reserved_by :: "storage multiset \<Rightarrow> (object_id, move_blob) mapping \<Rightarrow> (object_id, storage_pool) mapping \<Rightarrow> epoch \<Rightarrow> nat" where
  "reserved_by S B P e = (\<Sum>st\<in>#S. reserved st e) + msum (\<lambda>b. reserved (mb_storage b) e) B + msum (\<lambda>p. reserved (pl_storage p) e) P"

definition resource_ok :: "'k system_state \<Rightarrow> storage \<Rightarrow> bool" where
  "resource_ok s st \<longleftrightarrow> storage_ok st \<and> st_end_epoch st \<le> sys_epoch s + max_epochs_ahead s"

definition blob_ok :: "'k system_state \<Rightarrow> object_id set \<Rightarrow> object_id \<Rightarrow> move_blob \<Rightarrow> bool" where
  "blob_ok s I i b \<longleftrightarrow> resource_ok s (mb_storage b) \<and> mb_id b = i \<and> i \<in> I"

definition pool_in :: "nat \<Rightarrow> 'k system_state \<Rightarrow> object_id set \<Rightarrow> object_id \<Rightarrow> storage_pool \<Rightarrow> bool" where
  "pool_in n s I i p \<longleftrightarrow> pool_ok n p \<and> resource_ok s (pl_storage p) \<and> st_start_epoch (pl_storage p) \<le> sys_epoch s \<and> pl_id p = i \<and> i \<in> I"

definition objects_ok :: "nat \<Rightarrow> 'k system_state \<Rightarrow> storage multiset \<Rightarrow> (object_id, move_blob) mapping \<Rightarrow> (object_id, storage_pool) mapping \<Rightarrow> object_id set \<Rightarrow> bool" where
  "objects_ok n s S B P I \<longleftrightarrow> finite (Mapping.keys B) \<and> finite (Mapping.keys P) \<and> (\<forall>st. st \<in># S \<longrightarrow> resource_ok s st)
    \<and> (\<forall>i b. Mapping.lookup B i = Some b \<longrightarrow> blob_ok s I i b) \<and> (\<forall>i p. Mapping.lookup P i = Some p \<longrightarrow> pool_in n s I i p)"

definition backed :: "('k :: ab_group_add) system_state \<Rightarrow> storage multiset \<Rightarrow> (object_id, move_blob) mapping \<Rightarrow> (object_id, storage_pool) mapping \<Rightarrow> bool" where
  "backed s S B P \<longleftrightarrow> (\<forall>j<max_epochs_ahead s. reserved_by S B P (sys_epoch s + j) \<le> used s ! j)"

definition world_ok :: "nat \<Rightarrow> ('k :: ab_group_add) world \<Rightarrow> bool" where
  "world_ok n w \<longleftrightarrow> sys_ok (w_system w) \<and> sys_n_shards (w_system w) = n
    \<and> objects_ok n (w_system w) (w_storages w) (w_blobs w) (w_pools w) (w_ids w) \<and> backed (w_system w) (w_storages w) (w_blobs w) (w_pools w)
    \<and> w_paid w = sum_list (rewards (w_system w)) + w_paid_out w"

lemma world_okD:
  assumes "world_ok n w"
  shows "sys_ok (w_system w)" "sys_n_shards (w_system w) = n" "objects_ok n (w_system w) (w_storages w) (w_blobs w) (w_pools w) (w_ids w)"
    "backed (w_system w) (w_storages w) (w_blobs w) (w_pools w)" "w_paid w = sum_list (rewards (w_system w)) + w_paid_out w"
  using assms by (auto simp: world_ok_def)

lemma objects_okD:
  assumes "objects_ok n s S B P I"
  shows "finite (Mapping.keys B)" "finite (Mapping.keys P)" "st \<in># S \<Longrightarrow> resource_ok s st"
    "Mapping.lookup B i = Some b \<Longrightarrow> blob_ok s I i b" "Mapping.lookup P i = Some p \<Longrightarrow> pool_in n s I i p"
  using assms by (auto simp: objects_ok_def)

lemma objects_ok_frame: "objects_ok n s S B P I \<Longrightarrow> accounted q g s s' \<Longrightarrow> I \<subseteq> I' \<Longrightarrow> objects_ok n s' S B P I'"
  using accountedD(2,3) unfolding objects_ok_def blob_ok_def pool_in_def resource_ok_def by fastforce

lemma objects_ok_storages: "objects_ok n s S B P I \<Longrightarrow> (\<And>st. st \<in># S' \<Longrightarrow> st \<notin># S \<Longrightarrow> resource_ok s st) \<Longrightarrow> objects_ok n s S' B P I"
  by (auto simp: objects_ok_def)

lemma objects_ok_update:
  assumes "objects_ok n s S B P I"
  shows "blob_ok s I i b \<Longrightarrow> objects_ok n s S (Mapping.update i b B) P I" "objects_ok n s S (Mapping.delete i B) P I"
    "pool_in n s I i p \<Longrightarrow> objects_ok n s S B (Mapping.update i p P) I" "objects_ok n s S B (Mapping.delete i P) I"
  using assms by (auto simp: objects_ok_def lookup_update' lookup_delete)

text \<open>A transaction within an epoch keeps the invariant if it accounts for what the objects reserve in addition.\<close>

lemma world_ok_step:
  assumes ok: "world_ok n w" and a: "accounted q g (w_system w) (w_system w')"
    and t: "\<And>j. reserved_by (w_storages w') (w_blobs w') (w_pools w') (sys_epoch (w_system w) + j)
      \<le> reserved_by (w_storages w) (w_blobs w) (w_pools w) (sys_epoch (w_system w) + j) + g j"
    and o: "objects_ok n (w_system w) (w_storages w') (w_blobs w') (w_pools w') (w_ids w')"
    and p: "w_paid w' = w_paid w + q" "w_paid_out w' = w_paid_out w"
  shows "world_ok n w'"
proof -
  let ?e = "sys_epoch (w_system w)"
  note F = accountedD [OF a]
  have "reserved_by (w_storages w') (w_blobs w') (w_pools w') (?e + j) \<le> used (w_system w') ! j" if "j < max_epochs_ahead (w_system w)" for j
  proof -
    have "reserved_by (w_storages w) (w_blobs w) (w_pools w) (?e + j) + g j \<le> used (w_system w') ! j"
      using a that world_okD(4) [OF ok] by (auto simp: accounted_def backed_def)
    then show ?thesis using t [of j] by linarith
  qed
  then show ?thesis using a p F world_okD [OF ok] objects_ok_frame [OF o a order_refl] by (auto simp: world_ok_def backed_def accounted_def)
qed

lemma world_ok_objects:
  assumes ok: "world_ok n w" and w': "w_system w' = w_system w" "w_paid w' = w_paid w" "w_paid_out w' = w_paid_out w"
    and t: "\<And>j. reserved_by (w_storages w') (w_blobs w') (w_pools w') (sys_epoch (w_system w) + j)
      \<le> reserved_by (w_storages w) (w_blobs w) (w_pools w) (sys_epoch (w_system w) + j)"
    and o: "objects_ok n (w_system w) (w_storages w') (w_blobs w') (w_pools w') (w_ids w')"
  shows "world_ok n w'"
  by (rule world_ok_step [OF ok, where q = 0 and g = "\<lambda>_. 0"]) (use w' t o accounted_refl [OF world_okD(1) [OF ok]] in simp_all)

lemma world_ok_system:
  assumes ok: "world_ok n w" and a: "accounted q g (w_system w) s" and I: "w_ids w \<subseteq> I"
  shows "world_ok n (w\<lparr>w_system := s, w_ids := I, w_paid := w_paid w + q\<rparr>)"
  by (rule world_ok_step [OF ok, where q = q and g = g])
    (use a objects_ok_frame [OF world_okD(3) [OF ok] accounted_refl [OF world_okD(1) [OF ok]] I] in simp_all)

subsection \<open>Storage resources\<close>

lemma world_ok_new_storage:
  assumes ok: "world_ok n w" and a: "accounted q (\<lambda>j. reserved st (sys_epoch (w_system w) + j)) (w_system w) s" and st: "resource_ok (w_system w) st"
  shows "world_ok n (w\<lparr>w_system := s, w_storages := add_mset st (w_storages w), w_paid := w_paid w + q\<rparr>)"
  by (rule world_ok_step [OF ok, where g = "\<lambda>j. reserved st (sys_epoch (w_system w) + j)"])
    (use a st in \<open>auto simp: reserved_by_def intro!: objects_ok_storages [OF world_okD(3) [OF ok]]\<close>)

lemma world_ok_storages:
  assumes ok: "world_ok n w" and S: "w_storages w = S + T" and r: "\<And>e. (\<Sum>st\<in>#S'. reserved st e) \<le> (\<Sum>st\<in>#S. reserved st e)"
    and o: "\<And>st. st \<in># S' \<Longrightarrow> resource_ok (w_system w) st"
  shows "world_ok n (w\<lparr>w_storages := S' + T\<rparr>)"
  by (rule world_ok_objects [OF ok]) (use r o objects_ok_storages [OF world_okD(3) [OF ok], of "S' + T"] in \<open>auto simp: reserved_by_def S\<close>)

lemma split_world_ok:
  assumes ok: "world_ok n w" and S: "w_storages w = add_mset st S" and x: "split_by_epoch st k = Ok (a, b) \<or> split_by_size st k = Ok (a, b)"
  shows "world_ok n (w\<lparr>w_storages := add_mset a (add_mset b S)\<rparr>)"
proof -
  have "resource_ok (w_system w) st" using objects_okD(3) [OF world_okD(3) [OF ok]] S by simp
  then have "resource_ok (w_system w) a" "resource_ok (w_system w) b" using split_reserved [OF x] by (auto simp: resource_ok_def)
  then show ?thesis using world_ok_storages [OF ok, of "{#st#}" S "{#a, b#}"] split_reserved(1) [OF x] S \<open>resource_ok (w_system w) st\<close>
    by (auto simp: resource_ok_def)
qed

lemma fuse_world_ok:
  assumes ok: "world_ok n w" and S: "w_storages w = add_mset a (add_mset b S)" and x: "fuse_periods a b = Ok st \<or> fuse_amount a b = Ok st \<or> fuse a b = Ok st"
  shows "world_ok n (w\<lparr>w_storages := add_mset st S\<rparr>)"
proof -
  have "resource_ok (w_system w) a" "resource_ok (w_system w) b" using objects_okD(3) [OF world_okD(3) [OF ok]] S by simp_all
  then show ?thesis using world_ok_storages [OF ok, of "{#a, b#}" S "{#st#}"] fuse_reserved [OF x] S by (auto simp: resource_ok_def)
qed

subsection \<open>Blobs\<close>

text \<open>A blob whose reservation changes, with what is taken from or added to the storage resources.\<close>

lemma world_ok_blob:
  assumes ok: "world_ok n w" and b: "Mapping.lookup (w_blobs w) i = Some b" and a: "accounted q g (w_system w) s"
    and S: "w_storages w = S + T"
    and r: "\<And>j. reserved (mb_storage b') (sys_epoch (w_system w) + j) \<le> reserved (mb_storage b) (sys_epoch (w_system w) + j)
        + (\<Sum>st\<in>#S. reserved st (sys_epoch (w_system w) + j)) + g j"
    and o: "resource_ok (w_system w) (mb_storage b')" "mb_id b' = mb_id b"
  shows "world_ok n (w\<lparr>w_system := s, w_storages := T, w_blobs := Mapping.update i b' (w_blobs w), w_paid := w_paid w + q\<rparr>)" (is "world_ok n ?w")
proof (rule world_ok_step [OF ok, where g = g])
  note O = world_okD(3) [OF ok]
  fix j
  show "reserved_by (w_storages ?w) (w_blobs ?w) (w_pools ?w) (sys_epoch (w_system w) + j)
    \<le> reserved_by (w_storages w) (w_blobs w) (w_pools w) (sys_epoch (w_system w) + j) + g j"
    using msum_update [OF objects_okD(1) [OF O] b, of "\<lambda>b. reserved (mb_storage b) (sys_epoch (w_system w) + j)" b'] r [of j]
    by (simp add: reserved_by_def S)
qed (use a o objects_okD(4) [OF world_okD(3) [OF ok] b]
    objects_ok_update(1) [OF objects_ok_storages [OF world_okD(3) [OF ok], of T], of i b'] in \<open>auto simp: S blob_ok_def\<close>)

lemma world_ok_blob_same:
  assumes ok: "world_ok n w" and b: "Mapping.lookup (w_blobs w) i = Some b" and o: "mb_storage b' = mb_storage b" "mb_id b' = mb_id b"
  shows "world_ok n (w\<lparr>w_blobs := Mapping.update i b' (w_blobs w)\<rparr>)"
  using world_ok_blob [OF ok b accounted_refl [OF world_okD(1) [OF ok]], of "{#}" "w_storages w" b'] objects_okD(4) [OF world_okD(3) [OF ok] b] o
  by (simp add: blob_ok_def)

lemma world_ok_blob_gone:
  assumes ok: "world_ok n w" and b: "Mapping.lookup (w_blobs w) i = Some b" and S: "S = {#} \<or> S = {#mb_storage b#}"
  shows "world_ok n (w\<lparr>w_storages := S + w_storages w, w_blobs := Mapping.delete i (w_blobs w)\<rparr>)" (is "world_ok n ?w")
proof (rule world_ok_objects [OF ok])
  note O = world_okD(3) [OF ok]
  fix j
  show "reserved_by (w_storages ?w) (w_blobs ?w) (w_pools ?w) (sys_epoch (w_system w) + j)
    \<le> reserved_by (w_storages w) (w_blobs w) (w_pools w) (sys_epoch (w_system w) + j)"
    using msum_delete [OF objects_okD(1) [OF O] b, of "\<lambda>b. reserved (mb_storage b) (sys_epoch (w_system w) + j)"] S
    by (auto simp: reserved_by_def)
qed (use S objects_okD(4) [OF world_okD(3) [OF ok] b] objects_ok_update(2) [OF objects_ok_storages [OF world_okD(3) [OF ok], of "S + w_storages w"], of i]
    in \<open>auto simp: blob_ok_def\<close>)

lemma world_ok_new_blob:
  assumes ok: "world_ok n w" and i: "i \<notin> w_ids w" and a: "accounted q (\<lambda>_. 0) (w_system w) s" and S: "w_storages w = add_mset (mb_storage b) T"
    and b: "mb_id b = i"
  shows "world_ok n (w\<lparr>w_system := s, w_storages := T, w_blobs := Mapping.update i b (w_blobs w), w_ids := insert i (w_ids w), w_paid := w_paid w + q\<rparr>)"
    (is "world_ok n ?w")
proof (rule world_ok_step [OF ok, where g = "\<lambda>_. 0"])
  note O = world_okD(3) [OF ok]
  have new: "Mapping.lookup (w_blobs w) i = None" using objects_okD(4) [OF O, of i] i by (cases "Mapping.lookup (w_blobs w) i") (auto simp: blob_ok_def)
  fix j
  show "reserved_by (w_storages ?w) (w_blobs ?w) (w_pools ?w) (sys_epoch (w_system w) + j)
    \<le> reserved_by (w_storages w) (w_blobs w) (w_pools w) (sys_epoch (w_system w) + j) + 0"
    using msum_update_new [OF objects_okD(1) [OF O] new] by (simp add: reserved_by_def S)
  have "resource_ok (w_system w) (mb_storage b)" using objects_okD(3) [OF O] S by simp
  then show "objects_ok n (w_system w) (w_storages ?w) (w_blobs ?w) (w_pools ?w) (w_ids ?w)"
    using objects_ok_frame [OF objects_ok_storages [OF O, of T] accounted_refl [OF world_okD(1) [OF ok]], of "insert i (w_ids w)"] S b
    by (auto simp: blob_ok_def intro!: objects_ok_update(1))
qed (use a in simp_all)

subsection \<open>Storage pools\<close>

lemma world_ok_pool:
  assumes ok: "world_ok n w" and p: "Mapping.lookup (w_pools w) i = Some p" and a: "accounted q g (w_system w) s"
    and S: "w_storages w = S + T" and I: "w_ids w \<subseteq> I"
    and r: "\<And>j. (\<Sum>st\<in>#S'. reserved st (sys_epoch (w_system w) + j)) + reserved (pl_storage p') (sys_epoch (w_system w) + j)
        \<le> reserved (pl_storage p) (sys_epoch (w_system w) + j) + (\<Sum>st\<in>#S. reserved st (sys_epoch (w_system w) + j)) + g j"
    and o: "pool_ok n p'" "st_start_epoch (pl_storage p') = st_start_epoch (pl_storage p)"
      "st_end_epoch (pl_storage p') \<le> sys_epoch (w_system w) + max_epochs_ahead (w_system w)" "pl_id p' = pl_id p"
    and S': "\<And>st. st \<in># S' \<Longrightarrow> resource_ok (w_system w) st"
  shows "world_ok n (w\<lparr>w_system := s, w_storages := S' + T, w_pools := Mapping.update i p' (w_pools w), w_ids := I, w_paid := w_paid w + q\<rparr>)"
    (is "world_ok n ?w")
proof (rule world_ok_step [OF ok, where g = g])
  note O = world_okD(3) [OF ok]
  fix j
  show "reserved_by (w_storages ?w) (w_blobs ?w) (w_pools ?w) (sys_epoch (w_system w) + j)
    \<le> reserved_by (w_storages w) (w_blobs w) (w_pools w) (sys_epoch (w_system w) + j) + g j"
    using msum_update [OF objects_okD(2) [OF O] p, of "\<lambda>p. reserved (pl_storage p) (sys_epoch (w_system w) + j)" p'] r [of j]
    by (simp add: reserved_by_def S)
  have "objects_ok n (w_system w) (S' + T) (w_blobs w) (w_pools w) I"
    using objects_ok_frame [OF O accounted_refl [OF world_okD(1) [OF ok]] I] S' by (rule objects_ok_storages) (auto simp: S)
  moreover have "pool_in n (w_system w) I i p'"
    using objects_okD(5) [OF O p] o I by (auto simp: pool_in_def resource_ok_def pool_ok_def)
  ultimately show "objects_ok n (w_system w) (w_storages ?w) (w_blobs ?w) (w_pools ?w) (w_ids ?w)" by (simp add: objects_ok_update(3))
qed (use a in simp_all)

text \<open>Changes of the contents of a pool.\<close>

lemma world_ok_pool_same:
  assumes ok: "world_ok n w" and p: "Mapping.lookup (w_pools w) i = Some p" and a: "accounted q (\<lambda>_. 0) (w_system w) s" and I: "w_ids w \<subseteq> I"
    and o: "pool_ok n p'" "pl_storage p' = pl_storage p" "pl_id p' = pl_id p"
  shows "world_ok n (w\<lparr>w_system := s, w_pools := Mapping.update i p' (w_pools w), w_ids := I, w_paid := w_paid w + q\<rparr>)"
  using world_ok_pool [OF ok p a, of "{#}" "w_storages w" I "{#}" p'] o I objects_okD(5) [OF world_okD(3) [OF ok] p] by (simp add: pool_in_def resource_ok_def)

lemma world_ok_new_pool:
  assumes ok: "world_ok n w" and i: "i \<notin> w_ids w" and a: "accounted q (\<lambda>j. if f then reserved (pl_storage p) (sys_epoch (w_system w) + j) else 0) (w_system w) s"
    and S: "w_storages w = (if f then {#} else {#pl_storage p#}) + T"
    and o: "pool_ok n p" "resource_ok (w_system w) (pl_storage p)" "st_start_epoch (pl_storage p) \<le> sys_epoch (w_system w)" "pl_id p = i"
  shows "world_ok n (w\<lparr>w_system := s, w_storages := T, w_pools := Mapping.update i p (w_pools w), w_ids := insert i (w_ids w), w_paid := w_paid w + q\<rparr>)"
    (is "world_ok n ?w")
proof (rule world_ok_step [OF ok, where g = "\<lambda>j. if f then reserved (pl_storage p) (sys_epoch (w_system w) + j) else 0"])
  note O = world_okD(3) [OF ok]
  have new: "Mapping.lookup (w_pools w) i = None" using objects_okD(5) [OF O, of i] i by (cases "Mapping.lookup (w_pools w) i") (auto simp: pool_in_def)
  fix j
  show "reserved_by (w_storages ?w) (w_blobs ?w) (w_pools ?w) (sys_epoch (w_system w) + j)
    \<le> reserved_by (w_storages w) (w_blobs w) (w_pools w) (sys_epoch (w_system w) + j) + (if f then reserved (pl_storage p) (sys_epoch (w_system w) + j) else 0)"
    using msum_update_new [OF objects_okD(2) [OF O] new] by (simp add: reserved_by_def S)
  have "objects_ok n (w_system w) T (w_blobs w) (w_pools w) (insert i (w_ids w))"
    using objects_ok_frame [OF O accounted_refl [OF world_okD(1) [OF ok]] subset_insertI] by (rule objects_ok_storages) (auto simp: S)
  moreover have "pool_in n (w_system w) (insert i (w_ids w)) i p" using o by (simp add: pool_in_def)
  ultimately show "objects_ok n (w_system w) (w_storages ?w) (w_blobs ?w) (w_pools ?w) (w_ids ?w)" by (simp add: objects_ok_update(3))
qed (use a in simp_all)

lemma world_ok_pool_gone:
  assumes ok: "world_ok n w" and p: "Mapping.lookup (w_pools w) i = Some p"
  shows "world_ok n (w\<lparr>w_storages := add_mset (pl_storage p) (w_storages w), w_pools := Mapping.delete i (w_pools w)\<rparr>)" (is "world_ok n ?w")
proof (rule world_ok_objects [OF ok])
  note O = world_okD(3) [OF ok]
  fix j
  show "reserved_by (w_storages ?w) (w_blobs ?w) (w_pools ?w) (sys_epoch (w_system w) + j)
    \<le> reserved_by (w_storages w) (w_blobs w) (w_pools w) (sys_epoch (w_system w) + j)"
    using msum_delete [OF objects_okD(2) [OF O] p, of "\<lambda>p. reserved (pl_storage p) (sys_epoch (w_system w) + j)"] by (simp add: reserved_by_def)
qed (use objects_okD(5) [OF world_okD(3) [OF ok] p]
    objects_ok_update(4) [OF objects_ok_storages [OF world_okD(3) [OF ok], of "add_mset (pl_storage p) (w_storages w)"], of i] in \<open>auto simp: pool_in_def\<close>)

subsection \<open>Epoch changes\<close>

lemma epoch_change_world_ok:
  assumes ok: "world_ok n w" and c: "committee_wf c" "bls_n_shards c = n" and b: "extract_burn_balance (w_system w) = Ok (b, s)"
    and x: "advance_epoch s c params = Ok (rw, s')"
  shows "world_ok n (w\<lparr>w_system := s', w_paid_out := w_paid_out w + b + sum_list (map snd rw)\<rparr>)"
proof -
  note A = extract_burn_accounted [OF world_okD(1) [OF ok] b]
  note B = advance_epoch_accounted [OF A(1) c(1) x]
  let ?e = "sys_epoch (w_system w)" and ?l = "max_epochs_ahead (w_system w)"
  have f: "sys_epoch s = ?e" "max_epochs_ahead s = ?l" using A(2) by (simp_all add: same_frame_def)
  have e: "sys_epoch s' = Suc ?e" "max_epochs_ahead s' = ?l" "sys_n_shards s' = n" using B(2-4) c f by simp_all
  note O = world_okD(3) [OF ok]
  have o: "objects_ok n s' (w_storages w) (w_blobs w) (w_pools w) (w_ids w)"
    using O e unfolding objects_ok_def blob_ok_def pool_in_def resource_ok_def by fastforce
  have z: "reserved st (?e + ?l) = 0" if "resource_ok (w_system w) st" for st using that by (simp add: reserved_def resource_ok_def)
  have last: "reserved_by (w_storages w) (w_blobs w) (w_pools w) (?e + ?l) = 0"
  proof -
    have "(\<Sum>st\<in>#w_storages w. reserved st (?e + ?l)) = 0" using objects_okD(3) [OF O] z by simp
    moreover have "msum (\<lambda>b. reserved (mb_storage b) (?e + ?l)) (w_blobs w) = msum (\<lambda>_. 0) (w_blobs w)"
      by (rule msum_cong) (use objects_okD(4) [OF O] z in \<open>auto simp: blob_ok_def\<close>)
    moreover have "msum (\<lambda>p. reserved (pl_storage p) (?e + ?l)) (w_pools w) = msum (\<lambda>_. 0) (w_pools w)"
      by (rule msum_cong) (use objects_okD(5) [OF O] z in \<open>auto simp: pool_in_def\<close>)
    ultimately show ?thesis by (simp add: reserved_by_def msum_def)
  qed
  have l: "length (used (w_system w)) = ?l" using world_okD(1) [OF ok] by simp
  have "reserved_by (w_storages w) (w_blobs w) (w_pools w) (Suc ?e + j) \<le> used s' ! j" if "j < ?l" for j
  proof (cases "Suc j < ?l")
    case True
    then have "j < length (tl (used (w_system w)))" using l by simp
    then have "used s' ! j = used (w_system w) ! Suc j" using B(5) A(3) by (simp add: nth_append nth_tl del: length_tl)
    moreover have "reserved_by (w_storages w) (w_blobs w) (w_pools w) (?e + Suc j) \<le> used (w_system w) ! Suc j"
      using world_okD(4) [OF ok] True by (auto simp: backed_def)
    ultimately show ?thesis by simp
  next
    case False
    then have "Suc j = ?l" using that by simp
    with last show ?thesis by (metis add_Suc_shift le0)
  qed
  then show ?thesis using B(1,7) A(5) e o world_okD(5) [OF ok] by (simp add: world_ok_def backed_def)
qed

subsection \<open>All transactions\<close>

lemma move_blob_new_Ok:
  assumes "move_blob_new h i eid st bid rt len enc del e n = Ok (b, ev)"
  shows "mb_storage b = st" "mb_id b = i" "mb_certified_epoch b = None" "mb_blob_id b = bid" "mb_deletable b = del" "e < st_end_epoch st"
    "ev = Registered \<lparr>br_epoch = e, br_blob_id = bid, br_size = len, br_encoding_type = RS2, br_end_epoch = st_end_epoch st,
      br_deletable = del, br_object_id = i, br_event_id = eid\<rparr>"
  using assms by (auto simp: move_blob_new_def)

lemma certify_Ok:
  assumes "certify_with_certified_msg eid b e m = Ok (b', ev)"
  shows "b' = b\<lparr>mb_certified_epoch := Some e\<rparr>" "mb_certified_epoch b = None" "e < st_end_epoch (mb_storage b)" "emit_certified eid b' False = Ok ev"
  using assms by (auto simp: certify_with_certified_msg_def Let_def)

lemma certify_blob_Ok:
  assumes "certify_blob V eid s b sig bitmap msg = Ok (b', ev)"
  shows "\<exists>m. certify_with_certified_msg eid b (sys_epoch s) m = Ok (b', ev)"
  using assms by (auto simp: certify_blob_def)

lemma extend_resource_Ok:
  assumes "extend_blob_with_resource eid s b st = Ok (b', ev)"
  shows "\<exists>st'. fuse_periods (mb_storage b) st = Ok st' \<and> b' = b\<lparr>mb_storage := st'\<rparr>" "emit_certified eid b' True = Ok ev"
    "mb_certified_epoch b \<noteq> None" "sys_epoch s < st_end_epoch (mb_storage b)"
  using assms by (auto simp: extend_blob_with_resource_def extend_with_resource_def assert_certified_not_expired_def Let_def)

lemma decrease_pool_Ok:
  assumes "decrease_storage_pool_capacity_by_size s p k = Ok (x, p') \<or> decrease_storage_pool_unused_capacity_by_percent s p k = Ok (x, p')" "pool_ok n p"
  shows "pool_ok n p'" "pl_id p' = pl_id p" "st_start_epoch (pl_storage p') = st_start_epoch (pl_storage p)" "st_end_epoch (pl_storage p') = st_end_epoch (pl_storage p)"
    "pl_blobs p' = pl_blobs p"
    "x = None \<Longrightarrow> pl_storage p' = pl_storage p"
    "x = Some st \<Longrightarrow> reserved st e + reserved (pl_storage p') e = reserved (pl_storage p) e \<and> storage_ok st \<and> st_end_epoch st = st_end_epoch (pl_storage p)"
proof -
  obtain m where d: "decrease_capacity_by_size p m = Ok (x, p')"
    using assms(1) by (auto simp: decrease_storage_pool_capacity_by_size_def decrease_storage_pool_unused_capacity_by_percent_def decrease_unused_capacity_by_percent_def)
  show "pool_ok n p'" by (rule pool_capacity_ok(4) [OF assms(2) d])
  have "storage_ok (pl_storage p)" using assms(2) by (simp add: pool_ok_def)
  then show "pl_id p' = pl_id p" "st_start_epoch (pl_storage p') = st_start_epoch (pl_storage p)" "st_end_epoch (pl_storage p') = st_end_epoch (pl_storage p)"
    "pl_blobs p' = pl_blobs p" "x = None \<Longrightarrow> pl_storage p' = pl_storage p"
    "x = Some st \<Longrightarrow> reserved st e + reserved (pl_storage p') e = reserved (pl_storage p) e \<and> storage_ok st \<and> st_end_epoch st = st_end_epoch (pl_storage p)"
    using d by (cases "m = 0"; cases x; force simp: decrease_capacity_by_size_def split_by_size_def reserved_def storage_ok_def)+
qed

lemma certify_pooled_Ok:
  assumes "certify_pooled_blob V eid s p bid sig bitmap msg = Ok (p', ev)"
  obtains b where "Mapping.lookup (pl_blobs p) bid = Some b" "p' = p\<lparr>pl_blobs := Mapping.update bid (b\<lparr>pb_certified_epoch := Some (sys_epoch s)\<rparr>) (pl_blobs p)\<rparr>"
    "pb_certified_epoch b = None" "sys_epoch s < st_end_epoch (pl_storage p)"
    "ev = PooledBlobCertified \<lparr>pc_epoch = sys_epoch s, pc_blob_id = pb_blob_id b, pc_deletable = pb_deletable b,
        pc_object_id = pb_id b, pc_storage_pool_id = pb_storage_pool_id b, pc_event_id = eid\<rparr>"
proof -
  obtain m b where b: "Mapping.lookup (pl_blobs p) bid = Some b" and c: "\<exists>b'. certify_pooled eid b (sys_epoch s) (st_end_epoch (pl_storage p)) m = Ok (b', ev)
      \<and> p' = p\<lparr>pl_blobs := Mapping.update bid b' (pl_blobs p)\<rparr>"
    using assms by (auto simp: certify_pooled_blob_def borrow_blob_def)
  then show ?thesis using that by (auto simp: certify_pooled_def)
qed

lemma remove_pooled_Ok:
  assumes ok: "pool_ok n p" and n: "sys_n_shards s = n"
    and d: "delete_pooled_blob eid s p bid = Ok (p', ev) \<or> burn_expired_pooled_blob s p bid = Ok p'"
  obtains b where "Mapping.lookup (pl_blobs p) bid = Some b" "pool_ok n p'" "pl_blobs p' = Mapping.delete bid (pl_blobs p)" "pl_storage p' = pl_storage p" "pl_id p' = pl_id p"
    "delete_pooled_blob eid s p bid = Ok (p', ev) \<Longrightarrow> sys_epoch s < st_end_epoch (pl_storage p) \<and> delete_blob_object eid b (sys_epoch s) = Ok ev"
proof -
  obtain b where r: "pool_remove_blob p bid n = Ok (b, p')"
      "delete_pooled_blob eid s p bid = Ok (p', ev) \<Longrightarrow> sys_epoch s < st_end_epoch (pl_storage p) \<and> delete_blob_object eid b (sys_epoch s) = Ok ev"
    using d n by (auto simp: delete_pooled_blob_def burn_expired_pooled_blob_def)
  have "Mapping.lookup (pl_blobs p) bid = Some b"
    using r(1) by (auto simp: pool_remove_blob_def borrow_blob_def)
  with pool_remove_blob_ok [OF ok this] r that show ?thesis by auto
qed

lemma blob_transactions:
  assumes ok: "world_ok n w" and b: "Mapping.lookup (w_blobs w) i = Some b"
  shows "certify_blob V eid (w_system w) b sig bitmap msg = Ok (b', ev) \<Longrightarrow> world_ok n (w\<lparr>w_blobs := Mapping.update i b' (w_blobs w)\<rparr>)"
    "delete_blob eid (w_system w) b = Ok (st, ev) \<Longrightarrow> world_ok n (w\<lparr>w_storages := add_mset st (w_storages w), w_blobs := Mapping.delete i (w_blobs w)\<rparr>)"
    "world_ok n (w\<lparr>w_blobs := Mapping.delete i (w_blobs w)\<rparr>)"
    "extend_blob eid (w_system w) b k coin = Ok (s, b', coin', ev) \<Longrightarrow>
      world_ok n (w\<lparr>w_system := s, w_blobs := Mapping.update i b' (w_blobs w), w_paid := w_paid w + (coin - coin')\<rparr>)"
    "w_storages w = add_mset st S \<Longrightarrow> extend_blob_with_resource eid (w_system w) b st = Ok (b', ev) \<Longrightarrow>
      world_ok n (w\<lparr>w_storages := S, w_blobs := Mapping.update i b' (w_blobs w)\<rparr>)"
proof -
  note O = world_okD(3) [OF ok]
  have bs: "resource_ok (w_system w) (mb_storage b)" using objects_okD(4) [OF O b] by (simp add: blob_ok_def)
  then have st: "storage_ok (mb_storage b)" by (simp add: resource_ok_def)
  show "world_ok n (w\<lparr>w_blobs := Mapping.update i b' (w_blobs w)\<rparr>)" if "certify_blob V eid (w_system w) b sig bitmap msg = Ok (b', ev)"
    using certify_blob_Ok [OF that] world_ok_blob_same [OF ok b] by (auto dest: certify_Ok(1))
  show "world_ok n (w\<lparr>w_storages := add_mset st (w_storages w), w_blobs := Mapping.delete i (w_blobs w)\<rparr>)" if "delete_blob eid (w_system w) b = Ok (st, ev)"
    using that world_ok_blob_gone [OF ok b, of "{#mb_storage b#}"] by (auto simp: delete_blob_def move_blob_delete_def)
  show "world_ok n (w\<lparr>w_blobs := Mapping.delete i (w_blobs w)\<rparr>)" using world_ok_blob_gone [OF ok b, of "{#}"] by simp
  show "world_ok n (w\<lparr>w_system := s, w_blobs := Mapping.update i b' (w_blobs w), w_paid := w_paid w + (coin - coin')\<rparr>)"
    if x: "extend_blob eid (w_system w) b k coin = Ok (s, b', coin', ev)"
  proof -
    note E = extend_blob_accounted [OF world_okD(1) [OF ok] st x]
    obtain g where g: "accounted (coin - coin') g (w_system w) s"
      "\<And>j. reserved (mb_storage b') (sys_epoch (w_system w) + j) = reserved (mb_storage b) (sys_epoch (w_system w) + j) + g j"
      using E(2) by blast
    show ?thesis using world_ok_blob [OF ok b g(1), of "{#}" "w_storages w" b'] E(3,4,5) g(2) by (simp add: resource_ok_def)
  qed
  show "world_ok n (w\<lparr>w_storages := S, w_blobs := Mapping.update i b' (w_blobs w)\<rparr>)"
    if S: "w_storages w = add_mset st S" and x: "extend_blob_with_resource eid (w_system w) b st = Ok (b', ev)"
  proof -
    obtain st' where f: "fuse_periods (mb_storage b) st = Ok st'" "b' = b\<lparr>mb_storage := st'\<rparr>" using extend_resource_Ok(1) [OF x] by blast
    have r: "resource_ok (w_system w) st" using objects_okD(3) [OF O] S by simp
    then have "storage_ok st" by (simp add: resource_ok_def)
    note F = fuse_reserved [OF disjI1 [OF f(1)] st this]
    show ?thesis using world_ok_blob [OF ok b accounted_refl [OF world_okD(1) [OF ok]], of "{#st#}" S b'] F f(2) r bs S
      by (simp add: resource_ok_def)
  qed
qed

lemma pool_transactions:
  assumes ok: "world_ok n w" and p: "Mapping.lookup (w_pools w) i = Some p"
  shows "j \<notin> w_ids w \<Longrightarrow> register_pooled_blob h j eid (w_system w) p bid rt len enc del coin = Ok (s, p', coin', ev) \<Longrightarrow>
      world_ok n (w\<lparr>w_system := s, w_pools := Mapping.update i p' (w_pools w), w_ids := insert j (w_ids w), w_paid := w_paid w + (coin - coin')\<rparr>)"
    "certify_pooled_blob V eid (w_system w) p bid sig bitmap msg = Ok (p', ev) \<Longrightarrow> world_ok n (w\<lparr>w_pools := Mapping.update i p' (w_pools w)\<rparr>)"
    "delete_pooled_blob eid (w_system w) p bid = Ok (p', ev) \<or> burn_expired_pooled_blob (w_system w) p bid = Ok p' \<Longrightarrow>
      world_ok n (w\<lparr>w_pools := Mapping.update i p' (w_pools w)\<rparr>)"
proof -
  note P = objects_okD(5) [OF world_okD(3) [OF ok] p] and R = accounted_refl [OF world_okD(1) [OF ok]]
  have pok: "pool_ok n p" "pl_id p = i" using P by (simp_all add: pool_in_def)
  show "world_ok n (w\<lparr>w_system := s, w_pools := Mapping.update i p' (w_pools w), w_ids := insert j (w_ids w), w_paid := w_paid w + (coin - coin')\<rparr>)"
    if x: "register_pooled_blob h j eid (w_system w) p bid rt len enc del coin = Ok (s, p', coin', ev)"
  proof -
    note E = register_pooled_accounted [OF world_okD(1) [OF ok] x]
    obtain b m where b: "new_pooled_blob h j eid (pl_id p) bid rt len enc del (sys_epoch (w_system w)) = Ok (b, ev)"
      "move_encoded_blob_length len enc n = Ok m" "pool_add_blob p b m = Ok p'" using E(3) world_okD(2) [OF ok] by auto
    have "pb_unencoded_size b = len" "pb_encoding_type b = enc" "pb_storage_pool_id b = pl_id p" using b(1) by (auto simp: new_pooled_blob_def)
    then have "pool_ok n p'" "pl_storage p' = pl_storage p" "pl_id p' = pl_id p" using pool_add_blob_ok [OF pok(1) b(3)] b(2) by simp_all
    then show ?thesis by (intro world_ok_pool_same [OF ok p E(2)]) auto
  qed
  show "world_ok n (w\<lparr>w_pools := Mapping.update i p' (w_pools w)\<rparr>)" if x: "certify_pooled_blob V eid (w_system w) p bid sig bitmap msg = Ok (p', ev)"
    using certify_pooled_Ok [OF x] world_ok_pool_same [OF ok p R order_refl, of p'] pool_certify_ok [OF pok(1)] by fastforce
  show "world_ok n (w\<lparr>w_pools := Mapping.update i p' (w_pools w)\<rparr>)"
    if x: "delete_pooled_blob eid (w_system w) p bid = Ok (p', ev) \<or> burn_expired_pooled_blob (w_system w) p bid = Ok p'"
    using remove_pooled_Ok [OF pok(1) world_okD(2) [OF ok] x] world_ok_pool_same [OF ok p R order_refl, of p'] by fastforce
qed

lemma pool_capacity_transactions:
  assumes ok: "world_ok n w" and p: "Mapping.lookup (w_pools w) i = Some p"
  shows "extend_storage_pool eid (w_system w) p k coin = Ok (s, p', coin', ev) \<or> increase_storage_pool_capacity (w_system w) p k coin = Ok (s, p', coin') \<Longrightarrow>
      world_ok n (w\<lparr>w_system := s, w_pools := Mapping.update i p' (w_pools w), w_paid := w_paid w + (coin - coin')\<rparr>)"
    "w_storages w = add_mset st S \<Longrightarrow> increase_storage_pool_capacity_with_storage (w_system w) p st = Ok p' \<Longrightarrow>
      world_ok n (w\<lparr>w_storages := S, w_pools := Mapping.update i p' (w_pools w)\<rparr>)"
    "decrease_storage_pool_capacity_by_size (w_system w) p k = Ok (x, p') \<or> decrease_storage_pool_unused_capacity_by_percent (w_system w) p k = Ok (x, p') \<Longrightarrow>
      world_ok n (w\<lparr>w_storages := w_storages w + (case x of None \<Rightarrow> {#} | Some st \<Rightarrow> {#st#}), w_pools := Mapping.update i p' (w_pools w)\<rparr>)"
    "pool_destroy p = Ok st \<Longrightarrow> world_ok n (w\<lparr>w_storages := add_mset st (w_storages w), w_pools := Mapping.delete i (w_pools w)\<rparr>)"
proof -
  note O = world_okD(3) [OF ok] and R = accounted_refl [OF world_okD(1) [OF ok]]
  have P: "pool_ok n p" "resource_ok (w_system w) (pl_storage p)" "st_start_epoch (pl_storage p) \<le> sys_epoch (w_system w)"
    using objects_okD(5) [OF O p] by (simp_all add: pool_in_def)
  then have st: "storage_ok (pl_storage p)" by (simp add: resource_ok_def)
  show "world_ok n (w\<lparr>w_system := s, w_pools := Mapping.update i p' (w_pools w), w_paid := w_paid w + (coin - coin')\<rparr>)"
    if x: "extend_storage_pool eid (w_system w) p k coin = Ok (s, p', coin', ev) \<or> increase_storage_pool_capacity (w_system w) p k coin = Ok (s, p', coin')"
  proof -
    obtain g where g: "accounted (coin - coin') g (w_system w) s"
      "\<And>j. reserved (pl_storage p') (sys_epoch (w_system w) + j) = reserved (pl_storage p) (sys_epoch (w_system w) + j) + g j"
      using x extend_pool_accounted(2) [OF world_okD(1) [OF ok] st] increase_pool_accounted(2) [OF world_okD(1) [OF ok] st P(3)] by blast
    have "pool_ok n p'" using x extend_pool_accounted(6) [OF world_okD(1) [OF ok] st] increase_pool_accounted(4) [OF world_okD(1) [OF ok] st P(3)]
      pool_capacity_ok(1,2) [OF P(1)] by blast
    moreover have "st_start_epoch (pl_storage p') = st_start_epoch (pl_storage p) \<and> pl_id p' = pl_id p
      \<and> st_end_epoch (pl_storage p') \<le> sys_epoch (w_system w) + max_epochs_ahead (w_system w)"
      using x
    proof
      assume y: "extend_storage_pool eid (w_system w) p k coin = Ok (s, p', coin', ev)"
      show ?thesis using extend_pool_accounted(3,4) [OF world_okD(1) [OF ok] st y] by simp
    next
      assume y: "increase_storage_pool_capacity (w_system w) p k coin = Ok (s, p', coin')"
      show ?thesis using increase_pool_accounted(3) [OF world_okD(1) [OF ok] st P(3) y] P(2) by (simp add: resource_ok_def)
    qed
    ultimately show ?thesis using world_ok_pool [OF ok p g(1), of "{#}" "w_storages w" "w_ids w" "{#}" p'] g(2) by simp
  qed
  show "world_ok n (w\<lparr>w_storages := S, w_pools := Mapping.update i p' (w_pools w)\<rparr>)"
    if S: "w_storages w = add_mset st S" and x: "increase_storage_pool_capacity_with_storage (w_system w) p st = Ok p'" for st
  proof -
    have "st_start_epoch st \<le> sys_epoch (w_system w)" "st_end_epoch st = st_end_epoch (pl_storage p)"
      "p' = p\<lparr>pl_storage := (pl_storage p)\<lparr>st_size := st_size (pl_storage p) + st_size st\<rparr>\<rparr>" "pool_ok n p'"
      using x pool_capacity_ok(3) [OF P(1)]
      by (auto simp: increase_storage_pool_capacity_with_storage_def increase_capacity_with_storage_def increase_size_def)
    then show ?thesis using world_ok_pool [OF ok p R, of "{#st#}" S "w_ids w" "{#}" p'] P S by (simp add: reserved_def resource_ok_def)
  qed
  show "world_ok n (w\<lparr>w_storages := w_storages w + (case x of None \<Rightarrow> {#} | Some st \<Rightarrow> {#st#}), w_pools := Mapping.update i p' (w_pools w)\<rparr>)"
    if y: "decrease_storage_pool_capacity_by_size (w_system w) p k = Ok (x, p') \<or> decrease_storage_pool_unused_capacity_by_percent (w_system w) p k = Ok (x, p')"
  proof -
    let ?S = "case x of None \<Rightarrow> {#} | Some st \<Rightarrow> {#st#}"
    note D = decrease_pool_Ok [OF y P(1)]
    have "(\<Sum>st\<in>#?S. reserved st e) + reserved (pl_storage p') e = reserved (pl_storage p) e" for e using D(6,7) by (cases x) simp_all
    moreover have "resource_ok (w_system w) st" if "st \<in># ?S" for st using that D(7) [of st] P(2) by (cases x) (simp_all add: resource_ok_def)
    moreover have "st_end_epoch (pl_storage p') \<le> sys_epoch (w_system w) + max_epochs_ahead (w_system w)" using D(4) P(2) by (simp add: resource_ok_def)
    ultimately have "world_ok n (w\<lparr>w_system := w_system w, w_storages := ?S + w_storages w, w_pools := Mapping.update i p' (w_pools w),
        w_ids := w_ids w, w_paid := w_paid w + 0\<rparr>)"
      using D(1-3) by (intro world_ok_pool [OF ok p R, of "{#}"]) simp_all
    then show ?thesis by (simp add: add.commute [of "w_storages w"])
  qed
  show "world_ok n (w\<lparr>w_storages := add_mset st (w_storages w), w_pools := Mapping.delete i (w_pools w)\<rparr>)" if "pool_destroy p = Ok st" for st
    using that world_ok_pool_gone [OF ok p] by (auto simp: pool_destroy_def)
qed

lemma create_pool_transactions:
  assumes ok: "world_ok n w" and i: "i \<notin> w_ids w"
  shows "create_storage_pool i eid (w_system w) amount k coin = Ok (s, p, coin', ev) \<Longrightarrow>
      world_ok n (w\<lparr>w_system := s, w_pools := Mapping.update i p (w_pools w), w_ids := insert i (w_ids w), w_paid := w_paid w + (coin - coin')\<rparr>)"
    "w_storages w = add_mset st S \<Longrightarrow> create_storage_pool_with_storage i eid (w_system w) st = Ok (p, ev) \<Longrightarrow>
      world_ok n (w\<lparr>w_storages := S, w_pools := Mapping.update i p (w_pools w), w_ids := insert i (w_ids w)\<rparr>)"
proof -
  have new: "p = pool_create i st" "st_start_epoch st \<le> sys_epoch s" if "create_storage_pool_with_storage i eid s st = Ok (p, ev)" for s :: "'a system_state" and st
    using that by (auto simp: create_storage_pool_with_storage_def)
  show "world_ok n (w\<lparr>w_system := s, w_pools := Mapping.update i p (w_pools w), w_ids := insert i (w_ids w), w_paid := w_paid w + (coin - coin')\<rparr>)"
    if x: "create_storage_pool i eid (w_system w) amount k coin = Ok (s, p, coin', ev)"
  proof -
    obtain st where r: "reserve_space (w_system w) amount k coin = Ok (s, st, coin')" and c: "create_storage_pool_with_storage i eid s st = Ok (p, ev)"
      using x by (auto simp: create_storage_pool_def)
    note R = reserve_space_accounted [OF world_okD(1) [OF ok] r]
    show ?thesis using world_ok_new_pool [OF ok i, of "coin - coin'" True p s "w_storages w"] R new [OF c] pool_create_ok [OF R(3)]
      by (simp add: pool_create_def resource_ok_def)
  qed
  show "world_ok n (w\<lparr>w_storages := S, w_pools := Mapping.update i p (w_pools w), w_ids := insert i (w_ids w)\<rparr>)"
    if S: "w_storages w = add_mset st S" and c: "create_storage_pool_with_storage i eid (w_system w) st = Ok (p, ev)"
  proof -
    have "resource_ok (w_system w) st" using objects_okD(3) [OF world_okD(3) [OF ok]] S by simp
    then show ?thesis using world_ok_new_pool [OF ok i, of 0 False p "w_system w" S] accounted_refl [OF world_okD(1) [OF ok]] S new [OF c] pool_create_ok [of st]
      by (simp add: pool_create_def resource_ok_def)
  qed
qed

lemma transaction_world_ok:
  assumes t: "transaction n h V w evs w'" and ok: "world_ok n w"
  shows "world_ok n w'"
  using t
proof cases
  case reserve
  note R = reserve_for_epochs_accounted [OF world_okD(1) [OF ok] reserve(3)]
  show ?thesis unfolding reserve(2) using R(3,4) by (intro world_ok_new_storage [OF ok R(2)]) (simp add: resource_ok_def)
next
  case reserve_ahead
  note R = reserve_space_accounted [OF world_okD(1) [OF ok] reserve_ahead(3)]
  show ?thesis unfolding reserve_ahead(2) using R(3,4) by (intro world_ok_new_storage [OF ok R(2)]) (simp add: resource_ok_def)
next
  case split_epoch
  then show ?thesis using split_world_ok [OF ok] by blast
next
  case split_size
  then show ?thesis using split_world_ok [OF ok] by blast
next
  case fuse
  then show ?thesis using fuse_world_ok [OF ok] by blast
next
  case (destroy st S)
  then show ?thesis using world_ok_storages [OF ok, of "{#st#}" S "{#}"] by simp
next
  case (register st S i eid bid rt len enc del coin s b coin' ev)
  note R = register_blob_accounted [OF world_okD(1) [OF ok] register(5)]
  note B = move_blob_new_Ok [OF R(3)]
  show ?thesis unfolding register(2) by (rule world_ok_new_blob [OF ok register(4) R(2)]) (use register(3) B in simp_all)
next
  case (event_blob i eid eid' cap bid rt len enc num e s cap' evs)
  obtain g where "accounted 0 g (w_system w) s" using certify_event_blob_accounted(1) [OF world_okD(1) [OF ok] event_blob(4)] by blast
  from world_ok_system [OF ok this, of "insert i (w_ids w)"] event_blob show ?thesis by auto
next
  case (subsidy a k s)
  then show ?thesis using world_ok_system [OF ok add_subsidy_accounted [OF world_okD(1) [OF ok] subsidy(3)] order_refl] by simp
next
  case (subsidies as s)
  then show ?thesis using world_ok_system [OF ok add_per_epoch_subsidies_accounted [OF world_okD(1) [OF ok] subsidies(3)] order_refl] by simp
next
  case (storage_price price)
  then show ?thesis using world_ok_system [OF ok accounted_update(2) [OF accounted_refl [OF world_okD(1) [OF ok]]] order_refl] by (simp add: set_storage_price_def)
next
  case (write_price price)
  then show ?thesis using world_ok_system [OF ok accounted_update(3) [OF accounted_refl [OF world_okD(1) [OF ok]]] order_refl] by (simp add: set_write_price_def)
next
  case (deny_list cap sig bitmap msg s cap' dev)
  then obtain d where "s = (w_system w)\<lparr>deny_list_sizes := d\<rparr>" by (auto simp: update_deny_list_def)
  then show ?thesis using deny_list world_ok_system [OF ok accounted_update(4) [OF accounted_refl [OF world_okD(1) [OF ok]]] order_refl] by simp
next
  case epoch_change
  then show ?thesis using epoch_change_world_ok [OF ok] by blast
next
  case certify
  show ?thesis unfolding certify(2) by (rule blob_transactions(1) [OF ok certify(3,4)])
next
  case delete
  show ?thesis unfolding delete(2) by (rule blob_transactions(2) [OF ok delete(3,4)])
next
  case burn
  show ?thesis unfolding burn(2) by (rule blob_transactions(3) [OF ok burn(3)])
next
  case extend
  show ?thesis unfolding extend(2) by (rule blob_transactions(4) [OF ok extend(3,4)])
next
  case extend_resource
  show ?thesis unfolding extend_resource(2) by (rule blob_transactions(5) [OF ok extend_resource(3,4,5)])
next
  case create_pool
  show ?thesis unfolding create_pool(2) by (rule create_pool_transactions(1) [OF ok create_pool(3,4)])
next
  case create_pool_with
  show ?thesis unfolding create_pool_with(2) by (rule create_pool_transactions(2) [OF ok create_pool_with(4,3,5)])
next
  case register_pooled
  show ?thesis unfolding register_pooled(2) by (rule pool_transactions(1) [OF ok register_pooled(3,4,5)])
next
  case certify_pooled
  show ?thesis unfolding certify_pooled(2) by (rule pool_transactions(2) [OF ok certify_pooled(3,4)])
next
  case delete_pooled
  show ?thesis unfolding delete_pooled(2) by (rule pool_transactions(3) [OF ok delete_pooled(3) disjI1 [OF delete_pooled(4)]])
next
  case burn_pooled
  show ?thesis unfolding burn_pooled(2) by (rule pool_transactions(3) [OF ok burn_pooled(3) disjI2 [OF burn_pooled(4)]])
next
  case extend_pool
  show ?thesis unfolding extend_pool(2) by (rule pool_capacity_transactions(1) [OF ok extend_pool(3) disjI1 [OF extend_pool(4)]])
next
  case increase_pool
  show ?thesis unfolding increase_pool(2) by (rule pool_capacity_transactions(1) [OF ok increase_pool(3) disjI2 [OF increase_pool(4)]])
next
  case increase_pool_with
  show ?thesis unfolding increase_pool_with(2) by (rule pool_capacity_transactions(2) [OF ok increase_pool_with(3,4,5)])
next
  case decrease_pool
  show ?thesis unfolding decrease_pool(2) by (rule pool_capacity_transactions(3) [OF ok decrease_pool(3,4)])
next
  case destroy_pool
  show ?thesis unfolding destroy_pool(2) by (rule pool_capacity_transactions(4) [OF ok destroy_pool(3,4)])
qed (use ok in simp)

end
