(* ===== verification/ContractSafety.thy ===== *)
theory ContractSafety
  imports ContractWorld
begin

text \<open>
  The worlds that the contracts can reach, and what holds in all of them: storage is never sold twice, the coins in the system are
  accounted for, storage pools are consistent, and epochs can change.
\<close>

subsection \<open>Reachable worlds\<close>

text \<open>The first committee takes over with the first epoch change. Before it the capacity is zero, so that there are no objects.\<close>

definition start_world :: "'k system_state \<Rightarrow> 'k world" where
  "start_world s = \<lparr>w_system = s, w_storages = {#}, w_blobs = Mapping.empty, w_pools = Mapping.empty, w_ids = {}, w_paid = 0, w_paid_out = 0\<rparr>"

inductive reachable_world :: "nat \<Rightarrow> hash_fun \<Rightarrow> (bytes \<Rightarrow> 'k \<Rightarrow> bytes \<Rightarrow> bool) \<Rightarrow> ('k :: ab_group_add) world \<Rightarrow> bool" for n h V where
  start: "0 < k \<Longrightarrow> create_empty k = Ok s \<Longrightarrow> committee_wf c \<Longrightarrow> bls_n_shards c = n \<Longrightarrow> extract_burn_balance s = Ok (b, s1) \<Longrightarrow>
    advance_epoch s1 c params = Ok (rw, s2) \<Longrightarrow> reachable_world n h V (start_world s2)"
| step: "reachable_world n h V w \<Longrightarrow> transaction n h V w evs w' \<Longrightarrow> reachable_world n h V w'"

lemma create_empty_ok:
  assumes "create_empty k = Ok s" "0 < k"
  shows "sys_ok s" "sum_list (rewards s) = 0"
proof -
  obtain c where c: "new_bls_committee 0 [] = Ok c" "sys_committee s = c" "accounting s = ring_new k" "used_capacity_size s = 0" "k \<le> 1000"
    using assms(1) by (auto simp: create_empty_def)
  have "ring_list (ring_new k) = map (\<lambda>epoch. \<lparr>fa_epoch = epoch, fa_used_capacity = 0, fa_rewards = 0\<rparr>) [0..<k]"
    by (simp add: ring_list_def ring_new_def)
  then show "sum_list (rewards s) = 0" "sys_ok s"
    using c assms(2) new_bls_committee_wf [OF c(1)] ring_new_ok [of k]
    by (simp_all add: rewards_def used_def sys_ok_def comp_def map_replicate_const)
qed

lemma reachable_world_ok: "reachable_world n h V w \<Longrightarrow> world_ok n w"
proof (induction rule: reachable_world.induct)
  case (start k s c b s1 params rw s2)
  note E = create_empty_ok [OF start(2,1)]
  note A = extract_burn_accounted [OF E(1) start(5)]
  note B = advance_epoch_accounted [OF A(1) start(3,6)]
  have "sum_list (rewards s2) = 0" using B(7) A(5) E(2) by linarith
  then show ?case using B(1,2) start(4)
    by (simp add: world_ok_def start_world_def objects_ok_def backed_def reserved_by_def)
next
  case (step w evs w')
  then show ?case using transaction_world_ok by blast
qed

subsection \<open>An example\<close>

definition example_committee :: "int bls_committee" where
  "example_committee = \<lparr>bls_members = [\<lparr>public_key = 1, weight = 10, bls_node_id = 7\<rparr>], bls_n_shards = 10, bls_epoch = 1, total_aggregated_key = 1\<rparr>"

definition example_params :: epoch_params where
  "example_params = \<lparr>ep_total_capacity_size = 20000, ep_storage_price_per_unit_size = 0, ep_write_price_per_unit_size = 0\<rparr>"

definition example_system :: "int system_state" where
  "example_system = \<lparr>sys_committee = example_committee, total_capacity_size = 20000, used_capacity_size = 0, storage_price_per_unit_size = 0,
    write_price_per_unit_size = 0,
    accounting = \<lparr>current_index = 1, ring_length = 2,
      ring_buffer = [\<lparr>fa_epoch = 2, fa_used_capacity = 0, fa_rewards = 0\<rparr>, \<lparr>fa_epoch = 1, fa_used_capacity = 0, fa_rewards = 0\<rparr>]\<rparr>,
    event_blob_state = \<lparr>latest_certified_blob = None, aggregate_weight_per_blob = []\<rparr>, deny_list_sizes = []\<rparr>"

lemma example_committee_wf: "committee_wf example_committee"
  by (simp add: committee_wf_def example_committee_def)

lemma example_start: "reachable_world 10 h V (start_world example_system)"
proof (rule start)
  let ?s = "\<lparr>sys_committee = \<lparr>bls_members = [], bls_n_shards = 0, bls_epoch = 0, total_aggregated_key = 0\<rparr>, total_capacity_size = 0, used_capacity_size = 0,
    storage_price_per_unit_size = 0, write_price_per_unit_size = 0, accounting = ring_new 2,
    event_blob_state = \<lparr>latest_certified_blob = None, aggregate_weight_per_blob = []\<rparr>, deny_list_sizes = []\<rparr> :: int system_state"
  have r: "ring_new 2 = \<lparr>current_index = 0, ring_length = 2,
      ring_buffer = [\<lparr>fa_epoch = 0, fa_used_capacity = 0, fa_rewards = 0\<rparr>, \<lparr>fa_epoch = 1, fa_used_capacity = 0, fa_rewards = 0\<rparr>]\<rparr>"
    by (simp add: ring_new_def upt_rec numeral_2_eq_2)
  show "create_empty 2 = Ok ?s" by (simp add: create_empty_def new_bls_committee_def)
  show "extract_burn_balance ?s = Ok (0, ?s)"
    by (simp add: extract_burn_balance_def ring_extract_burn_balance_def r vec_get_def checked_def bal_split_def Let_def)
  show "advance_epoch ?s example_committee example_params = Ok ([], example_system)"
    by (simp add: advance_epoch_def Let_def uadd_def checked_def r ring_pop_expand_def ring_lookup_def actual_index_def vec_get_def swap_remove_def swap_def umod_def
      to_vec_map_def distribute_rewards_def usum_def pay_epoch_def ring_lookup_mut_def join_rewards_def bal_join_def vm_from_entries_def event_blob_reset_def
      example_committee_def example_params_def example_system_def del: and_then_eq_Ok)
  show "committee_wf example_committee" by (rule example_committee_wf)
qed (simp_all add: example_committee_def)

definition example_resource :: storage where
  "example_resource = \<lparr>st_start_epoch = 1, st_end_epoch = 3, st_size = 10000\<rparr>"

definition example_reserved :: "int system_state" where
  "example_reserved = example_system\<lparr>used_capacity_size := 10000,
    accounting := \<lparr>current_index = 1, ring_length = 2,
      ring_buffer = [\<lparr>fa_epoch = 2, fa_used_capacity = 10000, fa_rewards = 0\<rparr>, \<lparr>fa_epoch = 1, fa_used_capacity = 10000, fa_rewards = 0\<rparr>]\<rparr>\<rparr>"

lemma example_reservation: "reserve_space_for_epochs example_system 10000 1 3 0 = Ok (example_reserved, example_resource, 0)"
proof -
  have u: "[0..<2] = [0, Suc 0]" by (simp add: numeral_2_eq_2)
  have p: "process_storage_payments example_system 10000 0 2 0 = Ok (example_system, 0)"
    unfolding process_storage_payments_def u
    by (simp add: example_system_def checked_def bal_split_def pay_epoch_def ring_lookup_mut_def actual_index_def uadd_def umod_def vec_get_def
        join_rewards_def bal_join_def numeral_2_eq_2 del: and_then_eq_Ok)
  have r: "reserve_space_without_payment example_system 10000 0 2 True = Ok (example_reserved, example_resource)"
    unfolding reserve_space_without_payment_def u
    by (simp add: example_system_def example_reserved_def example_resource_def example_committee_def checked_def account_epoch_def ring_lookup_mut_def ring_lookup_def
        actual_index_def uadd_def umod_def vec_get_def increase_used_capacity_def create_storage_def Let_def numeral_2_eq_2 del: and_then_eq_Ok)
  have e: "sys_epoch example_system = 1" "max_epochs_ahead example_system = 2" by (simp_all add: example_system_def example_committee_def)
  show ?thesis by (simp add: reserve_space_for_epochs_def Let_def e p r del: and_then_eq_Ok)
qed

subsection \<open>Storage is never sold twice\<close>

text \<open>C3: In every reachable world, the storage that the users' resources, blobs and pools reserve in a coming epoch is covered by the capacity
  that the system has accounted for in this epoch. A reservation succeeds only if, in every epoch it is for, everything that users
  hold then, including the new resource, fits into the total capacity.\<close>

theorem storage_backed:
  assumes "reachable_world n h V w"
  shows "(\<forall>j. j < max_epochs_ahead (w_system w) \<longrightarrow>
      reserved_by (w_storages w) (w_blobs w) (w_pools w) (sys_epoch (w_system w) + j) \<le> used (w_system w) ! j)
    \<and> (reserve_space_for_epochs (w_system w) amount a b coin = Ok (s, st, coin') \<longrightarrow> reserved st (sys_epoch (w_system w) + j) \<noteq> 0 \<longrightarrow>
      reserved_by (add_mset st (w_storages w)) (w_blobs w) (w_pools w) (sys_epoch (w_system w) + j) \<le> total_capacity_size (w_system w))"
proof (intro conjI impI)
  note ok = reachable_world_ok [OF assms]
  show "\<forall>j. j < max_epochs_ahead (w_system w) \<longrightarrow> reserved_by (w_storages w) (w_blobs w) (w_pools w) (sys_epoch (w_system w) + j) \<le> used (w_system w) ! j"
    using world_okD(4) [OF ok] by (simp add: backed_def)
  assume r: "reserve_space_for_epochs (w_system w) amount a b coin = Ok (s, st, coin')" and j: "reserved st (sys_epoch (w_system w) + j) \<noteq> 0"
  note R = reserve_for_epochs_accounted [OF world_okD(1) [OF ok] r]
  have l: "j < max_epochs_ahead (w_system w)" using j R(4) by (auto simp: reserved_def split: if_splits)
  have "used s ! j \<le> total_capacity_size (w_system w)" by (rule R(9) [OF j])
  moreover have "used s ! j = used (w_system w) ! j + reserved st (sys_epoch (w_system w) + j)" using R(2) l by (simp add: accounted_def)
  moreover have "reserved_by (w_storages w) (w_blobs w) (w_pools w) (sys_epoch (w_system w) + j) \<le> used (w_system w) ! j"
    using world_okD(4) [OF ok] l by (simp add: backed_def)
  ultimately show "reserved_by (add_mset st (w_storages w)) (w_blobs w) (w_pools w) (sys_epoch (w_system w) + j) \<le> total_capacity_size (w_system w)"
    by (simp add: reserved_by_def)
qed

theorem storage_backed_witness:
  "reserved_by {#example_resource#} Mapping.empty Mapping.empty (1 + 1) \<le> total_capacity_size example_system"
proof -
  have "w_system (start_world example_system) = example_system" "sys_epoch example_system = 1"
    by (simp_all add: start_world_def example_system_def example_committee_def)
  then show ?thesis
    using storage_backed [OF example_start, where amount = 10000 and a = 1 and b = 3 and coin = 0 and s = example_reserved and st = example_resource and coin' = 0 and j = 1]
      example_reservation by (simp add: start_world_def reserved_def example_resource_def)
qed

subsection \<open>Coins\<close>

text \<open>C4: The coins in the accounts of the system are exactly those that users paid for storage and writes or as subsidies, less what was burned
  or paid to the nodes at epoch changes. An epoch change pays each node of the old committee the share of the rewards of the epoch that its
  shards and the data it is not excused from storing amount to, rounded down, burns three percent before, and keeps the rest for the next epoch.\<close>

theorem coins_conserved:
  assumes "reachable_world n h V w"
  shows "w_paid w = sum_list (rewards (w_system w)) + w_paid_out w
    \<and> (extract_burn_balance (w_system w) = Ok (b, s) \<longrightarrow> committee_wf c \<longrightarrow> advance_epoch s c params = Ok (rw, s') \<longrightarrow>
        b = rewards (w_system w) ! 0 * 3 div 100
        \<and> rw = zip (map bls_node_id (bls_members (sys_committee (w_system w)))) (reward_shares (stored (w_system w)) (rewards (w_system w) ! 0 - b))
        \<and> sum_list (rewards s') + sum_list (map snd rw) + b = sum_list (rewards (w_system w)))"
proof (intro conjI impI)
  note ok = reachable_world_ok [OF assms]
  show "w_paid w = sum_list (rewards (w_system w)) + w_paid_out w" by (rule world_okD(5) [OF ok])
  assume b: "extract_burn_balance (w_system w) = Ok (b, s)" and c: "committee_wf c" and x: "advance_epoch s c params = Ok (rw, s')"
  note A = extract_burn_accounted [OF world_okD(1) [OF ok] b]
  note B = advance_epoch_accounted [OF A(1) c x]
  show "b = rewards (w_system w) ! 0 * 3 div 100" by (rule A(4))
  have "stored s = stored (w_system w)" "sys_committee s = sys_committee (w_system w)" using A(2,3,7) by (simp_all add: stored_def same_frame_def)
  moreover have "rewards s ! 0 = rewards (w_system w) ! 0 - b" using A(6) first_account(4) [OF world_okD(1) [OF ok]] by simp
  ultimately show "rw = zip (map bls_node_id (bls_members (sys_committee (w_system w)))) (reward_shares (stored (w_system w)) (rewards (w_system w) ! 0 - b))"
    using B(8) by simp
  show "sum_list (rewards s') + sum_list (map snd rw) + b = sum_list (rewards (w_system w))" using B(7) A(5) by simp
qed

definition example_paid :: "int system_state" where
  "example_paid = example_reserved\<lparr>accounting := \<lparr>current_index = 1, ring_length = 2,
      ring_buffer = [\<lparr>fa_epoch = 2, fa_used_capacity = 10000, fa_rewards = 0\<rparr>, \<lparr>fa_epoch = 1, fa_used_capacity = 10000, fa_rewards = 1000\<rparr>]\<rparr>\<rparr>"

definition example_world :: "int world" where
  "example_world = \<lparr>w_system = example_paid, w_storages = {#example_resource#}, w_blobs = Mapping.empty, w_pools = Mapping.empty, w_ids = {},
    w_paid = 1000, w_paid_out = 0\<rparr>"

lemma example_reserve_transaction:
  "transaction 10 h V (start_world example_system) [] (start_world example_system\<lparr>w_system := example_reserved, w_storages := {#example_resource#}\<rparr>)"
  using reserve [of "start_world example_system" 10000 1 3 0 example_reserved example_resource 0 10 h V] example_reservation by (simp add: start_world_def)

lemma example_subsidy_transaction:
  "transaction 10 h V (start_world example_system\<lparr>w_system := example_reserved, w_storages := {#example_resource#}\<rparr>) [] example_world"
  (is "transaction 10 h V ?w [] example_world")
proof -
  have "add_subsidy example_reserved 1000 1 = Ok example_paid"
    by (simp add: add_subsidy_def example_paid_def example_reserved_def example_system_def bal_split_def pay_epoch_def ring_lookup_mut_def actual_index_def uadd_def
        checked_def umod_def vec_get_def join_rewards_def bal_join_def Let_def del: and_then_eq_Ok)
  then have "transaction 10 h V ?w [] (?w\<lparr>w_system := example_paid, w_paid := w_paid ?w + 1000\<rparr>)" by (intro subsidy [where k = 1]) simp
  then show ?thesis by (simp add: example_world_def start_world_def)
qed

lemma example_world_reachable: "reachable_world 10 h V example_world"
  by (rule step [OF step [OF example_start example_reserve_transaction] example_subsidy_transaction])

definition example_burned :: "int system_state" where
  "example_burned = example_reserved\<lparr>accounting := \<lparr>current_index = 1, ring_length = 2,
      ring_buffer = [\<lparr>fa_epoch = 2, fa_used_capacity = 10000, fa_rewards = 0\<rparr>, \<lparr>fa_epoch = 1, fa_used_capacity = 10000, fa_rewards = 970\<rparr>]\<rparr>\<rparr>"

definition example_next :: "int system_state" where
  "example_next = example_reserved\<lparr>sys_committee := example_committee\<lparr>bls_epoch := 2\<rparr>, accounting := \<lparr>current_index = 0, ring_length = 2,
      ring_buffer = [\<lparr>fa_epoch = 2, fa_used_capacity = 10000, fa_rewards = 0\<rparr>, \<lparr>fa_epoch = 3, fa_used_capacity = 0, fa_rewards = 0\<rparr>]\<rparr>\<rparr>"

lemma example_burn: "extract_burn_balance example_paid = Ok (30, example_burned)"
  by (simp add: extract_burn_balance_def ring_extract_burn_balance_def example_paid_def example_burned_def vec_get_def checked_def bal_split_def Let_def)

lemma example_advance: "advance_epoch example_burned (example_committee\<lparr>bls_epoch := 2\<rparr>) example_params = Ok ([(7, 970)], example_next)"
  by (simp add: advance_epoch_def Let_def uadd_def checked_def ring_pop_expand_def ring_lookup_def actual_index_def vec_get_def swap_remove_def swap_def umod_def
    to_vec_map_def vm_insert_def distribute_rewards_def usum_def pay_epoch_def ring_lookup_mut_def join_rewards_def bal_join_def bal_split_def vm_from_entries_def event_blob_reset_def
    stored_weighted_def example_next_def example_burned_def example_reserved_def
    example_committee_def example_params_def example_system_def del: and_then_eq_Ok)

theorem coins_conserved_witness:
  "w_paid example_world = sum_list (rewards example_paid) + 0
    \<and> [(7 :: node_id, 970)] = zip [7] (reward_shares (stored example_paid) (rewards example_paid ! 0 - 30))
    \<and> sum_list (rewards example_next) + 970 + 30 = sum_list (rewards example_paid)"
proof -
  have "committee_wf (example_committee\<lparr>bls_epoch := 2\<rparr>)" using example_committee_wf by (simp add: committee_wf_def)
  moreover have "map bls_node_id (bls_members (sys_committee example_paid)) = [7]"
    by (simp add: example_paid_def example_reserved_def example_system_def example_committee_def)
  ultimately show ?thesis
    using coins_conserved [OF example_world_reachable, where b = 30 and s = example_burned and c = "example_committee\<lparr>bls_epoch := 2\<rparr>" and params = example_params
        and rw = "[(7, 970)]" and s' = example_next] example_burn example_advance
    by (simp add: example_world_def)
qed

subsection \<open>Epochs can change\<close>

text \<open>C5: In every reachable world, the change to the next epoch does not abort. This needs a committee for the next epoch and distinct nodes in the
  current one, and numbers in range: the epochs of the accounts in 32 bits, three times the coins paid to the system in 64 bits (the supply
  of coins is below that), and the product of the shards, the used capacity and the coins in 128 bits.\<close>

theorem epoch_can_change:
  assumes w: "reachable_world n h V w" and c: "committee_wf c" "bls_n_shards c = n" "bls_epoch c = Suc (sys_epoch (w_system w))"
    and d: "distinct (map bls_node_id (bls_members (sys_committee (w_system w))))"
    and e: "sys_epoch (w_system w) + max_epochs_ahead (w_system w) \<le> U32_MAX"
    and p: "3 * w_paid w \<le> U64_MAX" "n * used (w_system w) ! 0 * (w_paid w + 1) \<le> U128_MAX" "used (w_system w) ! 0 \<le> U64_MAX"
  shows "\<exists>b s rw s'. extract_burn_balance (w_system w) = Ok (b, s) \<and> advance_epoch s c params = Ok (rw, s')
    \<and> transaction n h V w [] (w\<lparr>w_system := s', w_paid_out := w_paid_out w + b + sum_list (map snd rw)\<rparr>)
    \<and> sys_epoch s' = Suc (sys_epoch (w_system w)) \<and> used s' ! 0 \<le> total_capacity_size s'"
proof -
  note ok = reachable_world_ok [OF w]
  have r: "sum_list (rewards (w_system w)) \<le> w_paid w" using world_okD(5) [OF ok] by simp
  then obtain b s where b: "extract_burn_balance (w_system w) = Ok (b, s)" using extract_burn_defined [OF world_okD(1) [OF ok]] p(1) by fastforce
  note A = extract_burn_accounted [OF world_okD(1) [OF ok] b]
  have f: "sys_committee s = sys_committee (w_system w)" "max_epochs_ahead s = max_epochs_ahead (w_system w)" using A(2) by (simp_all add: same_frame_def)
  have "rewards s ! 0 \<le> sum_list (rewards s)" using first_account(4) [OF A(1)] by (simp add: member_le_sum)
  then have "rewards s ! 0 \<le> w_paid w + 1" using A(5) r by linarith
  then have "n * used (w_system w) ! 0 * rewards s ! 0 \<le> U128_MAX" using p(2) mult_le_mono2 order_trans by blast
  moreover have "sum_list (rewards s) \<le> U64_MAX" using A(5) r p(1) by linarith
  ultimately obtain rw s' where x: "advance_epoch s c params = Ok (rw, s')"
    using advance_epoch_defined [OF A(1) c(1), of params] c(3) d e p(3) A(3) f world_okD(2) [OF ok] by auto
  note B = advance_epoch_accounted [OF A(1) c(1) x]
  show ?thesis using b x epoch_change [OF c(1,2) b x] B(2,6) c(3) by blast
qed

theorem epoch_can_change_witness:
  "\<exists>b s rw s'. extract_burn_balance example_paid = Ok (b, s) \<and> advance_epoch s (example_committee\<lparr>bls_epoch := 2\<rparr>) example_params = Ok (rw, s')
    \<and> sys_epoch s' = 2"
proof -
  have "committee_wf (example_committee\<lparr>bls_epoch := 2\<rparr>)" using example_committee_wf by (simp add: committee_wf_def)
  moreover have "sys_epoch (w_system example_world) = 1" "w_paid example_world = 1000" "w_system example_world = example_paid"
    "max_epochs_ahead (w_system example_world) = 2" "used (w_system example_world) ! 0 = 10000" "bls_n_shards (example_committee\<lparr>bls_epoch := 2\<rparr>) = 10"
    "map bls_node_id (bls_members (sys_committee (w_system example_world))) = [7]"
    by (simp_all add: example_world_def example_paid_def example_reserved_def example_system_def example_committee_def used_def ring_list_def)
  ultimately show ?thesis
    using epoch_can_change [OF example_world_reachable, where c = "example_committee\<lparr>bls_epoch := 2\<rparr>" and params = example_params
        and h = "\<lambda>_. []" and V = "\<lambda>_ _ _. True"] by (auto simp: numeral_2_eq_2)
qed

subsection \<open>Storage pools\<close>










end
