(* ===== verification/ContractNode.thy ===== *)
theory ContractNode
  imports ContractSafety BlobInfoReach
begin

text \<open>
  The contracts and a storage node together. The node handles the events of the contracts in their order; it may lag behind, but its view
  of the epoch is that of the events it has handled, and nothing the contracts do depends on it, so its table can be compared with
  the state of the contracts at the event it handles. In between it stores metadata and collects garbage. The theory shows that the
  table of the node tracks all objects that have not expired, so that the assumptions about events under which theory \<open>BlobInfoReach\<close> shows
  the node to be correct are met by the contracts.
\<close>

subsection \<open>What the node knows\<close>

definition blob_tracked :: "epoch \<Rightarrow> blob_info_table \<Rightarrow> object_id \<Rightarrow> move_blob \<Rightarrow> bool" where
  "blob_tracked now t i b \<longleftrightarrow> (now < st_end_epoch (mb_storage b) \<longrightarrow> (\<exists>x. Mapping.lookup (per_object_blob_info t) i = Some x
    \<and> po_blob_id (po_v1 x) = mb_blob_id b \<and> po_deletable (po_v1 x) = mb_deletable b \<and> po_end_epoch (po_v1 x) = st_end_epoch (mb_storage b)
    \<and> po_certified_epoch (po_v1 x) = mb_certified_epoch b \<and> not_after (mb_certified_epoch b) now))"

definition pooled_tracked :: "epoch \<Rightarrow> blob_info_table \<Rightarrow> object_id \<Rightarrow> pooled_blob \<Rightarrow> bool" where
  "pooled_tracked now t i b \<longleftrightarrow> (\<exists>y. Mapping.lookup (per_object_pooled_blob_info t) (pb_id b) = Some y \<and> pp_blob_id (pp_v1 y) = pb_blob_id b
    \<and> pp_storage_pool_id (pp_v1 y) = i \<and> pp_certified_epoch (pp_v1 y) = pb_certified_epoch b \<and> not_after (pb_certified_epoch b) now)"

definition pool_tracked :: "epoch \<Rightarrow> blob_info_table \<Rightarrow> object_id \<Rightarrow> storage_pool \<Rightarrow> bool" where
  "pool_tracked now t i p \<longleftrightarrow> (now < st_end_epoch (pl_storage p) \<longrightarrow>
    (\<exists>info. Mapping.lookup (storage_pool_info t) i = Some info \<and> pool_end_epoch info = st_end_epoch (pl_storage p))
    \<and> (\<forall>k b. Mapping.lookup (pl_blobs p) k = Some b \<longrightarrow> pooled_tracked now t i b))"

text \<open>The IDs of objects in pools are those of objects that were created, and all different.\<close>

definition pooled_ids_ok :: "(object_id, storage_pool) mapping \<Rightarrow> object_id set \<Rightarrow> bool" where
  "pooled_ids_ok P I \<longleftrightarrow> (\<forall>i p k b. Mapping.lookup P i = Some p \<longrightarrow> Mapping.lookup (pl_blobs p) k = Some b \<longrightarrow> pb_id b \<in> I
    \<and> (\<forall>i' p' k' b'. Mapping.lookup P i' = Some p' \<longrightarrow> Mapping.lookup (pl_blobs p') k' = Some b' \<longrightarrow> pb_id b' = pb_id b \<longrightarrow> i' = i \<and> k' = k))"

definition known_ids :: "blob_info_table \<Rightarrow> object_id set" where
  "known_ids t = Mapping.keys (per_object_blob_info t) \<union> Mapping.keys (per_object_pooled_blob_info t) \<union> Mapping.keys (storage_pool_info t)"

definition tracks_world :: "epoch \<Rightarrow> (object_id, move_blob) mapping \<Rightarrow> (object_id, storage_pool) mapping \<Rightarrow> object_id set \<Rightarrow> blob_info_table \<Rightarrow> bool" where
  "tracks_world now B P I t \<longleftrightarrow> (\<forall>i b. Mapping.lookup B i = Some b \<longrightarrow> blob_tracked now t i b) \<and> (\<forall>i p. Mapping.lookup P i = Some p \<longrightarrow> pool_tracked now t i p)
    \<and> known_ids t \<subseteq> I \<and> pooled_ids_ok P I"

lemma not_after_simps [simp]: "not_after None now" "not_after (Some e) now \<longleftrightarrow> e \<le> now"
  by (simp_all add: not_after_def)

lemma not_after_later: "not_after x now \<Longrightarrow> now \<le> now' \<Longrightarrow> not_after x now'"
  by (auto simp: not_after_def)

lemma node_tracksD:
  assumes "tracks_world now B P I t"
  shows "Mapping.lookup B i = Some b \<Longrightarrow> blob_tracked now t i b" "Mapping.lookup P i = Some p \<Longrightarrow> pool_tracked now t i p"
    "known_ids t \<subseteq> I" "pooled_ids_ok P I"
  using assms by (auto simp: tracks_world_def)

lemma tracks_fields [simp]:
  "tracks_world now B P I (t\<lparr>latest_handled_event_index := x\<rparr>) = tracks_world now B P I t" "tracks_world now B P I (t\<lparr>aggregate_blob_info := a\<rparr>) = tracks_world now B P I t"
  by (simp_all add: tracks_world_def blob_tracked_def pool_tracked_def pooled_tracked_def known_ids_def)

lemma unknown_id:
  assumes "tracks_world now B P I t" "i \<notin> I"
  shows "Mapping.lookup (per_object_blob_info t) i = None" "Mapping.lookup (per_object_pooled_blob_info t) i = None" "Mapping.lookup (storage_pool_info t) i = None"
  using assms by (auto simp: tracks_world_def known_ids_def keys_None)

subsection \<open>Handling of events\<close>

definition new_index :: "blob_info_table \<Rightarrow> nat \<Rightarrow> bool" where
  "new_index t i \<longleftrightarrow> \<not> has_event_been_handled (latest_handled_event_index t) i"

text \<open>The numbers of objects of one blob fit the counters of the node.\<close>

fun fits :: "blob_info_table \<Rightarrow> contract_event \<Rightarrow> bool" where
  "fits t (Inl (Registered e)) \<longleftrightarrow> count_if (of_class (br_blob_id e) (br_deletable e) False) (per_object_blob_info t) < U32_MAX"
| "fits t (Inl (PooledBlobRegistered e)) \<longleftrightarrow> count_if (of_pool (pr_blob_id e) False) (per_object_pooled_blob_info t) < U32_MAX"
| "fits t _ \<longleftrightarrow> True"

definition handle_events :: "nat \<Rightarrow> contract_event list \<Rightarrow> blob_info_table \<Rightarrow> (blob_info_table, table_error) result" where
  "handle_events i evs t = try_fold handle_indexed_event t (zip [i..<i + length evs] evs)"

lemma handle_events_simps [simp]:
  "handle_events i [] t = Ok t" "handle_events i [ev] t = handle_indexed_event t (i, ev)"
  "handle_events i [ev, ev'] t = and_then (handle_indexed_event t (i, ev)) (\<lambda>t. handle_indexed_event t (Suc i, ev'))"
  by (simp_all add: handle_events_def upt_rec and_then_return)

lemma event_accepted:
  assumes r: "reachable now t" and e: "event_ok now t ev" and i: "new_index t i"
  obtains a t1 where "update_blob_info i ev t = Ok (t1\<lparr>latest_handled_event_index := Some i\<rparr>)" "update_per_object_blob_info ev (t\<lparr>aggregate_blob_info := a\<rparr>) = Ok t1"
    "reachable now (t1\<lparr>latest_handled_event_index := Some i\<rparr>)"
proof -
  obtain t' where t': "update_blob_info i ev t = Ok t'" using event_table_ok [OF reachable_table_ok [OF r] e, of i] by blast
  moreover from this obtain a t1 where "update_per_object_blob_info ev (t\<lparr>aggregate_blob_info := a\<rparr>) = Ok t1" "t' = t1\<lparr>latest_handled_event_index := Some i\<rparr>"
    using i by (auto simp: update_blob_info_def new_index_def)
  ultimately show ?thesis using that reachable.blob_event [OF r e t'] by blast
qed

lemma one_event:
  assumes r: "reachable now t" and e: "event_ok now t ev" and i: "new_index t i"
    and s: "\<And>a t1. update_per_object_blob_info ev (t\<lparr>aggregate_blob_info := a\<rparr>) = Ok t1 \<Longrightarrow> tracks_world now B P I t1"
  shows "\<exists>t'. handle_events i [Inl ev] t = Ok t' \<and> reachable now t' \<and> tracks_world now B P I t' \<and> new_index t' (Suc i)"
proof -
  obtain a t1 where "update_blob_info i ev t = Ok (t1\<lparr>latest_handled_event_index := Some i\<rparr>)" "update_per_object_blob_info ev (t\<lparr>aggregate_blob_info := a\<rparr>) = Ok t1"
    "reachable now (t1\<lparr>latest_handled_event_index := Some i\<rparr>)" by (rule event_accepted [OF r e i])
  with s show ?thesis by (intro exI [of _ "t1\<lparr>latest_handled_event_index := Some i\<rparr>"]) (simp add: new_index_def)
qed

subsection \<open>Events about blobs\<close>

lemma pooled_ids_mono: "pooled_ids_ok P I \<Longrightarrow> I \<subseteq> I' \<Longrightarrow> pooled_ids_ok P I'"
  unfolding pooled_ids_ok_def by blast

text \<open>One entry of the table of objects changes, and the blob it is about.\<close>

lemma tracks_object_change:
  assumes t: "tracks_world now B P I t" and t1: "t1 = t\<lparr>aggregate_blob_info := a, per_object_blob_info := m\<rparr>"
    and m: "\<And>j. j \<noteq> i \<Longrightarrow> Mapping.lookup m j = Mapping.lookup (per_object_blob_info t) j"
    and B: "\<And>j b. Mapping.lookup B' j = Some b \<Longrightarrow> j \<noteq> i \<Longrightarrow> Mapping.lookup B j = Some b"
    and i: "\<And>b. Mapping.lookup B' i = Some b \<Longrightarrow> blob_tracked now t1 i b" and I: "I \<subseteq> I'" "i \<in> I'"
  shows "tracks_world now B' P I' t1"
proof -
  have "blob_tracked now t1 j b" if "Mapping.lookup B' j = Some b" for j b
    using that i node_tracksD(1) [OF t B [OF that]] m [of j] by (cases "j = i") (auto simp: blob_tracked_def t1)
  moreover have "pool_tracked now t1 j p" if "Mapping.lookup P j = Some p" for j p
    using node_tracksD(2) [OF t that] by (simp add: pool_tracked_def pooled_tracked_def t1)
  moreover have "Mapping.keys m \<subseteq> insert i (Mapping.keys (per_object_blob_info t))"
  proof
    fix j assume "j \<in> Mapping.keys m"
    then show "j \<in> insert i (Mapping.keys (per_object_blob_info t))" using m [of j] keys_None [of j m] keys_None [of j "per_object_blob_info t"] by (cases "j = i") auto
  qed
  then have "known_ids t1 \<subseteq> I'" using node_tracksD(3) [OF t] I by (auto simp: known_ids_def t1)
  ultimately show ?thesis using pooled_ids_mono [OF node_tracksD(4) [OF t] I(1)] by (simp add: tracks_world_def)
qed

lemma tracked_object:
  assumes "blob_tracked now t i b" "now < st_end_epoch (mb_storage b)"
  obtains x where "Mapping.lookup (per_object_blob_info t) i = Some (PerObjectV1 x)" "po_blob_id x = mb_blob_id b" "po_deletable x = mb_deletable b"
    "po_end_epoch x = st_end_epoch (mb_storage b)" "po_certified_epoch x = mb_certified_epoch b" "not_after (mb_certified_epoch b) now"
proof -
  obtain y where "Mapping.lookup (per_object_blob_info t) i = Some y" "po_blob_id (po_v1 y) = mb_blob_id b" "po_deletable (po_v1 y) = mb_deletable b"
    "po_end_epoch (po_v1 y) = st_end_epoch (mb_storage b)" "po_certified_epoch (po_v1 y) = mb_certified_epoch b" "not_after (mb_certified_epoch b) now"
    using assms(1) [unfolded blob_tracked_def, rule_format, OF assms(2)] by (elim exE conjE) (rule that)
  with that show ?thesis by (cases y) simp
qed

lemma registered_tracked:
  assumes r: "reachable now t" and t: "tracks_world now B P I t" and i: "i \<notin> I" and ix: "new_index t k"
    and b: "move_blob_new h i eid st bid rt len enc del now n = Ok (b, ev)" and f: "fits t (Inl ev)"
  shows "\<exists>t'. handle_events k [Inl ev] t = Ok t' \<and> reachable now t' \<and> tracks_world now (Mapping.update i b B) P (insert i I) t' \<and> new_index t' (Suc k)"
proof (rule one_event [OF r _ ix])
  note N = move_blob_new_Ok [OF b]
  note u = unknown_id [OF t i]
  show "event_ok now t ev" using f u(1) by (simp add: N(7))
  fix a t1 assume "update_per_object_blob_info ev (t\<lparr>aggregate_blob_info := a\<rparr>) = Ok t1"
  then have t1: "t1 = t\<lparr>aggregate_blob_info := a, per_object_blob_info := Mapping.update i (PerObjectV1 \<lparr>po_blob_id = bid, po_registered_epoch = now,
      po_certified_epoch = None, po_end_epoch = st_end_epoch st, po_deletable = del, po_event = eid, po_deleted = False\<rparr>) (per_object_blob_info t)\<rparr>"
    using u(1) by (auto simp: N(7) partial_merge_def merge_mergeable_def registered_change_type_def registered_change_info_def)
  show "tracks_world now (Mapping.update i b B) P (insert i I) t1"
    by (rule tracks_object_change [OF t t1, where i = i]) (auto simp: t1 lookup_update' blob_tracked_def N(1-5) split: if_splits)
qed

lemma certified_tracked:
  assumes r: "reachable now t" and t: "tracks_world now B P I t" and b: "Mapping.lookup B i = Some b" and i: "mb_id b = i" "i \<in> I" and ix: "new_index t k"
    and l: "now < st_end_epoch (mb_storage b)" and c: "mb_certified_epoch b = None" and e: "emit_certified eid (b\<lparr>mb_certified_epoch := Some now\<rparr>) False = Ok ev"
  shows "\<exists>t'. handle_events k [Inl ev] t = Ok t' \<and> reachable now t' \<and> tracks_world now (Mapping.update i (b\<lparr>mb_certified_epoch := Some now\<rparr>) B) P I t' \<and> new_index t' (Suc k)"
proof (rule one_event [OF r _ ix])
  obtain x where x: "Mapping.lookup (per_object_blob_info t) i = Some (PerObjectV1 x)" "po_blob_id x = mb_blob_id b" "po_deletable x = mb_deletable b"
      "po_end_epoch x = st_end_epoch (mb_storage b)" and xc: "po_certified_epoch x = mb_certified_epoch b" "not_after (mb_certified_epoch b) now"
    by (rule tracked_object [OF node_tracksD(1) [OF t b] l])
  from xc(1) have x': "po_certified_epoch x = None" using c by simp
  have ev: "ev = Certified \<lparr>bc_epoch = now, bc_blob_id = mb_blob_id b, bc_end_epoch = st_end_epoch (mb_storage b), bc_deletable = mb_deletable b,
      bc_object_id = i, bc_is_extension = False, bc_event_id = eid\<rparr>" using e i by (simp add: emit_certified_def)
  show "event_ok now t ev" using x x' by (simp add: ev)
  fix a t1 assume "update_per_object_blob_info ev (t\<lparr>aggregate_blob_info := a\<rparr>) = Ok t1"
  then have t1: "t1 = t\<lparr>aggregate_blob_info := a, per_object_blob_info := Mapping.update i (PerObjectV1 (x\<lparr>po_event := eid, po_certified_epoch := Some now\<rparr>)) (per_object_blob_info t)\<rparr>"
    using x x' by (auto simp: ev partial_merge_def merge_mergeable_def certified_change_type_def certified_change_info_def Let_def)
  show "tracks_world now (Mapping.update i (b\<lparr>mb_certified_epoch := Some now\<rparr>) B) P I t1"
    by (rule tracks_object_change [OF t t1, where i = i]) (use x x' i in \<open>auto simp: t1 lookup_update' blob_tracked_def split: if_splits\<close>)
qed

lemma extended_tracked:
  assumes r: "reachable now t" and t: "tracks_world now B P I t" and b: "Mapping.lookup B i = Some b" and i: "mb_id b = i" "i \<in> I" and ix: "new_index t k"
    and l: "now < st_end_epoch (mb_storage b)" and c: "mb_certified_epoch b \<noteq> None" and e: "emit_certified eid (b\<lparr>mb_storage := st\<rparr>) True = Ok ev"
  shows "\<exists>t'. handle_events k [Inl ev] t = Ok t' \<and> reachable now t' \<and> tracks_world now (Mapping.update i (b\<lparr>mb_storage := st\<rparr>) B) P I t' \<and> new_index t' (Suc k)"
proof (rule one_event [OF r _ ix])
  obtain x where x: "Mapping.lookup (per_object_blob_info t) i = Some (PerObjectV1 x)" "po_blob_id x = mb_blob_id b" "po_deletable x = mb_deletable b"
      "po_end_epoch x = st_end_epoch (mb_storage b)" and xc: "po_certified_epoch x = mb_certified_epoch b" "not_after (mb_certified_epoch b) now"
    by (rule tracked_object [OF node_tracksD(1) [OF t b] l])
  from xc(1) have x': "po_certified_epoch x \<noteq> None" using c by simp
  obtain e' where ev: "ev = Certified \<lparr>bc_epoch = e', bc_blob_id = mb_blob_id b, bc_end_epoch = st_end_epoch st, bc_deletable = mb_deletable b,
      bc_object_id = i, bc_is_extension = True, bc_event_id = eid\<rparr>" using e i by (auto simp: emit_certified_def)
  show "event_ok now t ev" using x x' by (simp add: ev)
  fix a t1 assume "update_per_object_blob_info ev (t\<lparr>aggregate_blob_info := a\<rparr>) = Ok t1"
  then have t1: "t1 = t\<lparr>aggregate_blob_info := a, per_object_blob_info := Mapping.update i (PerObjectV1 (x\<lparr>po_event := eid, po_end_epoch := st_end_epoch st\<rparr>)) (per_object_blob_info t)\<rparr>"
    using x x' by (auto simp: ev partial_merge_def merge_mergeable_def certified_change_type_def certified_change_info_def Let_def)
  show "tracks_world now (Mapping.update i (b\<lparr>mb_storage := st\<rparr>) B) P I t1"
    by (rule tracks_object_change [OF t t1, where i = i]) (use x x' xc i c in \<open>auto simp: t1 lookup_update' blob_tracked_def split: if_splits\<close>)
qed

lemma deleted_tracked:
  assumes r: "reachable now t" and t: "tracks_world now B P I t" and b: "Mapping.lookup B i = Some b" and i: "mb_id b = i" "i \<in> I" and ix: "new_index t k"
    and d: "move_blob_delete eid b now = Ok (st, ev)"
  shows "\<exists>t'. handle_events k [Inl ev] t = Ok t' \<and> reachable now t' \<and> tracks_world now (Mapping.delete i B) P I t' \<and> new_index t' (Suc k)"
proof (rule one_event [OF r _ ix])
  have l: "now < st_end_epoch (mb_storage b)" "mb_deletable b" and ev: "ev = Deleted \<lparr>bdel_epoch = now, bdel_blob_id = mb_blob_id b, bdel_end_epoch = st_end_epoch (mb_storage b),
      bdel_object_id = i, bdel_was_certified = (mb_certified_epoch b \<noteq> None), bdel_event_id = eid\<rparr>"
    using d i by (auto simp: move_blob_delete_def)
  show "event_ok now t ev" using node_tracksD(1) [OF t b] l by (auto simp: blob_tracked_def ev)
  fix a t1 assume "update_per_object_blob_info ev (t\<lparr>aggregate_blob_info := a\<rparr>) = Ok t1"
  then have t1: "t1 = t\<lparr>aggregate_blob_info := a, per_object_blob_info := Mapping.delete i (per_object_blob_info t)\<rparr>" by (auto simp: ev)
  show "tracks_world now (Mapping.delete i B) P I t1"
    by (rule tracks_object_change [OF t t1, where i = i]) (use i in \<open>auto simp: lookup_delete_iff split: if_splits\<close>)
qed

subsection \<open>Events about pools\<close>

text \<open>One pool changes, with its entry in the table of pools and the entry of an object in it.\<close>

lemma tracks_pool_change:
  assumes t: "tracks_world now B P I t" and t1: "t1 = t\<lparr>aggregate_blob_info := a, per_object_pooled_blob_info := m, storage_pool_info := pm\<rparr>"
    and m: "\<And>l. l \<noteq> j \<Longrightarrow> Mapping.lookup m l = Mapping.lookup (per_object_pooled_blob_info t) l"
    and pm: "\<And>l. l \<noteq> i \<Longrightarrow> Mapping.lookup pm l = Mapping.lookup (storage_pool_info t) l"
    and P: "\<And>l p. Mapping.lookup P' l = Some p \<Longrightarrow> l \<noteq> i \<Longrightarrow> Mapping.lookup P l = Some p"
    and i: "\<And>p. Mapping.lookup P' i = Some p \<Longrightarrow> pool_tracked now t1 i p"
    and j: "\<And>l p k b. l \<noteq> i \<Longrightarrow> Mapping.lookup P l = Some p \<Longrightarrow> Mapping.lookup (pl_blobs p) k = Some b \<Longrightarrow> pb_id b \<noteq> j"
    and I: "I \<subseteq> I'" "i \<in> I'" "j \<in> I'" "pooled_ids_ok P' I'"
  shows "tracks_world now B P' I' t1"
proof -
  have "blob_tracked now t1 l b" if "Mapping.lookup B l = Some b" for l b
    using node_tracksD(1) [OF t that] by (simp add: blob_tracked_def t1)
  moreover have "pool_tracked now t1 l p" if l: "Mapping.lookup P' l = Some p" for l p
  proof (cases "l = i")
    case True
    then show ?thesis using i l by simp
  next
    case False
    have p: "Mapping.lookup P l = Some p" by (rule P [OF l False])
    show ?thesis using node_tracksD(2) [OF t p] j [OF False p] m pm [OF False] by (auto simp: pool_tracked_def pooled_tracked_def t1)
  qed
  moreover have "l \<in> I'" if "l \<in> Mapping.keys m \<union> Mapping.keys pm" for l
    using that m [of l] pm [of l] node_tracksD(3) [OF t] I keys_None [of l m] keys_None [of l pm] keys_None [of l "per_object_pooled_blob_info t"]
      keys_None [of l "storage_pool_info t"] unfolding known_ids_def by (cases "l = j"; cases "l = i") auto
  then have "known_ids t1 \<subseteq> I'" using node_tracksD(3) [OF t] I(1) by (auto simp: known_ids_def t1)
  ultimately show ?thesis using I(4) by (simp add: tracks_world_def)
qed

lemma pooled_idsD:
  assumes "pooled_ids_ok P I" "Mapping.lookup P i = Some p" "Mapping.lookup (pl_blobs p) k = Some b"
  shows "pb_id b \<in> I" "Mapping.lookup P i' = Some p' \<Longrightarrow> Mapping.lookup (pl_blobs p') k' = Some b' \<Longrightarrow> pb_id b' = pb_id b \<Longrightarrow> i' = i \<and> k' = k"
  using assms unfolding pooled_ids_ok_def by blast+

lemma pooled_ids_update:
  assumes P: "pooled_ids_ok P I" and p: "Mapping.lookup P i = Some p"
    and b: "\<And>k b. Mapping.lookup (pl_blobs p') k = Some b \<Longrightarrow> \<exists>b0. Mapping.lookup (pl_blobs p) k = Some b0 \<and> pb_id b0 = pb_id b"
  shows "pooled_ids_ok (Mapping.update i p' P) I"
proof -
  have old: "\<exists>q0 c0. Mapping.lookup P l = Some q0 \<and> Mapping.lookup (pl_blobs q0) k = Some c0 \<and> pb_id c0 = pb_id c"
    if "Mapping.lookup (Mapping.update i p' P) l = Some q" "Mapping.lookup (pl_blobs q) k = Some c" for l q k c
    using that p b [of k c] by (auto simp: lookup_update' split: if_splits)
  show ?thesis unfolding pooled_ids_ok_def
  proof (intro allI impI conjI)
    fix l q k c assume c: "Mapping.lookup (Mapping.update i p' P) l = Some q" "Mapping.lookup (pl_blobs q) k = Some c"
    then obtain q0 c0 where o: "Mapping.lookup P l = Some q0" "Mapping.lookup (pl_blobs q0) k = Some c0" "pb_id c0 = pb_id c" using old by blast
    show "pb_id c \<in> I" using pooled_idsD(1) [OF P o(1,2)] o(3) by simp
    fix l' q' k' c' assume "Mapping.lookup (Mapping.update i p' P) l' = Some q'" "Mapping.lookup (pl_blobs q') k' = Some c'" "pb_id c' = pb_id c"
    then show "l' = l" "k' = k" using old [of l' q' k' c'] pooled_idsD(2) [OF P o(1,2)] o(3) by auto
  qed
qed

lemma pooled_ids_new:
  assumes P: "pooled_ids_ok P I" and p: "Mapping.lookup P i = Some p" and b: "pb_id b \<notin> I" and p': "pl_blobs p' = Mapping.update k b (pl_blobs p)"
  shows "pooled_ids_ok (Mapping.update i p' P) (insert (pb_id b) I)"
proof -
  have old: "l = i \<and> k' = k \<and> c = b \<or> (\<exists>q0. Mapping.lookup P l = Some q0 \<and> Mapping.lookup (pl_blobs q0) k' = Some c)"
    if "Mapping.lookup (Mapping.update i p' P) l = Some q" "Mapping.lookup (pl_blobs q) k' = Some c" for l q k' c
    using that p p' by (auto simp: lookup_update' split: if_splits)
  show ?thesis unfolding pooled_ids_ok_def
  proof (intro allI impI conjI)
    fix l q k' c assume c: "Mapping.lookup (Mapping.update i p' P) l = Some q" "Mapping.lookup (pl_blobs q) k' = Some c"
    show "pb_id c \<in> insert (pb_id b) I" using old [OF c] pooled_idsD(1) [OF P] by blast
    fix l' q' k'' c' assume c': "Mapping.lookup (Mapping.update i p' P) l' = Some q'" "Mapping.lookup (pl_blobs q') k'' = Some c'" "pb_id c' = pb_id c"
    show "l' = l" "k'' = k'" using old [OF c] old [OF c'(1,2)] c'(3) pooled_idsD [OF P] b by metis+
  qed
qed

lemma pooled_ids_subset: "pooled_ids_ok P I \<Longrightarrow> (\<And>i p. Mapping.lookup P' i = Some p \<Longrightarrow> Mapping.lookup P i = Some p \<or> pl_blobs p = Mapping.empty) \<Longrightarrow> pooled_ids_ok P' I"
  unfolding pooled_ids_ok_def by (metis lookup_empty option.distinct(1))

lemma other_pool:
  assumes "tracks_world now B P I t" "Mapping.lookup P i = Some p" "Mapping.lookup (pl_blobs p) bid = Some b" "l \<noteq> i"
    "Mapping.lookup P l = Some q" "Mapping.lookup (pl_blobs q) k = Some c"
  shows "pb_id c \<noteq> pb_id b"
  using pooled_idsD(2) [OF node_tracksD(4) [OF assms(1)] assms(2,3,5,6)] assms(4) by blast

lemma tracked_pool:
  assumes "tracks_world now B P I t" "Mapping.lookup P i = Some p" "now < st_end_epoch (pl_storage p)"
  shows "\<exists>info. Mapping.lookup (storage_pool_info t) i = Some info \<and> pool_end_epoch info = st_end_epoch (pl_storage p)"
    "Mapping.lookup (pl_blobs p) k = Some b \<Longrightarrow> pooled_tracked now t i b"
  using node_tracksD(2) [OF assms(1,2)] assms(3) unfolding pool_tracked_def by blast+

lemma pooled_registered_tracked:
  assumes r: "reachable now t" and t: "tracks_world now B P I t" and p: "Mapping.lookup P i = Some p" and i: "i \<in> I" and j: "j \<notin> I" and ix: "new_index t k"
    and b: "new_pooled_blob h j eid i bid rt len enc del now = Ok (b, ev)" and f: "fits t (Inl ev)" and l: "now < st_end_epoch (pl_storage p)"
    and p': "pl_blobs p' = Mapping.update bid b (pl_blobs p)" "pl_storage p' = pl_storage p"
  shows "\<exists>t'. handle_events k [Inl ev] t = Ok t' \<and> reachable now t' \<and> tracks_world now B (Mapping.update i p' P) (insert j I) t' \<and> new_index t' (Suc k)"
proof (rule one_event [OF r _ ix])
  have b': "pb_id b = j" "pb_blob_id b = bid" "pb_certified_epoch b = None" and ev: "ev = PooledBlobRegistered \<lparr>pr_epoch = now, pr_blob_id = bid, pr_unencoded_size = len,
      pr_encoding_type = RS2, pr_deletable = del, pr_object_id = j, pr_storage_pool_id = i, pr_event_id = eid\<rparr>"
    using b by (auto simp: new_pooled_blob_def)
  note u = unknown_id [OF t j]
  note info = tracked_pool [OF t p l]
  note ids = pooled_idsD(1) [OF node_tracksD(4) [OF t]]
  show "event_ok now t ev" using f u(2) by (simp add: ev)
  fix a t1 assume "update_per_object_blob_info ev (t\<lparr>aggregate_blob_info := a\<rparr>) = Ok t1"
  then have t1: "t1 = t\<lparr>aggregate_blob_info := a, per_object_pooled_blob_info := Mapping.update j (PooledV1 \<lparr>pp_blob_id = bid, pp_registered_epoch = now,
      pp_certified_epoch = None, pp_storage_pool_id = i, pp_event = eid\<rparr>) (per_object_pooled_blob_info t), storage_pool_info := storage_pool_info t\<rparr>"
    using u(2) by (auto simp: ev partial_merge_def merge_mergeable_def pooled_registered_change_type_def pooled_registered_change_info_def)
  have "pooled_tracked now t1 i c" if "Mapping.lookup (pl_blobs p') m = Some c" for m c
  proof (cases "m = bid")
    case True
    then show ?thesis using that b' by (simp add: p'(1) pooled_tracked_def t1)
  next
    case False
    then have c: "Mapping.lookup (pl_blobs p) m = Some c" using that by (simp add: p'(1) lookup_update')
    then have "pb_id c \<noteq> j" using ids [OF p c] j by auto
    then show ?thesis using info(2) [OF c] by (simp add: pooled_tracked_def t1 lookup_update')
  qed
  then have "pool_tracked now t1 i p'" using info p'(2) by (simp add: pool_tracked_def t1)
  moreover have "pb_id c \<noteq> j" if "Mapping.lookup P l = Some q" "Mapping.lookup (pl_blobs q) m = Some c" for l q m c using ids [OF that] j by auto
  ultimately show "tracks_world now B (Mapping.update i p' P) (insert j I) t1"
    using pooled_ids_new [OF node_tracksD(4) [OF t] p _ p'(1)] j b'(1) i
    by (intro tracks_pool_change [OF t t1, where i = i and j = j]) (auto simp: lookup_update' split: if_splits)
qed

lemma pooled_certified_tracked:
  assumes r: "reachable now t" and t: "tracks_world now B P I t" and p: "Mapping.lookup P i = Some p" and i: "i \<in> I" and ix: "new_index t k"
    and b: "Mapping.lookup (pl_blobs p) bid = Some b" "pb_certified_epoch b = None" and l: "now < st_end_epoch (pl_storage p)"
    and ev: "ev = PooledBlobCertified \<lparr>pc_epoch = now, pc_blob_id = pb_blob_id b, pc_deletable = del, pc_object_id = pb_id b, pc_storage_pool_id = q, pc_event_id = eid\<rparr>"
    and p': "p' = p\<lparr>pl_blobs := Mapping.update bid (b\<lparr>pb_certified_epoch := Some now\<rparr>) (pl_blobs p)\<rparr>"
  shows "\<exists>t'. handle_events k [Inl ev] t = Ok t' \<and> reachable now t' \<and> tracks_world now B (Mapping.update i p' P) I t' \<and> new_index t' (Suc k)"
proof (rule one_event [OF r _ ix])
  note info = tracked_pool [OF t p l]
  obtain y where "Mapping.lookup (per_object_pooled_blob_info t) (pb_id b) = Some y" "pp_blob_id (pp_v1 y) = pb_blob_id b" "pp_storage_pool_id (pp_v1 y) = i"
    "pp_certified_epoch (pp_v1 y) = None" using info(2) [OF b(1)] b(2) by (auto simp: pooled_tracked_def)
  then obtain v where v: "Mapping.lookup (per_object_pooled_blob_info t) (pb_id b) = Some (PooledV1 v)" "pp_blob_id v = pb_blob_id b" "pp_storage_pool_id v = i"
    "pp_certified_epoch v = None" by (cases y) simp
  show "event_ok now t ev" using v by (simp add: ev)
  fix a t1 assume "update_per_object_blob_info ev (t\<lparr>aggregate_blob_info := a\<rparr>) = Ok t1"
  then have t1: "t1 = t\<lparr>aggregate_blob_info := a, per_object_pooled_blob_info := Mapping.update (pb_id b) (PooledV1 (v\<lparr>pp_event := eid, pp_certified_epoch := Some now\<rparr>))
      (per_object_pooled_blob_info t), storage_pool_info := storage_pool_info t\<rparr>"
    using v by (auto simp: ev partial_merge_def merge_mergeable_def pooled_certified_change_type_def pooled_certified_change_info_def Let_def)
  note ids = pooled_idsD [OF node_tracksD(4) [OF t] p b(1)]
  have "pooled_tracked now t1 i c" if "Mapping.lookup (pl_blobs p') m = Some c" for m c
  proof (cases "m = bid")
    case True
    then show ?thesis using that v by (auto simp: p' pooled_tracked_def t1)
  next
    case False
    then have c: "Mapping.lookup (pl_blobs p) m = Some c" using that by (simp add: p' lookup_update')
    then have "pb_id c \<noteq> pb_id b" using ids(2) [OF p c] False by auto
    then show ?thesis using info(2) [OF c] by (simp add: pooled_tracked_def t1 lookup_update')
  qed
  then have "pool_tracked now t1 i p'" using info by (simp add: pool_tracked_def t1 p')
  moreover have "pooled_ids_ok (Mapping.update i p' P) I"
    by (rule pooled_ids_update [OF node_tracksD(4) [OF t] p]) (use b in \<open>auto simp: p' lookup_update' split: if_splits\<close>)
  ultimately show "tracks_world now B (Mapping.update i p' P) I t1"
    using other_pool [OF t p b(1)] i ids(1)
    by (intro tracks_pool_change [OF t t1, where i = i and j = "pb_id b"]) (auto simp: lookup_update' split: if_splits)
qed

lemma pooled_deleted_tracked:
  assumes r: "reachable now t" and t: "tracks_world now B P I t" and p: "Mapping.lookup P i = Some p" and i: "i \<in> I" and ix: "new_index t k"
    and b: "Mapping.lookup (pl_blobs p) bid = Some b" and l: "now < st_end_epoch (pl_storage p)" and d: "delete_blob_object eid b now = Ok ev"
    and p': "pl_blobs p' = Mapping.delete bid (pl_blobs p)" "pl_storage p' = pl_storage p"
  shows "\<exists>t'. handle_events k [Inl ev] t = Ok t' \<and> reachable now t' \<and> tracks_world now B (Mapping.update i p' P) I t' \<and> new_index t' (Suc k)"
proof (rule one_event [OF r _ ix])
  have ev: "ev = PooledBlobDeleted \<lparr>pd_epoch = now, pd_blob_id = pb_blob_id b, pd_object_id = pb_id b,
      pd_was_certified = (pb_certified_epoch b \<noteq> None), pd_storage_pool_id = pb_storage_pool_id b, pd_event_id = eid\<rparr>"
    using d by (auto simp: delete_blob_object_def)
  note info = tracked_pool [OF t p l]
  show "event_ok now t ev" using info(2) [OF b] by (auto simp: pooled_tracked_def ev)
  fix a t1 assume "update_per_object_blob_info ev (t\<lparr>aggregate_blob_info := a\<rparr>) = Ok t1"
  then have t1: "t1 = t\<lparr>aggregate_blob_info := a, per_object_pooled_blob_info := Mapping.delete (pb_id b) (per_object_pooled_blob_info t),
      storage_pool_info := storage_pool_info t\<rparr>" by (auto simp: ev)
  note ids = pooled_idsD [OF node_tracksD(4) [OF t] p b]
  have "pooled_tracked now t1 i c" if m: "Mapping.lookup (pl_blobs p') m = Some c" for m c
  proof -
    have c: "Mapping.lookup (pl_blobs p) m = Some c" "m \<noteq> bid" using m by (auto simp: p' lookup_delete_iff split: if_splits)
    then have "pb_id c \<noteq> pb_id b" using ids(2) [OF p c(1)] by auto
    then show ?thesis using info(2) [OF c(1)] by (simp add: pooled_tracked_def t1 lookup_delete_iff)
  qed
  then have "pool_tracked now t1 i p'" using info p'(2) by (simp add: pool_tracked_def t1)
  moreover have "pooled_ids_ok (Mapping.update i p' P) I"
    by (rule pooled_ids_update [OF node_tracksD(4) [OF t] p]) (auto simp: p' lookup_delete_iff split: if_splits)
  ultimately show "tracks_world now B (Mapping.update i p' P) I t1"
    using other_pool [OF t p b] i ids(1)
    by (intro tracks_pool_change [OF t t1, where i = i and j = "pb_id b"]) (auto simp: lookup_update' lookup_delete_iff split: if_splits)
qed

text \<open>A pool is created or extended.\<close>

lemma pool_event_tracked:
  assumes r: "reachable now t" and t: "tracks_world now B P I t" and ix: "new_index t k" and I: "I \<subseteq> I'" "i \<in> I'"
    and u: "pool_merge (Mapping.lookup (storage_pool_info t) i) (storage_pool_event_operand ev) = (Ok (Some info) :: (storage_pool_info option, table_error) result)" "pool_event_storage_pool_id ev = i"
    and e: "pool_end_epoch info = st_end_epoch (pl_storage p')"
    and b: "\<And>k b. Mapping.lookup (pl_blobs p') k = Some b \<Longrightarrow> pooled_tracked now t i b" "pooled_ids_ok (Mapping.update i p' P) I'"
  shows "\<exists>t'. handle_events k [Inr ev] t = Ok t' \<and> reachable now t' \<and> tracks_world now B (Mapping.update i p' P) I' t' \<and> new_index t' (Suc k)"
proof -
  let ?t = "t\<lparr>storage_pool_info := Mapping.update i info (storage_pool_info t), latest_handled_event_index := Some k\<rparr>"
  have x: "update_storage_pool_info k ev t = Ok ?t"
    using ix u by (simp add: update_storage_pool_info_def new_index_def partial_merge_def merge_mergeable_def)
  let ?t1 = "t\<lparr>aggregate_blob_info := aggregate_blob_info t, per_object_pooled_blob_info := per_object_pooled_blob_info t,
    storage_pool_info := Mapping.update i info (storage_pool_info t)\<rparr>"
  have "blob_tracked now ?t1 l c" if "Mapping.lookup B l = Some c" for l c using node_tracksD(1) [OF t that] by (simp add: blob_tracked_def)
  moreover have "pool_tracked now ?t1 l q" if "Mapping.lookup (Mapping.update i p' P) l = Some q" for l q
    using that e b(1) node_tracksD(2) [OF t, of l q] by (auto simp: lookup_update' pool_tracked_def pooled_tracked_def split: if_splits)
  moreover have "known_ids ?t1 \<subseteq> I'" using node_tracksD(3) [OF t] I by (auto simp: known_ids_def)
  ultimately have "tracks_world now B (Mapping.update i p' P) I' ?t1" using b(2) by (simp add: tracks_world_def)
  then have "tracks_world now B (Mapping.update i p' P) I' ?t" by simp
  then show ?thesis using x reachable.pool_event [OF r x] by (intro exI [of _ ?t]) (simp add: new_index_def)
qed

subsection \<open>Transactions\<close>

text \<open>Transactions without events, and objects that are gone or expired.\<close>

lemma tracks_weaken:
  assumes t: "tracks_world now B P I t" and n: "now \<le> now'" and B: "\<And>i b. Mapping.lookup B' i = Some b \<Longrightarrow> Mapping.lookup B i = Some b"
    and P: "\<And>i p. Mapping.lookup P' i = Some p \<Longrightarrow> Mapping.lookup P i = Some p" and I: "I \<subseteq> I'"
  shows "tracks_world now' B' P' I' t"
proof -
  have "blob_tracked now' t i b" if "Mapping.lookup B' i = Some b" for i b
    using node_tracksD(1) [OF t B [OF that]] n not_after_later [OF _ n] by (auto simp: blob_tracked_def)
  moreover have "pool_tracked now' t i p" if "Mapping.lookup P' i = Some p" for i p
    using node_tracksD(2) [OF t P [OF that]] n not_after_later [OF _ n] by (fastforce simp: pool_tracked_def pooled_tracked_def)
  moreover have "known_ids t \<subseteq> I'" using node_tracksD(3) [OF t] I by blast
  moreover have "pooled_ids_ok P' I'" using pooled_ids_mono [OF pooled_ids_subset [OF node_tracksD(4) [OF t], of P'] I] P by blast
  ultimately show ?thesis by (simp add: tracks_world_def)
qed

lemma tracks_same_pool:
  assumes t: "tracks_world now B P I t" and p: "Mapping.lookup P i = Some p" and e: "st_end_epoch (pl_storage p') = st_end_epoch (pl_storage p)"
    and b: "pl_blobs p' = pl_blobs p \<or> st_end_epoch (pl_storage p) \<le> now \<and> pl_blobs p' = Mapping.delete k (pl_blobs p)"
  shows "tracks_world now B (Mapping.update i p' P) I t"
proof -
  have "pooled_ids_ok (Mapping.update i p' P) I"
    by (rule pooled_ids_update [OF node_tracksD(4) [OF t] p]) (use b in \<open>auto simp: lookup_delete_iff split: if_splits\<close>)
  moreover have "pool_tracked now t i p'" using node_tracksD(2) [OF t p] b by (auto simp: pool_tracked_def e)
  ultimately show ?thesis using t by (auto simp: tracks_world_def lookup_update')
qed

text \<open>What is shown for every transaction.\<close>

definition followed :: "('k :: ab_group_add) world \<Rightarrow> nat \<Rightarrow> contract_event list \<Rightarrow> blob_info_table \<Rightarrow> bool" where
  "followed w k evs t \<longleftrightarrow> (\<exists>t'. handle_events k evs t = Ok t' \<and> reachable (sys_epoch (w_system w)) t'
    \<and> tracks_world (sys_epoch (w_system w)) (w_blobs w) (w_pools w) (w_ids w) t')"

lemma followed_event:
  assumes "\<exists>t'. handle_events k evs t = Ok t' \<and> reachable now t' \<and> tracks_world now B P I t' \<and> new_index t' (Suc k)"
    "sys_epoch (w_system w) = now" "w_blobs w = B" "w_pools w = P" "w_ids w = I"
  shows "followed w k evs t"
  using assms by (auto simp: followed_def)

lemma followed_none:
  assumes "reachable now t" "now \<le> sys_epoch (w_system w)" "tracks_world (sys_epoch (w_system w)) (w_blobs w) (w_pools w) (w_ids w) t"
  shows "followed w k [] t"
  using assms reachable.epoch_change [OF assms(1,2)] by (simp add: followed_def)

lemma followed_blob:
  assumes ok: "world_ok n w" and r: "reachable (sys_epoch (w_system w)) t" and t: "tracks_world (sys_epoch (w_system w)) (w_blobs w) (w_pools w) (w_ids w) t"
    and ix: "new_index t k" and b: "Mapping.lookup (w_blobs w) i = Some b"
  shows "certify_blob V eid (w_system w) b sig bitmap msg = Ok (b', ev) \<Longrightarrow> followed (w\<lparr>w_blobs := Mapping.update i b' (w_blobs w)\<rparr>) k [Inl ev] t"
    "delete_blob eid (w_system w) b = Ok (st, ev) \<Longrightarrow>
      followed (w\<lparr>w_storages := add_mset st (w_storages w), w_blobs := Mapping.delete i (w_blobs w)\<rparr>) k [Inl ev] t"
    "extend_blob eid (w_system w) b m coin = Ok (s, b', coin', ev) \<Longrightarrow>
      followed (w\<lparr>w_system := s, w_blobs := Mapping.update i b' (w_blobs w), w_paid := w_paid w + (coin - coin')\<rparr>) k [Inl ev] t"
    "extend_blob_with_resource eid (w_system w) b st = Ok (b', ev) \<Longrightarrow>
      followed (w\<lparr>w_storages := S, w_blobs := Mapping.update i b' (w_blobs w)\<rparr>) k [Inl ev] t"
proof -
  have i: "mb_id b = i" "i \<in> w_ids w" "storage_ok (mb_storage b)"
    using objects_okD(4) [OF world_okD(3) [OF ok] b] by (auto simp: blob_ok_def resource_ok_def)
  note X = extended_tracked [OF r t b i(1,2) ix]
  show "followed (w\<lparr>w_blobs := Mapping.update i b' (w_blobs w)\<rparr>) k [Inl ev] t" if x: "certify_blob V eid (w_system w) b sig bitmap msg = Ok (b', ev)"
  proof -
    obtain m where "certify_with_certified_msg eid b (sys_epoch (w_system w)) m = Ok (b', ev)" using certify_blob_Ok [OF x] by blast
    note C = certify_Ok [OF this]
    show ?thesis by (rule followed_event [OF certified_tracked [OF r t b i(1,2) ix C(3,2) C(4) [unfolded C(1)]]]) (simp_all add: C(1))
  qed
  show "followed (w\<lparr>w_storages := add_mset st (w_storages w), w_blobs := Mapping.delete i (w_blobs w)\<rparr>) k [Inl ev] t" if "delete_blob eid (w_system w) b = Ok (st, ev)"
    by (rule followed_event [OF deleted_tracked [OF r t b i(1,2) ix that [unfolded delete_blob_def]]]) simp_all
  show "followed (w\<lparr>w_system := s, w_blobs := Mapping.update i b' (w_blobs w), w_paid := w_paid w + (coin - coin')\<rparr>) k [Inl ev] t"
    if x: "extend_blob eid (w_system w) b m coin = Ok (s, b', coin', ev)"
  proof -
    note E = extend_blob_accounted [OF world_okD(1) [OF ok] i(3) x]
    have "sys_epoch s = sys_epoch (w_system w)" using E(2) accountedD(2) by metis
    then show ?thesis by (intro followed_event [OF X [OF E(7,8) E(6) [unfolded E(5)]]]) (simp_all add: E(5))
  qed
  show "followed (w\<lparr>w_storages := S, w_blobs := Mapping.update i b' (w_blobs w)\<rparr>) k [Inl ev] t" if x: "extend_blob_with_resource eid (w_system w) b st = Ok (b', ev)"
  proof -
    note E = extend_resource_Ok [OF x]
    obtain st' where b': "b' = b\<lparr>mb_storage := st'\<rparr>" using E(1) by blast
    show ?thesis by (rule followed_event [OF X [OF E(4,3) E(2) [unfolded b']]]) (simp_all add: b')
  qed
qed

lemma followed_pool:
  assumes ok: "world_ok n w" and r: "reachable (sys_epoch (w_system w)) t" and t: "tracks_world (sys_epoch (w_system w)) (w_blobs w) (w_pools w) (w_ids w) t"
    and ix: "new_index t k" and p: "Mapping.lookup (w_pools w) i = Some p"
  shows "j \<notin> w_ids w \<Longrightarrow> register_pooled_blob h j eid (w_system w) p bid rt len enc del coin = Ok (s, p', coin', ev) \<Longrightarrow> fits t (Inl ev) \<Longrightarrow>
      followed (w\<lparr>w_system := s, w_pools := Mapping.update i p' (w_pools w), w_ids := insert j (w_ids w), w_paid := w_paid w + (coin - coin')\<rparr>) k [Inl ev] t"
    "certify_pooled_blob V eid (w_system w) p bid sig bitmap msg = Ok (p', ev) \<Longrightarrow> followed (w\<lparr>w_pools := Mapping.update i p' (w_pools w)\<rparr>) k [Inl ev] t"
    "delete_pooled_blob eid (w_system w) p bid = Ok (p', ev) \<Longrightarrow> followed (w\<lparr>w_pools := Mapping.update i p' (w_pools w)\<rparr>) k [Inl ev] t"
    "burn_expired_pooled_blob (w_system w) p bid = Ok p' \<Longrightarrow> followed (w\<lparr>w_pools := Mapping.update i p' (w_pools w)\<rparr>) k [] t"
    "extend_storage_pool eid (w_system w) p m coin = Ok (s, p', coin', pev) \<Longrightarrow>
      followed (w\<lparr>w_system := s, w_pools := Mapping.update i p' (w_pools w), w_paid := w_paid w + (coin - coin')\<rparr>) k [Inr pev] t"
proof -
  have P: "pool_ok n p" "pl_id p = i" "i \<in> w_ids w" "storage_ok (pl_storage p)"
    using objects_okD(5) [OF world_okD(3) [OF ok] p] by (auto simp: pool_in_def resource_ok_def)
  show "followed (w\<lparr>w_system := s, w_pools := Mapping.update i p' (w_pools w), w_ids := insert j (w_ids w), w_paid := w_paid w + (coin - coin')\<rparr>) k [Inl ev] t"
    if j: "j \<notin> w_ids w" and x: "register_pooled_blob h j eid (w_system w) p bid rt len enc del coin = Ok (s, p', coin', ev)" and f: "fits t (Inl ev)"
  proof -
    note E = register_pooled_accounted [OF world_okD(1) [OF ok] x]
    obtain b m where b: "new_pooled_blob h j eid i bid rt len enc del (sys_epoch (w_system w)) = Ok (b, ev)" "pool_add_blob p b m = Ok p'"
      "sys_epoch (w_system w) < st_end_epoch (pl_storage p)" using E(3) P(2) by auto
    have "pl_blobs p' = Mapping.update bid b (pl_blobs p)" "pl_storage p' = pl_storage p" using b(1,2) by (auto simp: pool_add_blob_def new_pooled_blob_def)
    note T = pooled_registered_tracked [OF r t p P(3) j ix b(1) f b(3) this]
    show ?thesis by (rule followed_event [OF T]) (use accountedD(2) [OF E(2)] in simp_all)
  qed
  show "followed (w\<lparr>w_pools := Mapping.update i p' (w_pools w)\<rparr>) k [Inl ev] t" if x: "certify_pooled_blob V eid (w_system w) p bid sig bitmap msg = Ok (p', ev)"
  proof -
    obtain b where b: "Mapping.lookup (pl_blobs p) bid = Some b" "p' = p\<lparr>pl_blobs := Mapping.update bid (b\<lparr>pb_certified_epoch := Some (sys_epoch (w_system w))\<rparr>) (pl_blobs p)\<rparr>"
      "pb_certified_epoch b = None" "sys_epoch (w_system w) < st_end_epoch (pl_storage p)"
      "ev = PooledBlobCertified \<lparr>pc_epoch = sys_epoch (w_system w), pc_blob_id = pb_blob_id b, pc_deletable = pb_deletable b,
        pc_object_id = pb_id b, pc_storage_pool_id = pb_storage_pool_id b, pc_event_id = eid\<rparr>" by (rule certify_pooled_Ok [OF x])
    show ?thesis by (rule followed_event [OF pooled_certified_tracked [OF r t p P(3) ix b(1,3,4,5,2)]]) simp_all
  qed
  show "followed (w\<lparr>w_pools := Mapping.update i p' (w_pools w)\<rparr>) k [Inl ev] t" if x: "delete_pooled_blob eid (w_system w) p bid = Ok (p', ev)"
  proof -
    obtain b where b: "Mapping.lookup (pl_blobs p) bid = Some b" "pl_blobs p' = Mapping.delete bid (pl_blobs p)" "pl_storage p' = pl_storage p"
      "sys_epoch (w_system w) < st_end_epoch (pl_storage p) \<and> delete_blob_object eid b (sys_epoch (w_system w)) = Ok ev"
      using remove_pooled_Ok [OF P(1) world_okD(2) [OF ok] disjI1 [OF x]] x by metis
    note T = pooled_deleted_tracked [OF r t p P(3) ix b(1) conjunct1 [OF b(4)] conjunct2 [OF b(4)] b(2,3)]
    show ?thesis by (rule followed_event [OF T]) simp_all
  qed
  show "followed (w\<lparr>w_pools := Mapping.update i p' (w_pools w)\<rparr>) k [] t" if x: "burn_expired_pooled_blob (w_system w) p bid = Ok p'"
  proof -
    have "pl_blobs p' = Mapping.delete bid (pl_blobs p)" "pl_storage p' = pl_storage p"
      using remove_pooled_Ok [OF P(1) world_okD(2) [OF ok] disjI2 [OF x]] by metis+
    moreover have "st_end_epoch (pl_storage p) \<le> sys_epoch (w_system w)" using x by (auto simp: burn_expired_pooled_blob_def)
    ultimately show ?thesis using tracks_same_pool [OF t p, of p' bid] by (intro followed_none [OF r]) simp_all
  qed
  show "followed (w\<lparr>w_system := s, w_pools := Mapping.update i p' (w_pools w), w_paid := w_paid w + (coin - coin')\<rparr>) k [Inr pev] t"
    if x: "extend_storage_pool eid (w_system w) p m coin = Ok (s, p', coin', pev)"
  proof -
    note E = extend_pool_accounted [OF world_okD(1) [OF ok] P(4) x]
    obtain info where info: "Mapping.lookup (storage_pool_info t) i = Some info" "pool_end_epoch info = st_end_epoch (pl_storage p)"
      using tracked_pool(1) [OF t p E(5)] by blast
    have u: "pool_merge (Mapping.lookup (storage_pool_info t) i) (storage_pool_event_operand pev)
        = (Ok (Some (StoragePoolV1 (case info of StoragePoolV1 v \<Rightarrow> v\<lparr>sp_end_epoch := st_end_epoch (pl_storage p')\<rparr>))) :: (storage_pool_info option, table_error) result)"
      "pool_event_storage_pool_id pev = i"
      using info E(4) P(2) by (cases info; simp add: E(7))+
    have "pooled_ids_ok (Mapping.update i p' (w_pools w)) (w_ids w)" by (rule pooled_ids_update [OF node_tracksD(4) [OF t] p]) (simp add: E(4))
    then have "\<exists>t'. handle_events k [Inr pev] t = Ok t' \<and> reachable (sys_epoch (w_system w)) t'
      \<and> tracks_world (sys_epoch (w_system w)) (w_blobs w) (Mapping.update i p' (w_pools w)) (w_ids w) t' \<and> new_index t' (Suc k)"
      using tracked_pool(2) [OF t p E(5)] by (intro pool_event_tracked [OF r t ix order_refl P(3) u]) (auto simp: E(4) split: storage_pool_info.splits)
    moreover have "sys_epoch s = sys_epoch (w_system w)" using E(2) accountedD(2) by metis
    ultimately show ?thesis by (intro followed_event) simp_all
  qed
qed

lemma followed_create:
  assumes ok: "world_ok n w" and r: "reachable (sys_epoch (w_system w)) t" and t: "tracks_world (sys_epoch (w_system w)) (w_blobs w) (w_pools w) (w_ids w) t"
    and ix: "new_index t k" and i: "i \<notin> w_ids w" and c: "create_storage_pool_with_storage i eid s st = Ok (p, ev)"
    and w': "sys_epoch (w_system w') = sys_epoch (w_system w)" "w_blobs w' = w_blobs w" "w_pools w' = Mapping.update i p (w_pools w)" "w_ids w' = insert i (w_ids w)"
  shows "followed w' k [Inr ev] t"
proof -
  have p: "p = pool_create i st" and ev: "ev = StoragePoolCreated \<lparr>spc_epoch = sys_epoch s, spc_storage_pool_id = i,
      spc_reserved_encoded_capacity_bytes = st_size st, spc_start_epoch = st_start_epoch st, spc_end_epoch = st_end_epoch st, spc_event_id = eid\<rparr>"
    using c by (auto simp: create_storage_pool_with_storage_def)
  have u: "pool_merge (Mapping.lookup (storage_pool_info t) i) (storage_pool_event_operand ev)
      = (Ok (Some (storage_pool_info_new (st_start_epoch st) (st_end_epoch st))) :: (storage_pool_info option, table_error) result)"
    "pool_event_storage_pool_id ev = i"
    using unknown_id(3) [OF t i] by (simp_all add: ev)
  have "pooled_ids_ok (Mapping.update i p (w_pools w)) (insert i (w_ids w))"
    by (rule pooled_ids_mono [OF pooled_ids_subset [OF node_tracksD(4) [OF t]]]) (auto simp: lookup_update' p pool_create_def split: if_splits)
  then have "\<exists>t'. handle_events k [Inr ev] t = Ok t' \<and> reachable (sys_epoch (w_system w)) t'
    \<and> tracks_world (sys_epoch (w_system w)) (w_blobs w) (Mapping.update i p (w_pools w)) (insert i (w_ids w)) t' \<and> new_index t' (Suc k)"
    by (intro pool_event_tracked [OF r t ix subset_insertI insertI1 u]) (auto simp: p pool_create_def storage_pool_info_new_def)
  then show ?thesis by (rule followed_event) (simp_all add: w')
qed

lemma followed_event_blob:
  assumes ok: "world_ok n w" and r: "reachable (sys_epoch (w_system w)) t" and t: "tracks_world (sys_epoch (w_system w)) (w_blobs w) (w_pools w) (w_ids w) t"
    and ix: "new_index t k" and i: "i \<notin> w_ids w" and x: "certify_event_blob h i eid eid' (w_system w) cap bid rt len enc num e = Ok (s, cap', evs)"
    and f: "list_all (fits t) (map Inl evs)"
  shows "followed (w\<lparr>w_system := s, w_ids := insert i (w_ids w)\<rparr>) k (map Inl evs) t"
proof -
  let ?e = "sys_epoch (w_system w)"
  note E = certify_event_blob_accounted [OF world_okD(1) [OF ok] x]
  have s: "sys_epoch s = ?e" using E(1) accountedD(2) by metis
  show ?thesis using E(2)
  proof (elim disjE exE conjE)
    assume "evs = []"
    then show ?thesis using s tracks_weaken [OF t order_refl, of "w_blobs w" "w_pools w" "insert i (w_ids w)"] by (simp add: followed_none [OF r] subset_insertI)
  next
    fix st b b' ev ev'
    assume evs: "evs = [ev, ev']" and b: "move_blob_new h i eid st bid rt len enc False ?e (sys_n_shards (w_system w)) = Ok (b, ev)"
      and c: "certify_with_certified_msg eid' b ?e (certified_event_blob_message bid) = Ok (b', ev')"
    note N = move_blob_new_Ok [OF b] and C = certify_Ok [OF c]
    obtain t1 where t1: "handle_events k [Inl ev] t = Ok t1" "reachable ?e t1" "tracks_world ?e (Mapping.update i b (w_blobs w)) (w_pools w) (insert i (w_ids w)) t1"
        "new_index t1 (Suc k)"
      using registered_tracked [OF r t i ix b] f evs by auto
    have "Mapping.lookup (Mapping.update i b (w_blobs w)) i = Some b" by simp
    from certified_tracked [OF t1(2,3) this N(2) insertI1 t1(4) C(3,2) C(4) [unfolded C(1)]]
    obtain t2 where t2: "handle_events (Suc k) [Inl ev'] t1 = Ok t2" "reachable ?e t2"
        "tracks_world ?e (Mapping.update i (b\<lparr>mb_certified_epoch := Some ?e\<rparr>) (Mapping.update i b (w_blobs w))) (w_pools w) (insert i (w_ids w)) t2" by blast
    have "Mapping.lookup (w_blobs w) i = None"
      using objects_okD(4) [OF world_okD(3) [OF ok], of i] i by (cases "Mapping.lookup (w_blobs w) i") (auto simp: blob_ok_def)
    then have "tracks_world ?e (w_blobs w) (w_pools w) (insert i (w_ids w)) t2"
      by (intro tracks_weaken [OF t2(3) order_refl]) (auto simp: lookup_update' split: if_splits)
    then show ?thesis using t1(1) t2(1,2) s by (simp add: followed_def evs)
  qed
qed

end
