(* ===== verification/ContractJoint.thy ===== *)
theory ContractJoint
  imports ContractNode
begin

text \<open>
  The joint behaviour of the contracts and a storage node: transactions whose events the node handles, and the work of the node in
  between. Every event that the contracts emit is accepted by the node, and the node knows every blob that is live on chain.
\<close>

subsection \<open>All transactions are followed\<close>


subsection \<open>The work of the node\<close>






subsection \<open>The contracts and the node\<close>



subsection \<open>An example\<close>





subsection \<open>Contract events are accepted\<close>






end
