(* ===== verification/Spec2Isabelle.thy ===== *)
theory Spec2Isabelle
  imports Prelude Bft Axis Merkle CoreTypes EncodingConfig Metadata Symbols Codec BasicEncoding Slivers ShardMapping
    BlobEncoder BlobMatrix BlobEncoding Inconsistency BlobDecoder BlobDecoding BlobReading
    BlobEvents PermBlobInfo BlobInfoV1 BlobInfoV2 BlobInfoTable BlobInfoGc BlobInfoInvariant BlobInfoConsistent BlobInfoCleanup
    BlobDataCleanup BlobInfoReach BlobInfoRecovery QuiltTypes Quilt QuiltLayout QuiltReading QuiltSize QuiltEncoding BcsExample QuiltCorrect QuiltSafety
    MoveBase ApportionmentQueue Apportionment ActiveSet Committee CommitteeSelection
    StorageResource StorageAccounting MoveEncoding Certificates MoveBlob StoragePool SystemState SystemAccounting EpochChange
    ContractWorld ContractSafety ContractNode ContractJoint
begin

text \<open>
  A verification library for the core of Walrus, the decentralised blob store: the erasure coding and
  authentication of blobs in \<open>crates/walrus-core\<close>, and the per-blob bookkeeping that a storage node
  keeps in \<open>crates/walrus-service/src/node/storage/blob_info\<close>.
\<close>

end
